(* ===== verification/Prelude.thy ===== *)
theory Prelude
  imports Main "HOL-Library.Word"
begin

text \<open>
  Shared vocabulary of the development: the faults a C or C++ statement can end in, results that
  may be such a fault, and the generic list lemmas the components use.
\<close>

section \<open>Faults and results\<close>

datatype fault =
    AssertFail      \<comment> \<open>a failed assert: the process aborts\<close>
  | OutOfBounds     \<comment> \<open>a read or write outside an array\<close>
  | NullDeref       \<comment> \<open>a null pointer is dereferenced\<close>
  | ThrowOutOfRange \<comment> \<open>an uncaught std::out\_of\_range\<close>
  | NoReturn        \<comment> \<open>control falls off the end of a non-void function\<close>
  | IntOverflow     \<comment> \<open>a signed addition leaves the range of int\<close>
  | UseAfterFree    \<comment> \<open>an object is used after its memory was given back\<close>

type_synonym 'a res = "fault + 'a"

definition bind_res :: "'a res \<Rightarrow> ('a \<Rightarrow> 'b res) \<Rightarrow> 'b res" where
  "bind_res x f = (case x of Inl e \<Rightarrow> Inl e | Inr a \<Rightarrow> f a)"

lemma bind_res_simps [simp]:
  "bind_res (Inl e) f = Inl e"
  "bind_res (Inr a) f = f a"
  by (simp_all add: bind_res_def)

lemma bind_res_Inr_iff:
  "bind_res x f = Inr b \<longleftrightarrow> (\<exists>a. x = Inr a \<and> f a = Inr b)"
  by (cases x) auto

lemma bind_res_cong [fundef_cong]:
  "x = y \<Longrightarrow> (\<And>a. y = Inr a \<Longrightarrow> f a = g a) \<Longrightarrow> bind_res x f = bind_res y g"
  by (cases y) auto

definition cell :: "'a list \<Rightarrow> nat \<Rightarrow> 'a res" where
  "cell p i = (if i < length p then Inr (p ! i) else Inl OutOfBounds)"

lemma cell_Inr_iff [simp]: "cell p i = Inr c \<longleftrightarrow> i < length p \<and> p ! i = c"
  by (auto simp: cell_def)

lemma cell_inside: "i < length p \<Longrightarrow> cell p i = Inr (p ! i)"
  by simp

section \<open>Lists\<close>

lemma dropWhile_tl_drop_suffix: "\<exists>X. xs = X @ dropWhile P (tl (drop n xs))"
proof -
  have "xs = (take (Suc n) xs @ takeWhile P (drop (Suc n) xs)) @ dropWhile P (drop (Suc n) xs)"
    by (simp del: drop_Suc take_Suc)
  then show ?thesis by (metis drop_Suc tl_drop)
qed

lemma last_take_nth: "0 < k \<Longrightarrow> k \<le> length p \<Longrightarrow> last (take k p) = p ! (k - 1)"
  by (subst last_conv_nth) (auto simp: min_def)

text \<open>Counting over a list that one update changes: the sum loses the old summand and gains the new.\<close>

lemma sum_list_map_update:
  fixes f :: "'a \<Rightarrow> nat"
  shows "i < length xs \<Longrightarrow> sum_list (map f (xs[i := x])) + f (xs ! i) = sum_list (map f xs) + f x"
  by (induction xs arbitrary: i) (auto split: nat.split)

lemma sum_list_map_member_le:
  fixes f :: "'a \<Rightarrow> nat"
  shows "i < length xs \<Longrightarrow> f (xs ! i) \<le> sum_list (map f xs)"
  by (induction xs arbitrary: i) (auto simp: nth_Cons split: nat.split intro: trans_le_add2)

end
