(* ===== verification/CLib.thy ===== *)
theory CLib
  imports Prelude
begin

text \<open>
  The C library functions the services call on characters and strings, in the C locale.
  A C string is its characters without the terminating NUL: \<open>hdz\<close> reads the NUL at its end.
\<close>

section \<open>Characters\<close>

abbreviation NUL :: char where "NUL \<equiv> CHR 0x00"
abbreviation LF :: char where "LF \<equiv> CHR 0x0A"
abbreviation CR :: char where "CR \<equiv> CHR 0x0D"
abbreviation TAB :: char where "TAB \<equiv> CHR 0x09"

definition isspace_c :: "char \<Rightarrow> bool" where
  "isspace_c c \<longleftrightarrow> c \<in> {CHR '' '', TAB, LF, CHR 0x0B, CHR 0x0C, CR}"

definition isdigit_c :: "char \<Rightarrow> bool" where
  "isdigit_c c \<longleftrightarrow> (let n = (of_char c :: nat) in 48 \<le> n \<and> n \<le> 57)"

definition tolower_c :: "char \<Rightarrow> char" where
  "tolower_c c = (let n = (of_char c :: nat) in if 65 \<le> n \<and> n \<le> 90 then char_of (n + 32) else c)"

definition hdz :: "string \<Rightarrow> char" where
  "hdz s = (case s of [] \<Rightarrow> NUL | c # _ \<Rightarrow> c)"

lemma hdz_simps [simp]: "hdz [] = NUL" "hdz (c # s) = c"
  by (simp_all add: hdz_def)

lemma isspace_c_NUL [simp]: "\<not> isspace_c NUL"
  by (simp add: isspace_c_def)

lemma of_char_tolower_c:
  "(of_char (tolower_c c) :: nat) = (let n = of_char c in if 65 \<le> n \<and> n \<le> 90 then n + 32 else n)"
  by (simp add: tolower_c_def Let_def)

lemma tolower_c_NUL [simp]: "tolower_c NUL = NUL"
  by (simp add: tolower_c_def)

lemma tolower_c_eq_NUL [simp]: "tolower_c c = NUL \<longleftrightarrow> c = NUL"
proof
  assume "tolower_c c = NUL"
  then have "(of_char (tolower_c c) :: nat) = 0" by simp
  then have "(of_char c :: nat) = 0"
    by (simp add: of_char_tolower_c Let_def split: if_splits)
  then have "(of_char c :: nat) = of_char NUL" by simp
  then show "c = NUL" by (rule of_char_eqI)
qed simp

section \<open>strncasecmp\<close>

text \<open>\<open>strncasecmp_eq0 n a b\<close>: the call \<open>strncasecmp(a, b, n)\<close> returns 0.\<close>

fun strncasecmp_eq0 :: "nat \<Rightarrow> string \<Rightarrow> string \<Rightarrow> bool" where
  "strncasecmp_eq0 0 a b = True"
| "strncasecmp_eq0 (Suc n) a b =
     (tolower_c (hdz a) = tolower_c (hdz b) \<and>
      (hdz a = NUL \<or> strncasecmp_eq0 n (tl a) (tl b)))"

definition lower_c :: "string \<Rightarrow> string" where
  "lower_c s = map tolower_c s"

lemma lower_c_simps [simp]:
  "lower_c [] = []" "lower_c (c # s) = tolower_c c # lower_c s"
  "length (lower_c s) = length s" "lower_c (s @ t) = lower_c s @ lower_c t"
  by (simp_all add: lower_c_def)

lemma NUL_eq_tolower_c [simp]: "NUL = tolower_c c \<longleftrightarrow> c = NUL"
  using tolower_c_eq_NUL [of c] by metis

lemma strncasecmp_eq0_take:
  assumes "NUL \<notin> set a" and "NUL \<notin> set b"
  shows "strncasecmp_eq0 n a b \<longleftrightarrow> lower_c (take n a) = lower_c (take n b)"
  using assms
proof (induction n arbitrary: a b)
  case (Suc n)
  show ?case
  proof (cases a)
    case Nil
    with Suc.prems show ?thesis
      by (cases b) (auto dest: sym)
  next
    case (Cons x xs)
    with Suc show ?thesis
      by (cases b) (auto dest: sym)
  qed
qed simp

text \<open>With \<open>n\<close> the length of \<open>a\<close>, the call tests that \<open>a\<close> is a case-insensitive prefix of \<open>b\<close>.\<close>

definition prefix_ci :: "string \<Rightarrow> string \<Rightarrow> bool" where
  "prefix_ci a b \<longleftrightarrow> length a \<le> length b \<and> lower_c (take (length a) b) = lower_c a"

lemma prefix_ci_refl [simp]: "prefix_ci a a"
  by (simp add: prefix_ci_def)

lemma prefix_ci_append [simp]: "prefix_ci a (a @ b)"
  by (simp add: prefix_ci_def)

lemma lower_c_eq_length: "lower_c a = lower_c b \<Longrightarrow> length a = length b"
  by (metis lower_c_simps(3))

lemma strncasecmp_eq0_swap: "strncasecmp_eq0 n a b = strncasecmp_eq0 n b a"
  by (induction n arbitrary: a b) (auto dest: sym simp: eq_commute [of "tolower_c _" NUL])

lemma strncasecmp_eq0_prefix:
  "NUL \<notin> set a \<Longrightarrow> NUL \<notin> set b \<Longrightarrow>
     strncasecmp_eq0 (length a) (a @ rest) b \<longleftrightarrow> prefix_ci a b"
proof (induction a arbitrary: b)
  case (Cons x a)
  then show ?case
    by (cases b) (auto simp: prefix_ci_def dest: sym)
qed (simp add: prefix_ci_def)

declare strncasecmp_eq0.simps [simp del]

section \<open>Decimal numbers: printing with \%d and atoi\<close>

definition digit_c :: "nat \<Rightarrow> char" where
  "digit_c d = char_of (48 + d)"

definition digit_val :: "char \<Rightarrow> int" where
  "digit_val c = int (of_char c) - 48"

fun show_nat :: "nat \<Rightarrow> string" where
  "show_nat n = (if n < 10 then [digit_c n] else show_nat (n div 10) @ [digit_c (n mod 10)])"

declare show_nat.simps [simp del]

definition show_int :: "int \<Rightarrow> string" where
  "show_int i = (if i < 0 then CHR ''-'' # show_nat (nat (- i)) else show_nat (nat i))"

text \<open>
  \<open>atoi\<close> as glibc has it: \<open>strtol\<close> in base 10, which saturates at the 64-bit long, cut to 32 bits.
\<close>

fun digits_val :: "int \<Rightarrow> string \<Rightarrow> int" where
  "digits_val acc [] = acc"
| "digits_val acc (c # s) = (if isdigit_c c then digits_val (10 * acc + digit_val c) s else acc)"

definition strtol10 :: "string \<Rightarrow> int" where
  "strtol10 s =
     (case dropWhile isspace_c s of
        [] \<Rightarrow> 0
      | c # t \<Rightarrow>
          if c = CHR ''-'' then max (- (2 ^ 63)) (- digits_val 0 t)
          else if c = CHR ''+'' then min (2 ^ 63 - 1) (digits_val 0 t)
          else min (2 ^ 63 - 1) (digits_val 0 (c # t)))"

definition int32_of :: "int \<Rightarrow> int" where
  "int32_of i = (i + 2 ^ 31) mod 2 ^ 32 - 2 ^ 31"

definition atoi :: "string \<Rightarrow> int" where
  "atoi s = int32_of (strtol10 s)"

lemma int32_of_id: "- (2 ^ 31) \<le> i \<Longrightarrow> i < 2 ^ 31 \<Longrightarrow> int32_of i = i"
  by (simp add: int32_of_def)

lemma int32_of_range: "- (2 ^ 31) \<le> int32_of i \<and> int32_of i < 2 ^ 31"
  by (simp add: int32_of_def)

lemma of_char_digit_c: "d < 10 \<Longrightarrow> (of_char (digit_c d) :: nat) = 48 + d"
  by (simp add: digit_c_def)

lemma isdigit_digit_c [simp]: "d < 10 \<Longrightarrow> isdigit_c (digit_c d)"
  by (simp add: isdigit_c_def of_char_digit_c Let_def)

lemma digit_val_digit_c [simp]: "d < 10 \<Longrightarrow> digit_val (digit_c d) = int d"
  by (simp add: digit_val_def of_char_digit_c)

lemma digit_c_values [simp]:
  "digit_c 0 = CHR ''0''" "digit_c (Suc 0) = CHR ''1''" "digit_c 1 = CHR ''1''"
  "digit_c 2 = CHR ''2''" "digit_c 3 = CHR ''3''" "digit_c 4 = CHR ''4''" "digit_c 5 = CHR ''5''"
  "digit_c 6 = CHR ''6''" "digit_c 7 = CHR ''7''" "digit_c 8 = CHR ''8''" "digit_c 9 = CHR ''9''"
  by code_simp+

lemma show_nat_digits: "c \<in> set (show_nat n) \<Longrightarrow> isdigit_c c"
proof (induction n rule: show_nat.induct)
  case (1 n)
  then show ?case
    by (cases "n < 10") (auto simp: show_nat.simps [of n])
qed

lemma show_nat_nonempty [simp]: "show_nat n \<noteq> []"
  by (subst show_nat.simps) simp

lemma digits_val_append:
  "(\<And>c. c \<in> set s \<Longrightarrow> isdigit_c c) \<Longrightarrow> digits_val acc (s @ t) = digits_val (digits_val acc s) t"
  by (induction s arbitrary: acc) auto

lemma digits_val_show_nat: "digits_val 0 (show_nat n) = int n"
proof (induction n rule: show_nat.induct)
  case (1 n)
  show ?case
  proof (cases "n < 10")
    case True
    then show ?thesis by (simp add: show_nat.simps [of n])
  next
    case False
    have "10 * int (n div 10) + int (n mod 10) = int n" by presburger
    with False "1.IH"
    have "digits_val 0 (show_nat (n div 10) @ [digit_c (n mod 10)]) = int n"
      by (subst digits_val_append) (auto dest: show_nat_digits)
    with False show ?thesis by (simp add: show_nat.simps [of n])
  qed
qed

lemma show_nat_length: "n < 10 ^ k \<Longrightarrow> 0 < k \<Longrightarrow> length (show_nat n) \<le> k"
proof (induction n arbitrary: k rule: show_nat.induct)
  case (1 n)
  show ?case
  proof (cases "n < 10")
    case False
    then obtain m where k: "k = Suc m" "0 < m"
      using "1.prems" by (metis less_nat_zero_code gr0_conv_Suc One_nat_def not_gr_zero power_one_right)
    then have "n div 10 < 10 ^ m" using "1.prems" by (simp add: less_mult_imp_div_less mult.commute)
    with "1.IH" [OF False this k(2)] False k show ?thesis by (simp add: show_nat.simps [of n])
  qed (use "1.prems" in \<open>simp add: show_nat.simps [of n]\<close>)
qed

lemma digits_val_bound: "(\<And>c. c \<in> set s \<Longrightarrow> isdigit_c c) \<Longrightarrow> 0 \<le> acc \<Longrightarrow>
    0 \<le> digits_val acc s \<and> digits_val acc s < (acc + 1) * 10 ^ length s"
proof (induction s arbitrary: acc)
  case (Cons c s)
  then have d: "isdigit_c c" by simp
  then have v: "0 \<le> digit_val c" "digit_val c \<le> 9" by (auto simp: isdigit_c_def digit_val_def Let_def)
  with Cons.prems have "0 \<le> 10 * acc + digit_val c" by simp
  from Cons.IH [OF _ this] Cons.prems
  have ih: "0 \<le> digits_val (10 * acc + digit_val c) s"
    "digits_val (10 * acc + digit_val c) s < (10 * acc + digit_val c + 1) * 10 ^ length s" by auto
  have "(10 * acc + digit_val c + 1) * 10 ^ length s \<le> (10 * acc + 10) * 10 ^ length s"
    using v by (intro mult_right_mono) auto
  also have "(10 * acc + 10) * 10 ^ length s = (acc + 1) * 10 ^ length (c # s)" by (simp add: algebra_simps)
  finally have "digits_val (10 * acc + digit_val c) s < (acc + 1) * 10 ^ length (c # s)"
    using ih(2) by (rule order_less_le_trans [rotated])
  with ih(1) d show ?case by (simp only: digits_val.simps if_True simp_thms)
qed simp

lemma isdigit_not_space: "isdigit_c c \<Longrightarrow> \<not> isspace_c c \<and> c \<noteq> CHR ''-'' \<and> c \<noteq> CHR ''+''"
  by (auto simp: isdigit_c_def isspace_c_def)

lemma strtol10_show_nat:
  assumes "n < 2 ^ 63"
  shows "strtol10 (show_nat n) = int n"
proof -
  obtain c t where ct: "show_nat n = c # t"
    using show_nat_nonempty [of n] by (cases "show_nat n") auto
  have "isdigit_c c" using show_nat_digits [of c n] ct by simp
  then have "\<not> isspace_c c" "c \<noteq> CHR ''-''" "c \<noteq> CHR ''+''"
    using isdigit_not_space by blast+
  moreover have "digits_val 0 (c # t) = int n"
    using digits_val_show_nat [of n] ct by simp
  ultimately show ?thesis
    using assms by (simp add: strtol10_def ct del: digits_val.simps)
qed

lemma strtol10_show_int:
  assumes "- (2 ^ 63) \<le> i" and "i < 2 ^ 63"
  shows "strtol10 (show_int i) = i"
proof (cases "i < 0")
  case True
  then have "\<not> isspace_c CHR ''-''" by (simp add: isspace_c_def)
  with True assms show ?thesis
    by (simp add: show_int_def strtol10_def digits_val_show_nat)
next
  case False
  with assms show ?thesis by (simp add: show_int_def strtol10_show_nat)
qed

lemma atoi_show_int: "- (2 ^ 31) \<le> i \<Longrightarrow> i < 2 ^ 31 \<Longrightarrow> atoi (show_int i) = i"
  by (simp add: atoi_def strtol10_show_int int32_of_id)

lemma atoi_range: "- (2 ^ 31) \<le> atoi s \<and> atoi s < 2 ^ 31"
  unfolding atoi_def by (rule int32_of_range)

end
