(* ===== verification/ConfReader.thy ===== *)
theory ConfReader
  imports CLib
begin

text \<open>
  The ini reader of both services (\<open>ConfReader.cpp\<close>, the same file in SipSupService and
  SipSubService). A buffer is the list of its bytes; reading outside it is \<open>OutOfBounds\<close>.
  \<open>parse_file\<close> and the functions before it are the loops of the code, over indices into the
  buffer; \<open>ini_lookup\<close> is the reference they are proved equal to, over the text itself.
\<close>

section \<open>The loops of the code\<close>

definition MAX_INI_FILE_SIZE :: nat where
  "MAX_INI_FILE_SIZE = 1024 * 10"

definition EOF_c :: char where
  "EOF_c = CHR 0xFF"

text \<open>
  \<open>load_ini_file\<close>: bytes are read until the first one equal to \<open>(char)EOF\<close>, which the byte
  0xFF also is. The file is \<open>None\<close> when it cannot be opened.
\<close>

definition fgetc_at :: "string \<Rightarrow> nat \<Rightarrow> char" where
  "fgetc_at f k = (if k < length f then f ! k else EOF_c)"

fun load_loop :: "string \<Rightarrow> nat \<Rightarrow> nat \<Rightarrow> string \<Rightarrow> (string \<times> nat) res" where
  "load_loop f 0 i buf = Inl AssertFail"
| "load_loop f (Suc n) i buf =
     (if buf ! i \<noteq> EOF_c
      then (if n = 0 then Inl AssertFail
            else load_loop f n (Suc i) (buf[Suc i := fgetc_at f (Suc i)]))
      else Inr (buf[i := NUL], i))"

definition load_ini_file :: "string option \<Rightarrow> string \<Rightarrow> (string \<times> nat) option res" where
  "load_ini_file file buf =
     (case file of
        None \<Rightarrow> Inr None
      | Some f \<Rightarrow> bind_res (load_loop f MAX_INI_FILE_SIZE 0 (buf[0 := fgetc_at f 0])) (\<lambda>r. Inr (Some r)))"

definition newline :: "char \<Rightarrow> bool" where
  "newline c \<longleftrightarrow> c = LF \<or> c = CR"

definition end_of_string :: "char \<Rightarrow> bool" where
  "end_of_string c \<longleftrightarrow> c = NUL"

definition left_barce :: "char \<Rightarrow> bool" where
  "left_barce c \<longleftrightarrow> c = CHR ''[''"

definition right_brace :: "char \<Rightarrow> bool" where
  "right_brace c \<longleftrightarrow> c = CHR '']''"

lemmas char_class_defs = newline_def end_of_string_def left_barce_def right_brace_def

text \<open>The out-parameters of \<open>parse_file\<close>.\<close>

record ini_pos =
  sec_s :: int
  sec_e :: int
  key_s :: int
  key_e :: int
  value_s :: int
  value_e :: int

text \<open>\<open>do { i++; } while (!right_brace(p[i]) && !end_of_string(p[i]))\<close>\<close>

function find_rbrace :: "string \<Rightarrow> nat \<Rightarrow> nat res" where
  "find_rbrace p i =
     bind_res (cell p (Suc i)) (\<lambda>c.
       if \<not> right_brace c \<and> \<not> end_of_string c then find_rbrace p (Suc i) else Inr (Suc i))"
  by pat_completeness auto
termination
  by (relation "measure (\<lambda>(p, i). length p - i)") auto

text \<open>\<open>while (isspace(p[i])) i++\<close>\<close>

function skip_space :: "string \<Rightarrow> nat \<Rightarrow> nat res" where
  "skip_space p i =
     bind_res (cell p i) (\<lambda>c. if isspace_c c then skip_space p (Suc i) else Inr i)"
  by pat_completeness auto
termination
  by (relation "measure (\<lambda>(p, i). length p - i)") auto

text \<open>\<open>while (!newline(p[i]) && !end_of_string(p[i])) i++\<close>\<close>

function find_eol :: "string \<Rightarrow> nat \<Rightarrow> nat res" where
  "find_eol p i =
     bind_res (cell p i) (\<lambda>c. if \<not> newline c \<and> \<not> end_of_string c then find_eol p (Suc i) else Inr i)"
  by pat_completeness auto
termination
  by (relation "measure (\<lambda>(p, i). length p - i)") auto

text \<open>\<open>while (' ' == p[valid] || '\t' == p[valid]) valid++\<close>\<close>

definition blank :: "char \<Rightarrow> bool" where
  "blank c \<longleftrightarrow> c = CHR '' '' \<or> c = TAB"

function skip_blank :: "string \<Rightarrow> nat \<Rightarrow> nat res" where
  "skip_blank p v =
     bind_res (cell p v) (\<lambda>c. if blank c then skip_blank p (Suc v) else Inr v)"
  by pat_completeness auto
termination
  by (relation "measure (\<lambda>(p, v). length p - v)") auto

text \<open>
  The scan of one line, \<open>newline_start\<close> to \<open>i\<close>, for \<open>key =\<close>: the four positions of a hit.
\<close>

function key_scan :: "string \<Rightarrow> string \<Rightarrow> nat \<Rightarrow> nat \<Rightarrow> nat \<Rightarrow> nat \<Rightarrow> (nat \<times> nat \<times> nat \<times> nat) option res" where
  "key_scan key p newline_start i j valid =
     (if \<not> j < i then Inr None
      else bind_res (cell p j) (\<lambda>c.
        if c = CHR ''='' then Inr None
        else bind_res (cell p (Suc j)) (\<lambda>d.
          let valid' = (if d \<noteq> CHR '' '' \<and> d \<noteq> TAB \<and> d \<noteq> CHR ''='' then Suc j else valid)
          in if d = CHR ''='' \<and> strncasecmp_eq0 (valid' - newline_start + 1) key (drop newline_start p)
             then bind_res (skip_blank p (Suc (Suc j))) (\<lambda>v. Inr (Some (newline_start, j, v, i)))
             else key_scan key p newline_start i (Suc j) valid')))"
  by pat_completeness auto
termination
  by (relation "measure (\<lambda>(key, p, ns, i, j, valid). i - j)") auto

declare find_rbrace.simps [simp del] skip_space.simps [simp del] find_eol.simps [simp del]
  skip_blank.simps [simp del] key_scan.simps [simp del]

lemma find_rbrace_bounds: "find_rbrace p i = Inr k \<Longrightarrow> i < k \<and> k < length p"
proof (induction p i rule: find_rbrace.induct)
  case (1 p i)
  then show ?case
    by (subst (asm) (2) find_rbrace.simps) (auto simp: bind_res_Inr_iff split: if_splits)
qed

lemma skip_space_bounds: "skip_space p i = Inr k \<Longrightarrow> i \<le> k \<and> k < length p"
proof (induction p i rule: skip_space.induct)
  case (1 p i)
  then show ?case
    by (subst (asm) (2) skip_space.simps) (force simp: bind_res_Inr_iff split: if_splits)
qed

lemma find_eol_bounds: "find_eol p i = Inr k \<Longrightarrow> i \<le> k \<and> k < length p"
proof (induction p i rule: find_eol.induct)
  case (1 p i)
  then show ?case
    by (subst (asm) (2) find_eol.simps) (force simp: bind_res_Inr_iff split: if_splits)
qed

text \<open>
  The lines of a section: \<open>Inl i\<close> when the section ends at \<open>i\<close> without a hit, \<open>Inr\<close> the hit.
\<close>

function in_section :: "string \<Rightarrow> string \<Rightarrow> nat \<Rightarrow> (nat + (nat \<times> nat \<times> nat \<times> nat)) res" where
  "in_section key p i =
     bind_res (cell p (i - 1)) (\<lambda>c0. bind_res (cell p i) (\<lambda>c.
       if (newline c0 \<and> left_barce c) \<or> end_of_string c then Inr (Inl i)
       else bind_res (find_eol p i) (\<lambda>i'.
         bind_res (if c \<noteq> CHR ''#'' then key_scan key p i i' i i else Inr None) (\<lambda>h.
           case h of
             Some r \<Rightarrow> Inr (Inr r)
           | None \<Rightarrow> in_section key p (Suc i')))))"
  by pat_completeness auto
termination
  by (relation "measure (\<lambda>(key, p, i). length p - i)") (auto dest: find_eol_bounds)

declare in_section.simps [simp del]

text \<open>One unfolding of \<open>in_section\<close>, by the way it can go on: its proofs are inductions with this rule.\<close>

lemma in_section_cases:
  assumes "in_section key p i = Inr r"
  obtains
    (stop) "i - 1 < length p" "i < length p" "r = Inl i"
      "newline (p ! (i - 1)) \<and> left_barce (p ! i) \<or> end_of_string (p ! i)"
  | (line) i' h where "i - 1 < length p" "i < length p"
      "\<not> (newline (p ! (i - 1)) \<and> left_barce (p ! i))" "\<not> end_of_string (p ! i)"
      "find_eol p i = Inr i'"
      "(if p ! i \<noteq> CHR ''#'' then key_scan key p i i' i i else Inr None) = Inr h"
      "(\<exists>x. h = Some x \<and> r = Inr x) \<or> (h = None \<and> in_section key p (Suc i') = Inr r)"
proof -
  from assms have u: "bind_res (cell p (i - 1)) (\<lambda>c0. bind_res (cell p i) (\<lambda>c.
       if (newline c0 \<and> left_barce c) \<or> end_of_string c then Inr (Inl i)
       else bind_res (find_eol p i) (\<lambda>i'.
         bind_res (if c \<noteq> CHR ''#'' then key_scan key p i i' i i else Inr None) (\<lambda>h.
           case h of Some r \<Rightarrow> Inr (Inr r) | None \<Rightarrow> in_section key p (Suc i'))))) = Inr r"
    by (subst (asm) in_section.simps) assumption
  then have b: "i - 1 < length p" "i < length p"
    by (auto simp: bind_res_Inr_iff)
  show thesis
  proof (cases "newline (p ! (i - 1)) \<and> left_barce (p ! i) \<or> end_of_string (p ! i)")
    case True
    with u b have "r = Inl i" by (simp add: cell_def)
    with True b show thesis by (intro stop)
  next
    case False
    with u b obtain i' h where "find_eol p i = Inr i'"
      "(if p ! i \<noteq> CHR ''#'' then key_scan key p i i' i i else Inr None) = Inr h"
      "(case h of Some r \<Rightarrow> Inr (Inr r) | None \<Rightarrow> in_section key p (Suc i')) = Inr r"
      by (auto simp: cell_def bind_res_Inr_iff simp del: de_Morgan_conj)
    with False b show thesis by (intro line [of i' h]) (auto split: option.splits)
  qed
qed

lemma in_section_bounds: "in_section key p i = Inr (Inl k) \<Longrightarrow> i \<le> k \<and> k < length p"
proof (induction key p i rule: in_section.induct)
  case (1 key p i)
  from "1.prems" show ?case
  proof (cases rule: in_section_cases)
    case (line i' h)
    then have eol: "i \<le> i'" and next_line: "in_section key p (Suc i') = Inr (Inl k)" and "h = None"
      by (auto dest: find_eol_bounds)
    with line have "Suc i' \<le> k \<and> k < length p"
      by (intro "1.IH" [of "p ! (i - 1)" "p ! i" i' h]) auto
    with eol show ?thesis by simp
  qed simp
qed

text \<open>\<open>parse_file\<close>: the result is the return value with the out-parameters.\<close>

function parse_loop :: "string \<Rightarrow> string \<Rightarrow> string \<Rightarrow> nat \<Rightarrow> ini_pos \<Rightarrow> (bool \<times> ini_pos) res" where
  "parse_loop section key p i pos =
     bind_res (cell p i) (\<lambda>c.
       if end_of_string c then Inr (False, pos)
       else if (i = 0 \<or> newline (p ! (i - 1))) \<and> left_barce c
       then let section_start = Suc i in
         bind_res (find_rbrace p i) (\<lambda>i1.
           if strncasecmp_eq0 (i1 - section_start) (drop section_start p) section
           then bind_res (skip_space p (Suc i1)) (\<lambda>i2.
             let pos' = pos\<lparr>sec_s := int section_start, sec_e := int i2\<rparr> in
             bind_res (in_section key p i2) (\<lambda>r.
               case r of
                 Inr (ks, ke, vs, ve) \<Rightarrow>
                   Inr (True, pos'\<lparr>key_s := int ks, key_e := int ke, value_s := int vs, value_e := int ve\<rparr>)
               | Inl i3 \<Rightarrow> parse_loop section key p i3 pos'))
           else parse_loop section key p i1 pos)
       else parse_loop section key p (Suc i) pos)"
  by pat_completeness auto
termination
  by (relation "measure (\<lambda>(section, key, p, i, pos). length p - i)")
     (auto dest!: find_rbrace_bounds skip_space_bounds in_section_bounds)

declare parse_loop.simps [simp del]

definition no_pos :: ini_pos where
  "no_pos = \<lparr>sec_s = -1, sec_e = -1, key_s = -1, key_e = -1, value_s = -1, value_e = -1\<rparr>"

definition parse_file :: "string \<Rightarrow> string \<Rightarrow> string \<Rightarrow> (bool \<times> ini_pos) res" where
  "parse_file section key buf =
     (if section = [] \<or> key = [] then Inl AssertFail else parse_loop section key buf 0 no_pos)"

text \<open>
  \<open>read_profile_string\<close>: \<open>value\<close> is the caller's array of \<open>sz\<close> bytes; the result is the return
  value and the array after the call, which is the array before it when the key is not found.
\<close>

definition read_profile_string ::
    "string \<Rightarrow> string \<Rightarrow> string \<Rightarrow> nat \<Rightarrow> string option \<Rightarrow> (bool \<times> string) res" where
  "read_profile_string section key value sz file =
     (if section = [] \<or> key = [] \<or> sz = 0 then Inl AssertFail
      else bind_res (load_ini_file file (replicate MAX_INI_FILE_SIZE NUL)) (\<lambda>l.
        case l of
          None \<Rightarrow> Inr (False, value)
        | Some (buf, file_size) \<Rightarrow>
            bind_res (parse_file section key buf) (\<lambda>(found, pos).
              if \<not> found then Inr (False, value)
              else let n = nat (value_e pos - value_s pos);
                       cpcount = (if sz - 1 < n then sz - 1 else n);
                       copied = take cpcount (drop (nat (value_s pos)) buf) @ drop cpcount value
                   in Inr (True, copied[cpcount := NUL]))))"

definition read_profile_int :: "string \<Rightarrow> string \<Rightarrow> string option \<Rightarrow> int res" where
  "read_profile_int section key file =
     bind_res (read_profile_string section key (replicate 32 NUL) 32 file) (\<lambda>(found, value).
       Inr (if \<not> found then -1 else atoi (takeWhile (\<lambda>c. c \<noteq> NUL) value)))"

text \<open>
  \<open>readStr\<close>: the array \<open>buf[1024]\<close> is not initialised, so its contents on entry are the parameter
  \<open>junk\<close>. The loop cuts it at the first blank; the returned \<open>string\<close> is read up to a NUL, and out
  of the array when there is none.
\<close>

fun cut_blank :: "string \<Rightarrow> string res" where
  "cut_blank [] = Inl OutOfBounds"
| "cut_blank (c # s) =
     (if c = TAB \<or> c = CHR '' '' \<or> c = NUL then Inr [] else bind_res (cut_blank s) (\<lambda>t. Inr (c # t)))"

definition readStr :: "string \<Rightarrow> string option \<Rightarrow> string \<Rightarrow> string \<Rightarrow> string res" where
  "readStr m_section file junk key =
     bind_res (read_profile_string m_section key junk 1024 file) (\<lambda>(found, buf). cut_blank buf)"

definition readInt :: "string \<Rightarrow> string option \<Rightarrow> string \<Rightarrow> int res" where
  "readInt m_section file key = read_profile_int m_section key file"

text \<open>
  The object: its file name and the section set last. A call of its methods also needs the files
  of the machine (\<open>fst src\<close>: contents by name) and, for \<open>readStr\<close>, what the array holds on entry,
  which may differ from call to call (\<open>snd src\<close>: by key).
\<close>

record conf_reader =
  m_fileName :: string
  m_section :: string

type_synonym conf_src = "(string \<Rightarrow> string option) \<times> (string \<Rightarrow> string)"

definition ConfReader_new :: "string \<Rightarrow> conf_reader" where
  "ConfReader_new fileName = \<lparr>m_fileName = fileName, m_section = []\<rparr>"

definition setSection :: "string \<Rightarrow> conf_reader \<Rightarrow> conf_reader" where
  "setSection sec c = c\<lparr>m_section := sec\<rparr>"

definition conf_readStr :: "conf_src \<Rightarrow> conf_reader \<Rightarrow> string \<Rightarrow> string res" where
  "conf_readStr src c key = readStr (m_section c) (fst src (m_fileName c)) (snd src key) key"

definition conf_readInt :: "conf_src \<Rightarrow> conf_reader \<Rightarrow> string \<Rightarrow> int res" where
  "conf_readInt src c key = readInt (m_section c) (fst src (m_fileName c)) key"

section \<open>The reference: a line-based reading of the text\<close>

definition rstrip_blank :: "string \<Rightarrow> string" where
  "rstrip_blank s = rev (dropWhile blank (rev s))"

text \<open>
  The value a line gives to \<open>key\<close>: the line is no comment, has an \<open>=\<close> after its first character,
  and the text before it, without trailing blanks, is a case-insensitive prefix of \<open>key\<close>.
\<close>

definition line_value :: "string \<Rightarrow> string \<Rightarrow> string option" where
  "line_value key line =
     (case line of
        [] \<Rightarrow> None
      | c # cs \<Rightarrow>
          if c = CHR ''#'' \<or> c = CHR ''='' then None
          else let k = takeWhile (\<lambda>d. d \<noteq> CHR ''='') cs; rest = drop (length k) cs
               in if rest = [] \<or> \<not> prefix_ci (c # rstrip_blank k) key then None
                  else Some (dropWhile blank (tl rest)))"

function section_lookup :: "string \<Rightarrow> bool \<Rightarrow> string \<Rightarrow> string + string" where
  "section_lookup key nl s =
     (if s = [] \<or> (nl \<and> left_barce (hd s)) then Inl s
      else let line = takeWhile (\<lambda>c. \<not> newline c) s
           in case line_value key line of
                Some v \<Rightarrow> Inr v
              | None \<Rightarrow> section_lookup key True (drop (Suc (length line)) s))"
  by pat_completeness auto
termination
  by (relation "measure (\<lambda>(key, nl, s). length s)") auto

declare section_lookup.simps [simp del]

lemma section_lookup_length: "section_lookup key nl s = Inl t \<Longrightarrow> length t \<le> length s"
proof (induction key nl s rule: section_lookup.induct)
  case (1 key nl s)
  from "1.prems" show ?case
    by (subst (asm) section_lookup.simps)
       (auto simp: Let_def split: if_splits option.splits dest!: "1.IH" [rotated -1])
qed

function ini_lookup :: "string \<Rightarrow> string \<Rightarrow> bool \<Rightarrow> string \<Rightarrow> string option" where
  "ini_lookup section key bol [] = None"
| "ini_lookup section key bol (c # r) =
     (if bol \<and> left_barce c
      then let name = takeWhile (\<lambda>c. \<not> right_brace c) r; after = drop (length name) r
           in if prefix_ci name section
              then let gap = takeWhile isspace_c (tl after)
                   in case section_lookup key (gap \<noteq> [] \<and> newline (last gap)) (drop (length gap) (tl after)) of
                        Inr v \<Rightarrow> Some v
                      | Inl t \<Rightarrow> ini_lookup section key True t
              else ini_lookup section key False after
      else ini_lookup section key (newline c) r)"
  by pat_completeness auto
termination
  by (relation "measure (\<lambda>(section, key, bol, s). length s)")
     (auto dest!: section_lookup_length simp: le_imp_less_Suc)

text \<open>How the loops run over a buffer that holds a known text.\<close>

lemma find_eol_eq:
  assumes "\<forall>c \<in> set line. \<not> newline c \<and> c \<noteq> NUL" and "newline c \<or> c = NUL"
  shows "find_eol (A @ line @ c # B) (length A) = Inr (length A + length line)"
  using assms(1)
proof (induction line arbitrary: A)
  case Nil
  with assms(2) show ?case
    by (subst find_eol.simps) (auto simp: cell_def nth_append end_of_string_def)
next
  case (Cons d line)
  from Cons.IH [of "A @ [d]"] Cons.prems show ?case
    by (subst find_eol.simps) (simp add: cell_def nth_append end_of_string_def)
qed

lemma skip_blank_eq:
  assumes "\<not> blank c"
  shows "skip_blank (A @ w @ c # B) (length A) = Inr (length A + length (takeWhile blank w))"
proof (induction w arbitrary: A)
  case Nil
  with assms show ?case
    by (subst skip_blank.simps) (simp add: cell_def nth_append)
next
  case (Cons d w)
  from Cons.IH [of "A @ [d]"] show ?case
    by (subst skip_blank.simps) (simp add: cell_def nth_append)
qed

lemma skip_space_eq:
  assumes "\<not> isspace_c c"
  shows "skip_space (A @ w @ c # B) (length A) = Inr (length A + length (takeWhile isspace_c w))"
proof (induction w arbitrary: A)
  case Nil
  with assms show ?case
    by (subst skip_space.simps) (simp add: cell_def nth_append)
next
  case (Cons d w)
  from Cons.IH [of "A @ [d]"] show ?case
    by (subst skip_space.simps) (simp add: cell_def nth_append)
qed

lemma find_rbrace_eq:
  assumes "NUL \<notin> set r"
  shows "find_rbrace (A @ x # r @ NUL # B) (length A) =
           Inr (Suc (length A) + length (takeWhile (\<lambda>c. \<not> right_brace c) r))"
  using assms
proof (induction r arbitrary: A x)
  case Nil
  then show ?case
    by (subst find_rbrace.simps) (simp add: cell_def nth_append end_of_string_def)
next
  case (Cons d r)
  from Cons.IH [of "A @ [x]" d] Cons.prems show ?case
    by (subst find_rbrace.simps) (auto simp: cell_def nth_append end_of_string_def)
qed

lemma rstrip_blank_snoc:
  "rstrip_blank (s @ [d]) = (if blank d then rstrip_blank s else s @ [d])"
  by (simp add: rstrip_blank_def)

lemma rstrip_blank_prefix: "\<exists>t. s = rstrip_blank s @ t"
proof -
  have "s = rev (takeWhile blank (rev s) @ dropWhile blank (rev s))" by simp
  then show ?thesis unfolding rstrip_blank_def rev_append by blast
qed

text \<open>
  \<open>u\<close> is the part of the line up to and with index \<open>j\<close>, \<open>w\<close> the rest; \<open>valid\<close> is the index of
  the last character of \<open>hd u # rstrip_blank (tl u)\<close>.
\<close>

lemma key_scan_eq:
  assumes "NUL \<notin> set key" and "newline e \<or> e = NUL"
    and "u \<noteq> []" and "Suc j = length A + length u" and "CHR ''='' \<notin> set u" and "NUL \<notin> set u"
    and "NUL \<notin> set w"
  shows "key_scan key (A @ u @ w @ e # B) (length A) (length A + length (u @ w)) j
           (length A + length (rstrip_blank (tl u))) =
         (let k = takeWhile (\<lambda>d. d \<noteq> CHR ''='') w; rest = drop (length k) w;
              i = length A + length (u @ w)
          in Inr (if rest = [] \<or> \<not> prefix_ci (hd u # rstrip_blank (tl u @ k)) key then None
                  else Some (length A, j + length k, i - length (dropWhile blank (tl rest)), i)))"
  using assms(3-7)
proof (induction w arbitrary: u j)
  case Nil
  let ?p = "A @ u @ e # B" and ?i = "length A + length u"
  have "?p ! j = last u" using Nil.prems
    by (cases u rule: rev_cases) (auto simp: nth_append)
  moreover have "last u \<noteq> CHR ''=''" using Nil.prems by (metis last_in_set)
  moreover have "e \<noteq> CHR ''=''" using assms(2) by (auto simp: newline_def)
  moreover have "?p ! ?i = e" by (simp add: nth_append)
  ultimately show ?case
    using Nil.prems
    by (subst key_scan.simps) (simp add: cell_def Let_def key_scan.simps [of _ _ _ "?i" "?i"])
next
  case (Cons d w)
  let ?p = "A @ u @ (d # w) @ e # B" and ?i = "length A + length (u @ d # w)"
  note j = Cons.prems(2)
  have pj: "?p ! j = last u" using Cons.prems
    by (cases u rule: rev_cases) (auto simp: nth_append)
  have last: "last u \<noteq> CHR ''=''" using Cons.prems by (metis last_in_set)
  have pd: "?p ! Suc j = d" by (simp add: j nth_append)
  have ji: "j < ?i" "Suc j < length ?p" "j < length ?p" using j by simp_all
  have u: "u = hd u # tl u" using Cons.prems by simp
  show ?case
  proof (cases "d = CHR ''=''")
    case True
    let ?k = "hd u # rstrip_blank (tl u)"
    obtain t where t: "tl u = rstrip_blank (tl u) @ t" using rstrip_blank_prefix by blast
    have ut: "u = ?k @ t" using u t by (metis append_Cons)
    then have "NUL \<notin> set ?k" using Cons.prems by (metis Un_iff set_append)
    then have "strncasecmp_eq0 (length ?k) (?k @ (t @ (d # w) @ e # B)) key = prefix_ci ?k key"
      using assms(1) by (rule strncasecmp_eq0_prefix)
    moreover have "drop (length A) ?p = ?k @ (t @ (d # w) @ e # B)"
      using ut by (metis append_assoc append_eq_conv_conj)
    ultimately have cmp: "strncasecmp_eq0 (length A + length (rstrip_blank (tl u)) - length A + 1) key
        (drop (length A) ?p) = prefix_ci ?k key"
      by (simp only: strncasecmp_eq0_swap [of _ key]) simp
    have "\<not> blank e" using assms(2) by (auto simp: newline_def blank_def)
    then have skip: "skip_blank ?p (Suc (Suc j)) = Inr (Suc (Suc j) + length (takeWhile blank w))"
      using skip_blank_eq [of e "A @ u @ [d]" w B] j by simp
    have val: "?i - length (dropWhile blank w) = Suc (Suc j) + length (takeWhile blank w)"
      using arg_cong [OF takeWhile_dropWhile_id [of blank w], of length] j
      by (simp del: takeWhile_dropWhile_id)
    have stop: "key_scan key ?p (length A) ?i (Suc j) v = Inr None" for v
      using True pd ji by (subst key_scan.simps) (simp add: cell_def)
    have d: "(d = CHR ''='') = True" "(d \<noteq> CHR ''='') = False" using True by simp_all
    have step: "key_scan key ?p (length A) ?i j (length A + length (rstrip_blank (tl u))) =
        Inr (if prefix_ci ?k key then Some (length A, j, ?i - length (dropWhile blank w), ?i) else None)"
      by (cases "prefix_ci ?k key"; subst key_scan.simps)
         (simp_all only: pj last pd ji cmp skip val stop d cell_inside bind_res_simps Let_def
          not_True_eq_False if_False if_True simp_thms split: if_split)
    show ?thesis
      using step True by (simp add: Let_def)
  next
    case False
    have "tl (u @ [d]) = tl u @ [d]" using Cons.prems by simp
    then have v: "(if d \<noteq> CHR '' '' \<and> d \<noteq> TAB then Suc j
        else length A + length (rstrip_blank (tl u))) = length A + length (rstrip_blank (tl (u @ [d])))"
      using False j Cons.prems(1) by (cases u) (auto simp: rstrip_blank_snoc blank_def)
    have step: "key_scan key ?p (length A) ?i j (length A + length (rstrip_blank (tl u))) =
        key_scan key ?p (length A) ?i (Suc j) (length A + length (rstrip_blank (tl (u @ [d]))))"
      using False
      by (subst key_scan.simps) (simp only: pj last pd ji v cell_inside bind_res_simps Let_def
          not_True_eq_False if_False simp_thms)
    show ?thesis
      using False Cons.IH [of "u @ [d]" "Suc j"] Cons.prems step
      by (simp add: Let_def)
  qed
qed

text \<open>The scan of a whole line is \<open>line_value\<close>.\<close>

definition value_text :: "string \<Rightarrow> nat \<Rightarrow> nat \<Rightarrow> string" where
  "value_text p vs ve = take (ve - vs) (drop vs p)"

lemma value_text_suffix:
  assumes "cs = X @ D" and "p = A @ c # cs @ e # B" and "i' = length A + length (c # cs)"
  shows "value_text p (i' - length D) i' = D"
proof -
  have "p = (A @ c # X) @ D @ e # B" "i' = length (A @ c # X) + length D"
    using assms by simp_all
  then show ?thesis by (simp only: value_text_def) simp
qed

lemma line_scan_eq:
  assumes "NUL \<notin> set key" and e: "newline e \<or> e = NUL" and "NUL \<notin> set line"
    and p: "p = A @ line @ e # B" and i': "i' = length A + length line"
  obtains "line_value key line = None"
      "(if p ! length A \<noteq> CHR ''#'' then key_scan key p (length A) i' (length A) (length A) else Inr None) = Inr None"
  | v ke vs where "line_value key line = Some v"
      "(if p ! length A \<noteq> CHR ''#'' then key_scan key p (length A) i' (length A) (length A) else Inr None) =
         Inr (Some (length A, ke, vs, i'))"
      "vs \<le> i'" "value_text p vs i' = v"
proof (cases line)
  case Nil
  then show thesis
    using that(1) p i' by (simp add: line_value_def key_scan.simps [of _ _ _ "length A" "length A"])
next
  case (Cons c cs)
  let ?rest = "\<lambda>cs. drop (length (takeWhile (\<lambda>d. d \<noteq> CHR ''='') cs)) cs"
  have pc: "p ! length A = c" using p Cons by (simp add: nth_append)
  show thesis
  proof (cases "c = CHR ''#'' \<or> c = CHR ''=''")
    case True
    then have "line_value key line = None" using Cons by (auto simp: line_value_def)
    moreover have "key_scan key p (length A) i' (length A) (length A) = Inr None" if "c = CHR ''=''"
      using that pc p i' Cons
      by (subst key_scan.simps) (simp add: cell_def)
    ultimately show thesis using True pc by (intro that(1)) auto
  next
    case False
    let ?D = "dropWhile blank (tl (?rest cs))"
    have scan: "key_scan key p (length A) i' (length A) (length A) =
        Inr (if ?rest cs = [] \<or> \<not> prefix_ci (c # rstrip_blank (takeWhile (\<lambda>d. d \<noteq> CHR ''='') cs)) key
             then None
             else Some (length A, length A + length (takeWhile (\<lambda>d. d \<noteq> CHR ''='') cs), i' - length ?D, i'))"
      using key_scan_eq [of key e "[c]" "length A" A cs B] assms False Cons
      by (simp add: Let_def rstrip_blank_def eq_commute [of "CHR ''=''" c])
    obtain X where X: "cs = X @ ?D" using dropWhile_tl_drop_suffix by blast
    have val: "value_text p (i' - length ?D) i' = ?D"
      using X p i' Cons by (intro value_text_suffix [of cs X _ p A c e B]) simp_all
    show thesis
    proof (cases "?rest cs = [] \<or> \<not> prefix_ci (c # rstrip_blank (takeWhile (\<lambda>d. d \<noteq> CHR ''='') cs)) key")
      case True
      with False scan Cons show thesis by (intro that(1)) (auto simp: line_value_def Let_def)
    next
      case rest: False
      with False scan Cons val pc show thesis
        by (intro that(2) [of ?D "length A + length (takeWhile (\<lambda>d. d \<noteq> CHR ''='') cs)" "i' - length ?D"])
           (simp_all add: line_value_def Let_def)
    qed
  qed
qed

lemma section_lookup_suffix:
  "section_lookup key nl s = Inl t \<Longrightarrow> \<exists>u. s = u @ t \<and> (t \<noteq> [] \<longrightarrow> (if u = [] then nl else newline (last u)) \<and> left_barce (hd t))"
proof (induction key nl s arbitrary: t rule: section_lookup.induct)
  case (1 key nl s)
  let ?line = "takeWhile (\<lambda>c. \<not> newline c) s"
  show ?case
  proof (cases "s = [] \<or> (nl \<and> left_barce (hd s))")
    case True
    with "1.prems" show ?thesis
      by (subst (asm) section_lookup.simps) auto
  next
    case False
    with "1.prems" have "line_value key ?line = None"
      and "section_lookup key True (drop (Suc (length ?line)) s) = Inl t"
      by (subst (asm) section_lookup.simps, simp add: Let_def split: option.splits)+
    with "1.IH" [OF False refl] obtain u where u: "drop (Suc (length ?line)) s = u @ t"
      and t: "t \<noteq> [] \<longrightarrow> (if u = [] then True else newline (last u)) \<and> left_barce (hd t)"
      by blast
    define w where "w = take (Suc (length ?line)) s"
    have s: "s = w @ u @ t" using u by (metis append_take_drop_id w_def)
    have "newline (last w)" if "t \<noteq> []" "u = []"
    proof -
      have len: "length ?line < length s" using u that
        by (metis drop_all leI le_SucI append_is_Nil_conv)
      then have "newline (s ! length ?line)" using nth_length_takeWhile by blast
      with len show ?thesis by (simp add: w_def take_Suc_conv_app_nth)
    qed
    moreover have "w \<noteq> []" using False by (simp add: w_def)
    ultimately show ?thesis
      using t s by (intro exI [of _ "w @ u"]) (auto simp: last_append split: if_splits)
  qed
qed

definition section_outcome :: "string \<Rightarrow> string \<Rightarrow> string + string \<Rightarrow> nat + (nat \<times> nat \<times> nat \<times> nat) \<Rightarrow> bool" where
  "section_outcome p tail l r =
     (case l of
        Inr v \<Rightarrow> (case r of Inr (ks, ke, vs, ve) \<Rightarrow> vs \<le> ve \<and> ve < length p \<and> value_text p vs ve = v | Inl _ \<Rightarrow> False)
      | Inl t \<Rightarrow>
          (case r of
             Inl k \<Rightarrow> k < length p \<and>
               (if t = [] then p ! k = NUL
                else 0 < k \<and> newline (p ! (k - 1)) \<and> drop k p = t @ tail)
           | Inr _ \<Rightarrow> False))"

lemma in_section_eq:
  assumes "NUL \<notin> set key" and "NUL \<notin> set s" and "A \<noteq> []" and "nl = newline (last A)"
    and p: "p = A @ s @ NUL # NUL # Z"
  shows "\<exists>r. in_section key p (length A) = Inr r \<and>
             section_outcome p (NUL # NUL # Z) (section_lookup key nl s) r"
  using assms
proof (induction key nl s arbitrary: A rule: section_lookup.induct)
  case (1 key nl s)
  let ?line = "takeWhile (\<lambda>c. \<not> newline c) s"
  have prev: "p ! (length A - 1) = last A" using "1.prems"
    by (cases A rule: rev_cases) (auto simp: nth_append)
  have len: "length A - 1 < length p" "length A < length p" using "1.prems" by auto
  show ?case
  proof (cases "s = [] \<or> (nl \<and> left_barce (hd s))")
    case True
    then have "in_section key p (length A) = Inr (Inl (length A))"
      using "1.prems" len prev
      by (subst in_section.simps) (cases s; auto simp: cell_def nth_append end_of_string_def)
    with True "1.prems" prev len show ?thesis
      by (subst section_lookup.simps) (auto simp: section_outcome_def nth_append)
  next
    case False
    define r where "r = drop (length ?line) s"
    define e where "e = hd (r @ [NUL])"
    define i' where "i' = length A + length ?line"
    have s: "s = ?line @ r" by (metis dropWhile_eq_drop r_def takeWhile_dropWhile_id)
    have rd: "r = dropWhile (\<lambda>c. \<not> newline c) s" by (simp add: r_def dropWhile_eq_drop)
    have e: "newline e \<or> e = NUL"
      using hd_dropWhile [of "\<lambda>c. \<not> newline c" s] by (cases r) (auto simp: e_def rd [symmetric])
    have pl: "p = A @ ?line @ e # tl (r @ NUL # NUL # Z)"
      using "1.prems"(5) s by (cases r) (auto simp: e_def)
    have nolb: "\<not> (newline (p ! (length A - 1)) \<and> left_barce (p ! length A))" "p ! length A \<noteq> NUL"
      using False "1.prems" prev by (cases s; auto simp: nth_append)+
    have eol: "find_eol p (length A) = Inr i'"
      unfolding i'_def using e "1.prems"(2)
      by (subst pl, intro find_eol_eq) (auto dest: set_takeWhileD)
    have go_on: "((newline (p ! (length A - 1)) \<and> left_barce (p ! length A)) \<or> end_of_string (p ! length A)) = False"
      using nolb by (simp add: end_of_string_def)
    have unf: "in_section key p (length A) =
        bind_res (if p ! length A \<noteq> CHR ''#'' then key_scan key p (length A) i' (length A) (length A) else Inr None)
          (\<lambda>h. case h of Some r \<Rightarrow> Inr (Inr r) | None \<Rightarrow> in_section key p (Suc i'))"
      by (subst in_section.simps)
         (simp only: cell_inside [OF len(1)] cell_inside [OF len(2)] bind_res_simps go_on if_False eol)
    have next_in: "in_section key p (length A) = in_section key p (Suc i')"
      if "(if p ! length A \<noteq> CHR ''#'' then key_scan key p (length A) i' (length A) (length A) else Inr None) = Inr None"
      unfolding unf that by simp
    have noNUL: "NUL \<notin> set ?line" using "1.prems"(2) by (auto dest: set_takeWhileD)
    from "1.prems"(1) e noNUL pl i'_def show ?thesis
    proof (cases rule: line_scan_eq)
      case 1
      have sl: "section_lookup key nl s = section_lookup key True (drop (Suc (length ?line)) s)"
        using False 1(1) by (simp only: section_lookup.simps [of key nl s] Let_def if_False option.case)
      show ?thesis
      proof (cases r)
        case Nil
        then have "drop (Suc (length ?line)) s = []" using s by (metis append_Nil2 drop_all le_SucI order_refl)
        moreover have "in_section key p (Suc i') = Inr (Inl (Suc i'))"
          using pl Nil by (subst in_section.simps) (simp add: cell_def i'_def e_def nth_append end_of_string_def)
        ultimately show ?thesis
          using next_in 1 sl pl Nil
          by (auto simp: section_lookup.simps [of key True "[]"] section_outcome_def i'_def e_def nth_append)
      next
        case (Cons e' r')
        then have "e' \<in> set s" using s by (metis in_set_conv_decomp)
        then have e': "e = e'" "newline e" using Cons e "1.prems"(2) by (auto simp: e_def)
        have r': "drop (Suc (length ?line)) s = r'"
          using s Cons by (metis append_eq_conv_conj drop_Suc list.sel(3) tl_drop)
        have "\<exists>q. in_section key p (length (A @ ?line @ [e])) = Inr q \<and>
            section_outcome p (NUL # NUL # Z) (section_lookup key True (drop (Suc (length ?line)) s)) q"
          using "1.prems" 1 e' pl Cons r' s False
          by (intro "1.IH") (auto simp: e_def dest: in_set_dropD)
        then show ?thesis using next_in 1 sl by (simp add: i'_def)
      qed
    next
      case (2 v ke vs)
      then have "in_section key p (length A) = Inr (Inr (length A, ke, vs, i'))"
        by (simp only: unf bind_res_simps option.case)
      moreover have "section_lookup key nl s = Inr v"
        using False 2(1) by (simp only: section_lookup.simps [of key nl s] Let_def if_False option.case)
      moreover have "i' < length p" using arg_cong [OF pl, of length] by (simp add: i'_def)
      ultimately show ?thesis using 2 by (simp add: section_outcome_def)
    qed
  qed
qed

definition parse_outcome :: "string \<Rightarrow> string option \<Rightarrow> bool \<times> ini_pos \<Rightarrow> bool" where
  "parse_outcome p l r =
     (case l of
        None \<Rightarrow> \<not> fst r
      | Some v \<Rightarrow> fst r \<and> 0 \<le> value_s (snd r) \<and> value_s (snd r) \<le> value_e (snd r) \<and>
                  value_e (snd r) < int (length p) \<and> value_text p (nat (value_s (snd r))) (nat (value_e (snd r))) = v)"

lemma parse_loop_at_NUL: "k < length p \<Longrightarrow> p ! k = NUL \<Longrightarrow> parse_loop sec key p k pos = Inr (False, pos)"
  by (subst parse_loop.simps) (simp add: cell_def end_of_string_def)

lemma header_eq:
  assumes "NUL \<notin> set r" and "NUL \<notin> set sec" and p: "p = A @ x # r @ NUL # NUL # Z"
    and name: "name = takeWhile (\<lambda>c. \<not> right_brace c) r"
  shows "find_rbrace p (length A) = Inr (length (A @ x # name))"
    and "strncasecmp_eq0 (length (A @ x # name) - Suc (length A)) (drop (Suc (length A)) p) sec = prefix_ci name sec"
proof -
  show "find_rbrace p (length A) = Inr (length (A @ x # name))"
    using find_rbrace_eq [of r A x "NUL # Z"] assms by simp
  obtain t where "r = name @ t" unfolding name by (metis takeWhile_dropWhile_id)
  then have "drop (Suc (length A)) p = name @ (t @ NUL # NUL # Z)" "NUL \<notin> set name"
    using p assms(1) by auto
  with assms(2) show "strncasecmp_eq0 (length (A @ x # name) - Suc (length A)) (drop (Suc (length A)) p) sec = prefix_ci name sec"
    using strncasecmp_eq0_prefix [of name sec "t @ NUL # NUL # Z"] by simp
qed

lemma parse_loop_eq:
  assumes "NUL \<notin> set sec" and "NUL \<notin> set key" and "NUL \<notin> set s"
    and "s \<noteq> [] \<Longrightarrow> (bol \<and> left_barce (hd s)) = ((A = [] \<or> newline (last A)) \<and> left_barce (hd s))"
    and p: "p = A @ s @ NUL # NUL # Z"
  shows "\<exists>r. parse_loop sec key p (length A) pos = Inr r \<and>
             parse_outcome p (ini_lookup sec key bol s) r"
  using assms
proof (induction sec key bol s arbitrary: A pos rule: ini_lookup.induct)
  case (1 sec key bol)
  then show ?case by (simp add: parse_loop_at_NUL parse_outcome_def)
next
  case (2 sec key bol c r)
  let ?name = "takeWhile (\<lambda>c. \<not> right_brace c) r" and ?tail = "NUL # NUL # Z"
  let ?i1 = "length (A @ c # ?name)"
  note p = "2.prems"(5)
  have noNUL: "c \<noteq> NUL" "NUL \<notin> set r" using "2.prems"(3) by auto
  have pc: "p ! length A = c" and lenA: "length A < length p" using p by (simp_all add: nth_append)
  have bol: "(length A = 0 \<or> newline (p ! (length A - 1))) = (A = [] \<or> newline (last A))"
    using p by (cases A rule: rev_cases) (simp_all add: nth_append)
  have unf: "parse_loop sec key p (length A) pos =
      (if (A = [] \<or> newline (last A)) \<and> left_barce c
       then if prefix_ci ?name sec
            then bind_res (skip_space p (Suc ?i1)) (\<lambda>i2.
              let pos' = pos\<lparr>sec_s := int (Suc (length A)), sec_e := int i2\<rparr> in
              bind_res (in_section key p i2) (\<lambda>r.
                case r of
                  Inr (ks, ke, vs, ve) \<Rightarrow>
                    Inr (True, pos'\<lparr>key_s := int ks, key_e := int ke, value_s := int vs, value_e := int ve\<rparr>)
                | Inl i3 \<Rightarrow> parse_loop sec key p i3 pos'))
            else parse_loop sec key p ?i1 pos
       else parse_loop sec key p (Suc (length A)) pos)"
    using header_eq [OF noNUL(2) "2.prems"(1) p [unfolded append_Cons] refl] noNUL(1)
    by (subst parse_loop.simps)
       (simp only: cell_inside [OF lenA] pc bol bind_res_simps end_of_string_def if_False Let_def)
  show ?case
  proof (cases "bol \<and> left_barce c")
    case False
    with "2.prems"(4) have "\<not> ((A = [] \<or> newline (last A)) \<and> left_barce c)" by simp
    moreover have "\<exists>q. parse_loop sec key p (length (A @ [c])) pos = Inr q \<and>
        parse_outcome p (ini_lookup sec key (newline c) r) q"
      using "2.prems" noNUL by (intro "2.IH"(3) [OF False]) auto
    ultimately show ?thesis using False unf by (simp only: ini_lookup.simps if_False length_append_singleton)
  next
    case True
    define after where "after = drop (length ?name) r"
    have after: "after = dropWhile (\<lambda>c. \<not> right_brace c) r" by (simp add: after_def dropWhile_eq_drop)
    have r: "r = ?name @ after" by (simp only: after takeWhile_dropWhile_id)
    have pa: "p = (A @ c # ?name) @ after @ ?tail" using p r by (metis append_Cons append_assoc)
    have noNULa: "NUL \<notin> set after" using noNUL by (auto simp: after_def dest: in_set_dropD)
    from True "2.prems"(4) have hdr: "(A = [] \<or> newline (last A)) \<and> left_barce c" by simp
    show ?thesis
    proof (cases "prefix_ci ?name sec")
      case False
      have "\<not> left_barce (hd after)" if "after \<noteq> []"
      proof -
        have "right_brace (hd after)"
          using hd_dropWhile [of "\<lambda>c. \<not> right_brace c" r] that unfolding after by blast
        then show ?thesis by (simp add: right_brace_def left_barce_def)
      qed
      then have "\<exists>q. parse_loop sec key p ?i1 pos = Inr q \<and>
          parse_outcome p (ini_lookup sec key False after) q"
        using "2.prems" noNULa pa False True
        by (intro "2.IH"(2)) (auto simp: after_def)
      with True False hdr unf show ?thesis
        by (simp only: ini_lookup.simps if_True if_False simp_thms Let_def after_def)
    next
      case pre: True
      define gap where "gap = takeWhile isspace_c (tl after)"
      define body where "body = drop (length gap) (tl after)"
      define nl where "nl = (gap \<noteq> [] \<and> newline (last gap))"
      have tla: "tl after = gap @ body" unfolding gap_def body_def by (metis dropWhile_eq_drop takeWhile_dropWhile_id)
      have ini: "ini_lookup sec key bol (c # r) =
          (case section_lookup key nl body of Inr v \<Rightarrow> Some v | Inl t \<Rightarrow> ini_lookup sec key True t)"
        using True pre
        by (simp only: ini_lookup.simps if_True simp_thms Let_def after_def gap_def body_def nl_def)
      define i2 where "i2 = Suc ?i1 + length gap"
      define pos' where "pos' = pos\<lparr>sec_s := int (Suc (length A)), sec_e := int i2\<rparr>"
      have in_sec: "skip_space p (Suc ?i1) = Inr i2 \<and>
          (\<exists>q. in_section key p i2 = Inr q \<and> section_outcome p ?tail (section_lookup key nl body) q)"
      proof (cases after)
        case Nil
        then have "gap = []" "body = []" by (simp_all add: gap_def body_def)
        moreover from Nil pa have "p = (A @ c # ?name) @ [NUL] @ NUL # Z" by simp
        then have "p ! ?i1 = NUL" "p ! Suc ?i1 = NUL" "Suc ?i1 < length p" by (simp_all only: nth_append) simp_all
        moreover from this have "in_section key p (Suc ?i1) = Inr (Inl (Suc ?i1))"
          by (subst in_section.simps) (simp add: cell_def end_of_string_def)
        ultimately show ?thesis
          by (subst skip_space.simps)
             (simp add: i2_def cell_def section_outcome_def section_lookup.simps [of _ _ "[]"])
      next
        case (Cons x ys)
        then have ps: "p = (A @ c # ?name @ [x]) @ (gap @ body) @ ?tail" using pa tla by simp
        have "ys = gap @ body" using tla Cons by simp
        with noNULa Cons have "NUL \<notin> set body" by simp
        have gapw: "takeWhile isspace_c (gap @ body) = gap" by (metis gap_def tla)
        have "skip_space p (length (A @ c # ?name @ [x])) = Inr (length (A @ c # ?name @ [x]) + length gap)"
          using skip_space_eq [of NUL "A @ c # ?name @ [x]" "gap @ body" "NUL # Z"] ps gapw
          by simp
        moreover have "right_brace x"
          using hd_dropWhile [of "\<lambda>c. \<not> right_brace c" r] Cons unfolding after [symmetric] by simp
        then have "nl = newline (last (A @ c # ?name @ [x] @ gap))"
          by (simp add: nl_def right_brace_def newline_def)
        moreover have "p = (A @ c # ?name @ [x] @ gap) @ body @ ?tail" using ps by simp
        ultimately have "\<exists>q. in_section key p (length (A @ c # ?name @ [x] @ gap)) = Inr q \<and>
            section_outcome p ?tail (section_lookup key nl body) q"
          using "2.prems"(2) \<open>NUL \<notin> set body\<close> by (intro in_section_eq) blast+
        moreover note \<open>skip_space p (length (A @ c # ?name @ [x])) = _\<close>
        ultimately show ?thesis by (simp add: i2_def add.assoc)
      qed
      then obtain q where q: "in_section key p i2 = Inr q"
        "section_outcome p ?tail (section_lookup key nl body) q" by blast
      have run: "parse_loop sec key p (length A) pos =
          (case q of
             Inr (ks, ke, vs, ve) \<Rightarrow>
               Inr (True, pos'\<lparr>key_s := int ks, key_e := int ke, value_s := int vs, value_e := int ve\<rparr>)
           | Inl i3 \<Rightarrow> parse_loop sec key p i3 pos')"
        using hdr pre in_sec q(1) unf by (simp only: if_True bind_res_simps Let_def pos'_def simp_thms)
      show ?thesis
      proof (cases "section_lookup key nl body")
        case (Inr v)
        with q(2) run ini show ?thesis
          by (auto simp: section_outcome_def parse_outcome_def split: sum.splits)
      next
        case (Inl t)
        with q(2) obtain k where k: "q = Inl k" "k < length p"
          "if t = [] then p ! k = NUL else 0 < k \<and> newline (p ! (k - 1)) \<and> drop k p = t @ ?tail"
          by (auto simp: section_outcome_def split: sum.splits)
        show ?thesis
        proof (cases "t = []")
          case True
          with k run ini Inl show ?thesis by (simp add: parse_loop_at_NUL parse_outcome_def)
        next
          case False
          have tk: "p = take k p @ t @ ?tail" "length (take k p) = k"
            using k False by (metis append_take_drop_id, simp)
          moreover have "newline (last (take k p))" "take k p \<noteq> []"
            using k False by (auto simp: last_take_nth)
          moreover have "set t \<subseteq> set body"
            using section_lookup_suffix [OF Inl] by auto
          moreover have "set body \<subseteq> set r"
            using r tla by (metis Un_iff set_append subsetI list.set_sel(2) tl_Nil)
          ultimately have "\<exists>q. parse_loop sec key p (length (take k p)) pos' = Inr q \<and>
              parse_outcome p (ini_lookup sec key True t) q"
            using "2.prems" noNUL True pre Inl
            by (intro "2.IH"(1) [OF True refl refl pre refl _])
               (auto simp: gap_def body_def nl_def after_def)
          with k(1) tk run ini Inl show ?thesis by simp
        qed
      qed
    qed
  qed
qed

lemma parse_file_outcome:
  assumes "sec \<noteq> []" and "key \<noteq> []" and "NUL \<notin> set sec" and "NUL \<notin> set key" and "NUL \<notin> set s"
  obtains found pos where "parse_file sec key (s @ NUL # NUL # Z) = Inr (found, pos)"
    and "parse_outcome (s @ NUL # NUL # Z) (ini_lookup sec key True s) (found, pos)"
  using parse_loop_eq [of sec key s True "[]" "s @ NUL # NUL # Z" Z no_pos] assms
  by (auto simp: parse_file_def)

text \<open>
  C22: On every buffer that holds a text, two terminating NULs and anything after them, the index
  loops of \<open>parse_file\<close> return, never read outside the buffer, and find exactly the value the
  line-based reference \<open>ini_lookup\<close> finds, as the bytes between \<open>value_s\<close> and \<open>value_e\<close>.
\<close>

theorem parse_file_eq_ini_lookup:
  assumes "sec \<noteq> []" and "key \<noteq> []" and "NUL \<notin> set sec" and "NUL \<notin> set key" and "NUL \<notin> set s"
  shows "\<exists>found pos. parse_file sec key (s @ NUL # NUL # Z) = Inr (found, pos) \<and>
           (case ini_lookup sec key True s of
              None \<Rightarrow> \<not> found
            | Some v \<Rightarrow> found \<and> 0 \<le> value_s pos \<and> value_s pos \<le> value_e pos \<and>
                value_e pos < int (length (s @ NUL # NUL # Z)) \<and>
                value_text (s @ NUL # NUL # Z) (nat (value_s pos)) (nat (value_e pos)) = v)"
proof -
  obtain found pos where "parse_file sec key (s @ NUL # NUL # Z) = Inr (found, pos)"
    and "parse_outcome (s @ NUL # NUL # Z) (ini_lookup sec key True s) (found, pos)"
    using parse_file_outcome [OF assms] by blast
  then show ?thesis by (auto simp: parse_outcome_def split: option.splits)
qed

theorem parse_file_eq_ini_lookup_witness:
  "ini_lookup ''s'' ''k2'' True (''[s]'' @ [LF] @ ''k=v'') = Some ''v'' \<and>
   (\<exists>pos. parse_file ''s'' ''k2'' ((''[s]'' @ [LF] @ ''k=v'') @ NUL # NUL # []) = Inr (True, pos))"
proof -
  have l: "ini_lookup ''s'' ''k2'' True (''[s]'' @ [LF] @ ''k=v'') = Some ''v''" by code_simp
  have "\<exists>found pos. parse_file ''s'' ''k2'' ((''[s]'' @ [LF] @ ''k=v'') @ NUL # NUL # []) = Inr (found, pos) \<and> found"
    using parse_file_eq_ini_lookup [of "''s''" "''k2''" "''[s]'' @ [LF] @ ''k=v''" "[]", unfolded l] by fastforce
  with l show ?thesis by auto
qed

section \<open>Files\<close>

text \<open>A file the reader can hold: no NUL, no byte 0xFF, and two bytes of the buffer left.\<close>

definition conf_text :: "string \<Rightarrow> bool" where
  "conf_text f \<longleftrightarrow> NUL \<notin> set f \<and> EOF_c \<notin> set f \<and> length f + 2 \<le> MAX_INI_FILE_SIZE"

lemma load_loop_step:
  assumes "i < length f" and "EOF_c \<notin> set f"
  shows "load_loop f (Suc (Suc n)) i (take i f @ fgetc_at f i # replicate (Suc n) NUL) =
           load_loop f (Suc n) (Suc i) (take (Suc i) f @ fgetc_at f (Suc i) # replicate n NUL)"
proof -
  have "f ! i \<noteq> EOF_c" using assms by (metis nth_mem)
  moreover have "length (take i f) = i" using assms(1) by simp
  ultimately show ?thesis
    using assms(1) by (simp add: nth_append fgetc_at_def list_update_append take_Suc_conv_app_nth)
qed

lemma load_loop_eq:
  assumes "EOF_c \<notin> set f" and "i \<le> length f" and "length f < i + Suc n"
  shows "load_loop f (Suc n) i (take i f @ fgetc_at f i # replicate n NUL) =
           Inr (f @ replicate (i + Suc n - length f) NUL, length f)"
  using assms(2,3)
proof (induction n arbitrary: i)
  case 0
  then have "i = length f" by simp
  then show ?case by (simp add: fgetc_at_def nth_append)
next
  case (Suc n)
  show ?case
  proof (cases "i < length f")
    case True
    with Suc load_loop_step [OF True assms(1), of n] show ?thesis by simp
  next
    case False
    with Suc.prems have "i = length f" by simp
    then show ?thesis by (simp add: fgetc_at_def nth_append)
  qed
qed

lemma load_loop_abort:
  assumes "EOF_c \<notin> set f" and "i + Suc n \<le> length f"
  shows "load_loop f (Suc n) i (take i f @ fgetc_at f i # replicate n NUL) = Inl AssertFail"
  using assms(2)
proof (induction n arbitrary: i)
  case 0
  then have "f ! i \<noteq> EOF_c" using assms(1) by (metis nth_mem add_Suc_right add_0_right Suc_le_eq)
  with 0 show ?case by (simp add: fgetc_at_def nth_append)
next
  case (Suc n)
  with load_loop_step [of i f n] assms(1) show ?case by simp
qed

lemma MAX_INI_FILE_SIZE_Suc: "MAX_INI_FILE_SIZE = Suc 10239"
  by (simp add: MAX_INI_FILE_SIZE_def)

lemma zeroed_buffer: "(replicate (Suc n) NUL)[0 := c] = take 0 f @ c # replicate n NUL"
  by simp

lemma load_ini_file_eq:
  assumes "EOF_c \<notin> set f"
  shows "load_ini_file (Some f) (replicate MAX_INI_FILE_SIZE NUL) =
           (if length f < MAX_INI_FILE_SIZE
            then Inr (Some (f @ replicate (MAX_INI_FILE_SIZE - length f) NUL, length f))
            else Inl AssertFail)"
  unfolding load_ini_file_def MAX_INI_FILE_SIZE_Suc option.case zeroed_buffer [where f = f]
  using load_loop_eq [OF assms, of 0 10239] load_loop_abort [OF assms, of 0 10239] by (simp del: load_loop.simps)

lemma replicate_two_NULs:
  assumes "k + 2 \<le> n"
  shows "\<exists>Z. replicate (n - k) NUL = NUL # NUL # Z"
proof -
  obtain m where "n = k + 2 + m" using assms le_Suc_ex by blast
  then have "replicate (n - k) NUL = NUL # NUL # replicate m NUL" by simp
  then show ?thesis by blast
qed

lemma take_value_text:
  assumes "vs \<le> ve" and "ve < length p"
  shows "take (if m < ve - vs then m else ve - vs) (drop vs p) = take m (value_text p vs ve)"
    and "length (value_text p vs ve) = ve - vs"
  using assms by (auto simp: value_text_def min_def)

text \<open>What the reader returns, in terms of the reference.\<close>

lemma read_profile_string_eq:
  assumes "conf_text f" and "sec \<noteq> []" and "key \<noteq> []" and "NUL \<notin> set sec" and "NUL \<notin> set key"
    and "0 < n" and "n \<le> length value"
  shows "read_profile_string sec key value n (Some f) =
           Inr (case ini_lookup sec key True f of
                  None \<Rightarrow> (False, value)
                | Some v \<Rightarrow> (True, take (n - 1) v @ NUL # drop (Suc (min (n - 1) (length v))) value))"
proof -
  let ?M = MAX_INI_FILE_SIZE
  have f: "NUL \<notin> set f" "EOF_c \<notin> set f" "length f + 2 \<le> ?M"
    using assms(1) by (simp_all add: conf_text_def)
  obtain Z where Z: "replicate (?M - length f) NUL = NUL # NUL # Z"
    using replicate_two_NULs [OF f(3)] by blast
  let ?p = "f @ NUL # NUL # Z"
  have load: "load_ini_file (Some f) (replicate ?M NUL) = Inr (Some (?p, length f))"
    using load_ini_file_eq [OF f(2)] f(3) Z by simp
  obtain found pos where parse: "parse_file sec key ?p = Inr (found, pos)"
    and out: "parse_outcome ?p (ini_lookup sec key True f) (found, pos)"
    using parse_file_outcome [OF assms(2-5) f(1)] by blast
  show ?thesis
  proof (cases "ini_lookup sec key True f")
    case None
    with out have "\<not> found" by (simp add: parse_outcome_def)
    with None load parse assms show ?thesis by (simp add: read_profile_string_def)
  next
    case (Some v)
    define vs ve where "vs = nat (value_s pos)" and "ve = nat (value_e pos)"
    from Some out have *: "found" "vs \<le> ve" "ve < length ?p" "value_text ?p vs ve = v"
      "nat (value_e pos - value_s pos) = ve - vs"
      by (auto simp: parse_outcome_def vs_def ve_def nat_diff_distrib)
    define m where "m = (if n - 1 < ve - vs then n - 1 else ve - vs)"
    have m: "m = min (n - 1) (length v)" and tm: "take m (drop vs ?p) = take (n - 1) v"
      using take_value_text(1) [OF *(2,3), of "n - 1"] take_value_text(2) [OF *(2,3)] *(4)
      by (auto simp: m_def)
    have "(take m (drop vs ?p) @ drop m value)[m := NUL] = take (n - 1) v @ NUL # drop (Suc m) value"
    proof -
      have "length (take (n - 1) v) = m" using m by simp
      moreover have "drop m value = value ! m # drop (Suc m) value"
        using m assms(6,7) by (intro Cons_nth_drop_Suc [symmetric]) auto
      ultimately show ?thesis unfolding tm by (simp add: list_update_append)
    qed
    moreover have "(n = 0) = False" using assms(6) by simp
    then have "read_profile_string sec key value n (Some f) =
        Inr (True, (take m (drop vs ?p) @ drop m value)[m := NUL])"
      using assms(2,3) *(1)
      by (simp only: read_profile_string_def load parse bind_res_simps option.case prod.case Let_def
          *(5) vs_def [symmetric] m_def [symmetric] not_True_eq_False if_False simp_thms)
    ultimately show ?thesis using Some m by simp
  qed
qed

lemma takeWhile_NUL_append: "NUL \<notin> set v \<Longrightarrow> takeWhile (\<lambda>c. c \<noteq> NUL) (v @ NUL # rest) = v"
  by (induction v) auto

lemma cut_blank_append:
  "NUL \<notin> set v \<Longrightarrow> cut_blank (v @ NUL # rest) = Inr (takeWhile (\<lambda>c. \<not> blank c) v)"
  by (induction v) (auto simp: blank_def)

lemma line_value_subset: "line_value key line = Some v \<Longrightarrow> set v \<subseteq> set line"
  by (auto simp: line_value_def Let_def split: list.splits if_splits
      dest!: set_dropWhileD list.set_sel(2) [rotated] in_set_dropD)

lemma section_lookup_subset: "section_lookup key nl s = Inr v \<Longrightarrow> set v \<subseteq> set s"
proof (induction key nl s rule: section_lookup.induct)
  case (1 key nl s)
  let ?line = "takeWhile (\<lambda>c. \<not> newline c) s"
  from "1.prems" have ne: "\<not> (s = [] \<or> (nl \<and> left_barce (hd s)))"
    by (auto simp: section_lookup.simps [of key nl s])
  show ?case
  proof (cases "line_value key ?line")
    case None
    with ne "1.prems" have "section_lookup key True (drop (Suc (length ?line)) s) = Inr v"
      by (simp only: section_lookup.simps [of key nl s] Let_def if_False option.case)
    with "1.IH" [OF ne refl None] show ?thesis by (auto dest: in_set_dropD)
  next
    case (Some w)
    with ne "1.prems" have "w = v"
      by (simp only: section_lookup.simps [of key nl s] Let_def if_False option.case) simp
    with line_value_subset [OF Some] show ?thesis by (auto dest: set_takeWhileD)
  qed
qed

lemma set_drop_tl_subset: "set (drop k (tl (drop n r))) \<subseteq> set r"
  by (metis set_drop_subset drop_Suc tl_drop subset_trans)

lemma ini_lookup_subset: "ini_lookup sec key bol s = Some v \<Longrightarrow> set v \<subseteq> set s"
proof (induction sec key bol s rule: ini_lookup.induct)
  case (2 sec key bol c r)
  let ?name = "takeWhile (\<lambda>c. \<not> right_brace c) r"
  let ?gap = "takeWhile isspace_c (tl (drop (length ?name) r))"
  let ?nl = "?gap \<noteq> [] \<and> newline (last ?gap)"
  let ?body = "drop (length ?gap) (tl (drop (length ?name) r))"
  have sub: "set ?body \<subseteq> set r" "set (drop (length ?name) r) \<subseteq> set r"
    by (rule set_drop_tl_subset, rule set_drop_subset)
  consider "\<not> (bol \<and> left_barce c)" | "bol \<and> left_barce c" "\<not> prefix_ci ?name sec"
    | "bol \<and> left_barce c" "prefix_ci ?name sec" by blast
  then show ?case
  proof cases
    case 3
    then show ?thesis
    proof (cases "section_lookup key ?nl ?body")
      case (Inl t)
      then have "set t \<subseteq> set ?body" using section_lookup_suffix by fastforce
      with "2.IH"(1) [OF 3(1) refl refl 3(2) refl Inl] 3 Inl "2.prems" sub show ?thesis
        by (auto simp: Let_def)
    next
      case (Inr w)
      with 3 "2.prems" section_lookup_subset [OF Inr] sub show ?thesis
        by (auto simp: Let_def)
    qed
  next
    case 2
    have "ini_lookup sec key False (drop (length ?name) r) = Some v"
      using "2.prems" unfolding ini_lookup.simps Let_def if_P [OF 2(1)] if_not_P [OF 2(2)] .
    with "2.IH"(2) [OF 2(1) refl refl 2(2)] sub(2) show ?thesis by auto
  next
    case 1
    have "ini_lookup sec key (newline c) r = Some v"
      using "2.prems" unfolding ini_lookup.simps if_not_P [OF 1] .
    with "2.IH"(3) [OF 1] show ?thesis by auto
  qed
qed simp

section \<open>The class's two readers\<close>

lemma readStr_lookup:
  assumes "conf_text f" and "sec \<noteq> []" and "key \<noteq> []" and "NUL \<notin> set sec" and "NUL \<notin> set key"
    and "length junk = 1024"
  shows "readStr sec (Some f) junk key =
           (case ini_lookup sec key True f of
              None \<Rightarrow> cut_blank junk
            | Some v \<Rightarrow> Inr (takeWhile (\<lambda>c. \<not> blank c) (take 1023 v)))"
proof (cases "ini_lookup sec key True f")
  case None
  then show ?thesis
    using read_profile_string_eq [OF assms(1-5), of 1024 junk] assms(6) by (simp add: readStr_def)
next
  case (Some v)
  then have "NUL \<notin> set (take 1023 v)"
    using ini_lookup_subset [OF Some] assms(1) by (auto simp: conf_text_def dest: in_set_takeD)
  then show ?thesis
    using read_profile_string_eq [OF assms(1-5), of 1024 junk] assms(6) Some
    by (simp add: readStr_def cut_blank_append)
qed

lemma readInt_lookup:
  assumes "conf_text f" and "sec \<noteq> []" and "key \<noteq> []" and "NUL \<notin> set sec" and "NUL \<notin> set key"
  shows "readInt sec (Some f) key =
           Inr (case ini_lookup sec key True f of None \<Rightarrow> -1 | Some v \<Rightarrow> atoi (take 31 v))"
proof (cases "ini_lookup sec key True f")
  case None
  then show ?thesis
    using read_profile_string_eq [OF assms, of 32 "replicate 32 NUL"]
    by (simp add: readInt_def read_profile_int_def)
next
  case (Some v)
  then have "NUL \<notin> set (take 31 v)"
    using ini_lookup_subset [OF Some] assms(1) by (auto simp: conf_text_def dest: in_set_takeD)
  then show ?thesis
    using read_profile_string_eq [OF assms, of 32 "replicate 32 NUL"] Some
    by (simp add: readInt_def read_profile_int_def takeWhile_NUL_append)
qed

text \<open>
  \<open>readStr\<close> on a file the reader can hold: the reference value up to its first blank, cut at
  1023 bytes, and for a key that is not there whatever the uninitialised array happens to hold, so
  that two calls on the same file can differ.
\<close>

theorem readStr_eq_ini_lookup:
  assumes "conf_text f" and "sec \<noteq> []" and "key \<noteq> []" and "NUL \<notin> set sec" and "NUL \<notin> set key"
    and "length junk = 1024"
  shows "readStr sec (Some f) junk key =
           (case ini_lookup sec key True f of
              None \<Rightarrow> cut_blank junk
            | Some v \<Rightarrow> Inr (takeWhile (\<lambda>c. \<not> blank c) (take 1023 v)))"
  using assms by (rule readStr_lookup)

theorem readStr_eq_ini_lookup_witness:
  "readStr ''sip'' (Some (''[sip]'' @ [LF] @ ''ip=10.0.0.1 main'')) (replicate 1024 CHR ''x'') ''ip'' = Inr ''10.0.0.1''"
proof -
  have "conf_text (''[sip]'' @ [LF] @ ''ip=10.0.0.1 main'')"
    by (simp add: conf_text_def EOF_c_def MAX_INI_FILE_SIZE_def)
  moreover have "ini_lookup ''sip'' ''ip'' True (''[sip]'' @ [LF] @ ''ip=10.0.0.1 main'') = Some ''10.0.0.1 main''"
    by code_simp
  ultimately show ?thesis
    by (simp add: readStr_eq_ini_lookup blank_def)
qed

text \<open>
  \<open>readInt\<close> on such a file: \<open>atoi\<close> of the first 31 bytes of the reference value, and -1 for a
  key that is not there.
\<close>

theorem readInt_eq_ini_lookup:
  assumes "conf_text f" and "sec \<noteq> []" and "key \<noteq> []" and "NUL \<notin> set sec" and "NUL \<notin> set key"
  shows "readInt sec (Some f) key =
           Inr (case ini_lookup sec key True f of None \<Rightarrow> -1 | Some v \<Rightarrow> atoi (take 31 v))"
  using assms by (rule readInt_lookup)

theorem readInt_eq_ini_lookup_witness:
  "readInt ''sip'' (Some (''[sip]'' @ [LF] @ ''port = 5060'')) ''port'' = Inr 5060"
proof -
  have "conf_text (''[sip]'' @ [LF] @ ''port = 5060'')"
    by (simp add: conf_text_def EOF_c_def MAX_INI_FILE_SIZE_def)
  moreover have "ini_lookup ''sip'' ''port'' True (''[sip]'' @ [LF] @ ''port = 5060'') = Some ''5060''"
    and "atoi ''5060'' = 5060"
    by code_simp+
  ultimately show ?thesis
    by (simp add: readInt_eq_ini_lookup)
qed

end
