(* ===== verification/ConfRender.thy ===== *)
theory ConfRender
  imports ConfReader
begin

text \<open>
  Files as the services' own configuration files are written (\<open>conf/SipSupService.conf\<close>,
  \<open>conf/SipSubService.conf\<close>): a list of sections of \<open>key = value\<close> lines. \<open>render\<close> prints one,
  \<open>ini_get\<close> is what a lookup in it returns, and the lemmas show that the reader of
  \<open>ConfReader.cpp\<close> agrees, the prefix matching of keys and section names included.
\<close>

type_synonym ini_section = "string \<times> (string \<times> string) list"

definition entry_line :: "string \<times> string \<Rightarrow> string" where
  "entry_line e = fst e @ '' = '' @ snd e"

definition render_entries :: "(string \<times> string) list \<Rightarrow> string" where
  "render_entries es = concat (map (\<lambda>e. entry_line e @ [LF]) es)"

definition render :: "ini_section list \<Rightarrow> string" where
  "render secs = concat (map (\<lambda>(name, es). CHR ''['' # name @ CHR '']'' # LF # render_entries es) secs)"

definition key_ok :: "string \<Rightarrow> bool" where
  "key_ok k \<longleftrightarrow> k \<noteq> [] \<and> set k \<inter> {LF, CR, CHR ''=''} = {} \<and> \<not> blank (last k) \<and>
     \<not> isspace_c (hd k) \<and> hd k \<noteq> CHR ''#'' \<and> hd k \<noteq> CHR ''[''"

definition value_ok :: "string \<Rightarrow> bool" where
  "value_ok v \<longleftrightarrow> set v \<inter> {LF, CR} = {} \<and> (v \<noteq> [] \<longrightarrow> \<not> blank (hd v))"

definition name_ok :: "string \<Rightarrow> bool" where
  "name_ok n \<longleftrightarrow> CHR '']'' \<notin> set n"

definition section_ok :: "ini_section \<Rightarrow> bool" where
  "section_ok s \<longleftrightarrow> name_ok (fst s) \<and> (\<forall>e\<in>set (snd s). key_ok (fst e) \<and> value_ok (snd e))"

text \<open>The first section and entry whose name and key are prefixes of the ones asked for.\<close>

definition entry_get :: "string \<Rightarrow> (string \<times> string) list \<Rightarrow> string option" where
  "entry_get key es = map_option snd (find (\<lambda>e. prefix_ci (fst e) key) es)"

definition ini_get :: "string \<Rightarrow> string \<Rightarrow> ini_section list \<Rightarrow> string option" where
  "ini_get sec key secs = entry_get key (concat (map snd (filter (\<lambda>s. prefix_ci (fst s) sec) secs)))"

section \<open>One line\<close>

lemma rstrip_blank_id: "k \<noteq> [] \<Longrightarrow> \<not> blank (last k) \<Longrightarrow> rstrip_blank (k @ '' '') = k"
  by (cases k rule: rev_cases) (auto simp: rstrip_blank_def blank_def)

lemma rstrip_blank_tl:
  assumes "k = c # cs" and "\<not> blank (last k)"
  shows "rstrip_blank (cs @ '' '') = cs"
  using assms by (cases cs rule: rev_cases) (auto simp: rstrip_blank_def blank_def)

lemma dropWhile_blank_value: "value_ok v \<Longrightarrow> dropWhile blank v = v"
  by (cases v) (auto simp: value_ok_def)

lemma line_value_entry:
  assumes "key_ok k" and "value_ok v"
  shows "line_value key (entry_line (k, v)) = (if prefix_ci k key then Some v else None)"
proof -
  obtain c cs where k: "k = c # cs" using assms(1) by (cases k) (auto simp: key_ok_def)
  have c: "c \<noteq> CHR ''#''" "c \<noteq> CHR ''=''" and cs: "CHR ''='' \<notin> set cs" and l: "\<not> blank (last k)"
    using assms(1) by (auto simp: key_ok_def k)
  have line: "entry_line (k, v) = c # (cs @ '' '') @ CHR ''='' # CHR '' '' # v"
    by (simp add: entry_line_def k)
  have tw: "takeWhile (\<lambda>d. d \<noteq> CHR ''='') ((cs @ '' '') @ CHR ''='' # CHR '' '' # v) = cs @ '' ''"
    using cs by (subst takeWhile_append2) auto
  have "dropWhile blank (CHR '' '' # v) = v"
    using dropWhile_blank_value [OF assms(2)] by (simp add: blank_def)
  then show ?thesis
    unfolding line line_value_def list.case Let_def tw rstrip_blank_tl [OF k l] using c k by simp
qed

lemma entry_line_no_newline:
  assumes "key_ok (fst e)" and "value_ok (snd e)"
  shows "\<forall>c\<in>set (entry_line e). \<not> newline c"
  using assms by (auto simp: entry_line_def key_ok_def value_ok_def newline_def)

lemma entry_line_hd:
  assumes "key_ok (fst e)"
  shows "entry_line e \<noteq> []" and "\<not> left_barce (hd (entry_line e))" and "\<not> isspace_c (hd (entry_line e))"
  using assms by (auto simp: entry_line_def key_ok_def left_barce_def hd_append)

section \<open>One section\<close>

lemma section_lookup_entry:
  assumes "key_ok (fst e)" and "value_ok (snd e)"
  shows "section_lookup key nl (entry_line e @ LF # rest) =
           (if prefix_ci (fst e) key then Inr (snd e) else section_lookup key True rest)"
proof -
  have tw: "takeWhile (\<lambda>c. \<not> newline c) (entry_line e @ LF # rest) = entry_line e"
    using entry_line_no_newline [OF assms] by (subst takeWhile_append2) (auto simp: newline_def)
  have "hd (entry_line e @ LF # rest) = hd (entry_line e)"
    using entry_line_hd(1) [OF assms(1)] by simp
  then show ?thesis
    using entry_line_hd [OF assms(1)] line_value_entry [OF assms, of key]
    by (subst section_lookup.simps) (simp add: Let_def tw)
qed

lemma section_lookup_entries:
  assumes "\<forall>e\<in>set es. key_ok (fst e) \<and> value_ok (snd e)"
  shows "section_lookup key True (render_entries es @ rest) =
           (case entry_get key es of Some v \<Rightarrow> Inr v | None \<Rightarrow> section_lookup key True rest)"
  using assms
proof (induction es)
  case Nil
  then show ?case by (simp add: render_entries_def entry_get_def)
next
  case (Cons e es)
  have "render_entries (e # es) @ rest = entry_line e @ LF # (render_entries es @ rest)"
    by (simp add: render_entries_def)
  with Cons section_lookup_entry [of e key True "render_entries es @ rest"] show ?case
    by (simp add: entry_get_def)
qed

lemma section_lookup_stop: "rest = [] \<or> left_barce (hd rest) \<Longrightarrow> section_lookup key True rest = Inl rest"
  by (subst section_lookup.simps) auto

section \<open>The file\<close>

lemma ini_lookup_skip_line:
  assumes "\<forall>c\<in>set line. \<not> newline c" and "bol \<longrightarrow> (line = [] \<or> \<not> left_barce (hd line))"
  shows "ini_lookup sec key bol (line @ LF # rest) = ini_lookup sec key True rest"
  using assms
proof (induction line arbitrary: bol)
  case Nil
  then show ?case by (auto simp: left_barce_def newline_def)
next
  case (Cons c line)
  then have "ini_lookup sec key bol ((c # line) @ LF # rest) = ini_lookup sec key False (line @ LF # rest)"
    by auto
  with Cons show ?case by simp
qed

lemma ini_lookup_skip_entries:
  assumes "\<forall>e\<in>set es. key_ok (fst e) \<and> value_ok (snd e)"
  shows "ini_lookup sec key True (render_entries es @ rest) = ini_lookup sec key True rest"
  using assms
proof (induction es)
  case (Cons e es)
  have "render_entries (e # es) @ rest = entry_line e @ LF # (render_entries es @ rest)"
    by (simp add: render_entries_def)
  with Cons entry_line_no_newline [of e] entry_line_hd [of e] show ?case
    by (simp add: ini_lookup_skip_line)
qed (simp add: render_entries_def)

lemma render_stop: "render secs = [] \<or> left_barce (hd (render secs))"
  by (cases secs) (auto simp: render_def left_barce_def)

lemma render_entries_gap:
  assumes "\<forall>e\<in>set es. key_ok (fst e) \<and> value_ok (snd e)" and "rest = [] \<or> left_barce (hd rest)"
  shows "takeWhile isspace_c (LF # render_entries es @ rest) = [LF]"
proof (cases es)
  case Nil
  with assms(2) show ?thesis
    by (cases rest) (auto simp: render_entries_def left_barce_def isspace_c_def)
next
  case (Cons e es')
  with assms(1) entry_line_hd [of e] have "entry_line e \<noteq> []" "\<not> isspace_c (hd (entry_line e))" by auto
  then have "takeWhile isspace_c (render_entries es @ rest) = []"
    by (cases "entry_line e") (auto simp: Cons render_entries_def)
  then show ?thesis by (simp add: isspace_c_def)
qed

lemma ini_lookup_section:
  assumes "section_ok (name, es)" and "rest = [] \<or> left_barce (hd rest)"
  shows "ini_lookup sec key True (CHR ''['' # name @ CHR '']'' # LF # render_entries es @ rest) =
           (if prefix_ci name sec
            then (case entry_get key es of Some v \<Rightarrow> Some v | None \<Rightarrow> ini_lookup sec key True rest)
            else ini_lookup sec key True rest)"
proof -
  let ?r = "name @ CHR '']'' # LF # render_entries es @ rest"
  have es: "\<forall>e\<in>set es. key_ok (fst e) \<and> value_ok (snd e)" and "CHR '']'' \<notin> set name"
    using assms(1) by (auto simp: section_ok_def name_ok_def)
  then have tw: "takeWhile (\<lambda>c. \<not> right_brace c) ?r = name"
    by (subst takeWhile_append2) (auto simp: right_brace_def)
  have gap: "takeWhile isspace_c (LF # render_entries es @ rest) = [LF]"
    by (rule render_entries_gap [OF es assms(2)])
  have after: "drop (length name) ?r = CHR '']'' # LF # render_entries es @ rest" by simp
  have "ini_lookup sec key False (CHR '']'' # LF # render_entries es @ rest) = ini_lookup sec key True rest"
    using ini_lookup_skip_line [of "'']''" False sec key "render_entries es @ rest"]
      ini_lookup_skip_entries [OF es] by (simp add: newline_def)
  moreover have "section_lookup key True (render_entries es @ rest) =
      (case entry_get key es of Some v \<Rightarrow> Inr v | None \<Rightarrow> Inl rest)"
    using section_lookup_entries [OF es] section_lookup_stop [OF assms(2)] by (simp cong: option.case_cong)
  moreover have "left_barce CHR ''[''" "newline LF" by (simp_all add: left_barce_def newline_def)
  ultimately show ?thesis
    by (simp only: ini_lookup.simps Let_def tw after list.sel gap)
       (auto split: option.split)
qed

lemma find_append: "find P (xs @ ys) = (case find P xs of Some x \<Rightarrow> Some x | None \<Rightarrow> find P ys)"
  by (induction xs) auto

lemma ini_get_Cons:
  "ini_get sec key ((name, es) # secs) =
     (if prefix_ci name sec
      then (case entry_get key es of Some v \<Rightarrow> Some v | None \<Rightarrow> ini_get sec key secs)
      else ini_get sec key secs)"
  by (auto simp: ini_get_def entry_get_def find_append split: option.split)

lemma ini_lookup_render:
  assumes "\<forall>s\<in>set secs. section_ok s"
  shows "ini_lookup sec key True (render secs) = ini_get sec key secs"
  using assms
proof (induction secs)
  case Nil
  then show ?case by (simp add: render_def ini_get_def entry_get_def)
next
  case (Cons s secs)
  obtain name es where s: "s = (name, es)" by (cases s)
  have "render (s # secs) = CHR ''['' # name @ CHR '']'' # LF # render_entries es @ render secs"
    by (simp add: render_def s)
  with Cons ini_lookup_section [of name es "render secs" sec key] render_stop [of secs] show ?case
    by (simp add: s ini_get_Cons cong: option.case_cong)
qed

section \<open>What the services read from such a file\<close>

text \<open>
  C23: Reading back a printed configuration: \<open>readStr\<close> returns the value of the first entry whose
  section name and key are case-insensitive prefixes of the requested ones (up to its first blank
  and 1023 bytes), and the uninitialised array when there is none.
\<close>

theorem readStr_render:
  assumes "\<forall>s\<in>set secs. section_ok s" and "conf_text (render secs)"
    and "sec \<noteq> []" and "key \<noteq> []" and "NUL \<notin> set sec" and "NUL \<notin> set key" and "length junk = 1024"
  shows "readStr sec (Some (render secs)) junk key =
           (case ini_get sec key secs of
              None \<Rightarrow> cut_blank junk
            | Some v \<Rightarrow> Inr (takeWhile (\<lambda>c. \<not> blank c) (take 1023 v)))"
  using readStr_lookup [OF assms(2-7)] ini_lookup_render [OF assms(1)] by simp

theorem readStr_render_witness:
  "readStr ''sip'' (Some (render [(''local'', [(''ip'', ''1.1.1.1'')]), (''sip'', [(''id'', ''34''), (''ip'', ''2.2.2.2'')])]))
     (replicate 1024 NUL) ''ip'' = Inr ''2.2.2.2''"
proof -
  let ?secs = "[(''local'', [(''ip'', ''1.1.1.1'')]), (''sip'', [(''id'', ''34''), (''ip'', ''2.2.2.2'')])]"
  have "\<forall>s\<in>set ?secs. section_ok s" by code_simp
  moreover have "conf_text (render ?secs)"
    by (simp add: conf_text_def render_def render_entries_def entry_line_def EOF_c_def MAX_INI_FILE_SIZE_def)
  moreover have "ini_get ''sip'' ''ip'' ?secs = Some ''2.2.2.2''" by code_simp
  ultimately show ?thesis using readStr_render [of ?secs "''sip''" "''ip''" "replicate 1024 NUL"]
    by (simp add: blank_def)
qed

lemma show_int_length:
  assumes "- (2 ^ 31) \<le> i" and "i < 2 ^ 31"
  shows "length (show_int i) \<le> 31"
proof -
  have "nat i < 10 ^ 20" "nat (- i) < 10 ^ 20" using assms by (simp_all add: nat_less_iff)
  then show ?thesis
    using show_nat_length [of "nat i" 20] show_nat_length [of "nat (- i)" 20] by (simp add: show_int_def)
qed

text \<open>
  Round trip of the numbers: a 32-bit integer printed as the value of a key is what \<open>readInt\<close>
  returns, when no earlier entry of a matching section has a prefix of the key.
\<close>

theorem readInt_show_int:
  assumes "\<forall>s\<in>set secs. section_ok s" and "conf_text (render secs)"
    and "sec \<noteq> []" and "key \<noteq> []" and "NUL \<notin> set sec" and "NUL \<notin> set key"
    and "concat (map snd (filter (\<lambda>s. prefix_ci (fst s) sec) secs)) = es1 @ (key, show_int i) # es2"
    and "\<forall>e\<in>set es1. \<not> prefix_ci (fst e) key"
    and "- (2 ^ 31) \<le> i" and "i < 2 ^ 31"
  shows "readInt sec (Some (render secs)) key = Inr i"
proof -
  have "find (\<lambda>e. prefix_ci (fst e) key) es1 = None"
    using assms(8) by (auto simp: find_None_iff)
  then have "ini_get sec key secs = Some (show_int i)"
    by (simp add: ini_get_def entry_get_def assms(7) find_append)
  then show ?thesis
    using readInt_lookup [OF assms(2-6)] ini_lookup_render [OF assms(1)] show_int_length [OF assms(9,10)]
      atoi_show_int [OF assms(9,10)] by simp
qed

theorem readInt_show_int_witness:
  "readInt ''sip'' (Some (render [(''sip'', [(''ip'', ''1.1.1.1''), (''port'', show_int 5060)])])) ''port'' = Inr 5060"
proof -
  let ?secs = "[(''sip'', [(''ip'', ''1.1.1.1''), (''port'', show_int 5060)])]"
  have sh: "show_int 5060 = ''5060''"
    by (simp add: show_int_def show_nat.simps)
  have "\<forall>s\<in>set ?secs. section_ok s" unfolding sh by code_simp
  moreover have "conf_text (render ?secs)"
    by (simp add: sh conf_text_def render_def render_entries_def entry_line_def EOF_c_def MAX_INI_FILE_SIZE_def)
  moreover have "\<not> prefix_ci ''ip'' ''port''" by code_simp
  ultimately show ?thesis
    using readInt_show_int [of ?secs "''sip''" "''port''" "[(''ip'', ''1.1.1.1'')]" 5060 "[]"] by simp
qed

text \<open>
  Keys that extend each other collide: after a line for a key \<open>k\<close>, a lookup of any longer key
  that starts with \<open>k\<close>, such as \<open>sip_subnode_id10\<close> after \<open>sip_subnode_id1\<close>, returns the value of
  \<open>k\<close>, whatever the file says of the longer key further on.
\<close>

theorem readStr_prefix_collision:
  assumes "section_ok (sec, es1 @ (k, v) # es2)" and "conf_text (render [(sec, es1 @ (k, v) # es2)])"
    and "sec \<noteq> []" and "NUL \<notin> set sec" and "NUL \<notin> set (k @ ext)" and "length junk = 1024"
    and "\<forall>e\<in>set es1. \<not> prefix_ci (fst e) (k @ ext)"
  shows "readStr sec (Some (render [(sec, es1 @ (k, v) # es2)])) junk (k @ ext) =
           Inr (takeWhile (\<lambda>c. \<not> blank c) (take 1023 v))"
proof -
  have "k @ ext \<noteq> []" using assms(1) by (auto simp: section_ok_def key_ok_def)
  moreover have "find (\<lambda>e. prefix_ci (fst e) (k @ ext)) es1 = None"
    using assms(7) by (auto simp: find_None_iff)
  then have "ini_get sec (k @ ext) [(sec, es1 @ (k, v) # es2)] = Some v"
    by (simp add: ini_get_def entry_get_def find_append)
  ultimately show ?thesis
    using readStr_lookup [OF assms(2,3) _ assms(4,5,6)] ini_lookup_render [of "[(sec, es1 @ (k, v) # es2)]"] assms(1)
    by simp
qed

theorem readStr_prefix_collision_witness:
  "readStr ''sip'' (Some (render [(''sip'', [(''node'', ''2''), (''id1'', ''AAA''), (''id10'', ''BBB'')])]))
     (replicate 1024 NUL) ''id10'' = Inr ''AAA''"
proof -
  let ?es = "[(''node'', ''2'')] @ (''id1'', ''AAA'') # [(''id10'', ''BBB'')]"
  have "section_ok (''sip'', ?es)" by code_simp
  moreover have "conf_text (render [(''sip'', ?es)])"
    by (simp add: conf_text_def render_def render_entries_def entry_line_def EOF_c_def MAX_INI_FILE_SIZE_def)
  moreover have "\<not> prefix_ci ''node'' ''id10''" by code_simp
  ultimately show ?thesis
    using readStr_prefix_collision [of "''sip''" "[(''node'', ''2'')]" "''id1''" "''AAA''" "[(''id10'', ''BBB'')]" "''0''" "replicate 1024 NUL"]
    by (simp add: blank_def)
qed

section \<open>A file that fills the buffer\<close>

lemma line_value_no_eq: "CHR ''='' \<notin> set line \<Longrightarrow> line_value key line = None"
proof (cases line)
  case (Cons c cs)
  assume "CHR ''='' \<notin> set line"
  then have "takeWhile (\<lambda>d. d \<noteq> CHR ''='') cs = cs" using Cons by (auto intro: takeWhile_eq_all_conv [THEN iffD2])
  then show ?thesis unfolding line_value_def Cons list.case by (simp only: Let_def) simp
qed (simp add: line_value_def)

text \<open>
  A section whose lines do not give the key and whose last line is not terminated: behind the last line
  the loop goes on at the byte after the terminating NUL, which is outside a full buffer.
\<close>

lemma in_section_past_end:
  assumes "NUL \<notin> set key" and "NUL \<notin> set s" and "A \<noteq> []" and "nl = newline (last A)"
    and "section_lookup key nl s = Inl []" and "s \<noteq> []" and "\<not> newline (last s)"
  shows "in_section key (A @ s @ [NUL]) (length A) = Inl OutOfBounds"
  using assms
proof (induction key nl s arbitrary: A rule: section_lookup.induct)
  case (1 key nl s)
  let ?line = "takeWhile (\<lambda>c. \<not> newline c) s" and ?p = "A @ s @ [NUL]"
  have on: "\<not> (s = [] \<or> (nl \<and> left_barce (hd s)))"
    using "1.prems"(5,6) by (auto simp: section_lookup.simps [of key nl s])
  then have none: "line_value key ?line = None"
    and rest: "section_lookup key True (drop (Suc (length ?line)) s) = Inl []"
    using "1.prems"(5) by (subst (asm) section_lookup.simps, simp add: Let_def split: option.splits)+
  define r where "r = drop (length ?line) s"
  define e where "e = hd (r @ [NUL])"
  define i' where "i' = length A + length ?line"
  have s: "s = ?line @ r" by (metis dropWhile_eq_drop r_def takeWhile_dropWhile_id)
  have rd: "r = dropWhile (\<lambda>c. \<not> newline c) s" by (simp add: r_def dropWhile_eq_drop)
  have e: "newline e \<or> e = NUL"
    using hd_dropWhile [of "\<lambda>c. \<not> newline c" s] by (cases r) (auto simp: e_def rd [symmetric])
  have pl: "?p = A @ ?line @ e # tl (r @ [NUL])" using s by (cases r) (auto simp: e_def)
  have prev: "?p ! (length A - 1) = last A" using "1.prems"(3) by (cases A rule: rev_cases) (auto simp: nth_append)
  have len: "length A - 1 < length ?p" "length A < length ?p" using "1.prems"(3) by auto
  have go_on: "((newline (?p ! (length A - 1)) \<and> left_barce (?p ! length A)) \<or> end_of_string (?p ! length A)) = False"
    using on "1.prems"(2,4) prev by (cases s; auto simp: nth_append end_of_string_def)
  have noNUL: "NUL \<notin> set ?line" using "1.prems"(2) by (auto dest: set_takeWhileD)
  have eol: "find_eol ?p (length A) = Inr i'"
    unfolding i'_def using e noNUL by (subst pl, intro find_eol_eq) (auto dest: set_takeWhileD)
  have scan: "(if ?p ! length A \<noteq> CHR ''#'' then key_scan key ?p (length A) i' (length A) (length A) else Inr None) = Inr None"
    using line_scan_eq [OF "1.prems"(1) e noNUL pl i'_def] none by fastforce
  have unf: "in_section key ?p (length A) = in_section key ?p (Suc i')"
    by (subst in_section.simps)
       (simp only: cell_inside [OF len(1)] cell_inside [OF len(2)] bind_res_simps go_on if_False eol scan option.case)
  show ?case
  proof (cases r)
    case Nil
    then have "length ?p = Suc i'" using s by (simp add: i'_def)
    then have "in_section key ?p (Suc i') = Inl OutOfBounds"
      by (subst in_section.simps) (simp add: cell_def)
    with unf show ?thesis by simp
  next
    case (Cons d r')
    then have d: "newline d" using hd_dropWhile [of "\<lambda>c. \<not> newline c" s] rd by (metis list.sel(1) list.simps(3))
    have s': "s = ?line @ d # r'" using s Cons by simp
    have r': "drop (Suc (length ?line)) s = r'" using Cons by (metis drop_Suc tl_drop list.sel(3) r_def)
    have "r' \<noteq> []" using d "1.prems"(7) s' by (metis last_snoc)
    moreover have "last r' = last s" using calculation s' by (metis last_ConsR last_appendR list.distinct(1))
    moreover have "NUL \<notin> set r'" using "1.prems"(2) s' by (metis UnCI list.set_intros(2) set_append)
    ultimately have "in_section key ((A @ ?line @ [d]) @ r' @ [NUL]) (length (A @ ?line @ [d])) = Inl OutOfBounds"
      using "1.IH" [OF on refl none, of "A @ ?line @ [d]"] "1.prems"(1,7) rest d unfolding r' by simp
    moreover have "(A @ ?line @ [d]) @ r' @ [NUL] = ?p" "length (A @ ?line @ [d]) = Suc i'"
      using s' by (metis append.assoc append_Cons append_Nil, simp add: i'_def)
    ultimately have "in_section key ?p (Suc i') = Inl OutOfBounds" by metis
    then show ?thesis by (simp only: unf)
  qed
qed

text \<open>Text in front of the section: no line of it opens a section that matches.\<close>

fun foreign :: "string \<Rightarrow> bool \<Rightarrow> string \<Rightarrow> bool" where
  "foreign sec bol [] \<longleftrightarrow> True"
| "foreign sec bol (c # r) \<longleftrightarrow>
     (bol \<and> left_barce c \<longrightarrow> CHR '']'' \<in> set r \<and> \<not> prefix_ci (takeWhile (\<lambda>c. \<not> right_brace c) r) sec) \<and> foreign sec (newline c) r"

lemma split_rbrace: "CHR '']'' \<in> set r \<Longrightarrow> \<exists>r'. r = takeWhile (\<lambda>c. \<not> right_brace c) r @ CHR '']'' # r'"
  by (induction r) (auto simp: right_brace_def)

lemma foreign_append: "foreign sec bol (a @ b) \<Longrightarrow> foreign sec (if a = [] then bol else newline (last a)) b"
  by (induction a arbitrary: bol) (auto split: if_splits)

lemma parse_loop_foreign:
  assumes "NUL \<notin> set sec" and "NUL \<notin> set R"
  shows "foreign sec bol s \<Longrightarrow> NUL \<notin> set s \<Longrightarrow> bol = (A = [] \<or> newline (last A)) \<Longrightarrow>
    parse_loop sec key (A @ s @ R @ [NUL]) (length A) pos = parse_loop sec key (A @ s @ R @ [NUL]) (length A + length s) pos"
proof (induction "length s" arbitrary: s bol A rule: less_induct)
  case less
  show ?case
  proof (cases s)
    case (Cons c r)
    let ?p = "A @ s @ R @ [NUL]" and ?name = "takeWhile (\<lambda>c. \<not> right_brace c) r"
    have c: "?p ! length A = c" "length A < length ?p" "c \<noteq> NUL" using Cons less.prems(2) by auto
    have prev: "(length A = 0 \<or> newline (?p ! (length A - 1))) = bol"
      using less.prems(3) by (cases A rule: rev_cases) (auto simp: nth_append)
    have NULr: "NUL \<notin> set (r @ R)" using Cons less.prems(2) assms(2) by auto
    have p: "?p = A @ c # (r @ R) @ [NUL]" using Cons by simp
    show ?thesis
    proof (cases "bol \<and> left_barce c")
      case True
      with less.prems(1) Cons have m: "CHR '']'' \<in> set r" "\<not> prefix_ci ?name sec" by auto
      obtain n r' where n: "n = ?name" and r: "r = n @ CHR '']'' # r'" using split_rbrace [OF m(1)] by blast
      have r': "r = ?name @ CHR '']'' # r'" using n r by simp
      have same: "takeWhile (\<lambda>c. \<not> right_brace c) (r @ R) = ?name"
        using m(1) by (auto simp: takeWhile_append right_brace_def)
      define i1 where "i1 = Suc (length A) + length ?name"
      have brace: "find_rbrace ?p (length A) = Inr i1"
        unfolding p using find_rbrace_eq [OF NULr, of A c "[]"] same by (simp add: i1_def)
      have "NUL \<notin> set ?name" using NULr by (auto dest: set_takeWhileD)
      moreover have "drop (Suc (length A)) ?p = ?name @ (CHR '']'' # r' @ R @ [NUL])"
        unfolding p n [symmetric] by (simp add: r)
      ultimately have "strncasecmp_eq0 (i1 - Suc (length A)) (drop (Suc (length A)) ?p) sec = False"
        using strncasecmp_eq0_prefix [OF _ assms(1)] m(2) by (simp add: i1_def)
      then have step: "parse_loop sec key ?p (length A) pos = parse_loop sec key ?p i1 pos"
        using True c brace prev
        by (subst parse_loop.simps) (simp add: cell_inside Let_def end_of_string_def)
      let ?A = "A @ c # ?name"
      have f: "foreign sec False (CHR '']'' # r')"
      proof -
        have "foreign sec bol ((c # n) @ (CHR '']'' # r'))" using less.prems(1) Cons r by simp
        from foreign_append [OF this] show ?thesis by (auto simp: left_barce_def)
      qed
      have "parse_loop sec key (?A @ (CHR '']'' # r') @ R @ [NUL]) (length ?A) pos =
          parse_loop sec key (?A @ (CHR '']'' # r') @ R @ [NUL]) (length ?A + length (CHR '']'' # r')) pos"
      proof (rule less.hyps)
        show "length (CHR '']'' # r') < length s" using Cons r by simp
        show "NUL \<notin> set (CHR '']'' # r')" using NULr r by simp
        show "foreign sec (?A = [] \<or> newline (last ?A)) (CHR '']'' # r')" using f by (auto simp: left_barce_def)
      qed simp
      moreover have "?A @ (CHR '']'' # r') @ R @ [NUL] = ?p" unfolding p n [symmetric] by (simp add: r)
      moreover have "length ?A = i1" "length ?A + length (CHR '']'' # r') = length A + length s"
        using Cons unfolding i1_def n [symmetric] by (simp_all add: r)
      ultimately show ?thesis using step by metis
    next
      case False
      then have step: "parse_loop sec key ?p (length A) pos = parse_loop sec key ?p (Suc (length A)) pos"
        using c prev by (subst parse_loop.simps) (auto simp: cell_inside end_of_string_def)
      have "parse_loop sec key ((A @ [c]) @ r @ R @ [NUL]) (length (A @ [c])) pos =
          parse_loop sec key ((A @ [c]) @ r @ R @ [NUL]) (length (A @ [c]) + length r) pos"
        by (rule less.hyps [of r "newline c"]) (use Cons less.prems in auto)
      with step Cons show ?thesis by simp
    qed
  qed simp
qed

text \<open>
  C24: A file that fills the buffer but for its terminating NUL makes the reader read outside the array
  when its last section is the first that matches, no line of that section gives the key, and the
  last line is not terminated: after a line the code steps over its end (\<open>i++\<close>) without looking whether
  that was a newline or the NUL.
\<close>

theorem full_file_reads_out_of_bounds:
  assumes "f = pre @ CHR ''['' # name @ CHR '']'' # gap @ lines" and "length f = 10239"
    and "NUL \<notin> set f" and "EOF_c \<notin> set f"
    and "sec \<noteq> []" and "NUL \<notin> set sec" and "key \<noteq> []" and "NUL \<notin> set key"
    and "pre = [] \<or> newline (last pre)" and "foreign sec True pre"
    and "CHR '']'' \<notin> set name" and "prefix_ci name sec" and "\<forall>c\<in>set gap. isspace_c c"
    and "lines \<noteq> []" and "\<not> isspace_c (hd lines)" and "\<not> newline (last lines)"
    and "section_lookup key (gap \<noteq> [] \<and> newline (last gap)) lines = Inl []"
  shows "readInt sec (Some f) key = Inl OutOfBounds \<and> readStr sec (Some f) junk key = Inl OutOfBounds"
proof -
  let ?p = "f @ [NUL]" and ?r = "name @ CHR '']'' # gap @ lines" and ?k = "length pre"
  let ?A = "pre @ CHR ''['' # name @ CHR '']'' # gap"
  have NULs: "NUL \<notin> set ?r" "NUL \<notin> set name" "NUL \<notin> set lines" "NUL \<notin> set pre" "NUL \<notin> set (CHR ''['' # ?r)"
    using assms(1,3) by auto
  have load: "load_ini_file (Some f) (replicate MAX_INI_FILE_SIZE NUL) = Inr (Some (?p, 10239))"
    using load_ini_file_eq [OF assms(4)] assms(2) by (simp add: MAX_INI_FILE_SIZE_def)
  have skip: "parse_loop sec key ?p 0 no_pos = parse_loop sec key ?p ?k no_pos"
    using parse_loop_foreign [OF assms(6) NULs(5) assms(10) NULs(4), of "[]" key no_pos] assms(1) by simp
  have "takeWhile (\<lambda>c. \<not> right_brace c) ?r = name"
    using assms(11) by (subst takeWhile_append2) (auto simp: right_brace_def)
  then have brace: "find_rbrace ?p ?k = Inr (Suc ?k + length name)"
    using find_rbrace_eq [OF NULs(1), of pre "CHR ''[''" "[]"] assms(1) by simp
  have "drop (Suc ?k) ?p = name @ (CHR '']'' # gap @ lines @ [NUL])" using assms(1) by simp
  then have cmp: "strncasecmp_eq0 (Suc ?k + length name - Suc ?k) (drop (Suc ?k) ?p) sec"
    using strncasecmp_eq0_prefix [OF NULs(2) assms(6)] assms(12) by simp
  obtain c cs where lines: "lines = c # cs" using assms(14) by (cases lines) auto
  have "?p = (pre @ CHR ''['' # name @ '']'') @ gap @ c # (cs @ [NUL])" by (simp add: assms(1) lines)
  moreover have tw: "takeWhile isspace_c gap = gap" using assms(13) by (simp add: takeWhile_eq_all_conv)
  ultimately have gap: "skip_space ?p (Suc (Suc ?k + length name)) = Inr (length ?A)"
    using skip_space_eq [of c "pre @ CHR ''['' # name @ '']''" gap "cs @ [NUL]", unfolded tw] assms(15) lines by simp
  have "newline (last ?A) = (gap \<noteq> [] \<and> newline (last gap))" by (simp add: newline_def)
  with in_section_past_end [OF assms(8) NULs(3) _ _ assms(17,14,16), of ?A] assms(1)
  have in_lines: "in_section key ?p (length ?A) = Inl OutOfBounds" by simp
  have first: "cell ?p ?k = Inr CHR ''[''" "(?k = 0 \<or> newline (?p ! (?k - 1))) = True"
    using assms(1,9) by (simp_all add: cell_def) (cases pre rule: rev_cases; auto simp: nth_append)
  have "end_of_string CHR ''['' = False" "left_barce CHR ''['' = True" by (simp_all add: char_class_defs)
  then have "parse_loop sec key ?p ?k no_pos = Inl OutOfBounds"
    by (subst parse_loop.simps) (simp only: first bind_res_simps brace cmp gap in_lines Let_def simp_thms if_True if_False)
  then show ?thesis
    using load assms(5,7) skip
    by (simp add: readInt_def readStr_def read_profile_int_def read_profile_string_def parse_file_def)
qed

theorem full_file_reads_out_of_bounds_witness:
  "readInt ''s'' (Some ((''[t]'' @ [LF]) @ CHR ''['' # ''s'' @ CHR '']'' # [LF] @ (''a=1'' @ LF # replicate 10227 CHR ''x''))) ''k'' = Inl OutOfBounds"
proof -
  let ?x = "replicate 10227 CHR ''x''"
  let ?lines = "''a=1'' @ LF # ?x" and ?pre = "''[t]'' @ [LF]"
  let ?f = "?pre @ CHR ''['' # ''s'' @ CHR '']'' # [LF] @ ?lines"
  have x: "hd ?x = CHR ''x''" "last ?x = CHR ''x''" "?x \<noteq> []" "set ?x = {CHR ''x''}" by (simp_all add: hd_replicate)
  have nx: "\<not> newline CHR ''x''" "\<not> isspace_c CHR ''a''" "isspace_c LF" "newline LF"
    by (simp_all add: isspace_c_def char_class_defs)
  have tx: "takeWhile (\<lambda>c. \<not> newline c) ?x = ?x" using nx by (simp add: takeWhile_eq_all_conv)
  have "CHR ''='' \<notin> set ?x" by simp
  then have nox: "line_value ''k'' ?x = None" by (rule line_value_no_eq)
  have s2: "section_lookup ''k'' True ?x = Inl []"
    using x nx by (subst section_lookup.simps) (simp add: tx nox left_barce_def Let_def section_lookup.simps [of _ _ "[]"])
  have t1: "takeWhile (\<lambda>c. \<not> newline c) ?lines = ''a=1''" by (simp add: newline_def)
  have "line_value ''k'' ''a=1'' = None" by code_simp
  then have s1: "section_lookup ''k'' True ?lines = Inl []"
    using s2 by (subst section_lookup.simps) (simp only: t1 Let_def, simp add: left_barce_def)
  have "foreign ''s'' True ?pre" "prefix_ci ''s'' ''s''" "newline (last ?pre)" by code_simp+
  moreover have "length ?f = 10239" by simp
  moreover have "NUL \<notin> set ?f" "EOF_c \<notin> set ?f" by (simp_all add: EOF_c_def)
  ultimately show ?thesis
    using full_file_reads_out_of_bounds [of ?f ?pre "''s''" "[LF]" ?lines "''s''" "''k''"] s1 x nx by simp
qed

end
