(* ===== verification/LocalConfig.thy ===== *)
theory LocalConfig
  imports ConfRender
begin

text \<open>
  The configuration of the two services (\<open>SipLocalConfig.cpp\<close> and \<open>SipLocalConfig.h\<close> of each):
  the fields both classes have, the list of lower-level nodes of SipSupService and the list of
  upper-level nodes of SipSubService. \<open>conf_source\<close> is what \<open>ReadConf\<close> needs of the reader.
\<close>

section \<open>The interface of the reader\<close>

text \<open>What a present entry is worth to \<open>readStr\<close>, and an entry, present or not, to \<open>readInt\<close>.\<close>

definition str_value :: "string \<Rightarrow> string" where
  "str_value v = takeWhile (\<lambda>c. \<not> blank c) (take 1023 v)"

definition int_value :: "string option \<Rightarrow> int" where
  "int_value e = (case e of None \<Rightarrow> -1 | Some v \<Rightarrow> atoi (take 31 v))"

definition name_text :: "string \<Rightarrow> bool" where
  "name_text s \<longleftrightarrow> s \<noteq> [] \<and> NUL \<notin> set s"

locale conf_source =
  fixes rd_str :: "'s \<Rightarrow> conf_reader \<Rightarrow> string \<Rightarrow> string res"
    and rd_int :: "'s \<Rightarrow> conf_reader \<Rightarrow> string \<Rightarrow> int res"
    and uninit :: "'s \<Rightarrow> string \<Rightarrow> string res"
    and entry :: "'s \<Rightarrow> string \<Rightarrow> string \<Rightarrow> string \<Rightarrow> string option"
    and valid :: "'s \<Rightarrow> string \<Rightarrow> bool"
  assumes rd_str_entry: "valid s (m_fileName c) \<Longrightarrow> name_text (m_section c) \<Longrightarrow> name_text key \<Longrightarrow>
      rd_str s c key = (case entry s (m_fileName c) (m_section c) key of
                          None \<Rightarrow> uninit s key | Some v \<Rightarrow> Inr (str_value v))"
    and rd_int_entry: "valid s (m_fileName c) \<Longrightarrow> name_text (m_section c) \<Longrightarrow> name_text key \<Longrightarrow>
      rd_int s c key = Inr (int_value (entry s (m_fileName c) (m_section c) key))"

section \<open>The object and ReadConf\<close>

record sip_local_conf =
  m_conf :: conf_reader
  m_localIp :: string
  m_localPort :: int
  m_sipId :: string
  m_sipIp :: string
  m_sipPort :: int

record SubNodeInfo =
  sub_id :: string
  sub_ip :: string
  sub_port :: int
  sub_poto :: int
  sub_auth :: int

record SupNodeInfo =
  sup_id :: string
  sup_ip :: string
  sup_port :: int
  sup_poto :: int
  sup_expires :: int

record sup_local_conf = sip_local_conf +
  ubNodeInfoList :: "SubNodeInfo list"

record sub_local_conf = sip_local_conf +
  upNodeInfoList :: "SupNodeInfo list"

definition sup_SipLocalConfig :: sup_local_conf where
  "sup_SipLocalConfig =
     \<lparr>m_conf = ConfReader_new ''/home/GB28181-Server/SipSupService/conf/SipSupService.conf'',
      m_localIp = [], m_localPort = 0, m_sipId = [], m_sipIp = [], m_sipPort = 0, ubNodeInfoList = []\<rparr>"

definition sub_SipLocalConfig :: sub_local_conf where
  "sub_SipLocalConfig =
     \<lparr>m_conf = ConfReader_new ''/home/GB28181-Server/SipSubService/conf/SipSubService.conf'',
      m_localIp = [], m_localPort = 0, m_sipId = [], m_sipIp = [], m_sipPort = 0, upNodeInfoList = []\<rparr>"

text \<open>
  The first part of \<open>ReadConf\<close>, the same lines in both services: \<open>True\<close> when it goes on, \<open>False\<close>
  when one of the five checks made it return -1.
\<close>

definition read_server ::
    "(conf_reader \<Rightarrow> string \<Rightarrow> string res) \<Rightarrow> (conf_reader \<Rightarrow> string \<Rightarrow> int res) \<Rightarrow>
     'a sip_local_conf_scheme \<Rightarrow> (bool \<times> 'a sip_local_conf_scheme) res" where
  "read_server rs ri t =
     (let t = t\<lparr>m_conf := setSection ''localserver'' (m_conf t)\<rparr> in
      bind_res (rs (m_conf t) ''local_ip'') (\<lambda>v. let t = t\<lparr>m_localIp := v\<rparr> in
      if m_localIp t = [] then Inr (False, t)
      else bind_res (ri (m_conf t) ''local_port'') (\<lambda>v. let t = t\<lparr>m_localPort := v\<rparr> in
      if m_localPort t \<le> 0 then Inr (False, t)
      else let t = t\<lparr>m_conf := setSection ''sipserver'' (m_conf t)\<rparr> in
      bind_res (rs (m_conf t) ''sip_id'') (\<lambda>v. let t = t\<lparr>m_sipId := v\<rparr> in
      if m_sipId t = [] then Inr (False, t)
      else bind_res (rs (m_conf t) ''sip_ip'') (\<lambda>v. let t = t\<lparr>m_sipIp := v\<rparr> in
      if m_sipIp t = [] then Inr (False, t)
      else bind_res (ri (m_conf t) ''sip_port'') (\<lambda>v. let t = t\<lparr>m_sipPort := v\<rparr> in
      if m_sipPort t \<le> 0 then Inr (False, t) else Inr (True, t)))))))"

definition node_key :: "string \<Rightarrow> int \<Rightarrow> string" where
  "node_key base i = base @ show_int i"

text \<open>The loops \<open>for (int i = 1; i < num + 1; ++i)\<close>.\<close>

definition sup_read_node ::
    "(conf_reader \<Rightarrow> string \<Rightarrow> string res) \<Rightarrow> (conf_reader \<Rightarrow> string \<Rightarrow> int res) \<Rightarrow>
     conf_reader \<Rightarrow> int \<Rightarrow> SubNodeInfo res" where
  "sup_read_node rs ri c i =
     bind_res (rs c (node_key ''sip_subnode_id'' i)) (\<lambda>id.
     bind_res (rs c (node_key ''sip_subnode_ip'' i)) (\<lambda>ip.
     bind_res (ri c (node_key ''sip_subnode_port'' i)) (\<lambda>port.
     bind_res (ri c (node_key ''sip_subnode_poto'' i)) (\<lambda>poto.
     bind_res (ri c (node_key ''sip_subnode_auth'' i)) (\<lambda>auth.
       Inr \<lparr>sub_id = id, sub_ip = ip, sub_port = port, sub_poto = poto, sub_auth = auth\<rparr>)))))"

function sup_read_nodes ::
    "(conf_reader \<Rightarrow> string \<Rightarrow> string res) \<Rightarrow> (conf_reader \<Rightarrow> string \<Rightarrow> int res) \<Rightarrow>
     int \<Rightarrow> int \<Rightarrow> sup_local_conf \<Rightarrow> sup_local_conf res" where
  "sup_read_nodes rs ri num i t =
     (if i < num + 1
      then bind_res (sup_read_node rs ri (m_conf t) i) (\<lambda>info.
             sup_read_nodes rs ri num (i + 1) (t\<lparr>ubNodeInfoList := ubNodeInfoList t @ [info]\<rparr>))
      else Inr t)"
  by pat_completeness auto
termination
  by (relation "measure (\<lambda>(rs, ri, num, i, t). nat (num + 1 - i))") auto

definition sub_read_node ::
    "(conf_reader \<Rightarrow> string \<Rightarrow> string res) \<Rightarrow> (conf_reader \<Rightarrow> string \<Rightarrow> int res) \<Rightarrow>
     conf_reader \<Rightarrow> int \<Rightarrow> SupNodeInfo res" where
  "sub_read_node rs ri c i =
     bind_res (rs c (node_key ''sip_supnode_id'' i)) (\<lambda>id.
     bind_res (rs c (node_key ''sip_supnode_ip'' i)) (\<lambda>ip.
     bind_res (ri c (node_key ''sip_supnode_port'' i)) (\<lambda>port.
     bind_res (ri c (node_key ''sip_supnode_poto'' i)) (\<lambda>poto.
     bind_res (ri c (node_key ''sip_supnode_expires'' i)) (\<lambda>expires.
       Inr \<lparr>sup_id = id, sup_ip = ip, sup_port = port, sup_poto = poto, sup_expires = expires\<rparr>)))))"

function sub_read_nodes ::
    "(conf_reader \<Rightarrow> string \<Rightarrow> string res) \<Rightarrow> (conf_reader \<Rightarrow> string \<Rightarrow> int res) \<Rightarrow>
     int \<Rightarrow> int \<Rightarrow> sub_local_conf \<Rightarrow> sub_local_conf res" where
  "sub_read_nodes rs ri num i t =
     (if i < num + 1
      then bind_res (sub_read_node rs ri (m_conf t) i) (\<lambda>info.
             sub_read_nodes rs ri num (i + 1) (t\<lparr>upNodeInfoList := upNodeInfoList t @ [info]\<rparr>))
      else Inr t)"
  by pat_completeness auto
termination
  by (relation "measure (\<lambda>(rs, ri, num, i, t). nat (num + 1 - i))") auto

declare sup_read_nodes.simps [simp del] sub_read_nodes.simps [simp del]

text \<open>\<open>num + 1\<close> leaves the range of int when \<open>num\<close> is its largest value.\<close>

definition INT_MAX :: int where
  "INT_MAX = 2 ^ 31 - 1"

definition sup_ReadConf_with ::
    "(conf_reader \<Rightarrow> string \<Rightarrow> string res) \<Rightarrow> (conf_reader \<Rightarrow> string \<Rightarrow> int res) \<Rightarrow>
     sup_local_conf \<Rightarrow> (int \<times> sup_local_conf) res" where
  "sup_ReadConf_with rs ri t =
     bind_res (read_server rs ri t) (\<lambda>(go_on, t).
       if \<not> go_on then Inr (-1, t)
       else bind_res (ri (m_conf t) ''subnode_num'') (\<lambda>num.
         if num = INT_MAX then Inl IntOverflow
         else bind_res (sup_read_nodes rs ri num 1 t) (\<lambda>t. Inr (0, t))))"

definition sub_ReadConf_with ::
    "(conf_reader \<Rightarrow> string \<Rightarrow> string res) \<Rightarrow> (conf_reader \<Rightarrow> string \<Rightarrow> int res) \<Rightarrow>
     sub_local_conf \<Rightarrow> (int \<times> sub_local_conf) res" where
  "sub_ReadConf_with rs ri t =
     bind_res (read_server rs ri t) (\<lambda>(go_on, t).
       if \<not> go_on then Inr (-1, t)
       else bind_res (ri (m_conf t) ''supnode_num'') (\<lambda>num.
         if num = INT_MAX then Inl IntOverflow
         else bind_res (sub_read_nodes rs ri num 1 t) (\<lambda>t. Inr (0, t))))"

definition sup_ReadConf :: "conf_src \<Rightarrow> sup_local_conf \<Rightarrow> (int \<times> sup_local_conf) res" where
  "sup_ReadConf src = sup_ReadConf_with (conf_readStr src) (conf_readInt src)"

definition sub_ReadConf :: "conf_src \<Rightarrow> sub_local_conf \<Rightarrow> (int \<times> sub_local_conf) res" where
  "sub_ReadConf src = sub_ReadConf_with (conf_readStr src) (conf_readInt src)"

section \<open>The abstract configuration\<close>

text \<open>
  What \<open>ReadConf\<close> makes of a file, over a lookup \<open>get\<close> of section and key: \<open>server_ok\<close> are its
  checks, \<open>sub_node\<close> and \<open>sup_node\<close> the information of node \<open>i\<close>.
\<close>

definition get_str :: "(string \<Rightarrow> string option) \<Rightarrow> string \<Rightarrow> string" where
  "get_str get key = (case get key of None \<Rightarrow> [] | Some v \<Rightarrow> str_value v)"

definition server_ok :: "(string \<Rightarrow> string \<Rightarrow> string option) \<Rightarrow> bool" where
  "server_ok get \<longleftrightarrow>
     get_str (get ''localserver'') ''local_ip'' \<noteq> [] \<and> 0 < int_value (get ''localserver'' ''local_port'') \<and>
     get_str (get ''sipserver'') ''sip_id'' \<noteq> [] \<and> get_str (get ''sipserver'') ''sip_ip'' \<noteq> [] \<and>
     0 < int_value (get ''sipserver'' ''sip_port'')"

definition sub_node :: "(string \<Rightarrow> string option) \<Rightarrow> int \<Rightarrow> SubNodeInfo" where
  "sub_node get i =
     \<lparr>sub_id = get_str get (node_key ''sip_subnode_id'' i), sub_ip = get_str get (node_key ''sip_subnode_ip'' i),
      sub_port = int_value (get (node_key ''sip_subnode_port'' i)),
      sub_poto = int_value (get (node_key ''sip_subnode_poto'' i)),
      sub_auth = int_value (get (node_key ''sip_subnode_auth'' i))\<rparr>"

definition sup_node :: "(string \<Rightarrow> string option) \<Rightarrow> int \<Rightarrow> SupNodeInfo" where
  "sup_node get i =
     \<lparr>sup_id = get_str get (node_key ''sip_supnode_id'' i), sup_ip = get_str get (node_key ''sip_supnode_ip'' i),
      sup_port = int_value (get (node_key ''sip_supnode_port'' i)),
      sup_poto = int_value (get (node_key ''sip_supnode_poto'' i)),
      sup_expires = int_value (get (node_key ''sip_supnode_expires'' i))\<rparr>"

definition server_conf :: "(string \<Rightarrow> string \<Rightarrow> string option) \<Rightarrow> 'a sip_local_conf_scheme \<Rightarrow> 'a sip_local_conf_scheme" where
  "server_conf get t =
     t\<lparr>m_conf := setSection ''sipserver'' (m_conf t),
       m_localIp := get_str (get ''localserver'') ''local_ip'',
       m_localPort := int_value (get ''localserver'' ''local_port''),
       m_sipId := get_str (get ''sipserver'') ''sip_id'',
       m_sipIp := get_str (get ''sipserver'') ''sip_ip'',
       m_sipPort := int_value (get ''sipserver'' ''sip_port'')\<rparr>"

lemma show_int_no_NUL: "NUL \<notin> set (show_int i)"
  by (auto simp: show_int_def isdigit_c_def dest!: show_nat_digits)

lemma name_text_node_key [simp]: "name_text base \<Longrightarrow> name_text (node_key base i)"
  using show_int_no_NUL by (auto simp: name_text_def node_key_def)

lemma setSection_simps [simp]:
  "m_fileName (setSection sec c) = m_fileName c" "m_section (setSection sec c) = sec"
  "setSection sec (setSection sec' c) = setSection sec c"
  by (simp_all add: setSection_def)

lemma name_text_literals [simp]:
  "name_text (CHR 0x5F # s) \<longleftrightarrow> NUL \<notin> set s"
  "name_text ''localserver''" "name_text ''sipserver''" "name_text ''local_ip''" "name_text ''local_port''"
  "name_text ''sip_id''" "name_text ''sip_ip''" "name_text ''sip_port''"
  "name_text ''subnode_num''" "name_text ''supnode_num''"
  "name_text ''sip_subnode_id''" "name_text ''sip_subnode_ip''" "name_text ''sip_subnode_port''"
  "name_text ''sip_subnode_poto''" "name_text ''sip_subnode_auth''"
  "name_text ''sip_supnode_id''" "name_text ''sip_supnode_ip''" "name_text ''sip_supnode_port''"
  "name_text ''sip_supnode_poto''" "name_text ''sip_supnode_expires''"
  by (simp_all add: name_text_def)

text \<open>The string keys node \<open>i\<close> needs: without them the object holds uninitialised bytes.\<close>

definition sub_node_named :: "(string \<Rightarrow> string option) \<Rightarrow> int \<Rightarrow> bool" where
  "sub_node_named get i \<longleftrightarrow> get (node_key ''sip_subnode_id'' i) \<noteq> None \<and> get (node_key ''sip_subnode_ip'' i) \<noteq> None"

definition sup_node_named :: "(string \<Rightarrow> string option) \<Rightarrow> int \<Rightarrow> bool" where
  "sup_node_named get i \<longleftrightarrow> get (node_key ''sip_supnode_id'' i) \<noteq> None \<and> get (node_key ''sip_supnode_ip'' i) \<noteq> None"

definition server_named :: "(string \<Rightarrow> string \<Rightarrow> string option) \<Rightarrow> bool" where
  "server_named get \<longleftrightarrow> get ''localserver'' ''local_ip'' \<noteq> None \<and> get ''sipserver'' ''sip_id'' \<noteq> None \<and>
     get ''sipserver'' ''sip_ip'' \<noteq> None"

lemma server_ok_named: "server_ok get \<Longrightarrow> server_named get"
  by (auto simp: server_ok_def server_named_def get_str_def split: option.splits)

lemma server_conf_simps [simp]:
  "m_conf (server_conf get t) = setSection ''sipserver'' (m_conf t)"
  by (simp add: server_conf_def)

section \<open>What ReadConf reads through the interface\<close>

context conf_source
begin

lemma rd_str_present:
  assumes "valid s (m_fileName c)" and "name_text (m_section c)" and "name_text key"
    and "entry s (m_fileName c) (m_section c) key \<noteq> None"
  shows "rd_str s c key = Inr (get_str (entry s (m_fileName c) (m_section c)) key)"
  using rd_str_entry [OF assms(1-3)] assms(4) by (auto simp: get_str_def)

lemma read_server_accepts:
  assumes "valid s (m_fileName (m_conf t))" and "server_ok (entry s (m_fileName (m_conf t)))"
  shows "read_server (rd_str s) (rd_int s) t = Inr (True, server_conf (entry s (m_fileName (m_conf t))) t)"
proof -
  have "server_named (entry s (m_fileName (m_conf t)))" by (rule server_ok_named [OF assms(2)])
  with assms show ?thesis
    by (simp add: read_server_def Let_def rd_str_present rd_int_entry server_ok_def server_named_def server_conf_def)
qed

lemma read_server_rejects:
  assumes "valid s (m_fileName (m_conf t))" and "server_named (entry s (m_fileName (m_conf t)))"
    and "\<not> server_ok (entry s (m_fileName (m_conf t)))"
  shows "\<exists>t'. read_server (rd_str s) (rd_int s) t = Inr (False, t')"
  using assms
  by (simp add: read_server_def Let_def rd_str_present rd_int_entry server_ok_def server_named_def)
     (auto simp: not_less)

lemma sup_read_node_named:
  assumes "valid s (m_fileName c)" and "name_text (m_section c)"
    and "sub_node_named (entry s (m_fileName c) (m_section c)) i"
  shows "sup_read_node (rd_str s) (rd_int s) c i = Inr (sub_node (entry s (m_fileName c) (m_section c)) i)"
  using assms by (simp add: sup_read_node_def sub_node_def sub_node_named_def rd_str_present rd_int_entry)

lemma sub_read_node_named:
  assumes "valid s (m_fileName c)" and "name_text (m_section c)"
    and "sup_node_named (entry s (m_fileName c) (m_section c)) i"
  shows "sub_read_node (rd_str s) (rd_int s) c i = Inr (sup_node (entry s (m_fileName c) (m_section c)) i)"
  using assms by (simp add: sub_read_node_def sup_node_def sup_node_named_def rd_str_present rd_int_entry)

lemma sup_read_nodes_named:
  assumes "valid s (m_fileName c)" and "name_text (m_section c)" and "m_conf t = c"
    and "\<forall>k\<in>{i..num}. sub_node_named (entry s (m_fileName c) (m_section c)) k"
  shows "sup_read_nodes (rd_str s) (rd_int s) num i t =
           Inr (t\<lparr>ubNodeInfoList := ubNodeInfoList t @ map (sub_node (entry s (m_fileName c) (m_section c))) [i..num]\<rparr>)"
  using assms(3,4)
proof (induction "nat (num + 1 - i)" arbitrary: i t)
  case 0
  then show ?case by (subst sup_read_nodes.simps) simp
next
  case (Suc n)
  then have "i \<le> num" "n = nat (num + 1 - (i + 1))" by simp_all
  with Suc sup_read_node_named [OF assms(1,2), of i] show ?case
    by (subst sup_read_nodes.simps) (simp add: upto_rec1 [of i num])
qed

lemma sub_read_nodes_named:
  assumes "valid s (m_fileName c)" and "name_text (m_section c)" and "m_conf t = c"
    and "\<forall>k\<in>{i..num}. sup_node_named (entry s (m_fileName c) (m_section c)) k"
  shows "sub_read_nodes (rd_str s) (rd_int s) num i t =
           Inr (t\<lparr>upNodeInfoList := upNodeInfoList t @ map (sup_node (entry s (m_fileName c) (m_section c))) [i..num]\<rparr>)"
  using assms(3,4)
proof (induction "nat (num + 1 - i)" arbitrary: i t)
  case 0
  then show ?case by (subst sub_read_nodes.simps) simp
next
  case (Suc n)
  then have "i \<le> num" "n = nat (num + 1 - (i + 1))" by simp_all
  with Suc sub_read_node_named [OF assms(1,2), of i] show ?case
    by (subst sub_read_nodes.simps) (simp add: upto_rec1 [of i num])
qed

lemma sup_ReadConf_with_ok:
  assumes "valid s fn" and "m_fileName (m_conf t) = fn" and "server_ok (entry s fn)"
    and "num = int_value (entry s fn ''sipserver'' ''subnode_num'')" and "num < INT_MAX"
    and "\<forall>i\<in>{1..num}. sub_node_named (entry s fn ''sipserver'') i"
  shows "sup_ReadConf_with (rd_str s) (rd_int s) t =
           Inr (0, (server_conf (entry s fn) t)
                     \<lparr>ubNodeInfoList := ubNodeInfoList t @ map (sub_node (entry s fn ''sipserver'')) [1..num]\<rparr>)"
proof -
  have "ubNodeInfoList (server_conf (entry s fn) t) = ubNodeInfoList t" by (simp add: server_conf_def)
  with assms read_server_accepts [of s t]
    sup_read_nodes_named [of s "setSection ''sipserver'' (m_conf t)" "server_conf (entry s fn) t" 1 num]
  show ?thesis by (simp add: sup_ReadConf_with_def rd_int_entry)
qed

lemma sub_ReadConf_with_ok:
  assumes "valid s fn" and "m_fileName (m_conf t) = fn" and "server_ok (entry s fn)"
    and "num = int_value (entry s fn ''sipserver'' ''supnode_num'')" and "num < INT_MAX"
    and "\<forall>i\<in>{1..num}. sup_node_named (entry s fn ''sipserver'') i"
  shows "sub_ReadConf_with (rd_str s) (rd_int s) t =
           Inr (0, (server_conf (entry s fn) t)
                     \<lparr>upNodeInfoList := upNodeInfoList t @ map (sup_node (entry s fn ''sipserver'')) [1..num]\<rparr>)"
proof -
  have "upNodeInfoList (server_conf (entry s fn) t) = upNodeInfoList t" by (simp add: server_conf_def)
  with assms read_server_accepts [of s t]
    sub_read_nodes_named [of s "setSection ''sipserver'' (m_conf t)" "server_conf (entry s fn) t" 1 num]
  show ?thesis by (simp add: sub_ReadConf_with_def rd_int_entry)
qed

lemma sup_ReadConf_with_rejects:
  assumes "valid s (m_fileName (m_conf t))" and "server_named (entry s (m_fileName (m_conf t)))"
    and "\<not> server_ok (entry s (m_fileName (m_conf t)))"
  shows "\<exists>t'. sup_ReadConf_with (rd_str s) (rd_int s) t = Inr (-1, t')"
  using read_server_rejects [OF assms] by (auto simp: sup_ReadConf_with_def)

lemma sub_ReadConf_with_rejects:
  assumes "valid s (m_fileName (m_conf t))" and "server_named (entry s (m_fileName (m_conf t)))"
    and "\<not> server_ok (entry s (m_fileName (m_conf t)))"
  shows "\<exists>t'. sub_ReadConf_with (rd_str s) (rd_int s) t = Inr (-1, t')"
  using read_server_rejects [OF assms] by (auto simp: sub_ReadConf_with_def)

end

section \<open>The reader of ConfReader.cpp provides it\<close>

definition conf_entry :: "conf_src \<Rightarrow> string \<Rightarrow> string \<Rightarrow> string \<Rightarrow> string option" where
  "conf_entry src fn sec key = (case fst src fn of None \<Rightarrow> None | Some f \<Rightarrow> ini_lookup sec key True f)"

definition conf_valid :: "conf_src \<Rightarrow> string \<Rightarrow> bool" where
  "conf_valid src fn \<longleftrightarrow>
     (case fst src fn of None \<Rightarrow> False | Some f \<Rightarrow> conf_text f) \<and> (\<forall>key. length (snd src key) = 1024)"

interpretation file_conf: conf_source conf_readStr conf_readInt "\<lambda>src key. cut_blank (snd src key)"
  conf_entry conf_valid
proof
  fix s :: conf_src and c :: conf_reader and key
  assume v: "conf_valid s (m_fileName c)" and n: "name_text (m_section c)" "name_text key"
  then obtain f where f: "fst s (m_fileName c) = Some f" "conf_text f" "length (snd s key) = 1024"
    by (auto simp: conf_valid_def split: option.splits)
  show "conf_readStr s c key =
      (case conf_entry s (m_fileName c) (m_section c) key of
         None \<Rightarrow> cut_blank (snd s key) | Some v \<Rightarrow> Inr (str_value v))"
    using readStr_lookup [OF f(2) _ _ _ _ f(3)] n
    by (simp add: conf_readStr_def conf_entry_def f(1) str_value_def name_text_def split: option.split)
  show "conf_readInt s c key = Inr (int_value (conf_entry s (m_fileName c) (m_section c) key))"
    using readInt_lookup [OF f(2)] n
    by (simp add: conf_readInt_def conf_entry_def f(1) int_value_def name_text_def)
qed

section \<open>ReadConf\<close>

text \<open>
  C25: SipSupService reads what its file says: when the five checks hold and every node up to
  \<open>subnode_num\<close> has an id and an ip, \<open>ReadConf\<close> returns 0 with the five server fields set from the
  file and one entry per node, in order, appended to the node list.
\<close>

theorem sup_ReadConf_ok:
  assumes "conf_valid src fn" and "m_fileName (m_conf t) = fn" and "server_ok (conf_entry src fn)"
    and "num = int_value (conf_entry src fn ''sipserver'' ''subnode_num'')" and "num < INT_MAX"
    and "\<forall>i\<in>{1..num}. sub_node_named (conf_entry src fn ''sipserver'') i"
  shows "sup_ReadConf src t =
           Inr (0, (server_conf (conf_entry src fn) t)
                     \<lparr>ubNodeInfoList := ubNodeInfoList t @ map (sub_node (conf_entry src fn ''sipserver'')) [1..num]\<rparr>)"
  unfolding sup_ReadConf_def using assms by (rule file_conf.sup_ReadConf_with_ok)

definition sup_example :: "ini_section list" where
  "sup_example =
     [(''localserver'', [(''local_ip'', ''127.0.1''), (''local_port'', ''11300'')]),
      (''sipserver'', [(''sip_id'', ''10000000002000000001''), (''sip_ip'', ''127.0.1''), (''sip_port'', ''5061''),
         (''subnode_num'', ''1''),
         (''sip_subnode_id1'', ''11000000002000000001''), (''sip_subnode_ip1'', ''127.0.1 ''),
         (''sip_subnode_port1'', ''7101''), (''sip_subnode_poto1'', ''0''), (''sip_subnode_auth1'', ''0'')])]"


definition example_src :: "string \<Rightarrow> conf_src" where
  "example_src f = ((\<lambda>fn. Some f), (\<lambda>key. replicate 1024 NUL))"

theorem sup_ReadConf_ok_witness:
  "\<exists>t'. sup_ReadConf (example_src (render sup_example)) sup_SipLocalConfig = Inr (0, t') \<and> m_sipPort t' = 5061 \<and>
     ubNodeInfoList t' = [\<lparr>sub_id = ''11000000002000000001'', sub_ip = ''127.0.1'', sub_port = 7101,
                           sub_poto = 0, sub_auth = 0\<rparr>]"
proof -
  let ?e = "conf_entry (example_src (render sup_example)) (m_fileName (m_conf sup_SipLocalConfig))"
  have ok: "\<forall>s\<in>set sup_example. section_ok s" by code_simp
  have e: "?e = (\<lambda>sec key. ini_get sec key sup_example)"
    by (simp add: fun_eq_iff conf_entry_def example_src_def ini_lookup_render [OF ok])
  have v: "conf_valid (example_src (render sup_example)) (m_fileName (m_conf sup_SipLocalConfig))"
    by (simp add: conf_valid_def example_src_def conf_text_def sup_example_def render_def render_entries_def
        entry_line_def EOF_c_def MAX_INI_FILE_SIZE_def)
  have s: "server_ok (\<lambda>sec key. ini_get sec key sup_example)"
    and n: "int_value (ini_get ''sipserver'' ''subnode_num'' sup_example) = 1"
    and p: "int_value (ini_get ''sipserver'' ''sip_port'' sup_example) = 5061"
    by code_simp+
  have k: "show_int 1 = ''1''" by (simp add: show_int_def show_nat.simps)
  have i: "sub_node_named (\<lambda>key. ini_get ''sipserver'' key sup_example) 1"
    and l: "sub_node (\<lambda>key. ini_get ''sipserver'' key sup_example) 1 =
      \<lparr>sub_id = ''11000000002000000001'', sub_ip = ''127.0.1'', sub_port = 7101, sub_poto = 0, sub_auth = 0\<rparr>"
    unfolding sub_node_named_def sub_node_def node_key_def k by code_simp+
  show ?thesis
    using sup_ReadConf_ok [OF v refl, of 1] s n p i l
    by (simp add: e INT_MAX_def server_conf_def) (simp add: sup_SipLocalConfig_def)
qed

text \<open>
  SipSubService reads what its file says, in the same way, into its list of upper-level nodes.
\<close>

theorem sub_ReadConf_ok:
  assumes "conf_valid src fn" and "m_fileName (m_conf t) = fn" and "server_ok (conf_entry src fn)"
    and "num = int_value (conf_entry src fn ''sipserver'' ''supnode_num'')" and "num < INT_MAX"
    and "\<forall>i\<in>{1..num}. sup_node_named (conf_entry src fn ''sipserver'') i"
  shows "sub_ReadConf src t =
           Inr (0, (server_conf (conf_entry src fn) t)
                     \<lparr>upNodeInfoList := upNodeInfoList t @ map (sup_node (conf_entry src fn ''sipserver'')) [1..num]\<rparr>)"
  unfolding sub_ReadConf_def using assms by (rule file_conf.sub_ReadConf_with_ok)

definition sub_example :: "ini_section list" where
  "sub_example =
     [(''localserver'', [(''local_ip'', ''127.0.1''), (''local_port'', ''11300'')]),
      (''sipserver'', [(''sip_id'', ''11000000002000000001''), (''sip_ip'', ''127.0.1''), (''sip_port'', ''7101''),
         (''supnode_num'', ''1''),
         (''sip_supnode_id1'', ''10000000002000000001''), (''sip_supnode_ip1'', ''127.0.1''),
         (''sip_supnode_port1'', ''5061''), (''sip_supnode_poto1'', ''1''), (''sip_supnode_expires1'', ''60'')])]"


theorem sub_ReadConf_ok_witness:
  "\<exists>t'. sub_ReadConf (example_src (render sub_example)) sub_SipLocalConfig = Inr (0, t') \<and>
     upNodeInfoList t' = [\<lparr>sup_id = ''10000000002000000001'', sup_ip = ''127.0.1'', sup_port = 5061,
                           sup_poto = 1, sup_expires = 60\<rparr>]"
proof -
  let ?e = "conf_entry (example_src (render sub_example)) (m_fileName (m_conf sub_SipLocalConfig))"
  have ok: "\<forall>s\<in>set sub_example. section_ok s" by code_simp
  have e: "?e = (\<lambda>sec key. ini_get sec key sub_example)"
    by (simp add: fun_eq_iff conf_entry_def example_src_def ini_lookup_render [OF ok])
  have v: "conf_valid (example_src (render sub_example)) (m_fileName (m_conf sub_SipLocalConfig))"
    by (simp add: conf_valid_def example_src_def conf_text_def sub_example_def render_def render_entries_def
        entry_line_def EOF_c_def MAX_INI_FILE_SIZE_def)
  have s: "server_ok (\<lambda>sec key. ini_get sec key sub_example)"
    and n: "int_value (ini_get ''sipserver'' ''supnode_num'' sub_example) = 1"
    by code_simp+
  have k: "show_int 1 = ''1''" by (simp add: show_int_def show_nat.simps)
  have i: "sup_node_named (\<lambda>key. ini_get ''sipserver'' key sub_example) 1"
    and l: "sup_node (\<lambda>key. ini_get ''sipserver'' key sub_example) 1 =
      \<lparr>sup_id = ''10000000002000000001'', sup_ip = ''127.0.1'', sup_port = 5061, sup_poto = 1, sup_expires = 60\<rparr>"
    unfolding sup_node_named_def sup_node_def node_key_def k by code_simp+
  show ?thesis
    using sub_ReadConf_ok [OF v refl, of 1] s n i l
    by (simp add: e INT_MAX_def server_conf_def) (simp add: sub_SipLocalConfig_def)
qed

end
