(* ===== verification/ThreadPool.thy ===== *)
theory ThreadPool
  imports Prelude "HOL-Library.Multiset"
begin

text \<open>
  Threads: \<open>ECThread.cpp\<close>, and the pool of \<open>ThreadPool.cpp\<close> as a state machine. A state holds the
  queue, the semaphore, the owner of \<open>m_queueLock\<close>, and where every worker (\<open>mainThread\<close>) and every
  poster (a thread inside \<open>postTask\<close>) stands; an event lets one thread make its next step. The
  fields \<open>pushed\<close>, \<open>popped\<close> and \<open>finished\<close> record what happened and no step reads them.
\<close>

section \<open>ECThread\<close>

text \<open>
  The wrappers, over the results of the pthread calls: \<open>createThread\<close> returns its value and whether
  a thread was started.
\<close>

definition createThread :: "int \<Rightarrow> int \<Rightarrow> int \<times> bool" where
  "createThread setdetachstate_ret create_ret =
     (let ret = setdetachstate_ret in
      let (ret, started) = (if ret \<noteq> 0 then (ret, False) else (create_ret, create_ret = 0)) in
      (if ret \<noteq> 0 then -1 else ret, started))"

definition pthread_status :: "int \<Rightarrow> int" where
  "pthread_status ret = (if ret \<noteq> 0 then -1 else 0)"

definition detachSelf :: "int \<Rightarrow> int" where
  "detachSelf detach_ret = pthread_status detach_ret"

definition waitThread :: "int \<Rightarrow> int" where
  "waitThread join_ret = pthread_status join_ret"

definition terminateThread :: "int \<Rightarrow> int" where
  "terminateThread cancel_ret = pthread_status cancel_ret"

lemma createThread_started: "snd (createThread d c) \<longleftrightarrow> fst (createThread d c) = 0"
  by (simp add: createThread_def)

section \<open>The states of the pool\<close>

datatype 'a wpc =
    WWait                \<comment> \<open>in \<open>sem_wait\<close>\<close>
  | WWoken               \<comment> \<open>\<open>sem_wait\<close> returned 0, before \<open>pthread_mutex_lock\<close>\<close>
  | WLocked              \<comment> \<open>holds the lock, before the test of the queue\<close>
  | WTaken "'a option"   \<comment> \<open>holds the lock, \<open>task\<close> is set\<close>
  | WHave "'a option"    \<comment> \<open>unlocked, before \<open>task->run()\<close>\<close>
  | WRan 'a              \<comment> \<open>ran, before \<open>delete\<close>\<close>

datatype 'a ppc =
    PIdle                \<comment> \<open>outside \<open>postTask\<close>\<close>
  | PEnter 'a            \<comment> \<open>before \<open>pthread_mutex_lock\<close>\<close>
  | PLocked 'a           \<comment> \<open>holds the lock, before the push\<close>
  | PPushed              \<comment> \<open>holds the lock, after the push\<close>
  | PUnlocked            \<comment> \<open>before \<open>sem_post\<close>\<close>

datatype owner = Worker nat | Poster nat

record 'a pool =
  m_taskQueue :: "'a list"
  m_signalSem :: nat
  m_queueLock :: "owner option"
  workers :: "'a wpc list"
  posters :: "'a ppc list"
  pushed :: "'a list"
  popped :: "'a list"
  finished :: "'a list"

text \<open>\<open>ThreadPool()\<close> and \<open>createThreadPool\<close>: \<open>started\<close> says which of the creations succeeded.\<close>

definition ThreadPool_new :: "nat \<Rightarrow> 'a pool" where
  "ThreadPool_new n =
     \<lparr>m_taskQueue = [], m_signalSem = 0, m_queueLock = None, workers = [], posters = replicate n PIdle,
      pushed = [], popped = [], finished = []\<rparr>"

fun create_threads :: "(int \<times> bool) list \<Rightarrow> 'a pool \<Rightarrow> 'a pool" where
  "create_threads [] s = s"
| "create_threads (r # rs) s =
     create_threads rs (if snd r then s\<lparr>workers := workers s @ [WWait]\<rparr> else s)"

definition createThreadPool :: "int \<Rightarrow> (nat \<Rightarrow> int \<times> bool) \<Rightarrow> 'a pool \<Rightarrow> int option \<times> 'a pool" where
  "createThreadPool threadCount creation s =
     (if threadCount \<le> 0 then (Some (-1), s)
      else (None, create_threads (map creation [0..<nat threadCount]) s))"

text \<open>
  One step of worker \<open>i\<close>; \<open>None\<close> when it is blocked. \<open>sem_ok\<close> is whether \<open>sem_wait\<close> returns 0;
  when it does not, \<open>mainThread\<close> goes round its loop.
\<close>

definition worker_step :: "bool \<Rightarrow> nat \<Rightarrow> 'a pool \<Rightarrow> 'a pool option" where
  "worker_step sem_ok i s =
     (if \<not> i < length (workers s) then None
      else case workers s ! i of
        WWait \<Rightarrow>
          if \<not> sem_ok then Some s
          else if m_signalSem s = 0 then None
          else Some (s\<lparr>m_signalSem := m_signalSem s - 1, workers := (workers s)[i := WWoken]\<rparr>)
      | WWoken \<Rightarrow>
          if m_queueLock s \<noteq> None then None
          else Some (s\<lparr>m_queueLock := Some (Worker i), workers := (workers s)[i := WLocked]\<rparr>)
      | WLocked \<Rightarrow>
          (case m_taskQueue s of
             [] \<Rightarrow> Some (s\<lparr>workers := (workers s)[i := WTaken None]\<rparr>)
           | t # q \<Rightarrow> Some (s\<lparr>m_taskQueue := q, workers := (workers s)[i := WTaken (Some t)], popped := popped s @ [t]\<rparr>))
      | WTaken task \<Rightarrow> Some (s\<lparr>m_queueLock := None, workers := (workers s)[i := WHave task]\<rparr>)
      | WHave None \<Rightarrow> Some (s\<lparr>workers := (workers s)[i := WWait]\<rparr>)
      | WHave (Some t) \<Rightarrow> Some (s\<lparr>workers := (workers s)[i := WRan t]\<rparr>)
      | WRan t \<Rightarrow> Some (s\<lparr>workers := (workers s)[i := WWait], finished := finished s @ [t]\<rparr>))"

text \<open>
  One step of poster \<open>i\<close>, which is inside \<open>postTask\<close>, and a call \<open>postTask task\<close>. The function is declared to
  return \<open>int\<close> and flows off its end, which the language leaves undefined; the model is that of a compiler
  that returns there with a value nobody uses.
\<close>

definition poster_step :: "nat \<Rightarrow> 'a pool \<Rightarrow> 'a pool option" where
  "poster_step i s =
     (if \<not> i < length (posters s) then None
      else case posters s ! i of
        PIdle \<Rightarrow> None
      | PEnter t \<Rightarrow>
          if m_queueLock s \<noteq> None then None
          else Some (s\<lparr>m_queueLock := Some (Poster i), posters := (posters s)[i := PLocked t]\<rparr>)
      | PLocked t \<Rightarrow>
          Some (s\<lparr>m_taskQueue := m_taskQueue s @ [t], posters := (posters s)[i := PPushed], pushed := pushed s @ [t]\<rparr>)
      | PPushed \<Rightarrow> Some (s\<lparr>m_queueLock := None, posters := (posters s)[i := PUnlocked]\<rparr>)
      | PUnlocked \<Rightarrow> Some (s\<lparr>m_signalSem := m_signalSem s + 1, posters := (posters s)[i := PIdle]\<rparr>))"

definition postTask :: "nat \<Rightarrow> 'a option \<Rightarrow> 'a pool \<Rightarrow> 'a pool option" where
  "postTask i task s =
     (if \<not> (i < length (posters s) \<and> posters s ! i = PIdle) then None
      else case task of
        None \<Rightarrow> Some s
      | Some t \<Rightarrow> Some (s\<lparr>posters := (posters s)[i := PEnter t]\<rparr>))"

datatype 'a pool_event = Call nat "'a option" | PosterStep nat | WorkerStep bool nat

fun pool_step :: "'a pool_event \<Rightarrow> 'a pool \<Rightarrow> 'a pool option" where
  "pool_step (Call i task) s = postTask i task s"
| "pool_step (PosterStep i) s = poster_step i s"
| "pool_step (WorkerStep sem_ok i) s = worker_step sem_ok i s"

fun pool_run :: "'a pool_event list \<Rightarrow> 'a pool \<Rightarrow> 'a pool option" where
  "pool_run [] s = Some s"
| "pool_run (e # es) s = (case pool_step e s of None \<Rightarrow> None | Some s' \<Rightarrow> pool_run es s')"

text \<open>The states a pool of \<open>w\<close> workers and \<open>n\<close> posters can be in.\<close>

inductive pool_reachable :: "nat \<Rightarrow> nat \<Rightarrow> 'a pool \<Rightarrow> bool" for w n where
  start: "pool_reachable w n ((ThreadPool_new n)\<lparr>workers := replicate w WWait\<rparr>)"
| step: "pool_reachable w n s \<Longrightarrow> pool_step e s = Some s' \<Longrightarrow> pool_reachable w n s'"

lemma create_threads_eq:
  "create_threads rs s = s\<lparr>workers := workers s @ replicate (length (filter snd rs)) WWait\<rparr>"
  by (induction rs arbitrary: s) auto

lemma createThreadPool_reachable:
  assumes "0 < c"
  shows "pool_reachable (length (filter snd (map creation [0..<nat c]))) n
           (snd (createThreadPool c creation (ThreadPool_new n)) :: 'a pool)"
proof -
  have "(snd (createThreadPool c creation (ThreadPool_new n)) :: 'a pool) =
      (ThreadPool_new n)\<lparr>workers := replicate (length (filter snd (map creation [0..<nat c]))) WWait\<rparr>"
    using assms by (simp add: createThreadPool_def create_threads_eq ThreadPool_new_def)
  then show ?thesis by (simp only: pool_reachable.start)
qed

section \<open>The invariant\<close>

text \<open>Where a thread stands, as numbers: holding the lock; owed a task by the semaphore; owing a post.\<close>

fun w_locked :: "'a wpc \<Rightarrow> bool" where
  "w_locked WLocked = True" | "w_locked (WTaken t) = True" | "w_locked _ = False"

fun p_locked :: "'a ppc \<Rightarrow> bool" where
  "p_locked (PLocked t) = True" | "p_locked PPushed = True" | "p_locked _ = False"

fun w_owed :: "'a wpc \<Rightarrow> nat" where
  "w_owed WWoken = 1" | "w_owed WLocked = 1" | "w_owed _ = 0"

fun p_owing :: "'a ppc \<Rightarrow> nat" where
  "p_owing PPushed = 1" | "p_owing PUnlocked = 1" | "p_owing _ = 0"

fun w_holds :: "'a wpc \<Rightarrow> 'a multiset" where
  "w_holds (WTaken (Some t)) = {#t#}" | "w_holds (WHave (Some t)) = {#t#}" | "w_holds (WRan t) = {#t#}"
| "w_holds _ = {#}"

fun w_empty_handed :: "'a wpc \<Rightarrow> bool" where
  "w_empty_handed (WTaken None) = True" | "w_empty_handed (WHave None) = True" | "w_empty_handed _ = False"

definition lock_inv :: "'a pool \<Rightarrow> bool" where
  "lock_inv s \<longleftrightarrow>
     (\<forall>i<length (workers s). w_locked (workers s ! i) \<longleftrightarrow> m_queueLock s = Some (Worker i)) \<and>
     (\<forall>i<length (posters s). p_locked (posters s ! i) \<longleftrightarrow> m_queueLock s = Some (Poster i))"

definition owner_inv :: "'a pool \<Rightarrow> bool" where
  "owner_inv s \<longleftrightarrow>
     (\<forall>i. m_queueLock s = Some (Worker i) \<longrightarrow> i < length (workers s)) \<and>
     (\<forall>i. m_queueLock s = Some (Poster i) \<longrightarrow> i < length (posters s))"

definition sem_inv :: "'a pool \<Rightarrow> bool" where
  "sem_inv s \<longleftrightarrow>
     length (m_taskQueue s) =
       m_signalSem s + sum_list (map w_owed (workers s)) + sum_list (map p_owing (posters s))"

definition fifo_inv :: "'a pool \<Rightarrow> bool" where
  "fifo_inv s \<longleftrightarrow> pushed s = popped s @ m_taskQueue s"

definition hold_inv :: "'a pool \<Rightarrow> bool" where
  "hold_inv s \<longleftrightarrow> mset (popped s) = mset (finished s) + \<Sum>\<^sub># (mset (map w_holds (workers s)))"

definition busy_inv :: "'a pool \<Rightarrow> bool" where
  "busy_inv s \<longleftrightarrow> (\<forall>pc\<in>set (workers s). \<not> w_empty_handed pc)"

definition pool_inv :: "'a pool \<Rightarrow> bool" where
  "pool_inv s \<longleftrightarrow> lock_inv s \<and> owner_inv s \<and> sem_inv s \<and> fifo_inv s \<and> hold_inv s \<and> busy_inv s"

lemmas pool_inv_defs = lock_inv_def owner_inv_def sem_inv_def fifo_inv_def hold_inv_def busy_inv_def

lemma pool_inv_start: "pool_inv ((ThreadPool_new n)\<lparr>workers := replicate w WWait\<rparr>)"
  by (simp add: pool_inv_def pool_inv_defs ThreadPool_new_def sum_list_0)

text \<open>A step changes one program counter: each part of the invariant, over such a change.\<close>

lemma worker_owed_update:
  "i < length ws \<Longrightarrow> sum_list (map w_owed (ws[i := pc])) = sum_list (map w_owed ws) + w_owed pc - w_owed (ws ! i)"
  using sum_list_map_update [of i ws w_owed pc] sum_list_map_member_le [of i ws w_owed] by simp

lemma poster_owing_update:
  "i < length ps \<Longrightarrow> sum_list (map p_owing (ps[i := pc])) = sum_list (map p_owing ps) + p_owing pc - p_owing (ps ! i)"
  using sum_list_map_update [of i ps p_owing pc] sum_list_map_member_le [of i ps p_owing] by simp

lemma worker_holds_update:
  "i < length ws \<Longrightarrow>
     \<Sum>\<^sub># (mset (map w_holds (ws[i := pc]))) + w_holds (ws ! i) = \<Sum>\<^sub># (mset (map w_holds ws)) + w_holds pc"
  by (induction ws arbitrary: i) (auto split: nat.split simp: add.commute add.left_commute)

lemma owed_task:
  assumes "sem_inv s" and "i < length (workers s)" and "workers s ! i = WLocked"
  shows "m_taskQueue s \<noteq> []"
proof
  assume "m_taskQueue s = []"
  with assms(1) have "sum_list (map w_owed (workers s)) = 0" by (simp add: sem_inv_def)
  with sum_list_map_member_le [of i "workers s" w_owed] assms(2,3) show False by simp
qed

text \<open>The ways a step changes the lock: not at all, taking it free, giving it back.\<close>

definition lock_change :: "owner \<Rightarrow> owner option \<Rightarrow> owner option \<Rightarrow> bool \<Rightarrow> bool \<Rightarrow> bool" where
  "lock_change me l l' locked locked' \<longleftrightarrow>
     (l' = l \<and> locked' = locked) \<or> (l = None \<and> l' = Some me \<and> locked') \<or> (locked \<and> l' = None \<and> \<not> locked')"

lemma lock_inv_worker:
  assumes "lock_inv s" and "owner_inv s" and "i < length (workers s)"
    and "workers s' = (workers s)[i := pc]" and "posters s' = posters s"
    and "lock_change (Worker i) (m_queueLock s) (m_queueLock s') (w_locked (workers s ! i)) (w_locked pc)"
  shows "lock_inv s' \<and> owner_inv s'"
  using assms by (auto simp: lock_inv_def owner_inv_def lock_change_def nth_list_update)

lemma lock_inv_poster:
  assumes "lock_inv s" and "owner_inv s" and "i < length (posters s)"
    and "posters s' = (posters s)[i := pc]" and "workers s' = workers s"
    and "lock_change (Poster i) (m_queueLock s) (m_queueLock s') (p_locked (posters s ! i)) (p_locked pc)"
  shows "lock_inv s' \<and> owner_inv s'"
  using assms by (auto simp: lock_inv_def owner_inv_def lock_change_def nth_list_update)

text \<open>
  What a worker's step does: only its program counter, the lock and the semaphore change, or it
  takes the first task of the queue, or it finds the queue empty, or it is done with a task.
\<close>

lemma worker_step_cases:
  assumes "worker_step sem_ok i s = Some s'"
  obtains (spin) "s' = s"
  | (quiet) pc where "w_holds pc = w_holds (workers s ! i)" "workers s' = (workers s)[i := pc]"
      "m_signalSem s' + w_owed pc = m_signalSem s + w_owed (workers s ! i)"
      "lock_change (Worker i) (m_queueLock s) (m_queueLock s') (w_locked (workers s ! i)) (w_locked pc)"
      "w_empty_handed pc \<Longrightarrow> w_empty_handed (workers s ! i)"
      "popped s' = popped s" "finished s' = finished s" "m_taskQueue s' = m_taskQueue s"
  | (takes) t q where "m_taskQueue s = t # q" "workers s ! i = WLocked" "workers s' = (workers s)[i := WTaken (Some t)]"
      "popped s' = popped s @ [t]" "finished s' = finished s" "m_taskQueue s' = q"
      "m_queueLock s' = m_queueLock s" "m_signalSem s' = m_signalSem s"
  | (finds_empty) "m_taskQueue s = []" "workers s ! i = WLocked"
  | (finishes) t where "workers s ! i = WRan t" "workers s' = (workers s)[i := WWait]"
      "popped s' = popped s" "finished s' = finished s @ [t]" "m_taskQueue s' = m_taskQueue s"
      "m_queueLock s' = m_queueLock s" "m_signalSem s' = m_signalSem s"
proof (cases "workers s ! i")
  case WWait
  show thesis
  proof (cases sem_ok)
    case True
    show thesis
      by (rule quiet [of WWoken])
         (use assms WWait True in \<open>auto simp: worker_step_def lock_change_def split: if_splits\<close>)
  next
    case False
    show thesis by (rule spin) (use assms WWait False in \<open>auto simp: worker_step_def split: if_splits\<close>)
  qed
next
  case WWoken
  show thesis
    by (rule quiet [of WLocked]) (use assms WWoken in \<open>auto simp: worker_step_def lock_change_def split: if_splits\<close>)
next
  case WLocked
  show thesis
  proof (cases "m_taskQueue s")
    case Nil
    show thesis by (rule finds_empty [OF Nil WLocked])
  next
    case (Cons t q)
    show thesis
      by (rule takes [of t q]) (use assms WLocked Cons in \<open>auto simp: worker_step_def split: if_splits\<close>)
  qed
next
  case (WTaken task)
  show thesis
    by (rule quiet [of "WHave task"])
       (use assms WTaken in \<open>auto simp: worker_step_def lock_change_def split: if_splits; cases task; simp\<close>)+
next
  case (WHave task)
  show thesis
    by (rule quiet [of "case task of None \<Rightarrow> WWait | Some t \<Rightarrow> WRan t"])
       (use assms WHave in \<open>auto simp: worker_step_def lock_change_def split: if_splits option.splits\<close>)
next
  case (WRan t)
  show thesis
    by (rule finishes [of t]) (use assms WRan in \<open>auto simp: worker_step_def split: if_splits\<close>)
qed

lemma worker_step_frame:
  "worker_step sem_ok i s = Some s' \<Longrightarrow> i < length (workers s) \<and> posters s' = posters s \<and> pushed s' = pushed s"
  by (auto simp: worker_step_def split: if_splits wpc.splits list.splits option.splits)

lemma worker_step_inv:
  assumes inv: "pool_inv s" and step: "worker_step sem_ok i s = Some s'"
  shows "pool_inv s'"
proof -
  note frame = worker_step_frame [OF step]
  have i: "i < length (workers s)" and li: "lock_inv s" "owner_inv s" using frame inv by (simp_all add: pool_inv_def)
  note upd = worker_owed_update [OF i] worker_holds_update [OF i]
  have owed: "w_owed (workers s ! i) \<le> sum_list (map w_owed (workers s))"
    by (rule sum_list_map_member_le [OF i])
  have busy: "busy_inv s \<Longrightarrow> workers s' = (workers s)[i := pc] \<Longrightarrow> \<not> w_empty_handed pc \<Longrightarrow> busy_inv s'" for pc
    by (auto simp: busy_inv_def dest!: set_update_subset_insert [THEN subsetD])
  from step show ?thesis
  proof (cases rule: worker_step_cases)
    case spin
    with inv show ?thesis by simp
  next
    case (quiet pc)
    have "\<not> w_empty_handed (workers s ! i)" using inv i by (auto simp: pool_inv_def busy_inv_def)
    with quiet inv owed upd [of pc] lock_inv_worker [OF li i quiet(2) _ quiet(4)] frame busy [OF _ quiet(2)]
    show ?thesis by (auto simp: pool_inv_def sem_inv_def fifo_inv_def hold_inv_def)
  next
    case (takes t q)
    then have "lock_change (Worker i) (m_queueLock s) (m_queueLock s') (w_locked (workers s ! i)) (w_locked (WTaken (Some t)))"
      by (simp add: lock_change_def)
    with takes inv owed upd [of "WTaken (Some t)"] lock_inv_worker [OF li i takes(3)] frame busy [OF _ takes(3)]
    show ?thesis by (auto simp: pool_inv_def sem_inv_def fifo_inv_def hold_inv_def)
  next
    case finds_empty
    with owed_task [of s i] inv i show ?thesis by (simp add: pool_inv_def)
  next
    case (finishes t)
    then have "lock_change (Worker i) (m_queueLock s) (m_queueLock s') (w_locked (workers s ! i)) (w_locked WWait)"
      by (simp add: lock_change_def)
    with finishes inv owed upd [of WWait] lock_inv_worker [OF li i finishes(2)] frame busy [OF _ finishes(2)]
    show ?thesis by (simp add: pool_inv_def sem_inv_def fifo_inv_def hold_inv_def)
  qed
qed

text \<open>A poster's step, in the same way; only the step that pushes touches the queue.\<close>

lemma poster_step_cases:
  assumes "poster_step i s = Some s'"
  obtains pc new where "posters s' = (posters s)[i := pc]" "m_taskQueue s' = m_taskQueue s @ new" "pushed s' = pushed s @ new"
    "length new + m_signalSem s + p_owing (posters s ! i) = m_signalSem s' + p_owing pc"
    "lock_change (Poster i) (m_queueLock s) (m_queueLock s') (p_locked (posters s ! i)) (p_locked pc)"
    "i < length (posters s)" "workers s' = workers s" "popped s' = popped s" "finished s' = finished s"
proof (cases "posters s ! i")
  case PIdle
  with assms show thesis by (auto simp: poster_step_def split: if_splits)
next
  case (PEnter t)
  show thesis
    by (rule that [of "PLocked t" "[]"]) (use assms PEnter in \<open>auto simp: poster_step_def lock_change_def split: if_splits\<close>)
next
  case (PLocked t)
  show thesis
    by (rule that [of PPushed "[t]"]) (use assms PLocked in \<open>auto simp: poster_step_def lock_change_def split: if_splits\<close>)
next
  case PPushed
  show thesis
    by (rule that [of PUnlocked "[]"]) (use assms PPushed in \<open>auto simp: poster_step_def lock_change_def split: if_splits\<close>)
next
  case PUnlocked
  show thesis
    by (rule that [of PIdle "[]"]) (use assms PUnlocked in \<open>auto simp: poster_step_def lock_change_def split: if_splits\<close>)
qed

lemma poster_step_inv:
  assumes inv: "pool_inv s" and step: "poster_step i s = Some s'"
  shows "pool_inv s'"
  using step
proof (cases rule: poster_step_cases)
  case (1 pc new)
  have li: "lock_inv s" "owner_inv s" using inv by (simp_all add: pool_inv_def)
  have "p_owing (posters s ! i) \<le> sum_list (map p_owing (posters s))"
    by (rule sum_list_map_member_le [OF 1(6)])
  with 1 inv poster_owing_update [OF 1(6), of pc] lock_inv_poster [OF li 1(6,1,7,5)] show ?thesis
    by (simp add: pool_inv_def sem_inv_def fifo_inv_def hold_inv_def busy_inv_def)
qed

lemma postTask_inv:
  assumes inv: "pool_inv s" and step: "postTask i task s = Some s'"
  shows "pool_inv s'"
proof (cases task)
  case None
  with assms show ?thesis by (simp add: postTask_def split: if_splits)
next
  case (Some t)
  with step have i: "i < length (posters s)" "posters s ! i = PIdle" and s': "s' = s\<lparr>posters := (posters s)[i := PEnter t]\<rparr>"
    by (simp_all add: postTask_def split: if_splits)
  have li: "lock_inv s" "owner_inv s" using inv by (simp_all add: pool_inv_def)
  have "lock_inv s' \<and> owner_inv s'"
    by (rule lock_inv_poster [OF li i(1), of s' "PEnter t"]) (simp_all add: s' i lock_change_def)
  with inv poster_owing_update [OF i(1), of "PEnter t"] i show ?thesis
    by (simp add: s' pool_inv_def sem_inv_def fifo_inv_def hold_inv_def busy_inv_def)
qed

lemma pool_step_inv: "pool_inv s \<Longrightarrow> pool_step e s = Some s' \<Longrightarrow> pool_inv s'"
  by (cases e) (auto dest: worker_step_inv poster_step_inv postTask_inv)

lemma reachable_inv: "pool_reachable w n s \<Longrightarrow> pool_inv s"
  by (induction rule: pool_reachable.induct) (auto intro: pool_inv_start pool_step_inv)

lemma step_lengths: "pool_step e s = Some s' \<Longrightarrow> length (workers s') = length (workers s) \<and> length (posters s') = length (posters s)"
  by (cases e)
     (auto simp: worker_step_def poster_step_def postTask_def split: if_splits wpc.splits ppc.splits list.splits option.splits)

lemma reachable_lengths: "pool_reachable w n s \<Longrightarrow> length (workers s) = w \<and> length (posters s) = n"
  by (induction rule: pool_reachable.induct) (auto simp: ThreadPool_new_def dest!: step_lengths)

section \<open>Draining\<close>

text \<open>
  What is left to do, in steps: every step of a thread lowers it, but for the round of a failed
  \<open>sem_wait\<close>, and while there is something left some thread can make a step.
\<close>

fun w_left :: "'a wpc \<Rightarrow> nat" where
  "w_left WWait = 0" | "w_left WWoken = 5" | "w_left WLocked = 4" | "w_left (WTaken t) = 3"
| "w_left (WHave t) = 2" | "w_left (WRan t) = 1"

fun p_left :: "'a ppc \<Rightarrow> nat" where
  "p_left PIdle = 0" | "p_left (PEnter t) = 10" | "p_left (PLocked t) = 9" | "p_left PPushed = 8" | "p_left PUnlocked = 7"

definition steps_left :: "'a pool \<Rightarrow> nat" where
  "steps_left s = 6 * m_signalSem s + sum_list (map w_left (workers s)) + sum_list (map p_left (posters s))"

lemma worker_step_left:
  assumes "worker_step True i s = Some s'"
  shows "steps_left s' < steps_left s"
proof -
  have i: "i < length (workers s)" using worker_step_frame [OF assms] by simp
  have "w_left (workers s ! i) \<le> sum_list (map w_left (workers s))"
    by (rule sum_list_map_member_le [OF i])
  moreover have "sum_list (map w_left ((workers s)[i := pc])) =
      sum_list (map w_left (workers s)) + w_left pc - w_left (workers s ! i)" for pc
    using sum_list_map_update [OF i, of w_left pc] by simp
  ultimately show ?thesis
    using assms by (auto simp: steps_left_def worker_step_def split: if_splits wpc.splits list.splits option.splits)
qed

lemma poster_step_left:
  assumes "poster_step i s = Some s'"
  shows "steps_left s' < steps_left s"
proof -
  have i: "i < length (posters s)" using assms by (simp add: poster_step_def split: if_splits)
  have "p_left (posters s ! i) \<le> sum_list (map p_left (posters s))"
    by (rule sum_list_map_member_le [OF i])
  moreover have "sum_list (map p_left ((posters s)[i := pc])) =
      sum_list (map p_left (posters s)) + p_left pc - p_left (posters s ! i)" for pc
    using sum_list_map_update [OF i, of p_left pc] by simp
  ultimately show ?thesis
    using assms by (auto simp: steps_left_def poster_step_def split: if_splits ppc.splits)
qed

definition thread_step :: "'a pool_event \<Rightarrow> bool" where
  "thread_step e \<longleftrightarrow> (case e of Call i t \<Rightarrow> False | PosterStep i \<Rightarrow> True | WorkerStep sem_ok i \<Rightarrow> sem_ok)"

lemma thread_step_left: "thread_step e \<Longrightarrow> pool_step e s = Some s' \<Longrightarrow> steps_left s' < steps_left s"
  by (cases e) (auto simp: thread_step_def worker_step_left poster_step_left)

lemma lock_holder_steps:
  assumes "pool_inv s" and "m_queueLock s = Some t"
  shows "\<exists>e s'. thread_step e \<and> pool_step e s = Some s'"
proof (cases t)
  case (Worker i)
  then have i: "i < length (workers s)" "w_locked (workers s ! i)"
    using assms by (auto simp: pool_inv_def lock_inv_def owner_inv_def)
  then have "\<exists>s'. worker_step True i s = Some s'"
    by (cases "workers s ! i") (auto simp: worker_step_def split: list.split)
  then show ?thesis by (intro exI [of _ "WorkerStep True i"]) (auto simp: thread_step_def)
next
  case (Poster i)
  then have i: "i < length (posters s)" "p_locked (posters s ! i)"
    using assms by (auto simp: pool_inv_def lock_inv_def owner_inv_def)
  then have "\<exists>s'. poster_step i s = Some s'"
    by (cases "posters s ! i") (auto simp: poster_step_def)
  then show ?thesis by (intro exI [of _ "PosterStep i"]) (auto simp: thread_step_def)
qed

lemma busy_worker_steps:
  assumes "m_queueLock s = None" and "i < length (workers s)" and "workers s ! i \<noteq> WWait"
  shows "\<exists>e s'. thread_step e \<and> pool_step e s = Some s'"
proof -
  have "\<exists>s'. worker_step True i s = Some s'"
    using assms by (cases "workers s ! i") (auto simp: worker_step_def split: list.split option.split)
  then show ?thesis by (intro exI [of _ "WorkerStep True i"]) (auto simp: thread_step_def)
qed

lemma busy_poster_steps:
  assumes "m_queueLock s = None" and "i < length (posters s)" and "posters s ! i \<noteq> PIdle"
  shows "\<exists>e s'. thread_step e \<and> pool_step e s = Some s'"
proof -
  have "\<exists>s'. poster_step i s = Some s'"
    using assms by (cases "posters s ! i") (auto simp: poster_step_def)
  then show ?thesis by (intro exI [of _ "PosterStep i"]) (auto simp: thread_step_def)
qed

definition pool_idle :: "'a pool \<Rightarrow> bool" where
  "pool_idle s \<longleftrightarrow> (\<forall>pc\<in>set (workers s). pc = WWait) \<and> (\<forall>pc\<in>set (posters s). pc = PIdle) \<and> m_signalSem s = 0"

lemma not_idle_steps:
  assumes "pool_inv s" and "workers s \<noteq> []" and "\<not> pool_idle s"
  shows "\<exists>e s'. thread_step e \<and> pool_step e s = Some s'"
proof (cases "m_queueLock s")
  case (Some t)
  with assms lock_holder_steps show ?thesis by blast
next
  case None
  consider i where "i < length (workers s)" "workers s ! i \<noteq> WWait" | i where "i < length (posters s)" "posters s ! i \<noteq> PIdle"
    | "\<forall>pc\<in>set (workers s). pc = WWait" "0 < m_signalSem s"
    using assms(3) unfolding pool_idle_def by (metis in_set_conv_nth neq0_conv)
  then show ?thesis
  proof cases
    case 3
    then have "workers s ! 0 = WWait" using assms(2) by simp
    then have "\<exists>s'. worker_step True 0 s = Some s'" using assms(2) 3(2) by (simp add: worker_step_def)
    then show ?thesis by (intro exI [of _ "WorkerStep True 0"]) (auto simp: thread_step_def)
  qed (use busy_worker_steps busy_poster_steps None in blast)+
qed

lemma pool_run_Cons: "pool_step e s = Some s' \<Longrightarrow> pool_run es s' = Some s'' \<Longrightarrow> pool_run (e # es) s = Some s''"
  by simp

lemma thread_step_pushed_popped: "pool_step e s = Some s' \<Longrightarrow> workers s \<noteq> [] \<Longrightarrow> workers s' \<noteq> []"
  using step_lengths [of e s s'] by auto

lemma drain:
  assumes "pool_inv s" and "workers s \<noteq> []"
  shows "\<exists>es s'. (\<forall>e\<in>set es. thread_step e) \<and> pool_run es s = Some s' \<and> pool_idle s' \<and> pool_inv s'"
  using assms
proof (induction "steps_left s" arbitrary: s rule: less_induct)
  case less
  show ?case
  proof (cases "pool_idle s")
    case True
    then show ?thesis using less.prems by (intro exI [of _ "[]"]) auto
  next
    case False
    with not_idle_steps less.prems obtain e s' where e: "thread_step e" "pool_step e s = Some s'" by blast
    then have "pool_inv s'" "workers s' \<noteq> []" "steps_left s' < steps_left s"
      using less.prems pool_step_inv thread_step_pushed_popped thread_step_left by blast+
    with less.hyps obtain es s'' where "\<forall>e\<in>set es. thread_step e" "pool_run es s' = Some s''" "pool_idle s''" "pool_inv s''"
      by blast
    with e show ?thesis by (intro exI [of _ "e # es"] exI [of _ s'']) simp
  qed
qed

lemma idle_finished:
  assumes "pool_inv s" and "pool_idle s"
  shows "m_taskQueue s = [] \<and> mset (finished s) = mset (pushed s)"
proof -
  have w: "workers s = replicate (length (workers s)) WWait" and p: "posters s = replicate (length (posters s)) PIdle"
    using assms(2) by (simp_all add: pool_idle_def replicate_length_same)
  have "sum_list (map w_owed (workers s)) = 0" by (subst w) (simp add: sum_list_replicate)
  moreover have "sum_list (map p_owing (posters s)) = 0" by (subst p) (simp add: sum_list_replicate)
  moreover have "sem_inv s" "m_signalSem s = 0" using assms by (simp_all add: pool_inv_def pool_idle_def)
  ultimately have "length (m_taskQueue s) = 0" unfolding sem_inv_def by (simp only:)
  then have "m_taskQueue s = []" by simp
  moreover have "\<Sum>\<^sub># (mset (map w_holds (replicate k WWait))) = {#}" for k by (induction k) auto
  then have "\<Sum>\<^sub># (mset (map w_holds (workers s))) = {#}" by (subst w)
  ultimately show ?thesis using assms(1) by (simp only: pool_inv_def fifo_inv_def hold_inv_def) simp
qed

lemma thread_steps_bounded:
  assumes "\<forall>e\<in>set es. thread_step e" and "pool_run es s = Some s'"
  shows "length es + steps_left s' \<le> steps_left s"
  using assms
proof (induction es arbitrary: s)
  case (Cons e es)
  then obtain s1 where "pool_step e s = Some s1" "pool_run es s1 = Some s'" by (auto split: option.splits)
  with Cons thread_step_left [of e s s1] show ?case by fastforce
qed simp

section \<open>Properties\<close>

text \<open>
  \<open>m_queueLock\<close> protects the queue: in every reachable state at most one thread, worker or
  poster, stands between its lock and its unlock.
\<close>

theorem pool_mutual_exclusion:
  assumes "pool_reachable w n s"
  shows "(\<forall>i<w. \<forall>j<w. w_locked (workers s ! i) \<and> w_locked (workers s ! j) \<longrightarrow> i = j) \<and>
         (\<forall>i<n. \<forall>j<n. p_locked (posters s ! i) \<and> p_locked (posters s ! j) \<longrightarrow> i = j) \<and>
         (\<forall>i<w. \<forall>j<n. \<not> (w_locked (workers s ! i) \<and> p_locked (posters s ! j)))"
  using reachable_inv [OF assms] reachable_lengths [OF assms]
  by (auto simp: pool_inv_def lock_inv_def)

theorem pool_mutual_exclusion_witness:
  "\<exists>s. pool_run [Call 0 (Some ''a''), PosterStep 0] ((ThreadPool_new 1)\<lparr>workers := replicate 2 WWait\<rparr>) = Some s \<and>
       p_locked (posters s ! 0) \<and> \<not> w_locked (workers s ! 1)"
proof -
  let ?s0 = "(ThreadPool_new 1)\<lparr>workers := replicate 2 WWait\<rparr> :: string pool"
  let ?s1 = "?s0\<lparr>posters := [PEnter ''a'']\<rparr>"
  let ?s2 = "?s1\<lparr>m_queueLock := Some (Poster 0), posters := [PLocked ''a'']\<rparr>"
  have s: "pool_step (Call 0 (Some ''a'')) ?s0 = Some ?s1" "pool_step (PosterStep 0) ?s1 = Some ?s2"
    by (simp_all add: ThreadPool_new_def postTask_def poster_step_def)
  have "pool_reachable 2 1 ?s2"
    by (rule pool_reachable.step [OF pool_reachable.step [OF pool_reachable.start s(1)] s(2)])
  from pool_mutual_exclusion [OF this] s show ?thesis by (simp add: numeral_2_eq_2)
qed

text \<open>
  C26: No task is lost, run twice or overtaken: the tasks pushed are, in order, those taken from the
  queue followed by those still in it, and the taken ones are, as a multiset, those run and deleted
  together with those the workers hold.
\<close>

theorem pool_conserves_tasks:
  assumes "pool_reachable w n s"
  shows "pushed s = popped s @ m_taskQueue s \<and>
         mset (popped s) = mset (finished s) + \<Sum>\<^sub># (mset (map w_holds (workers s)))"
  using reachable_inv [OF assms] by (simp only: pool_inv_def fifo_inv_def hold_inv_def simp_thms)

theorem pool_conserves_tasks_witness:
  "\<exists>s. pool_reachable 1 1 s \<and> m_taskQueue s = [''a''] \<and> pushed s = [''a'']"
proof -
  let ?s0 = "(ThreadPool_new 1)\<lparr>workers := replicate 1 WWait\<rparr> :: string pool"
  let ?s1 = "?s0\<lparr>posters := [PEnter ''a'']\<rparr>"
  let ?s2 = "?s1\<lparr>m_queueLock := Some (Poster 0), posters := [PLocked ''a'']\<rparr>"
  let ?s3 = "?s2\<lparr>m_taskQueue := [''a''], posters := [PPushed], pushed := [''a'']\<rparr>"
  have s: "pool_step (Call 0 (Some ''a'')) ?s0 = Some ?s1" "pool_step (PosterStep 0) ?s1 = Some ?s2"
    "pool_step (PosterStep 0) ?s2 = Some ?s3"
    by (simp_all add: ThreadPool_new_def postTask_def poster_step_def)
  have "pool_reachable 1 1 ?s3"
    by (rule pool_reachable.step [OF pool_reachable.step [OF pool_reachable.step [OF pool_reachable.start s(1)] s(2)] s(3)])
  with pool_conserves_tasks [OF this] show ?thesis by (intro exI [of _ ?s3]) simp
qed

text \<open>
  The semaphore counts the queue: a worker that \<open>sem_wait\<close> let through finds a task, so the
  test \<open>m_taskQueue.size() > 0\<close> never fails and no worker leaves the lock empty-handed.
\<close>

theorem woken_worker_finds_task:
  assumes "pool_reachable w n s" and "i < w"
  shows "(w_owed (workers s ! i) = 1 \<longrightarrow> m_taskQueue s \<noteq> []) \<and> \<not> w_empty_handed (workers s ! i)"
proof -
  have i: "i < length (workers s)" using reachable_lengths [OF assms(1)] assms(2) by simp
  have inv: "pool_inv s" by (rule reachable_inv [OF assms(1)])
  then have "length (m_taskQueue s) \<ge> w_owed (workers s ! i)"
    using sum_list_map_member_le [OF i, of w_owed] by (simp add: pool_inv_def sem_inv_def)
  with inv i show ?thesis by (auto simp: pool_inv_def busy_inv_def)
qed

theorem woken_worker_finds_task_witness:
  "\<exists>s. pool_run [Call 0 (Some ''a''), PosterStep 0, PosterStep 0, PosterStep 0, PosterStep 0, WorkerStep True 0]
          ((ThreadPool_new 1)\<lparr>workers := replicate 1 WWait\<rparr>) = Some s \<and> workers s = [WWoken] \<and> m_taskQueue s \<noteq> []"
proof -
  let ?s0 = "(ThreadPool_new 1)\<lparr>workers := replicate 1 WWait\<rparr> :: string pool"
  let ?s1 = "?s0\<lparr>posters := [PEnter ''a'']\<rparr>"
  let ?s2 = "?s1\<lparr>m_queueLock := Some (Poster 0), posters := [PLocked ''a'']\<rparr>"
  let ?s3 = "?s2\<lparr>m_taskQueue := [''a''], posters := [PPushed], pushed := [''a'']\<rparr>"
  let ?s4 = "?s3\<lparr>m_queueLock := None, posters := [PUnlocked]\<rparr>"
  let ?s5 = "?s4\<lparr>m_signalSem := 1, posters := [PIdle]\<rparr>"
  let ?s6 = "?s5\<lparr>m_signalSem := 0, workers := [WWoken]\<rparr>"
  have s: "pool_step (Call 0 (Some ''a'')) ?s0 = Some ?s1" "pool_step (PosterStep 0) ?s1 = Some ?s2"
    "pool_step (PosterStep 0) ?s2 = Some ?s3" "pool_step (PosterStep 0) ?s3 = Some ?s4"
    "pool_step (PosterStep 0) ?s4 = Some ?s5" "pool_step (WorkerStep True 0) ?s5 = Some ?s6"
    by (simp_all add: ThreadPool_new_def postTask_def poster_step_def worker_step_def)
  note r = pool_reachable.step
  have "pool_reachable 1 1 ?s6"
    by (rule r [OF r [OF r [OF r [OF r [OF r [OF pool_reachable.start s(1)] s(2)] s(3)] s(4)] s(5)] s(6)])
  from woken_worker_finds_task [OF this, of 0] s show ?thesis by simp
qed

text \<open>
  C27: Nothing waits for ever: from every reachable state of a pool with a worker, the threads can
  run every posted task to its end, with no further call, and in at most \<open>steps_left s\<close> steps
  (rounds of a failed \<open>sem_wait\<close> apart) any run of the threads comes to rest.
\<close>

theorem pool_drains:
  assumes "pool_reachable w n s" and "0 < w"
  shows "(\<exists>es s'. (\<forall>e\<in>set es. thread_step e) \<and> pool_run es s = Some s' \<and>
            m_taskQueue s' = [] \<and> mset (finished s') = mset (pushed s')) \<and>
         (\<forall>es s'. (\<forall>e\<in>set es. thread_step e) \<and> pool_run es s = Some s' \<longrightarrow> length es \<le> steps_left s)"
proof -
  have "pool_inv s" "workers s \<noteq> []" using reachable_inv [OF assms(1)] reachable_lengths [OF assms(1)] assms(2) by auto
  then obtain es s' where "\<forall>e\<in>set es. thread_step e" "pool_run es s = Some s'" "pool_idle s'" "pool_inv s'"
    using drain by blast
  then have "\<exists>es s'. (\<forall>e\<in>set es. thread_step e) \<and> pool_run es s = Some s' \<and>
            m_taskQueue s' = [] \<and> mset (finished s') = mset (pushed s')"
    using idle_finished by blast
  moreover have "\<forall>es s'. (\<forall>e\<in>set es. thread_step e) \<and> pool_run es s = Some s' \<longrightarrow> length es \<le> steps_left s"
    using thread_steps_bounded by fastforce
  ultimately show ?thesis by blast
qed

theorem pool_drains_witness:
  "\<exists>es s'. pool_run es ((ThreadPool_new 1)\<lparr>workers := replicate 1 WWait, posters := [PEnter ''a'']\<rparr>) = Some s' \<and>
     mset (finished s') = mset (pushed s')"
proof -
  let ?s0 = "(ThreadPool_new 1)\<lparr>workers := replicate 1 WWait\<rparr> :: string pool"
  have "pool_step (Call 0 (Some ''a'')) ?s0 = Some (?s0\<lparr>posters := [PEnter ''a'']\<rparr>)"
    by (simp add: ThreadPool_new_def postTask_def)
  from pool_drains [OF pool_reachable.step [OF pool_reachable.start this]] show ?thesis by auto
qed

end
