(* ===== verification/TaskTimer.thy ===== *)
theory TaskTimer
  imports Prelude
begin

text \<open>
  \<open>TaskTimer.cpp\<close>: the timer thread reads the clock in milliseconds in a loop and calls back when
  the unsigned difference to its last call is at least the period. A run of the thread is the list
  of what it sees in its rounds: the flag \<open>m_timerStop\<close> and the clock.
\<close>

type_synonym ulong = "64 word"

record task_timer =
  m_timerFun :: bool
  m_timeSecond :: int
  m_timerStop :: bool

definition TaskTimer_new :: "int \<Rightarrow> task_timer" where
  "TaskTimer_new TimeSecond = \<lparr>m_timerFun = False, m_timeSecond = TimeSecond, m_timerStop = False\<rparr>"

definition setTimerFun :: "task_timer \<Rightarrow> task_timer" where
  "setTimerFun t = t\<lparr>m_timerFun := True\<rparr>"

definition timer_stop :: "task_timer \<Rightarrow> task_timer" where
  "timer_stop t = t\<lparr>m_timerStop := True\<rparr>"

text \<open>\<open>current.tv_sec * 1000 + current.tv_usec / 1000\<close>, for a non-negative \<open>tv_usec\<close>.\<close>

definition clock_ms :: "int \<Rightarrow> int \<Rightarrow> ulong" where
  "clock_ms tv_sec tv_usec = word_of_int (tv_sec * 1000 + tv_usec div 1000)"

text \<open>
  The comparison \<open>(curTm - lastTm) >= (pthis->m_timeSecond) * 1000\<close>: the product is an \<open>int\<close>, which
  may overflow, and is converted to \<open>unsigned long\<close>.
\<close>

definition timer_period :: "int \<Rightarrow> ulong res" where
  "timer_period s =
     (if - (2 ^ 31) \<le> s * 1000 \<and> s * 1000 < 2 ^ 31 then Inr (word_of_int (s * 1000)) else Inl IntOverflow)"

definition timer_due :: "ulong \<Rightarrow> ulong \<Rightarrow> ulong \<Rightarrow> bool" where
  "timer_due period lastTm curTm \<longleftrightarrow> period \<le> curTm - lastTm"

text \<open>
  The loop: \<open>obs\<close> are the rounds, and the result the clock values at which \<open>m_timerFun\<close> was called.
  A round that is not due sleeps for a second.
\<close>

fun timer_loop :: "task_timer \<Rightarrow> ulong \<Rightarrow> (bool \<times> ulong) list \<Rightarrow> ulong list res" where
  "timer_loop t lastTm [] = Inr []"
| "timer_loop t lastTm ((stop, curTm) # obs) =
     (if stop then Inr []
      else bind_res (timer_period (m_timeSecond t)) (\<lambda>period.
        if timer_due period lastTm curTm
        then bind_res (timer_loop t curTm obs) (\<lambda>fired.
               Inr (if m_timerFun t then curTm # fired else fired))
        else timer_loop t lastTm obs))"

definition timer_thread :: "task_timer \<Rightarrow> (bool \<times> ulong) list \<Rightarrow> ulong list res" where
  "timer_thread t obs = timer_loop t 0 obs"

section \<open>What the callback sees\<close>

text \<open>A list of times a period apart, the differences taken as the code takes them.\<close>

fun spaced :: "ulong \<Rightarrow> ulong \<Rightarrow> ulong list \<Rightarrow> bool" where
  "spaced period lastTm [] = True"
| "spaced period lastTm (c # cs) \<longleftrightarrow> timer_due period lastTm c \<and> spaced period c cs"

lemma timer_loop_spaced:
  assumes "timer_period (m_timeSecond t) = Inr period" and "timer_loop t lastTm obs = Inr fired" and "m_timerFun t"
  shows "spaced period lastTm fired"
  using assms(2)
proof (induction obs arbitrary: lastTm fired)
  case (Cons o' obs)
  with assms(1,3) show ?case
    by (cases o') (auto simp: bind_res_Inr_iff split: if_splits)
qed simp

text \<open>The clock as a number: seen as non-negative integers that do not go back, gaps are differences.\<close>

fun gaps_ge :: "nat \<Rightarrow> nat list \<Rightarrow> bool" where
  "gaps_ge p (a # b # cs) \<longleftrightarrow> a + p \<le> b \<and> gaps_ge p (b # cs)"
| "gaps_ge p _ = True"

lemma timer_due_unat:
  "lastTm \<le> curTm \<Longrightarrow> timer_due period lastTm curTm \<longleftrightarrow> unat lastTm + unat period \<le> unat curTm"
  by (simp add: timer_due_def word_le_nat_alt unat_sub) linarith

lemma timer_loop_gaps:
  assumes p: "timer_period (m_timeSecond t) = Inr period" and f: "m_timerFun t"
    and "timer_loop t lastTm obs = Inr fired" and "sorted (map snd obs)" and "\<forall>r\<in>set obs. lastTm \<le> snd r"
  shows "gaps_ge (unat period) (unat lastTm # map unat fired)"
  using assms(3-5)
proof (induction obs arbitrary: lastTm fired)
  case (Cons r obs)
  obtain stop c where r: "r = (stop, c)" by (cases r)
  show ?case
  proof (cases stop)
    case False
    show ?thesis
    proof (cases "timer_due period lastTm c")
      case True
      with Cons.prems(1) r False p f obtain fs where "timer_loop t c obs = Inr fs" "fired = c # fs"
        by (auto simp: bind_res_Inr_iff)
      with Cons True r show ?thesis by (auto simp: timer_due_unat)
    next
      case notdue: False
      with Cons r False p show ?thesis by (auto simp: bind_res_Inr_iff)
    qed
  qed (use Cons.prems r in auto)
qed simp

lemma timer_period_unat:
  assumes "0 \<le> s" and "s * 1000 < 2 ^ 31"
  obtains period where "timer_period s = Inr period" and "unat period = nat (s * 1000)"
proof
  show "timer_period s = Inr (word_of_int (s * 1000))" using assms by (simp add: timer_period_def)
  have "uint (word_of_int (s * 1000) :: ulong) = s * 1000"
    using assms by (intro word_of_int_inverse [OF refl]) simp_all
  then show "unat (word_of_int (s * 1000) :: ulong) = nat (s * 1000)"
    by (metis nat_uint_eq)
qed

text \<open>The longest time without a call, when the rounds are at most \<open>d\<close> milliseconds apart.\<close>

fun gaps_le :: "nat \<Rightarrow> nat list \<Rightarrow> bool" where
  "gaps_le d (a # b # cs) \<longleftrightarrow> b \<le> a + d \<and> gaps_le d (b # cs)"
| "gaps_le d _ = True"

lemma timer_loop_misses_nothing:
  assumes p: "timer_period (m_timeSecond t) = Inr period" and f: "m_timerFun t"
    and "timer_loop t lastTm (map (Pair False) cs) = Inr fired"
    and "sorted cs" and "\<forall>c\<in>set cs. lastTm \<le> c"
    and "gaps_le d (prev # map unat cs)" and "unat lastTm \<le> prev" and "prev \<le> unat lastTm + unat period"
  shows "gaps_le (unat period + d) (unat lastTm # map unat fired) \<and>
         (cs \<noteq> [] \<longrightarrow> unat (last cs) \<le> unat (last (lastTm # fired)) + unat period + d)"
  using assms(3-8)
proof (induction cs arbitrary: lastTm fired prev)
  case (Cons c cs)
  have c: "lastTm \<le> c" using Cons.prems(3) by simp
  then have "unat lastTm \<le> unat c" by (simp add: word_le_nat_alt)
  show ?case
  proof (cases "timer_due period lastTm c")
    case True
    with Cons.prems(1) p f obtain fs where fs: "timer_loop t c (map (Pair False) cs) = Inr fs" "fired = c # fs"
      by (auto simp: bind_res_Inr_iff)
    have "gaps_le (unat period + d) (unat c # map unat fs) \<and>
        (cs \<noteq> [] \<longrightarrow> unat (last cs) \<le> unat (last (c # fs)) + unat period + d)"
      using Cons.prems by (intro Cons.IH [OF fs(1), where prev = "unat c"]) auto
    moreover have "unat c \<le> unat lastTm + (unat period + d)" using Cons.prems(4,6) by simp
    moreover have "fs = []" if "cs = []" using fs(1) that by simp
    ultimately show ?thesis using fs(2) by (cases cs; cases fs) auto
  next
    case False
    then have lt: "unat c < unat lastTm + unat period" using timer_due_unat [OF c] by simp
    have "gaps_le (unat period + d) (unat lastTm # map unat fired) \<and>
        (cs \<noteq> [] \<longrightarrow> unat (last cs) \<le> unat (last (lastTm # fired)) + unat period + d)"
      using Cons.prems False p lt \<open>unat lastTm \<le> unat c\<close> by (intro Cons.IH [where prev = "unat c"]) auto
    moreover have "fired = []" if "cs = []"
      using Cons.prems(1) False p that by simp
    ultimately show ?thesis using lt by auto
  qed
qed simp

section \<open>Properties\<close>

lemma hd_fired:
  assumes p: "timer_period (m_timeSecond t) = Inr period" and "m_timerFun t"
    and "timer_due period lastTm c" and "timer_loop t lastTm ((False, c) # obs) = Inr fired"
  shows "\<exists>fs. fired = c # fs \<and> timer_loop t c obs = Inr fs"
  using assms by (auto simp: bind_res_Inr_iff)

text \<open>
  C28: A timer of \<open>s\<close> seconds never calls back twice within \<open>s\<close> seconds, on a clock that does not go
  back, whenever the flag is raised.
\<close>

theorem timer_spacing:
  assumes "0 \<le> m_timeSecond t" and "m_timeSecond t * 1000 < 2 ^ 31" and "m_timerFun t"
    and "sorted (map snd obs)" and "timer_thread t obs = Inr fired"
  shows "gaps_ge (nat (m_timeSecond t * 1000)) (map unat fired)"
proof -
  obtain period where p: "timer_period (m_timeSecond t) = Inr period" "unat period = nat (m_timeSecond t * 1000)"
    using timer_period_unat [OF assms(1,2)] by blast
  have "gaps_ge (unat period) (unat (0 :: ulong) # map unat fired)"
    using assms(4,5) by (intro timer_loop_gaps [OF p(1) assms(3), of 0 obs]) (simp_all add: timer_thread_def)
  then show ?thesis by (cases fired) (auto simp: p(2))
qed

theorem timer_spacing_witness:
  "timer_thread (setTimerFun (TaskTimer_new 3)) [(False, 5000), (False, 6000), (False, 8000), (True, 9000)] = Inr [5000, 8000] \<and>
   gaps_ge 3000 (map unat [5000, 8000 :: ulong])"
proof -
  let ?t = "setTimerFun (TaskTimer_new 3)"
  have "timer_thread ?t [(False, 5000), (False, 6000), (False, 8000), (True, 9000)] = Inr [5000, 8000]"
    by (simp add: timer_thread_def setTimerFun_def TaskTimer_new_def timer_period_def timer_due_def)
  moreover have "sorted (map snd [(False, 5000 :: ulong), (False, 6000), (False, 8000), (True, 9000)])" by simp
  ultimately show ?thesis using timer_spacing [of ?t "[(False, 5000), (False, 6000), (False, 8000), (True, 9000)]"]
    by (simp add: setTimerFun_def TaskTimer_new_def)
qed

text \<open>
  The callback comes in time: while the timer is not stopped and its rounds are at most \<open>d\<close>
  milliseconds apart, it first calls back in its first round (on any clock past the period) and then
  after at most the period and \<open>d\<close>, up to the last round seen.
\<close>

theorem timer_keeps_calling:
  assumes "0 \<le> m_timeSecond t" and "m_timeSecond t * 1000 < 2 ^ 31" and "m_timerFun t"
    and "sorted (c # cs)" and "m_timeSecond t * 1000 \<le> uint c" and "gaps_le d (map unat (c # cs))"
  shows "\<exists>fired. timer_thread t (map (Pair False) (c # cs)) = Inr (c # fired) \<and>
           gaps_le (nat (m_timeSecond t * 1000) + d) (map unat (c # fired)) \<and>
           unat (last (c # cs)) \<le> unat (last (c # fired)) + nat (m_timeSecond t * 1000) + d"
proof -
  obtain period where p: "timer_period (m_timeSecond t) = Inr period" "unat period = nat (m_timeSecond t * 1000)"
    using timer_period_unat [OF assms(1,2)] by blast
  have "unat period \<le> unat c" using assms(5) p(2) by (simp add: nat_le_iff)
  then have due: "timer_due period 0 c" by (simp add: timer_due_def word_le_nat_alt)
  have total: "\<exists>fs. timer_loop t l obs = Inr fs" for l obs
  proof (induction obs arbitrary: l)
    case (Cons r obs)
    obtain stop b where r: "r = (stop, b)" by (cases r)
    obtain f1 f2 where "timer_loop t b obs = Inr f1" "timer_loop t l obs = Inr f2" using Cons by blast
    then show ?case by (simp add: r p(1))
  qed simp
  then obtain fs where fs: "timer_loop t c (map (Pair False) cs) = Inr fs" by blast
  have run: "timer_thread t (map (Pair False) (c # cs)) = Inr (c # fs)"
    using due assms(3) fs by (simp add: timer_thread_def p(1))
  have "gaps_le (unat period + d) (unat c # map unat fs) \<and>
      (cs \<noteq> [] \<longrightarrow> unat (last cs) \<le> unat (last (c # fs)) + unat period + d)"
    using assms(4,6) by (intro timer_loop_misses_nothing [OF p(1) assms(3) fs, where prev = "unat c"]) auto
  moreover have "fs = []" if "cs = []" using fs that by simp
  ultimately show ?thesis using run p(2) by auto
qed

theorem timer_keeps_calling_witness:
  "\<exists>fired. timer_thread (setTimerFun (TaskTimer_new 3)) (map (Pair False) [5000, 6000, 7000]) = Inr (5000 # fired) \<and>
     gaps_le 4000 (map unat ((5000 :: ulong) # fired))"
proof -
  let ?t = "setTimerFun (TaskTimer_new 3)"
  have "sorted [5000 :: ulong, 6000, 7000]" "gaps_le 1000 (map unat [5000 :: ulong, 6000, 7000])" by simp_all
  then show ?thesis using timer_keeps_calling [of ?t 5000 "[6000, 7000]" 1000]
    by (auto simp: setTimerFun_def TaskTimer_new_def)
qed

end
