(* ===== verification/SipMessage.thy ===== *)
theory SipMessage
  imports CLib
begin

text \<open>
  The client's message texts (\<open>SipSubService/src/SipMessage.cpp\<close>): four arrays of 128 bytes filled with
  \<open>sprintf\<close>. An array is its text up to the terminating NUL; a text that does not fit with its NUL is
  a write outside the array.
\<close>

section \<open>The class\<close>

record sip_message =
  fromHeader :: string
  toHeader :: string
  requestUrl :: string
  contact :: string

definition HEADER_SIZE :: nat where
  "HEADER_SIZE = 128"

definition SipMessage_new :: sip_message where
  "SipMessage_new = \<lparr>fromHeader = [], toHeader = [], requestUrl = [], contact = []\<rparr>"

definition sprintf_into :: "nat \<Rightarrow> string \<Rightarrow> string res" where
  "sprintf_into n s = (if length s + 1 \<le> n then Inr s else Inl OutOfBounds)"

definition user_at :: "string \<Rightarrow> string \<Rightarrow> string" where
  "user_at usr ip = ''<sip:'' @ usr @ ''@'' @ ip @ ''>''"

definition setFrom :: "string \<Rightarrow> string \<Rightarrow> sip_message \<Rightarrow> sip_message res" where
  "setFrom fromUsr fromIp m =
     bind_res (sprintf_into HEADER_SIZE (user_at fromUsr fromIp)) (\<lambda>s. Inr (m\<lparr>fromHeader := s\<rparr>))"

definition setTo :: "string \<Rightarrow> string \<Rightarrow> sip_message \<Rightarrow> sip_message res" where
  "setTo toUser toIp m =
     bind_res (sprintf_into HEADER_SIZE (user_at toUser toIp)) (\<lambda>s. Inr (m\<lparr>toHeader := s\<rparr>))"

definition setUrl :: "string \<Rightarrow> string \<Rightarrow> int \<Rightarrow> string \<Rightarrow> sip_message \<Rightarrow> sip_message res" where
  "setUrl sipId url_ip url_port url_proto m =
     bind_res (sprintf_into HEADER_SIZE
         (''sip:'' @ sipId @ ''@'' @ url_ip @ '':'' @ show_int url_port @ '';transport='' @ url_proto))
       (\<lambda>s. Inr (m\<lparr>requestUrl := s\<rparr>))"

definition setContact :: "string \<Rightarrow> string \<Rightarrow> int \<Rightarrow> sip_message \<Rightarrow> sip_message res" where
  "setContact sipId natIp natPort m =
     bind_res (sprintf_into HEADER_SIZE (''sip:'' @ sipId @ ''@'' @ natIp @ '':'' @ show_int natPort))
       (\<lambda>s. Inr (m\<lparr>contact := s\<rparr>))"

section \<open>When the texts fit\<close>

lemma sprintf_into_iff: "sprintf_into n s = Inr t \<longleftrightarrow> t = s \<and> length s < n"
  by (auto simp: sprintf_into_def)

lemma setFrom_iff: "setFrom usr ip m = Inr m' \<longleftrightarrow>
    m' = m\<lparr>fromHeader := user_at usr ip\<rparr> \<and> length usr + length ip \<le> 120"
  by (auto simp: setFrom_def bind_res_Inr_iff sprintf_into_iff user_at_def HEADER_SIZE_def)

lemma setTo_iff: "setTo usr ip m = Inr m' \<longleftrightarrow>
    m' = m\<lparr>toHeader := user_at usr ip\<rparr> \<and> length usr + length ip \<le> 120"
  by (auto simp: setTo_def bind_res_Inr_iff sprintf_into_iff user_at_def HEADER_SIZE_def)

lemma show_int_len_int:
  assumes "- (2 ^ 31) \<le> i" and "i < 2 ^ 31"
  shows "length (show_int i) \<le> 11"
  using show_nat_length [of "nat i" 11] show_nat_length [of "nat (- i)" 10] assms
  by (auto simp: show_int_def)

text \<open>With ports that are an \<open>int\<close>, 99 bytes for an id and a host are enough for every text.\<close>

lemma setUrl_fits:
  assumes "length i + length h + length p \<le> 98" and "- (2 ^ 31) \<le> port" and "port < 2 ^ 31"
  shows "setUrl i h port p m = Inr (m\<lparr>requestUrl := ''sip:'' @ i @ ''@'' @ h @ '':'' @ show_int port @ '';transport='' @ p\<rparr>)"
  using show_int_len_int [OF assms(2,3)] assms(1)
  by (simp add: setUrl_def sprintf_into_def HEADER_SIZE_def)

lemma setContact_fits:
  assumes "length i + length h \<le> 110" and "- (2 ^ 31) \<le> port" and "port < 2 ^ 31"
  shows "setContact i h port m = Inr (m\<lparr>contact := ''sip:'' @ i @ ''@'' @ h @ '':'' @ show_int port\<rparr>)"
  using show_int_len_int [OF assms(2,3)] assms(1)
  by (simp add: setContact_def sprintf_into_def HEADER_SIZE_def)

end
