(* ===== verification/PjString.thy ===== *)
theory PjString
  imports CLib
begin

text \<open>
  The string functions of pjlib and pjlib-util the SIP stack uses (\<open>3rd/src/pj/string.c\<close>,
  \<open>3rd/src/pjlib-util/string.c\<close>). A \<open>pj_str_t\<close> is the list of its bytes; copying one into a pool
  leaves its value as it is, and allocation from a pool succeeds.
\<close>

section \<open>Status codes\<close>

abbreviation PJ_SUCCESS :: int where "PJ_SUCCESS \<equiv> 0"
definition PJ_EINVAL :: int where "PJ_EINVAL = 70004"
definition PJ_ENOTFOUND :: int where "PJ_ENOTFOUND = 70006"
definition PJ_ENOMEM :: int where "PJ_ENOMEM = 70007"
definition PJ_EBUG :: int where "PJ_EBUG = 70008"
definition PJ_ETOOMANY :: int where "PJ_ETOOMANY = 70010"
definition PJ_EBUSY :: int where "PJ_EBUSY = 70011"
definition PJ_EINVALIDOP :: int where "PJ_EINVALIDOP = 70013"
definition PJ_EEXISTS :: int where "PJ_EEXISTS = 70015"
definition PJ_ETOOBIG :: int where "PJ_ETOOBIG = 70017"
definition PJ_ETOOSMALL :: int where "PJ_ETOOSMALL = 70019"

lemmas pj_status_defs = PJ_EINVAL_def PJ_ENOTFOUND_def PJ_ENOMEM_def PJ_EBUG_def PJ_ETOOMANY_def
  PJ_EBUSY_def PJ_EINVALIDOP_def PJ_EEXISTS_def PJ_ETOOBIG_def PJ_ETOOSMALL_def

type_synonym ulong = "64 word"

definition code_c :: "char \<Rightarrow> nat" where
  "code_c c = of_char c"

text \<open>A \<open>char\<close> is signed.\<close>

definition schar :: "char \<Rightarrow> int" where
  "schar c = (if code_c c < 128 then int (code_c c) else int (code_c c) - 256)"

definition isxdigit_c :: "char \<Rightarrow> bool" where
  "isxdigit_c c \<longleftrightarrow> (let n = code_c c in (48 \<le> n \<and> n \<le> 57) \<or> (65 \<le> n \<and> n \<le> 70) \<or> (97 \<le> n \<and> n \<le> 102))"

section \<open>Comparison\<close>

fun memcmp :: "string \<Rightarrow> string \<Rightarrow> int" where
  "memcmp (a # s) (b # t) = (if a = b then memcmp s t else int (code_c a) - int (code_c b))"
| "memcmp _ _ = 0"

definition len_cmp :: "string \<Rightarrow> string \<Rightarrow> int" where
  "len_cmp s t = (if length s < length t then -1 else if length s = length t then 0 else 1)"

definition pj_strcmp :: "string \<Rightarrow> string \<Rightarrow> int" where
  "pj_strcmp s t =
     (if s = [] then (if t = [] then 0 else -1)
      else if t = [] then 1
      else let n = min (length s) (length t); res = memcmp (take n s) (take n t)
           in if res = 0 then len_cmp s t else res)"

text \<open>\<open>strncasecmp\<close> stops at a NUL in both strings.\<close>

fun strnicmp :: "nat \<Rightarrow> string \<Rightarrow> string \<Rightarrow> int" where
  "strnicmp 0 s t = 0"
| "strnicmp (Suc n) s t =
     (let a = tolower_c (hdz s); b = tolower_c (hdz t)
      in if a \<noteq> b then int (code_c a) - int (code_c b)
         else if a = NUL then 0 else strnicmp n (tl s) (tl t))"

definition pj_stricmp :: "string \<Rightarrow> string \<Rightarrow> int" where
  "pj_stricmp s t =
     (if s = [] then (if t = [] then 0 else -1)
      else if t = [] then 1
      else let res = strnicmp (min (length s) (length t)) s t in if res = 0 then len_cmp s t else res)"

definition pj_strncmp :: "string \<Rightarrow> string \<Rightarrow> nat \<Rightarrow> int" where
  "pj_strncmp s t n = pj_strcmp (take n s) (take n t)"

definition pj_strnicmp :: "string \<Rightarrow> string \<Rightarrow> nat \<Rightarrow> int" where
  "pj_strnicmp s t n = pj_stricmp (take n s) (take n t)"

section \<open>Spans, tokens, search\<close>

text \<open>A character that occurs twice in the set counts twice, and ends the span.\<close>

fun strspn_loop :: "string \<Rightarrow> nat \<Rightarrow> nat \<Rightarrow> string \<Rightarrow> nat" where
  "strspn_loop set_char i count [] = count"
| "strspn_loop set_char i count (c # s) =
     (if count \<noteq> i then count else strspn_loop set_char (Suc i) (count + count_list set_char c) s)"

definition pj_strspn :: "string \<Rightarrow> string \<Rightarrow> nat" where
  "pj_strspn str set_char = strspn_loop set_char 0 0 str"

fun pj_strcspn :: "string \<Rightarrow> string \<Rightarrow> nat" where
  "pj_strcspn [] set_char = 0"
| "pj_strcspn (c # s) set_char = (if c \<in> set set_char then 0 else Suc (pj_strcspn s set_char))"

text \<open>
  The result is the returned index and the token, whose bounds are compared the way the code
  compares them.
\<close>

definition pj_strtok :: "string \<Rightarrow> string \<Rightarrow> nat \<Rightarrow> nat \<times> string" where
  "pj_strtok str delim start_idx =
     (if length str = 0 \<or> length str < start_idx then (length str, [])
      else let tok = drop start_idx str; str_idx = pj_strspn tok delim
           in if start_idx + str_idx = length str then (length str, tok)
              else let tok = drop str_idx tok
                   in (start_idx + str_idx, take (pj_strcspn tok delim) tok))"

text \<open>\<open>strncmp\<close> returns 0.\<close>

fun strncmp_eq0 :: "nat \<Rightarrow> string \<Rightarrow> string \<Rightarrow> bool" where
  "strncmp_eq0 0 a b = True"
| "strncmp_eq0 (Suc n) a b = (hdz a = hdz b \<and> (hdz a = NUL \<or> strncmp_eq0 n (tl a) (tl b)))"

text \<open>The loops \<open>for (; s <= ends; ++s)\<close>: \<open>s\<close> is the rest of the string, \<open>i\<close> its index.\<close>

fun find_sub :: "(string \<Rightarrow> bool) \<Rightarrow> nat \<Rightarrow> nat \<Rightarrow> string \<Rightarrow> nat option" where
  "find_sub eq n i s =
     (if length s < n then None
      else if eq s then Some i
      else case s of [] \<Rightarrow> None | c # s' \<Rightarrow> find_sub eq n (Suc i) s')"

declare find_sub.simps [simp del]

definition pj_strstr :: "string \<Rightarrow> string \<Rightarrow> nat option" where
  "pj_strstr str substr =
     (if length substr = 0 then Some 0
      else find_sub (\<lambda>s. strncmp_eq0 (length substr) s substr) (length substr) 0 str)"

definition pj_stristr :: "string \<Rightarrow> string \<Rightarrow> nat option" where
  "pj_stristr str substr =
     (if length substr = 0 then Some 0
      else find_sub (\<lambda>s. strncasecmp_eq0 (length substr) s substr) (length substr) 0 str)"

definition pj_strltrim :: "string \<Rightarrow> string" where
  "pj_strltrim str = dropWhile isspace_c str"

definition pj_strrtrim :: "string \<Rightarrow> string" where
  "pj_strrtrim str = rev (dropWhile isspace_c (rev str))"

section \<open>Numbers\<close>

fun strtoul_loop :: "ulong \<Rightarrow> string \<Rightarrow> ulong" where
  "strtoul_loop value [] = value"
| "strtoul_loop value (c # s) =
     (if \<not> isdigit_c c then value else strtoul_loop (value * 10 + word_of_int (schar c - 48)) s)"

definition pj_strtoul :: "string \<Rightarrow> ulong" where
  "pj_strtoul str = strtoul_loop 0 str"

text \<open>\<open>-(long)pj_strtoul(&s)\<close>, read as a signed number.\<close>

definition pj_strtol :: "string \<Rightarrow> int" where
  "pj_strtol str =
     (case str of
        c # s \<Rightarrow> if c = CHR ''-'' then sint (- pj_strtoul s)
                 else if c = CHR ''+'' then sint (pj_strtoul s)
                 else sint (pj_strtoul str)
      | [] \<Rightarrow> sint (pj_strtoul []))"

definition pj_hex_digit_to_val :: "char \<Rightarrow> nat" where
  "pj_hex_digit_to_val c =
     (let n = code_c c
      in if n \<le> 57 then nat ((int n - 48) mod 16)
         else if n \<le> 70 then nat ((int n - 65 + 10) mod 16)
         else nat ((int n - 97 + 10) mod 16))"

text \<open>\<open>unsigned c = (str->ptr[i] - '0')\<close>\<close>

definition digit_u :: "char \<Rightarrow> nat" where
  "digit_u c = nat ((schar c - 48) mod 2 ^ 32)"

fun strtoul2_loop :: "nat \<Rightarrow> ulong \<Rightarrow> string \<Rightarrow> ulong \<times> string" where
  "strtoul2_loop base value [] = (value, [])"
| "strtoul2_loop base value (c # s) =
     (if base \<le> 10
      then (if digit_u c \<ge> base then (value, c # s)
            else strtoul2_loop base (value * of_nat base + of_nat (digit_u c)) s)
      else (if \<not> isxdigit_c c then (value, c # s)
            else strtoul2_loop base (value * 16 + of_nat (pj_hex_digit_to_val c)) s))"

definition pj_strtoul2 :: "string \<Rightarrow> nat \<Rightarrow> (ulong \<times> string) res" where
  "pj_strtoul2 str base =
     (if base \<le> 10 \<or> base = 16 then Inr (strtoul2_loop base 0 str) else Inl AssertFail)"

text \<open>
  \<open>pj_strtoul3\<close>: the status and the value, which is kept as a number because no step of the loop
  wraps; \<open>ULONG_MAX\<close> is \<open>PJ_MAXULONG\<close>.
\<close>

definition ULONG_MAX :: nat where
  "ULONG_MAX = 2 ^ 64 - 1"

definition strtoul3_digit :: "nat \<Rightarrow> char \<Rightarrow> nat option" where
  "strtoul3_digit base c =
     (if base \<le> 10
      then (if schar c < 48 \<or> int (code_c c) > 47 + int base then None else Some (code_c c - 48))
      else (if \<not> isxdigit_c c then None else Some (pj_hex_digit_to_val c)))"

fun strtoul3_loop :: "nat \<Rightarrow> nat \<Rightarrow> string \<Rightarrow> int \<times> nat" where
  "strtoul3_loop base value [] = (PJ_SUCCESS, value)"
| "strtoul3_loop base value (c # s) =
     (case strtoul3_digit base c of
        None \<Rightarrow> (PJ_SUCCESS, value)
      | Some d \<Rightarrow>
          if value > ULONG_MAX div base then (PJ_ETOOBIG, ULONG_MAX)
          else if ULONG_MAX - value * base < d then (PJ_ETOOBIG, ULONG_MAX)
          else strtoul3_loop base (value * base + d) s)"

text \<open>The result \<open>None\<close> of the value: \<open>*value\<close> is not written.\<close>

definition pj_strtoul3 :: "string \<Rightarrow> nat \<Rightarrow> (int \<times> nat option) res" where
  "pj_strtoul3 str base =
     (let s = pj_strltrim str
      in if s = [] \<or> schar (hd s) < 48 \<or>
            (base \<le> 10 \<and> int (code_c (hd s)) > 47 + int base) \<or> (base = 16 \<and> \<not> isxdigit_c (hd s))
         then Inr (PJ_EINVAL, None)
         else if base \<le> 10 \<or> base = 16
         then (let (st, v) = strtoul3_loop base 0 s in Inr (st, Some v))
         else Inl AssertFail)"

definition LONG_MAX :: int where
  "LONG_MAX = 2 ^ 63 - 1"

definition pj_strtol2 :: "string \<Rightarrow> (int \<times> int option) res" where
  "pj_strtol2 str =
     (let s = pj_strltrim str
      in if s = [] then Inr (PJ_EINVAL, None)
         else let sign = (hd s = CHR ''+'' \<or> hd s = CHR ''-''); is_negative = (hd s = CHR ''-'');
                  s = (if sign then tl s else s)
              in bind_res (pj_strtoul3 s 10) (\<lambda>(rc, retval).
                   if rc = PJ_EINVAL then Inr (rc, None)
                   else if rc \<noteq> PJ_SUCCESS
                   then Inr (if is_negative then (PJ_ETOOSMALL, Some (- LONG_MAX - 1)) else (PJ_ETOOBIG, Some LONG_MAX))
                   else let r = int (the retval)
                        in if r > LONG_MAX \<and> \<not> is_negative then Inr (PJ_ETOOBIG, Some LONG_MAX)
                           else if r > LONG_MAX + 1 \<and> is_negative then Inr (PJ_ETOOSMALL, Some (- LONG_MAX - 1))
                           else Inr (PJ_SUCCESS, Some (if is_negative then - r else r))))"

text \<open>Printing: the digits are written lowest first, padded, and reversed in place.\<close>

fun utoa_digits :: "nat \<Rightarrow> string" where
  "utoa_digits val = digit_c (val mod 10) # (if val div 10 > 0 then utoa_digits (val div 10) else [])"

declare utoa_digits.simps [simp del]

definition pj_utoa_pad :: "nat \<Rightarrow> nat \<Rightarrow> char \<Rightarrow> string" where
  "pj_utoa_pad val min_dig pad =
     (let p = utoa_digits val in rev (p @ replicate (min_dig - length p) pad))"

definition pj_utoa :: "nat \<Rightarrow> string" where
  "pj_utoa val = pj_utoa_pad val 0 NUL"

definition hex_digit :: "nat \<Rightarrow> char" where
  "hex_digit n = ''0123456789abcdef'' ! n"

definition pj_val_to_hex_digit :: "nat \<Rightarrow> string" where
  "pj_val_to_hex_digit value = [hex_digit (value mod 256 div 16), hex_digit (value mod 16)]"

text \<open>Random strings, over the values \<open>pj_rand\<close> returns, one after the other.\<close>

fun random_words :: "nat list \<Rightarrow> string" where
  "random_words [] = []"
| "random_words (val # vs) =
     pj_val_to_hex_digit (val div 2 ^ 24) @ pj_val_to_hex_digit (val div 2 ^ 16) @
     pj_val_to_hex_digit (val div 2 ^ 8) @ pj_val_to_hex_digit val @ random_words vs"

definition pj_create_random_string :: "(nat \<Rightarrow> nat) \<Rightarrow> nat \<Rightarrow> string" where
  "pj_create_random_string rand len =
     (let k = len div 8
      in random_words (map rand [0..<k]) @ map (\<lambda>j. hex_digit (rand (k + j) mod 16)) [0..<len - k * 8])"

section \<open>Escaping\<close>

fun unescape :: "(char \<Rightarrow> bool) \<Rightarrow> string \<Rightarrow> string" where
  "unescape hex (c # h # l # s) =
     (if c = CHR ''%'' \<and> hex h \<and> hex l
      then char_of (pj_hex_digit_to_val h * 16 + pj_hex_digit_to_val l) # unescape hex s
      else c # unescape hex (h # l # s))"
| "unescape hex s = s"

definition pj_str_unescape :: "string \<Rightarrow> string" where
  "pj_str_unescape src_str =
     (if CHR ''%'' \<notin> set src_str then src_str else unescape isxdigit_c src_str)"

text \<open>The other one does not look whether the two characters are hexadecimal digits.\<close>

definition pj_strcpy_unescape :: "string \<Rightarrow> string" where
  "pj_strcpy_unescape src_str = unescape (\<lambda>c. True) src_str"

text \<open>
  \<open>pj_strncpy2_escape\<close>: \<open>room\<close> is \<open>dst_end - dst\<close>; \<open>None\<close> is the result -1.
\<close>

fun escape_loop :: "(char \<Rightarrow> bool) \<Rightarrow> nat \<Rightarrow> string \<Rightarrow> string option" where
  "escape_loop unres room [] = Some []"
| "escape_loop unres room (c # s) =
     (if room = 0 then None
      else if unres c then map_option (\<lambda>t. c # t) (escape_loop unres (room - 1) s)
      else if 2 < room
      then map_option (\<lambda>t. CHR ''%'' # pj_val_to_hex_digit (code_c c) @ t) (escape_loop unres (room - 3) s)
      else None)"

definition pj_strncpy2_escape :: "string \<Rightarrow> nat \<Rightarrow> (char \<Rightarrow> bool) \<Rightarrow> string option" where
  "pj_strncpy2_escape src_str maxlen unres =
     (if maxlen < length src_str then None else escape_loop unres maxlen src_str)"

section \<open>Lemmas on comparison\<close>

lemma memcmp_refl [simp]: "memcmp s s = 0"
  by (induction s) auto

lemma code_c_eq_iff [simp]: "code_c a = code_c b \<longleftrightarrow> a = b"
  by (simp add: code_c_def)

lemma memcmp_eq0: "length s = length t \<Longrightarrow> memcmp s t = 0 \<longleftrightarrow> s = t"
proof (induction s t rule: memcmp.induct)
  case (1 a s b t)
  have "int (code_c a) - int (code_c b) = 0 \<longleftrightarrow> a = b" by simp
  with 1 show ?case by auto
qed auto

lemma len_cmp_eq0 [simp]: "len_cmp s t = 0 \<longleftrightarrow> length s = length t"
  by (simp add: len_cmp_def)

lemma pj_strcmp_eq0 [simp]: "pj_strcmp s t = 0 \<longleftrightarrow> s = t"
proof (cases "s = [] \<or> t = []")
  case False
  have "length s = length t \<Longrightarrow> memcmp s t = 0 \<longleftrightarrow> s = t" by (rule memcmp_eq0)
  with False show ?thesis by (auto simp: pj_strcmp_def Let_def min_def)
qed (auto simp: pj_strcmp_def)

lemma strnicmp_eq0: "strnicmp n s t = 0 \<longleftrightarrow> strncasecmp_eq0 n s t"
  by (induction n s t rule: strnicmp.induct) (auto simp: strncasecmp_eq0.simps Let_def)

lemma pj_stricmp_eq0:
  assumes "NUL \<notin> set s" and "NUL \<notin> set t"
  shows "pj_stricmp s t = 0 \<longleftrightarrow> lower_c s = lower_c t"
proof (cases "s = [] \<or> t = []")
  case True
  then show ?thesis by (auto simp: pj_stricmp_def lower_c_def)
next
  case False
  have "strncasecmp_eq0 n s t \<longleftrightarrow> lower_c (take n s) = lower_c (take n t)" for n
    by (rule strncasecmp_eq0_take [OF assms])
  then have "strnicmp (min (length s) (length t)) s t = 0 \<longleftrightarrow>
      lower_c (take (min (length s) (length t)) s) = lower_c (take (min (length s) (length t)) t)"
    by (simp only: strnicmp_eq0)
  moreover have "lower_c s = lower_c t \<Longrightarrow> length s = length t" by (rule lower_c_eq_length)
  ultimately show ?thesis
    using False by (cases "length s = length t") (simp_all add: pj_stricmp_def Let_def, auto)
qed

lemma pj_stricmp_refl [simp]: "pj_stricmp s s = 0"
proof -
  have "strnicmp n s s = 0" for n
  proof (induction n arbitrary: s)
    case (Suc n)
    then show ?case by (simp only: strnicmp.simps Let_def) simp
  qed simp
  then show ?thesis by (simp add: pj_stricmp_def Let_def)
qed

section \<open>Lemmas on spans and tokens\<close>

lemma count_list_distinct: "distinct S \<Longrightarrow> count_list S c = (if c \<in> set S then 1 else 0)"
  by (induction S) (auto simp: count_list_0_iff)

lemma strspn_loop_distinct:
  "distinct S \<Longrightarrow> strspn_loop S i i s = i + length (takeWhile (\<lambda>c. c \<in> set S) s)"
proof (induction s arbitrary: i)
  case (Cons c s)
  show ?case
  proof (cases "c \<in> set S")
    case True
    then have "count_list S c = 1" using Cons.prems by (simp add: count_list_distinct)
    with Cons True show ?thesis by simp
  next
    case False
    then have "count_list S c = 0" by (simp add: count_list_0_iff)
    with Cons.prems False show ?thesis by (cases s) auto
  qed
qed simp

lemma pj_strspn_distinct: "distinct S \<Longrightarrow> pj_strspn s S = length (takeWhile (\<lambda>c. c \<in> set S) s)"
  by (simp add: pj_strspn_def strspn_loop_distinct)

lemma pj_strcspn_eq: "pj_strcspn s S = length (takeWhile (\<lambda>c. c \<notin> set S) s)"
  by (induction s) auto

section \<open>Lemmas on numbers\<close>

lemma isdigit_schar: "isdigit_c c \<Longrightarrow> schar c - 48 = digit_val c \<and> 0 \<le> digit_val c \<and> digit_val c < 10"
  by (auto simp: isdigit_c_def schar_def digit_val_def code_c_def Let_def)

lemma digits_val_shift: "digits_val acc s mod m = digits_val (acc mod m) s mod m"
proof (induction s arbitrary: acc)
  case (Cons c s)
  have "(10 * acc + digit_val c) mod m = (10 * (acc mod m) + digit_val c) mod m"
    by (metis mod_add_left_eq mod_mult_right_eq)
  then show ?case
    using Cons.IH [of "10 * acc + digit_val c"] Cons.IH [of "10 * (acc mod m) + digit_val c"] by simp
qed simp

lemma uint_mod_64 [simp]: "uint (w :: ulong) mod 18446744073709551616 = uint w"
  using uint_bounded [of w] by simp

lemma strtoul_loop_eq: "uint (strtoul_loop w s) = digits_val (uint w) s mod 2 ^ 64"
proof (induction s arbitrary: w)
  case (Cons c s)
  show ?case
  proof (cases "isdigit_c c")
    case True
    have "uint (w * 10 + word_of_int (schar c - 48) :: ulong) = (10 * uint w + digit_val c) mod 2 ^ 64"
      using isdigit_schar [OF True]
      by (simp add: uint_word_ariths uint_word_of_int mod_simps mult.commute)
    then show ?thesis using Cons [of "w * 10 + word_of_int (schar c - 48)"] True
        digits_val_shift [of "10 * uint w + digit_val c" s "2 ^ 64"] by simp
  qed simp
qed simp

lemma digits_val_ge: "0 \<le> acc \<Longrightarrow> acc \<le> digits_val acc s"
proof (induction s arbitrary: acc)
  case (Cons c s)
  show ?case
  proof (cases "isdigit_c c")
    case True
    then have "acc \<le> 10 * acc + digit_val c" "0 \<le> 10 * acc + digit_val c"
      using isdigit_schar [OF True] Cons.prems by auto
    with True Cons.IH [of "10 * acc + digit_val c"] show ?thesis by simp
  qed simp
qed simp

lemma strtoul3_digit_10: "strtoul3_digit 10 c = (if isdigit_c c then Some (nat (digit_val c)) else None)"
  by (auto simp: strtoul3_digit_def isdigit_c_def schar_def digit_val_def code_c_def Let_def nat_diff_distrib)

lemma strtoul3_loop_10:
  assumes "value \<le> ULONG_MAX"
  shows "strtoul3_loop 10 value s =
           (if digits_val (int value) s \<le> int ULONG_MAX
            then (PJ_SUCCESS, nat (digits_val (int value) s)) else (PJ_ETOOBIG, ULONG_MAX))"
  using assms
proof (induction s arbitrary: "value")
  case (Cons c s)
  show ?case
  proof (cases "isdigit_c c")
    case False
    with Cons.prems show ?thesis by (simp add: strtoul3_digit_10)
  next
    case True
    define d where "d = nat (digit_val c)"
    have d: "digit_val c = int d" using isdigit_schar [OF True] by (simp add: d_def)
    show ?thesis
    proof (cases "value * 10 + d \<le> ULONG_MAX")
      case fits: True
      then have "\<not> value > ULONG_MAX div 10" "\<not> ULONG_MAX - value * 10 < d" by auto
      with True d Cons.IH [OF fits] show ?thesis by (simp add: strtoul3_digit_10 d_def mult.commute)
    next
      case False
      then have "int ULONG_MAX < 10 * int value + digit_val c" using d by simp
      also have "\<dots> \<le> digits_val (10 * int value + digit_val c) s" using d by (intro digits_val_ge) simp
      finally have "\<not> digits_val (10 * int value + digit_val c) s \<le> int ULONG_MAX" by simp
      moreover have "value > ULONG_MAX div 10 \<or> ULONG_MAX - value * 10 < d" using False by auto
      ultimately show ?thesis using True by (auto simp: strtoul3_digit_10 d_def)
    qed
  qed
qed simp

lemma utoa_digits_show: "rev (utoa_digits n) = show_nat n"
proof (induction n rule: show_nat.induct)
  case (1 n)
  show ?case
  proof (cases "n < 10")
    case True
    then show ?thesis by (simp add: utoa_digits.simps [of n] show_nat.simps [of n])
  next
    case False
    then have "0 < n div 10" by simp
    with False 1 show ?thesis by (simp add: utoa_digits.simps [of n] show_nat.simps [of n])
  qed
qed

lemma pj_utoa_show [simp]: "pj_utoa n = show_nat n"
  by (simp add: pj_utoa_def pj_utoa_pad_def utoa_digits_show)

section \<open>Lemmas on escaping\<close>

lemma hex_digit_props:
  assumes "n < 16"
  shows "isxdigit_c (hex_digit n) \<and> pj_hex_digit_to_val (hex_digit n) = n"
proof -
  have "\<forall>n\<in>set [0..<16]. isxdigit_c (hex_digit n) \<and> pj_hex_digit_to_val (hex_digit n) = n" by code_simp
  then show ?thesis using assms by simp
qed

lemma unescape_plain: "c \<noteq> CHR ''%'' \<Longrightarrow> unescape hex (c # t) = c # unescape hex t"
proof (cases t)
  case (Cons h u)
  moreover assume "c \<noteq> CHR ''%''"
  ultimately show ?thesis by (cases u) auto
qed simp

lemma unescape_no_percent: "CHR ''%'' \<notin> set t \<Longrightarrow> unescape hex t = t"
  by (induction t) (auto simp: unescape_plain)

lemma unescape_hex:
  assumes "\<And>n. n < 16 \<Longrightarrow> hex (hex_digit n)"
  shows "unescape hex (CHR ''%'' # pj_val_to_hex_digit (code_c c) @ t) = c # unescape hex t"
proof -
  have "code_c c < 256" by (simp add: code_c_def)
  then have a: "code_c c mod 256 div 16 < 16" "code_c c mod 16 < 16"
      "code_c c mod 256 div 16 * 16 + code_c c mod 16 = code_c c" by auto
  have "char_of (code_c c) = c" by (simp add: code_c_def)
  with a show ?thesis
    using assms [OF a(1)] assms [OF a(2)] hex_digit_props [OF a(1)] hex_digit_props [OF a(2)]
    by (simp add: pj_val_to_hex_digit_def)
qed

lemma escape_loop_unescape:
  assumes "\<And>n. n < 16 \<Longrightarrow> hex (hex_digit n)" and "\<not> unres CHR ''%''"
  shows "escape_loop unres room s = Some t \<Longrightarrow> unescape hex t = s"
proof (induction s arbitrary: room t)
  case (Cons c s)
  have h: "unescape hex (CHR ''%'' # pj_val_to_hex_digit (code_c c) @ t) = c # unescape hex t" for c t
    using assms(1) by (intro unescape_hex)
  show ?case
  proof (cases "unres c")
    case True
    with assms(2) have "c \<noteq> CHR ''%''" by auto
    with Cons True show ?thesis by (auto simp: unescape_plain split: if_splits)
  qed (use Cons h in \<open>auto split: if_splits\<close>)
qed simp

lemma escape_loop_length: "escape_loop unres room s = Some t \<Longrightarrow> length t \<le> room"
  by (induction unres room s arbitrary: t rule: escape_loop.induct)
     (fastforce simp: pj_val_to_hex_digit_def split: if_splits)+

lemma pj_strncpy2_escape_length: "pj_strncpy2_escape s n unres = Some t \<Longrightarrow> length t \<le> n"
  by (auto simp: pj_strncpy2_escape_def split: if_splits dest: escape_loop_length)

lemma escape_loop_all: "(\<And>c. c \<in> set s \<Longrightarrow> unres c) \<Longrightarrow> length s \<le> room \<Longrightarrow> escape_loop unres room s = Some s"
  by (induction unres room s rule: escape_loop.induct) auto

lemma pj_strncpy2_escape_all:
  "(\<And>c. c \<in> set s \<Longrightarrow> unres c) \<Longrightarrow> length s \<le> n \<Longrightarrow> pj_strncpy2_escape s n unres = Some s"
  by (simp add: pj_strncpy2_escape_def escape_loop_all)

section \<open>Properties\<close>

text \<open>
  The two decimal readers: \<open>pj_strtoul\<close> returns the value of the leading digits reduced modulo
  2 to the 64, without any sign of overflow, while \<open>pj_strtoul3\<close> returns exactly that value, or
  \<open>PJ_ETOOBIG\<close> with the largest number just when it does not fit.
\<close>

theorem decimal_readers:
  assumes d: "isdigit_c (hd (pj_strltrim s))" and ne: "pj_strltrim s \<noteq> []"
  shows "uint (pj_strtoul s) = digits_val 0 s mod 2 ^ 64 \<and>
         pj_strtoul3 s 10 =
           Inr (if digits_val 0 (pj_strltrim s) \<le> int ULONG_MAX
                then (PJ_SUCCESS, Some (nat (digits_val 0 (pj_strltrim s))))
                else (PJ_ETOOBIG, Some ULONG_MAX))"
proof (rule conjI)
  show "uint (pj_strtoul s) = digits_val 0 s mod 2 ^ 64"
    using strtoul_loop_eq [of 0 s] by (simp add: pj_strtoul_def)
  have "48 \<le> code_c (hd (pj_strltrim s)) \<and> code_c (hd (pj_strltrim s)) \<le> 57"
    using d by (simp add: isdigit_c_def code_c_def Let_def)
  then have "\<not> schar (hd (pj_strltrim s)) < 48" "\<not> int (code_c (hd (pj_strltrim s))) > 47 + 10"
    by (simp_all add: schar_def)
  then show "pj_strtoul3 s 10 =
           Inr (if digits_val 0 (pj_strltrim s) \<le> int ULONG_MAX
                then (PJ_SUCCESS, Some (nat (digits_val 0 (pj_strltrim s))))
                else (PJ_ETOOBIG, Some ULONG_MAX))"
    using ne strtoul3_loop_10 [of 0 "pj_strltrim s"] by (simp add: pj_strtoul3_def Let_def)
qed

theorem decimal_readers_witness:
  "uint (pj_strtoul ''18446744073709551617x'') = 1 \<and>
   pj_strtoul3 ''18446744073709551617x'' 10 = Inr (PJ_ETOOBIG, Some ULONG_MAX)"
proof -
  have t: "pj_strltrim ''18446744073709551617x'' = ''18446744073709551617x''" by code_simp
  have v: "digits_val 0 ''18446744073709551617x'' = 18446744073709551617" "isdigit_c CHR ''1''" by code_simp+
  show ?thesis
    using decimal_readers [of "''18446744073709551617x''"]
    unfolding t v by (simp add: v ULONG_MAX_def)
qed

text \<open>
  Escaping is undone by both unescape functions, and never writes past its limit: for a set of
  unreserved characters without the percent sign, whenever \<open>pj_strncpy2_escape\<close> succeeds.
\<close>

theorem escape_roundtrip:
  assumes "\<not> unres CHR ''%''" and "pj_strncpy2_escape s room unres = Some t"
  shows "pj_str_unescape t = s \<and> pj_strcpy_unescape t = s \<and> length t \<le> room"
proof -
  from assms(2) have l: "escape_loop unres room s = Some t"
    by (simp add: pj_strncpy2_escape_def split: if_splits)
  have "unescape isxdigit_c t = s" "unescape (\<lambda>c. True) t = s"
    using escape_loop_unescape [OF _ assms(1) l] hex_digit_props by simp_all
  moreover have "length t \<le> room" by (rule escape_loop_length [OF l])
  ultimately show ?thesis
    by (auto simp: pj_str_unescape_def pj_strcpy_unescape_def unescape_no_percent)
qed

theorem escape_roundtrip_witness:
  "pj_strncpy2_escape ''a b'' 10 isdigit_c = Some ''%61%20%62'' \<and> pj_str_unescape ''%61%20%62'' = ''a b''"
proof -
  have e: "pj_strncpy2_escape ''a b'' 10 isdigit_c = Some ''%61%20%62''" by code_simp
  have "\<not> isdigit_c CHR ''%''" by code_simp
  from escape_roundtrip [OF this e] e show ?thesis by simp
qed

text \<open>
  A token of \<open>pj_strtok\<close>, for a set of delimiters without repetitions: it is the maximal run
  free of delimiters that starts at the returned index, and only delimiters lie between the start
  and that index; the end of the string is returned when only delimiters are left.
\<close>

theorem strtok_token:
  assumes "distinct delim" and "start_idx \<le> length str" and "pj_strtok str delim start_idx = (i, tok)"
  shows "start_idx \<le> i \<and> i \<le> length str \<and> set (take (i - start_idx) (drop start_idx str)) \<subseteq> set delim \<and>
         (i < length str \<longrightarrow>
            tok \<noteq> [] \<and> set tok \<inter> set delim = {} \<and> take (length tok) (drop i str) = tok \<and>
            (i + length tok < length str \<longrightarrow> str ! (i + length tok) \<in> set delim))"
proof (cases "str = []")
  case True
  with assms show ?thesis by (simp add: pj_strtok_def)
next
  case False
  let ?r = "drop start_idx str"
  define d where "d = takeWhile (\<lambda>c. c \<in> set delim) ?r"
  define e where "e = dropWhile (\<lambda>c. c \<in> set delim) ?r"
  have r: "?r = d @ e" by (simp add: d_def e_def)
  have len: "length str = start_idx + length d + length e"
    using arg_cong [OF r, of length] assms(2) by simp
  have dset: "set d \<subseteq> set delim" by (auto simp: d_def dest: set_takeWhileD)
  have span: "pj_strspn ?r delim = length d" by (simp add: pj_strspn_distinct [OF assms(1)] d_def)
  have e: "drop (start_idx + length d) str = e" by (metis r drop_drop add.commute append_eq_conv_conj)
  have d_e: "drop (length d) ?r = e" using r by simp
  have "\<not> (length str = 0 \<or> length str < start_idx)" using False assms(2) by simp
  then have tok: "(i, tok) = (if start_idx + length d = length str then (length str, ?r)
                           else (start_idx + length d, take (pj_strcspn e delim) e))"
    using assms(3) by (simp only: pj_strtok_def Let_def span d_e if_False)
  show ?thesis
  proof (cases e)
    case Nil
    then have "i = length str" using tok len by simp
    then show ?thesis using dset r Nil assms(2) set_take_subset [of "length str - start_idx" d] by auto
  next
    case (Cons c cs)
    then have it: "i = start_idx + length d" "tok = takeWhile (\<lambda>c. c \<notin> set delim) e"
      using tok len by (simp_all add: pj_strcspn_eq takeWhile_eq_take [symmetric])
    have "c \<notin> set delim" using Cons hd_dropWhile [of "\<lambda>c. c \<in> set delim" ?r] by (simp add: e_def)
    then have ne: "tok \<noteq> []" by (simp add: it(2) Cons)
    have pre: "take (length tok) e = tok" unfolding it(2) by (simp add: takeWhile_eq_take [symmetric])
    have next_c: "str ! (i + length tok) \<in> set delim" if "i + length tok < length str"
    proof -
      have "length tok < length e" using that it(1) len by simp
      then have "e ! length tok \<in> set delim" unfolding it(2) using nth_length_takeWhile by fastforce
      moreover have "e ! length tok = str ! (i + length tok)" using it(1) e that by (metis nth_drop len le_add1 add.assoc)
      ultimately show ?thesis by simp
    qed
    have "set tok \<inter> set delim = {}" unfolding it(2) by (auto dest: set_takeWhileD)
    then show ?thesis using it(1) len dset r ne e pre next_c by simp
  qed
qed

theorem strtok_token_witness:
  "pj_strtok ''a, bc,d'' '', '' 1 = (3, ''bc'') \<and> set ''bc'' \<inter> set '', '' = {}"
proof -
  have t: "pj_strtok ''a, bc,d'' '', '' 1 = (3, ''bc'')" by code_simp
  have "distinct '', ''" "(1::nat) \<le> length ''a, bc,d''" by simp_all
  from strtok_token [OF this t] t show ?thesis by simp
qed

end
