(* ===== verification/Printer.thy ===== *)
theory Printer
  imports PjString
begin

text \<open>
  Printing into a caller's buffer, as the print functions of pjsip do it (\<open>pjsip/print_util.h\<close>):
  \<open>cap\<close> is the size of the buffer, the other argument what has been written to it from its start.
  A printer returns \<open>Inr None\<close> for -1, \<open>Inr (Some out)\<close> for success, and \<open>Inl OutOfBounds\<close> when it
  writes outside the buffer.
\<close>

type_synonym printer = "nat \<Rightarrow> string \<Rightarrow> string option res"

definition room :: "nat \<Rightarrow> string \<Rightarrow> nat" where
  "room cap out = cap - length out"

definition pr_skip :: printer where
  "pr_skip cap out = Inr (Some out)"

definition pr_fail :: printer where
  "pr_fail cap out = Inr None"

definition pr_then :: "printer \<Rightarrow> printer \<Rightarrow> printer" where
  "pr_then p q cap out =
     bind_res (p cap out) (\<lambda>r. case r of None \<Rightarrow> Inr None | Some out' \<Rightarrow> q cap out')"

fun pr_all :: "printer list \<Rightarrow> printer" where
  "pr_all [] = pr_skip"
| "pr_all (p # ps) = pr_then p (pr_all ps)"

definition pr_when :: "bool \<Rightarrow> printer \<Rightarrow> printer" where
  "pr_when c p = (if c then p else pr_skip)"

text \<open>\<open>if (endbuf - buf < n) return -1\<close>\<close>

definition pr_room :: "nat \<Rightarrow> printer" where
  "pr_room n cap out = Inr (if room cap out < n then None else Some out)"

text \<open>\<open>pj_memcpy\<close> or \<open>*buf++ = c\<close> without a check.\<close>

definition pr_raw :: "string \<Rightarrow> printer" where
  "pr_raw s cap out = (if room cap out < length s then Inl OutOfBounds else Inr (Some (out @ s)))"

text \<open>\<open>*buf = '\0'\<close>\<close>

definition pr_nul :: printer where
  "pr_nul cap out = (if room cap out = 0 then Inl OutOfBounds else Inr (Some out))"

text \<open>\<open>buf += pj_utoa(v, buf)\<close>, which also writes a NUL behind the digits.\<close>

definition pr_utoa :: "nat \<Rightarrow> printer" where
  "pr_utoa v cap out =
     (if room cap out < length (pj_utoa v) + 1 then Inl OutOfBounds else Inr (Some (out @ pj_utoa v)))"

text \<open>The conversion of an \<open>int\<close> to the \<open>unsigned long\<close> argument of \<open>pj_utoa\<close>.\<close>

definition ulong_of :: "int \<Rightarrow> nat" where
  "ulong_of v = nat (v mod 2 ^ 64)"

text \<open>The macros of \<open>print_util.h\<close>.\<close>

definition copy_advance_char_check :: "char \<Rightarrow> printer" where
  "copy_advance_char_check c cap out = Inr (if 1 \<ge> room cap out then None else Some (out @ [c]))"

definition copy_advance_check :: "string \<Rightarrow> printer" where
  "copy_advance_check s cap out = Inr (if length s \<ge> room cap out then None else Some (out @ s))"

definition copy_advance_pair :: "string \<Rightarrow> string \<Rightarrow> printer" where
  "copy_advance_pair s1 s2 cap out =
     Inr (if s2 = [] then Some out
          else if length s1 + length s2 \<ge> room cap out then None else Some (out @ s1 @ s2))"

definition copy_advance_pair_quote :: "string \<Rightarrow> string \<Rightarrow> char \<Rightarrow> char \<Rightarrow> printer" where
  "copy_advance_pair_quote s1 s2 quotebegin quoteend cap out =
     Inr (if length s1 + length s2 + 2 \<ge> room cap out then None
          else Some (out @ s1 @ quotebegin # s2 @ [quoteend]))"

definition copy_advance_pair_quote_cond :: "string \<Rightarrow> string \<Rightarrow> char \<Rightarrow> char \<Rightarrow> printer" where
  "copy_advance_pair_quote_cond s1 s2 quotebegin quoteend =
     (if s2 \<noteq> [] \<and> hd s2 \<noteq> quotebegin then copy_advance_pair_quote s1 s2 quotebegin quoteend
      else copy_advance_pair s1 s2)"

definition copy_advance_pair_quote_cond_always :: "string \<Rightarrow> string \<Rightarrow> char \<Rightarrow> char \<Rightarrow> printer" where
  "copy_advance_pair_quote_cond_always s1 s2 quotebegin quoteend =
     (if s2 = [] then copy_advance_pair_quote s1 s2 quotebegin quoteend
      else copy_advance_pair_quote_cond s1 s2 quotebegin quoteend)"

definition copy_advance_escape :: "(char \<Rightarrow> bool) \<Rightarrow> string \<Rightarrow> printer" where
  "copy_advance_escape unres s cap out =
     Inr (map_option (\<lambda>t. out @ t) (pj_strncpy2_escape s (room cap out) unres))"

definition copy_advance_pair_escape :: "string \<Rightarrow> string \<Rightarrow> (char \<Rightarrow> bool) \<Rightarrow> printer" where
  "copy_advance_pair_escape s1 s2 unres cap out =
     Inr (if s2 = [] then Some out
          else if length s1 + length s2 \<ge> room cap out then None
          else map_option (\<lambda>t. out @ s1 @ t) (pj_strncpy2_escape s2 (room cap out - length s1) unres))"

section \<open>What a printer prints\<close>

text \<open>
  \<open>prints p t k\<close>: a success of \<open>p\<close> appends \<open>t\<close>, and in a buffer with room for \<open>t\<close> and \<open>k\<close> more
  bytes \<open>p\<close> succeeds; \<open>k\<close> is what the checks of the code ask for in excess.
\<close>

definition prints :: "printer \<Rightarrow> string \<Rightarrow> nat \<Rightarrow> bool" where
  "prints p t k \<longleftrightarrow>
     (\<forall>cap out out'. p cap out = Inr (Some out') \<longrightarrow> out' = out @ t) \<and>
     (\<forall>cap out. length out + length t + k \<le> cap \<longrightarrow> p cap out = Inr (Some (out @ t)))"

lemma printsI:
  assumes "\<And>cap out out'. p cap out = Inr (Some out') \<Longrightarrow> out' = out @ t"
    and "\<And>cap out. length out + length t + k \<le> cap \<Longrightarrow> p cap out = Inr (Some (out @ t))"
  shows "prints p t k"
  using assms by (simp add: prints_def)

lemma prints_out: "prints p t k \<Longrightarrow> p cap out = Inr (Some out') \<Longrightarrow> out' = out @ t"
  by (simp add: prints_def)

lemma prints_fits: "prints p t k \<Longrightarrow> length out + length t + k \<le> cap \<Longrightarrow> p cap out = Inr (Some (out @ t))"
  by (simp add: prints_def)

lemma prints_mono: "prints p t k \<Longrightarrow> k \<le> k' \<Longrightarrow> prints p t k'"
  by (auto simp: prints_def)

lemma prints_skip: "prints pr_skip [] 0"
  by (simp add: prints_def pr_skip_def)

lemma prints_then:
  assumes "prints p t k" and "prints q u k"
  shows "prints (pr_then p q) (t @ u) k"
proof (rule printsI)
  fix cap out out'
  assume "pr_then p q cap out = Inr (Some out')"
  then obtain o1 where "p cap out = Inr (Some o1)" "q cap o1 = Inr (Some out')"
    by (auto simp: pr_then_def bind_res_Inr_iff split: option.splits)
  with assms show "out' = out @ t @ u" by (metis prints_out append.assoc)
next
  fix cap and out :: string
  assume "length out + length (t @ u) + k \<le> cap"
  with prints_fits [OF assms(1), of out cap] prints_fits [OF assms(2), of "out @ t" cap]
  show "pr_then p q cap out = Inr (Some (out @ t @ u))" by (simp add: pr_then_def)
qed

lemma prints_all: "list_all2 (\<lambda>p t. prints p t k) ps ts \<Longrightarrow> prints (pr_all ps) (concat ts) k"
proof (induction ps arbitrary: ts)
  case Nil
  then show ?case using prints_mono [OF prints_skip, of k] by simp
next
  case (Cons p ps)
  then obtain t ts' where "ts = t # ts'" "prints p t k" "list_all2 (\<lambda>p t. prints p t k) ps ts'"
    by (auto simp: list_all2_Cons1)
  with Cons.IH show ?case by (simp add: prints_then)
qed

lemma prints_when: "(c \<Longrightarrow> prints p t k) \<Longrightarrow> prints (pr_when c p) (if c then t else []) k"
  using prints_mono [OF prints_skip, of k] by (simp add: pr_when_def)

lemma prints_room: "n \<le> k \<Longrightarrow> prints (pr_room n) [] k"
  by (auto simp: prints_def pr_room_def room_def)

lemma prints_raw: "prints (pr_raw s) s 0"
  by (auto simp: prints_def pr_raw_def room_def split: if_splits)

lemma prints_nul: "prints pr_nul [] 1"
  by (auto simp: prints_def pr_nul_def room_def split: if_splits)

lemma prints_utoa: "prints (pr_utoa v) (show_nat v) 1"
  by (auto simp: prints_def pr_utoa_def room_def split: if_splits)

lemma prints_char: "prints (copy_advance_char_check c) [c] 1"
  by (auto simp: prints_def copy_advance_char_check_def room_def split: if_splits)

lemma prints_str: "prints (copy_advance_check s) s 1"
  by (auto simp: prints_def copy_advance_check_def room_def split: if_splits)

lemma prints_pair: "prints (copy_advance_pair s1 s2) (if s2 = [] then [] else s1 @ s2) 1"
  by (auto simp: prints_def copy_advance_pair_def room_def split: if_splits)

lemma prints_pair_quote: "prints (copy_advance_pair_quote s1 s2 b e) (s1 @ b # s2 @ [e]) 1"
  by (auto simp: prints_def copy_advance_pair_quote_def room_def split: if_splits)

definition quoted :: "char \<Rightarrow> char \<Rightarrow> string \<Rightarrow> string" where
  "quoted b e s = (if hd s \<noteq> b then b # s @ [e] else s)"

lemma prints_pair_quote_cond:
  "prints (copy_advance_pair_quote_cond s1 s2 b e) (if s2 = [] then [] else s1 @ quoted b e s2) 1"
  using prints_pair_quote [of s1 s2 b e] prints_pair [of s1 s2]
  by (auto simp: copy_advance_pair_quote_cond_def quoted_def)

text \<open>The escaped text, when there is room for all of it.\<close>

fun escape :: "(char \<Rightarrow> bool) \<Rightarrow> string \<Rightarrow> string" where
  "escape unres [] = []"
| "escape unres (c # s) =
     (if unres c then c # escape unres s else CHR ''%'' # pj_val_to_hex_digit (code_c c) @ escape unres s)"

lemma length_hex_digit [simp]: "length (pj_val_to_hex_digit v) = 2"
  by (simp add: pj_val_to_hex_digit_def)

lemma length_escape: "length s \<le> length (escape unres s)"
  by (induction s) auto

lemma escape_loop_escape: "escape_loop unres r s = (if length (escape unres s) \<le> r then Some (escape unres s) else None)"
  by (induction unres r s rule: escape_loop.induct) auto

lemma pj_strncpy2_escape_eq:
  "pj_strncpy2_escape s r unres = (if length (escape unres s) \<le> r then Some (escape unres s) else None)"
  using length_escape [of s unres] by (auto simp: pj_strncpy2_escape_def escape_loop_escape)

lemma escape_id: "(\<And>c. c \<in> set s \<Longrightarrow> unres c) \<Longrightarrow> escape unres s = s"
  by (induction s) auto

lemma prints_escape: "prints (copy_advance_escape unres s) (escape unres s) 0"
  by (auto simp: prints_def copy_advance_escape_def pj_strncpy2_escape_eq room_def split: if_splits)

lemma prints_pair_escape:
  "prints (copy_advance_pair_escape s1 s2 unres) (if s2 = [] then [] else s1 @ escape unres s2) 1"
  using length_escape [of s2 unres]
  by (auto simp: prints_def copy_advance_pair_escape_def pj_strncpy2_escape_eq room_def split: if_splits)

lemmas prints_basic = prints_mono [OF prints_skip] prints_room prints_mono [OF prints_raw]
  prints_mono [OF prints_nul] prints_mono [OF prints_utoa] prints_mono [OF prints_char]
  prints_mono [OF prints_str] prints_mono [OF prints_pair] prints_mono [OF prints_pair_quote]
  prints_mono [OF prints_pair_quote_cond] prints_mono [OF prints_escape] prints_mono [OF prints_pair_escape]

section \<open>Printers that stay inside the buffer\<close>

text \<open>
  \<open>stays p\<close>: started inside the buffer, \<open>p\<close> does not write outside it and ends inside it.
  \<open>stays_if g p\<close>: this holds when \<open>g\<close> bytes are left at the start.
\<close>

definition stays_if :: "nat \<Rightarrow> printer \<Rightarrow> bool" where
  "stays_if g p \<longleftrightarrow>
     (\<forall>cap out. length out + g \<le> cap \<longrightarrow>
        (case p cap out of Inl e \<Rightarrow> False | Inr None \<Rightarrow> True | Inr (Some out') \<Rightarrow> length out' \<le> cap))"

lemma stays_basic:
  "stays_if 0 pr_skip" "stays_if 0 (pr_room n)" "stays_if 0 (copy_advance_char_check c)"
  "stays_if 0 (copy_advance_check s)" "stays_if 0 (copy_advance_pair s1 s2)"
  "stays_if 0 (copy_advance_pair_quote s1 s2 b e)" "stays_if 0 (copy_advance_pair_quote_cond s1 s2 b e)"
  "stays_if (length s) (pr_raw s)" "stays_if 1 pr_nul" "stays_if (Suc (length (show_nat v))) (pr_utoa v)"
  by (auto simp: stays_if_def pr_skip_def pr_room_def copy_advance_char_check_def copy_advance_check_def
      copy_advance_pair_def copy_advance_pair_quote_def copy_advance_pair_quote_cond_def pr_raw_def pr_nul_def
      pr_utoa_def room_def)

lemma stays_escape: "stays_if 0 (copy_advance_escape unres s)" "stays_if 0 (copy_advance_pair_escape s1 s unres)"
  by (auto simp: stays_if_def copy_advance_escape_def copy_advance_pair_escape_def pj_strncpy2_escape_eq room_def)

lemma stays_then:
  assumes "stays_if g p" and "stays_if 0 q"
  shows "stays_if g (pr_then p q)"
  unfolding stays_if_def
proof (intro allI impI)
  fix cap and out :: string
  assume o: "length out + g \<le> cap"
  note p = assms(1) [unfolded stays_if_def, rule_format, OF o]
  show "case pr_then p q cap out of Inl e \<Rightarrow> False | Inr None \<Rightarrow> True | Inr (Some out') \<Rightarrow> length out' \<le> cap"
  proof (cases "p cap out")
    case (Inl e)
    with p show ?thesis by simp
  next
    case (Inr r)
    show ?thesis
    proof (cases r)
      case None
      with Inr show ?thesis by (simp add: pr_then_def)
    next
      case (Some o')
      with p Inr have "length o' \<le> cap" by simp
      with assms(2) Inr Some show ?thesis by (simp add: stays_if_def pr_then_def)
    qed
  qed
qed

end
