(* ===== verification/SipUri.thy ===== *)
theory SipUri
  imports Printer
begin

text \<open>
  SIP URIs, name-addr and other URIs with their parameters (\<open>3rd/src/pjsip/sip_uri.c\<close>), and the
  character sets of the SIP parser they are printed with (\<open>init_parser\<close> in
  \<open>3rd/src/pjsip/sip_parser.c\<close>). A list of parameters is the list of its names and values.
\<close>

section \<open>Character sets\<close>

definition isalnum_c :: "char \<Rightarrow> bool" where
  "isalnum_c c \<longleftrightarrow> (let n = code_c c in isdigit_c c \<or> (65 \<le> n \<and> n \<le> 90) \<or> (97 \<le> n \<and> n \<le> 122))"

definition cis :: "string \<Rightarrow> char \<Rightarrow> bool" where
  "cis s c \<longleftrightarrow> isalnum_c c \<or> c \<in> set s"

definition TOKEN_SPEC :: "char \<Rightarrow> bool" where
  "TOKEN_SPEC = cis (''-.!%*_`'' @ [CHR 0x27] @ ''~+'')"

definition MARK :: string where
  "MARK = ''-_.!~*'' @ [CHR 0x27] @ ''()''"

definition PARAM_CHAR_SPEC :: "char \<Rightarrow> bool" where
  "PARAM_CHAR_SPEC = cis (''[]/:&+$'' @ MARK @ ''%'')"

definition HDR_CHAR_SPEC :: "char \<Rightarrow> bool" where
  "HDR_CHAR_SPEC = cis (''[]/?:+$'' @ MARK @ ''%'')"

definition USER_SPEC :: "char \<Rightarrow> bool" where
  "USER_SPEC = cis (MARK @ ''%'' @ ''&=+$,;?/'')"

definition USER_SPEC_LENIENT :: "char \<Rightarrow> bool" where
  "USER_SPEC_LENIENT c \<longleftrightarrow> USER_SPEC c \<or> c = CHR ''#''"

definition PASSWD_SPEC :: "char \<Rightarrow> bool" where
  "PASSWD_SPEC = cis (MARK @ ''%'' @ ''&=+$,'')"

text \<open>The settings the printers read: \<open>pjsip_cfg()->endpt\<close> and \<open>pjsip_use_compact_form\<close>.\<close>

record sip_cfg =
  allow_port_in_fromto_hdr :: bool
  allow_tx_hash_in_uri :: bool
  use_compact_form :: bool

definition default_cfg :: sip_cfg where
  "default_cfg = \<lparr>allow_port_in_fromto_hdr = False, allow_tx_hash_in_uri = False, use_compact_form = False\<rparr>"

section \<open>Parameters\<close>

type_synonym pjsip_param = "string \<times> string"

fun pjsip_param_find :: "pjsip_param list \<Rightarrow> string \<Rightarrow> pjsip_param option" where
  "pjsip_param_find [] name = None"
| "pjsip_param_find (p # ps) name =
     (if pj_stricmp (fst p) name = 0 then Some p else pjsip_param_find ps name)"

fun param_cmp_loop :: "pjsip_param list \<Rightarrow> pjsip_param list \<Rightarrow> bool \<Rightarrow> int" where
  "param_cmp_loop [] param_list2 ig_nf = 0"
| "param_cmp_loop (p1 # ps) param_list2 ig_nf =
     (case pjsip_param_find param_list2 (fst p1) of
        Some p2 \<Rightarrow> let rc = pj_stricmp (snd p1) (snd p2)
                   in if rc \<noteq> 0 then rc else param_cmp_loop ps param_list2 ig_nf
      | None \<Rightarrow> if \<not> ig_nf then 1 else param_cmp_loop ps param_list2 ig_nf)"

definition pjsip_param_cmp :: "pjsip_param list \<Rightarrow> pjsip_param list \<Rightarrow> bool \<Rightarrow> int" where
  "pjsip_param_cmp param_list1 param_list2 ig_nf =
     (if \<not> ig_nf \<and> length param_list1 \<noteq> length param_list2 then 1
      else param_cmp_loop param_list1 param_list2 ig_nf)"

fun pjsip_param_clone :: "pjsip_param list \<Rightarrow> pjsip_param list \<Rightarrow> pjsip_param list" where
  "pjsip_param_clone dst [] = dst"
| "pjsip_param_clone dst (p # ps) = pjsip_param_clone (dst @ [(fst p, snd p)]) ps"

fun pjsip_param_print_on :: "(char \<Rightarrow> bool) \<Rightarrow> (char \<Rightarrow> bool) \<Rightarrow> char \<Rightarrow> pjsip_param list \<Rightarrow> printer" where
  "pjsip_param_print_on pname_spec pvalue_spec sep [] = pr_skip"
| "pjsip_param_print_on pname_spec pvalue_spec sep (p # ps) =
     pr_all [
       copy_advance_char_check sep,
       copy_advance_escape pname_spec (fst p),
       pr_when (snd p \<noteq> []) (pr_all [
         copy_advance_char_check (CHR ''=''),
         (if hd (snd p) = CHR 0x22 then copy_advance_check (snd p) else copy_advance_escape pvalue_spec (snd p))]),
       pjsip_param_print_on pname_spec pvalue_spec (if sep = CHR ''?'' then CHR ''&'' else sep) ps]"

section \<open>URIs\<close>

record sip_uri =
  secure :: bool
  user :: string
  passwd :: string
  host :: string
  port :: int
  user_param :: string
  method_param :: string
  transport_param :: string
  ttl_param :: int
  lr_param :: int
  maddr_param :: string
  other_param :: "pjsip_param list"
  header_param :: "pjsip_param list"

text \<open>A \<open>pjsip_uri*\<close> by its vptr; the pointer in a name-addr may be null.\<close>

datatype pj_uri =
    UriSip sip_uri
  | UriOther string string
  | UriNameAddr string "pj_uri option"

datatype uri_context = IN_REQ_URI | IN_FROMTO_HDR | IN_CONTACT_HDR | IN_ROUTING_HDR | IN_OTHER

definition pjsip_sip_uri_create :: "bool \<Rightarrow> sip_uri" where
  "pjsip_sip_uri_create sec =
     \<lparr>secure = sec, user = [], passwd = [], host = [], port = 0, user_param = [], method_param = [],
      transport_param = [], ttl_param = -1, lr_param = 0, maddr_param = [], other_param = [], header_param = []\<rparr>"

definition pjsip_sip_uri_set_secure :: "bool \<Rightarrow> sip_uri \<Rightarrow> sip_uri" where
  "pjsip_sip_uri_set_secure sec url = url\<lparr>secure := sec\<rparr>"

fun pjsip_uri_get_scheme :: "pj_uri \<Rightarrow> string res" where
  "pjsip_uri_get_scheme (UriSip u) = Inr (if secure u then ''sips'' else ''sip'')"
| "pjsip_uri_get_scheme (UriOther scheme content) = Inr scheme"
| "pjsip_uri_get_scheme (UriNameAddr display None) = Inl AssertFail"
| "pjsip_uri_get_scheme (UriNameAddr display (Some u)) = pjsip_uri_get_scheme u"

fun pjsip_uri_get_uri :: "pj_uri \<Rightarrow> pj_uri res" where
  "pjsip_uri_get_uri (UriSip u) = Inr (UriSip u)"
| "pjsip_uri_get_uri (UriOther scheme content) = Inr (UriOther scheme content)"
| "pjsip_uri_get_uri (UriNameAddr display None) = Inl NullDeref"
| "pjsip_uri_get_uri (UriNameAddr display (Some u)) = pjsip_uri_get_uri u"

definition pjsip_url_print :: "sip_cfg \<Rightarrow> uri_context \<Rightarrow> sip_uri \<Rightarrow> printer" where
  "pjsip_url_print cfg context url =
     pr_all [
       pr_nul,
       copy_advance_check (if secure url then ''sips'' else ''sip''),
       copy_advance_char_check (CHR '':''),
       pr_when (user url \<noteq> []) (pr_all [
         copy_advance_escape (if allow_tx_hash_in_uri cfg then USER_SPEC_LENIENT else USER_SPEC) (user url),
         pr_when (passwd url \<noteq> []) (pr_all [
           copy_advance_char_check (CHR '':''),
           copy_advance_escape PASSWD_SPEC (passwd url)]),
         copy_advance_char_check (CHR ''@'')]),
       (if host url = [] then (\<lambda>cap out. Inl AssertFail) else pr_skip),
       (if CHR '':'' \<in> set (host url)
        then copy_advance_pair_quote_cond [] (host url) (CHR ''['') (CHR '']'')
        else copy_advance_check (host url)),
       pr_when (port url \<noteq> 0 \<and> (context \<noteq> IN_FROMTO_HDR \<or> allow_port_in_fromto_hdr cfg)) (pr_all [
         pr_room 10,
         copy_advance_char_check (CHR '':''),
         pr_utoa (ulong_of (port url))]),
       copy_advance_pair '';user='' (user_param url),
       pr_when (context = IN_OTHER)
         (copy_advance_pair_escape '';method='' (method_param url) PARAM_CHAR_SPEC),
       pr_when (context \<noteq> IN_FROMTO_HDR)
         (copy_advance_pair_escape '';transport='' (transport_param url) PARAM_CHAR_SPEC),
       pr_when (ttl_param url \<ge> 0 \<and> context \<noteq> IN_FROMTO_HDR \<and> context \<noteq> IN_ROUTING_HDR) (pr_all [
         pr_room 15,
         pr_raw '';ttl='',
         pr_utoa (ulong_of (ttl_param url))]),
       pr_when (context \<noteq> IN_FROMTO_HDR \<and> maddr_param url \<noteq> [])
         (if CHR '':'' \<in> set (maddr_param url)
          then copy_advance_pair_quote_cond '';maddr='' (maddr_param url) (CHR ''['') (CHR '']'')
          else copy_advance_pair_escape '';maddr='' (maddr_param url) PARAM_CHAR_SPEC),
       pr_when (lr_param url \<noteq> 0 \<and> context \<noteq> IN_FROMTO_HDR \<and> context \<noteq> IN_CONTACT_HDR) (pr_all [
         pr_room 3,
         copy_advance_check '';lr'']),
       pjsip_param_print_on PARAM_CHAR_SPEC PARAM_CHAR_SPEC (CHR '';'') (other_param url),
       pr_when (context = IN_CONTACT_HDR \<or> context = IN_OTHER)
         (pjsip_param_print_on HDR_CHAR_SPEC HDR_CHAR_SPEC (CHR ''?'') (header_param url)),
       pr_nul]"

definition other_uri_print :: "string \<Rightarrow> string \<Rightarrow> printer" where
  "other_uri_print scheme content =
     pr_all [
       pr_room (length scheme + length content + 1),
       copy_advance_check scheme,
       pr_raw '':'',
       copy_advance_check content]"

text \<open>
  \<open>pjsip_name_addr_print\<close> prints the URI itself, not a name-addr inside it, and counts what it
  printed: fewer than one byte is a failure.
\<close>

definition pr_some :: "printer \<Rightarrow> printer" where
  "pr_some p cap out =
     bind_res (p cap out) (\<lambda>r. Inr (case r of None \<Rightarrow> None
                                    | Some out' \<Rightarrow> if length out' \<le> length out then None else Some out'))"

definition pr_fault :: "fault \<Rightarrow> printer" where
  "pr_fault e cap out = Inl e"

definition base_uri_print :: "sip_cfg \<Rightarrow> uri_context \<Rightarrow> pj_uri \<Rightarrow> printer" where
  "base_uri_print cfg context u =
     (case u of
        UriSip s \<Rightarrow> pjsip_url_print cfg context s
      | UriOther scheme content \<Rightarrow> other_uri_print scheme content
      | UriNameAddr display v \<Rightarrow> pr_fail)"

definition pjsip_name_addr_print :: "sip_cfg \<Rightarrow> uri_context \<Rightarrow> string \<Rightarrow> pj_uri option \<Rightarrow> printer" where
  "pjsip_name_addr_print cfg context display u =
     (case pjsip_uri_get_uri (UriNameAddr display u) of
        Inl e \<Rightarrow> pr_fault e
      | Inr v \<Rightarrow>
          pr_all [
            pr_when (context \<noteq> IN_REQ_URI) (pr_all [
              pr_when (display \<noteq> []) (pr_all [
                pr_room (length display + 3),
                copy_advance_char_check (CHR 0x22),
                copy_advance_check display,
                copy_advance_char_check (CHR 0x22),
                copy_advance_char_check (CHR '' '')]),
              copy_advance_char_check (CHR ''<'')]),
            pr_some (base_uri_print cfg context v),
            pr_when (context \<noteq> IN_REQ_URI) (copy_advance_char_check (CHR ''>'')),
            pr_nul])"

definition pjsip_uri_print :: "sip_cfg \<Rightarrow> uri_context \<Rightarrow> pj_uri \<Rightarrow> printer" where
  "pjsip_uri_print cfg context u =
     (case u of UriNameAddr display v \<Rightarrow> pjsip_name_addr_print cfg context display v
              | _ \<Rightarrow> base_uri_print cfg context u)"

section \<open>Comparison and copies\<close>

definition PJSIP_ECMPSCHEME :: int where "PJSIP_ECMPSCHEME = 171080"
definition PJSIP_ECMPUSER :: int where "PJSIP_ECMPUSER = 171081"
definition PJSIP_ECMPPASSWD :: int where "PJSIP_ECMPPASSWD = 171082"
definition PJSIP_ECMPHOST :: int where "PJSIP_ECMPHOST = 171083"
definition PJSIP_ECMPPORT :: int where "PJSIP_ECMPPORT = 171084"
definition PJSIP_ECMPTRANSPORTPRM :: int where "PJSIP_ECMPTRANSPORTPRM = 171085"
definition PJSIP_ECMPTTLPARAM :: int where "PJSIP_ECMPTTLPARAM = 171086"
definition PJSIP_ECMPUSERPARAM :: int where "PJSIP_ECMPUSERPARAM = 171087"
definition PJSIP_ECMPMETHODPARAM :: int where "PJSIP_ECMPMETHODPARAM = 171088"
definition PJSIP_ECMPMADDRPARAM :: int where "PJSIP_ECMPMADDRPARAM = 171089"
definition PJSIP_ECMPOTHERPARAM :: int where "PJSIP_ECMPOTHERPARAM = 171090"
definition PJSIP_ECMPHEADERPARAM :: int where "PJSIP_ECMPHEADERPARAM = 171091"

lemmas ecmp_defs = PJSIP_ECMPSCHEME_def PJSIP_ECMPUSER_def PJSIP_ECMPPASSWD_def PJSIP_ECMPHOST_def
  PJSIP_ECMPPORT_def PJSIP_ECMPTRANSPORTPRM_def PJSIP_ECMPTTLPARAM_def PJSIP_ECMPUSERPARAM_def
  PJSIP_ECMPMETHODPARAM_def PJSIP_ECMPMADDRPARAM_def PJSIP_ECMPOTHERPARAM_def PJSIP_ECMPHEADERPARAM_def

fun header_param_cmp :: "pjsip_param list \<Rightarrow> pjsip_param list \<Rightarrow> int" where
  "header_param_cmp [] hs2 = PJ_SUCCESS"
| "header_param_cmp (p1 # ps) hs2 =
     (case pjsip_param_find hs2 (fst p1) of
        Some p2 \<Rightarrow> if pj_stricmp (snd p1) (snd p2) \<noteq> 0 then PJSIP_ECMPHEADERPARAM else header_param_cmp ps hs2
      | None \<Rightarrow> PJSIP_ECMPHEADERPARAM)"

definition pjsip_url_compare :: "uri_context \<Rightarrow> sip_uri \<Rightarrow> sip_uri \<Rightarrow> int" where
  "pjsip_url_compare context url1 url2 =
     (if secure url1 \<noteq> secure url2 then PJSIP_ECMPSCHEME
      else if pj_strcmp (user url1) (user url2) \<noteq> 0 then PJSIP_ECMPUSER
      else if pj_strcmp (passwd url1) (passwd url2) \<noteq> 0 then PJSIP_ECMPPASSWD
      else if pj_stricmp (host url1) (host url2) \<noteq> 0 then PJSIP_ECMPHOST
      else if context \<noteq> IN_FROMTO_HDR \<and> port url1 \<noteq> port url2 then PJSIP_ECMPPORT
      else if context \<noteq> IN_FROMTO_HDR \<and> pj_stricmp (transport_param url1) (transport_param url2) \<noteq> 0
      then PJSIP_ECMPTRANSPORTPRM
      else if context \<noteq> IN_FROMTO_HDR \<and> context \<noteq> IN_ROUTING_HDR \<and> ttl_param url1 \<noteq> ttl_param url2
      then PJSIP_ECMPTTLPARAM
      else if pj_stricmp (user_param url1) (user_param url2) \<noteq> 0 then PJSIP_ECMPUSERPARAM
      else if context = IN_OTHER \<and> pj_stricmp (method_param url1) (method_param url2) \<noteq> 0 then PJSIP_ECMPMETHODPARAM
      else if context \<noteq> IN_FROMTO_HDR \<and> pj_stricmp (maddr_param url1) (maddr_param url2) \<noteq> 0 then PJSIP_ECMPMADDRPARAM
      else if pjsip_param_cmp (other_param url1) (other_param url2) True \<noteq> 0 then PJSIP_ECMPOTHERPARAM
      else header_param_cmp (header_param url1) (header_param url2))"

definition other_uri_cmp :: "string \<times> string \<Rightarrow> string \<times> string \<Rightarrow> int" where
  "other_uri_cmp uri1 uri2 =
     (if pj_stricmp (fst uri1) (fst uri2) \<noteq> 0 then PJSIP_ECMPSCHEME
      else if pj_stricmp (snd uri1) (snd uri2) \<noteq> 0 then -1 else 0)"

text \<open>
  \<open>pjsip_uri_cmp\<close> calls the comparison of its first argument, which reads the second as its own
  kind of URI: only \<open>other_uri_cmp\<close> and \<open>pjsip_name_addr_compare\<close> look at its kind first, and
  \<open>pjsip_url_compare\<close> compares the vptr.
\<close>

fun pjsip_uri_cmp :: "uri_context \<Rightarrow> pj_uri \<Rightarrow> pj_uri \<Rightarrow> int res" where
  "pjsip_uri_cmp context (UriSip u1) (UriSip u2) = Inr (pjsip_url_compare context u1 u2)"
| "pjsip_uri_cmp context (UriSip u1) u2 = Inr PJSIP_ECMPSCHEME"
| "pjsip_uri_cmp context (UriOther s1 c1) (UriOther s2 c2) = Inr (other_uri_cmp (s1, c1) (s2, c2))"
| "pjsip_uri_cmp context (UriOther s1 c1) u2 = Inr (-1)"
| "pjsip_uri_cmp context (UriNameAddr d1 u1) (UriNameAddr d2 u2) =
     (if pj_strcmp d1 d2 \<noteq> 0 then Inr (-1)
      else case (u1, u2) of
        (Some v1, Some v2) \<Rightarrow> pjsip_uri_cmp context v1 v2
      | _ \<Rightarrow> Inl AssertFail)"
| "pjsip_uri_cmp context (UriNameAddr d1 u1) u2 = Inr (-1)"

definition pjsip_sip_uri_assign :: "sip_uri \<Rightarrow> sip_uri \<Rightarrow> sip_uri" where
  "pjsip_sip_uri_assign url rhs =
     url\<lparr>user := user rhs, passwd := passwd rhs, host := host rhs, port := port rhs,
         user_param := user_param rhs, method_param := method_param rhs, transport_param := transport_param rhs,
         ttl_param := ttl_param rhs, maddr_param := maddr_param rhs,
         other_param := pjsip_param_clone [] (other_param rhs),
         header_param := pjsip_param_clone [] (header_param rhs), lr_param := lr_param rhs\<rparr>"

definition pjsip_url_clone :: "sip_uri \<Rightarrow> sip_uri" where
  "pjsip_url_clone rhs = pjsip_sip_uri_assign (pjsip_sip_uri_create (secure rhs)) rhs"

fun pjsip_uri_clone :: "pj_uri \<Rightarrow> pj_uri res" where
  "pjsip_uri_clone (UriSip u) = Inr (UriSip (pjsip_url_clone u))"
| "pjsip_uri_clone (UriOther scheme content) = Inr (UriOther scheme content)"
| "pjsip_uri_clone (UriNameAddr display None) = Inl NullDeref"
| "pjsip_uri_clone (UriNameAddr display (Some u)) =
     bind_res (pjsip_uri_clone u) (\<lambda>v. Inr (UriNameAddr display (Some v)))"

section \<open>The text of a URI\<close>

definition opt_text :: "bool \<Rightarrow> string \<Rightarrow> string" where
  "opt_text c t = (if c then t else [])"

fun param_text :: "(char \<Rightarrow> bool) \<Rightarrow> (char \<Rightarrow> bool) \<Rightarrow> char \<Rightarrow> pjsip_param list \<Rightarrow> string" where
  "param_text ns vs sep [] = []"
| "param_text ns vs sep (p # ps) =
     [sep] @ escape ns (fst p) @
     opt_text (snd p \<noteq> []) (''='' @ (if hd (snd p) = CHR 0x22 then snd p else escape vs (snd p))) @
     param_text ns vs (if sep = CHR ''?'' then CHR ''&'' else sep) ps"

definition user_text :: "sip_cfg \<Rightarrow> sip_uri \<Rightarrow> string" where
  "user_text cfg url =
     opt_text (user url \<noteq> [])
       (escape (if allow_tx_hash_in_uri cfg then USER_SPEC_LENIENT else USER_SPEC) (user url) @
        opt_text (passwd url \<noteq> []) ('':'' @ escape PASSWD_SPEC (passwd url)) @ ''@'')"

definition host_text :: "string \<Rightarrow> string" where
  "host_text h = (if CHR '':'' \<in> set h then quoted (CHR ''['') (CHR '']'') h else h)"

definition sip_uri_text :: "sip_cfg \<Rightarrow> uri_context \<Rightarrow> sip_uri \<Rightarrow> string" where
  "sip_uri_text cfg context url =
     (if secure url then ''sips'' else ''sip'') @ '':'' @ user_text cfg url @ host_text (host url) @
     opt_text (port url \<noteq> 0 \<and> (context \<noteq> IN_FROMTO_HDR \<or> allow_port_in_fromto_hdr cfg))
       ('':'' @ show_nat (ulong_of (port url))) @
     opt_text (user_param url \<noteq> []) ('';user='' @ user_param url) @
     opt_text (context = IN_OTHER)
       (opt_text (method_param url \<noteq> []) ('';method='' @ escape PARAM_CHAR_SPEC (method_param url))) @
     opt_text (context \<noteq> IN_FROMTO_HDR)
       (opt_text (transport_param url \<noteq> []) ('';transport='' @ escape PARAM_CHAR_SPEC (transport_param url))) @
     opt_text (ttl_param url \<ge> 0 \<and> context \<noteq> IN_FROMTO_HDR \<and> context \<noteq> IN_ROUTING_HDR)
       ('';ttl='' @ show_nat (ulong_of (ttl_param url))) @
     opt_text (context \<noteq> IN_FROMTO_HDR \<and> maddr_param url \<noteq> [])
       (if CHR '':'' \<in> set (maddr_param url) then '';maddr='' @ quoted (CHR ''['') (CHR '']'') (maddr_param url)
        else '';maddr='' @ escape PARAM_CHAR_SPEC (maddr_param url)) @
     opt_text (lr_param url \<noteq> 0 \<and> context \<noteq> IN_FROMTO_HDR \<and> context \<noteq> IN_CONTACT_HDR) '';lr'' @
     param_text PARAM_CHAR_SPEC PARAM_CHAR_SPEC (CHR '';'') (other_param url) @
     opt_text (context = IN_CONTACT_HDR \<or> context = IN_OTHER)
       (param_text HDR_CHAR_SPEC HDR_CHAR_SPEC (CHR ''?'') (header_param url))"

fun base_uri_text :: "sip_cfg \<Rightarrow> uri_context \<Rightarrow> pj_uri \<Rightarrow> string" where
  "base_uri_text cfg context (UriSip u) = sip_uri_text cfg context u"
| "base_uri_text cfg context (UriOther scheme content) = scheme @ '':'' @ content"
| "base_uri_text cfg context (UriNameAddr display None) = []"
| "base_uri_text cfg context (UriNameAddr display (Some u)) = base_uri_text cfg context u"

definition uri_text :: "sip_cfg \<Rightarrow> uri_context \<Rightarrow> pj_uri \<Rightarrow> string" where
  "uri_text cfg context u =
     (case u of
        UriNameAddr display v \<Rightarrow>
          opt_text (context \<noteq> IN_REQ_URI)
            (opt_text (display \<noteq> []) ([CHR 0x22] @ display @ [CHR 0x22, CHR '' '']) @ ''<'') @
          base_uri_text cfg context u @ opt_text (context \<noteq> IN_REQ_URI) ''>''
      | _ \<Rightarrow> base_uri_text cfg context u)"

text \<open>The URIs the printers are meant for: every pointer set, every host there.\<close>

fun uri_ok :: "pj_uri \<Rightarrow> bool" where
  "uri_ok (UriSip u) \<longleftrightarrow> host u \<noteq> []"
| "uri_ok (UriOther scheme content) \<longleftrightarrow> True"
| "uri_ok (UriNameAddr display None) \<longleftrightarrow> False"
| "uri_ok (UriNameAddr display (Some u)) \<longleftrightarrow> uri_ok u"

section \<open>The printers print the text\<close>

text \<open>The rules that take a printer apart: 24 bytes in excess are what the checks ask for at most.\<close>

lemma prints_when_opt: "(c \<Longrightarrow> prints p t 24) \<Longrightarrow> prints (pr_when c p) (opt_text c t) 24"
  by (simp add: opt_text_def prints_when)

lemma prints_all_Cons: "prints p t 24 \<Longrightarrow> prints (pr_all ps) u 24 \<Longrightarrow> prints (pr_all (p # ps)) (t @ u) 24"
  by (simp add: prints_then)

lemma prints_all_last: "prints p t 24 \<Longrightarrow> prints (pr_all [p]) t 24"
  using prints_then [of p t 24 pr_skip "[]"] prints_mono [OF prints_skip, of 24] by simp

lemma prints_if:
  "(c \<Longrightarrow> prints p t k) \<Longrightarrow> (\<not> c \<Longrightarrow> prints q u k) \<Longrightarrow> prints (if c then p else q) (if c then t else u) k"
  by simp

lemma prints_leaf:
  "prints (copy_advance_char_check c) [c] 24" "prints (copy_advance_check s) s 24"
  "prints (copy_advance_escape unres s) (escape unres s) 24" "prints (pr_utoa v) (show_nat v) 24"
  "prints (pr_raw s) s 24" "prints pr_nul [] 24" "prints pr_skip [] 24"
  by (rule prints_mono, rule prints_char prints_str prints_escape prints_utoa prints_raw prints_nul prints_skip, simp)+

lemma prints_pair_opt: "prints (copy_advance_pair s1 s2) (opt_text (s2 \<noteq> []) (s1 @ s2)) 24"
  using prints_mono [OF prints_pair, of 24 s1 s2] by (cases s2) (simp_all add: opt_text_def)

lemma prints_pair_escape_opt:
  "prints (copy_advance_pair_escape s1 s2 unres) (opt_text (s2 \<noteq> []) (s1 @ escape unres s2)) 24"
  using prints_mono [OF prints_pair_escape, of 24 s1 s2 unres] by (cases s2) (simp_all add: opt_text_def)

lemma prints_pair_escape_ne:
  "s2 \<noteq> [] \<Longrightarrow> prints (copy_advance_pair_escape s1 s2 unres) (s1 @ escape unres s2) 24"
  using prints_pair_escape_opt [of s1 s2 unres] by (simp add: opt_text_def)

lemma prints_pair_quote_ne:
  "s2 \<noteq> [] \<Longrightarrow> prints (copy_advance_pair_quote_cond s1 s2 b e) (s1 @ quoted b e s2) 24"
  using prints_mono [OF prints_pair_quote_cond, of 24 s1 s2 b e] by simp

lemma prints_room_slack: "n \<le> 24 \<Longrightarrow> prints (pr_room n) [] 24"
  by (rule prints_room)

lemmas prints_rules = prints_leaf prints_pair_opt prints_pair_escape_opt prints_when_opt prints_all_Cons prints_all_last

lemma prints_all_room: "n \<le> 24 \<Longrightarrow> prints (pr_all ps) u 24 \<Longrightarrow> prints (pr_all (pr_room n # ps)) u 24"
  using prints_all_Cons [OF prints_room_slack] by simp

lemma prints_all_nul: "prints (pr_all ps) u 24 \<Longrightarrow> prints (pr_all (pr_nul # ps)) u 24"
  using prints_all_Cons [OF prints_leaf(6)] by simp

lemma prints_all_skip: "prints (pr_all ps) u 24 \<Longrightarrow> prints (pr_all (pr_skip # ps)) u 24"
  using prints_all_Cons [OF prints_leaf(7)] by simp

lemma prints_all_end: "prints p t 24 \<Longrightarrow> prints (pr_all [p, pr_nul]) t 24"
  using prints_all_Cons [OF _ prints_all_last [OF prints_leaf(6)]] by simp

lemma prints_params: "prints (pjsip_param_print_on ns vs sep ps) (param_text ns vs sep ps) 24"
proof (induction ns vs sep ps rule: pjsip_param_print_on.induct)
  case (1 ns vs sep)
  then show ?case by (simp add: prints_leaf)
next
  case (2 ns vs sep p ps)
  have v: "prints (if hd (snd p) = CHR 0x22 then copy_advance_check (snd p) else copy_advance_escape vs (snd p))
      (if hd (snd p) = CHR 0x22 then snd p else escape vs (snd p)) 24"
    by (intro prints_if prints_leaf)
  show ?case
    unfolding pjsip_param_print_on.simps param_text.simps
    by (intro prints_rules v "2.IH")
qed

lemma prints_host:
  assumes "h \<noteq> []"
  shows "prints (if CHR '':'' \<in> set h then copy_advance_pair_quote_cond [] h (CHR ''['') (CHR '']'')
        else copy_advance_check h) (host_text h) 24"
  using prints_pair_quote_ne [OF assms, of "[]"] unfolding host_text_def by (intro prints_if prints_leaf) simp

lemma prints_maddr:
  "prints (pr_when (c \<and> m \<noteq> [])
      (if CHR '':'' \<in> set m then copy_advance_pair_quote_cond '';maddr='' m (CHR ''['') (CHR '']'')
       else copy_advance_pair_escape '';maddr='' m PARAM_CHAR_SPEC))
    (opt_text (c \<and> m \<noteq> [])
      (if CHR '':'' \<in> set m then '';maddr='' @ quoted (CHR ''['') (CHR '']'') m
       else '';maddr='' @ escape PARAM_CHAR_SPEC m)) 24"
  by (intro prints_when_opt prints_if prints_pair_quote_ne prints_pair_escape_ne) simp_all

lemma prints_sip_uri:
  assumes "host url \<noteq> []"
  shows "prints (pjsip_url_print cfg context url) (sip_uri_text cfg context url) 24"
  unfolding pjsip_url_print_def sip_uri_text_def user_text_def if_not_P [OF assms]
  apply (rule prints_all_nul)
  apply (rule prints_all_Cons, rule prints_leaf)
  apply (rule prints_all_Cons, rule prints_leaf)
  apply (rule prints_all_Cons, intro prints_rules)
  apply (rule prints_all_skip)
  apply (rule prints_all_Cons, rule prints_host [OF assms])
  apply (rule prints_all_Cons, rule prints_when_opt, rule prints_all_room, simp, intro prints_rules)
  apply (rule prints_all_Cons, rule prints_pair_opt)
  apply (rule prints_all_Cons, rule prints_when_opt, rule prints_pair_escape_opt)
  apply (rule prints_all_Cons, rule prints_when_opt, rule prints_pair_escape_opt)
  apply (rule prints_all_Cons, rule prints_when_opt, rule prints_all_room, simp, intro prints_rules)
  apply (rule prints_all_Cons, rule prints_maddr)
  apply (rule prints_all_Cons, rule prints_when_opt, rule prints_all_room, simp, intro prints_rules)
  apply (rule prints_all_Cons, rule prints_params)
  apply (rule prints_all_end, rule prints_when_opt, rule prints_params)
  done

lemma prints_other_uri: "prints (other_uri_print scheme content) (scheme @ '':'' @ content) 24"
proof (rule printsI)
  fix cap and out out' :: string
  assume "other_uri_print scheme content cap out = Inr (Some out')"
  then show "out' = out @ scheme @ '':'' @ content"
    by (auto simp: other_uri_print_def pr_then_def pr_room_def copy_advance_check_def pr_raw_def pr_skip_def
        bind_res_Inr_iff split: option.splits if_splits)
qed (simp add: other_uri_print_def pr_then_def pr_room_def copy_advance_check_def pr_raw_def pr_skip_def room_def,
    arith)

lemma prints_some: "prints p t k \<Longrightarrow> t \<noteq> [] \<Longrightarrow> prints (pr_some p) t k"
  by (auto simp: prints_def pr_some_def bind_res_Inr_iff split: option.splits if_splits)

text \<open>The URI behind a chain of name-addrs.\<close>

lemma get_uri_name_addr:
  "uri_ok u \<Longrightarrow> \<exists>v. pjsip_uri_get_uri u = Inr v \<and> uri_ok v \<and> (\<forall>d w. v \<noteq> UriNameAddr d w) \<and>
     base_uri_text cfg context u = base_uri_text cfg context v"
  by (induction u rule: uri_ok.induct) auto

lemma base_uri_text_ne: "uri_ok u \<Longrightarrow> base_uri_text cfg context u \<noteq> []"
  by (induction u rule: uri_ok.induct) (auto simp: sip_uri_text_def)

lemma prints_base_uri:
  "uri_ok v \<Longrightarrow> \<forall>d w. v \<noteq> UriNameAddr d w \<Longrightarrow>
   prints (base_uri_print cfg context v) (base_uri_text cfg context v) 24"
  by (cases v) (simp_all add: base_uri_print_def prints_sip_uri prints_other_uri [simplified])

lemma prints_display:
  "prints (pr_all [pr_room (length display + 3), copy_advance_char_check (CHR 0x22), copy_advance_check display,
       copy_advance_char_check (CHR 0x22), copy_advance_char_check (CHR '' '')])
     ([CHR 0x22] @ display @ [CHR 0x22, CHR '' '']) 24"
proof (rule printsI)
  fix cap and out out' :: string
  assume "pr_all [pr_room (length display + 3), copy_advance_char_check (CHR 0x22), copy_advance_check display,
       copy_advance_char_check (CHR 0x22), copy_advance_char_check (CHR '' '')] cap out = Inr (Some out')"
  then show "out' = out @ [CHR 0x22] @ display @ [CHR 0x22, CHR '' '']"
    by (auto simp: pr_then_def pr_room_def copy_advance_check_def copy_advance_char_check_def pr_skip_def
        bind_res_Inr_iff split: option.splits if_splits)
qed (simp add: pr_then_def pr_room_def copy_advance_check_def copy_advance_char_check_def pr_skip_def room_def, arith)

lemma prints_name_addr:
  assumes ok: "uri_ok (UriNameAddr display u)"
  shows "prints (pjsip_name_addr_print cfg context display u) (uri_text cfg context (UriNameAddr display u)) 24"
proof -
  obtain v where v: "pjsip_uri_get_uri (UriNameAddr display u) = Inr v" "uri_ok v"
    "\<forall>d w. v \<noteq> UriNameAddr d w"
    "base_uri_text cfg context (UriNameAddr display u) = base_uri_text cfg context v"
    using get_uri_name_addr [OF ok] by blast
  note b = prints_some [OF prints_base_uri [OF v(2,3)] base_uri_text_ne [OF v(2)]]
  show ?thesis
    unfolding pjsip_name_addr_print_def uri_text_def v(1,4) sum.case pj_uri.case
    by (rule prints_all_Cons, rule prints_when_opt, intro prints_rules prints_display,
        rule prints_all_Cons, rule b, rule prints_all_end, intro prints_rules)
qed

lemma prints_uri:
  assumes "uri_ok u"
  shows "prints (pjsip_uri_print cfg context u) (uri_text cfg context u) 24"
proof (cases u)
  case (UriNameAddr display v)
  with assms show ?thesis using prints_name_addr by (simp add: pjsip_uri_print_def)
qed (unfold pjsip_uri_print_def uri_text_def, simp_all only: pj_uri.case,
    (rule prints_base_uri, use assms in simp, simp)+)

section \<open>Clones and comparison\<close>

lemma param_clone_append: "pjsip_param_clone dst ps = dst @ ps"
  by (induction dst ps rule: pjsip_param_clone.induct) auto

lemma url_clone_id: "pjsip_url_clone u = u"
  by (simp add: pjsip_url_clone_def pjsip_sip_uri_assign_def pjsip_sip_uri_create_def param_clone_append)

text \<open>Every name-addr has a URI, as those of the parser have: what cloning needs.\<close>

fun uri_whole :: "pj_uri \<Rightarrow> bool" where
  "uri_whole (UriSip u) \<longleftrightarrow> True"
| "uri_whole (UriOther scheme content) \<longleftrightarrow> True"
| "uri_whole (UriNameAddr display None) \<longleftrightarrow> False"
| "uri_whole (UriNameAddr display (Some u)) \<longleftrightarrow> uri_whole u"

lemma uri_clone_id: "uri_whole u \<Longrightarrow> pjsip_uri_clone u = Inr u"
  by (induction u rule: uri_whole.induct) (auto simp: url_clone_id)

lemma uri_ok_whole: "uri_ok u \<Longrightarrow> uri_whole u"
  by (induction u rule: uri_ok.induct) auto

text \<open>Parameters none of whose names hides a later one from \<open>pjsip_param_find\<close>.\<close>

fun names_apart :: "pjsip_param list \<Rightarrow> bool" where
  "names_apart [] \<longleftrightarrow> True"
| "names_apart (p # ps) \<longleftrightarrow> (\<forall>q\<in>set ps. pj_stricmp (fst p) (fst q) \<noteq> 0) \<and> names_apart ps"

lemma param_find_apart: "names_apart ps \<Longrightarrow> p \<in> set ps \<Longrightarrow> pjsip_param_find ps (fst p) = Some p"
  by (induction ps) auto

lemma param_find_append:
  "pjsip_param_find (ps @ qs) n = (case pjsip_param_find ps n of None \<Rightarrow> pjsip_param_find qs n | Some p \<Rightarrow> Some p)"
  by (induction ps) auto

lemma param_cmp_loop_found:
  "(\<And>p. p \<in> set ps \<Longrightarrow> pjsip_param_find qs (fst p) = Some p) \<Longrightarrow> param_cmp_loop ps qs ig = 0"
  by (induction ps) auto

lemma header_param_cmp_found:
  "(\<And>p. p \<in> set ps \<Longrightarrow> pjsip_param_find qs (fst p) = Some p) \<Longrightarrow> header_param_cmp ps qs = PJ_SUCCESS"
  by (induction ps) auto

lemma header_param_cmp_missing:
  "p \<in> set ps \<Longrightarrow> pjsip_param_find qs (fst p) = None \<Longrightarrow> header_param_cmp ps qs = PJSIP_ECMPHEADERPARAM"
  by (induction ps) (auto split: option.splits)

lemma url_compare_header_params:
  assumes "names_apart (other_param u)"
  shows "pjsip_url_compare context (u\<lparr>header_param := hs1\<rparr>) (u\<lparr>header_param := hs2\<rparr>) = header_param_cmp hs1 hs2"
  using param_cmp_loop_found [OF param_find_apart, of "other_param u"] assms
  by (simp add: pjsip_url_compare_def pjsip_param_cmp_def)

section \<open>Properties\<close>

text \<open>
  C40: a URI whose pointers are set and whose hosts are there is printed as its text, header
  parameters and escapes included: in a buffer with room for it and 24 bytes more every context
  prints exactly that text behind what was there, and whatever the size a success never prints
  anything else.
\<close>

theorem uri_print_text:
  assumes "uri_ok u"
  shows "(length out + length (uri_text cfg context u) + 24 \<le> cap \<longrightarrow>
            pjsip_uri_print cfg context u cap out = Inr (Some (out @ uri_text cfg context u))) \<and>
         (pjsip_uri_print cfg context u cap out = Inr (Some out') \<longrightarrow> out' = out @ uri_text cfg context u)"
  using prints_uri [OF assms, of cfg "context"] by (auto simp: prints_def add.assoc)

definition sample_url :: sip_uri where
  "sample_url =
     (pjsip_sip_uri_create False)\<lparr>user := ''1000'', host := ''10.64.49.44'', port := 7101,
        transport_param := ''tcp'', lr_param := 1, other_param := [(''x'', ''a b'')]\<rparr>"

lemma sample_url_text:
  "uri_text default_cfg IN_OTHER (UriNameAddr ''cam'' (Some (UriSip sample_url))) =
   CHR 0x22 # ''cam'' @ CHR 0x22 # '' <sip:1000@10.64.49.44:7101;transport=tcp;lr;x=a%20b>''"
proof -
  have e: "escape USER_SPEC ''1000'' = ''1000''" "escape PARAM_CHAR_SPEC ''x'' = ''x''"
    "escape PARAM_CHAR_SPEC ''tcp'' = ''tcp''" "escape PARAM_CHAR_SPEC ''a b'' = ''a%20b''" by code_simp+
  have "digit_c 7 = CHR ''7''" "digit_c 1 = CHR ''1''" "digit_c 0 = CHR ''0''" by code_simp+
  then have "show_nat 7101 = ''7101''" by (simp add: show_nat.simps)
  with e show ?thesis
    by (simp add: uri_text_def sip_uri_text_def user_text_def host_text_def opt_text_def sample_url_def
        pjsip_sip_uri_create_def default_cfg_def ulong_of_def)
qed

theorem uri_print_text_witness:
  "pjsip_uri_print default_cfg IN_OTHER (UriNameAddr ''cam'' (Some (UriSip sample_url))) 120 [] =
   Inr (Some (CHR 0x22 # ''cam'' @ CHR 0x22 # '' <sip:1000@10.64.49.44:7101;transport=tcp;lr;x=a%20b>''))"
proof -
  have "uri_ok (UriNameAddr ''cam'' (Some (UriSip sample_url)))"
    by (simp add: sample_url_def pjsip_sip_uri_create_def)
  then show ?thesis
    using uri_print_text [of "UriNameAddr ''cam'' (Some (UriSip sample_url))" "[]" default_cfg IN_OTHER 120, THEN conjunct1]
    by (simp add: sample_url_text)
qed

lemma uri_x_text:
  assumes "CHR '':'' \<notin> set h"
  shows "uri_text cfg context (UriSip ((pjsip_sip_uri_create False)\<lparr>host := h, other_param := [(''x'', [])]\<rparr>)) =
    ''sip:'' @ h @ '';x''"
proof -
  have "escape PARAM_CHAR_SPEC ''x'' = ''x''" by code_simp
  with assms show ?thesis
    by (simp add: pjsip_sip_uri_create_def uri_text_def sip_uri_text_def user_text_def host_text_def opt_text_def)
qed

text \<open>
  the last store of \<open>pjsip_url_print\<close>, \<open>*buf = '\0'\<close>, is not guarded: an escaped parameter name
  may take the last byte of the buffer, and then the terminator goes one byte past its end. Every
  printed URI with a last parameter without value runs into it at the size of its text.
\<close>

theorem url_print_writes_past_the_end:
  assumes "h \<noteq> []" and "CHR '':'' \<notin> set h"
  defines "u \<equiv> (pjsip_sip_uri_create False)\<lparr>host := h, other_param := [(''x'', [])]\<rparr>"
  shows "pjsip_uri_print cfg context (UriSip u) (length (uri_text cfg context (UriSip u))) [] = Inl OutOfBounds"
proof -
  have x: "escape PARAM_CHAR_SPEC ''x'' = ''x''" "PARAM_CHAR_SPEC CHR ''x''" by code_simp+
  have t: "uri_text cfg context (UriSip u) = ''sip:'' @ h @ '';x''"
    unfolding u_def by (rule uri_x_text [OF assms(2)])
  from assms show ?thesis
    unfolding t
    by (simp add: u_def pjsip_sip_uri_create_def pjsip_uri_print_def base_uri_print_def pjsip_url_print_def
        pr_then_def pr_nul_def pr_when_def pr_skip_def copy_advance_check_def copy_advance_char_check_def
        copy_advance_pair_def copy_advance_pair_escape_def copy_advance_escape_def pj_strncpy2_escape_eq x room_def)
qed

theorem url_print_writes_past_the_end_witness:
  "pjsip_uri_print default_cfg IN_OTHER
     (UriSip ((pjsip_sip_uri_create False)\<lparr>host := ''h'', other_param := [(''x'', [])]\<rparr>)) 7 [] = Inl OutOfBounds"
proof -
  have "length (uri_text default_cfg IN_OTHER
     (UriSip ((pjsip_sip_uri_create False)\<lparr>host := ''h'', other_param := [(''x'', [])]\<rparr>))) = 7"
    using uri_x_text [of "''h''"] by simp
  then show ?thesis using url_print_writes_past_the_end [of "''h''" default_cfg IN_OTHER] by simp
qed

text \<open>
  \<open>pjsip_url_compare\<close> checks the header parameters in one direction. A URI equals the same URI
  with more of them, while the comparison the other way round reports that they differ; that they
  have to be in both URIs, as the comment there says, is not what is checked.
\<close>

theorem url_compare_one_way:
  assumes "names_apart (other_param u)" and "names_apart (header_param u)"
    and "q \<in> set extra" and "pjsip_param_find (header_param u) (fst q) = None"
  shows "pjsip_uri_cmp context (UriSip u) (UriSip (u\<lparr>header_param := header_param u @ extra\<rparr>)) = Inr PJ_SUCCESS \<and>
         pjsip_uri_cmp context (UriSip (u\<lparr>header_param := header_param u @ extra\<rparr>)) (UriSip u) = Inr PJSIP_ECMPHEADERPARAM"
proof -
  have "header_param_cmp (header_param u) (header_param u @ extra) = PJ_SUCCESS"
    using param_find_apart [OF assms(2)] by (intro header_param_cmp_found) (simp add: param_find_append)
  moreover have "header_param_cmp (header_param u @ extra) (header_param u) = PJSIP_ECMPHEADERPARAM"
    using assms(3,4) by (intro header_param_cmp_missing [of q]) auto
  ultimately show ?thesis
    using url_compare_header_params [OF assms(1), of "context" "header_param u" "header_param u @ extra"]
      url_compare_header_params [OF assms(1), of "context" "header_param u @ extra" "header_param u"]
    by simp
qed

theorem url_compare_one_way_witness:
  "pjsip_uri_cmp IN_OTHER (UriSip sample_url) (UriSip (sample_url\<lparr>header_param := [(''subject'', ''x'')]\<rparr>)) = Inr PJ_SUCCESS"
proof -
  have "names_apart (other_param sample_url)" "names_apart (header_param sample_url)"
    "pjsip_param_find (header_param sample_url) (fst (''subject'', ''x'')) = None" "header_param sample_url = []"
    by (simp_all add: sample_url_def pjsip_sip_uri_create_def)
  then show ?thesis
    using url_compare_one_way [of sample_url "(''subject'', ''x'')" "[(''subject'', ''x'')]" IN_OTHER] by simp
qed

end
