(* ===== verification/SipMsg.thy ===== *)
theory SipMsg
  imports SipUri "HOL-Library.Signed_Division"
begin

text \<open>
  SIP messages (\<open>3rd/src/pjsip/sip_msg.c\<close>): methods, header names, reason phrases, the headers with
  their printers and clones, the search for a header, and the printing and cloning of a message.
  A \<open>pjsip_hdr*\<close> into a message is its index in the list of headers; a message is a request or a
  response by its line. Authorization headers (\<open>sip_auth_msg.c\<close>) are not among the values.
\<close>

section \<open>Methods\<close>

datatype method_e =
    PJSIP_INVITE_METHOD | PJSIP_CANCEL_METHOD | PJSIP_ACK_METHOD | PJSIP_BYE_METHOD
  | PJSIP_REGISTER_METHOD | PJSIP_OPTIONS_METHOD | PJSIP_OTHER_METHOD

record pjsip_method =
  m_id :: method_e
  m_name :: string

definition method_names :: "(method_e \<times> string) list" where
  "method_names =
     [(PJSIP_INVITE_METHOD, ''INVITE''), (PJSIP_CANCEL_METHOD, ''CANCEL''), (PJSIP_ACK_METHOD, ''ACK''),
      (PJSIP_BYE_METHOD, ''BYE''), (PJSIP_REGISTER_METHOD, ''REGISTER''), (PJSIP_OPTIONS_METHOD, ''OPTIONS'')]"

definition pjsip_method_set :: "method_e \<Rightarrow> pjsip_method res" where
  "pjsip_method_set me =
     (case map_of method_names me of
        None \<Rightarrow> Inl AssertFail
      | Some nm \<Rightarrow> Inr \<lparr>m_id = me, m_name = nm\<rparr>)"

definition pjsip_method_init_np :: "string \<Rightarrow> pjsip_method" where
  "pjsip_method_init_np str =
     (case find (\<lambda>(i, nm). pj_stricmp str nm = 0) method_names of
        Some (i, nm) \<Rightarrow> \<lparr>m_id = i, m_name = nm\<rparr>
      | None \<Rightarrow> \<lparr>m_id = PJSIP_OTHER_METHOD, m_name = str\<rparr>)"

definition pjsip_method_init :: "string \<Rightarrow> pjsip_method" where
  "pjsip_method_init str = pjsip_method_init_np str"

definition pjsip_method_copy :: "pjsip_method \<Rightarrow> pjsip_method" where
  "pjsip_method_copy rhs = \<lparr>m_id = m_id rhs, m_name = m_name rhs\<rparr>"

definition method_code :: "method_e \<Rightarrow> nat" where
  "method_code me =
     (case me of PJSIP_INVITE_METHOD \<Rightarrow> 0 | PJSIP_CANCEL_METHOD \<Rightarrow> 1 | PJSIP_ACK_METHOD \<Rightarrow> 2 | PJSIP_BYE_METHOD \<Rightarrow> 3
               | PJSIP_REGISTER_METHOD \<Rightarrow> 4 | PJSIP_OPTIONS_METHOD \<Rightarrow> 5 | PJSIP_OTHER_METHOD \<Rightarrow> 6)"

definition pjsip_method_cmp :: "pjsip_method \<Rightarrow> pjsip_method \<Rightarrow> int" where
  "pjsip_method_cmp m1 m2 =
     (if m_id m1 = m_id m2
      then (if m_id m1 \<noteq> PJSIP_OTHER_METHOD then 0 else pj_strcmp (m_name m1) (m_name m2))
      else if method_code (m_id m1) < method_code (m_id m2) then -1 else 1)"

section \<open>Header names and reason phrases\<close>

abbreviation (input) "PJSIP_H_ACCEPT \<equiv> (0::nat)"
abbreviation (input) "PJSIP_H_ALLOW \<equiv> (4::nat)"
abbreviation (input) "PJSIP_H_CALL_ID \<equiv> (7::nat)"
abbreviation (input) "PJSIP_H_CONTACT \<equiv> (9::nat)"
abbreviation (input) "PJSIP_H_CONTENT_LENGTH \<equiv> (13::nat)"
abbreviation (input) "PJSIP_H_CONTENT_TYPE \<equiv> (14::nat)"
abbreviation (input) "PJSIP_H_CSEQ \<equiv> (15::nat)"
abbreviation (input) "PJSIP_H_EXPIRES \<equiv> (18::nat)"
abbreviation (input) "PJSIP_H_FROM \<equiv> (19::nat)"
abbreviation (input) "PJSIP_H_MAX_FORWARDS \<equiv> (21::nat)"
abbreviation (input) "PJSIP_H_MIN_EXPIRES \<equiv> (23::nat)"
abbreviation (input) "PJSIP_H_RECORD_ROUTE \<equiv> (29::nat)"
abbreviation (input) "PJSIP_H_REQUIRE \<equiv> (31::nat)"
abbreviation (input) "PJSIP_H_RETRY_AFTER \<equiv> (32::nat)"
abbreviation (input) "PJSIP_H_ROUTE \<equiv> (33::nat)"
abbreviation (input) "PJSIP_H_SUPPORTED \<equiv> (36::nat)"
abbreviation (input) "PJSIP_H_TO \<equiv> (38::nat)"
abbreviation (input) "PJSIP_H_UNSUPPORTED \<equiv> (39::nat)"
abbreviation (input) "PJSIP_H_VIA \<equiv> (41::nat)"
abbreviation (input) "PJSIP_H_OTHER \<equiv> (44::nat)"

definition pjsip_hdr_names :: "(string \<times> string option) list" where
  "pjsip_hdr_names =
    [(''Accept'', None),
     (''Accept-Encoding'', None),
     (''Accept-Language'', None),
     (''Alert-Info'', None),
     (''Allow'', None),
     (''Authentication-Info'', None),
     (''Authorization'', None),
     (''Call-ID'', Some ''i''),
     (''Call-Info'', None),
     (''Contact'', Some ''m''),
     (''Content-Disposition'', None),
     (''Content-Encoding'', Some ''e''),
     (''Content-Language'', None),
     (''Content-Length'', Some ''l''),
     (''Content-Type'', Some ''c''),
     (''CSeq'', None),
     (''Date'', None),
     (''Error-Info'', None),
     (''Expires'', None),
     (''From'', Some ''f''),
     (''In-Reply-To'', None),
     (''Max-Forwards'', None),
     (''MIME-Version'', None),
     (''Min-Expires'', None),
     (''Organization'', None),
     (''Priority'', None),
     (''Proxy-Authenticate'', None),
     (''Proxy-Authorization'', None),
     (''Proxy-Require'', None),
     (''Record-Route'', None),
     (''Reply-To'', None),
     (''Require'', None),
     (''Retry-After'', None),
     (''Route'', None),
     (''Server'', None),
     (''Subject'', Some ''s''),
     (''Supported'', Some ''k''),
     (''Timestamp'', None),
     (''To'', Some ''t''),
     (''Unsupported'', None),
     (''User-Agent'', None),
     (''Via'', Some ''v''),
     (''Warning'', None),
     (''WWW-Authenticate'', None),
     (''_Unknown-Header'', None)]"

definition status_phrase :: "(int \<times> string) list" where
  "status_phrase =
    [(100, ''Trying''),
     (180, ''Ringing''),
     (181, ''Call Is Being Forwarded''),
     (182, ''Queued''),
     (183, ''Session Progress''),
     (200, ''OK''),
     (202, ''Accepted''),
     (300, ''Multiple Choices''),
     (301, ''Moved Permanently''),
     (302, ''Moved Temporarily''),
     (305, ''Use Proxy''),
     (380, ''Alternative Service''),
     (400, ''Bad Request''),
     (401, ''Unauthorized''),
     (402, ''Payment Required''),
     (403, ''Forbidden''),
     (404, ''Not Found''),
     (405, ''Method Not Allowed''),
     (406, ''Not Acceptable''),
     (407, ''Proxy Authentication Required''),
     (408, ''Request Timeout''),
     (410, ''Gone''),
     (413, ''Request Entity Too Large''),
     (414, ''Request URI Too Long''),
     (415, ''Unsupported Media Type''),
     (416, ''Unsupported URI Scheme''),
     (420, ''Bad Extension''),
     (421, ''Extension Required''),
     (422, ''Session Timer Too Small''),
     (423, ''Interval Too Brief''),
     (480, ''Temporarily Unavailable''),
     (481, ''Call/Transaction Does Not Exist''),
     (482, ''Loop Detected''),
     (483, ''Too Many Hops''),
     (484, ''Address Incomplete''),
     (485, ''Ambiguous''),
     (486, ''Busy Here''),
     (487, ''Request Terminated''),
     (488, ''Not Acceptable Here''),
     (489, ''Bad Event''),
     (490, ''Request Updated''),
     (491, ''Request Pending''),
     (493, ''Undecipherable''),
     (500, ''Internal Server Error''),
     (501, ''Not Implemented''),
     (502, ''Bad Gateway''),
     (503, ''Service Unavailable''),
     (504, ''Server Timeout''),
     (505, ''Version Not Supported''),
     (513, ''Message Too Large''),
     (580, ''Precondition Failure''),
     (600, ''Busy Everywhere''),
     (603, ''Decline''),
     (604, ''Does Not Exist Anywhere''),
     (606, ''Not Acceptable''),
     (701, ''No response from destination server''),
     (702, ''Unable to resolve destination server''),
     (703, ''Error sending message to destination server'')]"

definition pjsip_get_status_text :: "int \<Rightarrow> string" where
  "pjsip_get_status_text code =
     (if code \<ge> 100 \<and> code < 710
      then (case map_of status_phrase code of Some t \<Rightarrow> t | None \<Rightarrow> ''Default status message'')
      else ''Default status message'')"

section \<open>Headers\<close>

record media_type =
  mt_type :: string
  mt_subtype :: string
  mt_param :: "pjsip_param list"

record contact_hdr =
  star :: bool
  c_uri :: "pj_uri option"
  q1000 :: int
  c_expires :: int
  c_other_param :: "pjsip_param list"

record fromto_hdr =
  ft_uri :: "pj_uri option"
  tag :: string
  ft_other_param :: "pjsip_param list"

record routing_hdr =
  ra_display :: string
  ra_uri :: "pj_uri option"
  r_other_param :: "pjsip_param list"

record retry_after_hdr =
  ra_ivalue :: int
  ra_comment :: string
  ra_param :: "pjsip_param list"

record via_hdr =
  v_transport :: string
  v_host :: string
  v_port :: int
  v_ttl_param :: int
  v_rport_param :: int
  v_maddr_param :: string
  v_recvd_param :: string
  v_branch_param :: string
  v_other_param :: "pjsip_param list"

text \<open>The vptr of a header, with the fields of the header behind it.\<close>

datatype hdr_val =
    HString string
  | HInt int
  | HArray "string list"
  | HClen int
  | HCseq int pjsip_method
  | HContact contact_hdr
  | HCtype media_type
  | HFromTo fromto_hdr
  | HRouting routing_hdr
  | HRetryAfter retry_after_hdr
  | HVia via_hdr

record pjsip_hdr =
  h_type :: nat
  h_name :: string
  h_sname :: string
  h_val :: hdr_val

definition init_hdr :: "nat \<Rightarrow> hdr_val \<Rightarrow> pjsip_hdr" where
  "init_hdr htype v =
     (let (nm, sn) = pjsip_hdr_names ! htype
      in \<lparr>h_type = htype, h_name = nm, h_sname = (case sn of Some s \<Rightarrow> s | None \<Rightarrow> nm), h_val = v\<rparr>)"

definition named_hdr :: "pjsip_hdr \<Rightarrow> string option \<Rightarrow> pjsip_hdr" where
  "named_hdr hdr hname = (case hname of None \<Rightarrow> hdr | Some n \<Rightarrow> hdr\<lparr>h_name := n, h_sname := n\<rparr>)"

text \<open>\<open>pjsip_generic_string_hdr_init\<close> gives an empty name where none is passed, the others keep that of the table.\<close>

definition pjsip_generic_string_hdr_init2 :: "string option \<Rightarrow> string option \<Rightarrow> pjsip_hdr" where
  "pjsip_generic_string_hdr_init2 hname hvalue =
     named_hdr (init_hdr PJSIP_H_OTHER (HString (case hvalue of None \<Rightarrow> [] | Some v \<Rightarrow> v))) hname"

definition pjsip_generic_string_hdr_create :: "string option \<Rightarrow> string option \<Rightarrow> pjsip_hdr" where
  "pjsip_generic_string_hdr_create hnames hvalue =
     pjsip_generic_string_hdr_init2 (Some (case hnames of None \<Rightarrow> [] | Some n \<Rightarrow> n))
       (Some (case hvalue of None \<Rightarrow> [] | Some v \<Rightarrow> v))"

definition pjsip_generic_int_hdr_create :: "string option \<Rightarrow> int \<Rightarrow> pjsip_hdr" where
  "pjsip_generic_int_hdr_create hnames value = named_hdr (init_hdr PJSIP_H_OTHER (HInt value)) hnames"

definition pjsip_generic_array_hdr_create :: "string option \<Rightarrow> pjsip_hdr" where
  "pjsip_generic_array_hdr_create hnames = named_hdr (init_hdr PJSIP_H_OTHER (HArray [])) hnames"

definition pjsip_accept_hdr_create :: pjsip_hdr where
  "pjsip_accept_hdr_create = init_hdr PJSIP_H_ACCEPT (HArray [])"

definition pjsip_allow_hdr_create :: pjsip_hdr where
  "pjsip_allow_hdr_create = init_hdr PJSIP_H_ALLOW (HArray [])"

text \<open>The memory of a Call-ID header is not cleared: its value is that of the memory.\<close>

definition pjsip_cid_hdr_init :: "string \<Rightarrow> pjsip_hdr" where
  "pjsip_cid_hdr_init mem = init_hdr PJSIP_H_CALL_ID (HString mem)"

definition pjsip_clen_hdr_create :: pjsip_hdr where
  "pjsip_clen_hdr_create = init_hdr PJSIP_H_CONTENT_LENGTH (HClen 0)"

definition pjsip_cseq_hdr_create :: pjsip_hdr where
  "pjsip_cseq_hdr_create = init_hdr PJSIP_H_CSEQ (HCseq 0 \<lparr>m_id = PJSIP_OTHER_METHOD, m_name = []\<rparr>)"

definition contact0 :: contact_hdr where
  "contact0 = \<lparr>star = False, c_uri = None, q1000 = 0, c_expires = -1, c_other_param = []\<rparr>"

definition pjsip_contact_hdr_create :: pjsip_hdr where
  "pjsip_contact_hdr_create = init_hdr PJSIP_H_CONTACT (HContact contact0)"

definition media_type0 :: media_type where
  "media_type0 = \<lparr>mt_type = [], mt_subtype = [], mt_param = []\<rparr>"

definition pjsip_ctype_hdr_create :: pjsip_hdr where
  "pjsip_ctype_hdr_create = init_hdr PJSIP_H_CONTENT_TYPE (HCtype media_type0)"

definition pjsip_expires_hdr_create :: "int \<Rightarrow> pjsip_hdr" where
  "pjsip_expires_hdr_create value = init_hdr PJSIP_H_EXPIRES (HInt value)"

definition fromto0 :: fromto_hdr where
  "fromto0 = \<lparr>ft_uri = None, tag = [], ft_other_param = []\<rparr>"

definition pjsip_from_hdr_create :: pjsip_hdr where
  "pjsip_from_hdr_create = init_hdr PJSIP_H_FROM (HFromTo fromto0)"

definition pjsip_to_hdr_create :: pjsip_hdr where
  "pjsip_to_hdr_create = init_hdr PJSIP_H_TO (HFromTo fromto0)"

definition retyped_hdr :: "nat \<Rightarrow> pjsip_hdr \<Rightarrow> pjsip_hdr" where
  "retyped_hdr htype hdr =
     (let (nm, sn) = pjsip_hdr_names ! htype
      in hdr\<lparr>h_type := htype, h_name := nm, h_sname := (case sn of Some s \<Rightarrow> s | None \<Rightarrow> nm)\<rparr>)"

definition pjsip_fromto_hdr_set_from :: "pjsip_hdr \<Rightarrow> pjsip_hdr" where
  "pjsip_fromto_hdr_set_from = retyped_hdr PJSIP_H_FROM"

definition pjsip_fromto_hdr_set_to :: "pjsip_hdr \<Rightarrow> pjsip_hdr" where
  "pjsip_fromto_hdr_set_to = retyped_hdr PJSIP_H_TO"

definition pjsip_max_fwd_hdr_create :: "int \<Rightarrow> pjsip_hdr" where
  "pjsip_max_fwd_hdr_create value = init_hdr PJSIP_H_MAX_FORWARDS (HInt value)"

definition pjsip_min_expires_hdr_create :: "int \<Rightarrow> pjsip_hdr" where
  "pjsip_min_expires_hdr_create value = init_hdr PJSIP_H_MIN_EXPIRES (HInt value)"

definition routing0 :: routing_hdr where
  "routing0 = \<lparr>ra_display = [], ra_uri = None, r_other_param = []\<rparr>"

definition pjsip_rr_hdr_create :: pjsip_hdr where
  "pjsip_rr_hdr_create = init_hdr PJSIP_H_RECORD_ROUTE (HRouting routing0)"

definition pjsip_route_hdr_create :: pjsip_hdr where
  "pjsip_route_hdr_create = init_hdr PJSIP_H_ROUTE (HRouting routing0)"

definition pjsip_routing_hdr_set_rr :: "pjsip_hdr \<Rightarrow> pjsip_hdr" where
  "pjsip_routing_hdr_set_rr = retyped_hdr PJSIP_H_RECORD_ROUTE"

definition pjsip_routing_hdr_set_route :: "pjsip_hdr \<Rightarrow> pjsip_hdr" where
  "pjsip_routing_hdr_set_route = retyped_hdr PJSIP_H_ROUTE"

definition pjsip_require_hdr_create :: pjsip_hdr where
  "pjsip_require_hdr_create = init_hdr PJSIP_H_REQUIRE (HArray [])"

definition pjsip_retry_after_hdr_create :: "int \<Rightarrow> pjsip_hdr" where
  "pjsip_retry_after_hdr_create value =
     init_hdr PJSIP_H_RETRY_AFTER (HRetryAfter \<lparr>ra_ivalue = value, ra_comment = [], ra_param = []\<rparr>)"

definition pjsip_supported_hdr_create :: pjsip_hdr where
  "pjsip_supported_hdr_create = init_hdr PJSIP_H_SUPPORTED (HArray [])"

definition pjsip_unsupported_hdr_create :: pjsip_hdr where
  "pjsip_unsupported_hdr_create = init_hdr PJSIP_H_UNSUPPORTED (HArray [])"

definition via0 :: via_hdr where
  "via0 = \<lparr>v_transport = [], v_host = [], v_port = 0, v_ttl_param = -1, v_rport_param = -1, v_maddr_param = [],
           v_recvd_param = [], v_branch_param = [], v_other_param = []\<rparr>"

definition pjsip_via_hdr_create :: pjsip_hdr where
  "pjsip_via_hdr_create = init_hdr PJSIP_H_VIA (HVia via0)"

text \<open>
  \<open>"%u %.*s \"%.*s\""\<close> into the memory of \<open>pjsip_warning_hdr_create\<close>, terminator included.
\<close>

definition pjsip_warning_hdr_create :: "int \<Rightarrow> string \<Rightarrow> string \<Rightarrow> pjsip_hdr res" where
  "pjsip_warning_hdr_create code hst txt =
     (let v = show_nat (nat (code mod 2 ^ 32)) @ '' '' @ takeWhile (\<lambda>c. c \<noteq> NUL) hst @ '' '' @ [CHR 0x22] @
              takeWhile (\<lambda>c. c \<noteq> NUL) txt @ [CHR 0x22]
      in if length v + 1 > 10 + (length hst + 2) + (length txt + 2) then Inl OutOfBounds
         else Inr (pjsip_generic_string_hdr_create (Some ''Warning'') (Some v)))"

section \<open>Media types\<close>

definition pjsip_media_type_init :: "string option \<Rightarrow> string option \<Rightarrow> media_type" where
  "pjsip_media_type_init type subtype =
     \<lparr>mt_type = (case type of None \<Rightarrow> [] | Some t \<Rightarrow> t), mt_subtype = (case subtype of None \<Rightarrow> [] | Some t \<Rightarrow> t),
      mt_param = []\<rparr>"

definition pjsip_media_type_cmp :: "media_type \<Rightarrow> media_type \<Rightarrow> int \<Rightarrow> int" where
  "pjsip_media_type_cmp mt1 mt2 cmp_param =
     (let rc = pj_stricmp (mt_type mt1) (mt_type mt2)
      in if rc \<noteq> 0 then rc
         else let rc = pj_stricmp (mt_subtype mt1) (mt_subtype mt2)
              in if rc \<noteq> 0 then rc
                 else if cmp_param \<noteq> 0 then pjsip_param_cmp (mt_param mt1) (mt_param mt2) (cmp_param = 1)
                 else rc)"

definition pjsip_media_type_cp :: "media_type \<Rightarrow> media_type" where
  "pjsip_media_type_cp src =
     \<lparr>mt_type = mt_type src, mt_subtype = mt_subtype src, mt_param = pjsip_param_clone [] (mt_param src)\<rparr>"

section \<open>Printing a header\<close>

definition hname_of :: "sip_cfg \<Rightarrow> pjsip_hdr \<Rightarrow> string" where
  "hname_of cfg h = (if use_compact_form cfg then h_sname h else h_name h)"

definition token_params_print :: "pjsip_param list \<Rightarrow> printer" where
  "token_params_print ps = pjsip_param_print_on TOKEN_SPEC TOKEN_SPEC (CHR '';'') ps"

text \<open>\<open>pjsip_uri_print\<close> with its result checked: fewer than one byte is -1.\<close>

definition uri_print_checked :: "sip_cfg \<Rightarrow> uri_context \<Rightarrow> pj_uri option \<Rightarrow> printer" where
  "uri_print_checked cfg context u =
     (case u of None \<Rightarrow> pr_fault NullDeref | Some v \<Rightarrow> pr_some (pjsip_uri_print cfg context v))"

text \<open>\<open>p += print(...)\<close> without a look at the result: -1 steps back over the byte before.\<close>

definition pr_unchecked :: "printer \<Rightarrow> printer" where
  "pr_unchecked p cap out =
     bind_res (p cap out) (\<lambda>r. Inr (Some (case r of None \<Rightarrow> butlast out | Some out' \<Rightarrow> out')))"

definition pjsip_generic_string_hdr_print :: "string \<Rightarrow> string \<Rightarrow> printer" where
  "pjsip_generic_string_hdr_print hname hvalue =
     pr_all [pr_room (length hname + length hvalue + 5), pr_raw hname, pr_raw '': '', pr_raw hvalue, pr_nul]"

definition pjsip_generic_int_hdr_print :: "string \<Rightarrow> int \<Rightarrow> printer" where
  "pjsip_generic_int_hdr_print hname ivalue =
     pr_all [pr_room (length hname + 15), pr_raw hname, pr_raw '': '', pr_utoa (ulong_of ivalue)]"

definition pjsip_generic_array_hdr_print :: "string \<Rightarrow> string list \<Rightarrow> printer" where
  "pjsip_generic_array_hdr_print hname vs =
     pr_all [copy_advance_check hname, pr_raw '': '',
       (case vs of [] \<Rightarrow> pr_skip
        | v # vs' \<Rightarrow> pr_all (copy_advance_check v # map (copy_advance_pair '', '') vs'))]"

definition pjsip_clen_hdr_print :: "string \<Rightarrow> int \<Rightarrow> printer" where
  "pjsip_clen_hdr_print hname len =
     pr_all [pr_room (length hname + 14), pr_raw hname, pr_raw '': '', pr_utoa (ulong_of len), pr_nul]"

definition pjsip_cseq_hdr_print :: "string \<Rightarrow> int \<Rightarrow> pjsip_method \<Rightarrow> printer" where
  "pjsip_cseq_hdr_print name cseq method =
     pr_all [pr_room (length name + length (m_name method) + 15), pr_raw name, pr_raw '': '',
       pr_utoa (ulong_of cseq), pr_raw '' '', pr_raw (m_name method), pr_nul]"

text \<open>\<open>hdr->q1000 % 1000\<close> as an unsigned, stripped of zeros.\<close>

definition q_frac :: "int \<Rightarrow> nat" where
  "q_frac q =
     (let frac = nat ((q smod 1000) mod 2 ^ 32);
          frac = (if frac mod 100 = 0 then frac div 100 else frac)
      in if frac mod 10 = 0 then frac div 10 else frac)"

definition pjsip_contact_hdr_print :: "sip_cfg \<Rightarrow> string \<Rightarrow> contact_hdr \<Rightarrow> printer" where
  "pjsip_contact_hdr_print cfg hname c =
     (if star c then pr_all [pr_room (length hname + 6), pr_raw hname, pr_raw '': *'']
      else pr_all [
        copy_advance_check hname,
        copy_advance_char_check (CHR '':''),
        copy_advance_char_check (CHR '' ''),
        uri_print_checked cfg IN_CONTACT_HDR (c_uri c),
        pr_when (q1000 c \<noteq> 0) (pr_all [
          pr_room 20,
          pr_raw '';q='',
          pr_utoa (ulong_of (q1000 c sdiv 1000)),
          pr_when (q1000 c smod 1000 \<noteq> 0) (pr_all [
            pr_raw ''.'',
            pr_utoa (q_frac (q1000 c))])]),
        pr_when (c_expires c \<ge> 0) (pr_all [
          pr_room 24,
          pr_raw '';expires='',
          pr_utoa (ulong_of (c_expires c))]),
        token_params_print (c_other_param c)])"

definition print_media_type :: "media_type \<Rightarrow> printer" where
  "print_media_type media =
     pr_all [pr_raw (mt_type media), pr_raw ''/'', pr_raw (mt_subtype media), token_params_print (mt_param media)]"

definition pjsip_ctype_hdr_print :: "string \<Rightarrow> media_type \<Rightarrow> printer" where
  "pjsip_ctype_hdr_print hname media =
     pr_all [pr_room (length hname + length (mt_type media) + length (mt_subtype media) + 8),
       pr_raw hname, pr_raw '': '', pr_unchecked (print_media_type media), pr_nul]"

definition pjsip_fromto_hdr_print :: "sip_cfg \<Rightarrow> string \<Rightarrow> fromto_hdr \<Rightarrow> printer" where
  "pjsip_fromto_hdr_print cfg hname h =
     pr_all [
       copy_advance_check hname,
       pr_raw '': '',
       uri_print_checked cfg IN_FROMTO_HDR (ft_uri h),
       copy_advance_pair_escape '';tag='' (tag h) TOKEN_SPEC,
       token_params_print (ft_other_param h)]"

text \<open>
  A route whose SIP URI has the parameter \<open>hide\<close> prints nothing. A URI of another kind that calls
  itself \<open>sip\<close> would be read as a SIP URI it is not.
\<close>

definition route_hidden :: "routing_hdr \<Rightarrow> bool res" where
  "route_hidden r =
     (case ra_uri r of
        None \<Rightarrow> Inl NullDeref
      | Some u \<Rightarrow>
          bind_res (pjsip_uri_get_scheme u) (\<lambda>scheme.
            if pj_stricmp scheme ''sips'' = 0 \<or> pj_stricmp scheme ''sip'' = 0
            then bind_res (pjsip_uri_get_uri u) (\<lambda>v.
              case v of
                UriSip url \<Rightarrow>
                  (case pjsip_param_find (other_param url) ''hide'' of
                     None \<Rightarrow> Inr False
                   | Some p \<Rightarrow> if lr_param url \<noteq> 0 then Inr True else Inl AssertFail)
              | _ \<Rightarrow> Inl OutOfBounds)
            else Inr False))"

definition pjsip_routing_hdr_print :: "sip_cfg \<Rightarrow> string \<Rightarrow> routing_hdr \<Rightarrow> printer" where
  "pjsip_routing_hdr_print cfg name r =
     (case route_hidden r of
        Inl e \<Rightarrow> pr_fault e
      | Inr True \<Rightarrow> pr_skip
      | Inr False \<Rightarrow>
          pr_all [
            copy_advance_check name,
            pr_raw '': '',
            uri_print_checked cfg IN_ROUTING_HDR (Some (UriNameAddr (ra_display r) (ra_uri r))),
            token_params_print (r_other_param r)])"

definition pjsip_retry_after_hdr_print :: "string \<Rightarrow> retry_after_hdr \<Rightarrow> printer" where
  "pjsip_retry_after_hdr_print name r =
     pr_all [
       pr_room (length name + 2 + 11),
       pr_raw name,
       pr_raw '': '',
       pr_utoa (ulong_of (ra_ivalue r)),
       pr_when (ra_comment r \<noteq> []) (pr_all [
         pr_room (length (ra_comment r) + 3),
         pr_when (hd (ra_comment r) \<noteq> CHR ''('') (pr_raw ''(''),
         pr_raw (ra_comment r),
         pr_when (hd (ra_comment r) \<noteq> CHR ''('') (pr_raw '')''),
         pr_when (ra_param r \<noteq> []) (pr_raw '' '')]),
       token_params_print (ra_param r)]"

definition toupper_c :: "char \<Rightarrow> char" where
  "toupper_c c = (if 97 \<le> code_c c \<and> code_c c \<le> 122 then char_of (code_c c - 32) else c)"

definition pjsip_via_hdr_print :: "string \<Rightarrow> via_hdr \<Rightarrow> printer" where
  "pjsip_via_hdr_print hname v =
     pr_all [
       pr_room (length hname + 8 + length (v_transport v) + length (v_host v) + 12),
       copy_advance_check hname,
       pr_raw '': '',
       pr_raw ''SIP/2.0/'',
       pr_raw (map toupper_c (v_transport v)),
       pr_raw '' '',
       (if CHR '':'' \<in> set (v_host v)
        then copy_advance_pair_quote_cond [] (v_host v) (CHR ''['') (CHR '']'')
        else copy_advance_check (v_host v)),
       pr_when (v_port v \<noteq> 0) (pr_all [pr_raw '':'', pr_utoa (ulong_of (v_port v))]),
       pr_when (v_ttl_param v \<ge> 0) (pr_all [pr_room 14, pr_raw '';ttl='', pr_utoa (ulong_of (v_ttl_param v))]),
       pr_when (v_rport_param v \<ge> 0) (pr_all [
         pr_room 14,
         pr_raw '';rport'',
         pr_when (v_rport_param v > 0) (pr_all [pr_raw ''='', pr_utoa (ulong_of (v_rport_param v))])]),
       pr_when (v_maddr_param v \<noteq> [])
         (if CHR '':'' \<in> set (v_maddr_param v)
          then copy_advance_pair_quote_cond '';maddr='' (v_maddr_param v) (CHR ''['') (CHR '']'')
          else copy_advance_pair '';maddr='' (v_maddr_param v)),
       copy_advance_pair '';received='' (v_recvd_param v),
       copy_advance_pair_escape '';branch='' (v_branch_param v) TOKEN_SPEC,
       token_params_print (v_other_param v)]"

definition pjsip_hdr_print_on :: "sip_cfg \<Rightarrow> pjsip_hdr \<Rightarrow> printer" where
  "pjsip_hdr_print_on cfg h =
     (case h_val h of
        HString s \<Rightarrow> pjsip_generic_string_hdr_print (hname_of cfg h) s
      | HInt i \<Rightarrow> pjsip_generic_int_hdr_print (hname_of cfg h) i
      | HArray vs \<Rightarrow> pjsip_generic_array_hdr_print (hname_of cfg h) vs
      | HClen len \<Rightarrow> pjsip_clen_hdr_print (hname_of cfg h) len
      | HCseq n m \<Rightarrow> pjsip_cseq_hdr_print (h_name h) n m
      | HContact c \<Rightarrow> pjsip_contact_hdr_print cfg (hname_of cfg h) c
      | HCtype m \<Rightarrow> pjsip_ctype_hdr_print (hname_of cfg h) m
      | HFromTo f \<Rightarrow> pjsip_fromto_hdr_print cfg (hname_of cfg h) f
      | HRouting r \<Rightarrow> pjsip_routing_hdr_print cfg (h_name h) r
      | HRetryAfter r \<Rightarrow> pjsip_retry_after_hdr_print (h_name h) r
      | HVia v \<Rightarrow> pjsip_via_hdr_print (hname_of cfg h) v)"

section \<open>Clones of headers\<close>

definition clone_opt_uri :: "pj_uri option \<Rightarrow> pj_uri option res" where
  "clone_opt_uri u = (case u of None \<Rightarrow> Inl NullDeref | Some v \<Rightarrow> bind_res (pjsip_uri_clone v) (\<lambda>w. Inr (Some w)))"

definition pjsip_contact_hdr_clone :: "contact_hdr \<Rightarrow> pjsip_hdr res" where
  "pjsip_contact_hdr_clone rhs =
     (if star rhs then Inr (init_hdr PJSIP_H_CONTACT (HContact (contact0\<lparr>star := True\<rparr>)))
      else bind_res (clone_opt_uri (c_uri rhs)) (\<lambda>u.
        Inr (init_hdr PJSIP_H_CONTACT
          (HContact \<lparr>star = False, c_uri = u, q1000 = q1000 rhs, c_expires = c_expires rhs,
                     c_other_param = pjsip_param_clone [] (c_other_param rhs)\<rparr>))))"

definition pjsip_fromto_hdr_clone :: "pjsip_hdr \<Rightarrow> fromto_hdr \<Rightarrow> pjsip_hdr res" where
  "pjsip_fromto_hdr_clone h rhs =
     bind_res (clone_opt_uri (ft_uri rhs)) (\<lambda>u.
       Inr (h\<lparr>h_val := HFromTo \<lparr>ft_uri = u, tag = tag rhs,
                                 ft_other_param = pjsip_param_clone [] (ft_other_param rhs)\<rparr>\<rparr>))"

definition pjsip_routing_hdr_clone :: "pjsip_hdr \<Rightarrow> routing_hdr \<Rightarrow> pjsip_hdr res" where
  "pjsip_routing_hdr_clone h rhs =
     bind_res (clone_opt_uri (ra_uri rhs)) (\<lambda>u.
       Inr (init_hdr (h_type h)
         (HRouting \<lparr>ra_display = ra_display rhs, ra_uri = u, r_other_param = pjsip_param_clone [] (r_other_param rhs)\<rparr>)))"

definition pjsip_retry_after_hdr_clone :: "retry_after_hdr \<Rightarrow> pjsip_hdr" where
  "pjsip_retry_after_hdr_clone rhs =
     init_hdr PJSIP_H_RETRY_AFTER
       (HRetryAfter \<lparr>ra_ivalue = ra_ivalue rhs, ra_comment = ra_comment rhs, ra_param = pjsip_param_clone [] (ra_param rhs)\<rparr>)"

definition pjsip_via_hdr_clone :: "via_hdr \<Rightarrow> pjsip_hdr" where
  "pjsip_via_hdr_clone rhs =
     init_hdr PJSIP_H_VIA
       (HVia \<lparr>v_transport = v_transport rhs, v_host = v_host rhs, v_port = v_port rhs, v_ttl_param = v_ttl_param rhs,
              v_rport_param = v_rport_param rhs, v_maddr_param = v_maddr_param rhs, v_recvd_param = v_recvd_param rhs,
              v_branch_param = v_branch_param rhs, v_other_param = pjsip_param_clone [] (v_other_param rhs)\<rparr>)"

definition pjsip_hdr_clone :: "pjsip_hdr \<Rightarrow> pjsip_hdr res" where
  "pjsip_hdr_clone h =
     (case h_val h of
        HString s \<Rightarrow>
          Inr ((pjsip_generic_string_hdr_create (Some (h_name h)) (Some s))\<lparr>h_type := h_type h, h_sname := h_sname h\<rparr>)
      | HInt i \<Rightarrow> Inr h
      | HArray vs \<Rightarrow> Inr h
      | HClen len \<Rightarrow> Inr (pjsip_clen_hdr_create\<lparr>h_val := HClen len\<rparr>)
      | HCseq n m \<Rightarrow> Inr (pjsip_cseq_hdr_create\<lparr>h_val := HCseq n (pjsip_method_copy m)\<rparr>)
      | HContact c \<Rightarrow> pjsip_contact_hdr_clone c
      | HCtype m \<Rightarrow> Inr (pjsip_ctype_hdr_create\<lparr>h_val := HCtype (pjsip_media_type_cp m)\<rparr>)
      | HFromTo f \<Rightarrow> pjsip_fromto_hdr_clone h f
      | HRouting r \<Rightarrow> pjsip_routing_hdr_clone h r
      | HRetryAfter r \<Rightarrow> Inr (pjsip_retry_after_hdr_clone r)
      | HVia v \<Rightarrow> Inr (pjsip_via_hdr_clone v))"

section \<open>Messages\<close>

text \<open>
  A body whose \<open>print_body\<close> is \<open>pjsip_print_text_body\<close>; \<open>clone_data\<close> is that of a text body or null.
\<close>

record msg_body =
  content_type :: media_type
  b_data :: string
  has_clone_data :: bool

datatype msg_line = ReqLine pjsip_method pj_uri | StatusLine int string

record pjsip_msg =
  line :: msg_line
  hdrs :: "pjsip_hdr list"
  body :: "msg_body option"

definition pjsip_msg_create :: "msg_line \<Rightarrow> pjsip_msg" where
  "pjsip_msg_create l = \<lparr>line = l, hdrs = [], body = None\<rparr>"

definition pjsip_msg_add_hdr :: "pjsip_msg \<Rightarrow> pjsip_hdr \<Rightarrow> pjsip_msg" where
  "pjsip_msg_add_hdr msg h = msg\<lparr>hdrs := hdrs msg @ [h]\<rparr>"

definition pjsip_msg_body_create :: "string \<Rightarrow> string \<Rightarrow> string \<Rightarrow> msg_body" where
  "pjsip_msg_body_create type subtype txt =
     \<lparr>content_type = \<lparr>mt_type = type, mt_subtype = subtype, mt_param = []\<rparr>, b_data = txt, has_clone_data = True\<rparr>"

definition pjsip_msg_body_clone :: "msg_body \<Rightarrow> msg_body res" where
  "pjsip_msg_body_clone b =
     (if \<not> has_clone_data b then Inl AssertFail
      else Inr \<lparr>content_type = pjsip_media_type_cp (content_type b), b_data = b_data b, has_clone_data = has_clone_data b\<rparr>)"

fun clone_hdrs :: "pjsip_msg \<Rightarrow> pjsip_hdr list \<Rightarrow> pjsip_msg res" where
  "clone_hdrs dst [] = Inr dst"
| "clone_hdrs dst (h # hs) = bind_res (pjsip_hdr_clone h) (\<lambda>dh. clone_hdrs (pjsip_msg_add_hdr dst dh) hs)"

definition clone_line :: "msg_line \<Rightarrow> msg_line res" where
  "clone_line l =
     (case l of
        ReqLine m u \<Rightarrow> bind_res (pjsip_uri_clone u) (\<lambda>v. Inr (ReqLine (pjsip_method_copy m) v))
      | StatusLine code reason \<Rightarrow> Inr (StatusLine code reason))"

definition pjsip_msg_clone :: "pjsip_msg \<Rightarrow> pjsip_msg res" where
  "pjsip_msg_clone src =
     bind_res (clone_line (line src)) (\<lambda>l.
     bind_res (clone_hdrs (pjsip_msg_create l) (hdrs src)) (\<lambda>dst.
       case body src of
         None \<Rightarrow> Inr dst
       | Some b \<Rightarrow> bind_res (pjsip_msg_body_clone b) (\<lambda>nb. Inr (dst\<lparr>body := Some nb\<rparr>))))"

text \<open>The searches walk from \<open>start\<close>, or from the first header for a null \<open>start\<close>, to the end of the list.\<close>

fun find_from :: "(pjsip_hdr \<Rightarrow> bool) \<Rightarrow> nat \<Rightarrow> pjsip_hdr list \<Rightarrow> nat option" where
  "find_from P i [] = None"
| "find_from P i (h # hs) = (if P h then Some i else find_from P (Suc i) hs)"

definition find_start :: "(pjsip_hdr \<Rightarrow> bool) \<Rightarrow> pjsip_msg \<Rightarrow> nat option \<Rightarrow> nat option" where
  "find_start P msg start = (let i = (case start of None \<Rightarrow> 0 | Some j \<Rightarrow> j) in find_from P i (drop i (hdrs msg)))"

definition pjsip_msg_find_hdr :: "pjsip_msg \<Rightarrow> nat \<Rightarrow> nat option \<Rightarrow> nat option" where
  "pjsip_msg_find_hdr msg hdr_type start = find_start (\<lambda>h. h_type h = hdr_type) msg start"

definition pjsip_msg_find_hdr_by_name :: "pjsip_msg \<Rightarrow> string \<Rightarrow> nat option \<Rightarrow> nat option" where
  "pjsip_msg_find_hdr_by_name msg name start = find_start (\<lambda>h. pj_stricmp (h_name h) name = 0) msg start"

definition pjsip_msg_find_hdr_by_names :: "pjsip_msg \<Rightarrow> string \<Rightarrow> string \<Rightarrow> nat option \<Rightarrow> nat option" where
  "pjsip_msg_find_hdr_by_names msg name sname start =
     find_start (\<lambda>h. pj_stricmp (h_name h) name = 0 \<or> pj_stricmp (h_name h) sname = 0) msg start"

definition pjsip_msg_find_remove_hdr :: "pjsip_msg \<Rightarrow> nat \<Rightarrow> nat option \<Rightarrow> pjsip_hdr option \<times> pjsip_msg" where
  "pjsip_msg_find_remove_hdr msg hdr_type start =
     (case pjsip_msg_find_hdr msg hdr_type start of
        None \<Rightarrow> (None, msg)
      | Some i \<Rightarrow> (Some (hdrs msg ! i), msg\<lparr>hdrs := take i (hdrs msg) @ drop (Suc i) (hdrs msg)\<rparr>))"

section \<open>Printing a message\<close>

definition CRLF :: string where
  "CRLF = [CHR 0x0D, CHR 0x0A]"

definition clen_name :: "sip_cfg \<Rightarrow> string" where
  "clen_name cfg = (if use_compact_form cfg then ''l: '' else ''Content-Length: '')"

definition ctype_name :: "sip_cfg \<Rightarrow> string" where
  "ctype_name cfg = (if use_compact_form cfg then ''c: '' else ''Content-Type: '')"

definition print_line :: "sip_cfg \<Rightarrow> msg_line \<Rightarrow> printer" where
  "print_line cfg l =
     (case l of
        ReqLine m u \<Rightarrow>
          pr_all [
            pr_raw (m_name m),
            pr_raw '' '',
            (case pjsip_uri_get_uri u of
               Inl e \<Rightarrow> pr_fault e
             | Inr v \<Rightarrow> pr_some (pjsip_uri_print cfg IN_REQ_URI v)),
            pr_room 16,
            pr_raw ('' SIP/2.0'' @ CRLF)]
      | StatusLine code reason \<Rightarrow>
          pr_all [pr_raw ''SIP/2.0 '', pr_utoa (ulong_of code), pr_raw '' '', pr_raw reason, pr_raw CRLF])"

text \<open>A header line: a header that prints nothing has no line.\<close>

definition print_hdr_line :: "sip_cfg \<Rightarrow> pjsip_hdr \<Rightarrow> printer" where
  "print_hdr_line cfg h cap out =
     bind_res (pjsip_hdr_print_on cfg h cap out) (\<lambda>r.
       case r of
         None \<Rightarrow> Inr None
       | Some out' \<Rightarrow> if length out' = length out then Inr (Some out)
                      else pr_all [pr_room 4, pr_raw CRLF] cap out')"

text \<open>
  The length of the body is written over the five blanks behind \<open>Content-Length: \<close>, and cut to five
  characters where it has more.
\<close>

definition clen_field :: "nat \<Rightarrow> string" where
  "clen_field n = (let tmp = take 5 (pj_utoa n) in replicate (5 - length tmp) CHR '' '' @ tmp)"

definition print_body :: "sip_cfg \<Rightarrow> msg_body \<Rightarrow> printer" where
  "print_body cfg b =
     (if mt_type (content_type b) \<noteq> []
      then pr_all [
        pr_room (24 + length (mt_type (content_type b)) + length (mt_subtype (content_type b))),
        pr_raw (ctype_name cfg),
        pr_unchecked (print_media_type (content_type b)),
        pr_raw CRLF,
        pr_room (length (clen_name cfg) + 12 + 2),
        pr_raw (clen_name cfg),
        pr_raw (clen_field (length (b_data b))),
        pr_raw CRLF,
        pr_raw CRLF,
        pr_room (length (b_data b)),
        pr_raw (b_data b)]
      else pr_all [pr_raw CRLF, pr_room (length (b_data b)), pr_raw (b_data b)])"

definition pjsip_msg_print :: "sip_cfg \<Rightarrow> pjsip_msg \<Rightarrow> printer" where
  "pjsip_msg_print cfg msg =
     pr_all [
       pr_room 256,
       print_line cfg (line msg),
       pr_all (map (print_hdr_line cfg) (hdrs msg)),
       (case body msg of
          Some b \<Rightarrow> print_body cfg b
        | None \<Rightarrow> pr_all [pr_room (length (clen_name cfg) + 8), pr_raw (clen_name cfg), pr_raw ('' 0'' @ CRLF @ CRLF)]),
       pr_nul]"

section \<open>The text of a header\<close>

definition token_text :: "pjsip_param list \<Rightarrow> string" where
  "token_text ps = param_text TOKEN_SPEC TOKEN_SPEC (CHR '';'') ps"

definition opt_uri_text :: "sip_cfg \<Rightarrow> uri_context \<Rightarrow> pj_uri option \<Rightarrow> string" where
  "opt_uri_text cfg context u = (case u of None \<Rightarrow> [] | Some v \<Rightarrow> uri_text cfg context v)"

definition array_text :: "string list \<Rightarrow> string" where
  "array_text vs = (case vs of [] \<Rightarrow> [] | v # vs' \<Rightarrow> v @ concat (map (\<lambda>s. opt_text (s \<noteq> []) ('', '' @ s)) vs'))"

definition contact_text :: "sip_cfg \<Rightarrow> contact_hdr \<Rightarrow> string" where
  "contact_text cfg c =
     opt_uri_text cfg IN_CONTACT_HDR (c_uri c) @
     opt_text (q1000 c \<noteq> 0)
       ('';q='' @ show_nat (ulong_of (q1000 c sdiv 1000)) @
        opt_text (q1000 c smod 1000 \<noteq> 0) (''.'' @ show_nat (q_frac (q1000 c)))) @
     opt_text (c_expires c \<ge> 0) ('';expires='' @ show_nat (ulong_of (c_expires c))) @
     token_text (c_other_param c)"

definition media_text :: "media_type \<Rightarrow> string" where
  "media_text m = mt_type m @ ''/'' @ mt_subtype m @ token_text (mt_param m)"

definition fromto_text :: "sip_cfg \<Rightarrow> fromto_hdr \<Rightarrow> string" where
  "fromto_text cfg f =
     opt_uri_text cfg IN_FROMTO_HDR (ft_uri f) @
     opt_text (tag f \<noteq> []) ('';tag='' @ escape TOKEN_SPEC (tag f)) @ token_text (ft_other_param f)"

definition retry_after_text :: "retry_after_hdr \<Rightarrow> string" where
  "retry_after_text r =
     show_nat (ulong_of (ra_ivalue r)) @
     opt_text (ra_comment r \<noteq> [])
       (opt_text (hd (ra_comment r) \<noteq> CHR ''('') ''('' @ ra_comment r @
        opt_text (hd (ra_comment r) \<noteq> CHR ''('') '')'' @ opt_text (ra_param r \<noteq> []) '' '') @
     token_text (ra_param r)"

definition via_text :: "via_hdr \<Rightarrow> string" where
  "via_text v =
     ''SIP/2.0/'' @ map toupper_c (v_transport v) @ '' '' @ host_text (v_host v) @
     opt_text (v_port v \<noteq> 0) ('':'' @ show_nat (ulong_of (v_port v))) @
     opt_text (v_ttl_param v \<ge> 0) ('';ttl='' @ show_nat (ulong_of (v_ttl_param v))) @
     opt_text (v_rport_param v \<ge> 0)
       ('';rport'' @ opt_text (v_rport_param v > 0) (''='' @ show_nat (ulong_of (v_rport_param v)))) @
     opt_text (v_maddr_param v \<noteq> [])
       (if CHR '':'' \<in> set (v_maddr_param v) then '';maddr='' @ quoted (CHR ''['') (CHR '']'') (v_maddr_param v)
        else '';maddr='' @ v_maddr_param v) @
     opt_text (v_recvd_param v \<noteq> []) ('';received='' @ v_recvd_param v) @
     opt_text (v_branch_param v \<noteq> []) ('';branch='' @ escape TOKEN_SPEC (v_branch_param v)) @
     token_text (v_other_param v)"

definition hdr_text :: "sip_cfg \<Rightarrow> pjsip_hdr \<Rightarrow> string" where
  "hdr_text cfg h =
     (case h_val h of
        HString s \<Rightarrow> hname_of cfg h @ '': '' @ s
      | HInt i \<Rightarrow> hname_of cfg h @ '': '' @ show_nat (ulong_of i)
      | HArray vs \<Rightarrow> hname_of cfg h @ '': '' @ array_text vs
      | HClen len \<Rightarrow> hname_of cfg h @ '': '' @ show_nat (ulong_of len)
      | HCseq n m \<Rightarrow> h_name h @ '': '' @ show_nat (ulong_of n) @ '' '' @ m_name m
      | HContact c \<Rightarrow> hname_of cfg h @ (if star c then '': *'' else '':'' @ '' '' @ contact_text cfg c)
      | HCtype m \<Rightarrow> hname_of cfg h @ '': '' @ media_text m
      | HFromTo f \<Rightarrow> hname_of cfg h @ '': '' @ fromto_text cfg f
      | HRouting r \<Rightarrow>
          if route_hidden r = Inr True then []
          else h_name h @ '': '' @ uri_text cfg IN_ROUTING_HDR (UriNameAddr (ra_display r) (ra_uri r)) @
               token_text (r_other_param r)
      | HRetryAfter r \<Rightarrow> h_name h @ '': '' @ retry_after_text r
      | HVia v \<Rightarrow> hname_of cfg h @ '': '' @ via_text v)"

text \<open>
  What the printers rely on: a pointer to a URI is set, a route is not one that ends in an assertion,
  and an integer is one whose digits the 15 bytes reserved for it hold.
\<close>

definition opt_uri_ok :: "pj_uri option \<Rightarrow> bool" where
  "opt_uri_ok u = (case u of None \<Rightarrow> False | Some v \<Rightarrow> uri_ok v)"

definition hdr_ok :: "pjsip_hdr \<Rightarrow> bool" where
  "hdr_ok h =
     (case h_val h of
        HContact c \<Rightarrow> star c \<or> opt_uri_ok (c_uri c)
      | HFromTo f \<Rightarrow> opt_uri_ok (ft_uri f)
      | HRouting r \<Rightarrow> opt_uri_ok (ra_uri r) \<and> (\<exists>b. route_hidden r = Inr b)
      | HVia v \<Rightarrow> v_host v \<noteq> []
      | _ \<Rightarrow> True)"

section \<open>The printers of the headers print the text\<close>

lemma prints_all_room_text:
  assumes "prints (pr_all ps) u 24" and "n \<le> length u + 24"
  shows "prints (pr_all (pr_room n # ps)) u 24"
  using assms by (auto simp: prints_def pr_then_def pr_room_def room_def split: if_splits)

lemma prints_some_slack: "prints p t 24 \<Longrightarrow> t \<noteq> [] \<Longrightarrow> prints (pr_some p) t 24"
  by (rule prints_some)

lemma uri_text_ne: "uri_ok u \<Longrightarrow> uri_text cfg context u \<noteq> []"
  using base_uri_text_ne [of u cfg "context"] by (cases u) (auto simp: uri_text_def)

lemma prints_uri_checked: "opt_uri_ok u \<Longrightarrow> prints (uri_print_checked cfg context u) (opt_uri_text cfg context u) 24"
  using prints_some [OF prints_uri uri_text_ne]
  by (auto simp: opt_uri_ok_def uri_print_checked_def opt_uri_text_def split: option.splits)

lemma prints_token: "prints (token_params_print ps) (token_text ps) 24"
  unfolding token_params_print_def token_text_def by (rule prints_params)

lemma prints_generic_string: "prints (pjsip_generic_string_hdr_print n s) (n @ '': '' @ s) 24"
  unfolding pjsip_generic_string_hdr_print_def
  by (rule prints_all_room_text, (rule prints_all_Cons, rule prints_leaf)+, rule prints_all_end, rule prints_leaf, simp)

lemma prints_generic_int: "prints (pjsip_generic_int_hdr_print n i) (n @ '': '' @ show_nat (ulong_of i)) 24"
  unfolding pjsip_generic_int_hdr_print_def
  by (rule prints_all_room_text, intro prints_rules, simp)

lemma prints_pairs:
  "prints (pr_all (map (copy_advance_pair s1) vs)) (concat (map (\<lambda>s. opt_text (s \<noteq> []) (s1 @ s)) vs)) 24"
proof (induction vs)
  case Nil
  then show ?case by (simp add: prints_leaf)
next
  case (Cons v vs)
  show ?case unfolding list.map concat.simps by (rule prints_all_Cons, rule prints_pair_opt, rule Cons)
qed

lemma prints_array: "prints (pjsip_generic_array_hdr_print n vs) (n @ '': '' @ array_text vs) 24"
proof -
  have "prints (case vs of [] \<Rightarrow> pr_skip | v # vs' \<Rightarrow> pr_all (copy_advance_check v # map (copy_advance_pair '', '') vs'))
      (array_text vs) 24"
    unfolding array_text_def
    by (cases vs) (simp_all only: list.case prints_leaf prints_all_Cons prints_pairs)
  then show ?thesis unfolding pjsip_generic_array_hdr_print_def by (intro prints_rules)
qed

lemma prints_clen: "prints (pjsip_clen_hdr_print n len) (n @ '': '' @ show_nat (ulong_of len)) 24"
  unfolding pjsip_clen_hdr_print_def
  by (rule prints_all_room_text, (rule prints_all_Cons, rule prints_leaf)+, rule prints_all_end, rule prints_leaf, simp)

lemma prints_cseq: "prints (pjsip_cseq_hdr_print n i m) (n @ '': '' @ show_nat (ulong_of i) @ '' '' @ m_name m) 24"
  unfolding pjsip_cseq_hdr_print_def
  by (rule prints_all_room_text, (rule prints_all_Cons, rule prints_leaf)+, rule prints_all_end, rule prints_leaf, simp)

lemma prints_contact:
  assumes "star c \<or> opt_uri_ok (c_uri c)"
  shows "prints (pjsip_contact_hdr_print cfg n c) (n @ (if star c then '': *'' else '':'' @ '' '' @ contact_text cfg c)) 24"
proof (cases "star c")
  case True
  have "prints (pr_all [pr_room (length n + 6), pr_raw n, pr_raw '': *'']) (n @ '': *'') 24"
    by (rule prints_all_room_text, intro prints_rules, simp)
  with True show ?thesis by (simp only: pjsip_contact_hdr_print_def if_True)
next
  case False
  with assms have u: "opt_uri_ok (c_uri c)" by simp
  show ?thesis
    unfolding pjsip_contact_hdr_print_def contact_text_def if_not_P [OF False]
    by (rule prints_all_Cons, rule prints_leaf, rule prints_all_Cons, rule prints_leaf, rule prints_all_Cons, rule prints_leaf,
        rule prints_all_Cons, rule prints_uri_checked [OF u],
        rule prints_all_Cons, rule prints_when_opt, rule prints_all_room, simp, intro prints_rules,
        rule prints_all_Cons, rule prints_when_opt, rule prints_all_room, simp, intro prints_rules,
        rule prints_all_last, rule prints_token)
qed

lemma prints_fromto:
  assumes "opt_uri_ok (ft_uri f)"
  shows "prints (pjsip_fromto_hdr_print cfg n f) (n @ '': '' @ fromto_text cfg f) 24"
  unfolding pjsip_fromto_hdr_print_def fromto_text_def
  by (rule prints_all_Cons, rule prints_leaf, rule prints_all_Cons, rule prints_leaf,
      rule prints_all_Cons, rule prints_uri_checked [OF assms], rule prints_all_Cons, rule prints_pair_escape_opt,
      rule prints_all_last, rule prints_token)

lemma prints_routing:
  assumes "opt_uri_ok (ra_uri r)" and b: "route_hidden r = Inr b"
  shows "prints (pjsip_routing_hdr_print cfg n r)
    (if route_hidden r = Inr True then []
     else n @ '': '' @ uri_text cfg IN_ROUTING_HDR (UriNameAddr (ra_display r) (ra_uri r)) @ token_text (r_other_param r)) 24"
proof (cases b)
  case True
  with b show ?thesis by (simp add: pjsip_routing_hdr_print_def prints_leaf)
next
  case False
  with assms have "opt_uri_ok (Some (UriNameAddr (ra_display r) (ra_uri r)))"
    by (auto simp: opt_uri_ok_def split: option.splits)
  from prints_uri_checked [OF this, of cfg IN_ROUTING_HDR]
  have u: "prints (uri_print_checked cfg IN_ROUTING_HDR (Some (UriNameAddr (ra_display r) (ra_uri r))))
      (uri_text cfg IN_ROUTING_HDR (UriNameAddr (ra_display r) (ra_uri r))) 24"
    by (simp add: opt_uri_text_def)
  have "prints (pr_all [copy_advance_check n, pr_raw '': '',
        uri_print_checked cfg IN_ROUTING_HDR (Some (UriNameAddr (ra_display r) (ra_uri r))),
        token_params_print (r_other_param r)])
      (n @ '': '' @ uri_text cfg IN_ROUTING_HDR (UriNameAddr (ra_display r) (ra_uri r)) @ token_text (r_other_param r)) 24"
    by (rule prints_all_Cons, rule prints_leaf, rule prints_all_Cons, rule prints_leaf, rule prints_all_Cons, rule u,
        rule prints_all_last, rule prints_token)
  with b False show ?thesis by (simp only: pjsip_routing_hdr_print_def) simp
qed

lemma prints_retry_after: "prints (pjsip_retry_after_hdr_print n r) (n @ '': '' @ retry_after_text r) 24"
  unfolding pjsip_retry_after_hdr_print_def retry_after_text_def
  by (rule prints_all_room_text,
      rule prints_all_Cons, rule prints_leaf, rule prints_all_Cons, rule prints_leaf, rule prints_all_Cons, rule prints_leaf,
      rule prints_all_Cons, rule prints_when_opt, rule prints_all_room_text, intro prints_rules, simp,
      rule prints_all_last, rule prints_token, simp)

lemma prints_maddr_raw:
  "prints (pr_when (m \<noteq> [])
      (if CHR '':'' \<in> set m then copy_advance_pair_quote_cond '';maddr='' m (CHR ''['') (CHR '']'')
       else copy_advance_pair '';maddr='' m))
    (opt_text (m \<noteq> [])
      (if CHR '':'' \<in> set m then '';maddr='' @ quoted (CHR ''['') (CHR '']'') m else '';maddr='' @ m)) 24"
proof (rule prints_when_opt)
  assume "m \<noteq> []"
  then have "prints (copy_advance_pair '';maddr='' m) ('';maddr='' @ m) 24"
    using prints_pair_opt [of "'';maddr=''" m] by (simp add: opt_text_def)
  with \<open>m \<noteq> []\<close> show "prints (if CHR '':'' \<in> set m then copy_advance_pair_quote_cond '';maddr='' m (CHR ''['') (CHR '']'')
       else copy_advance_pair '';maddr='' m)
     (if CHR '':'' \<in> set m then '';maddr='' @ quoted (CHR ''['') (CHR '']'') m else '';maddr='' @ m) 24"
    by (intro prints_if prints_pair_quote_ne)
qed

lemma length_host_text: "length h \<le> length (host_text h)"
  by (simp add: host_text_def quoted_def)

lemma prints_via:
  assumes "v_host v \<noteq> []"
  shows "prints (pjsip_via_hdr_print n v) (n @ '': '' @ via_text v) 24"
  unfolding pjsip_via_hdr_print_def via_text_def
  by (rule prints_all_room_text,
      rule prints_all_Cons, rule prints_leaf, rule prints_all_Cons, rule prints_leaf, rule prints_all_Cons, rule prints_leaf,
      rule prints_all_Cons, rule prints_leaf, rule prints_all_Cons, rule prints_leaf,
      rule prints_all_Cons, rule prints_host [OF assms],
      rule prints_all_Cons, rule prints_when_opt, intro prints_rules,
      rule prints_all_Cons, rule prints_when_opt, rule prints_all_room, simp, intro prints_rules,
      rule prints_all_Cons, rule prints_when_opt, rule prints_all_room, simp, intro prints_rules,
      rule prints_all_Cons, rule prints_maddr_raw,
      rule prints_all_Cons, rule prints_pair_opt,
      rule prints_all_Cons, rule prints_pair_escape_opt,
      rule prints_all_last, rule prints_token, use length_host_text [of "v_host v"] in simp)

lemma prints_hdr:
  assumes "hdr_ok h" and "\<forall>m. h_val h \<noteq> HCtype m"
  shows "prints (pjsip_hdr_print_on cfg h) (hdr_text cfg h) 24"
proof (cases "h_val h")
  case (HRouting r)
  with assms obtain b where "opt_uri_ok (ra_uri r)" "route_hidden r = Inr b" by (auto simp: hdr_ok_def)
  from prints_routing [OF this] HRouting show ?thesis by (simp only: pjsip_hdr_print_on_def hdr_text_def hdr_val.case)
next
  case (HCtype m)
  with assms show ?thesis by blast
qed (unfold pjsip_hdr_print_on_def hdr_text_def, simp_all only: hdr_val.case,
    (rule prints_generic_string prints_generic_int prints_array prints_clen prints_cseq prints_retry_after |
     (rule prints_contact prints_fromto prints_via, use assms(1) in \<open>simp add: hdr_ok_def\<close>))+)

section \<open>Messages that fit\<close>

text \<open>
  \<open>fits p t k\<close>: in a buffer with room for \<open>t\<close> and \<open>k\<close> more bytes \<open>p\<close> prints \<open>t\<close>. A media type that
  does not fit makes its printers succeed with a shorter text, so nothing more holds of them.
\<close>

definition fits :: "printer \<Rightarrow> string \<Rightarrow> nat \<Rightarrow> bool" where
  "fits p t k \<longleftrightarrow> (\<forall>cap out. length out + length t + k \<le> cap \<longrightarrow> p cap out = Inr (Some (out @ t)))"

lemma prints_imp_fits: "prints p t k \<Longrightarrow> fits p t k"
  by (simp add: prints_def fits_def)

lemma fits_unchecked: "prints p t k \<Longrightarrow> fits (pr_unchecked p) t k"
  by (auto simp: prints_def fits_def pr_unchecked_def)

lemma fits_then:
  assumes "fits p t k" and "fits q u k"
  shows "fits (pr_then p q) (t @ u) k"
  unfolding fits_def
proof (intro allI impI)
  fix cap and out :: string
  assume l: "length out + length (t @ u) + k \<le> cap"
  have "p cap out = Inr (Some (out @ t))" using assms(1) l by (simp add: fits_def)
  moreover have "q cap (out @ t) = Inr (Some ((out @ t) @ u))"
    using assms(2) l unfolding fits_def by (metis add.assoc length_append)
  ultimately show "pr_then p q cap out = Inr (Some (out @ t @ u))" by (simp add: pr_then_def)
qed

lemma fits_all_Nil: "fits (pr_all []) [] 24"
  by (simp add: fits_def pr_skip_def)

lemma fits_all_Cons: "fits p t 24 \<Longrightarrow> fits (pr_all ps) u 24 \<Longrightarrow> fits (pr_all (p # ps)) (t @ u) 24"
  by (simp add: fits_then)

lemma fits_all_nul: "fits (pr_all [pr_nul]) [] 24"
  using fits_all_Cons [OF prints_imp_fits [OF prints_leaf(6)] fits_all_Nil] by simp

lemma fits_all_last: "fits p t 24 \<Longrightarrow> fits (pr_all [p]) t 24"
  using fits_all_Cons [OF _ fits_all_Nil] by simp

lemma fits_all_room:
  assumes "fits (pr_all ps) u 24" and "n \<le> length u + 24"
  shows "fits (pr_all (pr_room n # ps)) u 24"
  using assms by (auto simp: fits_def pr_then_def pr_room_def room_def)

lemmas fits_leaf = prints_imp_fits [OF prints_leaf(5)]

lemma prints_media: "prints (print_media_type m) (media_text m) 24"
  unfolding print_media_type_def media_text_def
  by ((rule prints_all_Cons, rule prints_leaf)+, rule prints_all_last, rule prints_token)

lemma fits_ctype: "fits (pjsip_ctype_hdr_print n m) (n @ '': '' @ media_text m @ []) 24"
  unfolding pjsip_ctype_hdr_print_def
  by (rule fits_all_room, rule fits_all_Cons, rule fits_leaf, rule fits_all_Cons, rule fits_leaf,
      rule fits_all_Cons, rule fits_unchecked, rule prints_media, rule fits_all_nul, simp add: media_text_def)

lemma fits_hdr:
  assumes "hdr_ok h"
  shows "fits (pjsip_hdr_print_on cfg h) (hdr_text cfg h) 24"
proof (cases "\<exists>m. h_val h = HCtype m")
  case True
  then obtain m where "h_val h = HCtype m" ..
  with fits_ctype [of "hname_of cfg h" m] show ?thesis by (simp add: pjsip_hdr_print_on_def hdr_text_def)
next
  case False
  with assms show ?thesis by (intro prints_imp_fits prints_hdr) auto
qed

text \<open>The text of a message: its line, the lines of its headers, and the end made for its body.\<close>

definition hdr_line_text :: "sip_cfg \<Rightarrow> pjsip_hdr \<Rightarrow> string" where
  "hdr_line_text cfg h = opt_text (hdr_text cfg h \<noteq> []) (hdr_text cfg h @ CRLF)"

definition line_text :: "sip_cfg \<Rightarrow> msg_line \<Rightarrow> string" where
  "line_text cfg l =
     (case l of
        ReqLine m u \<Rightarrow> m_name m @ '' '' @ base_uri_text cfg IN_REQ_URI u @ '' SIP/2.0'' @ CRLF
      | StatusLine code reason \<Rightarrow> ''SIP/2.0 '' @ show_nat (ulong_of code) @ '' '' @ reason @ CRLF)"

definition body_text :: "sip_cfg \<Rightarrow> msg_body option \<Rightarrow> string" where
  "body_text cfg b =
     (case b of
        None \<Rightarrow> clen_name cfg @ '' 0'' @ CRLF @ CRLF
      | Some b \<Rightarrow>
          if mt_type (content_type b) \<noteq> []
          then ctype_name cfg @ media_text (content_type b) @ CRLF @ clen_name cfg @
               clen_field (length (b_data b)) @ CRLF @ CRLF @ b_data b
          else CRLF @ b_data b)"

definition msg_text :: "sip_cfg \<Rightarrow> pjsip_msg \<Rightarrow> string" where
  "msg_text cfg msg =
     line_text cfg (line msg) @ concat (map (hdr_line_text cfg) (hdrs msg)) @ body_text cfg (body msg)"

definition msg_ok :: "pjsip_msg \<Rightarrow> bool" where
  "msg_ok msg \<longleftrightarrow>
     (case line msg of ReqLine m u \<Rightarrow> uri_ok u | StatusLine code reason \<Rightarrow> True) \<and> list_all hdr_ok (hdrs msg)"

lemma length_CRLF [simp]: "length CRLF = 2"
  by (simp add: CRLF_def)

lemma fits_hdr_line:
  assumes "hdr_ok h"
  shows "fits (print_hdr_line cfg h) (hdr_line_text cfg h) 24"
  using fits_hdr [OF assms, of cfg]
  by (auto simp: fits_def print_hdr_line_def hdr_line_text_def opt_text_def pr_then_def pr_room_def pr_raw_def
      pr_skip_def room_def)

lemma fits_hdr_lines:
  "list_all hdr_ok hs \<Longrightarrow>
   fits (pr_all (map (print_hdr_line cfg) hs)) (concat (map (hdr_line_text cfg) hs)) 24"
proof (induction hs)
  case Nil
  then show ?case by (simp add: fits_def pr_skip_def)
next
  case (Cons h hs)
  then have "hdr_ok h" and tl: "fits (pr_all (map (print_hdr_line cfg) hs)) (concat (map (hdr_line_text cfg) hs)) 24"
    by simp_all
  from fits_all_Cons [OF fits_hdr_line [OF this(1)] tl] show ?case by simp
qed

lemma fits_line:
  assumes "case l of ReqLine m u \<Rightarrow> uri_ok u | StatusLine code reason \<Rightarrow> True"
  shows "fits (print_line cfg l) (line_text cfg l) 24"
proof (cases l)
  case (ReqLine m u)
  with assms have "uri_ok u" by simp
  from get_uri_name_addr [OF this] obtain v where v: "pjsip_uri_get_uri u = Inr v" "uri_ok v"
    "\<forall>d w. v \<noteq> UriNameAddr d w" "base_uri_text cfg IN_REQ_URI u = base_uri_text cfg IN_REQ_URI v" by metis
  have "uri_text cfg IN_REQ_URI v = base_uri_text cfg IN_REQ_URI v"
    using v(3) by (cases v) (simp_all add: uri_text_def)
  with prints_some [OF prints_uri uri_text_ne, OF v(2) v(2), of cfg IN_REQ_URI]
  have p: "prints (pr_some (pjsip_uri_print cfg IN_REQ_URI v)) (base_uri_text cfg IN_REQ_URI v) 24" by simp
  show ?thesis
    unfolding print_line_def line_text_def ReqLine msg_line.case v(1,4) sum.case
    by (rule prints_imp_fits, rule prints_all_Cons, rule prints_leaf, rule prints_all_Cons, rule prints_leaf,
        rule prints_all_Cons, rule p, rule prints_all_room, simp, rule prints_all_last, rule prints_leaf)
next
  case (StatusLine code reason)
  show ?thesis
    unfolding print_line_def line_text_def StatusLine msg_line.case
    by (rule prints_imp_fits, intro prints_rules)
qed

lemma length_clen_field: "length (clen_field n) = 5"
  by (simp add: clen_field_def Let_def)

lemma fits_body:
  "fits (case b of Some b \<Rightarrow> print_body cfg b
          | None \<Rightarrow> pr_all [pr_room (length (clen_name cfg) + 8), pr_raw (clen_name cfg), pr_raw ('' 0'' @ CRLF @ CRLF)])
     (body_text cfg b) 24"
proof (cases b)
  case None
  show ?thesis
    unfolding body_text_def None option.case
    by (rule fits_all_room, rule fits_all_Cons, rule fits_leaf, rule fits_all_last, rule fits_leaf, simp)
next
  case (Some d)
  show ?thesis
  proof (cases "mt_type (content_type d) = []")
    case True
    then show ?thesis
      unfolding Some option.case print_body_def body_text_def
      by (simp only: simp_thms if_False)
        (rule fits_all_Cons, rule fits_leaf, rule fits_all_room, rule fits_all_last, rule fits_leaf, simp)
  next
    case False
    then show ?thesis
      unfolding Some option.case print_body_def body_text_def
      by (simp only: simp_thms if_True)
        (rule fits_all_room, rule fits_all_Cons, rule fits_leaf, rule fits_all_Cons, rule fits_unchecked, rule prints_media,
         rule fits_all_Cons, rule fits_leaf, rule fits_all_room, rule fits_all_Cons, rule fits_leaf,
         rule fits_all_Cons, rule fits_leaf, rule fits_all_Cons, rule fits_leaf, rule fits_all_Cons, rule fits_leaf,
         rule fits_all_room, rule fits_all_last, rule fits_leaf, simp_all add: media_text_def length_clen_field)
  qed
qed

lemma msg_print_fits:
  assumes "msg_ok msg" and "length (msg_text cfg msg) + 24 \<le> cap" and "256 \<le> cap"
  shows "pjsip_msg_print cfg msg cap [] = Inr (Some (msg_text cfg msg))"
proof -
  have "fits (pr_all [print_line cfg (line msg), pr_all (map (print_hdr_line cfg) (hdrs msg)),
      (case body msg of Some b \<Rightarrow> print_body cfg b
        | None \<Rightarrow> pr_all [pr_room (length (clen_name cfg) + 8), pr_raw (clen_name cfg), pr_raw ('' 0'' @ CRLF @ CRLF)]),
      pr_nul])
    (line_text cfg (line msg) @ concat (map (hdr_line_text cfg) (hdrs msg)) @ body_text cfg (body msg) @ []) 24"
    using assms(1)
    by (intro fits_all_Cons fits_line fits_hdr_lines fits_body fits_all_nul) (simp_all add: msg_ok_def)
  with assms(2,3) show ?thesis
    unfolding pjsip_msg_print_def msg_text_def
    by (subst pr_all.simps(2)) (simp add: fits_def pr_then_def pr_room_def room_def)
qed

section \<open>Clones, searches and numbers\<close>

text \<open>
  A header as its \<open>create\<close> function and the parser leave it: the clones that rebuild a header take its
  names from the table.
\<close>

definition opt_uri_whole :: "pj_uri option \<Rightarrow> bool" where
  "opt_uri_whole u = (case u of None \<Rightarrow> False | Some v \<Rightarrow> uri_whole v)"

definition hdr_wf :: "pjsip_hdr \<Rightarrow> bool" where
  "hdr_wf h =
     (case h_val h of
        HClen len \<Rightarrow> h = init_hdr PJSIP_H_CONTENT_LENGTH (h_val h)
      | HCseq n m \<Rightarrow> h = init_hdr PJSIP_H_CSEQ (h_val h)
      | HContact c \<Rightarrow> h = init_hdr PJSIP_H_CONTACT (h_val h) \<and>
                      (if star c then c = contact0\<lparr>star := True\<rparr> else opt_uri_whole (c_uri c))
      | HCtype m \<Rightarrow> h = init_hdr PJSIP_H_CONTENT_TYPE (h_val h)
      | HFromTo f \<Rightarrow> opt_uri_whole (ft_uri f)
      | HRouting r \<Rightarrow> h = init_hdr (h_type h) (h_val h) \<and> opt_uri_whole (ra_uri r)
      | HRetryAfter r \<Rightarrow> h = init_hdr PJSIP_H_RETRY_AFTER (h_val h)
      | HVia v \<Rightarrow> h = init_hdr PJSIP_H_VIA (h_val h)
      | _ \<Rightarrow> True)"

definition msg_wf :: "pjsip_msg \<Rightarrow> bool" where
  "msg_wf msg \<longleftrightarrow>
     (case line msg of ReqLine m u \<Rightarrow> uri_whole u | StatusLine code reason \<Rightarrow> True) \<and> list_all hdr_wf (hdrs msg) \<and>
     (case body msg of None \<Rightarrow> True | Some b \<Rightarrow> has_clone_data b)"

lemma clone_opt_uri_whole: "opt_uri_whole u \<Longrightarrow> clone_opt_uri u = Inr u"
  by (auto simp: opt_uri_whole_def clone_opt_uri_def uri_clone_id split: option.splits)

lemma media_type_cp_id: "pjsip_media_type_cp m = m"
  by (simp add: pjsip_media_type_cp_def param_clone_append)

lemma method_copy_id: "pjsip_method_copy m = m"
  by (simp add: pjsip_method_copy_def)

lemma init_hdr_update: "init_hdr t v\<lparr>h_val := w\<rparr> = init_hdr t w"
  by (simp add: init_hdr_def split: prod.splits)

lemmas clone_defs = pjsip_hdr_clone_def pjsip_contact_hdr_clone_def pjsip_fromto_hdr_clone_def
  pjsip_routing_hdr_clone_def pjsip_retry_after_hdr_clone_def pjsip_via_hdr_clone_def
  pjsip_clen_hdr_create_def pjsip_cseq_hdr_create_def pjsip_ctype_hdr_create_def

lemma hdr_clone_id:
  assumes "hdr_wf h"
  shows "pjsip_hdr_clone h = Inr h"
proof (cases "h_val h")
  case (HString s)
  then show ?thesis
    by (cases h) (simp add: pjsip_hdr_clone_def pjsip_generic_string_hdr_create_def
        pjsip_generic_string_hdr_init2_def named_hdr_def init_hdr_def split: prod.splits)
next
  case (HContact c)
  with assms show ?thesis
    by (cases "star c"; cases c)
      (simp_all add: hdr_wf_def pjsip_hdr_clone_def pjsip_contact_hdr_clone_def clone_opt_uri_whole param_clone_append)
next
  case (HFromTo f)
  with assms show ?thesis
    by (cases h) (simp add: hdr_wf_def pjsip_hdr_clone_def pjsip_fromto_hdr_clone_def clone_opt_uri_whole param_clone_append)
next
  case (HRouting r)
  with assms have "init_hdr (h_type h) (HRouting r) = h" "opt_uri_whole (ra_uri r)" by (simp_all add: hdr_wf_def)
  with HRouting show ?thesis
    by (cases r) (simp add: pjsip_hdr_clone_def pjsip_routing_hdr_clone_def clone_opt_uri_whole param_clone_append)
next
  case (HRetryAfter r)
  with assms show ?thesis
    by (cases r) (simp add: hdr_wf_def pjsip_hdr_clone_def pjsip_retry_after_hdr_clone_def param_clone_append)
next
  case (HVia v)
  with assms show ?thesis
    by (cases v) (simp add: hdr_wf_def pjsip_hdr_clone_def pjsip_via_hdr_clone_def param_clone_append)
qed (use assms in \<open>simp_all add: hdr_wf_def clone_defs init_hdr_update media_type_cp_id method_copy_id param_clone_append\<close>)

lemma clone_hdrs_id: "list_all hdr_wf hs \<Longrightarrow> clone_hdrs dst hs = Inr (dst\<lparr>hdrs := hdrs dst @ hs\<rparr>)"
  by (induction dst hs rule: clone_hdrs.induct) (auto simp: hdr_clone_id pjsip_msg_add_hdr_def)

lemma msg_clone_id:
  assumes "msg_wf msg"
  shows "pjsip_msg_clone msg = Inr msg"
proof -
  have l: "clone_line (line msg) = Inr (line msg)"
    using assms by (auto simp: msg_wf_def clone_line_def uri_clone_id method_copy_id split: msg_line.splits)
  have b: "\<And>b. body msg = Some b \<Longrightarrow> pjsip_msg_body_clone b = Inr b"
    using assms by (simp add: msg_wf_def pjsip_msg_body_clone_def media_type_cp_id)
  from assms have "list_all hdr_wf (hdrs msg)" by (simp add: msg_wf_def)
  from clone_hdrs_id [OF this] b show ?thesis
    unfolding pjsip_msg_clone_def l by (cases msg) (auto simp: pjsip_msg_create_def split: option.splits)
qed

lemma find_from_Some:
  "find_from P i hs = Some k \<longleftrightarrow> (\<exists>m. k = i + m \<and> m < length hs \<and> P (hs ! m) \<and> (\<forall>j<m. \<not> P (hs ! j)))"
proof (induction P i hs rule: find_from.induct)
  case (2 P i h hs)
  have ex: "(\<exists>m. Q m) \<longleftrightarrow> Q 0 \<or> (\<exists>m. Q (Suc m))" for Q :: "nat \<Rightarrow> bool"
    by (metis not0_implies_Suc)
  have "(\<exists>m. k = i + m \<and> m < length (h # hs) \<and> P ((h # hs) ! m) \<and> (\<forall>j<m. \<not> P ((h # hs) ! j))) \<longleftrightarrow>
      (if P h then k = i
       else \<exists>m. k = Suc i + m \<and> m < length hs \<and> P (hs ! m) \<and> (\<forall>j<m. \<not> P (hs ! j)))"
    by (subst ex) (auto simp: All_less_Suc2)
  with 2 show ?case by auto
qed simp

lemma find_from_None: "find_from P i hs = None \<longleftrightarrow> (\<forall>h\<in>set hs. \<not> P h)"
  by (induction P i hs rule: find_from.induct) auto

lemma find_hdr_Some:
  "pjsip_msg_find_hdr msg t (Some s) = Some k \<longleftrightarrow>
     s \<le> k \<and> k < length (hdrs msg) \<and> h_type (hdrs msg ! k) = t \<and>
     (\<forall>j. s \<le> j \<and> j < k \<longrightarrow> h_type (hdrs msg ! j) \<noteq> t)"
proof (cases "s \<le> length (hdrs msg)")
  case True
  then show ?thesis
    unfolding pjsip_msg_find_hdr_def find_start_def option.case Let_def find_from_Some
    by (auto simp: le_iff_add less_diff_conv ac_simps)
next
  case False
  then show ?thesis by (auto simp: pjsip_msg_find_hdr_def find_start_def)
qed

lemma find_hdr_start: "pjsip_msg_find_hdr msg t None = pjsip_msg_find_hdr msg t (Some 0)"
  by (simp add: pjsip_msg_find_hdr_def find_start_def)

text \<open>The value a reader of the Content-Length line finds.\<close>

lemma dropWhile_replicate_blank: "c \<noteq> CHR '' '' \<Longrightarrow> \<not> isspace_c c \<Longrightarrow>
    dropWhile isspace_c (replicate n CHR '' '' @ c # s) = c # s"
proof (induction n)
  case (Suc n)
  have "isspace_c CHR '' ''" by code_simp
  with Suc show ?case by simp
qed simp

lemma length_show_nat_ge: "10 ^ k \<le> n \<Longrightarrow> k < length (show_nat n)"
proof (rule ccontr)
  assume n: "10 ^ k \<le> n" and "\<not> k < length (show_nat n)"
  then have l: "length (show_nat n) \<le> k" by simp
  have "int n < (0 + 1) * 10 ^ length (show_nat n)"
    using digits_val_bound [of "show_nat n" 0] show_nat_digits by (simp add: digits_val_show_nat)
  also have "\<dots> \<le> 10 ^ k" using l by (simp add: power_increasing)
  finally have "n < 10 ^ k" by (metis of_nat_less_iff of_nat_numeral of_nat_power)
  with n show False by simp
qed

lemma strtol10_clen_field: "strtol10 (clen_field n) = digits_val 0 (take 5 (show_nat n))"
proof -
  obtain c t where ct: "take 5 (show_nat n) = c # t"
    using show_nat_nonempty [of n] by (cases "take 5 (show_nat n)") auto
  have dig: "isdigit_c d" if "d \<in> set (c # t)" for d
    using that ct show_nat_digits by (metis in_set_takeD)
  then have c: "\<not> isspace_c c" "c \<noteq> CHR ''-''" "c \<noteq> CHR ''+''"
    using isdigit_not_space [of c] by auto
  have d: "dropWhile isspace_c (clen_field n) = c # t"
    using dropWhile_replicate_blank [of c] c isdigit_not_space [of "CHR '' ''"] dig
    by (cases "c = CHR '' ''") (auto simp: clen_field_def Let_def ct isspace_c_def)
  have "length (c # t) \<le> 5" using ct by (metis length_take min.cobounded2)
  then have "(10::int) ^ length (c # t) \<le> 10 ^ 5" by (intro power_increasing) auto
  moreover have "digits_val 0 (c # t) < (0 + 1) * 10 ^ length (c # t)"
    using digits_val_bound [of "c # t" 0] dig by blast
  ultimately have "digits_val 0 (c # t) \<le> 2 ^ 63 - 1" by simp
  then show ?thesis unfolding strtol10_def d list.case ct using c by (simp del: digits_val.simps)
qed

section \<open>Properties\<close>

text \<open>
  C35: In a buffer of at least 256 bytes that has 24 bytes more than its text, a message whose URIs and
  hosts are there is printed as that text: request or status line, every header that is not a hidden
  route on a line of its own, Content-Type and Content-Length for a typed body, a zero Content-Length
  without one; then no byte is written outside the buffer. In a smaller one bytes may be, since some
  copies are not checked (\<open>unchecked_copies_overflow\<close>).
\<close>

theorem msg_print_text:
  assumes "msg_ok msg" and "length (msg_text cfg msg) + 24 \<le> cap" and "256 \<le> cap"
  shows "pjsip_msg_print cfg msg cap [] = Inr (Some (msg_text cfg msg))"
  using assms by (rule msg_print_fits)

definition sample_response :: pjsip_msg where
  "sample_response =
     \<lparr>line = StatusLine 200 ''OK'', hdrs = [pjsip_generic_string_hdr_create (Some ''Date'') (Some ''25-11-18'')],
      body = None\<rparr>"

theorem msg_print_text_witness:
  "pjsip_msg_print default_cfg sample_response 256 [] =
   Inr (Some (''SIP/2.0 200 OK'' @ CRLF @ ''Date: 25-11-18'' @ CRLF @ ''Content-Length:  0'' @ CRLF @ CRLF))"
proof -
  have t: "msg_text default_cfg sample_response =
      ''SIP/2.0 200 OK'' @ CRLF @ ''Date: 25-11-18'' @ CRLF @ ''Content-Length:  0'' @ CRLF @ CRLF"
    by (simp add: msg_text_def sample_response_def line_text_def body_text_def hdr_line_text_def hdr_text_def hname_of_def
        clen_name_def default_cfg_def opt_text_def pjsip_generic_string_hdr_create_def named_hdr_def init_hdr_def
        pjsip_generic_string_hdr_init2_def ulong_of_def show_nat.simps split: prod.splits)
  have "msg_ok sample_response"
    by (simp add: msg_ok_def sample_response_def hdr_ok_def pjsip_generic_string_hdr_create_def named_hdr_def init_hdr_def
        pjsip_generic_string_hdr_init2_def split: prod.splits)
  then show ?thesis using msg_print_text [of sample_response default_cfg 256] unfolding t by (simp add: CRLF_def)
qed

text \<open>
  Content-Length is written into five columns. A reader gets the length of the body from it exactly
  for bodies of fewer than 100000 bytes; of a longer length only the first five digits are kept.
\<close>

theorem content_length_five_digits: "strtol10 (clen_field n) = int n \<longleftrightarrow> n < 100000"
proof (cases "n < 100000")
  case True
  then have "length (show_nat n) \<le> 5" using show_nat_length [of n 5] by simp
  with True show ?thesis by (simp add: strtol10_clen_field digits_val_show_nat)
next
  case False
  have "digits_val 0 (take 5 (show_nat n)) < (0 + 1) * 10 ^ length (take 5 (show_nat n))"
    using digits_val_bound [of "take 5 (show_nat n)" 0] show_nat_digits in_set_takeD by (metis order_refl)
  also have "(0 + 1) * (10::int) ^ length (take 5 (show_nat n)) \<le> (0 + 1) * 10 ^ 5"
    by (intro mult_left_mono power_increasing) auto
  finally show ?thesis using False by (simp add: strtol10_clen_field)
qed

text \<open>
  C36: Cloning a message gives the same message, headers and body included, when its headers carry the
  names their type has in the table, every URI pointer is set and the body has a clone function.
\<close>

theorem msg_clone_same:
  assumes "msg_wf msg"
  shows "pjsip_msg_clone msg = Inr msg"
  using assms by (rule msg_clone_id)

theorem msg_clone_same_witness:
  "pjsip_msg_clone \<lparr>line = ReqLine \<lparr>m_id = PJSIP_REGISTER_METHOD, m_name = ''REGISTER''\<rparr> (UriSip sample_url),
       hdrs = [pjsip_expires_hdr_create 3600, pjsip_contact_hdr_create\<lparr>h_val := HContact (contact0\<lparr>star := True\<rparr>)\<rparr>],
       body = Some (pjsip_msg_body_create ''text'' ''xml'' ''<a/>'')\<rparr> =
   Inr \<lparr>line = ReqLine \<lparr>m_id = PJSIP_REGISTER_METHOD, m_name = ''REGISTER''\<rparr> (UriSip sample_url),
       hdrs = [pjsip_expires_hdr_create 3600, pjsip_contact_hdr_create\<lparr>h_val := HContact (contact0\<lparr>star := True\<rparr>)\<rparr>],
       body = Some (pjsip_msg_body_create ''text'' ''xml'' ''<a/>'')\<rparr>"
  by (rule msg_clone_same)
    (simp add: msg_wf_def hdr_wf_def pjsip_expires_hdr_create_def pjsip_contact_hdr_create_def init_hdr_def
      pjsip_msg_body_create_def sample_url_def pjsip_sip_uri_create_def split: prod.splits)

text \<open>
  \<open>pjsip_msg_find_hdr\<close> returns the first header of the type at or behind the start, and null
  exactly when there is none; \<open>pjsip_msg_find_remove_hdr\<close> takes that header, and no other, out of
  the list.
\<close>

theorem find_hdr_first:
  "(pjsip_msg_find_hdr msg t (Some s) = Some k \<longleftrightarrow>
      s \<le> k \<and> k < length (hdrs msg) \<and> h_type (hdrs msg ! k) = t \<and>
      \<not> (\<exists>j. s \<le> j \<and> j < k \<and> h_type (hdrs msg ! j) = t)) \<and>
   (pjsip_msg_find_hdr msg t None = None \<longleftrightarrow> t \<notin> set (map h_type (hdrs msg))) \<and>
   (case pjsip_msg_find_remove_hdr msg t None of
      (None, msg') \<Rightarrow> msg' = msg
    | (Some h, msg') \<Rightarrow> h_type h = t \<and> (\<exists>xs ys. hdrs msg = xs @ h # ys \<and> hdrs msg' = xs @ ys \<and> t \<notin> set (map h_type xs)))"
proof (intro conjI)
  show "pjsip_msg_find_hdr msg t (Some s) = Some k \<longleftrightarrow>
      s \<le> k \<and> k < length (hdrs msg) \<and> h_type (hdrs msg ! k) = t \<and>
      \<not> (\<exists>j. s \<le> j \<and> j < k \<and> h_type (hdrs msg ! j) = t)"
    unfolding find_hdr_Some by blast
  show "pjsip_msg_find_hdr msg t None = None \<longleftrightarrow> t \<notin> set (map h_type (hdrs msg))"
    by (auto simp: pjsip_msg_find_hdr_def find_start_def find_from_None)
  show "case pjsip_msg_find_remove_hdr msg t None of
      (None, msg') \<Rightarrow> msg' = msg
    | (Some h, msg') \<Rightarrow> h_type h = t \<and> (\<exists>xs ys. hdrs msg = xs @ h # ys \<and> hdrs msg' = xs @ ys \<and> t \<notin> set (map h_type xs))"
  proof (cases "pjsip_msg_find_hdr msg t None")
    case None
    then show ?thesis by (simp add: pjsip_msg_find_remove_hdr_def)
  next
    case (Some i)
    then have i: "i < length (hdrs msg)" "h_type (hdrs msg ! i) = t" "\<forall>j<i. h_type (hdrs msg ! j) \<noteq> t"
      by (simp_all add: find_hdr_start find_hdr_Some)
    then have "t \<notin> set (map h_type (take i (hdrs msg)))" by (auto simp: in_set_conv_nth) blast
    with i Some id_take_nth_drop [OF i(1)] show ?thesis by (auto simp: pjsip_msg_find_remove_hdr_def)
  qed
qed

text \<open>
  The q value of a Contact loses its leading zero: for \<open>q\<close> of 0.01 to 0.09 the header is printed
  exactly as for the tenfold \<open>q\<close>.
\<close>

theorem contact_q_tenfold:
  assumes "1 \<le> k" and "k \<le> 9"
  shows "pjsip_contact_hdr_print cfg n (c\<lparr>q1000 := 10 * k\<rparr>) = pjsip_contact_hdr_print cfg n (c\<lparr>q1000 := 100 * k\<rparr>)"
proof -
  have q: "(10 * k) smod 1000 = 10 * k" "(10 * k) sdiv 1000 = 0" "(100 * k) smod 1000 = 100 * k" "(100 * k) sdiv 1000 = 0"
    using assms by (simp_all add: signed_modulo_int_def signed_divide_int_def sgn_mult)
  from assms have "k = 1 \<or> k = 2 \<or> k = 3 \<or> k = 4 \<or> k = 5 \<or> k = 6 \<or> k = 7 \<or> k = 8 \<or> k = 9" by arith
  then have "q_frac (10 * k) = q_frac (100 * k)"
    unfolding q_frac_def q by (elim disjE) (simp_all add: Let_def)
  with assms(1) q show ?thesis by (simp add: pjsip_contact_hdr_print_def)
qed

theorem contact_q_tenfold_witness:
  "pjsip_contact_hdr_print default_cfg ''Contact'' (contact0\<lparr>q1000 := 50\<rparr>) =
   pjsip_contact_hdr_print default_cfg ''Contact'' (contact0\<lparr>q1000 := 500\<rparr>)"
  using contact_q_tenfold [of 5 default_cfg "''Contact''" contact0] by simp

text \<open>
  The checks of the printers leave one-byte holes: a From or To header writes its separator past
  the end of a buffer one byte longer than its name, and a request line copies a method name of any
  length without a check.
\<close>

theorem unchecked_copies_overflow:
  "pjsip_fromto_hdr_print cfg n f (length n + 1) [] = Inl OutOfBounds \<and>
   print_line cfg (ReqLine \<lparr>m_id = PJSIP_OTHER_METHOD, m_name = replicate (Suc cap) c\<rparr> u) cap [] = Inl OutOfBounds"
  by (simp add: pjsip_fromto_hdr_print_def print_line_def pr_then_def copy_advance_check_def pr_raw_def room_def)

end
