(* ===== verification/SipUtil.thy ===== *)
theory SipUtil
  imports SipMsg
begin

text \<open>
  Building and addressing messages (\<open>3rd/src/pjsip/sip_util.c\<close>, with the table of transports of
  \<open>sip_transport.c\<close>): target sets, requests, responses, ACK and CANCEL, destinations, strict routes and
  the address of a response. The allocations from the pools succeed; \<open>pjsip_endpt_create_tdata\<close>, the
  resolver and the transports are arguments.
\<close>

unbundle bit_operations_syntax

definition PJ_EPENDING :: int where "PJ_EPENDING = 70002"
definition PJSIP_ENOROUTESET :: int where "PJSIP_ENOROUTESET = 171005"
definition PJSIP_EMISSINGHDR :: int where "PJSIP_EMISSINGHDR = 171050"

section \<open>Transport types\<close>

record transport_name =
  tn_type :: nat
  tn_port :: int
  tn_name :: string
  tn_flag :: nat

definition tpn :: "nat \<Rightarrow> int \<Rightarrow> string \<Rightarrow> nat \<Rightarrow> transport_name" where
  "tpn t p n f = \<lparr>tn_type = t, tn_port = p, tn_name = n, tn_flag = f\<rparr>"

definition transport_names :: "transport_name list" where
  "transport_names =
     [tpn 0 0 ''Unspecified'' 0, tpn 1 5060 ''UDP'' 4, tpn 2 5060 ''TCP'' 1, tpn 3 5061 ''TLS'' 3,
      tpn 4 5060 ''SCTP'' 1, tpn 5 15060 ''LOOP'' 1, tpn 6 15060 ''LOOP-DGRAM'' 4, tpn 129 5060 ''UDP'' 4,
      tpn 130 5060 ''TCP'' 1, tpn 131 5061 ''TLS'' 3]"

text \<open>The entries behind these are zero: they have the type 0, a name without characters and no flags.\<close>

definition get_tpname :: "nat \<Rightarrow> transport_name res" where
  "get_tpname type = (case find (\<lambda>t. tn_type t = type) transport_names of None \<Rightarrow> Inl AssertFail | Some t \<Rightarrow> Inr t)"

definition pjsip_transport_get_type_from_name :: "string \<Rightarrow> nat res" where
  "pjsip_transport_get_type_from_name name =
     (if name = [] then Inr 0
      else case find (\<lambda>t. pj_stricmp name (tn_name t) = 0) transport_names of
             Some t \<Rightarrow> Inr (tn_type t)
           | None \<Rightarrow> Inl AssertFail)"

definition pjsip_transport_get_type_from_flag :: "nat \<Rightarrow> nat res" where
  "pjsip_transport_get_type_from_flag flag =
     (case find (\<lambda>t. tn_flag t = flag) transport_names of Some t \<Rightarrow> Inr (tn_type t) | None \<Rightarrow> Inl AssertFail)"

definition pjsip_transport_get_flag_from_type :: "nat \<Rightarrow> nat res" where
  "pjsip_transport_get_flag_from_type type = bind_res (get_tpname type) (\<lambda>t. Inr (tn_flag t))"

definition pjsip_transport_get_default_port_for_type :: "nat \<Rightarrow> int res" where
  "pjsip_transport_get_default_port_for_type type = bind_res (get_tpname type) (\<lambda>t. Inr (tn_port t))"

section \<open>Target sets\<close>

record target =
  t_uri :: pj_uri
  t_q1000 :: int
  t_code :: int
  t_reason :: string

text \<open>The scan of \<open>pjsip_target_set_add_uri\<close>: \<open>None\<close> for a duplicate, else the place to insert before.\<close>

fun target_scan :: "pj_uri \<Rightarrow> int \<Rightarrow> nat option \<Rightarrow> nat \<Rightarrow> target list \<Rightarrow> nat option option res" where
  "target_scan uri q pos i [] = Inr (Some pos)"
| "target_scan uri q pos i (t # ts) =
     bind_res (pjsip_uri_cmp IN_REQ_URI (t_uri t) uri) (\<lambda>c.
       if c = PJ_SUCCESS then Inr None
       else target_scan uri q (if pos = None \<and> t_q1000 t < q then Some i else pos) (Suc i) ts)"

definition pjsip_target_set_add_uri :: "target list \<Rightarrow> pj_uri \<Rightarrow> int \<Rightarrow> (int \<times> target list) res" where
  "pjsip_target_set_add_uri tset uri q =
     (let q = (if q \<le> 0 then 1000 else q)
      in bind_res (target_scan uri q None 0 tset) (\<lambda>r.
           case r of
             None \<Rightarrow> Inr (PJ_EEXISTS, tset)
           | Some pos \<Rightarrow>
               bind_res (pjsip_uri_clone uri) (\<lambda>u.
                 let t = \<lparr>t_uri = u, t_q1000 = q, t_code = 0, t_reason = []\<rparr>
                 in Inr (PJ_SUCCESS, case pos of None \<Rightarrow> tset @ [t] | Some k \<Rightarrow> take k tset @ t # drop k tset))))"

fun add_contacts :: "target list \<Rightarrow> bool \<Rightarrow> pjsip_hdr list \<Rightarrow> (bool \<times> target list) res" where
  "add_contacts tset added [] = Inr (added, tset)"
| "add_contacts tset added (h # hs) =
     (if h_type h = PJSIP_H_CONTACT
      then (case h_val h of
              HContact c \<Rightarrow>
                if star c then add_contacts tset added hs
                else (case c_uri c of
                        None \<Rightarrow> Inl NullDeref
                      | Some u \<Rightarrow>
                          bind_res (pjsip_target_set_add_uri tset u (q1000 c)) (\<lambda>(rc, tset').
                            add_contacts tset' (added \<or> rc = PJ_SUCCESS) hs))
            | _ \<Rightarrow> Inl OutOfBounds)
      else add_contacts tset added hs)"

definition pjsip_target_set_add_from_msg :: "target list \<Rightarrow> pjsip_msg \<Rightarrow> (int \<times> target list) res" where
  "pjsip_target_set_add_from_msg tset msg =
     bind_res (add_contacts tset False (hdrs msg)) (\<lambda>(added, tset').
       Inr (if added then PJ_SUCCESS else PJ_EEXISTS, tset'))"

definition status_in_class :: "int \<Rightarrow> int \<Rightarrow> bool" where
  "status_in_class code class \<longleftrightarrow> code sdiv 100 = class sdiv 100"

fun target_next :: "nat option \<Rightarrow> nat \<Rightarrow> target list \<Rightarrow> nat option" where
  "target_next nxt i [] = nxt"
| "target_next nxt i (t # ts) =
     (if status_in_class (t_code t) 200 then None
      else if status_in_class (t_code t) 600 then None
      else target_next (if t_code t = 0 \<and> nxt = None then Some i else nxt) (Suc i) ts)"

definition pjsip_target_set_get_next :: "target list \<Rightarrow> nat option" where
  "pjsip_target_set_get_next tset = target_next None 0 tset"

definition pjsip_target_assign_status :: "target \<Rightarrow> int \<Rightarrow> string \<Rightarrow> target res" where
  "pjsip_target_assign_status target code reason =
     (if code = 0 then Inl AssertFail else Inr (target\<lparr>t_code := code, t_reason := reason\<rparr>))"

section \<open>Requests\<close>

record tx_data =
  t_msg :: pjsip_msg
  saved_strict_route :: "pjsip_hdr option"

definition pjsip_msg_insert_first_hdr :: "pjsip_msg \<Rightarrow> pjsip_hdr \<Rightarrow> pjsip_msg" where
  "pjsip_msg_insert_first_hdr msg h = msg\<lparr>hdrs := h # hdrs msg\<rparr>"

definition fromto_of :: "pjsip_hdr \<Rightarrow> fromto_hdr res" where
  "fromto_of h = (case h_val h of HFromTo f \<Rightarrow> Inr f | _ \<Rightarrow> Inl OutOfBounds)"

definition uri_header_params :: "pj_uri \<Rightarrow> pjsip_param list res" where
  "uri_header_params u =
     bind_res (pjsip_uri_get_scheme u) (\<lambda>scheme.
       if pj_stricmp scheme ''sip'' = 0 \<or> pj_stricmp scheme ''sips'' = 0
       then bind_res (pjsip_uri_get_uri u) (\<lambda>v. case v of UriSip url \<Rightarrow> Inr (header_param url) | _ \<Rightarrow> Inl OutOfBounds)
       else Inr [])"

text \<open>
  \<open>endpt\<close> are the request headers of the endpoint, \<open>rport\<close> whether \<open>disable_rport\<close> is off, \<open>unique\<close> the
  tag \<open>pj_create_unique_string\<close> makes where the From header has none.
\<close>

definition init_request ::
    "pjsip_hdr list \<Rightarrow> bool \<Rightarrow> string \<Rightarrow> pjsip_method \<Rightarrow> pj_uri \<Rightarrow> pjsip_hdr \<Rightarrow> pjsip_hdr \<Rightarrow> pjsip_hdr option \<Rightarrow>
     pjsip_hdr \<Rightarrow> pjsip_hdr \<Rightarrow> string option \<Rightarrow> pjsip_msg res" where
  "init_request endpt rport unique method target from_h to_h contact_h call_id cseq txt =
     bind_res (fromto_of from_h) (\<lambda>f.
       let from_h = from_h\<lparr>h_val := HFromTo (if tag f = [] then f\<lparr>tag := unique\<rparr> else f)\<rparr>;
           msg = (pjsip_msg_create (ReqLine method target))\<lparr>hdrs := endpt\<rparr>;
           msg = pjsip_msg_add_hdr (pjsip_msg_add_hdr msg from_h) to_h;
           msg = (case contact_h of None \<Rightarrow> msg | Some c \<Rightarrow> pjsip_msg_add_hdr msg c);
           msg = pjsip_msg_add_hdr (pjsip_msg_add_hdr msg call_id) cseq;
           via = pjsip_via_hdr_create\<lparr>h_val := HVia (via0\<lparr>v_rport_param := (if rport then 0 else -1)\<rparr>)\<rparr>;
           msg = pjsip_msg_insert_first_hdr msg via
       in bind_res (uri_header_params target) (\<lambda>ps.
            let msg = msg\<lparr>hdrs := hdrs msg @ map (\<lambda>p. pjsip_generic_string_hdr_create (Some (fst p)) (Some (snd p))) ps\<rparr>
            in Inr (case txt of
                      None \<Rightarrow> msg
                    | Some t \<Rightarrow> msg\<lparr>body := Some ((pjsip_msg_body_create ''text'' ''plain'' t)\<lparr>has_clone_data := False\<rparr>)\<rparr>)))"

text \<open>
  \<open>alloc\<close> is the status of \<open>pjsip_endpt_create_tdata\<close>, \<open>rand\<close> the result of \<open>pj_rand\<close>, \<open>uniq\<close> the strings
  made for the Call-ID and the tag.
\<close>

definition pjsip_endpt_create_request_from_hdr ::
    "int \<Rightarrow> pjsip_hdr list \<Rightarrow> bool \<Rightarrow> string \<times> string \<Rightarrow> int \<Rightarrow> pjsip_method \<Rightarrow> pj_uri \<Rightarrow> pjsip_hdr \<Rightarrow> pjsip_hdr \<Rightarrow>
     pjsip_hdr option \<Rightarrow> string option \<Rightarrow> int \<Rightarrow> string option \<Rightarrow> (int \<times> tx_data option) res" where
  "pjsip_endpt_create_request_from_hdr alloc endpt rport uniq rand method target from_h to_h contact_h call_id cseq txt =
     (if alloc \<noteq> PJ_SUCCESS then Inr (alloc, None)
      else bind_res (pjsip_uri_clone target) (\<lambda>tgt.
           bind_res (pjsip_hdr_clone from_h) (\<lambda>f. let f = pjsip_fromto_hdr_set_from f in
           bind_res (pjsip_hdr_clone to_h) (\<lambda>t. let t = pjsip_fromto_hdr_set_to t in
           bind_res (case contact_h of None \<Rightarrow> Inr None | Some c \<Rightarrow> bind_res (pjsip_hdr_clone c) (\<lambda>d. Inr (Some d))) (\<lambda>c.
             let cid = pjsip_cid_hdr_init (case call_id of Some i \<Rightarrow> if i \<noteq> [] then i else fst uniq | None \<Rightarrow> fst uniq);
                 n = (if cseq \<ge> 0 then cseq else rand smod 0xFFFF);
                 cs = pjsip_cseq_hdr_create\<lparr>h_val := HCseq n (pjsip_method_copy method)\<rparr>
             in bind_res (init_request endpt rport (snd uniq) (pjsip_method_copy method) tgt f t c cid cs txt) (\<lambda>msg.
                  Inr (PJ_SUCCESS, Some \<lparr>t_msg = msg, saved_strict_route = None\<rparr>)))))))"

section \<open>Responses\<close>

text \<open>
  A received message: the pointers of \<open>msg_info\<close> are indices of the headers of the message; the
  transport it came over has a type and flags.
\<close>

record rx_data =
  rx_msg :: pjsip_msg
  rx_via :: "nat option"
  rx_from :: "nat option"
  rx_to :: "nat option"
  rx_cseq :: "nat option"
  rx_cid :: "nat option"
  tp_type :: nat
  tp_flag :: nat
  src_addr :: string

definition hdr_at :: "pjsip_msg \<Rightarrow> nat option \<Rightarrow> pjsip_hdr res" where
  "hdr_at msg p =
     (case p of None \<Rightarrow> Inl NullDeref | Some i \<Rightarrow> if i < length (hdrs msg) then Inr (hdrs msg ! i) else Inl OutOfBounds)"

text \<open>The loops over all headers of a type, from one header on.\<close>

fun copy_typed :: "nat \<Rightarrow> pjsip_hdr list \<Rightarrow> pjsip_msg \<Rightarrow> pjsip_msg res" where
  "copy_typed t [] dst = Inr dst"
| "copy_typed t (h # hs) dst =
     (if h_type h = t then bind_res (pjsip_hdr_clone h) (\<lambda>c. copy_typed t hs (pjsip_msg_add_hdr dst c))
      else copy_typed t hs dst)"

definition copy_from :: "nat \<Rightarrow> pjsip_msg \<Rightarrow> nat option \<Rightarrow> pjsip_msg \<Rightarrow> pjsip_msg res" where
  "copy_from t src p dst =
     (case p of
        None \<Rightarrow> Inr dst
      | Some i \<Rightarrow>
          bind_res (hdr_at src (Some i)) (\<lambda>h.
          bind_res (pjsip_hdr_clone h) (\<lambda>c. copy_typed t (drop (Suc i) (hdrs src)) (pjsip_msg_add_hdr dst c))))"

definition branch_of :: "pjsip_hdr \<Rightarrow> string res" where
  "branch_of h = (case h_val h of HVia v \<Rightarrow> Inr (v_branch_param v) | _ \<Rightarrow> Inl OutOfBounds)"

definition tagged_to :: "pjsip_hdr \<Rightarrow> int \<Rightarrow> pjsip_hdr res option \<Rightarrow> pjsip_hdr res" where
  "tagged_to to_h st_code top_via =
     bind_res (fromto_of to_h) (\<lambda>f.
       case top_via of
         None \<Rightarrow> Inr to_h
       | Some v \<Rightarrow>
           if tag f = [] \<and> st_code > 100
           then bind_res v (\<lambda>h. bind_res (branch_of h) (\<lambda>b. Inr (to_h\<lparr>h_val := HFromTo (f\<lparr>tag := b\<rparr>)\<rparr>)))
           else Inr to_h)"

definition pjsip_endpt_create_response ::
    "int \<Rightarrow> rx_data \<Rightarrow> int \<Rightarrow> string option \<Rightarrow> (int \<times> tx_data option) res" where
  "pjsip_endpt_create_response alloc rdata st_code st_text =
     (if \<not> (100 \<le> st_code \<and> st_code \<le> 699) then Inl AssertFail
      else case line (rx_msg rdata) of
        StatusLine c r \<Rightarrow> Inl AssertFail
      | ReqLine m u \<Rightarrow>
          if m_id m = PJSIP_ACK_METHOD then Inl AssertFail
          else if alloc \<noteq> PJ_SUCCESS then Inr (alloc, None)
          else
            let req = rx_msg rdata;
                msg = pjsip_msg_create (StatusLine st_code
                        (case st_text of Some t \<Rightarrow> t | None \<Rightarrow> pjsip_get_status_text st_code))
            in bind_res (copy_from PJSIP_H_VIA req (rx_via rdata) msg) (\<lambda>msg.
               bind_res (copy_from PJSIP_H_RECORD_ROUTE req (pjsip_msg_find_hdr req PJSIP_H_RECORD_ROUTE None) msg) (\<lambda>msg.
               bind_res (hdr_at req (pjsip_msg_find_hdr req PJSIP_H_CALL_ID None)) (\<lambda>h.
               bind_res (pjsip_hdr_clone h) (\<lambda>h. let msg = pjsip_msg_add_hdr msg h in
               bind_res (hdr_at req (rx_from rdata)) (\<lambda>h.
               bind_res (pjsip_hdr_clone h) (\<lambda>h. let msg = pjsip_msg_add_hdr msg h in
               bind_res (hdr_at req (rx_to rdata)) (\<lambda>h.
               bind_res (pjsip_hdr_clone h) (\<lambda>h.
               bind_res (tagged_to h st_code (case rx_via rdata of None \<Rightarrow> None | Some i \<Rightarrow> Some (hdr_at req (Some i)))) (\<lambda>h.
               let msg = pjsip_msg_add_hdr msg h in
               bind_res (hdr_at req (rx_cseq rdata)) (\<lambda>h.
               bind_res (pjsip_hdr_clone h) (\<lambda>h. let msg = pjsip_msg_add_hdr msg h in
                 Inr (PJ_SUCCESS, Some \<lparr>t_msg = msg, saved_strict_route = None\<rparr>)))))))))))))"

record response_addr =
  ra_transport :: bool
  ra_addr :: string
  ra_type :: nat
  ra_flag :: nat
  ra_host :: string
  ra_port :: int

definition via_of :: "pjsip_hdr \<Rightarrow> via_hdr res" where
  "via_of h = (case h_val h of HVia v \<Rightarrow> Inr v | _ \<Rightarrow> Inl OutOfBounds)"

text \<open>The port in the sent-by value, or the default one.\<close>

definition port_or :: "int \<Rightarrow> int res \<Rightarrow> int res" where
  "port_or p d = (if p = 0 then d else Inr p)"

definition pjsip_get_response_addr :: "rx_data \<Rightarrow> (int \<times> response_addr) res" where
  "pjsip_get_response_addr rdata =
     (case line (rx_msg rdata) of
        StatusLine c r \<Rightarrow> Inl AssertFail
      | ReqLine m u \<Rightarrow>
          bind_res (hdr_at (rx_msg rdata) (rx_via rdata)) (\<lambda>h.
          bind_res (via_of h) (\<lambda>v.
            let addr = (\<lambda>conn host port. \<lparr>ra_transport = conn, ra_addr = (if conn then src_addr rdata else []),
                          ra_type = tp_type rdata, ra_flag = tp_flag rdata, ra_host = host, ra_port = port\<rparr>);
                default_port = pjsip_transport_get_default_port_for_type (tp_type rdata)
            in if v_recvd_param v = [] then Inl AssertFail
               else if tp_flag rdata AND 1 \<noteq> 0
               then bind_res (port_or (v_port v) default_port) (\<lambda>p. Inr (PJ_SUCCESS, addr True (v_recvd_param v) p))
               else if v_maddr_param v \<noteq> []
               then Inr (PJ_SUCCESS, addr False (v_maddr_param v) (if v_port v = 0 then 5060 else v_port v))
               else if v_rport_param v \<ge> 0
               then bind_res (port_or (v_port v) default_port) (\<lambda>p. Inr (PJ_SUCCESS, addr True (v_recvd_param v) p))
               else bind_res (port_or (v_port v) default_port) (\<lambda>p. Inr (PJ_SUCCESS, addr False (v_recvd_param v) p)))))"

text \<open>
  \<open>pjsip_endpt_send_response\<close> returns a status and how many references to the message it has given
  back so far; \<open>send\<close> is the status of \<open>pjsip_transport_send\<close>. The other references are given back by
  the callbacks of the transport and the resolver.
\<close>

definition pjsip_endpt_send_response :: "response_addr \<Rightarrow> int \<Rightarrow> int \<times> nat" where
  "pjsip_endpt_send_response res_addr send =
     (if ra_transport res_addr
      then (if send = PJ_SUCCESS then (PJ_SUCCESS, 1)
            else if send = PJ_EPENDING then (PJ_SUCCESS, 0)
            else (send, 0))
      else (PJ_SUCCESS, 0))"

section \<open>ACK and CANCEL\<close>

fun erase_typed :: "nat \<Rightarrow> pjsip_hdr list \<Rightarrow> pjsip_hdr list" where
  "erase_typed t [] = []"
| "erase_typed t (h # hs) = (if h_type h = t then erase_typed t hs else h # erase_typed t hs)"

definition find_named :: "pjsip_msg \<Rightarrow> nat \<Rightarrow> pjsip_hdr option" where
  "find_named msg t = map_option (\<lambda>i. hdrs msg ! i) (pjsip_msg_find_hdr msg t None)"

definition cseq_of :: "pjsip_hdr option \<Rightarrow> int res" where
  "cseq_of h = (case h of None \<Rightarrow> Inl NullDeref | Some h \<Rightarrow> (case h_val h of HCseq n m \<Rightarrow> Inr n | _ \<Rightarrow> Inl OutOfBounds))"

definition cid_of :: "pjsip_hdr option \<Rightarrow> string option res" where
  "cid_of h = (case h of None \<Rightarrow> Inr None | Some h \<Rightarrow> (case h_val h of HString s \<Rightarrow> Inr (Some s) | _ \<Rightarrow> Inl OutOfBounds))"

text \<open>
  The part both share: the assertions of \<open>create_ack\<close> and \<open>create_cancel\<close> look at the To header where
  they mean Call-ID and CSeq.
\<close>

definition request_like ::
    "int \<Rightarrow> pjsip_hdr list \<Rightarrow> bool \<Rightarrow> string \<times> string \<Rightarrow> int \<Rightarrow> pjsip_method \<Rightarrow> pjsip_msg \<Rightarrow> (int \<times> tx_data option) res" where
  "request_like alloc endpt rport uniq rand method msg =
     (case line msg of
        StatusLine c r \<Rightarrow> Inl OutOfBounds
      | ReqLine m u \<Rightarrow>
          (case (find_named msg PJSIP_H_FROM, find_named msg PJSIP_H_TO) of
             (Some f, Some t) \<Rightarrow>
               bind_res (cseq_of (find_named msg PJSIP_H_CSEQ)) (\<lambda>n.
               bind_res (cid_of (find_named msg PJSIP_H_CALL_ID)) (\<lambda>i.
                 pjsip_endpt_create_request_from_hdr alloc endpt rport uniq rand method u f t None i n None))
           | _ \<Rightarrow> Inl AssertFail))"

definition set_to_tag :: "string \<Rightarrow> pjsip_msg \<Rightarrow> pjsip_msg res" where
  "set_to_tag g msg =
     (case pjsip_msg_find_hdr msg PJSIP_H_TO None of
        None \<Rightarrow> Inl NullDeref
      | Some i \<Rightarrow>
          bind_res (fromto_of (hdrs msg ! i)) (\<lambda>f.
            Inr (msg\<lparr>hdrs := (hdrs msg)[i := (hdrs msg ! i)\<lparr>h_val := HFromTo (f\<lparr>tag := g\<rparr>)\<rparr>]\<rparr>)))"

definition pjsip_endpt_create_ack ::
    "int \<Rightarrow> pjsip_hdr list \<Rightarrow> bool \<Rightarrow> string \<times> string \<Rightarrow> int \<Rightarrow> pjsip_msg \<Rightarrow> rx_data \<Rightarrow> (int \<times> tx_data option) res" where
  "pjsip_endpt_create_ack alloc endpt rport uniq rand invite rdata =
     (case line (rx_msg rdata) of
        ReqLine m u \<Rightarrow> Inl AssertFail
      | StatusLine c r \<Rightarrow>
          if c < 300 then Inl AssertFail
          else bind_res (request_like alloc endpt rport uniq rand \<lparr>m_id = PJSIP_ACK_METHOD, m_name = ''ACK''\<rparr> invite) (\<lambda>(st, td).
            case td of
              None \<Rightarrow> Inr (st, None)
            | Some td \<Rightarrow>
                bind_res (hdr_at (rx_msg rdata) (rx_to rdata)) (\<lambda>to_h.
                bind_res (fromto_of to_h) (\<lambda>f.
                bind_res (set_to_tag (tag f) (t_msg td)) (\<lambda>msg. let msg = msg\<lparr>hdrs := erase_typed PJSIP_H_VIA (hdrs msg)\<rparr> in
                bind_res (hdr_at invite (pjsip_msg_find_hdr invite PJSIP_H_VIA None)) (\<lambda>v.
                bind_res (pjsip_hdr_clone v) (\<lambda>v. let msg = pjsip_msg_insert_first_hdr msg v in
                bind_res (copy_from PJSIP_H_ROUTE invite (pjsip_msg_find_hdr invite PJSIP_H_ROUTE None) msg) (\<lambda>msg.
                  Inr (PJ_SUCCESS, Some (td\<lparr>t_msg := msg\<rparr>))))))))))"

definition pjsip_endpt_create_cancel ::
    "int \<Rightarrow> pjsip_hdr list \<Rightarrow> bool \<Rightarrow> string \<times> string \<Rightarrow> int \<Rightarrow> tx_data \<Rightarrow> (int \<times> tx_data option) res" where
  "pjsip_endpt_create_cancel alloc endpt rport uniq rand req =
     (case line (t_msg req) of
        StatusLine c r \<Rightarrow> Inl AssertFail
      | ReqLine m u \<Rightarrow>
          if m_id m \<noteq> PJSIP_INVITE_METHOD then Inl AssertFail
          else bind_res (request_like alloc endpt rport uniq rand \<lparr>m_id = PJSIP_CANCEL_METHOD, m_name = ''CANCEL''\<rparr> (t_msg req))
            (\<lambda>(st, td).
              case td of
                None \<Rightarrow> Inr (st, None)
              | Some td \<Rightarrow>
                  let msg = (t_msg td)\<lparr>hdrs := erase_typed PJSIP_H_VIA (hdrs (t_msg td))\<rparr> in
                  bind_res (case find_named (t_msg req) PJSIP_H_VIA of
                              None \<Rightarrow> Inr msg
                            | Some v \<Rightarrow> bind_res (pjsip_hdr_clone v) (\<lambda>v. Inr (pjsip_msg_insert_first_hdr msg v))) (\<lambda>msg.
                  bind_res (copy_from PJSIP_H_ROUTE (t_msg req) (pjsip_msg_find_hdr (t_msg req) PJSIP_H_ROUTE None) msg) (\<lambda>msg.
                  bind_res (case saved_strict_route req of
                              None \<Rightarrow> Inr None
                            | Some r \<Rightarrow> bind_res (pjsip_hdr_clone r) (\<lambda>r. Inr (Some r))) (\<lambda>saved.
                    Inr (PJ_SUCCESS, Some (td\<lparr>t_msg := msg, saved_strict_route := saved\<rparr>)))))))"

section \<open>Destinations and routes\<close>

record host_info =
  d_flag :: nat
  d_type :: nat
  d_host :: string
  d_port :: int

definition scheme_is :: "string \<Rightarrow> pj_uri \<Rightarrow> bool res" where
  "scheme_is s u = bind_res (pjsip_uri_get_scheme u) (\<lambda>scheme. Inr (pj_stricmp scheme s = 0))"

definition sip_uri_of :: "pj_uri \<Rightarrow> sip_uri res" where
  "sip_uri_of u = bind_res (pjsip_uri_get_uri u) (\<lambda>v. case v of UriSip url \<Rightarrow> Inr url | _ \<Rightarrow> Inl OutOfBounds)"

text \<open>\<open>tls_switch\<close>: whether \<open>disable_tls_switch\<close> is 0.\<close>

definition pjsip_get_dest_info :: "bool \<Rightarrow> pj_uri \<Rightarrow> pj_uri option \<Rightarrow> (int \<times> host_info) res" where
  "pjsip_get_dest_info tls_switch target_uri request_uri =
     (let none = \<lparr>d_flag = 0, d_type = 0, d_host = [], d_port = 0\<rparr>;
          with_host = (\<lambda>url. if maddr_param url \<noteq> [] then maddr_param url else host url);
          ipv6 = (\<lambda>d. if d_type d \<noteq> 0 \<and> CHR '':'' \<in> set (d_host d) then d\<lparr>d_type := d_type d OR 128\<rparr> else d) in
      bind_res (scheme_is ''sips'' target_uri) (\<lambda>t_sips.
      bind_res (if t_sips then Inr True
                else if tls_switch then (case request_uri of None \<Rightarrow> Inr False | Some r \<Rightarrow> scheme_is ''sips'' r)
                else Inr False) (\<lambda>sips.
      if sips
      then bind_res (sip_uri_of target_uri) (\<lambda>url.
           bind_res (pjsip_transport_get_type_from_name (transport_param url)) (\<lambda>ty.
           bind_res (pjsip_transport_get_flag_from_type ty) (\<lambda>flag.
           bind_res (if flag AND 3 \<noteq> 3
                     then bind_res (pjsip_transport_get_type_from_flag 3) (\<lambda>t. Inr (if t \<noteq> 0 then t else ty))
                     else Inr ty) (\<lambda>ty.
             Inr (PJ_SUCCESS, ipv6 \<lparr>d_flag = 3, d_type = ty, d_host = with_host url, d_port = port url\<rparr>)))))
      else bind_res (scheme_is ''sip'' target_uri) (\<lambda>sip.
           if sip
           then bind_res (sip_uri_of target_uri) (\<lambda>url.
                bind_res (pjsip_transport_get_type_from_name (transport_param url)) (\<lambda>ty.
                bind_res (pjsip_transport_get_flag_from_type ty) (\<lambda>flag.
                  Inr (PJ_SUCCESS, ipv6 \<lparr>d_flag = flag, d_type = ty, d_host = with_host url, d_port = port url\<rparr>))))
           else Inr (PJSIP_ENOROUTESET, none)))))"

definition routing_of :: "pjsip_hdr \<Rightarrow> routing_hdr res" where
  "routing_of h = (case h_val h of HRouting r \<Rightarrow> Inr r | _ \<Rightarrow> Inl OutOfBounds)"

definition request_uri :: "pjsip_msg \<Rightarrow> pj_uri res" where
  "request_uri msg = (case line msg of ReqLine m u \<Rightarrow> Inr u | StatusLine c r \<Rightarrow> Inl AssertFail)"

definition set_request_uri :: "pj_uri \<Rightarrow> pjsip_msg \<Rightarrow> pjsip_msg" where
  "set_request_uri v msg = (case line msg of ReqLine m u \<Rightarrow> msg\<lparr>line := ReqLine m v\<rparr> | StatusLine c r \<Rightarrow> msg)"

definition pjsip_get_request_dest :: "bool \<Rightarrow> tx_data \<Rightarrow> (int \<times> host_info) res" where
  "pjsip_get_request_dest tls_switch tdata =
     bind_res (request_uri (t_msg tdata)) (\<lambda>req.
       case find_named (t_msg tdata) PJSIP_H_ROUTE of
         None \<Rightarrow> pjsip_get_dest_info tls_switch req (Some req)
       | Some h \<Rightarrow>
           bind_res (routing_of h) (\<lambda>r.
             case ra_uri r of None \<Rightarrow> Inl NullDeref | Some u \<Rightarrow> pjsip_get_dest_info tls_switch u (Some req)))"

text \<open>The loop that walks from the first Route header to the last one.\<close>

function last_route :: "pjsip_msg \<Rightarrow> nat \<Rightarrow> nat" where
  "last_route msg i =
     (if Suc i < length (hdrs msg)
      then (case pjsip_msg_find_hdr msg PJSIP_H_ROUTE (Some (Suc i)) of
              None \<Rightarrow> i
            | Some j \<Rightarrow> last_route msg j)
      else i)"
  by pat_completeness auto
termination
  by (relation "measure (\<lambda>(msg, i). length (hdrs msg) - i)") (auto simp: find_hdr_Some)

declare last_route.simps [simp del]

definition insert_at :: "nat \<Rightarrow> 'a \<Rightarrow> 'a list \<Rightarrow> 'a list" where
  "insert_at i x xs = take i xs @ x # drop i xs"

definition erase_at :: "nat \<Rightarrow> 'a list \<Rightarrow> 'a list" where
  "erase_at i xs = take i xs @ drop (Suc i) xs"

definition pjsip_restore_strict_route_set :: "tx_data \<Rightarrow> tx_data res" where
  "pjsip_restore_strict_route_set tdata =
     (case saved_strict_route tdata of
        None \<Rightarrow> Inr tdata
      | Some saved \<Rightarrow>
          (case pjsip_msg_find_hdr (t_msg tdata) PJSIP_H_ROUTE None of
             None \<Rightarrow> Inl AssertFail
           | Some i \<Rightarrow>
               let msg = t_msg tdata; j = last_route msg i in
               bind_res (routing_of (hdrs msg ! j)) (\<lambda>r.
               bind_res (case ra_uri r of None \<Rightarrow> Inl NullDeref | Some u \<Rightarrow> Inr u) (\<lambda>u.
                 let msg = set_request_uri u msg;
                     msg = msg\<lparr>hdrs := erase_at (Suc j) (insert_at i saved (hdrs msg))\<rparr>
                 in Inr (tdata\<lparr>t_msg := msg, saved_strict_route := None\<rparr>)))))"

text \<open>
  The first part of \<open>pjsip_process_route_set\<close>: the URI to send to and, for a first route without
  \<open>lr\<close>, its URI with the place of the last route; that first route leaves the message.
\<close>

definition is_loose :: "pj_uri \<Rightarrow> bool res" where
  "is_loose topmost =
     bind_res (scheme_is ''sip'' topmost) (\<lambda>sip.
     bind_res (scheme_is ''sips'' topmost) (\<lambda>sips.
       if sip \<or> sips then bind_res (sip_uri_of topmost) (\<lambda>url. Inr (lr_param url \<noteq> 0)) else Inr False))"

definition route_choice :: "tx_data \<Rightarrow> pj_uri \<Rightarrow> (pj_uri \<times> (pj_uri \<times> nat option) option \<times> tx_data) res" where
  "route_choice tdata req =
     (let msg = t_msg tdata in
      case pjsip_msg_find_hdr msg PJSIP_H_ROUTE None of
        None \<Rightarrow> Inr (req, None, tdata)
      | Some i \<Rightarrow>
          bind_res (routing_of (hdrs msg ! i)) (\<lambda>r. let topmost = UriNameAddr (ra_display r) (ra_uri r) in
          bind_res (is_loose topmost) (\<lambda>has_lr.
            if has_lr then Inr (topmost, None, tdata)
            else bind_res (pjsip_uri_get_uri topmost) (\<lambda>u.
              Inr (topmost, Some (u, if last_route msg i = i then None else Some (last_route msg i - 1)),
                   tdata\<lparr>t_msg := msg\<lparr>hdrs := erase_at i (hdrs msg)\<rparr>, saved_strict_route := Some (hdrs msg ! i)\<rparr>)))))"

text \<open>The last part: the strict route becomes the request URI, the request URI the last route.\<close>

definition swap_route :: "pj_uri \<times> nat option \<Rightarrow> pj_uri \<Rightarrow> tx_data \<Rightarrow> tx_data res" where
  "swap_route strict req tdata =
     bind_res (pjsip_uri_get_uri req) (\<lambda>req_uri.
       let route = pjsip_route_hdr_create\<lparr>h_val := HRouting (routing0\<lparr>ra_uri := Some req_uri\<rparr>)\<rparr>;
           m = t_msg tdata;
           m = m\<lparr>hdrs := (case snd strict of None \<Rightarrow> hdrs m @ [route] | Some k \<Rightarrow> insert_at (Suc k) route (hdrs m))\<rparr>
       in Inr (tdata\<lparr>t_msg := set_request_uri (fst strict) m\<rparr>))"

text \<open>\<open>tp_sel\<close>: the type of the selected transport or listener.\<close>

definition pjsip_process_route_set :: "bool \<Rightarrow> nat option \<Rightarrow> tx_data \<Rightarrow> (int \<times> host_info \<times> tx_data) res" where
  "pjsip_process_route_set tls_switch tp_sel tdata =
     bind_res (request_uri (t_msg tdata)) (\<lambda>req0.
     bind_res (pjsip_restore_strict_route_set tdata) (\<lambda>tdata.
     bind_res (request_uri (t_msg tdata)) (\<lambda>req.
     bind_res (route_choice tdata req) (\<lambda>(target_uri, strict, tdata).
     bind_res (pjsip_get_dest_info tls_switch target_uri (Some (case strict of None \<Rightarrow> req | Some (u, l) \<Rightarrow> u)))
       (\<lambda>(st, dest).
         if st \<noteq> PJ_SUCCESS then Inr (st, dest, tdata)
         else let dest = (case tp_sel of None \<Rightarrow> dest | Some ty \<Rightarrow> dest\<lparr>d_type := ty\<rparr>)
              in case strict of
                   None \<Rightarrow> Inr (PJ_SUCCESS, dest, tdata)
                 | Some sr \<Rightarrow> bind_res (swap_route sr req tdata) (\<lambda>tdata. Inr (PJ_SUCCESS, dest, tdata)))))))"

section \<open>Stateless responses\<close>

fun add_clones :: "pjsip_hdr list \<Rightarrow> pjsip_msg \<Rightarrow> pjsip_msg res" where
  "add_clones [] msg = Inr msg"
| "add_clones (h # hs) msg = bind_res (pjsip_hdr_clone h) (\<lambda>c. add_clones hs (pjsip_msg_add_hdr msg c))"

text \<open>The result is the status, and the message sent with how many references have been given back.\<close>

definition pjsip_endpt_respond_stateless ::
    "int \<Rightarrow> int \<Rightarrow> rx_data \<Rightarrow> int \<Rightarrow> string option \<Rightarrow> pjsip_hdr list \<Rightarrow> msg_body option \<Rightarrow>
     (int \<times> (tx_data \<times> nat) option) res" where
  "pjsip_endpt_respond_stateless alloc send rdata st_code st_text hdr_list b =
     bind_res (pjsip_endpt_create_response alloc rdata st_code st_text) (\<lambda>(st, td).
       case td of
         None \<Rightarrow> Inr (st, None)
       | Some td \<Rightarrow>
           bind_res (add_clones hdr_list (t_msg td)) (\<lambda>msg.
           bind_res (case b of None \<Rightarrow> Inr msg | Some b \<Rightarrow> bind_res (pjsip_msg_body_clone b) (\<lambda>nb. Inr (msg\<lparr>body := Some nb\<rparr>)))
             (\<lambda>msg. let td = td\<lparr>t_msg := msg\<rparr> in
               bind_res (pjsip_get_response_addr rdata) (\<lambda>(st, addr).
                 if st \<noteq> PJ_SUCCESS then Inr (st, Some (td, 1))
                 else case pjsip_endpt_send_response addr send of
                   (st, n) \<Rightarrow> if st \<noteq> PJ_SUCCESS then Inr (st, Some (td, n + 1)) else Inr (PJ_SUCCESS, Some (td, n))))))"

section \<open>Lemmas on target sets\<close>

abbreviation q_sorted :: "target list \<Rightarrow> bool" where
  "q_sorted \<equiv> sorted_wrt (\<lambda>a b. t_q1000 b \<le> t_q1000 a)"

lemma target_scan_Some:
  assumes "target_scan uri q pos i ts = Inr (Some p)"
  shows "(\<forall>t\<in>set ts. \<exists>c. pjsip_uri_cmp IN_REQ_URI (t_uri t) uri = Inr c \<and> c \<noteq> PJ_SUCCESS) \<and>
    (case pos of
       Some k \<Rightarrow> p = Some k
     | None \<Rightarrow> (case p of
                  None \<Rightarrow> \<forall>t\<in>set ts. q \<le> t_q1000 t
                | Some k \<Rightarrow> \<exists>xs y ys. ts = xs @ y # ys \<and> k = i + length xs \<and> t_q1000 y < q \<and> (\<forall>t\<in>set xs. q \<le> t_q1000 t)))"
  using assms
proof (induction uri q pos i ts arbitrary: p rule: target_scan.induct)
  case (1 uri q pos i)
  then show ?case by (auto split: option.splits)
next
  case (2 uri q pos i t ts)
  from "2.prems" obtain c where c: "pjsip_uri_cmp IN_REQ_URI (t_uri t) uri = Inr c" "c \<noteq> PJ_SUCCESS"
    "target_scan uri q (if pos = None \<and> t_q1000 t < q then Some i else pos) (Suc i) ts = Inr (Some p)"
    by (auto simp: bind_res_Inr_iff split: if_splits)
  note ih = "2.IH" [OF c(1) c(2) c(3)]
  show ?case
  proof (cases "pos = None \<and> t_q1000 t < q")
    case True
    with ih c(1,2) have "p = Some i" by simp
    with True ih c(1,2) show ?thesis by (auto intro: exI [of _ "[]"])
  next
    case False
    show ?thesis
    proof (cases "pos = None \<and> p \<noteq> None")
      case True
      then obtain k where p: "pos = None" "p = Some k" by auto
      with False ih obtain xs y ys where
        "ts = xs @ y # ys" "k = Suc i + length xs" "t_q1000 y < q" "\<forall>t\<in>set xs. q \<le> t_q1000 t" by auto
      with p False have "t # ts = (t # xs) @ y # ys \<and> k = i + length (t # xs) \<and> t_q1000 y < q \<and>
          (\<forall>u\<in>set (t # xs). q \<le> t_q1000 u)" by auto
      then have "\<exists>xs y ys. t # ts = xs @ y # ys \<and> k = i + length xs \<and> t_q1000 y < q \<and> (\<forall>u\<in>set xs. q \<le> t_q1000 u)"
        by blast
      with p ih False c(1,2) show ?thesis by simp
    next
      case False
      with \<open>\<not> (pos = None \<and> t_q1000 t < q)\<close> ih c(1,2) show ?thesis by (cases pos) auto
    qed
  qed
qed

section \<open>Lemmas on copied headers\<close>

lemma copy_typed_eq:
  "list_all hdr_wf hs \<Longrightarrow> copy_typed t hs dst = Inr (dst\<lparr>hdrs := hdrs dst @ filter (\<lambda>h. h_type h = t) hs\<rparr>)"
  by (induction t hs dst rule: copy_typed.induct) (auto simp: hdr_clone_id pjsip_msg_add_hdr_def)

lemma find_hdr_filter:
  "filter (\<lambda>h. h_type h = t) (hdrs msg) =
     (case pjsip_msg_find_hdr msg t None of
        None \<Rightarrow> []
      | Some i \<Rightarrow> hdrs msg ! i # filter (\<lambda>h. h_type h = t) (drop (Suc i) (hdrs msg)))"
proof (cases "pjsip_msg_find_hdr msg t None")
  case None
  then have "\<forall>h\<in>set (hdrs msg). h_type h \<noteq> t"
    by (simp add: pjsip_msg_find_hdr_def find_start_def find_from_None)
  with None show ?thesis by (simp add: filter_empty_conv)
next
  case (Some i)
  then have i: "i < length (hdrs msg)" "h_type (hdrs msg ! i) = t" "\<forall>j<i. h_type (hdrs msg ! j) \<noteq> t"
    by (simp_all add: find_hdr_start find_hdr_Some)
  then have "filter (\<lambda>h. h_type h = t) (take i (hdrs msg)) = []"
    by (auto simp: filter_empty_conv in_set_conv_nth)
  with i Some show ?thesis
    by (subst id_take_nth_drop [OF i(1)]) simp
qed

lemma copy_from_eq:
  assumes "list_all hdr_wf (hdrs src)"
  shows "copy_from t src (pjsip_msg_find_hdr src t None) dst =
    Inr (dst\<lparr>hdrs := hdrs dst @ filter (\<lambda>h. h_type h = t) (hdrs src)\<rparr>)"
proof (cases "pjsip_msg_find_hdr src t None")
  case None
  then show ?thesis using find_hdr_filter [of t src] by (simp add: copy_from_def)
next
  case (Some i)
  then have "i < length (hdrs src)" by (simp add: find_hdr_start find_hdr_Some)
  moreover from this assms have "hdr_wf (hdrs src ! i)" by (simp add: list_all_length)
  moreover have "list_all hdr_wf (drop (Suc i) (hdrs src))"
    using assms by (auto simp: list_all_iff dest: in_set_dropD)
  ultimately show ?thesis
    using Some find_hdr_filter [of t src]
    by (simp add: copy_from_def hdr_at_def hdr_clone_id copy_typed_eq pjsip_msg_add_hdr_def)
qed

section \<open>Lemmas on routes\<close>

abbreviation is_route :: "pjsip_hdr \<Rightarrow> bool" where
  "is_route h \<equiv> h_type h = PJSIP_H_ROUTE"

lemma last_route_eq:
  assumes "i \<le> j" and "j < length (hdrs msg)" and "is_route (hdrs msg ! j)"
    and "\<forall>k. j < k \<and> k < length (hdrs msg) \<longrightarrow> \<not> is_route (hdrs msg ! k)"
  shows "last_route msg i = j"
  using assms
proof (induction msg i rule: last_route.induct)
  case (1 msg i)
  show ?case
  proof (cases "i = j")
    case True
    then have "pjsip_msg_find_hdr msg PJSIP_H_ROUTE (Some (Suc i)) = None"
      using "1.prems"(4) by (metis find_hdr_Some not_None_eq Suc_le_eq)
    then show ?thesis using True by (simp add: last_route.simps [of msg j])
  next
    case False
    with "1.prems" have l: "Suc i \<le> j" "Suc i < length (hdrs msg)" by auto
    have "pjsip_msg_find_hdr msg PJSIP_H_ROUTE (Some (Suc i)) \<noteq> None"
    proof
      assume "pjsip_msg_find_hdr msg PJSIP_H_ROUTE (Some (Suc i)) = None"
      then have "\<forall>h\<in>set (drop (Suc i) (hdrs msg)). \<not> is_route h"
        by (simp add: pjsip_msg_find_hdr_def find_start_def find_from_None)
      moreover have "hdrs msg ! j \<in> set (drop (Suc i) (hdrs msg))"
        using l "1.prems"(2) nth_mem [of "j - Suc i" "drop (Suc i) (hdrs msg)"] by simp
      ultimately show False using "1.prems"(3) by blast
    qed
    then obtain k where k: "pjsip_msg_find_hdr msg PJSIP_H_ROUTE (Some (Suc i)) = Some k" by auto
    then have "k \<le> j" using "1.prems" l by (metis find_hdr_Some not_le_imp_less)
    from "1.IH" [OF l(2) k this "1.prems"(2-4)] k l(2) show ?thesis by (simp add: last_route.simps [of msg i])
  qed
qed

lemma find_route_decomp:
  assumes "hdrs msg = A @ h # B" and "\<forall>x\<in>set A. \<not> is_route x" and "is_route h"
  shows "pjsip_msg_find_hdr msg PJSIP_H_ROUTE None = Some (length A)"
  using assms by (auto simp: find_hdr_start find_hdr_Some nth_append)

lemma last_route_decomp:
  assumes "hdrs msg = A @ E @ h # D" and "\<forall>x\<in>set D. \<not> is_route x" and "is_route h"
  shows "last_route msg (length A) = length A + length E"
proof (rule last_route_eq)
  show "\<forall>k. length A + length E < k \<and> k < length (hdrs msg) \<longrightarrow> \<not> is_route (hdrs msg ! k)"
  proof (intro allI impI)
    fix k assume k: "length A + length E < k \<and> k < length (hdrs msg)"
    have "hdrs msg = (A @ E @ [h]) @ D" using assms(1) by simp
    then have "hdrs msg ! k = D ! (k - length (A @ E @ [h]))"
      using k by (simp only: nth_append) simp
    moreover have "D ! (k - length (A @ E @ [h])) \<in> set D"
      using k assms(1) by (intro nth_mem) (simp, arith)
    ultimately show "\<not> is_route (hdrs msg ! k)" using assms(2) by metis
  qed
qed (use assms in \<open>simp_all add: nth_append\<close>)

lemma restore_decomp:
  assumes "hdrs (t_msg td) = A @ E @ nw # D" and "\<forall>x\<in>set A. \<not> is_route x" and "\<forall>x\<in>set D. \<not> is_route x"
    and "is_route nw" and "E = [] \<or> is_route (hd E)" and "saved_strict_route td = Some s"
    and "h_val nw = HRouting r" and "ra_uri r = Some u"
  shows "pjsip_restore_strict_route_set td =
    Inr (td\<lparr>t_msg := set_request_uri u (t_msg td)\<lparr>hdrs := A @ s # E @ D\<rparr>, saved_strict_route := None\<rparr>)"
proof -
  have f: "pjsip_msg_find_hdr (t_msg td) PJSIP_H_ROUTE None = Some (length A)"
  proof (cases E)
    case Nil
    with assms show ?thesis by (intro find_route_decomp [where B = D and h = nw]) simp_all
  next
    case (Cons e es)
    with assms show ?thesis by (intro find_route_decomp [where B = "es @ nw # D" and h = e]) simp_all
  qed
  have l: "last_route (t_msg td) (length A) = length A + length E"
    using assms(1,3,4) by (rule last_route_decomp)
  have n: "hdrs (t_msg td) ! (length A + length E) = nw" by (simp add: assms(1) nth_append)
  have "hdrs (set_request_uri u (t_msg td)) = hdrs (t_msg td)"
    by (simp add: set_request_uri_def split: msg_line.splits)
  then have h: "erase_at (Suc (length A + length E)) (insert_at (length A) s (hdrs (set_request_uri u (t_msg td)))) = A @ s # E @ D"
    by (simp add: assms(1) erase_at_def insert_at_def)
  show ?thesis
    unfolding pjsip_restore_strict_route_set_def assms(6) option.case f l Let_def n
    using assms(7,8) h by (simp add: routing_of_def)
qed

text \<open>What \<open>pjsip_process_route_set\<close> has done to a message with a strict first route when it succeeds.\<close>

lemma last_route_ge: "i \<le> last_route msg i"
proof (induction msg i rule: last_route.induct)
  case (1 msg i)
  show ?case
  proof (cases "Suc i < length (hdrs msg)")
    case True
    show ?thesis
    proof (cases "pjsip_msg_find_hdr msg PJSIP_H_ROUTE (Some (Suc i))")
      case None
      with True show ?thesis by (simp add: last_route.simps [of msg i])
    next
      case (Some j)
      then have "Suc i \<le> j" by (simp add: find_hdr_Some)
      with "1.IH" [OF True Some] Some True show ?thesis by (simp add: last_route.simps [of msg i])
    qed
  qed (simp add: last_route.simps [of msg i])
qed

lemma route_choice_strict:
  assumes "route_choice td req = Inr (target, strict, td1)" and "saved_strict_route td = None"
  shows "case strict of
      None \<Rightarrow> td1 = td
    | Some sr \<Rightarrow> \<exists>i. pjsip_msg_find_hdr (t_msg td) PJSIP_H_ROUTE None = Some i \<and>
        snd sr = (if last_route (t_msg td) i = i then None else Some (last_route (t_msg td) i - 1)) \<and>
        td1 = td\<lparr>t_msg := t_msg td\<lparr>hdrs := erase_at i (hdrs (t_msg td))\<rparr>, saved_strict_route := Some (hdrs (t_msg td) ! i)\<rparr>"
proof (cases "pjsip_msg_find_hdr (t_msg td) PJSIP_H_ROUTE None")
  case None
  with assms show ?thesis by (simp add: route_choice_def)
next
  case (Some i)
  then obtain r where r: "routing_of (hdrs (t_msg td) ! i) = Inr r"
    using assms(1) by (cases "routing_of (hdrs (t_msg td) ! i)") (simp_all add: route_choice_def)
  with Some obtain b where b: "is_loose (UriNameAddr (ra_display r) (ra_uri r)) = Inr b"
    using assms(1) by (cases "is_loose (UriNameAddr (ra_display r) (ra_uri r))") (simp_all add: route_choice_def Let_def)
  show ?thesis
  proof (cases b)
    case True
    with assms(1) Some r b have "strict = None" "td1 = td" by (simp_all add: route_choice_def Let_def)
    then show ?thesis by simp
  next
    case False
    with assms(1) Some r b show ?thesis
      by (cases "pjsip_uri_get_uri (UriNameAddr (ra_display r) (ra_uri r))") (auto simp: route_choice_def Let_def)
  qed
qed

lemma process_strict:
  assumes p: "pjsip_process_route_set tls tp_sel td = Inr (PJ_SUCCESS, dest, td')"
    and s: "saved_strict_route td = None" and l: "line (t_msg td) = ReqLine m req"
    and u: "pjsip_uri_get_uri req = Inr req" and s': "saved_strict_route td' \<noteq> None"
  obtains i v nw where
    "pjsip_msg_find_hdr (t_msg td) PJSIP_H_ROUTE None = Some i"
    "saved_strict_route td' = Some (hdrs (t_msg td) ! i)"
    "h_val nw = HRouting (routing0\<lparr>ra_uri := Some req\<rparr>)" "is_route nw"
    "t_msg td' = (t_msg td)\<lparr>line := ReqLine m v, hdrs :=
       (if last_route (t_msg td) i = i then erase_at i (hdrs (t_msg td)) @ [nw]
        else insert_at (last_route (t_msg td) i) nw (erase_at i (hdrs (t_msg td))))\<rparr>"
proof -
  define nw where "nw = pjsip_route_hdr_create\<lparr>h_val := HRouting (routing0\<lparr>ra_uri := Some req\<rparr>)\<rparr>"
  have nw: "is_route nw" "h_val nw = HRouting (routing0\<lparr>ra_uri := Some req\<rparr>)"
    by (simp_all add: nw_def pjsip_route_hdr_create_def init_hdr_def split: prod.splits)
  have rest: "pjsip_restore_strict_route_set td = Inr td" by (simp add: pjsip_restore_strict_route_set_def s)
  have req: "request_uri (t_msg td) = Inr req" by (simp add: request_uri_def l)
  from p obtain target strict td1 where c: "route_choice td req = Inr (target, strict, td1)"
    and r: "case strict of None \<Rightarrow> td' = td1 | Some sr \<Rightarrow> swap_route sr req td1 = Inr td'"
    by (fastforce simp: pjsip_process_route_set_def rest req bind_res_Inr_iff Let_def split: if_splits option.splits)
  note rc = route_choice_strict [OF c s]
  obtain sr where sr: "strict = Some sr" using rc r s s' by (cases strict) auto
  obtain i where i: "pjsip_msg_find_hdr (t_msg td) PJSIP_H_ROUTE None = Some i"
    "snd sr = (if last_route (t_msg td) i = i then None else Some (last_route (t_msg td) i - 1))"
    "td1 = td\<lparr>t_msg := t_msg td\<lparr>hdrs := erase_at i (hdrs (t_msg td))\<rparr>, saved_strict_route := Some (hdrs (t_msg td) ! i)\<rparr>"
    using rc sr by auto
  have suc: "Suc (last_route (t_msg td) i - 1) = last_route (t_msg td) i" if "last_route (t_msg td) i \<noteq> i"
    using last_route_ge [of i "t_msg td"] that by simp
  have sw: "swap_route sr req td1 = Inr td'" using r sr by simp
  have "td' = td1\<lparr>t_msg := (t_msg td)\<lparr>line := ReqLine m (fst sr), hdrs :=
       (if last_route (t_msg td) i = i then erase_at i (hdrs (t_msg td)) @ [nw]
        else insert_at (last_route (t_msg td) i) nw (erase_at i (hdrs (t_msg td))))\<rparr>\<rparr>"
    using sw [symmetric] i(2,3) l suc
    by (cases "last_route (t_msg td) i = i") (simp_all add: swap_route_def u Let_def nw_def set_request_uri_def)
  with i nw show ?thesis by (intro that [of i nw "fst sr"]) simp_all
qed

lemma filter_routes_split:
  assumes "\<exists>x\<in>set xs. is_route x"
  obtains ys h zs where "xs = ys @ h # zs" "is_route h" "\<forall>x\<in>set zs. \<not> is_route x"
  using assms split_list_last_prop [of xs is_route] by blast

lemma filter_none: "\<forall>x\<in>set xs. \<not> P x \<Longrightarrow> filter P xs = []"
  by (simp add: filter_empty_conv)

lemma strict_restored:
  assumes h: "hdrs (t_msg td) = pre @ R # mid" and p: "\<forall>x\<in>set pre. \<not> is_route x" and R: "is_route R"
    and i: "i = length pre" and nw: "is_route nw" "h_val nw = HRouting r" "ra_uri r = Some u"
    and s: "saved_strict_route td' = Some R"
    and m: "t_msg td' = (t_msg td)\<lparr>line := ReqLine m v, hdrs :=
       (if last_route (t_msg td) i = i then erase_at i (hdrs (t_msg td)) @ [nw]
        else insert_at (last_route (t_msg td) i) nw (erase_at i (hdrs (t_msg td))))\<rparr>"
  shows "\<exists>hs. pjsip_restore_strict_route_set td' =
      Inr (td'\<lparr>t_msg := (t_msg td)\<lparr>line := ReqLine m u, hdrs := hs\<rparr>, saved_strict_route := None\<rparr>) \<and>
    filter is_route hs = filter is_route (hdrs (t_msg td)) \<and>
    filter (\<lambda>x. \<not> is_route x) hs = filter (\<lambda>x. \<not> is_route x) (hdrs (t_msg td))"
proof (cases "\<exists>x\<in>set mid. is_route x")
  case False
  then have d: "\<forall>x\<in>set mid. \<not> is_route x" by blast
  have l: "last_route (t_msg td) i = i"
    using last_route_decomp [of "t_msg td" pre "[]" R mid] h d R i by simp
  have e: "erase_at i (hdrs (t_msg td)) = pre @ mid" by (simp add: erase_at_def h i)
  have "hdrs (t_msg td') = (pre @ mid) @ [] @ nw # []" by (simp add: m l e)
  from restore_decomp [OF this _ _ nw(1) _ s nw(2,3)] p d
  have "pjsip_restore_strict_route_set td' =
      Inr (td'\<lparr>t_msg := (t_msg td)\<lparr>line := ReqLine m u, hdrs := (pre @ mid) @ [R]\<rparr>, saved_strict_route := None\<rparr>)"
    by (auto simp: m set_request_uri_def)
  moreover have "filter is_route ((pre @ mid) @ [R]) = filter is_route (hdrs (t_msg td))"
    using p d R by (simp add: h filter_none)
  moreover have "filter (\<lambda>x. \<not> is_route x) ((pre @ mid) @ [R]) = filter (\<lambda>x. \<not> is_route x) (hdrs (t_msg td))"
    using R by (simp add: h)
  ultimately show ?thesis by blast
next
  case True
  then obtain m1 n m2 where mid: "mid = m1 @ n # m2" "is_route n" "\<forall>x\<in>set m2. \<not> is_route x"
    by (rule filter_routes_split)
  have l: "last_route (t_msg td) i = length pre + length (R # m1)"
    using last_route_decomp [of "t_msg td" pre "R # m1" n m2] h mid i by simp
  have e: "erase_at i (hdrs (t_msg td)) = pre @ m1 @ n # m2" by (simp add: erase_at_def h i mid)
  define A where "A = pre @ takeWhile (\<lambda>x. \<not> is_route x) (m1 @ [n])"
  define E where "E = dropWhile (\<lambda>x. \<not> is_route x) (m1 @ [n])"
  have E: "E \<noteq> []" "is_route (hd E)"
    using mid(2) by (auto simp: E_def dropWhile_eq_Nil_conv intro: hd_dropWhile [of "\<lambda>x. \<not> is_route x", simplified])
  have A: "\<forall>x\<in>set A. \<not> is_route x" using p by (auto simp: A_def dest: set_takeWhileD)
  have AE: "pre @ m1 @ [n] = A @ E" by (simp add: A_def E_def)
  have "hdrs (t_msg td') = pre @ m1 @ n # nw # m2"
    using l i by (simp add: m e [unfolded i] insert_at_def)
  also have "\<dots> = (pre @ m1 @ [n]) @ nw # m2" by simp
  finally have "hdrs (t_msg td') = A @ E @ nw # m2" unfolding AE by simp
  from restore_decomp [OF this A mid(3) nw(1) _ s nw(2,3)] E
  have "pjsip_restore_strict_route_set td' =
      Inr (td'\<lparr>t_msg := (t_msg td)\<lparr>line := ReqLine m u, hdrs := A @ R # E @ m2\<rparr>, saved_strict_route := None\<rparr>)"
    by (auto simp: m set_request_uri_def)
  moreover have "filter is_route (A @ R # E @ m2) = filter is_route (hdrs (t_msg td))"
  proof -
    have "filter is_route (A @ E) = filter is_route (pre @ m1 @ [n])" by (simp only: AE)
    then have "filter is_route E = filter is_route (m1 @ [n])" using A p by (simp add: filter_none)
    then show ?thesis using A p R by (simp add: h mid filter_none)
  qed
  moreover have "filter (\<lambda>x. \<not> is_route x) (A @ R # E @ m2) = filter (\<lambda>x. \<not> is_route x) (hdrs (t_msg td))"
  proof -
    have "filter (\<lambda>x. \<not> is_route x) (A @ R # E @ m2) = filter (\<lambda>x. \<not> is_route x) (A @ E) @ filter (\<lambda>x. \<not> is_route x) m2"
      using R by simp
    also have "\<dots> = filter (\<lambda>x. \<not> is_route x) (hdrs (t_msg td))"
      unfolding AE [symmetric] using R by (simp add: h mid)
    finally show ?thesis .
  qed
  ultimately show ?thesis by blast
qed

section \<open>Properties\<close>

text \<open>
  C30: \<open>pjsip_restore_strict_route_set\<close> undoes \<open>pjsip_process_route_set\<close> on a message with a strict
  first route: the request URI is the old one, the Route headers are the old ones in the old order, and
  so are the other headers; only the places of the routes among the other headers may differ.
\<close>

theorem strict_route_roundtrip:
  assumes "pjsip_process_route_set tls tp_sel td = Inr (PJ_SUCCESS, dest, td')"
    and "saved_strict_route td = None" and "line (t_msg td) = ReqLine m req" and "pjsip_uri_get_uri req = Inr req"
    and "saved_strict_route td' \<noteq> None"
  shows "\<exists>td''. pjsip_restore_strict_route_set td' = Inr td'' \<and> saved_strict_route td'' = None \<and>
     line (t_msg td'') = ReqLine m req \<and> body (t_msg td'') = body (t_msg td) \<and>
     filter is_route (hdrs (t_msg td'')) = filter is_route (hdrs (t_msg td)) \<and>
     filter (\<lambda>x. \<not> is_route x) (hdrs (t_msg td'')) = filter (\<lambda>x. \<not> is_route x) (hdrs (t_msg td))"
proof -
  from assms obtain i v nw where i: "pjsip_msg_find_hdr (t_msg td) PJSIP_H_ROUTE None = Some i"
    and s: "saved_strict_route td' = Some (hdrs (t_msg td) ! i)"
    and nw: "h_val nw = HRouting (routing0\<lparr>ra_uri := Some req\<rparr>)" "is_route nw"
    and m: "t_msg td' = (t_msg td)\<lparr>line := ReqLine m v, hdrs :=
       (if last_route (t_msg td) i = i then erase_at i (hdrs (t_msg td)) @ [nw]
        else insert_at (last_route (t_msg td) i) nw (erase_at i (hdrs (t_msg td))))\<rparr>"
    by (rule process_strict)
  from i have j: "i < length (hdrs (t_msg td))" "is_route (hdrs (t_msg td) ! i)"
    "\<forall>k<i. \<not> is_route (hdrs (t_msg td) ! k)"
    by (simp_all add: find_hdr_start find_hdr_Some)
  have h: "hdrs (t_msg td) = take i (hdrs (t_msg td)) @ hdrs (t_msg td) ! i # drop (Suc i) (hdrs (t_msg td))"
    using j(1) by (rule id_take_nth_drop)
  have p: "\<forall>x\<in>set (take i (hdrs (t_msg td))). \<not> is_route x"
    using j(1,3) by (auto simp: in_set_conv_nth)
  have "i = length (take i (hdrs (t_msg td)))" using j(1) by simp
  from strict_restored [OF h p j(2) this nw(2,1) _ s m, of req] show ?thesis by auto
qed

definition sample_url2 :: sip_uri where
  "sample_url2 = (pjsip_sip_uri_create False)\<lparr>host := ''p.org''\<rparr>"

definition routed :: tx_data where
  "routed =
     \<lparr>t_msg = \<lparr>line = ReqLine \<lparr>m_id = PJSIP_OPTIONS_METHOD, m_name = ''OPTIONS''\<rparr> (UriSip sample_url),
              hdrs = [pjsip_route_hdr_create\<lparr>h_val := HRouting (routing0\<lparr>ra_uri := Some (UriSip sample_url2)\<rparr>)\<rparr>],
              body = None\<rparr>, saved_strict_route = None\<rparr>"

theorem strict_route_roundtrip_witness:
  "\<exists>dest td' td''. pjsip_process_route_set True None routed = Inr (PJ_SUCCESS, dest, td') \<and>
     line (t_msg td') = ReqLine \<lparr>m_id = PJSIP_OPTIONS_METHOD, m_name = ''OPTIONS''\<rparr> (UriSip sample_url2) \<and>
     pjsip_restore_strict_route_set td' = Inr td'' \<and> line (t_msg td'') = line (t_msg routed)"
proof -
  have f: "pjsip_msg_find_hdr (t_msg routed) PJSIP_H_ROUTE None = Some 0"
    by (simp add: routed_def pjsip_msg_find_hdr_def find_start_def pjsip_route_hdr_create_def init_hdr_def split: prod.splits)
  have l: "last_route (t_msg routed) 0 = 0" by (simp add: last_route.simps [of _ 0] routed_def)
  have st: "pj_stricmp ''sip'' ''sips'' \<noteq> 0" by code_simp
  have tn: "get_tpname 0 = Inr (tpn 0 0 ''Unspecified'' 0)" by (simp add: get_tpname_def transport_names_def tpn_def)
  define nw where "nw = pjsip_route_hdr_create\<lparr>h_val := HRouting (routing0\<lparr>ra_uri := Some (UriSip sample_url)\<rparr>)\<rparr>"
  have p: "pjsip_process_route_set True None routed =
      Inr (PJ_SUCCESS, \<lparr>d_flag = 0, d_type = 0, d_host = ''p.org'', d_port = 0\<rparr>,
           routed\<lparr>t_msg := (t_msg routed)\<lparr>line := ReqLine \<lparr>m_id = PJSIP_OPTIONS_METHOD, m_name = ''OPTIONS''\<rparr> (UriSip sample_url2),
                                          hdrs := [nw]\<rparr>,
                  saved_strict_route := Some (hdrs (t_msg routed) ! 0)\<rparr>)"
    using f l st
    by (simp add: pjsip_process_route_set_def pjsip_restore_strict_route_set_def route_choice_def is_loose_def scheme_is_def
        sip_uri_of_def swap_route_def pjsip_get_dest_info_def pjsip_transport_get_type_from_name_def
        pjsip_transport_get_flag_from_type_def tn tpn_def request_uri_def set_request_uri_def erase_at_def routing_of_def
        routed_def sample_url2_def pjsip_sip_uri_create_def routing0_def nw_def Let_def)
  have "\<exists>td''. pjsip_restore_strict_route_set
      (routed\<lparr>t_msg := (t_msg routed)\<lparr>line := ReqLine \<lparr>m_id = PJSIP_OPTIONS_METHOD, m_name = ''OPTIONS''\<rparr> (UriSip sample_url2),
                                     hdrs := [nw]\<rparr>,
             saved_strict_route := Some (hdrs (t_msg routed) ! 0)\<rparr>) = Inr td'' \<and>
     line (t_msg td'') = ReqLine \<lparr>m_id = PJSIP_OPTIONS_METHOD, m_name = ''OPTIONS''\<rparr> (UriSip sample_url)"
    using strict_route_roundtrip [OF p, of "\<lparr>m_id = PJSIP_OPTIONS_METHOD, m_name = ''OPTIONS''\<rparr>" "UriSip sample_url"]
    by (auto simp: routed_def)
  with p show ?thesis by (simp add: routed_def)
qed

text \<open>
  A target set stays sorted by falling q, a new target going behind every target of at least its q
  (1 where none is given); a URI that equals one of the set is refused and changes nothing.
\<close>

theorem target_set_sorted:
  assumes "pjsip_target_set_add_uri ts uri q = Inr (rc, ts')" and "q_sorted ts"
  shows "q_sorted ts' \<and>
    (rc \<noteq> PJ_SUCCESS \<longrightarrow> ts' = ts) \<and>
    (rc = PJ_SUCCESS \<longrightarrow>
       (\<exists>xs t ys. ts = xs @ ys \<and> ts' = xs @ t # ys \<and> pjsip_uri_clone uri = Inr (t_uri t) \<and>
          t_q1000 t = (if q \<le> 0 then 1000 else q) \<and>
          (\<forall>a\<in>set xs. t_q1000 t \<le> t_q1000 a) \<and> (\<forall>b\<in>set ys. t_q1000 b < t_q1000 t) \<and>
          (\<forall>a\<in>set ts. pjsip_uri_cmp IN_REQ_URI (t_uri a) uri \<noteq> Inr PJ_SUCCESS)))"
proof -
  let ?q = "if q \<le> 0 then 1000 else q"
  from assms(1) obtain r where r: "target_scan uri ?q None 0 ts = Inr r"
    by (auto simp: pjsip_target_set_add_uri_def Let_def bind_res_Inr_iff)
  show ?thesis
  proof (cases r)
    case None
    with assms r show ?thesis by (simp add: pjsip_target_set_add_uri_def PJ_EEXISTS_def)
  next
    case (Some p)
    with assms(1) r obtain u where u: "pjsip_uri_clone uri = Inr u" "rc = PJ_SUCCESS"
      "ts' = (let t = \<lparr>t_uri = u, t_q1000 = ?q, t_code = 0, t_reason = []\<rparr>
              in case p of None \<Rightarrow> ts @ [t] | Some k \<Rightarrow> take k ts @ t # drop k ts)"
      by (auto simp: pjsip_target_set_add_uri_def Let_def bind_res_Inr_iff)
    define t where "t = \<lparr>t_uri = u, t_q1000 = ?q, t_code = 0, t_reason = []\<rparr>"
    have tq: "t_q1000 t = ?q" "t_uri t = u" by (simp_all add: t_def)
    note sc = target_scan_Some [OF r [unfolded Some]]
    have "\<exists>xs ys. ts = xs @ ys \<and> ts' = xs @ t # ys \<and> (\<forall>a\<in>set xs. ?q \<le> t_q1000 a) \<and> (\<forall>b\<in>set ys. t_q1000 b < ?q)"
    proof (cases p)
      case None
      with u(3) sc show ?thesis by (intro exI [of _ ts] exI [of _ "[]"]) (simp add: t_def)
    next
      case (Some k)
      with sc obtain xs y ys where x: "ts = xs @ y # ys" "k = length xs" "t_q1000 y < ?q" "\<forall>a\<in>set xs. ?q \<le> t_q1000 a"
        by auto
      with assms(2) have "\<forall>b\<in>set (y # ys). t_q1000 b < ?q" by (auto simp: sorted_wrt_append)
      with x u(3) Some show ?thesis by (intro exI [of _ xs] exI [of _ "y # ys"]) (simp add: t_def)
    qed
    then obtain xs ys where x: "ts = xs @ ys" "ts' = xs @ t # ys" "\<forall>a\<in>set xs. ?q \<le> t_q1000 a" "\<forall>b\<in>set ys. t_q1000 b < ?q"
      by blast
    have "q_sorted ts'"
      using assms(2) x(3,4) tq(1) unfolding x(1,2) sorted_wrt_append sorted_wrt.simps(2) by auto
    moreover have "\<forall>a\<in>set ts. pjsip_uri_cmp IN_REQ_URI (t_uri a) uri \<noteq> Inr PJ_SUCCESS" using sc by auto
    moreover have "pjsip_uri_clone uri = Inr (t_uri t)" "t_q1000 t = ?q" using u(1) tq by simp_all
    ultimately have "\<exists>xs t ys. ts = xs @ ys \<and> ts' = xs @ t # ys \<and> pjsip_uri_clone uri = Inr (t_uri t) \<and> t_q1000 t = ?q \<and>
          (\<forall>a\<in>set xs. t_q1000 t \<le> t_q1000 a) \<and> (\<forall>b\<in>set ys. t_q1000 b < t_q1000 t) \<and>
          (\<forall>a\<in>set ts. pjsip_uri_cmp IN_REQ_URI (t_uri a) uri \<noteq> Inr PJ_SUCCESS)"
      using x by (intro exI [of _ xs] exI [of _ t] exI [of _ ys]) simp
    with \<open>q_sorted ts'\<close> u(2) show ?thesis by simp
  qed
qed

theorem target_set_sorted_witness:
  "\<exists>ts'. pjsip_target_set_add_uri [] (UriSip sample_url2) 500 = Inr (PJ_SUCCESS, ts') \<and> q_sorted ts'"
proof -
  define t where "t = \<lparr>t_uri = UriSip sample_url2, t_q1000 = 500, t_code = 0, t_reason = []\<rparr>"
  have "pjsip_target_set_add_uri [] (UriSip sample_url2) 500 = Inr (PJ_SUCCESS, [t])"
    by (simp add: pjsip_target_set_add_uri_def url_clone_id t_def)
  with target_set_sorted [of "[]" "UriSip sample_url2" 500 PJ_SUCCESS "[t]"] show ?thesis by simp
qed

text \<open>
  A received request as the transport layer hands it on: the pointers are the first headers of their
  types, and the five headers a request has to have are there.
\<close>

definition rx_request :: "rx_data \<Rightarrow> bool" where
  "rx_request rdata \<longleftrightarrow>
     (\<exists>m u. line (rx_msg rdata) = ReqLine m u \<and> m_id m \<noteq> PJSIP_ACK_METHOD) \<and>
     list_all hdr_wf (hdrs (rx_msg rdata)) \<and>
     rx_via rdata = pjsip_msg_find_hdr (rx_msg rdata) PJSIP_H_VIA None \<and>
     rx_from rdata = pjsip_msg_find_hdr (rx_msg rdata) PJSIP_H_FROM None \<and>
     rx_to rdata = pjsip_msg_find_hdr (rx_msg rdata) PJSIP_H_TO None \<and>
     rx_cseq rdata = pjsip_msg_find_hdr (rx_msg rdata) PJSIP_H_CSEQ None \<and>
     rx_cid rdata = pjsip_msg_find_hdr (rx_msg rdata) PJSIP_H_CALL_ID None \<and>
     (\<exists>v. find_named (rx_msg rdata) PJSIP_H_VIA \<noteq> None \<and> h_val (the (find_named (rx_msg rdata) PJSIP_H_VIA)) = HVia v) \<and>
     find_named (rx_msg rdata) PJSIP_H_FROM \<noteq> None \<and>
     (\<exists>f. find_named (rx_msg rdata) PJSIP_H_TO \<noteq> None \<and> h_val (the (find_named (rx_msg rdata) PJSIP_H_TO)) = HFromTo f) \<and>
     find_named (rx_msg rdata) PJSIP_H_CSEQ \<noteq> None \<and> find_named (rx_msg rdata) PJSIP_H_CALL_ID \<noteq> None"

text \<open>The To header of a response: that of the request, with the branch of the top Via where it has no tag.\<close>

definition response_to :: "int \<Rightarrow> pjsip_msg \<Rightarrow> pjsip_hdr" where
  "response_to st_code msg =
     (let h = the (find_named msg PJSIP_H_TO)
      in case (h_val h, h_val (the (find_named msg PJSIP_H_VIA))) of
           (HFromTo f, HVia v) \<Rightarrow>
             if tag f = [] \<and> st_code > 100 then h\<lparr>h_val := HFromTo (f\<lparr>tag := v_branch_param v\<rparr>)\<rparr> else h
         | _ \<Rightarrow> h)"

definition response_hdrs :: "int \<Rightarrow> pjsip_msg \<Rightarrow> pjsip_hdr list" where
  "response_hdrs st_code msg =
     filter (\<lambda>h. h_type h = PJSIP_H_VIA) (hdrs msg) @ filter (\<lambda>h. h_type h = PJSIP_H_RECORD_ROUTE) (hdrs msg) @
     [the (find_named msg PJSIP_H_CALL_ID), the (find_named msg PJSIP_H_FROM), response_to st_code msg,
      the (find_named msg PJSIP_H_CSEQ)]"

lemma find_named_at:
  assumes "find_named msg t \<noteq> None"
  obtains i where "pjsip_msg_find_hdr msg t None = Some i" "i < length (hdrs msg)"
    "the (find_named msg t) = hdrs msg ! i" "hdr_at msg (Some i) = Inr (hdrs msg ! i)"
proof -
  from assms obtain i where i: "pjsip_msg_find_hdr msg t None = Some i" by (auto simp: find_named_def)
  then have "i < length (hdrs msg)" by (simp add: find_hdr_start find_hdr_Some)
  with i that [of i] show ?thesis by (simp add: find_named_def hdr_at_def)
qed

lemma create_response_eq:
  assumes rx: "rx_request rdata" and c: "100 \<le> st_code" "st_code \<le> 699"
  shows "pjsip_endpt_create_response PJ_SUCCESS rdata st_code txt =
    Inr (PJ_SUCCESS, Some \<lparr>t_msg = \<lparr>line = StatusLine st_code (case txt of Some t \<Rightarrow> t | None \<Rightarrow> pjsip_get_status_text st_code),
                                   hdrs = response_hdrs st_code (rx_msg rdata), body = None\<rparr>,
                           saved_strict_route = None\<rparr>)"
proof -
  let ?m = "rx_msg rdata"
  from rx have wf: "list_all hdr_wf (hdrs ?m)" and
    p: "rx_via rdata = pjsip_msg_find_hdr ?m PJSIP_H_VIA None" "rx_from rdata = pjsip_msg_find_hdr ?m PJSIP_H_FROM None"
      "rx_to rdata = pjsip_msg_find_hdr ?m PJSIP_H_TO None" "rx_cseq rdata = pjsip_msg_find_hdr ?m PJSIP_H_CSEQ None" and
    n: "find_named ?m PJSIP_H_VIA \<noteq> None" "find_named ?m PJSIP_H_FROM \<noteq> None" "find_named ?m PJSIP_H_TO \<noteq> None"
      "find_named ?m PJSIP_H_CSEQ \<noteq> None" "find_named ?m PJSIP_H_CALL_ID \<noteq> None"
    unfolding rx_request_def by blast+
  from rx obtain v f where vf: "h_val (the (find_named ?m PJSIP_H_VIA)) = HVia v" "h_val (the (find_named ?m PJSIP_H_TO)) = HFromTo f"
    unfolding rx_request_def by blast
  from rx obtain m u where l: "line ?m = ReqLine m u" "m_id m \<noteq> PJSIP_ACK_METHOD" unfolding rx_request_def by blast
  obtain iv where iv: "pjsip_msg_find_hdr ?m PJSIP_H_VIA None = Some iv" "iv < length (hdrs ?m)"
    "the (find_named ?m PJSIP_H_VIA) = hdrs ?m ! iv" "hdr_at ?m (Some iv) = Inr (hdrs ?m ! iv)" using find_named_at [OF n(1)] .
  obtain jf where jf: "pjsip_msg_find_hdr ?m PJSIP_H_FROM None = Some jf" "jf < length (hdrs ?m)"
    "the (find_named ?m PJSIP_H_FROM) = hdrs ?m ! jf" "hdr_at ?m (Some jf) = Inr (hdrs ?m ! jf)" using find_named_at [OF n(2)] .
  obtain jt where jt: "pjsip_msg_find_hdr ?m PJSIP_H_TO None = Some jt" "jt < length (hdrs ?m)"
    "the (find_named ?m PJSIP_H_TO) = hdrs ?m ! jt" "hdr_at ?m (Some jt) = Inr (hdrs ?m ! jt)" using find_named_at [OF n(3)] .
  obtain jc where jc: "pjsip_msg_find_hdr ?m PJSIP_H_CSEQ None = Some jc" "jc < length (hdrs ?m)"
    "the (find_named ?m PJSIP_H_CSEQ) = hdrs ?m ! jc" "hdr_at ?m (Some jc) = Inr (hdrs ?m ! jc)" using find_named_at [OF n(4)] .
  obtain ji where ji: "pjsip_msg_find_hdr ?m PJSIP_H_CALL_ID None = Some ji" "ji < length (hdrs ?m)"
    "the (find_named ?m PJSIP_H_CALL_ID) = hdrs ?m ! ji" "hdr_at ?m (Some ji) = Inr (hdrs ?m ! ji)" using find_named_at [OF n(5)] .
  have cl: "pjsip_hdr_clone (hdrs ?m ! k) = Inr (hdrs ?m ! k)" if "k < length (hdrs ?m)" for k
    using wf that by (simp add: hdr_clone_id list_all_length)
  have to_h: "tagged_to (hdrs ?m ! jt) st_code (Some (Inr (hdrs ?m ! iv))) = Inr (response_to st_code ?m)"
    using vf iv(3) jt(3) by (simp add: tagged_to_def fromto_of_def branch_of_def response_to_def Let_def)
  have cf: "copy_from PJSIP_H_VIA ?m (Some iv) dst = Inr (dst\<lparr>hdrs := hdrs dst @ filter (\<lambda>h. h_type h = PJSIP_H_VIA) (hdrs ?m)\<rparr>)" for dst
    using copy_from_eq [OF wf, of PJSIP_H_VIA] iv(1) by simp
  show ?thesis
    using c l
    by (simp add: pjsip_endpt_create_response_def p iv(1,4) jf(1,4) jt(1,4) jc(1,4) ji(1,4) cf copy_from_eq [OF wf] cl jf(2) jt(2) jc(2) ji(2)
        to_h Let_def pjsip_msg_create_def pjsip_msg_add_hdr_def response_hdrs_def jf(3) ji(3) jc(3))
qed

text \<open>
  C29: A response carries what has to come back: the given code and its reason, the Via and
  Record-Route headers of the request in their order, its Call-ID, From and CSeq, and its To with a tag,
  the branch of the top Via where the request had none.
\<close>

theorem create_response_mirrors:
  assumes "rx_request rdata" and "100 \<le> st_code" and "st_code \<le> 699"
  shows "pjsip_endpt_create_response PJ_SUCCESS rdata st_code None =
    Inr (PJ_SUCCESS, Some \<lparr>t_msg = \<lparr>line = StatusLine st_code (pjsip_get_status_text st_code),
                                   hdrs = response_hdrs st_code (rx_msg rdata), body = None\<rparr>,
                           saved_strict_route = None\<rparr>)"
  using create_response_eq [OF assms, of None] by simp

text \<open>A REGISTER of the device \<open>34020000001320000001\<close>, as a witness uses it.\<close>

definition sample_device :: "pj_uri option" where
  "sample_device = Some (UriNameAddr [] (Some (UriSip ((pjsip_sip_uri_create False)\<lparr>user := ''34020000001320000001'', host := ''10.0.0.9''\<rparr>))))"

definition sample_via :: pjsip_hdr where
  "sample_via = init_hdr PJSIP_H_VIA (HVia (via0\<lparr>v_transport := ''UDP'', v_host := ''10.0.0.9'', v_recvd_param := ''10.0.0.9'',
     v_branch_param := ''z9hG4bK1''\<rparr>))"

definition sample_from :: pjsip_hdr where
  "sample_from = init_hdr PJSIP_H_FROM (HFromTo (fromto0\<lparr>ft_uri := sample_device, tag := ''t1''\<rparr>))"

definition sample_to :: pjsip_hdr where
  "sample_to = init_hdr PJSIP_H_TO (HFromTo (fromto0\<lparr>ft_uri := sample_device\<rparr>))"

definition sample_cseq :: pjsip_hdr where
  "sample_cseq = init_hdr PJSIP_H_CSEQ (HCseq 1 \<lparr>m_id = PJSIP_REGISTER_METHOD, m_name = ''REGISTER''\<rparr>)"

definition sample_register :: rx_data where
  "sample_register =
     \<lparr>rx_msg = \<lparr>line = ReqLine \<lparr>m_id = PJSIP_REGISTER_METHOD, m_name = ''REGISTER''\<rparr> (UriSip sample_url),
                hdrs = [sample_via, sample_from, sample_to, pjsip_cid_hdr_init ''c1'', sample_cseq, pjsip_expires_hdr_create 3600],
                body = None\<rparr>,
      rx_via = Some 0, rx_from = Some 1, rx_to = Some 2, rx_cseq = Some 4, rx_cid = Some 3, tp_type = 1, tp_flag = 4, src_addr = ''10.0.0.9:5060''\<rparr>"

lemmas sample_defs = sample_register_def sample_via_def sample_from_def sample_to_def sample_cseq_def
  pjsip_cid_hdr_init_def pjsip_expires_hdr_create_def

lemma init_hdr_sel [simp]: "h_type (init_hdr t v) = t" "h_val (init_hdr t v) = v"
  by (simp_all add: init_hdr_def split: prod.splits)

lemma sample_register_ok: "rx_request sample_register"
proof -
  let ?m = "rx_msg sample_register"
  have f: "pjsip_msg_find_hdr ?m PJSIP_H_VIA None = Some 0" "pjsip_msg_find_hdr ?m PJSIP_H_FROM None = Some 1"
    "pjsip_msg_find_hdr ?m PJSIP_H_TO None = Some 2" "pjsip_msg_find_hdr ?m PJSIP_H_CALL_ID None = Some 3"
    "pjsip_msg_find_hdr ?m PJSIP_H_CSEQ None = Some 4"
    by (simp_all add: pjsip_msg_find_hdr_def find_start_def sample_defs)
  have "opt_uri_whole sample_device" by (simp add: opt_uri_whole_def sample_device_def pjsip_sip_uri_create_def)
  then have "list_all hdr_wf (hdrs ?m)" by (simp add: sample_defs hdr_wf_def)
  then show ?thesis
    unfolding rx_request_def find_named_def f by (simp add: sample_defs)
qed

theorem create_response_mirrors_witness:
  "pjsip_endpt_create_response PJ_SUCCESS sample_register 200 None =
    Inr (PJ_SUCCESS, Some \<lparr>t_msg = \<lparr>line = StatusLine 200 ''OK'',
       hdrs = [sample_via, pjsip_cid_hdr_init ''c1'', sample_from,
               sample_to\<lparr>h_val := HFromTo (fromto0\<lparr>ft_uri := sample_device, tag := ''z9hG4bK1''\<rparr>)\<rparr>, sample_cseq],
       body = None\<rparr>, saved_strict_route = None\<rparr>)"
proof -
  have r: "pjsip_get_status_text 200 = ''OK''" by (simp add: pjsip_get_status_text_def status_phrase_def)
  have h: "response_hdrs 200 (rx_msg sample_register) =
      [sample_via, pjsip_cid_hdr_init ''c1'', sample_from,
       sample_to\<lparr>h_val := HFromTo (fromto0\<lparr>ft_uri := sample_device, tag := ''z9hG4bK1''\<rparr>)\<rparr>, sample_cseq]"
    by (simp add: response_hdrs_def response_to_def find_named_def pjsip_msg_find_hdr_def find_start_def sample_defs
        fromto0_def via0_def Let_def)
  show ?thesis using create_response_mirrors [OF sample_register_ok, of 200] by (simp add: r h)
qed

end
