(* ===== verification/SipTaskBase.thy ===== *)
theory SipTaskBase
  imports SipUtil
begin

text \<open>
  The base class of the tasks (\<open>SipTaskBase.cpp\<close>, the same file in both services): the id of the
  sender, cut by position out of the printed From header, and the reading of an XML body. The XML
  library is not among the sources: its document, elements and their accessors are parameters.
\<close>

section \<open>The id of the sender\<close>

text \<open>The text of \<open>char buf[n]={0}\<close> after \<open>out\<close> has been printed into it, read as a C string.\<close>

definition buf_string :: "nat \<Rightarrow> string \<Rightarrow> string res" where
  "buf_string n out =
     (if length out < n \<or> NUL \<in> set out then Inr (takeWhile (\<lambda>c. c \<noteq> NUL) out) else Inl OutOfBounds)"

text \<open>\<open>std::string::substr\<close>\<close>

definition substr :: "nat \<Rightarrow> nat \<Rightarrow> string \<Rightarrow> string res" where
  "substr pos n s = (if length s < pos then Inl ThrowOutOfRange else Inr (take n (drop pos s)))"

definition parseFromId :: "sip_cfg \<Rightarrow> pjsip_msg \<Rightarrow> string res" where
  "parseFromId cfg msg =
     (case pjsip_msg_find_hdr msg PJSIP_H_FROM None of
        None \<Rightarrow> Inr []
      | Some i \<Rightarrow>
          bind_res (pjsip_hdr_print_on cfg (hdrs msg ! i) 1024 []) (\<lambda>r.
            case r of
              None \<Rightarrow> Inr []
            | Some out \<Rightarrow>
                if 0 < length out then bind_res (buf_string 1024 out) (\<lambda>fromId. substr 11 20 fromId)
                else Inr []))"

section \<open>XML bodies\<close>

text \<open>
  \<open>doc\<close> parses a C string into a root element, if there is one; the accessors may return null.
  \<open>behind\<close> are the bytes in memory behind the data of the body, which has a length and no terminator.
\<close>

record ('d, 'e) xml_lib =
  xml_root :: "string \<Rightarrow> 'e option"
  xml_value :: "'e \<Rightarrow> string"
  xml_child :: "'e \<Rightarrow> string \<Rightarrow> 'e option"
  xml_text :: "'e \<Rightarrow> string option"

definition parseXmlData :: "('d, 'e) xml_lib \<Rightarrow> string \<Rightarrow> pjsip_msg \<Rightarrow> string \<Rightarrow> string \<Rightarrow> ('e \<times> string \<times> string) res" where
  "parseXmlData lib behind msg xmlkey xmlvalue =
     (case body msg of
        None \<Rightarrow> Inl NullDeref
      | Some b \<Rightarrow>
          if NUL \<notin> set (b_data b @ behind) then Inl OutOfBounds
          else case xml_root lib (takeWhile (\<lambda>c. c \<noteq> NUL) (b_data b @ behind)) of
            None \<Rightarrow> Inl NullDeref
          | Some root \<Rightarrow>
              let cmd = xml_child lib root xmlkey;
                  v = (case cmd of None \<Rightarrow> xmlvalue
                       | Some e \<Rightarrow> (case xml_text lib e of None \<Rightarrow> xmlvalue | Some t \<Rightarrow> t))
              in Inr (root, xml_value lib root, v))"

section \<open>What is cut out\<close>

text \<open>The From header of a device: \<open>From: "display" <sip:...>;tag=...\<close>.\<close>

definition device_from :: "string \<Rightarrow> sip_uri \<Rightarrow> string \<Rightarrow> pjsip_hdr" where
  "device_from display url tg =
     init_hdr PJSIP_H_FROM (HFromTo \<lparr>ft_uri = Some (UriNameAddr display (Some (UriSip url))), tag = tg, ft_other_param = []\<rparr>)"

definition plain_user :: "string \<Rightarrow> bool" where
  "plain_user s \<longleftrightarrow> s \<noteq> [] \<and> list_all USER_SPEC s"

text \<open>A message a device sends: its From header prints as plain text that the buffer holds.\<close>

definition device_msg :: "pjsip_msg \<Rightarrow> string \<Rightarrow> sip_uri \<Rightarrow> string \<Rightarrow> bool" where
  "device_msg msg display url tg \<longleftrightarrow>
     find_named msg PJSIP_H_FROM = Some (device_from display url tg) \<and> \<not> secure url \<and> host url \<noteq> [] \<and>
     plain_user (user url) \<and> passwd url = [] \<and>
     NUL \<notin> set (hdr_text default_cfg (device_from display url tg)) \<and>
     length (hdr_text default_cfg (device_from display url tg)) + 24 \<le> 1024"

lemma parseFromId_text:
  assumes f: "find_named msg PJSIP_H_FROM = Some h" and ok: "hdr_ok h" "\<forall>m. h_val h \<noteq> HCtype m"
    and t: "hdr_text cfg h = t" "NUL \<notin> set t" "length t + 24 \<le> 1024" "11 \<le> length t"
  shows "parseFromId cfg msg = Inr (take 20 (drop 11 t))"
proof -
  from f obtain i where i: "pjsip_msg_find_hdr msg PJSIP_H_FROM None = Some i" "hdrs msg ! i = h"
    by (auto simp: find_named_def)
  have p: "pjsip_hdr_print_on cfg h 1024 [] = Inr (Some t)"
    using prints_fits [OF prints_hdr [OF ok, of cfg], of "[]" 1024] t(3) unfolding t(1) by (simp only: append_Nil list.size add_0)
  have w: "takeWhile (\<lambda>c. c \<noteq> NUL) t = t" using t(2) by (intro takeWhile_eq_all_conv [THEN iffD2]) auto
  have s: "buf_string 1024 t = Inr t" using t by (simp add: buf_string_def w)
  from t(4) have "t \<noteq> []" by auto
  then show ?thesis using t(4) by (simp add: parseFromId_def i p s substr_def)
qed

lemma device_from_name: "h_name (device_from display url tg) = ''From''"
  by (simp add: device_from_def init_hdr_def pjsip_hdr_names_def)

lemma device_from_text:
  "hdr_text default_cfg (device_from display url tg) =
   ''From: '' @ uri_text default_cfg IN_FROMTO_HDR (UriNameAddr display (Some (UriSip url))) @
   opt_text (tg \<noteq> []) ('';tag='' @ escape TOKEN_SPEC tg)"
  using device_from_name [of display url tg]
  by (simp add: hdr_text_def hname_of_def default_cfg_def fromto_text_def opt_uri_text_def token_text_def device_from_def)

lemma plain_user_text:
  assumes "\<not> secure url" "plain_user (user url)" "passwd url = []"
  shows "\<exists>rest. base_uri_text default_cfg IN_FROMTO_HDR (UriSip url) = ''sip:'' @ user url @ ''@'' @ rest"
proof -
  have "escape USER_SPEC (user url) = user url"
    using assms(2) by (intro escape_id) (simp add: plain_user_def list_all_iff)
  with assms show ?thesis by (simp add: sip_uri_text_def user_text_def plain_user_def opt_text_def default_cfg_def)
qed

lemma device_ok: "host url \<noteq> [] \<Longrightarrow> hdr_ok (device_from display url tg)"
  by (simp add: hdr_ok_def device_from_def opt_uri_ok_def)

lemma drop_prefix: "length p = n \<Longrightarrow> drop n (p @ s) = s"
  by simp

lemma parseFromId_device:
  assumes "device_msg msg display url tg"
    and t: "hdr_text default_cfg (device_from display url tg) = p @ s" and p: "length p = 11"
  shows "parseFromId default_cfg msg = Inr (take 20 s)"
proof -
  have "parseFromId default_cfg msg = Inr (take 20 (drop 11 (p @ s)))"
  proof (rule parseFromId_text)
    show "find_named msg PJSIP_H_FROM = Some (device_from display url tg)"
      using assms(1) by (simp add: device_msg_def)
    show "hdr_ok (device_from display url tg)" using assms(1) by (simp add: device_msg_def device_ok)
    show "\<forall>m. h_val (device_from display url tg) \<noteq> HCtype m" by (simp add: device_from_def)
    show "hdr_text default_cfg (device_from display url tg) = p @ s" by (rule t)
    show "NUL \<notin> set (p @ s)" "length (p @ s) + 24 \<le> 1024" "11 \<le> length (p @ s)"
      using assms(1) p unfolding t [symmetric] device_msg_def by (simp_all add: t)
  qed
  then show ?thesis by (simp only: drop_prefix [OF p])
qed

text \<open>
  C5: Without a display name the id is recognised exactly when it has 20 characters: a longer one is
  cut, and from a shorter one, such as the 18 digits in the comment above the function, the \<open>@\<close> and
  what follows are taken along.
\<close>

theorem parseFromId_recognises:
  assumes "device_msg msg [] url tg"
  shows "parseFromId default_cfg msg = Inr (user url) \<longleftrightarrow> length (user url) = 20"
proof -
  obtain rest where "base_uri_text default_cfg IN_FROMTO_HDR (UriSip url) = ''sip:'' @ user url @ ''@'' @ rest"
    using plain_user_text assms unfolding device_msg_def by blast
  then obtain rest' where t: "hdr_text default_cfg (device_from [] url tg) = ''From: <sip:'' @ user url @ ''@'' @ rest'"
    by (simp add: device_from_text uri_text_def opt_text_def)
  have "parseFromId default_cfg msg = Inr (take 20 (user url @ ''@'' @ rest'))"
    by (rule parseFromId_device [OF assms t]) simp
  moreover have "take 20 (user url @ ''@'' @ rest') = user url \<longleftrightarrow> length (user url) = 20"
  proof
    assume "take 20 (user url @ ''@'' @ rest') = user url"
    then have "min 20 (length (user url) + 1 + length rest') = length (user url)"
      by (metis (no_types, lifting) Suc_eq_plus1 add.assoc add_Suc_shift length_Cons length_append length_take list.size(3) plus_nat.add_0
          min.commute)
    then show "length (user url) = 20" by arith
  qed simp
  ultimately show ?thesis by simp
qed

text \<open>The senders of the witnesses: the device of the comment above the function, and another one.\<close>

definition comment_url :: sip_uri where
  "comment_url = (pjsip_sip_uri_create False)\<lparr>user := ''130909113319427420'', host := ''10.64.49.218'', port := 7100\<rparr>"

definition from_msg :: "pjsip_hdr \<Rightarrow> pjsip_msg" where
  "from_msg h = \<lparr>line = ReqLine \<lparr>m_id = PJSIP_REGISTER_METHOD, m_name = ''REGISTER''\<rparr> (UriSip sample_url), hdrs = [h], body = None\<rparr>"

lemma from_msg_find: "find_named (from_msg (device_from display url tg)) PJSIP_H_FROM = Some (device_from display url tg)"
  by (simp add: find_named_def pjsip_msg_find_hdr_def find_start_def from_msg_def device_from_def)

lemma comment_msg_ok: "display \<in> {[], ''cam 34020000001320000001''} \<Longrightarrow> device_msg (from_msg (device_from display comment_url ''382068091'')) display comment_url ''382068091''"
proof -
  assume d: "display \<in> {[], ''cam 34020000001320000001''}"
  have u: "plain_user ''130909113319427420''" "escape USER_SPEC ''130909113319427420'' = ''130909113319427420''"
    "escape TOKEN_SPEC ''382068091'' = ''382068091''" by code_simp+
  have t: "hdr_text default_cfg (device_from display comment_url ''382068091'') =
      ''From: '' @ opt_text (display \<noteq> []) ([CHR 0x22] @ display @ [CHR 0x22, CHR '' '']) @
      ''<sip:130909113319427420@10.64.49.218>;tag=382068091''"
    unfolding device_from_text
    by (simp add: uri_text_def sip_uri_text_def user_text_def host_text_def comment_url_def
        pjsip_sip_uri_create_def opt_text_def default_cfg_def u del: escape.simps)
  from d show ?thesis
    unfolding device_msg_def from_msg_find t
    by (auto simp: comment_url_def pjsip_sip_uri_create_def u opt_text_def)
qed

theorem parseFromId_recognises_witness:
  "parseFromId default_cfg (from_msg (device_from [] comment_url ''382068091'')) \<noteq> Inr ''130909113319427420''"
proof -
  have "length (user comment_url) = 18" "user comment_url = ''130909113319427420''" by (simp_all add: comment_url_def)
  then show ?thesis using parseFromId_recognises [OF comment_msg_ok [of "[]"]] by simp
qed

text \<open>
  With a display name the id is taken from the display name, whatever the URI says: one of four
  characters and a registered id makes its sender pass for that id.
\<close>

theorem parseFromId_display:
  assumes "device_msg msg (x @ ident @ y) url tg" and "length x = 4" and "length ident = 20"
  shows "parseFromId default_cfg msg = Inr ident"
proof -
  from assms(2,3) have ne: "x @ ident @ y \<noteq> []" by auto
  obtain rest where t: "hdr_text default_cfg (device_from (x @ ident @ y) url tg) = (''From: '' @ [CHR 0x22] @ x) @ ident @ rest"
    using ne by (simp add: device_from_text uri_text_def opt_text_def)
  have l: "length (''From: '' @ [CHR 0x22] @ x) = 11" using assms(2) by simp
  have "parseFromId default_cfg msg = Inr (take 20 (ident @ rest))"
    by (rule parseFromId_device [OF assms(1) t l])
  then show ?thesis using assms(3) by simp
qed

theorem parseFromId_display_witness:
  "parseFromId default_cfg (from_msg (device_from ''cam 34020000001320000001'' comment_url ''382068091'')) =
   Inr ''34020000001320000001''"
  using parseFromId_display [of _ "''cam ''" "''34020000001320000001''" "[]"]
    comment_msg_ok [of "''cam 34020000001320000001''"] by simp

end
