(* ===== verification/SipEndpoint.thy ===== *)
theory SipEndpoint
  imports SipMsg
begin

text \<open>
  The SIP endpoint (\<open>3rd/src/pjsip/sip_endpoint.c\<close>): the table and the list of its modules, the
  distribution of messages to them, and its capabilities. The callbacks of a module that concern
  messages act on a state of type \<open>'m\<close> and return an \<open>int\<close>; of the four life-cycle callbacks the
  endpoint sees the status. A module is known by its address.
\<close>

section \<open>Modules\<close>

record 'm sip_module =
  mod_addr :: nat
  mod_name :: string
  mod_id :: int
  priority :: int
  mod_load :: "int option"
  mod_start :: "int option"
  mod_stop :: "int option"
  mod_unload :: "int option"
  on_rx_request :: "('m \<Rightarrow> (int \<times> 'm) res) option"
  on_rx_response :: "('m \<Rightarrow> (int \<times> 'm) res) option"
  on_tx_request :: "('m \<Rightarrow> (int \<times> 'm) res) option"
  on_tx_response :: "('m \<Rightarrow> (int \<times> 'm) res) option"

record 'm sip_endpoint =
  modules :: "nat option list"
  module_list :: "'m sip_module list"
  cap_hdr :: "pjsip_hdr list"
  req_hdr :: "pjsip_hdr list"

definition PJSIP_MAX_MODULE :: nat where
  "PJSIP_MAX_MODULE = 32"

text \<open>What a successful \<open>pjsip_endpt_create\<close> leaves in the fields modelled here.\<close>

definition endpoint_new :: "'m sip_endpoint" where
  "endpoint_new =
     \<lparr>modules = replicate PJSIP_MAX_MODULE None, module_list = [], cap_hdr = [], req_hdr = [pjsip_max_fwd_hdr_create 70]\<rparr>"

text \<open>\<open>if (mod->load) status = (*mod->load)(endpt)\<close>\<close>

definition called :: "int option \<Rightarrow> int" where
  "called cb = (case cb of None \<Rightarrow> PJ_SUCCESS | Some status \<Rightarrow> status)"

definition find_unused :: "nat option list \<Rightarrow> nat" where
  "find_unused ms = length (takeWhile (\<lambda>m. m \<noteq> None) ms)"

fun insert_module :: "'m sip_module \<Rightarrow> 'm sip_module list \<Rightarrow> 'm sip_module list" where
  "insert_module md [] = [md]"
| "insert_module md (m # ms) = (if priority m > priority md then md # m # ms else m # insert_module md ms)"

text \<open>The result is the status, the endpoint and the module, whose id is set before it is loaded.\<close>

definition pjsip_endpt_register_module ::
    "'m sip_endpoint \<Rightarrow> 'm sip_module \<Rightarrow> (int \<times> 'm sip_endpoint \<times> 'm sip_module) res" where
  "pjsip_endpt_register_module endpt md =
     (if find (\<lambda>m. mod_addr m = mod_addr md) (module_list endpt) \<noteq> None then Inl AssertFail
      else if find (\<lambda>m. pj_stricmp (mod_name md) (mod_name m) = 0) (module_list endpt) \<noteq> None then Inl AssertFail
      else let i = find_unused (modules endpt) in
        if i = length (modules endpt) then Inl AssertFail
        else let md = md\<lparr>mod_id := int i\<rparr>; status = called (mod_load md) in
          if status \<noteq> PJ_SUCCESS then Inr (status, endpt, md)
          else let status = called (mod_start md) in
            if status \<noteq> PJ_SUCCESS then Inr (status, endpt, md)
            else Inr (PJ_SUCCESS,
                      endpt\<lparr>modules := (modules endpt)[i := Some (mod_addr md)],
                            module_list := insert_module md (module_list endpt)\<rparr>, md))"

definition unload_module :: "'m sip_endpoint \<Rightarrow> 'm sip_module \<Rightarrow> (int \<times> 'm sip_endpoint) res" where
  "unload_module endpt md =
     (let status = called (mod_unload md) in
      if status \<noteq> PJ_SUCCESS then Inr (status, endpt)
      else if mod_id md < 0 then Inl AssertFail
      else Inr (PJ_SUCCESS,
                endpt\<lparr>modules := (modules endpt)[nat (mod_id md) := None],
                      module_list := filter (\<lambda>m. mod_addr m \<noteq> mod_addr md) (module_list endpt)\<rparr>))"

definition pjsip_endpt_unregister_module :: "'m sip_endpoint \<Rightarrow> nat \<Rightarrow> (int \<times> 'm sip_endpoint) res" where
  "pjsip_endpt_unregister_module endpt addr =
     (case find (\<lambda>m. mod_addr m = addr) (module_list endpt) of
        None \<Rightarrow> Inl AssertFail
      | Some md \<Rightarrow>
          if \<not> (0 \<le> mod_id md \<and> mod_id md < int (length (modules endpt)) \<and> modules endpt ! nat (mod_id md) = Some addr)
          then Inl AssertFail
          else let status = called (mod_stop md) in
            if status \<noteq> PJ_SUCCESS then Inr (status, endpt) else unload_module endpt md)"

section \<open>Capabilities\<close>

definition pjsip_endpt_get_capability :: "'m sip_endpoint \<Rightarrow> nat \<Rightarrow> pjsip_hdr option" where
  "pjsip_endpt_get_capability endpt htype =
     (if htype \<noteq> PJSIP_H_OTHER then find (\<lambda>h. h_type h = htype) (cap_hdr endpt) else None)"

definition array_of :: "pjsip_hdr \<Rightarrow> string list res" where
  "array_of h = (case h_val h of HArray vs \<Rightarrow> Inr vs | _ \<Rightarrow> Inl OutOfBounds)"

definition pjsip_endpt_has_capability :: "'m sip_endpoint \<Rightarrow> nat \<Rightarrow> string \<Rightarrow> bool res" where
  "pjsip_endpt_has_capability endpt htype token =
     (case pjsip_endpt_get_capability endpt htype of
        None \<Rightarrow> Inr False
      | Some h \<Rightarrow> bind_res (array_of h) (\<lambda>vs. Inr (find (\<lambda>v. pj_stricmp v token = 0) vs \<noteq> None)))"

text \<open>
  The tags are written behind the values the header has, in an array of 32; only the number of the
  new ones is compared with its size.
\<close>

definition PJSIP_GENERIC_ARRAY_MAX_COUNT :: nat where
  "PJSIP_GENERIC_ARRAY_MAX_COUNT = 32"

definition cap_create :: "nat \<Rightarrow> pjsip_hdr" where
  "cap_create htype =
     (if htype = PJSIP_H_ACCEPT then pjsip_accept_hdr_create
      else if htype = PJSIP_H_ALLOW then pjsip_allow_hdr_create else pjsip_supported_hdr_create)"

fun add_tags :: "nat \<Rightarrow> string list \<Rightarrow> pjsip_hdr list \<Rightarrow> pjsip_hdr list res" where
  "add_tags htype tags [] = Inl NullDeref"
| "add_tags htype tags (h # hs) =
     (if h_type h = htype
      then bind_res (array_of h) (\<lambda>vs.
             if length (vs @ tags) \<le> PJSIP_GENERIC_ARRAY_MAX_COUNT then Inr (h\<lparr>h_val := HArray (vs @ tags)\<rparr> # hs)
             else Inl OutOfBounds)
      else bind_res (add_tags htype tags hs) (\<lambda>hs'. Inr (h # hs')))"

definition pjsip_endpt_add_capability :: "'m sip_endpoint \<Rightarrow> nat \<Rightarrow> string list \<Rightarrow> (int \<times> 'm sip_endpoint) res" where
  "pjsip_endpt_add_capability endpt htype tags =
     (if tags = [] then Inl AssertFail
      else if length tags > PJSIP_GENERIC_ARRAY_MAX_COUNT then Inl AssertFail
      else if \<not> (htype = PJSIP_H_ACCEPT \<or> htype = PJSIP_H_ALLOW \<or> htype = PJSIP_H_SUPPORTED) then Inl AssertFail
      else let caps = (if pjsip_endpt_get_capability endpt htype = None then cap_hdr endpt @ [cap_create htype]
                       else cap_hdr endpt)
           in bind_res (add_tags htype tags caps) (\<lambda>caps'. Inr (PJ_SUCCESS, endpt\<lparr>cap_hdr := caps'\<rparr>)))"

section \<open>Distribution\<close>

text \<open>The loops over the modules: the callback's result stops them when it is not 0.\<close>

fun distribute :: "('m sip_module \<Rightarrow> ('m \<Rightarrow> (int \<times> 'm) res) option) \<Rightarrow> 'm sip_module list \<Rightarrow> 'm \<Rightarrow> (int \<times> 'm) res" where
  "distribute h [] s = Inr (0, s)"
| "distribute h (m # ms) s =
     (case h m of
        None \<Rightarrow> distribute h ms s
      | Some f \<Rightarrow> bind_res (f s) (\<lambda>(r, s'). if r \<noteq> 0 then Inr (r, s') else distribute h ms s'))"

record process_param =
  start_prio :: nat
  start_mod :: "nat option"
  idx_after_start :: nat

definition pjsip_process_rdata_param_default :: process_param where
  "pjsip_process_rdata_param_default = \<lparr>start_prio = 0, start_mod = None, idx_after_start = 0\<rparr>"

text \<open>The status, whether a module handled the message, and the state the callbacks leave.\<close>

definition pjsip_endpt_process_rx_data ::
    "'m sip_endpoint \<Rightarrow> bool \<Rightarrow> process_param \<Rightarrow> 'm \<Rightarrow> (int \<times> int \<times> 'm) res" where
  "pjsip_endpt_process_rx_data endpt is_request p s =
     (let start = (case start_mod p of None \<Rightarrow> module_list endpt
                   | Some a \<Rightarrow> dropWhile (\<lambda>m. mod_addr m \<noteq> a) (module_list endpt));
          ms = dropWhile (\<lambda>m. priority m < int (start_prio p)) (drop (idx_after_start p) start)
      in if ms = [] then Inr (PJ_ENOTFOUND, 0, s)
         else bind_res (distribute (if is_request then on_rx_request else on_rx_response) ms s)
                (\<lambda>r. Inr (PJ_SUCCESS, r)))"

text \<open>\<open>endpt_on_rx_msg\<close> for a message parsed without an error; whether it was handled is only logged.\<close>

definition endpt_on_rx_msg :: "'m sip_endpoint \<Rightarrow> bool \<Rightarrow> 'm \<Rightarrow> (int \<times> 'm) res" where
  "endpt_on_rx_msg endpt is_request s =
     bind_res (pjsip_endpt_process_rx_data endpt is_request pjsip_process_rdata_param_default s) (\<lambda>(st, r). Inr r)"

definition endpt_on_tx_msg :: "'m sip_endpoint \<Rightarrow> bool \<Rightarrow> 'm \<Rightarrow> (int \<times> 'm) res" where
  "endpt_on_tx_msg endpt is_request s =
     distribute (if is_request then on_tx_request else on_tx_response) (rev (module_list endpt)) s"

section \<open>The invariant of the modules\<close>

definition table_ok :: "nat option list \<Rightarrow> 'm sip_module list \<Rightarrow> bool" where
  "table_ok t ms \<longleftrightarrow>
     length t = PJSIP_MAX_MODULE \<and>
     (\<forall>m\<in>set ms. 0 \<le> mod_id m \<and> mod_id m < int PJSIP_MAX_MODULE \<and> t ! nat (mod_id m) = Some (mod_addr m)) \<and>
     (\<forall>i<PJSIP_MAX_MODULE. \<forall>a. t ! i = Some a \<longrightarrow> (\<exists>m\<in>set ms. mod_addr m = a \<and> mod_id m = int i))"

definition names_ok :: "'m sip_module list \<Rightarrow> bool" where
  "names_ok ms \<longleftrightarrow> (\<forall>m\<in>set ms. \<forall>n\<in>set ms. pj_stricmp (mod_name m) (mod_name n) = 0 \<longrightarrow> m = n)"

definition endpt_inv :: "'m sip_endpoint \<Rightarrow> bool" where
  "endpt_inv e \<longleftrightarrow>
     table_ok (modules e) (module_list e) \<and> names_ok (module_list e) \<and>
     sorted (map priority (module_list e)) \<and> distinct (map mod_addr (module_list e))"

lemma endpoint_new_inv: "endpt_inv endpoint_new"
  by (simp add: endpt_inv_def endpoint_new_def table_ok_def names_ok_def)

lemma find_None_all: "find P xs = None \<longleftrightarrow> (\<forall>x\<in>set xs. \<not> P x)"
  by (auto simp: find_None_iff)

lemma set_insert_module: "set (insert_module md ms) = insert md (set ms)"
  by (induction ms) auto

lemma sorted_insert_module: "sorted (map priority ms) \<Longrightarrow> sorted (map priority (insert_module md ms))"
  by (induction ms) (auto simp: set_insert_module)

lemma distinct_insert_module:
  "distinct (map mod_addr ms) \<Longrightarrow> mod_addr md \<notin> mod_addr ` set ms \<Longrightarrow> distinct (map mod_addr (insert_module md ms))"
  by (induction ms) (auto simp: set_insert_module)

lemma find_unused_spec:
  "find_unused ms < length ms \<Longrightarrow> ms ! find_unused ms = None"
  unfolding find_unused_def using nth_length_takeWhile [of "\<lambda>m. m \<noteq> None" ms] by simp

lemma find_unused_le: "find_unused ms \<le> length ms"
  by (simp add: find_unused_def length_takeWhile_le)

lemma pj_stricmp_sym: "pj_stricmp s t = 0 \<longleftrightarrow> pj_stricmp t s = 0"
  by (auto simp: pj_stricmp_def Let_def min.commute strnicmp_eq0 strncasecmp_eq0_swap [of _ s t] split: if_splits)

text \<open>A new module joins the list behind those of its priority; the table gets it at its id.\<close>

lemma table_ok_insert:
  assumes t: "table_ok t ms" and i: "i < PJSIP_MAX_MODULE" "t ! i = None" "mod_id md = int i"
    and ms': "set ms' = insert md (set ms)"
  shows "table_ok (t[i := Some (mod_addr md)]) ms'"
proof -
  have l: "length t = PJSIP_MAX_MODULE" using t by (simp add: table_ok_def)
  have o: "nat (mod_id m) \<noteq> i" if "m \<in> set ms" for m using t that i(2) by (auto simp: table_ok_def)
  have "t[i := Some (mod_addr md)] ! nat (mod_id m) = Some (mod_addr m)" if "m \<in> set ms'" for m
  proof (cases "m = md")
    case True
    then show ?thesis using i l by simp
  next
    case False
    with that ms' have m: "m \<in> set ms" by simp
    with t have "t ! nat (mod_id m) = Some (mod_addr m)" by (simp add: table_ok_def)
    with o [OF m] show ?thesis by simp
  qed
  moreover have "0 \<le> mod_id m \<and> mod_id m < int PJSIP_MAX_MODULE" if "m \<in> set ms'" for m
    using that t i ms' by (auto simp: table_ok_def)
  moreover have "\<exists>m\<in>set ms'. mod_addr m = a \<and> mod_id m = int j"
    if "j < PJSIP_MAX_MODULE" "t[i := Some (mod_addr md)] ! j = Some a" for j a
    using that t i ms' l by (cases "j = i") (auto simp: table_ok_def)
  ultimately show ?thesis using l by (simp add: table_ok_def)
qed

lemma table_ok_remove:
  assumes t: "table_ok t ms" and md: "md \<in> set ms" and d: "distinct (map mod_addr ms)"
  shows "table_ok (t[nat (mod_id md) := None]) (filter (\<lambda>m. mod_addr m \<noteq> mod_addr md) ms)"
proof -
  have l: "length t = PJSIP_MAX_MODULE" using t by (simp add: table_ok_def)
  have at: "t ! nat (mod_id m) = Some (mod_addr m)" if "m \<in> set ms" for m using t that by (simp add: table_ok_def)
  have id: "0 \<le> mod_id m \<and> mod_id m < int PJSIP_MAX_MODULE" if "m \<in> set ms" for m using t that by (simp add: table_ok_def)
  have "t[nat (mod_id md) := None] ! nat (mod_id m) = Some (mod_addr m)" if "m \<in> set ms" "mod_addr m \<noteq> mod_addr md" for m
  proof -
    have "nat (mod_id m) \<noteq> nat (mod_id md)" using at [OF that(1)] at [OF md] that(2) by auto
    then show ?thesis using at [OF that(1)] by simp
  qed
  moreover have "\<exists>m\<in>set (filter (\<lambda>m. mod_addr m \<noteq> mod_addr md) ms). mod_addr m = a \<and> mod_id m = int j"
    if j: "j < PJSIP_MAX_MODULE" "t[nat (mod_id md) := None] ! j = Some a" for j a
  proof -
    have ne: "j \<noteq> nat (mod_id md)" using j l by auto
    with j have "t ! j = Some a" by simp
    with j(1) t obtain m where m: "m \<in> set ms" "mod_addr m = a" "mod_id m = int j"
      unfolding table_ok_def by blast
    have "m \<noteq> md" using m(3) ne by auto
    then have "mod_addr m \<noteq> mod_addr md" using d m(1) md by (auto simp: distinct_map dest: inj_onD)
    with m show ?thesis by auto
  qed
  ultimately show ?thesis using l id by (simp add: table_ok_def)
qed

lemma register_inv:
  assumes inv: "endpt_inv e" and a: "mod_addr md \<notin> mod_addr ` set (module_list e)"
    and n: "\<forall>m\<in>set (module_list e). pj_stricmp (mod_name md) (mod_name m) \<noteq> 0"
    and i: "i < PJSIP_MAX_MODULE" "modules e ! i = None" and id: "mod_id md = int i"
  shows "endpt_inv (e\<lparr>modules := (modules e)[i := Some (mod_addr md)], module_list := insert_module md (module_list e)\<rparr>)"
proof -
  have "table_ok ((modules e)[i := Some (mod_addr md)]) (insert_module md (module_list e))"
    using inv i id by (intro table_ok_insert) (auto simp: endpt_inv_def set_insert_module)
  moreover have "pj_stricmp (mod_name m) (mod_name md) \<noteq> 0" if "m \<in> set (module_list e)" for m
    using n that pj_stricmp_sym by blast
  then have "names_ok (insert_module md (module_list e))"
    using inv n by (auto simp: endpt_inv_def names_ok_def set_insert_module)
  ultimately show ?thesis
    using inv a by (simp add: endpt_inv_def sorted_insert_module distinct_insert_module)
qed

lemma unload_inv:
  assumes inv: "endpt_inv e" and m: "md \<in> set (module_list e)"
  shows "endpt_inv (e\<lparr>modules := (modules e)[nat (mod_id md) := None],
                      module_list := filter (\<lambda>m. mod_addr m \<noteq> mod_addr md) (module_list e)\<rparr>)"
proof -
  have "sorted (map priority (filter P xs))" if "sorted (map priority xs)" for P and xs :: "'a sip_module list"
    using that by (induction xs) auto
  then show ?thesis
    using inv table_ok_remove [OF _ m] by (auto simp: endpt_inv_def names_ok_def distinct_map_filter)
qed

section \<open>Registering and unregistering\<close>

lemma register_cases:
  assumes "pjsip_endpt_register_module e md = Inr (status, e', md')"
  obtains (failed) "status \<noteq> PJ_SUCCESS" "e' = e"
  | (registered) i where "status = PJ_SUCCESS" "i < length (modules e)" "modules e ! i = None" "md' = md\<lparr>mod_id := int i\<rparr>"
      "mod_addr md \<notin> mod_addr ` set (module_list e)" "\<forall>m\<in>set (module_list e). pj_stricmp (mod_name md) (mod_name m) \<noteq> 0"
      "e' = e\<lparr>modules := (modules e)[i := Some (mod_addr md')], module_list := insert_module md' (module_list e)\<rparr>"
proof -
  from assms have f: "find (\<lambda>m. mod_addr m = mod_addr md) (module_list e) = None"
      "find (\<lambda>m. pj_stricmp (mod_name md) (mod_name m) = 0) (module_list e) = None"
      "find_unused (modules e) \<noteq> length (modules e)"
    by (auto simp: pjsip_endpt_register_module_def Let_def split: if_splits)
  then have i: "find_unused (modules e) < length (modules e)" using find_unused_le [of "modules e"] by simp
  show ?thesis
  proof (cases "status = PJ_SUCCESS")
    case True
    show ?thesis
      by (rule registered [OF True i find_unused_spec [OF i]])
        (use f assms True in \<open>auto simp: pjsip_endpt_register_module_def Let_def find_None_all split: if_splits\<close>)
  next
    case False
    show ?thesis
      by (rule failed) (use f assms False in \<open>auto simp: pjsip_endpt_register_module_def Let_def split: if_splits\<close>)
  qed
qed

lemma unregister_cases:
  assumes "pjsip_endpt_unregister_module e a = Inr (status, e')"
  obtains (failed) "status \<noteq> PJ_SUCCESS" "e' = e"
  | (removed) md where "status = PJ_SUCCESS" "md \<in> set (module_list e)" "mod_addr md = a"
      "e' = e\<lparr>modules := (modules e)[nat (mod_id md) := None],
               module_list := filter (\<lambda>m. mod_addr m \<noteq> mod_addr md) (module_list e)\<rparr>"
proof -
  from assms obtain md where f: "find (\<lambda>m. mod_addr m = a) (module_list e) = Some md"
    by (auto simp: pjsip_endpt_unregister_module_def split: option.splits)
  then have md: "md \<in> set (module_list e)" "mod_addr md = a" by (auto simp: find_Some_iff)
  show ?thesis
  proof (cases "status = PJ_SUCCESS")
    case True
    show ?thesis
      by (rule removed [OF True md])
        (use f assms True in \<open>auto simp: pjsip_endpt_unregister_module_def unload_module_def Let_def split: if_splits\<close>)
  next
    case False
    show ?thesis
      by (rule failed)
        (use f assms False in \<open>auto simp: pjsip_endpt_unregister_module_def unload_module_def Let_def split: if_splits\<close>)
  qed
qed

lemma register_keeps:
  assumes r: "pjsip_endpt_register_module e md = Inr (st, e', md')" and inv: "endpt_inv e"
  shows "endpt_inv e' \<and> (st \<noteq> PJ_SUCCESS \<longrightarrow> e' = e)"
  using r
proof (cases rule: register_cases)
  case failed
  with inv show ?thesis by simp
next
  case (registered i)
  have "i < PJSIP_MAX_MODULE" using registered(2) inv by (simp add: endpt_inv_def table_ok_def)
  with registered inv have "endpt_inv e'"
    unfolding registered(7) by (intro register_inv) simp_all
  with registered(1) show ?thesis by simp
qed

lemma unregister_keeps:
  assumes r: "pjsip_endpt_unregister_module e a = Inr (st, e')" and inv: "endpt_inv e"
  shows "endpt_inv e' \<and> (st \<noteq> PJ_SUCCESS \<longrightarrow> e' = e)"
  using r
proof (cases rule: unregister_cases)
  case failed
  with inv show ?thesis by simp
next
  case (removed md)
  with unload_inv [OF inv removed(2)] show ?thesis by simp
qed

text \<open>
  C31: The table and the list of the modules stay consistent: the list sorted by priority, without two
  modules of an address or a name, every module in the table at its own id and nothing else there; a
  call that fails changes nothing.
\<close>

theorem endpt_inv_kept:
  assumes "endpt_inv e"
  shows "(pjsip_endpt_register_module e md = Inr (st, e1, md') \<longrightarrow> endpt_inv e1 \<and> (st \<noteq> PJ_SUCCESS \<longrightarrow> e1 = e)) \<and>
         (pjsip_endpt_unregister_module e a = Inr (st, e2) \<longrightarrow> endpt_inv e2 \<and> (st \<noteq> PJ_SUCCESS \<longrightarrow> e2 = e))"
  using register_keeps [OF _ assms] unregister_keeps [OF _ assms] by blast

text \<open>A module without life-cycle callbacks, as the witnesses and the server's own module are.\<close>

definition plain_module :: "nat \<Rightarrow> string \<Rightarrow> int \<Rightarrow> ('m \<Rightarrow> (int \<times> 'm) res) option \<Rightarrow> 'm sip_module" where
  "plain_module a name prio rx =
     \<lparr>mod_addr = a, mod_name = name, mod_id = -1, priority = prio, mod_load = None, mod_start = None, mod_stop = None,
      mod_unload = None, on_rx_request = rx, on_rx_response = None, on_tx_request = None, on_tx_response = None\<rparr>"

lemma register_first:
  assumes "called (mod_load md) = PJ_SUCCESS" and "called (mod_start md) = PJ_SUCCESS"
  shows "pjsip_endpt_register_module endpoint_new md =
     Inr (PJ_SUCCESS, endpoint_new\<lparr>modules := Some (mod_addr md) # replicate 31 None, module_list := [md\<lparr>mod_id := 0\<rparr>]\<rparr>,
          md\<lparr>mod_id := 0\<rparr>)"
proof -
  have r: "replicate PJSIP_MAX_MODULE None = None # replicate 31 (None :: nat option)"
    by (simp add: PJSIP_MAX_MODULE_def numeral_eq_Suc)
  show ?thesis
    using assms by (simp add: pjsip_endpt_register_module_def endpoint_new_def find_unused_def r Let_def)
qed

theorem endpt_inv_kept_witness:
  "\<exists>e1 md'. pjsip_endpt_register_module endpoint_new (plain_module 7 ''mod-recv'' 64 None :: unit sip_module) = Inr (0, e1, md') \<and>
            endpt_inv e1 \<and> map mod_id (module_list e1) = [0]"
proof -
  let ?m = "plain_module 7 ''mod-recv'' 64 None :: unit sip_module"
  note r = register_first [of ?m]
  have c: "called (mod_load ?m) = PJ_SUCCESS" "called (mod_start ?m) = PJ_SUCCESS"
    by (simp_all add: called_def plain_module_def)
  note k = endpt_inv_kept [OF endpoint_new_inv, THEN conjunct1, rule_format, OF r [OF c], THEN conjunct1]
  show ?thesis by (intro exI conjI) (rule r [OF c], rule k, simp)
qed

section \<open>Capabilities that fill the array\<close>

lemma add_tags_overflow:
  "h \<in> set hs \<Longrightarrow> h_type h = ht \<Longrightarrow> \<forall>h\<in>set hs. h_type h = ht \<longrightarrow> (\<exists>vs. h_val h = HArray vs \<and> 32 < length vs + length tags) \<Longrightarrow>
     add_tags ht tags hs = Inl OutOfBounds"
  by (induction hs) (auto simp: array_of_def PJSIP_GENERIC_ARRAY_MAX_COUNT_def)

text \<open>Two calls with no more than 32 tags each, but more than 32 together, write outside the array.\<close>

lemma add_capability_overflow:
  assumes "pjsip_endpt_get_capability e ht = Some h" and "\<forall>h\<in>set (cap_hdr e). h_type h = ht \<longrightarrow> h_val h = HArray vs"
    and "ht \<in> {PJSIP_H_ACCEPT, PJSIP_H_ALLOW, PJSIP_H_SUPPORTED}"
    and "tags \<noteq> []" and "length tags \<le> 32" and "32 < length vs + length tags"
  shows "pjsip_endpt_add_capability e ht tags = Inl OutOfBounds"
proof -
  from assms(1) have "h \<in> set (cap_hdr e)" "h_type h = ht"
    by (auto simp: pjsip_endpt_get_capability_def find_Some_iff split: if_splits)
  then have "add_tags ht tags (cap_hdr e) = Inl OutOfBounds"
    using assms(2,6) by (intro add_tags_overflow [of h]) auto
  with assms show ?thesis by (auto simp: pjsip_endpt_add_capability_def PJSIP_GENERIC_ARRAY_MAX_COUNT_def)
qed

section \<open>The way of a request\<close>

text \<open>Modules that leave a message alone pass it on.\<close>

definition passes :: "('m sip_module \<Rightarrow> ('m \<Rightarrow> (int \<times> 'm) res) option) \<Rightarrow> 'm \<Rightarrow> 'm sip_module \<Rightarrow> bool" where
  "passes h s m \<longleftrightarrow> h m = None \<or> (\<exists>f. h m = Some f \<and> f s = Inr (0, s))"

lemma distribute_pass: "list_all (passes h s) ms \<Longrightarrow> distribute h (ms @ ns) s = distribute h ns s"
  by (induction ms) (auto simp: passes_def)

lemma on_rx_msg_request:
  assumes "module_list e \<noteq> []" and "\<forall>m\<in>set (module_list e). 0 \<le> priority m"
  shows "endpt_on_rx_msg e True s = distribute on_rx_request (module_list e) s"
proof -
  have "dropWhile (\<lambda>m. priority m < 0) (module_list e) = module_list e"
    using assms by (cases "module_list e") auto
  then have "pjsip_endpt_process_rx_data e True pjsip_process_rdata_param_default s =
      bind_res (distribute on_rx_request (module_list e) s) (\<lambda>r. Inr (PJ_SUCCESS, r))"
    using assms(1) by (simp add: pjsip_endpt_process_rx_data_def pjsip_process_rdata_param_default_def Let_def del: dropWhile_eq_Nil_conv)
  then show ?thesis
    by (cases "distribute on_rx_request (module_list e) s") (simp_all add: endpt_on_rx_msg_def)
qed

end
