(* ===== verification/GlobalCtl.thy ===== *)
theory GlobalCtl
  imports LocalConfig
begin

text \<open>
  The lists of the neighbouring domains in \<open>GlobalCtl.cpp\<close>: the lower-level domains a
  \<open>SipSupService\<close> accepts, with the two operations its handlers use, and the upper-level domains a
  \<open>SipSubService\<close> registers with. Each operation holds \<open>globalLock\<close> from its first line to its
  return, so threads run them one after the other. The operations are used through the interface
  \<open>registry\<close>.
\<close>

section \<open>The interface of a registry\<close>

locale registry =
  fixes known :: "'s \<Rightarrow> 'k \<Rightarrow> bool"
    and set_exp :: "'s \<Rightarrow> 'k \<Rightarrow> int \<Rightarrow> 's"
    and exp_of :: "'s \<Rightarrow> 'k \<Rightarrow> int option"
  assumes known_iff: "known s k \<longleftrightarrow> exp_of s k \<noteq> None"
    and set_same: "known s k \<Longrightarrow> exp_of (set_exp s k e) k = Some e"
    and set_other: "k' \<noteq> k \<Longrightarrow> exp_of (set_exp s k e) k' = exp_of s k'"
    and set_unknown: "\<not> known s k \<Longrightarrow> set_exp s k e = s"
begin

lemma known_set: "known (set_exp s k e) k' \<longleftrightarrow> known s k'"
proof (cases "known s k")
  case False
  then show ?thesis by (simp add: set_unknown)
next
  case True
  show ?thesis
  proof (cases "k' = k")
    case same: True
    have "known (set_exp s k e) k" unfolding known_iff set_same [OF True] by simp
    with True same show ?thesis by simp
  next
    case False
    then show ?thesis unfolding known_iff set_other [OF False] by simp
  qed
qed

text \<open>The registry refines a map: setting is an update of the map where the key is in it.\<close>

lemma set_refines: "exp_of (set_exp s k e) = (if known s k then (exp_of s)(k \<mapsto> e) else exp_of s)"
proof (cases "known s k")
  case True
  have "exp_of (set_exp s k e) k' = ((exp_of s)(k \<mapsto> e)) k'" for k'
    by (cases "k' = k") (simp_all add: set_same [OF True] set_other)
  with True show ?thesis by (simp add: fun_eq_iff)
qed (simp add: set_unknown)

lemma known_history: "known (foldl (\<lambda>s (k, e). set_exp s k e) s ms) k \<longleftrightarrow> known s k"
proof (induction ms arbitrary: s)
  case (Cons m ms)
  show ?case by (cases m) (simp only: foldl_Cons prod.case Cons.IH known_set)
qed simp

lemma exp_history:
  "exp_of (foldl (\<lambda>s (k, e). set_exp s k e) s ms) k =
     (if known s k then Some (case map_of (rev ms) k of None \<Rightarrow> the (exp_of s k) | Some e \<Rightarrow> e) else None)"
proof (induction ms arbitrary: s)
  case Nil
  then show ?case by (auto simp: known_iff)
next
  case (Cons m ms)
  obtain k' e where m: "m = (k', e)" by (cases m)
  have e: "exp_of (set_exp s k' e) k = (if known s k \<and> k = k' then Some e else exp_of s k)"
    by (cases "known s k'") (auto simp: set_refines set_unknown)
  note IH = Cons.IH [of "set_exp s k' e", unfolded known_set e]
  show ?case
    unfolding m foldl_Cons prod.case IH by (simp add: map_add_def split: option.splits)
qed

end

section \<open>Domains\<close>

text \<open>\<open>SubDomainInfo\<close>; \<open>SupDomainInfo\<close> has the same members.\<close>

record SubDomainInfo =
  sipId :: string
  addrIp :: string
  sipPort :: int
  protocal :: int
  registered :: bool
  expires :: int
  isAuth :: bool
  usr :: string
  pwd :: string
  realm :: string

type_synonym SupDomainInfo = SubDomainInfo

definition SubDomainInfo_new :: SubDomainInfo where
  "SubDomainInfo_new =
     \<lparr>sipId = [], addrIp = [], sipPort = 0, protocal = 0, registered = False, expires = 0, isAuth = False,
      usr = [], pwd = [], realm = []\<rparr>"

text \<open>The loops of \<open>init\<close>: one \<open>info\<close> is filled for every node and a copy of it appended.\<close>

fun push_sub_domains :: "SubDomainInfo \<Rightarrow> SubNodeInfo list \<Rightarrow> SubDomainInfo list \<Rightarrow> SubDomainInfo list" where
  "push_sub_domains info [] domains = domains"
| "push_sub_domains info (n # ns) domains =
     (let info = info\<lparr>sipId := sub_id n, addrIp := sub_ip n, sipPort := sub_port n, protocal := sub_poto n,
                      isAuth := (sub_auth n \<noteq> 0)\<rparr>
      in push_sub_domains info ns (domains @ [info]))"

fun push_sup_domains :: "SupDomainInfo \<Rightarrow> SupNodeInfo list \<Rightarrow> SupDomainInfo list \<Rightarrow> SupDomainInfo list" where
  "push_sup_domains info [] domains = domains"
| "push_sup_domains info (n # ns) domains =
     (let info = info\<lparr>sipId := sup_id n, addrIp := sup_ip n, sipPort := sup_port n, protocal := sup_poto n,
                      expires := sup_expires n\<rparr>
      in push_sup_domains info ns (domains @ [info]))"

text \<open>\<open>std::find\<close> with the \<open>operator==\<close> of the domains, and the operations on what it finds.\<close>

fun find_domain :: "SubDomainInfo list \<Rightarrow> string \<Rightarrow> nat option" where
  "find_domain [] did = None"
| "find_domain (d # ds) did = (if sipId d = did then Some 0 else map_option Suc (find_domain ds did))"

definition checkIsExist :: "SubDomainInfo list \<Rightarrow> string \<Rightarrow> bool" where
  "checkIsExist domains did = (case find_domain domains did of Some i \<Rightarrow> True | None \<Rightarrow> False)"

definition setExpires :: "SubDomainInfo list \<Rightarrow> string \<Rightarrow> int \<Rightarrow> SubDomainInfo list" where
  "setExpires domains did e =
     (case find_domain domains did of
        Some i \<Rightarrow> domains[i := (domains ! i)\<lparr>expires := e\<rparr>]
      | None \<Rightarrow> domains)"

section \<open>The list as a registry\<close>

definition expires_of :: "SubDomainInfo list \<Rightarrow> string \<Rightarrow> int option" where
  "expires_of domains did = map_option (\<lambda>i. expires (domains ! i)) (find_domain domains did)"

lemma find_domain_Some:
  "find_domain ds did = Some i \<Longrightarrow> i < length ds \<and> sipId (ds ! i) = did \<and> (\<forall>j<i. sipId (ds ! j) \<noteq> did)"
proof (induction ds arbitrary: i)
  case (Cons d ds)
  show ?case
  proof (cases i)
    case 0
    with Cons.prems show ?thesis by (auto split: if_splits)
  next
    case (Suc k)
    with Cons.prems have "sipId d \<noteq> did" "find_domain ds did = Some k" by (auto split: if_splits)
    with Cons.IH [of k] Suc show ?thesis by (auto simp: nth_Cons split: nat.split)
  qed
qed simp

lemma find_domain_ids: "map sipId ds = map sipId ds' \<Longrightarrow> find_domain ds did = find_domain ds' did"
proof (induction ds arbitrary: ds')
  case (Cons d ds)
  then obtain d' ds'' where "ds' = d' # ds''" by (cases ds') simp_all
  with Cons show ?case by simp
qed simp

lemma setExpires_ids: "map sipId (setExpires ds did e) = map sipId ds"
proof (cases "find_domain ds did")
  case (Some i)
  have "(map sipId ds)[i := sipId (ds ! i)] = map sipId ds"
    using find_domain_Some [OF Some] by (simp add: list_update_same_conv)
  with Some show ?thesis by (simp add: setExpires_def map_update)
qed (simp add: setExpires_def)

lemma find_domain_setExpires: "find_domain (setExpires ds did e) k = find_domain ds k"
  by (rule find_domain_ids) (rule setExpires_ids)

interpretation sub_domains: registry checkIsExist setExpires expires_of
proof
  fix s :: "SubDomainInfo list" and k k' :: string and e :: int
  show "checkIsExist s k \<longleftrightarrow> expires_of s k \<noteq> None"
    by (simp add: checkIsExist_def expires_of_def split: option.split)
  show "expires_of (setExpires s k e) k = Some e" if "checkIsExist s k"
  proof -
    from that obtain i where i: "find_domain s k = Some i" by (auto simp: checkIsExist_def split: option.splits)
    with find_domain_Some [OF i] show ?thesis
      by (simp add: expires_of_def find_domain_setExpires) (simp add: setExpires_def)
  qed
  show "expires_of (setExpires s k e) k' = expires_of s k'" if "k' \<noteq> k"
  proof (cases "find_domain s k'")
    case None
    then show ?thesis by (simp add: expires_of_def find_domain_setExpires)
  next
    case (Some i)
    have "setExpires s k e ! i = s ! i"
      using that find_domain_Some [OF Some] find_domain_Some [of s k]
      by (cases "find_domain s k") (auto simp: setExpires_def nth_list_update)
    with Some show ?thesis by (simp add: expires_of_def find_domain_setExpires)
  qed
  show "setExpires s k e = s" if "\<not> checkIsExist s k"
    using that by (simp add: setExpires_def checkIsExist_def split: option.splits)
qed

text \<open>What \<open>setExpires\<close> leaves alone.\<close>

lemma setExpires_rest:
  "map sipId (setExpires ds did e) = map sipId ds \<and> map registered (setExpires ds did e) = map registered ds \<and>
   length (setExpires ds did e) = length ds"
proof (cases "find_domain ds did")
  case (Some i)
  have "(map registered ds)[i := registered (ds ! i)] = map registered ds"
    using find_domain_Some [OF Some] by (simp add: list_update_same_conv)
  with Some setExpires_ids [of ds did e] show ?thesis by (simp add: setExpires_def map_update)
qed (simp add: setExpires_def)

section \<open>The lists after init\<close>

definition sub_domain :: "SubNodeInfo \<Rightarrow> SubDomainInfo" where
  "sub_domain n = SubDomainInfo_new\<lparr>sipId := sub_id n, addrIp := sub_ip n, sipPort := sub_port n,
                                    protocal := sub_poto n, isAuth := (sub_auth n \<noteq> 0)\<rparr>"

definition sup_domain :: "SupNodeInfo \<Rightarrow> SupDomainInfo" where
  "sup_domain n = SubDomainInfo_new\<lparr>sipId := sup_id n, addrIp := sup_ip n, sipPort := sup_port n,
                                    protocal := sup_poto n, expires := sup_expires n\<rparr>"

text \<open>The members of \<open>info\<close> that no node sets keep the values of the constructor.\<close>

lemma push_sub_domains_eq:
  "registered info = False \<Longrightarrow> expires info = 0 \<Longrightarrow> usr info = [] \<Longrightarrow> pwd info = [] \<Longrightarrow> realm info = [] \<Longrightarrow>
     push_sub_domains info ns ds = ds @ map sub_domain ns"
  by (induction ns arbitrary: info ds) (simp_all add: Let_def sub_domain_def SubDomainInfo_new_def)

lemma push_sup_domains_eq:
  "registered info = False \<Longrightarrow> isAuth info = False \<Longrightarrow> usr info = [] \<Longrightarrow> pwd info = [] \<Longrightarrow> realm info = [] \<Longrightarrow>
     push_sup_domains info ns ds = ds @ map sup_domain ns"
  by (induction ns arbitrary: info ds) (simp_all add: Let_def sup_domain_def SubDomainInfo_new_def)

end
