(* ===== verification/RegisterServer.thy ===== *)
theory RegisterServer
  imports GlobalCtl SipTaskBase TaskTimer
begin

text \<open>
  The handler of REGISTER requests (\<open>SipSupService/src/SipRegister.cpp\<close>): it looks the sender up, notes
  the requested lifetime, and answers 200 or 404 with a Date. Parameters are what the calls outside
  it return: \<open>alloc\<close> the status of the allocation of the response, \<open>send\<close> that of the transport,
  \<open>now\<close> the text \<open>strftime\<close> makes of the time.
\<close>

section \<open>The handler\<close>

record sip_register =
  m_regTimer :: "task_timer option"

definition SipRegister_new :: sip_register where
  "SipRegister_new = \<lparr>m_regTimer = Some (TaskTimer_new 10)\<rparr>"

definition SipRegister_delete :: "sip_register \<Rightarrow> sip_register" where
  "SipRegister_delete t = (case m_regTimer t of None \<Rightarrow> t | Some timer \<Rightarrow> t\<lparr>m_regTimer := None\<rparr>)"

definition SIP_FORBIDDEN :: int where
  "SIP_FORBIDDEN = 404"

text \<open>The status code and the list of domains: the lines up to the creation of the response.\<close>

definition int_of_hdr :: "pjsip_hdr \<Rightarrow> int res" where
  "int_of_hdr h = (case h_val h of HInt i \<Rightarrow> Inr i | _ \<Rightarrow> Inl OutOfBounds)"

definition look_up :: "string \<Rightarrow> pjsip_msg \<Rightarrow> SubDomainInfo list \<Rightarrow> (int \<times> SubDomainInfo list) res" where
  "look_up fromId msg domains =
     (if \<not> checkIsExist domains fromId then Inr (SIP_FORBIDDEN, domains)
      else bind_res (hdr_at msg (pjsip_msg_find_hdr msg PJSIP_H_EXPIRES None)) (\<lambda>h.
           bind_res (int_of_hdr h) (\<lambda>expiresValue. Inr (200, setExpires domains fromId expiresValue))))"

text \<open>
  The answer: the status returned and, where a response was created, the response with how many
  references to it have been given back.
\<close>

record register_answer =
  ans_status :: int
  ans_sent :: "(tx_data \<times> nat) option"

definition add_date :: "string \<Rightarrow> tx_data \<Rightarrow> tx_data" where
  "add_date now txdata =
     txdata\<lparr>t_msg := pjsip_msg_add_hdr (t_msg txdata) (pjsip_generic_string_hdr_create (Some ''Date'') (Some now))\<rparr>"

definition answer_register :: "int \<Rightarrow> int \<Rightarrow> string \<Rightarrow> rx_data \<Rightarrow> int \<Rightarrow> register_answer res" where
  "answer_register alloc send now rdata status_code =
     bind_res (pjsip_endpt_create_response alloc rdata status_code None) (\<lambda>(status, td).
       case td of
         None \<Rightarrow> Inr \<lparr>ans_status = status, ans_sent = None\<rparr>
       | Some txdata \<Rightarrow>
           let txdata = add_date now txdata in
           bind_res (pjsip_get_response_addr rdata) (\<lambda>(status, res_addr).
             if status \<noteq> PJ_SUCCESS then Inr \<lparr>ans_status = status, ans_sent = Some (txdata, 1)\<rparr>
             else case pjsip_endpt_send_response res_addr send of
               (status, n) \<Rightarrow>
                 if status \<noteq> PJ_SUCCESS then Inr \<lparr>ans_status = status, ans_sent = Some (txdata, n + 1)\<rparr>
                 else Inr \<lparr>ans_status = PJ_SUCCESS, ans_sent = Some (txdata, n)\<rparr>))"

definition dealWithRegister ::
    "sip_cfg \<Rightarrow> int \<Rightarrow> int \<Rightarrow> string \<Rightarrow> rx_data \<Rightarrow> SubDomainInfo list \<Rightarrow> (register_answer \<times> SubDomainInfo list) res" where
  "dealWithRegister cfg alloc send now rdata domains =
     bind_res (parseFromId cfg (rx_msg rdata)) (\<lambda>fromId.
     bind_res (look_up fromId (rx_msg rdata) domains) (\<lambda>(status_code, domains).
     bind_res (answer_register alloc send now rdata status_code) (\<lambda>answer. Inr (answer, domains))))"

definition RegisterRequestMessage ::
    "sip_cfg \<Rightarrow> int \<Rightarrow> int \<Rightarrow> string \<Rightarrow> rx_data option \<Rightarrow> SubDomainInfo list \<Rightarrow> (register_answer \<times> SubDomainInfo list) res" where
  "RegisterRequestMessage cfg alloc send now rdata domains =
     (case rdata of None \<Rightarrow> Inl NullDeref | Some r \<Rightarrow> dealWithRegister cfg alloc send now r domains)"

definition register_run ::
    "sip_cfg \<Rightarrow> int \<Rightarrow> int \<Rightarrow> string \<Rightarrow> rx_data option \<Rightarrow> SubDomainInfo list \<Rightarrow> (register_answer \<times> SubDomainInfo list) res" where
  "register_run cfg alloc send now rdata domains = RegisterRequestMessage cfg alloc send now rdata domains"

section \<open>What the endpoint hands to the handler\<close>

text \<open>
  A REGISTER of the sender \<open>ident\<close>: complete, its top Via with the \<open>received\<close> parameter the transport
  layer adds, over a transport with a type of the table.
\<close>

definition register_from :: "rx_data \<Rightarrow> string \<Rightarrow> bool" where
  "register_from rdata ident \<longleftrightarrow>
     rx_request rdata \<and> parseFromId default_cfg (rx_msg rdata) = Inr ident \<and>
     (\<exists>v. h_val (the (find_named (rx_msg rdata) PJSIP_H_VIA)) = HVia v \<and> v_recvd_param v \<noteq> []) \<and>
     tp_type rdata \<in> tn_type ` set transport_names"

text \<open>Its lifetime, when it has an Expires header.\<close>

definition asked_expires :: "pjsip_msg \<Rightarrow> int option" where
  "asked_expires msg =
     (case find_named msg PJSIP_H_EXPIRES of
        None \<Rightarrow> None
      | Some h \<Rightarrow> (case h_val h of HInt i \<Rightarrow> Some i | _ \<Rightarrow> None))"

lemma default_port_known:
  assumes "t \<in> tn_type ` set transport_names"
  shows "\<exists>p. pjsip_transport_get_default_port_for_type t = Inr p"
proof -
  have "find (\<lambda>x. tn_type x = t) transport_names \<noteq> None"
    using assms by (auto simp: find_None_iff)
  then show ?thesis
    by (auto simp: pjsip_transport_get_default_port_for_type_def get_tpname_def split: option.splits)
qed

lemma response_addr_ok:
  assumes "register_from rdata ident"
  shows "\<exists>addr. pjsip_get_response_addr rdata = Inr (PJ_SUCCESS, addr)"
proof -
  from assms have rx: "rx_request rdata" by (simp add: register_from_def)
  then obtain m u where l: "line (rx_msg rdata) = ReqLine m u" by (auto simp: rx_request_def)
  from rx have "find_named (rx_msg rdata) PJSIP_H_VIA \<noteq> None" by (auto simp: rx_request_def)
  from find_named_at [OF this] obtain i where i: "pjsip_msg_find_hdr (rx_msg rdata) PJSIP_H_VIA None = Some i"
    "hdr_at (rx_msg rdata) (Some i) = Inr (the (find_named (rx_msg rdata) PJSIP_H_VIA))" by metis
  have p: "rx_via rdata = Some i" using rx i(1) by (simp add: rx_request_def)
  from assms obtain v where v: "h_val (the (find_named (rx_msg rdata) PJSIP_H_VIA)) = HVia v" "v_recvd_param v \<noteq> []"
    by (auto simp: register_from_def)
  obtain dp where d: "pjsip_transport_get_default_port_for_type (tp_type rdata) = Inr dp"
    using assms default_port_known by (auto simp: register_from_def)
  show ?thesis
    by (simp add: pjsip_get_response_addr_def l p i(2) via_of_def v d port_or_def Let_def)
qed

section \<open>The answers\<close>

lemma answer_register_eq:
  assumes r: "register_from rdata ident" and c: "100 \<le> code" "code \<le> 699"
  shows "\<exists>status n. answer_register PJ_SUCCESS send now rdata code =
      Inr \<lparr>ans_status = status,
           ans_sent = Some (\<lparr>t_msg = \<lparr>line = StatusLine code (pjsip_get_status_text code),
                                     hdrs = response_hdrs code (rx_msg rdata) @
                                            [pjsip_generic_string_hdr_create (Some ''Date'') (Some now)],
                                     body = None\<rparr>, saved_strict_route = None\<rparr>, n)\<rparr> \<and>
      n \<le> 1 \<and> (status \<noteq> PJ_SUCCESS \<longrightarrow> n = 1)"
proof -
  from r have rx: "rx_request rdata" by (simp add: register_from_def)
  obtain addr where a: "pjsip_get_response_addr rdata = Inr (PJ_SUCCESS, addr)" using response_addr_ok [OF r] by blast
  show ?thesis
    by (auto simp: answer_register_def create_response_eq [OF rx c, of None] a add_date_def pjsip_msg_add_hdr_def
        pjsip_endpt_send_response_def Let_def split: prod.splits if_splits)
qed

lemma look_up_unknown: "\<not> checkIsExist ds ident \<Longrightarrow> look_up ident msg ds = Inr (404, ds)"
  by (simp add: look_up_def SIP_FORBIDDEN_def)

lemma look_up_known:
  assumes "checkIsExist ds ident" and "asked_expires msg = Some e"
  shows "look_up ident msg ds = Inr (200, setExpires ds ident e)"
proof -
  from assms(2) obtain h where h: "find_named msg PJSIP_H_EXPIRES = Some h" "h_val h = HInt e"
    by (auto simp: asked_expires_def split: option.splits hdr_val.splits)
  from find_named_at [of msg PJSIP_H_EXPIRES] h obtain i where "pjsip_msg_find_hdr msg PJSIP_H_EXPIRES None = Some i"
    "hdr_at msg (Some i) = Inr h" by (metis option.distinct(1) option.sel)
  with assms(1) h(2) show ?thesis by (simp add: look_up_def int_of_hdr_def)
qed

lemma look_up_no_expires:
  assumes "checkIsExist ds ident" and "find_named msg PJSIP_H_EXPIRES = None"
  shows "look_up ident msg ds = Inl NullDeref"
  using assms by (simp add: look_up_def find_named_def hdr_at_def)

text \<open>Whatever the allocation and the transport say, the handler comes back.\<close>

lemma answer_register_total:
  assumes "register_from rdata ident" and "100 \<le> code" "code \<le> 699"
  shows "\<exists>a. answer_register alloc send now rdata code = Inr a"
proof (cases "alloc = PJ_SUCCESS")
  case True
  with answer_register_eq [OF assms, of send now] show ?thesis by blast
next
  case False
  from assms(1) obtain m u where "line (rx_msg rdata) = ReqLine m u" "m_id m \<noteq> PJSIP_ACK_METHOD"
    by (auto simp: register_from_def rx_request_def)
  with assms(2,3) False show ?thesis by (simp add: answer_register_def pjsip_endpt_create_response_def)
qed

lemma register_from_id: "register_from rdata ident \<Longrightarrow> parseFromId default_cfg (rx_msg rdata) = Inr ident"
  by (simp add: register_from_def)

text \<open>What the answer says and what becomes of the list.\<close>

definition code_for :: "SubDomainInfo list \<Rightarrow> string \<Rightarrow> int" where
  "code_for ds ident = (if checkIsExist ds ident then 200 else 404)"

definition domains_after :: "SubDomainInfo list \<Rightarrow> string \<Rightarrow> pjsip_msg \<Rightarrow> SubDomainInfo list" where
  "domains_after ds ident msg = (case asked_expires msg of Some e \<Rightarrow> setExpires ds ident e | None \<Rightarrow> ds)"

lemma look_up_eq:
  assumes "checkIsExist ds ident \<longrightarrow> asked_expires msg \<noteq> None"
  shows "look_up ident msg ds = Inr (code_for ds ident, domains_after ds ident msg)"
proof (cases "checkIsExist ds ident")
  case True
  with assms obtain e where "asked_expires msg = Some e" by blast
  with look_up_known [OF True this] True show ?thesis by (simp add: code_for_def domains_after_def)
next
  case False
  then show ?thesis
    by (simp add: look_up_unknown code_for_def domains_after_def sub_domains.set_unknown split: option.split)
qed

lemma code_for_range: "100 \<le> code_for ds ident" "code_for ds ident \<le> 699"
  by (simp_all add: code_for_def)

section \<open>The handler is correct\<close>

text \<open>
  C2: A REGISTER of a known domain is answered 200 and the domain gets the lifetime asked for; one of
  an unknown domain is answered 404 and changes nothing. The answer has the headers a response must
  have and a Date. Its reference is given back at most once, and exactly once when an error is reported.
\<close>

theorem register_answered:
  assumes "register_from rdata ident"
    and "checkIsExist domains ident \<longrightarrow> asked_expires (rx_msg rdata) \<noteq> None"
  shows "\<exists>status n. dealWithRegister default_cfg PJ_SUCCESS send now rdata domains =
      Inr (\<lparr>ans_status = status,
            ans_sent = Some (\<lparr>t_msg = \<lparr>line = StatusLine (code_for domains ident) (pjsip_get_status_text (code_for domains ident)),
                                       hdrs = response_hdrs (code_for domains ident) (rx_msg rdata) @
                                              [pjsip_generic_string_hdr_create (Some ''Date'') (Some now)],
                                       body = None\<rparr>, saved_strict_route = None\<rparr>, n)\<rparr>,
           domains_after domains ident (rx_msg rdata)) \<and>
      n \<le> 1 \<and> (status \<noteq> PJ_SUCCESS \<longrightarrow> n = 1)"
proof -
  from answer_register_eq [OF assms(1) code_for_range(1) code_for_range(2), of send now domains ident] obtain status n where a:
    "answer_register PJ_SUCCESS send now rdata (code_for domains ident) =
      Inr \<lparr>ans_status = status,
           ans_sent = Some (\<lparr>t_msg = \<lparr>line = StatusLine (code_for domains ident) (pjsip_get_status_text (code_for domains ident)),
                                     hdrs = response_hdrs (code_for domains ident) (rx_msg rdata) @
                                            [pjsip_generic_string_hdr_create (Some ''Date'') (Some now)],
                                     body = None\<rparr>, saved_strict_route = None\<rparr>, n)\<rparr>"
    "n \<le> 1 \<and> (status \<noteq> PJ_SUCCESS \<longrightarrow> n = 1)" by blast
  show ?thesis
    by (rule exI [of _ status], rule exI [of _ n])
      (use a(2) in \<open>simp add: dealWithRegister_def register_from_id [OF assms(1)] look_up_eq [OF assms(2)] a(1)\<close>)
qed

text \<open>
  A REGISTER of a known domain without an Expires header makes the handler read through a null
  pointer, before anything has been answered.
\<close>

theorem register_without_expires:
  assumes "parseFromId cfg (rx_msg rdata) = Inr ident" and "checkIsExist domains ident"
    and "find_named (rx_msg rdata) PJSIP_H_EXPIRES = None"
  shows "RegisterRequestMessage cfg alloc send now (Some rdata) domains = Inl NullDeref"
  using assms by (simp add: RegisterRequestMessage_def dealWithRegister_def look_up_no_expires)

section \<open>Histories\<close>

text \<open>The requests one after the other: each comes with what the calls outside return to it.\<close>

fun register_history ::
    "sip_cfg \<Rightarrow> (int \<times> int \<times> string \<times> rx_data) list \<Rightarrow> SubDomainInfo list \<Rightarrow> SubDomainInfo list res" where
  "register_history cfg [] ds = Inr ds"
| "register_history cfg ((alloc, send, now, rdata) # evs) ds =
     bind_res (register_run cfg alloc send now (Some rdata) ds) (\<lambda>(answer, ds). register_history cfg evs ds)"

definition sender :: "rx_data \<Rightarrow> string" where
  "sender rdata = (case parseFromId default_cfg (rx_msg rdata) of Inr ident \<Rightarrow> ident | Inl _ \<Rightarrow> [])"

definition lifetime_of :: "rx_data \<Rightarrow> int" where
  "lifetime_of rdata = the (asked_expires (rx_msg rdata))"

definition good_register :: "rx_data \<Rightarrow> bool" where
  "good_register rdata \<longleftrightarrow> register_from rdata (sender rdata) \<and> asked_expires (rx_msg rdata) \<noteq> None"

lemma register_run_domains:
  assumes "good_register rdata"
  shows "\<exists>a. register_run default_cfg alloc send now (Some rdata) ds = Inr (a, setExpires ds (sender rdata) (lifetime_of rdata))"
proof -
  from assms have r: "register_from rdata (sender rdata)" and e: "asked_expires (rx_msg rdata) \<noteq> None"
    by (simp_all add: good_register_def)
  then have d: "domains_after ds (sender rdata) (rx_msg rdata) = setExpires ds (sender rdata) (lifetime_of rdata)"
    by (auto simp: domains_after_def lifetime_of_def)
  from e have l: "look_up (sender rdata) (rx_msg rdata) ds =
      Inr (code_for ds (sender rdata), setExpires ds (sender rdata) (lifetime_of rdata))"
    by (simp add: look_up_eq d)
  obtain a where "answer_register alloc send now rdata (code_for ds (sender rdata)) = Inr a"
    using answer_register_total [OF r code_for_range(1) code_for_range(2)] by blast
  then show ?thesis
    by (simp add: register_run_def RegisterRequestMessage_def dealWithRegister_def register_from_id [OF r] l)
qed

definition settings :: "(int \<times> int \<times> string \<times> rx_data) list \<Rightarrow> (string \<times> int) list" where
  "settings evs = map (\<lambda>(alloc, send, now, rdata). (sender rdata, lifetime_of rdata)) evs"

lemma register_history_fold:
  "\<forall>(alloc, send, now, rdata) \<in> set evs. good_register rdata \<Longrightarrow>
     register_history default_cfg evs ds = Inr (foldl (\<lambda>ds (k, e). setExpires ds k e) ds (settings evs))"
proof (induction evs arbitrary: ds)
  case (Cons ev evs)
  obtain alloc send now rdata where ev: "ev = (alloc, send, now, rdata)" by (cases ev)
  with Cons.prems have "good_register rdata" by simp
  with register_run_domains obtain a where
    "register_run default_cfg alloc send now (Some rdata) ds = Inr (a, setExpires ds (sender rdata) (lifetime_of rdata))" by blast
  with Cons ev show ?case by (simp add: settings_def)
qed (simp add: settings_def)

lemma setExpires_fold_rest:
  "map registered (foldl (\<lambda>ds (k, e). setExpires ds k e) ds ms) = map registered ds \<and>
   map sipId (foldl (\<lambda>ds (k, e). setExpires ds k e) ds ms) = map sipId ds"
proof (induction ms arbitrary: ds)
  case (Cons m ms)
  obtain k e where m: "m = (k, e)" by (cases m)
  show ?case unfolding m foldl_Cons prod.case using Cons.IH [of "setExpires ds k e"] setExpires_rest [of ds k e] by simp
qed simp

text \<open>
  C3: After any sequence of complete REGISTERs, answered or not, every known domain has the lifetime
  of its last one and the others the lifetime they had, no domain has been added or removed, and the
  flag \<open>registered\<close> of a domain is what it was: the server never sets it.
\<close>

theorem registry_history:
  assumes "\<forall>(alloc, send, now, rdata) \<in> set evs. good_register rdata"
  shows "\<exists>ds'. register_history default_cfg evs ds = Inr ds' \<and>
     (\<forall>k. expires_of ds' k =
        (if checkIsExist ds k then Some (case map_of (rev (settings evs)) k of None \<Rightarrow> the (expires_of ds k) | Some e \<Rightarrow> e)
         else None)) \<and>
     map sipId ds' = map sipId ds \<and> map registered ds' = map registered ds"
  using register_history_fold [OF assms, of ds] sub_domains.exp_history [of ds "settings evs"]
    setExpires_fold_rest [of ds "settings evs"] by simp

section \<open>A device registers\<close>

definition sample_domain :: SubDomainInfo where
  "sample_domain = SubDomainInfo_new\<lparr>sipId := ''34020000001320000001''\<rparr>"

definition sample_dev_url :: sip_uri where
  "sample_dev_url = (pjsip_sip_uri_create False)\<lparr>user := ''34020000001320000001'', host := ''10.0.0.9''\<rparr>"

lemma sample_dev_url_plain: "plain_user (user sample_dev_url)"
  by code_simp

lemma sample_from_text:
  "hdr_text default_cfg (device_from [] sample_dev_url ''t1'') = ''From: <sip:'' @ ''34020000001320000001'' @ ''@10.0.0.9>;tag=t1''"
proof -
  have u: "escape USER_SPEC ''34020000001320000001'' = ''34020000001320000001''" "escape TOKEN_SPEC ''t1'' = ''t1''" by code_simp+
  show ?thesis
    unfolding device_from_text
    by (simp add: uri_text_def sip_uri_text_def user_text_def host_text_def sample_dev_url_def
        pjsip_sip_uri_create_def opt_text_def default_cfg_def u del: escape.simps)
qed

lemma sample_register_id: "parseFromId default_cfg (rx_msg sample_register) = Inr ''34020000001320000001''"
proof -
  have f: "sample_from = device_from [] sample_dev_url ''t1''"
    by (simp add: sample_from_def device_from_def sample_device_def sample_dev_url_def fromto0_def)
  have "find_named (rx_msg sample_register) PJSIP_H_FROM = Some sample_from"
    by (simp add: find_named_def pjsip_msg_find_hdr_def find_start_def sample_defs)
  then have "device_msg (rx_msg sample_register) [] sample_dev_url ''t1''"
    unfolding f device_msg_def sample_from_text using sample_dev_url_plain
    by (simp add: sample_dev_url_def pjsip_sip_uri_create_def)
  from parseFromId_device [OF this, of "''From: <sip:''"] show ?thesis unfolding sample_from_text by simp
qed

lemma sample_register_expires: "asked_expires (rx_msg sample_register) = Some 3600"
  by (simp add: asked_expires_def find_named_def pjsip_msg_find_hdr_def find_start_def sample_defs)

lemma sample_register_from: "register_from sample_register ''34020000001320000001''"
proof -
  have "find_named (rx_msg sample_register) PJSIP_H_VIA = Some sample_via"
    by (simp add: find_named_def pjsip_msg_find_hdr_def find_start_def sample_defs)
  then show ?thesis
    unfolding register_from_def using sample_register_ok sample_register_id
    by (simp add: sample_via_def via0_def) (simp add: sample_register_def transport_names_def tpn_def)
qed

lemma sample_register_good: "good_register sample_register" "sender sample_register = ''34020000001320000001''"
  "lifetime_of sample_register = 3600"
  using sample_register_from by (simp_all add: good_register_def sender_def sample_register_id sample_register_expires lifetime_of_def)

lemma sample_known: "checkIsExist [sample_domain] ''34020000001320000001''"
  "setExpires [sample_domain] ''34020000001320000001'' e = [sample_domain\<lparr>expires := e\<rparr>]"
  by (simp_all add: checkIsExist_def setExpires_def sample_domain_def)

theorem register_answered_witness:
  "\<exists>a. dealWithRegister default_cfg PJ_SUCCESS PJ_SUCCESS ''now'' sample_register [sample_domain] =
     Inr (a, [sample_domain\<lparr>expires := 3600\<rparr>])"
proof -
  have "domains_after [sample_domain] ''34020000001320000001'' (rx_msg sample_register) = [sample_domain\<lparr>expires := 3600\<rparr>]"
    by (simp add: domains_after_def sample_register_expires sample_known)
  with register_answered [OF sample_register_from, of "[sample_domain]" PJ_SUCCESS "''now''"] sample_register_expires
  show ?thesis by auto
qed

definition no_expires :: rx_data where
  "no_expires = sample_register\<lparr>rx_msg := (rx_msg sample_register)\<lparr>hdrs := [sample_via, sample_from, sample_to]\<rparr>\<rparr>"

lemma no_expires_id: "parseFromId default_cfg (rx_msg no_expires) = Inr ''34020000001320000001''"
proof -
  have "pjsip_msg_find_hdr (rx_msg no_expires) PJSIP_H_FROM None = Some 1" "hdrs (rx_msg no_expires) ! 1 = hdrs (rx_msg sample_register) ! 1"
    "pjsip_msg_find_hdr (rx_msg sample_register) PJSIP_H_FROM None = Some 1"
    by (simp_all add: pjsip_msg_find_hdr_def find_start_def no_expires_def sample_defs)
  then show ?thesis using sample_register_id by (simp add: parseFromId_def)
qed

theorem register_without_expires_witness:
  "RegisterRequestMessage default_cfg PJ_SUCCESS PJ_SUCCESS ''now'' (Some no_expires) [sample_domain] = Inl NullDeref"
proof (rule register_without_expires [OF no_expires_id sample_known(1)])
  show "find_named (rx_msg no_expires) PJSIP_H_EXPIRES = None"
    by (simp add: find_named_def pjsip_msg_find_hdr_def find_start_def no_expires_def sample_defs)
qed

theorem registry_history_witness:
  "\<exists>ds'. register_history default_cfg [(PJ_SUCCESS, PJ_SUCCESS, ''now'', sample_register)] [sample_domain] = Inr ds' \<and>
     expires_of ds' ''34020000001320000001'' = Some 3600"
proof -
  have "settings [(PJ_SUCCESS, PJ_SUCCESS, ''now'', sample_register)] = [(''34020000001320000001'', 3600)]"
    by (simp add: settings_def sample_register_good)
  with registry_history [of "[(PJ_SUCCESS, PJ_SUCCESS, ''now'', sample_register)]" "[sample_domain]"]
  show ?thesis by (auto simp: sample_register_good sample_known)
qed

end
