(* ===== verification/Transport.thy ===== *)
theory Transport
  imports PjString
begin

text \<open>
  The life of a transport (\<open>3rd/src/pjsip/sip_transport.c\<close>): the counter of its users, the timer that
  destroys it when it has had none for a while, shutdown and destruction. What the transport's own
  callbacks do is a parameter, their status. \<open>add_ref\<close> and \<open>dec_ref\<close> change the counter atomically
  and the rest under the lock of the manager; the two parts are definitions of their own, so that the
  calls of several threads can be interleaved.
\<close>

section \<open>The state and the two halves of the calls\<close>

text \<open>\<open>idle_timer\<close> is the delay of the scheduled timer in seconds.\<close>

record transport =
  ref_cnt :: int
  idle_timer :: "int option"
  is_shutdown :: bool
  is_destroying :: bool
  in_table :: bool
  outgoing :: bool

definition PJSIP_TRANSPORT_IDLE_TIME :: int where "PJSIP_TRANSPORT_IDLE_TIME = 33"
definition PJSIP_TRANSPORT_SERVER_IDLE_TIME :: int where "PJSIP_TRANSPORT_SERVER_IDLE_TIME = 600"
definition PJSIP_EBUSY :: int where "PJSIP_EBUSY = 171001"

definition atomic_add :: "int \<Rightarrow> transport \<Rightarrow> transport" where
  "atomic_add n tp = tp\<lparr>ref_cnt := ref_cnt tp + n\<rparr>"

definition add_ref_locked :: "transport \<Rightarrow> transport" where
  "add_ref_locked tp =
     (if in_table tp \<and> ref_cnt tp = 1 then (if idle_timer tp \<noteq> None then tp\<lparr>idle_timer := None\<rparr> else tp) else tp)"

definition pjsip_transport_add_ref :: "transport \<Rightarrow> int \<times> transport" where
  "pjsip_transport_add_ref tp =
     (let tp = atomic_add 1 tp in (PJ_SUCCESS, if ref_cnt tp = 1 then add_ref_locked tp else tp))"

definition idle_delay :: "transport \<Rightarrow> int" where
  "idle_delay tp =
     (if is_shutdown tp then 0
      else if outgoing tp then PJSIP_TRANSPORT_IDLE_TIME else PJSIP_TRANSPORT_SERVER_IDLE_TIME)"

definition dec_ref_locked :: "transport \<Rightarrow> transport res" where
  "dec_ref_locked tp =
     (if in_table tp \<and> \<not> is_destroying tp \<and> ref_cnt tp = 0
      then if idle_timer tp \<noteq> None then Inl AssertFail else Inr (tp\<lparr>idle_timer := Some (idle_delay tp)\<rparr>)
      else Inr tp)"

definition pjsip_transport_dec_ref :: "transport \<Rightarrow> (int \<times> transport) res" where
  "pjsip_transport_dec_ref tp =
     (if \<not> ref_cnt tp > 0 then Inl AssertFail
      else let tp = atomic_add (-1) tp in
        bind_res (if ref_cnt tp = 0 then dec_ref_locked tp else Inr tp) (\<lambda>tp. Inr (PJ_SUCCESS, tp)))"

section \<open>Destruction and shutdown\<close>

definition destroy_transport :: "int \<Rightarrow> transport \<Rightarrow> int \<times> transport" where
  "destroy_transport destroy tp = (destroy, tp\<lparr>is_destroying := True, idle_timer := None, in_table := False\<rparr>)"

definition pjsip_transport_destroy :: "int \<Rightarrow> transport \<Rightarrow> (int \<times> transport) res" where
  "pjsip_transport_destroy destroy tp =
     (if ref_cnt tp \<noteq> 0 then Inl AssertFail else Inr (destroy_transport destroy tp))"

definition transport_idle_callback :: "int \<Rightarrow> transport \<Rightarrow> transport res" where
  "transport_idle_callback destroy tp =
     bind_res (pjsip_transport_destroy destroy (tp\<lparr>idle_timer := None\<rparr>)) (\<lambda>(status, tp). Inr tp)"

text \<open>\<open>do_shutdown\<close> is the status of the transport's own shutdown, if it has one.\<close>

definition pjsip_transport_shutdown2 :: "int option \<Rightarrow> transport \<Rightarrow> (int \<times> transport) res" where
  "pjsip_transport_shutdown2 do_shutdown tp =
     (if is_shutdown tp then Inr (PJ_SUCCESS, tp)
      else let status = (case do_shutdown of None \<Rightarrow> PJ_SUCCESS | Some st \<Rightarrow> st);
               tp = (if status = PJ_SUCCESS then tp\<lparr>is_shutdown := True\<rparr> else tp)
           in if ref_cnt tp = 0
              then bind_res (pjsip_transport_dec_ref (snd (pjsip_transport_add_ref tp))) (\<lambda>(_, tp). Inr (status, tp))
              else Inr (status, tp))"

definition pjsip_transport_shutdown :: "int option \<Rightarrow> transport \<Rightarrow> (int \<times> transport) res" where
  "pjsip_transport_shutdown do_shutdown tp = pjsip_transport_shutdown2 do_shutdown tp"

section \<open>Calls one after the other\<close>

text \<open>
  The calls that can come: a user joins while the transport can still be found or has users, a user
  leaves, the timer fires when it is scheduled, and a shutdown before the transport is gone.
\<close>

inductive tp_step :: "transport \<Rightarrow> transport res \<Rightarrow> bool" where
  join: "in_table tp \<or> ref_cnt tp > 0 \<Longrightarrow> tp_step tp (Inr (snd (pjsip_transport_add_ref tp)))"
| leave: "ref_cnt tp > 0 \<Longrightarrow> tp_step tp (bind_res (pjsip_transport_dec_ref tp) (\<lambda>(st, tp). Inr tp))"
| fire: "idle_timer tp \<noteq> None \<Longrightarrow> tp_step tp (transport_idle_callback st tp)"
| shut: "in_table tp \<Longrightarrow> tp_step tp (bind_res (pjsip_transport_shutdown do_shutdown tp) (\<lambda>(st, tp). Inr tp))"

inductive tp_steps :: "transport res \<Rightarrow> transport res \<Rightarrow> bool" where
  stay: "tp_steps r r"
| more: "tp_steps r (Inr tp) \<Longrightarrow> tp_step tp r' \<Longrightarrow> tp_steps r r'"

text \<open>The timer runs only without users, and only an unused transport is destroyed.\<close>

definition tp_inv :: "transport \<Rightarrow> bool" where
  "tp_inv tp \<longleftrightarrow>
     0 \<le> ref_cnt tp \<and> (idle_timer tp \<noteq> None \<longrightarrow> ref_cnt tp = 0) \<and> in_table tp = (\<not> is_destroying tp) \<and>
     (is_destroying tp \<longrightarrow> ref_cnt tp = 0 \<and> idle_timer tp = None)"

definition tp_good :: "transport res \<Rightarrow> bool" where
  "tp_good r \<longleftrightarrow> (\<exists>tp. r = Inr tp \<and> tp_inv tp)"

lemma tp_good_Inr [simp]: "tp_good (Inr tp) = tp_inv tp"
  by (simp add: tp_good_def)

lemmas tp_defs = pjsip_transport_add_ref_def atomic_add_def add_ref_locked_def pjsip_transport_dec_ref_def
  dec_ref_locked_def tp_inv_def

lemma add_ref_inv: "tp_inv tp \<Longrightarrow> in_table tp \<or> ref_cnt tp > 0 \<Longrightarrow> tp_inv (snd (pjsip_transport_add_ref tp))"
  by (auto simp: tp_defs Let_def)

lemma dec_ref_inv: "tp_inv tp \<Longrightarrow> ref_cnt tp > 0 \<Longrightarrow> \<exists>tp'. pjsip_transport_dec_ref tp = Inr (PJ_SUCCESS, tp') \<and> tp_inv tp'"
  by (auto simp: tp_defs Let_def)

lemma callback_inv: "tp_inv tp \<Longrightarrow> idle_timer tp \<noteq> None \<Longrightarrow> \<exists>tp'. transport_idle_callback st tp = Inr tp' \<and> tp_inv tp'"
  by (auto simp: transport_idle_callback_def pjsip_transport_destroy_def destroy_transport_def tp_inv_def)

lemma add_ref_counts [simp]: "ref_cnt (snd (pjsip_transport_add_ref tp)) = ref_cnt tp + 1"
  by (simp add: pjsip_transport_add_ref_def atomic_add_def add_ref_locked_def Let_def)

lemma shutdown_inv:
  assumes "tp_inv tp" "in_table tp"
  shows "\<exists>st tp'. pjsip_transport_shutdown do_shutdown tp = Inr (st, tp') \<and> tp_inv tp'"
proof (cases "is_shutdown tp")
  case True
  with assms show ?thesis by (simp add: pjsip_transport_shutdown_def pjsip_transport_shutdown2_def)
next
  case False
  define st where "st = (case do_shutdown of None \<Rightarrow> PJ_SUCCESS | Some st \<Rightarrow> st)"
  define tp1 where "tp1 = (if st = PJ_SUCCESS then tp\<lparr>is_shutdown := True\<rparr> else tp)"
  have i: "tp_inv tp1" "in_table tp1" using assms by (simp_all add: tp1_def tp_inv_def)
  have e: "pjsip_transport_shutdown do_shutdown tp =
      (if ref_cnt tp1 = 0
       then bind_res (pjsip_transport_dec_ref (snd (pjsip_transport_add_ref tp1))) (\<lambda>(_, tp). Inr (st, tp))
       else Inr (st, tp1))"
    using False by (simp add: pjsip_transport_shutdown_def pjsip_transport_shutdown2_def st_def tp1_def Let_def)
  show ?thesis
  proof (cases "ref_cnt tp1 = 0")
    case True
    with dec_ref_inv [OF add_ref_inv [OF i(1)]] i(2) obtain tp' where
      "pjsip_transport_dec_ref (snd (pjsip_transport_add_ref tp1)) = Inr (PJ_SUCCESS, tp')" "tp_inv tp'" by auto
    with True show ?thesis unfolding e by simp
  next
    case False
    with i show ?thesis unfolding e by simp
  qed
qed

lemma tp_step_good: "tp_step tp r \<Longrightarrow> tp_inv tp \<Longrightarrow> tp_good r"
proof (induction rule: tp_step.induct)
  case (join tp)
  then show ?case by (simp add: add_ref_inv)
next
  case (leave tp)
  then show ?case using dec_ref_inv [of tp] by auto
next
  case (fire tp st)
  then show ?case using callback_inv [of tp st] by auto
next
  case (shut tp do_shutdown)
  then show ?case using shutdown_inv [of tp do_shutdown] by auto
qed

lemma tp_steps_good: "tp_steps r r' \<Longrightarrow> tp_good r \<Longrightarrow> tp_good r'"
  by (induction rule: tp_steps.induct) (auto intro: tp_step_good)

definition tp_new :: transport where
  "tp_new = \<lparr>ref_cnt = 0, idle_timer = None, is_shutdown = False, is_destroying = False, in_table = True, outgoing = False\<rparr>"

lemma tp_new_inv: "tp_inv tp_new"
  by (simp add: tp_inv_def tp_new_def)

text \<open>
  C32: As long as no two calls overlap, no assertion about a transport fails, its idle timer is scheduled
  only while it has no user, and it is destroyed only without users.
\<close>

theorem transport_used_safely:
  assumes "tp_steps (Inr tp_new) r"
  shows "\<exists>tp. r = Inr tp \<and> 0 \<le> ref_cnt tp \<and> (idle_timer tp \<noteq> None \<or> is_destroying tp \<longrightarrow> ref_cnt tp = 0)"
  using tp_steps_good [OF assms] tp_new_inv by (auto simp: tp_good_def tp_inv_def)

theorem transport_used_safely_witness:
  "\<exists>tp. tp_steps (Inr tp_new) (Inr tp) \<and> idle_timer tp = Some 600 \<and> ref_cnt tp = 0"
proof -
  let ?a = "snd (pjsip_transport_add_ref tp_new)"
  let ?b = "?a\<lparr>ref_cnt := 0, idle_timer := Some 600\<rparr>"
  have s1: "tp_steps (Inr tp_new) (Inr ?a)"
    by (rule tp_steps.more [OF tp_steps.stay tp_step.join]) (simp add: tp_new_def)
  have "bind_res (pjsip_transport_dec_ref ?a) (\<lambda>(st, tp). Inr tp) = Inr ?b"
    by (simp add: tp_defs tp_new_def idle_delay_def PJSIP_TRANSPORT_SERVER_IDLE_TIME_def Let_def)
  with tp_step.leave [of ?a] have "tp_step ?a (Inr ?b)" by (simp add: tp_new_def)
  with s1 have s2: "tp_steps (Inr tp_new) (Inr ?b)" by (rule tp_steps.more)
  have "idle_timer ?b \<noteq> None \<or> is_destroying ?b" by simp
  with transport_used_safely [OF s2] have "ref_cnt ?b = 0" by blast
  with s2 show ?thesis by auto
qed

section \<open>Calls that overlap\<close>

text \<open>
  Two users of an idle transport join at once: both change the counter before either takes the lock.
  The first finds the counter at 2 under the lock and leaves the timer alone, the second has never
  seen a 1.
\<close>

definition join_at_once :: "transport \<Rightarrow> transport" where
  "join_at_once tp = add_ref_locked (atomic_add 1 (atomic_add 1 tp))"

text \<open>
  When two users join an idle transport at once, its timer stays scheduled while both hold it; when
  it then fires, or the users leave before it does, an assertion fails.
\<close>

theorem joining_at_once_keeps_timer:
  assumes "tp_inv tp" and "in_table tp" and "idle_timer tp = Some d"
  shows "ref_cnt (join_at_once tp) = 2 \<and> idle_timer (join_at_once tp) = Some d \<and>
     transport_idle_callback st (join_at_once tp) = Inl AssertFail \<and>
     bind_res (pjsip_transport_dec_ref (join_at_once tp)) (\<lambda>(_, tp). pjsip_transport_dec_ref tp) = Inl AssertFail"
  using assms
  by (simp add: join_at_once_def tp_defs transport_idle_callback_def pjsip_transport_destroy_def Let_def)

theorem joining_at_once_keeps_timer_witness:
  "transport_idle_callback 0 (join_at_once (tp_new\<lparr>idle_timer := Some 600\<rparr>)) = Inl AssertFail"
proof -
  have "tp_inv (tp_new\<lparr>idle_timer := Some 600\<rparr>)" "in_table (tp_new\<lparr>idle_timer := Some 600\<rparr>)"
    by (simp_all add: tp_inv_def tp_new_def)
  from joining_at_once_keeps_timer [OF this, of 600 0] show ?thesis by simp
qed

end
