(* ===== verification/Hash.thy ===== *)
theory Hash
  imports PjString "HOL-Library.Word"
begin

unbundle bit_operations_syntax

text \<open>
  The hash table of the base library (\<open>3rd/src/pj/hash.c\<close>): chained buckets, a number of rows that is
  one less than a power of two, keys that are byte strings, compared as they are or without regard to
  case. Values are pointers; the null pointer is \<open>None\<close> and deletes. It refines a map, stated as the
  interface \<open>key_map\<close> its clients use.
\<close>

section \<open>The table\<close>

record 'v hash_entry =
  e_key :: string
  e_hash :: "32 word"
  e_value :: 'v

record 'v hash_table =
  tbl :: "'v hash_entry list list"
  h_count :: "32 word"
  rows :: "32 word"

definition byte_of :: "char \<Rightarrow> 32 word" where
  "byte_of c = of_nat (of_char c)"

fun pj_hash_calc :: "32 word \<Rightarrow> string \<Rightarrow> 32 word" where
  "pj_hash_calc hash [] = hash"
| "pj_hash_calc hash (c # key) = pj_hash_calc (hash * 33 + byte_of c) key"

fun pj_hash_calc_tolower :: "32 word \<Rightarrow> string \<Rightarrow> string \<Rightarrow> 32 word \<times> string" where
  "pj_hash_calc_tolower hval result [] = (hval, result)"
| "pj_hash_calc_tolower hval result (c # key) =
     (let lower = tolower_c c in pj_hash_calc_tolower (hval * 33 + byte_of lower) (result @ [lower]) key)"

text \<open>The size is doubled until it suffices; as an unsigned it can become 0, and then stays there.\<close>

partial_function (option) grow_size :: "32 word \<Rightarrow> 32 word \<Rightarrow> 32 word option" where
  "grow_size table_size n =
     (let table_size = push_bit 1 table_size in if table_size < n then grow_size table_size n else Some table_size)"

definition pj_hash_create :: "32 word \<Rightarrow> 'v hash_table option" where
  "pj_hash_create n =
     (case grow_size 8 n of
        None \<Rightarrow> None
      | Some table_size \<Rightarrow>
          let table_size = table_size - 1
          in Some \<lparr>tbl = replicate (unat (table_size + 1)) [], h_count = 0, rows = table_size\<rparr>)"

section \<open>Finding an entry\<close>

text \<open>A hash value of 0 stands for one still to be computed.\<close>

fun hash_key :: "bool \<Rightarrow> 32 word \<Rightarrow> string \<Rightarrow> 32 word" where
  "hash_key lower hash [] = hash"
| "hash_key lower hash (c # key) = hash_key lower (hash * 33 + byte_of (if lower then tolower_c c else c)) key"

definition entry_matches :: "bool \<Rightarrow> 32 word \<Rightarrow> string \<Rightarrow> 'v hash_entry \<Rightarrow> bool" where
  "entry_matches lower hash key e \<longleftrightarrow>
     e_hash e = hash \<and> length (e_key e) = length key \<and>
     (lower \<and> strncasecmp_eq0 (length key) (e_key e) key \<or> \<not> lower \<and> e_key e = key)"

fun scan_entries :: "bool \<Rightarrow> 32 word \<Rightarrow> string \<Rightarrow> 'v hash_entry list \<Rightarrow> nat" where
  "scan_entries lower hash key [] = 0"
| "scan_entries lower hash key (e # es) =
     (if entry_matches lower hash key e then 0 else Suc (scan_entries lower hash key es))"

text \<open>
  The place of the entry, its row and its position there, with the table after it has been created
  where a value is given; \<open>alloc\<close>: there is a pool or a buffer for a new entry. Then the hash value.
\<close>

definition find_entry ::
    "bool \<Rightarrow> 'v hash_table \<Rightarrow> string \<Rightarrow> 'v option \<Rightarrow> 32 word \<Rightarrow> bool \<Rightarrow> ('v hash_table \<times> nat \<times> nat \<times> 32 word) res" where
  "find_entry alloc ht key val hval lower =
     (let hash = (if hval \<noteq> 0 then hval else hash_key lower 0 key);
          row = unat (hash AND rows ht);
          es = tbl ht ! row;
          i = scan_entries lower hash key es
      in if i < length es then Inr (ht, row, i, hash)
         else case val of
           None \<Rightarrow> Inr (ht, row, i, hash)
         | Some v \<Rightarrow>
             if \<not> alloc then Inl AssertFail
             else Inr (ht\<lparr>tbl := (tbl ht)[row := es @ [\<lparr>e_key = key, e_hash = hash, e_value = v\<rparr>]],
                          h_count := h_count ht + 1\<rparr>, row, i, hash))"

definition entry_value :: "'v hash_table \<Rightarrow> nat \<Rightarrow> nat \<Rightarrow> 'v option" where
  "entry_value ht row i = (if i < length (tbl ht ! row) then Some (e_value (tbl ht ! row ! i)) else None)"

definition pj_hash_get :: "'v hash_table \<Rightarrow> string \<Rightarrow> 32 word \<Rightarrow> ('v option \<times> 32 word) res" where
  "pj_hash_get ht key hval =
     bind_res (find_entry False ht key None hval False) (\<lambda>(ht, row, i, hash). Inr (entry_value ht row i, hash))"

definition pj_hash_get_lower :: "'v hash_table \<Rightarrow> string \<Rightarrow> 32 word \<Rightarrow> ('v option \<times> 32 word) res" where
  "pj_hash_get_lower ht key hval =
     bind_res (find_entry False ht key None hval True) (\<lambda>(ht, row, i, hash). Inr (entry_value ht row i, hash))"

definition hash_set ::
    "bool \<Rightarrow> 'v hash_table \<Rightarrow> string \<Rightarrow> 32 word \<Rightarrow> 'v option \<Rightarrow> bool \<Rightarrow> 'v hash_table res" where
  "hash_set alloc ht key hval value lower =
     bind_res (find_entry alloc ht key value hval lower) (\<lambda>(ht, row, i, hash).
       if i < length (tbl ht ! row)
       then Inr (case value of
              None \<Rightarrow> ht\<lparr>tbl := (tbl ht)[row := take i (tbl ht ! row) @ drop (Suc i) (tbl ht ! row)],
                        h_count := h_count ht - 1\<rparr>
            | Some v \<Rightarrow> ht\<lparr>tbl := (tbl ht)[row := (tbl ht ! row)[i := (tbl ht ! row ! i)\<lparr>e_value := v\<rparr>]]\<rparr>)
       else Inr ht)"

definition pj_hash_set :: "bool \<Rightarrow> 'v hash_table \<Rightarrow> string \<Rightarrow> 32 word \<Rightarrow> 'v option \<Rightarrow> 'v hash_table res" where
  "pj_hash_set pool ht key hval value = hash_set pool ht key hval value False"

definition pj_hash_set_lower :: "bool \<Rightarrow> 'v hash_table \<Rightarrow> string \<Rightarrow> 32 word \<Rightarrow> 'v option \<Rightarrow> 'v hash_table res" where
  "pj_hash_set_lower pool ht key hval value = hash_set pool ht key hval value True"

definition pj_hash_set_np :: "'v hash_table \<Rightarrow> string \<Rightarrow> 32 word \<Rightarrow> 'v option \<Rightarrow> 'v hash_table res" where
  "pj_hash_set_np ht key hval value = hash_set True ht key hval value False"

definition pj_hash_set_np_lower :: "'v hash_table \<Rightarrow> string \<Rightarrow> 32 word \<Rightarrow> 'v option \<Rightarrow> 'v hash_table res" where
  "pj_hash_set_np_lower ht key hval value = hash_set True ht key hval value True"

definition pj_hash_count :: "'v hash_table \<Rightarrow> 32 word" where
  "pj_hash_count ht = h_count ht"

section \<open>Iteration\<close>

text \<open>An iterator is a row and the entries from the current one on; \<open>None\<close> when there is none left.\<close>

fun first_row :: "nat \<Rightarrow> 'v hash_entry list list \<Rightarrow> (nat \<times> 'v hash_entry list) option" where
  "first_row i [] = None"
| "first_row i (es # rs) = (if es \<noteq> [] then Some (i, es) else first_row (Suc i) rs)"

definition pj_hash_first :: "'v hash_table \<Rightarrow> (nat \<times> 'v hash_entry list) option" where
  "pj_hash_first ht = first_row 0 (tbl ht)"

definition pj_hash_next :: "'v hash_table \<Rightarrow> nat \<times> 'v hash_entry list \<Rightarrow> (nat \<times> 'v hash_entry list) option res" where
  "pj_hash_next ht it =
     (case it of (row, es) \<Rightarrow>
        case es of
          [] \<Rightarrow> Inl NullDeref
        | e # es' \<Rightarrow> if es' \<noteq> [] then Inr (Some (row, es')) else Inr (first_row (Suc row) (drop (Suc row) (tbl ht))))"

definition pj_hash_this :: "nat \<times> 'v hash_entry list \<Rightarrow> 'v res" where
  "pj_hash_this it = (case snd it of [] \<Rightarrow> Inl NullDeref | e # es \<Rightarrow> Inr (e_value e))"

text \<open>The loop of the clients: from the first entry to the last.\<close>

fun iterate :: "nat \<Rightarrow> 'v hash_table \<Rightarrow> (nat \<times> 'v hash_entry list) option \<Rightarrow> 'v list res option" where
  "iterate n ht None = Some (Inr [])"
| "iterate 0 ht (Some it) = None"
| "iterate (Suc n) ht (Some it) =
     (case bind_res (pj_hash_this it) (\<lambda>v. bind_res (pj_hash_next ht it) (\<lambda>it'. Inr (v, it'))) of
        Inl f \<Rightarrow> Some (Inl f)
      | Inr (v, it') \<Rightarrow> map_option (\<lambda>r. bind_res r (\<lambda>vs. Inr (v # vs))) (iterate n ht it'))"

section \<open>The interface of a table\<close>

text \<open>
  Keys are known up to \<open>canon\<close>. The operations keep the invariant \<open>ok\<close> and act on the map \<open>view\<close> of
  the table as lookup, update and deletion.
\<close>

locale key_map =
  fixes canon :: "'k \<Rightarrow> 'k"
    and key_ok :: "'k \<Rightarrow> bool"
    and ok :: "'t \<Rightarrow> bool"
    and view :: "'t \<Rightarrow> 'k \<Rightarrow> 'v option"
    and look :: "'t \<Rightarrow> 'k \<Rightarrow> 'v option"
    and put :: "'t \<Rightarrow> 'k \<Rightarrow> 'v option \<Rightarrow> 't"
  assumes look_view: "ok t \<Longrightarrow> key_ok k \<Longrightarrow> look t k = view t (canon k)"
    and put_view: "ok t \<Longrightarrow> key_ok k \<Longrightarrow> view (put t k v) = (view t)(canon k := v)"
    and put_ok: "ok t \<Longrightarrow> key_ok k \<Longrightarrow> ok (put t k v)"
begin

lemma look_put: "ok t \<Longrightarrow> key_ok k \<Longrightarrow> key_ok k' \<Longrightarrow> look (put t k v) k' = (if canon k' = canon k then v else look t k')"
  by (simp add: look_view put_ok put_view)

definition put_all :: "'t \<Rightarrow> ('k \<times> 'v option) list \<Rightarrow> 't" where
  "put_all t ops = foldl (\<lambda>t (k, v). put t k v) t ops"

lemma put_all_view:
  assumes "ok t" and "list_all (\<lambda>(k, v). key_ok k) ops"
  shows "ok (put_all t ops) \<and> view (put_all t ops) = foldl (\<lambda>m (k, v). m(canon k := v)) (view t) ops"
  using assms
proof (induction ops arbitrary: t)
  case Nil
  then show ?case by (simp add: put_all_def)
next
  case (Cons op ops)
  obtain k v where op: "op = (k, v)" by (cases op)
  from Cons.prems have k: "key_ok k" and ops: "list_all (\<lambda>(k, v). key_ok k) ops" by (simp_all add: op)
  have e: "put_all t (op # ops) = put_all (put t k v) ops" by (simp add: put_all_def op)
  from Cons.IH [OF put_ok [OF Cons.prems(1) k] ops] show ?case
    unfolding e foldl_Cons by (simp only: op prod.case put_view [OF Cons.prems(1) k] simp_thms)
qed

end

section \<open>The invariant\<close>

definition canon :: "bool \<Rightarrow> string \<Rightarrow> string" where
  "canon lower k = (if lower then lower_c k else k)"

text \<open>A key compared without regard to case may have a null character only at its end.\<close>

definition key_ok :: "bool \<Rightarrow> string \<Rightarrow> bool" where
  "key_ok lower k \<longleftrightarrow> lower \<longrightarrow> NUL \<notin> set (butlast k)"

definition row_of :: "'v hash_table \<Rightarrow> string \<Rightarrow> nat" where
  "row_of ht k = unat (pj_hash_calc 0 k AND rows ht)"

definition entry_ok :: "bool \<Rightarrow> 'v hash_table \<Rightarrow> nat \<Rightarrow> 'v hash_entry \<Rightarrow> bool" where
  "entry_ok lower ht row e \<longleftrightarrow>
     key_ok lower (e_key e) \<and> e_hash e = pj_hash_calc 0 (canon lower (e_key e)) \<and> row_of ht (canon lower (e_key e)) = row"

definition row_ok :: "bool \<Rightarrow> 'v hash_table \<Rightarrow> nat \<Rightarrow> 'v hash_entry list \<Rightarrow> bool" where
  "row_ok lower ht row es \<longleftrightarrow> (\<forall>e\<in>set es. entry_ok lower ht row e) \<and> distinct (map (canon lower \<circ> e_key) es)"

definition hash_inv :: "bool \<Rightarrow> 'v hash_table \<Rightarrow> bool" where
  "hash_inv lower ht \<longleftrightarrow>
     length (tbl ht) = Suc (unat (rows ht)) \<and>
     (\<forall>row < length (tbl ht). row_ok lower ht row (tbl ht ! row)) \<and>
     h_count ht = of_nat (sum_list (map length (tbl ht)))"

definition entry_map :: "bool \<Rightarrow> 'v hash_entry list \<Rightarrow> string \<Rightarrow> 'v option" where
  "entry_map lower es = map_of (map (\<lambda>e. (canon lower (e_key e), e_value e)) es)"

definition hash_map :: "bool \<Rightarrow> 'v hash_table \<Rightarrow> string \<Rightarrow> 'v option" where
  "hash_map lower ht k = entry_map lower (tbl ht ! row_of ht k) k"

lemma hash_key_calc: "hash_key lower h k = pj_hash_calc h (canon lower k)"
  by (induction k arbitrary: h) (simp_all add: canon_def)

lemma hash_calc_tolower: "pj_hash_calc_tolower h r k = (pj_hash_calc h (lower_c k), r @ lower_c k)"
  by (induction k arbitrary: h r) (simp_all add: Let_def)

lemma unat_and_le: "unat ((a :: 'a::len word) AND b) \<le> unat b"
  using word_and_le1 [of a b] by (simp add: word_le_nat_alt)

lemma row_of_less: "hash_inv lower ht \<Longrightarrow> row_of ht k < length (tbl ht)"
  by (simp add: hash_inv_def row_of_def less_Suc_eq_le unat_and_le)

lemma strncasecmp_canon:
  "length a = length b \<Longrightarrow> NUL \<notin> set (butlast a) \<Longrightarrow> strncasecmp_eq0 (length b) a b \<longleftrightarrow> lower_c a = lower_c b"
proof (induction a b rule: list_induct2)
  case (Cons x xs y ys)
  then show ?case by (cases xs) (auto simp: strncasecmp_eq0.simps split: if_splits)
qed (simp add: strncasecmp_eq0.simps)

lemma entry_matches_iff:
  assumes "entry_ok lower ht row e"
  shows "entry_matches lower (pj_hash_calc 0 (canon lower k)) k e \<longleftrightarrow> canon lower (e_key e) = canon lower k"
proof (cases lower)
  case True
  have "length (e_key e) = length k" if "lower_c (e_key e) = lower_c k" using that by (rule lower_c_eq_length)
  with assms True strncasecmp_canon [of "e_key e" k] show ?thesis
    by (auto simp: entry_matches_def entry_ok_def key_ok_def canon_def)
next
  case False
  with assms show ?thesis by (auto simp: entry_matches_def entry_ok_def canon_def)
qed

lemma scan_entries_eq: "scan_entries lower hash key es = length (takeWhile (\<lambda>e. \<not> entry_matches lower hash key e) es)"
  by (induction es) simp_all

text \<open>What the scan of a row finds.\<close>

lemma scan_found:
  assumes "row_ok lower ht row es" and "i = scan_entries lower (pj_hash_calc 0 (canon lower k)) k es" and "i < length es"
  shows "canon lower (e_key (es ! i)) = canon lower k"
    "j < length es \<Longrightarrow> j \<noteq> i \<Longrightarrow> canon lower (e_key (es ! j)) \<noteq> canon lower k"
proof -
  have m: "entry_matches lower (pj_hash_calc 0 (canon lower k)) k (es ! i)"
    using assms(3) nth_length_takeWhile [of "\<lambda>e. \<not> entry_matches lower (pj_hash_calc 0 (canon lower k)) k e" es]
    by (simp add: assms(2) scan_entries_eq)
  with assms(1,3) show c: "canon lower (e_key (es ! i)) = canon lower k"
    by (simp add: row_ok_def entry_matches_iff [of lower ht row])
  show "canon lower (e_key (es ! j)) \<noteq> canon lower k" if "j < length es" "j \<noteq> i"
    using assms(1,3) that nth_eq_iff_index_eq [of "map (canon lower \<circ> e_key) es" j i] c by (simp add: row_ok_def)
qed

lemma scan_missing:
  assumes "row_ok lower ht row es" and "\<not> scan_entries lower (pj_hash_calc 0 (canon lower k)) k es < length es"
  shows "\<forall>e\<in>set es. canon lower (e_key e) \<noteq> canon lower k"
proof -
  let ?P = "\<lambda>e. \<not> entry_matches lower (pj_hash_calc 0 (canon lower k)) k e"
  have "length (takeWhile ?P es) = length es"
    using assms(2) length_takeWhile_le [of ?P es] by (simp add: scan_entries_eq)
  then have "takeWhile ?P es = es" by (metis takeWhile_eq_take take_all_iff order_refl)
  then have "\<forall>e\<in>set es. ?P e" by (simp only: takeWhile_eq_all_conv)
  with assms(1) show ?thesis by (auto simp: row_ok_def entry_matches_iff [of lower ht row])
qed

lemma entry_map_None: "\<forall>e\<in>set es. canon lower (e_key e) \<noteq> k \<Longrightarrow> entry_map lower es k = None"
  by (induction es) (auto simp: entry_map_def)

lemma entry_map_at:
  assumes "distinct (map (canon lower \<circ> e_key) es)" and "i < length es" and "canon lower (e_key (es ! i)) = k"
  shows "entry_map lower es k = Some (e_value (es ! i))"
proof -
  have d: "distinct (map fst (map (\<lambda>e. (canon lower (e_key e), e_value e)) es))" using assms(1) by (simp add: comp_def)
  have "(k, e_value (es ! i)) \<in> set (map (\<lambda>e. (canon lower (e_key e), e_value e)) es)"
    using assms(2,3) by (auto intro!: image_eqI [of _ _ "es ! i"])
  with d show ?thesis unfolding entry_map_def by (rule map_of_is_SomeI)
qed

section \<open>The table refines a map\<close>

text \<open>A hash value that comes with a key is that of the key, or 0.\<close>

definition hval_ok :: "bool \<Rightarrow> string \<Rightarrow> 32 word \<Rightarrow> bool" where
  "hval_ok lower k hval \<longleftrightarrow> hval = 0 \<or> hval = pj_hash_calc 0 (canon lower k)"

lemma hash_used: "hval_ok lower k hval \<Longrightarrow> (if hval \<noteq> 0 then hval else hash_key lower 0 k) = pj_hash_calc 0 (canon lower k)"
  by (auto simp: hval_ok_def hash_key_calc)

abbreviation place :: "bool \<Rightarrow> 'v hash_table \<Rightarrow> string \<Rightarrow> nat" where
  "place lower ht k \<equiv> scan_entries lower (pj_hash_calc 0 (canon lower k)) k (tbl ht ! row_of ht (canon lower k))"

lemma find_entry_eq:
  assumes "hval_ok lower k hval"
  shows "find_entry alloc ht k val hval lower =
     (let h = pj_hash_calc 0 (canon lower k); row = row_of ht (canon lower k); i = place lower ht k; es = tbl ht ! row
      in if i < length es then Inr (ht, row, i, h)
         else case val of
           None \<Rightarrow> Inr (ht, row, i, h)
         | Some v \<Rightarrow>
             if \<not> alloc then Inl AssertFail
             else Inr (ht\<lparr>tbl := (tbl ht)[row := es @ [\<lparr>e_key = k, e_hash = h, e_value = v\<rparr>]], h_count := h_count ht + 1\<rparr>,
                       row, i, h))"
  by (simp add: find_entry_def hash_used [OF assms] row_of_def Let_def)

lemma row_ok_at: "hash_inv lower ht \<Longrightarrow> row_ok lower ht (row_of ht k) (tbl ht ! row_of ht k)"
  using row_of_less [of lower ht k] by (simp add: hash_inv_def)

lemma lookup_eq:
  assumes "hash_inv lower ht" and "hval_ok lower k hval"
  shows "bind_res (find_entry alloc ht k None hval lower) (\<lambda>(ht, row, i, hash). Inr (entry_value ht row i, hash)) =
     Inr (hash_map lower ht (canon lower k), pj_hash_calc 0 (canon lower k))"
proof -
  define es where "es = tbl ht ! row_of ht (canon lower k)"
  note r = row_ok_at [OF assms(1), of "canon lower k", folded es_def]
  show ?thesis
  proof (cases "place lower ht k < length es")
    case True
    with entry_map_at [OF _ True scan_found(1) [OF r _ True]] r
    have "entry_map lower es (canon lower k) = Some (e_value (es ! place lower ht k))" by (simp add: row_ok_def es_def)
    with True show ?thesis
      by (simp add: find_entry_eq [OF assms(2)] entry_value_def hash_map_def es_def Let_def)
  next
    case False
    with scan_missing [OF r, of k] have "entry_map lower es (canon lower k) = None"
      by (intro entry_map_None) (simp add: es_def)
    with False show ?thesis
      by (simp add: find_entry_eq [OF assms(2)] entry_value_def hash_map_def es_def Let_def)
  qed
qed

lemma pj_hash_get_eq:
  "hash_inv False ht \<Longrightarrow> hval_ok False k hval \<Longrightarrow> pj_hash_get ht k hval = Inr (hash_map False ht k, pj_hash_calc 0 k)"
  using lookup_eq [of False ht k hval False] by (simp add: pj_hash_get_def canon_def)

lemma pj_hash_get_lower_eq:
  "hash_inv True ht \<Longrightarrow> hval_ok True k hval \<Longrightarrow>
     pj_hash_get_lower ht k hval = Inr (hash_map True ht (lower_c k), pj_hash_calc 0 (lower_c k))"
  using lookup_eq [of True ht k hval False] by (simp add: pj_hash_get_lower_def canon_def)

text \<open>A table in which one row changes.\<close>

lemma entry_ok_rows: "rows ht' = rows ht \<Longrightarrow> entry_ok lower ht' row e = entry_ok lower ht row e"
  by (simp add: entry_ok_def row_of_def)

lemma sum_list_change: "i < length xs \<Longrightarrow> sum_list (xs[i := n]) + xs ! i = sum_list xs + (n :: nat)"
proof (induction xs arbitrary: i)
  case (Cons x xs)
  show ?case
  proof (cases i)
    case (Suc j)
    with Cons.IH [of j] Cons.prems show ?thesis by simp
  qed simp
qed simp

lemma inv_update_row:
  assumes inv: "hash_inv lower ht" and row: "row < length (tbl ht)" and ok: "row_ok lower ht row es"
    and n: "h_count ht' + of_nat (length (tbl ht ! row)) = h_count ht + of_nat (length es)"
    and ht': "tbl ht' = (tbl ht)[row := es]" "rows ht' = rows ht"
  shows "hash_inv lower ht'"
proof -
  have s: "sum_list (map length ((tbl ht)[row := es])) + length (tbl ht ! row) = sum_list (map length (tbl ht)) + length es"
    using row sum_list_change [of row "map length (tbl ht)" "length es"] by (simp add: map_update)
  have "h_count ht' + of_nat (length (tbl ht ! row)) =
      of_nat (sum_list (map length ((tbl ht)[row := es]))) + of_nat (length (tbl ht ! row))"
    unfolding n of_nat_add [symmetric] s using inv by (simp add: hash_inv_def)
  then have "h_count ht' = of_nat (sum_list (map length (tbl ht')))" by (simp add: ht')
  moreover have "row_ok lower ht' r (tbl ht' ! r)" if "r < length (tbl ht')" for r
    using that inv ok by (cases "r = row") (auto simp: ht' row_ok_def entry_ok_rows [OF ht'(2)] hash_inv_def)
  ultimately show ?thesis using inv by (simp add: hash_inv_def ht')
qed

lemma entry_map_append:
  "\<forall>e\<in>set es. canon lower (e_key e) \<noteq> k' \<Longrightarrow> canon lower (e_key e) = k' \<Longrightarrow>
     entry_map lower (es @ [e]) = (entry_map lower es)(k' \<mapsto> e_value e)"
  by (induction es) (auto simp: entry_map_def fun_eq_iff map_add_def)

lemma entry_map_split: "entry_map lower (es @ fs) = entry_map lower fs ++ entry_map lower es"
  by (simp add: entry_map_def)

lemma entry_map_change:
  assumes "i < length es" and "canon lower (e_key (es ! i)) = k'"
    and "\<forall>j<length es. j \<noteq> i \<longrightarrow> canon lower (e_key (es ! j)) \<noteq> k'"
  shows "entry_map lower (es[i := (es ! i)\<lparr>e_value := v\<rparr>]) = (entry_map lower es)(k' \<mapsto> v)"
    and "entry_map lower (take i es @ drop (Suc i) es) = (entry_map lower es)(k' := None)"
proof -
  have l: "\<forall>e\<in>set (take i es). canon lower (e_key e) \<noteq> k'"
  proof
    fix e assume "e \<in> set (take i es)"
    then obtain j where "j < i" "e = es ! j" by (auto simp: in_set_conv_nth)
    with assms(1,3) show "canon lower (e_key e) \<noteq> k'" by simp
  qed
  have r: "\<forall>e\<in>set (drop (Suc i) es). canon lower (e_key e) \<noteq> k'"
  proof
    fix e assume "e \<in> set (drop (Suc i) es)"
    then obtain j where "j < length es - Suc i" "e = es ! (Suc i + j)" by (auto simp: in_set_conv_nth)
    with assms(1) assms(3) [rule_format, of "Suc i + j"] show "canon lower (e_key e) \<noteq> k'" by simp
  qed
  note n = entry_map_None [OF l] entry_map_None [OF r]
  have es: "entry_map lower es = entry_map lower (take i es @ es ! i # drop (Suc i) es)"
    using assms(1) by (simp add: id_take_nth_drop [symmetric])
  have c: "entry_map lower (e # fs) = (entry_map lower fs)(canon lower (e_key e) \<mapsto> e_value e)" for e fs
    by (simp add: entry_map_def)
  show "entry_map lower (es[i := (es ! i)\<lparr>e_value := v\<rparr>]) = (entry_map lower es)(k' \<mapsto> v)"
    unfolding es entry_map_split c upd_conv_take_nth_drop [OF assms(1)]
    using n assms(2) by (auto simp: fun_eq_iff map_add_def split: option.split)
  show "entry_map lower (take i es @ drop (Suc i) es) = (entry_map lower es)(k' := None)"
    unfolding es entry_map_split c
    using n assms(2) by (auto simp: fun_eq_iff map_add_def split: option.split)
qed

lemma hash_map_update_row:
  assumes "tbl ht' = (tbl ht)[row_of ht k := es]" and "rows ht' = rows ht" and "hash_inv lower ht"
    and "entry_map lower es = (entry_map lower (tbl ht ! row_of ht k))(k := v)"
  shows "hash_map lower ht' = (hash_map lower ht)(k := v)"
proof
  fix k'
  have r: "row_of ht' k' = row_of ht k'" using assms(2) by (simp add: row_of_def)
  show "hash_map lower ht' k' = ((hash_map lower ht)(k := v)) k'"
    using row_of_less [OF assms(3), of k] assms(1,4)
    by (cases "row_of ht k' = row_of ht k") (auto simp: hash_map_def r)
qed

lemma row_ok_changes:
  assumes "row_ok lower ht row es"
  shows "row_ok lower ht row (take i es @ drop (Suc i) es)"
    and "i < length es \<Longrightarrow> row_ok lower ht row (es[i := (es ! i)\<lparr>e_value := v\<rparr>])"
proof -
  have "set (take i es @ drop (Suc i) es) \<subseteq> set es" using set_take_subset [of i es] set_drop_subset [of "Suc i" es] by auto
  moreover have "distinct (take i (map (canon lower \<circ> e_key) es) @ drop (Suc i) (map (canon lower \<circ> e_key) es))"
    using assms set_take_disj_set_drop_if_distinct [of "map (canon lower \<circ> e_key) es" i "Suc i"]
    by (simp add: row_ok_def distinct_take distinct_drop del: map_map)
  then have "distinct (map (canon lower \<circ> e_key) (take i es @ drop (Suc i) es))" by (simp add: take_map drop_map)
  ultimately show "row_ok lower ht row (take i es @ drop (Suc i) es)" using assms by (auto simp: row_ok_def)
  assume i: "i < length es"
  have m: "map (canon lower \<circ> e_key) (es[i := (es ! i)\<lparr>e_value := v\<rparr>]) = map (canon lower \<circ> e_key) es"
    using i by (auto intro!: nth_equalityI simp: nth_list_update)
  have "entry_ok lower ht row ((es ! i)\<lparr>e_value := v\<rparr>)"
    using assms i nth_mem [OF i] by (simp add: row_ok_def entry_ok_def)
  with assms set_update_subset_insert [of es i "(es ! i)\<lparr>e_value := v\<rparr>"]
  show "row_ok lower ht row (es[i := (es ! i)\<lparr>e_value := v\<rparr>])" unfolding row_ok_def m by blast
qed

lemma hash_set_refines:
  assumes inv: "hash_inv lower ht" and k: "key_ok lower k" and h: "hval_ok lower k hval"
  shows "\<exists>ht'. hash_set True ht k hval v lower = Inr ht' \<and> hash_inv lower ht' \<and>
               hash_map lower ht' = (hash_map lower ht)(canon lower k := v)"
proof -
  define row where "row = row_of ht (canon lower k)"
  define es where "es = tbl ht ! row"
  define i where "i = place lower ht k"
  define hs where "hs = pj_hash_calc 0 (canon lower k)"
  have row: "row < length (tbl ht)" using row_of_less [OF inv] by (simp add: row_def)
  have ok: "row_ok lower ht row es" using row_ok_at [OF inv] by (simp add: es_def row_def)
  note fe = find_entry_eq [OF h, of True ht v, folded i_def hs_def row_def es_def, unfolded Let_def]
  note upd = hash_map_update_row [OF _ _ inv, of _ "canon lower k", folded row_def es_def]
  note invu = inv_update_row [OF inv row, folded es_def]
  have i_scan: "i = scan_entries lower (pj_hash_calc 0 (canon lower k)) k es" by (simp add: i_def es_def row_def)
  show ?thesis
  proof (cases "i < length es")
    case True
    note f = scan_found [OF ok i_scan True]
    have o: "\<forall>j<length es. j \<noteq> i \<longrightarrow> canon lower (e_key (es ! j)) \<noteq> canon lower k" using f(2) by blast
    note c = entry_map_change [OF True f(1) o]
    have pos: "0 < length es" using True by (cases es) auto
    show ?thesis
    proof (cases v)
      case None
      let ?ht = "ht\<lparr>tbl := (tbl ht)[row := take i es @ drop (Suc i) es], h_count := h_count ht - 1\<rparr>"
      have "hash_set True ht k hval v lower = Inr ?ht"
        unfolding hash_set_def fe using True None by (simp add: es_def)
      moreover have "of_nat (length es) = (1 + of_nat (length es - 1) :: 32 word)"
        using pos by (simp flip: of_nat_Suc)
      then have "hash_inv lower ?ht"
        using True by (intro invu [OF row_ok_changes(1) [OF ok, of i]]) (simp_all add: algebra_simps)
      moreover have "hash_map lower ?ht = (hash_map lower ht)(canon lower k := v)"
        by (rule upd) (simp, simp, simp only: None c(2))
      ultimately show ?thesis by blast
    next
      case (Some x)
      let ?ht = "ht\<lparr>tbl := (tbl ht)[row := es[i := (es ! i)\<lparr>e_value := x\<rparr>]]\<rparr>"
      have "hash_set True ht k hval v lower = Inr ?ht"
        unfolding hash_set_def fe using True Some by (simp add: es_def)
      moreover have "hash_inv lower ?ht" by (rule invu [OF row_ok_changes(2) [OF ok True, of x]]) simp_all
      moreover have "hash_map lower ?ht = (hash_map lower ht)(canon lower k := v)"
        by (rule upd) (simp, simp, simp only: Some c(1))
      ultimately show ?thesis by blast
    qed
  next
    case False
    have n: "\<forall>e\<in>set es. canon lower (e_key e) \<noteq> canon lower k"
      using scan_missing [OF ok] False i_scan by blast
    note mnone = entry_map_None [OF n]
    show ?thesis
    proof (cases v)
      case None
      have "hash_set True ht k hval v lower = Inr ht"
        unfolding hash_set_def fe using False None by (simp add: es_def)
      moreover have "(hash_map lower ht)(canon lower k := v) = hash_map lower ht"
        using mnone None by (auto simp: hash_map_def es_def row_def)
      ultimately show ?thesis using inv by auto
    next
      case (Some x)
      define e where "e = \<lparr>e_key = k, e_hash = hs, e_value = x\<rparr>"
      have len: "i = length es"
        using False length_takeWhile_le [of "\<lambda>e. \<not> entry_matches lower (pj_hash_calc 0 (canon lower k)) k e" es]
        unfolding i_scan scan_entries_eq by simp
      let ?ht = "ht\<lparr>tbl := (tbl ht)[row := es @ [e]], h_count := h_count ht + 1\<rparr>"
      have at: "(es @ [e])[i := ((es @ [e]) ! i)\<lparr>e_value := x\<rparr>] = es @ [e]" by (simp add: len e_def)
      have "hash_set True ht k hval v lower = Inr (?ht\<lparr>tbl := (tbl ?ht)[row := es @ [e]]\<rparr>)"
        unfolding hash_set_def fe using False Some row at by (simp add: e_def [symmetric] es_def [symmetric] len)
      then have s: "hash_set True ht k hval v lower = Inr ?ht" by simp
      have "entry_ok lower ht row e" using k by (simp add: entry_ok_def e_def hs_def row_def)
      then have r: "row_ok lower ht row (es @ [e])"
        using ok n by (auto simp: row_ok_def e_def)
      have "hash_inv lower ?ht" by (rule invu [OF r]) simp_all
      moreover have "hash_map lower ?ht = (hash_map lower ht)(canon lower k := v)"
        using Some entry_map_append [OF n, of e] by (intro upd) (simp_all add: e_def)
      ultimately show ?thesis using s by blast
    qed
  qed
qed

section \<open>Creation\<close>

lemma grow_size_zero: "grow_size t n = Some y \<Longrightarrow> t \<noteq> 0 \<or> n = 0"
proof (rule grow_size.raw_induct [where P = "\<lambda>t n y. t \<noteq> 0 \<or> n = 0"])
  fix grow :: "32 word \<Rightarrow> 32 word \<Rightarrow> 32 word option" and t n y :: "32 word"
  assume IH: "\<And>t n y. grow t n = Some y \<Longrightarrow> t \<noteq> 0 \<or> n = 0"
    and step: "(let table_size = push_bit 1 t in if table_size < n then grow table_size n else Some table_size) = Some y"
  show "t \<noteq> 0 \<or> n = 0"
  proof (cases "t = 0 \<and> 0 < n")
    case True
    with step have "grow 0 n = Some y" by (simp add: Let_def)
    with IH show ?thesis by blast
  next
    case False
    then show ?thesis by (auto simp: word_gt_0)
  qed
qed

text \<open>The sizes \<open>2 ^ k\<close> on the way to one that suffices.\<close>

lemma push_bit_power: "push_bit 1 (2 ^ k :: 32 word) = 2 ^ Suc k"
  by (simp add: push_bit_eq_mult)

lemma unat_power32:
  assumes "k < 32"
  shows "unat (2 ^ k :: 32 word) = 2 ^ k"
proof -
  have "(2 :: 32 word) ^ k \<noteq> 0" using assms by (simp add: exp_eq_zero_iff)
  then have "uint (2 ^ k :: 32 word) = 2 ^ k" by (intro uint_2p) (simp only: word_gt_0)
  then show ?thesis by (simp add: unat_eq_nat_uint nat_power_eq)
qed

lemma grow_size_power:
  "k < 31 \<Longrightarrow> n \<le> 2 ^ 31 \<Longrightarrow> \<exists>m. k < m \<and> m < 32 \<and> grow_size (2 ^ k) n = Some (2 ^ m) \<and> n \<le> 2 ^ m"
proof (induction "31 - k" arbitrary: k)
  case (Suc d)
  show ?case
  proof (cases "(2 :: 32 word) ^ Suc k < n")
    case True
    have k: "Suc k < 31"
    proof (rule ccontr)
      assume "\<not> Suc k < 31"
      with Suc.prems(1) have "Suc k = 31" by simp
      with True Suc.prems(2) show False by simp
    qed
    have d: "d = 31 - Suc k" using Suc.hyps(2) by simp
    from Suc.hyps(1) [OF d k Suc.prems(2)] obtain m where
      "Suc k < m" "m < 32" "grow_size (2 ^ Suc k) n = Some (2 ^ m)" "n \<le> 2 ^ m" by blast
    with True show ?thesis
      by (intro exI [of _ m]) (subst grow_size.simps, simp only: Let_def push_bit_power if_True, simp)
  next
    case False
    with Suc.prems(1) show ?thesis
      by (intro exI [of _ "Suc k"]) (subst grow_size.simps, simp only: Let_def push_bit_power if_False, simp)
  qed
qed simp

lemma grow_size_never:
  assumes "(2 :: 32 word) ^ 31 < n" and "k \<le> 31"
  shows "grow_size (2 ^ k) n = None"
  using assms(2)
proof (induction "31 - k" arbitrary: k)
  case 0
  have z: "grow_size 0 n = None" using grow_size_zero [of 0 n] assms(1) by (cases "grow_size 0 n") auto
  have p: "push_bit 1 (2 ^ k :: 32 word) = 0" using 0 by (simp add: push_bit_eq_mult)
  have "0 < n" using assms(1) by (metis word_gt_0 word_not_simps(1))
  then show ?case by (subst grow_size.simps) (simp only: Let_def p if_True z)
next
  case (Suc d)
  then have k: "Suc k \<le> 31" by simp
  have "(2 :: nat) ^ Suc k \<le> 2 ^ 31" using k by (rule power_increasing) simp
  then have "(2 :: 32 word) ^ Suc k \<le> 2 ^ 31"
    using unat_power32 [of "Suc k"] unat_power32 [of 31] k by (simp only: word_le_nat_alt)
  then have l: "(2 :: 32 word) ^ Suc k < n" using assms(1) by (rule le_less_trans)
  have "d = 31 - Suc k" using Suc.hyps(2) by simp
  from Suc.hyps(1) [OF this k] have "grow_size (2 ^ Suc k) n = None" .
  with l show ?case by (subst grow_size.simps) (simp only: Let_def push_bit_power if_True)
qed

lemma create_some: "n \<le> 2 ^ 31 \<Longrightarrow> \<exists>ht. pj_hash_create n = Some ht"
  using grow_size_power [of 3 n] by (auto simp: pj_hash_create_def Let_def)

lemma create_inv:
  assumes "pj_hash_create n = Some ht"
  shows "hash_inv lower ht \<and> hash_map lower ht = (\<lambda>k. None)"
proof -
  from assms obtain t where t: "ht = \<lparr>tbl = replicate (unat (t + 1)) [], h_count = 0, rows = t\<rparr>" "grow_size 8 n = Some (t + 1)"
    by (auto simp: pj_hash_create_def Let_def split: option.splits) (metis diff_add_cancel)
  have nz: "t + 1 \<noteq> 0"
  proof
    assume z: "t + 1 = 0"
    show False
    proof (cases "n \<le> 2 ^ 31")
      case True
      with grow_size_power [of 3 n] t(2) z obtain m where "m < 32" "(2 :: 32 word) ^ m = 0" by auto
      with unat_power32 [of m] show False by simp
    next
      case False
      then have "(2 :: 32 word) ^ 31 < n" by simp
      with grow_size_never [of n 3] t(2) show False by simp
    qed
  qed
  then have l: "unat (t + 1) = Suc (unat t)" using unatSuc [of t] by (simp add: add.commute)
  define n where "n = Suc (unat t)"
  have ht: "tbl ht = replicate n []" "rows ht = t" "h_count ht = 0" by (simp_all add: t(1) l n_def)
  have r: "row_of ht k < n" for k unfolding row_of_def ht n_def by (simp add: less_Suc_eq_le unat_and_le)
  have "hash_inv lower ht" by (simp add: hash_inv_def ht row_ok_def sum_list_replicate) (simp add: n_def)
  moreover have "hash_map lower ht k = None" for k using r [of k] by (simp add: hash_map_def ht entry_map_def)
  ultimately show ?thesis by (simp add: fun_eq_iff)
qed

section \<open>The two tables as maps\<close>

text \<open>A table used with keys as they are, and one used without regard to case; the pool is there.\<close>

definition look_key :: "'v hash_table \<Rightarrow> string \<Rightarrow> 'v option" where
  "look_key ht k = (case pj_hash_get ht k 0 of Inr (v, h) \<Rightarrow> v | Inl f \<Rightarrow> None)"

definition put_key :: "'v hash_table \<Rightarrow> string \<Rightarrow> 'v option \<Rightarrow> 'v hash_table" where
  "put_key ht k v = (case pj_hash_set True ht k 0 v of Inr ht' \<Rightarrow> ht' | Inl f \<Rightarrow> ht)"

definition look_lower :: "'v hash_table \<Rightarrow> string \<Rightarrow> 'v option" where
  "look_lower ht k = (case pj_hash_get_lower ht k 0 of Inr (v, h) \<Rightarrow> v | Inl f \<Rightarrow> None)"

definition put_lower :: "'v hash_table \<Rightarrow> string \<Rightarrow> 'v option \<Rightarrow> 'v hash_table" where
  "put_lower ht k v = (case pj_hash_set_lower True ht k 0 v of Inr ht' \<Rightarrow> ht' | Inl f \<Rightarrow> ht)"

lemma hval_ok_0 [simp]: "hval_ok lower k 0"
  by (simp add: hval_ok_def)

lemma put_key_refines:
  assumes "hash_inv False t"
  shows "hash_inv False (put_key t k v) \<and> hash_map False (put_key t k v) = (hash_map False t)(k := v)"
  using hash_set_refines [OF assms, of k 0 v] by (auto simp: put_key_def pj_hash_set_def key_ok_def canon_def)

lemma put_lower_refines:
  assumes "hash_inv True t" and "key_ok True k"
  shows "hash_inv True (put_lower t k v) \<and> hash_map True (put_lower t k v) = (hash_map True t)(lower_c k := v)"
  using hash_set_refines [OF assms hval_ok_0, of v] by (auto simp: put_lower_def pj_hash_set_lower_def canon_def)

interpretation exact_table: key_map "\<lambda>k. k" "key_ok False" "hash_inv False" "hash_map False" look_key put_key
proof
  show "look_key t k = hash_map False t k" if "hash_inv False t" for t :: "'v hash_table" and k
    using pj_hash_get_eq [OF that, of k 0] by (simp add: look_key_def)
qed (use put_key_refines in blast)+

interpretation lower_table: key_map lower_c "key_ok True" "hash_inv True" "hash_map True" look_lower put_lower
proof
  show "look_lower t k = hash_map True t (lower_c k)" if "hash_inv True t" for t :: "'v hash_table" and k
    using pj_hash_get_lower_eq [OF that, of k 0] by (simp add: look_lower_def)
qed (use put_lower_refines in blast)+

section \<open>Iteration\<close>

lemma first_row_entries:
  "(case first_row i rs of None \<Rightarrow> concat rs = [] | Some (j, es) \<Rightarrow> es \<noteq> [] \<and> i \<le> j \<and>
      concat rs = es @ concat (drop (Suc j - i) rs))"
proof (induction rs arbitrary: i)
  case (Cons es rs)
  from Cons.IH [of "Suc i"] show ?case
    by (auto split: option.splits simp: Suc_diff_le Suc_diff_Suc Suc_le_eq)
qed simp

lemma iterate_from:
  "es \<noteq> [] \<Longrightarrow> length (es @ concat (drop (Suc row) (tbl ht))) \<le> n \<Longrightarrow>
     iterate n ht (Some (row, es)) = Some (Inr (map e_value (es @ concat (drop (Suc row) (tbl ht)))))"
proof (induction n arbitrary: row es)
  case (Suc n)
  from Suc.prems(1) obtain e es' where es: "es = e # es'" by (cases es) auto
  show ?case
  proof (cases "es' = []")
    case False
    with Suc.IH [where es = es' and row = row] Suc.prems(2) show ?thesis by (simp add: es pj_hash_this_def pj_hash_next_def)
  next
    case True
    have d: "drop (Suc k - Suc row) (drop (Suc row) (tbl ht)) = drop (Suc k) (tbl ht)" if "Suc row \<le> k" for k
      using that by simp
    show ?thesis
    proof (cases "first_row (Suc row) (drop (Suc row) (tbl ht))")
      case None
      with first_row_entries [where i = "Suc row" and rs = "drop (Suc row) (tbl ht)"] True show ?thesis
        by (simp add: es pj_hash_this_def pj_hash_next_def)
    next
      case (Some it)
      obtain k fs where it: "it = (k, fs)" by (cases it)
      from first_row_entries [where i = "Suc row" and rs = "drop (Suc row) (tbl ht)"] Some it have f: "fs \<noteq> []" "Suc row \<le> k"
        "concat (drop (Suc row) (tbl ht)) = fs @ concat (drop (Suc k) (tbl ht))" using d by auto
      with Suc.IH [where es = fs and row = k] Suc.prems(2) True Some it show ?thesis
        by (simp add: es pj_hash_this_def pj_hash_next_def)
    qed
  qed
qed simp

lemma iterate_all:
  assumes "length (concat (tbl ht)) \<le> n"
  shows "iterate n ht (pj_hash_first ht) = Some (Inr (map e_value (concat (tbl ht))))"
proof (cases "first_row 0 (tbl ht)")
  case None
  with first_row_entries [where i = 0 and rs = "tbl ht"] show ?thesis by (simp add: pj_hash_first_def)
next
  case (Some it)
  obtain k fs where it: "it = (k, fs)" by (cases it)
  from first_row_entries [where i = 0 and rs = "tbl ht"] Some it have f: "fs \<noteq> []" "concat (tbl ht) = fs @ concat (drop (Suc k) (tbl ht))" by auto
  with iterate_from [where es = fs and row = k and ht = ht and n = n] assms Some it show ?thesis by (simp add: pj_hash_first_def)
qed

section \<open>The table behaves as a map\<close>

lemma entry_map_Some:
  "distinct (map (canon lower \<circ> e_key) es) \<Longrightarrow> entry_map lower es k = Some v \<longleftrightarrow> (\<exists>e\<in>set es. canon lower (e_key e) = k \<and> e_value e = v)"
  by (auto simp: entry_map_def comp_def)

text \<open>The entries of the rows are those of the map, each of them once.\<close>

lemma entries_of_map:
  assumes "hash_inv lower ht"
  shows "(\<exists>e\<in>set (concat (tbl ht)). canon lower (e_key e) = k \<and> e_value e = v) \<longleftrightarrow> hash_map lower ht k = Some v"
proof -
  note r = row_ok_at [OF assms, of k]
  have "(\<exists>e\<in>set (concat (tbl ht)). canon lower (e_key e) = k \<and> e_value e = v) \<longleftrightarrow>
      (\<exists>e\<in>set (tbl ht ! row_of ht k). canon lower (e_key e) = k \<and> e_value e = v)" (is "?l = ?r")
  proof
    assume ?l
    then obtain row e where e: "row < length (tbl ht)" "e \<in> set (tbl ht ! row)" "canon lower (e_key e) = k" "e_value e = v"
      unfolding set_concat by (metis UN_E in_set_conv_nth)
    then have "entry_ok lower ht row e" using assms by (simp add: hash_inv_def row_ok_def)
    then have "row_of ht k = row" using e(3) by (simp add: entry_ok_def)
    with e show ?r by blast
  next
    assume ?r
    then show ?l using row_of_less [OF assms, of k] nth_mem unfolding set_concat by blast
  qed
  also have "\<dots> \<longleftrightarrow> hash_map lower ht k = Some v"
    using entry_map_Some [of lower "tbl ht ! row_of ht k" k v] r by (simp add: hash_map_def row_ok_def)
  finally show ?thesis .
qed

lemma values_of_map:
  assumes "hash_inv lower ht"
  shows "set (map e_value (concat (tbl ht))) = ran (hash_map lower ht)"
proof (rule set_eqI)
  fix v
  have "v \<in> ran (hash_map lower ht) \<longleftrightarrow> (\<exists>k. \<exists>e\<in>set (concat (tbl ht)). canon lower (e_key e) = k \<and> e_value e = v)"
    unfolding ran_def entries_of_map [OF assms] by simp
  then show "v \<in> set (map e_value (concat (tbl ht))) \<longleftrightarrow> v \<in> ran (hash_map lower ht)" by (auto simp del: set_concat)
qed

text \<open>
  C33: The table refines a map from keys, up to case where it is used so, to values. Whatever has been
  set and deleted since its creation, a lookup yields what the last operation on that key has put there,
  and going through the table meets exactly the values of the map.
\<close>

theorem hash_refines_map:
  assumes "pj_hash_create n = Some ht" and "list_all (\<lambda>(k, v). key_ok True k) ops" and "key_ok True key"
  shows "pj_hash_get_lower (lower_table.put_all ht ops) key 0 =
           Inr (foldl (\<lambda>m (k, v). m(lower_c k := v)) (\<lambda>k. None) ops (lower_c key), pj_hash_calc 0 (lower_c key)) \<and>
         (\<exists>vs. (\<exists>m. iterate m (lower_table.put_all ht ops) (pj_hash_first (lower_table.put_all ht ops)) = Some (Inr vs)) \<and>
               set vs = ran (foldl (\<lambda>m (k, v). m(lower_c k := v)) (\<lambda>k. None) ops))"
proof -
  let ?t = "lower_table.put_all ht ops" and ?m = "foldl (\<lambda>m (k, v). m(lower_c k := v)) (\<lambda>k. None) ops"
  from create_inv [OF assms(1), of True] have h: "hash_inv True ht" "hash_map True ht = (\<lambda>k. None)" by blast+
  from lower_table.put_all_view [OF h(1) assms(2)] h(2) have t: "hash_inv True ?t" "hash_map True ?t = ?m" by simp_all
  have "set (map e_value (concat (tbl ?t))) = ran ?m"
    using values_of_map [OF t(1)] unfolding t(2) .
  with iterate_all [OF order_refl, of ?t] pj_hash_get_lower_eq [OF t(1), of key 0] show ?thesis
    unfolding t(2) by auto
qed

theorem hash_refines_map_witness:
  "\<exists>ht. pj_hash_create 31 = Some ht \<and>
     pj_hash_get_lower (lower_table.put_all ht [(''Abc'', Some (1 :: nat)), (''aBC'', Some 2), (''x'', Some 3), (''X'', None)]) ''ABC'' 0 =
       Inr (Some 2, pj_hash_calc 0 ''abc'')"
proof -
  have "grow_size 8 31 = Some 32"
    by (subst grow_size.simps, simp add: Let_def push_bit_eq_mult, subst grow_size.simps, simp add: Let_def push_bit_eq_mult)
  then obtain ht :: "nat hash_table" where c: "pj_hash_create 31 = Some ht" by (simp add: pj_hash_create_def Let_def)
  have k: "list_all (\<lambda>(k, v). key_ok True k) [(''Abc'', Some (1 :: nat)), (''aBC'', Some 2), (''x'', Some 3), (''X'', None)]"
    "key_ok True ''ABC''" by (simp_all add: key_ok_def)
  have l: "lower_c ''ABC'' = ''abc''" "lower_c ''Abc'' = ''abc''" "lower_c ''aBC'' = ''abc''"
    "lower_c ''x'' = ''x''" "lower_c ''X'' = ''x''" by code_simp+
  from hash_refines_map [OF c k] c l show ?thesis by auto
qed

text \<open>
  Creating a table comes back exactly for sizes up to \<open>2 ^ 31\<close>, with a power of two of rows that
  is at least 16 and at least the size; for larger ones the loop over the sizes never ends.
\<close>

theorem hash_create_returns:
  "(n \<le> 2 ^ 31 \<longrightarrow> (\<exists>k ht. 4 \<le> k \<and> k < 32 \<and> pj_hash_create n = Some ht \<and> length (tbl ht) = 2 ^ k \<and> unat n \<le> 2 ^ k)) \<and>
   (\<not> n \<le> 2 ^ 31 \<longrightarrow> pj_hash_create n = None)"
proof (intro conjI impI)
  assume "n \<le> 2 ^ 31"
  with grow_size_power [of 3 n] obtain k where k: "3 < k" "k < 32" "grow_size 8 n = Some (2 ^ k)" "n \<le> 2 ^ k" by auto
  have "unat n \<le> 2 ^ k" using k(4) unat_power32 [OF k(2)] by (simp add: word_le_nat_alt)
  moreover have "pj_hash_create n = Some \<lparr>tbl = replicate (2 ^ k) [], h_count = 0, rows = 2 ^ k - 1\<rparr>"
    using unat_power32 [OF k(2)] by (simp add: pj_hash_create_def k(3) Let_def)
  ultimately show "\<exists>k ht. 4 \<le> k \<and> k < 32 \<and> pj_hash_create n = Some ht \<and> length (tbl ht) = 2 ^ k \<and> unat n \<le> 2 ^ k"
    using k(1,2) by (intro exI [of _ k]) auto
next
  assume "\<not> n \<le> 2 ^ 31"
  then have "(2 :: 32 word) ^ 31 < n" by simp
  with grow_size_never [of n 3] show "pj_hash_create n = None" by (simp add: pj_hash_create_def)
qed

theorem hash_create_returns_witness:
  "(\<exists>ht. pj_hash_create 511 = Some (ht :: nat hash_table) \<and> length (tbl ht) \<ge> 511) \<and>
   pj_hash_create (2 ^ 31 + 1) = (None :: nat hash_table option)"
  using hash_create_returns [of 511, where 'b = nat] hash_create_returns [of "2 ^ 31 + 1", where 'b = nat] by auto

end
