(* ===== verification/Scanner.thy ===== *)
theory Scanner
  imports PjString "HOL-Library.Sublist"
begin

text \<open>
  The text scanner of pjlib-util (\<open>3rd/src/pjlib-util/scanner.c\<close>) and the exceptions of the parsers
  that use it. The buffer from \<open>curptr\<close> to \<open>end\<close> is a list, the character stored at \<open>end\<close> a field of
  its own (the parsers want a NUL there); a pointer is the rest of the buffer behind it. Reading
  behind \<open>end\<close> is a fault. What a parser throws keeps the scanner as it was at that moment, because
  the message parser goes on from there; a loop is given one round more than there are characters
  left, and spins if it wants another.
\<close>

section \<open>The scanner and its outcomes\<close>

record scanner =
  sc_rest :: string
  sc_eos :: char
  sc_end :: nat
  sc_line :: int
  sc_start_line :: nat
  sc_skip_ws :: int

datatype exn = SynErr | EInvalErr

datatype 'a outcome = Done 'a scanner | Thrown exn scanner | Broken fault | Spinning

type_synonym 'a parser = "scanner \<Rightarrow> 'a outcome"

definition ret :: "'a \<Rightarrow> 'a parser" where
  "ret a sc = Done a sc"

definition throw :: "exn \<Rightarrow> 'a parser" where
  "throw x sc = Thrown x sc"

definition broken :: "fault \<Rightarrow> 'a parser" where
  "broken f sc = Broken f"

definition seq :: "'a parser \<Rightarrow> ('a \<Rightarrow> 'b parser) \<Rightarrow> 'b parser" where
  "seq p f sc =
     (case p sc of Done a sc' \<Rightarrow> f a sc' | Thrown x sc' \<Rightarrow> Thrown x sc' | Broken e \<Rightarrow> Broken e | Spinning \<Rightarrow> Spinning)"

definition of_res :: "'a res \<Rightarrow> 'a parser" where
  "of_res r sc = (case r of Inl e \<Rightarrow> Broken e | Inr a \<Rightarrow> Done a sc)"

definition if_p :: "(scanner \<Rightarrow> bool) \<Rightarrow> 'a parser \<Rightarrow> 'a parser \<Rightarrow> 'a parser" where
  "if_p c p q sc = (if c sc then p sc else q sc)"

fun while_p :: "nat \<Rightarrow> (scanner \<Rightarrow> bool) \<Rightarrow> ('a \<Rightarrow> 'a parser) \<Rightarrow> 'a \<Rightarrow> 'a parser" where
  "while_p 0 c p a sc = Spinning"
| "while_p (Suc n) c p a sc = (if c sc then seq (p a) (while_p n c p) sc else Done a sc)"

definition while_do :: "(scanner \<Rightarrow> bool) \<Rightarrow> ('a \<Rightarrow> 'a parser) \<Rightarrow> 'a \<Rightarrow> 'a parser" where
  "while_do c p a sc = while_p (Suc (length (sc_rest sc))) c p a sc"

definition cur_of :: "char \<Rightarrow> string \<Rightarrow> char" where
  "cur_of e s = (case s of [] \<Rightarrow> e | c # t \<Rightarrow> c)"

abbreviation cur :: "scanner \<Rightarrow> char" where
  "cur sc \<equiv> cur_of (sc_eos sc) (sc_rest sc)"

definition pos_of :: "scanner \<Rightarrow> string \<Rightarrow> nat" where
  "pos_of sc s = sc_end sc - length s"

text \<open>\<open>while (P( *s)) ++s\<close> has no test for the end of the buffer.\<close>

definition over :: "(char \<Rightarrow> bool) \<Rightarrow> char \<Rightarrow> string \<Rightarrow> string res" where
  "over P e s = (let t = dropWhile P s in if t = [] \<and> P e then Inl OutOfBounds else Inr t)"

definition pj_scan_is_eof :: "scanner \<Rightarrow> bool" where
  "pj_scan_is_eof sc \<longleftrightarrow> sc_rest sc = []"

definition pj_scan_get_col :: "scanner \<Rightarrow> int" where
  "pj_scan_get_col sc = int (pos_of sc (sc_rest sc)) - int (sc_start_line sc)"


definition PJ_SCAN_IS_SPACE :: "char \<Rightarrow> bool" where
  "PJ_SCAN_IS_SPACE c \<longleftrightarrow> c = CHR '' '' \<or> c = CHR 0x09"

definition PJ_SCAN_IS_NEWLINE :: "char \<Rightarrow> bool" where
  "PJ_SCAN_IS_NEWLINE c \<longleftrightarrow> c = CR \<or> c = LF"

definition PJ_SCAN_IS_PROBABLY_SPACE :: "char \<Rightarrow> bool" where
  "PJ_SCAN_IS_PROBABLY_SPACE c \<longleftrightarrow> schar c \<le> 32"

abbreviation (input) PJ_SCAN_AUTOSKIP_WS_HEADER :: int where "PJ_SCAN_AUTOSKIP_WS_HEADER \<equiv> 3"

text \<open>The parsers of SIP all give \<open>on_syntax_error\<close> as the callback, which throws.\<close>

definition pj_scan_syntax_err :: "'a parser" where
  "pj_scan_syntax_err = throw SynErr"

section \<open>White space\<close>

definition newline_at :: "string \<Rightarrow> scanner \<Rightarrow> scanner" where
  "newline_at s sc = sc\<lparr>sc_line := sc_line sc + 1, sc_rest := s, sc_start_line := pos_of sc s\<rparr>"

fun skip_newlines :: "string \<Rightarrow> scanner \<Rightarrow> (string \<times> scanner) res" where
  "skip_newlines [] sc =
     (if PJ_SCAN_IS_NEWLINE (sc_eos sc) \<or> PJ_SCAN_IS_SPACE (sc_eos sc) then Inl OutOfBounds else Inr ([], sc))"
| "skip_newlines (c # t) sc =
     (if c = CR then
        (case t of
           [] \<Rightarrow> skip_newlines t (newline_at t sc)
         | d # u \<Rightarrow> if d = LF then skip_newlines u (newline_at u sc) else skip_newlines t (newline_at t sc))
      else if c = LF then skip_newlines t (newline_at t sc)
      else if PJ_SCAN_IS_SPACE c then skip_newlines t sc
      else Inr (c # t, sc))"

text \<open>One line end from a pointer on: a carriage return, if there is one, and a line feed, if there is one.\<close>

definition eat_char :: "char \<Rightarrow> char \<Rightarrow> string \<Rightarrow> string res" where
  "eat_char x e s = (if cur_of e s = x then (case s of [] \<Rightarrow> Inl OutOfBounds | c # t \<Rightarrow> Inr t) else Inr s)"

definition eat_newline :: "char \<Rightarrow> string \<Rightarrow> string res" where
  "eat_newline e s = bind_res (eat_char CR e s) (eat_char LF e)"

definition skip_continuation :: "string \<Rightarrow> scanner \<Rightarrow> scanner res" where
  "skip_continuation s sc =
     bind_res (eat_newline (sc_eos sc) s) (\<lambda>u.
       let sc = sc\<lparr>sc_rest := s, sc_start_line := pos_of sc u\<rparr>
       in if PJ_SCAN_IS_SPACE (cur_of (sc_eos sc) u)
          then bind_res (over PJ_SCAN_IS_SPACE (sc_eos sc) u) (\<lambda>t. Inr (sc\<lparr>sc_line := sc_line sc + 1, sc_rest := t\<rparr>))
          else Inr sc)"

definition pj_scan_skip_whitespace :: "unit parser" where
  "pj_scan_skip_whitespace sc =
     (let e = sc_eos sc
      in case bind_res (over PJ_SCAN_IS_SPACE e (sc_rest sc)) (\<lambda>s.
           bind_res (if PJ_SCAN_IS_NEWLINE (cur_of e s) \<and> bit (sc_skip_ws sc) 2 then skip_newlines s sc else Inr (s, sc)) (\<lambda>(s, sc).
             if PJ_SCAN_IS_NEWLINE (cur_of e s) \<and> bit (sc_skip_ws sc) 0 \<and> bit (sc_skip_ws sc) 1
             then skip_continuation s sc
             else Inr (sc\<lparr>sc_rest := s\<rparr>)))
         of Inl f \<Rightarrow> Broken f | Inr sc \<Rightarrow> Done () sc)"

text \<open>What the readers do behind the token they read.\<close>

definition skip_after :: "bool \<Rightarrow> unit parser" where
  "skip_after skip sc =
     (if PJ_SCAN_IS_PROBABLY_SPACE (cur sc) \<and> skip then pj_scan_skip_whitespace sc else Done () sc)"

definition skip_set :: "scanner \<Rightarrow> bool" where
  "skip_set sc \<longleftrightarrow> sc_skip_ws sc \<noteq> 0"

text \<open>Moves \<open>curptr\<close> to \<open>s\<close>, skips what follows, and returns the token.\<close>

definition take_token :: "string \<Rightarrow> string \<Rightarrow> string parser" where
  "take_token out s sc = seq (skip_after (skip_set sc)) (\<lambda>u. ret out) (sc\<lparr>sc_rest := s\<rparr>)"

section \<open>The operations\<close>

definition pj_scan_init :: "string \<Rightarrow> char \<Rightarrow> int \<Rightarrow> unit outcome" where
  "pj_scan_init txt e options =
     (let sc = \<lparr>sc_rest = txt, sc_eos = e, sc_end = length txt, sc_line = 1, sc_start_line = 0, sc_skip_ws = options\<rparr>
      in if skip_set sc then pj_scan_skip_whitespace sc else Done () sc)"

definition pj_scan_skip_line :: "unit parser" where
  "pj_scan_skip_line sc =
     (let s = dropWhile (\<lambda>c. c \<noteq> LF \<and> c \<noteq> NUL) (sc_rest sc)
      in case s of
           [] \<Rightarrow> if sc_eos sc = NUL then Done () (sc\<lparr>sc_rest := []\<rparr>) else Broken OutOfBounds
         | c # t \<Rightarrow> if c = LF then Done () (newline_at t sc) else Done () (sc\<lparr>sc_rest := []\<rparr>))"

definition pj_scan_peek :: "(char \<Rightarrow> bool) \<Rightarrow> (char \<times> string) parser" where
  "pj_scan_peek spec sc =
     (if pj_scan_is_eof sc then pj_scan_syntax_err sc
      else case over spec (sc_eos sc) (sc_rest sc) of
             Inl f \<Rightarrow> Broken f
           | Inr s \<Rightarrow> Done (cur_of (sc_eos sc) s, takeWhile spec (sc_rest sc)) sc)"

definition pj_scan_peek_n :: "nat \<Rightarrow> (char \<times> string) parser" where
  "pj_scan_peek_n len sc =
     (if len > length (sc_rest sc) then pj_scan_syntax_err sc
      else Done (cur_of (sc_eos sc) (drop len (sc_rest sc)), take len (sc_rest sc)) sc)"

definition pj_scan_peek_until :: "(char \<Rightarrow> bool) \<Rightarrow> (char \<times> string) parser" where
  "pj_scan_peek_until spec sc =
     (if pj_scan_is_eof sc then pj_scan_syntax_err sc
      else Done (cur_of (sc_eos sc) (dropWhile (\<lambda>c. \<not> spec c) (sc_rest sc)), takeWhile (\<lambda>c. \<not> spec c) (sc_rest sc)) sc)"

definition pj_scan_get :: "(char \<Rightarrow> bool) \<Rightarrow> string parser" where
  "pj_scan_get spec sc =
     (if spec NUL then Broken AssertFail
      else if \<not> spec (cur sc) then pj_scan_syntax_err sc
      else case over spec (sc_eos sc) (sc_rest sc) of
             Inl f \<Rightarrow> Broken f
           | Inr s \<Rightarrow> take_token (takeWhile spec (sc_rest sc)) s sc)"

text \<open>
  \<open>pj_scan_get_unescape\<close> writes the token over itself; a \<open>%\<close> that starts no escape is copied with the
  character behind it, which may be the one behind the last.
\<close>

fun get_unescape_loop :: "(char \<Rightarrow> bool) \<Rightarrow> char \<Rightarrow> string \<Rightarrow> (string \<times> string) res" where
  "get_unescape_loop spec e [] = (if spec e \<or> e = CHR ''%'' then Inl OutOfBounds else Inr ([], []))"
| "get_unescape_loop spec e (c # t) =
     (if c = CHR ''%'' then
        (case t of
           [] \<Rightarrow> Inl OutOfBounds
         | [d] \<Rightarrow> Inr ([c, d], [])
         | d # d' # u \<Rightarrow>
             if isxdigit_c d \<and> isxdigit_c d'
             then bind_res (get_unescape_loop spec e u) (\<lambda>(out, s). Inr (char_of (pj_hex_digit_to_val d * 16 + pj_hex_digit_to_val d') # out, s))
             else Inr ([c, d], d' # u))
      else if spec c then bind_res (get_unescape_loop spec e t) (\<lambda>(out, s). Inr (c # out, s))
      else Inr ([], c # t))"

definition pj_scan_get_unescape :: "(char \<Rightarrow> bool) \<Rightarrow> string parser" where
  "pj_scan_get_unescape spec sc =
     (if spec NUL \<or> spec (CHR ''%'') then Broken AssertFail
      else if \<not> spec (cur sc) \<and> cur sc \<noteq> CHR ''%'' then pj_scan_syntax_err sc
      else case get_unescape_loop spec (sc_eos sc) (sc_rest sc) of
             Inl f \<Rightarrow> Broken f
           | Inr (out, s) \<Rightarrow> take_token out s sc)"

text \<open>
  The closing quote of \<open>pj_scan_get_quotes\<close>: \<open>acc\<close> is what lies before the pointer, nearest first, from
  the opening quote on. A quote behind a backslash ends the text only when the backslashes before
  that one are odd in number; \<open>None\<close> is the end of the line or of the buffer.
\<close>

fun quote_loop :: "char \<Rightarrow> char \<Rightarrow> string \<Rightarrow> string \<Rightarrow> (string \<times> string) option res" where
  "quote_loop endq e acc [] = (if e = endq then Inl OutOfBounds else Inr None)"
| "quote_loop endq e acc (c # t) =
     (if c = LF \<and> c \<noteq> endq then Inr None
      else if c \<noteq> endq then quote_loop endq e (c # acc) t
      else if hd acc \<noteq> CHR 0x5C then Inr (Some (rev (c # acc), t))
      else if odd (length (takeWhile (\<lambda>x. x = CHR 0x5C) (tl acc))) then Inr (Some (rev (c # acc), t))
      else quote_loop endq e (c # acc) t)"

definition pj_scan_get_quotes :: "string \<Rightarrow> string \<Rightarrow> string parser" where
  "pj_scan_get_quotes begin_quote end_quote sc =
     (case find (\<lambda>i. cur sc = begin_quote ! i) [0..<length begin_quote] of
        None \<Rightarrow> pj_scan_syntax_err sc
      | Some qpair \<Rightarrow>
          (case sc_rest sc of
             [] \<Rightarrow> Broken OutOfBounds
           | c # t \<Rightarrow>
               (case quote_loop (end_quote ! qpair) (sc_eos sc) [c] t of
                  Inl f \<Rightarrow> Broken f
                | Inr None \<Rightarrow> pj_scan_syntax_err sc
                | Inr (Some (out, s)) \<Rightarrow> take_token out s sc)))"

definition pj_scan_get_quote :: "char \<Rightarrow> char \<Rightarrow> string parser" where
  "pj_scan_get_quote begin_quote end_quote = pj_scan_get_quotes [begin_quote] [end_quote]"

definition pj_scan_get_n :: "nat \<Rightarrow> string parser" where
  "pj_scan_get_n N sc =
     (if N > length (sc_rest sc) then pj_scan_syntax_err sc
      else take_token (take N (sc_rest sc)) (drop N (sc_rest sc)) sc)"

definition pj_scan_get_char :: "char parser" where
  "pj_scan_get_char sc =
     (if cur sc = NUL then pj_scan_syntax_err sc
      else case sc_rest sc of
             [] \<Rightarrow> Broken OutOfBounds
           | c # t \<Rightarrow> seq (skip_after (skip_set sc)) (\<lambda>u. ret c) (sc\<lparr>sc_rest := t\<rparr>))"

definition pj_scan_get_newline :: "unit parser" where
  "pj_scan_get_newline sc =
     (if \<not> PJ_SCAN_IS_NEWLINE (cur sc) then pj_scan_syntax_err sc
      else case eat_newline (sc_eos sc) (sc_rest sc) of
             Inl f \<Rightarrow> Broken f
           | Inr s \<Rightarrow> Done () (newline_at s sc))"

definition pj_scan_get_until :: "(char \<Rightarrow> bool) \<Rightarrow> string parser" where
  "pj_scan_get_until spec sc =
     (if pj_scan_is_eof sc then pj_scan_syntax_err sc
      else take_token (takeWhile (\<lambda>c. \<not> spec c) (sc_rest sc)) (dropWhile (\<lambda>c. \<not> spec c) (sc_rest sc)) sc)"

definition pj_scan_get_until_ch :: "char \<Rightarrow> string parser" where
  "pj_scan_get_until_ch until_char = pj_scan_get_until (\<lambda>c. c = until_char)"

definition pj_scan_get_until_chr :: "string \<Rightarrow> string parser" where
  "pj_scan_get_until_chr until_spec = pj_scan_get_until (\<lambda>c. c \<in> set until_spec)"

definition pj_scan_advance_n :: "nat \<Rightarrow> bool \<Rightarrow> unit parser" where
  "pj_scan_advance_n N skip sc =
     (if N > length (sc_rest sc) then pj_scan_syntax_err sc
      else skip_after skip (sc\<lparr>sc_rest := drop N (sc_rest sc)\<rparr>))"

text \<open>The comparison leaves the scanner where it is; the string literal it compares with has a terminator.\<close>

definition pj_scan_stricmp :: "string \<Rightarrow> nat \<Rightarrow> int parser" where
  "pj_scan_stricmp s n sc =
     (if n > length (sc_rest sc) then pj_scan_syntax_err sc else Done (strnicmp n (sc_rest sc) s) sc)"

section \<open>Parsers that run\<close>

text \<open>
  A parser runs when, on a buffer with its NUL, it returns or throws, never reads outside the buffer
  and never spins, and leaves the pointer on a later character of the same buffer; with \<open>k\<close> = 1 it
  has moved forward when it returns.
\<close>

definition sc_wf :: "scanner \<Rightarrow> bool" where
  "sc_wf sc \<longleftrightarrow> sc_eos sc = NUL \<and> length (sc_rest sc) \<le> sc_end sc"

definition steps :: "nat \<Rightarrow> scanner \<Rightarrow> scanner \<Rightarrow> bool" where
  "steps k sc sc' \<longleftrightarrow>
     sc_eos sc' = sc_eos sc \<and> sc_end sc' = sc_end sc \<and> suffix (sc_rest sc') (sc_rest sc) \<and>
     length (sc_rest sc') + k \<le> length (sc_rest sc)"

definition runs :: "nat \<Rightarrow> 'a parser \<Rightarrow> bool" where
  "runs k p \<longleftrightarrow>
     (\<forall>sc. sc_wf sc \<longrightarrow>
        (case p sc of Done a sc' \<Rightarrow> steps k sc sc' | Thrown x sc' \<Rightarrow> steps 0 sc sc' | Broken f \<Rightarrow> False | Spinning \<Rightarrow> False))"

named_theorems runs_intros

lemma steps_refl [simp]: "steps 0 sc sc"
  by (simp add: steps_def)

lemma steps_trans: "steps j a b \<Longrightarrow> steps k b c \<Longrightarrow> steps (j + k) a c"
  by (auto simp: steps_def intro: suffix_order.trans)

lemma steps_wf: "sc_wf sc \<Longrightarrow> steps k sc sc' \<Longrightarrow> sc_wf sc'"
  by (auto simp: steps_def sc_wf_def)

lemma steps_less: "steps k sc sc' \<Longrightarrow> j \<le> k \<Longrightarrow> steps j sc sc'"
  by (auto simp: steps_def)

lemma runsI:
  assumes "\<And>sc. sc_wf sc \<Longrightarrow> (\<exists>a sc'. p sc = Done a sc' \<and> steps k sc sc') \<or> (\<exists>x sc'. p sc = Thrown x sc' \<and> steps 0 sc sc')"
  shows "runs k p"
  unfolding runs_def using assms by (fastforce split: outcome.split)

lemma runsD:
  assumes "runs k p" and "sc_wf sc"
  obtains (Done) a sc' where "p sc = Done a sc'" and "steps k sc sc'" | (Thrown) x sc' where "p sc = Thrown x sc'" and "steps 0 sc sc'"
  using assms unfolding runs_def by (cases "p sc") fastforce+

lemma runs_weaken: "runs k p \<Longrightarrow> j \<le> k \<Longrightarrow> runs j p"
  unfolding runs_def by (fastforce split: outcome.splits intro: steps_less)

lemma runs_0: "runs 1 p \<Longrightarrow> runs 0 p"
  by (rule runs_weaken) auto

lemma runs_ret [runs_intros]: "runs 0 (ret a)"
  by (simp add: runs_def ret_def)

lemma runs_throw [runs_intros]: "runs k (throw x)"
  by (simp add: runs_def throw_def)

lemma runs_syntax_err [runs_intros]: "runs k pj_scan_syntax_err"
  by (simp add: pj_scan_syntax_err_def runs_throw)

lemma runs_of_res: "r = Inr a \<Longrightarrow> runs 0 (of_res r)"
  by (simp add: runs_def of_res_def)

lemma runs_seq_add:
  assumes p: "runs j p" and f: "\<And>a. runs k (f a)"
  shows "runs (j + k) (seq p f)"
proof (rule runsI)
  fix sc assume wf: "sc_wf sc"
  from p wf show "(\<exists>a sc'. seq p f sc = Done a sc' \<and> steps (j + k) sc sc') \<or> (\<exists>x sc'. seq p f sc = Thrown x sc' \<and> steps 0 sc sc')"
  proof (cases rule: runsD)
    case (Done a sc')
    note D = this
    from f [of a] steps_wf [OF wf D(2)] show ?thesis
    proof (cases rule: runsD)
      case (Done b sc'')
      with D show ?thesis by (auto simp: seq_def intro: steps_trans)
    next
      case (Thrown x sc'')
      with D show ?thesis using steps_trans [OF D(2) Thrown(2)] by (auto simp: seq_def intro: steps_less)
    qed
  next
    case (Thrown x sc')
    then show ?thesis by (simp add: seq_def)
  qed
qed

lemma runs_seq [runs_intros]: "runs 0 p \<Longrightarrow> (\<And>a. runs 0 (f a)) \<Longrightarrow> runs 0 (seq p f)"
  using runs_seq_add [of 0 p 0 f] by simp

lemma runs_seq_first: "runs 1 p \<Longrightarrow> (\<And>a. runs 0 (f a)) \<Longrightarrow> runs 1 (seq p f)"
  using runs_seq_add [of 1 p 0 f] by simp

lemma runs_seq_then: "runs 0 p \<Longrightarrow> (\<And>a. runs 1 (f a)) \<Longrightarrow> runs 1 (seq p f)"
  using runs_seq_add [of 0 p 1 f] by simp

lemma runs_if_p [runs_intros]: "runs k p \<Longrightarrow> runs k q \<Longrightarrow> runs k (if_p c p q)"
  by (simp add: runs_def if_p_def)

lemma runs_if [runs_intros]: "(b \<Longrightarrow> runs k p) \<Longrightarrow> (\<not> b \<Longrightarrow> runs k q) \<Longrightarrow> runs k (if b then p else q)"
  by simp

lemma runs_prod [runs_intros]: "(\<And>x y. runs k (f x y)) \<Longrightarrow> runs k (case z of (x, y) \<Rightarrow> f x y)"
  by (cases z) simp

lemma runs_option [runs_intros]: "runs k p \<Longrightarrow> (\<And>x. runs k (f x)) \<Longrightarrow> runs k (case z of None \<Rightarrow> p | Some x \<Rightarrow> f x)"
  by (cases z) simp_all

lemma runs_let [runs_intros]: "(\<And>x. runs k (f x)) \<Longrightarrow> runs k (let x = z in f x)"
  by simp

lemma runs_while_p:
  assumes p: "\<And>a. runs 1 (p a)" and wf: "sc_wf sc" and n: "length (sc_rest sc) < n"
  shows "(\<exists>a' sc'. while_p n c p a sc = Done a' sc' \<and> steps 0 sc sc') \<or> (\<exists>x sc'. while_p n c p a sc = Thrown x sc' \<and> steps 0 sc sc')"
  using wf n
proof (induction n arbitrary: a sc)
  case (Suc n)
  show ?case
  proof (cases "c sc")
    case True
    from p [of a] Suc.prems(1) show ?thesis
    proof (cases rule: runsD)
      case (Done b sc')
      have "(\<exists>a' s. while_p n c p b sc' = Done a' s \<and> steps 0 sc' s) \<or> (\<exists>x s. while_p n c p b sc' = Thrown x s \<and> steps 0 sc' s)"
        using Done(2) Suc.prems by (intro Suc.IH) (auto simp: steps_def sc_wf_def)
      with Done True steps_trans [OF steps_less [OF Done(2), of 0]] show ?thesis by (fastforce simp: seq_def)
    next
      case (Thrown x sc')
      with True show ?thesis by (simp add: seq_def)
    qed
  qed simp
qed simp

lemma runs_while [runs_intros]: "(\<And>a. runs 1 (p a)) \<Longrightarrow> runs 0 (while_do c p a)"
  by (rule runsI) (simp add: while_do_def runs_while_p del: while_p.simps)

section \<open>The operations run\<close>

lemma over_NUL: "\<not> P NUL \<Longrightarrow> over P NUL s = Inr (dropWhile P s)"
  by (simp add: over_def)

lemma dropWhile_suffix: "suffix (dropWhile P s) s"
  by (metis suffixI takeWhile_dropWhile_id)

lemma eat_char_NUL: "x \<noteq> NUL \<Longrightarrow> \<exists>t. eat_char x NUL s = Inr t \<and> suffix t s \<and> (cur_of NUL s = x \<longrightarrow> length t < length s)"
  by (auto simp: eat_char_def cur_of_def intro: suffix_ConsI split: list.split)

lemma eat_newline_NUL:
  "\<exists>t. eat_newline NUL s = Inr t \<and> suffix t s \<and> (PJ_SCAN_IS_NEWLINE (cur_of NUL s) \<longrightarrow> length t < length s)"
proof -
  obtain t where t: "eat_char CR NUL s = Inr t" "suffix t s" "cur_of NUL s = CR \<longrightarrow> length t < length s"
    using eat_char_NUL [of CR s] by auto
  obtain u where u: "eat_char LF NUL t = Inr u" "suffix u t" "cur_of NUL t = LF \<longrightarrow> length u < length t"
    using eat_char_NUL [of LF t] by auto
  have "length u \<le> length t" using u(2) by (rule suffix_length_le)
  moreover have "cur_of NUL s \<noteq> CR \<Longrightarrow> t = s" using t(1) by (simp add: eat_char_def)
  ultimately show ?thesis using t u
    by (auto simp: eat_newline_def PJ_SCAN_IS_NEWLINE_def intro: suffix_order.trans)
qed

lemma space_NUL [simp]: "\<not> PJ_SCAN_IS_SPACE NUL" "\<not> PJ_SCAN_IS_NEWLINE NUL"
  by (simp_all add: PJ_SCAN_IS_SPACE_def PJ_SCAN_IS_NEWLINE_def)

lemma newline_at_simps [simp]:
  "sc_eos (newline_at s sc) = sc_eos sc" "sc_end (newline_at s sc) = sc_end sc" "sc_rest (newline_at s sc) = s"
  "sc_skip_ws (newline_at s sc) = sc_skip_ws sc"
  by (simp_all add: newline_at_def)

lemma skip_newlines_NUL:
  "sc_eos sc = NUL \<Longrightarrow>
   \<exists>t sc'. skip_newlines s sc = Inr (t, sc') \<and> suffix t s \<and> sc_eos sc' = NUL \<and> sc_end sc' = sc_end sc"
proof (induction s sc rule: skip_newlines.induct)
  case (2 c t sc)
  let ?goal = "\<lambda>s sc. \<exists>t sc'. skip_newlines s sc = Inr (t, sc') \<and> suffix t s \<and> sc_eos sc' = NUL \<and> sc_end sc' = sc_end sc"
  have up: "?goal u (newline_at u' sc) \<Longrightarrow> suffix u t \<Longrightarrow> skip_newlines (c # t) sc = skip_newlines u (newline_at u' sc) \<Longrightarrow> ?case"
    for u u' by (auto intro: suffix_ConsI suffix_order.trans)
  consider (cr) "c = CR" | (lf) "c = LF" | (space) "c \<noteq> CR" "c \<noteq> LF" "PJ_SCAN_IS_SPACE c" | (other) "c \<noteq> CR" "c \<noteq> LF" "\<not> PJ_SCAN_IS_SPACE c"
    by blast
  then show ?case
  proof cases
    case cr
    show ?thesis
    proof (cases t)
      case Nil
      then show ?thesis using "2.IH"(1) [OF cr Nil] "2.prems" cr by (intro up [of t t]) simp_all
    next
      case (Cons d u)
      show ?thesis
      proof (cases "d = LF")
        case True
        then show ?thesis using "2.IH"(2) [OF cr Cons True] "2.prems" cr Cons
          by (intro up [of u u]) (simp_all add: suffix_ConsI)
      next
        case False
        then show ?thesis using "2.IH"(3) [OF cr Cons False] "2.prems" cr Cons by (intro up [of t t]) simp_all
      qed
    qed
  next
    case lf
    then show ?thesis using "2.IH"(4) "2.prems" by (intro up [of t t]) simp_all
  next
    case space
    with "2.IH"(5) "2.prems" obtain t' sc' where "skip_newlines t sc = Inr (t', sc')" "suffix t' t" "sc_eos sc' = NUL" "sc_end sc' = sc_end sc"
      by blast
    with space show ?thesis by (auto intro: suffix_ConsI)
  next
    case other
    with "2.prems" show ?thesis by simp
  qed
qed auto

lemma skip_continuation_NUL:
  assumes "sc_eos sc = NUL"
  shows "\<exists>sc'. skip_continuation s sc = Inr sc' \<and> sc_eos sc' = NUL \<and> sc_end sc' = sc_end sc \<and> suffix (sc_rest sc') s"
proof -
  obtain u where u: "eat_newline NUL s = Inr u" "suffix u s" using eat_newline_NUL by blast
  show ?thesis using u assms dropWhile_suffix [of PJ_SCAN_IS_SPACE u]
    by (auto simp: skip_continuation_def over_NUL Let_def intro: suffix_order.trans)
qed

lemma runs_skip_whitespace [runs_intros]: "runs 0 pj_scan_skip_whitespace"
proof (rule runsI)
  fix sc assume wf: "sc_wf sc"
  then have e: "sc_eos sc = NUL" by (simp add: sc_wf_def)
  define s where "s = dropWhile PJ_SCAN_IS_SPACE (sc_rest sc)"
  have s: "suffix s (sc_rest sc)" by (simp add: s_def dropWhile_suffix)
  obtain t sc1 where t: "(if PJ_SCAN_IS_NEWLINE (cur_of NUL s) \<and> bit (sc_skip_ws sc) 2 then skip_newlines s sc else Inr (s, sc)) = Inr (t, sc1)"
    "suffix t s" "sc_eos sc1 = NUL" "sc_end sc1 = sc_end sc"
    using skip_newlines_NUL [of sc s] e by (cases "PJ_SCAN_IS_NEWLINE (cur_of NUL s) \<and> bit (sc_skip_ws sc) 2") auto
  obtain sc2 where sc2: "skip_continuation t sc1 = Inr sc2" "sc_eos sc2 = NUL" "sc_end sc2 = sc_end sc1" "suffix (sc_rest sc2) t"
    using skip_continuation_NUL [OF t(3)] by blast
  have "suffix (sc_rest sc2) (sc_rest sc)" "suffix t (sc_rest sc)"
    using sc2(4) t(2) s by (blast intro: suffix_order.trans)+
  then show "(\<exists>a sc'. pj_scan_skip_whitespace sc = Done a sc' \<and> steps 0 sc sc') \<or> (\<exists>x sc'. pj_scan_skip_whitespace sc = Thrown x sc' \<and> steps 0 sc sc')"
    using t sc2 e
    by (auto simp: pj_scan_skip_whitespace_def e over_NUL s_def [symmetric] steps_def Let_def dest: suffix_length_le)
qed

lemma runs_skip_after [runs_intros]: "runs 0 (skip_after skip)"
  using runs_skip_whitespace unfolding runs_def skip_after_def by simp

text \<open>A step to a later pointer, and then the skipping: the shape of every reader.\<close>

lemma steps_then:
  assumes q: "runs 0 q" and wf: "sc_wf sc" and s: "suffix s (sc_rest sc)" and k: "length s + k \<le> length (sc_rest sc)"
  shows "(\<exists>a sc'. q (sc\<lparr>sc_rest := s\<rparr>) = Done a sc' \<and> steps k sc sc') \<or> (\<exists>x sc'. q (sc\<lparr>sc_rest := s\<rparr>) = Thrown x sc' \<and> steps 0 sc sc')"
proof -
  have st: "steps k sc (sc\<lparr>sc_rest := s\<rparr>)" using s k by (simp add: steps_def)
  from q steps_wf [OF wf st] show ?thesis
    by (cases rule: runsD) (use st steps_trans [OF st] in \<open>force intro: steps_less\<close>)+
qed

lemma runs_take_token: "runs 0 (\<lambda>sc. seq (skip_after (skip_set sc)) (\<lambda>u. ret out) sc)"
proof (rule runsI)
  fix sc assume wf: "sc_wf sc"
  have "runs 0 (seq (skip_after (skip_set sc)) (\<lambda>u. ret out))" by (intro runs_intros)
  then show "(\<exists>a sc'. seq (skip_after (skip_set sc)) (\<lambda>u. ret out) sc = Done a sc' \<and> steps 0 sc sc') \<or>
             (\<exists>x sc'. seq (skip_after (skip_set sc)) (\<lambda>u. ret out) sc = Thrown x sc' \<and> steps 0 sc sc')"
    using wf by (cases rule: runsD) auto
qed

lemma take_token_steps:
  assumes "sc_wf sc" and "suffix s (sc_rest sc)" and "length s + k \<le> length (sc_rest sc)"
  shows "(\<exists>a sc'. take_token out s sc = Done a sc' \<and> steps k sc sc') \<or> (\<exists>x sc'. take_token out s sc = Thrown x sc' \<and> steps 0 sc sc')"
  using steps_then [OF runs_take_token assms, of out] by (simp add: take_token_def skip_set_def)

lemma cur_wf: "sc_wf sc \<Longrightarrow> cur sc \<noteq> NUL \<Longrightarrow> \<exists>t. sc_rest sc = cur sc # t"
  by (cases "sc_rest sc") (auto simp: sc_wf_def cur_of_def)

lemma runs_get: "\<not> spec NUL \<Longrightarrow> runs 1 (pj_scan_get spec)"
proof (rule runsI)
  fix sc assume spec: "\<not> spec NUL" and wf: "sc_wf sc"
  show "(\<exists>a sc'. pj_scan_get spec sc = Done a sc' \<and> steps 1 sc sc') \<or> (\<exists>x sc'. pj_scan_get spec sc = Thrown x sc' \<and> steps 0 sc sc')"
  proof (cases "spec (cur sc)")
    case True
    then obtain t where t: "sc_rest sc = cur sc # t" using wf spec cur_wf by metis
    have len: "length (dropWhile spec (sc_rest sc)) + 1 \<le> length (sc_rest sc)"
      by (subst t, subst (2) t) (simp add: True length_dropWhile_le)
    show ?thesis
      using take_token_steps [OF wf dropWhile_suffix len, of "takeWhile spec (sc_rest sc)"] spec True wf
      by (simp add: pj_scan_get_def over_NUL sc_wf_def)
  next
    case False
    with spec show ?thesis by (simp add: pj_scan_get_def pj_scan_syntax_err_def throw_def)
  qed
qed

lemma runs_get_0 [runs_intros]: "\<not> spec NUL \<Longrightarrow> runs 0 (pj_scan_get spec)"
  by (rule runs_0) (rule runs_get)

lemma runs_peek [runs_intros]: "\<not> spec NUL \<Longrightarrow> runs 0 (pj_scan_peek spec)"
  by (rule runsI) (simp add: pj_scan_peek_def over_NUL sc_wf_def pj_scan_syntax_err_def throw_def)

lemma runs_get_char: "runs 1 pj_scan_get_char"
proof (rule runsI)
  fix sc assume wf: "sc_wf sc"
  show "(\<exists>a sc'. pj_scan_get_char sc = Done a sc' \<and> steps 1 sc sc') \<or> (\<exists>x sc'. pj_scan_get_char sc = Thrown x sc' \<and> steps 0 sc sc')"
  proof (cases "cur sc = NUL")
    case False
    with wf obtain t where t: "sc_rest sc = cur sc # t" using cur_wf by metis
    then show ?thesis using take_token_steps [OF wf, of t 1 "[]"] runs_take_token False
      by (auto simp: pj_scan_get_char_def take_token_def seq_def ret_def skip_set_def suffix_ConsI split: list.splits outcome.splits)
  qed (simp add: pj_scan_get_char_def pj_scan_syntax_err_def throw_def)
qed

lemma runs_get_char_0 [runs_intros]: "runs 0 pj_scan_get_char"
  by (rule runs_0) (rule runs_get_char)

lemma quote_loop_NUL:
  "endq \<noteq> NUL \<Longrightarrow>
   quote_loop endq NUL acc s = Inr None \<or> (\<exists>out t. quote_loop endq NUL acc s = Inr (Some (out, t)) \<and> suffix t s \<and> length t < length s)"
proof (induction s arbitrary: acc)
  case (Cons c t)
  have up: "?case" if "quote_loop endq NUL acc (c # t) = quote_loop endq NUL (c # acc) t"
    "quote_loop endq NUL (c # acc) t = Inr None \<or> (\<exists>out u. quote_loop endq NUL (c # acc) t = Inr (Some (out, u)) \<and> suffix u t \<and> length u < length t)"
    using that by (auto intro: suffix_ConsI)
  show ?case
  proof (cases "c = LF \<and> c \<noteq> endq")
    case False
    note f = this
    show ?thesis
    proof (cases "c \<noteq> endq")
      case True
      then show ?thesis using f Cons.IH [of "c # acc"] Cons.prems by (intro up) simp_all
    next
      case c: False
      show ?thesis
      proof (cases "hd acc \<noteq> CHR 0x5C \<or> odd (length (takeWhile (\<lambda>x. x = CHR 0x5C) (tl acc)))")
        case True
        with c show ?thesis by (auto simp: suffix_def)
      next
        case no: False
        then show ?thesis using f c Cons.IH [of "c # acc"] Cons.prems by (intro up) simp_all
      qed
    qed
  qed auto
qed simp

lemma runs_get_quotes:
  assumes "NUL \<notin> set begin_quote" and "NUL \<notin> set end_quote" and "length end_quote = length begin_quote"
  shows "runs 1 (pj_scan_get_quotes begin_quote end_quote)"
proof (rule runsI)
  fix sc assume wf: "sc_wf sc"
  show "(\<exists>a sc'. pj_scan_get_quotes begin_quote end_quote sc = Done a sc' \<and> steps 1 sc sc') \<or>
        (\<exists>x sc'. pj_scan_get_quotes begin_quote end_quote sc = Thrown x sc' \<and> steps 0 sc sc')"
  proof (cases "find (\<lambda>i. cur sc = begin_quote ! i) [0..<length begin_quote]")
    case None
    then show ?thesis by (simp add: pj_scan_get_quotes_def pj_scan_syntax_err_def throw_def)
  next
    case (Some q)
    then have q: "q < length begin_quote" "cur sc = begin_quote ! q" by (auto simp: find_Some_iff)
    with assms(1) have "cur sc \<noteq> NUL" by (metis nth_mem)
    with wf obtain c t where t: "sc_rest sc = c # t" using cur_wf by metis
    have "end_quote ! q \<noteq> NUL" using assms q by (metis nth_mem)
    from quote_loop_NUL [OF this, of "[c]" t] show ?thesis
    proof (elim disjE exE conjE)
      fix out u assume u: "quote_loop (end_quote ! q) NUL [c] t = Inr (Some (out, u))" "suffix u t" "length u < length t"
      then have "suffix u (sc_rest sc)" "length u + 1 \<le> length (sc_rest sc)"
        by (simp_all add: t suffix_ConsI)
      from take_token_steps [OF wf this, of out] u(1) show ?thesis using wf
        unfolding pj_scan_get_quotes_def Some option.case unfolding t list.case by (simp add: sc_wf_def)
    next
      assume "quote_loop (end_quote ! q) NUL [c] t = Inr None"
      then show ?thesis using wf
        unfolding pj_scan_get_quotes_def Some option.case unfolding t list.case
        by (simp add: sc_wf_def pj_scan_syntax_err_def throw_def)
    qed
  qed
qed

lemma runs_get_quote: "b \<noteq> NUL \<Longrightarrow> e \<noteq> NUL \<Longrightarrow> runs 1 (pj_scan_get_quote b e)"
  unfolding pj_scan_get_quote_def by (rule runs_get_quotes) auto

lemma runs_get_quote_0 [runs_intros]: "b \<noteq> NUL \<Longrightarrow> e \<noteq> NUL \<Longrightarrow> runs 0 (pj_scan_get_quote b e)"
  by (rule runs_0) (rule runs_get_quote)

lemma runs_get_n [runs_intros]: "runs 0 (pj_scan_get_n n)"
proof (rule runsI)
  fix sc assume wf: "sc_wf sc"
  show "(\<exists>a sc'. pj_scan_get_n n sc = Done a sc' \<and> steps 0 sc sc') \<or> (\<exists>x sc'. pj_scan_get_n n sc = Thrown x sc' \<and> steps 0 sc sc')"
    using take_token_steps [OF wf suffix_drop, of n 0 "take n (sc_rest sc)"]
    by (simp add: pj_scan_get_n_def pj_scan_syntax_err_def throw_def)
qed

lemma runs_get_newline: "runs 1 pj_scan_get_newline"
proof (rule runsI)
  fix sc assume wf: "sc_wf sc"
  obtain t where "eat_newline NUL (sc_rest sc) = Inr t" "suffix t (sc_rest sc)"
    "PJ_SCAN_IS_NEWLINE (cur_of NUL (sc_rest sc)) \<longrightarrow> length t < length (sc_rest sc)"
    using eat_newline_NUL by blast
  then show "(\<exists>a sc'. pj_scan_get_newline sc = Done a sc' \<and> steps 1 sc sc') \<or> (\<exists>x sc'. pj_scan_get_newline sc = Thrown x sc' \<and> steps 0 sc sc')"
    using wf by (auto simp: pj_scan_get_newline_def sc_wf_def steps_def pj_scan_syntax_err_def throw_def)
qed

lemma runs_get_newline_0 [runs_intros]: "runs 0 pj_scan_get_newline"
  by (rule runs_0) (rule runs_get_newline)

lemma runs_get_until [runs_intros]: "runs 0 (pj_scan_get_until spec)"
proof (rule runsI)
  fix sc assume wf: "sc_wf sc"
  show "(\<exists>a sc'. pj_scan_get_until spec sc = Done a sc' \<and> steps 0 sc sc') \<or> (\<exists>x sc'. pj_scan_get_until spec sc = Thrown x sc' \<and> steps 0 sc sc')"
    using take_token_steps [OF wf dropWhile_suffix, of "\<lambda>c. \<not> spec c" 0 "takeWhile (\<lambda>c. \<not> spec c) (sc_rest sc)"]
    by (simp add: pj_scan_get_until_def pj_scan_syntax_err_def throw_def length_dropWhile_le)
qed

lemma runs_get_until_ch [runs_intros]: "runs 0 (pj_scan_get_until_ch c)"
  by (simp add: pj_scan_get_until_ch_def runs_get_until)

lemma runs_advance_n [runs_intros]: "runs 0 (pj_scan_advance_n n skip)"
proof (rule runsI)
  fix sc assume wf: "sc_wf sc"
  show "(\<exists>a sc'. pj_scan_advance_n n skip sc = Done a sc' \<and> steps 0 sc sc') \<or> (\<exists>x sc'. pj_scan_advance_n n skip sc = Thrown x sc' \<and> steps 0 sc sc')"
    using steps_then [OF runs_skip_after wf suffix_drop, of n 0 skip]
    by (simp add: pj_scan_advance_n_def pj_scan_syntax_err_def throw_def)
qed

lemma runs_skip_line: "sc_wf sc \<Longrightarrow> \<exists>sc'. pj_scan_skip_line sc = Done () sc' \<and> steps (if sc_rest sc = [] then 0 else 1) sc sc'"
proof -
  assume wf: "sc_wf sc"
  define s where "s = dropWhile (\<lambda>c. c \<noteq> LF \<and> c \<noteq> NUL) (sc_rest sc)"
  have "suffix s (sc_rest sc)" by (simp add: s_def dropWhile_suffix)
  then show ?thesis using wf
    by (cases s) (auto simp: pj_scan_skip_line_def s_def [symmetric] sc_wf_def steps_def Suc_le_eq
      dest: suffix_length_le suffix_ConsD)
qed

end
