(* ===== verification/UriParser.thy ===== *)
theory UriParser
  imports Scanner SipUri
begin

text \<open>
  The parsing of URIs (\<open>3rd/src/pjsip/sip_parser.c\<close>): tokens with escapes, parameters, hosts, SIP and
  other URIs, and name-addr. The table of the URI parsers is an argument, because other modules add
  to it; the one of \<open>tel:\<close> (\<open>sip_tel_uri.c\<close>) is such an entry. Unescaping makes a copy
  (\<open>PJSIP_UNESCAPE_IN_PLACE\<close> is 0), so the buffer is never written to.
\<close>

section \<open>Character sets and tokens\<close>

definition DIGIT_SPEC :: "char \<Rightarrow> bool" where
  "DIGIT_SPEC c = isdigit_c c"

definition ALPHA_SPEC :: "char \<Rightarrow> bool" where
  "ALPHA_SPEC c \<longleftrightarrow> isalnum_c c \<and> \<not> isdigit_c c"

definition HOST_SPEC :: "char \<Rightarrow> bool" where
  "HOST_SPEC = cis ''_-.''"

text \<open>\<open>pj_cis_invert\<close> leaves the NUL out.\<close>

definition cis_not :: "string \<Rightarrow> char \<Rightarrow> bool" where
  "cis_not s c \<longleftrightarrow> c \<noteq> NUL \<and> c \<notin> set s"

definition PROBE_USER_HOST_SPEC :: "char \<Rightarrow> bool" where
  "PROBE_USER_HOST_SPEC = cis_not (''@ '' @ [LF] @ ''>'')"

definition DISPLAY_SPEC :: "char \<Rightarrow> bool" where
  "DISPLAY_SPEC = cis_not ('':'' @ [CR, LF] @ ''<'')"

definition NOT_NEWLINE :: "char \<Rightarrow> bool" where
  "NOT_NEWLINE = cis_not [CR, LF]"

definition NOT_COMMA_OR_NEWLINE :: "char \<Rightarrow> bool" where
  "NOT_COMMA_OR_NEWLINE = cis_not ('','' @ [CR, LF])"

definition VIA_PARAM_SPEC :: "char \<Rightarrow> bool" where
  "VIA_PARAM_SPEC c \<longleftrightarrow> TOKEN_SPEC c \<or> c = CHR '':''"

definition OTHER_URI_CONTENT :: "char \<Rightarrow> bool" where
  "OTHER_URI_CONTENT = cis (''#?;:@&=+-_.!~*'' @ [CHR 0x27] @ ''()%$,/'')"

definition parser_stricmp :: "string \<Rightarrow> string \<Rightarrow> bool" where
  "parser_stricmp s1 s2 \<longleftrightarrow> length s1 \<noteq> length s2 \<or> pj_stricmp s1 s2 \<noteq> 0"

definition parser_get_and_unescape :: "(char \<Rightarrow> bool) \<Rightarrow> string parser" where
  "parser_get_and_unescape spec = seq (pj_scan_get spec) (\<lambda>token. ret (pj_str_unescape token))"

definition strtoi_validate :: "string \<Rightarrow> int \<Rightarrow> int \<Rightarrow> int parser" where
  "strtoi_validate str min_val max_val =
     seq (of_res (pj_strtol2 str)) (\<lambda>(status, retval).
       case retval of
         None \<Rightarrow> throw EInvalErr
       | Some r \<Rightarrow>
           if min_val > r then throw EInvalErr
           else if r > max_val then throw EInvalErr
           else if status \<noteq> PJ_SUCCESS then throw EInvalErr
           else ret r)"

abbreviation (input) PJSIP_MAX_PORT :: int where "PJSIP_MAX_PORT \<equiv> 65535"
abbreviation (input) PJSIP_MAX_TTL :: int where "PJSIP_MAX_TTL \<equiv> 255"
abbreviation (input) PJ_MAXINT32 :: int where "PJ_MAXINT32 \<equiv> 2147483647"

section \<open>Parameters\<close>

definition parse_param_imp :: "(char \<Rightarrow> bool) \<Rightarrow> bool \<Rightarrow> pjsip_param parser" where
  "parse_param_imp spec remove_quote =
     seq (parser_get_and_unescape spec) (\<lambda>pname.
       if_p (\<lambda>sc. cur sc = CHR ''='')
         (seq pj_scan_get_char (\<lambda>u.
            if_p pj_scan_is_eof (ret (pname, []))
              (if_p (\<lambda>sc. cur sc = CHR 0x22)
                 (seq (pj_scan_get_quote (CHR 0x22) (CHR 0x22)) (\<lambda>v.
                    ret (pname, if remove_quote then butlast (tl v) else v)))
                 (if_p (\<lambda>sc. spec (cur sc))
                    (seq (parser_get_and_unescape spec) (\<lambda>v. ret (pname, v)))
                    (ret (pname, []))))))
         (ret (pname, [])))"

definition pjsip_parse_param_imp :: "bool \<Rightarrow> pjsip_param parser" where
  "pjsip_parse_param_imp remove_quote = parse_param_imp TOKEN_SPEC remove_quote"

definition pjsip_parse_uri_param_imp :: "bool \<Rightarrow> pjsip_param parser" where
  "pjsip_parse_uri_param_imp remove_quote = parse_param_imp PARAM_CHAR_SPEC remove_quote"

definition int_parse_param :: "bool \<Rightarrow> pjsip_param parser" where
  "int_parse_param remove_quote = seq pj_scan_get_char (\<lambda>u. pjsip_parse_param_imp remove_quote)"

definition int_parse_uri_param :: "bool \<Rightarrow> pjsip_param parser" where
  "int_parse_uri_param remove_quote = seq pj_scan_get_char (\<lambda>u. pjsip_parse_uri_param_imp remove_quote)"

definition int_parse_hparam :: "pjsip_param parser" where
  "int_parse_hparam =
     seq pj_scan_get_char (\<lambda>u.
     seq (parser_get_and_unescape HDR_CHAR_SPEC) (\<lambda>hname.
       if_p (\<lambda>sc. cur sc = CHR ''='')
         (seq pj_scan_get_char (\<lambda>u.
            if_p (\<lambda>sc. \<not> pj_scan_is_eof sc \<and> HDR_CHAR_SPEC (cur sc))
              (seq (parser_get_and_unescape HDR_CHAR_SPEC) (\<lambda>v. ret (hname, v)))
              (ret (hname, []))))
         (ret (hname, []))))"

section \<open>SIP URIs\<close>

definition int_parse_host :: "string parser" where
  "int_parse_host =
     if_p (\<lambda>sc. cur sc = CHR ''['')
       (seq pj_scan_get_char (\<lambda>u. seq (pj_scan_get_until_ch (CHR '']'')) (\<lambda>h. seq pj_scan_get_char (\<lambda>u. ret h))))
       (pj_scan_get HOST_SPEC)"

definition int_parse_uri_host_port :: "(string \<times> int) parser" where
  "int_parse_uri_host_port =
     seq int_parse_host (\<lambda>h.
       if_p (\<lambda>sc. cur sc = CHR '':'')
         (seq pj_scan_get_char (\<lambda>u.
          seq (pj_scan_get DIGIT_SPEC) (\<lambda>p.
          seq (strtoi_validate p 0 PJSIP_MAX_PORT) (\<lambda>n. ret (h, n)))))
         (ret (h, 0)))"

definition int_is_next_user :: "bool parser" where
  "int_is_next_user = seq (pj_scan_peek PROBE_USER_HOST_SPEC) (\<lambda>(c, dummy). ret (c = CHR ''@''))"

definition int_parse_user_pass :: "(string \<times> string) parser" where
  "int_parse_user_pass =
     seq (parser_get_and_unescape USER_SPEC_LENIENT) (\<lambda>usr.
     seq (if_p (\<lambda>sc. cur sc = CHR '':'')
            (seq pj_scan_get_char (\<lambda>u. parser_get_and_unescape PASSWD_SPEC))
            (ret [])) (\<lambda>pass.
     seq pj_scan_get_char (\<lambda>u. ret (usr, pass))))"

definition set_skip_ws :: "int \<Rightarrow> unit parser" where
  "set_skip_ws v sc = Done () (sc\<lparr>sc_skip_ws := v\<rparr>)"

definition get_skip_ws :: "int parser" where
  "get_skip_ws sc = Done (sc_skip_ws sc) sc"

definition int_parse_url_param :: "sip_uri \<Rightarrow> sip_uri parser" where
  "int_parse_url_param url =
     seq (int_parse_uri_param False) (\<lambda>(pname, pvalue).
       if \<not> parser_stricmp pname ''user'' \<and> pvalue \<noteq> [] then ret (url\<lparr>user_param := pvalue\<rparr>)
       else if \<not> parser_stricmp pname ''method'' \<and> pvalue \<noteq> [] then ret (url\<lparr>method_param := pvalue\<rparr>)
       else if \<not> parser_stricmp pname ''transport'' \<and> pvalue \<noteq> [] then ret (url\<lparr>transport_param := pvalue\<rparr>)
       else if \<not> parser_stricmp pname ''ttl'' \<and> pvalue \<noteq> []
       then seq (strtoi_validate pvalue 0 PJSIP_MAX_TTL) (\<lambda>n. ret (url\<lparr>ttl_param := n\<rparr>))
       else if \<not> parser_stricmp pname ''maddr'' \<and> pvalue \<noteq> [] then ret (url\<lparr>maddr_param := pvalue\<rparr>)
       else if \<not> parser_stricmp pname ''lr'' then ret (url\<lparr>lr_param := 1\<rparr>)
       else ret (url\<lparr>other_param := other_param url @ [(pname, pvalue)]\<rparr>))"

definition int_parse_url_hparam :: "sip_uri \<Rightarrow> sip_uri parser" where
  "int_parse_url_hparam url =
     seq int_parse_hparam (\<lambda>p. ret (url\<lparr>header_param := header_param url @ [p]\<rparr>))"

text \<open>\<open>int_parse_sip_url\<close>, behind the host, behind the scheme, and as a whole.\<close>

definition url_tail :: "bool \<Rightarrow> sip_uri \<Rightarrow> sip_uri parser" where
  "url_tail parse_params url =
     seq (if parse_params then while_do (\<lambda>sc. cur sc = CHR '';'') int_parse_url_param url else ret url) (\<lambda>url.
       if_p (\<lambda>sc. parse_params \<and> cur sc = CHR ''?'')
         (seq (int_parse_url_hparam url) (while_do (\<lambda>sc. cur sc = CHR ''&'') int_parse_url_hparam))
         (ret url))"

definition url_body :: "bool \<Rightarrow> sip_uri \<Rightarrow> sip_uri parser" where
  "url_body parse_params url =
     seq int_is_next_user (\<lambda>is_user.
     seq (if is_user then int_parse_user_pass else ret (user url, passwd url)) (\<lambda>(usr, pass).
     seq int_parse_uri_host_port (\<lambda>(h, p).
       url_tail parse_params (url\<lparr>user := usr, passwd := pass, host := h, port := p\<rparr>))))"

definition int_parse_sip_url :: "bool \<Rightarrow> pj_uri parser" where
  "int_parse_sip_url parse_params =
     seq get_skip_ws (\<lambda>skip.
     seq (set_skip_ws 0) (\<lambda>u.
     seq (pj_scan_get TOKEN_SPEC) (\<lambda>scheme.
     seq pj_scan_get_char (\<lambda>colon.
       if colon \<noteq> CHR '':'' then throw SynErr
       else
         seq (if \<not> parser_stricmp scheme ''sip'' then ret (pjsip_sip_uri_create False)
              else if \<not> parser_stricmp scheme ''sips'' then ret (pjsip_sip_uri_create True)
              else throw SynErr) (\<lambda>url.
         seq (url_body parse_params url) (\<lambda>url.
         seq (set_skip_ws skip) (\<lambda>u.
         seq pj_scan_skip_whitespace (\<lambda>u. ret (UriSip url)))))))))"

definition int_parse_other_uri :: "bool \<Rightarrow> pj_uri parser" where
  "int_parse_other_uri parse_params =
     seq get_skip_ws (\<lambda>skip.
     seq (set_skip_ws 0) (\<lambda>u.
     seq (pj_scan_get TOKEN_SPEC) (\<lambda>scheme.
     seq pj_scan_get_char (\<lambda>colon.
       if colon \<noteq> CHR '':'' then throw SynErr
       else
         seq (pj_scan_get OTHER_URI_CONTENT) (\<lambda>content.
         seq (set_skip_ws skip) (\<lambda>u. ret (UriOther scheme content)))))))"

section \<open>The table of URI parsers\<close>

type_synonym uri_handlers = "(string \<times> (bool \<Rightarrow> pj_uri parser)) list"

abbreviation (input) PJSIP_MAX_URI_TYPES :: nat where "PJSIP_MAX_URI_TYPES \<equiv> 4"

definition pjsip_register_uri_parser :: "string \<Rightarrow> (bool \<Rightarrow> pj_uri parser) \<Rightarrow> uri_handlers \<Rightarrow> int \<times> uri_handlers" where
  "pjsip_register_uri_parser scheme func uh =
     (if length uh \<ge> PJSIP_MAX_URI_TYPES then (PJ_ETOOMANY, uh) else (PJ_SUCCESS, uh @ [(scheme, func)]))"

fun find_uri_handler :: "uri_handlers \<Rightarrow> string \<Rightarrow> bool \<Rightarrow> pj_uri parser" where
  "find_uri_handler [] scheme = int_parse_other_uri"
| "find_uri_handler ((s, func) # uh) scheme = (if \<not> parser_stricmp s scheme then func else find_uri_handler uh scheme)"

section \<open>URIs and name-addr\<close>

definition int_parse_uri :: "uri_handlers \<Rightarrow> bool \<Rightarrow> pj_uri parser" where
  "int_parse_uri uh parse_params =
     seq (pj_scan_peek TOKEN_SPEC) (\<lambda>(colon, scheme).
       if colon \<noteq> CHR '':'' then throw SynErr else find_uri_handler uh scheme parse_params)"

definition pj_strtrim :: "string \<Rightarrow> string" where
  "pj_strtrim str = pj_strrtrim (pj_strltrim str)"

definition int_parse_name_addr :: "uri_handlers \<Rightarrow> (string \<times> pj_uri) parser" where
  "int_parse_name_addr uh =
     seq (if_p (\<lambda>sc. cur sc = CHR 0x22)
            (seq (pj_scan_get_quote (CHR 0x22) (CHR 0x22)) (\<lambda>v. ret (butlast (tl v))))
            (if_p (\<lambda>sc. cur sc \<noteq> CHR ''<'')
               (seq (pj_scan_peek DISPLAY_SPEC) (\<lambda>(next_ch, dummy).
                  if next_ch = CHR ''<'' then seq (pj_scan_get_until_ch (CHR ''<'')) (\<lambda>v. ret (pj_strtrim v))
                  else ret []))
               (ret []))) (\<lambda>display.
     seq pj_scan_skip_whitespace (\<lambda>u.
       if_p (\<lambda>sc. cur sc = CHR ''<'')
         (seq pj_scan_get_char (\<lambda>u.
          seq (int_parse_uri uh True) (\<lambda>uri.
          seq pj_scan_get_char (\<lambda>c. if c \<noteq> CHR ''>'' then throw SynErr else ret (display, uri)))))
         (if display \<noteq> [] then throw SynErr
          else seq (int_parse_uri uh True) (\<lambda>uri. ret (display, uri)))))"

text \<open>
  The options \<open>PJSIP_PARSE_URI_AS_NAMEADDR\<close> and \<open>PJSIP_PARSE_URI_IN_FROM_TO_HDR\<close>: without the first, a
  URI that is no name-addr is returned as it is; with the second, what follows such a URI are
  parameters of the header.
\<close>

definition name_addr_of :: "string \<times> pj_uri \<Rightarrow> pj_uri" where
  "name_addr_of n = UriNameAddr (fst n) (Some (snd n))"

definition int_parse_uri_or_name_addr :: "uri_handlers \<Rightarrow> bool \<Rightarrow> bool \<Rightarrow> pj_uri parser" where
  "int_parse_uri_or_name_addr uh as_nameaddr in_fromto =
     seq pj_scan_skip_whitespace (\<lambda>u.
       if_p (\<lambda>sc. cur sc = CHR 0x22 \<or> cur sc = CHR ''<'')
         (seq (int_parse_name_addr uh) (\<lambda>n. ret (name_addr_of n)))
         (seq (pj_scan_peek DISPLAY_SPEC) (\<lambda>(next_ch, scheme).
            if next_ch = CHR '':''
            then seq (find_uri_handler uh scheme (\<not> in_fromto)) (\<lambda>uri.
                   ret (if as_nameaddr then UriNameAddr [] (Some uri) else uri))
            else seq (int_parse_name_addr uh) (\<lambda>n. ret (name_addr_of n)))))"

text \<open>\<open>PJ_TRY\<close> and \<open>PJ_CATCH_ANY\<close>\<close>

definition try_p :: "'a parser \<Rightarrow> 'a option parser" where
  "try_p p sc =
     (case p sc of Done a sc' \<Rightarrow> Done (Some a) sc' | Thrown x sc' \<Rightarrow> Done None sc' | Broken f \<Rightarrow> Broken f | Spinning \<Rightarrow> Spinning)"

definition on_buffer :: "string \<Rightarrow> char \<Rightarrow> int \<Rightarrow> 'a parser \<Rightarrow> 'a outcome" where
  "on_buffer txt e options p =
     (case pj_scan_init txt e options of
        Done u sc \<Rightarrow> p sc | Thrown x sc \<Rightarrow> Thrown x sc | Broken f \<Rightarrow> Broken f | Spinning \<Rightarrow> Spinning)"

text \<open>The text is followed by a NUL; all of it must have been used, or a line end follows.\<close>

definition pjsip_parse_uri :: "uri_handlers \<Rightarrow> string \<Rightarrow> bool \<Rightarrow> bool \<Rightarrow> pj_uri option outcome" where
  "pjsip_parse_uri uh buf as_nameaddr in_fromto =
     on_buffer buf NUL 0
       (seq (try_p (int_parse_uri_or_name_addr uh as_nameaddr in_fromto)) (\<lambda>uri.
          if_p (\<lambda>sc. pj_scan_is_eof sc \<or> PJ_SCAN_IS_NEWLINE (cur sc)) (ret uri) (ret None)))"

text \<open>The table when the endpoint is there: \<open>init_parser\<close>, and \<open>pjsip_tel_uri_subsys_init\<close> with its parser.\<close>

definition endpt_uri_handlers :: "(bool \<Rightarrow> pj_uri parser) \<Rightarrow> uri_handlers" where
  "endpt_uri_handlers tel_uri_parse =
     [(''sip'', int_parse_sip_url), (''sips'', int_parse_sip_url), (''tel'', tel_uri_parse)]"

section \<open>Parsing URIs always ends, inside the buffer\<close>

lemma spec_NUL [runs_intros]:
  "\<not> TOKEN_SPEC NUL" "\<not> PARAM_CHAR_SPEC NUL" "\<not> HDR_CHAR_SPEC NUL" "\<not> USER_SPEC_LENIENT NUL" "\<not> PASSWD_SPEC NUL"
  "\<not> DIGIT_SPEC NUL" "\<not> ALPHA_SPEC NUL" "\<not> HOST_SPEC NUL" "\<not> PROBE_USER_HOST_SPEC NUL" "\<not> DISPLAY_SPEC NUL"
  "\<not> NOT_NEWLINE NUL" "\<not> NOT_COMMA_OR_NEWLINE NUL" "\<not> VIA_PARAM_SPEC NUL" "\<not> OTHER_URI_CONTENT NUL"
  by code_simp+

lemma quote_NUL [runs_intros]: "CHR 0x22 \<noteq> NUL" "CHR ''('' \<noteq> NUL" "CHR '')'' \<noteq> NUL"
  by simp_all

lemma runs_get_and_unescape: "\<not> spec NUL \<Longrightarrow> runs 1 (parser_get_and_unescape spec)"
  unfolding parser_get_and_unescape_def by (rule runs_seq_first, erule runs_get, rule runs_ret)

lemma runs_get_and_unescape_0 [runs_intros]: "\<not> spec NUL \<Longrightarrow> runs 0 (parser_get_and_unescape spec)"
  by (rule runs_0) (rule runs_get_and_unescape)

lemma strtol2_returns: "\<exists>st v. pj_strtol2 str = Inr (st, v)"
  by (auto simp: pj_strtol2_def pj_strtoul3_def Let_def split: prod.split)

lemma runs_strtoi [runs_intros]: "runs 0 (strtoi_validate str mn mx)"
proof -
  obtain r where "pj_strtol2 str = Inr r" using strtol2_returns by blast
  then have "runs 0 (of_res (pj_strtol2 str))" by (rule runs_of_res)
  then show ?thesis unfolding strtoi_validate_def by (intro runs_intros)
qed

lemma runs_set_skip_ws [runs_intros]: "runs 0 (set_skip_ws v)"
  by (simp add: runs_def set_skip_ws_def steps_def)

lemma runs_get_skip_ws [runs_intros]: "runs 0 get_skip_ws"
  by (simp add: runs_def get_skip_ws_def)

lemma runs_param_imp [runs_intros]: "\<not> spec NUL \<Longrightarrow> runs 0 (parse_param_imp spec rq)"
  unfolding parse_param_imp_def by (intro runs_intros) auto

lemma runs_param_imps [runs_intros]: "runs 0 (pjsip_parse_param_imp rq)" "runs 0 (pjsip_parse_uri_param_imp rq)"
  unfolding pjsip_parse_param_imp_def pjsip_parse_uri_param_imp_def by (intro runs_intros)+

lemma runs_params:
  "runs 1 (int_parse_param rq)" "runs 1 (int_parse_uri_param rq)" "runs 1 int_parse_hparam"
  unfolding int_parse_param_def int_parse_uri_param_def int_parse_hparam_def
  by (rule runs_seq_first, rule runs_get_char, intro runs_intros)+

lemma runs_host [runs_intros]: "runs 0 int_parse_host"
  unfolding int_parse_host_def by (intro runs_intros)

lemma runs_host_port [runs_intros]: "runs 0 int_parse_uri_host_port"
  unfolding int_parse_uri_host_port_def by (intro runs_intros)

lemma runs_user [runs_intros]: "runs 0 int_is_next_user" "runs 0 int_parse_user_pass"
  unfolding int_is_next_user_def int_parse_user_pass_def by (intro runs_intros)+

lemma runs_url_param: "runs 1 (int_parse_url_param url)" "runs 1 (int_parse_url_hparam url)"
  unfolding int_parse_url_param_def int_parse_url_hparam_def
  by (rule runs_seq_first, rule runs_params, intro runs_intros)+

lemma runs_url_body [runs_intros]: "runs 0 (url_tail b url)" "runs 0 (url_body b url)"
  unfolding url_body_def url_tail_def
  by (intro runs_intros runs_url_param runs_0 [OF runs_url_param(2)])+

lemma runs_sip_url [runs_intros]: "runs 0 (int_parse_sip_url b)"
  unfolding int_parse_sip_url_def by (intro runs_intros)

lemma runs_other_uri [runs_intros]: "runs 0 (int_parse_other_uri b)"
  unfolding int_parse_other_uri_def by (intro runs_intros)

definition uris_run :: "uri_handlers \<Rightarrow> bool" where
  "uris_run uh \<longleftrightarrow> (\<forall>(s, func) \<in> set uh. \<forall>b. runs 0 (func b))"

lemma runs_uri_handler [runs_intros]: "uris_run uh \<Longrightarrow> runs 0 (find_uri_handler uh scheme b)"
  by (induction uh) (auto simp: uris_run_def intro: runs_intros)

lemma runs_uri [runs_intros]: "uris_run uh \<Longrightarrow> runs 0 (int_parse_uri uh b)"
  unfolding int_parse_uri_def by (intro runs_intros)

lemma runs_name_addr [runs_intros]: "uris_run uh \<Longrightarrow> runs 0 (int_parse_name_addr uh)"
  unfolding int_parse_name_addr_def by (intro runs_intros)

lemma runs_uri_or_name_addr [runs_intros]: "uris_run uh \<Longrightarrow> runs 0 (int_parse_uri_or_name_addr uh a b)"
  unfolding int_parse_uri_or_name_addr_def by (intro runs_intros)

lemma runs_try [runs_intros]: "runs 0 p \<Longrightarrow> runs 0 (try_p p)"
  unfolding runs_def try_p_def by (fastforce split: outcome.splits)

lemma on_buffer_runs:
  assumes "runs 0 p"
  shows "(\<exists>a sc. on_buffer txt NUL opts p = Done a sc \<and> suffix (sc_rest sc) txt) \<or>
         (\<exists>x sc. on_buffer txt NUL opts p = Thrown x sc \<and> suffix (sc_rest sc) txt)"
proof -
  define sc where "sc = \<lparr>sc_rest = txt, sc_eos = NUL, sc_end = length txt, sc_line = 1, sc_start_line = 0, sc_skip_ws = opts\<rparr>"
  have wf: "sc_wf sc" by (simp add: sc_wf_def sc_def)
  define q where "q = (if skip_set sc then seq pj_scan_skip_whitespace (\<lambda>u. p) else p)"
  have eq: "on_buffer txt NUL opts p = q sc"
    by (simp add: on_buffer_def pj_scan_init_def sc_def [symmetric] q_def seq_def Let_def split: outcome.split)
  have "runs 0 q" unfolding q_def by (intro runs_intros assms)
  from this wf show ?thesis by (cases rule: runsD) (auto simp: eq steps_def sc_def)
qed

lemma try_p_done: "runs 0 p \<Longrightarrow> sc_wf sc \<Longrightarrow> \<exists>a sc'. try_p p sc = Done a sc' \<and> steps 0 sc sc'"
  by (erule (1) runsD) (simp_all add: try_p_def)

section \<open>Reading what was printed\<close>

text \<open>
  \<open>reads k C p t a\<close>: with the white space flags \<open>k\<close>, \<open>p\<close> reads the text \<open>t\<close> as the value \<open>a\<close> and stops
  right behind it, whenever the character behind \<open>t\<close> satisfies \<open>C\<close>.
\<close>

definition reads :: "int \<Rightarrow> (char \<Rightarrow> bool) \<Rightarrow> 'a parser \<Rightarrow> string \<Rightarrow> 'a \<Rightarrow> bool" where
  "reads k C p t a \<longleftrightarrow>
     (\<forall>sc r. sc_skip_ws sc = k \<longrightarrow> sc_eos sc = NUL \<longrightarrow> C (cur_of NUL r) \<longrightarrow>
        p (sc\<lparr>sc_rest := t @ r\<rparr>) = Done a (sc\<lparr>sc_rest := r\<rparr>))"

definition stops :: "int \<Rightarrow> char \<Rightarrow> bool" where
  "stops k c \<longleftrightarrow> k = 0 \<or> \<not> PJ_SCAN_IS_SPACE c \<and> \<not> PJ_SCAN_IS_NEWLINE c"

lemma readsD:
  "reads k C p t a \<Longrightarrow> sc_skip_ws sc = k \<Longrightarrow> sc_eos sc = NUL \<Longrightarrow> C (cur_of NUL r) \<Longrightarrow> sc_rest sc = t @ r \<Longrightarrow>
   p sc = Done a (sc\<lparr>sc_rest := r\<rparr>)"
  unfolding reads_def by (metis scanner.surjective scanner.update_convs(1))

lemma reads_weaken: "reads k C p t a \<Longrightarrow> (\<And>c. D c \<Longrightarrow> C c) \<Longrightarrow> reads k D p t a"
  by (simp add: reads_def)

lemma cur_append [simp]: "cur_of e (t @ r) = (if t = [] then cur_of e r else hd t)" "cur_of e (c # r) = c"
  by (cases t) (simp_all add: cur_of_def)

lemma reads_seq:
  assumes "reads k C p t a" and "reads k D (f a) u b"
    and "u \<noteq> [] \<Longrightarrow> C (hd u)" and "\<And>c. u = [] \<Longrightarrow> D c \<Longrightarrow> C c"
  shows "reads k D (seq p f) (t @ u) b"
  using assms unfolding reads_def by (auto simp: seq_def)

lemma reads_ret: "reads k C (ret a) [] a"
  by (simp add: reads_def ret_def)

lemma reads_then_ret: "reads k C p t a \<Longrightarrow> reads k C (seq p (\<lambda>x. ret (f x))) t (f a)"
  by (simp add: reads_def seq_def ret_def)

lemma reads_if_p:
  assumes "t \<noteq> [] \<Longrightarrow> P (hd t) \<Longrightarrow> reads k C p t a" and "t \<noteq> [] \<Longrightarrow> \<not> P (hd t) \<Longrightarrow> reads k C q t a"
    and "t = [] \<Longrightarrow> reads k C q t a" and "\<And>c. t = [] \<Longrightarrow> C c \<Longrightarrow> \<not> P c"
  shows "reads k C (if_p (\<lambda>sc. P (cur sc)) p q) t a"
  using assms unfolding reads_def by (auto simp: if_p_def)

lemma skip_after_stops:
  assumes "sc_eos sc = NUL" and "stops (sc_skip_ws sc) (cur sc)"
  shows "skip_after (skip_set sc) sc = Done () sc"
proof -
  have "over PJ_SCAN_IS_SPACE NUL (sc_rest sc) = Inr (sc_rest sc)" if "sc_skip_ws sc \<noteq> 0"
    using that assms by (cases "sc_rest sc") (auto simp: over_def stops_def)
  with assms show ?thesis
    by (auto simp: skip_after_def skip_set_def pj_scan_skip_whitespace_def stops_def)
qed

lemma take_token_stops:
  assumes "sc_eos sc = NUL" and "stops (sc_skip_ws sc) (cur_of NUL s)"
  shows "take_token out s sc = Done out (sc\<lparr>sc_rest := s\<rparr>)"
  using skip_after_stops [of "sc\<lparr>sc_rest := s\<rparr>"] assms
  by (simp add: take_token_def seq_def ret_def skip_set_def)

lemma takeWhile_text: "list_all P t \<Longrightarrow> \<not> P (cur_of NUL r) \<Longrightarrow> takeWhile P (t @ r) = t \<and> dropWhile P (t @ r) = r"
  by (induction t) (cases r; simp add: cur_of_def)+

lemma reads_get:
  assumes "\<not> spec NUL" and "list_all spec t" and "t \<noteq> []"
  shows "reads k (\<lambda>c. \<not> spec c \<and> stops k c) (pj_scan_get spec) t t"
  unfolding reads_def
proof (intro allI impI, elim conjE)
  fix sc :: scanner and r assume k: "sc_skip_ws sc = k" "sc_eos sc = NUL" "\<not> spec (cur_of NUL r)" "stops k (cur_of NUL r)"
  note tw = takeWhile_text [OF assms(2) k(3)]
  have "spec (hd t)" using assms by (cases t) auto
  with assms k tw take_token_stops [of "sc\<lparr>sc_rest := t @ r\<rparr>" r t]
  show "pj_scan_get spec (sc\<lparr>sc_rest := t @ r\<rparr>) = Done t (sc\<lparr>sc_rest := r\<rparr>)"
    by (simp add: pj_scan_get_def over_NUL)
qed

lemma reads_char:
  assumes "c \<noteq> NUL"
  shows "reads k (stops k) pj_scan_get_char [c] c"
  unfolding reads_def
proof (intro allI impI)
  fix sc :: scanner and r assume k: "sc_skip_ws sc = k" "sc_eos sc = NUL" "stops k (cur_of NUL r)"
  then show "pj_scan_get_char (sc\<lparr>sc_rest := [c] @ r\<rparr>) = Done c (sc\<lparr>sc_rest := r\<rparr>)"
    using assms take_token_stops [of "sc\<lparr>sc_rest := c # r\<rparr>" r "[]"] skip_after_stops [of "sc\<lparr>sc_rest := r\<rparr>"]
    by (simp add: pj_scan_get_char_def seq_def ret_def skip_set_def)
qed

lemma reads_while:
  assumes body: "\<And>a x. x \<in> set xs \<Longrightarrow> reads k C (p a) (text x) (f a x)"
    and start: "\<And>x. x \<in> set xs \<Longrightarrow> text x \<noteq> [] \<and> hd (text x) = ch"
    and ch: "C ch" and D: "\<And>c. D c \<Longrightarrow> C c \<and> c \<noteq> ch"
  shows "reads k D (while_do (\<lambda>sc. cur sc = ch) p a) (concat (map text xs)) (foldl f a xs)"
  unfolding reads_def
proof (intro allI impI)
  fix sc :: scanner and r assume k: "sc_skip_ws sc = k" "sc_eos sc = NUL" "D (cur_of NUL r)"
  have "while_p n (\<lambda>sc. cur sc = ch) p a (sc\<lparr>sc_rest := concat (map text ys) @ r\<rparr>) = Done (foldl f a ys) (sc\<lparr>sc_rest := r\<rparr>)"
    if "set ys \<subseteq> set xs" and "length (concat (map text ys) @ r) < n" for ys n a
    using that
  proof (induction ys arbitrary: n a)
    case Nil
    with D [OF k(3)] k show ?case by (cases n) auto
  next
    case (Cons y ys)
    then obtain m where n: "n = Suc m" by (cases n) auto
    have y: "text y \<noteq> []" "hd (text y) = ch" using start [of y] Cons.prems by auto
    have next_ch: "C (cur_of NUL (concat (map text ys) @ r))"
    proof (cases ys)
      case Nil
      with D [OF k(3)] show ?thesis by simp
    next
      case (Cons z zs)
      then have "text z \<noteq> []" "hd (text z) = ch" using start [of z] Cons.prems by auto
      with Cons ch show ?thesis by simp
    qed
    have "p a (sc\<lparr>sc_rest := text y @ (concat (map text ys) @ r)\<rparr>) = Done (f a y) (sc\<lparr>sc_rest := concat (map text ys) @ r\<rparr>)"
      using body [of y a] Cons.prems k next_ch unfolding reads_def by (metis list.set_intros(1) subset_iff)
    moreover have "while_p m (\<lambda>sc. cur sc = ch) p (f a y) (sc\<lparr>sc_rest := concat (map text ys) @ r\<rparr>) =
        Done (foldl f (f a y) ys) (sc\<lparr>sc_rest := r\<rparr>)"
      using Cons.prems y n by (intro Cons.IH) (cases "text y"; simp)+
    ultimately show ?case using y n by (simp add: seq_def)
  qed
  from this [of xs "Suc (length (concat (map text xs) @ r))" a]
  show "while_do (\<lambda>sc. cur sc = ch) p a (sc\<lparr>sc_rest := concat (map text xs) @ r\<rparr>) = Done (foldl f a xs) (sc\<lparr>sc_rest := r\<rparr>)"
    by (simp add: while_do_def del: while_p.simps)
qed

section \<open>Escapes and numbers that were printed\<close>

lemma unescape_escape:
  assumes "CHR ''%'' \<notin> set s"
  shows "pj_str_unescape (escape unres s) = s"
proof -
  have h: "unescape isxdigit_c (CHR ''%'' # pj_val_to_hex_digit (code_c c) @ t) = c # unescape isxdigit_c t" for c t
    by (rule unescape_hex) (simp add: hex_digit_props)
  have "unescape isxdigit_c (escape unres s) = s"
    using assms by (induction s) (auto simp: unescape_plain h)
  then show ?thesis by (cases "CHR ''%'' \<in> set (escape unres s)") (simp_all add: pj_str_unescape_def unescape_no_percent)
qed

text \<open>A set of characters that has those an escape is made of.\<close>

definition escaping :: "(char \<Rightarrow> bool) \<Rightarrow> bool" where
  "escaping spec \<longleftrightarrow> spec (CHR ''%'') \<and> \<not> spec NUL \<and> list_all (\<lambda>n. spec (hex_digit n)) [0..<16]"

lemma escaping_specs:
  "escaping TOKEN_SPEC" "escaping PARAM_CHAR_SPEC" "escaping HDR_CHAR_SPEC" "escaping USER_SPEC" "escaping PASSWD_SPEC"
  by code_simp+

lemma escape_chars: "escaping spec \<Longrightarrow> list_all spec (escape spec s)"
proof (induction s)
  case (Cons c s)
  have "list_all spec (pj_val_to_hex_digit (code_c c))"
    using Cons.prems by (auto simp: pj_val_to_hex_digit_def escaping_def list_all_iff)
  with Cons show ?case by (auto simp: escaping_def)
qed simp

lemma escape_ne [simp]: "escape spec s = [] \<longleftrightarrow> s = []"
  by (cases s) auto

lemma reads_unescape:
  assumes "escaping spec" and "\<And>c. spec c \<Longrightarrow> spec' c" and "\<not> spec' NUL" and "CHR ''%'' \<notin> set s" and "s \<noteq> []"
  shows "reads k (\<lambda>c. \<not> spec' c \<and> stops k c) (parser_get_and_unescape spec') (escape spec s) s"
proof -
  have "list_all spec' (escape spec s)" using escape_chars [OF assms(1)] assms(2) by (auto simp: list_all_iff)
  from reads_then_ret [OF reads_get [OF assms(3) this, of k], of pj_str_unescape] assms show ?thesis
    by (simp add: parser_get_and_unescape_def unescape_escape)
qed

lemma ltrim_digits: "list_all isdigit_c s \<Longrightarrow> pj_strltrim s = s"
  by (cases s) (auto simp: pj_strltrim_def isspace_c_def isdigit_c_def)

lemma strtol2_digits:
  assumes "list_all isdigit_c s" and "s \<noteq> []" and "digits_val 0 s \<le> LONG_MAX"
  shows "pj_strtol2 s = Inr (PJ_SUCCESS, Some (digits_val 0 s))"
proof -
  have hd: "isdigit_c (hd s)" using assms by (cases s) auto
  then have sgn: "hd s \<noteq> CHR ''+''" "hd s \<noteq> CHR ''-''" "\<not> schar (hd s) < 48" "\<not> int (code_c (hd s)) > 57"
    by (auto simp: isdigit_c_def schar_def code_c_def)
  have le: "digits_val 0 s \<le> int ULONG_MAX" using assms(3) by (simp add: LONG_MAX_def ULONG_MAX_def)
  have ge: "0 \<le> digits_val 0 s" by (rule digits_val_ge) simp
  show ?thesis
    using assms(2,3) sgn le ge strtoul3_loop_10 [of 0 s]
    by (simp add: pj_strtol2_def pj_strtoul3_def ltrim_digits [OF assms(1)] Let_def PJ_EINVAL_def)
qed

lemma strtoi_digits:
  assumes "list_all isdigit_c s" and "s \<noteq> []" and "mn \<le> digits_val 0 s" and "digits_val 0 s \<le> mx" and "mx \<le> LONG_MAX"
  shows "strtoi_validate s mn mx = ret (digits_val 0 s)"
  using assms by (simp add: strtoi_validate_def strtol2_digits of_res_def seq_def ret_def fun_eq_iff)

lemma show_nat_all_digits: "list_all isdigit_c (show_nat n)"
  by (auto simp: list_all_iff dest: show_nat_digits)

lemma strtoi_show_nat: "mn \<le> int n \<Longrightarrow> int n \<le> mx \<Longrightarrow> mx \<le> LONG_MAX \<Longrightarrow> strtoi_validate (show_nat n) mn mx = ret (int n)"
  using strtoi_digits [OF show_nat_all_digits show_nat_nonempty, of mn n mx] by (simp add: digits_val_show_nat)

lemma reads_number:
  "n \<le> 65535 \<Longrightarrow> reads k (\<lambda>c. \<not> DIGIT_SPEC c \<and> stops k c)
     (seq (pj_scan_get DIGIT_SPEC) (\<lambda>p. seq (strtoi_validate p 0 PJSIP_MAX_PORT) (\<lambda>n. ret (h, n)))) (show_nat n) (h, int n)"
proof -
  assume n: "n \<le> 65535"
  have "list_all DIGIT_SPEC (show_nat n)" using show_nat_all_digits by (simp add: list_all_iff DIGIT_SPEC_def)
  from reads_get [OF spec_NUL(6) this] n show ?thesis
    by (simp add: reads_def seq_def strtoi_show_nat LONG_MAX_def ret_def)
qed

section \<open>SIP URIs come back\<close>

text \<open>
  A SIP URI that is read back from its text as a whole: no percent sign (it is in every set, so it is
  printed as it is, and taken for an escape), a host of the characters of names and addresses, no
  user parameter outside the characters of parameters, no IPv6 address as \<open>maddr\<close> (it keeps its
  brackets), numbers in their ranges, other parameters that are not one of the known ones.
\<close>

definition plain :: "string \<Rightarrow> bool" where
  "plain s \<longleftrightarrow> CHR ''%'' \<notin> set s"

definition known_param :: "pjsip_param \<Rightarrow> bool" where
  "known_param p \<longleftrightarrow>
     \<not> parser_stricmp (fst p) ''lr'' \<or>
     snd p \<noteq> [] \<and> list_ex (\<lambda>n. \<not> parser_stricmp (fst p) n) [''user'', ''method'', ''transport'', ''ttl'', ''maddr'']"

definition param_readable :: "pjsip_param \<Rightarrow> bool" where
  "param_readable p \<longleftrightarrow> fst p \<noteq> [] \<and> plain (fst p) \<and> plain (snd p)"

definition param_plain :: "pjsip_param \<Rightarrow> bool" where
  "param_plain p \<longleftrightarrow> param_readable p \<and> (snd p \<noteq> [] \<longrightarrow> hd (snd p) \<noteq> CHR 0x22)"

definition uri_plain :: "sip_uri \<Rightarrow> bool" where
  "uri_plain url \<longleftrightarrow>
     plain (user url) \<and> plain (passwd url) \<and> (user url = [] \<longrightarrow> passwd url = []) \<and>
     host url \<noteq> [] \<and> list_all HOST_SPEC (host url) \<and> 0 \<le> port url \<and> port url \<le> PJSIP_MAX_PORT \<and>
     plain (user_param url) \<and> list_all PARAM_CHAR_SPEC (user_param url) \<and>
     plain (method_param url) \<and> plain (transport_param url) \<and>
     -1 \<le> ttl_param url \<and> ttl_param url \<le> PJSIP_MAX_TTL \<and> plain (maddr_param url) \<and> CHR '':'' \<notin> set (maddr_param url) \<and>
     (lr_param url = 0 \<or> lr_param url = 1) \<and>
     list_all (\<lambda>p. param_plain p \<and> \<not> known_param p) (other_param url) \<and> list_all param_plain (header_param url)"

definition param_item :: "(char \<Rightarrow> bool) \<Rightarrow> char \<Rightarrow> pjsip_param \<Rightarrow> string" where
  "param_item spec sep p = sep # escape spec (fst p) @ opt_text (snd p \<noteq> []) (''='' @ escape spec (snd p))"

text \<open>The parameters in the order they are printed, and what reading one does.\<close>

definition url_params :: "sip_uri \<Rightarrow> pjsip_param list" where
  "url_params url =
     concat [if user_param url \<noteq> [] then [(''user'', user_param url)] else [],
             if method_param url \<noteq> [] then [(''method'', method_param url)] else [],
             if transport_param url \<noteq> [] then [(''transport'', transport_param url)] else [],
             if ttl_param url \<ge> 0 then [(''ttl'', show_nat (nat (ttl_param url)))] else [],
             if maddr_param url \<noteq> [] then [(''maddr'', maddr_param url)] else [],
             if lr_param url \<noteq> 0 then [(''lr'', [])] else [], other_param url]"

definition url_param_set :: "sip_uri \<Rightarrow> pjsip_param \<Rightarrow> sip_uri" where
  "url_param_set url p =
     (let n = fst p; v = snd p
      in if \<not> parser_stricmp n ''user'' \<and> v \<noteq> [] then url\<lparr>user_param := v\<rparr>
         else if \<not> parser_stricmp n ''method'' \<and> v \<noteq> [] then url\<lparr>method_param := v\<rparr>
         else if \<not> parser_stricmp n ''transport'' \<and> v \<noteq> [] then url\<lparr>transport_param := v\<rparr>
         else if \<not> parser_stricmp n ''ttl'' \<and> v \<noteq> [] then url\<lparr>ttl_param := digits_val 0 v\<rparr>
         else if \<not> parser_stricmp n ''maddr'' \<and> v \<noteq> [] then url\<lparr>maddr_param := v\<rparr>
         else if \<not> parser_stricmp n ''lr'' then url\<lparr>lr_param := 1\<rparr>
         else url\<lparr>other_param := other_param url @ [p]\<rparr>)"

definition ttl_fits :: "pjsip_param \<Rightarrow> bool" where
  "ttl_fits p \<longleftrightarrow> (\<not> parser_stricmp (fst p) ''ttl'' \<and> snd p \<noteq> [] \<longrightarrow> (\<exists>n. snd p = show_nat n \<and> n \<le> 255))"

lemma spec_facts:
  "\<not> PARAM_CHAR_SPEC (CHR ''='')" "\<not> PARAM_CHAR_SPEC (CHR '';'')" "\<not> PARAM_CHAR_SPEC (CHR ''?'')" "\<not> PARAM_CHAR_SPEC (CHR ''&'') \<longleftrightarrow> False"
  "\<not> HDR_CHAR_SPEC (CHR ''='')" "\<not> HDR_CHAR_SPEC (CHR ''&'')" "\<not> PARAM_CHAR_SPEC (CHR 0x22)" "\<not> TOKEN_SPEC (CHR '':'')"
  "\<not> USER_SPEC_LENIENT (CHR '':'')" "\<not> USER_SPEC_LENIENT (CHR ''@'')" "\<not> PASSWD_SPEC (CHR ''@'')"
  "\<not> HOST_SPEC (CHR '':'')" "\<not> HOST_SPEC (CHR '';'')" "\<not> HOST_SPEC (CHR ''?'')" "\<not> HOST_SPEC (CHR ''['')"
  "\<not> DIGIT_SPEC (CHR '';'')" "\<not> DIGIT_SPEC (CHR ''?'')" "\<not> USER_SPEC (CHR '':'')" "\<not> USER_SPEC (CHR ''@'')"
  by code_simp+

lemma stops_chars [simp]:
  "stops k (CHR ''='')" "stops k (CHR '';'')" "stops k (CHR ''?'')" "stops k (CHR ''&'')" "stops k (CHR '':'')" "stops k (CHR ''@'')"
  by (simp_all add: stops_def PJ_SCAN_IS_SPACE_def PJ_SCAN_IS_NEWLINE_def)

lemma spec_blank:
  "\<not> PARAM_CHAR_SPEC (CHR '' '')" "\<not> PARAM_CHAR_SPEC (CHR 0x09)" "\<not> PARAM_CHAR_SPEC CR" "\<not> PARAM_CHAR_SPEC LF"
  "\<not> HDR_CHAR_SPEC (CHR '' '')" "\<not> HDR_CHAR_SPEC (CHR 0x09)" "\<not> HDR_CHAR_SPEC CR" "\<not> HDR_CHAR_SPEC LF"
  "\<not> HOST_SPEC (CHR '' '')" "\<not> HOST_SPEC (CHR 0x09)" "\<not> HOST_SPEC CR" "\<not> HOST_SPEC LF"
  "\<not> USER_SPEC (CHR '' '')" "\<not> USER_SPEC (CHR 0x09)" "\<not> USER_SPEC CR" "\<not> USER_SPEC LF"
  "\<not> PASSWD_SPEC (CHR '' '')" "\<not> PASSWD_SPEC (CHR 0x09)" "\<not> PASSWD_SPEC CR" "\<not> PASSWD_SPEC LF"
  by code_simp+

lemma spec_stops: "PARAM_CHAR_SPEC c \<Longrightarrow> stops k c" "HDR_CHAR_SPEC c \<Longrightarrow> stops k c" "HOST_SPEC c \<Longrightarrow> stops k c"
    "USER_SPEC c \<Longrightarrow> stops k c" "PASSWD_SPEC c \<Longrightarrow> stops k c"
  using spec_blank by (auto simp: stops_def PJ_SCAN_IS_SPACE_def PJ_SCAN_IS_NEWLINE_def)

lemma escape_hd: "escaping spec \<Longrightarrow> s \<noteq> [] \<Longrightarrow> spec (hd (escape spec s))"
  using escape_chars [of spec s] by (cases "escape spec s") auto

lemma reads_if_eof: "t \<noteq> [] \<Longrightarrow> reads k C q t a \<Longrightarrow> reads k C (if_p pj_scan_is_eof p q) t a"
  by (simp add: reads_def if_p_def pj_scan_is_eof_def)

lemma reads_if_left:
  "t \<noteq> [] \<Longrightarrow> P (hd t) \<Longrightarrow> reads k C p t a \<Longrightarrow> reads k C (if_p (\<lambda>sc. P (cur sc)) p q) t a"
  by (rule reads_if_p) auto

lemma reads_if_right:
  "t \<noteq> [] \<Longrightarrow> \<not> P (hd t) \<Longrightarrow> reads k C q t a \<Longrightarrow> reads k C (if_p (\<lambda>sc. P (cur sc)) p q) t a"
  by (rule reads_if_p) auto

lemma reads_if_end:
  "reads k C q [] a \<Longrightarrow> (\<And>c. C c \<Longrightarrow> \<not> P c) \<Longrightarrow> reads k C (if_p (\<lambda>sc. P (cur sc)) p q) [] a"
  by (rule reads_if_p) auto

lemma reads_param_imp:
  assumes esc: "escaping spec" and n: "plain n" "n \<noteq> []" and v: "plain v"
    and spec: "\<not> spec (CHR ''='')" "\<not> spec (CHR 0x22)" "\<And>c. spec c \<Longrightarrow> stops k c"
  shows "reads k (\<lambda>c. \<not> spec c \<and> c \<noteq> CHR ''='' \<and> stops k c) (parse_param_imp spec rq)
           (escape spec n @ opt_text (v \<noteq> []) (''='' @ escape spec v)) (n, v)"
    (is "reads k ?C _ _ _")
proof -
  have nul: "\<not> spec NUL" using esc by (simp add: escaping_def)
  have tok: "s \<noteq> [] \<Longrightarrow> plain s \<Longrightarrow> reads k (\<lambda>c. \<not> spec c \<and> stops k c) (parser_get_and_unescape spec) (escape spec s) s" for s
    by (rule reads_unescape [OF esc]) (simp_all add: nul plain_def)
  show ?thesis
  proof (cases "v = []")
    case True
    have "reads k ?C (parse_param_imp spec rq) (escape spec n @ []) (n, [])"
      unfolding parse_param_imp_def
      by (rule reads_seq [OF tok [OF n(2,1)]], rule reads_if_end [OF reads_ret, where P = "\<lambda>c. c = CHR ''=''"]) auto
    with True show ?thesis by (simp add: opt_text_def)
  next
    case False
    note hdv = escape_hd [OF esc False]
    have "reads k ?C (parse_param_imp spec rq) (escape spec n @ (''='' @ escape spec v)) (n, v)"
      unfolding parse_param_imp_def
    proof (rule reads_seq [OF tok [OF n(2,1)]], rule reads_if_left)
      show "reads k ?C (seq pj_scan_get_char (\<lambda>u. if_p pj_scan_is_eof (ret (n, []))
              (if_p (\<lambda>sc. cur sc = CHR 0x22)
                 (seq (pj_scan_get_quote (CHR 0x22) (CHR 0x22)) (\<lambda>v. ret (n, if rq then butlast (tl v) else v)))
                 (if_p (\<lambda>sc. spec (cur sc)) (seq (parser_get_and_unescape spec) (\<lambda>v. ret (n, v))) (ret (n, []))))))
              (''='' @ escape spec v) (n, v)"
      proof (rule reads_seq [OF reads_char])
        show "reads k ?C (if_p pj_scan_is_eof (ret (n, []))
              (if_p (\<lambda>sc. cur sc = CHR 0x22)
                 (seq (pj_scan_get_quote (CHR 0x22) (CHR 0x22)) (\<lambda>v. ret (n, if rq then butlast (tl v) else v)))
                 (if_p (\<lambda>sc. spec (cur sc)) (seq (parser_get_and_unescape spec) (\<lambda>v. ret (n, v))) (ret (n, [])))))
              (escape spec v) (n, v)"
          using False hdv spec(2)
          by (intro reads_if_eof reads_if_right reads_if_left reads_weaken [OF reads_then_ret [OF tok [OF False v]]]) auto
      qed (use False hdv spec(3) in auto)
    qed (use spec in auto)
    with False show ?thesis by (simp add: opt_text_def)
  qed
qed

lemma reads_uri_param:
  assumes "param_readable p"
  shows "reads k (\<lambda>c. \<not> PARAM_CHAR_SPEC c \<and> c \<noteq> CHR ''='' \<and> stops k c) (int_parse_uri_param rq) (param_item PARAM_CHAR_SPEC (CHR '';'') p) p"
proof -
  have "reads k (\<lambda>c. \<not> PARAM_CHAR_SPEC c \<and> c \<noteq> CHR ''='' \<and> stops k c) (pjsip_parse_uri_param_imp rq)
     (escape PARAM_CHAR_SPEC (fst p) @ opt_text (snd p \<noteq> []) (''='' @ escape PARAM_CHAR_SPEC (snd p))) (fst p, snd p)"
    unfolding pjsip_parse_uri_param_imp_def using assms
    by (intro reads_param_imp escaping_specs spec_facts spec_stops(1)) (auto simp: param_readable_def)
  from reads_seq [OF reads_char [of "CHR '';''" k] this] assms show ?thesis
    using spec_stops(1) [OF escape_hd [OF escaping_specs(2)], of "fst p" k]
    by (simp add: int_parse_uri_param_def param_item_def param_readable_def)
qed

lemma reads_url_param:
  assumes p: "param_readable p" and ttl: "ttl_fits p"
  shows "reads k (\<lambda>c. \<not> PARAM_CHAR_SPEC c \<and> c \<noteq> CHR ''='' \<and> stops k c) (int_parse_url_param url)
           (param_item PARAM_CHAR_SPEC (CHR '';'') p) (url_param_set url p)"
proof -
  have "strtoi_validate (snd p) 0 PJSIP_MAX_TTL = ret (digits_val 0 (snd p))" if "\<not> parser_stricmp (fst p) ''ttl''" "snd p \<noteq> []"
    using that ttl by (auto simp: ttl_fits_def strtoi_show_nat digits_val_show_nat LONG_MAX_def)
  then have "(case p of (pname, pvalue) \<Rightarrow>
       if \<not> parser_stricmp pname ''user'' \<and> pvalue \<noteq> [] then ret (url\<lparr>user_param := pvalue\<rparr>)
       else if \<not> parser_stricmp pname ''method'' \<and> pvalue \<noteq> [] then ret (url\<lparr>method_param := pvalue\<rparr>)
       else if \<not> parser_stricmp pname ''transport'' \<and> pvalue \<noteq> [] then ret (url\<lparr>transport_param := pvalue\<rparr>)
       else if \<not> parser_stricmp pname ''ttl'' \<and> pvalue \<noteq> []
       then seq (strtoi_validate pvalue 0 PJSIP_MAX_TTL) (\<lambda>n. ret (url\<lparr>ttl_param := n\<rparr>))
       else if \<not> parser_stricmp pname ''maddr'' \<and> pvalue \<noteq> [] then ret (url\<lparr>maddr_param := pvalue\<rparr>)
       else if \<not> parser_stricmp pname ''lr'' then ret (url\<lparr>lr_param := 1\<rparr>)
       else ret (url\<lparr>other_param := other_param url @ [(pname, pvalue)]\<rparr>)) = ret (url_param_set url p)"
    by (cases p) (auto simp: url_param_set_def Let_def seq_def ret_def)
  with reads_uri_param [OF p, of k False] show ?thesis
    unfolding int_parse_url_param_def reads_def by (simp add: seq_def ret_def)
qed

lemma reads_hparam:
  assumes p: "param_readable p" and sep: "sep \<noteq> NUL"
  shows "reads k (\<lambda>c. \<not> HDR_CHAR_SPEC c \<and> c \<noteq> CHR ''='' \<and> stops k c) int_parse_hparam (param_item HDR_CHAR_SPEC sep p) p"
    (is "reads k ?C _ _ _")
proof -
  have nul: "\<not> HDR_CHAR_SPEC NUL" by (rule spec_NUL)
  have tok: "s \<noteq> [] \<Longrightarrow> plain s \<Longrightarrow> reads k (\<lambda>c. \<not> HDR_CHAR_SPEC c \<and> stops k c) (parser_get_and_unescape HDR_CHAR_SPEC) (escape HDR_CHAR_SPEC s) s" for s
    by (rule reads_unescape [OF escaping_specs(3)]) (simp_all add: nul plain_def)
  let ?q = "\<lambda>hname. if_p (\<lambda>sc. cur sc = CHR ''='')
         (seq pj_scan_get_char (\<lambda>u.
            if_p (\<lambda>sc. \<not> pj_scan_is_eof sc \<and> HDR_CHAR_SPEC (cur sc))
              (seq (parser_get_and_unescape HDR_CHAR_SPEC) (\<lambda>v. ret (hname, v)))
              (ret (hname, []))))
         (ret (hname, []))"
  have rest: "reads k ?C (?q n) (opt_text (v \<noteq> []) (''='' @ escape HDR_CHAR_SPEC v)) (n, v)" if v: "plain v" for n v
  proof (cases "v = []")
    case True
    then show ?thesis by (simp add: opt_text_def) (rule reads_if_end [OF reads_ret, where P = "\<lambda>c. c = CHR ''=''"], simp)
  next
    case False
    note hdv = escape_hd [OF escaping_specs(3) False]
    have "reads k ?C (if_p (\<lambda>sc. \<not> pj_scan_is_eof sc \<and> HDR_CHAR_SPEC (cur sc))
              (seq (parser_get_and_unescape HDR_CHAR_SPEC) (\<lambda>v. ret (n, v))) (ret (n, []))) (escape HDR_CHAR_SPEC v) (n, v)"
      using reads_weaken [OF reads_then_ret [OF tok [OF False v], of "\<lambda>v. (n, v)"], of ?C] False hdv
      by (simp add: reads_def if_p_def pj_scan_is_eof_def)
    from reads_seq [OF reads_char [of "CHR ''=''" k], of ?C, OF _ this] False
    have "reads k ?C (seq pj_scan_get_char (\<lambda>u. if_p (\<lambda>sc. \<not> pj_scan_is_eof sc \<and> HDR_CHAR_SPEC (cur sc))
              (seq (parser_get_and_unescape HDR_CHAR_SPEC) (\<lambda>v. ret (n, v))) (ret (n, [])))) (''='' @ escape HDR_CHAR_SPEC v) (n, v)"
      using spec_stops(2) [OF hdv] by simp
    with False show ?thesis by (simp add: opt_text_def) (rule reads_if_left; simp)
  qed
  have fp: "fst p \<noteq> []" "plain (fst p)" "plain (snd p)" using p by (simp_all add: param_readable_def)
  have "reads k ?C (seq (parser_get_and_unescape HDR_CHAR_SPEC) ?q)
      (escape HDR_CHAR_SPEC (fst p) @ opt_text (snd p \<noteq> []) (''='' @ escape HDR_CHAR_SPEC (snd p))) (fst p, snd p)"
    by (rule reads_seq [OF tok [OF fp(1,2)] rest [OF fp(3)]]) (auto simp: opt_text_def spec_facts)
  from reads_seq [OF reads_char [OF sep, of k] this] show ?thesis
    using fp spec_stops(2) [OF escape_hd [OF escaping_specs(3) fp(1)], of k]
    by (simp add: int_parse_hparam_def param_item_def)
qed

definition hparam_add :: "sip_uri \<Rightarrow> pjsip_param \<Rightarrow> sip_uri" where
  "hparam_add url p = url\<lparr>header_param := header_param url @ [p]\<rparr>"

lemma reads_url_hparam:
  assumes p: "param_readable p" and sep: "sep \<noteq> NUL"
  shows "reads k (\<lambda>c. \<not> HDR_CHAR_SPEC c \<and> c \<noteq> CHR ''='' \<and> stops k c) (int_parse_url_hparam url)
           (param_item HDR_CHAR_SPEC sep p) (hparam_add url p)"
  unfolding int_parse_url_hparam_def hparam_add_def by (rule reads_then_ret [OF reads_hparam [OF p sep]])

lemma foldl_hparam: "foldl hparam_add url ps = url\<lparr>header_param := header_param url @ ps\<rparr>"
  by (induction ps arbitrary: url) (simp_all add: hparam_add_def)

text \<open>The texts as sequences of items.\<close>

lemma param_text_items:
  "list_all param_plain ps \<Longrightarrow> sep \<noteq> CHR ''?'' \<Longrightarrow> param_text spec spec sep ps = concat (map (param_item spec sep) ps)"
  by (induction ps) (auto simp: param_item_def param_plain_def opt_text_def)

lemma hparam_text_items:
  "list_all param_plain (p # ps) \<Longrightarrow>
   param_text spec spec (CHR ''?'') (p # ps) = param_item spec (CHR ''?'') p @ concat (map (param_item spec (CHR ''&'')) ps)"
  by (simp add: param_text_items) (auto simp: param_item_def param_plain_def opt_text_def)

definition port_text :: "sip_uri \<Rightarrow> string" where
  "port_text url = opt_text (port url \<noteq> 0) ('':'' @ show_nat (nat (port url)))"

lemma escape_names [simp]:
  "escape PARAM_CHAR_SPEC ''user'' = ''user''" "escape PARAM_CHAR_SPEC ''method'' = ''method''"
  "escape PARAM_CHAR_SPEC ''transport'' = ''transport''" "escape PARAM_CHAR_SPEC ''ttl'' = ''ttl''"
  "escape PARAM_CHAR_SPEC ''maddr'' = ''maddr''" "escape PARAM_CHAR_SPEC ''lr'' = ''lr''"
  by code_simp+

lemma param_char_alnum: "isdigit_c c \<Longrightarrow> PARAM_CHAR_SPEC c"
  by (simp add: PARAM_CHAR_SPEC_def cis_def isalnum_c_def Let_def)

lemma uri_text_items:
  assumes "uri_plain url"
  shows "sip_uri_text cfg IN_OTHER url =
     (if secure url then ''sips'' else ''sip'') @ '':'' @ user_text cfg url @ host url @ port_text url @
     concat (map (param_item PARAM_CHAR_SPEC (CHR '';'')) (url_params url)) @
     param_text HDR_CHAR_SPEC HDR_CHAR_SPEC (CHR ''?'') (header_param url)"
proof -
  have u: "escape PARAM_CHAR_SPEC (user_param url) = user_param url"
    using assms by (intro escape_id) (auto simp: uri_plain_def list_all_iff)
  have t: "escape PARAM_CHAR_SPEC (show_nat n) = show_nat n" for n
    by (intro escape_id) (auto dest: show_nat_digits intro: param_char_alnum)
  have h: "host_text (host url) = host url"
    using assms spec_facts(12) by (auto simp: host_text_def uri_plain_def list_all_iff)
  have o: "param_text PARAM_CHAR_SPEC PARAM_CHAR_SPEC (CHR '';'') (other_param url) =
      concat (map (param_item PARAM_CHAR_SPEC (CHR '';'')) (other_param url))"
    using assms by (intro param_text_items) (auto simp: uri_plain_def list_all_iff)
  have n: "ulong_of (port url) = nat (port url)" "0 \<le> ttl_param url \<Longrightarrow> ulong_of (ttl_param url) = nat (ttl_param url)"
    using assms by (simp_all add: ulong_of_def uri_plain_def)
  let ?items = "\<lambda>ps. concat (map (param_item PARAM_CHAR_SPEC (CHR '';'')) ps)"
  have items:
    "?items (if user_param url \<noteq> [] then [(''user'', user_param url)] else []) = opt_text (user_param url \<noteq> []) ('';user='' @ user_param url)"
    "?items (if method_param url \<noteq> [] then [(''method'', method_param url)] else []) =
       opt_text (method_param url \<noteq> []) ('';method='' @ escape PARAM_CHAR_SPEC (method_param url))"
    "?items (if transport_param url \<noteq> [] then [(''transport'', transport_param url)] else []) =
       opt_text (transport_param url \<noteq> []) ('';transport='' @ escape PARAM_CHAR_SPEC (transport_param url))"
    "?items (if ttl_param url \<ge> 0 then [(''ttl'', show_nat (nat (ttl_param url)))] else []) =
       opt_text (ttl_param url \<ge> 0) ('';ttl='' @ show_nat (nat (ttl_param url)))"
    "?items (if maddr_param url \<noteq> [] then [(''maddr'', maddr_param url)] else []) =
       opt_text (maddr_param url \<noteq> []) ('';maddr='' @ escape PARAM_CHAR_SPEC (maddr_param url))"
    "?items (if lr_param url \<noteq> 0 then [(''lr'', [])] else []) = opt_text (lr_param url \<noteq> 0) '';lr''"
    by (simp_all add: param_item_def opt_text_def u t del: escape.simps)
  have maddr: "CHR '':'' \<notin> set (maddr_param url)" using assms by (simp add: uri_plain_def)
  have ttl: "opt_text (ttl_param url \<ge> 0) ('';ttl='' @ show_nat (ulong_of (ttl_param url))) =
      opt_text (ttl_param url \<ge> 0) ('';ttl='' @ show_nat (nat (ttl_param url)))"
    using n(2) by (simp add: opt_text_def)
  have parts: "?items (url_params url) =
      opt_text (user_param url \<noteq> []) ('';user='' @ user_param url) @
      opt_text (method_param url \<noteq> []) ('';method='' @ escape PARAM_CHAR_SPEC (method_param url)) @
      opt_text (transport_param url \<noteq> []) ('';transport='' @ escape PARAM_CHAR_SPEC (transport_param url)) @
      opt_text (ttl_param url \<ge> 0) ('';ttl='' @ show_nat (nat (ttl_param url))) @
      opt_text (maddr_param url \<noteq> []) ('';maddr='' @ escape PARAM_CHAR_SPEC (maddr_param url)) @
      opt_text (lr_param url \<noteq> 0) '';lr'' @ ?items (other_param url)"
    unfolding url_params_def concat.simps map_append concat_append items by simp
  have if_left: "(if x \<in> A then y else z) = z" if "x \<notin> A" for x :: char and A and y z :: string using that by simp
  have contexts: "IN_OTHER \<noteq> IN_FROMTO_HDR" "IN_OTHER \<noteq> IN_ROUTING_HDR" "IN_OTHER \<noteq> IN_CONTACT_HDR" by simp_all
  have left: "sip_uri_text cfg IN_OTHER url =
     (if secure url then ''sips'' else ''sip'') @ '':'' @ user_text cfg url @ host url @ port_text url @
      opt_text (user_param url \<noteq> []) ('';user='' @ user_param url) @
      opt_text (method_param url \<noteq> []) ('';method='' @ escape PARAM_CHAR_SPEC (method_param url)) @
      opt_text (transport_param url \<noteq> []) ('';transport='' @ escape PARAM_CHAR_SPEC (transport_param url)) @
      opt_text (ttl_param url \<ge> 0) ('';ttl='' @ show_nat (nat (ttl_param url))) @
      opt_text (maddr_param url \<noteq> []) ('';maddr='' @ escape PARAM_CHAR_SPEC (maddr_param url)) @
      opt_text (lr_param url \<noteq> 0) '';lr'' @ ?items (other_param url) @
      param_text HDR_CHAR_SPEC HDR_CHAR_SPEC (CHR ''?'') (header_param url)"
    unfolding sip_uri_text_def h o if_left [OF maddr] port_text_def n(1)
    by (simp add: contexts opt_text_def [of True] ttl del: append.simps)
  show ?thesis unfolding left parts by (simp only: append_assoc)
qed

lemma stricmp_names [simp]:
  "\<not> parser_stricmp ''user'' ''user''" "\<not> parser_stricmp ''method'' ''method''" "parser_stricmp ''method'' ''user''"
  "\<not> parser_stricmp ''transport'' ''transport''" "parser_stricmp ''transport'' ''user''" "parser_stricmp ''transport'' ''method''"
  "\<not> parser_stricmp ''ttl'' ''ttl''" "parser_stricmp ''ttl'' ''user''" "parser_stricmp ''ttl'' ''method''" "parser_stricmp ''ttl'' ''transport''"
  "\<not> parser_stricmp ''maddr'' ''maddr''" "parser_stricmp ''maddr'' ''user''" "parser_stricmp ''maddr'' ''method''"
  "parser_stricmp ''maddr'' ''transport''" "parser_stricmp ''maddr'' ''ttl''"
  "\<not> parser_stricmp ''lr'' ''lr''" "parser_stricmp ''user'' ''ttl''" "parser_stricmp ''method'' ''ttl''" "parser_stricmp ''transport'' ''ttl''"
  "parser_stricmp ''maddr'' ''ttl''" "parser_stricmp ''lr'' ''ttl''"
  "\<not> parser_stricmp ''sip'' ''sip''" "parser_stricmp ''sips'' ''sip''" "\<not> parser_stricmp ''sips'' ''sips''"
  by code_simp+

lemma url_param_set_known:
  "v \<noteq> [] \<Longrightarrow> url_param_set url (''user'', v) = url\<lparr>user_param := v\<rparr>"
  "v \<noteq> [] \<Longrightarrow> url_param_set url (''method'', v) = url\<lparr>method_param := v\<rparr>"
  "v \<noteq> [] \<Longrightarrow> url_param_set url (''transport'', v) = url\<lparr>transport_param := v\<rparr>"
  "url_param_set url (''ttl'', show_nat n) = url\<lparr>ttl_param := int n\<rparr>"
  "v \<noteq> [] \<Longrightarrow> url_param_set url (''maddr'', v) = url\<lparr>maddr_param := v\<rparr>"
  "url_param_set url (''lr'', []) = url\<lparr>lr_param := 1\<rparr>"
  by (simp_all add: url_param_set_def digits_val_show_nat)

lemma foldl_other_params:
  "list_all (\<lambda>p. \<not> known_param p) ps \<Longrightarrow> foldl url_param_set url ps = url\<lparr>other_param := other_param url @ ps\<rparr>"
proof (induction ps arbitrary: url)
  case (Cons p ps)
  then have "url_param_set url p = url\<lparr>other_param := other_param url @ [p]\<rparr>"
    by (auto simp: url_param_set_def known_param_def Let_def)
  with Cons show ?case by simp
qed simp

lemma foldl_opt: "foldl f a (if c then [x] else []) = (if c then f a x else a)"
  by simp

definition url_base :: "sip_uri \<Rightarrow> sip_uri" where
  "url_base url = (pjsip_sip_uri_create (secure url))\<lparr>user := user url, passwd := passwd url, host := host url, port := port url\<rparr>"

lemma foldl_url_params:
  assumes "uri_plain url"
  shows "foldl url_param_set (url_base url) (url_params url) = url\<lparr>header_param := []\<rparr>"
proof -
  have o: "list_all (\<lambda>p. \<not> known_param p) (other_param url)" using assms by (auto simp: uri_plain_def list_all_iff)
  have t: "0 \<le> ttl_param url \<or> ttl_param url = -1" and l: "lr_param url = 0 \<or> lr_param url = 1"
    using assms by (auto simp: uri_plain_def)
  have steps:
    "(if user_param url \<noteq> [] then url_param_set u (''user'', user_param url) else u) = (if user_param url \<noteq> [] then u\<lparr>user_param := user_param url\<rparr> else u)"
    "(if method_param url \<noteq> [] then url_param_set u (''method'', method_param url) else u) = (if method_param url \<noteq> [] then u\<lparr>method_param := method_param url\<rparr> else u)"
    "(if transport_param url \<noteq> [] then url_param_set u (''transport'', transport_param url) else u) = (if transport_param url \<noteq> [] then u\<lparr>transport_param := transport_param url\<rparr> else u)"
    "(if ttl_param url \<ge> 0 then url_param_set u (''ttl'', show_nat (nat (ttl_param url))) else u) = (if ttl_param url \<ge> 0 then u\<lparr>ttl_param := ttl_param url\<rparr> else u)"
    "(if maddr_param url \<noteq> [] then url_param_set u (''maddr'', maddr_param url) else u) = (if maddr_param url \<noteq> [] then u\<lparr>maddr_param := maddr_param url\<rparr> else u)"
    "(if lr_param url \<noteq> 0 then url_param_set u (''lr'', []) else u) = (if lr_param url \<noteq> 0 then u\<lparr>lr_param := 1\<rparr> else u)" for u
    by (simp_all add: url_param_set_known)
  have "foldl url_param_set (url_base url) (url_params url) =
      foldl url_param_set ((url_base url)\<lparr>user_param := user_param url, method_param := method_param url,
        transport_param := transport_param url, ttl_param := ttl_param url, maddr_param := maddr_param url, lr_param := lr_param url\<rparr>) (other_param url)"
    unfolding url_params_def concat.simps foldl_append foldl_opt steps
    using t l by (auto simp: url_base_def pjsip_sip_uri_create_def)
  also have "\<dots> = url\<lparr>header_param := []\<rparr>"
    by (subst foldl_other_params [OF o]) (simp add: url_base_def pjsip_sip_uri_create_def)
  finally show ?thesis .
qed

lemma url_params_ok:
  assumes u: "uri_plain url" and p: "p \<in> set (url_params url)"
  shows "param_readable p \<and> ttl_fits p"
proof -
  have digits: "plain (show_nat n)" for n
    using show_nat_digits [of "CHR ''%''" n] by (auto simp: plain_def isdigit_c_def)
  have names: "plain ''user''" "plain ''method''" "plain ''transport''" "plain ''ttl''" "plain ''maddr''" "plain ''lr''" "plain []"
    by (simp_all add: plain_def)
  have other: "param_readable q \<and> ttl_fits q" if q: "q \<in> set (other_param url)" for q
  proof -
    have "param_plain q" "\<not> known_param q" using q u by (auto simp: uri_plain_def list_all_iff)
    then have "param_readable q" "snd q \<noteq> [] \<Longrightarrow> parser_stricmp (fst q) ''ttl''"
      by (auto simp: param_plain_def known_param_def)
    then show ?thesis by (auto simp: ttl_fits_def)
  qed
  show ?thesis
  proof (cases "p \<in> set (other_param url)")
    case False
    have "ttl_param url \<le> 255" using u by (simp add: uri_plain_def)
    then have "nat (ttl_param url) \<le> 255" by simp
    then have "\<exists>n. show_nat (nat (ttl_param url)) = show_nat n \<and> n \<le> 255" by blast
    with False show ?thesis using p u unfolding url_params_def
      by (auto simp: param_readable_def names digits ttl_fits_def uri_plain_def split: if_splits)
  qed (rule other)
qed

text \<open>The parts of the text one after the other; \<open>uri_end\<close> is what may follow a URI.\<close>

definition uri_end :: "char \<Rightarrow> bool" where
  "uri_end c \<longleftrightarrow> c = NUL \<or> c = CHR ''>'' \<or> c = CHR '' '' \<or> c = LF"

lemma uri_end_facts:
  "uri_end c \<Longrightarrow> \<not> PARAM_CHAR_SPEC c \<and> \<not> HDR_CHAR_SPEC c \<and> \<not> HOST_SPEC c \<and> \<not> DIGIT_SPEC c \<and> \<not> PROBE_USER_HOST_SPEC c \<and>
     c \<notin> {CHR ''='', CHR '';'', CHR ''?'', CHR ''&'', CHR '':'', CHR ''@''}"
proof -
  have "list_all (\<lambda>c. \<not> PARAM_CHAR_SPEC c \<and> \<not> HDR_CHAR_SPEC c \<and> \<not> HOST_SPEC c \<and> \<not> DIGIT_SPEC c \<and> \<not> PROBE_USER_HOST_SPEC c \<and>
     c \<notin> {CHR ''='', CHR '';'', CHR ''?'', CHR ''&'', CHR '':'', CHR ''@''}) [NUL, CHR ''>'', CHR '' '', LF]" by code_simp
  then show "uri_end c \<Longrightarrow> ?thesis" by (auto simp: uri_end_def)
qed

definition params_text :: "sip_uri \<Rightarrow> string" where
  "params_text url = concat (map (param_item PARAM_CHAR_SPEC (CHR '';'')) (url_params url))"

definition hparams_text :: "sip_uri \<Rightarrow> string" where
  "hparams_text url = param_text HDR_CHAR_SPEC HDR_CHAR_SPEC (CHR ''?'') (header_param url)"

lemma params_hd: "params_text url \<noteq> [] \<Longrightarrow> hd (params_text url) = CHR '';''"
  unfolding params_text_def by (cases "url_params url") (simp_all add: param_item_def)

lemma hparams_hd: "hparams_text url \<noteq> [] \<Longrightarrow> hd (hparams_text url) = CHR ''?''"
  unfolding hparams_text_def by (cases "header_param url") simp_all

lemma reads_params:
  assumes "uri_plain url"
  shows "reads 0 (\<lambda>c. uri_end c \<or> c = CHR ''?'') (while_do (\<lambda>sc. cur sc = CHR '';'') int_parse_url_param (url_base url))
           (params_text url) (url\<lparr>header_param := []\<rparr>)"
  unfolding params_text_def foldl_url_params [OF assms, symmetric]
proof (rule reads_while)
  fix a p assume "p \<in> set (url_params url)"
  then show "reads 0 (\<lambda>c. \<not> PARAM_CHAR_SPEC c \<and> c \<noteq> CHR ''='' \<and> stops 0 c) (int_parse_url_param a) (param_item PARAM_CHAR_SPEC (CHR '';'') p) (url_param_set a p)"
    using url_params_ok [OF assms] by (intro reads_url_param) auto
qed (auto simp: param_item_def spec_facts stops_def dest: uri_end_facts)

lemma reads_hparams:
  assumes "list_all param_plain (header_param url)"
  shows "reads 0 uri_end (if_p (\<lambda>sc. cur sc = CHR ''?'')
           (seq (int_parse_url_hparam (url\<lparr>header_param := []\<rparr>)) (while_do (\<lambda>sc. cur sc = CHR ''&'') int_parse_url_hparam))
           (ret (url\<lparr>header_param := []\<rparr>))) (hparams_text url) url"
proof (cases "header_param url")
  case Nil
  then have u: "url\<lparr>header_param := []\<rparr> = url" by simp
  show ?thesis unfolding u using Nil
    by (simp add: hparams_text_def) (rule reads_if_end [OF reads_ret, where P = "\<lambda>c. c = CHR ''?''"], auto simp: uri_end_def)
next
  case (Cons p ps)
  then have ok: "param_readable p" "list_all param_readable ps" using assms by (auto simp: param_plain_def list_all_iff)
  have htext: "hparams_text url = param_item HDR_CHAR_SPEC (CHR ''?'') p @ concat (map (param_item HDR_CHAR_SPEC (CHR ''&'')) ps)"
    using assms Cons unfolding hparams_text_def by (simp only: hparam_text_items)
  have fold: "url = foldl hparam_add (hparam_add (url\<lparr>header_param := []\<rparr>) p) ps"
    using Cons by (simp add: foldl_hparam hparam_add_def)
  have "reads 0 uri_end (while_do (\<lambda>sc. cur sc = CHR ''&'') int_parse_url_hparam (hparam_add (url\<lparr>header_param := []\<rparr>) p))
     (concat (map (param_item HDR_CHAR_SPEC (CHR ''&'')) ps)) (foldl hparam_add (hparam_add (url\<lparr>header_param := []\<rparr>) p) ps)"
  proof (rule reads_while)
    fix a q assume "q \<in> set ps"
    then show "reads 0 (\<lambda>c. \<not> HDR_CHAR_SPEC c \<and> c \<noteq> CHR ''='' \<and> stops 0 c) (int_parse_url_hparam a) (param_item HDR_CHAR_SPEC (CHR ''&'') q) (hparam_add a q)"
      using ok by (intro reads_url_hparam) (auto simp: list_all_iff)
  qed (auto simp: param_item_def spec_facts stops_def dest: uri_end_facts)
  then have "reads 0 uri_end (seq (int_parse_url_hparam (url\<lparr>header_param := []\<rparr>)) (while_do (\<lambda>sc. cur sc = CHR ''&'') int_parse_url_hparam))
      (hparams_text url) url"
    unfolding htext fold [symmetric]
    by (intro reads_seq [OF reads_url_hparam [OF ok(1)]])
       (auto simp: spec_facts stops_def dest: uri_end_facts, (cases ps; simp add: param_item_def spec_facts)+)
  then show ?thesis
    by (intro reads_if_left [where P = "\<lambda>c. c = CHR ''?''"]) (simp_all add: htext param_item_def)
qed

lemma probe_specs:
  "PARAM_CHAR_SPEC c \<Longrightarrow> PROBE_USER_HOST_SPEC c" "HDR_CHAR_SPEC c \<Longrightarrow> PROBE_USER_HOST_SPEC c" "HOST_SPEC c \<Longrightarrow> PROBE_USER_HOST_SPEC c"
  "USER_SPEC_LENIENT c \<Longrightarrow> PROBE_USER_HOST_SPEC c" "PASSWD_SPEC c \<Longrightarrow> PROBE_USER_HOST_SPEC c" "DIGIT_SPEC c \<Longrightarrow> PROBE_USER_HOST_SPEC c"
  "\<not> PROBE_USER_HOST_SPEC (CHR ''@'')" "PROBE_USER_HOST_SPEC (CHR '':'')" "PROBE_USER_HOST_SPEC (CHR '';'')"
  "PROBE_USER_HOST_SPEC (CHR ''='')" "PROBE_USER_HOST_SPEC (CHR ''?'')" "PROBE_USER_HOST_SPEC (CHR ''&'')"
proof -
  have "list_all (\<lambda>c. \<not> PARAM_CHAR_SPEC c \<and> \<not> HDR_CHAR_SPEC c \<and> \<not> HOST_SPEC c \<and> \<not> USER_SPEC_LENIENT c \<and> \<not> PASSWD_SPEC c \<and> \<not> DIGIT_SPEC c)
     [NUL, CHR ''@'', CHR '' '', LF, CHR ''>'']" by code_simp
  then show "PARAM_CHAR_SPEC c \<Longrightarrow> PROBE_USER_HOST_SPEC c" "HDR_CHAR_SPEC c \<Longrightarrow> PROBE_USER_HOST_SPEC c" "HOST_SPEC c \<Longrightarrow> PROBE_USER_HOST_SPEC c"
      "USER_SPEC_LENIENT c \<Longrightarrow> PROBE_USER_HOST_SPEC c" "PASSWD_SPEC c \<Longrightarrow> PROBE_USER_HOST_SPEC c" "DIGIT_SPEC c \<Longrightarrow> PROBE_USER_HOST_SPEC c"
    by (auto simp: PROBE_USER_HOST_SPEC_def cis_not_def)
qed code_simp+

lemma is_next_user:
  assumes "sc_eos sc = NUL" and "list_all PROBE_USER_HOST_SPEC t" and "\<not> PROBE_USER_HOST_SPEC (cur_of NUL r)" and "t \<noteq> []" and "sc_rest sc = t @ r"
  shows "int_is_next_user sc = Done (cur_of NUL r = CHR ''@'') sc"
  using assms takeWhile_text [OF assms(2,3)]
  by (simp add: int_is_next_user_def pj_scan_peek_def pj_scan_is_eof_def over_NUL spec_NUL seq_def ret_def)

definition user_spec :: "sip_cfg \<Rightarrow> char \<Rightarrow> bool" where
  "user_spec cfg = (if allow_tx_hash_in_uri cfg then USER_SPEC_LENIENT else USER_SPEC)"

lemma user_spec_props:
  "escaping (user_spec cfg)" "user_spec cfg c \<Longrightarrow> USER_SPEC_LENIENT c" "user_spec cfg c \<Longrightarrow> PROBE_USER_HOST_SPEC c"
proof -
  have "escaping USER_SPEC_LENIENT" by code_simp
  then show "escaping (user_spec cfg)" using escaping_specs(4) by (simp add: user_spec_def)
  show lenient: "user_spec cfg c \<Longrightarrow> USER_SPEC_LENIENT c" by (simp add: user_spec_def USER_SPEC_LENIENT_def split: if_splits)
  show "user_spec cfg c \<Longrightarrow> PROBE_USER_HOST_SPEC c" by (rule probe_specs(4) [OF lenient])
qed

definition user_pass_text :: "sip_cfg \<Rightarrow> sip_uri \<Rightarrow> string" where
  "user_pass_text cfg url = escape (user_spec cfg) (user url) @ opt_text (passwd url \<noteq> []) ('':'' @ escape PASSWD_SPEC (passwd url))"

lemma user_text_pass: "user url \<noteq> [] \<Longrightarrow> user_text cfg url = user_pass_text cfg url @ ''@''"
  by (simp add: user_text_def user_pass_text_def user_spec_def opt_text_def)

lemma user_pass_probe: "list_all PROBE_USER_HOST_SPEC (user_pass_text cfg url)"
  using escape_chars [OF user_spec_props(1), of cfg "user url"] escape_chars [OF escaping_specs(5), of "passwd url"]
  by (auto simp: user_pass_text_def opt_text_def list_all_iff probe_specs intro: user_spec_props(3) probe_specs(5))

lemma reads_user_pass:
  assumes u: "plain (user url)" "user url \<noteq> []" "plain (passwd url)"
  shows "reads 0 (\<lambda>c. True) int_parse_user_pass (user_text cfg url) (user url, passwd url)"
proof -
  have usr: "reads 0 (\<lambda>c. \<not> USER_SPEC_LENIENT c \<and> stops 0 c) (parser_get_and_unescape USER_SPEC_LENIENT) (escape (user_spec cfg) (user url)) (user url)"
    by (rule reads_unescape) (use u user_spec_props spec_NUL in \<open>auto simp: plain_def\<close>)
  have pass: "reads 0 (\<lambda>c. c = CHR ''@'') (if_p (\<lambda>sc. cur sc = CHR '':'') (seq pj_scan_get_char (\<lambda>u. parser_get_and_unescape PASSWD_SPEC)) (ret []))
      (opt_text (passwd url \<noteq> []) ('':'' @ escape PASSWD_SPEC (passwd url))) (passwd url)"
  proof (cases "passwd url = []")
    case True
    then show ?thesis by (simp add: opt_text_def) (rule reads_if_end [OF reads_ret, where P = "\<lambda>c. c = CHR '':''"], simp)
  next
    case False
    have "reads 0 (\<lambda>c. c = CHR ''@'') (parser_get_and_unescape PASSWD_SPEC) (escape PASSWD_SPEC (passwd url)) (passwd url)"
      by (rule reads_weaken, rule reads_unescape [OF escaping_specs(5)])
         (use u False spec_NUL spec_facts in \<open>auto simp: plain_def stops_def\<close>)
    from reads_seq [OF reads_char [of "CHR '':''" 0] this] False
    show ?thesis by (simp add: opt_text_def stops_def) (rule reads_if_left [where P = "\<lambda>c. c = CHR '':''"], simp_all)
  qed
  have at: "reads 0 (\<lambda>c. True) (seq pj_scan_get_char (\<lambda>u. ret (user url, passwd url))) ''@'' (user url, passwd url)"
    by (rule reads_then_ret, rule reads_weaken, rule reads_char) (simp_all add: stops_def)
  have "reads 0 (\<lambda>c. True) int_parse_user_pass
      (escape (user_spec cfg) (user url) @ opt_text (passwd url \<noteq> []) ('':'' @ escape PASSWD_SPEC (passwd url)) @ ''@'') (user url, passwd url)"
    unfolding int_parse_user_pass_def
    by (rule reads_seq [OF usr], rule reads_seq [OF pass], rule at) (auto simp: opt_text_def spec_facts stops_def)
  then show ?thesis using u by (simp add: user_text_pass user_pass_text_def)
qed

lemma reads_host_port:
  assumes "uri_plain url"
  shows "reads 0 (\<lambda>c. uri_end c \<or> c = CHR '';'' \<or> c = CHR ''?'') int_parse_uri_host_port (host url @ port_text url) (host url, port url)"
    (is "reads 0 ?C _ _ _")
proof -
  have h: "host url \<noteq> []" "list_all HOST_SPEC (host url)" and p: "0 \<le> port url" "port url \<le> 65535"
    using assms by (auto simp: uri_plain_def)
  have hd: "HOST_SPEC (hd (host url))" using h by (cases "host url") auto
  have host: "reads 0 (\<lambda>c. \<not> HOST_SPEC c \<and> stops 0 c) int_parse_host (host url) (host url)"
    unfolding int_parse_host_def
    by (rule reads_if_right [where P = "\<lambda>c. c = CHR ''[''"]) (use h hd spec_facts in \<open>auto intro: reads_get [where spec = HOST_SPEC, OF spec_NUL(8)]\<close>)
  have port: "reads 0 ?C (if_p (\<lambda>sc. cur sc = CHR '':'')
         (seq pj_scan_get_char (\<lambda>u. seq (pj_scan_get DIGIT_SPEC) (\<lambda>p. seq (strtoi_validate p 0 PJSIP_MAX_PORT) (\<lambda>n. ret (host url, n)))))
         (ret (host url, 0))) (port_text url) (host url, port url)"
  proof (cases "port url = 0")
    case True
    then show ?thesis
      by (simp add: port_text_def opt_text_def)
         (rule reads_if_end [OF reads_ret, where P = "\<lambda>c. c = CHR '':''"], auto simp: uri_end_def)
  next
    case False
    have "reads 0 ?C (seq (pj_scan_get DIGIT_SPEC) (\<lambda>p. seq (strtoi_validate p 0 PJSIP_MAX_PORT) (\<lambda>n. ret (host url, n)))) (show_nat (nat (port url))) (host url, int (nat (port url)))"
      by (rule reads_weaken, rule reads_number) (use p spec_facts in \<open>auto simp: stops_def dest: uri_end_facts\<close>)
    from reads_seq [OF reads_char [of "CHR '':''" 0] this] False p show ?thesis
      by (simp add: port_text_def opt_text_def stops_def) (rule reads_if_left [where P = "\<lambda>c. c = CHR '':''"], simp_all)
  qed
  show ?thesis unfolding int_parse_uri_host_port_def
    by (rule reads_seq [OF host], rule port) (auto simp: port_text_def opt_text_def spec_facts stops_def dest: uri_end_facts split: if_splits)
qed

text \<open>Without a user the probe runs over the whole text.\<close>

lemma param_item_probe:
  "spec = PARAM_CHAR_SPEC \<or> spec = HDR_CHAR_SPEC \<Longrightarrow> sep \<in> {CHR '';'', CHR ''?'', CHR ''&''} \<Longrightarrow> list_all PROBE_USER_HOST_SPEC (param_item spec sep p)"
  using escape_chars [OF escaping_specs(2)] escape_chars [OF escaping_specs(3)]
  by (auto simp: param_item_def opt_text_def list_all_iff probe_specs(8-12) intro: probe_specs(1,2))

lemma probe_text:
  assumes "uri_plain url"
  shows "list_all PROBE_USER_HOST_SPEC (host url @ port_text url @ params_text url @ hparams_text url)"
proof -
  have "list_all PROBE_USER_HOST_SPEC (host url)" using assms by (auto simp: uri_plain_def list_all_iff intro: probe_specs(3))
  moreover have "list_all PROBE_USER_HOST_SPEC (port_text url)"
    using show_nat_digits [of _ "nat (port url)"] probe_specs(6)
    by (auto simp: port_text_def opt_text_def list_all_iff probe_specs(8) DIGIT_SPEC_def)
  moreover have "list_all PROBE_USER_HOST_SPEC (params_text url)"
    using param_item_probe [of PARAM_CHAR_SPEC "CHR '';''"] by (auto simp: params_text_def list_all_iff)
  moreover have "list_all PROBE_USER_HOST_SPEC (hparams_text url)"
  proof (cases "header_param url")
    case (Cons p ps)
    have "list_all param_plain (p # ps)" using assms Cons by (auto simp: uri_plain_def list_all_iff)
    note items = hparam_text_items [OF this, of HDR_CHAR_SPEC]
    have "list_all PROBE_USER_HOST_SPEC (param_item HDR_CHAR_SPEC (CHR ''?'') p)" "\<And>q. list_all PROBE_USER_HOST_SPEC (param_item HDR_CHAR_SPEC (CHR ''&'') q)"
      by (simp_all add: param_item_probe)
    then show ?thesis unfolding hparams_text_def Cons items by (auto simp: list_all_iff)
  qed (simp add: hparams_text_def)
  ultimately show ?thesis by simp
qed

lemma reads_url_tail:
  assumes "uri_plain url"
  shows "reads 0 uri_end (url_tail True (url_base url)) (params_text url @ hparams_text url) url"
proof -
  have "list_all param_plain (header_param url)" using assms by (simp add: uri_plain_def)
  from reads_hparams [OF this]
  have h: "reads 0 uri_end (if_p (\<lambda>sc. True \<and> cur sc = CHR ''?'')
           (seq (int_parse_url_hparam (url\<lparr>header_param := []\<rparr>)) (while_do (\<lambda>sc. cur sc = CHR ''&'') int_parse_url_hparam))
           (ret (url\<lparr>header_param := []\<rparr>))) (hparams_text url) url" by simp
  show ?thesis unfolding url_tail_def if_True
    by (rule reads_seq [OF reads_params [OF assms]], rule h) (auto dest: hparams_hd)
qed

text \<open>Without parameters it does not matter whether they would be read.\<close>

lemma reads_bare_tail:
  assumes u: "uri_plain url" and b: "b \<or> params_text url = [] \<and> hparams_text url = []"
  shows "reads 0 uri_end (url_tail b (url_base url)) (params_text url @ hparams_text url) url"
proof (cases b)
  case True
  with reads_url_tail [OF u] show ?thesis by simp
next
  case False
  with b have n: "params_text url = []" "hparams_text url = []" by auto
  define sc where "sc = \<lparr>sc_rest = [], sc_eos = NUL, sc_end = 0, sc_line = 1, sc_start_line = 0, sc_skip_ws = 0\<rparr>"
  have "url_tail True (url_base url) (sc\<lparr>sc_rest := []\<rparr>) = Done url (sc\<lparr>sc_rest := []\<rparr>)"
    using readsD [OF reads_url_tail [OF u], of sc "[]"] n by (simp add: sc_def cur_of_def uri_end_def)
  moreover have "url_tail True (url_base url) (sc\<lparr>sc_rest := []\<rparr>) = Done (url_base url) (sc\<lparr>sc_rest := []\<rparr>)"
    by (simp add: url_tail_def seq_def while_do_def cur_of_def sc_def if_p_def ret_def)
  ultimately have "url_base url = url" by simp
  with False n show ?thesis by (simp add: url_tail_def reads_def seq_def ret_def if_p_def)
qed

lemma reads_url_body:
  assumes u: "uri_plain url" and b: "b \<or> params_text url = [] \<and> hparams_text url = []"
  shows "reads 0 uri_end (url_body b (pjsip_sip_uri_create (secure url)))
           (user_text cfg url @ host url @ port_text url @ params_text url @ hparams_text url) url"
proof -
  let ?rest = "host url @ port_text url @ params_text url @ hparams_text url"
  let ?k = "\<lambda>up. case up of (usr, pass) \<Rightarrow> seq int_parse_uri_host_port (\<lambda>(h, p).
       url_tail b ((pjsip_sip_uri_create (secure url))\<lparr>user := usr, passwd := pass, host := h, port := p\<rparr>))"
  have tail: "reads 0 uri_end (url_tail b ((pjsip_sip_uri_create (secure url))\<lparr>user := user url, passwd := passwd url, host := host url, port := port url\<rparr>))
      (params_text url @ hparams_text url) url"
    using reads_bare_tail [OF u b] by (simp add: url_base_def)
  have "reads 0 uri_end (seq int_parse_uri_host_port (\<lambda>(h, p).
       url_tail b ((pjsip_sip_uri_create (secure url))\<lparr>user := user url, passwd := passwd url, host := h, port := p\<rparr>)))
      ((host url @ port_text url) @ params_text url @ hparams_text url) url"
    by (rule reads_seq [OF reads_host_port [OF u]])
       (use tail in \<open>auto simp: params_hd hparams_hd hd_append\<close>)
  then have k: "reads 0 uri_end (?k (user url, passwd url)) ?rest url" by simp
  have host: "host url \<noteq> []" "plain (user url)" "plain (passwd url)" using u by (simp_all add: uri_plain_def)
  show ?thesis
    unfolding reads_def
  proof (intro allI impI)
    fix sc :: scanner and r assume sc: "sc_skip_ws sc = 0" "sc_eos sc = NUL" "uri_end (cur_of NUL r)"
    let ?sc = "sc\<lparr>sc_rest := (user_text cfg url @ ?rest) @ r\<rparr>"
    show "url_body b (pjsip_sip_uri_create (secure url)) ?sc = Done url (sc\<lparr>sc_rest := r\<rparr>)"
    proof (cases "user url = []")
      case True
      then have ut: "user_text cfg url = []" "passwd url = []" using u by (simp_all add: user_text_def opt_text_def uri_plain_def)
      have "int_is_next_user ?sc = Done (cur_of NUL r = CHR ''@'') ?sc"
        using uri_end_facts [OF sc(3)] host ut sc by (intro is_next_user [OF _ probe_text [OF u]]) auto
      moreover have "cur_of NUL r \<noteq> CHR ''@''" using uri_end_facts [OF sc(3)] by auto
      moreover have "?k (user url, passwd url) (sc\<lparr>sc_rest := ?rest @ r\<rparr>) = Done url (sc\<lparr>sc_rest := r\<rparr>)"
        using k sc unfolding reads_def by blast
      ultimately show ?thesis using True ut
        by (simp add: url_body_def seq_def ret_def pjsip_sip_uri_create_def)
    next
      case False
      have ne: "user_pass_text cfg url \<noteq> []" using False by (simp add: user_pass_text_def)
      have "int_is_next_user ?sc = Done (cur_of NUL (''@'' @ ?rest @ r) = CHR ''@'') ?sc"
        using sc ne False by (intro is_next_user [OF _ user_pass_probe [of cfg url]]) (auto simp: user_text_pass probe_specs(7))
      then have "int_is_next_user ?sc = Done True ?sc" by simp
      moreover have "seq int_parse_user_pass ?k ?sc = Done url (sc\<lparr>sc_rest := r\<rparr>)"
        using reads_seq [where f = ?k, OF reads_user_pass [OF host(2) False host(3), of cfg], OF k] sc
        unfolding reads_def by blast
      ultimately show ?thesis by (simp add: url_body_def seq_def)
    qed
  qed
qed

lemma seq_assoc: "seq (seq p f) g = seq p (\<lambda>a. seq (f a) g)"
  by (rule ext) (simp add: seq_def split: outcome.split)

lemma scheme_facts:
  "list_all TOKEN_SPEC ''sip''" "list_all TOKEN_SPEC ''sips''" "list_all DISPLAY_SPEC ''sip''" "list_all DISPLAY_SPEC ''sips''"
  "\<not> DISPLAY_SPEC (CHR '':'')"
  by code_simp+

lemma parse_sip_url:
  assumes u: "uri_plain url" and e: "sc_eos sc = NUL" and r: "uri_end (cur_of NUL r)"
    and b: "b \<or> params_text url = [] \<and> hparams_text url = []"
  shows "int_parse_sip_url b (sc\<lparr>sc_rest := sip_uri_text cfg IN_OTHER url @ r\<rparr>) =
         seq pj_scan_skip_whitespace (\<lambda>u. ret (UriSip url)) (sc\<lparr>sc_rest := r\<rparr>)"
proof -
  let ?scheme = "if secure url then ''sips'' else ''sip''"
  let ?rest = "user_text cfg url @ host url @ port_text url @ params_text url @ hparams_text url"
  let ?create = "\<lambda>scheme. if \<not> parser_stricmp scheme ''sip'' then ret (pjsip_sip_uri_create False)
              else if \<not> parser_stricmp scheme ''sips'' then ret (pjsip_sip_uri_create True)
              else throw SynErr"
  have whole: "sip_uri_text cfg IN_OTHER url = ?scheme @ '':'' @ ?rest"
    using uri_text_items [OF u] by (simp add: params_text_def hparams_text_def)
  have ne: "?rest \<noteq> []" using u by (simp add: uri_plain_def)
  have create: "?create ?scheme = ret (pjsip_sip_uri_create (secure url))" by simp
  have body: "reads 0 uri_end (seq (?create ?scheme) (\<lambda>url. url_body b url)) ?rest url"
    using reads_url_body [OF u b, of cfg] unfolding create by (simp add: reads_def seq_def ret_def)
  have colon: "reads 0 uri_end (seq pj_scan_get_char (\<lambda>colon. if colon \<noteq> CHR '':'' then throw SynErr
      else seq (?create ?scheme) (\<lambda>url. url_body b url))) ('':'' @ ?rest) url"
    by (rule reads_seq [OF reads_char]) (use body ne in \<open>simp_all add: stops_def\<close>)
  have tok: "list_all TOKEN_SPEC ?scheme" "?scheme \<noteq> []" using scheme_facts by auto
  let ?p = "seq (pj_scan_get TOKEN_SPEC) (\<lambda>scheme. seq pj_scan_get_char (\<lambda>colon. if colon \<noteq> CHR '':'' then throw SynErr
      else seq (?create scheme) (\<lambda>url. url_body b url)))"
  have "reads 0 uri_end ?p (?scheme @ '':'' @ ?rest) url"
    by (rule reads_seq [OF reads_get [OF spec_NUL(1) tok]], rule colon) (simp_all add: spec_facts stops_def)
  then have inner: "?p (sc\<lparr>sc_rest := sip_uri_text cfg IN_OTHER url @ r, sc_skip_ws := 0\<rparr>) = Done url (sc\<lparr>sc_rest := r, sc_skip_ws := 0\<rparr>)"
    unfolding whole using e r readsD [of 0 uri_end ?p "?scheme @ '':'' @ ?rest" url "sc\<lparr>sc_rest := (?scheme @ '':'' @ ?rest) @ r, sc_skip_ws := 0\<rparr>" r]
    by simp
  have "int_parse_sip_url b = seq get_skip_ws (\<lambda>skip. seq (set_skip_ws 0) (\<lambda>u. seq ?p (\<lambda>url.
      seq (set_skip_ws skip) (\<lambda>u. seq pj_scan_skip_whitespace (\<lambda>u. ret (UriSip url))))))"
    unfolding int_parse_sip_url_def seq_assoc by (intro arg_cong2 [where f = seq] ext refl) (simp add: seq_def throw_def fun_eq_iff split: outcome.split)
  then show ?thesis
    using inner by (simp add: seq_def [of get_skip_ws] get_skip_ws_def seq_def [of "set_skip_ws _"] set_skip_ws_def seq_def [of ?p])
qed

lemma skip_whitespace_stops:
  "sc_eos sc = NUL \<Longrightarrow> \<not> PJ_SCAN_IS_SPACE (cur sc) \<Longrightarrow> \<not> PJ_SCAN_IS_NEWLINE (cur sc) \<Longrightarrow> pj_scan_skip_whitespace sc = Done () sc"
  by (cases "sc_rest sc") (auto simp: pj_scan_skip_whitespace_def over_def)

lemma skip_whitespace_blank:
  assumes "sc_eos sc = NUL" and "\<not> PJ_SCAN_IS_SPACE (cur_of NUL r)" and "\<not> PJ_SCAN_IS_NEWLINE (cur_of NUL r)"
  shows "pj_scan_skip_whitespace (sc\<lparr>sc_rest := CHR '' '' # r\<rparr>) = Done () (sc\<lparr>sc_rest := r\<rparr>)"
proof -
  have "over PJ_SCAN_IS_SPACE NUL (CHR '' '' # r) = Inr r"
    using assms(2) by (cases r) (auto simp: over_def, simp_all add: PJ_SCAN_IS_SPACE_def)
  with assms show ?thesis by (simp add: pj_scan_skip_whitespace_def)
qed

text \<open>A table of parsers in which SIP URIs have theirs.\<close>

definition sip_handlers :: "uri_handlers \<Rightarrow> bool" where
  "sip_handlers uh \<longleftrightarrow> find_uri_handler uh ''sip'' = int_parse_sip_url \<and> find_uri_handler uh ''sips'' = int_parse_sip_url"

lemma endpt_sip_handlers: "sip_handlers (endpt_uri_handlers tel)"
  by (simp add: sip_handlers_def endpt_uri_handlers_def)

lemma url_text_scheme:
  assumes "uri_plain url"
  obtains u where "sip_uri_text cfg IN_OTHER url = (if secure url then ''sips'' else ''sip'') @ CHR '':'' # u"
  using uri_text_items [OF assms] by (metis append_Cons append_Nil)

lemma peek_scheme:
  assumes "list_all spec (if b then ''sips'' else ''sip'')" and "\<not> spec (CHR '':'')" and "\<not> spec NUL"
    and "sc_eos sc = NUL" and "sc_rest sc = (if b then ''sips'' else ''sip'') @ CHR '':'' # u"
  shows "pj_scan_peek spec sc = Done (CHR '':'', if b then ''sips'' else ''sip'') sc"
proof -
  have "\<not> spec (cur_of NUL (CHR '':'' # u))" using assms(2) by simp
  from takeWhile_text [OF assms(1) this] assms(3-) show ?thesis
    by (simp add: pj_scan_peek_def pj_scan_is_eof_def over_NUL)
qed

lemma parse_uri_at:
  assumes uh: "sip_handlers uh" and u: "uri_plain url" and e: "sc_eos sc = NUL" and r: "uri_end (cur_of NUL r)"
  shows "int_parse_uri uh True (sc\<lparr>sc_rest := sip_uri_text cfg IN_OTHER url @ r\<rparr>) =
         seq pj_scan_skip_whitespace (\<lambda>u. ret (UriSip url)) (sc\<lparr>sc_rest := r\<rparr>)"
proof -
  obtain v where v: "sip_uri_text cfg IN_OTHER url = (if secure url then ''sips'' else ''sip'') @ CHR '':'' # v"
    by (rule url_text_scheme [OF u])
  let ?sc = "sc\<lparr>sc_rest := sip_uri_text cfg IN_OTHER url @ r\<rparr>"
  have "pj_scan_peek TOKEN_SPEC ?sc = Done (CHR '':'', if secure url then ''sips'' else ''sip'') ?sc"
    by (rule peek_scheme [of _ _ _ "v @ r"]) (use scheme_facts spec_NUL(1) spec_facts(8) e v in auto)
  moreover have "find_uri_handler uh (if secure url then ''sips'' else ''sip'') = int_parse_sip_url"
    using uh by (simp add: sip_handlers_def)
  ultimately show ?thesis using parse_sip_url [OF u e r, of True cfg]
    by (simp add: int_parse_uri_def seq_def [of "pj_scan_peek _"])
qed

lemma uri_text_start:
  assumes "uri_plain url"
  shows "sip_uri_text cfg IN_OTHER url \<noteq> []" "hd (sip_uri_text cfg IN_OTHER url) = CHR ''s''"
proof -
  obtain v where "sip_uri_text cfg IN_OTHER url = (if secure url then ''sips'' else ''sip'') @ CHR '':'' # v"
    by (rule url_text_scheme [OF assms])
  then show "sip_uri_text cfg IN_OTHER url \<noteq> []" "hd (sip_uri_text cfg IN_OTHER url) = CHR ''s''" by auto
qed

text \<open>A display name that needs no escapes between its quotes.\<close>

definition display_plain :: "string \<Rightarrow> bool" where
  "display_plain d \<longleftrightarrow> CHR 0x22 \<notin> set d \<and> CHR 0x5C \<notin> set d \<and> LF \<notin> set d"

definition display_text :: "string \<Rightarrow> string" where
  "display_text d = opt_text (d \<noteq> []) ([CHR 0x22] @ d @ [CHR 0x22, CHR '' ''])"

lemma quote_loop_plain:
  "display_plain d \<Longrightarrow> hd acc \<noteq> CHR 0x5C \<Longrightarrow>
   quote_loop (CHR 0x22) e acc (d @ CHR 0x22 # r) = Inr (Some (rev acc @ d @ [CHR 0x22], r))"
  by (induction d arbitrary: acc) (auto simp: display_plain_def)

lemma get_quote_plain:
  assumes "sc_eos sc = NUL" and "display_plain d" and "stops (sc_skip_ws sc) (cur_of NUL r)"
  shows "pj_scan_get_quote (CHR 0x22) (CHR 0x22) (sc\<lparr>sc_rest := [CHR 0x22] @ d @ [CHR 0x22] @ r\<rparr>) =
         Done ([CHR 0x22] @ d @ [CHR 0x22]) (sc\<lparr>sc_rest := r\<rparr>)"
  using assms take_token_stops [of "sc\<lparr>sc_rest := [CHR 0x22] @ d @ [CHR 0x22] @ r\<rparr>" r "[CHR 0x22] @ d @ [CHR 0x22]"]
    quote_loop_plain [OF assms(2), of "[CHR 0x22]" NUL r]
  by (simp add: pj_scan_get_quote_def pj_scan_get_quotes_def)

lemma probably_blank: "PJ_SCAN_IS_PROBABLY_SPACE (CHR '' '')"
  by code_simp

text \<open>With the flags set the blank behind the closing quote goes with the quote, without them it is skipped after it.\<close>

lemma get_quote_blank:
  assumes e: "sc_eos sc = NUL" and d: "display_plain d" and k: "sc_skip_ws sc \<in> {0, 3}"
  shows "seq (seq (pj_scan_get_quote (CHR 0x22) (CHR 0x22)) (\<lambda>v. ret (butlast (tl v)))) (\<lambda>v. seq pj_scan_skip_whitespace (\<lambda>u. f v))
           (sc\<lparr>sc_rest := [CHR 0x22] @ d @ [CHR 0x22, CHR '' ''] @ CHR ''<'' # r\<rparr>) = f d (sc\<lparr>sc_rest := CHR ''<'' # r\<rparr>)"
proof -
  let ?sc = "sc\<lparr>sc_rest := [CHR 0x22] @ d @ [CHR 0x22, CHR '' ''] @ CHR ''<'' # r\<rparr>"
  let ?out = "[CHR 0x22] @ d @ [CHR 0x22]"
  have ws: "pj_scan_skip_whitespace (sc\<lparr>sc_rest := CHR '' '' # CHR ''<'' # r\<rparr>) = Done () (sc\<lparr>sc_rest := CHR ''<'' # r\<rparr>)"
    by (rule skip_whitespace_blank) (use e in \<open>simp_all add: PJ_SCAN_IS_SPACE_def PJ_SCAN_IS_NEWLINE_def\<close>)
  have ws2: "pj_scan_skip_whitespace (sc\<lparr>sc_rest := CHR ''<'' # r\<rparr>) = Done () (sc\<lparr>sc_rest := CHR ''<'' # r\<rparr>)"
    by (rule skip_whitespace_stops) (use e in \<open>simp_all add: PJ_SCAN_IS_SPACE_def PJ_SCAN_IS_NEWLINE_def\<close>)
  have tok: "pj_scan_get_quote (CHR 0x22) (CHR 0x22) ?sc = take_token ?out (CHR '' '' # CHR ''<'' # r) ?sc"
    using e quote_loop_plain [OF d, of "[CHR 0x22]" NUL "CHR '' '' # CHR ''<'' # r"]
    by (simp add: pj_scan_get_quote_def pj_scan_get_quotes_def)
  have "take_token ?out (CHR '' '' # CHR ''<'' # r) ?sc =
      Done ?out (sc\<lparr>sc_rest := if sc_skip_ws sc = 0 then CHR '' '' # CHR ''<'' # r else CHR ''<'' # r\<rparr>)"
    using k ws probably_blank by (auto simp: take_token_def skip_set_def skip_after_def seq_def ret_def)
  with tok have "pj_scan_get_quote (CHR 0x22) (CHR 0x22) ?sc =
      Done ?out (sc\<lparr>sc_rest := if sc_skip_ws sc = 0 then CHR '' '' # CHR ''<'' # r else CHR ''<'' # r\<rparr>)" by simp
  then show ?thesis using ws ws2 by (simp add: seq_def ret_def butlast_append split: if_split)
qed

lemma parse_name_addr:
  assumes uh: "sip_handlers uh" and u: "uri_plain url" and d: "display_plain d" and e: "sc_eos sc = NUL"
    and k: "sc_skip_ws sc \<in> {0, 3}" and r: "stops (sc_skip_ws sc) (cur_of NUL r)"
  shows "int_parse_name_addr uh (sc\<lparr>sc_rest := display_text d @ ''<'' @ sip_uri_text cfg IN_OTHER url @ ''>'' @ r\<rparr>) =
         Done (d, UriSip url) (sc\<lparr>sc_rest := r\<rparr>)"
proof -
  let ?T = "sip_uri_text cfg IN_OTHER url"
  let ?rest = "\<lambda>display. if_p (\<lambda>sc. cur sc = CHR ''<'')
         (seq pj_scan_get_char (\<lambda>u.
          seq (int_parse_uri uh True) (\<lambda>uri.
          seq pj_scan_get_char (\<lambda>c. if c \<noteq> CHR ''>'' then throw SynErr else ret (display, uri)))))
         (if display \<noteq> [] then throw SynErr
          else seq (int_parse_uri uh True) (\<lambda>uri. ret (display, uri)))"
  have gt: "pj_scan_skip_whitespace (sc\<lparr>sc_rest := ''>'' @ r\<rparr>) = Done () (sc\<lparr>sc_rest := ''>'' @ r\<rparr>)"
    by (rule skip_whitespace_stops) (use e in \<open>simp_all add: PJ_SCAN_IS_SPACE_def PJ_SCAN_IS_NEWLINE_def\<close>)
  have uri: "int_parse_uri uh True (sc\<lparr>sc_rest := ?T @ ''>'' @ r\<rparr>) = Done (UriSip url) (sc\<lparr>sc_rest := ''>'' @ r\<rparr>)"
    using parse_uri_at [OF uh u e, of "''>'' @ r" cfg] gt by (simp add: uri_end_def seq_def ret_def)
  have close: "pj_scan_get_char (sc\<lparr>sc_rest := ''>'' @ r\<rparr>) = Done (CHR ''>'') (sc\<lparr>sc_rest := r\<rparr>)"
    using reads_char [of "CHR ''>''" "sc_skip_ws sc"] e r unfolding reads_def by simp
  have open_b: "pj_scan_get_char (sc\<lparr>sc_rest := ''<'' @ ?T @ ''>'' @ r\<rparr>) = Done (CHR ''<'') (sc\<lparr>sc_rest := ?T @ ''>'' @ r\<rparr>)"
    using reads_char [of "CHR ''<''" "sc_skip_ws sc"] e uri_text_start [OF u, of cfg] unfolding reads_def
    by (simp add: stops_def PJ_SCAN_IS_SPACE_def PJ_SCAN_IS_NEWLINE_def)
  have rest: "?rest v (sc\<lparr>sc_rest := ''<'' @ ?T @ ''>'' @ r\<rparr>) = Done (v, UriSip url) (sc\<lparr>sc_rest := r\<rparr>)" for v
    using open_b uri close e by (simp add: if_p_def seq_def ret_def)
  show ?thesis
  proof (cases "d = []")
    case True
    have ws: "pj_scan_skip_whitespace (sc\<lparr>sc_rest := ''<'' @ ?T @ ''>'' @ r\<rparr>) = Done () (sc\<lparr>sc_rest := ''<'' @ ?T @ ''>'' @ r\<rparr>)"
      by (rule skip_whitespace_stops) (use e in \<open>simp_all add: PJ_SCAN_IS_SPACE_def PJ_SCAN_IS_NEWLINE_def\<close>)
    with rest [of "[]"] True e show ?thesis
      by (simp add: int_parse_name_addr_def display_text_def opt_text_def seq_def [of "if_p _ _ _"] seq_def [of pj_scan_skip_whitespace]
        if_p_def [of "\<lambda>sc. cur sc = CHR 0x22"] if_p_def [of "\<lambda>sc. cur sc \<noteq> CHR ''<''"] ret_def)
  next
    case False
    let ?q = "seq (pj_scan_get_quote (CHR 0x22) (CHR 0x22)) (\<lambda>v. ret (butlast (tl v)))"
    have "int_parse_name_addr uh (sc\<lparr>sc_rest := display_text d @ ''<'' @ ?T @ ''>'' @ r\<rparr>) =
        seq ?q (\<lambda>v. seq pj_scan_skip_whitespace (\<lambda>u. ?rest v)) (sc\<lparr>sc_rest := [CHR 0x22] @ d @ [CHR 0x22, CHR '' ''] @ CHR ''<'' # ?T @ ''>'' @ r\<rparr>)"
      using False e by (simp add: int_parse_name_addr_def display_text_def opt_text_def if_p_def [of "\<lambda>sc. cur sc = CHR 0x22"] seq_def [of "if_p _ _ _"] seq_def [of ?q])
    also have "\<dots> = ?rest d (sc\<lparr>sc_rest := CHR ''<'' # ?T @ ''>'' @ r\<rparr>)" by (rule get_quote_blank [OF e d k])
    also have "\<dots> = Done (d, UriSip url) (sc\<lparr>sc_rest := r\<rparr>)" using rest [of d] by simp
    finally show ?thesis .
  qed
qed

section \<open>Properties\<close>

lemma endpt_uris_run: "(\<And>b. runs 0 (tel b)) \<Longrightarrow> uris_run (endpt_uri_handlers tel)"
  by (auto simp: uris_run_def endpt_uri_handlers_def intro: runs_sip_url)

text \<open>
  Parsing any text as a URI comes to an end with a URI or with none: no loop spins, nothing is read
  behind the terminating NUL, no assertion fails, and nothing is thrown to the caller; the parser of
  \<open>tel:\<close> is assumed to keep to that.
\<close>

theorem parse_uri_returns:
  assumes "\<And>b. runs 0 (tel b)"
  shows "\<exists>uri sc. pjsip_parse_uri (endpt_uri_handlers tel) buf as_nameaddr in_fromto = Done uri sc \<and> suffix (sc_rest sc) buf"
proof -
  have uh: "uris_run (endpt_uri_handlers tel)" using assms by (rule endpt_uris_run)
  define sc where "sc = \<lparr>sc_rest = buf, sc_eos = NUL, sc_end = length buf, sc_line = 1, sc_start_line = 0, sc_skip_ws = 0\<rparr>"
  have wf: "sc_wf sc" by (simp add: sc_wf_def sc_def)
  obtain uri sc' where "try_p (int_parse_uri_or_name_addr (endpt_uri_handlers tel) as_nameaddr in_fromto) sc = Done uri sc'" "steps 0 sc sc'"
    using try_p_done [OF runs_uri_or_name_addr [OF uh] wf] by blast
  then show ?thesis
    by (simp add: pjsip_parse_uri_def on_buffer_def pj_scan_init_def skip_set_def sc_def [symmetric] seq_def if_p_def ret_def)
       (auto simp: steps_def sc_def)
qed

theorem parse_uri_returns_witness:
  "\<exists>uri sc. pjsip_parse_uri (endpt_uri_handlers int_parse_other_uri) ''sip:34020000@'' False False = Done uri sc \<and>
     suffix (sc_rest sc) ''sip:34020000@''"
  by (rule parse_uri_returns) (rule runs_other_uri)

lemma uri_text_parsed:
  assumes u: "uri_plain url" and d: "display_plain d"
  shows "(\<exists>sc. pjsip_parse_uri (endpt_uri_handlers tel) (sip_uri_text cfg IN_OTHER url) False False = Done (Some (UriSip url)) sc) \<and>
         (\<exists>sc. pjsip_parse_uri (endpt_uri_handlers tel) (display_text d @ ''<'' @ sip_uri_text cfg IN_OTHER url @ ''>'') True False =
            Done (Some (UriNameAddr d (Some (UriSip url)))) sc)"
proof -
  let ?T = "sip_uri_text cfg IN_OTHER url"
  note uh = endpt_sip_handlers [of tel]
  define out' where "out' = display_text d @ ''<'' @ ?T @ ''>''"
  define sc where "sc s = \<lparr>sc_rest = s, sc_eos = NUL, sc_end = length s, sc_line = 1, sc_start_line = 0, sc_skip_ws = 0\<rparr>" for s
  have sc [simp]: "sc_rest (sc s) = s" "sc_eos (sc s) = NUL" "sc_skip_ws (sc s) = 0" "(sc s)\<lparr>sc_rest := s\<rparr> = sc s" for s by (simp_all add: sc_def)
  have entry: "pjsip_parse_uri h s a b = (if_p (\<lambda>sc. pj_scan_is_eof sc \<or> PJ_SCAN_IS_NEWLINE (cur sc)) (ret (Some v)) (ret None)) sc'"
    if "int_parse_uri_or_name_addr h a b (sc s) = Done v sc'" for h s a b v sc'
    using that by (simp add: pjsip_parse_uri_def on_buffer_def pj_scan_init_def skip_set_def sc_def seq_def try_p_def)
  have ws: "pj_scan_skip_whitespace (sc s) = Done () (sc s)" if "s \<noteq> []" "hd s \<in> {CHR ''s'', CHR ''<'', CHR 0x22}" for s
    by (rule skip_whitespace_stops) (use that in \<open>cases s; auto simp: PJ_SCAN_IS_SPACE_def PJ_SCAN_IS_NEWLINE_def\<close>)+
  obtain v where v: "?T = (if secure url then ''sips'' else ''sip'') @ CHR '':'' # v" by (rule url_text_scheme [OF u])
  have peek: "pj_scan_peek DISPLAY_SPEC (sc ?T) = Done (CHR '':'', if secure url then ''sips'' else ''sip'') (sc ?T)"
    by (rule peek_scheme [of _ _ _ v]) (use v scheme_facts spec_NUL(10) in auto)
  have cur_s: "cur_of NUL ?T = CHR ''s''" using uri_text_start [OF u, of cfg] by (cases ?T) auto
  have fin: "pj_scan_skip_whitespace ((sc ?T)\<lparr>sc_rest := []\<rparr>) = Done () ((sc ?T)\<lparr>sc_rest := []\<rparr>)"
    by (rule skip_whitespace_stops) (simp_all add: cur_of_def)
  have "int_parse_sip_url True (sc ?T) = Done (UriSip url) ((sc ?T)\<lparr>sc_rest := []\<rparr>)"
    using parse_sip_url [OF u, of "sc ?T" "[]" True cfg] fin by (simp add: uri_end_def cur_of_def seq_def ret_def)
  then have "int_parse_uri_or_name_addr (endpt_uri_handlers tel) False False (sc ?T) = Done (UriSip url) ((sc ?T)\<lparr>sc_rest := []\<rparr>)"
    using ws [of ?T] uri_text_start [OF u, of cfg] peek uh
    by (simp add: int_parse_uri_or_name_addr_def seq_def if_p_def ret_def cur_s sip_handlers_def)
  from entry [OF this] have first: "\<exists>sc. pjsip_parse_uri (endpt_uri_handlers tel) ?T False False = Done (Some (UriSip url)) sc"
    by (simp add: if_p_def pj_scan_is_eof_def ret_def)
  have hd: "out' \<noteq> []" "hd out' \<in> {CHR ''<'', CHR 0x22}" by (simp_all add: out'_def display_text_def opt_text_def)
  have "int_parse_name_addr (endpt_uri_handlers tel) (sc out') = Done (d, UriSip url) ((sc out')\<lparr>sc_rest := []\<rparr>)"
    using parse_name_addr [OF uh u d, of "sc out'" "[]" cfg] by (simp add: out'_def stops_def cur_of_def sc_def)
  then have "int_parse_uri_or_name_addr (endpt_uri_handlers tel) True False (sc out') = Done (UriNameAddr d (Some (UriSip url))) ((sc out')\<lparr>sc_rest := []\<rparr>)"
    using ws [of out'] hd by (cases out') (auto simp: int_parse_uri_or_name_addr_def seq_def if_p_def ret_def name_addr_of_def)
  from entry [OF this] have "\<exists>sc. pjsip_parse_uri (endpt_uri_handlers tel) out' True False = Done (Some (UriNameAddr d (Some (UriSip url)))) sc"
    by (simp add: if_p_def pj_scan_is_eof_def ret_def)
  with first show ?thesis by (simp add: out'_def)
qed

text \<open>A URI without parameters as the only value of a header: it becomes a name-addr.\<close>

lemma bare_uri_parsed:
  assumes uh: "sip_handlers uh" and u: "uri_plain url" and bare: "params_text url = []" "hparams_text url = []"
    and sc: "sc_eos sc = NUL" "sc_rest sc = sip_uri_text cfg IN_OTHER url"
  shows "int_parse_uri_or_name_addr uh True True sc = Done (UriNameAddr [] (Some (UriSip url))) (sc\<lparr>sc_rest := []\<rparr>)"
proof -
  obtain v where v: "sip_uri_text cfg IN_OTHER url = (if secure url then ''sips'' else ''sip'') @ CHR '':'' # v" by (rule url_text_scheme [OF u])
  have peek: "pj_scan_peek DISPLAY_SPEC sc = Done (CHR '':'', if secure url then ''sips'' else ''sip'') sc"
    by (rule peek_scheme [of _ _ _ v]) (use v sc scheme_facts spec_NUL(10) in auto)
  have cur_s: "cur sc = CHR ''s''" using v sc by (simp add: cur_of_def)
  have ws: "pj_scan_skip_whitespace sc = Done () sc"
    by (rule skip_whitespace_stops) (use sc cur_s in \<open>simp_all add: PJ_SCAN_IS_SPACE_def PJ_SCAN_IS_NEWLINE_def\<close>)
  have fin: "pj_scan_skip_whitespace (sc\<lparr>sc_rest := []\<rparr>) = Done () (sc\<lparr>sc_rest := []\<rparr>)"
    by (rule skip_whitespace_stops) (use sc in \<open>simp_all add: cur_of_def PJ_SCAN_IS_SPACE_def PJ_SCAN_IS_NEWLINE_def\<close>)
  have "sc\<lparr>sc_rest := sip_uri_text cfg IN_OTHER url\<rparr> = sc" using sc(2) by (metis scanner.surjective scanner.update_convs(1))
  then have "int_parse_sip_url False sc = Done (UriSip url) (sc\<lparr>sc_rest := []\<rparr>)"
    using parse_sip_url [OF u sc(1), of "[]" False cfg] bare fin by (simp add: uri_end_def cur_of_def seq_def ret_def)
  then show ?thesis using ws peek uh cur_s
    by (simp add: int_parse_uri_or_name_addr_def seq_def if_p_def ret_def sip_handlers_def)
qed

text \<open>
  C39: What \<open>pjsip_uri_print\<close> prints of a plain SIP URI, \<open>pjsip_parse_uri\<close> reads back as the same URI, with
  all its parameters, and as the same name-addr when it is printed with a plain display name. Plain
  (\<open>uri_plain\<close>, \<open>display_plain\<close>) means: no percent sign in user, password or parameters, which would be printed
  as it is and read as an escape; a host of the characters of a name or an IPv4 address, not IPv6; a
  password only behind a user; port, \<open>ttl\<close> and \<open>lr\<close> in their ranges; a \<open>maddr\<close> without colon; a \<open>user\<close>
  parameter that needs no escape; other parameters with unquoted values and names that are not those of
  the fields; no quote, backslash or line feed in the display name.
\<close>

theorem uri_reads_back:
  assumes u: "uri_plain url" and d: "display_plain d"
    and printed: "pjsip_uri_print cfg IN_OTHER (UriSip url) cap [] = Inr (Some out)"
    and printed_n: "pjsip_uri_print cfg IN_OTHER (UriNameAddr d (Some (UriSip url))) cap [] = Inr (Some out')"
  shows "(\<exists>sc. pjsip_parse_uri (endpt_uri_handlers tel) out False False = Done (Some (UriSip url)) sc) \<and>
         (\<exists>sc. pjsip_parse_uri (endpt_uri_handlers tel) out' True False = Done (Some (UriNameAddr d (Some (UriSip url)))) sc)"
proof -
  have ok: "uri_ok (UriSip url)" using u by (simp add: uri_plain_def)
  then have ok_n: "uri_ok (UriNameAddr d (Some (UriSip url)))" by simp
  have "out = sip_uri_text cfg IN_OTHER url" using prints_out [OF prints_uri [OF ok] printed] by (simp add: uri_text_def)
  moreover have "out' = display_text d @ ''<'' @ sip_uri_text cfg IN_OTHER url @ ''>''"
    using prints_out [OF prints_uri [OF ok_n] printed_n] by (simp add: uri_text_def display_text_def opt_text_def)
  ultimately show ?thesis using uri_text_parsed [OF u d, of tel cfg] by simp
qed

lemma sample_url_plain: "uri_plain sample_url"
proof -
  have "list_all HOST_SPEC ''10.64.49.44''" "\<not> known_param (''x'', ''a b'')" by code_simp+
  then show ?thesis
    by (simp add: uri_plain_def sample_url_def pjsip_sip_uri_create_def plain_def param_plain_def param_readable_def)
qed

lemma sample_url_bare: "uri_text default_cfg IN_OTHER (UriSip sample_url) = ''sip:1000@10.64.49.44:7101;transport=tcp;lr;x=a%20b''"
  using sample_url_text by (simp add: uri_text_def opt_text_def)

theorem uri_reads_back_witness:
  "\<exists>out out'. pjsip_uri_print default_cfg IN_OTHER (UriSip sample_url) 120 [] = Inr (Some out) \<and>
     pjsip_uri_print default_cfg IN_OTHER (UriNameAddr ''cam'' (Some (UriSip sample_url))) 120 [] = Inr (Some out') \<and>
     (\<exists>sc. pjsip_parse_uri (endpt_uri_handlers int_parse_other_uri) out False False = Done (Some (UriSip sample_url)) sc) \<and>
     (\<exists>sc. pjsip_parse_uri (endpt_uri_handlers int_parse_other_uri) out' True False =
        Done (Some (UriNameAddr ''cam'' (Some (UriSip sample_url)))) sc)"
proof -
  have ok: "uri_ok (UriSip sample_url)" "uri_ok (UriNameAddr ''cam'' (Some (UriSip sample_url)))"
    by (simp_all add: sample_url_def pjsip_sip_uri_create_def)
  obtain out where out: "pjsip_uri_print default_cfg IN_OTHER (UriSip sample_url) 120 [] = Inr (Some out)"
    using prints_fits [OF prints_uri [OF ok(1)], of "[]" default_cfg IN_OTHER 120] by (auto simp: sample_url_bare)
  obtain out' where out': "pjsip_uri_print default_cfg IN_OTHER (UriNameAddr ''cam'' (Some (UriSip sample_url))) 120 [] = Inr (Some out')"
    using prints_fits [OF prints_uri [OF ok(2)], of "[]" default_cfg IN_OTHER 120] by (auto simp: sample_url_text)
  have "display_plain ''cam''" by (simp add: display_plain_def)
  from uri_reads_back [OF sample_url_plain this out out', of int_parse_other_uri] out out' show ?thesis by blast
qed

end
