(* ===== verification/HdrParser.thy ===== *)
theory HdrParser
  imports UriParser Hash SipMsg
begin

text \<open>
  The parsing of SIP headers (\<open>3rd/src/pjsip/sip_parser.c\<close>): the parser of each header, and the table
  that finds it by the name of the header. The four headers of \<open>sip_auth_parser.c\<close> are entries of the
  table whose parser is a parameter. What the parsers note in the received message
  (\<open>rdata->msg_info\<close>) are the indices their headers get in the message.
\<close>

section \<open>What the parsers note\<close>

text \<open>
  \<open>msg_info.require\<close> points to a header that collects the values of all lines; it is set before the
  first line is parsed, so after a failure the header is loose: it is in no message.
\<close>

datatype array_ref = Linked nat | Loose "string list"

record parse_ctx =
  pc_rdata :: bool
  pc_hdrs :: "pjsip_hdr list"
  pc_cid :: "nat option"
  pc_from :: "nat option"
  pc_to :: "nat option"
  pc_cseq :: "nat option"
  pc_via :: "nat option"
  pc_route :: "nat option"
  pc_record_route :: "nat option"
  pc_max_fwd :: "nat option"
  pc_ctype :: "nat option"
  pc_clen :: "nat option"
  pc_require :: "array_ref option"
  pc_supported :: "array_ref option"

definition parse_ctx0 :: "bool \<Rightarrow> parse_ctx" where
  "parse_ctx0 rdata =
     \<lparr>pc_rdata = rdata, pc_hdrs = [], pc_cid = None, pc_from = None, pc_to = None, pc_cseq = None, pc_via = None,
      pc_route = None, pc_record_route = None, pc_max_fwd = None, pc_ctype = None, pc_clen = None,
      pc_require = None, pc_supported = None\<rparr>"

text \<open>
  A header parser returns the notes with the new headers appended to the message; when it throws, the
  notes are those of that moment.
\<close>

type_synonym hdr_parser = "parse_ctx \<Rightarrow> scanner \<Rightarrow> parse_ctx \<times> unit outcome"

definition next_hdr :: "parse_ctx \<Rightarrow> nat" where
  "next_hdr ctx = length (pc_hdrs ctx)"

definition if_rdata :: "(parse_ctx \<Rightarrow> parse_ctx) \<Rightarrow> parse_ctx \<Rightarrow> parse_ctx" where
  "if_rdata f ctx = (if pc_rdata ctx then f ctx else ctx)"

definition hdrs_p :: "pjsip_hdr list parser \<Rightarrow> (parse_ctx \<Rightarrow> parse_ctx) \<Rightarrow> hdr_parser" where
  "hdrs_p p note_hdr ctx sc =
     (case p sc of
        Done hs sc' \<Rightarrow> ((if_rdata note_hdr ctx)\<lparr>pc_hdrs := pc_hdrs ctx @ hs\<rparr>, Done () sc')
      | Thrown x sc' \<Rightarrow> (ctx, Thrown x sc')
      | Broken f \<Rightarrow> (ctx, Broken f)
      | Spinning \<Rightarrow> (ctx, Spinning))"

definition hdr_p :: "pjsip_hdr parser \<Rightarrow> (parse_ctx \<Rightarrow> parse_ctx) \<Rightarrow> hdr_parser" where
  "hdr_p p = hdrs_p (seq p (\<lambda>h. ret [h]))"

section \<open>Common parts\<close>

definition parse_sip_version :: "unit parser" where
  "parse_sip_version =
     seq (pj_scan_get ALPHA_SPEC) (\<lambda>sip.
     seq pj_scan_get_char (\<lambda>c.
       if c \<noteq> CHR ''/'' then throw SynErr
       else
         seq (pj_scan_get_n 3) (\<lambda>version.
           if pj_stricmp sip ''SIP'' \<noteq> 0 \<or> pj_stricmp version ''2.0'' \<noteq> 0 then throw SynErr else ret ())))"

definition is_next_sip_version :: "bool parser" where
  "is_next_sip_version =
     seq (pj_scan_peek ALPHA_SPEC) (\<lambda>(c, sip).
       ret (c \<noteq> NUL \<and> (c = CHR ''/'' \<or> c = CHR '' '' \<or> c = CHR 0x09) \<and> pj_stricmp sip ''SIP'' = 0))"

definition parse_hdr_end :: "unit parser" where
  "parse_hdr_end =
     if_p pj_scan_is_eof (ret ())
       (if_p (\<lambda>sc. cur sc = CHR ''&'') (seq pj_scan_get_char (\<lambda>c. ret ())) pj_scan_get_newline)"

abbreviation (input) PJSIP_GENERIC_ARRAY_MAX_COUNT :: nat where "PJSIP_GENERIC_ARRAY_MAX_COUNT \<equiv> 32"

text \<open>The values are appended one by one; those read before a failure stay in the header.\<close>

fun array_items :: "nat \<Rightarrow> string list \<Rightarrow> scanner \<Rightarrow> string list \<times> unit outcome" where
  "array_items 0 vs sc = (vs, Done () sc)"
| "array_items (Suc n) vs sc =
     (if cur sc = CHR '','' then
        (case seq pj_scan_get_char (\<lambda>c. pj_scan_get NOT_COMMA_OR_NEWLINE) sc of
           Done v sc' \<Rightarrow> array_items n (vs @ [v]) sc'
         | Thrown x sc' \<Rightarrow> (vs, Thrown x sc')
         | Broken f \<Rightarrow> (vs, Broken f)
         | Spinning \<Rightarrow> (vs, Spinning))
      else (vs, Done () sc))"

definition then_end :: "string list \<times> unit outcome \<Rightarrow> string list \<times> unit outcome" where
  "then_end r = (fst r, case snd r of Done u sc \<Rightarrow> parse_hdr_end sc | x \<Rightarrow> x)"

definition parse_generic_array_hdr :: "string list \<Rightarrow> scanner \<Rightarrow> string list \<times> unit outcome" where
  "parse_generic_array_hdr vs sc =
     (if pj_scan_is_eof sc \<or> cur sc = CR \<or> cur sc = LF then (vs, parse_hdr_end sc)
      else if length vs \<ge> PJSIP_GENERIC_ARRAY_MAX_COUNT then (vs, throw SynErr sc)
      else case pj_scan_get NOT_COMMA_OR_NEWLINE sc of
             Done v sc' \<Rightarrow> then_end (array_items (PJSIP_GENERIC_ARRAY_MAX_COUNT - Suc (length vs)) (vs @ [v]) sc')
           | Thrown x sc' \<Rightarrow> (vs, Thrown x sc')
           | Broken f \<Rightarrow> (vs, Broken f)
           | Spinning \<Rightarrow> (vs, Spinning))"

text \<open>\<open>pj_scan_get\<close> writes \<open>hvalue\<close> anew in every round.\<close>

definition parse_generic_string_hdr :: "string parser" where
  "parse_generic_string_hdr =
     seq (while_do (\<lambda>sc. NOT_NEWLINE (cur sc))
           (\<lambda>old. seq (pj_scan_get NOT_NEWLINE) (\<lambda>hvalue.
              if_p (\<lambda>sc. pj_scan_is_eof sc \<or> PJ_SCAN_IS_NEWLINE (cur sc)) (ret hvalue)
                (seq (pj_scan_get NOT_NEWLINE) (\<lambda>next_part. ret (hvalue @ '' '' @ next_part))))) [])
       (\<lambda>hvalue. seq parse_hdr_end (\<lambda>u. ret hvalue))"

text \<open>The conversion of \<open>unsigned long\<close> to the \<open>pj_int32_t\<close> of the headers.\<close>

definition int32_of :: "ulong \<Rightarrow> int" where
  "int32_of v = sint (ucast v :: 32 word)"

definition parse_generic_int_hdr :: "int parser" where
  "parse_generic_int_hdr =
     seq (pj_scan_get DIGIT_SPEC) (\<lambda>tmp. seq parse_hdr_end (\<lambda>u. ret (int32_of (pj_strtoul tmp))))"

section \<open>The headers\<close>

text \<open>Headers with a list of values, and the two whose lines are joined.\<close>

definition array_hdr :: "pjsip_hdr \<Rightarrow> hdr_parser" where
  "array_hdr h ctx sc =
     (case parse_generic_array_hdr [] sc of
        (vs, Done u sc') \<Rightarrow> (ctx\<lparr>pc_hdrs := pc_hdrs ctx @ [h\<lparr>h_val := HArray vs\<rparr>]\<rparr>, Done u sc')
      | (vs, r) \<Rightarrow> (ctx, r))"

definition parse_hdr_accept :: hdr_parser where
  "parse_hdr_accept = array_hdr pjsip_accept_hdr_create"

definition parse_hdr_allow :: hdr_parser where
  "parse_hdr_allow = array_hdr pjsip_allow_hdr_create"

definition parse_hdr_unsupported :: hdr_parser where
  "parse_hdr_unsupported = array_hdr pjsip_unsupported_hdr_create"

definition linked_values :: "parse_ctx \<Rightarrow> nat \<Rightarrow> string list" where
  "linked_values ctx i = (case h_val (pc_hdrs ctx ! i) of HArray vs \<Rightarrow> vs | _ \<Rightarrow> [])"

definition joined_hdr ::
  "pjsip_hdr \<Rightarrow> (parse_ctx \<Rightarrow> array_ref option) \<Rightarrow> (array_ref option \<Rightarrow> parse_ctx \<Rightarrow> parse_ctx) \<Rightarrow> hdr_parser" where
  "joined_hdr h get put ctx sc =
     (if \<not> pc_rdata ctx then array_hdr h ctx sc
      else case get ctx of
        None \<Rightarrow>
          (case parse_generic_array_hdr [] sc of
             (vs, Done u sc') \<Rightarrow>
               (put (Some (Linked (next_hdr ctx))) (ctx\<lparr>pc_hdrs := pc_hdrs ctx @ [h\<lparr>h_val := HArray vs\<rparr>]\<rparr>), Done u sc')
           | (vs, r) \<Rightarrow> (put (Some (Loose vs)) ctx, r))
      | Some (Linked i) \<Rightarrow>
          (let (vs, r) = parse_generic_array_hdr (linked_values ctx i) sc
           in (ctx\<lparr>pc_hdrs := (pc_hdrs ctx)[i := (pc_hdrs ctx ! i)\<lparr>h_val := HArray vs\<rparr>]\<rparr>, r))
      | Some (Loose ws) \<Rightarrow>
          (let (vs, r) = parse_generic_array_hdr ws sc in (put (Some (Loose vs)) ctx, r)))"

definition parse_hdr_require :: hdr_parser where
  "parse_hdr_require = joined_hdr pjsip_require_hdr_create pc_require (\<lambda>v ctx. ctx\<lparr>pc_require := v\<rparr>)"

definition parse_hdr_supported :: hdr_parser where
  "parse_hdr_supported = joined_hdr pjsip_supported_hdr_create pc_supported (\<lambda>v ctx. ctx\<lparr>pc_supported := v\<rparr>)"

definition parse_hdr_call_id :: hdr_parser where
  "parse_hdr_call_id ctx =
     hdr_p (seq (pj_scan_get NOT_NEWLINE) (\<lambda>v. seq parse_hdr_end (\<lambda>u. ret (pjsip_cid_hdr_init v))))
       (\<lambda>c. c\<lparr>pc_cid := Some (next_hdr ctx)\<rparr>) ctx"

text \<open>\<open>strchr(pvalue, '.')\<close> splits a q value; the fraction is read without a look at its characters.\<close>

fun mindigit_loop :: "ulong \<Rightarrow> string \<Rightarrow> ulong" where
  "mindigit_loop v [] = v"
| "mindigit_loop v (c # s) = mindigit_loop (v * 10 + word_of_int (schar c - 48)) s"

definition pj_strtoul_mindigit :: "string \<Rightarrow> nat \<Rightarrow> ulong" where
  "pj_strtoul_mindigit str mindig = ((\<lambda>v. v * 10) ^^ (mindig - length str)) (mindigit_loop 0 str)"

definition parse_q :: "string \<Rightarrow> int parser" where
  "parse_q pvalue =
     (if CHR ''.'' \<notin> set pvalue
      then seq (strtoi_validate pvalue 0 (PJ_MAXINT32 div 1000)) (\<lambda>q. ret (q * 1000))
      else
        let whole = takeWhile (\<lambda>c. c \<noteq> CHR ''.'') pvalue; frac = take 3 (tl (dropWhile (\<lambda>c. c \<noteq> CHR ''.'') pvalue))
        in seq (strtoi_validate whole 0 (PJ_MAXINT32 div 1000)) (\<lambda>q.
             let qval_frac = pj_strtoul_mindigit frac 3
             in if word_of_int (q * 1000) > word_of_int PJ_MAXINT32 - qval_frac then throw SynErr
                else ret (int32_of (word_of_int (q * 1000) + qval_frac))))"

definition int_parse_contact_param :: "contact_hdr \<Rightarrow> contact_hdr parser" where
  "int_parse_contact_param =
     while_do (\<lambda>sc. cur sc = CHR '';'') (\<lambda>hdr.
       seq (int_parse_param False) (\<lambda>(pname, pvalue).
         if \<not> parser_stricmp pname ''q'' \<and> pvalue \<noteq> [] then seq (parse_q pvalue) (\<lambda>q. ret (hdr\<lparr>q1000 := q\<rparr>))
         else if \<not> parser_stricmp pname ''expires'' \<and> pvalue \<noteq> []
         then seq (strtoi_validate pvalue 0 PJ_MAXINT32) (\<lambda>e. ret (hdr\<lparr>c_expires := e\<rparr>))
         else ret (hdr\<lparr>c_other_param := c_other_param hdr @ [(pname, pvalue)]\<rparr>)))"

text \<open>A header line with several values separated by commas is as many headers.\<close>

definition comma_list :: "'a parser \<Rightarrow> 'a list parser" where
  "comma_list p =
     seq p (\<lambda>first.
       while_do (\<lambda>sc. cur sc = CHR '','') (\<lambda>hs. seq pj_scan_get_char (\<lambda>c. seq p (\<lambda>h. ret (hs @ [h])))) [first])"

definition contact_item :: "uri_handlers \<Rightarrow> pjsip_hdr parser" where
  "contact_item uh =
     if_p (\<lambda>sc. cur sc = CHR ''*'')
       (seq pj_scan_get_char (\<lambda>c. ret (pjsip_contact_hdr_create\<lparr>h_val := HContact (contact0\<lparr>star := True\<rparr>)\<rparr>)))
       (seq (int_parse_uri_or_name_addr uh True True) (\<lambda>uri.
        seq (int_parse_contact_param (contact0\<lparr>c_uri := Some uri\<rparr>)) (\<lambda>c.
          ret (pjsip_contact_hdr_create\<lparr>h_val := HContact c\<rparr>))))"

definition parse_hdr_contact :: "uri_handlers \<Rightarrow> hdr_parser" where
  "parse_hdr_contact uh = hdrs_p (seq (comma_list (contact_item uh)) (\<lambda>hs. seq parse_hdr_end (\<lambda>u. ret hs))) (\<lambda>c. c)"

definition parse_hdr_content_len :: hdr_parser where
  "parse_hdr_content_len ctx =
     hdr_p (seq (pj_scan_get DIGIT_SPEC) (\<lambda>digit. seq parse_hdr_end (\<lambda>u.
              ret (pjsip_clen_hdr_create\<lparr>h_val := HClen (int32_of (pj_strtoul digit))\<rparr>))))
       (\<lambda>c. c\<lparr>pc_clen := Some (next_hdr ctx)\<rparr>) ctx"

text \<open>The parameters of a header behind a semicolon each.\<close>

definition token_params :: "pjsip_param list parser" where
  "token_params =
     while_do (\<lambda>sc. cur sc = CHR '';'') (\<lambda>ps. seq (int_parse_param False) (\<lambda>p. ret (ps @ [p]))) []"

definition parse_hdr_content_type :: hdr_parser where
  "parse_hdr_content_type ctx =
     hdr_p (seq (pj_scan_get TOKEN_SPEC) (\<lambda>type.
            seq pj_scan_get_char (\<lambda>c.
            seq (pj_scan_get TOKEN_SPEC) (\<lambda>subtype.
            seq token_params (\<lambda>ps.
            seq parse_hdr_end (\<lambda>u.
              ret (pjsip_ctype_hdr_create\<lparr>h_val := HCtype \<lparr>mt_type = type, mt_subtype = subtype, mt_param = ps\<rparr>\<rparr>)))))))
       (\<lambda>c. c\<lparr>pc_ctype := Some (next_hdr ctx)\<rparr>) ctx"

definition parse_hdr_cseq :: hdr_parser where
  "parse_hdr_cseq ctx =
     hdr_p (seq (pj_scan_get DIGIT_SPEC) (\<lambda>cseq.
            seq (strtoi_validate cseq 0 PJ_MAXINT32) (\<lambda>cseq_val.
            seq (pj_scan_get TOKEN_SPEC) (\<lambda>mth.
            seq parse_hdr_end (\<lambda>u.
              ret (pjsip_cseq_hdr_create\<lparr>h_val := HCseq cseq_val (pjsip_method_init_np mth)\<rparr>))))))
       (\<lambda>c. c\<lparr>pc_cseq := Some (next_hdr ctx)\<rparr>) ctx"

definition parse_hdr_expires :: hdr_parser where
  "parse_hdr_expires = hdr_p (seq parse_generic_int_hdr (\<lambda>v. ret (pjsip_expires_hdr_create v))) (\<lambda>c. c)"

definition parse_hdr_max_forwards :: hdr_parser where
  "parse_hdr_max_forwards ctx =
     hdr_p (seq parse_generic_int_hdr (\<lambda>v. ret (pjsip_max_fwd_hdr_create v))) (\<lambda>c. c\<lparr>pc_max_fwd := Some (next_hdr ctx)\<rparr>) ctx"

definition parse_hdr_min_expires :: hdr_parser where
  "parse_hdr_min_expires = hdr_p (seq parse_generic_int_hdr (\<lambda>v. ret (pjsip_min_expires_hdr_create v))) (\<lambda>c. c)"

definition parse_hdr_fromto :: "uri_handlers \<Rightarrow> fromto_hdr parser" where
  "parse_hdr_fromto uh =
     seq (int_parse_uri_or_name_addr uh True True) (\<lambda>uri.
     seq (while_do (\<lambda>sc. cur sc = CHR '';'') (\<lambda>hdr.
            seq (int_parse_param False) (\<lambda>(pname, pvalue).
              if \<not> parser_stricmp pname ''tag'' then ret (hdr\<lparr>tag := pvalue\<rparr>)
              else ret (hdr\<lparr>ft_other_param := ft_other_param hdr @ [(pname, pvalue)]\<rparr>)))
          (fromto0\<lparr>ft_uri := Some uri\<rparr>)) (\<lambda>hdr.
     seq parse_hdr_end (\<lambda>u. ret hdr)))"

definition parse_hdr_from :: "uri_handlers \<Rightarrow> hdr_parser" where
  "parse_hdr_from uh ctx =
     hdr_p (seq (parse_hdr_fromto uh) (\<lambda>f. ret (pjsip_from_hdr_create\<lparr>h_val := HFromTo f\<rparr>)))
       (\<lambda>c. c\<lparr>pc_from := Some (next_hdr ctx)\<rparr>) ctx"

definition parse_hdr_to :: "uri_handlers \<Rightarrow> hdr_parser" where
  "parse_hdr_to uh ctx =
     hdr_p (seq (parse_hdr_fromto uh) (\<lambda>f. ret (pjsip_to_hdr_create\<lparr>h_val := HFromTo f\<rparr>)))
       (\<lambda>c. c\<lparr>pc_to := Some (next_hdr ctx)\<rparr>) ctx"

definition parse_hdr_retry_after :: hdr_parser where
  "parse_hdr_retry_after =
     hdr_p (seq (pj_scan_get DIGIT_SPEC) (\<lambda>tmp.
            seq (strtoi_validate tmp 0 PJ_MAXINT32) (\<lambda>v.
            seq (while_do (\<lambda>sc. \<not> pj_scan_is_eof sc \<and> cur sc \<noteq> CR \<and> cur sc \<noteq> LF) (\<lambda>r.
                   if_p (\<lambda>sc. cur sc = CHR ''('')
                     (seq (pj_scan_get_quote (CHR ''('') (CHR '')'')) (\<lambda>c. ret (r\<lparr>ra_comment := butlast (tl c)\<rparr>)))
                     (if_p (\<lambda>sc. cur sc = CHR '';'')
                        (seq (int_parse_param False) (\<lambda>p. ret (r\<lparr>ra_param := ra_param r @ [p]\<rparr>)))
                        (throw SynErr)))
                 \<lparr>ra_ivalue = v, ra_comment = [], ra_param = []\<rparr>) (\<lambda>r.
            seq parse_hdr_end (\<lambda>u. ret ((pjsip_retry_after_hdr_create 0)\<lparr>h_val := HRetryAfter r\<rparr>)))))) (\<lambda>c. c)"

definition parse_hdr_rr_route :: "uri_handlers \<Rightarrow> routing_hdr parser" where
  "parse_hdr_rr_route uh =
     seq (int_parse_name_addr uh) (\<lambda>(display, uri).
     seq token_params (\<lambda>ps. ret \<lparr>ra_display = display, ra_uri = Some uri, r_other_param = ps\<rparr>))"

definition routing_hdrs :: "uri_handlers \<Rightarrow> pjsip_hdr \<Rightarrow> pjsip_hdr list parser" where
  "routing_hdrs uh h =
     seq (comma_list (seq (parse_hdr_rr_route uh) (\<lambda>r. ret (h\<lparr>h_val := HRouting r\<rparr>)))) (\<lambda>hs. seq parse_hdr_end (\<lambda>u. ret hs))"

text \<open>The pointer stays on the first header of the first line.\<close>

definition parse_hdr_rr :: "uri_handlers \<Rightarrow> hdr_parser" where
  "parse_hdr_rr uh ctx =
     hdrs_p (routing_hdrs uh pjsip_rr_hdr_create)
       (\<lambda>c. if pc_record_route c = None then c\<lparr>pc_record_route := Some (next_hdr ctx)\<rparr> else c) ctx"

definition parse_hdr_route :: "uri_handlers \<Rightarrow> hdr_parser" where
  "parse_hdr_route uh ctx =
     hdrs_p (routing_hdrs uh pjsip_route_hdr_create)
       (\<lambda>c. if pc_route c = None then c\<lparr>pc_route := Some (next_hdr ctx)\<rparr> else c) ctx"

definition int_parse_via_param :: "via_hdr \<Rightarrow> via_hdr parser" where
  "int_parse_via_param =
     while_do (\<lambda>sc. cur sc = CHR '';'') (\<lambda>hdr.
       seq pj_scan_get_char (\<lambda>c.
       seq (parse_param_imp VIA_PARAM_SPEC False) (\<lambda>(pname, pvalue).
         if \<not> parser_stricmp pname ''branch'' \<and> pvalue \<noteq> [] then ret (hdr\<lparr>v_branch_param := pvalue\<rparr>)
         else if \<not> parser_stricmp pname ''ttl'' \<and> pvalue \<noteq> []
         then seq (strtoi_validate pvalue 0 PJSIP_MAX_TTL) (\<lambda>n. ret (hdr\<lparr>v_ttl_param := n\<rparr>))
         else if \<not> parser_stricmp pname ''maddr'' \<and> pvalue \<noteq> [] then ret (hdr\<lparr>v_maddr_param := pvalue\<rparr>)
         else if \<not> parser_stricmp pname ''received'' \<and> pvalue \<noteq> [] then ret (hdr\<lparr>v_recvd_param := pvalue\<rparr>)
         else if \<not> parser_stricmp pname ''rport''
         then (if pvalue \<noteq> [] then seq (strtoi_validate pvalue 0 PJSIP_MAX_PORT) (\<lambda>n. ret (hdr\<lparr>v_rport_param := n\<rparr>))
               else ret (hdr\<lparr>v_rport_param := 0\<rparr>))
         else ret (hdr\<lparr>v_other_param := v_other_param hdr @ [(pname, pvalue)]\<rparr>))))"

text \<open>The comment of a Via header is read and, as nothing prints it, not kept.\<close>

definition via_item :: "pjsip_hdr parser" where
  "via_item =
     seq parse_sip_version (\<lambda>u.
     seq pj_scan_get_char (\<lambda>c.
       if c \<noteq> CHR ''/'' then throw SynErr
       else
         seq (pj_scan_get TOKEN_SPEC) (\<lambda>tp.
         seq int_parse_host (\<lambda>h.
         seq (if_p (\<lambda>sc. cur sc = CHR '':'')
                (seq pj_scan_get_char (\<lambda>c. seq (pj_scan_get DIGIT_SPEC) (\<lambda>d. strtoi_validate d 0 PJSIP_MAX_PORT)))
                (ret 0)) (\<lambda>p.
         seq (int_parse_via_param (via0\<lparr>v_transport := tp, v_host := h, v_port := p\<rparr>)) (\<lambda>v.
         seq (if_p (\<lambda>sc. cur sc = CHR ''('')
                (seq pj_scan_get_char (\<lambda>c. seq (pj_scan_get_until_ch (CHR '')'')) (\<lambda>comment. seq pj_scan_get_char (\<lambda>c. ret ()))))
                (ret ())) (\<lambda>u.
           ret (pjsip_via_hdr_create\<lparr>h_val := HVia v\<rparr>))))))))"

definition parse_hdr_via :: hdr_parser where
  "parse_hdr_via ctx =
     hdrs_p (seq (comma_list via_item) (\<lambda>hs. seq parse_hdr_end (\<lambda>u. ret hs)))
       (\<lambda>c. if pc_via c = None then c\<lparr>pc_via := Some (next_hdr ctx)\<rparr> else c) ctx"

definition parse_hdr_generic_string :: "string \<Rightarrow> hdr_parser" where
  "parse_hdr_generic_string hname =
     hdr_p (seq parse_generic_string_hdr (\<lambda>v. ret (pjsip_generic_string_hdr_create (Some hname) (Some v)))) (\<lambda>c. c)"

end
