(* ===== verification/HdrTable.thy ===== *)
theory HdrTable
  imports HdrParser "HOL-Library.Code_Target_Nat"
begin

text \<open>
  The table of the header parsers (\<open>3rd/src/pjsip/sip_parser.c\<close>): it is kept sorted by the hash of the
  names, filled at start with each name as it is written in the standards, in lower case and in short
  form, and searched by halving. \<open>find_handler_table\<close> shows that the search is a look-up of the name
  without regard to case.
\<close>

section \<open>Classes of characters, bit by bit\<close>

text \<open>Code equations: evaluating a parser asks for the class of a character many times.\<close>

lemma isalnum_code [code]:
  "isalnum_c (Char b0 b1 b2 b3 b4 b5 b6 b7) \<longleftrightarrow>
     (if b7 then False
      else if b6 then (b0 \<or> b1 \<or> b2 \<or> b3 \<or> b4) \<and> \<not> (b4 \<and> b3 \<and> (b2 \<or> b1 \<and> b0))
      else b5 \<and> b4 \<and> (\<not> b3 \<or> \<not> b2 \<and> \<not> b1))"
  by (cases b0; cases b1; cases b2; cases b3; cases b4; cases b5; cases b6; cases b7)
    (simp_all add: isalnum_c_def isdigit_c_def code_c_def Let_def)

lemma isdigit_code [code]:
  "isdigit_c (Char b0 b1 b2 b3 b4 b5 b6 b7) \<longleftrightarrow> (if b7 \<or> b6 then False else b5 \<and> b4 \<and> (\<not> b3 \<or> \<not> b2 \<and> \<not> b1))"
  by (cases b0; cases b1; cases b2; cases b3; cases b4; cases b5; cases b6; cases b7)
    (simp_all add: isdigit_c_def Let_def)

lemma probably_space_code [code]:
  "PJ_SCAN_IS_PROBABLY_SPACE (Char b0 b1 b2 b3 b4 b5 b6 b7) \<longleftrightarrow>
     (if b7 then True else if b6 then False else \<not> b5 \<or> \<not> (b0 \<or> b1 \<or> b2 \<or> b3 \<or> b4))"
  by (cases b0; cases b1; cases b2; cases b3; cases b4; cases b5; cases b6; cases b7)
    (simp_all add: PJ_SCAN_IS_PROBABLY_SPACE_def schar_def code_c_def)

lemma tolower_code [code]:
  "tolower_c (Char b0 b1 b2 b3 b4 b5 b6 b7) =
     Char b0 b1 b2 b3 b4
       (if b7 then b5 else if b5 then True else b6 \<and> (b0 \<or> b1 \<or> b2 \<or> b3 \<or> b4) \<and> \<not> (b4 \<and> b3 \<and> (b2 \<or> b1 \<and> b0)))
       b6 b7"
  by (cases b0; cases b1; cases b2; cases b3; cases b4; cases b5; cases b6; cases b7)
    (simp_all add: tolower_c_def Let_def char_of_def bit_Suc_0_iff)

lemma cis_code [code]: "cis s c = (if isalnum_c c then True else c \<in> set s)"
  by (simp add: cis_def)

section \<open>The table\<close>

datatype hdr_func =
    F_accept | F_allow | F_call_id | F_contact | F_content_len | F_content_type | F_cseq | F_expires | F_from
  | F_max_forwards | F_min_expires | F_rr | F_route | F_require | F_retry_after | F_supported | F_to
  | F_unsupported | F_via | F_authorization | F_proxy_authorization | F_www_authenticate | F_proxy_authenticate

record handler_rec =
  hr_name :: string
  hr_hash :: "32 word"
  hr_func :: hdr_func

abbreviation (input) PJSIP_MAX_HNAME_LEN :: nat where "PJSIP_MAX_HNAME_LEN \<equiv> 64"
abbreviation (input) PJSIP_MAX_HEADER_TYPES :: nat where "PJSIP_MAX_HEADER_TYPES \<equiv> 72"

text \<open>
  \<open>name_len\<close> bytes of the name are compared, whatever the length of the name in the table; behind that
  name the record holds its terminator, and a header name has none.
\<close>

definition compare_handler :: "handler_rec \<Rightarrow> string \<Rightarrow> 32 word \<Rightarrow> int" where
  "compare_handler r1 nm hash =
     (if hr_hash r1 < hash then -1 else if hr_hash r1 > hash then 1 else memcmp (hr_name r1 @ [NUL]) nm)"

fun insert_handler :: "handler_rec \<Rightarrow> handler_rec list \<Rightarrow> handler_rec list res" where
  "insert_handler rec [] = Inr [rec]"
| "insert_handler rec (r # rs) =
     (let d = compare_handler r (hr_name rec) (hr_hash rec)
      in if d = 0 then Inl AssertFail
         else if d > 0 then Inr (rec # r # rs)
         else bind_res (insert_handler rec rs) (\<lambda>rs'. Inr (r # rs')))"

definition int_register_parser :: "string \<Rightarrow> hdr_func \<Rightarrow> handler_rec list \<Rightarrow> handler_rec list res" where
  "int_register_parser nm fptr tab =
     (if length tab \<ge> PJSIP_MAX_HEADER_TYPES then Inl AssertFail
      else if length nm \<ge> PJSIP_MAX_HNAME_LEN + 1 then Inl AssertFail
      else insert_handler \<lparr>hr_name = nm, hr_hash = pj_hash_calc 0 nm, hr_func = fptr\<rparr> tab)"

definition pjsip_register_hdr_parser :: "string \<Rightarrow> string option \<Rightarrow> hdr_func \<Rightarrow> handler_rec list \<Rightarrow> handler_rec list res" where
  "pjsip_register_hdr_parser hname hshortname fptr tab =
     (if length hname > PJSIP_MAX_HNAME_LEN then Inl AssertFail
      else
        bind_res (int_register_parser hname fptr tab) (\<lambda>tab.
        bind_res (int_register_parser (lower_c hname) fptr tab) (\<lambda>tab.
          case hshortname of None \<Rightarrow> Inr tab | Some s \<Rightarrow> int_register_parser s fptr tab)))"

fun register_all :: "(string \<times> string option \<times> hdr_func) list \<Rightarrow> handler_rec list \<Rightarrow> handler_rec list res" where
  "register_all [] tab = Inr tab"
| "register_all ((hname, hshortname, fptr) # rs) tab =
     bind_res (pjsip_register_hdr_parser hname hshortname fptr tab) (register_all rs)"

definition auth_hdr_parsers :: "(string \<times> string option \<times> hdr_func) list" where
  "auth_hdr_parsers =
     [(''Authorization'', None, F_authorization), (''Proxy-Authorization'', None, F_proxy_authorization),
      (''WWW-Authenticate'', None, F_www_authenticate), (''Proxy-Authenticate'', None, F_proxy_authenticate)]"

definition pjsip_auth_init_parser :: "handler_rec list \<Rightarrow> handler_rec list res" where
  "pjsip_auth_init_parser = register_all auth_hdr_parsers"

definition core_hdr_parsers :: "(string \<times> string option \<times> hdr_func) list" where
  "core_hdr_parsers =
     [(''Accept'', None, F_accept), (''Allow'', None, F_allow), (''Call-ID'', Some ''i'', F_call_id),
      (''Contact'', Some ''m'', F_contact), (''Content-Length'', Some ''l'', F_content_len),
      (''Content-Type'', Some ''c'', F_content_type), (''CSeq'', None, F_cseq), (''Expires'', None, F_expires),
      (''From'', Some ''f'', F_from), (''Max-Forwards'', None, F_max_forwards),
      (''Min-Expires'', None, F_min_expires), (''Record-Route'', None, F_rr), (''Route'', None, F_route),
      (''Require'', None, F_require), (''Retry-After'', None, F_retry_after), (''Supported'', Some ''k'', F_supported),
      (''To'', Some ''t'', F_to), (''Unsupported'', None, F_unsupported), (''Via'', Some ''v'', F_via)]"

definition init_parser :: "handler_rec list \<Rightarrow> handler_rec list res" where
  "init_parser tab = bind_res (register_all core_hdr_parsers tab) pjsip_auth_init_parser"

text \<open>The users of the parser count their initialisations; the last one to leave empties the table.\<close>

definition init_sip_parser :: "nat \<Rightarrow> handler_rec list \<Rightarrow> (nat \<times> handler_rec list) res" where
  "init_sip_parser parser_is_initialized tab =
     (if parser_is_initialized + 1 = 1 then bind_res (init_parser tab) (\<lambda>t. Inr (parser_is_initialized + 1, t))
      else Inr (parser_is_initialized + 1, tab))"

definition deinit_sip_parser :: "nat \<Rightarrow> handler_rec list \<Rightarrow> nat \<times> handler_rec list" where
  "deinit_sip_parser parser_is_initialized tab =
     (if parser_is_initialized - 1 = 0 then (0, []) else (parser_is_initialized - 1, tab))"

section \<open>The search\<close>

text \<open>\<open>first\<close> and \<open>n\<close> are the part of the table still to be searched.\<close>

function find_handler_imp :: "32 word \<Rightarrow> string \<Rightarrow> handler_rec list \<Rightarrow> hdr_func option" where
  "find_handler_imp hash hname [] = None"
| "find_handler_imp hash hname (r # rs) =
     (let tab = r # rs; half = length tab div 2; mid = tab ! half; comp = compare_handler mid hname hash
      in if comp < 0 then find_handler_imp hash hname (drop (half + 1) tab)
         else if comp = 0 then Some (hr_func mid)
         else find_handler_imp hash hname (take half tab))"
  by pat_completeness auto
termination
  by (relation "measure (\<lambda>(h, n, tab). length tab)") (auto simp: Let_def)

definition find_handler :: "handler_rec list \<Rightarrow> string \<Rightarrow> hdr_func option" where
  "find_handler tab hname =
     (if length hname \<ge> PJSIP_MAX_HNAME_LEN then None
      else case find_handler_imp (pj_hash_calc 0 hname) hname tab of
             Some func \<Rightarrow> Some func
           | None \<Rightarrow> (let (hash, hname_copy) = pj_hash_calc_tolower 0 [] hname in find_handler_imp hash hname_copy tab))"

section \<open>Searching by halves\<close>

text \<open>What is found in a table sorted by the hashes is what a search from the front finds.\<close>

abbreviation hash_sorted :: "handler_rec list \<Rightarrow> bool" where
  "hash_sorted \<equiv> sorted_wrt (\<lambda>a b. hr_hash a < hr_hash b)"

lemma compare_before: "hr_hash a < hr_hash b \<Longrightarrow> compare_handler b nm hash < 0 \<Longrightarrow> compare_handler a nm hash \<noteq> 0"
  by (auto simp: compare_handler_def split: if_splits)

lemma compare_behind: "hr_hash a < hr_hash b \<Longrightarrow> compare_handler a nm hash > 0 \<Longrightarrow> compare_handler b nm hash \<noteq> 0"
  by (auto simp: compare_handler_def split: if_splits)

lemma find_none_append: "(\<And>x. x \<in> set xs \<Longrightarrow> \<not> P x) \<Longrightarrow> find P (xs @ ys) = find P ys"
  by (induction xs) auto

lemma find_append_none: "(\<And>y. y \<in> set ys \<Longrightarrow> \<not> P y) \<Longrightarrow> find P (xs @ ys) = find P xs"
  by (induction xs) (auto simp: find_None_iff)

lemma find_handler_imp_linear:
  "hash_sorted tab \<Longrightarrow>
   find_handler_imp hash hname tab = map_option hr_func (find (\<lambda>r. compare_handler r hname hash = 0) tab)"
proof (induction hash hname tab rule: find_handler_imp.induct)
  case (2 hash hname r rs)
  define tab where "tab = r # rs"
  define half where "half = length tab div 2"
  define mid where "mid = tab ! half"
  let ?P = "\<lambda>r. compare_handler r hname hash = 0"
  have half: "half < length tab" by (simp add: half_def tab_def)
  have split: "tab = take half tab @ mid # drop (half + 1) tab"
    using half by (simp add: mid_def id_take_nth_drop)
  have "hash_sorted (take half tab @ mid # drop (half + 1) tab)"
    using 2(3) split by (simp add: tab_def)
  then have sorted: "hash_sorted (take half tab)" "hash_sorted (drop (half + 1) tab)"
    "\<And>x. x \<in> set (take half tab) \<Longrightarrow> hr_hash x < hr_hash mid"
    "\<And>x. x \<in> set (drop (half + 1) tab) \<Longrightarrow> hr_hash mid < hr_hash x"
    by (simp_all add: sorted_wrt_append)
  have step: "find_handler_imp hash hname tab =
      (let comp = compare_handler mid hname hash
       in if comp < 0 then find_handler_imp hash hname (drop (half + 1) tab)
          else if comp = 0 then Some (hr_func mid) else find_handler_imp hash hname (take half tab))"
    by (simp only: tab_def mid_def half_def find_handler_imp.simps Let_def)
  consider (less) "compare_handler mid hname hash < 0" | (eq) "compare_handler mid hname hash = 0"
    | (greater) "compare_handler mid hname hash > 0" by linarith
  then have "find_handler_imp hash hname tab = map_option hr_func (find ?P tab)"
  proof cases
    case less
    have "find ?P tab = find ?P (drop (half + 1) tab)"
      using compare_before [OF sorted(3) less] less by (subst split) (simp add: find_none_append)
    then show ?thesis using 2(1) [OF tab_def half_def mid_def refl] less sorted(2) step by simp
  next
    case eq
    have "find ?P tab = Some mid"
      using eq by (subst split, subst find_none_append)
        (auto simp: compare_handler_def split: if_splits dest: sorted(3))
    then show ?thesis using eq step by simp
  next
    case greater
    have "find ?P tab = find ?P (take half tab)"
      using compare_behind [OF sorted(4) greater] greater by (subst split) (subst find_append_none, auto)
    then show ?thesis using 2(2) [OF tab_def half_def mid_def refl] greater sorted(1) step by simp
  qed
  then show ?case by (simp add: tab_def)
qed simp

section \<open>Filling the table\<close>

text \<open>Names with different hashes can be registered in any order; the table stays sorted.\<close>

definition rec_of :: "string \<times> hdr_func \<Rightarrow> handler_rec" where
  "rec_of = (\<lambda>(nm, f). \<lparr>hr_name = nm, hr_hash = pj_hash_calc 0 nm, hr_func = f\<rparr>)"

lemma rec_of_simps [simp]:
  "hr_name (rec_of nf) = fst nf" "hr_hash (rec_of nf) = pj_hash_calc 0 (fst nf)" "hr_func (rec_of nf) = snd nf"
  by (simp_all add: rec_of_def split: prod.split)

lemma insert_handler_sorted:
  assumes "hash_sorted tab" and "hr_hash rec \<notin> hr_hash ` set tab"
  shows "\<exists>tab'. insert_handler rec tab = Inr tab' \<and> hash_sorted tab' \<and> set tab' = insert rec (set tab) \<and> length tab' = Suc (length tab)"
  using assms
proof (induction tab)
  case (Cons r rs)
  consider "hr_hash r < hr_hash rec" | "hr_hash rec < hr_hash r" using Cons.prems(2) by (auto simp: neq_iff)
  then show ?case
  proof cases
    case 1
    moreover obtain tab' where "insert_handler rec rs = Inr tab'" "hash_sorted tab'" "set tab' = insert rec (set rs)"
      "length tab' = Suc (length rs)" using Cons by auto
    ultimately show ?thesis using Cons.prems by (auto simp: compare_handler_def)
  next
    case 2
    then show ?thesis using Cons.prems by (auto simp: compare_handler_def intro: less_trans)
  qed
qed simp

definition registers :: "(string \<times> hdr_func) list \<Rightarrow> handler_rec list \<Rightarrow> handler_rec list \<Rightarrow> bool" where
  "registers nfs tab tab' \<longleftrightarrow> hash_sorted tab' \<and> set tab' = set (map rec_of nfs) \<union> set tab \<and> length tab' = length nfs + length tab"

lemma registers_trans: "registers nfs tab tab' \<Longrightarrow> registers nfs' tab' tab'' \<Longrightarrow> registers (nfs @ nfs') tab tab''"
  by (auto simp: registers_def)

fun register_names :: "(string \<times> hdr_func) list \<Rightarrow> handler_rec list \<Rightarrow> handler_rec list res" where
  "register_names [] tab = Inr tab"
| "register_names ((nm, f) # nfs) tab = bind_res (int_register_parser nm f tab) (register_names nfs)"

lemma register_names_append: "register_names (xs @ ys) tab = bind_res (register_names xs tab) (register_names ys)"
  by (induction xs tab rule: register_names.induct) (simp_all add: bind_res_def split: sum.splits)

definition all_forms :: "string \<times> string option \<times> hdr_func \<Rightarrow> (string \<times> hdr_func) list" where
  "all_forms = (\<lambda>(nm, s, f). (nm, f) # (lower_c nm, f) # (case s of None \<Rightarrow> [] | Some n \<Rightarrow> [(n, f)]))"

lemma register_hdr_names: "length nm \<le> 64 \<Longrightarrow> pjsip_register_hdr_parser nm s f tab = register_names (all_forms (nm, s, f)) tab"
  by (auto simp: pjsip_register_hdr_parser_def all_forms_def bind_res_def split: option.split sum.split)

lemma register_all_names:
  "(\<forall>(nm, s, f) \<in> set rs. length nm \<le> 64) \<Longrightarrow> register_all rs tab = register_names (concat (map all_forms rs)) tab"
proof (induction rs arbitrary: tab)
  case (Cons r rs)
  obtain nm s f where r: "r = (nm, s, f)" by (cases r)
  have "register_all rs = register_names (concat (map all_forms rs))" using Cons by auto
  then show ?case using Cons.prems by (simp add: r register_hdr_names register_names_append)
qed simp

lemma register_names_sorted:
  assumes "hash_sorted tab" and "distinct (map (pj_hash_calc 0 \<circ> fst) nfs)"
    and "\<forall>(nm, f) \<in> set nfs. length nm \<le> 64 \<and> pj_hash_calc 0 nm \<notin> hr_hash ` set tab" and "length nfs + length tab \<le> 72"
  shows "\<exists>tab'. register_names nfs tab = Inr tab' \<and> registers nfs tab tab'"
  using assms
proof (induction nfs arbitrary: tab)
  case (Cons nf nfs)
  obtain nm f where nf: "nf = (nm, f)" by (cases nf)
  have "hr_hash (rec_of nf) \<notin> hr_hash ` set tab" using Cons.prems(3) nf by simp
  from insert_handler_sorted [OF Cons.prems(1) this] obtain tab1 where t1: "insert_handler (rec_of nf) tab = Inr tab1"
    "hash_sorted tab1" "set tab1 = insert (rec_of nf) (set tab)" "length tab1 = Suc (length tab)" by blast
  have reg: "int_register_parser nm f tab = Inr tab1"
    using t1(1) Cons.prems(3,4) by (simp add: int_register_parser_def nf rec_of_def)
  have "pj_hash_calc 0 (fst x) \<notin> hr_hash ` set tab1" if x: "x \<in> set nfs" for x
  proof -
    have "pj_hash_calc 0 (fst x) \<noteq> pj_hash_calc 0 nm" using Cons.prems(2) x by (simp add: nf image_iff) metis
    moreover have "pj_hash_calc 0 (fst x) \<notin> hr_hash ` set tab" using Cons.prems(3) x by (cases x) auto
    ultimately show ?thesis by (simp add: t1(3) nf image_insert)
  qed
  then have "\<forall>(nm, f) \<in> set nfs. length nm \<le> 64 \<and> pj_hash_calc 0 nm \<notin> hr_hash ` set tab1"
    using Cons.prems(3) by (force simp: nf)
  from Cons.IH [OF t1(2) _ this] Cons.prems(2,4) obtain tab' where t': "register_names nfs tab1 = Inr tab'" "registers nfs tab1 tab'"
    by (simp add: t1(4)) blast
  have "register_names (nf # nfs) tab = Inr tab'" by (simp add: nf reg t'(1))
  moreover have "registers (nf # nfs) tab tab'" using t'(2) by (simp add: registers_def t1(3,4))
  ultimately show ?case by blast
qed (simp add: registers_def)

section \<open>The table the endpoint fills\<close>

definition hdr_handlers :: "handler_rec list" where
  "hdr_handlers = (case init_parser [] of Inr tab \<Rightarrow> tab | Inl f \<Rightarrow> [])"

text \<open>The names in lower case, and the short forms.\<close>

definition hdr_names :: "(string \<times> hdr_func) list" where
  "hdr_names =
     [(''accept'', F_accept), (''allow'', F_allow), (''call-id'', F_call_id), (''i'', F_call_id),
      (''contact'', F_contact), (''m'', F_contact), (''content-length'', F_content_len), (''l'', F_content_len),
      (''content-type'', F_content_type), (''c'', F_content_type), (''cseq'', F_cseq), (''expires'', F_expires),
      (''from'', F_from), (''f'', F_from), (''max-forwards'', F_max_forwards), (''min-expires'', F_min_expires),
      (''record-route'', F_rr), (''route'', F_route), (''require'', F_require), (''retry-after'', F_retry_after),
      (''supported'', F_supported), (''k'', F_supported), (''to'', F_to), (''t'', F_to),
      (''unsupported'', F_unsupported), (''via'', F_via), (''v'', F_via), (''authorization'', F_authorization),
      (''proxy-authorization'', F_proxy_authorization), (''www-authenticate'', F_www_authenticate),
      (''proxy-authenticate'', F_proxy_authenticate)]"

definition all_names :: "(string \<times> hdr_func) list" where
  "all_names = concat (map all_forms (core_hdr_parsers @ auth_hdr_parsers))"

text \<open>The hashes over the integers, of a name and of its proper prefixes.\<close>

fun hash_int :: "int \<Rightarrow> string \<Rightarrow> int" where
  "hash_int h [] = h"
| "hash_int h (c # s) = hash_int ((h * 33 + int (of_char c)) mod 4294967296) s"

fun prefix_hashes :: "int \<Rightarrow> string \<Rightarrow> int list" where
  "prefix_hashes h [] = []"
| "prefix_hashes h (c # s) = h # prefix_hashes ((h * 33 + int (of_char c)) mod 4294967296) s"

lemma word_of_int_mod32: "(word_of_int (x mod 4294967296) :: 32 word) = word_of_int x"
  by (simp add: word_uint_eq_iff uint_word_of_int)

lemma hash_calc_int: "0 \<le> h \<Longrightarrow> h < 4294967296 \<Longrightarrow> uint (pj_hash_calc (word_of_int h) s) = hash_int h s"
proof (induction s arbitrary: h)
  case (Cons c s)
  have "word_of_int h * 33 + byte_of c = (word_of_int ((h * 33 + int (of_char c)) mod 4294967296) :: 32 word)"
    unfolding word_of_int_mod32 by (simp add: byte_of_def)
  then show ?case using Cons.IH by simp
qed (simp add: uint_word_of_int)

lemma hash_calc_eq_iff: "pj_hash_calc 0 s = pj_hash_calc 0 t \<longleftrightarrow> hash_int 0 s = hash_int 0 t"
  using hash_calc_int [of 0 s] hash_calc_int [of 0 t] by (simp add: word_uint_eq_iff)

lemma prefix_hashes_take:
  "k < length s \<Longrightarrow> hash_int h (take k s) \<in> set (prefix_hashes h s)"
  by (induction s arbitrary: h k) (auto simp: take_Cons split: nat.split)

lemma names_hashes: "distinct (map (hash_int 0 \<circ> fst) all_names)"
  by code_simp

lemma names_prefixes: "list_all (\<lambda>(n, f). hash_int 0 n \<notin> set (prefix_hashes 0 n)) all_names"
  by code_simp

lemma names_lengths:
  "list_all (\<lambda>(n, s, f). length n \<le> 64) (core_hdr_parsers @ auth_hdr_parsers)"
  "length all_names \<le> 72" "list_all (\<lambda>(n, f). length n < 64) all_names"
  by code_simp+

lemma names_lower:
  "list_all (\<lambda>(n, f). map_of hdr_names (lower_c n) = Some f) all_names"
  "list_all (\<lambda>nf. nf \<in> set all_names) hdr_names"
  by code_simp+

lemma length_all_names: "(nm, f) \<in> set all_names \<Longrightarrow> length nm < 64"
  using names_lengths(3) by (auto simp: list_all_iff)

lemma distinct_hash: "distinct (map (pj_hash_calc 0 \<circ> fst) all_names)"
  using names_hashes by (simp add: distinct_map inj_on_def hash_calc_eq_iff)

lemma distinct_names: "distinct (map fst all_names)"
  using distinct_hash unfolding distinct_map by (auto simp: inj_on_def)

lemma init_parser_table: "init_parser [] = Inr hdr_handlers \<and> registers all_names [] hdr_handlers"
proof -
  have append: "register_all (xs @ ys) tab = bind_res (register_all xs tab) (register_all ys)" for xs ys tab
    by (induction xs tab rule: register_all.induct) (simp_all add: bind_res_def split: sum.splits)
  have "\<forall>(nm, s, f) \<in> set (core_hdr_parsers @ auth_hdr_parsers). length nm \<le> 64"
    using names_lengths(1) by (simp add: list_all_iff)
  then have "init_parser [] = register_names all_names []"
    unfolding init_parser_def pjsip_auth_init_parser_def append [symmetric] all_names_def by (rule register_all_names)
  moreover have "\<exists>tab'. register_names all_names [] = Inr tab' \<and> registers all_names [] tab'"
    using length_all_names names_lengths(2) distinct_hash
    by (intro register_names_sorted) (auto intro: less_imp_le)
  ultimately show ?thesis by (auto simp: hdr_handlers_def)
qed

section \<open>The search is a look-up of the name\<close>

lemma memcmp_prefix: "NUL \<notin> set nm \<Longrightarrow> memcmp (s @ [NUL]) nm = 0 \<longleftrightarrow> prefix nm s"
proof (induction s arbitrary: nm)
  case Nil
  then show ?case by (cases nm) auto
next
  case (Cons c s)
  then show ?case by (cases nm) (auto simp: code_c_def)
qed

lemma compare_rec_of:
  assumes "NUL \<notin> set nm" and "nf \<in> set all_names"
  shows "compare_handler (rec_of nf) nm (pj_hash_calc 0 nm) = 0 \<longleftrightarrow> fst nf = nm"
proof -
  have "pj_hash_calc 0 nm \<noteq> pj_hash_calc 0 (fst nf)" if "strict_prefix nm (fst nf)"
  proof -
    from that obtain k where "nm = take k (fst nf)" "k < length (fst nf)"
      by (metis append_eq_conv_conj linorder_not_less prefix_def strict_prefix_def take_all_iff)
    then have "hash_int 0 nm \<in> set (prefix_hashes 0 (fst nf))" by (simp add: prefix_hashes_take)
    then show ?thesis using names_prefixes assms(2) by (auto simp: list_all_iff hash_calc_eq_iff)
  qed
  then have "prefix nm (fst nf) \<Longrightarrow> pj_hash_calc 0 nm = pj_hash_calc 0 (fst nf) \<Longrightarrow> fst nf = nm"
    by (auto simp: strict_prefix_def)
  moreover have "compare_handler (rec_of nf) nm (pj_hash_calc 0 nm) = 0 \<longleftrightarrow>
      pj_hash_calc 0 nm = pj_hash_calc 0 (fst nf) \<and> prefix nm (fst nf)"
    using assms(1) by (auto simp: compare_handler_def memcmp_prefix)
  ultimately show ?thesis by auto
qed

lemma find_names:
  assumes "NUL \<notin> set nm"
  shows "find_handler_imp (pj_hash_calc 0 nm) nm hdr_handlers = map_of all_names nm"
proof -
  have reg: "hash_sorted hdr_handlers" "set hdr_handlers = rec_of ` set all_names"
    using init_parser_table by (simp_all add: registers_def)
  let ?P = "\<lambda>r. compare_handler r nm (pj_hash_calc 0 nm) = 0"
  show ?thesis
  proof (cases "find ?P hdr_handlers")
    case None
    then have "nm \<notin> fst ` set all_names"
      using compare_rec_of [OF assms] by (auto simp: find_None_iff reg(2))
    then have "map_of all_names nm = None" by (simp add: map_of_eq_None_iff)
    with None show ?thesis using reg(1) by (simp add: find_handler_imp_linear)
  next
    case (Some r)
    then have "r \<in> set hdr_handlers" "?P r" by (auto simp: find_Some_iff)
    then obtain f where "(nm, f) \<in> set all_names" "hr_func r = f"
      using compare_rec_of [OF assms] by (auto simp: reg(2))
    with Some show ?thesis using reg(1) distinct_names by (simp add: find_handler_imp_linear map_of_is_SomeI)
  qed
qed

lemma lower_c_lower_c [simp]: "lower_c (lower_c s) = lower_c s"
  by (induction s) (simp_all add: tolower_c_def Let_def)

lemma find_handler_lookup:
  assumes "NUL \<notin> set hname"
  shows "find_handler hdr_handlers hname = map_of hdr_names (lower_c hname)"
proof -
  have lower: "map_of hdr_names (lower_c n) = Some f" if "map_of all_names n = Some f" for n f
    using names_lower(1) map_of_SomeD [OF that] by (auto simp: list_all_iff)
  have names: "map_of all_names n = Some f" if "map_of hdr_names n = Some f" for n f
    using names_lower(2) map_of_SomeD [OF that] distinct_names by (auto simp: list_all_iff)
  have long: "map_of hdr_names (lower_c hname) = None" if "length hname \<ge> 64"
    using names [THEN map_of_SomeD, THEN length_all_names] that by (metis length_map lower_c_def not_less option.exhaust)
  have low: "map_of all_names (lower_c hname) = map_of hdr_names (lower_c hname)"
    using lower [of "lower_c hname"] names [of "lower_c hname"]
    by (cases "map_of all_names (lower_c hname)"; cases "map_of hdr_names (lower_c hname)") simp_all
  have "NUL \<notin> set (lower_c hname)" using assms by (auto simp: lower_c_def)
  then have "find_handler hdr_handlers hname =
      (if length hname \<ge> 64 then None
       else case map_of all_names hname of Some f \<Rightarrow> Some f | None \<Rightarrow> map_of all_names (lower_c hname))"
    by (simp add: find_handler_def find_names assms hash_calc_tolower split: option.split)
  also have "\<dots> = map_of hdr_names (lower_c hname)"
    using lower [of hname] by (simp add: long low split: option.split)
  finally show ?thesis .
qed

text \<open>
  C37: Start-up fills the table without a fault, and searching it by halves is looking the name up among
  the registered names, without regard to case: no registration shadows another, and each header has
  its long and its short name.
\<close>

theorem find_handler_table:
  assumes "NUL \<notin> set hname"
  shows "init_parser [] = Inr hdr_handlers \<and> find_handler hdr_handlers hname = map_of hdr_names (lower_c hname)"
  using init_parser_table find_handler_lookup [OF assms] by blast

theorem find_handler_table_witness: "find_handler hdr_handlers ''CONTENT-length'' = Some F_content_len"
proof -
  have n: "NUL \<notin> set ''CONTENT-length''" by code_simp
  have "map_of hdr_names (lower_c ''CONTENT-length'') = Some F_content_len" by code_simp
  then show ?thesis using find_handler_table [OF n] by simp
qed

end
