(* ===== verification/HdrNotes.thy ===== *)
theory HdrNotes
  imports HdrTable
begin

text \<open>
  What a header parser does: it reads on in the buffer or throws, never leaves it (\<open>handler_runs\<close>), and
  what it notes in \<open>rdata->msg_info\<close> points to the headers of the message (\<open>handler_notes\<close>): Via, Route
  and Record-Route to the first of their type, the others to the last.
\<close>

section \<open>The parser of a kind of header\<close>

text \<open>The parsers of \<open>sip_auth_parser.c\<close> are a parameter.\<close>

fun run_handler :: "(hdr_func \<Rightarrow> pjsip_hdr parser) \<Rightarrow> uri_handlers \<Rightarrow> hdr_func \<Rightarrow> hdr_parser" where
  "run_handler auth uh F_accept = parse_hdr_accept"
| "run_handler auth uh F_allow = parse_hdr_allow"
| "run_handler auth uh F_call_id = parse_hdr_call_id"
| "run_handler auth uh F_contact = parse_hdr_contact uh"
| "run_handler auth uh F_content_len = parse_hdr_content_len"
| "run_handler auth uh F_content_type = parse_hdr_content_type"
| "run_handler auth uh F_cseq = parse_hdr_cseq"
| "run_handler auth uh F_expires = parse_hdr_expires"
| "run_handler auth uh F_from = parse_hdr_from uh"
| "run_handler auth uh F_max_forwards = parse_hdr_max_forwards"
| "run_handler auth uh F_min_expires = parse_hdr_min_expires"
| "run_handler auth uh F_rr = parse_hdr_rr uh"
| "run_handler auth uh F_route = parse_hdr_route uh"
| "run_handler auth uh F_require = parse_hdr_require"
| "run_handler auth uh F_retry_after = parse_hdr_retry_after"
| "run_handler auth uh F_supported = parse_hdr_supported"
| "run_handler auth uh F_to = parse_hdr_to uh"
| "run_handler auth uh F_unsupported = parse_hdr_unsupported"
| "run_handler auth uh F_via = parse_hdr_via"
| "run_handler auth uh f = hdr_p (auth f) (\<lambda>c. c)"

section \<open>The parsers return\<close>

text \<open>A header parser runs when its reader does, whatever has been noted.\<close>

definition hdr_runs :: "nat \<Rightarrow> hdr_parser \<Rightarrow> bool" where
  "hdr_runs k hp \<longleftrightarrow> (\<forall>ctx. runs k (\<lambda>sc. snd (hp ctx sc)))"

lemma runs_same:
  assumes "runs k p" and "\<And>sc. q sc = (case p sc of Done a sc' \<Rightarrow> Done (f a) sc' | Thrown x sc' \<Rightarrow> Thrown x sc' | Broken e \<Rightarrow> Broken e | Spinning \<Rightarrow> Spinning)"
  shows "runs k q"
  using assms unfolding runs_def by (fastforce split: outcome.splits)

lemma runs_hdrs_p: "runs k p \<Longrightarrow> runs k (\<lambda>sc. snd (hdrs_p p note_hdr ctx sc))"
  by (erule runs_same [where f = "\<lambda>a. ()"]) (simp add: hdrs_p_def split: outcome.split)

lemma runs_hdr_p: "runs 0 p \<Longrightarrow> runs 0 (\<lambda>sc. snd (hdr_p p note_hdr ctx sc))"
  unfolding hdr_p_def by (rule runs_hdrs_p) (intro runs_intros)

lemma spec_NUL_hdr [runs_intros]: "\<not> NOT_COMMA_OR_NEWLINE NUL" "\<not> NOT_NEWLINE NUL" "\<not> VIA_PARAM_SPEC NUL"
  using spec_NUL by blast+

lemma runs_hdr_end [runs_intros]: "runs 0 parse_hdr_end"
  unfolding parse_hdr_end_def by (intro runs_intros)

lemma runs_array_items: "runs 0 (\<lambda>sc. snd (array_items n vs sc))"
proof (induction n arbitrary: vs)
  case 0
  show ?case by (simp add: runs_def)
next
  case (Suc n)
  have eq: "(\<lambda>sc. snd (array_items (Suc n) vs sc)) =
      if_p (\<lambda>sc. cur sc = CHR '','')
        (seq (seq pj_scan_get_char (\<lambda>c. pj_scan_get NOT_COMMA_OR_NEWLINE)) (\<lambda>v sc. snd (array_items n (vs @ [v]) sc))) (ret ())"
    by (auto simp: fun_eq_iff if_p_def ret_def seq_def split: outcome.split)
  show ?case unfolding eq by (intro runs_intros Suc)
qed

lemma runs_array_hdr [runs_intros]: "runs 0 (\<lambda>sc. snd (parse_generic_array_hdr vs sc))"
proof -
  have eq: "(\<lambda>sc. snd (parse_generic_array_hdr vs sc)) =
      if_p (\<lambda>sc. pj_scan_is_eof sc \<or> cur sc = CR \<or> cur sc = LF) parse_hdr_end
        (if length vs \<ge> PJSIP_GENERIC_ARRAY_MAX_COUNT then throw SynErr
         else seq (pj_scan_get NOT_COMMA_OR_NEWLINE) (\<lambda>v.
              seq (\<lambda>sc. snd (array_items (PJSIP_GENERIC_ARRAY_MAX_COUNT - Suc (length vs)) (vs @ [v]) sc)) (\<lambda>u. parse_hdr_end)))"
    by (auto simp: fun_eq_iff if_p_def seq_def parse_generic_array_hdr_def then_end_def split: outcome.split)
  show ?thesis unfolding eq by (intro runs_intros runs_array_items)
qed

lemma runs_array: "runs 0 (\<lambda>sc. snd (array_hdr h ctx sc))"
  by (rule runs_same [OF runs_array_hdr [of "[]"], where f = "\<lambda>a. ()"])
    (auto simp: array_hdr_def split: prod.split outcome.split)

lemma runs_joined: "runs 0 (\<lambda>sc. snd (joined_hdr h get put ctx sc))"
proof (cases "pc_rdata ctx")
  case True
  then show ?thesis
  proof (cases "get ctx")
    case None
    show ?thesis
      by (rule runs_same [OF runs_array_hdr [of "[]"], where f = "\<lambda>a. ()"])
        (auto simp: joined_hdr_def True None split: prod.split outcome.split)
  next
    case (Some r)
    show ?thesis
      by (rule runs_same [OF runs_array_hdr [of "case r of Linked i \<Rightarrow> linked_values ctx i | Loose ws \<Rightarrow> ws"], where f = "\<lambda>a. ()"])
        (auto simp: joined_hdr_def True Some split: prod.split outcome.split array_ref.split)
  qed
next
  case False
  have eq: "joined_hdr h get put ctx = array_hdr h ctx" by (rule ext) (simp add: joined_hdr_def False)
  show ?thesis unfolding eq by (rule runs_array)
qed

lemma runs_generic_string [runs_intros]: "runs 0 parse_generic_string_hdr"
  unfolding parse_generic_string_hdr_def
  by (intro runs_intros runs_seq_first runs_get)

lemma runs_generic_int [runs_intros]: "runs 0 parse_generic_int_hdr"
  unfolding parse_generic_int_hdr_def by (intro runs_intros)

lemma runs_q [runs_intros]: "runs 0 (parse_q v)"
  unfolding parse_q_def Let_def by (intro runs_intros)

lemma runs_token_params [runs_intros]: "runs 0 token_params"
  unfolding token_params_def by (intro runs_intros runs_seq_first runs_params)

lemma runs_contact_param [runs_intros]: "runs 0 (int_parse_contact_param c)"
  unfolding int_parse_contact_param_def by (intro runs_intros runs_seq_first runs_params)

lemma runs_comma_list: "runs 0 p \<Longrightarrow> runs 0 (comma_list p)"
  unfolding comma_list_def by (intro runs_intros runs_seq_first runs_get_char)

lemma runs_contact_item [runs_intros]: "uris_run uh \<Longrightarrow> runs 0 (contact_item uh)"
  unfolding contact_item_def by (intro runs_intros)

lemma runs_fromto [runs_intros]: "uris_run uh \<Longrightarrow> runs 0 (parse_hdr_fromto uh)"
  unfolding parse_hdr_fromto_def by (intro runs_intros runs_seq_first runs_params)

lemma runs_rr_route [runs_intros]: "uris_run uh \<Longrightarrow> runs 0 (parse_hdr_rr_route uh)"
  unfolding parse_hdr_rr_route_def by (intro runs_intros)

lemma runs_routing [runs_intros]: "uris_run uh \<Longrightarrow> runs 0 (routing_hdrs uh h)"
  unfolding routing_hdrs_def by (intro runs_intros runs_comma_list)

lemma runs_sip_version [runs_intros]: "runs 0 parse_sip_version" "runs 0 is_next_sip_version"
  unfolding parse_sip_version_def is_next_sip_version_def by (intro runs_intros)+

lemma runs_via_param [runs_intros]: "runs 0 (int_parse_via_param v)"
  unfolding int_parse_via_param_def by (intro runs_intros runs_seq_first runs_get_char)

lemma runs_via_item [runs_intros]: "runs 0 via_item"
  unfolding via_item_def by (intro runs_intros)

lemma runs_retry_item:
  "(\<And>a. runs 0 (f a)) \<Longrightarrow> (\<And>a. runs 0 (g a)) \<Longrightarrow>
   runs 1 (if_p c (seq (pj_scan_get_quote (CHR ''('') (CHR '')'')) f) (if_p d (seq (int_parse_param False) g) (throw x)))"
  by (intro runs_if_p runs_seq_first runs_get_quote runs_params runs_throw) (auto intro: quote_NUL)

lemma handler_runs: "uris_run uh \<Longrightarrow> runs 0 (auth f) \<Longrightarrow> hdr_runs 0 (run_handler auth uh f)"
  unfolding hdr_runs_def
  by (cases f)
    (simp_all add: parse_hdr_accept_def parse_hdr_allow_def parse_hdr_unsupported_def runs_array
       parse_hdr_require_def parse_hdr_supported_def runs_joined parse_hdr_call_id_def parse_hdr_contact_def
       parse_hdr_content_len_def parse_hdr_content_type_def parse_hdr_cseq_def parse_hdr_expires_def
       parse_hdr_from_def parse_hdr_max_forwards_def parse_hdr_min_expires_def parse_hdr_rr_def parse_hdr_route_def
       parse_hdr_retry_after_def parse_hdr_to_def parse_hdr_via_def,
     (intro allI runs_hdr_p runs_hdrs_p runs_intros runs_comma_list runs_retry_item; assumption)+)

section \<open>What the parsers yield\<close>

definition yields :: "('a \<Rightarrow> bool) \<Rightarrow> 'a parser \<Rightarrow> bool" where
  "yields P p \<longleftrightarrow> (\<forall>sc a sc'. p sc = Done a sc' \<longrightarrow> P a)"

named_theorems yields_intros

lemma yieldsD: "yields P p \<Longrightarrow> p sc = Done a sc' \<Longrightarrow> P a"
  unfolding yields_def by blast

lemma yields_ret [yields_intros]: "P a \<Longrightarrow> yields P (ret a)"
  by (simp add: yields_def ret_def)

lemma yields_throw [yields_intros]: "yields P (throw x)"
  by (simp add: yields_def throw_def)

lemma yields_seq_from: "yields Q p \<Longrightarrow> (\<And>a. Q a \<Longrightarrow> yields P (f a)) \<Longrightarrow> yields P (seq p f)"
  by (fastforce simp: yields_def seq_def split: outcome.splits)

lemma yields_seq [yields_intros]: "(\<And>a. yields P (f a)) \<Longrightarrow> yields P (seq p f)"
  by (rule yields_seq_from [where Q = "\<lambda>a. True"]) (auto simp: yields_def)

lemma yields_if_p [yields_intros]: "yields P p \<Longrightarrow> yields P q \<Longrightarrow> yields P (if_p c p q)"
  by (simp add: yields_def if_p_def)

lemma yields_if [yields_intros]: "(b \<Longrightarrow> yields P p) \<Longrightarrow> (\<not> b \<Longrightarrow> yields P q) \<Longrightarrow> yields P (if b then p else q)"
  by simp

lemma yields_prod [yields_intros]: "(\<And>x y. yields P (f x y)) \<Longrightarrow> yields P (case z of (x, y) \<Rightarrow> f x y)"
  by (cases z) simp

lemma yields_while: "I a \<Longrightarrow> (\<And>a. I a \<Longrightarrow> yields I (p a)) \<Longrightarrow> yields I (while_do c p a)"
proof -
  assume I: "I a" and step: "\<And>a. I a \<Longrightarrow> yields I (p a)"
  have "while_p n c p a sc = Done b sc' \<Longrightarrow> I b" if "I a" for n a b sc sc'
    using that
  proof (induction n arbitrary: a sc)
    case (Suc n)
    then show ?case using yieldsD [OF step [OF Suc.prems(2)]] by (auto simp: seq_def split: outcome.splits if_splits)
  qed simp
  with I show ?thesis unfolding yields_def while_do_def by blast
qed

lemma yields_comma_list: "yields P p \<Longrightarrow> yields (\<lambda>hs. hs \<noteq> [] \<and> list_all P hs) (comma_list p)"
  unfolding comma_list_def
  by (rule yields_seq_from, assumption, rule yields_while)
    (auto intro!: yields_seq yields_ret elim!: yields_seq_from)

text \<open>The URIs.\<close>

definition uris_whole :: "uri_handlers \<Rightarrow> bool" where
  "uris_whole uh \<longleftrightarrow> (\<forall>(s, func) \<in> set uh. \<forall>b. yields uri_whole (func b))"

lemma sip_url_whole: "yields uri_whole (int_parse_sip_url b)"
  unfolding int_parse_sip_url_def by (intro yields_intros) simp_all

lemma other_uri_whole: "yields uri_whole (int_parse_other_uri b)"
  unfolding int_parse_other_uri_def by (intro yields_intros) simp_all

lemma uri_handler_whole: "uris_whole uh \<Longrightarrow> yields uri_whole (find_uri_handler uh scheme b)"
  by (induction uh) (auto simp: uris_whole_def intro: other_uri_whole)

lemma uri_parsed_whole: "uris_whole uh \<Longrightarrow> yields uri_whole (int_parse_uri uh b)"
  unfolding int_parse_uri_def by (intro yields_intros uri_handler_whole)

lemma name_addr_whole:
  assumes "uris_whole uh"
  shows "yields (\<lambda>n. uri_whole (snd n)) (int_parse_name_addr uh)"
proof -
  note uri = yields_seq_from [OF uri_parsed_whole [OF assms]]
  show ?thesis unfolding int_parse_name_addr_def
    by (rule yields_seq, rule yields_seq, (rule uri yields_if_p yields_if yields_throw yields_ret | rule yields_seq | (simp; fail))+)
qed

lemma uri_or_name_addr_whole:
  assumes "uris_whole uh"
  shows "yields uri_whole (int_parse_uri_or_name_addr uh a b)"
proof -
  note uri = yields_seq_from [OF uri_handler_whole [OF assms]] yields_seq_from [OF name_addr_whole [OF assms]]
  show ?thesis unfolding int_parse_uri_or_name_addr_def
    by (rule yields_seq, (rule uri yields_if_p yields_if yields_throw yields_ret yields_prod | rule yields_seq | (simp add: name_addr_of_def; fail))+)
qed

text \<open>A header of a type: whole enough to be cloned, and with the fields of the type where the library reads them.\<close>

definition hdr_shaped :: "pjsip_hdr \<Rightarrow> bool" where
  "hdr_shaped h \<longleftrightarrow>
     (h_type h = PJSIP_H_VIA \<longrightarrow> (\<exists>v. h_val h = HVia v)) \<and>
     (h_type h = PJSIP_H_FROM \<or> h_type h = PJSIP_H_TO \<longrightarrow> (\<exists>f. h_val h = HFromTo f)) \<and>
     (h_type h = PJSIP_H_CSEQ \<longrightarrow> (\<exists>n m. h_val h = HCseq n m)) \<and>
     (h_type h = PJSIP_H_CALL_ID \<longrightarrow> (\<exists>s. h_val h = HString s)) \<and>
     (h_type h = PJSIP_H_CONTENT_TYPE \<longrightarrow> (\<exists>m. h_val h = HCtype m)) \<and>
     (h_type h = PJSIP_H_CONTACT \<longrightarrow> (\<exists>c. h_val h = HContact c)) \<and>
     (h_type h \<in> {PJSIP_H_EXPIRES, PJSIP_H_MIN_EXPIRES, PJSIP_H_MAX_FORWARDS} \<longrightarrow> (\<exists>n. h_val h = HInt n)) \<and>
     (h_type h = PJSIP_H_CONTENT_LENGTH \<longrightarrow> (\<exists>n. h_val h = HClen n)) \<and>
     (h_type h \<in> {PJSIP_H_ROUTE, PJSIP_H_RECORD_ROUTE} \<longrightarrow> (\<exists>r. h_val h = HRouting r))"

definition hdr_good :: "pjsip_hdr \<Rightarrow> bool" where
  "hdr_good h \<longleftrightarrow> hdr_wf h \<and> hdr_shaped h"

definition hdr_typed :: "nat \<Rightarrow> pjsip_hdr \<Rightarrow> bool" where
  "hdr_typed t h \<longleftrightarrow> h_type h = t \<and> hdr_good h"

lemma init_hdr_fields [simp]: "h_type (init_hdr t v) = t" "h_val (init_hdr t v) = v" "init_hdr t v\<lparr>h_val := w\<rparr> = init_hdr t w"
  by (simp_all add: init_hdr_def split: prod.split)

lemmas hdr_creates = pjsip_accept_hdr_create_def pjsip_allow_hdr_create_def pjsip_unsupported_hdr_create_def
  pjsip_require_hdr_create_def pjsip_supported_hdr_create_def pjsip_cid_hdr_init_def pjsip_contact_hdr_create_def
  pjsip_clen_hdr_create_def pjsip_ctype_hdr_create_def pjsip_cseq_hdr_create_def pjsip_expires_hdr_create_def
  pjsip_max_fwd_hdr_create_def pjsip_min_expires_hdr_create_def pjsip_from_hdr_create_def pjsip_to_hdr_create_def
  pjsip_retry_after_hdr_create_def pjsip_rr_hdr_create_def pjsip_route_hdr_create_def pjsip_via_hdr_create_def

lemmas typed_defs = hdr_typed_def hdr_good_def hdr_shaped_def hdr_wf_def hdr_creates

lemma yields_contact_param: "opt_uri_whole (c_uri c) \<Longrightarrow> \<not> star c \<Longrightarrow>
    yields (\<lambda>c. opt_uri_whole (c_uri c) \<and> \<not> star c) (int_parse_contact_param c)"
  unfolding int_parse_contact_param_def
  by (rule yields_while) (auto intro!: yields_intros)

lemma yields_contact_item:
  assumes "uris_whole uh"
  shows "yields (hdr_typed PJSIP_H_CONTACT) (contact_item uh)"
proof -
  note from_uri = yields_seq_from [OF uri_or_name_addr_whole [OF assms]]
  show ?thesis unfolding contact_item_def
    by (rule yields_if_p; (rule yields_seq, rule yields_ret | rule from_uri, rule yields_seq_from [OF yields_contact_param]))
      (auto intro!: yields_ret simp: typed_defs contact0_def opt_uri_whole_def)
qed

lemma yields_fromto:
  assumes "uris_whole uh"
  shows "yields (\<lambda>f. opt_uri_whole (ft_uri f)) (parse_hdr_fromto uh)"
proof -
  note from_uri = yields_seq_from [OF uri_or_name_addr_whole [OF assms]]
  show ?thesis unfolding parse_hdr_fromto_def
    by (rule from_uri, rule yields_seq_from [OF yields_while [where I = "\<lambda>f. opt_uri_whole (ft_uri f)"]])
      (auto intro!: yields_intros simp: fromto0_def opt_uri_whole_def)
qed

lemma yields_routing:
  assumes "uris_whole uh" and "h = init_hdr t v" and "t = PJSIP_H_RECORD_ROUTE \<or> t = PJSIP_H_ROUTE"
  shows "yields (\<lambda>hs. hs \<noteq> [] \<and> list_all (hdr_typed t) hs) (routing_hdrs uh h)"
proof -
  have "yields (\<lambda>r. opt_uri_whole (ra_uri r)) (parse_hdr_rr_route uh)"
    unfolding parse_hdr_rr_route_def
    by (rule yields_seq_from [OF name_addr_whole [OF assms(1)]]) (auto intro!: yields_intros simp: opt_uri_whole_def)
  then have "yields (hdr_typed t) (seq (parse_hdr_rr_route uh) (\<lambda>r. ret (h\<lparr>h_val := HRouting r\<rparr>)))"
    by (rule yields_seq_from) (use assms(2,3) in \<open>auto intro!: yields_ret simp: typed_defs\<close>)
  then show ?thesis unfolding routing_hdrs_def
    by (rule yields_seq_from [OF yields_comma_list]) (auto intro!: yields_intros)
qed

lemma yields_via_item: "yields (hdr_typed PJSIP_H_VIA) via_item"
  unfolding via_item_def by (intro yields_intros) (simp add: typed_defs)

section \<open>The notes point to the headers\<close>

definition first_of :: "nat \<Rightarrow> pjsip_hdr list \<Rightarrow> nat option" where
  "first_of t hs = find_from (\<lambda>h. h_type h = t) 0 hs"

definition last_of :: "nat \<Rightarrow> pjsip_hdr list \<Rightarrow> nat option" where
  "last_of t hs = map_option (\<lambda>i. length hs - 1 - i) (first_of t (rev hs))"

lemma find_from_map: "find_from P (Suc i) hs = map_option Suc (find_from P i hs)"
  by (induction hs arbitrary: i) auto

lemma find_from_append:
  "find_from P i (xs @ ys) = (case find_from P i xs of Some j \<Rightarrow> Some j | None \<Rightarrow> find_from P (i + length xs) ys)"
  by (induction xs arbitrary: i) (auto split: option.split)

lemma find_from_None_iff: "find_from P i hs = None \<longleftrightarrow> (\<forall>h \<in> set hs. \<not> P h)"
  by (induction hs arbitrary: i) auto

lemma found_from_Some: "find_from P i hs = Some j \<Longrightarrow> i \<le> j \<and> j < i + length hs \<and> P (hs ! (j - i))"
proof (induction hs arbitrary: i)
  case (Cons h hs)
  show ?case
  proof (cases "P h")
    case False
    with Cons.prems have "find_from P (Suc i) hs = Some j" by simp
    from Cons.IH [OF this] show ?thesis by (cases "j - i") (auto simp: diff_Suc Suc_le_eq split: nat.splits)
  qed (use Cons.prems in auto)
qed simp

lemma first_of_append:
  "first_of t (xs @ ys) = (case first_of t xs of Some j \<Rightarrow> Some j | None \<Rightarrow> map_option ((+) (length xs)) (first_of t ys))"
proof -
  have "find_from P n ys = map_option ((+) n) (find_from P 0 ys)" for P and n :: nat
    by (induction n) (simp_all add: find_from_map option.map_comp comp_def option.map_ident)
  from this [where n = "length xs"] show ?thesis
    unfolding first_of_def by (simp add: find_from_append split: option.split)
qed

lemma first_of_None_iff: "first_of t hs = None \<longleftrightarrow> (\<forall>h \<in> set hs. h_type h \<noteq> t)"
  by (simp add: first_of_def find_from_None_iff)

lemma first_of_Some: "first_of t hs = Some j \<Longrightarrow> j < length hs \<and> h_type (hs ! j) = t"
  unfolding first_of_def by (drule found_from_Some) simp

lemma last_of_Nil [simp]: "last_of t [] = None" "first_of t [] = None"
  by (simp_all add: last_of_def first_of_def)

lemma last_of_snoc: "last_of t (hs @ [h]) = (if h_type h = t then Some (length hs) else last_of t hs)"
  by (simp add: last_of_def first_of_def find_from_map option.map_comp comp_def)

lemma last_of_other: "\<forall>h \<in> set ys. h_type h \<noteq> t \<Longrightarrow> last_of t (xs @ ys) = last_of t xs"
  by (induction ys rule: rev_induct) (auto simp: last_of_snoc append_assoc [symmetric] simp del: append_assoc)

lemma first_of_same: "list_all (\<lambda>h. h_type h = t') ys \<Longrightarrow> ys \<noteq> [] \<Longrightarrow> first_of t ys = (if t = t' then Some 0 else None)"
  by (cases ys) (auto simp: first_of_None_iff list_all_iff, auto simp: first_of_def)

lemma first_of_other: "list_all (\<lambda>h. h_type h = t') ys \<Longrightarrow> t \<noteq> t' \<Longrightarrow> first_of t (xs @ ys) = first_of t xs"
  using first_of_None_iff [of t ys] by (cases "first_of t xs") (auto simp: first_of_append list_all_iff)

lemma first_of_new:
  "list_all (\<lambda>h. h_type h = t') ys \<Longrightarrow> ys \<noteq> [] \<Longrightarrow>
   first_of t (xs @ ys) = (case first_of t xs of Some j \<Rightarrow> Some j | None \<Rightarrow> if t = t' then Some (length xs) else None)"
  by (simp add: first_of_append first_of_same split: option.split)

lemma last_of_Some: "last_of t hs = Some j \<Longrightarrow> j < length hs \<and> h_type (hs ! j) = t"
proof (induction hs rule: rev_induct)
  case (snoc h hs)
  then show ?case by (cases "h_type h = t") (auto simp: last_of_snoc nth_append)
qed simp

lemma first_of_update: "i < length hs \<Longrightarrow> h_type h = h_type (hs ! i) \<Longrightarrow> first_of t (hs[i := h]) = first_of t hs"
proof -
  have "i < length hs \<Longrightarrow> h_type h = h_type (hs ! i) \<Longrightarrow>
      find_from (\<lambda>h. h_type h = t) j (hs[i := h]) = find_from (\<lambda>h. h_type h = t) j hs" for j
    by (induction hs arbitrary: i j) (auto split: nat.split)
  then show "i < length hs \<Longrightarrow> h_type h = h_type (hs ! i) \<Longrightarrow> ?thesis" by (simp add: first_of_def)
qed

lemma last_of_update: "i < length hs \<Longrightarrow> h_type h = h_type (hs ! i) \<Longrightarrow> last_of t (hs[i := h]) = last_of t hs"
  by (simp add: last_of_def rev_update first_of_update rev_nth)

definition ref_ok :: "nat \<Rightarrow> pjsip_hdr list \<Rightarrow> array_ref option \<Rightarrow> bool" where
  "ref_ok t hs r \<longleftrightarrow> first_of t hs = (case r of Some (Linked i) \<Rightarrow> Some i | _ \<Rightarrow> None)"

definition notes_ok :: "parse_ctx \<Rightarrow> bool" where
  "notes_ok c \<longleftrightarrow>
     pc_cid c = last_of PJSIP_H_CALL_ID (pc_hdrs c) \<and> pc_from c = last_of PJSIP_H_FROM (pc_hdrs c) \<and>
     pc_to c = last_of PJSIP_H_TO (pc_hdrs c) \<and> pc_cseq c = last_of PJSIP_H_CSEQ (pc_hdrs c) \<and>
     pc_max_fwd c = last_of PJSIP_H_MAX_FORWARDS (pc_hdrs c) \<and> pc_ctype c = last_of PJSIP_H_CONTENT_TYPE (pc_hdrs c) \<and>
     pc_clen c = last_of PJSIP_H_CONTENT_LENGTH (pc_hdrs c) \<and> pc_via c = first_of PJSIP_H_VIA (pc_hdrs c) \<and>
     pc_route c = first_of PJSIP_H_ROUTE (pc_hdrs c) \<and> pc_record_route c = first_of PJSIP_H_RECORD_ROUTE (pc_hdrs c) \<and>
     ref_ok PJSIP_H_REQUIRE (pc_hdrs c) (pc_require c) \<and> ref_ok PJSIP_H_SUPPORTED (pc_hdrs c) (pc_supported c)"

definition ctx_ok :: "parse_ctx \<Rightarrow> bool" where
  "ctx_ok c \<longleftrightarrow> (pc_rdata c \<longrightarrow> notes_ok c) \<and> list_all hdr_good (pc_hdrs c)"

lemma ctx0_ok: "ctx_ok (parse_ctx0 rdata)"
  by (simp add: ctx_ok_def notes_ok_def parse_ctx0_def ref_ok_def)

text \<open>What holds of the notes before a header is parsed holds afterwards, also where the parser throws.\<close>

definition keeps :: "hdr_parser \<Rightarrow> bool" where
  "keeps hp \<longleftrightarrow> (\<forall>c sc. ctx_ok c \<longrightarrow> ctx_ok (fst (hp c sc)) \<and> pc_rdata (fst (hp c sc)) = pc_rdata c)"

lemma keeps_hdrs_p:
  assumes "yields (\<lambda>hs. hs \<noteq> [] \<and> list_all (hdr_typed t) hs) p"
    and "\<And>hs. notes_ok c \<Longrightarrow> hs \<noteq> [] \<Longrightarrow> list_all (\<lambda>h. h_type h = t) hs \<Longrightarrow> notes_ok ((f c)\<lparr>pc_hdrs := pc_hdrs c @ hs\<rparr>)"
    and "pc_rdata (f c) = pc_rdata c" and "ctx_ok c"
  shows "ctx_ok (fst (hdrs_p p f c sc)) \<and> pc_rdata (fst (hdrs_p p f c sc)) = pc_rdata c"
proof (cases "p sc")
  case (Done hs sc')
  from yieldsD [OF assms(1) Done] have hs: "hs \<noteq> []" "list_all (hdr_typed t) hs" by simp_all
  then have t: "list_all (\<lambda>h. h_type h = t) hs" "list_all hdr_good hs"
    by (auto simp: hdr_typed_def list_all_iff)
  show ?thesis using assms(3,4) assms(2) [OF _ hs(1) t(1)] t(2)
    by (auto simp: hdrs_p_def Done ctx_ok_def if_rdata_def)
qed (use assms in \<open>simp_all add: hdrs_p_def\<close>)

lemma keeps_hdr_p:
  assumes "yields (hdr_typed t) p"
    and "\<And>h. notes_ok c \<Longrightarrow> h_type h = t \<Longrightarrow> notes_ok ((f c)\<lparr>pc_hdrs := pc_hdrs c @ [h]\<rparr>)"
    and "pc_rdata (f c) = pc_rdata c" and "ctx_ok c"
  shows "ctx_ok (fst (hdr_p p f c sc)) \<and> pc_rdata (fst (hdr_p p f c sc)) = pc_rdata c"
proof (cases "p sc")
  case (Done h sc')
  from yieldsD [OF assms(1) Done] have h: "h_type h = t" "hdr_good h" by (simp_all add: hdr_typed_def)
  show ?thesis using assms(3,4) assms(2) [OF _ h(1)] h(2)
    by (auto simp: hdr_p_def hdrs_p_def seq_def ret_def Done ctx_ok_def if_rdata_def)
qed (use assms in \<open>simp_all add: hdr_p_def hdrs_p_def seq_def\<close>)

lemmas notes_simps = notes_ok_def ref_ok_def last_of_snoc next_hdr_def
  first_of_new [of _ "[_]", simplified]

text \<open>The headers the notes are about.\<close>

abbreviation (input) noted_types :: "nat set" where
  "noted_types \<equiv> {PJSIP_H_CALL_ID, PJSIP_H_FROM, PJSIP_H_TO, PJSIP_H_CSEQ, PJSIP_H_MAX_FORWARDS, PJSIP_H_CONTENT_TYPE,
     PJSIP_H_CONTENT_LENGTH, PJSIP_H_VIA, PJSIP_H_ROUTE, PJSIP_H_RECORD_ROUTE, PJSIP_H_REQUIRE, PJSIP_H_SUPPORTED}"

lemma notes_unnoted:
  assumes "notes_ok c" and "list_all (\<lambda>h. h_type h = t) hs" and "t \<notin> noted_types"
  shows "notes_ok (c\<lparr>pc_hdrs := pc_hdrs c @ hs\<rparr>)"
proof -
  have "first_of u (pc_hdrs c @ hs) = first_of u (pc_hdrs c)" "last_of u (pc_hdrs c @ hs) = last_of u (pc_hdrs c)" if "u \<noteq> t" for u
    using first_of_other [OF assms(2) that] last_of_other [of hs u] assms(2) that by (auto simp: list_all_iff)
  with assms(1,3) show ?thesis by (auto simp: notes_ok_def ref_ok_def)
qed

lemma notes_one:
  assumes "notes_ok c"
  shows "h_type h = PJSIP_H_CALL_ID \<Longrightarrow> notes_ok (c\<lparr>pc_cid := Some (next_hdr c), pc_hdrs := pc_hdrs c @ [h]\<rparr>)"
    "h_type h = PJSIP_H_FROM \<Longrightarrow> notes_ok (c\<lparr>pc_from := Some (next_hdr c), pc_hdrs := pc_hdrs c @ [h]\<rparr>)"
    "h_type h = PJSIP_H_TO \<Longrightarrow> notes_ok (c\<lparr>pc_to := Some (next_hdr c), pc_hdrs := pc_hdrs c @ [h]\<rparr>)"
    "h_type h = PJSIP_H_CSEQ \<Longrightarrow> notes_ok (c\<lparr>pc_cseq := Some (next_hdr c), pc_hdrs := pc_hdrs c @ [h]\<rparr>)"
    "h_type h = PJSIP_H_MAX_FORWARDS \<Longrightarrow> notes_ok (c\<lparr>pc_max_fwd := Some (next_hdr c), pc_hdrs := pc_hdrs c @ [h]\<rparr>)"
    "h_type h = PJSIP_H_CONTENT_TYPE \<Longrightarrow> notes_ok (c\<lparr>pc_ctype := Some (next_hdr c), pc_hdrs := pc_hdrs c @ [h]\<rparr>)"
    "h_type h = PJSIP_H_CONTENT_LENGTH \<Longrightarrow> notes_ok (c\<lparr>pc_clen := Some (next_hdr c), pc_hdrs := pc_hdrs c @ [h]\<rparr>)"
  using assms by (auto simp: notes_simps split: option.splits array_ref.splits)

lemma first_some_else: "(case x of None \<Rightarrow> Some a | Some j \<Rightarrow> Some j) = (if x = None then Some a else x)"
  by (cases x) auto

lemma notes_list:
  assumes "notes_ok c" and "list_all (\<lambda>h. h_type h = t) hs" and "hs \<noteq> []"
  shows
    "t = PJSIP_H_VIA \<Longrightarrow>
     notes_ok ((if pc_via c = None then c\<lparr>pc_via := Some (next_hdr c)\<rparr> else c)\<lparr>pc_hdrs := pc_hdrs c @ hs\<rparr>)"
    "t = PJSIP_H_ROUTE \<Longrightarrow>
     notes_ok ((if pc_route c = None then c\<lparr>pc_route := Some (next_hdr c)\<rparr> else c)\<lparr>pc_hdrs := pc_hdrs c @ hs\<rparr>)"
    "t = PJSIP_H_RECORD_ROUTE \<Longrightarrow>
     notes_ok ((if pc_record_route c = None then c\<lparr>pc_record_route := Some (next_hdr c)\<rparr> else c)\<lparr>pc_hdrs := pc_hdrs c @ hs\<rparr>)"
proof -
  have other: "last_of u (pc_hdrs c @ hs) = last_of u (pc_hdrs c)" if "u \<noteq> t" for u
    using assms(2) that by (intro last_of_other) (auto simp: list_all_iff)
  have first: "first_of u (pc_hdrs c @ hs) =
      (if first_of u (pc_hdrs c) = None \<and> u = t then Some (length (pc_hdrs c)) else first_of u (pc_hdrs c))" for u
    using first_of_new [OF assms(2,3)] by (auto split: option.split)
  show "t = PJSIP_H_VIA \<Longrightarrow>
     notes_ok ((if pc_via c = None then c\<lparr>pc_via := Some (next_hdr c)\<rparr> else c)\<lparr>pc_hdrs := pc_hdrs c @ hs\<rparr>)"
    "t = PJSIP_H_ROUTE \<Longrightarrow>
     notes_ok ((if pc_route c = None then c\<lparr>pc_route := Some (next_hdr c)\<rparr> else c)\<lparr>pc_hdrs := pc_hdrs c @ hs\<rparr>)"
    "t = PJSIP_H_RECORD_ROUTE \<Longrightarrow>
     notes_ok ((if pc_record_route c = None then c\<lparr>pc_record_route := Some (next_hdr c)\<rparr> else c)\<lparr>pc_hdrs := pc_hdrs c @ hs\<rparr>)"
    using assms(1) by (auto simp: notes_ok_def ref_ok_def other first next_hdr_def)
qed

lemma keepsI: "(\<And>c sc. ctx_ok c \<Longrightarrow> ctx_ok (fst (hp c sc)) \<and> pc_rdata (fst (hp c sc)) = pc_rdata c) \<Longrightarrow> keeps hp"
  by (simp add: keeps_def)

lemma keeps_unnoted:
  assumes "yields (\<lambda>h. h_type h \<notin> noted_types \<and> hdr_good h) p"
  shows "keeps (hdr_p p (\<lambda>c. c))"
proof (rule keepsI)
  fix c sc assume c: "ctx_ok c"
  show "ctx_ok (fst (hdr_p p (\<lambda>c. c) c sc)) \<and> pc_rdata (fst (hdr_p p (\<lambda>c. c) c sc)) = pc_rdata c"
  proof (cases "p sc")
    case (Done h sc')
    from yieldsD [OF assms Done] have h: "h_type h \<notin> noted_types" "hdr_good h" by blast+
    from c notes_unnoted [of c "h_type h" "[h]", OF _ _ h(1)] h(2) show ?thesis
      by (auto simp: hdr_p_def hdrs_p_def seq_def ret_def Done ctx_ok_def if_rdata_def)
  qed (use c in \<open>simp_all add: hdr_p_def hdrs_p_def seq_def\<close>)
qed

lemma keeps_array:
  assumes "h = init_hdr t v" and "t \<notin> noted_types" and "t \<notin> {PJSIP_H_CONTACT, PJSIP_H_EXPIRES, PJSIP_H_MIN_EXPIRES}"
  shows "keeps (array_hdr h)"
proof (rule keepsI)
  fix c sc assume c: "ctx_ok c"
  obtain vs r where r: "parse_generic_array_hdr [] sc = (vs, r)" by fastforce
  have h: "h_type (h\<lparr>h_val := HArray vs\<rparr>) = t" "hdr_good (h\<lparr>h_val := HArray vs\<rparr>)"
    using assms by (simp_all add: hdr_good_def hdr_wf_def hdr_shaped_def)
  show "ctx_ok (fst (array_hdr h c sc)) \<and> pc_rdata (fst (array_hdr h c sc)) = pc_rdata c"
    using c notes_unnoted [of c t "[h\<lparr>h_val := HArray vs\<rparr>]", OF _ _ assms(2)] h
    by (cases r) (auto simp: array_hdr_def r ctx_ok_def)
qed

text \<open>The two headers whose lines are joined.\<close>

lemma notes_first_line:
  assumes "notes_ok c" and "h_type h = t" and "first_of t (pc_hdrs c) = None"
  shows
    "t = PJSIP_H_REQUIRE \<Longrightarrow>
     notes_ok (c\<lparr>pc_hdrs := pc_hdrs c @ [h], pc_require := Some (Linked (next_hdr c))\<rparr>) \<and> notes_ok (c\<lparr>pc_require := Some (Loose vs)\<rparr>)"
    "t = PJSIP_H_SUPPORTED \<Longrightarrow>
     notes_ok (c\<lparr>pc_hdrs := pc_hdrs c @ [h], pc_supported := Some (Linked (next_hdr c))\<rparr>) \<and> notes_ok (c\<lparr>pc_supported := Some (Loose vs)\<rparr>)"
proof -
  have new: "first_of u (pc_hdrs c @ [h]) = (if u = t then Some (length (pc_hdrs c)) else first_of u (pc_hdrs c))" for u
    using assms(2,3) first_of_new [of t "[h]" u "pc_hdrs c"] by (auto split: option.split)
  show "t = PJSIP_H_REQUIRE \<Longrightarrow>
     notes_ok (c\<lparr>pc_hdrs := pc_hdrs c @ [h], pc_require := Some (Linked (next_hdr c))\<rparr>) \<and> notes_ok (c\<lparr>pc_require := Some (Loose vs)\<rparr>)"
    "t = PJSIP_H_SUPPORTED \<Longrightarrow>
     notes_ok (c\<lparr>pc_hdrs := pc_hdrs c @ [h], pc_supported := Some (Linked (next_hdr c))\<rparr>) \<and> notes_ok (c\<lparr>pc_supported := Some (Loose vs)\<rparr>)"
    using assms by (simp_all add: notes_ok_def ref_ok_def last_of_snoc new next_hdr_def)
qed

lemma keeps_joined:
  assumes h: "h = init_hdr t v" and t: "t = PJSIP_H_REQUIRE \<and> get = pc_require \<and> put = (\<lambda>v c. c\<lparr>pc_require := v\<rparr>) \<or>
      t = PJSIP_H_SUPPORTED \<and> get = pc_supported \<and> put = (\<lambda>v c. c\<lparr>pc_supported := v\<rparr>)"
  shows "keeps (joined_hdr h get put)"
proof (rule keepsI)
  fix c sc assume c: "ctx_ok c"
  have good: "h_type (h\<lparr>h_val := HArray vs\<rparr>) = t" "hdr_good (h\<lparr>h_val := HArray vs\<rparr>)" for vs
    using t by (auto simp: h hdr_good_def hdr_wf_def hdr_shaped_def)
  let ?ok = "\<lambda>c'. ctx_ok c' \<and> pc_rdata c' = pc_rdata c"
  consider (plain) "\<not> pc_rdata c" | (first) "pc_rdata c" "get c = None"
    | (linked) i where "pc_rdata c" "get c = Some (Linked i)" | (loose) ws where "pc_rdata c" "get c = Some (Loose ws)"
    by (cases "get c") (auto split: array_ref.splits, metis array_ref.exhaust)
  then show "?ok (fst (joined_hdr h get put c sc))"
  proof cases
    case plain
    obtain vs r where r: "parse_generic_array_hdr [] sc = (vs, r)" by fastforce
    show ?thesis using c good(2) [of vs] plain by (cases r) (auto simp: joined_hdr_def array_hdr_def r ctx_ok_def)
  next
    case first
    obtain vs r where r: "parse_generic_array_hdr [] sc = (vs, r)" by fastforce
    from c first have n: "notes_ok c" "list_all hdr_good (pc_hdrs c)" by (simp_all add: ctx_ok_def)
    have none: "first_of t (pc_hdrs c) = None" using n(1) first t by (auto simp: notes_ok_def ref_ok_def)
    have "notes_ok (put (Some (Linked (next_hdr c))) (c\<lparr>pc_hdrs := pc_hdrs c @ [h\<lparr>h_val := HArray vs\<rparr>]\<rparr>))"
      "notes_ok (put (Some (Loose vs)) c)"
      using t notes_first_line [OF n(1) good(1) none] by auto
    moreover have "pc_hdrs (put x c') = pc_hdrs c'" "pc_rdata (put x c') = pc_rdata c'" for x c' using t by auto
    ultimately show ?thesis using n(2) good(2) [of vs] first
      by (cases r) (auto simp: joined_hdr_def r ctx_ok_def)
  next
    case (linked i)
    obtain vs r where r: "parse_generic_array_hdr (linked_values c i) sc = (vs, r)" by fastforce
    from c linked have n: "notes_ok c" "list_all hdr_good (pc_hdrs c)" by (simp_all add: ctx_ok_def)
    have "first_of t (pc_hdrs c) = Some i" using n(1) linked t by (auto simp: notes_ok_def ref_ok_def)
    from first_of_Some [OF this] have i: "i < length (pc_hdrs c)" "h_type (pc_hdrs c ! i) = t" by simp_all
    let ?h = "(pc_hdrs c ! i)\<lparr>h_val := HArray vs\<rparr>"
    have same: "first_of u ((pc_hdrs c)[i := ?h]) = first_of u (pc_hdrs c)" "last_of u ((pc_hdrs c)[i := ?h]) = last_of u (pc_hdrs c)" for u
      using i by (simp_all add: first_of_update last_of_update)
    have "hdr_good ?h" using i(2) t by (auto simp: hdr_good_def hdr_wf_def hdr_shaped_def)
    then have "list_all hdr_good ((pc_hdrs c)[i := ?h])" using n(2) by (auto simp: list_all_iff dest: set_update_subset_insert [THEN subsetD])
    moreover have "notes_ok (c\<lparr>pc_hdrs := (pc_hdrs c)[i := ?h]\<rparr>)"
      using n(1) by (simp add: notes_ok_def ref_ok_def same)
    ultimately show ?thesis using linked by (simp add: joined_hdr_def r ctx_ok_def)
  next
    case (loose ws)
    obtain vs r where r: "parse_generic_array_hdr ws sc = (vs, r)" by fastforce
    from c loose have n: "notes_ok c" "list_all hdr_good (pc_hdrs c)" by (simp_all add: ctx_ok_def)
    have "notes_ok (put (Some (Loose vs)) c) \<and> pc_hdrs (put (Some (Loose vs)) c) = pc_hdrs c \<and> pc_rdata (put (Some (Loose vs)) c) = pc_rdata c"
      using n(1) t loose by (auto simp: notes_ok_def ref_ok_def)
    with n(2) loose show ?thesis by (simp add: joined_hdr_def r ctx_ok_def)
  qed
qed

lemma keeps_generic_string: "keeps (parse_hdr_generic_string hname)"
  unfolding parse_hdr_generic_string_def
  by (rule keeps_unnoted)
    (auto intro!: yields_intros simp: pjsip_generic_string_hdr_create_def pjsip_generic_string_hdr_init2_def named_hdr_def
       hdr_good_def hdr_wf_def hdr_shaped_def)

definition auth_ok :: "(hdr_func \<Rightarrow> pjsip_hdr parser) \<Rightarrow> bool" where
  "auth_ok auth \<longleftrightarrow> (\<forall>f. runs 0 (auth f) \<and> yields (\<lambda>h. h_type h \<notin> noted_types \<and> hdr_good h) (auth f))"

lemma handler_notes:
  assumes uh: "uris_whole uh" and auth: "auth_ok auth"
  shows "keeps (run_handler auth uh f)"
proof -
  have unnoted: "keeps (hdr_p p (\<lambda>c. c))" if "yields (\<lambda>h. h_type h \<notin> noted_types \<and> hdr_good h) p" for p
    using that by (rule keeps_unnoted)
  have au: "yields (\<lambda>h. h_type h \<notin> noted_types \<and> hdr_good h) (auth g)" for g
    using auth by (simp add: auth_ok_def)
  note defs = typed_defs pjsip_retry_after_hdr_create_def
  show ?thesis
  proof (cases f)
    case F_accept
    then show ?thesis by (simp add: parse_hdr_accept_def pjsip_accept_hdr_create_def keeps_array [OF refl])
  next
    case F_allow
    then show ?thesis by (simp add: parse_hdr_allow_def pjsip_allow_hdr_create_def keeps_array [OF refl])
  next
    case F_unsupported
    then show ?thesis by (simp add: parse_hdr_unsupported_def pjsip_unsupported_hdr_create_def keeps_array [OF refl])
  next
    case F_require
    then show ?thesis by (simp add: parse_hdr_require_def pjsip_require_hdr_create_def keeps_joined [OF refl])
  next
    case F_supported
    then show ?thesis by (simp add: parse_hdr_supported_def pjsip_supported_hdr_create_def keeps_joined [OF refl])
  next
    case F_call_id
    show ?thesis unfolding F_call_id run_handler.simps
      by (rule keepsI, unfold parse_hdr_call_id_def, rule keeps_hdr_p [where t = PJSIP_H_CALL_ID])
        (auto intro!: yields_intros notes_one simp: defs)
  next
    case F_contact
    have "yields (\<lambda>hs. hs \<noteq> [] \<and> list_all (hdr_typed PJSIP_H_CONTACT) hs)
        (seq (comma_list (contact_item uh)) (\<lambda>hs. seq parse_hdr_end (\<lambda>u. ret hs)))"
      by (rule yields_seq_from [OF yields_comma_list [OF yields_contact_item [OF uh]]]) (auto intro!: yields_intros)
    then show ?thesis unfolding F_contact run_handler.simps
      by (intro keepsI, unfold parse_hdr_contact_def, intro keeps_hdrs_p [where t = PJSIP_H_CONTACT])
        (auto intro: notes_unnoted)
  next
    case F_via
    have "yields (\<lambda>hs. hs \<noteq> [] \<and> list_all (hdr_typed PJSIP_H_VIA) hs)
        (seq (comma_list via_item) (\<lambda>hs. seq parse_hdr_end (\<lambda>u. ret hs)))"
      by (rule yields_seq_from [OF yields_comma_list [OF yields_via_item]]) (auto intro!: yields_intros)
    then show ?thesis unfolding F_via run_handler.simps
      by (intro keepsI, unfold parse_hdr_via_def, intro keeps_hdrs_p [where t = PJSIP_H_VIA])
        (assumption | (rule notes_list; (assumption | rule refl)) | simp)+
  next
    case F_rr
    have "yields (\<lambda>hs. hs \<noteq> [] \<and> list_all (hdr_typed PJSIP_H_RECORD_ROUTE) hs) (routing_hdrs uh pjsip_rr_hdr_create)"
      by (rule yields_routing [OF uh pjsip_rr_hdr_create_def]) simp
    then show ?thesis unfolding F_rr run_handler.simps
      by (intro keepsI, unfold parse_hdr_rr_def, intro keeps_hdrs_p [where t = PJSIP_H_RECORD_ROUTE])
        (assumption | (rule notes_list; (assumption | rule refl)) | simp)+
  next
    case F_route
    have "yields (\<lambda>hs. hs \<noteq> [] \<and> list_all (hdr_typed PJSIP_H_ROUTE) hs) (routing_hdrs uh pjsip_route_hdr_create)"
      by (rule yields_routing [OF uh pjsip_route_hdr_create_def]) simp
    then show ?thesis unfolding F_route run_handler.simps
      by (intro keepsI, unfold parse_hdr_route_def, intro keeps_hdrs_p [where t = PJSIP_H_ROUTE])
        (assumption | (rule notes_list; (assumption | rule refl)) | simp)+
  next
    case F_content_len
    show ?thesis unfolding F_content_len run_handler.simps
      by (rule keepsI, unfold parse_hdr_content_len_def, rule keeps_hdr_p [where t = PJSIP_H_CONTENT_LENGTH])
        (auto intro!: yields_intros notes_one simp: defs)
  next
    case F_content_type
    show ?thesis unfolding F_content_type run_handler.simps
      by (rule keepsI, unfold parse_hdr_content_type_def, rule keeps_hdr_p [where t = PJSIP_H_CONTENT_TYPE])
        (auto intro!: yields_intros notes_one simp: defs)
  next
    case F_cseq
    show ?thesis unfolding F_cseq run_handler.simps
      by (rule keepsI, unfold parse_hdr_cseq_def, rule keeps_hdr_p [where t = PJSIP_H_CSEQ])
        (auto intro!: yields_intros notes_one simp: defs)
  next
    case F_max_forwards
    show ?thesis unfolding F_max_forwards run_handler.simps
      by (rule keepsI, unfold parse_hdr_max_forwards_def, rule keeps_hdr_p [where t = PJSIP_H_MAX_FORWARDS])
        (auto intro!: yields_intros notes_one simp: defs)
  next
    case F_from
    have "yields (hdr_typed PJSIP_H_FROM) (seq (parse_hdr_fromto uh) (\<lambda>f. ret (pjsip_from_hdr_create\<lparr>h_val := HFromTo f\<rparr>)))"
      by (rule yields_seq_from [OF yields_fromto [OF uh]]) (auto intro!: yields_ret simp: defs)
    then show ?thesis unfolding F_from run_handler.simps
      by (intro keepsI, unfold parse_hdr_from_def, intro keeps_hdr_p [where t = PJSIP_H_FROM]) (auto intro!: notes_one)
  next
    case F_to
    have "yields (hdr_typed PJSIP_H_TO) (seq (parse_hdr_fromto uh) (\<lambda>f. ret (pjsip_to_hdr_create\<lparr>h_val := HFromTo f\<rparr>)))"
      by (rule yields_seq_from [OF yields_fromto [OF uh]]) (auto intro!: yields_ret simp: defs)
    then show ?thesis unfolding F_to run_handler.simps
      by (intro keepsI, unfold parse_hdr_to_def, intro keeps_hdr_p [where t = PJSIP_H_TO]) (auto intro!: notes_one)
  next
    case F_expires
    show ?thesis unfolding F_expires run_handler.simps parse_hdr_expires_def
      by (rule unnoted) (auto intro!: yields_intros simp: defs)
  next
    case F_min_expires
    show ?thesis unfolding F_min_expires run_handler.simps parse_hdr_min_expires_def
      by (rule unnoted) (auto intro!: yields_intros simp: defs)
  next
    case F_retry_after
    show ?thesis unfolding F_retry_after run_handler.simps parse_hdr_retry_after_def
      by (rule unnoted) (intro yields_seq yields_ret, simp add: defs)
  qed (simp_all only: run_handler.simps unnoted [OF au])
qed

end
