(* ===== verification/MsgParser.thy ===== *)
theory MsgParser
  imports HdrNotes SipUtil
begin

text \<open>
  The parser of SIP messages (\<open>int_parse_msg\<close> and its callers in \<open>3rd/src/pjsip/sip_parser.c\<close>): the first
  line, the loop over the headers with its recovery from a header that cannot be parsed, the body.
  Multipart bodies, the \<open>tel:\<close> URIs and the headers of \<open>sip_auth_parser.c\<close> are parameters. The fuel of
  the loop is the length of what is left: every header, and every recovery, reads at least a character.
\<close>

section \<open>The first line\<close>

abbreviation (input) PJSIP_MIN_STATUS_CODE :: int where "PJSIP_MIN_STATUS_CODE \<equiv> 100"
abbreviation (input) PJSIP_MAX_STATUS_CODE :: int where "PJSIP_MAX_STATUS_CODE \<equiv> 999"

definition int_parse_req_line :: "uri_handlers \<Rightarrow> msg_line parser" where
  "int_parse_req_line uh =
     seq (pj_scan_get TOKEN_SPEC) (\<lambda>token.
     seq (int_parse_uri uh True) (\<lambda>uri.
     seq parse_sip_version (\<lambda>u.
     seq pj_scan_get_newline (\<lambda>u. ret (ReqLine (pjsip_method_init_np token) uri)))))"

definition int_parse_status_line :: "msg_line parser" where
  "int_parse_status_line =
     seq parse_sip_version (\<lambda>u.
     seq (pj_scan_get DIGIT_SPEC) (\<lambda>token.
     seq (strtoi_validate token PJSIP_MIN_STATUS_CODE PJSIP_MAX_STATUS_CODE) (\<lambda>code.
     seq (if_p (\<lambda>sc. cur sc \<noteq> CR \<and> cur sc \<noteq> LF) (pj_scan_get NOT_NEWLINE) (ret [])) (\<lambda>reason.
     seq pj_scan_get_newline (\<lambda>u. ret (StatusLine code reason))))))"

text \<open>
  The message behind leading line ends, \<open>None\<close> for a packet of line ends only, which keeps a NAT
  binding open. In front: what the error report calls the line.
\<close>

definition first_line :: "uri_handlers \<Rightarrow> scanner \<Rightarrow> string \<times> msg_line option outcome" where
  "first_line uh sc =
     (case while_do (\<lambda>sc. PJ_SCAN_IS_NEWLINE (cur sc)) (\<lambda>u. pj_scan_get_newline) () sc of
        Done u sc1 \<Rightarrow>
          if pj_scan_is_eof sc1 then ([], Done None sc1)
          else
            (case is_next_sip_version sc1 of
               Done is_response sc2 \<Rightarrow>
                 (if is_response then ''Status Line'' else ''Request Line'',
                  seq (if is_response then int_parse_status_line else int_parse_req_line uh) (\<lambda>l. ret (Some l)) sc2)
             | Thrown x s \<Rightarrow> ([], Thrown x s)
             | Broken f \<Rightarrow> ([], Broken f)
             | Spinning \<Rightarrow> ([], Spinning))
      | Thrown x s \<Rightarrow> ([], Thrown x s)
      | Broken f \<Rightarrow> ([], Broken f)
      | Spinning \<Rightarrow> ([], Spinning))"

section \<open>The headers\<close>

text \<open>What the parser is given: the look-up in the table of headers, the tables of URIs, the parameters.\<close>

record parser_env =
  pe_find :: "string \<Rightarrow> hdr_func option"
  pe_uris :: uri_handlers
  pe_auth :: "hdr_func \<Rightarrow> pjsip_hdr parser"
  pe_multipart :: "string \<Rightarrow> media_type \<Rightarrow> msg_body option"

record err_report =
  er_code :: exn
  er_line :: int
  er_col :: int
  er_hname :: string

definition err_at :: "exn \<Rightarrow> string \<Rightarrow> scanner \<Rightarrow> err_report" where
  "err_at x hname sc = \<lparr>er_code = x, er_line = sc_line sc, er_col = pj_scan_get_col sc + 1, er_hname = hname\<rparr>"

definition sip_env ::
    "(bool \<Rightarrow> pj_uri parser) \<Rightarrow> (hdr_func \<Rightarrow> pjsip_hdr parser) \<Rightarrow> (string \<Rightarrow> media_type \<Rightarrow> msg_body option) \<Rightarrow> parser_env" where
  "sip_env tel auth multipart =
     \<lparr>pe_find = find_handler hdr_handlers, pe_uris = endpt_uri_handlers tel, pe_auth = auth, pe_multipart = multipart\<rparr>"

text \<open>One header line; the name read so far goes into the report of an error.\<close>

definition hdr_line :: "parser_env \<Rightarrow> parse_ctx \<Rightarrow> scanner \<Rightarrow> string \<times> parse_ctx \<times> unit outcome" where
  "hdr_line env ctx sc =
     (case pj_scan_get TOKEN_SPEC sc of
        Done hname sc1 \<Rightarrow>
          (hname,
           case pj_scan_get_char sc1 of
             Done c sc2 \<Rightarrow>
               if c \<noteq> CHR '':'' then (ctx, Thrown SynErr sc2)
               else (case pe_find env hname of
                       Some func \<Rightarrow> run_handler (pe_auth env) (pe_uris env) func ctx sc2
                     | None \<Rightarrow> parse_hdr_generic_string hname ctx sc2)
           | Thrown x s \<Rightarrow> (ctx, Thrown x s)
           | Broken f \<Rightarrow> (ctx, Broken f)
           | Spinning \<Rightarrow> (ctx, Spinning))
      | Thrown x s \<Rightarrow> ([], ctx, Thrown x s)
      | Broken f \<Rightarrow> ([], ctx, Broken f)
      | Spinning \<Rightarrow> ([], ctx, Spinning))"

text \<open>Whether the header just added is a Content-Type, and so the one that speaks for the body.\<close>

definition ctype_after :: "parse_ctx \<Rightarrow> parse_ctx \<Rightarrow> nat option \<Rightarrow> nat option" where
  "ctype_after old new ctype_hdr =
     (if length (pc_hdrs old) < length (pc_hdrs new) \<and> h_type (pc_hdrs new ! length (pc_hdrs old)) = PJSIP_H_CONTENT_TYPE
      then Some (length (pc_hdrs old)) else ctype_hdr)"

text \<open>To the next line that does not continue the header that could not be parsed.\<close>

definition skip_header :: "unit parser" where
  "skip_header =
     seq (if_p (\<lambda>sc. \<not> pj_scan_is_eof sc)
            (seq pj_scan_skip_line (\<lambda>u. while_do (\<lambda>sc. PJ_SCAN_IS_SPACE (cur sc)) (\<lambda>u. pj_scan_skip_line) ()))
            (ret ()))
       (\<lambda>u. set_skip_ws PJ_SCAN_AUTOSKIP_WS_HEADER)"

definition more_headers :: "scanner \<Rightarrow> bool" where
  "more_headers sc \<longleftrightarrow> \<not> pj_scan_is_eof sc \<and> \<not> PJ_SCAN_IS_NEWLINE (cur sc)"

text \<open>
  The loop over the headers: whether the last one was parsed, the notes, which header speaks for the
  body, and the reports. A last header that cannot be parsed is the end of the message, an earlier one
  is left out.
\<close>

type_synonym hdrs_state = "parse_ctx \<times> nat option \<times> err_report list"

fun hdr_loop :: "nat \<Rightarrow> parser_env \<Rightarrow> hdrs_state \<Rightarrow> (bool \<times> hdrs_state) parser" where
  "hdr_loop 0 env st sc = Spinning"
| "hdr_loop (Suc n) env st sc =
     (let (ctx, ctype, errs) = st
      in case hdr_line env ctx sc of
        (hname, ctx', Done u sc') \<Rightarrow>
          let st = (ctx', ctype_after ctx ctx' ctype, errs)
          in if more_headers sc' then hdr_loop n env st sc' else Done (True, st) sc'
      | (hname, ctx', Thrown x sc') \<Rightarrow>
          let st = (ctx', ctype, errs @ [err_at x hname sc'])
          in seq skip_header (\<lambda>u. if_p more_headers (hdr_loop n env st) (ret (False, st))) sc'
      | (hname, ctx', Broken f) \<Rightarrow> Broken f
      | (hname, ctx', Spinning) \<Rightarrow> Spinning)"

definition parse_hdrs :: "parser_env \<Rightarrow> parse_ctx \<Rightarrow> (bool \<times> hdrs_state) parser" where
  "parse_hdrs env ctx sc = hdr_loop (Suc (length (sc_rest sc))) env (ctx, None, []) sc"

section \<open>The message\<close>

definition body_of :: "parser_env \<Rightarrow> parse_ctx \<Rightarrow> nat option \<Rightarrow> string \<Rightarrow> msg_body option" where
  "body_of env ctx ctype_hdr rest =
     (case ctype_hdr of
        None \<Rightarrow> None
      | Some i \<Rightarrow>
          if rest = [] then None
          else (case h_val (pc_hdrs ctx ! i) of
                  HCtype m \<Rightarrow>
                    if pj_stricmp (mt_type m) ''multipart'' = 0 then pe_multipart env rest m
                    else Some \<lparr>content_type = pjsip_media_type_cp m, b_data = rest, has_clone_data = True\<rparr>
                | _ \<Rightarrow> None))"

record parse_end =
  pr_msg :: "pjsip_msg option"
  pr_ctx :: parse_ctx
  pr_errs :: "err_report list"

definition end_of_hdrs :: "parser_env \<Rightarrow> msg_line \<Rightarrow> bool \<times> hdrs_state \<Rightarrow> parse_end parser" where
  "end_of_hdrs env l = (\<lambda>(parsed, ctx, ctype, errs).
     if parsed then
       seq (if_p (\<lambda>sc. \<not> pj_scan_is_eof sc \<and> PJ_SCAN_IS_NEWLINE (cur sc)) pj_scan_get_newline (ret ())) (\<lambda>u sc.
         Done \<lparr>pr_msg = Some \<lparr>line = l, hdrs = pc_hdrs ctx, body = body_of env ctx ctype (sc_rest sc)\<rparr>,
               pr_ctx = ctx, pr_errs = errs\<rparr> sc)
     else ret \<lparr>pr_msg = None, pr_ctx = ctx, pr_errs = errs\<rparr>)"

definition int_parse_msg :: "parser_env \<Rightarrow> bool \<Rightarrow> parse_end parser" where
  "int_parse_msg env rdata sc =
     (case first_line (pe_uris env) sc of
        (hname, Done None sc') \<Rightarrow> Done \<lparr>pr_msg = None, pr_ctx = parse_ctx0 rdata, pr_errs = []\<rparr> sc'
      | (hname, Done (Some l) sc') \<Rightarrow> seq (parse_hdrs env (parse_ctx0 rdata)) (end_of_hdrs env l) sc'
      | (hname, Thrown x sc') \<Rightarrow>
          Done \<lparr>pr_msg = None, pr_ctx = parse_ctx0 rdata, pr_errs = [err_at x hname sc']\<rparr> sc'
      | (hname, Broken f) \<Rightarrow> Broken f
      | (hname, Spinning) \<Rightarrow> Spinning)"

text \<open>A buffer ends in a NUL that is not part of it.\<close>

definition on_packet :: "'a parser \<Rightarrow> string \<Rightarrow> 'a outcome" where
  "on_packet p buf = (case pj_scan_init buf NUL PJ_SCAN_AUTOSKIP_WS_HEADER of
     Done u sc \<Rightarrow> p sc | Thrown x sc \<Rightarrow> Thrown x sc | Broken f \<Rightarrow> Broken f | Spinning \<Rightarrow> Spinning)"

definition pjsip_parse_rdata :: "parser_env \<Rightarrow> string \<Rightarrow> parse_end outcome" where
  "pjsip_parse_rdata env buf = on_packet (int_parse_msg env True) buf"

definition pjsip_parse_msg :: "parser_env \<Rightarrow> string \<Rightarrow> (pjsip_msg option \<times> err_report list) outcome" where
  "pjsip_parse_msg env buf = on_packet (seq (int_parse_msg env False) (\<lambda>r. ret (pr_msg r, pr_errs r))) buf"

section \<open>Single headers, and headers without a message\<close>

text \<open>The header of a value, and how much of it was read.\<close>

definition pjsip_parse_hdr :: "parser_env \<Rightarrow> string \<Rightarrow> string \<Rightarrow> (pjsip_hdr list option \<times> nat) outcome" where
  "pjsip_parse_hdr env hname buf =
     on_packet (\<lambda>sc.
       case (case pe_find env hname of
               Some func \<Rightarrow> run_handler (pe_auth env) (pe_uris env) func (parse_ctx0 False) sc
             | None \<Rightarrow> parse_hdr_generic_string hname (parse_ctx0 False) sc) of
         (ctx, Done u sc') \<Rightarrow> Done (Some (pc_hdrs ctx), pos_of sc' (sc_rest sc')) sc'
       | (ctx, Thrown x sc') \<Rightarrow> Done (None, pos_of sc' (sc_rest sc')) sc'
       | (ctx, Broken f) \<Rightarrow> Broken f
       | (ctx, Spinning) \<Rightarrow> Spinning) buf"

definition PJSIP_EINVALIDHDR :: int where "PJSIP_EINVALIDHDR = 171051"

fun headers_loop :: "nat \<Rightarrow> parser_env \<Rightarrow> bool \<Rightarrow> parse_ctx \<Rightarrow> (int \<times> parse_ctx) parser" where
  "headers_loop 0 env stop_on_error ctx sc = Spinning"
| "headers_loop (Suc n) env stop_on_error ctx sc =
     (case hdr_line env ctx sc of
        (hname, ctx', Done u sc') \<Rightarrow>
          if more_headers sc' then headers_loop n env stop_on_error ctx' sc'
          else seq (if_p (\<lambda>sc. \<not> pj_scan_is_eof sc \<and> PJ_SCAN_IS_NEWLINE (cur sc)) pj_scan_get_newline (ret ()))
                 (\<lambda>u. ret (PJ_SUCCESS, ctx')) sc'
      | (hname, ctx', Thrown x sc') \<Rightarrow>
          if stop_on_error then Done (PJSIP_EINVALIDHDR, ctx') sc'
          else seq skip_header (\<lambda>u. if_p more_headers (headers_loop n env stop_on_error ctx') (ret (PJ_SUCCESS, ctx'))) sc'
      | (hname, ctx', Broken f) \<Rightarrow> Broken f
      | (hname, ctx', Spinning) \<Rightarrow> Spinning)"

definition pjsip_parse_headers :: "parser_env \<Rightarrow> bool \<Rightarrow> string \<Rightarrow> (int \<times> pjsip_hdr list) outcome" where
  "pjsip_parse_headers env stop_on_error input =
     on_packet (\<lambda>sc. seq (headers_loop (Suc (length (sc_rest sc))) env stop_on_error (parse_ctx0 False))
       (\<lambda>(status, ctx). ret (status, pc_hdrs ctx)) sc) input"

text \<open>
  \<open>pjsip_parse_status_line\<close>: an exception is an error only while neither the code nor the reason has been
  stored, so the line end may be missing.
\<close>

text \<open>What \<open>strtoi_validate\<close> has stored when it throws: a value out of range is cut to the range.\<close>

definition strtoi_stored :: "string \<Rightarrow> int \<Rightarrow> int \<Rightarrow> int \<Rightarrow> int" where
  "strtoi_stored str min_val max_val old =
     (case pj_strtol2 str of
        Inr (status, Some r) \<Rightarrow> if min_val > r then min_val else if r > max_val then max_val else r
      | _ \<Rightarrow> old)"

definition status_line_parts :: "scanner \<Rightarrow> (int \<times> string) \<times> unit outcome" where
  "status_line_parts sc =
     (case seq parse_sip_version (\<lambda>u. pj_scan_get DIGIT_SPEC) sc of
        Done token sc0 \<Rightarrow>
          (case strtoi_validate token PJSIP_MIN_STATUS_CODE PJSIP_MAX_STATUS_CODE sc0 of
             Done code sc1 \<Rightarrow>
               (case if_p (\<lambda>sc. cur sc \<noteq> CR \<and> cur sc \<noteq> LF) (pj_scan_get NOT_NEWLINE) (ret []) sc1 of
                  Done reason sc2 \<Rightarrow> ((code, reason), pj_scan_get_newline sc2)
                | Thrown x s \<Rightarrow> ((code, []), Thrown x s)
                | Broken f \<Rightarrow> ((code, []), Broken f)
                | Spinning \<Rightarrow> ((code, []), Spinning))
           | Thrown x s \<Rightarrow>
               ((strtoi_stored token PJSIP_MIN_STATUS_CODE PJSIP_MAX_STATUS_CODE 0, []), Thrown x s)
           | Broken f \<Rightarrow> ((0, []), Broken f)
           | Spinning \<Rightarrow> ((0, []), Spinning))
      | Thrown x s \<Rightarrow> ((0, []), Thrown x s)
      | Broken f \<Rightarrow> ((0, []), Broken f)
      | Spinning \<Rightarrow> ((0, []), Spinning))"

definition PJSIP_EINVALIDMSG :: int where "PJSIP_EINVALIDMSG = 171020"

definition pjsip_parse_status_line :: "string \<Rightarrow> (int \<times> int \<times> string) outcome" where
  "pjsip_parse_status_line buf =
     on_packet (\<lambda>sc.
       case status_line_parts sc of
         ((code, reason), Done u sc') \<Rightarrow> Done (PJ_SUCCESS, code, reason) sc'
       | ((code, reason), Thrown x sc') \<Rightarrow>
           Done (if code = 0 \<and> reason = [] then PJSIP_EINVALIDMSG else PJ_SUCCESS, code, reason) sc'
       | (p, Broken f) \<Rightarrow> Broken f
       | (p, Spinning) \<Rightarrow> Spinning) buf"

section \<open>The parser returns\<close>

definition env_ok :: "parser_env \<Rightarrow> bool" where
  "env_ok env \<longleftrightarrow>
     uris_run (pe_uris env) \<and> uris_whole (pe_uris env) \<and> auth_ok (pe_auth env) \<and>
     (\<forall>rest m b. pe_multipart env rest m = Some b \<longrightarrow> has_clone_data b)"

text \<open>A parser that has read \<open>k\<close> characters or thrown.\<close>

definition ran :: "nat \<Rightarrow> scanner \<Rightarrow> 'a outcome \<Rightarrow> bool" where
  "ran k sc r \<longleftrightarrow> (case r of Done a sc' \<Rightarrow> steps k sc sc' | Thrown x sc' \<Rightarrow> steps 0 sc sc' | _ \<Rightarrow> False)"

lemma runs_ran: "runs k p \<Longrightarrow> sc_wf sc \<Longrightarrow> ran k sc (p sc)"
  by (erule (1) runsD) (simp_all add: ran_def)

lemma ran_cases:
  assumes "ran k sc r"
  obtains (Done) a sc' where "r = Done a sc'" "steps k sc sc'" | (Thrown) x sc' where "r = Thrown x sc'" "steps 0 sc sc'"
  using assms by (cases r) (auto simp: ran_def)

lemma ran_after: "steps j sc sc' \<Longrightarrow> ran k sc' r \<Longrightarrow> ran (j + k) sc r"
  by (cases r) (auto simp: ran_def intro: steps_trans steps_less [OF steps_trans [of j sc sc' 0]])

lemma steps_0_trans: "steps 0 a b \<Longrightarrow> steps 0 b c \<Longrightarrow> steps 0 a c"
  using steps_trans [of 0 a b 0 c] by simp

lemma runs_req_line [runs_intros]: "uris_run uh \<Longrightarrow> runs 0 (int_parse_req_line uh)"
  unfolding int_parse_req_line_def by (intro runs_intros)

lemma runs_status_line [runs_intros]: "runs 0 int_parse_status_line"
  unfolding int_parse_status_line_def by (intro runs_intros)

lemma first_line_ran:
  assumes "uris_run uh" and wf: "sc_wf sc"
  shows "ran 0 sc (snd (first_line uh sc))"
proof -
  have "runs 0 (while_do (\<lambda>sc. PJ_SCAN_IS_NEWLINE (cur sc)) (\<lambda>u. pj_scan_get_newline) ())"
    by (intro runs_intros runs_get_newline)
  from this wf show ?thesis
  proof (cases rule: runsD)
    case (Done u sc1)
    note D = this and wf1 = steps_wf [OF wf Done(2)]
    have "runs 0 is_next_sip_version" by (intro runs_intros)
    from this wf1 show ?thesis
    proof (cases rule: runsD)
      case (Done b sc2)
      have "runs 0 (seq (if b then int_parse_status_line else int_parse_req_line uh) (\<lambda>l. ret (Some l)))"
        using assms(1) by (intro runs_intros)
      from ran_after [OF D(2) ran_after [OF Done(2) runs_ran [OF this steps_wf [OF wf1 Done(2)]]]] show ?thesis
        using D Done by (cases b; cases "pj_scan_is_eof sc1") (simp_all add: first_line_def, simp_all add: ran_def)
    qed (use D steps_trans [OF D(2), of 0] in \<open>auto simp: first_line_def ran_def\<close>)
  qed (simp add: first_line_def ran_def)
qed

lemma hdr_line_ran:
  assumes env: "env_ok env" and wf: "sc_wf sc"
  shows "ran 1 sc (snd (snd (hdr_line env ctx sc)))"
proof -
  have "runs 1 (pj_scan_get TOKEN_SPEC)" by (rule runs_get) (rule spec_NUL)
  from this wf show ?thesis
  proof (cases rule: runsD)
    case (Done hname sc1)
    note D = this
    from runs_get_char_0 steps_wf [OF wf D(2)] show ?thesis
    proof (cases rule: runsD)
      case (Done c sc2)
      note wf2 = steps_wf [OF steps_wf [OF wf D(2)] Done(2)]
      have "ran 0 sc2 (snd (run_handler (pe_auth env) (pe_uris env) func ctx sc2))" for func
        using runs_ran [OF handler_runs [of "pe_uris env" "pe_auth env" func, unfolded hdr_runs_def, rule_format] wf2] env
        by (simp add: env_ok_def auth_ok_def)
      moreover have "ran 0 sc2 (snd (parse_hdr_generic_string hname ctx sc2))"
        unfolding parse_hdr_generic_string_def
        by (rule runs_ran [OF runs_hdr_p wf2]) (intro runs_intros)
      ultimately have "ran 0 sc2 (snd (snd (hdr_line env ctx sc)))"
        using D Done by (auto simp: hdr_line_def ran_def steps_def split: option.split)
      from ran_after [OF D(2) ran_after [OF Done(2) this]] show ?thesis by simp
    qed (use D steps_trans [OF D(2), of 0] in \<open>auto simp: hdr_line_def ran_def intro: steps_less\<close>)
  qed (simp add: hdr_line_def ran_def)
qed

text \<open>A parser that returns.\<close>

definition returns :: "nat \<Rightarrow> scanner \<Rightarrow> 'a outcome \<Rightarrow> bool" where
  "returns k sc r \<longleftrightarrow> (\<exists>a sc'. r = Done a sc' \<and> steps k sc sc')"

lemma skip_lines_return:
  "sc_wf sc \<Longrightarrow> length (sc_rest sc) < n \<Longrightarrow> returns 0 sc (while_p n (\<lambda>sc. PJ_SCAN_IS_SPACE (cur sc)) (\<lambda>u. pj_scan_skip_line) () sc)"
proof (induction n arbitrary: sc)
  case (Suc n)
  show ?case
  proof (cases "PJ_SCAN_IS_SPACE (cur sc)")
    case True
    then have ne: "sc_rest sc \<noteq> []" using Suc.prems(1) by (auto simp: sc_wf_def cur_of_def)
    from runs_skip_line [OF Suc.prems(1)] ne obtain sc' where sc': "pj_scan_skip_line sc = Done () sc'" "steps 1 sc sc'" by auto
    have "returns 0 sc' (while_p n (\<lambda>sc. PJ_SCAN_IS_SPACE (cur sc)) (\<lambda>u. pj_scan_skip_line) () sc')"
      using sc'(2) Suc.prems by (intro Suc.IH) (auto simp: steps_def sc_wf_def)
    with True sc' show ?thesis by (auto simp: returns_def seq_def intro: steps_less [OF steps_trans])
  qed (simp add: returns_def steps_def)
qed simp

lemma skip_header_returns:
  assumes wf: "sc_wf sc"
  shows "returns (if sc_rest sc = [] then 0 else 1) sc (skip_header sc)"
proof -
  obtain sc1 where sc1: "pj_scan_skip_line sc = Done () sc1" "steps (if sc_rest sc = [] then 0 else 1) sc sc1"
    using runs_skip_line [OF wf] by blast
  have "returns 0 sc1 (while_do (\<lambda>sc. PJ_SCAN_IS_SPACE (cur sc)) (\<lambda>u. pj_scan_skip_line) () sc1)"
    unfolding while_do_def by (rule skip_lines_return [OF steps_wf [OF wf sc1(2)]]) simp
  then obtain sc2 where sc2: "while_do (\<lambda>sc. PJ_SCAN_IS_SPACE (cur sc)) (\<lambda>u. pj_scan_skip_line) () sc1 = Done () sc2" "steps 0 sc1 sc2"
    by (auto simp: returns_def)
  show ?thesis
    using steps_trans [OF sc1(2) sc2(2)] sc1(1) sc2(1)
    by (auto simp: skip_header_def returns_def seq_def if_p_def ret_def set_skip_ws_def pj_scan_is_eof_def steps_def)
qed

lemma hdr_loop_returns:
  assumes env: "env_ok env"
  shows "sc_wf sc \<Longrightarrow> length (sc_rest sc) < n \<Longrightarrow> returns 0 sc (hdr_loop n env st sc)"
proof (induction n arbitrary: st sc)
  case (Suc n)
  obtain ctx ctype errs where st: "st = (ctx, ctype, errs)" by (cases st)
  obtain hname ctx' r where l: "hdr_line env ctx sc = (hname, ctx', r)" by (cases "hdr_line env ctx sc")
  from hdr_line_ran [OF env Suc.prems(1), of ctx] have "ran 1 sc r" by (simp add: l)
  then show ?case
  proof (cases rule: ran_cases)
    case (Done u sc')
    have "returns 0 sc' (hdr_loop n env st' sc')" for st'
      using Done(2) Suc.prems by (intro Suc.IH) (auto simp: steps_def sc_wf_def)
    from this [of "(ctx', ctype_after ctx ctx' ctype, errs)"] Done show ?thesis
      by (auto simp: st l returns_def Let_def intro: steps_less steps_less [OF steps_trans])
  next
    case (Thrown x sc')
    note wf' = steps_wf [OF Suc.prems(1) Thrown(2)]
    from skip_header_returns [OF wf'] obtain u sc2 where
      sc2: "skip_header sc' = Done u sc2" "steps (if sc_rest sc' = [] then 0 else 1) sc' sc2" by (auto simp: returns_def)
    have s2: "steps 0 sc sc2" using steps_trans [OF Thrown(2) sc2(2)] by (rule steps_less) simp
    have "returns 0 sc2 (hdr_loop n env st' sc2)" if "more_headers sc2" for st'
    proof (rule Suc.IH)
      show "sc_wf sc2" using steps_wf [OF Suc.prems(1) s2] .
      have "sc_rest sc2 \<noteq> []" using that by (simp add: more_headers_def pj_scan_is_eof_def)
      then show "length (sc_rest sc2) < n"
        using sc2(2) Thrown(2) Suc.prems(2) by (auto simp: steps_def split: if_splits)
    qed
    then have "returns 0 sc (hdr_loop n env st' sc2)" if "more_headers sc2" for st'
      using that unfolding returns_def by (blast intro: steps_0_trans [OF s2])
    from this [of "(ctx', ctype, errs @ [err_at x hname sc'])"] s2 show ?thesis
      by (cases "more_headers sc2") (simp_all add: st l Thrown(1) Let_def seq_def sc2(1) if_p_def, auto simp: ret_def returns_def)
  qed
qed simp

lemma newline_returns: "sc_wf sc \<Longrightarrow> PJ_SCAN_IS_NEWLINE (cur sc) \<Longrightarrow> returns 0 sc (pj_scan_get_newline sc)"
  using runs_get_newline_0
  by (rule runsD) (auto simp: returns_def pj_scan_get_newline_def split: sum.splits)

lemma end_of_hdrs_returns: "sc_wf sc \<Longrightarrow> returns 0 sc (end_of_hdrs env l (b, ctx, ctype, errs) sc)"
  using newline_returns [of sc]
  by (auto simp: end_of_hdrs_def seq_def if_p_def ret_def returns_def)

lemma int_parse_msg_returns:
  assumes env: "env_ok env" and wf: "sc_wf sc"
  shows "returns 0 sc (int_parse_msg env rdata sc)"
proof -
  obtain hname r where f: "first_line (pe_uris env) sc = (hname, r)" by fastforce
  from first_line_ran [OF _ wf] env have "ran 0 sc r" unfolding env_ok_def by (metis f snd_conv)
  then show ?thesis
  proof (cases rule: ran_cases)
    case (Done l sc1)
    show ?thesis
    proof (cases l)
      case None
      then show ?thesis using Done by (simp add: int_parse_msg_def f returns_def)
    next
      case (Some ml)
      have "returns 0 sc1 (parse_hdrs env (parse_ctx0 rdata) sc1)"
        unfolding parse_hdrs_def by (rule hdr_loop_returns [OF env steps_wf [OF wf Done(2)]]) simp
      then obtain b c t e sc2 where h: "parse_hdrs env (parse_ctx0 rdata) sc1 = Done (b, c, t, e) sc2" "steps 0 sc1 sc2"
        by (auto simp: returns_def)
      note s2 = steps_0_trans [OF Done(2) h(2)]
      from end_of_hdrs_returns [OF steps_wf [OF wf s2]] obtain a sc3 where
        "end_of_hdrs env ml (b, c, t, e) sc2 = Done a sc3" "steps 0 sc2 sc3" unfolding returns_def by blast
      then show ?thesis using Some Done(1) h(1) steps_0_trans [OF s2]
        by (auto simp: int_parse_msg_def f seq_def returns_def)
    qed
  next
    case (Thrown x sc')
    then show ?thesis by (simp add: int_parse_msg_def f returns_def)
  qed
qed

lemma on_packet_returns:
  assumes "\<And>sc. sc_wf sc \<Longrightarrow> returns 0 sc (p sc)"
  shows "\<exists>a sc. on_packet p buf = Done a sc \<and> sc_wf sc \<and> sc_end sc = length buf"
proof -
  let ?sc = "\<lparr>sc_rest = buf, sc_eos = NUL, sc_end = length buf, sc_line = 1, sc_start_line = 0, sc_skip_ws = 3\<rparr>"
  have wf: "sc_wf ?sc" by (simp add: sc_wf_def)
  have "runs 0 pj_scan_skip_whitespace" by (intro runs_intros)
  from this wf have "\<exists>sc1. pj_scan_skip_whitespace ?sc = Done () sc1 \<and> steps 0 ?sc sc1"
    by (rule runsD) (auto simp: pj_scan_skip_whitespace_def Let_def split: sum.splits)
  then obtain sc1 where sc1: "pj_scan_skip_whitespace ?sc = Done () sc1" "steps 0 ?sc sc1" by blast
  obtain a sc2 where p: "p sc1 = Done a sc2" "steps 0 sc1 sc2"
    using assms [OF steps_wf [OF wf sc1(2)]] by (auto simp: returns_def)
  show ?thesis using sc1(1) p(1) steps_wf [OF wf steps_0_trans [OF sc1(2) p(2)]] steps_0_trans [OF sc1(2) p(2)]
    by (simp add: on_packet_def pj_scan_init_def skip_set_def steps_def)
qed

text \<open>
  Whatever bytes a packet holds, \<open>pjsip_parse_rdata\<close> returns: no loop of the parser spins and no
  read leaves the buffer.
\<close>

theorem parse_rdata_returns:
  assumes "env_ok env"
  shows "\<exists>r sc. pjsip_parse_rdata env buf = Done r sc"
  unfolding pjsip_parse_rdata_def
  using on_packet_returns [of "int_parse_msg env True" buf] int_parse_msg_returns [OF assms] by blast

section \<open>The notes of a parsed message\<close>

lemma first_line_whole:
  assumes "uris_whole uh" and "first_line uh sc = (hname, Done (Some l) sc')"
  shows "case l of ReqLine m u \<Rightarrow> uri_whole u | StatusLine code reason \<Rightarrow> True"
proof -
  let ?P = "\<lambda>l. case l of ReqLine m u \<Rightarrow> uri_whole u | StatusLine code reason \<Rightarrow> True"
  have "yields ?P (int_parse_req_line uh)"
    unfolding int_parse_req_line_def
    by (rule yields_seq, rule yields_seq_from [OF uri_parsed_whole [OF assms(1)]]) (intro yields_intros, simp)
  moreover have "yields ?P int_parse_status_line"
    unfolding int_parse_status_line_def by (intro yields_intros) simp
  ultimately have "yields ?P (if b then int_parse_status_line else int_parse_req_line uh)" for b by simp
  then have "yields (\<lambda>r. \<forall>l. r = Some l \<longrightarrow> ?P l) (seq (if b then int_parse_status_line else int_parse_req_line uh) (\<lambda>l. ret (Some l)))" for b
    by (rule yields_seq_from) (auto intro: yields_ret)
  with assms(2) show ?thesis
    unfolding first_line_def by (fastforce dest: yieldsD split: outcome.splits if_splits)
qed

lemma hdr_line_keeps:
  assumes env: "env_ok env" and "ctx_ok ctx" and "hdr_line env ctx sc = (hname, ctx', r)"
  shows "ctx_ok ctx' \<and> pc_rdata ctx' = pc_rdata ctx"
proof -
  have k: "keeps (run_handler (pe_auth env) (pe_uris env) func)" "keeps (parse_hdr_generic_string n)" for func n
    using env by (simp_all add: env_ok_def handler_notes keeps_generic_string)
  have "ctx_ok (fst (snd (hdr_line env ctx sc))) \<and> pc_rdata (fst (snd (hdr_line env ctx sc))) = pc_rdata ctx"
    using assms(2) k unfolding keeps_def hdr_line_def by (auto split: outcome.split option.split)
  then show ?thesis by (simp add: assms(3))
qed

lemma hdr_loop_keeps:
  assumes env: "env_ok env"
  shows "ctx_ok ctx \<Longrightarrow> hdr_loop n env (ctx, ct, es) sc = Done (b, ctx', ct', es') sc' \<Longrightarrow> ctx_ok ctx' \<and> pc_rdata ctx' = pc_rdata ctx"
proof (induction n arbitrary: ctx ct es sc)
  case (Suc n)
  obtain hname c r where l: "hdr_line env ctx sc = (hname, c, r)" by (cases "hdr_line env ctx sc")
  from hdr_line_keeps [OF env Suc.prems(1) l] have c: "ctx_ok c" "pc_rdata c = pc_rdata ctx" by auto
  note IH = Suc.IH [OF c(1)]
  show ?case
  proof (cases r)
    case (Done u s)
    then show ?thesis using Suc.prems(2) IH c by (auto simp: l Let_def split: if_splits)
  next
    case (Thrown x s)
    then show ?thesis using Suc.prems(2) IH c
      by (auto simp: l Let_def seq_def if_p_def ret_def split: outcome.splits if_splits)
  qed (use Suc.prems(2) in \<open>simp_all add: l\<close>)
qed simp

lemma int_parse_msg_notes:
  assumes env: "env_ok env" and p: "int_parse_msg env rdata sc = Done r sc'"
  shows "ctx_ok (pr_ctx r) \<and> pc_rdata (pr_ctx r) = rdata \<and> (\<forall>m. pr_msg r = Some m \<longrightarrow> hdrs m = pc_hdrs (pr_ctx r) \<and> msg_wf m)"
proof -
  have c0: "ctx_ok (parse_ctx0 rdata)" "pc_rdata (parse_ctx0 rdata) = rdata" by (rule ctx0_ok) (simp add: parse_ctx0_def)
  obtain hname f where f: "first_line (pe_uris env) sc = (hname, f)" by fastforce
  show ?thesis
  proof (cases "\<exists>l s. f = Done (Some l) s")
    case True
    then obtain l s where l: "f = Done (Some l) s" by blast
    with p f obtain b c t e s2 where h: "parse_hdrs env (parse_ctx0 rdata) s = Done (b, c, t, e) s2"
      "end_of_hdrs env l (b, c, t, e) s2 = Done r sc'"
      by (auto simp: int_parse_msg_def seq_def split: outcome.splits)
    from hdr_loop_keeps [OF env c0(1) h(1) [unfolded parse_hdrs_def]] c0(2) have c: "ctx_ok c" "pc_rdata c = rdata" by auto
    have w: "case l of ReqLine m u \<Rightarrow> uri_whole u | StatusLine code reason \<Rightarrow> True"
      by (rule first_line_whole [of "pe_uris env" sc hname l s]) (use env f l in \<open>simp_all add: env_ok_def\<close>)
    have body: "body_of env c t rest = Some bd \<Longrightarrow> has_clone_data bd" for rest bd
      using env by (auto simp: body_of_def env_ok_def split: option.splits if_splits hdr_val.splits)
    have "list_all hdr_wf (pc_hdrs c)" using c(1) by (auto simp: ctx_ok_def hdr_good_def list_all_iff)
    with w body have "msg_wf \<lparr>line = l, hdrs = pc_hdrs c, body = body_of env c t rest\<rparr>" for rest
      by (auto simp: msg_wf_def split: option.split)
    with h(2) c show ?thesis
      by (auto simp: end_of_hdrs_def seq_def ret_def split: outcome.splits if_splits)
  qed (use p f c0 in \<open>auto simp: int_parse_msg_def split: outcome.splits option.splits\<close>)
qed

lemma on_packet_Done: "on_packet p buf = Done r sc \<Longrightarrow> \<exists>s. p s = Done r sc"
  by (auto simp: on_packet_def split: outcome.splits)

text \<open>
  In a parsed message every header can be cloned, and the pointers of \<open>msg_info\<close> lead to headers of
  the message: Via, Route and Record-Route to the first of their type, the others to the last one.
\<close>

theorem parsed_notes:
  assumes "env_ok env" and "pjsip_parse_rdata env buf = Done r sc" and "pr_msg r = Some m"
  shows "msg_wf m \<and> list_all hdr_good (hdrs m) \<and>
    pc_via (pr_ctx r) = pjsip_msg_find_hdr m PJSIP_H_VIA None \<and>
    pc_route (pr_ctx r) = pjsip_msg_find_hdr m PJSIP_H_ROUTE None \<and>
    pc_record_route (pr_ctx r) = pjsip_msg_find_hdr m PJSIP_H_RECORD_ROUTE None \<and>
    pc_cid (pr_ctx r) = last_of PJSIP_H_CALL_ID (hdrs m) \<and> pc_from (pr_ctx r) = last_of PJSIP_H_FROM (hdrs m) \<and>
    pc_to (pr_ctx r) = last_of PJSIP_H_TO (hdrs m) \<and> pc_cseq (pr_ctx r) = last_of PJSIP_H_CSEQ (hdrs m) \<and>
    pc_max_fwd (pr_ctx r) = last_of PJSIP_H_MAX_FORWARDS (hdrs m) \<and>
    pc_ctype (pr_ctx r) = last_of PJSIP_H_CONTENT_TYPE (hdrs m) \<and>
    pc_clen (pr_ctx r) = last_of PJSIP_H_CONTENT_LENGTH (hdrs m)"
proof -
  from on_packet_Done [OF assms(2) [unfolded pjsip_parse_rdata_def]] obtain s where "int_parse_msg env True s = Done r sc" by blast
  from int_parse_msg_notes [OF assms(1) this] assms(3)
  have "ctx_ok (pr_ctx r)" "pc_rdata (pr_ctx r)" "hdrs m = pc_hdrs (pr_ctx r)" "msg_wf m" by simp_all
  then show ?thesis
    by (simp add: ctx_ok_def notes_ok_def first_of_def pjsip_msg_find_hdr_def find_start_def)
qed

section \<open>The parser over the list of names\<close>

definition names_env :: "parser_env \<Rightarrow> parser_env" where
  "names_env env = env\<lparr>pe_find := \<lambda>n. map_of hdr_names (lower_c n)\<rparr>"

lemma names_env_simps [simp]:
  "pe_find (names_env env) = (\<lambda>n. map_of hdr_names (lower_c n))" "pe_uris (names_env env) = pe_uris env"
  "pe_auth (names_env env) = pe_auth env" "pe_multipart (names_env env) = pe_multipart env"
  by (simp_all add: names_env_def)

lemma token_no_NUL: "\<not> spec NUL \<Longrightarrow> pj_scan_get spec sc = Done n sc' \<Longrightarrow> NUL \<notin> set n"
  by (auto simp: pj_scan_get_def take_token_def seq_def ret_def pj_scan_syntax_err_def throw_def
      split: if_splits sum.splits outcome.splits dest: set_takeWhileD)

lemma hdr_line_names:
  assumes "pe_find env = find_handler hdr_handlers"
  shows "hdr_line env = hdr_line (names_env env)"
proof (intro ext)
  fix ctx sc
  have "pe_find env n = pe_find (names_env env) n" if "pj_scan_get TOKEN_SPEC sc = Done n sc'" for n sc'
    using token_no_NUL [OF _ that] spec_NUL find_handler_lookup by (simp add: assms)
  then show "hdr_line env ctx sc = hdr_line (names_env env) ctx sc"
    by (cases "pj_scan_get TOKEN_SPEC sc") (simp_all add: hdr_line_def split: outcome.split option.split)
qed

lemma hdr_loop_names:
  assumes "pe_find env = find_handler hdr_handlers"
  shows "hdr_loop n env = hdr_loop n (names_env env)"
proof (induction n)
  case (Suc n)
  have "hdr_loop (Suc n) env (c, t, e) sc = hdr_loop (Suc n) (names_env env) (c, t, e) sc" for c t e sc
    by (simp add: hdr_line_names [OF assms, symmetric] Suc Let_def split: prod.split outcome.split)
  then show ?case by (intro ext) (metis prod_cases3)
qed (auto simp: fun_eq_iff)

lemma parse_rdata_names:
  assumes "pe_find env = find_handler hdr_handlers"
  shows "pjsip_parse_rdata env = pjsip_parse_rdata (names_env env)"
proof -
  have "parse_hdrs env = parse_hdrs (names_env env)"
    by (intro ext) (simp add: parse_hdrs_def hdr_loop_names [OF assms])
  moreover have "body_of env = body_of (names_env env)"
    by (intro ext) (simp add: body_of_def split: option.split hdr_val.split)
  then have "end_of_hdrs env = end_of_hdrs (names_env env)"
    by (intro ext) (simp only: end_of_hdrs_def)
  ultimately have "int_parse_msg env = int_parse_msg (names_env env)"
    by (intro ext) (simp add: int_parse_msg_def split: prod.split outcome.split option.split)
  then show ?thesis by (intro ext) (simp add: pjsip_parse_rdata_def)
qed

definition sample_env :: parser_env where
  "sample_env = sip_env int_parse_other_uri (\<lambda>f. throw SynErr) (\<lambda>rest m. None)"

definition eval_env :: parser_env where
  "eval_env = \<lparr>pe_find = \<lambda>n. map_of hdr_names (lower_c n), pe_uris = endpt_uri_handlers int_parse_other_uri,
               pe_auth = \<lambda>f. throw SynErr, pe_multipart = \<lambda>rest m. None\<rparr>"

lemma sample_env_eval: "pjsip_parse_rdata sample_env = pjsip_parse_rdata eval_env"
proof -
  have "names_env sample_env = eval_env" by (simp add: names_env_def sample_env_def eval_env_def sip_env_def)
  with parse_rdata_names [of sample_env] show ?thesis by (simp add: sample_env_def sip_env_def)
qed

text \<open>The lines of a message.\<close>

fun text_of :: "string list \<Rightarrow> string" where
  "text_of [] = []"
| "text_of (l # ls) = l @ [CR, LF] @ text_of ls"

definition sample_text :: string where
  "sample_text = text_of
     [''REGISTER sip:s SIP/2.0'', ''Via: SIP/2.0/UDP h;branch=z9hG4bK1'', ''From: <sip:cam@h>;tag=a'',
      ''To: <sip:cam@h>'', ''Call-ID: c'', ''CSeq: 1 REGISTER'', ''Expires: 3600'', []]"

lemma sample_parses:
  "(case pjsip_parse_rdata eval_env sample_text of
      Done r sc \<Rightarrow> pr_errs r = [] \<and> (case pr_msg r of None \<Rightarrow> False | Some m \<Rightarrow> length (hdrs m) = 6) | _ \<Rightarrow> False)"
  by code_simp

end
