(* ===== verification/Receive.thy ===== *)
theory Receive
  imports MsgParser
begin

text \<open>
  From the bytes of a transport to messages for the endpoint: \<open>pjsip_find_msg\<close> (\<open>sip_parser.c\<close>), which
  finds where a message in a stream ends, and \<open>pjsip_tpmgr_receive_packet\<close> (\<open>sip_transport.c\<close>), which
  cuts what has been received into messages, parses them, checks them and hands them up.
\<close>

section \<open>The end of a message in a stream\<close>

definition PJSIP_EPARTIALMSG :: int where "PJSIP_EPARTIALMSG = 171024"
definition PJSIP_EINVALIDSTATUS :: int where "PJSIP_EINVALIDSTATUS = 171030"
definition PJSIP_ERXOVERFLOW :: int where "PJSIP_ERXOVERFLOW = 171062"
definition PJ_EIGNORED :: int where "PJ_EIGNORED = 70020"

abbreviation (input) PJSIP_MAX_PKT_LEN :: nat where "PJSIP_MAX_PKT_LEN \<equiv> 4000"

text \<open>
  A line, with all behind it, that looks like a Content-Length. The scanner that reads it ends at the empty
  line; it looks at its end only where a carriage return would make it throw as well, so in the model it
  has all of the buffer.
\<close>

definition is_clen_line :: "string \<Rightarrow> bool" where
  "is_clen_line l \<longleftrightarrow>
     (hdz l = CHR ''C'' \<or> hdz l = CHR ''c'') \<and> strnicmp 14 l ''Content-Length'' = 0 \<or>
     (hdz l = CHR ''l'' \<or> hdz l = CHR ''L'') \<and>
     (hdz (tl l) = CHR '' '' \<or> hdz (tl l) = CHR 0x09 \<or> hdz (tl l) = CHR '':'')"

definition read_clen :: "bool \<Rightarrow> int parser" where
  "read_clen long_name =
     seq (pj_scan_advance_n (if long_name then 14 else 1) True) (\<lambda>u.
     seq pj_scan_get_char (\<lambda>c.
       if c \<noteq> CHR '':'' then throw SynErr
       else
         seq (pj_scan_get DIGIT_SPEC) (\<lambda>str_clen.
         seq pj_scan_get_newline (\<lambda>u.
           strtoi_validate str_clen 0 PJ_MAXINT32))))"

definition clen_of_line :: "string \<Rightarrow> int outcome" where
  "clen_of_line l = on_packet (read_clen (hdz l = CHR ''C'' \<or> hdz l = CHR ''c'')) l"

text \<open>
  The lines that begin among the first \<open>k\<close> bytes, behind the first line end, until one gives the length.
  The status is that of the last failure.
\<close>

function clen_loop :: "int \<Rightarrow> nat \<Rightarrow> string \<Rightarrow> (int \<times> nat option) res" where
  "clen_loop status k s =
     (let i = length (takeWhile (\<lambda>c. c \<noteq> LF) s); l = drop (i + 1) s
      in if i \<ge> length s \<or> i \<ge> k then Inr (status, None)
         else if \<not> is_clen_line l then clen_loop status (k - (i + 1)) l
         else case clen_of_line l of
                Done n sc \<Rightarrow> Inr (status, Some (nat n))
              | Thrown x sc \<Rightarrow>
                  clen_loop (if x = SynErr then PJSIP_EMISSINGHDR else PJSIP_EINVALIDHDR) (k - (i + 1)) l
              | Broken f \<Rightarrow> Inl f
              | Spinning \<Rightarrow> Inl AssertFail)"
  by pat_completeness auto
termination
  by (relation "measure (\<lambda>(status, k, s). length s)") auto

declare clen_loop.simps [simp del]

text \<open>
  The status and the size of the message at the front of what has been received. A stream without a
  Content-Length is one message as far as it has been received.
\<close>

definition pjsip_find_msg :: "string \<Rightarrow> bool \<Rightarrow> (int \<times> nat) res" where
  "pjsip_find_msg buf is_datagram =
     (if is_datagram then Inr (PJ_SUCCESS, length buf)
      else case pj_strstr buf [LF, CR, LF] of
             None \<Rightarrow> Inr (PJSIP_EPARTIALMSG, length buf)
           | Some pos \<Rightarrow>
               bind_res (clen_loop PJ_SUCCESS (pos + 1) buf) (\<lambda>(status, content_length).
                 case content_length of
                   None \<Rightarrow> Inr (status, length buf)
                 | Some n \<Rightarrow>
                     let msg_size = pos + 3 + n
                     in Inr (if msg_size \<le> length buf then PJ_SUCCESS else PJSIP_EPARTIALMSG, msg_size)))"

section \<open>Receiving\<close>

record rx_source =
  rs_type :: nat
  rs_flag :: nat
  rs_name :: string
  rs_port :: int
  rs_addr :: string

datatype rx_event =
    OnRxMsg int "rx_data option"  \<comment> \<open>a call of \<open>mgr->on_rx_msg\<close>, with no message when the buffer is full\<close>
  | DataDropped string nat int    \<comment> \<open>a call of \<open>mgr->tp_drop_data_cb\<close>: what is there, \<open>dd.len\<close>, \<open>dd.status\<close>\<close>

text \<open>
  The callback for dropped data, when there is one. It is told where the data begins and how long it
  is, and may reduce how much of it is dropped. The bytes in the event are those the buffer has
  there; the length is what the code reports, which may be more.
\<close>

type_synonym drop_cb = "(string \<Rightarrow> nat \<Rightarrow> int \<Rightarrow> nat) option"

definition drop_event :: "drop_cb \<Rightarrow> string \<Rightarrow> nat \<Rightarrow> int \<Rightarrow> rx_event list" where
  "drop_event cb data n status = (case cb of None \<Rightarrow> [] | Some f \<Rightarrow> [DataDropped data n status])"

definition rdata_of :: "rx_source \<Rightarrow> parse_ctx \<Rightarrow> pjsip_msg \<Rightarrow> rx_data" where
  "rdata_of src ctx m =
     \<lparr>rx_msg = m, rx_via = pc_via ctx, rx_from = pc_from ctx, rx_to = pc_to ctx, rx_cseq = pc_cseq ctx,
      rx_cid = pc_cid ctx, tp_type = rs_type src, tp_flag = rs_flag src, src_addr = rs_addr src\<rparr>"

definition id_empty :: "pjsip_msg \<Rightarrow> nat \<Rightarrow> bool" where
  "id_empty m i = (case h_val (hdrs m ! i) of HString s \<Rightarrow> s = [] | _ \<Rightarrow> False)"

definition missing_hdr :: "parse_ctx \<Rightarrow> pjsip_msg \<Rightarrow> bool" where
  "missing_hdr ctx m \<longleftrightarrow>
     (case pc_cid ctx of None \<Rightarrow> True | Some i \<Rightarrow> id_empty m i) \<or>
     pc_from ctx = None \<or> pc_to ctx = None \<or> pc_via ctx = None \<or> pc_cseq ctx = None"

text \<open>The \<open>received\<close> and, where the sender asks for it, the \<open>rport\<close> parameter of the top Via.\<close>

definition stamp_via :: "rx_source \<Rightarrow> nat \<Rightarrow> pjsip_msg \<Rightarrow> pjsip_msg" where
  "stamp_via src i m =
     (case h_val (hdrs m ! i) of
        HVia v \<Rightarrow>
          m\<lparr>hdrs := (hdrs m)[i := (hdrs m ! i)\<lparr>h_val :=
              HVia (v\<lparr>v_recvd_param := rs_name src,
                      v_rport_param := if v_rport_param v = 0 then rs_port src else v_rport_param v\<rparr>)\<rparr>]\<rparr>
      | _ \<Rightarrow> m)"

text \<open>What becomes of a parsed fragment: the calls, and how much of the buffer it was.\<close>

definition handle_fragment :: "drop_cb \<Rightarrow> rx_source \<Rightarrow> string \<Rightarrow> parse_end \<Rightarrow> rx_event list \<times> nat" where
  "handle_fragment cb src frag r =
     (if pr_errs r \<noteq> [] then
        (drop_event cb frag (length frag) PJSIP_EINVALIDMSG,
         case cb of
           None \<Rightarrow> length frag
         | Some f \<Rightarrow> let n = f frag (length frag) PJSIP_EINVALIDMSG in if 0 < n \<and> n < length frag then n else length frag)
      else
        (case pr_msg r of
           None \<Rightarrow> []
         | Some m \<Rightarrow>
             if missing_hdr (pr_ctx r) m then [OnRxMsg PJSIP_EMISSINGHDR (Some (rdata_of src (pr_ctx r) m))]
             else
               (case line m of
                  ReqLine mth uri \<Rightarrow>
                    [OnRxMsg PJ_SUCCESS (Some (rdata_of src (pr_ctx r) (stamp_via src (the (pc_via (pr_ctx r))) m)))]
                | StatusLine code reason \<Rightarrow>
                    if code < 100 \<or> code \<ge> 700
                    then [OnRxMsg PJSIP_EINVALIDSTATUS (Some (rdata_of src (pr_ctx r) m))]
                    else [OnRxMsg PJ_SUCCESS (Some (rdata_of src (pr_ctx r) m))]),
         length frag))"

definition is_line_end :: "char \<Rightarrow> bool" where
  "is_line_end c \<longleftrightarrow> c = CR \<or> c = LF"

text \<open>
  The loop over the fragments: \<open>None\<close> when it spins. The fuel is the number of bytes left; every
  fragment takes at least one.
\<close>

fun recv_loop ::
    "nat \<Rightarrow> parser_env \<Rightarrow> drop_cb \<Rightarrow> rx_source \<Rightarrow> nat \<Rightarrow> string \<Rightarrow> nat \<Rightarrow> rx_event list \<Rightarrow> (nat \<times> rx_event list) res option" where
  "recv_loop 0 env cb src pkt_len pkt processed evs = (if pkt = [] then Some (Inr (processed, evs)) else None)"
| "recv_loop (Suc n) env cb src pkt_len pkt processed evs =
     (if pkt = [] then Some (Inr (processed, evs))
      else
        let p = dropWhile is_line_end pkt;
            skipped = takeWhile is_line_end pkt;
            processed = processed + length skipped;
            evs = evs @ (if skipped = [] then [] else drop_event cb skipped (length skipped) PJ_EIGNORED)
        in if p = [] then Some (Inr (processed, evs))
           else case pjsip_find_msg p (rs_flag src AND 4 \<noteq> 0) of
                  Inl f \<Rightarrow> Some (Inl f)
                | Inr (status, frag_size) \<Rightarrow>
                    if status \<noteq> PJ_SUCCESS then
                      (if length p = PJSIP_MAX_PKT_LEN
                       then Some (Inr (pkt_len, evs @ [OnRxMsg PJSIP_ERXOVERFLOW None] @ drop_event cb p frag_size PJSIP_ERXOVERFLOW))
                       else Some (Inr (processed, evs)))
                    else
                      (case pjsip_parse_rdata env (take frag_size p) of
                         Done r sc \<Rightarrow>
                           let (evs', used) = handle_fragment cb src (take frag_size p) r
                           in recv_loop n env cb src pkt_len (drop used p) (processed + used) (evs @ evs')
                       | Thrown x sc \<Rightarrow> Some (Inl AssertFail)
                       | Broken f \<Rightarrow> Some (Inl f)
                       | Spinning \<Rightarrow> None))"

definition pjsip_tpmgr_receive_packet ::
    "parser_env \<Rightarrow> drop_cb \<Rightarrow> rx_source \<Rightarrow> string \<Rightarrow> (nat \<times> rx_event list) res option" where
  "pjsip_tpmgr_receive_packet env cb src pkt =
     (if pkt = [] then Some (Inl AssertFail) else recv_loop (length pkt) env cb src (length pkt) pkt 0 [])"

section \<open>Receiving returns\<close>

lemma runs_read_clen: "runs 0 (read_clen b)"
  unfolding read_clen_def by (intro runs_intros)

lemma on_packet_runs:
  assumes "runs 0 p"
  shows "(\<exists>a sc. on_packet p buf = Done a sc) \<or> (\<exists>x sc. on_packet p buf = Thrown x sc)"
proof -
  let ?sc = "\<lparr>sc_rest = buf, sc_eos = NUL, sc_end = length buf, sc_line = 1, sc_start_line = 0, sc_skip_ws = 3\<rparr>"
  have wf: "sc_wf ?sc" by (simp add: sc_wf_def)
  have "runs 0 (seq pj_scan_skip_whitespace (\<lambda>u. p))" by (intro runs_intros assms)
  from this wf show ?thesis
    by (rule runsD) (auto simp: on_packet_def pj_scan_init_def skip_set_def seq_def split: outcome.splits)
qed

lemma clen_loop_returns: "\<exists>status c. clen_loop st k s = Inr (status, c)"
proof (induction st k s rule: clen_loop.induct)
  case (1 status k s)
  define i where "i = length (takeWhile (\<lambda>c. c \<noteq> LF) s)"
  define l where "l = drop (i + 1) s"
  have l: "drop (Suc i) s = l" by (simp add: l_def)
  show ?case
    using 1 [OF i_def l_def] on_packet_runs [OF runs_read_clen, of "hdz l = CHR ''C'' \<or> hdz l = CHR ''c''" l]
    by (subst clen_loop.simps) (auto simp: Let_def clen_of_line_def i_def [symmetric] l)
qed

lemma find_msg_returns: "\<exists>status n. pjsip_find_msg buf d = Inr (status, n) \<and> (buf \<noteq> [] \<longrightarrow> 0 < n)"
proof (cases "pj_strstr buf [LF, CR, LF]")
  case (Some pos)
  obtain st c where "clen_loop PJ_SUCCESS (pos + 1) buf = Inr (st, c)" using clen_loop_returns by blast
  with Some show ?thesis by (cases c) (auto simp: pjsip_find_msg_def Let_def)
qed (auto simp: pjsip_find_msg_def)

lemma handle_fragment_used:
  "0 < length frag \<Longrightarrow> 0 < snd (handle_fragment cb src frag r) \<and> snd (handle_fragment cb src frag r) \<le> length frag"
  by (auto simp: handle_fragment_def Let_def split: option.split)

lemma find_msg_fits: "pjsip_find_msg p d = Inr (PJ_SUCCESS, n) \<Longrightarrow> n \<le> length p"
  by (auto simp: pjsip_find_msg_def PJSIP_EPARTIALMSG_def bind_res_Inr_iff Let_def split: if_splits option.splits)

lemma recv_loop_returns:
  assumes env: "env_ok env"
  shows "length pkt \<le> n \<Longrightarrow> processed + length pkt \<le> pkt_len \<Longrightarrow>
    \<exists>k evs'. recv_loop n env cb src pkt_len pkt processed evs = Some (Inr (k, evs')) \<and> k \<le> pkt_len"
proof (induction n arbitrary: pkt processed evs)
  case (Suc n)
  define p where "p = dropWhile is_line_end pkt"
  define skipped where "skipped = takeWhile is_line_end pkt"
  have len: "length skipped + length p = length pkt" unfolding p_def skipped_def
    by (metis length_append takeWhile_dropWhile_id)
  show ?case
  proof (cases "p = []")
    case True
    then show ?thesis using Suc.prems len by (auto simp: p_def [symmetric] skipped_def [symmetric] Let_def)
  next
    case False
    then have ne: "pkt \<noteq> []" by (auto simp: p_def)
    obtain st m where f: "pjsip_find_msg p (rs_flag src AND 4 \<noteq> 0) = Inr (st, m)" "0 < m"
      using find_msg_returns False by metis
    show ?thesis
    proof (cases "st = PJ_SUCCESS")
      case True
      have m: "m \<le> length p" using find_msg_fits f True by blast
      obtain r sc where r: "pjsip_parse_rdata env (take m p) = Done r sc" using parse_rdata_returns [OF env] by blast
      obtain evs1 used where h: "handle_fragment cb src (take m p) r = (evs1, used)" by fastforce
      from handle_fragment_used [of "take m p" cb src r] h m f(2) have u: "0 < used" "used \<le> m" by auto
      have "\<exists>k evs'. recv_loop n env cb src pkt_len (drop used p) (processed + length skipped + used) evs2 = Some (Inr (k, evs')) \<and> k \<le> pkt_len"
        for evs2 using u m len Suc.prems by (intro Suc.IH) simp_all
      then show ?thesis using ne False True f r h
        by (simp add: p_def [symmetric] skipped_def [symmetric] Let_def)
    next
      case False
      then show ?thesis using ne \<open>p \<noteq> []\<close> f Suc.prems len
        by (auto simp: p_def [symmetric] skipped_def [symmetric] Let_def)
    qed
  qed
qed auto

text \<open>
  C21: Receiving returns for whatever bytes arrive, on datagrams and on streams, with or without a callback
  for dropped data: no loop spins, nothing is read outside the buffer, and no more bytes are reported as
  processed than were received.
\<close>

theorem receive_packet_returns:
  assumes "env_ok env" and "pkt \<noteq> []"
  shows "\<exists>n evs. pjsip_tpmgr_receive_packet env cb src pkt = Some (Inr (n, evs)) \<and> n \<le> length pkt"
  using recv_loop_returns [OF assms(1), of pkt "length pkt" 0 "length pkt"] assms(2)
  by (simp add: pjsip_tpmgr_receive_packet_def)

section \<open>What the endpoint gets\<close>

text \<open>
  A message handed up without an error: its pointers lead to its headers, none of those every message
  needs is missing, and the top Via of a request says where it came from.
\<close>

definition delivered :: "rx_source \<Rightarrow> rx_data \<Rightarrow> bool" where
  "delivered src r \<longleftrightarrow>
     msg_wf (rx_msg r) \<and> list_all hdr_good (hdrs (rx_msg r)) \<and>
     rx_via r = first_of PJSIP_H_VIA (hdrs (rx_msg r)) \<and> rx_from r = last_of PJSIP_H_FROM (hdrs (rx_msg r)) \<and>
     rx_to r = last_of PJSIP_H_TO (hdrs (rx_msg r)) \<and> rx_cseq r = last_of PJSIP_H_CSEQ (hdrs (rx_msg r)) \<and>
     rx_cid r = last_of PJSIP_H_CALL_ID (hdrs (rx_msg r)) \<and>
     rx_via r \<noteq> None \<and> rx_from r \<noteq> None \<and> rx_to r \<noteq> None \<and> rx_cseq r \<noteq> None \<and> rx_cid r \<noteq> None \<and>
     tp_type r = rs_type src \<and> tp_flag r = rs_flag src \<and> src_addr r = rs_addr src \<and>
     (\<forall>mth uri. line (rx_msg r) = ReqLine mth uri \<longrightarrow>
        (\<exists>v. h_val (hdrs (rx_msg r) ! the (rx_via r)) = HVia v \<and> v_recvd_param v = rs_name src))"

lemma stamp_via_eq:
  assumes "i < length (hdrs m)" and "h_type (hdrs m ! i) = PJSIP_H_VIA" and "list_all hdr_good (hdrs m)"
  obtains v where "hdrs (stamp_via src i m) = (hdrs m)[i := init_hdr PJSIP_H_VIA (HVia v)]" and "v_recvd_param v = rs_name src"
    and "line (stamp_via src i m) = line m" and "body (stamp_via src i m) = body m" and "hdr_good (init_hdr PJSIP_H_VIA (HVia v))"
proof -
  have g: "hdr_good (hdrs m ! i)" using assms(1,3) by (simp add: list_all_length)
  then obtain v where v: "h_val (hdrs m ! i) = HVia v" using assms(2) by (auto simp: hdr_good_def hdr_shaped_def)
  then have "hdrs m ! i = init_hdr PJSIP_H_VIA (HVia v)" using g by (simp add: hdr_good_def hdr_wf_def)
  then have e: "(hdrs m ! i)\<lparr>h_val := w\<rparr> = init_hdr PJSIP_H_VIA w" for w by simp
  show thesis
    by (rule that [of "v\<lparr>v_recvd_param := rs_name src, v_rport_param := if v_rport_param v = 0 then rs_port src else v_rport_param v\<rparr>"])
      (simp_all add: stamp_via_def v e hdr_good_def hdr_wf_def hdr_shaped_def)
qed

lemma handled_delivered:
  assumes env: "env_ok env" and p: "pjsip_parse_rdata env frag = Done e sc"
    and on: "OnRxMsg PJ_SUCCESS (Some r) \<in> set (fst (handle_fragment cb src frag e))"
  shows "delivered src r"
proof -
  let ?ctx = "pr_ctx e"
  have ne: "PJSIP_EMISSINGHDR \<noteq> PJ_SUCCESS" "PJSIP_EINVALIDSTATUS \<noteq> PJ_SUCCESS"
    by (simp_all add: PJSIP_EMISSINGHDR_def PJSIP_EINVALIDSTATUS_def)
  from on obtain m where m0: "pr_msg e = Some m"
    by (cases "pr_msg e") (auto simp: handle_fragment_def drop_event_def split: if_splits option.splits)
  with on ne have m: "pr_msg e = Some m" "\<not> missing_hdr ?ctx m"
    and r: "(\<exists>c s. line m = StatusLine c s) \<and> r = rdata_of src ?ctx m \<or>
       (\<exists>mth u. line m = ReqLine mth u) \<and> r = rdata_of src ?ctx (stamp_via src (the (pc_via ?ctx)) m)"
    by (cases "line m"; auto simp: handle_fragment_def drop_event_def split: if_splits option.splits)+
  from on_packet_Done [OF p [unfolded pjsip_parse_rdata_def]] obtain s where "int_parse_msg env True s = Done e sc" by blast
  from int_parse_msg_notes [OF env this] m(1)
  have n: "notes_ok ?ctx" "list_all hdr_good (pc_hdrs ?ctx)" "hdrs m = pc_hdrs ?ctx" "msg_wf m" by (simp_all add: ctx_ok_def)
  from m(2) have some: "pc_via ?ctx \<noteq> None" "pc_from ?ctx \<noteq> None" "pc_to ?ctx \<noteq> None" "pc_cseq ?ctx \<noteq> None" "pc_cid ?ctx \<noteq> None"
    by (auto simp: missing_hdr_def split: option.splits)
  have plain: "delivered src (rdata_of src ?ctx m)" if "\<exists>c s. line m = StatusLine c s"
    using n some that by (auto simp: delivered_def rdata_of_def notes_ok_def)
  obtain i where i: "pc_via ?ctx = Some i" using some(1) by blast
  with n(1,3) have fi: "first_of PJSIP_H_VIA (hdrs m) = Some i" by (simp add: notes_ok_def)
  from n(3) fi have the_first: "the (first_of PJSIP_H_VIA (pc_hdrs ?ctx)) = i" by simp
  from first_of_Some [OF fi] have il: "i < length (hdrs m)" "h_type (hdrs m ! i) = PJSIP_H_VIA" by simp_all
  from stamp_via_eq [OF il, of src] n(2,3) obtain v where
    v: "hdrs (stamp_via src i m) = (hdrs m)[i := init_hdr PJSIP_H_VIA (HVia v)]" "v_recvd_param v = rs_name src"
      "line (stamp_via src i m) = line m" "body (stamp_via src i m) = body m" "hdr_good (init_hdr PJSIP_H_VIA (HVia v))" by metis
  have good: "list_all hdr_good (hdrs (stamp_via src i m))"
    unfolding v(1) using n(2,3) v(5) by (auto simp: list_all_iff dest: set_update_subset_insert [THEN subsetD])
  then have "msg_wf (stamp_via src i m)" using n(4) by (auto simp: msg_wf_def v(3,4) hdr_good_def list_all_iff)
  with good have "delivered src (rdata_of src ?ctx (stamp_via src i m))"
    using n some il v(1,2) fi by (simp add: delivered_def rdata_of_def notes_ok_def i the_first first_of_update last_of_update)
  with r plain i show ?thesis by auto
qed

lemma recv_loop_delivered:
  assumes env: "env_ok env"
  shows "recv_loop n env cb src pkt_len pkt processed evs = Some (Inr (k, evs')) \<Longrightarrow>
    (\<forall>r. OnRxMsg PJ_SUCCESS (Some r) \<in> set evs \<longrightarrow> delivered src r) \<Longrightarrow>
    OnRxMsg PJ_SUCCESS (Some r) \<in> set evs' \<Longrightarrow> delivered src r"
proof (induction n arbitrary: pkt processed evs)
  case (Suc n)
  define p where "p = dropWhile is_line_end pkt"
  define evs0 where "evs0 = evs @ (if takeWhile is_line_end pkt = [] then [] else drop_event cb (takeWhile is_line_end pkt) (length (takeWhile is_line_end pkt)) PJ_EIGNORED)"
  have d0: "OnRxMsg PJ_SUCCESS (Some r) \<in> set evs0 \<longrightarrow> delivered src r" for r
    using Suc.prems(2) by (auto simp: evs0_def drop_event_def split: option.splits)
  obtain st m where f: "pjsip_find_msg p (rs_flag src AND 4 \<noteq> 0) = Inr (st, m)" using find_msg_returns by blast
  obtain e sc where e: "pjsip_parse_rdata env (take m p) = Done e sc" using parse_rdata_returns [OF env] by blast
  obtain evs1 used where h: "handle_fragment cb src (take m p) e = (evs1, used)" by fastforce
  have d1: "OnRxMsg PJ_SUCCESS (Some r) \<in> set (evs0 @ evs1) \<longrightarrow> delivered src r" for r
    using d0 handled_delivered [OF env e, of r cb src] h by auto
  show ?case
  proof (cases "pkt \<noteq> [] \<and> p \<noteq> [] \<and> st = PJ_SUCCESS")
    case True
    with Suc.prems(1) f e h have
      "recv_loop n env cb src pkt_len (drop used p) (processed + length (takeWhile is_line_end pkt) + used) (evs0 @ evs1) = Some (Inr (k, evs'))"
      by (simp add: p_def [symmetric] evs0_def [symmetric] Let_def)
    from Suc.IH [OF this] d1 Suc.prems(3) show ?thesis by blast
  next
    case False
    with Suc.prems f d0 show ?thesis
      by (auto simp: p_def [symmetric] evs0_def [symmetric] Let_def drop_event_def split: if_splits option.splits)
  qed
qed (auto split: if_splits)

text \<open>The headers a message must not repeat.\<close>

definition singles :: "pjsip_msg \<Rightarrow> bool" where
  "singles m \<longleftrightarrow> (\<forall>t \<in> {PJSIP_H_FROM, PJSIP_H_TO, PJSIP_H_CSEQ, PJSIP_H_CALL_ID}. last_of t (hdrs m) = first_of t (hdrs m))"

lemma received_complete:
  assumes "env_ok env" and "pjsip_tpmgr_receive_packet env cb src pkt = Some (Inr (n, evs))"
    and "OnRxMsg PJ_SUCCESS (Some r) \<in> set evs"
    and "line (rx_msg r) = ReqLine mth uri" and "m_id mth \<noteq> PJSIP_ACK_METHOD" and "singles (rx_msg r)"
  shows "rx_request r \<and> msg_wf (rx_msg r) \<and> tp_type r = rs_type src \<and>
    (\<exists>v. h_val (the (find_named (rx_msg r) PJSIP_H_VIA)) = HVia v \<and> v_recvd_param v = rs_name src)"
proof -
  have d: "delivered src r"
    using assms(2,3) recv_loop_delivered [OF assms(1), where evs = "[]" and r = r]
    by (auto simp: pjsip_tpmgr_receive_packet_def split: if_splits)
  have find: "pjsip_msg_find_hdr (rx_msg r) t None = first_of t (hdrs (rx_msg r))" for t
    by (simp add: pjsip_msg_find_hdr_def find_start_def first_of_def)
  have last: "last_of t (hdrs (rx_msg r)) = first_of t (hdrs (rx_msg r))"
    if "t \<in> {PJSIP_H_FROM, PJSIP_H_TO, PJSIP_H_CSEQ, PJSIP_H_CALL_ID}" for t
    using assms(6) that by (auto simp: singles_def)
  have eqs: "rx_via r = first_of PJSIP_H_VIA (hdrs (rx_msg r))" "rx_from r = last_of PJSIP_H_FROM (hdrs (rx_msg r))"
    "rx_to r = last_of PJSIP_H_TO (hdrs (rx_msg r))" "rx_cseq r = last_of PJSIP_H_CSEQ (hdrs (rx_msg r))"
    "rx_cid r = last_of PJSIP_H_CALL_ID (hdrs (rx_msg r))"
    "rx_via r \<noteq> None" "rx_from r \<noteq> None" "rx_to r \<noteq> None" "rx_cseq r \<noteq> None" "rx_cid r \<noteq> None"
    using d unfolding delivered_def by blast+
  then have some: "first_of PJSIP_H_VIA (hdrs (rx_msg r)) \<noteq> None" "first_of PJSIP_H_FROM (hdrs (rx_msg r)) \<noteq> None"
    "first_of PJSIP_H_TO (hdrs (rx_msg r)) \<noteq> None" "first_of PJSIP_H_CSEQ (hdrs (rx_msg r)) \<noteq> None"
    "first_of PJSIP_H_CALL_ID (hdrs (rx_msg r)) \<noteq> None"
    using last [of PJSIP_H_FROM] last [of PJSIP_H_TO] last [of PJSIP_H_CSEQ] last [of PJSIP_H_CALL_ID] by simp_all
  obtain i where i: "first_of PJSIP_H_TO (hdrs (rx_msg r)) = Some i" using some(3) by blast
  from first_of_Some [OF i] d have "\<exists>f. h_val (hdrs (rx_msg r) ! i) = HFromTo f"
    by (auto simp: delivered_def list_all_length hdr_good_def hdr_shaped_def)
  then have to: "\<exists>f. h_val (the (find_named (rx_msg r) PJSIP_H_TO)) = HFromTo f" by (simp add: find_named_def find i)
  have via: "\<exists>v. h_val (the (find_named (rx_msg r) PJSIP_H_VIA)) = HVia v \<and> v_recvd_param v = rs_name src"
  proof -
    obtain j where j: "first_of PJSIP_H_VIA (hdrs (rx_msg r)) = Some j" using some(1) by blast
    with eqs(1) have "rx_via r = Some j" by simp
    moreover have "\<exists>v. h_val (hdrs (rx_msg r) ! the (rx_via r)) = HVia v \<and> v_recvd_param v = rs_name src"
      using d assms(4) unfolding delivered_def by blast
    ultimately show ?thesis by (simp add: find_named_def find j)
  qed
  have "list_all hdr_wf (hdrs (rx_msg r))" using d by (auto simp: delivered_def list_all_iff hdr_good_def)
  moreover have "rx_from r = first_of PJSIP_H_FROM (hdrs (rx_msg r))" "rx_to r = first_of PJSIP_H_TO (hdrs (rx_msg r))"
    "rx_cseq r = first_of PJSIP_H_CSEQ (hdrs (rx_msg r))" "rx_cid r = first_of PJSIP_H_CALL_ID (hdrs (rx_msg r))"
    using eqs(2-5) last by simp_all
  moreover have "find_named (rx_msg r) t \<noteq> None" if "first_of t (hdrs (rx_msg r)) \<noteq> None" for t
    using that by (simp add: find_named_def find)
  ultimately have "rx_request r"
    unfolding rx_request_def find using assms(4,5) eqs(1) some to via by blast
  moreover have "msg_wf (rx_msg r)" "tp_type r = rs_type src" using d unfolding delivered_def by blast+
  ultimately show ?thesis using via by blast
qed

text \<open>
  C19: A request the transport hands up without an error is one the modules may rely on, provided that it is
  no ACK and does not repeat From, To, CSeq or Call-ID: complete, with pointers that lead to its
  headers, able to be cloned, its Via stamped with the source.
\<close>

theorem received_request_ok:
  assumes "env_ok env" and "pjsip_tpmgr_receive_packet env cb src pkt = Some (Inr (n, evs))"
    and "OnRxMsg PJ_SUCCESS (Some r) \<in> set evs"
    and "line (rx_msg r) = ReqLine mth uri" and "m_id mth \<noteq> PJSIP_ACK_METHOD" and "singles (rx_msg r)"
  shows "rx_request r \<and> msg_wf (rx_msg r) \<and> tp_type r = rs_type src \<and>
    (\<exists>v. h_val (the (find_named (rx_msg r) PJSIP_H_VIA)) = HVia v \<and> v_recvd_param v = rs_name src)"
  using received_complete [OF assms] .

section \<open>Datagrams and streams\<close>

lemma recv_done: "recv_loop n env cb src pkt_len [] processed evs = Some (Inr (processed, evs))"
  by (cases n) simp_all

lemma handled_once: "cb = None \<Longrightarrow> snd (handle_fragment cb src frag r) = length frag \<and> length (fst (handle_fragment cb src frag r)) \<le> 1"
  by (auto simp: handle_fragment_def drop_event_def split: option.split msg_line.split)

text \<open>
  A datagram is taken as a whole: all its bytes are processed, and it yields at most one message, in
  front of which line ends are skipped.
\<close>

theorem datagram_at_once:
  assumes "env_ok env" and "pkt \<noteq> []" and "rs_flag src AND 4 \<noteq> 0"
  shows "\<exists>evs. pjsip_tpmgr_receive_packet env None src pkt = Some (Inr (length pkt, evs)) \<and> length evs \<le> 1 \<and>
    (\<forall>st r. OnRxMsg st (Some r) \<in> set evs \<longrightarrow>
      (\<exists>e sc. pjsip_parse_rdata env (dropWhile is_line_end pkt) = Done e sc \<and> pr_errs e = [] \<and> pr_msg e \<noteq> None))"
proof -
  define p where "p = dropWhile is_line_end pkt"
  obtain n where n: "length pkt = Suc n" using assms(2) by (cases pkt) auto
  have len: "length (takeWhile is_line_end pkt) + length p = length pkt"
    unfolding p_def by (metis length_append takeWhile_dropWhile_id)
  obtain e sc where e: "pjsip_parse_rdata env p = Done e sc" using parse_rdata_returns [OF assms(1)] by blast
  obtain evs used where h: "handle_fragment None src p e = (evs, used)" by fastforce
  from handled_once [of None src p e] h have u: "used = length p" "length evs \<le> 1" by simp_all
  have m: "pr_errs e = [] \<and> pr_msg e \<noteq> None" if "OnRxMsg st (Some r) \<in> set evs" for st r
    using that h by (auto simp: handle_fragment_def drop_event_def split: if_splits option.splits)
  show ?thesis
  proof (cases "p = []")
    case True
    then show ?thesis using assms(2) len n
      by (auto simp: pjsip_tpmgr_receive_packet_def n p_def [symmetric] drop_event_def Let_def)
  next
    case False
    then have "pjsip_tpmgr_receive_packet env None src pkt = Some (Inr (length pkt, evs))"
      using assms(2,3) len e h u by (simp add: pjsip_tpmgr_receive_packet_def n p_def [symmetric] drop_event_def Let_def
          pjsip_find_msg_def recv_done)
    with m u(2) e show ?thesis by (auto simp: p_def)
  qed
qed

text \<open>
  What a stream waits for, said without the loop: the lines behind the first line end up to the empty
  line, those of them that look like a Content-Length, and the sizes of the ones that can be read.
\<close>

fun line_starts :: "nat \<Rightarrow> string \<Rightarrow> string list" where
  "line_starts k [] = []"
| "line_starts 0 s = []"
| "line_starts (Suc k) (c # s) = (if c = LF then s # line_starts k s else line_starts k s)"

definition declared_sizes :: "nat \<Rightarrow> string \<Rightarrow> nat list" where
  "declared_sizes k s =
     List.map_filter (\<lambda>l. case clen_of_line l of Done n sc \<Rightarrow> Some (nat n) | _ \<Rightarrow> None) (filter is_clen_line (line_starts k s))"

text \<open>The size the front of the stream has as far as it can be told.\<close>

definition declared_size :: "string \<Rightarrow> nat" where
  "declared_size s =
     (case pj_strstr s [LF, CR, LF] of
        None \<Rightarrow> length s
      | Some pos \<Rightarrow> (case declared_sizes (pos + 1) s of [] \<Rightarrow> length s | n # _ \<Rightarrow> pos + 3 + n))"

definition stream_incomplete :: "string \<Rightarrow> bool" where
  "stream_incomplete s \<longleftrightarrow>
     (case pj_strstr s [LF, CR, LF] of
        None \<Rightarrow> True
      | Some pos \<Rightarrow>
          filter is_clen_line (line_starts (pos + 1) s) \<noteq> [] \<and>
          (declared_sizes (pos + 1) s = [] \<or> length s < declared_size s))"

lemma line_starts_split:
  assumes "i = length (takeWhile (\<lambda>c. c \<noteq> LF) s)"
  shows "line_starts k s = (if i \<ge> length s \<or> i \<ge> k then [] else drop (i + 1) s # line_starts (k - (i + 1)) (drop (i + 1) s))"
  using assms
proof (induction k s arbitrary: i rule: line_starts.induct)
  case (3 k c s)
  then show ?case by (cases "c = LF") auto
qed auto

lemma clen_of_line_ends: "(\<exists>n sc. clen_of_line l = Done n sc) \<or> (\<exists>x sc. clen_of_line l = Thrown x sc)"
  unfolding clen_of_line_def by (rule on_packet_runs [OF runs_read_clen])

lemma clen_loop_sizes:
  "\<exists>st. clen_loop status k s = Inr (st, case declared_sizes k s of [] \<Rightarrow> None | n # _ \<Rightarrow> Some n) \<and>
     (declared_sizes k s = [] \<longrightarrow> (st = PJ_SUCCESS \<longleftrightarrow> filter is_clen_line (line_starts k s) = [] \<and> status = PJ_SUCCESS))"
proof (induction status k s rule: clen_loop.induct)
  case (1 status k s)
  define i where "i = length (takeWhile (\<lambda>c. c \<noteq> LF) s)"
  define l where "l = drop (i + 1) s"
  have l: "drop (Suc i) s = l" by (simp add: l_def)
  note split = line_starts_split [OF i_def, of k, folded l_def]
  have ne: "PJSIP_EMISSINGHDR \<noteq> PJ_SUCCESS" "PJSIP_EINVALIDHDR \<noteq> PJ_SUCCESS"
    by (simp_all add: PJSIP_EMISSINGHDR_def PJSIP_EINVALIDHDR_def)
  show ?case
  proof (cases "i \<ge> length s \<or> i \<ge> k")
    case True
    then show ?thesis
      by (subst clen_loop.simps) (auto simp: Let_def i_def [symmetric] split declared_sizes_def map_filter_simps)
  next
    case on: False
    note IH = 1 [OF i_def l_def on]
    have e: "clen_loop status k s =
        (if \<not> is_clen_line l then clen_loop status (k - (i + 1)) l
         else case clen_of_line l of
                Done n sc \<Rightarrow> Inr (status, Some (nat n))
              | Thrown x sc \<Rightarrow> clen_loop (if x = SynErr then PJSIP_EMISSINGHDR else PJSIP_EINVALIDHDR) (k - (i + 1)) l
              | Broken f \<Rightarrow> Inl f
              | Spinning \<Rightarrow> Inl AssertFail)"
      using on by (subst clen_loop.simps) (auto simp: Let_def i_def [symmetric] l split: outcome.split)
    show ?thesis
    proof (cases "is_clen_line l")
      case False
      with IH(1) show ?thesis unfolding e split using on by (simp add: declared_sizes_def split)
    next
      case True
      from clen_of_line_ends [of l] show ?thesis
      proof
        assume "\<exists>n sc. clen_of_line l = Done n sc"
        with True on show ?thesis unfolding e by (auto simp: declared_sizes_def split map_filter_simps)
      next
        assume "\<exists>x sc. clen_of_line l = Thrown x sc"
        then obtain x sc where x: "clen_of_line l = Thrown x sc" by blast
        have d: "declared_sizes k s = declared_sizes (k - (i + 1)) l"
          using True on x by (simp add: declared_sizes_def split map_filter_simps)
        have "filter is_clen_line (line_starts k s) \<noteq> []" using True on by (simp add: split)
        with IH(2) [of x sc] True x ne show ?thesis unfolding e d by (cases "x = SynErr") auto
      qed
    qed
  qed
qed

lemma find_msg_size:
  "\<exists>st. pjsip_find_msg s False = Inr (st, declared_size s) \<and> (st = PJ_SUCCESS \<longleftrightarrow> \<not> stream_incomplete s)"
proof (cases "pj_strstr s [LF, CR, LF]")
  case None
  then show ?thesis by (simp add: pjsip_find_msg_def declared_size_def stream_incomplete_def PJSIP_EPARTIALMSG_def)
next
  case (Some pos)
  from clen_loop_sizes [of PJ_SUCCESS "pos + 1" s] obtain st where
    c: "clen_loop PJ_SUCCESS (pos + 1) s = Inr (st, case declared_sizes (pos + 1) s of [] \<Rightarrow> None | n # _ \<Rightarrow> Some n)"
       "declared_sizes (pos + 1) s = [] \<longrightarrow> (st = PJ_SUCCESS \<longleftrightarrow> filter is_clen_line (line_starts (pos + 1) s) = [])" by blast
  show ?thesis
  proof (cases "declared_sizes (pos + 1) s")
    case Nil
    with c Some show ?thesis by (simp add: pjsip_find_msg_def declared_size_def stream_incomplete_def)
  next
    case (Cons n ns)
    then have "filter is_clen_line (line_starts (pos + 1) s) \<noteq> []" by (auto simp: declared_sizes_def map_filter_simps)
    with Cons c(1) Some show ?thesis
      by (simp add: pjsip_find_msg_def declared_size_def stream_incomplete_def PJSIP_EPARTIALMSG_def Let_def not_less)
  qed
qed

lemma stream_parsed:
  assumes env: "env_ok env" and t: "rs_flag src AND 4 = 0" and ne: "pkt \<noteq> []" and hd: "\<not> is_line_end (hd pkt)"
    and c: "\<not> stream_incomplete pkt"
  shows "\<exists>n evs. pjsip_tpmgr_receive_packet env cb src pkt = Some (Inr (n, evs)) \<and> 0 < n"
proof -
  have mono: "k \<ge> p" if "recv_loop m env cb src pl s p e = Some (Inr (k, e'))" "p + length s \<le> pl" for m pl s p e k e'
    using that
  proof (induction m arbitrary: s p e)
    case (Suc m)
    show ?case
    proof (rule ccontr)
      define q where "q = dropWhile is_line_end s"
      define sk where "sk = takeWhile is_line_end s"
      have len: "length sk + length q = length s" unfolding q_def sk_def by (metis length_append takeWhile_dropWhile_id)
      assume less: "\<not> p \<le> k"
      obtain st n where f: "pjsip_find_msg q False = Inr (st, n)" "0 < n \<or> q = []" using find_msg_returns by metis
      show False
      proof (cases "s = [] \<or> q = [] \<or> st \<noteq> PJ_SUCCESS")
        case True
        with Suc.prems less f len t show False
          by (auto simp: q_def [symmetric] sk_def [symmetric] Let_def split: if_splits)
      next
        case False
        then have n: "n \<le> length q" using find_msg_fits f by blast
        obtain r sc where r: "pjsip_parse_rdata env (take n q) = Done r sc" using parse_rdata_returns [OF env] by blast
        obtain evs1 used where h: "handle_fragment cb src (take n q) r = (evs1, used)" by fastforce
        from handle_fragment_used [of "take n q" cb src r] h n f(2) False have u: "0 < used" "used \<le> n" by auto
        from Suc.prems(1) False f(1) r h t obtain e2 where
          "recv_loop m env cb src pl (drop used q) (p + length sk + used) e2 = Some (Inr (k, e'))"
          by (auto simp: q_def [symmetric] sk_def [symmetric] Let_def split: if_splits)
        from Suc.IH [OF this] u n len Suc.prems(2) less show False by simp
      qed
    qed
  qed (simp split: if_splits)
  obtain k where k: "length pkt = Suc k" using ne by (cases pkt) auto
  have dw: "dropWhile is_line_end pkt = pkt" "takeWhile is_line_end pkt = []" using ne hd by (cases pkt; simp)+
  from find_msg_size [of pkt] c have f: "pjsip_find_msg pkt False = Inr (PJ_SUCCESS, declared_size pkt)" by auto
  let ?m = "declared_size pkt"
  have m: "0 < ?m" "?m \<le> length pkt" using find_msg_returns [of pkt False] find_msg_fits [OF f] f ne by auto
  obtain r sc where r: "pjsip_parse_rdata env (take ?m pkt) = Done r sc" using parse_rdata_returns [OF env] by blast
  obtain evs1 used where h: "handle_fragment cb src (take ?m pkt) r = (evs1, used)" by fastforce
  from handle_fragment_used [of "take ?m pkt" cb src r] h m have u: "0 < used" "used \<le> ?m" by auto
  have e: "pjsip_tpmgr_receive_packet env cb src pkt = recv_loop k env cb src (length pkt) (drop used pkt) used evs1"
    using ne dw f r h t k by (simp add: pjsip_tpmgr_receive_packet_def Let_def)
  have "length (drop used pkt) \<le> k" "used + length (drop used pkt) \<le> length pkt" using u m k by auto
  from recv_loop_returns [OF env this, of cb src evs1] obtain n evs where
    n: "recv_loop k env cb src (length pkt) (drop used pkt) used evs1 = Some (Inr (n, evs))" by blast
  have "used \<le> n" by (rule mono [OF n]) (use u m in simp)
  with n u(1) show ?thesis unfolding e by auto
qed

text \<open>
  C38: On a stream that does not begin with a line end, nothing is taken exactly as long as the end of the
  first message cannot be told: there is no empty line yet, or there are Content-Length lines in front of it
  of which none can be read, or the first that can be read asks for more bytes than are there. When the
  buffer is full then, everything is thrown away; the length reported to the callback for dropped data is
  the size the message declares, which may be far beyond the buffer.
\<close>

theorem stream_waits:
  assumes "env_ok env" and "rs_flag src AND 4 = 0" and "pkt \<noteq> []" and "\<not> is_line_end (hd pkt)"
  shows "if \<not> stream_incomplete pkt
    then \<exists>n evs. pjsip_tpmgr_receive_packet env cb src pkt = Some (Inr (n, evs)) \<and> 0 < n
    else pjsip_tpmgr_receive_packet env cb src pkt =
      Some (Inr (if length pkt = PJSIP_MAX_PKT_LEN
                 then (length pkt, OnRxMsg PJSIP_ERXOVERFLOW None # drop_event cb pkt (declared_size pkt) PJSIP_ERXOVERFLOW)
                 else (0, [])))"
proof (cases "stream_incomplete pkt")
  case True
  obtain k where k: "length pkt = Suc k" using assms(3) by (cases pkt) auto
  have "dropWhile is_line_end pkt = pkt" "takeWhile is_line_end pkt = []"
    using assms(3,4) by (cases pkt; simp)+
  moreover obtain st where "pjsip_find_msg pkt False = Inr (st, declared_size pkt)" "st \<noteq> PJ_SUCCESS"
    using find_msg_size [of pkt] True by blast
  ultimately show ?thesis using assms True by (simp add: pjsip_tpmgr_receive_packet_def k Let_def)
next
  case False
  with stream_parsed [OF assms False] show ?thesis by simp
qed

text \<open>A Content-Length without a number, and one that is far too large.\<close>

definition bad_clen_text :: string where
  "bad_clen_text = text_of [''OPTIONS sip:s SIP/2.0'', ''Content-Length: x'', []]"

definition big_clen_text :: string where
  "big_clen_text = text_of [''OPTIONS sip:s SIP/2.0'', ''l: 99999'', []]"

lemma bad_clen: "stream_incomplete bad_clen_text \<and> length bad_clen_text = 44 \<and> \<not> is_line_end (hd bad_clen_text)"
  by code_simp

lemma big_clen: "stream_incomplete big_clen_text \<and> declared_size big_clen_text = 100034 \<and> length big_clen_text = 35"
  by code_simp

definition tcp_source :: rx_source where
  "tcp_source = \<lparr>rs_type = 2, rs_flag = 1, rs_name = ''10.0.0.9'', rs_port = 5060, rs_addr = ''10.0.0.9:5060''\<rparr>"

section \<open>A REGISTER as it arrives\<close>

lemma recv_env:
  assumes "pjsip_parse_rdata env = pjsip_parse_rdata env'"
  shows "pjsip_tpmgr_receive_packet env cb src pkt = pjsip_tpmgr_receive_packet env' cb src pkt"
proof -
  have "recv_loop n env cb src l = recv_loop n env' cb src l" for n l
  proof (induction n)
    case (Suc n)
    then show ?case by (intro ext) (simp add: assms Let_def split: sum.split prod.split outcome.split)
  qed (intro ext, simp)
  then show ?thesis by (simp add: pjsip_tpmgr_receive_packet_def)
qed

lemma sample_env_ok: "env_ok sample_env"
proof -
  have "uris_run (endpt_uri_handlers int_parse_other_uri)" by (rule endpt_uris_run) (rule runs_other_uri)
  moreover have "uris_whole (endpt_uri_handlers int_parse_other_uri)"
    by (auto simp: uris_whole_def endpt_uri_handlers_def intro: sip_url_whole other_uri_whole)
  ultimately show ?thesis
    by (simp add: env_ok_def sample_env_def sip_env_def auth_ok_def runs_throw yields_throw)
qed

definition udp_source :: rx_source where
  "udp_source = \<lparr>rs_type = 1, rs_flag = 4, rs_name = ''10.0.0.9'', rs_port = 5060, rs_addr = ''10.0.0.9:5060''\<rparr>"

definition register_text :: string where
  "register_text = text_of
     [''REGISTER sip:1000@10.64.49.44:7101;transport=tcp;lr;x=a%20b SIP/2.0'',
      ''Via: SIP/2.0/UDP 10.0.0.9;branch=z9hG4bK1'', ''From: <sip:34020000001320000001@10.0.0.9>;tag=t1'',
      ''To: <sip:34020000001320000001@10.0.0.9>'', ''Call-ID: c1'', ''CSeq: 1 REGISTER'', ''Expires: 3600'', []]"

lemma register_text_parsed:
  "case pjsip_parse_rdata eval_env register_text of
     Done r sc \<Rightarrow> handle_fragment None udp_source register_text r = ([OnRxMsg PJ_SUCCESS (Some sample_register)], length register_text)
   | _ \<Rightarrow> False"
  by code_simp

lemma register_text_received:
  "pjsip_tpmgr_receive_packet sample_env None udp_source register_text =
     Some (Inr (length register_text, [OnRxMsg PJ_SUCCESS (Some sample_register)]))"
proof -
  obtain n where n: "length register_text = Suc n" by (simp add: register_text_def)
  have "register_text \<noteq> []" "dropWhile is_line_end register_text = register_text" "takeWhile is_line_end register_text = []"
    "rs_flag udp_source AND 4 \<noteq> 0"
    by (simp_all add: register_text_def udp_source_def is_line_end_def)
  then show ?thesis using register_text_parsed
    by (simp add: pjsip_tpmgr_receive_packet_def n sample_env_eval pjsip_find_msg_def Let_def recv_done
        split: outcome.splits)
qed

theorem stream_waits_witness: "pjsip_tpmgr_receive_packet sample_env None tcp_source bad_clen_text = Some (Inr (0, []))"
proof -
  have t: "rs_flag tcp_source AND 4 = 0" by (simp add: tcp_source_def)
  have b: "length bad_clen_text = 44" "stream_incomplete bad_clen_text" "\<not> is_line_end (hd bad_clen_text)" using bad_clen by blast+
  then have "bad_clen_text \<noteq> []" by auto
  from stream_waits [OF sample_env_ok t this b(3), of None] b(1,2) show ?thesis by simp
qed

lemma register_text_there: "register_text \<noteq> []"
  by (simp add: register_text_def)

theorem receive_packet_returns_witness:
  "\<exists>n evs. pjsip_tpmgr_receive_packet sample_env None tcp_source register_text = Some (Inr (n, evs)) \<and> n \<le> length register_text"
  by (rule receive_packet_returns [OF sample_env_ok register_text_there])

theorem datagram_at_once_witness:
  "\<exists>evs. pjsip_tpmgr_receive_packet sample_env None udp_source register_text = Some (Inr (length register_text, evs)) \<and> length evs \<le> 1"
  using datagram_at_once [OF sample_env_ok register_text_there, of udp_source] by (auto simp: udp_source_def)

lemma sample_register_singles: "singles (rx_msg sample_register)"
  by (simp add: singles_def last_of_def first_of_def sample_defs)

theorem received_request_ok_witness:
  "rx_request sample_register \<and> tp_type sample_register = rs_type udp_source \<and>
   (\<exists>v. h_val (the (find_named (rx_msg sample_register) PJSIP_H_VIA)) = HVia v \<and> v_recvd_param v = ''10.0.0.9'')"
proof -
  have on: "OnRxMsg PJ_SUCCESS (Some sample_register) \<in> set [OnRxMsg PJ_SUCCESS (Some sample_register)]" by simp
  obtain mth uri where l: "line (rx_msg sample_register) = ReqLine mth uri" "m_id mth \<noteq> PJSIP_ACK_METHOD"
    by (simp add: sample_register_def)
  from received_request_ok [OF sample_env_ok register_text_received on l sample_register_singles]
  show ?thesis by (simp add: udp_source_def)
qed

text \<open>
  C20: The type of a parsed header tells what it holds: whoever finds a header by its type and reads it as
  that type, as the code does with a cast, reads the fields it has; a Contact that is not the star has a
  URI.
\<close>

theorem parsed_headers_typed:
  assumes env: "env_ok env" and parsed: "pjsip_parse_rdata env buf = Done r sc" "pr_msg r = Some m" and h: "h \<in> set (hdrs m)"
  shows "(h_type h = PJSIP_H_VIA \<longrightarrow> (\<exists>v. h_val h = HVia v)) \<and>
     (h_type h \<in> {PJSIP_H_FROM, PJSIP_H_TO} \<longrightarrow> (\<exists>f. h_val h = HFromTo f)) \<and>
     (h_type h = PJSIP_H_CSEQ \<longrightarrow> (\<exists>n m. h_val h = HCseq n m)) \<and>
     (h_type h = PJSIP_H_CALL_ID \<longrightarrow> (\<exists>s. h_val h = HString s)) \<and>
     (h_type h = PJSIP_H_CONTENT_TYPE \<longrightarrow> (\<exists>m. h_val h = HCtype m)) \<and>
     (h_type h = PJSIP_H_CONTENT_LENGTH \<longrightarrow> (\<exists>n. h_val h = HClen n)) \<and>
     (h_type h \<in> {PJSIP_H_EXPIRES, PJSIP_H_MIN_EXPIRES, PJSIP_H_MAX_FORWARDS} \<longrightarrow> (\<exists>n. h_val h = HInt n)) \<and>
     (h_type h \<in> {PJSIP_H_ROUTE, PJSIP_H_RECORD_ROUTE} \<longrightarrow> (\<exists>r. h_val h = HRouting r)) \<and>
     (h_type h = PJSIP_H_CONTACT \<longrightarrow> (\<exists>c. h_val h = HContact c \<and> (star c \<or> c_uri c \<noteq> None)))"
proof -
  have "list_all hdr_good (hdrs m)" using parsed_notes [OF env parsed] by blast
  with h have g: "hdr_shaped h" "hdr_wf h" by (auto simp: list_all_iff hdr_good_def)
  have "star c \<or> c_uri c \<noteq> None" if "h_val h = HContact c" for c
    using g(2) that by (auto simp: hdr_wf_def opt_uri_whole_def split: if_splits option.splits)
  with g(1) show ?thesis unfolding hdr_shaped_def by blast
qed

theorem parsed_headers_typed_witness:
  "\<exists>r sc m. pjsip_parse_rdata sample_env sample_text = Done r sc \<and> pr_msg r = Some m \<and> length (hdrs m) = 6 \<and>
     (\<forall>h\<in>set (hdrs m). h_type h = PJSIP_H_EXPIRES \<longrightarrow> (\<exists>n. h_val h = HInt n))"
proof -
  obtain r sc m where p: "pjsip_parse_rdata sample_env sample_text = Done r sc" "pr_msg r = Some m" "length (hdrs m) = 6"
    using sample_parses unfolding sample_env_eval by (auto split: outcome.splits option.splits)
  have "\<exists>n. h_val h = HInt n" if "h \<in> set (hdrs m)" "h_type h = PJSIP_H_EXPIRES" for h
    using parsed_headers_typed [OF sample_env_ok p(1,2) that(1)] that(2) by simp
  with p show ?thesis by blast
qed

end
