(* ===== verification/TsxLayer.thy ===== *)
theory TsxLayer
  imports SipUtil Hash
begin

text \<open>
  The transaction layer as the endpoint sees it (\<open>3rd/src/pjsip/sip_transaction.c\<close>): the keys of
  transactions, their table, and the handling of a received request, which goes to the transaction of
  its key when there is one. A transaction is known by its address. The first lines of the user agent
  layer (\<open>sip_ua_layer.c\<close>), which let every REGISTER pass, are here too.
\<close>

section \<open>Keys\<close>

datatype pjsip_role = PJSIP_ROLE_UAC | PJSIP_ROLE_UAS

definition role_char :: "pjsip_role \<Rightarrow> char" where
  "role_char role = (if role = PJSIP_ROLE_UAC then CHR ''c'' else CHR ''s'')"

definition key_method :: "pjsip_method \<Rightarrow> string" where
  "key_method m =
     (if m_id m \<noteq> PJSIP_INVITE_METHOD \<and> m_id m \<noteq> PJSIP_ACK_METHOD then m_name m @ ''$'' else [])"

text \<open>Bytes written to a buffer allocated for \<open>n\<close> of them.\<close>

definition alloc_write :: "nat \<Rightarrow> string \<Rightarrow> string res" where
  "alloc_write n out = (if length out \<le> n then Inr out else Inl OutOfBounds)"

definition create_tsx_key_3261 :: "pjsip_role \<Rightarrow> pjsip_method \<Rightarrow> string \<Rightarrow> string res" where
  "create_tsx_key_3261 role m branch =
     alloc_write (length branch + length (m_name m) + 4) ([role_char role, CHR ''$''] @ key_method m @ branch)"

definition key_text_2543 :: "pjsip_role \<Rightarrow> pjsip_method \<Rightarrow> int \<Rightarrow> string \<Rightarrow> string \<Rightarrow> string \<Rightarrow> int \<Rightarrow> string" where
  "key_text_2543 role m cseq ftag cid hst prt =
     [role_char role, CHR ''$''] @ key_method m @ pj_utoa (ulong_of cseq) @ ''$'' @ ftag @ ''$'' @ cid @ ''$'' @
     hst @ '':'' @ pj_utoa (ulong_of prt) @ ''$'' @ [NUL]"

definition create_tsx_key_2543 :: "pjsip_role \<Rightarrow> pjsip_method \<Rightarrow> rx_data \<Rightarrow> string res" where
  "create_tsx_key_2543 role m rdata =
     (if rx_via rdata = None \<or> rx_cseq rdata = None \<or> rx_from rdata = None then Inl AssertFail
      else
        let msg = rx_msg rdata in
        bind_res (hdr_at msg (rx_via rdata)) (\<lambda>h. bind_res (via_of h) (\<lambda>via.
        bind_res (hdr_at msg (rx_from rdata)) (\<lambda>from.
        bind_res (hdr_at msg (rx_cid rdata)) (\<lambda>cid.
        bind_res (hdr_at msg (rx_cseq rdata)) (\<lambda>cs.
          case (h_val from, h_val cid, h_val cs) of
            (HFromTo f, HString callid, HCseq n _) \<Rightarrow>
              alloc_write
                (length (m_name m) + 11 + length (tag f) + length callid + length (v_host via) + 11 + 16)
                (key_text_2543 role m n (tag f) callid (v_host via) (v_port via))
          | _ \<Rightarrow> Inl OutOfBounds))))))"

definition PJSIP_RFC3261_BRANCH_ID :: string where
  "PJSIP_RFC3261_BRANCH_ID = ''z9hG4bK''"

definition pjsip_tsx_create_key :: "pjsip_role \<Rightarrow> pjsip_method \<Rightarrow> rx_data \<Rightarrow> string res" where
  "pjsip_tsx_create_key role m rdata =
     bind_res (hdr_at (rx_msg rdata) (rx_via rdata)) (\<lambda>h. bind_res (via_of h) (\<lambda>via.
       if pj_strnicmp (v_branch_param via) PJSIP_RFC3261_BRANCH_ID 7 = 0
       then create_tsx_key_3261 role m (v_branch_param via)
       else create_tsx_key_2543 role m rdata))"

section \<open>The table\<close>

text \<open>A transaction to be registered: its key with its hash value, computed when it is created.\<close>

record tsx_ref =
  tsx_addr :: nat
  transaction_key :: string
  hashed_key :: "32 word"

definition mod_tsx_layer_register_tsx :: "nat hash_table \<Rightarrow> tsx_ref \<Rightarrow> (int \<times> nat hash_table) res" where
  "mod_tsx_layer_register_tsx ht tsx =
     (if transaction_key tsx = [] then Inl AssertFail
      else bind_res (pj_hash_get_lower ht (transaction_key tsx) 0) (\<lambda>(found, _).
        if found \<noteq> None then Inr (PJ_EEXISTS, ht)
        else bind_res (pj_hash_set_lower True ht (transaction_key tsx) (hashed_key tsx) (Some (tsx_addr tsx)))
               (\<lambda>ht. Inr (PJ_SUCCESS, ht))))"

definition mod_tsx_layer_unregister_tsx :: "int \<Rightarrow> nat hash_table \<Rightarrow> tsx_ref \<Rightarrow> nat hash_table res" where
  "mod_tsx_layer_unregister_tsx mid ht tsx =
     (if mid = -1 then Inr ht
      else if transaction_key tsx = [] then Inl AssertFail
      else pj_hash_set_lower False ht (transaction_key tsx) (hashed_key tsx) None)"

definition find_tsx :: "nat hash_table \<Rightarrow> string \<Rightarrow> nat option res" where
  "find_tsx ht key = bind_res (pj_hash_get_lower ht key 0) (\<lambda>(found, _). Inr found)"

definition pjsip_tsx_layer_find_tsx :: "nat hash_table \<Rightarrow> string \<Rightarrow> nat option res" where
  "pjsip_tsx_layer_find_tsx ht key = find_tsx ht key"

definition pjsip_tsx_layer_find_tsx2 :: "nat hash_table \<Rightarrow> string \<Rightarrow> nat option res" where
  "pjsip_tsx_layer_find_tsx2 ht key = find_tsx ht key"

definition pjsip_tsx_layer_get_tsx_count :: "bool \<Rightarrow> nat hash_table \<Rightarrow> 32 word res" where
  "pjsip_tsx_layer_get_tsx_count registered ht = (if \<not> registered then Inl AssertFail else Inr (pj_hash_count ht))"

section \<open>Received requests\<close>

text \<open>
  The transaction a request belongs to: in the table under the key of the request and not terminated.
  \<open>terminated\<close> tells of an address whether its transaction is.
\<close>

definition method_of :: "rx_data \<Rightarrow> pjsip_method res" where
  "method_of rdata =
     bind_res (hdr_at (rx_msg rdata) (rx_cseq rdata)) (\<lambda>cs. case h_val cs of HCseq n m \<Rightarrow> Inr m | _ \<Rightarrow> Inl OutOfBounds)"

definition tsx_of_request :: "nat hash_table \<Rightarrow> (nat \<Rightarrow> bool) \<Rightarrow> rx_data \<Rightarrow> nat option res" where
  "tsx_of_request ht terminated rdata =
     bind_res (method_of rdata) (\<lambda>m.
     bind_res (pjsip_tsx_create_key PJSIP_ROLE_UAS m rdata) (\<lambda>key.
     bind_res (pj_hash_get_lower ht key 0) (\<lambda>(found, _).
       Inr (case found of None \<Rightarrow> None | Some a \<Rightarrow> if terminated a then None else Some a))))"

text \<open>\<open>recv\<close> is what the transaction of an address does with the message.\<close>

definition mod_tsx_layer_on_rx_request ::
    "nat hash_table \<Rightarrow> (nat \<Rightarrow> bool) \<Rightarrow> (nat \<Rightarrow> 's \<Rightarrow> 's) \<Rightarrow> rx_data \<Rightarrow> 's \<Rightarrow> (int \<times> 's) res" where
  "mod_tsx_layer_on_rx_request ht terminated recv rdata s =
     bind_res (tsx_of_request ht terminated rdata) (\<lambda>t.
       Inr (case t of None \<Rightarrow> (0, s) | Some a \<Rightarrow> (1, recv a s)))"

text \<open>\<open>dialogs\<close> is the rest of the handler of the user agent layer, which looks the dialog up.\<close>

definition mod_ua_on_rx_request :: "(rx_data \<Rightarrow> 's \<Rightarrow> (int \<times> 's) res) \<Rightarrow> rx_data \<Rightarrow> 's \<Rightarrow> (int \<times> 's) res" where
  "mod_ua_on_rx_request dialogs rdata s =
     bind_res (hdr_at (rx_msg rdata) (rx_to rdata)) (\<lambda>to.
       case (h_val to, line (rx_msg rdata)) of
         (HFromTo f, ReqLine m u) \<Rightarrow>
           if tag f = [] \<and> m_id m \<noteq> PJSIP_CANCEL_METHOD then Inr (0, s)
           else if m_id m = PJSIP_REGISTER_METHOD then Inr (0, s)
           else dialogs rdata s
       | _ \<Rightarrow> Inl OutOfBounds)"

section \<open>The keys of RFC 3261\<close>

text \<open>The method as far as keys tell it: INVITE and ACK are one.\<close>

definition same_method :: "pjsip_method \<Rightarrow> pjsip_method \<Rightarrow> bool" where
  "same_method m m' \<longleftrightarrow> key_method m = key_method m'"

lemma same_method_iff:
  "same_method m m' \<longleftrightarrow>
     (m_id m \<in> {PJSIP_INVITE_METHOD, PJSIP_ACK_METHOD} \<and> m_id m' \<in> {PJSIP_INVITE_METHOD, PJSIP_ACK_METHOD}) \<or>
     (m_id m \<notin> {PJSIP_INVITE_METHOD, PJSIP_ACK_METHOD} \<and> m_id m' \<notin> {PJSIP_INVITE_METHOD, PJSIP_ACK_METHOD} \<and>
      m_name m = m_name m')"
  by (auto simp: same_method_def key_method_def)

lemma key_3261_eq: "create_tsx_key_3261 role m branch = Inr ([role_char role, CHR ''$''] @ key_method m @ branch)"
  by (simp add: create_tsx_key_3261_def alloc_write_def key_method_def)

lemma split_at_sep: "c \<notin> set a \<Longrightarrow> c \<notin> set b \<Longrightarrow> a @ c # s = b @ c # t \<longleftrightarrow> a = b \<and> s = t"
proof (induction a arbitrary: b)
  case Nil
  then show ?case by (cases b) auto
next
  case (Cons x a)
  then show ?case by (cases b) auto
qed

lemma key_method_branch:
  assumes "CHR ''$'' \<notin> set (m_name m)" "CHR ''$'' \<notin> set (m_name m')" "CHR ''$'' \<notin> set b" "CHR ''$'' \<notin> set b'"
  shows "key_method m @ b = key_method m' @ b' \<longleftrightarrow> same_method m m' \<and> b = b'"
proof -
  have n: "x @ ''$'' @ s \<noteq> t" if "CHR ''$'' \<notin> set t" for x s t :: string using that by auto
  show ?thesis
    unfolding same_method_def
    using assms split_at_sep [of "CHR ''$''" "m_name m" "m_name m'" b b']
      n [of b' "m_name m" b] n [of b "m_name m'" b'] n [of b' "m_name m" b, THEN not_sym] n [of b "m_name m'" b', THEN not_sym]
    by (auto simp: key_method_def)
qed

text \<open>
  C34: Two requests with branches of RFC 3261 have one key exactly when role and branch agree and the
  methods are the same or both of INVITE and ACK, as long as neither name nor branch has a dollar sign.
\<close>

theorem tsx_key_identifies:
  assumes "CHR ''$'' \<notin> set (m_name m)" and "CHR ''$'' \<notin> set (m_name m')"
    and "CHR ''$'' \<notin> set branch" and "CHR ''$'' \<notin> set branch'"
  shows "create_tsx_key_3261 role m branch = create_tsx_key_3261 role' m' branch' \<longleftrightarrow>
     role = role' \<and> branch = branch' \<and>
     (m_id m \<in> {PJSIP_INVITE_METHOD, PJSIP_ACK_METHOD} \<and> m_id m' \<in> {PJSIP_INVITE_METHOD, PJSIP_ACK_METHOD} \<or>
      m_id m \<notin> {PJSIP_INVITE_METHOD, PJSIP_ACK_METHOD} \<and> m_id m' \<notin> {PJSIP_INVITE_METHOD, PJSIP_ACK_METHOD} \<and>
      m_name m = m_name m')"
proof -
  have r: "role_char role = role_char role' \<longleftrightarrow> role = role'"
    by (cases role; cases role') (simp_all add: role_char_def)
  show ?thesis
    unfolding key_3261_eq same_method_iff [symmetric]
    using key_method_branch [OF assms] r by auto
qed

theorem tsx_key_identifies_witness:
  "create_tsx_key_3261 PJSIP_ROLE_UAS \<lparr>m_id = PJSIP_ACK_METHOD, m_name = ''ACK''\<rparr> ''z9hG4bK77'' =
     create_tsx_key_3261 PJSIP_ROLE_UAS \<lparr>m_id = PJSIP_INVITE_METHOD, m_name = ''INVITE''\<rparr> ''z9hG4bK77'' \<and>
   create_tsx_key_3261 PJSIP_ROLE_UAS \<lparr>m_id = PJSIP_REGISTER_METHOD, m_name = ''REGISTER''\<rparr> ''z9hG4bK77'' \<noteq>
     create_tsx_key_3261 PJSIP_ROLE_UAS \<lparr>m_id = PJSIP_CANCEL_METHOD, m_name = ''CANCEL''\<rparr> ''z9hG4bK77''"
  using tsx_key_identifies [of "\<lparr>m_id = PJSIP_ACK_METHOD, m_name = ''ACK''\<rparr>" "\<lparr>m_id = PJSIP_INVITE_METHOD, m_name = ''INVITE''\<rparr>"
      "''z9hG4bK77''" "''z9hG4bK77''" PJSIP_ROLE_UAS PJSIP_ROLE_UAS]
    tsx_key_identifies [of "\<lparr>m_id = PJSIP_REGISTER_METHOD, m_name = ''REGISTER''\<rparr>" "\<lparr>m_id = PJSIP_CANCEL_METHOD, m_name = ''CANCEL''\<rparr>"
      "''z9hG4bK77''" "''z9hG4bK77''" PJSIP_ROLE_UAS PJSIP_ROLE_UAS]
  by simp

section \<open>The buffer of the old keys\<close>

lemma utoa_length: "0 \<le> i \<Longrightarrow> i < 10 ^ k \<Longrightarrow> 0 < k \<Longrightarrow> k \<le> 19 \<Longrightarrow> length (pj_utoa (ulong_of i)) \<le> k"
proof -
  assume i: "0 \<le> i" "i < 10 ^ k" "0 < k" "k \<le> 19"
  have "(10 :: int) ^ k \<le> 10 ^ 19" using i(4) by (rule power_increasing) simp
  then have "i < 2 ^ 64" using i(2) by simp
  then have "ulong_of i = nat i" using i(1) by (simp add: ulong_of_def)
  moreover have "nat i < 10 ^ k" using i by (simp add: nat_less_iff)
  ultimately show ?thesis using show_nat_length [of "nat i" k] i(3) by simp
qed

text \<open>
  The buffer for a key made without such a branch is large enough whenever sequence number and
  port are in the ranges the parser lets through; the bytes count up to 9 beside numbers and strings.
\<close>

theorem old_key_fits:
  assumes "rx_request rdata" and "h_val (the (find_named (rx_msg rdata) PJSIP_H_VIA)) = HVia via"
    and "h_val (the (find_named (rx_msg rdata) PJSIP_H_FROM)) = HFromTo f"
    and "h_val (the (find_named (rx_msg rdata) PJSIP_H_CALL_ID)) = HString cid"
    and "h_val (the (find_named (rx_msg rdata) PJSIP_H_CSEQ)) = HCseq n m'"
    and "0 \<le> n" and "n < 2 ^ 31" and "0 \<le> v_port via" and "v_port via \<le> 65535"
  shows "create_tsx_key_2543 role m rdata = Inr (key_text_2543 role m n (tag f) cid (v_host via) (v_port via))"
proof -
  note rx = assms(1) [unfolded rx_request_def]
  from rx find_named_at [of "rx_msg rdata" PJSIP_H_VIA] assms(2) obtain i where
    v: "rx_via rdata = Some i" "hdr_at (rx_msg rdata) (Some i) = Inr (the (find_named (rx_msg rdata) PJSIP_H_VIA))" by metis
  from rx find_named_at [of "rx_msg rdata" PJSIP_H_FROM] obtain j where
    fr: "rx_from rdata = Some j" "hdr_at (rx_msg rdata) (Some j) = Inr (the (find_named (rx_msg rdata) PJSIP_H_FROM))" by metis
  from rx find_named_at [of "rx_msg rdata" PJSIP_H_CALL_ID] obtain k where
    ci: "rx_cid rdata = Some k" "hdr_at (rx_msg rdata) (Some k) = Inr (the (find_named (rx_msg rdata) PJSIP_H_CALL_ID))" by metis
  from rx find_named_at [of "rx_msg rdata" PJSIP_H_CSEQ] obtain l where
    cs: "rx_cseq rdata = Some l" "hdr_at (rx_msg rdata) (Some l) = Inr (the (find_named (rx_msg rdata) PJSIP_H_CSEQ))" by metis
  have d: "length (pj_utoa (ulong_of n)) \<le> 10" using assms(6,7) by (intro utoa_length) simp_all
  have d': "length (pj_utoa (ulong_of (v_port via))) \<le> 5" using assms(8,9) by (intro utoa_length) simp_all
  from d d' have "length (key_text_2543 role m n (tag f) cid (v_host via) (v_port via)) \<le>
      length (m_name m) + 11 + length (tag f) + length cid + length (v_host via) + 11 + 16"
    by (simp add: key_text_2543_def key_method_def del: pj_utoa_show)
  then show ?thesis
    by (simp add: create_tsx_key_2543_def v fr ci cs via_of_def assms(2-5) alloc_write_def Let_def)
qed

theorem old_key_fits_witness:
  "create_tsx_key_2543 PJSIP_ROLE_UAS \<lparr>m_id = PJSIP_REGISTER_METHOD, m_name = ''REGISTER''\<rparr> sample_register =
     Inr (''s$REGISTER$1$t1$c1$10.0.0.9:0$'' @ [NUL])"
proof -
  let ?m = "rx_msg sample_register"
  have f: "find_named ?m PJSIP_H_VIA = Some sample_via" "find_named ?m PJSIP_H_FROM = Some sample_from"
    "find_named ?m PJSIP_H_CALL_ID = Some (pjsip_cid_hdr_init ''c1'')" "find_named ?m PJSIP_H_CSEQ = Some sample_cseq"
    by (simp_all add: find_named_def pjsip_msg_find_hdr_def find_start_def sample_defs)
  define via where "via = via0\<lparr>v_transport := ''UDP'', v_host := ''10.0.0.9'', v_recvd_param := ''10.0.0.9'', v_branch_param := ''z9hG4bK1''\<rparr>"
  have v: "h_val sample_via = HVia via" by (simp add: sample_via_def via_def)
  have p: "v_port via = 0" "v_host via = ''10.0.0.9''" by (simp_all add: via_def via0_def)
  have "create_tsx_key_2543 PJSIP_ROLE_UAS \<lparr>m_id = PJSIP_REGISTER_METHOD, m_name = ''REGISTER''\<rparr> sample_register =
      Inr (key_text_2543 PJSIP_ROLE_UAS \<lparr>m_id = PJSIP_REGISTER_METHOD, m_name = ''REGISTER''\<rparr> 1 ''t1'' ''c1'' (v_host via) (v_port via))"
    using old_key_fits [OF sample_register_ok, of via "fromto0\<lparr>ft_uri := sample_device, tag := ''t1''\<rparr>" "''c1''" 1
        "\<lparr>m_id = PJSIP_REGISTER_METHOD, m_name = ''REGISTER''\<rparr>"] p(1)
    by (simp add: f v sample_from_def sample_cseq_def pjsip_cid_hdr_init_def)
  also have "key_text_2543 PJSIP_ROLE_UAS \<lparr>m_id = PJSIP_REGISTER_METHOD, m_name = ''REGISTER''\<rparr> 1 ''t1'' ''c1'' (v_host via) (v_port via) =
      ''s$REGISTER$1$t1$c1$10.0.0.9:0$'' @ [NUL]"
  proof -
    have "show_nat (nat (1 mod 2 ^ 64)) = ''1''" "show_nat (nat (0 mod 2 ^ 64)) = ''0''" by code_simp+
    then show ?thesis by (simp add: key_text_2543_def key_method_def role_char_def p ulong_of_def)
  qed
  finally show ?thesis .
qed

section \<open>The table of the transactions\<close>

text \<open>What the table holds, seen from outside: the transaction of a key.\<close>

definition tsx_at :: "nat hash_table \<Rightarrow> string \<Rightarrow> nat option" where
  "tsx_at ht key = hash_map True ht (lower_c key)"

definition tsx_ref_ok :: "tsx_ref \<Rightarrow> bool" where
  "tsx_ref_ok tsx \<longleftrightarrow>
     transaction_key tsx \<noteq> [] \<and> key_ok True (transaction_key tsx) \<and>
     hashed_key tsx = fst (pj_hash_calc_tolower 0 [] (transaction_key tsx))"

lemma find_tsx_eq: "hash_inv True ht \<Longrightarrow> find_tsx ht key = Inr (tsx_at ht key)"
  by (simp add: find_tsx_def tsx_at_def pj_hash_get_lower_eq)

lemma hashed_key_ok: "tsx_ref_ok tsx \<Longrightarrow> hval_ok True (transaction_key tsx) (hashed_key tsx)"
  by (simp add: tsx_ref_ok_def hval_ok_def hash_calc_tolower canon_def)

lemma register_tsx_eq:
  assumes "hash_inv True ht" and "tsx_ref_ok tsx" and "tsx_at ht (transaction_key tsx) = None"
  shows "\<exists>ht'. mod_tsx_layer_register_tsx ht tsx = Inr (PJ_SUCCESS, ht') \<and> hash_inv True ht' \<and>
     hash_map True ht' = (hash_map True ht)(lower_c (transaction_key tsx) \<mapsto> tsx_addr tsx)"
proof -
  have k: "transaction_key tsx \<noteq> []" "key_ok True (transaction_key tsx)" using assms(2) by (simp_all add: tsx_ref_ok_def)
  from hash_set_refines [OF assms(1) k(2) hashed_key_ok [OF assms(2)], of "Some (tsx_addr tsx)"]
  obtain ht' where "pj_hash_set_lower True ht (transaction_key tsx) (hashed_key tsx) (Some (tsx_addr tsx)) = Inr ht'"
    "hash_inv True ht'" "hash_map True ht' = (hash_map True ht)(lower_c (transaction_key tsx) \<mapsto> tsx_addr tsx)"
    by (auto simp: pj_hash_set_lower_def canon_def)
  with k(1) assms(3) show ?thesis
    by (simp add: mod_tsx_layer_register_tsx_def pj_hash_get_lower_eq [OF assms(1)] tsx_at_def)
qed

text \<open>Deleting needs no pool.\<close>

lemma delete_alloc: "hash_set False ht k hval None lower = hash_set True ht k hval None lower"
  by (simp add: hash_set_def find_entry_def Let_def)

lemma unregister_tsx_eq:
  assumes "hash_inv True ht" and "tsx_ref_ok tsx" and "mid \<noteq> -1"
  shows "\<exists>ht'. mod_tsx_layer_unregister_tsx mid ht tsx = Inr ht' \<and> hash_inv True ht' \<and>
     hash_map True ht' = (hash_map True ht)(lower_c (transaction_key tsx) := None)"
proof -
  have k: "transaction_key tsx \<noteq> []" "key_ok True (transaction_key tsx)" using assms(2) by (simp_all add: tsx_ref_ok_def)
  from hash_set_refines [OF assms(1) k(2) hashed_key_ok [OF assms(2)], of None] k(1) assms(3) show ?thesis
    by (auto simp: mod_tsx_layer_unregister_tsx_def pj_hash_set_lower_def delete_alloc canon_def)
qed

text \<open>
  A registered transaction is found under its key, written in any case, and no other lookup
  changes; a second one with that key is refused; unregistering makes the table what it was.
\<close>

theorem tsx_registered_found:
  assumes "hash_inv True ht" and "tsx_ref_ok tsx" and "find_tsx ht (transaction_key tsx) = Inr None"
  shows "\<exists>ht'. mod_tsx_layer_register_tsx ht tsx = Inr (PJ_SUCCESS, ht') \<and>
     (\<forall>key. find_tsx ht' key =
        (if lower_c key = lower_c (transaction_key tsx) then Inr (Some (tsx_addr tsx)) else find_tsx ht key)) \<and>
     (\<forall>tsx'. tsx_ref_ok tsx' \<and> lower_c (transaction_key tsx') = lower_c (transaction_key tsx) \<longrightarrow>
        mod_tsx_layer_register_tsx ht' tsx' = Inr (PJ_EEXISTS, ht')) \<and>
     (\<forall>mid. mid \<noteq> -1 \<longrightarrow> (\<exists>ht''. mod_tsx_layer_unregister_tsx mid ht' tsx = Inr ht'' \<and> find_tsx ht'' = find_tsx ht))"
proof -
  have free: "tsx_at ht (transaction_key tsx) = None" using assms(3) by (simp add: find_tsx_eq [OF assms(1)])
  from register_tsx_eq [OF assms(1,2) free] obtain ht' where r: "mod_tsx_layer_register_tsx ht tsx = Inr (PJ_SUCCESS, ht')"
    "hash_inv True ht'" "hash_map True ht' = (hash_map True ht)(lower_c (transaction_key tsx) \<mapsto> tsx_addr tsx)" by blast
  have at: "tsx_at ht' key = (if lower_c key = lower_c (transaction_key tsx) then Some (tsx_addr tsx) else tsx_at ht key)" for key
    by (simp add: tsx_at_def r(3))
  have twice: "mod_tsx_layer_register_tsx ht' tsx' = Inr (PJ_EEXISTS, ht')"
    if "tsx_ref_ok tsx'" "lower_c (transaction_key tsx') = lower_c (transaction_key tsx)" for tsx'
    using that at [of "transaction_key tsx'"]
    by (simp add: mod_tsx_layer_register_tsx_def pj_hash_get_lower_eq [OF r(2)] tsx_at_def tsx_ref_ok_def)
  have undone: "\<exists>ht''. mod_tsx_layer_unregister_tsx mid ht' tsx = Inr ht'' \<and> find_tsx ht'' = find_tsx ht" if mid: "mid \<noteq> -1" for mid
  proof -
    from unregister_tsx_eq [OF r(2) assms(2) mid] obtain ht'' where u: "mod_tsx_layer_unregister_tsx mid ht' tsx = Inr ht''"
      "hash_inv True ht''" "hash_map True ht'' = (hash_map True ht')(lower_c (transaction_key tsx) := None)" by blast
    have "tsx_at ht'' key = tsx_at ht key" for key
      using free by (simp add: tsx_at_def u(3) r(3))
    with u show ?thesis by (auto simp: fun_eq_iff find_tsx_eq [OF u(2)] find_tsx_eq [OF assms(1)])
  qed
  show ?thesis
    using r(1) twice undone by (intro exI [of _ ht']) (simp add: find_tsx_eq [OF r(2)] find_tsx_eq [OF assms(1)] at)
qed

definition sample_tsx :: tsx_ref where
  "sample_tsx = \<lparr>tsx_addr = 7, transaction_key = ''s$REGISTER$z9hG4bK1'',
                 hashed_key = fst (pj_hash_calc_tolower 0 [] ''s$REGISTER$z9hG4bK1'')\<rparr>"

theorem tsx_registered_found_witness:
  "\<exists>ht ht'. pj_hash_create 1023 = Some ht \<and> mod_tsx_layer_register_tsx ht sample_tsx = Inr (PJ_SUCCESS, ht') \<and>
     find_tsx ht' ''S$register$Z9HG4BK1'' = Inr (Some 7)"
proof -
  obtain ht where c: "pj_hash_create 1023 = Some (ht :: nat hash_table)" using create_some [of 1023] by auto
  from create_inv [OF c, of True] have h: "hash_inv True ht" "hash_map True ht = (\<lambda>k. None)" by blast+
  have ok: "tsx_ref_ok sample_tsx" by (simp add: tsx_ref_ok_def sample_tsx_def key_ok_def del: pj_hash_calc_tolower.simps)
  have "find_tsx ht (transaction_key sample_tsx) = Inr None" using h by (simp add: find_tsx_eq tsx_at_def)
  from tsx_registered_found [OF h(1) ok this] obtain ht' where
    "mod_tsx_layer_register_tsx ht sample_tsx = Inr (PJ_SUCCESS, ht')"
    "find_tsx ht' ''S$register$Z9HG4BK1'' =
       (if lower_c ''S$register$Z9HG4BK1'' = lower_c (transaction_key sample_tsx) then Inr (Some (tsx_addr sample_tsx))
        else find_tsx ht ''S$register$Z9HG4BK1'')" by blast
  moreover have "lower_c ''S$register$Z9HG4BK1'' = lower_c (transaction_key sample_tsx)" "tsx_addr sample_tsx = 7" by code_simp+
  ultimately show ?thesis using c by auto
qed

section \<open>A REGISTER passes both layers\<close>

lemma ua_lets_register_pass:
  assumes "rx_request rdata" and "line (rx_msg rdata) = ReqLine m u" and "m_id m = PJSIP_REGISTER_METHOD"
  shows "mod_ua_on_rx_request dialogs rdata s = Inr (0, s)"
proof -
  from assms(1) find_named_at [of "rx_msg rdata" PJSIP_H_TO] obtain i where
    "rx_to rdata = Some i" "hdr_at (rx_msg rdata) (Some i) = Inr (the (find_named (rx_msg rdata) PJSIP_H_TO))"
    unfolding rx_request_def by metis
  moreover obtain f where "h_val (the (find_named (rx_msg rdata) PJSIP_H_TO)) = HFromTo f"
    using assms(1) by (auto simp: rx_request_def)
  ultimately show ?thesis using assms(2,3) by (simp add: mod_ua_on_rx_request_def)
qed

lemma tsx_lets_new_request_pass:
  "tsx_of_request ht terminated rdata = Inr None \<Longrightarrow> mod_tsx_layer_on_rx_request ht terminated recv rdata s = Inr (0, s)"
  by (simp add: mod_tsx_layer_on_rx_request_def)

end
