(* ===== verification/SipCore.thy ===== *)
theory SipCore
  imports SipEndpoint RegisterServer ThreadPool Transport TsxLayer
begin

text \<open>
  \<open>SipCore.cpp\<close> of the two services: the start of the SIP stack, the thread that polls it, the callback
  \<open>onRxRequest\<close> that clones a request and hands it to a thread of its own, and that thread. What the
  operating system and the parts of the stack outside the model answer comes as arguments: statuses,
  and whether memory was there.
\<close>

section \<open>Cloning a received message\<close>

definition cloned_types :: "nat list" where
  "cloned_types =
     [PJSIP_H_CALL_ID, PJSIP_H_FROM, PJSIP_H_TO, PJSIP_H_VIA, PJSIP_H_CSEQ, PJSIP_H_MAX_FORWARDS, PJSIP_H_ROUTE,
      PJSIP_H_RECORD_ROUTE, PJSIP_H_CONTENT_TYPE, PJSIP_H_CONTENT_LENGTH, PJSIP_H_REQUIRE, PJSIP_H_SUPPORTED]"

text \<open>The pointers of \<open>msg_info\<close>: each to the first header of its type.\<close>

fun header_pointers :: "pjsip_hdr list \<Rightarrow> nat \<Rightarrow> (nat \<Rightarrow> nat option) \<Rightarrow> nat \<Rightarrow> nat option" where
  "header_pointers [] i p = p"
| "header_pointers (h # hs) i p =
     header_pointers hs (Suc i)
       (if h_type h \<in> set cloned_types \<and> p (h_type h) = None then p(h_type h \<mapsto> i) else p)"

definition pjsip_rx_data_clone :: "bool \<Rightarrow> rx_data \<Rightarrow> transport \<Rightarrow> (int \<times> rx_data option \<times> transport) res" where
  "pjsip_rx_data_clone pool src tp =
     (if \<not> pool then Inr (PJ_ENOMEM, None, tp)
      else bind_res (pjsip_msg_clone (rx_msg src)) (\<lambda>msg.
        let p = header_pointers (hdrs msg) 0 (\<lambda>t. None);
            dst = src\<lparr>rx_msg := msg, rx_via := p PJSIP_H_VIA, rx_from := p PJSIP_H_FROM, rx_to := p PJSIP_H_TO,
                      rx_cseq := p PJSIP_H_CSEQ, rx_cid := p PJSIP_H_CALL_ID\<rparr>;
            (status, tp) = pjsip_transport_add_ref tp
        in Inr (status, Some dst, tp)))"

definition pjsip_rx_data_free_cloned :: "rx_data option \<Rightarrow> transport \<Rightarrow> (int \<times> transport) res" where
  "pjsip_rx_data_free_cloned rdata tp =
     (case rdata of
        None \<Rightarrow> Inl AssertFail
      | Some r \<Rightarrow> bind_res (pjsip_transport_dec_ref tp) (\<lambda>(status, tp). Inr (PJ_SUCCESS, tp)))"

section \<open>The parameter of a task thread\<close>

record threadParam =
  base :: "sip_register option"
  data :: "rx_data option"

definition threadParam_new :: threadParam where
  "threadParam_new = \<lparr>base = None, data = None\<rparr>"

definition threadParam_delete :: "threadParam \<Rightarrow> transport \<Rightarrow> transport res" where
  "threadParam_delete p tp =
     (let p = (case base p of None \<Rightarrow> p | Some b \<Rightarrow> let _ = SipRegister_delete b in p\<lparr>base := None\<rparr>)
      in case data p of
           None \<Rightarrow> Inr tp
         | Some d \<Rightarrow> bind_res (pjsip_rx_data_free_cloned (Some d) tp) (\<lambda>(status, tp). Inr tp))"

text \<open>
  The server: the transport its requests come over, the heap of thread parameters (\<open>None\<close>: deleted),
  the threads that have been created, by their parameter, the list of the lower-level domains, and the
  answers given.
\<close>

record server =
  core_tp :: transport
  params :: "threadParam option list"
  threads :: "nat list"
  sub_list :: "SubDomainInfo list"
  answers :: "register_answer list"

record rx_env =
  pool_there :: bool
  setdetachstate :: int
  pthread_create :: int

section \<open>onRxRequest\<close>

definition PJ_FALSE :: int where "PJ_FALSE = 0"

definition onRxRequest :: "rx_env \<Rightarrow> rx_data option \<Rightarrow> server \<Rightarrow> (int \<times> server) res" where
  "onRxRequest env rdata s =
     (case rdata of
        None \<Rightarrow> Inr (PJ_FALSE, s)
      | Some r \<Rightarrow>
          let param = threadParam_new in
          bind_res (pjsip_rx_data_clone (pool_there env) r (core_tp s)) (\<lambda>(status, d, tp).
          case line (rx_msg r) of
            StatusLine c rs \<Rightarrow> Inl OutOfBounds
          | ReqLine m u \<Rightarrow>
              let param = param\<lparr>data := d\<rparr>;
                  param = (if m_id m = PJSIP_REGISTER_METHOD then param\<lparr>base := Some SipRegister_new\<rparr> else param);
                  ret = fst (createThread (setdetachstate env) (pthread_create env))
              in if ret \<noteq> 0
                 then bind_res (threadParam_delete param tp) (\<lambda>tp. Inr (PJ_FALSE, s\<lparr>core_tp := tp\<rparr>))
                 else Inr (PJ_SUCCESS, s\<lparr>core_tp := tp, params := params s @ [Some param],
                                         threads := threads s @ [length (params s)]\<rparr>)))"

text \<open>The client's callback of that name does nothing.\<close>

definition onRxRequest_sub :: "rx_data option \<Rightarrow> 's \<Rightarrow> (int \<times> 's) res" where
  "onRxRequest_sub rdata s = Inr (PJ_SUCCESS, s)"

section \<open>dealTaskThread\<close>

definition pjcall_thread_register :: "bool \<Rightarrow> int \<Rightarrow> int" where
  "pjcall_thread_register is_registered register_ret = (if \<not> is_registered then register_ret else PJ_SUCCESS)"

text \<open>
  How a thread ends. Behind the call of the handler \<open>dealTaskThread\<close>, which is to return a pointer,
  has no \<open>return\<close>: the control flows off its end, and what happens then the language leaves open.
\<close>

datatype thread_end = ReturnsNull | NoReturn

text \<open>
  The thread of the parameter \<open>a\<close>, run without a break; what the calls of the handler return comes
  first. The theory \<open>ServerThreads\<close> cuts it into the steps between which others run.
\<close>

definition dealTaskThread :: "sip_cfg \<Rightarrow> int \<Rightarrow> int \<Rightarrow> string \<Rightarrow> nat \<Rightarrow> server \<Rightarrow> (thread_end \<times> server) res" where
  "dealTaskThread cfg alloc send now a s =
     (case (if a < length (params s) then params s ! a else None) of
        None \<Rightarrow> Inl NullDeref
      | Some p \<Rightarrow>
          if base p = None then Inr (ReturnsNull, s)
          else bind_res (register_run cfg alloc send now (data p) (sub_list s)) (\<lambda>(answer, ds).
               bind_res (threadParam_delete p (core_tp s)) (\<lambda>tp.
                 Inr (NoReturn, s\<lparr>core_tp := tp, params := (params s)[a := None], sub_list := ds,
                                  answers := answers s @ [answer]\<rparr>))))"

section \<open>The modules of the stack\<close>

text \<open>The callbacks get the message; the endpoint hands it from one to the next.\<close>

definition rx_callback :: "(rx_data \<Rightarrow> 's \<Rightarrow> (int \<times> 's) res) \<Rightarrow> rx_data \<times> 's \<Rightarrow> (int \<times> rx_data \<times> 's) res" where
  "rx_callback f = (\<lambda>(rdata, s). bind_res (f rdata s) (\<lambda>(r, s). Inr (r, rdata, s)))"

definition recv_mod :: "rx_env \<Rightarrow> (rx_data \<times> server) sip_module" where
  "recv_mod env =
     \<lparr>mod_addr = 5, mod_name = ''mod-recv'', mod_id = -1, priority = 64, mod_load = None, mod_start = None,
      mod_stop = None, mod_unload = None, on_rx_request = Some (rx_callback (\<lambda>r. onRxRequest env (Some r))),
      on_rx_response = None, on_tx_request = None, on_tx_response = None\<rparr>"

text \<open>The other modules; \<open>tx\<close>, \<open>resp\<close> and the callbacks of the table stand for what is not modelled of them.\<close>

definition mod_msg_print :: "('m \<Rightarrow> (int \<times> 'm) res) \<Rightarrow> 'm sip_module" where
  "mod_msg_print tx =
     \<lparr>mod_addr = 1, mod_name = ''mod-msg-print'', mod_id = -1, priority = 8, mod_load = None, mod_start = None,
      mod_stop = None, mod_unload = None, on_rx_request = None, on_rx_response = None, on_tx_request = Some tx,
      on_tx_response = Some tx\<rparr>"

definition mod_tsx_layer ::
    "nat hash_table \<Rightarrow> (nat \<Rightarrow> bool) \<Rightarrow> (nat \<Rightarrow> 's \<Rightarrow> 's) \<Rightarrow> (rx_data \<times> 's \<Rightarrow> (int \<times> rx_data \<times> 's) res) \<Rightarrow> (rx_data \<times> 's) sip_module" where
  "mod_tsx_layer ht terminated recv resp =
     \<lparr>mod_addr = 2, mod_name = ''mod-tsx-layer'', mod_id = -1, priority = 16, mod_load = Some PJ_SUCCESS,
      mod_start = Some PJ_SUCCESS, mod_stop = Some PJ_SUCCESS,
      mod_unload = Some (if pj_hash_count ht \<noteq> 0 then PJ_EBUSY else PJ_SUCCESS),
      on_rx_request = Some (rx_callback (mod_tsx_layer_on_rx_request ht terminated recv)), on_rx_response = Some resp,
      on_tx_request = None, on_tx_response = None\<rparr>"

definition mod_stateful_util :: "'m sip_module" where
  "mod_stateful_util =
     \<lparr>mod_addr = 3, mod_name = ''mod-stateful-util'', mod_id = -1, priority = 64, mod_load = None, mod_start = None,
      mod_stop = None, mod_unload = None, on_rx_request = None, on_rx_response = None, on_tx_request = None,
      on_tx_response = None\<rparr>"

text \<open>\<open>pool\<close>, \<open>table\<close>: the memory is there; \<open>mutex\<close>, \<open>tls\<close>: the statuses of the calls.\<close>

definition mod_ua_load :: "bool \<Rightarrow> int \<Rightarrow> bool \<Rightarrow> int \<Rightarrow> int" where
  "mod_ua_load pool mutex table tls =
     (if \<not> pool then PJ_ENOMEM
      else if mutex \<noteq> PJ_SUCCESS then mutex
      else if \<not> table then PJ_ENOMEM
      else if tls \<noteq> PJ_SUCCESS then tls else PJ_SUCCESS)"

definition mod_ua :: "int \<Rightarrow> (rx_data \<Rightarrow> 's \<Rightarrow> (int \<times> 's) res) \<Rightarrow> (rx_data \<times> 's \<Rightarrow> (int \<times> rx_data \<times> 's) res) \<Rightarrow> (rx_data \<times> 's) sip_module" where
  "mod_ua load dialogs resp =
     \<lparr>mod_addr = 4, mod_name = ''mod-ua'', mod_id = -1, priority = 32, mod_load = Some load, mod_start = None,
      mod_stop = None, mod_unload = Some PJ_SUCCESS,
      on_rx_request = Some (rx_callback (mod_ua_on_rx_request dialogs)), on_rx_response = Some resp,
      on_tx_request = None, on_tx_response = None\<rparr>"

section \<open>The endpoint and its layers\<close>

text \<open>
  The statuses of what \<open>pjsip_endpt_create\<close> creates, in its order. The number of users of the parser
  goes up once the first mutex is there and down when a later step fails; it also goes down when that
  mutex itself fails.
\<close>

record endpt_env =
  ee_pool :: bool
  ee_rwmutex :: int
  ee_mutex :: int
  ee_timer :: int
  ee_lock :: int
  ee_ioqueue :: int
  ee_table :: bool
  ee_tpmgr_lock :: int
  ee_resolver :: int

definition pjsip_tpmgr_create ::
    "endpt_env \<Rightarrow> ('m \<Rightarrow> (int \<times> 'm) res) \<Rightarrow> 'm sip_endpoint \<Rightarrow> (int \<times> 'm sip_endpoint) res" where
  "pjsip_tpmgr_create env tx endpt =
     bind_res (pjsip_endpt_register_module endpt (mod_msg_print tx)) (\<lambda>(status, endpt, _).
       if status \<noteq> PJ_SUCCESS then Inr (status, endpt)
       else if \<not> ee_table env then Inr (PJ_ENOMEM, endpt)
       else if ee_tpmgr_lock env \<noteq> PJ_SUCCESS then Inr (ee_tpmgr_lock env, endpt)
       else Inr (PJ_SUCCESS, endpt))"

definition pjsip_endpt_create ::
    "endpt_env \<Rightarrow> ('m \<Rightarrow> (int \<times> 'm) res) \<Rightarrow> int \<Rightarrow> (int \<times> 'm sip_endpoint option \<times> int) res" where
  "pjsip_endpt_create env tx parser =
     (if \<not> ee_pool env then Inr (PJ_ENOMEM, None, parser)
      else if ee_rwmutex env \<noteq> PJ_SUCCESS then Inr (ee_rwmutex env, None, parser - 1)
      else let parser = parser + 1 in
        if ee_mutex env \<noteq> PJ_SUCCESS then Inr (ee_mutex env, None, parser - 1)
        else if ee_timer env \<noteq> PJ_SUCCESS then Inr (ee_timer env, None, parser - 1)
        else if ee_lock env \<noteq> PJ_SUCCESS then Inr (ee_lock env, None, parser - 1)
        else if ee_ioqueue env \<noteq> PJ_SUCCESS then Inr (ee_ioqueue env, None, parser - 1)
        else bind_res (pjsip_tpmgr_create env tx endpoint_new) (\<lambda>(status, endpt).
          if status \<noteq> PJ_SUCCESS then Inr (status, None, parser - 1)
          else if ee_resolver env \<noteq> PJ_SUCCESS then Inr (ee_resolver env, None, parser - 1)
          else Inr (PJ_SUCCESS, Some endpt, parser)))"

fun unload_all :: "'m sip_module list \<Rightarrow> 'm sip_endpoint \<Rightarrow> 'm sip_endpoint res" where
  "unload_all [] endpt = Inr endpt"
| "unload_all (m # ms) endpt = bind_res (unload_module endpt m) (\<lambda>(status, endpt). unload_all ms endpt)"

text \<open>\<open>pjsip_endpt_destroy\<close> as far as the modules: the others are released after them.\<close>

definition pjsip_endpt_destroy :: "'m sip_endpoint option \<Rightarrow> 'm sip_endpoint res" where
  "pjsip_endpt_destroy endpt =
     (case endpt of None \<Rightarrow> Inl NullDeref | Some e \<Rightarrow> unload_all (rev (module_list e)) e)"

record tsx_env =
  te_registered :: bool
  te_pool :: bool
  te_table :: bool
  te_mutex :: int

definition pjsip_tsx_layer_init_module ::
    "tsx_env \<Rightarrow> 'm sip_module \<Rightarrow> 'm sip_endpoint \<Rightarrow> (int \<times> 'm sip_endpoint) res" where
  "pjsip_tsx_layer_init_module env tsx endpt =
     (if te_registered env then Inl AssertFail
      else if \<not> te_pool env then Inr (PJ_ENOMEM, endpt)
      else if \<not> te_table env then Inr (PJ_ENOMEM, endpt)
      else if te_mutex env \<noteq> PJ_SUCCESS then Inr (te_mutex env, endpt)
      else bind_res (pjsip_endpt_register_module endpt tsx) (\<lambda>(status, endpt, _).
        if status \<noteq> PJ_SUCCESS then Inr (status, endpt)
        else bind_res (pjsip_endpt_register_module endpt mod_stateful_util) (\<lambda>(status, endpt, _).
          if status \<noteq> PJ_SUCCESS then Inr (status, endpt) else Inr (PJ_SUCCESS, endpt))))"

definition pjsip_ua_init_module :: "'m sip_module \<Rightarrow> 'm sip_endpoint \<Rightarrow> (int \<times> 'm sip_endpoint) res" where
  "pjsip_ua_init_module ua endpt =
     (if mod_id ua \<noteq> -1 then Inl AssertFail
      else bind_res (pjsip_endpt_register_module endpt ua) (\<lambda>(status, endpt, _). Inr (status, endpt)))"

section \<open>InitSip\<close>

record 'm sip_core =
  m_endpt :: "'m sip_endpoint option"
  listening :: "(string \<times> nat) list"
  polling :: bool

definition SipCore_new :: "'m sip_core" where
  "SipCore_new = \<lparr>m_endpt = None, listening = [], polling = False\<rparr>"

record init_env =
  ie_pj_init :: int
  ie_util_init :: int
  ie_endpt :: endpt_env
  ie_tsx :: tsx_env
  ie_udp :: int
  ie_tcp :: int
  ie_pool :: bool
  ie_thread :: int

definition init_transport_layer :: "init_env \<Rightarrow> int \<Rightarrow> 'm sip_core \<Rightarrow> int \<times> 'm sip_core" where
  "init_transport_layer env prt core =
     (let port = nat (prt mod 2 ^ 16) in
      if ie_udp env \<noteq> PJ_SUCCESS then (ie_udp env, core)
      else let core = core\<lparr>listening := listening core @ [(''udp'', port)]\<rparr> in
        if ie_tcp env \<noteq> PJ_SUCCESS then (ie_tcp env, core)
        else (PJ_SUCCESS, core\<lparr>listening := listening core @ [(''tcp'', port)]\<rparr>))"

text \<open>\<open>do { ... break; ... } while (0)\<close>: the status at the end, and the core.\<close>

definition init_steps ::
    "init_env \<Rightarrow> ('m \<Rightarrow> (int \<times> 'm) res) \<Rightarrow> 'm sip_module \<Rightarrow> 'm sip_module \<Rightarrow> 'm sip_module \<Rightarrow> int \<Rightarrow> 'm sip_core \<Rightarrow>
     (int \<times> 'm sip_core) res" where
  "init_steps env tx tsx ua recv prt core =
     (if ie_pj_init env \<noteq> PJ_SUCCESS then Inr (ie_pj_init env, core)
      else if ie_util_init env \<noteq> PJ_SUCCESS then Inr (ie_util_init env, core)
      else bind_res (pjsip_endpt_create (ie_endpt env) tx 0) (\<lambda>(status, e, parser).
        case e of None \<Rightarrow> Inr (status, core\<lparr>m_endpt := None\<rparr>)
        | Some endpt \<Rightarrow>
          bind_res (pjsip_tsx_layer_init_module (ie_tsx env) tsx endpt) (\<lambda>(status, endpt).
          let core = core\<lparr>m_endpt := Some endpt\<rparr> in
          if status \<noteq> PJ_SUCCESS then Inr (status, core)
          else bind_res (pjsip_ua_init_module ua endpt) (\<lambda>(status, endpt).
          let core = core\<lparr>m_endpt := Some endpt\<rparr> in
          if status \<noteq> PJ_SUCCESS then Inr (status, core)
          else case init_transport_layer env prt core of (status, core) \<Rightarrow>
          if status \<noteq> PJ_SUCCESS then Inr (status, core)
          else bind_res (pjsip_endpt_register_module endpt recv) (\<lambda>(status, endpt, _).
          let core = core\<lparr>m_endpt := Some endpt\<rparr> in
          if status \<noteq> PJ_SUCCESS then Inr (status, core)
          else if \<not> ie_pool env then Inr (status, core)
          else if ie_thread env \<noteq> PJ_SUCCESS then Inr (ie_thread env, core)
          else Inr (PJ_SUCCESS, core\<lparr>polling := True\<rparr>))))))"

definition InitSip ::
    "init_env \<Rightarrow> ('m \<Rightarrow> (int \<times> 'm) res) \<Rightarrow> 'm sip_module \<Rightarrow> 'm sip_module \<Rightarrow> 'm sip_module \<Rightarrow> int \<Rightarrow> 'm sip_core \<Rightarrow>
     (bool \<times> 'm sip_core) res" where
  "InitSip env tx tsx ua recv prt core =
     bind_res (init_steps env tx tsx ua recv prt core) (\<lambda>(status, core).
       let bret = True in Inr (if status \<noteq> PJ_SUCCESS then False else bret, core))"

text \<open>The destructor: the endpoint goes first, then the pollers are told to stop.\<close>

definition SipCore_delete :: "'m sip_core \<Rightarrow> bool \<Rightarrow> ('m sip_endpoint \<times> bool) res" where
  "SipCore_delete core gStopPool = bind_res (pjsip_endpt_destroy (m_endpt core)) (\<lambda>e. Inr (e, True))"

section \<open>The polling thread\<close>

text \<open>
  The rounds of \<open>pollingEvent\<close>: each with the value of \<open>gStopPool\<close> it reads and the status
  of the poll. The result is the value returned, if it is, and how many polls there were.
\<close>

fun pollingEvent :: "(bool \<times> int) list \<Rightarrow> int option \<times> nat" where
  "pollingEvent [] = (None, 0)"
| "pollingEvent ((stop, status) # rounds) =
     (if stop then (Some 0, 0)
      else if status \<noteq> PJ_SUCCESS then (Some (-1), 1)
      else (case pollingEvent rounds of (r, n) \<Rightarrow> (r, Suc n)))"

section \<open>The clone of a request is the request\<close>

lemma header_pointers_kept: "p t = Some k \<Longrightarrow> header_pointers hs i p t = Some k"
proof (induction hs arbitrary: i p)
  case (Cons h hs)
  have "(if h_type h \<in> set cloned_types \<and> p (h_type h) = None then p(h_type h \<mapsto> i) else p) t = Some k"
    using Cons.prems by auto
  then show ?case unfolding header_pointers.simps by (rule Cons.IH)
qed simp

lemma header_pointers_find:
  "t \<in> set cloned_types \<Longrightarrow> p t = None \<Longrightarrow> header_pointers hs i p t = find_from (\<lambda>h. h_type h = t) i hs"
proof (induction hs arbitrary: i p)
  case (Cons h hs)
  show ?case
  proof (cases "h_type h = t")
    case True
    with Cons.prems show ?thesis by (simp add: header_pointers_kept)
  next
    case False
    with Cons.prems Cons.IH [of _ "Suc i"] show ?thesis by simp
  qed
qed simp

lemma header_pointers_msg:
  "t \<in> set cloned_types \<Longrightarrow> header_pointers (hdrs msg) 0 (\<lambda>t. None) t = pjsip_msg_find_hdr msg t None"
  by (simp add: header_pointers_find pjsip_msg_find_hdr_def find_start_def)

lemma rx_data_clone_eq:
  assumes "rx_request rdata" and "msg_wf (rx_msg rdata)"
  shows "pjsip_rx_data_clone pool rdata tp =
     (if pool then Inr (PJ_SUCCESS, Some rdata, snd (pjsip_transport_add_ref tp)) else Inr (PJ_ENOMEM, None, tp))"
proof -
  have t: "{PJSIP_H_VIA, PJSIP_H_FROM, PJSIP_H_TO, PJSIP_H_CSEQ, PJSIP_H_CALL_ID} \<subseteq> set cloned_types"
    by (simp add: cloned_types_def)
  have "rdata\<lparr>rx_msg := rx_msg rdata, rx_via := pjsip_msg_find_hdr (rx_msg rdata) PJSIP_H_VIA None,
        rx_from := pjsip_msg_find_hdr (rx_msg rdata) PJSIP_H_FROM None, rx_to := pjsip_msg_find_hdr (rx_msg rdata) PJSIP_H_TO None,
        rx_cseq := pjsip_msg_find_hdr (rx_msg rdata) PJSIP_H_CSEQ None, rx_cid := pjsip_msg_find_hdr (rx_msg rdata) PJSIP_H_CALL_ID None\<rparr> = rdata"
    using assms(1) unfolding rx_request_def by (cases rdata) simp
  then show ?thesis
    using t by (simp add: pjsip_rx_data_clone_def msg_clone_id [OF assms(2)] header_pointers_msg pjsip_transport_add_ref_def Let_def)
qed

text \<open>
  The clone a request's thread works on is the received request itself, its header pointers in
  place, and holds a reference to the transport of its own; without memory there is no clone.
\<close>

theorem rx_data_clone_same:
  assumes "rx_request rdata" and "msg_wf (rx_msg rdata)"
  shows "pjsip_rx_data_clone pool rdata tp = Inr (if pool then PJ_SUCCESS else PJ_ENOMEM, if pool then Some rdata else None,
     if pool then snd (pjsip_transport_add_ref tp) else tp) \<and> ref_cnt (snd (pjsip_transport_add_ref tp)) = ref_cnt tp + 1"
  by (simp add: rx_data_clone_eq [OF assms])

lemma sample_register_wf: "msg_wf (rx_msg sample_register)"
proof -
  have "list_all hdr_wf (hdrs (rx_msg sample_register))" using sample_register_ok by (simp only: rx_request_def)
  moreover have "line (rx_msg sample_register) = ReqLine \<lparr>m_id = PJSIP_REGISTER_METHOD, m_name = ''REGISTER''\<rparr> (UriSip sample_url)"
    "body (rx_msg sample_register) = None" by (simp_all add: sample_register_def)
  moreover have "uri_whole (UriSip sample_url)" by simp
  ultimately show ?thesis unfolding msg_wf_def by (simp only: msg_line.case option.case)
qed

theorem rx_data_clone_same_witness:
  "pjsip_rx_data_clone True sample_register tp_new = Inr (PJ_SUCCESS, Some sample_register, tp_new\<lparr>ref_cnt := 1\<rparr>)"
  using rx_data_clone_same [OF sample_register_ok sample_register_wf, of True tp_new]
  by (simp add: tp_defs tp_new_def Let_def)

section \<open>Requests\<close>

definition is_register :: "rx_data \<Rightarrow> bool" where
  "is_register r = (case line (rx_msg r) of ReqLine m u \<Rightarrow> m_id m = PJSIP_REGISTER_METHOD | StatusLine c t \<Rightarrow> False)"

text \<open>Complete requests; a REGISTER is from a device, with an Expires header, and there is memory for its clone.\<close>

definition request_ok :: "rx_env \<Rightarrow> rx_data \<Rightarrow> bool" where
  "request_ok env r \<longleftrightarrow> rx_request r \<and> msg_wf (rx_msg r) \<and> (is_register r \<longrightarrow> good_register r \<and> pool_there env)"

definition thread_made :: "rx_env \<Rightarrow> bool" where
  "thread_made env \<longleftrightarrow> fst (createThread (setdetachstate env) (pthread_create env)) = 0"

lemma add_ref_table [simp]: "in_table (snd (pjsip_transport_add_ref tp)) = in_table tp"
  by (simp add: tp_defs Let_def)

lemma dec_ref_ok:
  assumes "tp_inv tp" and "in_table tp" and "ref_cnt tp > 0"
  shows "\<exists>tp'. pjsip_transport_dec_ref tp = Inr (PJ_SUCCESS, tp') \<and> tp_inv tp' \<and> in_table tp' \<and> ref_cnt tp' = ref_cnt tp - 1"
  using assms by (auto simp: tp_defs Let_def)

lemma threadParam_delete_ok:
  assumes "tp_inv tp" and "in_table tp" and "data p \<noteq> None \<Longrightarrow> ref_cnt tp > 0"
  shows "\<exists>tp'. threadParam_delete p tp = Inr tp' \<and> tp_inv tp' \<and> in_table tp' \<and>
               ref_cnt tp' = ref_cnt tp - (if data p \<noteq> None then 1 else 0)"
proof (cases "data p")
  case None
  with assms show ?thesis by (auto simp: threadParam_delete_def split: option.splits)
next
  case (Some d)
  with assms(3) have "ref_cnt tp > 0" by simp
  from dec_ref_ok [OF assms(1,2) this] obtain tp' where
    "pjsip_transport_dec_ref tp = Inr (PJ_SUCCESS, tp')" "tp_inv tp'" "in_table tp'" "ref_cnt tp' = ref_cnt tp - 1" by blast
  with Some show ?thesis
    by (auto simp: threadParam_delete_def pjsip_rx_data_free_cloned_def split: option.splits)
qed

text \<open>What the callback makes of a complete request.\<close>

definition param_for :: "rx_env \<Rightarrow> rx_data \<Rightarrow> threadParam" where
  "param_for env r =
     \<lparr>base = (if is_register r then Some SipRegister_new else None), data = (if pool_there env then Some r else None)\<rparr>"

definition tp_after :: "rx_env \<Rightarrow> transport \<Rightarrow> transport" where
  "tp_after env tp = (if pool_there env then snd (pjsip_transport_add_ref tp) else tp)"

lemma onRxRequest_eq:
  assumes "rx_request r" and "msg_wf (rx_msg r)"
  shows "onRxRequest env (Some r) s =
     (if thread_made env
      then Inr (PJ_SUCCESS, s\<lparr>core_tp := tp_after env (core_tp s), params := params s @ [Some (param_for env r)],
                              threads := threads s @ [length (params s)]\<rparr>)
      else bind_res (threadParam_delete (param_for env r) (tp_after env (core_tp s))) (\<lambda>tp. Inr (PJ_FALSE, s\<lparr>core_tp := tp\<rparr>)))"
proof -
  obtain m u where l: "line (rx_msg r) = ReqLine m u" using assms(1) by (auto simp: rx_request_def)
  then have p: "(if m_id m = PJSIP_REGISTER_METHOD then threadParam_new\<lparr>data := d\<rparr>\<lparr>base := Some SipRegister_new\<rparr> else threadParam_new\<lparr>data := d\<rparr>) =
      param_for env r" if "d = (if pool_there env then Some r else None)" for d
    using that by (simp add: param_for_def is_register_def threadParam_new_def)
  show ?thesis
    unfolding onRxRequest_def rx_data_clone_eq [OF assms] option.case Let_def
    using p by (cases "pool_there env") (simp_all add: l tp_after_def thread_made_def)
qed

lemma tp_after_inv:
  assumes "tp_inv tp" and "in_table tp"
  shows "tp_inv (tp_after env tp) \<and> in_table (tp_after env tp) \<and>
         ref_cnt (tp_after env tp) = ref_cnt tp + (if pool_there env then 1 else 0)"
  using add_ref_inv [OF assms(1)] assms by (simp add: tp_after_def)

definition server_start :: "transport \<Rightarrow> SubDomainInfo list \<Rightarrow> server" where
  "server_start tp ds = \<lparr>core_tp = tp, params = [], threads = [], sub_list = ds, answers = []\<rparr>"

definition good_env :: rx_env where
  "good_env = \<lparr>pool_there = True, setdetachstate = 0, pthread_create = 0\<rparr>"

definition sample_options :: rx_data where
  "sample_options =
     sample_register\<lparr>rx_msg := (rx_msg sample_register)\<lparr>line := ReqLine \<lparr>m_id = PJSIP_OPTIONS_METHOD, m_name = ''OPTIONS''\<rparr> (UriSip sample_url)\<rparr>\<rparr>"

lemma sample_options_ok: "request_ok good_env sample_options" "\<not> is_register sample_options"
proof -
  let ?m = "(rx_msg sample_register)\<lparr>line := ReqLine \<lparr>m_id = PJSIP_OPTIONS_METHOD, m_name = ''OPTIONS''\<rparr> (UriSip sample_url)\<rparr>"
  have f: "pjsip_msg_find_hdr ?m t None = pjsip_msg_find_hdr (rx_msg sample_register) t None" for t
    by (simp add: pjsip_msg_find_hdr_def find_start_def)
  then have n: "find_named ?m t = find_named (rx_msg sample_register) t" for t by (simp add: find_named_def)
  have "rx_request sample_options"
    using sample_register_ok unfolding rx_request_def sample_options_def by (simp add: f n)
  moreover have "msg_wf (rx_msg sample_options)"
    using sample_register_wf by (simp add: msg_wf_def sample_options_def sample_register_def)
  moreover show r: "\<not> is_register sample_options" by (simp add: is_register_def sample_options_def)
  ultimately show "request_ok good_env sample_options" by (simp add: request_ok_def)
qed

lemma sample_register_event: "request_ok good_env sample_register"
  using sample_register_ok sample_register_wf sample_register_good(1) by (simp add: request_ok_def good_env_def)

section \<open>The stack after InitSip\<close>

lemma find_unused_first: "find_unused (map Some as @ replicate (Suc m) None) = length as"
  by (induction as) (simp_all add: find_unused_def)

lemma update_first: "(map Some as @ replicate (Suc m) None)[length as := Some a] = map Some (as @ [a]) @ replicate m None"
  by (simp add: list_update_append)

lemma register_next:
  assumes "modules e = map Some as @ replicate (Suc m) None"
    and "list_all (\<lambda>x. mod_addr x \<noteq> mod_addr md \<and> pj_stricmp (mod_name md) (mod_name x) \<noteq> 0) (module_list e)"
    and "called (mod_load md) = PJ_SUCCESS" and "called (mod_start md) = PJ_SUCCESS"
  shows "pjsip_endpt_register_module e md =
     Inr (PJ_SUCCESS, e\<lparr>modules := map Some (as @ [mod_addr md]) @ replicate m None,
                        module_list := insert_module (md\<lparr>mod_id := int (length as)\<rparr>) (module_list e)\<rparr>,
          md\<lparr>mod_id := int (length as)\<rparr>)"
proof -
  have "find (\<lambda>x. mod_addr x = mod_addr md) (module_list e) = None"
    "find (\<lambda>x. pj_stricmp (mod_name md) (mod_name x) = 0) (module_list e) = None"
    using assms(2) by (auto simp: find_None_iff list_all_iff)
  moreover have "find_unused (modules e) = length as" "(modules e)[length as := Some a] = map Some (as @ [a]) @ replicate m None" for a
    unfolding assms(1) find_unused_first update_first by simp_all
  moreover have "length as \<noteq> length (modules e)" unfolding assms(1) by simp
  ultimately show ?thesis using assms(3,4) by (simp add: pjsip_endpt_register_module_def Let_def)
qed

lemma module_names_differ:
  "pj_stricmp ''mod-tsx-layer'' ''mod-msg-print'' \<noteq> 0"
  "pj_stricmp ''mod-stateful-util'' ''mod-msg-print'' \<noteq> 0" "pj_stricmp ''mod-stateful-util'' ''mod-tsx-layer'' \<noteq> 0"
  "pj_stricmp ''mod-ua'' ''mod-msg-print'' \<noteq> 0" "pj_stricmp ''mod-ua'' ''mod-tsx-layer'' \<noteq> 0"
  "pj_stricmp ''mod-ua'' ''mod-stateful-util'' \<noteq> 0"
  "pj_stricmp ''mod-recv'' ''mod-msg-print'' \<noteq> 0" "pj_stricmp ''mod-recv'' ''mod-tsx-layer'' \<noteq> 0"
  "pj_stricmp ''mod-recv'' ''mod-stateful-util'' \<noteq> 0" "pj_stricmp ''mod-recv'' ''mod-ua'' \<noteq> 0"
  by code_simp+

text \<open>Everything the stack asks for up to the pool of the polling thread is there.\<close>

definition stack_there :: "init_env \<Rightarrow> bool" where
  "stack_there env \<longleftrightarrow>
     ie_pj_init env = 0 \<and> ie_util_init env = 0 \<and>
     ie_endpt env = \<lparr>ee_pool = True, ee_rwmutex = 0, ee_mutex = 0, ee_timer = 0, ee_lock = 0, ee_ioqueue = 0,
                     ee_table = True, ee_tpmgr_lock = 0, ee_resolver = 0\<rparr> \<and>
     ie_tsx env = \<lparr>te_registered = False, te_pool = True, te_table = True, te_mutex = 0\<rparr> \<and>
     ie_udp env = 0 \<and> ie_tcp env = 0"

text \<open>The modules in the order messages pass them.\<close>

definition stack_modules ::
    "('m \<Rightarrow> (int \<times> 'm) res) \<Rightarrow> 'm sip_module \<Rightarrow> 'm sip_module \<Rightarrow> 'm sip_module \<Rightarrow> 'm sip_module list" where
  "stack_modules tx tsx ua recv =
     [mod_msg_print tx\<lparr>mod_id := 0\<rparr>, tsx\<lparr>mod_id := 1\<rparr>, ua\<lparr>mod_id := 3\<rparr>, mod_stateful_util\<lparr>mod_id := 2\<rparr>, recv\<lparr>mod_id := 4\<rparr>]"

definition stack_endpoint ::
    "('m \<Rightarrow> (int \<times> 'm) res) \<Rightarrow> 'm sip_module \<Rightarrow> 'm sip_module \<Rightarrow> 'm sip_module \<Rightarrow> 'm sip_endpoint" where
  "stack_endpoint tx tsx ua recv =
     endpoint_new\<lparr>modules := map Some [1, 2, 3, 4, 5] @ replicate 27 None, module_list := stack_modules tx tsx ua recv\<rparr>"

definition layer_modules :: "'m sip_module \<Rightarrow> 'm sip_module \<Rightarrow> 'm sip_module \<Rightarrow> bool" where
  "layer_modules tsx ua recv \<longleftrightarrow>
     mod_addr tsx = 2 \<and> mod_name tsx = ''mod-tsx-layer'' \<and> priority tsx = 16 \<and> mod_load tsx = Some 0 \<and> mod_start tsx = Some 0 \<and>
     mod_addr ua = 4 \<and> mod_name ua = ''mod-ua'' \<and> priority ua = 32 \<and> mod_load ua = Some 0 \<and> mod_start ua = None \<and> mod_id ua = -1 \<and>
     mod_addr recv = 5 \<and> mod_name recv = ''mod-recv'' \<and> priority recv = 64 \<and> mod_load recv = None \<and> mod_start recv = None"

lemma modules_new: "modules endpoint_new = map Some [] @ replicate (Suc 31) None" "module_list endpoint_new = []"
  by (simp_all add: endpoint_new_def PJSIP_MAX_MODULE_def numeral_eq_Suc)

lemma called_simps [simp]: "called None = 0" "called (Some st) = st"
  by (simp_all add: called_def)

lemma endpt_create_eq:
  assumes "stack_there env"
  shows "pjsip_endpt_create (ie_endpt env) tx n =
    Inr (PJ_SUCCESS, Some (endpoint_new\<lparr>modules := map Some [1] @ replicate (Suc 30) None,
                                      module_list := [mod_msg_print tx\<lparr>mod_id := 0\<rparr>]\<rparr>), n + 1)"
proof -
  have "pjsip_endpt_register_module endpoint_new (mod_msg_print tx) =
      Inr (PJ_SUCCESS, endpoint_new\<lparr>modules := map Some ([] @ [mod_addr (mod_msg_print tx)]) @ replicate 31 None,
           module_list := insert_module (mod_msg_print tx\<lparr>mod_id := int (length ([] :: nat list))\<rparr>) (module_list endpoint_new)\<rparr>,
           mod_msg_print tx\<lparr>mod_id := int (length ([] :: nat list))\<rparr>)"
    by (rule register_next [OF modules_new(1)]) (simp_all add: modules_new(2) mod_msg_print_def)
  then show ?thesis
    using assms by (simp add: pjsip_endpt_create_def stack_there_def pjsip_tpmgr_create_def modules_new(2) mod_msg_print_def numeral_eq_Suc)
qed

lemma tsx_init_eq:
  fixes tsx :: "'m sip_module"
  assumes "stack_there env" and l: "layer_modules tsx ua recv"
  shows "pjsip_tsx_layer_init_module (ie_tsx env) tsx
      (endpoint_new\<lparr>modules := map Some [1] @ replicate (Suc 30) None, module_list := [mod_msg_print tx\<lparr>mod_id := 0\<rparr>]\<rparr>) =
    Inr (PJ_SUCCESS, endpoint_new\<lparr>modules := map Some [1, 2, 3] @ replicate (Suc 28) None,
           module_list := [mod_msg_print tx\<lparr>mod_id := 0\<rparr>, tsx\<lparr>mod_id := 1\<rparr>, mod_stateful_util\<lparr>mod_id := 2\<rparr>]\<rparr>)"
proof -
  let ?e = "endpoint_new\<lparr>modules := map Some [1] @ replicate (Suc 30) None, module_list := [mod_msg_print tx\<lparr>mod_id := 0\<rparr>]\<rparr>"
  note n = module_names_differ
  have 1: "pjsip_endpt_register_module ?e tsx =
      Inr (PJ_SUCCESS, ?e\<lparr>modules := map Some ([1] @ [mod_addr tsx]) @ replicate 30 None,
           module_list := insert_module (tsx\<lparr>mod_id := int (length [1 :: nat])\<rparr>) (module_list ?e)\<rparr>,
           tsx\<lparr>mod_id := int (length [1 :: nat])\<rparr>)"
    by (rule register_next) (use l n in \<open>simp_all add: layer_modules_def mod_msg_print_def\<close>)
  define e2 where "e2 = endpoint_new\<lparr>modules := map Some [1, 2] @ replicate (Suc 29) None,
      module_list := [mod_msg_print tx\<lparr>mod_id := 0\<rparr>, tsx\<lparr>mod_id := 1\<rparr>]\<rparr>"
  have e2: "pjsip_endpt_register_module ?e tsx = Inr (PJ_SUCCESS, e2, tsx\<lparr>mod_id := 1\<rparr>)"
    unfolding 1 using l by (simp add: e2_def layer_modules_def mod_msg_print_def numeral_eq_Suc)
  have 2: "pjsip_endpt_register_module e2 mod_stateful_util =
      Inr (PJ_SUCCESS, e2\<lparr>modules := map Some ([1, 2] @ [mod_addr (mod_stateful_util :: 'm sip_module)]) @ replicate 29 None,
           module_list := insert_module (mod_stateful_util\<lparr>mod_id := int (length [1 :: nat, 2])\<rparr>) (module_list e2)\<rparr>,
           mod_stateful_util\<lparr>mod_id := int (length [1 :: nat, 2])\<rparr>)"
    by (rule register_next) (use l n in \<open>simp_all add: layer_modules_def mod_msg_print_def mod_stateful_util_def e2_def\<close>)
  have "te_registered (ie_tsx env) = False" "te_pool (ie_tsx env)" "te_table (ie_tsx env)" "te_mutex (ie_tsx env) = 0"
    using assms(1) by (simp_all add: stack_there_def)
  then show ?thesis
    unfolding pjsip_tsx_layer_init_module_def e2
    using l by (simp add: 2) (simp add: e2_def mod_stateful_util_def layer_modules_def mod_msg_print_def numeral_eq_Suc)
qed

lemma ua_init_eq:
  fixes tsx :: "'m sip_module"
  assumes l: "layer_modules tsx ua recv"
  shows "pjsip_ua_init_module ua
      (endpoint_new\<lparr>modules := map Some [1, 2, 3] @ replicate (Suc 28) None,
         module_list := [mod_msg_print tx\<lparr>mod_id := 0\<rparr>, tsx\<lparr>mod_id := 1\<rparr>, mod_stateful_util\<lparr>mod_id := 2\<rparr>]\<rparr>) =
    Inr (PJ_SUCCESS, endpoint_new\<lparr>modules := map Some [1, 2, 3, 4] @ replicate (Suc 27) None,
           module_list := [mod_msg_print tx\<lparr>mod_id := 0\<rparr>, tsx\<lparr>mod_id := 1\<rparr>, ua\<lparr>mod_id := 3\<rparr>, mod_stateful_util\<lparr>mod_id := 2\<rparr>]\<rparr>)"
proof -
  let ?e = "endpoint_new\<lparr>modules := map Some [1, 2, 3] @ replicate (Suc 28) None,
      module_list := [mod_msg_print tx\<lparr>mod_id := 0\<rparr>, tsx\<lparr>mod_id := 1\<rparr>, mod_stateful_util\<lparr>mod_id := 2\<rparr>]\<rparr>"
  have "pjsip_endpt_register_module ?e ua =
      Inr (PJ_SUCCESS, ?e\<lparr>modules := map Some ([1, 2, 3] @ [mod_addr ua]) @ replicate 28 None,
           module_list := insert_module (ua\<lparr>mod_id := int (length [1 :: nat, 2, 3])\<rparr>) (module_list ?e)\<rparr>,
           ua\<lparr>mod_id := int (length [1 :: nat, 2, 3])\<rparr>)"
    by (rule register_next)
      (use l module_names_differ in \<open>simp_all add: layer_modules_def mod_msg_print_def mod_stateful_util_def\<close>)
  then show ?thesis
    using l by (simp add: pjsip_ua_init_module_def layer_modules_def mod_msg_print_def mod_stateful_util_def numeral_eq_Suc)
qed

lemma recv_register_eq:
  fixes tsx :: "'m sip_module"
  assumes l: "layer_modules tsx ua recv"
  shows "pjsip_endpt_register_module
      (endpoint_new\<lparr>modules := map Some [1, 2, 3, 4] @ replicate (Suc 27) None,
         module_list := [mod_msg_print tx\<lparr>mod_id := 0\<rparr>, tsx\<lparr>mod_id := 1\<rparr>, ua\<lparr>mod_id := 3\<rparr>, mod_stateful_util\<lparr>mod_id := 2\<rparr>]\<rparr>) recv =
    Inr (PJ_SUCCESS, stack_endpoint tx tsx ua recv, recv\<lparr>mod_id := 4\<rparr>)"
proof -
  let ?e = "endpoint_new\<lparr>modules := map Some [1, 2, 3, 4] @ replicate (Suc 27) None,
      module_list := [mod_msg_print tx\<lparr>mod_id := 0\<rparr>, tsx\<lparr>mod_id := 1\<rparr>, ua\<lparr>mod_id := 3\<rparr>, mod_stateful_util\<lparr>mod_id := 2\<rparr>]\<rparr>"
  have "pjsip_endpt_register_module ?e recv =
      Inr (PJ_SUCCESS, ?e\<lparr>modules := map Some ([1, 2, 3, 4] @ [mod_addr recv]) @ replicate 27 None,
           module_list := insert_module (recv\<lparr>mod_id := int (length [1 :: nat, 2, 3, 4])\<rparr>) (module_list ?e)\<rparr>,
           recv\<lparr>mod_id := int (length [1 :: nat, 2, 3, 4])\<rparr>)"
    by (rule register_next)
      (use l module_names_differ in \<open>simp_all add: layer_modules_def mod_msg_print_def mod_stateful_util_def\<close>)
  then show ?thesis
    using l by (simp add: stack_endpoint_def stack_modules_def layer_modules_def mod_msg_print_def mod_stateful_util_def)
qed

lemma init_steps_eq:
  assumes "stack_there env" and "layer_modules tsx ua recv"
  shows "init_steps env tx tsx ua recv prt SipCore_new =
     Inr (if ie_pool env then ie_thread env else PJ_SUCCESS,
          \<lparr>m_endpt = Some (stack_endpoint tx tsx ua recv),
           listening = [(''udp'', nat (prt mod 2 ^ 16)), (''tcp'', nat (prt mod 2 ^ 16))],
           polling = (ie_pool env \<and> ie_thread env = PJ_SUCCESS)\<rparr>)"
proof -
  have e: "ie_pj_init env = 0" "ie_util_init env = 0" "ie_udp env = 0" "ie_tcp env = 0"
    using assms(1) by (simp_all add: stack_there_def)
  define e1 where "e1 = endpoint_new\<lparr>modules := map Some [1] @ replicate (Suc 30) None,
      module_list := [mod_msg_print tx\<lparr>mod_id := 0\<rparr>]\<rparr>"
  define e3 where "e3 = endpoint_new\<lparr>modules := map Some [1, 2, 3] @ replicate (Suc 28) None,
      module_list := [mod_msg_print tx\<lparr>mod_id := 0\<rparr>, tsx\<lparr>mod_id := 1\<rparr>, mod_stateful_util\<lparr>mod_id := 2\<rparr>]\<rparr>"
  define e4 where "e4 = endpoint_new\<lparr>modules := map Some [1, 2, 3, 4] @ replicate (Suc 27) None,
      module_list := [mod_msg_print tx\<lparr>mod_id := 0\<rparr>, tsx\<lparr>mod_id := 1\<rparr>, ua\<lparr>mod_id := 3\<rparr>, mod_stateful_util\<lparr>mod_id := 2\<rparr>]\<rparr>"
  note steps = endpt_create_eq [OF assms(1), of tx 0, folded e1_def] tsx_init_eq [OF assms, of tx, folded e1_def e3_def]
    ua_init_eq [OF assms(2), of tx, folded e3_def e4_def] recv_register_eq [OF assms(2), of tx, folded e4_def]
  show ?thesis
    by (simp add: init_steps_def steps e init_transport_layer_def SipCore_new_def Let_def)
qed

text \<open>
  C18: When the parts of the stack start, messages pass the printing, transaction and user agent layers
  before the program's own module, and both listeners are on the port modulo \<open>2 ^ 16\<close>. The
  polling thread runs when its pool and the thread were there; without the pool \<open>InitSip\<close> reports
  success all the same, and no request will ever be read.
\<close>

theorem InitSip_result:
  assumes "stack_there env" and "layer_modules tsx ua recv"
  shows "InitSip env tx tsx ua recv prt SipCore_new =
     Inr (\<not> ie_pool env \<or> ie_thread env = PJ_SUCCESS,
          \<lparr>m_endpt = Some (stack_endpoint tx tsx ua recv),
           listening = [(''udp'', nat (prt mod 2 ^ 16)), (''tcp'', nat (prt mod 2 ^ 16))],
           polling = (ie_pool env \<and> ie_thread env = PJ_SUCCESS)\<rparr>) \<and>
     sorted (map priority (stack_modules tx tsx ua recv))"
  using assms(2) unfolding InitSip_def init_steps_eq [OF assms]
  by (simp add: stack_modules_def layer_modules_def mod_msg_print_def mod_stateful_util_def Let_def)

definition sample_init :: "bool \<Rightarrow> init_env" where
  "sample_init pool =
     \<lparr>ie_pj_init = 0, ie_util_init = 0,
      ie_endpt = \<lparr>ee_pool = True, ee_rwmutex = 0, ee_mutex = 0, ee_timer = 0, ee_lock = 0, ee_ioqueue = 0,
                  ee_table = True, ee_tpmgr_lock = 0, ee_resolver = 0\<rparr>,
      ie_tsx = \<lparr>te_registered = False, te_pool = True, te_table = True, te_mutex = 0\<rparr>,
      ie_udp = 0, ie_tcp = 0, ie_pool = pool, ie_thread = 0\<rparr>"

lemma server_modules: "layer_modules (mod_tsx_layer ht terminated recv resp) (mod_ua 0 dialogs resp') (recv_mod env)"
  by (simp add: layer_modules_def mod_tsx_layer_def mod_ua_def recv_mod_def)

theorem InitSip_result_witness:
  "\<forall>ht. \<exists>core. InitSip (sample_init False) (\<lambda>m. Inr (0, m)) (mod_tsx_layer ht (\<lambda>a. False) (\<lambda>a s. s) (\<lambda>m. Inr (0, m)))
      (mod_ua 0 (\<lambda>r s. Inr (1, s)) (\<lambda>m. Inr (0, m))) (recv_mod good_env) 5061 SipCore_new = Inr (True, core) \<and>
     \<not> polling core \<and> listening core = [(''udp'', 5061), (''tcp'', 5061)]"
proof -
  have "stack_there (sample_init False)" by (simp add: stack_there_def sample_init_def)
  from InitSip_result [OF this server_modules] show ?thesis by (simp add: sample_init_def)
qed

text \<open>Without an endpoint there is nothing to destroy, and the destructor does not look.\<close>

lemma SipCore_delete_unstarted: "ie_pj_init env \<noteq> 0 \<Longrightarrow>
    bind_res (init_steps env tx tsx ua recv prt SipCore_new) (\<lambda>(st, core). SipCore_delete core stop) = Inl NullDeref"
  by (simp add: init_steps_def SipCore_delete_def SipCore_new_def pjsip_endpt_destroy_def)

text \<open>A second endpoint after one whose first mutex failed: the users of the parser are counted wrongly.\<close>

lemma endpt_create_parser_users:
  "ee_pool env \<Longrightarrow> ee_rwmutex env \<noteq> 0 \<Longrightarrow> pjsip_endpt_create env tx 0 = Inr (ee_rwmutex env, None, -1)"
  by (simp add: pjsip_endpt_create_def)

lemma polling_ends: "list_all (\<lambda>(stop, status). \<not> stop \<and> status = 0) rs \<Longrightarrow> status \<noteq> 0 \<Longrightarrow>
    pollingEvent (rs @ (False, status) # later) = (Some (-1), Suc (length rs))"
  by (induction rs) auto

section \<open>From the wire to the registry\<close>

text \<open>
  What the server answers to a REGISTER: the code by its list of domains, the headers of the request
  with a Date, handed to the sending of the response for the address \<open>addr\<close>. The status is that of
  the sending; the second component counts the references to the response given back so far.
\<close>

definition register_reply :: "SubDomainInfo list \<Rightarrow> string \<Rightarrow> int \<Rightarrow> string \<Rightarrow> rx_data \<Rightarrow> response_addr \<Rightarrow> register_answer" where
  "register_reply ds ident send now r addr =
     (let code = (if checkIsExist ds ident then 200 else 404); (status, n) = pjsip_endpt_send_response addr send
      in \<lparr>ans_status = status,
          ans_sent = Some (\<lparr>t_msg = \<lparr>line = StatusLine code (pjsip_get_status_text code),
                                     hdrs = response_hdrs code (rx_msg r) @ [pjsip_generic_string_hdr_create (Some ''Date'') (Some now)],
                                     body = None\<rparr>, saved_strict_route = None\<rparr>,
                           if status \<noteq> PJ_SUCCESS then n + 1 else n)\<rparr>)"

lemma answer_register_reply:
  assumes r: "register_from rdata ident" and a: "pjsip_get_response_addr rdata = Inr (PJ_SUCCESS, addr)"
  shows "answer_register PJ_SUCCESS send now rdata (code_for ds ident) = Inr (register_reply ds ident send now rdata addr)"
proof -
  from r have rx: "rx_request rdata" by (simp add: register_from_def)
  obtain st n where sr: "pjsip_endpt_send_response addr send = (st, n)" by (cases "pjsip_endpt_send_response addr send")
  define code where "code = code_for ds ident"
  have c: "100 \<le> code" "code \<le> 699" unfolding code_def by (rule code_for_range)+
  have k: "(if checkIsExist ds ident then 200 else 404) = code" by (simp add: code_def code_for_def)
  show ?thesis
    unfolding register_reply_def k code_def [symmetric]
    by (simp add: answer_register_def create_response_eq [OF rx c, of None] a sr add_date_def pjsip_msg_add_hdr_def Let_def)
qed

lemma register_run_reply:
  assumes "good_register r"
  shows "\<exists>addr. pjsip_get_response_addr r = Inr (PJ_SUCCESS, addr) \<and>
     register_run default_cfg PJ_SUCCESS send now (Some r) ds =
       Inr (register_reply ds (sender r) send now r addr, setExpires ds (sender r) (lifetime_of r))"
proof -
  from assms have r: "register_from r (sender r)" and e: "asked_expires (rx_msg r) \<noteq> None" by (simp_all add: good_register_def)
  obtain addr where a: "pjsip_get_response_addr r = Inr (PJ_SUCCESS, addr)" using response_addr_ok [OF r] by blast
  from e have d: "domains_after ds (sender r) (rx_msg r) = setExpires ds (sender r) (lifetime_of r)"
    by (auto simp: domains_after_def lifetime_of_def)
  have "look_up (sender r) (rx_msg r) ds = Inr (code_for ds (sender r), setExpires ds (sender r) (lifetime_of r))"
    using e by (simp add: look_up_eq d)
  with a show ?thesis
    by (simp add: register_run_def RegisterRequestMessage_def dealWithRegister_def register_from_id [OF r] answer_register_reply [OF r a])
qed

text \<open>
  A new REGISTER from a device passes the layers of the started stack to \<open>onRxRequest\<close>, which
  creates one thread for it and reports it as not handled. When there is memory for the response,
  that thread, run by itself, sends the reply the device is due and sets the lifetime of its domain;
  the clone is gone and its reference to the transport given back. Then it flows off its end.
\<close>

theorem register_end_to_end:
  assumes "request_ok env r" and "is_register r" and "thread_made env"
    and "tsx_of_request ht terminated r = Inr None" and "tp_inv (core_tp s)" and "in_table (core_tp s)"
  shows "\<exists>s' s'' addr. endpt_on_rx_msg
         (stack_endpoint tx (mod_tsx_layer ht terminated recv resp) (mod_ua 0 dialogs resp') (recv_mod env)) True (r, s) =
       Inr (PJ_FALSE, r, s') \<and>
     threads s' = threads s @ [length (params s)] \<and> sub_list s' = sub_list s \<and> answers s' = answers s \<and>
     dealTaskThread default_cfg PJ_SUCCESS send now (length (params s)) s' = Inr (NoReturn, s'') \<and>
     sub_list s'' = setExpires (sub_list s) (sender r) (lifetime_of r) \<and>
     pjsip_get_response_addr r = Inr (PJ_SUCCESS, addr) \<and>
     answers s'' = answers s @ [register_reply (sub_list s) (sender r) send now r addr] \<and>
     params s'' = params s @ [None] \<and> threads s'' = threads s' \<and> ref_cnt (core_tp s'') = ref_cnt (core_tp s)"
proof -
  let ?e = "stack_endpoint tx (mod_tsx_layer ht terminated recv resp) (mod_ua 0 dialogs resp') (recv_mod env)"
  let ?a = "length (params s)"
  from assms(1,2) have rx: "rx_request r" "msg_wf (rx_msg r)" "good_register r" "pool_there env"
    by (simp_all add: request_ok_def)
  from assms(2) obtain m u where l: "line (rx_msg r) = ReqLine m u" "m_id m = PJSIP_REGISTER_METHOD"
    by (auto simp: is_register_def split: msg_line.splits)
  define s' where "s' = s\<lparr>core_tp := tp_after env (core_tp s), params := params s @ [Some (param_for env r)],
                         threads := threads s @ [?a]\<rparr>"
  have on: "onRxRequest env (Some r) s = Inr (PJ_SUCCESS, s')"
    using assms(3) by (simp add: onRxRequest_eq [OF rx(1,2)] s'_def)
  have ml: "module_list ?e = stack_modules tx (mod_tsx_layer ht terminated recv resp) (mod_ua 0 dialogs resp') (recv_mod env)"
    by (simp add: stack_endpoint_def)
  have "endpt_on_rx_msg ?e True (r, s) = distribute on_rx_request (module_list ?e) (r, s)"
    by (rule on_rx_msg_request; unfold ml)
      (simp_all add: stack_modules_def mod_msg_print_def mod_tsx_layer_def mod_ua_def mod_stateful_util_def recv_mod_def)
  also have "\<dots> = Inr (PJ_FALSE, r, s')"
    unfolding ml
    by (simp add: stack_modules_def mod_msg_print_def mod_tsx_layer_def mod_ua_def mod_stateful_util_def recv_mod_def
        rx_callback_def tsx_lets_new_request_pass [OF assms(4)] ua_lets_register_pass [OF rx(1) l] on PJ_FALSE_def)
  finally have wire: "endpt_on_rx_msg ?e True (r, s) = Inr (PJ_FALSE, r, s')" .
  obtain addr where addr: "pjsip_get_response_addr r = Inr (PJ_SUCCESS, addr)" and
    run: "register_run default_cfg PJ_SUCCESS send now (Some r) (sub_list s) =
      Inr (register_reply (sub_list s) (sender r) send now r addr, setExpires (sub_list s) (sender r) (lifetime_of r))"
    using register_run_reply [OF rx(3)] by blast
  have p: "param_for env r = \<lparr>base = Some SipRegister_new, data = Some r\<rparr>" using assms(2) rx(4) by (simp add: param_for_def)
  from tp_after_inv [OF assms(5,6), of env] rx(4) have t: "tp_inv (tp_after env (core_tp s))" "in_table (tp_after env (core_tp s))"
    "ref_cnt (tp_after env (core_tp s)) = ref_cnt (core_tp s) + 1" by auto
  have pos: "ref_cnt (tp_after env (core_tp s)) > 0" using t(3) assms(5) by (simp add: tp_inv_def)
  from threadParam_delete_ok [OF t(1,2) pos, of "param_for env r"] p t(3) obtain tp where
    d: "threadParam_delete (param_for env r) (tp_after env (core_tp s)) = Inr tp" "ref_cnt tp = ref_cnt (core_tp s)" by auto
  have "dealTaskThread default_cfg PJ_SUCCESS send now ?a s' =
      Inr (NoReturn, s\<lparr>core_tp := tp, params := params s @ [None], threads := threads s @ [?a],
             sub_list := setExpires (sub_list s) (sender r) (lifetime_of r),
             answers := answers s @ [register_reply (sub_list s) (sender r) send now r addr]\<rparr>)"
    using run d(1) p by (simp add: s'_def dealTaskThread_def)
  with wire d(2) addr show ?thesis by (auto simp: s'_def)
qed

lemma sample_register_new:
  assumes "pj_hash_create n = Some (ht :: nat hash_table)"
  shows "tsx_of_request ht terminated sample_register = Inr None"
proof -
  let ?m = "\<lparr>m_id = PJSIP_REGISTER_METHOD, m_name = ''REGISTER''\<rparr>"
  from create_inv [OF assms, of True] have h: "hash_inv True ht" "hash_map True ht = (\<lambda>k. None)" by blast+
  have "method_of sample_register = Inr ?m"
    by (simp add: method_of_def hdr_at_def sample_defs)
  moreover have "\<exists>key. pjsip_tsx_create_key PJSIP_ROLE_UAS ?m sample_register = Inr key"
  proof -
    have "pj_strnicmp ''z9hG4bK1'' PJSIP_RFC3261_BRANCH_ID 7 = 0" by code_simp
    then show ?thesis
      by (simp add: pjsip_tsx_create_key_def hdr_at_def sample_defs via_of_def via0_def key_3261_eq)
  qed
  ultimately show ?thesis
    by (auto simp: tsx_of_request_def pj_hash_get_lower_eq [OF h(1)] h(2))
qed

theorem register_end_to_end_witness:
  "\<exists>ht s' s''. endpt_on_rx_msg
       (stack_endpoint (\<lambda>m. Inr (0, m)) (mod_tsx_layer ht (\<lambda>a. False) (\<lambda>a s. s) (\<lambda>m. Inr (0, m)))
          (mod_ua 0 (\<lambda>r s. Inr (1, s)) (\<lambda>m. Inr (0, m))) (recv_mod good_env)) True
       (sample_register, server_start tp_new [sample_domain]) = Inr (PJ_FALSE, sample_register, s') \<and>
     dealTaskThread default_cfg PJ_SUCCESS 0 ''now'' 0 s' = Inr (NoReturn, s'') \<and> sub_list s'' = [sample_domain\<lparr>expires := 3600\<rparr>]"
proof -
  obtain ht where c: "pj_hash_create 1023 = Some (ht :: nat hash_table)" using create_some [of 1023] by auto
  have r: "is_register sample_register" "thread_made good_env"
    by (simp_all add: is_register_def sample_register_def thread_made_def good_env_def createThread_def)
  have i: "tp_inv (core_tp (server_start tp_new [sample_domain]))" "in_table (core_tp (server_start tp_new [sample_domain]))"
    using tp_new_inv by (simp_all add: server_start_def tp_new_def)
  have l: "sub_list (server_start tp_new [sample_domain]) = [sample_domain]" "params (server_start tp_new [sample_domain]) = []"
    by (simp_all add: server_start_def)
  have e: "setExpires [sample_domain] (sender sample_register) (lifetime_of sample_register) = [sample_domain\<lparr>expires := 3600\<rparr>]"
    by (simp add: sample_register_good sample_known)
  from register_end_to_end [OF sample_register_event r sample_register_new [OF c] i,
      where tx = "\<lambda>m. Inr (0, m)" and terminated = "\<lambda>a. False" and recv = "\<lambda>a s. s" and resp = "\<lambda>m. Inr (0, m)" and
        dialogs = "\<lambda>r s. Inr (1, s)" and resp' = "\<lambda>m. Inr (0, m)" and send = 0 and now = "''now''"]
  show ?thesis unfolding l list.size e by blast
qed

end
