(* ===== verification/Wire.thy ===== *)
theory Wire
  imports Receive SipCore
begin

text \<open>
  The whole way of a REGISTER: from the bytes the transport received
  (\<open>3rd/src/pjsip/sip_transport.c\<close>) through the parser, the modules of the endpoint and the thread of
  \<open>onRxRequest\<close> to the list of domains of the server.
\<close>

lemma received_good:
  assumes "env_ok penv" and "pjsip_tpmgr_receive_packet penv cb src pkt = Some (Inr (m, evs))"
    and "OnRxMsg PJ_SUCCESS (Some r) \<in> set evs"
    and "is_register r" and "singles (rx_msg r)"
    and "parseFromId default_cfg (rx_msg r) = Inr ident" and "asked_expires (rx_msg r) = Some e"
    and "rs_name src \<noteq> []" and "rs_type src \<in> tn_type ` set transport_names" and "pool_there env"
  shows "request_ok env r" and "sender r = ident" and "lifetime_of r = e"
proof -
  from assms(4) obtain mth uri where l: "line (rx_msg r) = ReqLine mth uri" "m_id mth \<noteq> PJSIP_ACK_METHOD"
    by (auto simp: is_register_def split: msg_line.splits)
  show se: "sender r = ident" "lifetime_of r = e" using assms(6,7) by (simp_all add: sender_def lifetime_of_def)
  from received_complete [OF assms(1-3) l assms(5)] have "rx_request r" "msg_wf (rx_msg r)" "register_from r ident"
    using assms(6,8,9) by (auto simp: register_from_def)
  then show "request_ok env r" using assms(7,10) by (simp add: request_ok_def good_register_def se)
qed

text \<open>
  C1: A REGISTER that arrives in a packet is parsed and passed through the modules of the stack to the
  server, which makes a thread for it. When there is memory for the response, that thread, run by itself,
  hands exactly one reply to the sending of the response and reports its status: 200 for a device of the
  list and 404 for others, with the headers of the request and a Date. Afterwards the list holds for that
  device the lifetime it asked for and is otherwise unchanged; the clone of the request is deleted and
  its reference to the transport given back. The hypotheses on the packet are that it parses to a
  REGISTER without repeated headers, with a GB28181 From and an Expires.
\<close>

theorem packet_registers:
  assumes "env_ok penv" and "pjsip_tpmgr_receive_packet penv cb src pkt = Some (Inr (m, evs))"
    and "OnRxMsg PJ_SUCCESS (Some r) \<in> set evs"
    and "is_register r" and "singles (rx_msg r)"
    and "parseFromId default_cfg (rx_msg r) = Inr ident" and "asked_expires (rx_msg r) = Some e"
    and "rs_name src \<noteq> []" and "rs_type src \<in> tn_type ` set transport_names" and "pool_there env"
    and "thread_made env" and "tsx_of_request ht terminated r = Inr None" and "tp_inv (core_tp s)" and "in_table (core_tp s)"
  shows "\<exists>s' s'' addr. endpt_on_rx_msg
         (stack_endpoint tx (mod_tsx_layer ht terminated recv resp) (mod_ua 0 dialogs resp') (recv_mod env)) True (r, s) =
       Inr (PJ_FALSE, r, s') \<and>
     threads s' = threads s @ [length (params s)] \<and> sub_list s' = sub_list s \<and> answers s' = answers s \<and>
     dealTaskThread default_cfg PJ_SUCCESS send now (length (params s)) s' = Inr (NoReturn, s'') \<and>
     sub_list s'' = setExpires (sub_list s) ident e \<and>
     pjsip_get_response_addr r = Inr (PJ_SUCCESS, addr) \<and>
     answers s'' = answers s @ [register_reply (sub_list s) ident send now r addr] \<and>
     params s'' = params s @ [None] \<and> threads s'' = threads s' \<and> ref_cnt (core_tp s'') = ref_cnt (core_tp s)"
proof -
  note good = received_good [OF assms(1-10)]
  show ?thesis using register_end_to_end [OF good(1) assms(4,11-14)] unfolding good(2,3) .
qed

theorem packet_registers_witness:
  "\<exists>ht s' s'' addr. endpt_on_rx_msg
       (stack_endpoint (\<lambda>m. Inr (0, m)) (mod_tsx_layer ht (\<lambda>a. False) (\<lambda>a s. s) (\<lambda>m. Inr (0, m)))
          (mod_ua 0 (\<lambda>r s. Inr (1, s)) (\<lambda>m. Inr (0, m))) (recv_mod good_env)) True
       (sample_register, server_start tp_new [sample_domain]) = Inr (PJ_FALSE, sample_register, s') \<and>
     dealTaskThread default_cfg PJ_SUCCESS PJ_EPENDING ''now'' 0 s' = Inr (NoReturn, s'') \<and>
     sub_list s'' = [sample_domain\<lparr>expires := 3600\<rparr>] \<and>
     answers s'' = [register_reply [sample_domain] ''34020000001320000001'' PJ_EPENDING ''now'' sample_register addr]"
proof -
  obtain ht where c: "pj_hash_create 1023 = Some (ht :: nat hash_table)" using create_some [of 1023] by auto
  have r: "is_register sample_register" "thread_made good_env" "pool_there good_env"
    by (simp_all add: is_register_def sample_register_def thread_made_def good_env_def createThread_def)
  have i: "tp_inv (core_tp (server_start tp_new [sample_domain]))" "in_table (core_tp (server_start tp_new [sample_domain]))"
    using tp_new_inv by (simp_all add: server_start_def tp_new_def)
  have l: "sub_list (server_start tp_new [sample_domain]) = [sample_domain]" "params (server_start tp_new [sample_domain]) = []"
    "answers (server_start tp_new [sample_domain]) = []"
    by (simp_all add: server_start_def)
  have src: "rs_name udp_source \<noteq> []" "rs_type udp_source \<in> tn_type ` set transport_names"
    by (simp_all add: udp_source_def transport_names_def tpn_def)
  have on: "OnRxMsg PJ_SUCCESS (Some sample_register) \<in> set [OnRxMsg PJ_SUCCESS (Some sample_register)]" by simp
  from packet_registers [OF sample_env_ok register_text_received on r(1) sample_register_singles sample_register_id
      sample_register_expires src r(3,2) sample_register_new [OF c] i,
      where tx = "\<lambda>m. Inr (0, m)" and terminated = "\<lambda>a. False" and recv = "\<lambda>a s. s" and resp = "\<lambda>m. Inr (0, m)" and
        dialogs = "\<lambda>r s. Inr (1, s)" and resp' = "\<lambda>m. Inr (0, m)" and send = PJ_EPENDING and now = "''now''"]
  show ?thesis unfolding l list.size append_Nil sample_known(2) by blast
qed

end
