(* ===== verification/ServerThreads.thy ===== *)
theory ServerThreads
  imports SipCore
begin

text \<open>
  The server with its threads running at once (\<open>SipCore.cpp\<close>, \<open>SipRegister.cpp\<close>, and the counting of
  references in \<open>3rd/src/pjsip/sip_transport.c\<close>): \<open>onRxRequest\<close> on the polling thread and
  \<open>dealTaskThread\<close> on a thread per request, cut where they touch what they share. A step is one atomic
  change of the counter of the transport, one section under the lock of the transport manager, one
  section under \<open>globalLock\<close>, the creation of a thread, or work on what a thread has for itself. Between
  any two steps of one thread the others may go on.
\<close>

section \<open>Where the threads are\<close>

text \<open>
  The polling thread is in its loop, waits for the lock after it has raised the counter from 0, is about
  to create the thread for a parameter, or waits for the lock after it has lowered the counter to 0.
\<close>

datatype poller =
    PollIdle
  | PollJoin rx_env threadParam
  | PollCreate rx_env threadParam
  | PollLeave

text \<open>
  A thread is about to begin, to call \<open>checkIsExist\<close>, to call \<open>setExpires\<close>, to answer with a code, to
  delete its parameter, or waits for the lock after it has lowered the counter to 0.
\<close>

datatype task =
    AtStart
  | AtCheck string
  | AtSet string
  | AtAnswer int
  | AtDelete
  | AtLeave

record served =
  core :: server
  poll :: poller
  task :: "nat \<Rightarrow> task option"
  ended :: "(nat \<times> thread_end) list"

abbreviation (input) set_tp :: "transport \<Rightarrow> served \<Rightarrow> served" where
  "set_tp tp w \<equiv> w\<lparr>core := (core w)\<lparr>core_tp := tp\<rparr>\<rparr>"

text \<open>The first half of \<open>pjsip_transport_dec_ref\<close>.\<close>

definition drop_ref :: "transport \<Rightarrow> transport res" where
  "drop_ref tp = (if \<not> ref_cnt tp > 0 then Inl AssertFail else Inr (atomic_add (-1) tp))"

section \<open>The polling thread\<close>

text \<open>
  \<open>onRxRequest\<close> up to the reference of the clone: the copy is made, the parameter filled in and the counter
  raised.
\<close>

definition receive_step :: "rx_env \<Rightarrow> rx_data option \<Rightarrow> served \<Rightarrow> served res" where
  "receive_step env rdata w =
     (case rdata of
        None \<Rightarrow> Inr w
      | Some r \<Rightarrow>
          bind_res (pjsip_rx_data_clone (pool_there env) r (core_tp (core w))) (\<lambda>(status, d, _).
          case line (rx_msg r) of
            StatusLine c rs \<Rightarrow> Inl OutOfBounds
          | ReqLine m u \<Rightarrow>
              let param = threadParam_new\<lparr>data := d\<rparr>;
                  param = (if m_id m = PJSIP_REGISTER_METHOD then param\<lparr>base := Some SipRegister_new\<rparr> else param)
              in case d of
                   None \<Rightarrow> Inr (w\<lparr>poll := PollCreate env param\<rparr>)
                 | Some _ \<Rightarrow>
                     let tp = atomic_add 1 (core_tp (core w))
                     in Inr ((set_tp tp w)\<lparr>poll := if ref_cnt tp = 1 then PollJoin env param else PollCreate env param\<rparr>)))"

text \<open>The rest of it: the lock of \<open>add_ref\<close>, the thread, and what is done when there is none.\<close>

definition poll_step :: "served \<Rightarrow> served res" where
  "poll_step w =
     (let s = core w in
      case poll w of
        PollIdle \<Rightarrow> Inr w
      | PollJoin env param \<Rightarrow> Inr ((set_tp (add_ref_locked (core_tp s)) w)\<lparr>poll := PollCreate env param\<rparr>)
      | PollCreate env param \<Rightarrow>
          if fst (createThread (setdetachstate env) (pthread_create env)) \<noteq> 0
          then (case data param of
                  None \<Rightarrow> Inr (w\<lparr>poll := PollIdle\<rparr>)
                | Some d \<Rightarrow>
                    bind_res (drop_ref (core_tp s)) (\<lambda>tp.
                      Inr ((set_tp tp w)\<lparr>poll := if ref_cnt tp = 0 then PollLeave else PollIdle\<rparr>)))
          else Inr (w\<lparr>core := s\<lparr>params := params s @ [Some param], threads := threads s @ [length (params s)]\<rparr>,
                      task := (task w)(length (params s) \<mapsto> AtStart), poll := PollIdle\<rparr>)
      | PollLeave \<Rightarrow> bind_res (dec_ref_locked (core_tp s)) (\<lambda>tp. Inr ((set_tp tp w)\<lparr>poll := PollIdle\<rparr>)))"

section \<open>The threads of the requests\<close>

definition task_param :: "served \<Rightarrow> nat \<Rightarrow> threadParam res" where
  "task_param w a =
     (case (if a < length (params (core w)) then params (core w) ! a else None) of None \<Rightarrow> Inl NullDeref | Some p \<Rightarrow> Inr p)"

definition task_data :: "served \<Rightarrow> nat \<Rightarrow> rx_data res" where
  "task_data w a = bind_res (task_param w a) (\<lambda>p. case data p of None \<Rightarrow> Inl NullDeref | Some r \<Rightarrow> Inr r)"

definition goto :: "nat \<Rightarrow> task \<Rightarrow> served \<Rightarrow> served" where
  "goto a t w = w\<lparr>task := (task w)(a \<mapsto> t)\<rparr>"

definition finish :: "nat \<Rightarrow> thread_end \<Rightarrow> served \<Rightarrow> served" where
  "finish a e w = w\<lparr>task := (task w)(a := None), ended := ended w @ [(a, e)]\<rparr>"

text \<open>
  One step of the thread of the parameter \<open>a\<close>, from where it is; what the calls of the handler return
  comes first.
\<close>

fun task_step :: "sip_cfg \<Rightarrow> int \<Rightarrow> int \<Rightarrow> string \<Rightarrow> nat \<Rightarrow> task \<Rightarrow> served \<Rightarrow> served res" where
  "task_step cfg alloc send now a AtStart w =
     bind_res (task_param w a) (\<lambda>p.
       if base p = None then Inr (finish a ReturnsNull w)
       else bind_res (task_data w a) (\<lambda>r.
            bind_res (parseFromId cfg (rx_msg r)) (\<lambda>fromId. Inr (goto a (AtCheck fromId) w))))"
| "task_step cfg alloc send now a (AtCheck fromId) w =
     Inr (goto a (if \<not> checkIsExist (sub_list (core w)) fromId then AtAnswer SIP_FORBIDDEN else AtSet fromId) w)"
| "task_step cfg alloc send now a (AtSet fromId) w =
     bind_res (task_data w a) (\<lambda>r.
     bind_res (hdr_at (rx_msg r) (pjsip_msg_find_hdr (rx_msg r) PJSIP_H_EXPIRES None)) (\<lambda>h.
     bind_res (int_of_hdr h) (\<lambda>expiresValue.
       Inr (goto a (AtAnswer 200) (w\<lparr>core := (core w)\<lparr>sub_list := setExpires (sub_list (core w)) fromId expiresValue\<rparr>\<rparr>)))))"
| "task_step cfg alloc send now a (AtAnswer status_code) w =
     bind_res (task_data w a) (\<lambda>r.
     bind_res (answer_register alloc send now r status_code) (\<lambda>answer.
       Inr (goto a AtDelete (w\<lparr>core := (core w)\<lparr>answers := answers (core w) @ [answer]\<rparr>\<rparr>))))"
| "task_step cfg alloc send now a AtDelete w =
     bind_res (task_param w a) (\<lambda>p.
       let w = w\<lparr>core := (core w)\<lparr>params := (params (core w))[a := None]\<rparr>\<rparr> in
       case data p of
         None \<Rightarrow> Inr (finish a NoReturn w)
       | Some d \<Rightarrow>
           bind_res (drop_ref (core_tp (core w))) (\<lambda>tp.
             Inr (if ref_cnt tp = 0 then goto a AtLeave (set_tp tp w) else finish a NoReturn (set_tp tp w))))"
| "task_step cfg alloc send now a AtLeave w =
     bind_res (dec_ref_locked (core_tp (core w))) (\<lambda>tp. Inr (finish a NoReturn (set_tp tp w)))"

section \<open>The steps are the functions\<close>


lemma task_at [simp]:
  "task (goto a t w) a = Some t" "core (goto a t w) = core w" "task (finish a e w) a = None" "core (finish a e w) = core w"
  "poll (goto a t w) = poll w" "poll (finish a e w) = poll w" "ended (goto a t w) = ended w" "ended (finish a e w) = ended w @ [(a, e)]"
  by (simp_all add: goto_def finish_def)




lemma task_param_same: "params (core v) = params (core w) \<Longrightarrow> task_param w a = Inr p \<Longrightarrow> task_param v a = Inr p"
  unfolding task_param_def by (simp only:)


lemma delete_halves:
  "threadParam_delete p tp =
     (case data p of
        None \<Rightarrow> Inr tp
      | Some d \<Rightarrow> bind_res (drop_ref tp) (\<lambda>tp. if ref_cnt tp = 0 then dec_ref_locked tp else Inr tp))"
  by (auto simp: threadParam_delete_def pjsip_rx_data_free_cloned_def pjsip_transport_dec_ref_def drop_ref_def Let_def
      bind_res_def split: option.splits sum.splits)




fun poll_run :: "nat \<Rightarrow> served \<Rightarrow> served res" where
  "poll_run 0 w = Inr w"
| "poll_run (Suc n) w = bind_res (poll_step w) (poll_run n)"

lemma add_ref_halves:
  "snd (pjsip_transport_add_ref tp) = (let tp = atomic_add 1 tp in if ref_cnt tp = 1 then add_ref_locked tp else tp)"
  by (simp add: pjsip_transport_add_ref_def Let_def)

lemma clone_part:
  "pjsip_rx_data_clone pool r tp = bind_res (pjsip_rx_data_clone pool r tp') (\<lambda>(st, d, _).
     Inr (st, d, if d = None then tp else snd (pjsip_transport_add_ref tp)))"
  by (auto simp: pjsip_rx_data_clone_def pjsip_transport_add_ref_def Let_def bind_res_def split: sum.splits)

lemma poll_whole:
  assumes "poll w = PollIdle"
  shows "bind_res (bind_res (receive_step env rdata w) (poll_run 3)) (\<lambda>w. Inr (core w, poll w)) =
     bind_res (onRxRequest env rdata (core w)) (\<lambda>(status, s). Inr (s, PollIdle))"
proof (cases rdata)
  case None
  with assms show ?thesis by (simp add: receive_step_def onRxRequest_def numeral_eq_Suc poll_step_def)
next
  case (Some r)
  let ?made = "fst (createThread (setdetachstate env) (pthread_create env)) = 0" and ?tp = "core_tp (core w)"
  show ?thesis
  proof (cases "pjsip_rx_data_clone (pool_there env) r ?tp")
    case (Inl f)
    with Some show ?thesis by (simp add: receive_step_def onRxRequest_def)
  next
    case (Inr c)
    obtain st d tp where c: "c = (st, d, tp)" by (cases c)
    have tp: "tp = (if d = None then ?tp else snd (pjsip_transport_add_ref ?tp))"
      using clone_part [of "pool_there env" r ?tp ?tp] Inr c by (simp split: if_splits)
    show ?thesis
    proof (cases "line (rx_msg r)")
      case (StatusLine code reason)
      with Some Inr c show ?thesis by (simp add: receive_step_def onRxRequest_def)
    next
      case (ReqLine m u)
      define param where "param = (if m_id m = PJSIP_REGISTER_METHOD then threadParam_new\<lparr>data := d, base := Some SipRegister_new\<rparr>
        else threadParam_new\<lparr>data := d\<rparr>)"
      have pd: "data param = d" by (simp add: param_def)
      show ?thesis
      proof (cases d)
        case None
        with Some Inr c ReqLine tp pd show ?thesis
          by (simp add: receive_step_def onRxRequest_def Let_def numeral_eq_Suc poll_step_def delete_halves)
      next
        case (Some x)
        note S = \<open>rdata = Some r\<close> Inr c ReqLine tp pd Some
        note D = receive_step_def onRxRequest_def Let_def numeral_eq_Suc poll_step_def delete_halves add_ref_halves
        show ?thesis
        proof (cases "drop_ref tp")
          case (Inl f)
          with S show ?thesis by (auto simp: D)
        next
          case d: (Inr tp1)
          with S show ?thesis by (cases "ref_cnt tp1 = 0"; cases "dec_ref_locked tp1") (auto simp: D)
        qed
      qed
    qed
  qed
qed

section \<open>All together\<close>

text \<open>
  What may happen next: a request comes while the polling thread is in its loop, the polling thread goes
  on, the idle timer of the transport fires, which the polling thread does as well, or the thread of
  some parameter goes on.
\<close>

datatype core_event =
    Receive rx_env "rx_data option"
  | Poll
  | Expire int
  | Run nat int int string

inductive core_step :: "sip_cfg \<Rightarrow> served \<Rightarrow> core_event \<Rightarrow> served res \<Rightarrow> bool" for cfg where
  receive: "poll w = PollIdle \<Longrightarrow> core_step cfg w (Receive env rdata) (receive_step env rdata w)"
| polls: "poll w \<noteq> PollIdle \<Longrightarrow> core_step cfg w Poll (poll_step w)"
| expire: "poll w = PollIdle \<Longrightarrow> idle_timer (core_tp (core w)) \<noteq> None \<Longrightarrow>
    core_step cfg w (Expire destroy) (bind_res (transport_idle_callback destroy (core_tp (core w))) (\<lambda>tp. Inr (set_tp tp w)))"
| runs: "task w a = Some t \<Longrightarrow> core_step cfg w (Run a alloc send now) (task_step cfg alloc send now a t w)"

inductive_cases core_step_cases [elim!]: "core_step cfg w e r"

inductive core_runs :: "sip_cfg \<Rightarrow> served \<Rightarrow> core_event list \<Rightarrow> served res \<Rightarrow> bool" for cfg w where
  start: "core_runs cfg w [] (Inr w)"
| continue: "core_runs cfg w es (Inr w') \<Longrightarrow> core_step cfg w' e r \<Longrightarrow> core_runs cfg w (es @ [e]) r"

definition served_start :: "transport \<Rightarrow> SubDomainInfo list \<Rightarrow> served" where
  "served_start tp ds = \<lparr>core = server_start tp ds, poll = PollIdle, task = (\<lambda>a. None), ended = []\<rparr>"


text \<open>The requests that come are complete; what the system answers to a thread is not restricted.\<close>

fun event_complete :: "core_event \<Rightarrow> bool" where
  "event_complete (Receive env (Some r)) = request_ok env r"
| "event_complete e = True"





definition live :: "(threadParam \<Rightarrow> bool) \<Rightarrow> threadParam option list \<Rightarrow> nat" where
  "live P ps = length (filter (\<lambda>p. case p of None \<Rightarrow> False | Some q \<Rightarrow> P q) ps)"


definition handled :: "threadParam \<Rightarrow> bool" where
  "handled p \<longleftrightarrow> base p \<noteq> None"


lemma live_append [simp]: "live P (ps @ [Some p]) = live P ps + (if P p then 1 else 0)"
  by (simp add: live_def)


section \<open>The invariant\<close>





definition unanswered :: "served \<Rightarrow> nat set" where
  "unanswered w = {a. a < length (params (core w)) \<and> (\<exists>p. params (core w) ! a = Some p \<and> handled p) \<and> task w a \<noteq> Some AtDelete}"







lemma unanswered_finite [simp]: "finite (unanswered w)"
  by (simp add: unanswered_def)



lemma expires_readable:
  assumes "asked_expires msg \<noteq> None"
  shows "\<exists>h e. hdr_at msg (pjsip_msg_find_hdr msg PJSIP_H_EXPIRES None) = Inr h \<and> int_of_hdr h = Inr e"
proof -
  from assms obtain h e where h: "find_named msg PJSIP_H_EXPIRES = Some h" "h_val h = HInt e"
    by (auto simp: asked_expires_def split: option.splits hdr_val.splits)
  from find_named_at [of msg PJSIP_H_EXPIRES] h obtain i where "pjsip_msg_find_hdr msg PJSIP_H_EXPIRES None = Some i"
    "hdr_at msg (Some i) = Inr h" by (metis option.distinct(1) option.sel)
  with h(2) show ?thesis by (simp add: int_of_hdr_def)
qed








section \<open>A run\<close>

text \<open>The equations of the single steps, for concrete runs.\<close>

lemma receive_next:
  assumes "request_ok env r" and "pool_there env"
  shows "receive_step env (Some r) w =
     (let tp = atomic_add 1 (core_tp (core w))
      in Inr ((set_tp tp w)\<lparr>poll := if ref_cnt tp = 1 then PollJoin env (param_for env r) else PollCreate env (param_for env r)\<rparr>))"
proof -
  from assms have rx: "rx_request r" "msg_wf (rx_msg r)" by (simp_all add: request_ok_def)
  obtain m u where l: "line (rx_msg r) = ReqLine m u" using rx(1) by (auto simp: rx_request_def)
  show ?thesis
    unfolding receive_step_def option.case rx_data_clone_eq [OF rx]
    using assms(2) by (simp add: l Let_def param_for_def is_register_def threadParam_new_def)
qed

lemma create_next:
  "poll w = PollCreate env p \<Longrightarrow> thread_made env \<Longrightarrow>
     poll_step w = Inr (w\<lparr>core := (core w)\<lparr>params := params (core w) @ [Some p], threads := threads (core w) @ [length (params (core w))]\<rparr>,
                          task := (task w)(length (params (core w)) \<mapsto> AtStart), poll := PollIdle\<rparr>)"
  by (simp add: poll_step_def thread_made_def Let_def)

lemma continue': "core_runs cfg w es (Inr w') \<Longrightarrow> core_step cfg w' e (Inr w'') \<Longrightarrow> core_runs cfg w (es @ [e]) (Inr w'')"
  by (rule core_runs.continue)




lemma sample_param: "param_for good_env sample_register = \<lparr>base = Some SipRegister_new, data = Some sample_register\<rparr>"
  "param_for good_env sample_options = \<lparr>base = None, data = Some sample_options\<rparr>" "thread_made good_env" "pool_there good_env"
  using sample_options_ok(2)
  by (simp_all add: param_for_def good_env_def is_register_def sample_register_def thread_made_def createThread_def)


section \<open>A transport without a user of its own\<close>

lemma admits:
  assumes r: "core_runs cfg w0 es (Inr w)" and i: "poll w = PollIdle" "ref_cnt (core_tp (core w)) = 0"
    and ok: "request_ok env r" "pool_there env" "thread_made env"
  shows "\<exists>w'. core_runs cfg w0 (es @ [Receive env (Some r), Poll, Poll]) (Inr w') \<and> poll w' = PollIdle \<and>
     task w' = (task w)(length (params (core w)) \<mapsto> AtStart) \<and> params (core w') = params (core w) @ [Some (param_for env r)] \<and>
     core_tp (core w') = add_ref_locked (atomic_add 1 (core_tp (core w)))"
proof -
  let ?p = "param_for env r" and ?tp = "atomic_add 1 (core_tp (core w))"
  have one: "ref_cnt ?tp = 1" using i(2) by (simp add: atomic_add_def)
  define w1 where "w1 = (set_tp ?tp w)\<lparr>poll := PollJoin env ?p\<rparr>"
  define w2 where "w2 = (set_tp (add_ref_locked ?tp) w1)\<lparr>poll := PollCreate env ?p\<rparr>"
  have "receive_step env (Some r) w = Inr w1" using one by (simp add: receive_next [OF ok(1,2)] Let_def w1_def)
  with core_step.receive [of w cfg env "Some r"] i(1) have s1: "core_step cfg w (Receive env (Some r)) (Inr w1)" by simp
  have "poll_step w1 = Inr w2" by (simp add: poll_step_def w1_def w2_def Let_def)
  with core_step.polls [of w1 cfg] have s2: "core_step cfg w1 Poll (Inr w2)" by (simp add: w1_def)
  have "poll w2 = PollCreate env ?p" by (simp add: w2_def)
  from create_next [OF this ok(3)] core_step.polls [of w2 cfg] this have s3: "core_step cfg w2 Poll
      (Inr (w2\<lparr>core := (core w2)\<lparr>params := params (core w2) @ [Some ?p], threads := threads (core w2) @ [length (params (core w2))]\<rparr>,
                task := (task w2)(length (params (core w2)) \<mapsto> AtStart), poll := PollIdle\<rparr>))" by simp
  from continue' [OF continue' [OF continue' [OF r s1] s2] s3] show ?thesis
    by (auto simp: w2_def w1_def)
qed

lemma runs_on:
  "core_runs cfg w0 es (Inr w) \<Longrightarrow> task w a = Some t \<Longrightarrow> task_step cfg alloc send now a t w = Inr w' \<Longrightarrow>
     core_runs cfg w0 (es @ [Run a alloc send now]) (Inr w')"
  using core_runs.continue [OF _ core_step.runs] by metis

text \<open>A thread of a REGISTER that is the last user gets as far as the lock of the manager.\<close>

lemma reaches_leave:
  assumes r: "core_runs default_cfg w0 es (Inr w)" and t: "task w a = Some AtStart"
    and p: "task_param w a = Inr p" "handled p" "data p = Some rd" "good_register rd" and one: "ref_cnt (core_tp (core w)) = 1"
  shows "\<exists>m w'. core_runs default_cfg w0 (es @ replicate m (Run a alloc send now)) (Inr w') \<and> poll w' = poll w \<and>
     task w' = (task w)(a \<mapsto> AtLeave) \<and> core_tp (core w') = atomic_add (-1) (core_tp (core w)) \<and>
     params (core w') = (params (core w))[a := None]"
proof -
  let ?e = "Run a alloc send now"
  let ?upd = "\<lambda>ds an. (core w)\<lparr>sub_list := ds, answers := an\<rparr>"
  from p(4) have fr: "register_from rd (sender rd)" and ex: "asked_expires (rx_msg rd) \<noteq> None" by (simp_all add: good_register_def)
  have here: "task_param v a = Inr p" "task_data v a = Inr rd" if "params (core v) = params (core w)" for v
    using task_param_same [OF that p(1)] p(3) by (simp_all add: task_data_def)
  define w1 where "w1 = goto a (AtCheck (sender rd)) w"
  have r1: "core_runs default_cfg w0 (es @ [?e]) (Inr w1)"
    using runs_on [OF r t] here [OF refl] p(2) register_from_id [OF fr] by (auto simp: w1_def handled_def)
  have t1: "task w1 a = Some (AtCheck (sender rd))" by (simp add: w1_def)
  obtain m code ds w2 where r2: "core_runs default_cfg w0 (es @ replicate m ?e) (Inr w2)" and
    w2: "w2 = (goto a (AtAnswer code) w)\<lparr>core := (core w)\<lparr>sub_list := ds\<rparr>\<rparr>" and code: "100 \<le> code" "code \<le> 699"
  proof (cases "checkIsExist (sub_list (core w)) (sender rd)")
    case False
    let ?w = "(goto a (AtAnswer SIP_FORBIDDEN) w)\<lparr>core := (core w)\<lparr>sub_list := sub_list (core w)\<rparr>\<rparr>"
    have "goto a (AtAnswer SIP_FORBIDDEN) w1 = ?w" by (cases w; cases "core w") (simp add: w1_def goto_def)
    then have "core_runs default_cfg w0 (es @ replicate 2 ?e) (Inr ?w)"
      using runs_on [OF r1 t1, of alloc send now ?w] False by (simp add: w1_def numeral_eq_Suc)
    then show thesis by (rule that [OF _ refl]) (simp_all add: SIP_FORBIDDEN_def)
  next
    case True
    define w1' where "w1' = goto a (AtSet (sender rd)) w1"
    have r': "core_runs default_cfg w0 (es @ replicate 2 ?e) (Inr w1')"
      using runs_on [OF r1 t1, of alloc send now w1'] True by (simp add: w1'_def w1_def numeral_eq_Suc)
    from expires_readable [OF ex] obtain h e where
      h: "hdr_at (rx_msg rd) (pjsip_msg_find_hdr (rx_msg rd) PJSIP_H_EXPIRES None) = Inr h" "int_of_hdr h = Inr e" by blast
    let ?w = "(goto a (AtAnswer 200) w)\<lparr>core := (core w)\<lparr>sub_list := setExpires (sub_list (core w)) (sender rd) e\<rparr>\<rparr>"
    have "task_step default_cfg alloc send now a (AtSet (sender rd)) w1' = Inr ?w"
      using h here(2) [of w1'] by (simp add: w1'_def w1_def goto_def)
    then have "core_runs default_cfg w0 (es @ replicate 3 ?e) (Inr ?w)"
      using runs_on [OF r', of a "AtSet (sender rd)" alloc send now ?w] by (simp add: w1'_def numeral_eq_Suc)
    then show thesis by (rule that [OF _ refl]) simp_all
  qed
  from answer_register_total [OF fr code] obtain ans where ans: "answer_register alloc send now rd code = Inr ans" by blast
  define w3 where "w3 = goto a AtDelete (w2\<lparr>core := (core w2)\<lparr>answers := answers (core w2) @ [ans]\<rparr>\<rparr>)"
  have "task_step default_cfg alloc send now a (AtAnswer code) w2 = Inr w3"
    using ans here(2) [of w2] by (simp add: w2 w3_def)
  then have r3: "core_runs default_cfg w0 (es @ replicate (Suc m) ?e) (Inr w3)"
    using runs_on [OF r2, of a "AtAnswer code" alloc send now w3] by (simp add: w2 goto_def replicate_append_same)
  define w4 where "w4 = goto a AtLeave (w3\<lparr>core := (core w3)\<lparr>params := (params (core w3))[a := None], core_tp := atomic_add (-1) (core_tp (core w))\<rparr>\<rparr>)"
  have tp3: "core_tp (core w3) = core_tp (core w)" "params (core w3) = params (core w)" by (simp_all add: w3_def w2)
  have "task_step default_cfg alloc send now a AtDelete w3 = Inr w4"
    using here(1) [OF tp3(2)] p(3) one by (simp add: tp3 drop_ref_def atomic_add_def Let_def w4_def)
  then have "core_runs default_cfg w0 (es @ replicate (Suc (Suc m)) ?e) (Inr w4)"
    using runs_on [OF r3, of a AtDelete alloc send now w4] by (simp add: w3_def replicate_append_same del: replicate.simps) (simp add: replicate_append_same)
  moreover have "poll w4 = poll w" "task w4 = (task w)(a \<mapsto> AtLeave)" "core_tp (core w4) = atomic_add (-1) (core_tp (core w))"
    "params (core w4) = (params (core w))[a := None]"
    by (simp_all add: w4_def w3_def w2 goto_def)
  ultimately show ?thesis by blast
qed

text \<open>
  On a transport that only its requests use, as a TCP connection is one, the same program does fail: two
  threads lower the counter to 0, the second after a request has joined between, before either takes
  the lock of the manager; both then find the counter at 0, the first schedules the idle timer and the
  assertion of the second, that none is scheduled, fails.
\<close>

theorem leaving_at_once_asserts:
  "\<exists>es. list_all event_complete es \<and> core_runs default_cfg (served_start tp_new [sample_domain]) es (Inl AssertFail)"
proof -
  let ?w0 = "served_start tp_new [sample_domain]" and ?p = "param_for good_env sample_register" and ?in = "[Receive good_env (Some sample_register), Poll, Poll]"
  note env = sample_register_event sample_param(4,3)
  have tp: "add_ref_locked (atomic_add 1 tp_new) = tp_new\<lparr>ref_cnt := 1\<rparr>" "atomic_add (-1) (tp_new\<lparr>ref_cnt := 1\<rparr>) = tp_new"
    by (simp_all add: add_ref_locked_def atomic_add_def tp_new_def)
  have p: "handled ?p" "data ?p = Some sample_register" by (simp_all add: sample_param(1) handled_def)
  have w0: "poll ?w0 = PollIdle" "ref_cnt (core_tp (core ?w0)) = 0" "core_tp (core ?w0) = tp_new" "params (core ?w0) = []"
    by (simp_all add: served_start_def server_start_def tp_new_def)
  from admits [OF core_runs.start [of default_cfg] w0(1,2) env] w0(3,4) tp(1) obtain w1 where r1: "core_runs default_cfg ?w0 ([] @ ?in) (Inr w1)"
    and w1: "poll w1 = PollIdle" "task w1 0 = Some AtStart" "params (core w1) = [Some ?p]" "core_tp (core w1) = tp_new\<lparr>ref_cnt := 1\<rparr>"
    by auto
  have "task_param w1 0 = Inr ?p" "ref_cnt (core_tp (core w1)) = 1" using w1 by (simp_all add: task_param_def)
  from reaches_leave [OF r1 w1(2) this(1) p sample_register_good(1) this(2), of 0 0 "''now''"] w1 tp(2) obtain m w2 where
    r2: "core_runs default_cfg ?w0 (([] @ ?in) @ replicate m (Run 0 0 0 ''now'')) (Inr w2)" and
    w2: "poll w2 = PollIdle" "task w2 0 = Some AtLeave" "core_tp (core w2) = tp_new" "params (core w2) = [None]"
    by auto
  have "ref_cnt (core_tp (core w2)) = 0" using w2(3) by (simp add: tp_new_def)
  from admits [OF r2 w2(1) this env] w2 tp(1) obtain w3 where
    r3: "core_runs default_cfg ?w0 ((([] @ ?in) @ replicate m (Run 0 0 0 ''now'')) @ ?in) (Inr w3)" and
    w3: "poll w3 = PollIdle" "task w3 0 = Some AtLeave" "task w3 1 = Some AtStart" "params (core w3) = [None, Some ?p]"
      "core_tp (core w3) = tp_new\<lparr>ref_cnt := 1\<rparr>" by auto
  have "task_param w3 1 = Inr ?p" "ref_cnt (core_tp (core w3)) = 1" using w3 by (simp_all add: task_param_def)
  from reaches_leave [OF r3 w3(3) this(1) p sample_register_good(1) this(2), of 0 0 "''now''"] w3 tp(2) obtain k w4 where
    r4: "core_runs default_cfg ?w0 (((([] @ ?in) @ replicate m (Run 0 0 0 ''now'')) @ ?in) @ replicate k (Run 1 0 0 ''now'')) (Inr w4)" and
    w4: "task w4 0 = Some AtLeave" "task w4 1 = Some AtLeave" "core_tp (core w4) = tp_new" by auto
  define w5 where "w5 = finish 0 NoReturn (set_tp (tp_new\<lparr>idle_timer := Some (idle_delay tp_new)\<rparr>) w4)"
  have "task_step default_cfg 0 0 ''now'' 0 AtLeave w4 = Inr w5"
    using w4(3) by (simp add: w5_def dec_ref_locked_def tp_new_def)
  note r5 = runs_on [OF r4 w4(1) this]
  have t5: "task w5 1 = Some AtLeave" using w4(2) by (simp add: w5_def finish_def)
  have "task_step default_cfg 0 0 ''now'' 1 AtLeave w5 = Inl AssertFail"
    by (simp add: w5_def dec_ref_locked_def tp_new_def)
  with core_runs.continue [OF r5 core_step.runs [OF t5, of default_cfg 0 0 "''now''"]] have
    r6: "core_runs default_cfg ?w0 ((((([] @ ?in) @ replicate m (Run 0 0 0 ''now'')) @ ?in) @ replicate k (Run 1 0 0 ''now'')) @ [Run 0 0 0 ''now''] @ [Run 1 0 0 ''now'']) (Inl AssertFail)"
    by simp
  have "list_all event_complete ((((([] @ ?in) @ replicate m (Run 0 0 0 ''now'')) @ ?in) @ replicate k (Run 1 0 0 ''now'')) @ [Run 0 0 0 ''now''] @ [Run 1 0 0 ''now''])"
    using sample_register_event by (auto simp: list_all_iff)
  with r6 show ?thesis by blast
qed

end
