(* ===== verification/Regc.thy ===== *)
theory Regc
  imports Receive SipEndpoint
begin

text \<open>
  The registration client of the library (\<open>3rd/src/pjsip-ua/sip_reg.c\<close>): the object \<open>pjsip_regc\<close>, the
  requests it builds, sending them, what it does with the answers, its refresh timer and its end. What it
  does to the outside (references to transports, messages sent, calls of the application) is kept in a
  log; the network is a tree that says, for each request sent, what becomes of it.
\<close>

section \<open>The object\<close>

abbreviation (input) DELAY_BEFORE_REFRESH :: int where "DELAY_BEFORE_REFRESH \<equiv> 5"
abbreviation (input) PJSIP_REGC_EXPIRATION_NOT_SPECIFIED :: "32 word" where
  "PJSIP_REGC_EXPIRATION_NOT_SPECIFIED \<equiv> -1"
abbreviation (input) PJSIP_REGC_MAX_CONTACT :: nat where "PJSIP_REGC_MAX_CONTACT \<equiv> 10"
abbreviation (input) NOEXP :: int where "NOEXP \<equiv> 0x1FFFFFFF"

definition PJSIP_EBUSY :: int where "PJSIP_EBUSY = 171001"
definition PJSIP_EINVALIDURI :: int where "PJSIP_EINVALIDURI = 171039"

datatype regc_op = REGC_IDLE | REGC_REGISTERING | REGC_UNREGISTERING

text \<open>What the callback of the application is told.\<close>

record regc_cbparam =
  cp_status :: int
  cp_code :: int
  cp_reason :: string
  cp_rdata :: "rx_data option"
  cp_expiration :: int
  cp_contact :: "contact_hdr list"
  cp_is_unreg :: bool

type_synonym via_sent_by = "(string \<times> int) \<times> nat option"

datatype regc_out =
    RegSent pjsip_msg "via_sent_by option"  \<comment> \<open>a call of \<open>pjsip_endpt_send_request\<close>\<close>
  | RegNotSent                              \<comment> \<open>it failed and the transaction will not call back\<close>
  | RegAnswered                             \<comment> \<open>the transaction called back\<close>
  | TpAddRef nat
  | TpDecRef nat
  | RegCallback regc_cbparam
  | RegTsxCallback regc_cbparam

text \<open>
  \<open>rg_timer\<close> is the delay of the refresh timer while its \<open>id\<close> is not 0, times are in milliseconds.
  \<open>rg_freed\<close> is set when the pool is released; whatever touches the object afterwards is a fault.
\<close>

record regc =
  rg_freed :: bool
  rg_delete_flag :: bool
  rg_has_tsx :: bool
  rg_busy_ctr :: nat
  rg_current_op :: regc_op
  rg_add_xuid_param :: bool
  rg_cb :: bool
  rg_tsx_cb :: bool
  rg_str_srv_url :: string
  rg_srv_url :: "pj_uri option"
  rg_cid :: string
  rg_cseq :: "32 word"
  rg_from_uri :: string
  rg_from_hdr :: "pjsip_hdr option"
  rg_to_hdr :: "pjsip_hdr option"
  rg_contacts :: "contact_hdr list"
  rg_removed :: "contact_hdr list"
  rg_expires_hdr :: "int option"
  rg_expires :: "32 word"
  rg_expires_requested :: "32 word"
  rg_delay_before_refresh :: "32 word"
  rg_route_set :: "pjsip_hdr list"
  rg_hdr_list :: "pjsip_hdr list"
  rg_via_addr :: "string \<times> int"
  rg_via_tp :: "nat option"
  rg_auto_reg :: bool
  rg_last_reg :: int
  rg_next_reg :: int
  rg_timer :: "int option"
  rg_tp_sel :: "nat option"
  rg_last_transport :: "nat option"
  rg_log :: "regc_out list"

text \<open>
  What an operation finds around it: the parser, the endpoint with its headers and capabilities, the
  results of allocation, of the random and unique values and of the clock, the authentication session,
  and the callbacks of the application, which may destroy the registration.
\<close>

record regc_env =
  re_parser :: parser_env
  re_endpt :: "unit sip_endpoint"
  re_alloc :: int
  re_rport :: bool
  re_uniq :: "string \<times> string"
  re_rand :: int
  re_xuid :: "nat \<Rightarrow> string"
  re_check_contact :: bool
  re_now :: int
  re_strerror :: "int \<Rightarrow> string"
  re_auth_init :: "pjsip_msg \<Rightarrow> pjsip_msg"
  re_auth_reinit :: "rx_data \<Rightarrow> pjsip_msg \<Rightarrow> int \<times> pjsip_msg"
  re_cb :: "regc_cbparam \<Rightarrow> bool"
  re_tsx_cb :: "regc_cbparam \<Rightarrow> bool \<times> string list option"

definition live :: "regc \<Rightarrow> 'a res \<Rightarrow> 'a res" where
  "live rc r = (if rg_freed rc then Inl UseAfterFree else r)"

definition out :: "regc_out \<Rightarrow> regc \<Rightarrow> regc" where
  "out e rc = rc\<lparr>rg_log := rg_log rc @ [e]\<rparr>"

section \<open>Creation and end\<close>

definition regc_zero :: regc where
  "regc_zero =
     \<lparr>rg_freed = False, rg_delete_flag = False, rg_has_tsx = False, rg_busy_ctr = 0, rg_current_op = REGC_IDLE,
      rg_add_xuid_param = False, rg_cb = False, rg_tsx_cb = False, rg_str_srv_url = [], rg_srv_url = None,
      rg_cid = [], rg_cseq = 0, rg_from_uri = [], rg_from_hdr = None, rg_to_hdr = None, rg_contacts = [],
      rg_removed = [], rg_expires_hdr = None, rg_expires = 0, rg_expires_requested = 0, rg_delay_before_refresh = 0,
      rg_route_set = [], rg_hdr_list = [], rg_via_addr = ([], 0), rg_via_tp = None, rg_auto_reg = False,
      rg_last_reg = 0, rg_next_reg = 0, rg_timer = None, rg_tp_sel = None, rg_last_transport = None, rg_log = []\<rparr>"

text \<open>\<open>lock\<close>, \<open>atomic\<close> and \<open>auth\<close> are the statuses of the parts it creates.\<close>

definition pjsip_regc_create ::
    "bool \<Rightarrow> bool \<Rightarrow> bool \<Rightarrow> int \<Rightarrow> int \<Rightarrow> int \<Rightarrow> bool \<Rightarrow> (int \<times> regc option) res" where
  "pjsip_regc_create endpt cb pool lock atomic auth add_xuid =
     (if \<not> endpt \<or> \<not> cb \<or> \<not> pool then Inl AssertFail
      else if lock \<noteq> PJ_SUCCESS then Inr (lock, None)
      else if atomic \<noteq> PJ_SUCCESS then Inr (atomic, None)
      else if auth \<noteq> PJ_SUCCESS then Inr (auth, None)
      else Inr (PJ_SUCCESS,
             Some (regc_zero\<lparr>rg_cb := True, rg_expires := PJSIP_REGC_EXPIRATION_NOT_SPECIFIED, rg_add_xuid_param := add_xuid\<rparr>)))"

definition drop_transport :: "regc \<Rightarrow> regc" where
  "drop_transport rc =
     (case rg_last_transport rc of None \<Rightarrow> rc | Some t \<Rightarrow> out (TpDecRef t) (rc\<lparr>rg_last_transport := None\<rparr>))"

definition drop_tp_sel :: "regc \<Rightarrow> regc" where
  "drop_tp_sel rc = (case rg_tp_sel rc of None \<Rightarrow> rc | Some t \<Rightarrow> out (TpDecRef t) (rc\<lparr>rg_tp_sel := None\<rparr>))"

definition cancel_timer :: "regc \<Rightarrow> regc" where
  "cancel_timer rc = rc\<lparr>rg_timer := None\<rparr>"

definition pjsip_regc_destroy :: "regc \<Rightarrow> regc res" where
  "pjsip_regc_destroy rc =
     live rc
       (if rg_has_tsx rc \<or> rg_busy_ctr rc \<noteq> 0 then Inr (rc\<lparr>rg_delete_flag := True, rg_cb := False\<rparr>)
        else Inr ((cancel_timer (drop_transport (drop_tp_sel rc)))\<lparr>rg_freed := True\<rparr>))"

text \<open>The end of an operation that kept the object busy.\<close>

definition leave_busy :: "regc \<Rightarrow> regc res" where
  "leave_busy rc =
     (let rc = rc\<lparr>rg_busy_ctr := rg_busy_ctr rc - 1\<rparr>
      in if rg_busy_ctr rc = 0 \<and> rg_delete_flag rc then pjsip_regc_destroy rc else Inr rc)"

text \<open>\<open>next_reg\<close> in seconds from now, cut towards zero.\<close>

record regc_info =
  ri_server_uri :: string
  ri_client_uri :: string
  ri_is_busy :: bool
  ri_auto_reg :: bool
  ri_interval :: "32 word"
  ri_next_reg :: int
  ri_transport :: "nat option"

definition pjsip_regc_get_info :: "int \<Rightarrow> regc \<Rightarrow> regc_info res" where
  "pjsip_regc_get_info now rc =
     live rc (Inr
       \<lparr>ri_server_uri = rg_str_srv_url rc, ri_client_uri = rg_from_uri rc,
        ri_is_busy = (rg_busy_ctr rc \<noteq> 0 \<or> rg_has_tsx rc), ri_auto_reg = rg_auto_reg rc, ri_interval = rg_expires rc,
        ri_next_reg =
          (if rg_has_tsx rc \<or> \<not> rg_auto_reg rc then 0
           else if rg_expires rc = PJSIP_REGC_EXPIRATION_NOT_SPECIFIED then sint (rg_expires rc)
           else (rg_next_reg rc - now) sdiv 1000),
        ri_transport = rg_last_transport rc\<rparr>)"

section \<open>Setting it up\<close>

definition set_expires :: "32 word \<Rightarrow> regc \<Rightarrow> regc" where
  "set_expires e rc = rc\<lparr>rg_expires_hdr := (if e \<noteq> rg_expires rc then Some (sint e) else None)\<rparr>"

text \<open>The parsers neither throw nor spin here; the other outcomes are theirs.\<close>

definition res_of :: "'a outcome \<Rightarrow> 'a res" where
  "res_of r = (case r of Done a sc \<Rightarrow> Inr a | Thrown x sc \<Rightarrow> Inl AssertFail | Broken f \<Rightarrow> Inl f | Spinning \<Rightarrow> Inl AssertFail)"

definition contact_of :: "pjsip_hdr \<Rightarrow> contact_hdr res" where
  "contact_of h = (case h_val h of HContact c \<Rightarrow> Inr c | _ \<Rightarrow> Inl OutOfBounds)"

text \<open>A Contact from its text: of a list of them the first.\<close>

definition parse_contact :: "parser_env \<Rightarrow> string \<Rightarrow> contact_hdr option res" where
  "parse_contact penv s =
     bind_res (res_of (pjsip_parse_hdr penv ''Contact'' s)) (\<lambda>(hs, n).
       case hs of
         None \<Rightarrow> Inr None
       | Some [] \<Rightarrow> Inl NullDeref
       | Some (h # hs) \<Rightarrow> bind_res (contact_of h) (\<lambda>c. Inr (Some c)))"

definition some_uri :: "pj_uri option \<Rightarrow> pj_uri res" where
  "some_uri u = (case u of None \<Rightarrow> Inl NullDeref | Some u \<Rightarrow> Inr u)"

text \<open>The first contact of the list with the URI is taken out.\<close>

fun erase_contact :: "pj_uri option \<Rightarrow> contact_hdr list \<Rightarrow> contact_hdr list res" where
  "erase_contact u [] = Inr []"
| "erase_contact u (h # hs) =
     bind_res (some_uri (c_uri h)) (\<lambda>v. bind_res (some_uri u) (\<lambda>w.
     bind_res (pjsip_uri_cmp IN_CONTACT_HDR v w) (\<lambda>rc.
       if rc = 0 then Inr hs else bind_res (erase_contact u hs) (\<lambda>hs. Inr (h # hs)))))"

definition is_sip_uri :: "pj_uri \<Rightarrow> bool res" where
  "is_sip_uri u =
     bind_res (scheme_is ''sip'' u) (\<lambda>sip. if sip then Inr True else scheme_is ''sips'' u)"

fun add_uri_param :: "pjsip_param \<Rightarrow> pj_uri \<Rightarrow> pj_uri res" where
  "add_uri_param p (UriSip u) = Inr (UriSip (u\<lparr>other_param := other_param u @ [p]\<rparr>))"
| "add_uri_param p (UriOther scheme content) = Inl OutOfBounds"
| "add_uri_param p (UriNameAddr display None) = Inl NullDeref"
| "add_uri_param p (UriNameAddr display (Some u)) = bind_res (add_uri_param p u) (\<lambda>v. Inr (UriNameAddr display (Some v)))"

definition add_xuid :: "bool \<Rightarrow> string \<Rightarrow> contact_hdr \<Rightarrow> contact_hdr res" where
  "add_xuid on xuid c =
     (if \<not> on then Inr c
      else bind_res (some_uri (c_uri c)) (\<lambda>u. bind_res (is_sip_uri u) (\<lambda>sip.
             if sip then bind_res (add_uri_param (''x-uid'', xuid) u) (\<lambda>v. Inr (c\<lparr>c_uri := Some v\<rparr>)) else Inr c)))"

fun add_contacts_from :: "regc_env \<Rightarrow> nat \<Rightarrow> string list \<Rightarrow> regc \<Rightarrow> (int \<times> regc) res" where
  "add_contacts_from env i [] rc = Inr (PJ_SUCCESS, rc)"
| "add_contacts_from env i (s # ss) rc =
     bind_res (parse_contact (re_parser env) s) (\<lambda>hdr.
       case hdr of
         None \<Rightarrow> Inr (PJSIP_EINVALIDURI, rc)
       | Some hdr \<Rightarrow>
           bind_res (erase_contact (c_uri hdr) (rg_removed rc)) (\<lambda>removed.
           bind_res (add_xuid (rg_add_xuid_param rc) (re_xuid env i) hdr) (\<lambda>hdr.
             add_contacts_from env (Suc i) ss (rc\<lparr>rg_removed := removed, rg_contacts := rg_contacts rc @ [hdr]\<rparr>))))"

text \<open>The old contacts are to be removed, unless they are among the new ones.\<close>

definition set_contact :: "regc_env \<Rightarrow> string list \<Rightarrow> regc \<Rightarrow> (int \<times> regc) res" where
  "set_contact env contacts rc =
     add_contacts_from env 0 contacts
       (rc\<lparr>rg_removed := map (\<lambda>h. h\<lparr>c_expires := 0\<rparr>) (rg_removed rc @ rg_contacts rc), rg_contacts := []\<rparr>)"

definition parse_uri_of :: "regc_env \<Rightarrow> string \<Rightarrow> bool \<Rightarrow> pj_uri option res" where
  "parse_uri_of env s as_nameaddr = res_of (pjsip_parse_uri (pe_uris (re_parser env)) s as_nameaddr False)"

definition fromto_with :: "pjsip_hdr \<Rightarrow> pj_uri \<Rightarrow> pjsip_hdr" where
  "fromto_with h u = h\<lparr>h_val := HFromTo (fromto0\<lparr>ft_uri := Some u\<rparr>)\<rparr>"

definition pjsip_regc_init ::
    "regc_env \<Rightarrow> string \<Rightarrow> string \<Rightarrow> string \<Rightarrow> string list \<Rightarrow> 32 word \<Rightarrow> regc \<Rightarrow> (int \<times> regc) res" where
  "pjsip_regc_init env srv_url from_url to_url contacts expires rc =
     live rc (if expires = 0 then Inl AssertFail else
       let rc = rc\<lparr>rg_str_srv_url := srv_url\<rparr>
       in bind_res (parse_uri_of env srv_url False) (\<lambda>u.
       let rc = rc\<lparr>rg_srv_url := u\<rparr>
       in if u = None then Inr (PJSIP_EINVALIDURI, rc) else
       let rc = rc\<lparr>rg_from_uri := from_url\<rparr>
       in bind_res (parse_uri_of env from_url True) (\<lambda>f. case f of None \<Rightarrow> Inr (PJSIP_EINVALIDURI, rc) | Some f \<Rightarrow>
       let rc = rc\<lparr>rg_from_hdr := Some (fromto_with pjsip_from_hdr_create f)\<rparr>
       in bind_res (parse_uri_of env to_url True) (\<lambda>t. case t of None \<Rightarrow> Inr (PJSIP_EINVALIDURI, rc) | Some t \<Rightarrow>
       let rc = rc\<lparr>rg_to_hdr := Some (fromto_with pjsip_to_hdr_create t)\<rparr>
       in bind_res (set_contact env contacts rc) (\<lambda>(status, rc).
       if status \<noteq> PJ_SUCCESS then Inr (status, rc) else
       let rc = set_expires expires rc
       in Inr (PJ_SUCCESS,
            rc\<lparr>rg_delay_before_refresh := word_of_int DELAY_BEFORE_REFRESH, rg_cid := fst (re_uniq env),
               rg_cseq := word_of_int (re_rand env smod 0xFFFF)\<rparr>))))))"

definition pjsip_regc_update_contact :: "regc_env \<Rightarrow> string list \<Rightarrow> regc \<Rightarrow> (int \<times> regc) res" where
  "pjsip_regc_update_contact env contacts rc = live rc (set_contact env contacts rc)"

definition pjsip_regc_update_expires :: "32 word \<Rightarrow> regc \<Rightarrow> (int \<times> regc) res" where
  "pjsip_regc_update_expires e rc = live rc (Inr (PJ_SUCCESS, set_expires e rc))"

fun clone_all :: "pjsip_hdr list \<Rightarrow> pjsip_hdr list res" where
  "clone_all [] = Inr []"
| "clone_all (h # hs) = bind_res (pjsip_hdr_clone h) (\<lambda>c. bind_res (clone_all hs) (\<lambda>cs. Inr (c # cs)))"

definition pjsip_regc_set_route_set :: "pjsip_hdr list \<Rightarrow> regc \<Rightarrow> (int \<times> regc) res" where
  "pjsip_regc_set_route_set route_set rc =
     live rc (bind_res (clone_all route_set) (\<lambda>hs. Inr (PJ_SUCCESS, rc\<lparr>rg_route_set := hs\<rparr>)))"

definition pjsip_regc_add_headers :: "pjsip_hdr list \<Rightarrow> regc \<Rightarrow> (int \<times> regc) res" where
  "pjsip_regc_add_headers hs rc =
     live rc (bind_res (clone_all hs) (\<lambda>hs. Inr (PJ_SUCCESS, rc\<lparr>rg_hdr_list := rg_hdr_list rc @ hs\<rparr>)))"

definition pjsip_regc_set_transport :: "nat option \<Rightarrow> regc \<Rightarrow> (int \<times> regc) res" where
  "pjsip_regc_set_transport sel rc =
     live rc (let rc = (drop_tp_sel rc)\<lparr>rg_tp_sel := sel\<rparr>
       in Inr (PJ_SUCCESS, case sel of None \<Rightarrow> rc | Some t \<Rightarrow> out (TpAddRef t) rc))"

definition pjsip_regc_release_transport :: "regc \<Rightarrow> (int \<times> regc) res" where
  "pjsip_regc_release_transport rc = live rc (Inr (PJ_SUCCESS, drop_transport rc))"

definition pjsip_regc_set_reg_tsx_cb :: "bool \<Rightarrow> regc \<Rightarrow> (int \<times> regc) res" where
  "pjsip_regc_set_reg_tsx_cb cb rc = live rc (Inr (PJ_SUCCESS, rc\<lparr>rg_tsx_cb := cb\<rparr>))"

definition pjsip_regc_set_via_sent_by :: "(string \<times> int) option \<Rightarrow> nat option \<Rightarrow> regc \<Rightarrow> (int \<times> regc) res" where
  "pjsip_regc_set_via_sent_by via_addr via_tp rc =
     live rc (Inr (PJ_SUCCESS,
       rc\<lparr>rg_via_addr := (case via_addr of None \<Rightarrow> ([], 0) | Some a \<Rightarrow> a), rg_via_tp := via_tp\<rparr>))"

section \<open>The requests\<close>

definition pjsip_get_register_method :: pjsip_method where
  "pjsip_get_register_method = \<lparr>m_id = PJSIP_REGISTER_METHOD, m_name = ''REGISTER''\<rparr>"

definition behind_via :: "pjsip_hdr list \<Rightarrow> pjsip_msg \<Rightarrow> pjsip_msg" where
  "behind_via hs msg =
     (let k = (case pjsip_msg_find_hdr msg PJSIP_H_VIA None of None \<Rightarrow> 0 | Some i \<Rightarrow> Suc i)
      in msg\<lparr>hdrs := take k (hdrs msg) @ hs @ drop k (hdrs msg)\<rparr>)"

definition create_request :: "regc_env \<Rightarrow> regc \<Rightarrow> (int \<times> pjsip_msg option) res" where
  "create_request env rc =
     (case (rg_srv_url rc, rg_from_hdr rc, rg_to_hdr rc) of
        (Some url, Some f, Some t) \<Rightarrow>
          bind_res (pjsip_endpt_create_request_from_hdr (re_alloc env) (req_hdr (re_endpt env)) (re_rport env)
              (re_uniq env) (re_rand env) pjsip_get_register_method url f t None (Some (rg_cid rc)) (sint (rg_cseq rc)) None)
            (\<lambda>(status, tdata).
              case tdata of
                None \<Rightarrow> Inr (status, None)
              | Some tdata \<Rightarrow>
                  let msg = re_auth_init env (t_msg tdata)
                  in bind_res (clone_all (rg_route_set rc)) (\<lambda>routes.
                     bind_res (add_clones (rg_hdr_list rc) (behind_via routes msg)) (\<lambda>msg.
                       Inr (PJ_SUCCESS, Some msg))))
      | _ \<Rightarrow> Inl AssertFail)"

definition contact_hdr_of :: "contact_hdr \<Rightarrow> pjsip_hdr" where
  "contact_hdr_of c = pjsip_contact_hdr_create\<lparr>h_val := HContact c\<rparr>"

text \<open>The contacts, and those to be removed, which are forgotten.\<close>

definition add_bindings :: "regc \<Rightarrow> pjsip_msg \<Rightarrow> (pjsip_msg \<times> regc) res" where
  "add_bindings rc msg =
     bind_res (add_clones (map contact_hdr_of (rg_contacts rc @ rg_removed rc)) msg) (\<lambda>msg.
       Inr (msg, rc\<lparr>rg_removed := []\<rparr>))"

definition pjsip_regc_register :: "regc_env \<Rightarrow> bool \<Rightarrow> regc \<Rightarrow> (int \<times> pjsip_msg option \<times> regc) res" where
  "pjsip_regc_register env autoreg rc =
     live rc (let rc = rc\<lparr>rg_expires_requested := 1\<rparr> in
     bind_res (create_request env rc) (\<lambda>(status, msg). case msg of None \<Rightarrow> Inr (status, None, rc) | Some msg \<Rightarrow>
     bind_res (add_bindings rc msg) (\<lambda>(msg, rc).
     bind_res (add_clones (case rg_expires_hdr rc of None \<Rightarrow> [] | Some e \<Rightarrow> [pjsip_expires_hdr_create e]) msg) (\<lambda>msg.
     bind_res (add_clones (case pjsip_endpt_get_capability (re_endpt env) PJSIP_H_ALLOW of None \<Rightarrow> [] | Some h \<Rightarrow> [h]) msg) (\<lambda>msg.
       Inr (PJ_SUCCESS, Some msg, (cancel_timer rc)\<lparr>rg_auto_reg := autoreg\<rparr>))))))"

definition pjsip_regc_unregister :: "regc_env \<Rightarrow> regc \<Rightarrow> (int \<times> pjsip_msg option \<times> regc) res" where
  "pjsip_regc_unregister env rc =
     live rc (let rc = (cancel_timer rc)\<lparr>rg_expires_requested := 0\<rparr> in
     bind_res (create_request env rc) (\<lambda>(status, msg). case msg of None \<Rightarrow> Inr (status, None, rc) | Some msg \<Rightarrow>
     bind_res (add_bindings rc msg) (\<lambda>(msg, rc).
       Inr (PJ_SUCCESS, Some (pjsip_msg_add_hdr msg (pjsip_expires_hdr_create 0)), rc))))"

definition pjsip_regc_unregister_all :: "regc_env \<Rightarrow> regc \<Rightarrow> (int \<times> pjsip_msg option \<times> regc) res" where
  "pjsip_regc_unregister_all env rc =
     live rc (let rc = cancel_timer rc in
     bind_res (create_request env rc) (\<lambda>(status, msg). case msg of None \<Rightarrow> Inr (status, None, rc) | Some msg \<Rightarrow>
       let star = contact_hdr_of (contact0\<lparr>star := True\<rparr>)
       in Inr (PJ_SUCCESS, Some (pjsip_msg_add_hdr (pjsip_msg_add_hdr msg star) (pjsip_expires_hdr_create 0)),
               rc\<lparr>rg_removed := []\<rparr>)))"

section \<open>The callback and the refresh timer\<close>

text \<open>\<open>expires_requested\<close> is unsigned, the field of the parameter is not.\<close>

definition cbparam_init ::
    "regc \<Rightarrow> int \<Rightarrow> int \<Rightarrow> string \<Rightarrow> rx_data option \<Rightarrow> int \<Rightarrow> contact_hdr list \<Rightarrow> bool \<Rightarrow> regc_cbparam" where
  "cbparam_init rc status st_code reason rdata expiration contacts is_unreg =
     \<lparr>cp_status = status, cp_code = st_code, cp_reason = reason, cp_rdata = rdata,
      cp_expiration = (if expiration \<ge> 0 then expiration else sint (rg_expires_requested rc)),
      cp_contact = contacts, cp_is_unreg = is_unreg\<rparr>"

definition call_callback ::
    "regc_env \<Rightarrow> int \<Rightarrow> int \<Rightarrow> string \<Rightarrow> rx_data option \<Rightarrow> int \<Rightarrow> contact_hdr list \<Rightarrow> bool \<Rightarrow> regc \<Rightarrow> regc res" where
  "call_callback env status st_code reason rdata expiration contacts is_unreg rc =
     (if \<not> rg_cb rc then Inr rc
      else
        let param = cbparam_init rc status st_code reason rdata expiration contacts is_unreg;
            rc = out (RegCallback param) rc
        in if re_cb env param then pjsip_regc_destroy rc else Inr rc)"

text \<open>
  The subtraction is unsigned, its result a \<open>long\<close>: with an expiration below \<open>delay_before_refresh\<close> it is
  a number of seconds near \<open>2 ^ 32\<close>.
\<close>

definition refresh_delay :: "regc \<Rightarrow> int \<Rightarrow> int" where
  "refresh_delay rc expiration =
     (let sec = uint (word_of_int expiration - rg_delay_before_refresh rc);
          sec = (if rg_expires rc \<noteq> PJSIP_REGC_EXPIRATION_NOT_SPECIFIED \<and> sec > sint (rg_expires rc)
                 then uint (rg_expires rc) else sec)
      in if sec < DELAY_BEFORE_REFRESH then DELAY_BEFORE_REFRESH else sec)"

definition schedule_registration :: "regc_env \<Rightarrow> int \<Rightarrow> regc \<Rightarrow> regc" where
  "schedule_registration env expiration rc =
     (if rg_auto_reg rc \<and> expiration > 0
      then let sec = refresh_delay rc expiration
           in rc\<lparr>rg_timer := Some sec, rg_last_reg := re_now env, rg_next_reg := re_now env + sec * 1000\<rparr>
      else rc)"

definition pjsip_regc_set_delay_before_refresh :: "regc_env \<Rightarrow> 32 word \<Rightarrow> regc \<Rightarrow> (int \<times> regc) res" where
  "pjsip_regc_set_delay_before_refresh env delay rc =
     live rc
       (if delay > rg_expires rc then Inr (PJ_ETOOBIG, rc)
        else if rg_delay_before_refresh rc = delay then Inr (PJ_SUCCESS, rc)
        else
          let rc = rc\<lparr>rg_delay_before_refresh := delay\<rparr>
          in Inr (PJ_SUCCESS,
               if rg_timer rc \<noteq> None then schedule_registration env (sint (rg_expires rc)) (cancel_timer rc) else rc))"

section \<open>How long a registration lasts\<close>

definition response_contacts :: "pjsip_msg \<Rightarrow> contact_hdr list res" where
  "response_contacts msg =
     (let hs = take PJSIP_REGC_MAX_CONTACT (filter (\<lambda>h. h_type h = PJSIP_H_CONTACT) (hdrs msg))
      in foldr (\<lambda>h r. bind_res (contact_of h) (\<lambda>c. bind_res r (\<lambda>cs. Inr (c # cs)))) hs (Inr []))"

definition int_hdr :: "nat \<Rightarrow> pjsip_msg \<Rightarrow> int option res" where
  "int_hdr t msg =
     (case pjsip_msg_find_hdr msg t None of
        None \<Rightarrow> Inr None
      | Some i \<Rightarrow> (case h_val (hdrs msg ! i) of HInt v \<Rightarrow> Inr (Some v) | _ \<Rightarrow> Inl OutOfBounds))"

definition same_xuid :: "pj_uri \<Rightarrow> pj_uri \<Rightarrow> bool res" where
  "same_xuid uri1 uri2 =
     bind_res (is_sip_uri uri1) (\<lambda>s1. bind_res (is_sip_uri uri2) (\<lambda>s2.
       if s1 \<and> s2
       then bind_res (sip_uri_of uri1) (\<lambda>u1. bind_res (sip_uri_of uri2) (\<lambda>u2.
              Inr (case (pjsip_param_find (other_param u1) ''x-uid'', pjsip_param_find (other_param u2) ''x-uid'') of
                     (Some p1, Some p2) \<Rightarrow> pj_strcmp (snd p1) (snd p2) = 0
                   | _ \<Rightarrow> False)))
       else Inr False))"

definition same_contact :: "bool \<Rightarrow> bool \<Rightarrow> contact_hdr \<Rightarrow> contact_hdr \<Rightarrow> bool res" where
  "same_contact check xuid theirs our =
     bind_res (some_uri (c_uri theirs)) (\<lambda>u1. bind_res (pjsip_uri_get_uri u1) (\<lambda>uri1.
     bind_res (some_uri (c_uri our)) (\<lambda>u2. bind_res (pjsip_uri_get_uri u2) (\<lambda>uri2.
     bind_res (if check then bind_res (pjsip_uri_cmp IN_CONTACT_HDR uri1 uri2) (\<lambda>rc. Inr (rc = 0)) else Inr False) (\<lambda>matched.
       if \<not> matched \<and> xuid then same_xuid uri1 uri2 else Inr matched)))))"

fun is_ours :: "bool \<Rightarrow> bool \<Rightarrow> contact_hdr \<Rightarrow> contact_hdr list \<Rightarrow> bool res" where
  "is_ours check xuid theirs [] = Inr False"
| "is_ours check xuid theirs (our # os) =
     bind_res (same_contact check xuid theirs our) (\<lambda>m. if m then Inr True else is_ours check xuid theirs os)"

text \<open>Whether one of ours is there, and the lowest expiration given with one.\<close>

fun lowest_expiration :: "bool \<Rightarrow> bool \<Rightarrow> contact_hdr list \<Rightarrow> contact_hdr list \<Rightarrow> bool \<times> int \<Rightarrow> (bool \<times> int) res" where
  "lowest_expiration check xuid [] ours r = Inr r"
| "lowest_expiration check xuid (c # cs) ours (has_our, expiration) =
     bind_res (is_ours check xuid c ours) (\<lambda>m.
       lowest_expiration check xuid cs ours
         (if m then (True, if 0 \<le> c_expires c \<and> c_expires c < expiration then c_expires c else expiration)
          else (has_our, expiration)))"

definition or_requested :: "int option \<Rightarrow> regc \<Rightarrow> int" where
  "or_requested e rc =
     (case e of Some v \<Rightarrow> v | None \<Rightarrow> (case rg_expires_hdr rc of Some v \<Rightarrow> v | None \<Rightarrow> 3600))"

definition calculate_response_expiration :: "regc_env \<Rightarrow> regc \<Rightarrow> pjsip_msg \<Rightarrow> (int \<times> contact_hdr list) res" where
  "calculate_response_expiration env rc msg =
     bind_res (response_contacts msg) (\<lambda>contacts.
       if rg_current_op rc \<noteq> REGC_REGISTERING then Inr (0, contacts)
       else
         bind_res (int_hdr PJSIP_H_EXPIRES msg) (\<lambda>e.
         bind_res (if re_check_contact env \<or> rg_add_xuid_param rc
                   then lowest_expiration (re_check_contact env) (rg_add_xuid_param rc) contacts (rg_contacts rc) (False, NOEXP)
                   else Inr (False, NOEXP)) (\<lambda>(has_our, expiration).
         let expiration = (if has_our \<and> expiration = NOEXP then or_requested e rc else expiration);
             expiration =
               (if expiration = NOEXP
                then (if length contacts = length (rg_contacts rc) \<and> contacts \<noteq> [] \<and> c_expires (hd contacts) \<ge> 0
                      then c_expires (hd contacts) else or_requested e rc)
                else expiration)
         in if expiration = NOEXP then Inl AssertFail else Inr (expiration, contacts))))"

section \<open>Sending, and the answers\<close>

definition swap_transport :: "nat option \<Rightarrow> regc \<Rightarrow> regc" where
  "swap_transport tp rc =
     (if tp = rg_last_transport rc then rc
      else case tp of
             None \<Rightarrow> drop_transport rc
           | Some t \<Rightarrow> out (TpAddRef t) ((drop_transport rc)\<lparr>rg_last_transport := Some t\<rparr>))"

text \<open>The object while a request with this Expires is on its way, and how it would have its Via.\<close>

definition begin_send :: "int option \<Rightarrow> regc \<Rightarrow> regc" where
  "begin_send e rc =
     rc\<lparr>rg_busy_ctr := rg_busy_ctr rc + 1, rg_cseq := rg_cseq rc + 1, rg_has_tsx := True,
        rg_current_op := (if e = Some 0 then REGC_UNREGISTERING else REGC_REGISTERING),
        rg_expires_requested :=
          (case e of Some v \<Rightarrow> if v \<noteq> 0 then word_of_int v else rg_expires_requested rc
                   | None \<Rightarrow> rg_expires_requested rc)\<rparr>"

definition sent_via :: "regc \<Rightarrow> via_sent_by option" where
  "sent_via rc = (if fst (rg_via_addr rc) \<noteq> [] then Some (rg_via_addr rc, rg_via_tp rc) else None)"

definition after_send :: "int \<Rightarrow> nat option \<Rightarrow> regc \<Rightarrow> regc" where
  "after_send status tp rc = (if status \<noteq> PJ_SUCCESS then rc\<lparr>rg_has_tsx := False\<rparr> else swap_transport tp rc)"

text \<open>
  \<open>pjsip_regc_send\<close>: \<open>during\<close> is what happens while the lock is open for \<open>pjsip_endpt_send_request\<close>, which
  returns \<open>status\<close> and has chosen the transport \<open>tp\<close>. The number in \<open>CSeq\<close> is that of a 32-bit register.
\<close>

definition send_with :: "int \<Rightarrow> nat option \<Rightarrow> (regc \<Rightarrow> regc res) \<Rightarrow> pjsip_msg \<Rightarrow> regc \<Rightarrow> (int \<times> regc) res" where
  "send_with status tp during msg rc =
     live rc
       (if rg_has_tsx rc then Inr (PJSIP_EBUSY, rc)
        else case pjsip_msg_find_hdr msg PJSIP_H_CSEQ None of None \<Rightarrow> Inl NullDeref | Some i \<Rightarrow>
        (case h_val (hdrs msg ! i) of
           HCseq n m \<Rightarrow>
             let msg = msg\<lparr>hdrs := (hdrs msg)[i := (hdrs msg ! i)\<lparr>h_val := HCseq (sint (rg_cseq rc + 1)) m\<rparr>]\<rparr>
             in bind_res (int_hdr PJSIP_H_EXPIRES msg) (\<lambda>e.
                bind_res (during (out (RegSent msg (sent_via rc)) (begin_send e rc))) (\<lambda>rc.
                live rc (bind_res (leave_busy (after_send status tp rc)) (\<lambda>rc. Inr (status, rc)))))
         | _ \<Rightarrow> Inl OutOfBounds))"

text \<open>
  What the transaction reports: its status code and text, the message received if that is what ended it,
  its transport and the last message it sent.
\<close>

record tsx_event =
  te_code :: int
  te_text :: string
  te_rdata :: "rx_data option"
  te_transport :: "nat option"
  te_last_tx :: pjsip_msg

definition reason_of :: "rx_data \<Rightarrow> string res" where
  "reason_of rdata = (case line (rx_msg rdata) of StatusLine code reason \<Rightarrow> Inr reason | _ \<Rightarrow> Inl OutOfBounds)"

definition event_rdata :: "tsx_event \<Rightarrow> rx_data res" where
  "event_rdata ev = (case te_rdata ev of None \<Rightarrow> Inl NullDeref | Some rdata \<Rightarrow> Inr rdata)"

text \<open>The callback for every answer, which may give new contacts.\<close>

definition tsx_stage :: "regc_env \<Rightarrow> tsx_event \<Rightarrow> regc \<Rightarrow> (bool \<times> regc) res" where
  "tsx_stage env ev rc =
     (if \<not> rg_delete_flag rc \<and> rg_tsx_cb rc \<and> rg_current_op rc = REGC_REGISTERING
      then
        let param = cbparam_init rc PJ_SUCCESS (te_code ev) (te_text ev) (te_rdata ev) (-1) [] False;
            (destroys, contacts) = re_tsx_cb env param;
            rc = out (RegTsxCallback param) rc
        in bind_res (if destroys then pjsip_regc_destroy rc else Inr rc) (\<lambda>rc. live rc
             (case contacts of
                None \<Rightarrow> Inr (False, rc)
              | Some cs \<Rightarrow>
                  let rc = (if te_code ev sdiv 100 \<noteq> 2 then rc\<lparr>rg_contacts := filter (\<lambda>h. c_expires h \<noteq> -1) (rg_contacts rc)\<rparr>
                            else rc)
                  in bind_res (pjsip_regc_update_contact env cs rc) (\<lambda>(status, rc). Inr (True, rc))))
      else Inr (False, rc))"

text \<open>The contacts of a request to be sent again, except those that remove a binding, are replaced.\<close>

definition old_contact :: "pjsip_hdr \<Rightarrow> bool" where
  "old_contact h \<longleftrightarrow> h_type h = PJSIP_H_CONTACT \<and> (case h_val h of HContact c \<Rightarrow> c_expires c \<noteq> 0 | _ \<Rightarrow> False)"

definition replace_contacts :: "regc \<Rightarrow> pjsip_msg \<Rightarrow> (pjsip_msg \<times> regc) res" where
  "replace_contacts rc msg =
     bind_res (clone_all (map contact_hdr_of (rg_contacts rc @ rg_removed rc))) (\<lambda>new.
       let behind = rev (takeWhile (\<lambda>h. \<not> old_contact h) (rev (hdrs msg)));
           hs = (if list_ex old_contact (hdrs msg)
                 then filter (\<lambda>h. \<not> old_contact h) (take (length (hdrs msg) - length behind) (hdrs msg)) @ new @ behind
                 else hdrs msg @ new)
       in Inr (msg\<lparr>hdrs := hs\<rparr>, rc\<lparr>rg_removed := []\<rparr>))"

type_synonym send_fun = "pjsip_msg \<Rightarrow> regc \<Rightarrow> (int \<times> regc) res"

text \<open>A failure to send again is reported unless the registration is to be deleted.\<close>

definition or_report ::
    "regc_env \<Rightarrow> tsx_event \<Rightarrow> rx_data \<Rightarrow> bool \<Rightarrow> int \<times> regc \<Rightarrow> regc res" where
  "or_report env ev rdata is_unreg = (\<lambda>(status, rc).
     live rc
       (if status \<noteq> PJ_SUCCESS \<and> \<not> rg_delete_flag rc
        then bind_res (reason_of rdata) (\<lambda>reason.
               call_callback env status (te_code ev) reason (Some rdata) (-1) [] is_unreg rc)
        else Inr rc))"

text \<open>401 and 407.\<close>

definition on_challenge :: "regc_env \<Rightarrow> tsx_event \<Rightarrow> bool \<Rightarrow> send_fun \<Rightarrow> regc \<Rightarrow> regc res" where
  "on_challenge env ev update_contact send rc =
     bind_res (event_rdata ev) (\<lambda>rdata.
     let is_unreg = (rg_current_op rc = REGC_UNREGISTERING); rc = rc\<lparr>rg_current_op := REGC_IDLE\<rparr> in
     bind_res (if update_contact then replace_contacts rc (te_last_tx ev) else Inr (te_last_tx ev, rc)) (\<lambda>(msg, rc).
     let (status, msg) = re_auth_reinit env rdata msg in
     bind_res (if status = PJ_SUCCESS then send msg rc else Inr (status, rc)) (or_report env ev rdata is_unreg)))"

text \<open>Every other final answer, and 423 when it asks for nothing better.\<close>

definition on_final :: "regc_env \<Rightarrow> tsx_event \<Rightarrow> regc \<Rightarrow> regc res" where
  "on_final env ev rc =
     bind_res (if te_code ev sdiv 100 = 2
               then bind_res (event_rdata ev) (\<lambda>rdata.
                    bind_res (calculate_response_expiration env rc (rx_msg rdata)) (\<lambda>(expiration, contacts).
                      Inr (Some rdata, expiration, contacts, schedule_registration env expiration rc)))
               else Inr (te_rdata ev, NOEXP, [], rc)) (\<lambda>(rdata, expiration, contacts, rc).
     bind_res (case rdata of None \<Rightarrow> Inr (te_text ev) | Some rdata \<Rightarrow> reason_of rdata) (\<lambda>reason.
       let expiration = (if expiration = NOEXP then -1 else expiration);
           is_unreg = (rg_current_op rc = REGC_UNREGISTERING);
           rc = rc\<lparr>rg_expires := word_of_int expiration, rg_current_op := REGC_IDLE\<rparr>
       in call_callback env PJ_SUCCESS (te_code ev) reason rdata expiration contacts is_unreg rc))"

text \<open>423: the expiration the registrar asks for, 3601 where it does not say.\<close>

definition min_expires_of :: "int option \<Rightarrow> regc \<Rightarrow> int option" where
  "min_expires_of me rc =
     (case me of
        Some v \<Rightarrow> Some v
      | None \<Rightarrow> if rg_expires_hdr rc = Some 3601 then None else Some 3601)"

definition on_too_brief :: "regc_env \<Rightarrow> tsx_event \<Rightarrow> send_fun \<Rightarrow> regc \<Rightarrow> regc res" where
  "on_too_brief env ev send rc =
     bind_res (event_rdata ev) (\<lambda>rdata.
     let rc = rc\<lparr>rg_current_op := REGC_IDLE\<rparr> in
     bind_res (int_hdr PJSIP_H_MIN_EXPIRES (rx_msg rdata)) (\<lambda>me.
       case min_expires_of me rc of
         None \<Rightarrow> on_final env ev rc
       | Some min_exp \<Rightarrow>
           if rg_expires_hdr rc \<noteq> None \<and> the (rg_expires_hdr rc) \<ge> min_exp then on_final env ev rc
           else
             let rc = set_expires (word_of_int min_exp) rc
             in bind_res (pjsip_regc_register env (rg_auto_reg rc) rc) (\<lambda>(status, msg, rc).
                bind_res (case msg of Some msg \<Rightarrow> send msg rc | None \<Rightarrow> Inr (status, rc)) (or_report env ev rdata False))))"

definition regc_tsx_callback :: "regc_env \<Rightarrow> tsx_event \<Rightarrow> send_fun \<Rightarrow> regc \<Rightarrow> regc res" where
  "regc_tsx_callback env ev send rc =
     live rc
       (let rc = rc\<lparr>rg_busy_ctr := rg_busy_ctr rc + 1\<rparr> in
        if \<not> rg_has_tsx rc then Inl AssertFail
        else
          let rc = swap_transport (te_transport ev) (out RegAnswered (rc\<lparr>rg_has_tsx := False\<rparr>)) in
          bind_res (tsx_stage env ev rc) (\<lambda>(update_contact, rc).
          bind_res (if te_code ev = 407 \<or> te_code ev = 401 then on_challenge env ev update_contact send rc
                    else if rg_delete_flag rc then Inr (rc\<lparr>rg_current_op := REGC_IDLE\<rparr>)
                    else if te_code ev = 423 \<and> rg_current_op rc = REGC_REGISTERING then on_too_brief env ev send rc
                    else on_final env ev rc) (\<lambda>rc. live rc (leave_busy rc))))"

definition regc_refresh_timer_cb :: "regc_env \<Rightarrow> send_fun \<Rightarrow> regc \<Rightarrow> regc res" where
  "regc_refresh_timer_cb env send rc =
     live rc
       (let rc = (cancel_timer rc)\<lparr>rg_busy_ctr := rg_busy_ctr rc + 1\<rparr> in
        bind_res (pjsip_regc_register env True rc) (\<lambda>(status, msg, rc).
        bind_res (case msg of Some msg \<Rightarrow> send msg rc | None \<Rightarrow> Inr (status, rc)) (\<lambda>(status, rc). live rc
          (bind_res (if status \<noteq> PJ_SUCCESS \<and> rg_cb rc
                     then call_callback env status 400 (re_strerror env status) None (-1) [] False rc
                     else Inr rc) (\<lambda>rc. live rc (leave_busy rc))))))"

text \<open>
  The network. A request is taken, or refused with a status, and the transaction may have called back
  before \<open>pjsip_endpt_send_request\<close> is left: in the same thread when the transport fails at once, or in
  the polling thread. What that callback sends meets the rest of the tree.
\<close>

datatype net =
    Quiet int "nat option"
  | Sync int "nat option" regc_env tsx_event net

primrec pjsip_regc_send :: "net \<Rightarrow> send_fun" where
  "pjsip_regc_send (Quiet status tp) =
     send_with status tp (\<lambda>rc. Inr (if status \<noteq> PJ_SUCCESS then out RegNotSent rc else rc))"
| "pjsip_regc_send (Sync status tp env ev net) =
     send_with status tp (regc_tsx_callback env ev (pjsip_regc_send net))"

section \<open>Histories\<close>

text \<open>
  What may happen to a registration, one after the other: the application's calls, its timer and the
  answers to what it sent. \<open>enabled\<close> says when: the application has not destroyed it, the timer is
  running, a transaction has yet to call back.
\<close>

datatype regc_event =
    Register regc_env bool net
  | Unregister regc_env net
  | UnregisterAll regc_env net
  | UpdateContact regc_env "string list"
  | UpdateExpires "32 word"
  | SetDelay regc_env "32 word"
  | SetTsxCb bool
  | SetTransport "nat option"
  | SetRouteSet "pjsip_hdr list"
  | AddHeaders "pjsip_hdr list"
  | SetViaSentBy "(string \<times> int) option" "nat option"
  | ReleaseTransport
  | Destroy
  | Fire regc_env net
  | Answer regc_env tsx_event net

definition then_send :: "net \<Rightarrow> (int \<times> pjsip_msg option \<times> regc) res \<Rightarrow> regc res" where
  "then_send net r =
     bind_res r (\<lambda>(status, msg, rc).
       case msg of None \<Rightarrow> Inr rc | Some msg \<Rightarrow> bind_res (pjsip_regc_send net msg rc) (\<lambda>(status, rc). Inr rc))"

definition state_of :: "(int \<times> regc) res \<Rightarrow> regc res" where
  "state_of r = bind_res r (\<lambda>(status, rc). Inr rc)"

fun regc_step :: "regc_event \<Rightarrow> regc \<Rightarrow> regc res" where
  "regc_step (Register env autoreg net) rc = then_send net (pjsip_regc_register env autoreg rc)"
| "regc_step (Unregister env net) rc = then_send net (pjsip_regc_unregister env rc)"
| "regc_step (UnregisterAll env net) rc = then_send net (pjsip_regc_unregister_all env rc)"
| "regc_step (UpdateContact env contacts) rc = state_of (pjsip_regc_update_contact env contacts rc)"
| "regc_step (UpdateExpires e) rc = state_of (pjsip_regc_update_expires e rc)"
| "regc_step (SetDelay env d) rc = state_of (pjsip_regc_set_delay_before_refresh env d rc)"
| "regc_step (SetTsxCb cb) rc = state_of (pjsip_regc_set_reg_tsx_cb cb rc)"
| "regc_step (SetTransport sel) rc = state_of (pjsip_regc_set_transport sel rc)"
| "regc_step (SetRouteSet hs) rc = state_of (pjsip_regc_set_route_set hs rc)"
| "regc_step (AddHeaders hs) rc = state_of (pjsip_regc_add_headers hs rc)"
| "regc_step (SetViaSentBy via_addr via_tp) rc = state_of (pjsip_regc_set_via_sent_by via_addr via_tp rc)"
| "regc_step ReleaseTransport rc = state_of (pjsip_regc_release_transport rc)"
| "regc_step Destroy rc = pjsip_regc_destroy rc"
| "regc_step (Fire env net) rc = regc_refresh_timer_cb env (pjsip_regc_send net) rc"
| "regc_step (Answer env ev net) rc = regc_tsx_callback env ev (pjsip_regc_send net) rc"

text \<open>The transactions that have yet to call back.\<close>

fun pending_of :: "regc_out list \<Rightarrow> int" where
  "pending_of [] = 0"
| "pending_of (RegSent msg via # es) = pending_of es + 1"
| "pending_of (RegNotSent # es) = pending_of es - 1"
| "pending_of (RegAnswered # es) = pending_of es - 1"
| "pending_of (TpAddRef t # es) = pending_of es"
| "pending_of (TpDecRef t # es) = pending_of es"
| "pending_of (RegCallback p # es) = pending_of es"
| "pending_of (RegTsxCallback p # es) = pending_of es"

fun enabled :: "regc_event \<Rightarrow> regc \<Rightarrow> bool" where
  "enabled (Fire env net) rc \<longleftrightarrow> rg_timer rc \<noteq> None"
| "enabled (Answer env ev net) rc \<longleftrightarrow> pending_of (rg_log rc) > 0"
| "enabled e rc \<longleftrightarrow> \<not> rg_delete_flag rc \<and> \<not> rg_freed rc"

fun regc_run :: "regc_event list \<Rightarrow> regc \<Rightarrow> regc res" where
  "regc_run [] rc = Inr rc"
| "regc_run (e # es) rc = (if enabled e rc then bind_res (regc_step e rc) (regc_run es) else regc_run es rc)"

end
