(* ===== verification/RegcSafe.thy ===== *)
theory RegcSafe
  imports Regc
begin

text \<open>
  The registration client over any history: it does not fault, is freed once and not too early, holds one
  reference to each transport it names, and has at most one transaction. The hypotheses say what the
  parser gives, what an answer has, and what the application may pass.
\<close>

section \<open>Contents that can be cloned and compared\<close>

definition contact_ok :: "contact_hdr \<Rightarrow> bool" where
  "contact_ok c \<longleftrightarrow> \<not> star c \<and> opt_uri_whole (c_uri c)"

lemma contact_okE:
  assumes "contact_ok c"
  obtains u where "c_uri c = Some u" "uri_whole u" "\<not> star c"
  using assms by (auto simp: contact_ok_def opt_uri_whole_def split: option.splits)

definition hdr_fit :: "pjsip_hdr \<Rightarrow> bool" where
  "hdr_fit h \<longleftrightarrow>
     (h_type h = PJSIP_H_CSEQ \<longrightarrow> (\<exists>n m. h_val h = HCseq n m)) \<and> (h_type h = PJSIP_H_EXPIRES \<longrightarrow> (\<exists>v. h_val h = HInt v))"

definition msg_fit :: "pjsip_msg \<Rightarrow> bool" where
  "msg_fit m \<longleftrightarrow> list_all hdr_fit (hdrs m) \<and> list_ex (\<lambda>h. h_type h = PJSIP_H_CSEQ) (hdrs m)"

lemma uri_cmp_total: "uri_whole u \<Longrightarrow> uri_whole v \<Longrightarrow> \<exists>r. pjsip_uri_cmp cx u v = Inr r"
proof (induction cx u v rule: pjsip_uri_cmp.induct)
  case (5 cx d1 u1 d2 u2)
  then show ?case by (cases u1; cases u2) auto
qed simp_all

lemma get_uri_whole: "uri_whole u \<Longrightarrow> \<exists>v. pjsip_uri_get_uri u = Inr v \<and> uri_whole v"
  by (induction u rule: uri_whole.induct) auto

lemma erase_contact_total:
  assumes "\<forall>c\<in>set hs. contact_ok c" and "u = Some w" and "uri_whole w"
  shows "\<exists>hs'. erase_contact u hs = Inr hs' \<and> set hs' \<subseteq> set hs"
  using assms(1)
proof (induction hs)
  case (Cons h hs)
  from Cons.prems obtain v where v: "c_uri h = Some v" "uri_whole v" by (auto elim: contact_okE)
  from uri_cmp_total [OF v(2) assms(3)] obtain r where "pjsip_uri_cmp IN_CONTACT_HDR v w = Inr r" by blast
  with Cons v assms(2) show ?case by (auto simp: some_uri_def)
qed simp

section \<open>Contacts from texts\<close>

lemma yields_contact_val:
  assumes "uris_whole uh"
  shows "yields (\<lambda>h. \<exists>c. h_val h = HContact c \<and> (star c \<or> opt_uri_whole (c_uri c))) (contact_item uh)"
proof -
  note from_uri = yields_seq_from [OF uri_or_name_addr_whole [OF assms]]
  show ?thesis unfolding contact_item_def
    by (rule yields_if_p; (rule yields_seq, rule yields_ret | rule from_uri, rule yields_seq_from [OF yields_contact_param]))
      (auto intro!: yields_ret simp: pjsip_contact_hdr_create_def contact0_def opt_uri_whole_def)
qed

definition parses_contacts :: "parser_env \<Rightarrow> bool" where
  "parses_contacts penv \<longleftrightarrow> env_ok penv \<and> pe_find penv ''Contact'' = Some F_contact"

lemma parse_contact_total:
  assumes "parses_contacts penv"
  shows "\<exists>r. parse_contact penv s = Inr r \<and> (\<forall>c. r = Some c \<longrightarrow> star c \<or> opt_uri_whole (c_uri c))"
proof -
  have env: "uris_run (pe_uris penv)" "uris_whole (pe_uris penv)" "runs 0 (pe_auth penv F_contact)"
    and find: "pe_find penv ''Contact'' = Some F_contact"
    using assms by (auto simp: parses_contacts_def env_ok_def auth_ok_def)
  let ?h = "run_handler (pe_auth penv) (pe_uris penv) F_contact (parse_ctx0 False)"
  let ?p = "\<lambda>sc. case ?h sc of
      (ctx, Done u sc') \<Rightarrow> Done (Some (pc_hdrs ctx), pos_of sc' (sc_rest sc')) sc'
    | (ctx, Thrown x sc') \<Rightarrow> Done (None, pos_of sc' (sc_rest sc')) sc'
    | (ctx, Broken f) \<Rightarrow> Broken f | (ctx, Spinning) \<Rightarrow> Spinning"
  have "runs 0 (\<lambda>sc. snd (?h sc))" using handler_runs [of _ "pe_auth penv" F_contact, OF env(1,3)] by (simp add: hdr_runs_def)
  then have "returns 0 sc (?p sc)" if "sc_wf sc" for sc
    using that runs_ran [of 0 "\<lambda>sc. snd (?h sc)" sc] by (auto simp: ran_def returns_def split: prod.splits outcome.splits)
  from on_packet_returns [of ?p s, OF this] obtain a sc where a: "on_packet ?p s = Done a sc" by blast
  then have p: "pjsip_parse_hdr penv ''Contact'' s = Done a sc" by (simp add: pjsip_parse_hdr_def find)
  from on_packet_Done [OF a] obtain s0 where "?p s0 = Done a sc" by blast
  then consider "fst a = None" | ctx u sc' where "?h s0 = (ctx, Done u sc')" "fst a = Some (pc_hdrs ctx)"
    by (auto split: prod.splits outcome.splits)
  then show ?thesis
  proof cases
    case 2
    have "yields (\<lambda>hs. hs \<noteq> [] \<and> list_all (\<lambda>h. \<exists>c. h_val h = HContact c \<and> (star c \<or> opt_uri_whole (c_uri c))) hs)
        (seq (comma_list (contact_item (pe_uris penv))) (\<lambda>hs. seq parse_hdr_end (\<lambda>u. ret hs)))"
      by (rule yields_seq_from [OF yields_comma_list [OF yields_contact_val [OF env(2)]]]) (auto intro!: yields_intros)
    from yieldsD [OF this] 2(1) have "pc_hdrs ctx \<noteq> []"
      "list_all (\<lambda>h. \<exists>c. h_val h = HContact c \<and> (star c \<or> opt_uri_whole (c_uri c))) (pc_hdrs ctx)"
      by (auto simp: parse_hdr_contact_def hdrs_p_def if_rdata_def parse_ctx0_def split: outcome.splits)
    then show ?thesis using p 2(2)
      by (cases "pc_hdrs ctx"; cases a) (auto simp: parse_contact_def res_of_def contact_of_def)
  qed (use p in \<open>cases a; simp add: parse_contact_def res_of_def\<close>)
qed

text \<open>Texts none of which is the star.\<close>

definition no_star :: "parser_env \<Rightarrow> string list \<Rightarrow> bool" where
  "no_star penv ss \<longleftrightarrow> (\<forall>s\<in>set ss. \<forall>c. parse_contact penv s = Inr (Some c) \<longrightarrow> \<not> star c)"

lemma add_contacts_total:
  assumes "parses_contacts (re_parser env)"
  shows "no_star (re_parser env) ss \<Longrightarrow> \<forall>c\<in>set (rg_contacts rc) \<union> set (rg_removed rc). contact_ok c \<Longrightarrow>
    \<not> rg_add_xuid_param rc \<Longrightarrow>
    \<exists>st cs rs. add_contacts_from env i ss rc = Inr (st, rc\<lparr>rg_contacts := cs, rg_removed := rs\<rparr>) \<and>
      (\<forall>c\<in>set cs \<union> set rs. contact_ok c)"
proof (induction ss arbitrary: i rc)
  case Nil
  then show ?case by (intro exI [of _ PJ_SUCCESS] exI [of _ "rg_contacts rc"] exI [of _ "rg_removed rc"]) simp
next
  case (Cons s ss)
  obtain r where r: "parse_contact (re_parser env) s = Inr r" "\<And>c. r = Some c \<Longrightarrow> star c \<or> opt_uri_whole (c_uri c)"
    using parse_contact_total [OF assms] by metis
  show ?case
  proof (cases r)
    case None
    then show ?thesis using r(1) Cons.prems(2)
      by (intro exI [of _ PJSIP_EINVALIDURI] exI [of _ "rg_contacts rc"] exI [of _ "rg_removed rc"]) simp
  next
    case (Some c)
    then have c: "contact_ok c" using r Cons.prems(1) by (auto simp: no_star_def contact_ok_def)
    then obtain w where w: "c_uri c = Some w" "uri_whole w" by (rule contact_okE)
    from erase_contact_total [of "rg_removed rc", OF _ w] Cons.prems(2) obtain hs where
      hs: "erase_contact (c_uri c) (rg_removed rc) = Inr hs" "set hs \<subseteq> set (rg_removed rc)" by auto
    let ?rc = "rc\<lparr>rg_removed := hs, rg_contacts := rg_contacts rc @ [c]\<rparr>"
    have "no_star (re_parser env) ss" "\<forall>c\<in>set (rg_contacts ?rc) \<union> set (rg_removed ?rc). contact_ok c"
      using Cons.prems(1,2) c hs(2) by (auto simp: no_star_def)
    from Cons.IH [OF this, of "Suc i"] Cons.prems(3) obtain st cs rs where
      "add_contacts_from env (Suc i) ss ?rc = Inr (st, ?rc\<lparr>rg_contacts := cs, rg_removed := rs\<rparr>)"
      "\<forall>c\<in>set cs \<union> set rs. contact_ok c" by auto
    then show ?thesis using r(1) Some hs(1) Cons.prems(3) by (auto simp: add_xuid_def)
  qed
qed

lemma set_contact_total:
  assumes "parses_contacts (re_parser env)" and "no_star (re_parser env) ss"
    and "\<forall>c\<in>set (rg_contacts rc) \<union> set (rg_removed rc). contact_ok c" and "\<not> rg_add_xuid_param rc"
  shows "\<exists>st cs rs. set_contact env ss rc = Inr (st, rc\<lparr>rg_contacts := cs, rg_removed := rs\<rparr>) \<and>
    (\<forall>c\<in>set cs \<union> set rs. contact_ok c)"
proof -
  let ?rc = "rc\<lparr>rg_removed := map (\<lambda>h. h\<lparr>c_expires := 0\<rparr>) (rg_removed rc @ rg_contacts rc), rg_contacts := []\<rparr>"
  have "\<forall>c\<in>set (rg_contacts ?rc) \<union> set (rg_removed ?rc). contact_ok c" using assms(3) by (auto simp: contact_ok_def)
  from add_contacts_total [OF assms(1,2) this, of 0] assms(4) show ?thesis by (auto simp: set_contact_def)
qed

section \<open>Requests are built\<close>

definition target_ok :: "pj_uri \<Rightarrow> bool" where
  "target_ok u \<longleftrightarrow> uri_whole u \<and> (\<exists>ps. uri_header_params u = Inr ps)"

text \<open>Set up by \<open>pjsip_regc_init\<close>, without the extension parameter, which is off.\<close>

definition regc_wf :: "regc \<Rightarrow> bool" where
  "regc_wf rc \<longleftrightarrow>
     (\<exists>url. rg_srv_url rc = Some url \<and> target_ok url) \<and>
     (\<exists>f x. rg_from_hdr rc = Some f \<and> hdr_wf f \<and> h_val f = HFromTo x) \<and>
     (\<exists>t. rg_to_hdr rc = Some t \<and> hdr_wf t) \<and>
     (\<forall>c\<in>set (rg_contacts rc) \<union> set (rg_removed rc). contact_ok c) \<and> \<not> rg_add_xuid_param rc \<and>
     list_all hdr_wf (rg_route_set rc @ rg_hdr_list rc) \<and> list_all hdr_fit (rg_route_set rc @ rg_hdr_list rc) \<and>
     rg_expires_hdr rc \<noteq> Some NOEXP"

text \<open>
  The surroundings: the documented behaviour of the authentication session, which adds headers to a
  request or makes it anew with its \<open>CSeq\<close>, and an application that passes no star as a contact.
\<close>

definition env_good :: "regc_env \<Rightarrow> bool" where
  "env_good env \<longleftrightarrow>
     parses_contacts (re_parser env) \<and>
     list_all hdr_fit (req_hdr (re_endpt env)) \<and>
     list_all hdr_wf (cap_hdr (re_endpt env)) \<and> list_all hdr_fit (cap_hdr (re_endpt env)) \<and>
     (\<forall>m. \<exists>hs. list_all hdr_fit hs \<and> re_auth_init env m = m\<lparr>hdrs := hdrs m @ hs\<rparr>) \<and>
     (\<forall>rd m. msg_fit m \<longrightarrow> msg_fit (snd (re_auth_reinit env rd m))) \<and>
     (\<forall>p ss. snd (re_tsx_cb env p) = Some ss \<longrightarrow> no_star (re_parser env) ss)"

lemma add_clones_eq: "list_all hdr_wf hs \<Longrightarrow> add_clones hs msg = Inr (msg\<lparr>hdrs := hdrs msg @ hs\<rparr>)"
  by (induction hs arbitrary: msg) (simp_all add: hdr_clone_id pjsip_msg_add_hdr_def)

lemma clone_all_eq: "list_all hdr_wf hs \<Longrightarrow> clone_all hs = Inr hs"
  by (induction hs) (simp_all add: hdr_clone_id)

lemma contact_hdr_wf: "contact_ok c \<Longrightarrow> hdr_wf (contact_hdr_of c) \<and> hdr_fit (contact_hdr_of c)"
  by (auto simp: contact_hdr_of_def hdr_wf_def hdr_fit_def contact_ok_def pjsip_contact_hdr_create_def)

lemma contact_hdrs_wf: "\<forall>c\<in>set cs. contact_ok c \<Longrightarrow> list_all hdr_wf (map contact_hdr_of cs) \<and> list_all hdr_fit (map contact_hdr_of cs)"
  by (induction cs) (simp_all add: contact_hdr_wf)

lemma msg_fit_add: "msg_fit m \<Longrightarrow> list_all hdr_fit hs \<Longrightarrow> msg_fit (m\<lparr>hdrs := hdrs m @ hs\<rparr>)"
  by (simp add: msg_fit_def)

lemma msg_fit_behind_via: "msg_fit m \<Longrightarrow> list_all hdr_fit hs \<Longrightarrow> msg_fit (behind_via hs m)"
  unfolding behind_via_def msg_fit_def Let_def
  by (simp add: list_all_iff list_ex_iff) (metis append_take_drop_id in_set_takeD in_set_dropD Un_iff set_append)

lemma behind_via_line: "line (behind_via hs m) = line m"
  by (simp add: behind_via_def Let_def)

lemma fit_plain: "h_type h \<noteq> PJSIP_H_CSEQ \<Longrightarrow> h_type h \<noteq> PJSIP_H_EXPIRES \<Longrightarrow> hdr_fit h"
  by (simp add: hdr_fit_def)

lemma fit_expires: "hdr_wf (pjsip_expires_hdr_create v) \<and> hdr_fit (pjsip_expires_hdr_create v)"
  by (simp add: pjsip_expires_hdr_create_def hdr_wf_def hdr_fit_def)

text \<open>The headers of a request in front of those of the caller.\<close>

definition base_hdrs :: "regc_env \<Rightarrow> regc \<Rightarrow> pj_uri \<Rightarrow> pjsip_hdr list" where
  "base_hdrs env rc url =
     pjsip_via_hdr_create\<lparr>h_val := HVia (via0\<lparr>v_rport_param := (if re_rport env then 0 else -1)\<rparr>)\<rparr> #
     req_hdr (re_endpt env) @
     [let f = pjsip_fromto_hdr_set_from (the (rg_from_hdr rc))
      in f\<lparr>h_val := (case h_val f of HFromTo x \<Rightarrow> HFromTo (if tag x = [] then x\<lparr>tag := snd (re_uniq env)\<rparr> else x) | v \<Rightarrow> v)\<rparr>,
      pjsip_fromto_hdr_set_to (the (rg_to_hdr rc)),
      pjsip_cid_hdr_init (if rg_cid rc \<noteq> [] then rg_cid rc else fst (re_uniq env)),
      pjsip_cseq_hdr_create\<lparr>h_val := HCseq (if 0 \<le> sint (rg_cseq rc) then sint (rg_cseq rc) else re_rand env smod 0xFFFF)
        pjsip_get_register_method\<rparr>] @
     (case uri_header_params url of
        Inr ps \<Rightarrow> map (\<lambda>p. pjsip_generic_string_hdr_create (Some (fst p)) (Some (snd p))) ps | Inl f \<Rightarrow> [])"

lemma create_request_eq:
  assumes wf: "regc_wf rc" and url: "rg_srv_url rc = Some url" and alloc: "re_alloc env = PJ_SUCCESS"
  shows "create_request env rc =
    Inr (PJ_SUCCESS, Some (let m = behind_via (rg_route_set rc)
           (re_auth_init env \<lparr>line = ReqLine pjsip_get_register_method url, hdrs = base_hdrs env rc url, body = None\<rparr>)
      in m\<lparr>hdrs := hdrs m @ rg_hdr_list rc\<rparr>))"
proof -
  from wf obtain f x t where c: "rg_from_hdr rc = Some f" "hdr_wf f" "h_val f = HFromTo x" "rg_to_hdr rc = Some t" "hdr_wf t"
    and u: "uri_whole url" "\<exists>ps. uri_header_params url = Inr ps"
    and l: "list_all hdr_wf (rg_route_set rc)" "list_all hdr_wf (rg_hdr_list rc)"
    using url by (auto simp: regc_wf_def target_ok_def)
  from u(2) obtain ps where ps: "uri_header_params url = Inr ps" by blast
  have "h_val (pjsip_fromto_hdr_set_from f) = HFromTo x"
    using c(3) by (simp add: pjsip_fromto_hdr_set_from_def retyped_hdr_def init_hdr_def split: prod.split)
  then show ?thesis
    using c u l ps alloc url
    by (simp add: create_request_def pjsip_endpt_create_request_from_hdr_def init_request_def uri_clone_id hdr_clone_id
        fromto_of_def base_hdrs_def pjsip_msg_create_def pjsip_msg_add_hdr_def pjsip_msg_insert_first_hdr_def Let_def
        clone_all_eq add_clones_eq method_copy_id)
qed

lemma create_request_total:
  assumes wf: "regc_wf rc" and env: "env_good env"
  shows "\<exists>st m. create_request env rc = Inr (st, m) \<and> (m = None \<longrightarrow> st \<noteq> PJ_SUCCESS) \<and> (\<forall>msg. m = Some msg \<longrightarrow> msg_fit msg)"
proof -
  from wf obtain url f x t where c: "rg_srv_url rc = Some url" "rg_from_hdr rc = Some f" "rg_to_hdr rc = Some t"
    and u: "uri_whole url" and w: "hdr_wf f" "hdr_wf t" and fx: "h_val f = HFromTo x"
    by (auto simp: regc_wf_def target_ok_def)
  show ?thesis
  proof (cases "re_alloc env = PJ_SUCCESS")
    case True
    have "list_all hdr_fit (base_hdrs env rc url)"
      using env by (auto simp: base_hdrs_def env_good_def c pjsip_fromto_hdr_set_from_def pjsip_fromto_hdr_set_to_def
          retyped_hdr_def pjsip_via_hdr_create_def pjsip_cid_hdr_init_def pjsip_cseq_hdr_create_def list_all_iff
          pjsip_generic_string_hdr_create_def pjsip_generic_string_hdr_init2_def named_hdr_def init_hdr_def hdr_fit_def Let_def
          split: sum.splits prod.splits)
    moreover have "list_ex (\<lambda>h. h_type h = PJSIP_H_CSEQ) (base_hdrs env rc url)"
      by (simp add: base_hdrs_def pjsip_cseq_hdr_create_def)
    ultimately have "msg_fit \<lparr>line = ReqLine pjsip_get_register_method url, hdrs = base_hdrs env rc url, body = None\<rparr>"
      by (simp add: msg_fit_def)
    then have "msg_fit (re_auth_init env \<lparr>line = ReqLine pjsip_get_register_method url, hdrs = base_hdrs env rc url, body = None\<rparr>)"
      using env msg_fit_add unfolding env_good_def by metis
    moreover have "list_all hdr_fit (rg_route_set rc)" "list_all hdr_fit (rg_hdr_list rc)" using wf by (simp_all add: regc_wf_def)
    ultimately show ?thesis
      unfolding create_request_eq [OF wf c(1) True] by (simp add: Let_def msg_fit_add msg_fit_behind_via)
  next
    case False
    then show ?thesis by (simp add: create_request_def c pjsip_endpt_create_request_from_hdr_def)
  qed
qed

section \<open>The invariant\<close>

fun tp_refs :: "nat \<Rightarrow> regc_out list \<Rightarrow> int" where
  "tp_refs t [] = 0"
| "tp_refs t (TpAddRef u # es) = (if u = t then 1 else 0) + tp_refs t es"
| "tp_refs t (TpDecRef u # es) = (if u = t then -1 else 0) + tp_refs t es"
| "tp_refs t (RegSent msg via # es) = tp_refs t es"
| "tp_refs t (RegNotSent # es) = tp_refs t es"
| "tp_refs t (RegAnswered # es) = tp_refs t es"
| "tp_refs t (RegCallback p # es) = tp_refs t es"
| "tp_refs t (RegTsxCallback p # es) = tp_refs t es"

lemma log_append [simp]:
  "pending_of (a @ b) = pending_of a + pending_of b" "tp_refs t (a @ b) = tp_refs t a + tp_refs t b"
  by (induction a rule: pending_of.induct) simp_all

text \<open>\<open>b\<close> operations are under way.\<close>

definition regc_ok :: "nat \<Rightarrow> regc \<Rightarrow> bool" where
  "regc_ok b rc \<longleftrightarrow>
     \<not> rg_freed rc \<and> rg_busy_ctr rc = b \<and> regc_wf rc \<and> (rg_delete_flag rc \<longrightarrow> \<not> rg_cb rc) \<and>
     pending_of (rg_log rc) = (if rg_has_tsx rc then 1 else 0) \<and>
     (\<forall>t. tp_refs t (rg_log rc) = (if rg_last_transport rc = Some t then 1 else 0) + (if rg_tp_sel rc = Some t then 1 else 0)) \<and>
     (\<forall>d. rg_timer rc = Some d \<longrightarrow> DELAY_BEFORE_REFRESH \<le> d)"

definition regc_gone :: "regc \<Rightarrow> bool" where
  "regc_gone rc \<longleftrightarrow> rg_freed rc \<and> pending_of (rg_log rc) = 0 \<and> (\<forall>t. tp_refs t (rg_log rc) = 0) \<and> rg_timer rc = None"

definition settled :: "nat \<Rightarrow> regc \<Rightarrow> bool" where
  "settled b rc \<longleftrightarrow> (if rg_freed rc then b = 0 \<and> regc_gone rc else regc_ok b rc \<and> (b = 0 \<and> rg_delete_flag rc \<longrightarrow> rg_has_tsx rc))"

lemma regc_ok_live: "regc_ok b rc \<Longrightarrow> live rc r = r"
  by (simp add: regc_ok_def live_def)

lemma settled_busy: "settled (Suc b) rc \<longleftrightarrow> regc_ok (Suc b) rc"
  by (auto simp: settled_def regc_ok_def)

text \<open>The fields the invariant looks at.\<close>

definition same_core :: "regc \<Rightarrow> regc \<Rightarrow> bool" where
  "same_core rc rc' \<longleftrightarrow>
     rg_freed rc' = rg_freed rc \<and> rg_delete_flag rc' = rg_delete_flag rc \<and> rg_has_tsx rc' = rg_has_tsx rc \<and>
     rg_busy_ctr rc' = rg_busy_ctr rc \<and> rg_cb rc' = rg_cb rc \<and> rg_last_transport rc' = rg_last_transport rc \<and>
     rg_tp_sel rc' = rg_tp_sel rc \<and> rg_log rc' = rg_log rc"

lemma same_core_ok:
  "regc_ok b rc \<Longrightarrow> same_core rc rc' \<Longrightarrow> regc_wf rc' \<Longrightarrow> (\<forall>d. rg_timer rc' = Some d \<longrightarrow> DELAY_BEFORE_REFRESH \<le> d) \<Longrightarrow> regc_ok b rc'"
  by (simp add: regc_ok_def same_core_def)

lemma regc_wf_ok: "regc_ok b rc \<Longrightarrow> regc_wf rc"
  by (simp add: regc_ok_def)

lemma regc_wf_cong:
  "regc_wf rc \<Longrightarrow> rg_srv_url rc' = rg_srv_url rc \<Longrightarrow> rg_from_hdr rc' = rg_from_hdr rc \<Longrightarrow> rg_to_hdr rc' = rg_to_hdr rc \<Longrightarrow>
   rg_add_xuid_param rc' = rg_add_xuid_param rc \<Longrightarrow> rg_route_set rc' = rg_route_set rc \<Longrightarrow> rg_hdr_list rc' = rg_hdr_list rc \<Longrightarrow>
   \<forall>c\<in>set (rg_contacts rc') \<union> set (rg_removed rc'). contact_ok c \<Longrightarrow> rg_expires_hdr rc' \<noteq> Some NOEXP \<Longrightarrow> regc_wf rc'"
  by (simp add: regc_wf_def)

lemma wf_contacts: "regc_wf rc \<Longrightarrow> \<forall>c\<in>set (rg_contacts rc) \<union> set (rg_removed rc). contact_ok c"
  by (simp add: regc_wf_def)

lemma out_ok:
  "regc_ok b rc \<Longrightarrow> pending_of [e] = 0 \<Longrightarrow> \<forall>t. tp_refs t [e] = 0 \<Longrightarrow> regc_ok b (out e rc) \<and> rg_has_tsx (out e rc) = rg_has_tsx rc"
  by (auto simp: regc_ok_def out_def regc_wf_def)

lemma drop_transport_ok:
  "regc_ok b rc \<Longrightarrow> regc_ok b (drop_transport rc) \<and> rg_has_tsx (drop_transport rc) = rg_has_tsx rc \<and>
     rg_last_transport (drop_transport rc) = None \<and> rg_delete_flag (drop_transport rc) = rg_delete_flag rc"
  by (auto simp: regc_ok_def drop_transport_def out_def regc_wf_def split: option.split)

lemma swap_transport_ok:
  assumes "regc_ok b rc"
  shows "regc_ok b (swap_transport tp rc) \<and> rg_has_tsx (swap_transport tp rc) = rg_has_tsx rc \<and>
     rg_delete_flag (swap_transport tp rc) = rg_delete_flag rc"
proof (cases tp)
  case (Some t)
  with drop_transport_ok [OF assms] show ?thesis
    using assms by (auto simp: swap_transport_def regc_ok_def out_def regc_wf_def)
qed (use drop_transport_ok [OF assms] assms in \<open>simp add: swap_transport_def\<close>)

lemma drop_tp_sel_ok:
  "regc_ok b rc \<Longrightarrow> regc_ok b (drop_tp_sel rc) \<and> rg_has_tsx (drop_tp_sel rc) = rg_has_tsx rc \<and>
     rg_tp_sel (drop_tp_sel rc) = None \<and> rg_delete_flag (drop_tp_sel rc) = rg_delete_flag rc"
  by (auto simp: regc_ok_def drop_tp_sel_def out_def regc_wf_def split: option.split)

lemma destroy_busy:
  assumes "regc_ok b rc" and "0 < b \<or> rg_has_tsx rc"
  shows "\<exists>rc'. pjsip_regc_destroy rc = Inr rc' \<and> regc_ok b rc' \<and> rg_delete_flag rc' \<and> rg_has_tsx rc' = rg_has_tsx rc"
  using assms by (auto simp: pjsip_regc_destroy_def regc_ok_live) (simp_all add: regc_ok_def regc_wf_def)

lemma destroy_idle:
  assumes "regc_ok 0 rc" and "\<not> rg_has_tsx rc"
  shows "\<exists>rc'. pjsip_regc_destroy rc = Inr rc' \<and> regc_gone rc'"
proof -
  have ok: "regc_ok 0 (drop_tp_sel rc)" and sel: "rg_tp_sel (drop_tp_sel rc) = None" and
    tsx: "rg_has_tsx (drop_tp_sel rc) = rg_has_tsx rc" using drop_tp_sel_ok [OF assms(1)] by blast+
  have "rg_tp_sel (drop_transport (drop_tp_sel rc)) = None"
    using sel by (simp add: drop_transport_def out_def split: option.split)
  with drop_transport_ok [OF ok] tsx assms(2)
  have "regc_gone ((cancel_timer (drop_transport (drop_tp_sel rc)))\<lparr>rg_freed := True\<rparr>)"
    by (simp add: regc_gone_def regc_ok_def cancel_timer_def)
  moreover have "rg_busy_ctr rc = 0" using assms(1) by (simp add: regc_ok_def)
  ultimately show ?thesis using assms by (simp add: pjsip_regc_destroy_def regc_ok_live)
qed

lemma leave_busy_ok:
  assumes "regc_ok (Suc b) rc"
  shows "\<exists>rc'. leave_busy rc = Inr rc' \<and> settled b rc' \<and> (\<not> rg_freed rc' \<longrightarrow> rg_has_tsx rc' = rg_has_tsx rc)"
proof -
  let ?rc = "rc\<lparr>rg_busy_ctr := rg_busy_ctr rc - 1\<rparr>"
  have ok: "regc_ok b ?rc" using assms by (simp add: regc_ok_def regc_wf_def)
  have b: "rg_busy_ctr ?rc = b" using ok by (simp add: regc_ok_def)
  consider "b = 0 \<and> rg_delete_flag rc \<and> rg_has_tsx rc" | "b = 0 \<and> rg_delete_flag rc \<and> \<not> rg_has_tsx rc"
    | "\<not> (b = 0 \<and> rg_delete_flag rc)" by blast
  then show ?thesis
  proof cases
    case 1
    with destroy_busy [OF ok] obtain rc' where "pjsip_regc_destroy ?rc = Inr rc'" "regc_ok b rc'" "rg_has_tsx rc'" by auto
    with 1 b show ?thesis by (auto simp: leave_busy_def Let_def settled_def regc_ok_def)
  next
    case 2
    with destroy_idle [of ?rc] ok obtain rc' where "pjsip_regc_destroy ?rc = Inr rc'" "regc_gone rc'" by auto
    with 2 b show ?thesis by (auto simp: leave_busy_def Let_def settled_def regc_gone_def)
  next
    case 3
    with b ok show ?thesis by (auto simp: leave_busy_def Let_def settled_def regc_ok_def)
  qed
qed

lemma call_callback_ok:
  assumes "regc_ok b rc" and "0 < b"
  shows "\<exists>rc'. call_callback env st code reason rd e cs un rc = Inr rc' \<and> regc_ok b rc' \<and> rg_has_tsx rc' = rg_has_tsx rc"
proof (cases "rg_cb rc")
  case True
  define p where "p = cbparam_init rc st code reason rd e cs un"
  have o: "regc_ok b (out (RegCallback p) rc)" "rg_has_tsx (out (RegCallback p) rc) = rg_has_tsx rc"
    using out_ok [OF assms(1), of "RegCallback p"] by auto
  from destroy_busy [OF o(1)] assms(2) o(2) obtain rc' where
    "pjsip_regc_destroy (out (RegCallback p) rc) = Inr rc'" "regc_ok b rc'" "rg_has_tsx rc' = rg_has_tsx rc" by auto
  with True o show ?thesis by (auto simp: call_callback_def p_def [symmetric] Let_def)
qed (use assms in \<open>simp add: call_callback_def\<close>)

section \<open>Requests, from a consistent object\<close>

text \<open>What a builder of requests gives.\<close>

definition builds :: "nat \<Rightarrow> regc \<Rightarrow> (int \<times> pjsip_msg option \<times> regc) res \<Rightarrow> bool" where
  "builds b rc r \<longleftrightarrow>
     (\<exists>st m rc'. r = Inr (st, m, rc') \<and> regc_ok b rc' \<and> rg_has_tsx rc' = rg_has_tsx rc \<and> rg_delete_flag rc' = rg_delete_flag rc \<and>
        (\<forall>msg. m = Some msg \<longrightarrow> msg_fit msg))"

lemma add_bindings_eq:
  "regc_wf rc \<Longrightarrow> add_bindings rc msg =
     Inr (msg\<lparr>hdrs := hdrs msg @ map contact_hdr_of (rg_contacts rc @ rg_removed rc)\<rparr>, rc\<lparr>rg_removed := []\<rparr>)"
  using contact_hdrs_wf [of "rg_contacts rc @ rg_removed rc"]
  by (simp add: add_bindings_def add_clones_eq regc_wf_def)

lemma bindings_fit: "regc_wf rc \<Longrightarrow> list_all hdr_fit (map contact_hdr_of (rg_contacts rc @ rg_removed rc))"
  using contact_hdrs_wf [of "rg_contacts rc @ rg_removed rc"] by (simp add: regc_wf_def)

lemma allow_hdr:
  "env_good env \<Longrightarrow> pjsip_endpt_get_capability (re_endpt env) t = Some h \<Longrightarrow> hdr_wf h \<and> hdr_fit h"
  by (auto simp: env_good_def pjsip_endpt_get_capability_def list_all_iff find_Some_iff split: if_splits)

lemma regc_ok_fields:
  assumes "regc_ok b rc" and "regc_wf rc'" and "same_core rc rc'" and "rg_timer rc' = None \<or> rg_timer rc' = rg_timer rc"
  shows "regc_ok b rc' \<and> rg_has_tsx rc' = rg_has_tsx rc \<and> rg_delete_flag rc' = rg_delete_flag rc"
  using same_core_ok [OF assms(1,3,2)] assms by (auto simp: regc_ok_def same_core_def)

lemma register_builds:
  assumes ok: "regc_ok b rc" and env: "env_good env"
  shows "builds b rc (pjsip_regc_register env autoreg rc)"
proof -
  define r1 where "r1 = rc\<lparr>rg_expires_requested := 1\<rparr>"
  have w1: "regc_wf r1" and s1: "same_core rc r1" and t1: "rg_timer r1 = rg_timer rc"
    using regc_wf_ok [OF ok] by (simp_all add: r1_def regc_wf_def same_core_def)
  from create_request_total [OF w1 env] obtain st m where
    c: "create_request env r1 = Inr (st, m)" "\<And>msg. m = Some msg \<Longrightarrow> msg_fit msg" by blast
  show ?thesis
  proof (cases m)
    case None
    then show ?thesis using c(1) regc_ok_fields [OF ok w1 s1] t1
      by (simp add: builds_def pjsip_regc_register_def regc_ok_live [OF ok] r1_def [symmetric] Let_def)
  next
    case (Some msg)
    have fit: "msg_fit msg" using c(2) Some by blast
    let ?a = "pjsip_endpt_get_capability (re_endpt env) PJSIP_H_ALLOW"
    define ex where "ex = (case rg_expires_hdr r1 of None \<Rightarrow> [] | Some e \<Rightarrow> [pjsip_expires_hdr_create e])"
    define al where "al = (case ?a of None \<Rightarrow> [] | Some h \<Rightarrow> [h])"
    have w: "list_all hdr_wf ex" "list_all hdr_fit ex" "list_all hdr_wf al" "list_all hdr_fit al"
      using allow_hdr [OF env, of PJSIP_H_ALLOW] fit_expires by (auto simp: ex_def al_def split: option.splits)
    let ?r = "(cancel_timer (r1\<lparr>rg_removed := []\<rparr>))\<lparr>rg_auto_reg := autoreg\<rparr>"
    let ?m = "msg\<lparr>hdrs := ((hdrs msg @ map contact_hdr_of (rg_contacts r1 @ rg_removed r1)) @ ex) @ al\<rparr>"
    have "pjsip_regc_register env autoreg rc = Inr (PJ_SUCCESS, Some ?m, ?r)"
      using c(1) Some w add_bindings_eq [OF w1]
      by (simp add: pjsip_regc_register_def regc_ok_live [OF ok] r1_def [symmetric] add_clones_eq ex_def [symmetric] al_def [symmetric])
    moreover have "regc_wf ?r" using w1 by (auto simp: regc_wf_def cancel_timer_def)
    moreover have "same_core rc ?r" "rg_timer ?r = None" using s1 by (simp_all add: same_core_def cancel_timer_def)
    moreover have "msg_fit ?m" using fit w bindings_fit [OF w1] by (simp add: msg_fit_def)
    ultimately show ?thesis using regc_ok_fields [OF ok, of ?r] by (auto simp: builds_def)
  qed
qed

lemma unregister_builds:
  assumes ok: "regc_ok b rc" and env: "env_good env"
  shows "builds b rc (pjsip_regc_unregister env rc)"
proof -
  define r1 where "r1 = (cancel_timer rc)\<lparr>rg_expires_requested := 0\<rparr>"
  have w1: "regc_wf r1" and s1: "same_core rc r1" and t1: "rg_timer r1 = None"
    using regc_wf_ok [OF ok] by (simp_all add: r1_def regc_wf_def same_core_def cancel_timer_def)
  from create_request_total [OF w1 env] obtain st m where
    c: "create_request env r1 = Inr (st, m)" "\<And>msg. m = Some msg \<Longrightarrow> msg_fit msg" by blast
  show ?thesis
  proof (cases m)
    case None
    then show ?thesis using c(1) regc_ok_fields [OF ok w1 s1] t1
      by (simp add: builds_def pjsip_regc_unregister_def regc_ok_live [OF ok] r1_def [symmetric] Let_def)
  next
    case (Some msg)
    have fit: "msg_fit msg" using c(2) Some by blast
    let ?r = "r1\<lparr>rg_removed := []\<rparr>"
    have "regc_wf ?r" "same_core rc ?r" "rg_timer ?r = None" using w1 s1 t1 by (auto simp: regc_wf_def same_core_def)
    moreover have "msg_fit (pjsip_msg_add_hdr (msg\<lparr>hdrs := hdrs msg @ map contact_hdr_of (rg_contacts r1 @ rg_removed r1)\<rparr>) (pjsip_expires_hdr_create 0))"
      using fit bindings_fit [OF w1] fit_expires by (simp add: pjsip_msg_add_hdr_def msg_fit_def)
    ultimately show ?thesis using c(1) Some add_bindings_eq [OF w1] regc_ok_fields [OF ok, of ?r]
      by (simp add: builds_def pjsip_regc_unregister_def regc_ok_live [OF ok] r1_def [symmetric] Let_def)
  qed
qed

lemma unregister_all_builds:
  assumes ok: "regc_ok b rc" and env: "env_good env"
  shows "builds b rc (pjsip_regc_unregister_all env rc)"
proof -
  define r1 where "r1 = cancel_timer rc"
  have w1: "regc_wf r1" and s1: "same_core rc r1" and t1: "rg_timer r1 = None"
    using regc_wf_ok [OF ok] by (simp_all add: r1_def regc_wf_def same_core_def cancel_timer_def)
  from create_request_total [OF w1 env] obtain st m where
    c: "create_request env r1 = Inr (st, m)" "\<And>msg. m = Some msg \<Longrightarrow> msg_fit msg" by blast
  show ?thesis
  proof (cases m)
    case None
    then show ?thesis using c(1) regc_ok_fields [OF ok w1 s1] t1
      by (simp add: builds_def pjsip_regc_unregister_all_def regc_ok_live [OF ok] r1_def [symmetric] Let_def)
  next
    case (Some msg)
    have fit: "msg_fit msg" using c(2) Some by blast
    let ?r = "r1\<lparr>rg_removed := []\<rparr>"
    have "regc_wf ?r" "same_core rc ?r" "rg_timer ?r = None" using w1 s1 t1 by (auto simp: regc_wf_def same_core_def)
    moreover have "hdr_fit (contact_hdr_of (contact0\<lparr>star := True\<rparr>))"
      by (simp add: contact_hdr_of_def hdr_fit_def pjsip_contact_hdr_create_def)
    ultimately show ?thesis using c(1) Some regc_ok_fields [OF ok, of ?r] fit fit_expires
      by (simp add: builds_def pjsip_regc_unregister_all_def regc_ok_live [OF ok] r1_def [symmetric] Let_def
          pjsip_msg_add_hdr_def msg_fit_def)
  qed
qed

section \<open>Sending\<close>

definition sends_ok :: "send_fun \<Rightarrow> bool" where
  "sends_ok send \<longleftrightarrow>
     (\<forall>b msg rc. regc_ok b rc \<longrightarrow> msg_fit msg \<longrightarrow> (\<exists>st rc'. send msg rc = Inr (st, rc') \<and> settled b rc'))"

lemma find_hdr_at:
  "pjsip_msg_find_hdr msg t None = Some i \<Longrightarrow> i < length (hdrs msg) \<and> h_type (hdrs msg ! i) = t"
  by (simp add: find_hdr_start find_hdr_Some)

lemma find_hdr_none: "pjsip_msg_find_hdr msg t None = None \<longleftrightarrow> (\<forall>h\<in>set (hdrs msg). h_type h \<noteq> t)"
  by (simp add: pjsip_msg_find_hdr_def find_start_def find_from_None)

lemma int_hdr_total:
  assumes "\<forall>h\<in>set (hdrs msg). h_type h = t \<longrightarrow> (\<exists>v. h_val h = HInt v \<and> P v)"
  shows "\<exists>r. int_hdr t msg = Inr r \<and> (\<forall>v. r = Some v \<longrightarrow> P v)"
proof (cases "pjsip_msg_find_hdr msg t None")
  case (Some i)
  from find_hdr_at [OF Some] assms obtain v where "h_val (hdrs msg ! i) = HInt v" "P v" by (metis nth_mem)
  with Some show ?thesis by (simp add: int_hdr_def)
qed (simp add: int_hdr_def)

lemma expires_total: "msg_fit msg \<Longrightarrow> \<exists>r. int_hdr PJSIP_H_EXPIRES msg = Inr r"
  using int_hdr_total [of msg PJSIP_H_EXPIRES "\<lambda>v. True"] by (auto simp: msg_fit_def hdr_fit_def list_all_iff)

lemma send_with_ok:
  assumes during: "\<And>rc. regc_ok (Suc b) rc \<Longrightarrow> rg_has_tsx rc \<Longrightarrow>
      \<exists>rc'. during rc = Inr rc' \<and> regc_ok (Suc b) (if st \<noteq> PJ_SUCCESS then rc'\<lparr>rg_has_tsx := False\<rparr> else rc')"
    and ok: "regc_ok b rc" and fit: "msg_fit msg"
  shows "\<exists>st' rc'. send_with st tp during msg rc = Inr (st', rc') \<and> settled b rc'"
proof (cases "rg_has_tsx rc")
  case True
  then show ?thesis using ok by (auto simp: send_with_def regc_ok_live [OF ok] settled_def regc_ok_def)
next
  case False
  obtain i where i: "pjsip_msg_find_hdr msg PJSIP_H_CSEQ None = Some i"
    using fit find_hdr_none [of msg PJSIP_H_CSEQ] by (auto simp: msg_fit_def list_ex_iff)
  from find_hdr_at [OF i] have il: "i < length (hdrs msg)" "h_type (hdrs msg ! i) = PJSIP_H_CSEQ" by auto
  then obtain n m where v: "h_val (hdrs msg ! i) = HCseq n m"
    using fit by (auto simp: msg_fit_def list_all_length hdr_fit_def)
  define msg' where "msg' = msg\<lparr>hdrs := (hdrs msg)[i := (hdrs msg ! i)\<lparr>h_val := HCseq (sint (rg_cseq rc + 1)) m\<rparr>]\<rparr>"
  have fit': "\<forall>h\<in>set (hdrs msg'). h_type h = PJSIP_H_EXPIRES \<longrightarrow> (\<exists>v. h_val h = HInt v \<and> True)"
    using fit il set_update_subset_insert [of "hdrs msg" i]
    by (fastforce simp: msg'_def msg_fit_def list_all_iff hdr_fit_def)
  from int_hdr_total [OF this] obtain e where e: "int_hdr PJSIP_H_EXPIRES msg' = Inr e" by auto
  define r1 where "r1 = out (RegSent msg' (sent_via rc)) (begin_send e rc)"
  have "regc_ok (Suc b) r1" "rg_has_tsx r1"
    using ok False by (auto simp: regc_ok_def out_def r1_def begin_send_def regc_wf_def)
  from during [OF this] obtain rc' where d: "during r1 = Inr rc'"
    "regc_ok (Suc b) (if st \<noteq> PJ_SUCCESS then rc'\<lparr>rg_has_tsx := False\<rparr> else rc')" by blast
  have "regc_ok (Suc b) (after_send st tp rc')"
    using d(2) swap_transport_ok [of "Suc b" rc' tp] by (simp add: after_send_def split: if_splits)
  from leave_busy_ok [OF this] obtain r3 where r3: "leave_busy (after_send st tp rc') = Inr r3" "settled b r3" by blast
  have live: "\<not> rg_freed rc'" using d(2) by (simp add: regc_ok_def split: if_splits)
  have "send_with st tp during msg rc = Inr (st, r3)"
    using False i v e d(1) r3(1) live
    by (simp add: send_with_def regc_ok_live [OF ok] msg'_def [symmetric] r1_def live_def [of rc'])
  with r3(2) show ?thesis by blast
qed

section \<open>The answers\<close>

text \<open>
  An answer the parser let through, without a star among its contacts, and without the number that the
  code keeps for "no expiration".
\<close>

definition answer_ok :: "pjsip_msg \<Rightarrow> bool" where
  "answer_ok m \<longleftrightarrow>
     (\<exists>c r. line m = StatusLine c r) \<and>
     (\<forall>h\<in>set (hdrs m).
        (h_type h = PJSIP_H_CONTACT \<longrightarrow> (\<exists>c. h_val h = HContact c \<and> contact_ok c \<and> c_expires c \<noteq> NOEXP)) \<and>
        (h_type h = PJSIP_H_EXPIRES \<longrightarrow> (\<exists>v. h_val h = HInt v \<and> v \<noteq> NOEXP)) \<and>
        (h_type h = PJSIP_H_MIN_EXPIRES \<longrightarrow> (\<exists>v. h_val h = HInt v \<and> sint (word_of_int v :: 32 word) \<noteq> NOEXP)))"

definition needs_rdata :: "int \<Rightarrow> bool" where
  "needs_rdata code \<longleftrightarrow> code sdiv 100 = 2 \<or> code \<in> {401, 407, 423}"

text \<open>A transaction that ends in such a code has received it.\<close>

definition ev_ok :: "tsx_event \<Rightarrow> bool" where
  "ev_ok ev \<longleftrightarrow>
     (needs_rdata (te_code ev) \<longrightarrow> te_rdata ev \<noteq> None) \<and> (\<forall>rd. te_rdata ev = Some rd \<longrightarrow> answer_ok (rx_msg rd)) \<and>
     msg_fit (te_last_tx ev)"

text \<open>
  A request that could not be sent is not answered by a challenge or a demand for a longer lifetime.
\<close>

primrec net_ok :: "net \<Rightarrow> bool" where
  "net_ok (Quiet st tp) \<longleftrightarrow> True"
| "net_ok (Sync st tp env ev net) \<longleftrightarrow>
     env_good env \<and> ev_ok ev \<and> net_ok net \<and> (st \<noteq> PJ_SUCCESS \<longrightarrow> te_code ev \<notin> {401, 407, 423})"

lemma reason_total: "answer_ok (rx_msg rd) \<Longrightarrow> \<exists>r. reason_of rd = Inr r"
  by (auto simp: answer_ok_def reason_of_def)

lemma response_contacts_total:
  assumes "answer_ok m"
  shows "\<exists>cs. response_contacts m = Inr cs \<and> (\<forall>c\<in>set cs. contact_ok c \<and> c_expires c \<noteq> NOEXP)"
proof -
  let ?f = "foldr (\<lambda>h r. bind_res (contact_of h) (\<lambda>c. bind_res r (\<lambda>cs. Inr (c # cs))))"
  have "\<forall>h\<in>set hs. \<exists>c. h_val h = HContact c \<and> contact_ok c \<and> c_expires c \<noteq> NOEXP \<Longrightarrow>
      \<exists>cs. ?f hs (Inr []) = Inr cs \<and> (\<forall>c\<in>set cs. contact_ok c \<and> c_expires c \<noteq> NOEXP)" for hs
    by (induction hs) (auto simp: contact_of_def)
  moreover have "\<forall>h\<in>set (take PJSIP_REGC_MAX_CONTACT (filter (\<lambda>h. h_type h = PJSIP_H_CONTACT) (hdrs m))).
      \<exists>c. h_val h = HContact c \<and> contact_ok c \<and> c_expires c \<noteq> NOEXP"
    using assms by (auto simp: answer_ok_def dest!: in_set_takeD)
  ultimately show ?thesis by (simp add: response_contacts_def)
qed

lemma is_ours_total: "contact_ok c \<Longrightarrow> \<forall>our\<in>set os. contact_ok our \<Longrightarrow> \<exists>m. is_ours check False c os = Inr m"
proof (induction os)
  case (Cons o1 os)
  from Cons.prems obtain u v where u: "c_uri c = Some u" "uri_whole u" and v: "c_uri o1 = Some v" "uri_whole v"
    by (metis contact_okE list.set_intros(1))
  from get_uri_whole [OF u(2)] get_uri_whole [OF v(2)] obtain u' v' where
    g: "pjsip_uri_get_uri u = Inr u'" "uri_whole u'" "pjsip_uri_get_uri v = Inr v'" "uri_whole v'" by blast
  from uri_cmp_total [OF g(2,4)] obtain r where "pjsip_uri_cmp IN_CONTACT_HDR u' v' = Inr r" by blast
  then have "\<exists>m. same_contact check False c o1 = Inr m" using u(1) v(1) g(1,3) by (cases check) (auto simp: same_contact_def some_uri_def intro: exI [of _ False])
  with Cons show ?case by auto
qed (auto intro: exI [of _ False])

lemma lowest_total:
  assumes "\<forall>our\<in>set ours. contact_ok our"
  shows "\<forall>c\<in>set cs. contact_ok c \<Longrightarrow> \<exists>r. lowest_expiration check False cs ours (b, e) = Inr r"
proof (induction cs arbitrary: b e)
  case (Cons c cs)
  from is_ours_total [of c ours check] Cons.prems assms obtain m where "is_ours check False c ours = Inr m" by auto
  with Cons show ?case by simp
qed simp

lemma expiration_total:
  assumes wf: "regc_wf rc" and a: "answer_ok m"
  shows "\<exists>e cs. calculate_response_expiration env rc m = Inr (e, cs) \<and> e \<noteq> NOEXP"
proof -
  obtain cs where cs: "response_contacts m = Inr cs" "\<forall>c\<in>set cs. contact_ok c \<and> c_expires c \<noteq> NOEXP"
    using response_contacts_total [OF a] by blast
  obtain ex where ex: "int_hdr PJSIP_H_EXPIRES m = Inr ex" "\<And>v. ex = Some v \<Longrightarrow> v \<noteq> NOEXP"
    using int_hdr_total [of m PJSIP_H_EXPIRES "\<lambda>v. v \<noteq> NOEXP"] a by (auto simp: answer_ok_def)
  have x: "\<not> rg_add_xuid_param rc" and he: "rg_expires_hdr rc \<noteq> Some NOEXP" using wf by (simp_all add: regc_wf_def)
  have r: "or_requested ex rc \<noteq> NOEXP" using ex(2) he by (auto simp: or_requested_def split: option.split)
  obtain b e where l: "(if re_check_contact env \<or> rg_add_xuid_param rc
      then lowest_expiration (re_check_contact env) (rg_add_xuid_param rc) cs (rg_contacts rc) (False, NOEXP)
      else Inr (False, NOEXP)) = Inr (b, e)"
  proof (cases "re_check_contact env")
    case True
    then show ?thesis
      using lowest_total [of "rg_contacts rc" cs True False NOEXP] wf_contacts [OF wf] cs(2) x that by auto
  qed (use x that in auto)
  have hd: "cs \<noteq> [] \<Longrightarrow> c_expires (hd cs) \<noteq> NOEXP" using cs(2) by (cases cs) auto
  show ?thesis using r hd
    by (simp add: calculate_response_expiration_def cs(1) ex(1) l Let_def)
qed

lemma refresh_delay_ge: "DELAY_BEFORE_REFRESH \<le> refresh_delay rc e"
  by (simp add: refresh_delay_def Let_def)

lemma schedule_ok: "regc_ok b rc \<Longrightarrow> regc_ok b (schedule_registration env e rc) \<and>
    rg_has_tsx (schedule_registration env e rc) = rg_has_tsx rc"
  using refresh_delay_ge [of rc e] by (auto simp: schedule_registration_def regc_ok_def regc_wf_def Let_def)

lemma op_idle_ok: "regc_ok b rc \<Longrightarrow> regc_ok b (rc\<lparr>rg_current_op := x\<rparr>)"
  by (simp add: regc_ok_def regc_wf_def)

lemma on_final_ok:
  assumes ok: "regc_ok (Suc b) rc" and ev: "ev_ok ev"
  shows "\<exists>rc'. on_final env ev rc = Inr rc' \<and> regc_ok (Suc b) rc' \<and> rg_has_tsx rc' = rg_has_tsx rc"
proof -
  have "\<exists>rd e cs r1. (if te_code ev sdiv 100 = 2
      then bind_res (event_rdata ev) (\<lambda>rdata.
           bind_res (calculate_response_expiration env rc (rx_msg rdata)) (\<lambda>(expiration, contacts).
             Inr (Some rdata, expiration, contacts, schedule_registration env expiration rc)))
      else Inr (te_rdata ev, NOEXP, [], rc)) = Inr (rd, e, cs, r1) \<and>
      (\<forall>x. rd = Some x \<longrightarrow> answer_ok (rx_msg x)) \<and> regc_ok (Suc b) r1 \<and> rg_has_tsx r1 = rg_has_tsx rc"
  proof (cases "te_code ev sdiv 100 = 2")
    case True
    then obtain rd where rd: "te_rdata ev = Some rd" "answer_ok (rx_msg rd)" using ev by (auto simp: ev_ok_def needs_rdata_def)
    from expiration_total [OF regc_wf_ok [OF ok] rd(2)] obtain e cs where
      "calculate_response_expiration env rc (rx_msg rd) = Inr (e, cs)" by blast
    with True rd schedule_ok [OF ok, of env e] show ?thesis by (simp add: event_rdata_def)
  qed (use ok ev in \<open>auto simp: ev_ok_def\<close>)
  then obtain rd e cs r1 where r1: "(if te_code ev sdiv 100 = 2
      then bind_res (event_rdata ev) (\<lambda>rdata.
           bind_res (calculate_response_expiration env rc (rx_msg rdata)) (\<lambda>(expiration, contacts).
             Inr (Some rdata, expiration, contacts, schedule_registration env expiration rc)))
      else Inr (te_rdata ev, NOEXP, [], rc)) = Inr (rd, e, cs, r1)" "\<And>x. rd = Some x \<Longrightarrow> answer_ok (rx_msg x)"
      "regc_ok (Suc b) r1" "rg_has_tsx r1 = rg_has_tsx rc" by blast
  obtain reason where reason: "(case rd of None \<Rightarrow> Inr (te_text ev) | Some rdata \<Rightarrow> reason_of rdata) = Inr reason"
    using reason_total r1(2) by (cases rd) auto
  define r2 where "r2 = r1\<lparr>rg_expires := word_of_int (if e = NOEXP then -1 else e), rg_current_op := REGC_IDLE\<rparr>"
  have "regc_ok (Suc b) r2" "rg_has_tsx r2 = rg_has_tsx rc" using r1(3,4) by (simp_all add: r2_def regc_ok_def regc_wf_def)
  with call_callback_ok [of "Suc b" r2 env PJ_SUCCESS "te_code ev" reason rd "if e = NOEXP then -1 else e" cs
      "rg_current_op r1 = REGC_UNREGISTERING"]
  show ?thesis unfolding on_final_def r1(1) by (simp add: reason r2_def [symmetric] Let_def)
qed

lemma or_report_ok:
  assumes "settled (Suc b) rc" and "answer_ok (rx_msg rd)"
  shows "\<exists>rc'. or_report env ev rd un (st, rc) = Inr rc' \<and> regc_ok (Suc b) rc'"
proof -
  have ok: "regc_ok (Suc b) rc" using assms(1) by (simp add: settled_busy)
  obtain reason where "reason_of rd = Inr reason" using reason_total [OF assms(2)] by blast
  with call_callback_ok [OF ok, of env st "te_code ev" reason "Some rd" "-1" "[]" un] ok show ?thesis
    by (auto simp: or_report_def regc_ok_live [OF ok])
qed

lemma then_sends:
  assumes "sends_ok send" and "builds b rc r" and "r = Inr (st, m, rc')"
  shows "\<exists>st' rc''. (case m of Some msg \<Rightarrow> send msg rc' | None \<Rightarrow> Inr (st, rc')) = Inr (st', rc'') \<and>
    (m = None \<longrightarrow> rc'' = rc') \<and> (m \<noteq> None \<longrightarrow> settled b rc'')"
  using assms by (cases m) (auto simp: builds_def sends_ok_def)

lemma busy_settled: "regc_ok (Suc b) rc \<Longrightarrow> settled (Suc b) rc"
  by (simp add: settled_busy)

lemma tsx_stage_ok:
  assumes ok: "regc_ok (Suc b) rc" and env: "env_good env"
  shows "\<exists>upd rc'. tsx_stage env ev rc = Inr (upd, rc') \<and> regc_ok (Suc b) rc' \<and> rg_has_tsx rc' = rg_has_tsx rc \<and>
    (rg_delete_flag rc \<longrightarrow> rg_delete_flag rc')"
proof (cases "\<not> rg_delete_flag rc \<and> rg_tsx_cb rc \<and> rg_current_op rc = REGC_REGISTERING")
  case True
  define p where "p = cbparam_init rc PJ_SUCCESS (te_code ev) (te_text ev) (te_rdata ev) (-1) [] False"
  obtain d cs where t: "re_tsx_cb env p = (d, cs)" by fastforce
  define r1 where "r1 = out (RegTsxCallback p) rc"
  have o: "regc_ok (Suc b) r1" "rg_has_tsx r1 = rg_has_tsx rc" using out_ok [OF ok, of "RegTsxCallback p"] by (auto simp: r1_def)
  obtain r2 where r2: "(if d then pjsip_regc_destroy r1 else Inr r1) = Inr r2" "regc_ok (Suc b) r2" "rg_has_tsx r2 = rg_has_tsx rc"
    using destroy_busy [OF o(1)] o by (cases d) auto
  show ?thesis
  proof (cases cs)
    case None
    then show ?thesis using True r2 regc_ok_live [OF r2(2)]
      by (cases d) (auto simp: tsx_stage_def p_def [symmetric] t r1_def [symmetric] Let_def)
  next
    case (Some ss)
    define r3 where "r3 = (if te_code ev sdiv 100 \<noteq> 2 then r2\<lparr>rg_contacts := filter (\<lambda>h. c_expires h \<noteq> -1) (rg_contacts r2)\<rparr> else r2)"
    have ok3: "regc_ok (Suc b) r3" "rg_has_tsx r3 = rg_has_tsx rc"
      using r2(2,3) by (auto simp: r3_def regc_ok_def regc_wf_def)
    have "no_star (re_parser env) ss" using env t Some by (metis env_good_def snd_conv)
    then obtain st cs' rs where sc: "set_contact env ss r3 = Inr (st, r3\<lparr>rg_contacts := cs', rg_removed := rs\<rparr>)"
      "\<forall>c\<in>set cs' \<union> set rs. contact_ok c"
      using set_contact_total [of env ss r3] env wf_contacts [OF regc_wf_ok [OF ok3(1)]] ok3(1)
      by (auto simp: env_good_def regc_ok_def regc_wf_def)
    have "regc_ok (Suc b) (r3\<lparr>rg_contacts := cs', rg_removed := rs\<rparr>)" using ok3(1) sc(2) by (auto simp: regc_ok_def regc_wf_def)
    then show ?thesis using True r2(1) ok3 sc(1) Some
      by (cases d) (auto simp: tsx_stage_def p_def [symmetric] t r1_def [symmetric] Let_def r3_def [symmetric]
          pjsip_regc_update_contact_def regc_ok_live [OF r2(2)] regc_ok_live [OF ok3(1)])
  qed
qed (use ok in \<open>auto simp: tsx_stage_def\<close>)

lemma replace_contacts_ok:
  assumes ok: "regc_ok (Suc b) rc" and fit: "msg_fit msg"
  shows "\<exists>msg' rc'. replace_contacts rc msg = Inr (msg', rc') \<and> msg_fit msg' \<and> regc_ok (Suc b) rc'"
proof -
  define new where "new = map contact_hdr_of (rg_contacts rc @ rg_removed rc)"
  have n: "list_all hdr_wf new" "list_all hdr_fit new"
    using contact_hdrs_wf [of "rg_contacts rc @ rg_removed rc"] wf_contacts [OF regc_wf_ok [OF ok]] by (auto simp: new_def)
  define behind where "behind = rev (takeWhile (\<lambda>h. \<not> old_contact h) (rev (hdrs msg)))"
  define front where "front = take (length (hdrs msg) - length behind) (hdrs msg)"
  define hs where "hs = (if list_ex old_contact (hdrs msg) then filter (\<lambda>h. \<not> old_contact h) front @ new @ behind else hdrs msg @ new)"
  have "suffix behind (hdrs msg)"
    unfolding behind_def by (metis suffix_to_prefix rev_rev_ident takeWhile_is_prefix)
  then obtain pre where pre: "hdrs msg = pre @ behind" by (auto simp: suffix_def)
  then have fr: "front = pre" by (simp add: front_def)
  have sub: "set hs \<subseteq> set (hdrs msg) \<union> set new" by (auto simp: hs_def fr pre)
  have keep: "h \<in> set hs" if "h \<in> set (hdrs msg)" "\<not> old_contact h" for h
    using that by (auto simp: hs_def fr pre)
  obtain h where h: "h \<in> set (hdrs msg)" "h_type h = PJSIP_H_CSEQ" using fit by (auto simp: msg_fit_def list_ex_iff)
  then have "h \<in> set hs" using keep by (simp add: old_contact_def)
  then have fit': "msg_fit (msg\<lparr>hdrs := hs\<rparr>)" using h(2) sub fit n(2) by (auto simp: msg_fit_def list_all_iff list_ex_iff)
  have "replace_contacts rc msg = Inr (msg\<lparr>hdrs := hs\<rparr>, rc\<lparr>rg_removed := []\<rparr>)"
    by (simp only: replace_contacts_def new_def [symmetric] clone_all_eq [OF n(1)] bind_res_simps Let_def behind_def [symmetric]
        front_def [symmetric] hs_def [symmetric])
  moreover have "regc_ok (Suc b) (rc\<lparr>rg_removed := []\<rparr>)" using ok by (auto simp: regc_ok_def regc_wf_def)
  ultimately show ?thesis using fit' by blast
qed

lemma on_challenge_ok:
  assumes send: "sends_ok send" and ok: "regc_ok (Suc b) rc" and ev: "ev_ok ev" and env: "env_good env"
    and code: "te_code ev \<in> {401, 407}"
  shows "\<exists>rc'. on_challenge env ev upd send rc = Inr rc' \<and> regc_ok (Suc b) rc'"
proof -
  obtain rd where rd: "te_rdata ev = Some rd" "answer_ok (rx_msg rd)" using ev code by (auto simp: ev_ok_def needs_rdata_def)
  have fit: "msg_fit (te_last_tx ev)" using ev by (simp add: ev_ok_def)
  define r1 where "r1 = rc\<lparr>rg_current_op := REGC_IDLE\<rparr>"
  have ok1: "regc_ok (Suc b) r1" using op_idle_ok [OF ok] by (simp add: r1_def)
  obtain msg r2 where r2: "(if upd then replace_contacts r1 (te_last_tx ev) else Inr (te_last_tx ev, r1)) = Inr (msg, r2)"
    "msg_fit msg" "regc_ok (Suc b) r2"
    using replace_contacts_ok [OF ok1 fit] ok1 fit by (cases upd) auto
  obtain st msg' where a: "re_auth_reinit env rd msg = (st, msg')" by fastforce
  then have fit': "msg_fit msg'" using env r2(2) by (metis env_good_def snd_conv)
  have "\<exists>st' r3. (if st = PJ_SUCCESS then send msg' r2 else Inr (st, r2)) = Inr (st', r3) \<and> settled (Suc b) r3"
    using send [unfolded sends_ok_def, rule_format, OF r2(3) fit'] busy_settled [OF r2(3)] by (cases "st = PJ_SUCCESS") auto
  then obtain st' r3 where s: "(if st = PJ_SUCCESS then send msg' r2 else Inr (st, r2)) = Inr (st', r3)" "settled (Suc b) r3" by blast
  show ?thesis
    using or_report_ok [OF s(2) rd(2), of env ev "rg_current_op rc = REGC_UNREGISTERING" st']
    by (simp add: on_challenge_def event_rdata_def rd(1) r1_def [symmetric] r2(1) a s(1) Let_def)
qed

lemma on_too_brief_ok:
  assumes send: "sends_ok send" and ok: "regc_ok (Suc b) rc" and ev: "ev_ok ev" and env: "env_good env" and code: "te_code ev = 423"
  shows "\<exists>rc'. on_too_brief env ev send rc = Inr rc' \<and> regc_ok (Suc b) rc'"
proof -
  obtain rd where rd: "te_rdata ev = Some rd" "answer_ok (rx_msg rd)" using ev code by (auto simp: ev_ok_def needs_rdata_def)
  define r1 where "r1 = rc\<lparr>rg_current_op := REGC_IDLE\<rparr>"
  have ok1: "regc_ok (Suc b) r1" using op_idle_ok [OF ok] by (simp add: r1_def)
  obtain me where me: "int_hdr PJSIP_H_MIN_EXPIRES (rx_msg rd) = Inr me" "\<And>v. me = Some v \<Longrightarrow> sint (word_of_int v :: 32 word) \<noteq> NOEXP"
    using int_hdr_total [of "rx_msg rd" PJSIP_H_MIN_EXPIRES "\<lambda>v. sint (word_of_int v :: 32 word) \<noteq> NOEXP"] rd(2)
    by (auto simp: answer_ok_def)
  have fin: "\<exists>rc'. on_final env ev r1 = Inr rc' \<and> regc_ok (Suc b) rc'" using on_final_ok [OF ok1 ev, of env] by blast
  show ?thesis
  proof (cases "min_expires_of me r1")
    case None
    with fin show ?thesis by (simp add: on_too_brief_def event_rdata_def rd(1) r1_def [symmetric] me(1) Let_def)
  next
    case (Some e)
    then have e: "sint (word_of_int e :: 32 word) \<noteq> NOEXP"
      using me(2) by (auto simp: min_expires_of_def split: option.splits if_splits)
    show ?thesis
    proof (cases "rg_expires_hdr r1 \<noteq> None \<and> the (rg_expires_hdr r1) \<ge> e")
      case True
      with fin Some show ?thesis by (simp add: on_too_brief_def event_rdata_def rd(1) r1_def [symmetric] me(1) Let_def)
    next
      case False
      define r2 where "r2 = set_expires (word_of_int e) r1"
      have "regc_ok (Suc b) r2" using ok1 e by (auto simp: r2_def set_expires_def regc_ok_def regc_wf_def)
      from register_builds [OF this env] have bu: "builds (Suc b) r2 (pjsip_regc_register env (rg_auto_reg r2) r2)" .
      then obtain st m r3 where r3: "pjsip_regc_register env (rg_auto_reg r2) r2 = Inr (st, m, r3)" "regc_ok (Suc b) r3"
        by (auto simp: builds_def)
      from then_sends [OF send bu r3(1)] obtain st' r4 where
        s: "(case m of Some msg \<Rightarrow> send msg r3 | None \<Rightarrow> Inr (st, r3)) = Inr (st', r4)" "settled (Suc b) r4"
        using r3(2) by (cases m) (auto simp: settled_busy)
      from or_report_ok [OF s(2) rd(2), of env ev False st'] Some False r3(1) s(1) show ?thesis
        by (auto simp: on_too_brief_def event_rdata_def rd(1) r1_def [symmetric] r2_def [symmetric] me(1) Let_def)
    qed
  qed
qed

lemma tsx_callback_ok:
  assumes send: "sends_ok send" and env: "env_good env" and ev: "ev_ok ev" and ok: "regc_ok b rc" and tsx: "rg_has_tsx rc"
  shows "\<exists>rc'. regc_tsx_callback env ev send rc = Inr rc' \<and> settled b rc' \<and>
    (te_code ev \<notin> {401, 407} \<and> (te_code ev = 423 \<longrightarrow> rg_delete_flag rc) \<and> \<not> rg_freed rc' \<longrightarrow> \<not> rg_has_tsx rc')"
proof -
  define r1 where "r1 = out RegAnswered (rc\<lparr>rg_busy_ctr := Suc (rg_busy_ctr rc), rg_has_tsx := False\<rparr>)"
  have "regc_ok (Suc b) r1" "\<not> rg_has_tsx r1" using ok tsx by (auto simp: r1_def regc_ok_def regc_wf_def out_def)
  then have ok2: "regc_ok (Suc b) (swap_transport (te_transport ev) r1)" "\<not> rg_has_tsx (swap_transport (te_transport ev) r1)"
    "rg_delete_flag (swap_transport (te_transport ev) r1) = rg_delete_flag r1"
    using swap_transport_ok by metis+
  have flag: "rg_delete_flag r1 = rg_delete_flag rc" by (simp add: r1_def out_def)
  from tsx_stage_ok [OF ok2(1) env] ok2(2) obtain upd r3 where
    r3: "tsx_stage env ev (swap_transport (te_transport ev) r1) = Inr (upd, r3)" "regc_ok (Suc b) r3" "\<not> rg_has_tsx r3"
      "rg_delete_flag rc \<longrightarrow> rg_delete_flag r3"
    unfolding ok2(3) flag by blast
  define quiet where "quiet \<longleftrightarrow> te_code ev \<notin> {401, 407} \<and> (te_code ev = 423 \<longrightarrow> rg_delete_flag rc)"
  have "\<exists>r4. (if te_code ev = 407 \<or> te_code ev = 401 then on_challenge env ev upd send r3
      else if rg_delete_flag r3 then Inr (r3\<lparr>rg_current_op := REGC_IDLE\<rparr>)
      else if te_code ev = 423 \<and> rg_current_op r3 = REGC_REGISTERING then on_too_brief env ev send r3
      else on_final env ev r3) = Inr r4 \<and> regc_ok (Suc b) r4 \<and> (quiet \<longrightarrow> \<not> rg_has_tsx r4)"
  proof (cases "te_code ev = 407 \<or> te_code ev = 401")
    case True
    then show ?thesis using on_challenge_ok [OF send r3(2) ev env, of upd] by (auto simp: quiet_def)
  next
    case no: False
    show ?thesis
    proof (cases "\<not> rg_delete_flag r3 \<and> te_code ev = 423 \<and> rg_current_op r3 = REGC_REGISTERING")
      case True
      then show ?thesis using no r3(4) on_too_brief_ok [OF send r3(2) ev env] by (auto simp: quiet_def)
    next
      case False
      then show ?thesis using no on_final_ok [OF r3(2) ev, of env] r3(3) op_idle_ok [OF r3(2), of REGC_IDLE] by auto
    qed
  qed
  then obtain r4 where r4: "(if te_code ev = 407 \<or> te_code ev = 401 then on_challenge env ev upd send r3
      else if rg_delete_flag r3 then Inr (r3\<lparr>rg_current_op := REGC_IDLE\<rparr>)
      else if te_code ev = 423 \<and> rg_current_op r3 = REGC_REGISTERING then on_too_brief env ev send r3
      else on_final env ev r3) = Inr r4" "regc_ok (Suc b) r4" "quiet \<longrightarrow> \<not> rg_has_tsx r4" by blast
  from leave_busy_ok [OF r4(2)] obtain r5 where
    r5: "leave_busy r4 = Inr r5" "settled b r5" "\<not> rg_freed r5 \<longrightarrow> rg_has_tsx r5 = rg_has_tsx r4" by blast
  have "regc_tsx_callback env ev send rc = Inr r5"
    using tsx by (simp add: regc_tsx_callback_def regc_ok_live [OF ok] r1_def [symmetric] Let_def r3(1) r4(1) regc_ok_live [OF r4(2)] r5(1))
  with r5 r4(3) show ?thesis by (auto simp: quiet_def)
qed

lemma net_sends_ok: "net_ok net \<Longrightarrow> sends_ok (pjsip_regc_send net)"
proof (induction net)
  case (Quiet st tp)
  have "\<exists>rc'. (\<lambda>rc. Inr (if st \<noteq> PJ_SUCCESS then out RegNotSent rc else rc)) rc = Inr rc' \<and>
      regc_ok (Suc b) (if st \<noteq> PJ_SUCCESS then rc'\<lparr>rg_has_tsx := False\<rparr> else rc')"
    if "regc_ok (Suc b) rc" "rg_has_tsx rc" for b rc
    using that by (auto simp: regc_ok_def out_def regc_wf_def)
  then show ?case using send_with_ok [of _ "\<lambda>rc. Inr (if st \<noteq> PJ_SUCCESS then out RegNotSent rc else rc)" st _ _ tp]
    by (simp add: sends_ok_def)
next
  case (Sync st tp env ev net)
  then have send: "sends_ok (pjsip_regc_send net)" and e: "env_good env" "ev_ok ev" and
    code: "st \<noteq> PJ_SUCCESS \<Longrightarrow> te_code ev \<notin> {401, 407, 423}" by auto
  have "\<exists>rc'. regc_tsx_callback env ev (pjsip_regc_send net) rc = Inr rc' \<and>
      regc_ok (Suc b) (if st \<noteq> PJ_SUCCESS then rc'\<lparr>rg_has_tsx := False\<rparr> else rc')"
    if r: "regc_ok (Suc b) rc" "rg_has_tsx rc" for b rc
  proof -
    from tsx_callback_ok [OF send e r] obtain rc' where
      c: "regc_tsx_callback env ev (pjsip_regc_send net) rc = Inr rc'" "settled (Suc b) rc'"
        "te_code ev \<notin> {401, 407} \<and> (te_code ev = 423 \<longrightarrow> rg_delete_flag rc) \<and> \<not> rg_freed rc' \<longrightarrow> \<not> rg_has_tsx rc'" by blast
    then have "st \<noteq> PJ_SUCCESS \<Longrightarrow> rc'\<lparr>rg_has_tsx := False\<rparr> = rc'" using code by (auto simp: settled_busy regc_ok_def)
    with c(1,2) show ?thesis by (auto simp: settled_busy)
  qed
  then show ?case using send_with_ok [of _ "regc_tsx_callback env ev (pjsip_regc_send net)" st _ _ tp]
    by (simp add: sends_ok_def)
qed

lemma refresh_ok:
  assumes send: "sends_ok send" and env: "env_good env" and ok: "regc_ok b rc"
  shows "\<exists>rc'. regc_refresh_timer_cb env send rc = Inr rc' \<and> settled b rc'"
proof -
  define r1 where "r1 = (cancel_timer rc)\<lparr>rg_busy_ctr := Suc (rg_busy_ctr rc)\<rparr>"
  have ok1: "regc_ok (Suc b) r1" using ok by (auto simp: r1_def cancel_timer_def regc_ok_def regc_wf_def)
  have bu: "builds (Suc b) r1 (pjsip_regc_register env True r1)" by (rule register_builds [OF ok1 env])
  then obtain st m r2 where r2: "pjsip_regc_register env True r1 = Inr (st, m, r2)" "regc_ok (Suc b) r2"
    by (auto simp: builds_def)
  from then_sends [OF send bu r2(1)] obtain st' r3 where
    s: "(case m of Some msg \<Rightarrow> send msg r2 | None \<Rightarrow> Inr (st, r2)) = Inr (st', r3)" "settled (Suc b) r3"
    using r2(2) by (cases m) (auto simp: settled_busy)
  then have ok3: "regc_ok (Suc b) r3" by (simp add: settled_busy)
  obtain r4 where r4: "(if st' \<noteq> PJ_SUCCESS \<and> rg_cb r3
      then call_callback env st' 400 (re_strerror env st') None (-1) [] False r3 else Inr r3) = Inr r4" "regc_ok (Suc b) r4"
    using call_callback_ok [OF ok3, of env st' 400 "re_strerror env st'" None "-1" "[]" False] ok3
    by (cases "st' \<noteq> PJ_SUCCESS \<and> rg_cb r3") auto
  from leave_busy_ok [OF r4(2)] obtain r5 where r5: "leave_busy r4 = Inr r5" "settled b r5" by blast
  have "regc_refresh_timer_cb env send rc = Inr r5"
    by (simp add: regc_refresh_timer_cb_def regc_ok_live [OF ok] r1_def [symmetric] Let_def r2(1) s(1) regc_ok_live [OF ok3] r4(1)
        regc_ok_live [OF r4(2)] r5(1))
  with r5(2) show ?thesis by blast
qed

section \<open>Histories\<close>

text \<open>
  What the application may pass: contacts without the star, an expiration that is not the number kept for
  "no expiration", and headers that can be cloned.
\<close>

fun event_ok :: "regc_event \<Rightarrow> bool" where
  "event_ok (Register env autoreg net) \<longleftrightarrow> env_good env \<and> net_ok net"
| "event_ok (Unregister env net) \<longleftrightarrow> env_good env \<and> net_ok net"
| "event_ok (UnregisterAll env net) \<longleftrightarrow> env_good env \<and> net_ok net"
| "event_ok (UpdateContact env contacts) \<longleftrightarrow> env_good env \<and> no_star (re_parser env) contacts"
| "event_ok (UpdateExpires e) \<longleftrightarrow> sint e \<noteq> NOEXP"
| "event_ok (SetDelay env d) \<longleftrightarrow> True"
| "event_ok (SetTsxCb cb) \<longleftrightarrow> True"
| "event_ok (SetTransport sel) \<longleftrightarrow> True"
| "event_ok (SetRouteSet hs) \<longleftrightarrow> list_all hdr_wf hs \<and> list_all hdr_fit hs"
| "event_ok (AddHeaders hs) \<longleftrightarrow> list_all hdr_wf hs \<and> list_all hdr_fit hs"
| "event_ok (SetViaSentBy via_addr via_tp) \<longleftrightarrow> True"
| "event_ok ReleaseTransport \<longleftrightarrow> True"
| "event_ok Destroy \<longleftrightarrow> True"
| "event_ok (Fire env net) \<longleftrightarrow> env_good env \<and> net_ok net"
| "event_ok (Answer env ev net) \<longleftrightarrow> env_good env \<and> ev_ok ev \<and> net_ok net"

lemma settled_idle: "regc_ok 0 rc \<Longrightarrow> \<not> rg_delete_flag rc \<Longrightarrow> settled 0 rc"
  by (simp add: settled_def regc_ok_def)

lemma then_send_ok:
  assumes bu: "builds 0 rc r" and net: "net_ok net" and nd: "\<not> rg_delete_flag rc"
  shows "\<exists>rc'. then_send net r = Inr rc' \<and> settled 0 rc'"
proof -
  obtain st m r2 where r2: "r = Inr (st, m, r2)" "regc_ok 0 r2" "rg_delete_flag r2 = rg_delete_flag rc" "\<And>msg. m = Some msg \<Longrightarrow> msg_fit msg"
    using bu by (auto simp: builds_def)
  show ?thesis
  proof (cases m)
    case None
    then show ?thesis using r2 nd settled_idle by (simp add: then_send_def)
  next
    case (Some msg)
    then obtain st' r3 where "pjsip_regc_send net msg r2 = Inr (st', r3)" "settled 0 r3"
      using net_sends_ok [OF net] r2(2,4) unfolding sends_ok_def by blast
    then show ?thesis using Some r2(1) by (simp add: then_send_def)
  qed
qed

lemma enabled_live: "settled 0 rc \<Longrightarrow> enabled e rc \<Longrightarrow> regc_ok 0 rc"
  by (cases e) (auto simp: settled_def regc_gone_def split: if_splits)

lemma enabled_answer: "settled 0 rc \<Longrightarrow> enabled (Answer env ev net) rc \<Longrightarrow> rg_has_tsx rc"
  using enabled_live [of rc "Answer env ev net"] by (auto simp: regc_ok_def split: if_splits)

text \<open>The setters, which the application may call at any time before it destroys the registration.\<close>

definition sets :: "regc \<Rightarrow> (int \<times> regc) res \<Rightarrow> bool" where
  "sets rc r \<longleftrightarrow> (\<exists>rc'. r = Inr (PJ_SUCCESS, rc') \<and> regc_ok 0 rc' \<and> rg_delete_flag rc' = rg_delete_flag rc)"

lemma setters_ok:
  assumes ok: "regc_ok 0 rc"
  shows "sets rc (pjsip_regc_set_reg_tsx_cb cb rc)" "sets rc (pjsip_regc_set_via_sent_by via_addr via_tp rc)"
    "sets rc (pjsip_regc_set_transport sel rc)"
    "list_all hdr_wf hs \<and> list_all hdr_fit hs \<Longrightarrow> sets rc (pjsip_regc_set_route_set hs rc)"
    "list_all hdr_wf hs \<and> list_all hdr_fit hs \<Longrightarrow> sets rc (pjsip_regc_add_headers hs rc)"
proof -
  show "sets rc (pjsip_regc_set_reg_tsx_cb cb rc)" "sets rc (pjsip_regc_set_via_sent_by via_addr via_tp rc)"
    using ok by (auto simp: sets_def pjsip_regc_set_reg_tsx_cb_def pjsip_regc_set_via_sent_by_def live_def regc_ok_def regc_wf_def)
  show "sets rc (pjsip_regc_set_transport sel rc)"
    using drop_tp_sel_ok [OF ok]
    by (auto simp: sets_def pjsip_regc_set_transport_def regc_ok_live [OF ok] Let_def out_def regc_ok_def regc_wf_def split: option.split)
  assume "list_all hdr_wf hs \<and> list_all hdr_fit hs"
  then show "sets rc (pjsip_regc_set_route_set hs rc)" "sets rc (pjsip_regc_add_headers hs rc)"
    using ok by (auto simp: sets_def pjsip_regc_set_route_set_def pjsip_regc_add_headers_def live_def clone_all_eq regc_ok_def regc_wf_def)
qed

lemma sets_settled: "sets rc r \<Longrightarrow> \<not> rg_delete_flag rc \<Longrightarrow> \<exists>rc'. state_of r = Inr rc' \<and> settled 0 rc'"
  by (auto simp: sets_def state_of_def intro: settled_idle)

lemma step_ok:
  assumes s: "settled 0 rc" and e: "event_ok e" and en: "enabled e rc"
  shows "\<exists>rc'. regc_step e rc = Inr rc' \<and> settled 0 rc'"
proof -
  have ok: "regc_ok 0 rc" by (rule enabled_live [OF s en])
  show ?thesis
  proof (cases e)
    case (Register env autoreg net)
    then show ?thesis using then_send_ok [OF register_builds [OF ok, of env autoreg]] e en by simp
  next
    case (Unregister env net)
    then show ?thesis using then_send_ok [OF unregister_builds [OF ok, of env]] e en by simp
  next
    case (UnregisterAll env net)
    then show ?thesis using then_send_ok [OF unregister_all_builds [OF ok, of env]] e en by simp
  next
    case (UpdateContact env contacts)
    have "parses_contacts (re_parser env)" "no_star (re_parser env) contacts" "\<not> rg_add_xuid_param rc"
      using e UpdateContact regc_wf_ok [OF ok] by (auto simp: env_good_def regc_wf_def)
    from set_contact_total [OF this(1,2) wf_contacts [OF regc_wf_ok [OF ok]] this(3)] obtain st cs rs where
      c: "set_contact env contacts rc = Inr (st, rc\<lparr>rg_contacts := cs, rg_removed := rs\<rparr>)" "\<forall>c\<in>set cs \<union> set rs. contact_ok c" by blast
    have "regc_ok 0 (rc\<lparr>rg_contacts := cs, rg_removed := rs\<rparr>)" using ok c(2) by (auto simp: regc_ok_def regc_wf_def)
    then show ?thesis using UpdateContact en c(1) settled_idle
      by (simp add: state_of_def pjsip_regc_update_contact_def regc_ok_live [OF ok])
  next
    case (UpdateExpires d)
    have "regc_ok 0 (set_expires d rc)" using ok e UpdateExpires by (auto simp: set_expires_def regc_ok_def regc_wf_def)
    then show ?thesis using UpdateExpires en settled_idle [of "set_expires d rc"]
      by (simp add: state_of_def pjsip_regc_update_expires_def regc_ok_live [OF ok] set_expires_def)
  next
    case (SetDelay env d)
    define r1 where "r1 = rc\<lparr>rg_delay_before_refresh := d\<rparr>"
    have ok1: "regc_ok 0 r1" "regc_ok 0 (cancel_timer r1)" using ok by (auto simp: r1_def cancel_timer_def regc_ok_def regc_wf_def)
    have r1_same: "rg_timer r1 = rg_timer rc" "rg_expires r1 = rg_expires rc" by (simp_all add: r1_def)
    have "\<not> rg_delete_flag rc" using en SetDelay by simp
    then have "\<not> rg_delete_flag r1" "\<not> rg_delete_flag (schedule_registration env (sint (rg_expires r1)) (cancel_timer r1))"
      by (simp_all add: r1_def schedule_registration_def cancel_timer_def Let_def)
    then have "settled 0 r1" "settled 0 (schedule_registration env (sint (rg_expires r1)) (cancel_timer r1))" "settled 0 rc"
      using settled_idle ok1(1) schedule_ok [OF ok1(2), of env "sint (rg_expires r1)"] s by blast+
    then show ?thesis using SetDelay
      by (simp add: state_of_def pjsip_regc_set_delay_before_refresh_def regc_ok_live [OF ok] r1_def [symmetric] Let_def r1_same)
  next
    case (SetTsxCb cb)
    then show ?thesis using sets_settled [OF setters_ok(1) [OF ok]] en by simp
  next
    case (SetTransport sel)
    then show ?thesis using sets_settled [OF setters_ok(3) [OF ok]] en by simp
  next
    case (SetRouteSet hs)
    then show ?thesis using sets_settled [OF setters_ok(4) [OF ok]] e en by simp
  next
    case (AddHeaders hs)
    then show ?thesis using sets_settled [OF setters_ok(5) [OF ok]] e en by simp
  next
    case (SetViaSentBy via_addr via_tp)
    then show ?thesis using sets_settled [OF setters_ok(2) [OF ok]] en by simp
  next
    case ReleaseTransport
    then show ?thesis using drop_transport_ok [OF ok] en settled_idle [of "drop_transport rc"]
      by (simp add: state_of_def pjsip_regc_release_transport_def regc_ok_live [OF ok])
  next
    case Destroy
    show ?thesis
    proof (cases "rg_has_tsx rc")
      case True
      then show ?thesis using destroy_busy [OF ok] Destroy by (auto simp: settled_def regc_ok_def)
    next
      case False
      then show ?thesis using destroy_idle [OF ok] Destroy by (auto simp: settled_def regc_gone_def)
    qed
  next
    case (Fire env net)
    then show ?thesis using refresh_ok [OF net_sends_ok _ ok] e by simp
  next
    case (Answer env ev net)
    then have "sends_ok (pjsip_regc_send net)" "env_good env" "ev_ok ev" "rg_has_tsx rc"
      using e en enabled_answer [OF s] net_sends_ok by auto
    from tsx_callback_ok [OF this(1-3) ok this(4)] show ?thesis using Answer by auto
  qed
qed

lemma run_ok: "settled 0 rc \<Longrightarrow> \<forall>e\<in>set es. event_ok e \<Longrightarrow> \<exists>rc'. regc_run es rc = Inr rc' \<and> settled 0 rc'"
proof (induction es arbitrary: rc)
  case (Cons e es)
  show ?case
  proof (cases "enabled e rc")
    case True
    from step_ok [OF Cons.prems(1) _ True] Cons.prems(2) obtain rc' where "regc_step e rc = Inr rc'" "settled 0 rc'" by auto
    with Cons.IH [of rc'] Cons.prems(2) True show ?thesis by auto
  next
    case False
    with Cons.IH [OF Cons.prems(1)] Cons.prems(2) show ?thesis by auto
  qed
qed simp

text \<open>From its creation to the first event.\<close>

lemma init_ok:
  assumes create: "pjsip_regc_create True True True 0 0 0 False = Inr (PJ_SUCCESS, Some rc)"
    and env: "parses_contacts (re_parser env)" "no_star (re_parser env) contacts" and e: "e \<noteq> 0" "sint e \<noteq> NOEXP"
    and uris: "parse_uri_of env srv False = Inr (Some u)" "target_ok u"
      "parse_uri_of env from True = Inr (Some f)" "uri_whole f" "parse_uri_of env to True = Inr (Some t)" "uri_whole t"
  shows "\<exists>st rc'. pjsip_regc_init env srv from to contacts e rc = Inr (st, rc') \<and> (st = PJ_SUCCESS \<longrightarrow> settled 0 rc')"
proof -
  have rc: "rc = regc_zero\<lparr>rg_cb := True, rg_expires := -1\<rparr>" using create by (auto simp: pjsip_regc_create_def regc_zero_def)
  define r1 where "r1 = rc\<lparr>rg_str_srv_url := srv, rg_srv_url := Some u, rg_from_uri := from,
    rg_from_hdr := Some (fromto_with pjsip_from_hdr_create f), rg_to_hdr := Some (fromto_with pjsip_to_hdr_create t)\<rparr>"
  have "\<forall>c\<in>set (rg_contacts r1) \<union> set (rg_removed r1). contact_ok c" "\<not> rg_add_xuid_param r1"
    by (simp_all add: r1_def rc regc_zero_def)
  from set_contact_total [OF env this] obtain st cs rs where
    c: "set_contact env contacts r1 = Inr (st, r1\<lparr>rg_contacts := cs, rg_removed := rs\<rparr>)" "\<forall>c\<in>set cs \<union> set rs. contact_ok c" by blast
  have w: "hdr_wf (fromto_with pjsip_from_hdr_create f)" "hdr_wf (fromto_with pjsip_to_hdr_create t)"
    using uris(4,6) by (simp_all add: fromto_with_def hdr_wf_def opt_uri_whole_def)
  define r2 where "r2 = (set_expires e (r1\<lparr>rg_contacts := cs, rg_removed := rs\<rparr>))\<lparr>rg_delay_before_refresh := word_of_int DELAY_BEFORE_REFRESH,
    rg_cid := fst (re_uniq env), rg_cseq := word_of_int (re_rand env smod 0xFFFF)\<rparr>"
  have "regc_wf r2" using uris(2) w c(2) e(2)
    by (auto simp: r2_def r1_def set_expires_def rc regc_zero_def regc_wf_def fromto_with_def)
  moreover have "\<not> rg_freed r2" "rg_busy_ctr r2 = 0" "\<not> rg_delete_flag r2" "\<not> rg_has_tsx r2" "rg_log r2 = []"
    "rg_last_transport r2 = None" "rg_tp_sel r2 = None" "rg_timer r2 = None"
    by (simp_all add: r2_def r1_def set_expires_def rc regc_zero_def)
  ultimately have "settled 0 r2" by (auto simp: settled_def regc_ok_def)
  moreover have "\<not> rg_freed rc" by (simp add: rc regc_zero_def)
  ultimately show ?thesis using e(1) uris c(1)
    by (auto simp: pjsip_regc_init_def live_def r1_def r2_def)
qed

end
