(* ===== verification/RegcLaws.thy ===== *)
theory RegcLaws
  imports RegcSafe
begin

text \<open>
  The properties of the registration client: its history, what happens once it is destroyed, the request
  it sends and the time to the next one.
\<close>

section \<open>A destroyed registration is silent\<close>

fun calls_of :: "regc_out list \<Rightarrow> nat" where
  "calls_of [] = 0"
| "calls_of (RegCallback p # es) = Suc (calls_of es)"
| "calls_of (RegTsxCallback p # es) = Suc (calls_of es)"
| "calls_of (RegSent msg via # es) = calls_of es"
| "calls_of (RegNotSent # es) = calls_of es"
| "calls_of (RegAnswered # es) = calls_of es"
| "calls_of (TpAddRef t # es) = calls_of es"
| "calls_of (TpDecRef t # es) = calls_of es"

lemma calls_append [simp]: "calls_of (a @ b) = calls_of a + calls_of b"
  by (induction a rule: calls_of.induct) simp_all

definition mute :: "nat \<Rightarrow> regc \<Rightarrow> bool" where
  "mute n rc \<longleftrightarrow> rg_delete_flag rc \<and> \<not> rg_cb rc \<and> calls_of (rg_log rc) = n"

definition keeps_mute :: "nat \<Rightarrow> ('a \<times> regc) res \<Rightarrow> bool" where
  "keeps_mute n r \<longleftrightarrow> (\<forall>a rc'. r = Inr (a, rc') \<longrightarrow> mute n rc')"

definition stays_mute :: "nat \<Rightarrow> regc res \<Rightarrow> bool" where
  "stays_mute n r \<longleftrightarrow> (\<forall>rc'. r = Inr rc' \<longrightarrow> mute n rc')"

lemma mute_update:
  "mute n rc \<Longrightarrow> rg_delete_flag rc' = rg_delete_flag rc \<Longrightarrow> rg_cb rc' = rg_cb rc \<Longrightarrow>
   calls_of (rg_log rc') = calls_of (rg_log rc) \<Longrightarrow> mute n rc'"
  by (simp add: mute_def)

lemma mute_drops:
  "mute n rc \<Longrightarrow> mute n (drop_transport rc)" "mute n rc \<Longrightarrow> mute n (drop_tp_sel rc)"
  "mute n rc \<Longrightarrow> mute n (cancel_timer rc)" "mute n rc \<Longrightarrow> mute n (swap_transport tp rc)"
  by (auto simp: mute_def drop_transport_def drop_tp_sel_def cancel_timer_def swap_transport_def out_def split: option.split)

lemma mute_destroy: "mute n rc \<Longrightarrow> stays_mute n (pjsip_regc_destroy rc)"
  using mute_drops(1) [OF mute_drops(2), of n rc]
  by (auto simp: stays_mute_def pjsip_regc_destroy_def live_def mute_def cancel_timer_def)

lemma mute_leave: "mute n rc \<Longrightarrow> stays_mute n (leave_busy rc)"
  using mute_destroy [of n "rc\<lparr>rg_busy_ctr := rg_busy_ctr rc - 1\<rparr>"]
  by (auto simp: leave_busy_def Let_def stays_mute_def mute_def)

lemma mute_call: "mute n rc \<Longrightarrow> call_callback env st code reason rd e cs un rc = Inr rc"
  by (simp add: mute_def call_callback_def)

lemma mute_builds:
  "mute n rc \<Longrightarrow> pjsip_regc_register env autoreg rc = Inr (st, m, rc') \<Longrightarrow> mute n rc'"
  by (auto simp: pjsip_regc_register_def live_def Let_def bind_res_Inr_iff add_bindings_def mute_def cancel_timer_def
      split: option.splits if_splits)

definition mute_sends :: "nat \<Rightarrow> send_fun \<Rightarrow> bool" where
  "mute_sends n send \<longleftrightarrow> (\<forall>msg rc. mute n rc \<longrightarrow> keeps_mute n (send msg rc))"

lemma mute_sending:
  assumes during: "\<And>rc. mute n rc \<Longrightarrow> stays_mute n (during rc)" and m: "mute n rc"
  shows "keeps_mute n (send_with st tp during msg rc)"
  unfolding keeps_mute_def
proof (intro allI impI)
  fix a rc' assume r: "send_with st tp during msg rc = Inr (a, rc')"
  show "mute n rc'"
  proof (cases "rg_has_tsx rc")
    case True
    with r m show ?thesis by (auto simp: send_with_def live_def split: if_splits)
  next
    case False
    with r obtain e msg' r1 where d: "during (out (RegSent msg' (sent_via rc)) (begin_send e rc)) = Inr r1"
      and l: "leave_busy (after_send st tp r1) = Inr rc'"
      by (auto simp: send_with_def live_def Let_def bind_res_Inr_iff split: if_splits option.splits hdr_val.splits)
    have "mute n (out (RegSent msg' (sent_via rc)) (begin_send e rc))" using m by (simp add: mute_def out_def begin_send_def)
    from during [OF this] d have "mute n r1" by (simp add: stays_mute_def)
    then have "mute n (after_send st tp r1)" using mute_drops(4) [of n r1] by (auto simp: after_send_def mute_def)
    from mute_leave [OF this] l show ?thesis by (simp add: stays_mute_def)
  qed
qed

lemma mute_or_report:
  "mute n rc \<Longrightarrow> or_report env ev rd un (st, rc) = Inr rc' \<Longrightarrow> mute n rc'"
  by (auto simp: or_report_def live_def mute_def split: if_splits)

lemma mute_challenge:
  assumes send: "mute_sends n send" and m: "mute n rc" and r: "on_challenge env ev upd send rc = Inr rc'"
  shows "mute n rc'"
proof -
  let ?rc = "rc\<lparr>rg_current_op := REGC_IDLE\<rparr>"
  let ?c = "if upd then replace_contacts ?rc (te_last_tx ev) else Inr (te_last_tx ev, ?rc)"
  from r obtain rd where e: "event_rdata ev = Inr rd" by (auto simp: on_challenge_def bind_res_Inr_iff)
  with r obtain msg r1 where c: "?c = Inr (msg, r1)"
    by (cases ?c) (auto simp: on_challenge_def Let_def split: if_splits)
  obtain st0 msg' where a: "re_auth_reinit env rd msg = (st0, msg')" by fastforce
  from r have "bind_res (if st0 = PJ_SUCCESS then send msg' r1 else Inr (st0, r1))
      (or_report env ev rd (rg_current_op rc = REGC_UNREGISTERING)) = Inr rc'"
    by (simp add: on_challenge_def e c a Let_def)
  then obtain st r2 where s: "(if st0 = PJ_SUCCESS then send msg' r1 else Inr (st0, r1)) = Inr (st, r2)"
    and o: "or_report env ev rd (rg_current_op rc = REGC_UNREGISTERING) (st, r2) = Inr rc'"
    by (auto simp: bind_res_Inr_iff)
  have "mute n r1" using c m by (auto simp: replace_contacts_def bind_res_Inr_iff Let_def mute_def split: if_splits)
  then have "mute n r2" using s send by (auto simp: mute_sends_def keeps_mute_def split: if_splits)
  from mute_or_report [OF this o] show ?thesis .
qed

lemma mute_callback:
  assumes send: "mute_sends n send" and m: "mute n rc"
  shows "stays_mute n (regc_tsx_callback env ev send rc)"
  unfolding stays_mute_def
proof (intro allI impI)
  fix rc' assume r: "regc_tsx_callback env ev send rc = Inr rc'"
  define r1 where "r1 = swap_transport (te_transport ev) (out RegAnswered (rc\<lparr>rg_busy_ctr := Suc (rg_busy_ctr rc), rg_has_tsx := False\<rparr>))"
  have "mute n (out RegAnswered (rc\<lparr>rg_busy_ctr := Suc (rg_busy_ctr rc), rg_has_tsx := False\<rparr>))"
    using m by (simp add: mute_def out_def)
  then have m1: "mute n r1" unfolding r1_def by (rule mute_drops)
  then have d: "rg_delete_flag r1" by (simp add: mute_def)
  have t: "tsx_stage env ev r1 = Inr (False, r1)" using d by (simp add: tsx_stage_def)
  from r obtain r2 where r2: "(if te_code ev = 407 \<or> te_code ev = 401 then on_challenge env ev False send r1
      else Inr (r1\<lparr>rg_current_op := REGC_IDLE\<rparr>)) = Inr r2" and l: "leave_busy r2 = Inr rc'"
    using d by (auto simp: regc_tsx_callback_def live_def Let_def r1_def [symmetric] t bind_res_Inr_iff split: if_splits)
  have "mute n r2"
  proof (cases "te_code ev = 407 \<or> te_code ev = 401")
    case True
    with r2 mute_challenge [OF send m1] show ?thesis by auto
  next
    case False
    with r2 m1 show ?thesis by (auto simp: mute_def)
  qed
  from mute_leave [OF this] l show "mute n rc'" by (simp add: stays_mute_def)
qed

lemma mute_net: "mute_sends n (pjsip_regc_send net)"
proof (induction net)
  case (Quiet st tp)
  have "stays_mute n (Inr (if st \<noteq> PJ_SUCCESS then out RegNotSent rc else rc))" if "mute n rc" for rc
    using that by (simp add: stays_mute_def mute_def out_def)
  from mute_sending [OF this] show ?case by (simp add: mute_sends_def)
next
  case (Sync st tp env ev net)
  from mute_sending [OF mute_callback [OF Sync.IH]] show ?case by (simp add: mute_sends_def)
qed

lemma mute_refresh: "mute n rc \<Longrightarrow> stays_mute n (regc_refresh_timer_cb env (pjsip_regc_send net) rc)"
  unfolding stays_mute_def
proof (intro allI impI)
  fix rc' assume m: "mute n rc" and r: "regc_refresh_timer_cb env (pjsip_regc_send net) rc = Inr rc'"
  define r0 where "r0 = (cancel_timer rc)\<lparr>rg_busy_ctr := Suc (rg_busy_ctr rc)\<rparr>"
  have m0: "mute n r0" using m by (simp add: r0_def mute_def cancel_timer_def)
  from r obtain st msg r1 st' r2 r3 where c: "pjsip_regc_register env True r0 = Inr (st, msg, r1)"
    and s: "(case msg of Some msg \<Rightarrow> pjsip_regc_send net msg r1 | None \<Rightarrow> Inr (st, r1)) = Inr (st', r2)"
    and q: "(if st' \<noteq> PJ_SUCCESS \<and> rg_cb r2
             then call_callback env st' 400 (re_strerror env st') None (-1) [] False r2 else Inr r2) = Inr r3"
    and l: "leave_busy r3 = Inr rc'"
    by (auto simp: regc_refresh_timer_cb_def live_def bind_res_Inr_iff Let_def r0_def [symmetric] split: if_splits)
  have "mute n r1" by (rule mute_builds [OF m0 c])
  then have "mute n r2" using s mute_net [of n net] by (cases msg) (auto simp: mute_sends_def keeps_mute_def)
  then have "mute n r3" using q by (auto simp: mute_def split: if_splits)
  from mute_leave [OF this] l show "mute n rc'" by (simp add: stays_mute_def)
qed

lemma mute_step: "mute n rc \<Longrightarrow> enabled e rc \<Longrightarrow> stays_mute n (regc_step e rc)"
  using mute_refresh mute_callback [OF mute_net] by (cases e) (auto simp: mute_def)

lemma mute_run: "mute n rc \<Longrightarrow> regc_run es rc = Inr rc' \<Longrightarrow> mute n rc'"
proof (induction es arbitrary: rc)
  case (Cons e es)
  show ?case
  proof (cases "enabled e rc")
    case True
    with Cons.prems(2) obtain r1 where r1: "regc_step e rc = Inr r1" "regc_run es r1 = Inr rc'" by (auto simp: bind_res_Inr_iff)
    with mute_step [OF Cons.prems(1) True] Cons.IH [of r1] show ?thesis by (simp add: stays_mute_def)
  next
    case False
    with Cons show ?thesis by simp
  qed
qed simp

section \<open>From creation on\<close>

definition regc_start :: "regc_env \<Rightarrow> string \<Rightarrow> string \<Rightarrow> string \<Rightarrow> string list \<Rightarrow> 32 word \<Rightarrow> (int \<times> regc) res" where
  "regc_start env srv from to contacts e =
     bind_res (pjsip_regc_create True True True 0 0 0 False) (\<lambda>(st, rc).
       case rc of None \<Rightarrow> Inl NullDeref | Some rc \<Rightarrow> pjsip_regc_init env srv from to contacts e rc)"

text \<open>The texts are URIs, the contacts no star, and the expiration is not the number kept for "none".\<close>

definition start_ok :: "regc_env \<Rightarrow> string \<Rightarrow> string \<Rightarrow> string \<Rightarrow> string list \<Rightarrow> 32 word \<Rightarrow> bool" where
  "start_ok env srv from to contacts e \<longleftrightarrow>
     parses_contacts (re_parser env) \<and> no_star (re_parser env) contacts \<and> sint e \<noteq> NOEXP \<and>
     (\<exists>u. parse_uri_of env srv False = Inr (Some u) \<and> target_ok u) \<and>
     (\<exists>f. parse_uri_of env from True = Inr (Some f) \<and> uri_whole f) \<and>
     (\<exists>t. parse_uri_of env to True = Inr (Some t) \<and> uri_whole t)"

lemma regc_created:
  "pjsip_regc_create True True True 0 0 0 False = Inr (PJ_SUCCESS, Some (regc_zero\<lparr>rg_cb := True, rg_expires := -1, rg_add_xuid_param := False\<rparr>))"
  by (simp add: pjsip_regc_create_def)

lemma started_settled:
  assumes start: "regc_start env srv from to contacts e = Inr (PJ_SUCCESS, rc)" and ok: "start_ok env srv from to contacts e"
  shows "settled 0 rc"
proof -
  define rc0 where "rc0 = regc_zero\<lparr>rg_cb := True, rg_expires := -1, rg_add_xuid_param := False\<rparr>"
  have c: "pjsip_regc_create True True True 0 0 0 False = Inr (PJ_SUCCESS, Some rc0)" by (simp add: regc_created rc0_def)
  have i: "pjsip_regc_init env srv from to contacts e rc0 = Inr (PJ_SUCCESS, rc)" using start by (simp add: regc_start_def c)
  then have "e \<noteq> 0" by (auto simp: pjsip_regc_init_def live_def split: if_splits)
  with init_ok [OF c, of env contacts e srv _ "from" _ to] ok i show ?thesis by (fastforce simp: start_ok_def)
qed

lemma run_append: "regc_run (es @ fs) rc = bind_res (regc_run es rc) (regc_run fs)"
proof (induction es arbitrary: rc)
  case (Cons e es)
  then show ?case by (cases "regc_step e rc") simp_all
qed simp

lemma gone_run: "regc_gone rc \<Longrightarrow> regc_run es rc = Inr rc"
proof (induction es)
  case (Cons e es)
  then have "\<not> enabled e rc" by (cases e) (auto simp: regc_gone_def)
  with Cons show ?case by simp
qed simp

lemma destroy_quiets:
  assumes s: "settled 0 rc"
  obtains rc' where "regc_run [Destroy] rc = Inr rc'" "settled 0 rc'" "calls_of (rg_log rc') = calls_of (rg_log rc)"
    "rg_freed rc' \<or> mute (calls_of (rg_log rc)) rc'"
proof -
  consider "rg_freed rc" | "\<not> rg_freed rc \<and> rg_delete_flag rc" | "enabled Destroy rc" by auto
  then show ?thesis
  proof cases
    case 1
    with s that [of rc] show ?thesis by auto
  next
    case 2
    then have "mute (calls_of (rg_log rc)) rc" using s by (simp add: settled_def regc_ok_def mute_def)
    with 2 s that [of rc] show ?thesis by auto
  next
    case 3
    from step_ok [OF s _ this] obtain rc' where rc': "pjsip_regc_destroy rc = Inr rc'" "settled 0 rc'" by auto
    have "calls_of (rg_log rc') = calls_of (rg_log rc) \<and> (rg_freed rc' \<or> mute (calls_of (rg_log rc)) rc')"
      using rc'(1) 3 by (auto simp: pjsip_regc_destroy_def live_def mute_def drop_transport_def drop_tp_sel_def cancel_timer_def out_def
          split: if_splits option.splits)
    with that [of rc'] rc' 3 show ?thesis by auto
  qed
qed

lemma regc_register_eq:
  assumes live: "\<not> rg_freed rc" and wf: "regc_wf rc" and url: "rg_srv_url rc = Some url"
    and env: "env_good env" and alloc: "re_alloc env = PJ_SUCCESS"
  shows "\<exists>auth. pjsip_regc_register env autoreg rc =
    Inr (PJ_SUCCESS,
      Some \<lparr>line = ReqLine pjsip_get_register_method url,
        hdrs = hd (base_hdrs env rc url) # rg_route_set rc @ tl (base_hdrs env rc url) @ auth @ rg_hdr_list rc @
          map contact_hdr_of (rg_contacts rc @ rg_removed rc) @
          (case rg_expires_hdr rc of None \<Rightarrow> [] | Some e \<Rightarrow> [pjsip_expires_hdr_create e]) @
          (case pjsip_endpt_get_capability (re_endpt env) PJSIP_H_ALLOW of None \<Rightarrow> [] | Some h \<Rightarrow> [h]),
        body = None\<rparr>,
      rc\<lparr>rg_expires_requested := 1, rg_removed := [], rg_timer := None, rg_auto_reg := autoreg\<rparr>)"
proof -
  define r1 where "r1 = rc\<lparr>rg_expires_requested := 1\<rparr>"
  have f: "rg_srv_url r1 = Some url" "rg_route_set r1 = rg_route_set rc" "rg_hdr_list r1 = rg_hdr_list rc"
    "rg_contacts r1 = rg_contacts rc" "rg_removed r1 = rg_removed rc" "rg_expires_hdr r1 = rg_expires_hdr rc"
    "base_hdrs env r1 url = base_hdrs env rc url" using url by (simp_all add: r1_def base_hdrs_def)
  have w1: "regc_wf r1" using wf by (simp add: r1_def regc_wf_def)
  let ?m = "\<lparr>line = ReqLine pjsip_get_register_method url, hdrs = base_hdrs env rc url, body = None\<rparr>"
  obtain auth where a: "re_auth_init env ?m = ?m\<lparr>hdrs := hdrs ?m @ auth\<rparr>" using env unfolding env_good_def by metis
  obtain v hs where b: "base_hdrs env rc url = v # hs" "h_type v = PJSIP_H_VIA" by (simp add: base_hdrs_def pjsip_via_hdr_create_def)
  have "pjsip_msg_find_hdr (?m\<lparr>hdrs := hdrs ?m @ auth\<rparr>) PJSIP_H_VIA None = Some 0"
    by (simp add: pjsip_msg_find_hdr_def find_start_def b)
  then have bv: "behind_via (rg_route_set rc) (re_auth_init env ?m) = ?m\<lparr>hdrs := v # rg_route_set rc @ hs @ auth\<rparr>"
    unfolding a behind_via_def by (simp add: b)
  have c: "create_request env r1 = Inr (PJ_SUCCESS, Some (?m\<lparr>hdrs := (v # rg_route_set rc @ hs @ auth) @ rg_hdr_list rc\<rparr>))"
    unfolding create_request_eq [OF w1 f(1) alloc] f bv by (simp add: Let_def)
  define ex where "ex = (case rg_expires_hdr rc of None \<Rightarrow> [] | Some e \<Rightarrow> [pjsip_expires_hdr_create e])"
  define al where "al = (case pjsip_endpt_get_capability (re_endpt env) PJSIP_H_ALLOW of None \<Rightarrow> [] | Some h \<Rightarrow> [h])"
  have w: "list_all hdr_wf ex" "list_all hdr_wf al"
    using allow_hdr [OF env, of PJSIP_H_ALLOW] fit_expires by (auto simp: ex_def al_def split: option.splits)
  have "pjsip_regc_register env autoreg rc =
    Inr (PJ_SUCCESS, Some (?m\<lparr>hdrs := v # rg_route_set rc @ hs @ auth @ rg_hdr_list rc @
        map contact_hdr_of (rg_contacts rc @ rg_removed rc) @ ex @ al\<rparr>),
      rc\<lparr>rg_expires_requested := 1, rg_removed := [], rg_timer := None, rg_auto_reg := autoreg\<rparr>)"
    using c w add_bindings_eq [OF w1] f live
    by (simp add: pjsip_regc_register_def live_def r1_def [symmetric] add_clones_eq ex_def [symmetric] al_def [symmetric] cancel_timer_def)
  then show ?thesis unfolding ex_def al_def b by auto
qed

text \<open>The hypothesis on answers is what the parser gives, but for the star and the one number.\<close>

lemma parsed_answer_ok:
  assumes env: "env_ok env" and parsed: "pjsip_parse_rdata env buf = Done r sc" "pr_msg r = Some m" and l: "line m = StatusLine code reason"
    and star: "\<And>h c. h \<in> set (hdrs m) \<Longrightarrow> h_val h = HContact c \<Longrightarrow> \<not> star c \<and> c_expires c \<noteq> NOEXP"
    and num: "\<And>h v. h \<in> set (hdrs m) \<Longrightarrow> h_val h = HInt v \<Longrightarrow> v \<noteq> NOEXP \<and> sint (word_of_int v :: 32 word) \<noteq> NOEXP"
  shows "answer_ok m"
proof -
  have g: "hdr_wf h \<and> hdr_shaped h" if "h \<in> set (hdrs m)" for h
    using parsed_notes [OF env parsed] that by (auto simp: list_all_iff hdr_good_def)
  have c: "contact_ok c" if "h \<in> set (hdrs m)" "h_val h = HContact c" for h c
    using g [OF that(1)] star [OF that] that(2) by (auto simp: hdr_wf_def contact_ok_def)
  have ct: "\<exists>c. h_val h = HContact c \<and> contact_ok c \<and> c_expires c \<noteq> NOEXP" if h: "h \<in> set (hdrs m)" "h_type h = PJSIP_H_CONTACT" for h
  proof -
    obtain x where "h_val h = HContact x" using g [OF h(1)] h(2) unfolding hdr_shaped_def by blast
    with c [OF h(1)] star [OF h(1)] show ?thesis by blast
  qed
  have iv: "\<exists>v. h_val h = HInt v \<and> v \<noteq> NOEXP \<and> sint (word_of_int v :: 32 word) \<noteq> NOEXP"
    if h: "h \<in> set (hdrs m)" "h_type h \<in> {PJSIP_H_EXPIRES, PJSIP_H_MIN_EXPIRES}" for h
  proof -
    obtain v where "h_val h = HInt v" using g [OF h(1)] h(2) unfolding hdr_shaped_def by blast
    with num [OF h(1)] show ?thesis by blast
  qed
  have "\<exists>v. h_val h = HInt v \<and> v \<noteq> NOEXP" if "h \<in> set (hdrs m)" "h_type h = PJSIP_H_EXPIRES" for h
    using iv [OF that(1)] that(2) by blast
  moreover have "\<exists>v. h_val h = HInt v \<and> sint (word_of_int v :: 32 word) \<noteq> NOEXP" if "h \<in> set (hdrs m)" "h_type h = PJSIP_H_MIN_EXPIRES" for h
    using iv [OF that(1)] that(2) by blast
  ultimately show ?thesis using l ct unfolding answer_ok_def by blast
qed

section \<open>A registration for the witnesses\<close>

definition sample_regc_env :: regc_env where
  "sample_regc_env =
     \<lparr>re_parser = sample_env, re_endpt = endpoint_new, re_alloc = PJ_SUCCESS, re_rport = True, re_uniq = (''c'', ''t''), re_rand = 1,
      re_xuid = \<lambda>i. [], re_check_contact = True, re_now = 0, re_strerror = \<lambda>s. [], re_auth_init = \<lambda>m. m,
      re_auth_reinit = \<lambda>rd m. (PJ_SUCCESS, m), re_cb = \<lambda>p. False, re_tsx_cb = \<lambda>p. (False, None)\<rparr>"

definition sample_srv :: sip_uri where
  "sample_srv = (pjsip_sip_uri_create False)\<lparr>host := ''s''\<rparr>"

definition sample_regc :: regc where
  "sample_regc =
     regc_zero\<lparr>rg_cb := True, rg_expires := -1, rg_str_srv_url := ''sip:s'', rg_srv_url := Some (UriSip sample_srv), rg_from_uri := ''<sip:s>'',
       rg_from_hdr := Some (fromto_with pjsip_from_hdr_create (UriNameAddr [] (Some (UriSip sample_srv)))),
       rg_to_hdr := Some (fromto_with pjsip_to_hdr_create (UriNameAddr [] (Some (UriSip sample_srv)))),
       rg_expires_hdr := Some 60, rg_delay_before_refresh := 5, rg_cid := ''c'', rg_cseq := 1\<rparr>"

text \<open>A 200 and a 403 to a request.\<close>

definition sample_answer :: "int \<Rightarrow> tsx_event" where
  "sample_answer code =
     \<lparr>te_code = code, te_text = [],
      te_rdata = Some (sample_register\<lparr>rx_msg := \<lparr>line = StatusLine code [], hdrs = [pjsip_expires_hdr_create 60], body = None\<rparr>\<rparr>),
      te_transport = Some 7, te_last_tx = \<lparr>line = ReqLine pjsip_get_register_method (UriSip sample_srv), hdrs = [pjsip_cseq_hdr_create], body = None\<rparr>\<rparr>"

definition sample_events :: "regc_event list" where
  "sample_events =
     [SetTsxCb True, SetTransport (Some 3), SetViaSentBy (Some (''h'', 5060)) None, AddHeaders [pjsip_max_fwd_hdr_create 70],
      Register sample_regc_env True (Quiet PJ_SUCCESS (Some 7)), Answer sample_regc_env (sample_answer 200) (Quiet PJ_SUCCESS None)]"

lemma sample_contact: "pe_find sample_env ''Contact'' = Some F_contact"
proof -
  have "NUL \<notin> set ''Contact''" "map_of hdr_names (lower_c ''Contact'') = Some F_contact" by code_simp+
  then show ?thesis by (simp add: sample_env_def sip_env_def find_handler_lookup)
qed

lemma sample_regc_env_good: "env_good sample_regc_env"
proof -
  have "\<exists>hs. list_all hdr_fit hs \<and> m = m\<lparr>hdrs := hdrs m @ hs\<rparr>" for m :: pjsip_msg by (rule exI [of _ "[]"]) simp
  then show ?thesis
    by (simp add: env_good_def sample_regc_env_def parses_contacts_def sample_env_ok sample_contact endpoint_new_def
        pjsip_max_fwd_hdr_create_def hdr_fit_def)
qed

lemma sample_texts:
  "parse_uri_of sample_regc_env ''sip:s'' False = Inr (Some (UriSip sample_srv))"
  "parse_uri_of sample_regc_env ''<sip:s>'' True = Inr (Some (UriNameAddr [] (Some (UriSip sample_srv))))"
proof -
  have h: "list_all HOST_SPEC ''s''" by code_simp
  have u: "uri_plain sample_srv" using h by (simp add: uri_plain_def sample_srv_def pjsip_sip_uri_create_def plain_def)
  have t: "sip_uri_text default_cfg IN_OTHER sample_srv = ''sip:s''"
    by (simp add: sip_uri_text_def sample_srv_def pjsip_sip_uri_create_def user_text_def host_text_def opt_text_def)
  have d: "display_plain []" by (simp add: display_plain_def)
  show "parse_uri_of sample_regc_env ''sip:s'' False = Inr (Some (UriSip sample_srv))"
    "parse_uri_of sample_regc_env ''<sip:s>'' True = Inr (Some (UriNameAddr [] (Some (UriSip sample_srv))))"
    using uri_text_parsed [OF u d, of int_parse_other_uri default_cfg]
    by (auto simp: t display_text_def opt_text_def parse_uri_of_def sample_regc_env_def sample_env_def sip_env_def res_of_def)
qed

lemma sample_start_ok: "start_ok sample_regc_env ''sip:s'' ''<sip:s>'' ''<sip:s>'' [] 60"
proof -
  have "target_ok (UriSip sample_srv)"
    by (simp add: target_ok_def uri_header_params_def sample_srv_def pjsip_sip_uri_create_def)
  moreover have "parses_contacts (re_parser sample_regc_env)" using sample_regc_env_good by (simp add: env_good_def)
  ultimately show ?thesis by (simp add: start_ok_def no_star_def sample_texts)
qed

lemma sample_started: "regc_start sample_regc_env ''sip:s'' ''<sip:s>'' ''<sip:s>'' [] 60 = Inr (PJ_SUCCESS, sample_regc)"
proof -
  have "(1 :: int) smod 0xFFFF = 1" by (simp add: signed_modulo_int_def)
  then have "fst (re_uniq sample_regc_env) = ''c''" "word_of_int (re_rand sample_regc_env smod 0xFFFF) = (1 :: 32 word)"
    by (simp_all add: sample_regc_env_def)
  then show ?thesis
    by (simp add: regc_start_def regc_created pjsip_regc_init_def live_def sample_texts Let_def set_contact_def set_expires_def
        sample_regc_def regc_zero_def)
qed

lemma sample_events_ok: "\<forall>e\<in>set sample_events. event_ok e"
  "event_ok (Answer sample_regc_env (sample_answer 403) (Quiet PJ_SUCCESS None))"
  by (simp_all add: sample_events_def sample_regc_env_good ev_ok_def sample_answer_def answer_ok_def needs_rdata_def msg_fit_def hdr_fit_def
      pjsip_expires_hdr_create_def pjsip_cseq_hdr_create_def pjsip_max_fwd_hdr_create_def hdr_wf_def)

section \<open>The properties\<close>



text \<open>
  C8: After \<open>pjsip_regc_destroy\<close> neither callback of the application is called again, be the one for every
  answer set (\<open>pjsip_regc_set_reg_tsx_cb\<close>) or not, whatever of the timer, the network and the registrar
  \<open>event_ok\<close> allows before and after.
\<close>

theorem regc_destroyed_silent:
  assumes start: "regc_start env srv from to contacts e = Inr (PJ_SUCCESS, rc)" and ok: "start_ok env srv from to contacts e"
    and es: "\<forall>ev\<in>set (es @ fs). event_ok ev"
  shows "\<exists>rc1 rc2. regc_run es rc = Inr rc1 \<and> regc_run (es @ Destroy # fs) rc = Inr rc2 \<and>
    calls_of (rg_log rc2) = calls_of (rg_log rc1)"
proof -
  from run_ok [OF started_settled [OF start ok], of es] es obtain rc1 where
    r1: "regc_run es rc = Inr rc1" "settled 0 rc1" by auto
  obtain rcd where d: "regc_run [Destroy] rc1 = Inr rcd" "settled 0 rcd" "calls_of (rg_log rcd) = calls_of (rg_log rc1)"
    "rg_freed rcd \<or> mute (calls_of (rg_log rc1)) rcd" using destroy_quiets [OF r1(2)] by blast
  from run_ok [OF d(2), of fs] es obtain rc2 where r2: "regc_run fs rcd = Inr rc2" by auto
  have "calls_of (rg_log rc2) = calls_of (rg_log rc1)"
  proof (cases "rg_freed rcd")
    case True
    then have "regc_gone rcd" using d(2) by (simp add: settled_def)
    from gone_run [OF this, of fs] r2 d(3) show ?thesis by simp
  next
    case False
    with d(4) mute_run [OF _ r2] show ?thesis by (auto simp: mute_def)
  qed
  moreover have "regc_run (es @ Destroy # fs) rc = Inr rc2"
    using run_append [of es "[Destroy] @ fs"] run_append [of "[Destroy]" fs rc1] r1(1) d(1) r2 by simp
  ultimately show ?thesis using r1(1) by blast
qed

theorem regc_destroyed_silent_witness:
  "\<exists>rc1 rc2. regc_run (butlast sample_events) sample_regc = Inr rc1 \<and>
     regc_run (butlast sample_events @ Destroy # [Answer sample_regc_env (sample_answer 403) (Quiet PJ_SUCCESS None)]) sample_regc = Inr rc2 \<and>
     calls_of (rg_log rc2) = calls_of (rg_log rc1)"
  by (rule regc_destroyed_silent [OF sample_started sample_start_ok]) (use sample_events_ok in \<open>auto dest: in_set_butlastD\<close>)

text \<open>
  C9: A registration that is destroyed is freed, at once when no transaction is under way, else when it
  calls back with anything but a challenge: its references to the transport selected and to the one used
  last are given back, its timer is stopped and no transaction is left to call back. What comes before, and
  that answer, are as \<open>event_ok\<close> says.
\<close>

theorem regc_destroyed_freed:
  assumes start: "regc_start env srv from to contacts e = Inr (PJ_SUCCESS, rc)" and ok: "start_ok env srv from to contacts e"
    and es: "\<forall>ev\<in>set es. event_ok ev" and ans: "event_ok (Answer env' ev net)" and code: "te_code ev \<notin> {401, 407}"
  shows "\<exists>rc'. regc_run (es @ [Destroy, Answer env' ev net]) rc = Inr rc' \<and> rg_freed rc' \<and>
    (\<forall>t. tp_refs t (rg_log rc') = 0) \<and> rg_timer rc' = None \<and> pending_of (rg_log rc') = 0"
proof -
  from run_ok [OF started_settled [OF start ok], of es] es obtain rc1 where
    r1: "regc_run es rc = Inr rc1" "settled 0 rc1" by auto
  obtain rcd where d: "regc_run [Destroy] rc1 = Inr rcd" "settled 0 rcd"
    "rg_freed rcd \<or> mute (calls_of (rg_log rc1)) rcd" using destroy_quiets [OF r1(2)] by blast
  have whole: "regc_run (es @ [Destroy, Answer env' ev net]) rc = regc_run [Answer env' ev net] rcd"
    using run_append [of es "[Destroy] @ [Answer env' ev net]"] run_append [of "[Destroy]" "[Answer env' ev net]" rc1] r1(1) d(1)
    by simp
  show ?thesis
  proof (cases "rg_freed rcd")
    case True
    then have "regc_gone rcd" using d(2) by (simp add: settled_def)
    with gone_run [OF this] whole True show ?thesis by (auto simp: regc_gone_def)
  next
    case False
    then have m: "mute (calls_of (rg_log rc1)) rcd" and k: "regc_ok 0 rcd" and t: "rg_has_tsx rcd"
      using d(2,3) by (auto simp: settled_def mute_def)
    have n: "net_ok net" "env_good env'" "ev_ok ev" using ans by auto
    from tsx_callback_ok [OF net_sends_ok [OF n(1)] n(2,3) k t] obtain rc' where
      c: "regc_tsx_callback env' ev (pjsip_regc_send net) rcd = Inr rc'" "settled 0 rc'"
        "te_code ev \<notin> {401, 407} \<and> (te_code ev = 423 \<longrightarrow> rg_delete_flag rcd) \<and> \<not> rg_freed rc' \<longrightarrow> \<not> rg_has_tsx rc'" by blast
    have "mute (calls_of (rg_log rc1)) rc'" using mute_callback [OF mute_net m] c(1) by (simp add: stays_mute_def)
    then have "rg_freed rc'" using c(2,3) code m by (auto simp: settled_def mute_def split: if_splits)
    moreover from this have "regc_gone rc'" using c(2) by (simp add: settled_def)
    moreover have "enabled (Answer env' ev net) rcd" using k t by (simp add: regc_ok_def)
    ultimately show ?thesis using whole c(1) by (auto simp: regc_gone_def)
  qed
qed

theorem regc_destroyed_freed_witness:
  "\<exists>rc'. regc_run ([SetTransport (Some 3), Register sample_regc_env True (Quiet PJ_SUCCESS (Some 7))] @
      [Destroy, Answer sample_regc_env (sample_answer 403) (Quiet PJ_SUCCESS None)]) sample_regc = Inr rc' \<and>
     rg_freed rc' \<and> (\<forall>t. tp_refs t (rg_log rc') = 0) \<and> rg_timer rc' = None \<and> pending_of (rg_log rc') = 0"
  by (rule regc_destroyed_freed [OF sample_started sample_start_ok _ sample_events_ok(2)])
    (use sample_regc_env_good in \<open>simp_all add: sample_answer_def\<close>)

text \<open>
  The REGISTER a registration builds: the method and the server's URI; its Via, the routes, the
  endpoint's headers, From, To, Call-ID and CSeq, what the authentication session and the application add;
  the contacts, those to be removed (with an expiration of zero), Expires when it has changed, and Allow.
  The contacts to be removed are forgotten and the timer is stopped.
\<close>

theorem register_request:
  assumes live: "\<not> rg_freed rc" and wf: "regc_wf rc" and url: "rg_srv_url rc = Some url"
    and env: "env_good env" and alloc: "re_alloc env = PJ_SUCCESS"
  shows "\<exists>auth. pjsip_regc_register env autoreg rc =
    Inr (PJ_SUCCESS,
      Some \<lparr>line = ReqLine pjsip_get_register_method url,
        hdrs = hd (base_hdrs env rc url) # rg_route_set rc @ tl (base_hdrs env rc url) @ auth @ rg_hdr_list rc @
          map contact_hdr_of (rg_contacts rc @ rg_removed rc) @
          (case rg_expires_hdr rc of None \<Rightarrow> [] | Some e \<Rightarrow> [pjsip_expires_hdr_create e]) @
          (case pjsip_endpt_get_capability (re_endpt env) PJSIP_H_ALLOW of None \<Rightarrow> [] | Some h \<Rightarrow> [h]),
        body = None\<rparr>,
      rc\<lparr>rg_expires_requested := 1, rg_removed := [], rg_timer := None, rg_auto_reg := autoreg\<rparr>)"
  using regc_register_eq [OF assms] .

theorem register_request_witness:
  "\<exists>msg rc. pjsip_regc_register sample_regc_env True sample_regc = Inr (PJ_SUCCESS, Some msg, rc) \<and>
     line msg = ReqLine pjsip_get_register_method (UriSip sample_srv) \<and> rg_auto_reg rc"
proof -
  have live: "\<not> rg_freed sample_regc" by (simp add: sample_regc_def regc_zero_def)
  then have "regc_wf sample_regc" using started_settled [OF sample_started sample_start_ok] by (simp add: settled_def regc_ok_def)
  from register_request [OF live this _ sample_regc_env_good, of "UriSip sample_srv" True] show ?thesis
    by (auto simp: sample_regc_def sample_regc_env_def)
qed



end
