(* ===== verification/RegisterClient.thy ===== *)
theory RegisterClient
  imports RegcLaws GlobalCtl SipMessage
begin

text \<open>
  The service that registers with the upper-level domains (\<open>SipSubService/src/SipRegister.cpp\<close>): every round
  of its timer makes a registration object for each domain that is not registered and sends its REGISTER;
  the callback marks the domain on a 200. The object is that of \<open>Regc\<close>, the texts are those of
  \<open>SipMessage\<close>. Between the rounds the objects get their answers and their timers fire.
\<close>

section \<open>One registration\<close>

text \<open>\<open>SipMessage\<close> filled by \<open>gbRegister\<close>.\<close>

definition gb_message :: "sub_local_conf \<Rightarrow> SupDomainInfo \<Rightarrow> sip_message res" where
  "gb_message conf node =
     bind_res (setFrom (m_sipId conf) (m_sipIp conf) SipMessage_new) (\<lambda>msg.
     bind_res (setTo (m_sipId conf) (m_sipIp conf) msg) (\<lambda>msg.
     bind_res (if protocal node = 1
               then setUrl (sipId node) (addrIp node) (sipPort node) ''tcp'' msg
               else setUrl (sipId node) (addrIp node) (sipPort node) ''udp'' msg) (\<lambda>msg.
       setContact (m_sipId conf) (m_sipIp conf) (m_sipPort conf) msg)))"

text \<open>
  What the library finds at one call: the statuses of the parts of the object, the surroundings, and what
  becomes of the request.
\<close>

record attempt =
  at_lock :: int
  at_atomic :: int
  at_auth :: int
  at_env :: regc_env
  at_net :: net

text \<open>The result is 0 or -1; the object is nowhere kept, here it is returned to follow it.\<close>

definition gbRegister :: "sub_local_conf \<Rightarrow> attempt \<Rightarrow> SupDomainInfo \<Rightarrow> (int \<times> regc option) res" where
  "gbRegister conf at node =
     (let give_up = (\<lambda>rc. bind_res (pjsip_regc_destroy rc) (\<lambda>rc. Inr (-1, Some rc))) in
      bind_res (gb_message conf node) (\<lambda>msg.
      bind_res (pjsip_regc_create True True True (at_lock at) (at_atomic at) (at_auth at) False) (\<lambda>(status, rc).
        case rc of None \<Rightarrow> Inr (-1, None) | Some rc \<Rightarrow>
      bind_res (pjsip_regc_init (at_env at) (requestUrl msg) (fromHeader msg) (toHeader msg) [contact msg]
                  (word_of_int (expires node)) rc) (\<lambda>(status, rc).
        if status \<noteq> PJ_SUCCESS then give_up rc else
      bind_res (pjsip_regc_register (at_env at) True rc) (\<lambda>(status, tdata, rc).
        case tdata of None \<Rightarrow> give_up rc | Some tdata \<Rightarrow>
      bind_res (pjsip_regc_send (at_net at) tdata rc) (\<lambda>(status, rc).
        if status \<noteq> PJ_SUCCESS then give_up rc else Inr (0, Some rc)))))))"

definition client_cb :: "regc_cbparam \<Rightarrow> SupDomainInfo \<Rightarrow> SupDomainInfo" where
  "client_cb param node = (if cp_code param = 200 then node\<lparr>registered := True\<rparr> else node)"

section \<open>The service\<close>

text \<open>The domains, and every object made so far with the domain its token points to.\<close>

record reg_client =
  rl_domains :: "SupDomainInfo list"
  rl_regcs :: "(nat \<times> regc) list"

fun callbacks :: "regc_out list \<Rightarrow> regc_cbparam list" where
  "callbacks [] = []"
| "callbacks (RegCallback p # es) = p # callbacks es"
| "callbacks (e # es) = callbacks es"

text \<open>The calls of \<open>client_cb\<close> while the log of an object of domain \<open>i\<close> grew.\<close>

definition deliver :: "nat \<Rightarrow> regc_out list \<Rightarrow> reg_client \<Rightarrow> reg_client" where
  "deliver i es cl = cl\<lparr>rl_domains := (rl_domains cl)[i := fold client_cb (callbacks es) (rl_domains cl ! i)]\<rparr>"

definition add_regc :: "nat \<Rightarrow> regc option \<Rightarrow> reg_client \<Rightarrow> reg_client" where
  "add_regc i rc cl =
     (case rc of None \<Rightarrow> cl | Some rc \<Rightarrow> deliver i (rg_log rc) (cl\<lparr>rl_regcs := rl_regcs cl @ [(i, rc)]\<rparr>))"

fun register_domains :: "sub_local_conf \<Rightarrow> (nat \<Rightarrow> attempt) \<Rightarrow> nat list \<Rightarrow> reg_client \<Rightarrow> reg_client res" where
  "register_domains conf at [] cl = Inr cl"
| "register_domains conf at (i # is) cl =
     (if registered (rl_domains cl ! i) then register_domains conf at is cl
      else bind_res (gbRegister conf (at i) (rl_domains cl ! i)) (\<lambda>(ret, rc). register_domains conf at is (add_regc i rc cl)))"

definition RegisterProc :: "sub_local_conf \<Rightarrow> (nat \<Rightarrow> attempt) \<Rightarrow> reg_client \<Rightarrow> reg_client res" where
  "RegisterProc conf at cl = register_domains conf at [0..<length (rl_domains cl)] cl"

text \<open>An object gets its answer, or its timer fires; nothing else happens to it, the service has no pointer to it.\<close>

fun of_library :: "regc_event \<Rightarrow> bool" where
  "of_library (Fire env net) = True"
| "of_library (Answer env ev net) = True"
| "of_library e = False"

datatype client_event = Round "nat \<Rightarrow> attempt" | Happens nat regc_event

fun client_step :: "sub_local_conf \<Rightarrow> client_event \<Rightarrow> reg_client \<Rightarrow> reg_client res" where
  "client_step conf (Round at) cl = RegisterProc conf at cl"
| "client_step conf (Happens k e) cl =
     (if k < length (rl_regcs cl) \<and> of_library e \<and> enabled e (snd (rl_regcs cl ! k))
      then bind_res (regc_step e (snd (rl_regcs cl ! k))) (\<lambda>rc.
             Inr (deliver (fst (rl_regcs cl ! k)) (drop (length (rg_log (snd (rl_regcs cl ! k)))) (rg_log rc))
                    (cl\<lparr>rl_regcs := (rl_regcs cl)[k := (fst (rl_regcs cl ! k), rc)]\<rparr>)))
      else Inr cl)"

fun client_run :: "sub_local_conf \<Rightarrow> client_event list \<Rightarrow> reg_client \<Rightarrow> reg_client res" where
  "client_run conf [] cl = Inr cl"
| "client_run conf (e # es) cl = bind_res (client_step conf e cl) (client_run conf es)"

section \<open>Its texts are the URIs meant\<close>

definition word_text :: "string \<Rightarrow> bool" where
  "word_text s \<longleftrightarrow> s \<noteq> [] \<and> list_all isalnum_c s"

definition host_name :: "string \<Rightarrow> bool" where
  "host_name s \<longleftrightarrow> s \<noteq> [] \<and> list_all HOST_SPEC s"

definition gb_uri :: "string \<Rightarrow> string \<Rightarrow> int \<Rightarrow> string \<Rightarrow> sip_uri" where
  "gb_uri i h p t = (pjsip_sip_uri_create False)\<lparr>user := i, host := h, port := p, transport_param := t\<rparr>"

lemma alnum_specs: "isalnum_c c \<Longrightarrow> USER_SPEC c \<and> USER_SPEC_LENIENT c \<and> PARAM_CHAR_SPEC c"
  by (simp add: USER_SPEC_def USER_SPEC_LENIENT_def PARAM_CHAR_SPEC_def cis_def)

lemma alnum_plain: "list_all isalnum_c s \<Longrightarrow> plain s"
proof -
  have "\<not> isalnum_c (CHR ''%'')" by code_simp
  then show "list_all isalnum_c s \<Longrightarrow> plain s" by (auto simp: plain_def list_all_iff)
qed

lemma gb_uri_plain:
  assumes "word_text i" and "host_name h" and "0 \<le> p" and "p \<le> 65535" and "list_all isalnum_c t"
  shows "uri_plain (gb_uri i h p t)"
  using assms by (simp add: uri_plain_def gb_uri_def pjsip_sip_uri_create_def word_text_def host_name_def alnum_plain)

lemma gb_uri_text:
  assumes "word_text i" and "host_name h" and "0 \<le> p" and "p \<le> 65535" and "list_all isalnum_c t"
  shows "sip_uri_text cfg IN_OTHER (gb_uri i h p t) =
    ''sip:'' @ i @ ''@'' @ h @ opt_text (p \<noteq> 0) ('':'' @ show_int p) @ opt_text (t \<noteq> []) ('';transport='' @ t)"
proof -
  have "escape spec i = i" if "spec = USER_SPEC \<or> spec = USER_SPEC_LENIENT" for spec
    using that assms(1) alnum_specs by (intro escape_id) (auto simp: word_text_def list_all_iff)
  moreover have "escape PARAM_CHAR_SPEC t = t"
    using assms(5) alnum_specs by (intro escape_id) (auto simp: list_all_iff)
  moreover have "CHR '':'' \<notin> set h"
  proof -
    have "\<not> HOST_SPEC (CHR '':'')" by code_simp
    then show ?thesis using assms(2) by (auto simp: host_name_def list_all_iff)
  qed
  moreover have "ulong_of p = nat p" using assms(3,4) by (simp add: ulong_of_def mod_pos_pos_trivial)
  ultimately show ?thesis using assms(1,3)
    by (auto simp: sip_uri_text_def user_text_def host_text_def gb_uri_def pjsip_sip_uri_create_def opt_text_def word_text_def show_int_def)
qed

lemma own_text:
  assumes "word_text i" and "host_name h"
  shows "user_at i h = display_text [] @ ''<'' @ sip_uri_text cfg IN_OTHER (gb_uri i h 0 []) @ ''>''"
  using gb_uri_text [OF assms, of 0 "[]" cfg] by (simp add: user_at_def display_text_def opt_text_def)

lemma contact_parsed:
  assumes find: "pe_find penv ''Contact'' = Some F_contact" and uh: "sip_handlers (pe_uris penv)"
    and u: "word_text i" "host_name h" "0 \<le> p" "p \<le> 65535"
  shows "parse_contact penv (sip_uri_text cfg IN_OTHER (gb_uri i h p [])) =
    Inr (Some (contact0\<lparr>c_uri := Some (UriNameAddr [] (Some (UriSip (gb_uri i h p []))))\<rparr>))"
proof -
  let ?u = "gb_uri i h p []"
  let ?T = "sip_uri_text cfg IN_OTHER ?u"
  let ?c = "contact0\<lparr>c_uri := Some (UriNameAddr [] (Some (UriSip ?u)))\<rparr>"
  define sc where "sc = \<lparr>sc_rest = ?T, sc_eos = NUL, sc_end = length ?T, sc_line = 1, sc_start_line = 0, sc_skip_ws = PJ_SCAN_AUTOSKIP_WS_HEADER\<rparr>"
  have s: "sc_rest sc = ?T" "sc_eos sc = NUL" by (simp_all add: sc_def)
  obtain v where v: "?T = CHR ''s'' # v" using gb_uri_text [OF u, of "[]" cfg] by simp
  have cur: "cur sc = CHR ''s''" using s v by (simp add: cur_of_def)
  have "pj_scan_skip_whitespace sc = Done () sc"
    by (rule skip_whitespace_stops) (use s cur in \<open>simp_all add: PJ_SCAN_IS_SPACE_def PJ_SCAN_IS_NEWLINE_def\<close>)
  then have init: "pj_scan_init ?T NUL PJ_SCAN_AUTOSKIP_WS_HEADER = Done () sc" by (simp add: pj_scan_init_def sc_def [symmetric])
  have plain: "uri_plain ?u" using gb_uri_plain [OF u] by simp
  have bare: "params_text ?u = []" "hparams_text ?u = []"
    by (simp_all add: params_text_def hparams_text_def url_params_def gb_uri_def pjsip_sip_uri_create_def)
  define fin where "fin = sc\<lparr>sc_rest := []\<rparr>"
  have f: "sc_rest fin = []" "sc_eos fin = NUL" by (simp_all add: fin_def s)
  have "int_parse_uri_or_name_addr (pe_uris penv) True True sc = Done (UriNameAddr [] (Some (UriSip ?u))) fin"
    unfolding fin_def by (rule bare_uri_parsed [OF uh plain bare s(2,1)])
  then have item: "contact_item (pe_uris penv) sc = Done (pjsip_contact_hdr_create\<lparr>h_val := HContact ?c\<rparr>) fin"
    using cur by (simp add: contact_item_def if_p_def seq_def ret_def int_parse_contact_param_def while_do_def f cur_of_def)
  then have "parse_hdr_contact (pe_uris penv) (parse_ctx0 False) sc =
      ((parse_ctx0 False)\<lparr>pc_hdrs := pc_hdrs (parse_ctx0 False) @ [pjsip_contact_hdr_create\<lparr>h_val := HContact ?c\<rparr>]\<rparr>, Done () fin)"
    by (simp add: parse_hdr_contact_def hdrs_p_def comma_list_def seq_def ret_def while_do_def f cur_of_def parse_hdr_end_def if_p_def
        pj_scan_is_eof_def if_rdata_def parse_ctx0_def)
  then show ?thesis
    by (simp add: parse_contact_def pjsip_parse_hdr_def find on_packet_def init res_of_def contact_of_def parse_ctx0_def)
qed

section \<open>The object of a domain\<close>

definition gb_conf_ok :: "sub_local_conf \<Rightarrow> bool" where
  "gb_conf_ok conf \<longleftrightarrow>
     word_text (m_sipId conf) \<and> host_name (m_sipIp conf) \<and> length (m_sipId conf) + length (m_sipIp conf) \<le> 98 \<and>
     0 < m_sipPort conf \<and> m_sipPort conf \<le> 65535"

definition gb_node_ok :: "SupDomainInfo \<Rightarrow> bool" where
  "gb_node_ok node \<longleftrightarrow>
     word_text (sipId node) \<and> host_name (addrIp node) \<and> length (sipId node) + length (addrIp node) \<le> 95 \<and>
     0 < sipPort node \<and> sipPort node \<le> 65535 \<and> 0 < expires node \<and> expires node < 2 ^ 31 \<and> expires node \<noteq> NOEXP"

text \<open>The client's callback destroys nothing, and memory is there.\<close>

definition client_env :: "regc_env \<Rightarrow> bool" where
  "client_env env \<longleftrightarrow>
     env_good env \<and> (\<exists>tel. pe_uris (re_parser env) = endpt_uri_handlers tel) \<and> re_alloc env = PJ_SUCCESS \<and> (\<forall>p. \<not> re_cb env p)"

definition server_uri :: "SupDomainInfo \<Rightarrow> sip_uri" where
  "server_uri node = gb_uri (sipId node) (addrIp node) (sipPort node) (if protocal node = 1 then ''tcp'' else ''udp'')"

definition own_addr :: "sub_local_conf \<Rightarrow> pj_uri" where
  "own_addr conf = UriNameAddr [] (Some (UriSip (gb_uri (m_sipId conf) (m_sipIp conf) 0 [])))"

definition own_contact :: "sub_local_conf \<Rightarrow> contact_hdr" where
  "own_contact conf = contact0\<lparr>c_uri := Some (UriNameAddr [] (Some (UriSip (gb_uri (m_sipId conf) (m_sipIp conf) (m_sipPort conf) []))))\<rparr>"

abbreviation url_text :: "sip_uri \<Rightarrow> string" where
  "url_text u \<equiv> sip_uri_text default_cfg IN_OTHER u"

definition gb_texts :: "sub_local_conf \<Rightarrow> SupDomainInfo \<Rightarrow> sip_message" where
  "gb_texts conf node =
     \<lparr>fromHeader = user_at (m_sipId conf) (m_sipIp conf), toHeader = user_at (m_sipId conf) (m_sipIp conf),
      requestUrl = url_text (server_uri node),
      contact = url_text (gb_uri (m_sipId conf) (m_sipIp conf) (m_sipPort conf) [])\<rparr>"

definition gb_regc :: "regc_env \<Rightarrow> sub_local_conf \<Rightarrow> SupDomainInfo \<Rightarrow> regc" where
  "gb_regc env conf node =
     regc_zero\<lparr>rg_cb := True, rg_expires := -1, rg_str_srv_url := requestUrl (gb_texts conf node),
       rg_srv_url := Some (UriSip (server_uri node)), rg_from_uri := fromHeader (gb_texts conf node),
       rg_from_hdr := Some (fromto_with pjsip_from_hdr_create (own_addr conf)),
       rg_to_hdr := Some (fromto_with pjsip_to_hdr_create (own_addr conf)),
       rg_contacts := [own_contact conf], rg_expires_hdr := Some (expires node),
       rg_delay_before_refresh := word_of_int DELAY_BEFORE_REFRESH, rg_cid := fst (re_uniq env),
       rg_cseq := word_of_int (re_rand env smod 0xFFFF)\<rparr>"

lemma gb_message_eq:
  assumes c: "gb_conf_ok conf" and n: "gb_node_ok node"
  shows "gb_message conf node = Inr (gb_texts conf node)"
proof -
  have u: "url_text (server_uri node) = ''sip:'' @ sipId node @ ''@'' @ addrIp node @ '':'' @ show_int (sipPort node) @
      '';transport='' @ (if protocal node = 1 then ''tcp'' else ''udp'')"
  proof -
    have "list_all isalnum_c (if protocal node = 1 then ''tcp'' else ''udp'')" by (cases "protocal node = 1"; simp; code_simp)
    from gb_uri_text [OF _ _ _ _ this, of "sipId node" "addrIp node" "sipPort node" default_cfg] n show ?thesis
      by (simp add: server_uri_def gb_node_ok_def opt_text_def)
  qed
  have v: "url_text (gb_uri (m_sipId conf) (m_sipIp conf) (m_sipPort conf) []) =
      ''sip:'' @ m_sipId conf @ ''@'' @ m_sipIp conf @ '':'' @ show_int (m_sipPort conf)"
    using gb_uri_text [of "m_sipId conf" "m_sipIp conf" "m_sipPort conf" "[]" default_cfg] c
    by (simp add: gb_conf_ok_def opt_text_def)
  have len: "length (sipId node) + length (addrIp node) + length ''tcp'' \<le> 98" "length (m_sipId conf) + length (m_sipIp conf) \<le> 110"
    "length (sipId node) + length (addrIp node) + length ''udp'' \<le> 98" "length (m_sipId conf) + length (m_sipIp conf) \<le> 120"
    using c n by (simp_all add: gb_conf_ok_def gb_node_ok_def)
  have port: "- (2 ^ 31) \<le> sipPort node" "sipPort node < 2 ^ 31" "- (2 ^ 31) \<le> m_sipPort conf" "m_sipPort conf < 2 ^ 31"
    using c n by (simp_all add: gb_conf_ok_def gb_node_ok_def)
  let ?f = "SipMessage_new\<lparr>fromHeader := user_at (m_sipId conf) (m_sipIp conf)\<rparr>"
  let ?t = "?f\<lparr>toHeader := user_at (m_sipId conf) (m_sipIp conf)\<rparr>"
  have "setFrom (m_sipId conf) (m_sipIp conf) SipMessage_new = Inr ?f" "setTo (m_sipId conf) (m_sipIp conf) ?f = Inr ?t"
    using len(4) by (simp_all add: setFrom_iff setTo_iff)
  then show ?thesis
    unfolding gb_message_def
    by (simp add: setUrl_fits [OF len(1) port(1,2)] setUrl_fits [OF len(3) port(1,2)] setContact_fits [OF len(2) port(3,4)]
        gb_texts_def u v SipMessage_new_def del: append.simps)
qed

lemma from_value: "h_val pjsip_from_hdr_create = HFromTo fromto0 \<and> h_val pjsip_to_hdr_create = HFromTo fromto0"
  by (simp add: pjsip_from_hdr_create_def pjsip_to_hdr_create_def)

lemma gb_regc_wf:
  assumes c: "gb_conf_ok conf" and n: "gb_node_ok node"
  shows "regc_wf (gb_regc env conf node)"
proof -
  have "target_ok (UriSip (server_uri node))"
    by (simp add: target_ok_def uri_header_params_def server_uri_def gb_uri_def pjsip_sip_uri_create_def)
  moreover have "expires node \<noteq> NOEXP" using n by (simp add: gb_node_ok_def)
  ultimately show ?thesis
    by (simp add: regc_wf_def gb_regc_def regc_zero_def fromto_with_def hdr_wf_def opt_uri_whole_def own_addr_def contact_ok_def
        own_contact_def contact0_def)
qed

lemma gb_regc_ok:
  assumes "gb_conf_ok conf" and "gb_node_ok node"
  shows "regc_ok 0 (gb_regc env conf node)"
  using gb_regc_wf [OF assms] by (simp add: regc_ok_def) (simp add: gb_regc_def regc_zero_def)

lemma gb_start:
  assumes c: "gb_conf_ok conf" and n: "gb_node_ok node" and e: "client_env env"
  shows "pjsip_regc_init env (requestUrl (gb_texts conf node)) (fromHeader (gb_texts conf node)) (toHeader (gb_texts conf node))
      [contact (gb_texts conf node)] (word_of_int (expires node)) (regc_zero\<lparr>rg_cb := True, rg_expires := -1, rg_add_xuid_param := False\<rparr>) =
    Inr (PJ_SUCCESS, gb_regc env conf node)"
proof -
  obtain tel where tel: "pe_uris (re_parser env) = endpt_uri_handlers tel" and find: "pe_find (re_parser env) ''Contact'' = Some F_contact"
    using e by (auto simp: client_env_def env_good_def parses_contacts_def)
  have own: "word_text (m_sipId conf)" "host_name (m_sipIp conf)" and port: "0 \<le> m_sipPort conf" "m_sipPort conf \<le> 65535"
    using c by (simp_all add: gb_conf_ok_def)
  have "list_all isalnum_c (if protocal node = 1 then ''tcp'' else ''udp'')" by (cases "protocal node = 1"; simp; code_simp)
  then have srv: "uri_plain (server_uri node)"
    unfolding server_uri_def by (intro gb_uri_plain) (use n in \<open>simp_all add: gb_node_ok_def\<close>)
  have me: "uri_plain (gb_uri (m_sipId conf) (m_sipIp conf) 0 [])" by (rule gb_uri_plain [OF own]) simp_all
  have d: "display_plain []" by (simp add: display_plain_def)
  have p1: "parse_uri_of env (url_text (server_uri node)) False = Inr (Some (UriSip (server_uri node)))"
    using uri_text_parsed [OF srv d, of tel default_cfg] by (auto simp: parse_uri_of_def tel res_of_def)
  have p2: "parse_uri_of env (user_at (m_sipId conf) (m_sipIp conf)) True = Inr (Some (own_addr conf))"
    using uri_text_parsed [OF me d, of tel default_cfg]
    by (auto simp: parse_uri_of_def tel res_of_def own_text [OF own, of default_cfg] own_addr_def)
  have p3: "parse_contact (re_parser env) (url_text (gb_uri (m_sipId conf) (m_sipIp conf) (m_sipPort conf) [])) = Inr (Some (own_contact conf))"
    unfolding own_contact_def by (rule contact_parsed [OF find _ own port]) (simp add: tel endpt_sip_handlers)
  let ?e = "word_of_int (expires node) :: 32 word"
  have ex: "sint ?e = expires node" using n by (simp add: gb_node_ok_def sint_sbintrunc' signed_take_bit_int_eq_self)
  then have "sint ?e \<noteq> sint (0 :: 32 word)" "sint ?e \<noteq> sint (-1 :: 32 word)" using n by (simp_all add: gb_node_ok_def)
  then have e0: "?e \<noteq> 0" "?e \<noteq> -1" by metis+
  show ?thesis
    using p1 p2 p3 e0 ex
    by (simp add: pjsip_regc_init_def live_def gb_texts_def Let_def set_contact_def add_xuid_def set_expires_def
        gb_regc_def regc_zero_def)
qed

section \<open>Sending\<close>

lemma cseq_set_fit:
  assumes "msg_fit msg" and "i < length (hdrs msg)" and "h_type (hdrs msg ! i) = PJSIP_H_CSEQ"
  shows "msg_fit (msg\<lparr>hdrs := (hdrs msg)[i := (hdrs msg ! i)\<lparr>h_val := HCseq n m\<rparr>]\<rparr>)"
proof -
  have "list_all hdr_fit ((hdrs msg)[i := (hdrs msg ! i)\<lparr>h_val := HCseq n m\<rparr>])"
    using assms set_update_subset_insert [of "hdrs msg" i] by (fastforce simp: msg_fit_def list_all_iff hdr_fit_def)
  moreover have "\<exists>h\<in>set ((hdrs msg)[i := (hdrs msg ! i)\<lparr>h_val := HCseq n m\<rparr>]). h_type h = PJSIP_H_CSEQ"
    using assms(2,3) by (intro bexI [of _ "(hdrs msg ! i)\<lparr>h_val := HCseq n m\<rparr>"]) (simp_all add: set_update_memI)
  ultimately show ?thesis by (simp add: msg_fit_def list_ex_iff)
qed

lemma other_kept:
  assumes "h \<in> set hs" and "i < length hs" and "h_type (hs ! i) = t" and "h_type h \<noteq> t"
  shows "h \<in> set (hs[i := x])"
proof -
  obtain j where "j < length hs" "hs ! j = h" using assms(1) by (auto simp: in_set_conv_nth)
  moreover from this assms(3,4) have "i \<noteq> j" by auto
  ultimately have "j < length (hs[i := x])" "hs[i := x] ! j = h" by simp_all
  then show ?thesis using nth_mem by metis
qed

text \<open>A request that is taken and not yet answered.\<close>

lemma quiet_send:
  assumes fit: "msg_fit msg" and rc: "\<not> rg_freed rc" "\<not> rg_has_tsx rc" "rg_busy_ctr rc = 0" "\<not> rg_delete_flag rc" "rg_last_transport rc = None"
  shows "\<exists>msg' rc'. pjsip_regc_send (Quiet PJ_SUCCESS tp) msg rc = Inr (PJ_SUCCESS, rc') \<and>
    rg_log rc' = rg_log rc @ RegSent msg' (sent_via rc) # (case tp of None \<Rightarrow> [] | Some t \<Rightarrow> [TpAddRef t]) \<and>
    \<not> rg_freed rc' \<and> rg_has_tsx rc' \<and> line msg' = line msg \<and>
    (\<forall>h\<in>set (hdrs msg). h_type h \<noteq> PJSIP_H_CSEQ \<longrightarrow> h \<in> set (hdrs msg'))"
proof -
  obtain i where i: "pjsip_msg_find_hdr msg PJSIP_H_CSEQ None = Some i"
    using fit find_hdr_none [of msg PJSIP_H_CSEQ] by (auto simp: msg_fit_def list_ex_iff)
  from find_hdr_at [OF i] have il: "i < length (hdrs msg)" "h_type (hdrs msg ! i) = PJSIP_H_CSEQ" by auto
  then obtain n m where v: "h_val (hdrs msg ! i) = HCseq n m" using fit by (auto simp: msg_fit_def list_all_length hdr_fit_def)
  define msg' where "msg' = msg\<lparr>hdrs := (hdrs msg)[i := (hdrs msg ! i)\<lparr>h_val := HCseq (sint (rg_cseq rc + 1)) m\<rparr>]\<rparr>"
  have "msg_fit msg'" unfolding msg'_def by (rule cseq_set_fit [OF fit il])
  from expires_total [OF this] obtain e where e: "int_hdr PJSIP_H_EXPIRES msg' = Inr e" by blast
  have kept: "\<forall>h\<in>set (hdrs msg). h_type h \<noteq> PJSIP_H_CSEQ \<longrightarrow> h \<in> set (hdrs msg')"
    using other_kept [OF _ il] by (simp add: msg'_def)
  have ln: "line msg' = line msg" by (simp add: msg'_def)
  define r1 where "r1 = out (RegSent msg' (sent_via rc)) (begin_send e rc)"
  have r1: "\<not> rg_freed r1" "rg_has_tsx r1" "rg_busy_ctr r1 = 1" "\<not> rg_delete_flag r1" "rg_last_transport r1 = None"
    "rg_log r1 = rg_log rc @ [RegSent msg' (sent_via rc)]"
    using rc by (simp_all add: r1_def out_def begin_send_def)
  define r2 where "r2 = swap_transport tp r1"
  have r2: "\<not> rg_freed r2" "rg_has_tsx r2" "rg_busy_ctr r2 = 1" "\<not> rg_delete_flag r2"
    "rg_log r2 = rg_log r1 @ (case tp of None \<Rightarrow> [] | Some t \<Rightarrow> [TpAddRef t])"
    using r1(1-5) by (auto simp: r2_def swap_transport_def drop_transport_def out_def split: option.split)
  have "pjsip_regc_send (Quiet PJ_SUCCESS tp) msg rc = Inr (PJ_SUCCESS, r2\<lparr>rg_busy_ctr := 0\<rparr>)"
    using i v e rc(1,2) r1 r2
    by (simp add: send_with_def live_def msg'_def [symmetric] r1_def [symmetric] after_send_def r2_def [symmetric] leave_busy_def)
  then show ?thesis using r1(6) r2 kept ln by auto
qed

definition names_addr :: "nat \<Rightarrow> pj_uri \<Rightarrow> pjsip_msg \<Rightarrow> bool" where
  "names_addr t u msg \<longleftrightarrow> (\<exists>h\<in>set (hdrs msg). h_type h = t \<and> (\<exists>x. h_val h = HFromTo x \<and> ft_uri x = Some u))"

text \<open>The request is taken by the transaction layer, with a transport or without.\<close>

definition taken :: "attempt \<Rightarrow> nat option \<Rightarrow> bool" where
  "taken at tp \<longleftrightarrow> at_lock at = PJ_SUCCESS \<and> at_atomic at = PJ_SUCCESS \<and> at_auth at = PJ_SUCCESS \<and>
     client_env (at_env at) \<and> at_net at = Quiet PJ_SUCCESS tp"

lemma gb_sends:
  assumes c: "gb_conf_ok conf" and n: "gb_node_ok node" and t: "taken at tp"
  shows "\<exists>rc msg. gbRegister conf at node = Inr (0, Some rc) \<and>
    rg_log rc = RegSent msg None # (case tp of None \<Rightarrow> [] | Some t \<Rightarrow> [TpAddRef t]) \<and> \<not> rg_freed rc \<and> rg_has_tsx rc \<and>
    line msg = ReqLine pjsip_get_register_method (UriSip (server_uri node)) \<and>
    names_addr PJSIP_H_FROM (own_addr conf) msg \<and> names_addr PJSIP_H_TO (own_addr conf) msg \<and>
    contact_hdr_of (own_contact conf) \<in> set (hdrs msg) \<and> pjsip_expires_hdr_create (expires node) \<in> set (hdrs msg)"
proof -
  let ?env = "at_env at"
  have env: "client_env ?env" "env_good ?env" "re_alloc ?env = PJ_SUCCESS" using t by (simp_all add: taken_def client_env_def)
  define rc0 where "rc0 = gb_regc ?env conf node"
  have f: "\<not> rg_freed rc0" "rg_srv_url rc0 = Some (UriSip (server_uri node))" "rg_contacts rc0 = [own_contact conf]"
    "rg_expires_hdr rc0 = Some (expires node)" "\<not> rg_has_tsx rc0" "rg_busy_ctr rc0 = 0" "\<not> rg_delete_flag rc0"
    "rg_last_transport rc0 = None" "rg_log rc0 = []" "rg_via_addr rc0 = ([], 0)"
    "rg_from_hdr rc0 = Some (fromto_with pjsip_from_hdr_create (own_addr conf))"
    "rg_to_hdr rc0 = Some (fromto_with pjsip_to_hdr_create (own_addr conf))"
    by (simp_all add: rc0_def gb_regc_def regc_zero_def)
  have ok: "regc_ok 0 rc0" unfolding rc0_def by (rule gb_regc_ok [OF c n])
  obtain msg rc1 where r: "pjsip_regc_register ?env True rc0 = Inr (PJ_SUCCESS, Some msg, rc1)"
    and l: "line msg = ReqLine pjsip_get_register_method (UriSip (server_uri node))"
    and rc1: "rc1 = rc0\<lparr>rg_expires_requested := 1, rg_removed := [], rg_timer := None, rg_auto_reg := True\<rparr>"
    and h: "set (tl (base_hdrs ?env rc0 (UriSip (server_uri node)))) \<subseteq> set (hdrs msg)"
      "contact_hdr_of (own_contact conf) \<in> set (hdrs msg)" "pjsip_expires_hdr_create (expires node) \<in> set (hdrs msg)"
  proof -
    let ?u = "UriSip (server_uri node)"
    define ex where "ex = base_hdrs ?env rc0 ?u"
    from regc_register_eq [OF f(1) regc_wf_ok [OF ok] f(2) env(2,3), of True, folded ex_def] obtain auth where
      a: "pjsip_regc_register ?env True rc0 =
        Inr (PJ_SUCCESS,
          Some \<lparr>line = ReqLine pjsip_get_register_method ?u,
            hdrs = hd ex # rg_route_set rc0 @ tl ex @ auth @ rg_hdr_list rc0 @
              map contact_hdr_of (rg_contacts rc0 @ rg_removed rc0) @
              (case rg_expires_hdr rc0 of None \<Rightarrow> [] | Some e \<Rightarrow> [pjsip_expires_hdr_create e]) @
              (case pjsip_endpt_get_capability (re_endpt ?env) PJSIP_H_ALLOW of None \<Rightarrow> [] | Some h \<Rightarrow> [h]),
            body = None\<rparr>,
          rc0\<lparr>rg_expires_requested := 1, rg_removed := [], rg_timer := None, rg_auto_reg := True\<rparr>)" by blast
    show ?thesis by (rule that [OF a]) (auto simp: f(3,4) ex_def)
  qed
  have base: "\<exists>h\<in>set (tl (base_hdrs ?env rc0 u)). h_type h = PJSIP_H_FROM \<and> (\<exists>x. h_val h = HFromTo x \<and> ft_uri x = Some (own_addr conf))"
    "\<exists>h\<in>set (tl (base_hdrs ?env rc0 u)). h_type h = PJSIP_H_TO \<and> (\<exists>x. h_val h = HFromTo x \<and> ft_uri x = Some (own_addr conf))" for u
    by (auto simp: base_hdrs_def f(11,12) fromto_with_def pjsip_fromto_hdr_set_from_def pjsip_fromto_hdr_set_to_def retyped_hdr_def
        init_hdr_def Let_def split: prod.splits)
  have fit: "msg_fit msg" using register_builds [OF ok env(2), of True] r by (auto simp: builds_def)
  have g: "\<not> rg_freed rc1" "\<not> rg_has_tsx rc1" "rg_busy_ctr rc1 = 0" "\<not> rg_delete_flag rc1" "rg_last_transport rc1 = None"
    "rg_log rc1 = []" "sent_via rc1 = None" using f by (simp_all add: rc1 sent_via_def)
  from quiet_send [OF fit g(1-5), of tp] obtain msg' rc2 where
    q: "pjsip_regc_send (Quiet PJ_SUCCESS tp) msg rc1 = Inr (PJ_SUCCESS, rc2)"
      "rg_log rc2 = rg_log rc1 @ RegSent msg' (sent_via rc1) # (case tp of None \<Rightarrow> [] | Some t \<Rightarrow> [TpAddRef t])"
      "\<not> rg_freed rc2" "rg_has_tsx rc2" "line msg' = line msg"
      "\<And>h. h \<in> set (hdrs msg) \<Longrightarrow> h_type h \<noteq> PJSIP_H_CSEQ \<Longrightarrow> h \<in> set (hdrs msg')" by blast
  have start: "pjsip_regc_init ?env (requestUrl (gb_texts conf node)) (fromHeader (gb_texts conf node)) (toHeader (gb_texts conf node))
      [contact (gb_texts conf node)] (word_of_int (expires node)) (regc_zero\<lparr>rg_cb := True, rg_expires := -1, rg_add_xuid_param := False\<rparr>) =
      Inr (PJ_SUCCESS, rc0)" unfolding rc0_def by (rule gb_start [OF c n env(1)])
  have st: "at_lock at = PJ_SUCCESS" "at_atomic at = PJ_SUCCESS" "at_auth at = PJ_SUCCESS" "at_net at = Quiet PJ_SUCCESS tp"
    using t by (simp_all add: taken_def)
  have "gbRegister conf at node = Inr (0, Some rc2)"
    unfolding gbRegister_def gb_message_eq [OF c n] st regc_created Let_def
    by (simp add: start r q(1) del: pjsip_regc_send.simps)
  moreover have "names_addr PJSIP_H_FROM (own_addr conf) msg'" "names_addr PJSIP_H_TO (own_addr conf) msg'"
  proof -
    have "h \<in> set (hdrs msg')" if "h \<in> set (tl (base_hdrs ?env rc0 (UriSip (server_uri node))))" "h_type h \<noteq> PJSIP_H_CSEQ" for h
      using q(6) h(1) that by blast
    then show "names_addr PJSIP_H_FROM (own_addr conf) msg'" "names_addr PJSIP_H_TO (own_addr conf) msg'"
      using base [of "UriSip (server_uri node)"] unfolding names_addr_def by (fastforce dest: bexE)+
  qed
  moreover have "contact_hdr_of (own_contact conf) \<in> set (hdrs msg')" "pjsip_expires_hdr_create (expires node) \<in> set (hdrs msg')"
    by (rule q(6) [OF h(2)], simp add: contact_hdr_of_def pjsip_contact_hdr_create_def,
        rule q(6) [OF h(3)], simp add: pjsip_expires_hdr_create_def)
  ultimately show ?thesis using q(2-5) g(6,7) l by (intro exI [of _ rc2] exI [of _ msg']) simp
qed

section \<open>Rounds\<close>

lemma deliver_fields [simp]: "rl_regcs (deliver i es cl) = rl_regcs cl" "length (rl_domains (deliver i es cl)) = length (rl_domains cl)"
  by (simp_all add: deliver_def)

lemma add_regc_fields [simp]: "length (rl_domains (add_regc i rc cl)) = length (rl_domains cl)"
  by (cases rc) (simp_all add: add_regc_def)

text \<open>The requests an object has given to the transaction layer.\<close>

fun requests :: "regc_out list \<Rightarrow> pjsip_msg list" where
  "requests [] = []"
| "requests (RegSent msg via # es) = msg # requests es"
| "requests (e # es) = requests es"

text \<open>An object that has sent one REGISTER to its domain and has no answer.\<close>

definition asks :: "sub_local_conf \<Rightarrow> SupDomainInfo \<Rightarrow> regc \<Rightarrow> bool" where
  "asks conf node rc \<longleftrightarrow>
     \<not> rg_freed rc \<and> rg_has_tsx rc \<and>
     (\<exists>msg. requests (rg_log rc) = [msg] \<and> line msg = ReqLine pjsip_get_register_method (UriSip (server_uri node)) \<and>
        names_addr PJSIP_H_FROM (own_addr conf) msg \<and> names_addr PJSIP_H_TO (own_addr conf) msg \<and>
        contact_hdr_of (own_contact conf) \<in> set (hdrs msg) \<and> pjsip_expires_hdr_create (expires node) \<in> set (hdrs msg))"

lemma add_taken:
  assumes "gb_conf_ok conf" and "gb_node_ok (rl_domains cl ! i)" and "taken at tp"
  shows "\<exists>rc. gbRegister conf at (rl_domains cl ! i) = Inr (0, Some rc) \<and> asks conf (rl_domains cl ! i) rc \<and>
    add_regc i (Some rc) cl = cl\<lparr>rl_regcs := rl_regcs cl @ [(i, rc)]\<rparr>"
proof -
  obtain rc msg where r: "gbRegister conf at (rl_domains cl ! i) = Inr (0, Some rc)" "\<not> rg_freed rc" "rg_has_tsx rc"
    and l: "rg_log rc = RegSent msg None # (case tp of None \<Rightarrow> [] | Some t \<Rightarrow> [TpAddRef t])"
    and m: "line msg = ReqLine pjsip_get_register_method (UriSip (server_uri (rl_domains cl ! i)))"
      "names_addr PJSIP_H_FROM (own_addr conf) msg" "names_addr PJSIP_H_TO (own_addr conf) msg"
      "contact_hdr_of (own_contact conf) \<in> set (hdrs msg)" "pjsip_expires_hdr_create (expires (rl_domains cl ! i)) \<in> set (hdrs msg)"
    using gb_sends [OF assms] by blast
  have e: "callbacks (rg_log rc) = []" "requests (rg_log rc) = [msg]" using l by (cases tp; simp)+
  have "asks conf (rl_domains cl ! i) rc" unfolding asks_def using r(2,3) e(2) m by blast
  moreover have "add_regc i (Some rc) cl = cl\<lparr>rl_regcs := rl_regcs cl @ [(i, rc)]\<rparr>" using e(1) by (simp add: add_regc_def deliver_def)
  ultimately show ?thesis using r(1) by blast
qed

definition unregistered :: "reg_client \<Rightarrow> nat list" where
  "unregistered cl = filter (\<lambda>i. \<not> registered (rl_domains cl ! i)) [0..<length (rl_domains cl)]"

lemma round_adds:
  assumes c: "gb_conf_ok conf"
  shows "\<forall>i\<in>set is. \<not> registered (rl_domains cl ! i) \<longrightarrow> gb_node_ok (rl_domains cl ! i) \<and> (\<exists>tp. taken (at i) tp) \<Longrightarrow>
    \<exists>rcs. register_domains conf at is cl = Inr (cl\<lparr>rl_regcs := rl_regcs cl @ rcs\<rparr>) \<and>
      map fst rcs = filter (\<lambda>i. \<not> registered (rl_domains cl ! i)) is \<and> (\<forall>x\<in>set rcs. asks conf (rl_domains cl ! fst x) (snd x))"
proof (induction "is" arbitrary: cl)
  case Nil
  then show ?case by simp
next
  case (Cons i "is")
  show ?case
  proof (cases "registered (rl_domains cl ! i)")
    case True
    with Cons.IH [of cl] Cons.prems show ?thesis by auto
  next
    case False
    with Cons.prems obtain tp where "gb_node_ok (rl_domains cl ! i)" "taken (at i) tp" by auto
    from add_taken [OF c this] obtain rc where
      r: "gbRegister conf (at i) (rl_domains cl ! i) = Inr (0, Some rc)" "asks conf (rl_domains cl ! i) rc"
        "add_regc i (Some rc) cl = cl\<lparr>rl_regcs := rl_regcs cl @ [(i, rc)]\<rparr>" by blast
    from Cons.IH [of "cl\<lparr>rl_regcs := rl_regcs cl @ [(i, rc)]\<rparr>"] Cons.prems obtain rcs where
      s: "register_domains conf at is (cl\<lparr>rl_regcs := rl_regcs cl @ [(i, rc)]\<rparr>) = Inr (cl\<lparr>rl_regcs := (rl_regcs cl @ [(i, rc)]) @ rcs\<rparr>)"
        "map fst rcs = filter (\<lambda>i. \<not> registered (rl_domains cl ! i)) is" "\<forall>x\<in>set rcs. asks conf (rl_domains cl ! fst x) (snd x)" by auto
    show ?thesis using r s False by (intro exI [of _ "(i, rc) # rcs"]) simp
  qed
qed

lemma register_domains_keep:
  "register_domains conf at is cl = Inr cl' \<Longrightarrow> i < length (rl_domains cl) \<Longrightarrow> registered (rl_domains cl ! i) \<Longrightarrow>
   length (rl_domains cl') = length (rl_domains cl) \<and> registered (rl_domains cl' ! i) \<and>
   filter (\<lambda>x. fst x = i) (rl_regcs cl') = filter (\<lambda>x. fst x = i) (rl_regcs cl)"
proof (induction "is" arbitrary: cl)
  case (Cons j "is")
  show ?case
  proof (cases "registered (rl_domains cl ! j)")
    case True
    with Cons show ?thesis by simp
  next
    case False
    with Cons.prems have "j \<noteq> i" by auto
    from False Cons.prems(1) obtain ret rc where g: "register_domains conf at is (add_regc j rc cl) = Inr cl'"
      by (auto simp: bind_res_Inr_iff)
    have a: "i < length (rl_domains (add_regc j rc cl))" "registered (rl_domains (add_regc j rc cl) ! i)"
      "filter (\<lambda>x. fst x = i) (rl_regcs (add_regc j rc cl)) = filter (\<lambda>x. fst x = i) (rl_regcs cl)"
      using Cons.prems(2,3) \<open>j \<noteq> i\<close> by (cases rc; simp add: add_regc_def deliver_def)+
    from Cons.IH [OF g a(1,2)] a(3) show ?thesis by simp
  qed
qed simp

lemma fold_cb_keeps: "registered d \<Longrightarrow> registered (fold client_cb ps d)"
  by (induction ps arbitrary: d) (simp_all add: client_cb_def)

lemma client_step_keeps:
  assumes s: "client_step conf e cl = Inr cl'" and i: "i < length (rl_domains cl)" "registered (rl_domains cl ! i)"
  shows "length (rl_domains cl') = length (rl_domains cl) \<and> registered (rl_domains cl' ! i) \<and>
    length (filter (\<lambda>x. fst x = i) (rl_regcs cl')) = length (filter (\<lambda>x. fst x = i) (rl_regcs cl))"
proof (cases e)
  case (Round at)
  with s register_domains_keep [OF _ i] show ?thesis by (auto simp: RegisterProc_def)
next
  case (Happens k ev)
  let ?x = "rl_regcs cl ! k"
  show ?thesis
  proof (cases "k < length (rl_regcs cl) \<and> of_library ev \<and> enabled ev (snd ?x)")
    case True
    with Happens s obtain rc es where cl': "cl' = deliver (fst ?x) es (cl\<lparr>rl_regcs := (rl_regcs cl)[k := (fst ?x, rc)]\<rparr>)"
      by (auto simp: bind_res_Inr_iff)
    have "map fst ((rl_regcs cl)[k := (fst ?x, rc)]) = map fst (rl_regcs cl)"
      using True by (simp add: map_update) (metis list_update_id nth_map)
    then have "length (filter (\<lambda>x. fst x = i) ((rl_regcs cl)[k := (fst ?x, rc)])) = length (filter (\<lambda>x. fst x = i) (rl_regcs cl))"
      by (metis (mono_tags, lifting) comp_def filter_cong filter_map length_map)
    moreover have "registered (rl_domains cl' ! i)"
      using i fold_cb_keeps [of "rl_domains cl ! i"] by (cases "fst ?x = i") (simp_all add: cl' deliver_def)
    ultimately show ?thesis by (simp add: cl')
  next
    case False
    with Happens s i show ?thesis by (simp split: if_splits)
  qed
qed

lemma rounds_add:
  assumes c: "gb_conf_ok conf"
  shows "\<forall>i\<in>set (unregistered cl). gb_node_ok (rl_domains cl ! i) \<Longrightarrow> \<forall>at\<in>set ats. \<forall>i\<in>set (unregistered cl). \<exists>tp. taken (at i) tp \<Longrightarrow>
    \<exists>rcs. client_run conf (map Round ats) cl = Inr (cl\<lparr>rl_regcs := rl_regcs cl @ rcs\<rparr>) \<and>
      map fst rcs = concat (replicate (length ats) (unregistered cl)) \<and> (\<forall>x\<in>set rcs. asks conf (rl_domains cl ! fst x) (snd x))"
proof (induction ats arbitrary: cl)
  case Nil
  then show ?case by simp
next
  case (Cons at ats)
  have "\<forall>i\<in>set [0..<length (rl_domains cl)]. \<not> registered (rl_domains cl ! i) \<longrightarrow>
      gb_node_ok (rl_domains cl ! i) \<and> (\<exists>tp. taken (at i) tp)" using Cons.prems by (auto simp: unregistered_def)
  from round_adds [OF c this] obtain rcs where
    r: "RegisterProc conf at cl = Inr (cl\<lparr>rl_regcs := rl_regcs cl @ rcs\<rparr>)" "map fst rcs = unregistered cl"
      "\<forall>x\<in>set rcs. asks conf (rl_domains cl ! fst x) (snd x)" by (auto simp: RegisterProc_def unregistered_def)
  let ?cl = "cl\<lparr>rl_regcs := rl_regcs cl @ rcs\<rparr>"
  have u: "unregistered ?cl = unregistered cl" by (simp add: unregistered_def)
  with Cons.IH [of ?cl] Cons.prems obtain rcs' where
    s: "client_run conf (map Round ats) ?cl = Inr (cl\<lparr>rl_regcs := (rl_regcs cl @ rcs) @ rcs'\<rparr>)"
      "map fst rcs' = concat (replicate (length ats) (unregistered cl))" "\<forall>x\<in>set rcs'. asks conf (rl_domains cl ! fst x) (snd x)" by auto
  show ?case using r s by (intro exI [of _ "rcs @ rcs'"]) auto
qed

section \<open>The properties\<close>

definition sample_conf :: sub_local_conf where
  "sample_conf = sub_SipLocalConfig\<lparr>m_sipId := ''1100'', m_sipIp := ''10.0.0.2'', m_sipPort := 7101\<rparr>"

definition sample_node :: SupDomainInfo where
  "sample_node = SubDomainInfo_new\<lparr>sipId := ''1000'', addrIp := ''10.0.0.1'', sipPort := 5061, protocal := 1, expires := 3600\<rparr>"

definition sample_attempt :: attempt where
  "sample_attempt = \<lparr>at_lock = PJ_SUCCESS, at_atomic = PJ_SUCCESS, at_auth = PJ_SUCCESS, at_env = sample_regc_env, at_net = Quiet PJ_SUCCESS (Some 7)\<rparr>"

lemma sample_client: "gb_conf_ok sample_conf" "gb_node_ok sample_node" "taken sample_attempt (Some 7)" "\<not> registered sample_node"
proof -
  have t: "list_all isalnum_c ''1100''" "list_all isalnum_c ''1000''" "list_all HOST_SPEC ''10.0.0.2''" "list_all HOST_SPEC ''10.0.0.1''"
    by code_simp+
  show "gb_conf_ok sample_conf" "gb_node_ok sample_node" "\<not> registered sample_node"
    using t by (simp_all add: gb_conf_ok_def gb_node_ok_def sample_conf_def sample_node_def word_text_def host_name_def SubDomainInfo_new_def)
  have "client_env sample_regc_env"
    using sample_regc_env_good by (auto simp: client_env_def sample_regc_env_def sample_env_def sip_env_def)
  then show "taken sample_attempt (Some 7)" by (simp add: taken_def sample_attempt_def)
qed

text \<open>
  C7: \<open>gbRegister\<close> sends one REGISTER to the domain: its request URI is the domain with its port and
  transport, From and To are this server, the Contact is this server with its port, and Expires is that of
  the configuration. Names of letters and digits that fit the arrays of 128 bytes reach the message as
  they are, through the texts and the library's parsers.
\<close>

theorem gb_register_sends:
  assumes "gb_conf_ok conf" and "gb_node_ok node" and "taken at tp"
  shows "\<exists>rc msg. gbRegister conf at node = Inr (0, Some rc) \<and>
    rg_log rc = RegSent msg None # (case tp of None \<Rightarrow> [] | Some t \<Rightarrow> [TpAddRef t]) \<and>
    line msg = ReqLine pjsip_get_register_method (UriSip (server_uri node)) \<and>
    names_addr PJSIP_H_FROM (own_addr conf) msg \<and> names_addr PJSIP_H_TO (own_addr conf) msg \<and>
    contact_hdr_of (own_contact conf) \<in> set (hdrs msg) \<and> pjsip_expires_hdr_create (expires node) \<in> set (hdrs msg)"
  using gb_sends [OF assms] by blast

theorem gb_register_sends_witness:
  "\<exists>rc msg. gbRegister sample_conf sample_attempt sample_node = Inr (0, Some rc) \<and> rg_log rc = [RegSent msg None, TpAddRef 7] \<and>
     line msg = ReqLine pjsip_get_register_method (UriSip (gb_uri ''1000'' ''10.0.0.1'' 5061 ''tcp''))"
  using gb_register_sends [OF sample_client(1-3)] by (auto simp: server_uri_def sample_node_def SubDomainInfo_new_def)

text \<open>
  C11: While domains have not answered, every round of the timer makes one more object for each of them, in
  their order, and none for a domain that has: after \<open>n\<close> rounds there are \<open>n\<close> of each such domain. Each
  object has sent exactly one request, a REGISTER to its domain with this server as From, To and Contact
  and the configured Expires; each has a transaction of its own, and none is freed. Every attempt is taken by
  the library (\<open>taken\<close>), and the names of the unanswered domains are words that fit (\<open>gb_node_ok\<close>).
\<close>

theorem rounds_pile_up:
  assumes "gb_conf_ok conf" and "\<forall>i\<in>set (unregistered cl). gb_node_ok (rl_domains cl ! i)"
    and "\<forall>at\<in>set ats. \<forall>i\<in>set (unregistered cl). \<exists>tp. taken (at i) tp"
  shows "\<exists>rcs. client_run conf (map Round ats) cl = Inr (cl\<lparr>rl_regcs := rl_regcs cl @ rcs\<rparr>) \<and>
    map fst rcs = concat (replicate (length ats) (unregistered cl)) \<and> (\<forall>x\<in>set rcs. asks conf (rl_domains cl ! fst x) (snd x))"
  using rounds_add [OF assms] .

theorem rounds_pile_up_witness:
  "\<exists>rcs. client_run sample_conf (map Round (replicate 10 (\<lambda>i. sample_attempt)))
       \<lparr>rl_domains = [sample_node, sample_node\<lparr>registered := True\<rparr>, sample_node], rl_regcs = []\<rparr> =
     Inr \<lparr>rl_domains = [sample_node, sample_node\<lparr>registered := True\<rparr>, sample_node], rl_regcs = rcs\<rparr> \<and>
     map fst rcs = concat (replicate 10 [0, 2]) \<and> (\<forall>x\<in>set rcs. length (requests (rg_log (snd x))) = 1)"
proof -
  let ?cl = "\<lparr>rl_domains = [sample_node, sample_node\<lparr>registered := True\<rparr>, sample_node], rl_regcs = []\<rparr>"
  have u: "unregistered ?cl = [0, 2]" using sample_client(4) by (simp add: unregistered_def upt_rec)
  have r: "\<forall>i\<in>set (unregistered ?cl). gb_node_ok (rl_domains ?cl ! i)"
    "\<forall>at\<in>set (replicate 10 (\<lambda>i. sample_attempt)). \<forall>i\<in>set (unregistered ?cl). \<exists>tp. taken (at i) tp"
    unfolding u using sample_client by auto
  from rounds_pile_up [OF sample_client(1) r] show ?thesis unfolding u by (fastforce simp: asks_def)
qed

lemma client_run_keeps:
  "client_run conf es cl = Inr cl' \<Longrightarrow> i < length (rl_domains cl) \<Longrightarrow> registered (rl_domains cl ! i) \<Longrightarrow>
   length (rl_domains cl') = length (rl_domains cl) \<and> registered (rl_domains cl' ! i) \<and>
   length (filter (\<lambda>x. fst x = i) (rl_regcs cl')) = length (filter (\<lambda>x. fst x = i) (rl_regcs cl))"
proof (induction es arbitrary: cl)
  case (Cons e es)
  from Cons.prems(1) obtain c1 where c1: "client_step conf e cl = Inr c1" "client_run conf es c1 = Inr cl'" by (auto simp: bind_res_Inr_iff)
  from client_step_keeps [OF c1(1) Cons.prems(2,3)] Cons.IH [OF c1(2)] Cons.prems(2) show ?case by simp
qed simp

text \<open>
  C10: A domain once marked stays so and is never registered again by the service, whatever its objects are
  told later: when a refresh is refused, or the upper-level server loses its state, nothing renews the
  registration.
\<close>

theorem registered_is_final:
  assumes "client_run conf es cl = Inr cl'" and "i < length (rl_domains cl)" and "registered (rl_domains cl ! i)"
  shows "registered (rl_domains cl' ! i) \<and>
    length (filter (\<lambda>x. fst x = i) (rl_regcs cl')) = length (filter (\<lambda>x. fst x = i) (rl_regcs cl))"
  using client_run_keeps [OF assms] by blast

theorem registered_is_final_witness:
  "client_run sample_conf [Round (\<lambda>i. sample_attempt), Happens 0 (Fire sample_regc_env (Quiet PJ_SUCCESS None))]
     \<lparr>rl_domains = [sample_node\<lparr>registered := True\<rparr>], rl_regcs = [(0, sample_regc)]\<rparr> =
   Inr \<lparr>rl_domains = [sample_node\<lparr>registered := True\<rparr>], rl_regcs = [(0, sample_regc)]\<rparr> \<and>
   registered (rl_domains \<lparr>rl_domains = [sample_node\<lparr>registered := True\<rparr>], rl_regcs = [(0, sample_regc)]\<rparr> ! 0)"
proof -
  have "rg_timer sample_regc = None" by (simp add: sample_regc_def regc_zero_def)
  then have r: "client_run sample_conf [Round (\<lambda>i. sample_attempt), Happens 0 (Fire sample_regc_env (Quiet PJ_SUCCESS None))]
     \<lparr>rl_domains = [sample_node\<lparr>registered := True\<rparr>], rl_regcs = [(0, sample_regc)]\<rparr> =
   Inr \<lparr>rl_domains = [sample_node\<lparr>registered := True\<rparr>], rl_regcs = [(0, sample_regc)]\<rparr>"
    by (simp add: RegisterProc_def)
  from registered_is_final [OF r, of 0] r show ?thesis by simp
qed

end
