(* ===== verification/TsxFsm.thy ===== *)
theory TsxFsm
  imports TsxLayer Receive
begin

text \<open>
  The transaction itself (\<open>3rd/src/pjsip/sip_transaction.c\<close>): its timers, what it does with messages,
  timers and the reports of the transports, and its end; and \<open>pjsip_endpt_send_request\<close>
  (\<open>sip_util_statefull.c\<close>), through which the registration client uses it. What a transaction does to
  the outside (references to transports and messages, messages handed on, calls of its user) is kept in a
  log. Each operation runs under the lock of the transaction, so operations of several threads come one
  after the other; the user does not call the transaction from within its callbacks.
\<close>

section \<open>States\<close>

datatype tsx_state =
    PJSIP_TSX_STATE_NULL
  | PJSIP_TSX_STATE_CALLING
  | PJSIP_TSX_STATE_TRYING
  | PJSIP_TSX_STATE_PROCEEDING
  | PJSIP_TSX_STATE_COMPLETED
  | PJSIP_TSX_STATE_CONFIRMED
  | PJSIP_TSX_STATE_TERMINATED
  | PJSIP_TSX_STATE_DESTROYED

definition state_code :: "tsx_state \<Rightarrow> nat" where
  "state_code s =
     (case s of
        PJSIP_TSX_STATE_NULL \<Rightarrow> 0 | PJSIP_TSX_STATE_CALLING \<Rightarrow> 1 | PJSIP_TSX_STATE_TRYING \<Rightarrow> 2
      | PJSIP_TSX_STATE_PROCEEDING \<Rightarrow> 3 | PJSIP_TSX_STATE_COMPLETED \<Rightarrow> 4 | PJSIP_TSX_STATE_CONFIRMED \<Rightarrow> 5
      | PJSIP_TSX_STATE_TERMINATED \<Rightarrow> 6 | PJSIP_TSX_STATE_DESTROYED \<Rightarrow> 7)"

lemma state_code_inj: "state_code s = state_code t \<Longrightarrow> s = t"
  by (cases s; cases t) (simp_all add: state_code_def)

text \<open>The states are ordered as the enumeration is.\<close>

instantiation tsx_state :: linorder
begin

definition less_eq_tsx_state :: "tsx_state \<Rightarrow> tsx_state \<Rightarrow> bool" where
  "less_eq_tsx_state s t \<longleftrightarrow> state_code s \<le> state_code t"

definition less_tsx_state :: "tsx_state \<Rightarrow> tsx_state \<Rightarrow> bool" where
  "less_tsx_state s t \<longleftrightarrow> state_code s < state_code t"

instance
  by standard (auto simp: less_eq_tsx_state_def less_tsx_state_def intro: state_code_inj)

end

lemmas state_order = less_eq_tsx_state_def less_tsx_state_def state_code_def

section \<open>The transaction\<close>

text \<open>
  A timer entry: its \<open>id\<close>, and when it expires if it is in the timer heap. A message to be sent and a
  transport are known by their addresses.
\<close>

datatype timer_name = RetransmitTimer | TimeoutTimer

record pj_timer =
  tm_id :: nat
  tm_expiry :: "nat option"

definition TIMER_INACTIVE :: nat where "TIMER_INACTIVE = 0"
definition RETRANSMIT_TIMER :: nat where "RETRANSMIT_TIMER = 1"
definition TIMEOUT_TIMER :: nat where "TIMEOUT_TIMER = 2"
definition TRANSPORT_ERR_TIMER :: nat where "TRANSPORT_ERR_TIMER = 3"

lemmas timer_ids = TIMER_INACTIVE_def RETRANSMIT_TIMER_def TIMEOUT_TIMER_def TRANSPORT_ERR_TIMER_def

definition PJSIP_SC_TSX_TIMEOUT :: int where "PJSIP_SC_TSX_TIMEOUT = 408"
definition PJSIP_SC_TSX_TRANSPORT_ERROR :: int where "PJSIP_SC_TSX_TRANSPORT_ERROR = 503"
definition PJSIP_SC_BAD_GATEWAY :: int where "PJSIP_SC_BAD_GATEWAY = 502"
definition PJSIP_ENOTREQUESTMSG :: int where "PJSIP_ENOTREQUESTMSG = 171021"
definition PJSIP_ENOTRESPONSEMSG :: int where "PJSIP_ENOTRESPONSEMSG = 171022"
definition PJSIP_EINVALIDMETHOD :: int where "PJSIP_EINVALIDMETHOD = 171055"
definition PJ_ERESOLVE :: int where "PJ_ERESOLVE = 70018"
definition PJLIB_UTIL_EDNS_NXDOMAIN :: int where "PJLIB_UTIL_EDNS_NXDOMAIN = 320053"

record tdata =
  td_at :: nat
  td_data :: tx_data

record tsx_transport =
  tp_at :: nat
  tp_reliable :: bool
  tp_is_shutdown :: bool

text \<open>The source of a change of state.\<close>

datatype event_src =
    SrcTimer timer_name
  | SrcTxMsg tdata
  | SrcRxMsg rx_data
  | SrcTransportError
  | SrcUser
  | SrcUnknown

datatype tsx_out =
    TsxTpAddRef nat
  | TsxTpDecRef nat
  | SelectorAddRef "nat option"
  | SelectorDecRef "nat option"
  | TxSetTransport nat "nat option"
  | TxAddRef nat
  | TxDecRef nat
  | TransportSend nat tdata int
  | RouteMessage tdata int
  | OnRxResponse rx_data
  | OnTsxState tsx_state tsx_state int event_src
  | UtilCallback int event_src

text \<open>
  The user of a transaction: the module behind \<open>pjsip_endpt_send_request\<close>, or one of which only the
  callbacks it has are known (\<open>on_rx_response\<close>, \<open>on_tsx_state\<close>).
\<close>

datatype tsx_user = ModStatefulUtil | OtherUser bool bool

text \<open>
  The bits of \<open>transport_flag\<close> are fields, and so are the clock in milliseconds, the count of the lock's
  references and whether it has come to 0, which frees the transaction, and the table of the transaction
  layer. \<open>x_mod_data\<close> tells whether \<open>mod_data\<close> of the stateful module is set, \<open>x_attached\<close> of which
  messages the \<open>mod_data\<close> of the transaction layer is this transaction. \<open>x_waiting\<close> are the messages a
  transport has yet to report, \<open>x_routing\<close> those whose sending without a transaction goes on, \<open>x_fired\<close>
  the timers that have left the heap and whose callback is to come.
\<close>

record transaction =
  x_ref :: tsx_ref
  x_role :: pjsip_role
  x_method :: pjsip_method
  x_cseq :: int
  x_branch :: string
  x_user :: "tsx_user option"
  x_terminating :: bool
  x_refs :: int
  x_freed :: bool
  x_state :: tsx_state
  x_status_code :: int
  x_status_text :: string
  x_handle_200resp :: bool
  x_transport :: "nat option"
  x_is_reliable :: bool
  x_addr :: string
  x_res_tp :: "nat option"
  x_pend_transport :: bool
  x_pend_resched :: bool
  x_pend_send :: bool
  x_pend_destroy :: bool
  x_resolved :: bool
  x_transport_err :: int
  x_tp_sel :: "nat option"
  x_last_tx :: "tdata option"
  x_pending_tx :: "tdata option"
  x_attached :: "nat list"
  x_retransmit_count :: int
  x_retransmit :: pj_timer
  x_timeout :: pj_timer
  x_mod_data :: bool
  x_waiting :: "tdata list"
  x_routing :: "tdata list"
  x_fired :: "timer_name list"
  x_now :: nat
  x_layer :: "nat hash_table"
  x_log :: "tsx_out list"

text \<open>
  What the callback of the routing is told: bytes sent or the negative status, the transport used, and
  whether there is another address to try.
\<close>

record sent_cb =
  sc_sent :: int
  sc_tp :: "tsx_transport option"
  sc_addr :: string
  sc_cont :: bool

text \<open>
  What an operation finds around it: the ids of the two modules, \<open>pjsip_cfg()->tsx\<close>, what
  \<open>pjsip_transport_send\<close> returns, what \<open>pjsip_endpt_send_request_stateless\<close> or \<open>pjsip_endpt_send_response\<close>
  return and the callbacks they make before they do, \<open>tdata->is_pending\<close>, and for an ACK what its creation
  takes and its address.
\<close>

record fsm_env =
  fe_mod_id :: int
  fe_util_id :: int
  fe_t1 :: nat
  fe_t2 :: nat
  fe_t4 :: nat
  fe_td :: nat
  fe_send :: "transaction \<Rightarrow> tdata \<Rightarrow> int"
  fe_route :: "transaction \<Rightarrow> tdata \<Rightarrow> int \<times> sent_cb list"
  fe_is_pending :: "tdata \<Rightarrow> bool"
  fe_strerror :: "int \<Rightarrow> string"
  fe_ack :: "int \<times> pjsip_hdr list \<times> bool \<times> (string \<times> string) \<times> int \<times> nat"

definition logged :: "tsx_out \<Rightarrow> transaction \<Rightarrow> transaction" where
  "logged e x = x\<lparr>x_log := x_log x @ [e]\<rparr>"

section \<open>The lock and the timers\<close>

definition pj_grp_lock_add_ref :: "transaction \<Rightarrow> transaction" where
  "pj_grp_lock_add_ref x = x\<lparr>x_refs := x_refs x + 1\<rparr>"

definition pj_grp_lock_dec_ref :: "transaction \<Rightarrow> transaction" where
  "pj_grp_lock_dec_ref x = x\<lparr>x_refs := x_refs x - 1, x_freed := x_freed x \<or> x_refs x - 1 = 0\<rparr>"

definition locked :: "(transaction \<Rightarrow> ('a \<times> transaction) res) \<Rightarrow> transaction \<Rightarrow> ('a \<times> transaction) res" where
  "locked f x =
     (if x_freed x then Inl UseAfterFree
      else bind_res (f (pj_grp_lock_add_ref x)) (\<lambda>(a, x). Inr (a, pj_grp_lock_dec_ref x)))"

definition timer_of :: "timer_name \<Rightarrow> transaction \<Rightarrow> pj_timer" where
  "timer_of n x = (case n of RetransmitTimer \<Rightarrow> x_retransmit x | TimeoutTimer \<Rightarrow> x_timeout x)"

definition set_timer :: "timer_name \<Rightarrow> pj_timer \<Rightarrow> transaction \<Rightarrow> transaction" where
  "set_timer n t x = (case n of RetransmitTimer \<Rightarrow> x\<lparr>x_retransmit := t\<rparr> | TimeoutTimer \<Rightarrow> x\<lparr>x_timeout := t\<rparr>)"

definition running :: "timer_name \<Rightarrow> transaction \<Rightarrow> bool" where
  "running n x \<longleftrightarrow> tm_expiry (timer_of n x) \<noteq> None"

definition tsx_schedule_timer :: "timer_name \<Rightarrow> nat \<Rightarrow> nat \<Rightarrow> transaction \<Rightarrow> transaction res" where
  "tsx_schedule_timer n delay active_id x =
     (if active_id = TIMER_INACTIVE \<or> running n x then Inl AssertFail
      else Inr (pj_grp_lock_add_ref (set_timer n \<lparr>tm_id = active_id, tm_expiry = Some (x_now x + delay)\<rparr> x)))"

definition tsx_cancel_timer :: "timer_name \<Rightarrow> transaction \<Rightarrow> transaction" where
  "tsx_cancel_timer n x =
     (let x' = set_timer n \<lparr>tm_id = TIMER_INACTIVE, tm_expiry = None\<rparr> x
      in if running n x then pj_grp_lock_dec_ref x' else x')"

definition restart_timer :: "timer_name \<Rightarrow> nat \<Rightarrow> nat \<Rightarrow> transaction \<Rightarrow> transaction res" where
  "restart_timer n delay active_id x = tsx_schedule_timer n delay active_id (tsx_cancel_timer n x)"

section \<open>The transport\<close>

text \<open>The state callback of a transport; \<open>disconnected\<close> is its new state.\<close>

definition post_transport_error :: "int \<Rightarrow> transaction \<Rightarrow> transaction res" where
  "post_transport_error err x =
     restart_timer TimeoutTimer 0 TRANSPORT_ERR_TIMER (x\<lparr>x_transport_err := err\<rparr>)"

definition tsx_tp_state_callback :: "bool \<Rightarrow> int \<Rightarrow> transaction \<Rightarrow> transaction res" where
  "tsx_tp_state_callback disconnected status x =
     (if disconnected then post_transport_error status x else Inr x)"

definition drop_tsx_transport :: "transaction \<Rightarrow> transaction" where
  "drop_tsx_transport x =
     (case x_transport x of None \<Rightarrow> x | Some tp \<Rightarrow> logged (TsxTpDecRef tp) (x\<lparr>x_transport := None\<rparr>))"

definition tsx_update_transport :: "tsx_transport option \<Rightarrow> transaction \<Rightarrow> transaction res" where
  "tsx_update_transport tp x =
     (let x = drop_tsx_transport x
      in case tp of
           None \<Rightarrow> Inr x
         | Some t \<Rightarrow>
             let x = logged (TsxTpAddRef (tp_at t)) (x\<lparr>x_transport := Some (tp_at t)\<rparr>)
             in if tp_is_shutdown t then tsx_tp_state_callback True PJSIP_SC_TSX_TRANSPORT_ERROR x else Inr x)"

section \<open>Changing the state\<close>

definition tsx_set_status_code :: "int \<Rightarrow> string option \<Rightarrow> transaction \<Rightarrow> transaction" where
  "tsx_set_status_code code reason x =
     x\<lparr>x_status_code := code,
       x_status_text := (case reason of Some r \<Rightarrow> r | None \<Rightarrow> pjsip_get_status_text code)\<rparr>"

text \<open>\<open>mod_stateful_util\<close> is told of states and calls the callback given to it, once.\<close>

definition mod_util_on_tsx_state :: "fsm_env \<Rightarrow> event_src \<Rightarrow> transaction \<Rightarrow> transaction" where
  "mod_util_on_tsx_state env src x =
     (if fe_util_id env < 0 then x
      else if \<not> x_mod_data x then x
      else if x_status_code x < 200 then x
      else logged (UtilCallback (x_status_code x) src) (x\<lparr>x_mod_data := False\<rparr>))"

definition notify_state :: "fsm_env \<Rightarrow> tsx_state \<Rightarrow> event_src \<Rightarrow> transaction \<Rightarrow> transaction" where
  "notify_state env prev src x =
     (let x' = logged (OnTsxState prev (x_state x) (x_status_code x) src) x
      in case x_user x of
           None \<Rightarrow> x
         | Some ModStatefulUtil \<Rightarrow> mod_util_on_tsx_state env src x'
         | Some (OtherUser on_rx on_state) \<Rightarrow> if on_state then x' else x)"

definition notify_response :: "event_src \<Rightarrow> transaction \<Rightarrow> transaction" where
  "notify_response src x =
     (case (src, x_user x) of
        (SrcRxMsg rdata, Some (OtherUser on_rx on_state)) \<Rightarrow>
          (case line (rx_msg rdata) of
             StatusLine code reason \<Rightarrow> if on_rx then logged (OnRxResponse rdata) x else x
           | ReqLine m u \<Rightarrow> x)
      | _ \<Rightarrow> x)"

definition tsx_shutdown :: "transaction \<Rightarrow> transaction res" where
  "tsx_shutdown x =
     bind_res (tsx_update_transport None x) (\<lambda>x.
       let x = (if x_terminating x then x else logged (SelectorDecRef (x_tp_sel x)) x);
           x = (case x_last_tx x of None \<Rightarrow> x | Some td \<Rightarrow> logged (TxDecRef (td_at td)) (x\<lparr>x_last_tx := None\<rparr>));
           x = tsx_cancel_timer RetransmitTimer (tsx_cancel_timer TimeoutTimer x);
           x = x\<lparr>x_pend_resched := False, x_pend_send := False\<rparr>;
           x = (if x_pend_transport x then x\<lparr>x_pend_destroy := True, x_user := None\<rparr> else x)
       in Inr (if x_terminating x then x else pj_grp_lock_dec_ref (x\<lparr>x_terminating := True\<rparr>)))"

definition detach :: "tdata \<Rightarrow> transaction \<Rightarrow> transaction" where
  "detach td x = x\<lparr>x_attached := removeAll (td_at td) (x_attached x)\<rparr>"

definition forget_pending :: "transaction \<Rightarrow> transaction" where
  "forget_pending x =
     (if x_pend_transport x
      then (case x_pending_tx x of None \<Rightarrow> x | Some td \<Rightarrow> (detach td x)\<lparr>x_pending_tx := None\<rparr>)\<lparr>x_pend_transport := False\<rparr>
      else x)"

text \<open>
  \<open>quiet\<close> and \<open>no_handler\<close> are the flags \<open>NO_NOTIFY\<close> and \<open>NO_SCHEDULE_HANDLER\<close>. For the timeout timer the
  lock is given up while the user is told; nothing else changes then but through the timers.
\<close>

definition tsx_set_state ::
    "fsm_env \<Rightarrow> tsx_state \<Rightarrow> event_src \<Rightarrow> bool \<Rightarrow> bool \<Rightarrow> transaction \<Rightarrow> transaction res" where
  "tsx_set_state env state src quiet no_handler x =
     (if \<not> x_state x \<le> state then Inl AssertFail
      else
        let prev = x_state x;
            x = x\<lparr>x_state := state\<rparr>;
            x = (if quiet then x else notify_state env prev src (notify_response src x))
        in if state = PJSIP_TSX_STATE_TERMINATED
           then let x = tsx_cancel_timer TimeoutTimer (forget_pending x)
                in if no_handler then Inr x else tsx_schedule_timer TimeoutTimer 0 TIMEOUT_TIMER x
           else if state = PJSIP_TSX_STATE_DESTROYED
           then bind_res (mod_tsx_layer_unregister_tsx (fe_mod_id env) (x_layer x) (x_ref x)) (\<lambda>ht.
                  tsx_shutdown (x\<lparr>x_layer := ht\<rparr>))
           else Inr x)"

section \<open>Sending\<close>

text \<open>
  The first half of \<open>tsx_send_msg\<close>: through the transport the transaction has. \<open>None\<close> is the status of
  a message that has to be routed.
\<close>

definition transport_failed :: "transaction \<Rightarrow> transaction res" where
  "transport_failed x =
     bind_res (tsx_update_transport None x) (\<lambda>x. Inr (x\<lparr>x_addr := [], x_res_tp := None\<rparr>))"

definition send_by_transport :: "fsm_env \<Rightarrow> tdata \<Rightarrow> transaction \<Rightarrow> (int \<times> bool \<times> transaction) res" where
  "send_by_transport env td x =
     (case x_transport x of
        None \<Rightarrow> Inr (PJ_SUCCESS, False, x)
      | Some tp \<Rightarrow>
          let x = (pj_grp_lock_add_ref x)\<lparr>x_pend_transport := True\<rparr>;
              status = fe_send env x td;
              x = logged (TransportSend tp td status) x
          in if status = PJ_EPENDING then Inr (PJ_SUCCESS, True, x\<lparr>x_waiting := x_waiting x @ [td]\<rparr>)
             else let x = pj_grp_lock_dec_ref (x\<lparr>x_pend_transport := False\<rparr>)
                  in if status = PJ_SUCCESS then Inr (PJ_SUCCESS, True, x)
                     else bind_res (transport_failed x) (\<lambda>x. Inr (status, False, x)))"

definition tsx_send_known :: "fsm_env \<Rightarrow> tdata \<Rightarrow> transaction \<Rightarrow> (int option \<times> transaction) res" where
  "tsx_send_known env td x =
     (if x_pend_transport x then Inr (Some PJ_SUCCESS, x\<lparr>x_pend_send := True\<rparr>)
      else if fe_is_pending env td then Inr (Some PJ_SUCCESS, x)
      else bind_res (send_by_transport env td x) (\<lambda>(status, sent, x).
        if sent then Inr (Some PJ_SUCCESS, x)
        else if x_resolved x
        then if status = PJ_SUCCESS then Inl AssertFail
             else bind_res (tsx_set_state env PJSIP_TSX_STATE_TERMINATED SrcTransportError False False
                    (tsx_set_status_code PJSIP_SC_TSX_TRANSPORT_ERROR (Some (fe_strerror env status)) x)) (\<lambda>x.
                    Inr (Some status, x))
        else Inr (None, x)))"

definition tsx_resched_retransmission :: "fsm_env \<Rightarrow> transaction \<Rightarrow> transaction res" where
  "tsx_resched_retransmission env x =
     (if x_pend_transport x then Inl AssertFail
      else
        let doubled = (if \<not> (0 \<le> x_retransmit_count x \<and> x_retransmit_count x < 31) then Inl IntOverflow
                       else Inr ((2 ^ nat (x_retransmit_count x) * fe_t1 env) mod 2 ^ 32));
            t2 = fe_t2 env
        in bind_res (if x_role x = PJSIP_ROLE_UAC \<and> x_status_code x \<ge> 100 then Inr t2 else doubled) (\<lambda>msec.
           bind_res (if x_role x = PJSIP_ROLE_UAC
                     then if \<not> x_status_code x < 200 then Inl AssertFail
                          else Inr (if msec > t2 \<and> m_id (x_method x) \<noteq> PJSIP_INVITE_METHOD then t2 else msec)
                     else if x_status_code x < 200 then Inr 60000
                     else Inr (if msec > t2 then t2 else msec)) (\<lambda>msec.
             if msec \<noteq> 0 then tsx_schedule_timer RetransmitTimer msec RETRANSMIT_TIMER x else Inr x)))"

text \<open>
  A message sent from within the callback of the routing: there the server is resolved, so the
  second half of \<open>tsx_send_msg\<close> is not reached.
\<close>

definition tsx_send_again :: "fsm_env \<Rightarrow> tdata option \<Rightarrow> transaction \<Rightarrow> transaction res" where
  "tsx_send_again env td x =
     (case td of
        None \<Rightarrow> Inl AssertFail
      | Some td \<Rightarrow>
          bind_res (tsx_send_known env td x) (\<lambda>(status, x). case status of None \<Rightarrow> Inl AssertFail | Some s \<Rightarrow> Inr x))"

text \<open>The callback of the routing, by what it is told; it may change \<open>cont\<close>.\<close>

definition routing_sent :: "fsm_env \<Rightarrow> sent_cb \<Rightarrow> transaction \<Rightarrow> transaction res" where
  "routing_sent env cb x =
     (case sc_tp cb of
        None \<Rightarrow> Inl AssertFail
      | Some tp \<Rightarrow>
          bind_res (if x_transport x \<noteq> Some (tp_at tp)
                    then bind_res (tsx_update_transport (Some tp) x) (\<lambda>x.
                           Inr (x\<lparr>x_addr := sc_addr cb, x_is_reliable := tp_reliable tp\<rparr>))
                    else Inr x) (\<lambda>x.
          let x = x\<lparr>x_pend_transport := False, x_resolved := True\<rparr> in
          if x_pend_destroy x then tsx_set_state env PJSIP_TSX_STATE_DESTROYED SrcUnknown False False x
          else bind_res (if x_pend_send x then tsx_send_again env (x_last_tx x) (x\<lparr>x_pend_send := False\<rparr>) else Inr x) (\<lambda>x.
            if x_pend_resched x \<and> \<not> x_pend_transport x
            then let x = x\<lparr>x_pend_resched := False\<rparr>
                 in if x_is_reliable x then Inr x else tsx_resched_retransmission env x
            else Inr x)))"

definition routing_failed :: "fsm_env \<Rightarrow> tdata \<Rightarrow> sent_cb \<Rightarrow> transaction \<Rightarrow> transaction res" where
  "routing_failed env td cb x =
     bind_res (if map_option tp_at (sc_tp cb) = x_transport x then tsx_update_transport None x else Inr x) (\<lambda>x.
       let err = - sc_sent cb in
       if \<not> sc_cont cb \<or> x_pend_destroy x
       then
         let x = x\<lparr>x_transport_err := err, x_pend_transport := False, x_resolved := True\<rparr>;
             sc = (if err = PJ_ERESOLVE \<or> err = PJLIB_UTIL_EDNS_NXDOMAIN then PJSIP_SC_BAD_GATEWAY
                   else PJSIP_SC_TSX_TRANSPORT_ERROR);
             x = tsx_set_status_code sc (Some (fe_strerror env err)) x
         in if x_state x \<noteq> PJSIP_TSX_STATE_TERMINATED \<and> x_state x \<noteq> PJSIP_TSX_STATE_DESTROYED
            then tsx_set_state env PJSIP_TSX_STATE_TERMINATED SrcTransportError False False x
            else if x_pend_destroy x then tsx_set_state env PJSIP_TSX_STATE_DESTROYED SrcTransportError False False x
            else Inr x
       else
         bind_res (if tm_id (x_timeout x) \<noteq> TIMER_INACTIVE then restart_timer TimeoutTimer (fe_td env) TIMEOUT_TIMER (x\<lparr>x_retransmit_count := 0\<rparr>)
                   else Inr (x\<lparr>x_retransmit_count := 0\<rparr>)) (\<lambda>x.
           Inr (pj_grp_lock_add_ref (x\<lparr>x_attached := td_at td # x_attached x, x_pending_tx := Some td\<rparr>))))"

definition send_msg_callback :: "fsm_env \<Rightarrow> tdata \<Rightarrow> sent_cb \<Rightarrow> transaction \<Rightarrow> (bool \<times> transaction) res" where
  "send_msg_callback env td cb x =
     (if fe_mod_id env < 0 then Inr (False, x)
      else if td_at td \<notin> set (x_attached x)
      then if x_freed x then Inl UseAfterFree else Inr (False, pj_grp_lock_dec_ref x)
      else locked (\<lambda>x.
        let x = (detach td (pj_grp_lock_dec_ref x))\<lparr>x_pending_tx := None\<rparr>
        in bind_res (if sc_sent cb > 0 then routing_sent env cb x
                     else if sc_sent cb = 0 then Inl AssertFail
                     else routing_failed env td cb x) (\<lambda>x. Inr (sc_cont cb, x))) x)"

text \<open>The routing gives its reference to the message back when it is done.\<close>

fun route_callbacks :: "fsm_env \<Rightarrow> tdata \<Rightarrow> sent_cb list \<Rightarrow> transaction \<Rightarrow> transaction res" where
  "route_callbacks env td [] x = Inr (x\<lparr>x_routing := x_routing x @ [td]\<rparr>)"
| "route_callbacks env td (cb # cbs) x =
     bind_res (send_msg_callback env td cb x) (\<lambda>(cont, x).
       if sc_sent cb > 0 \<or> \<not> cont then Inr (logged (TxDecRef (td_at td)) x) else route_callbacks env td cbs x)"

definition is_request :: "tdata \<Rightarrow> bool" where
  "is_request td \<longleftrightarrow> (case line (t_msg (td_data td)) of ReqLine m u \<Rightarrow> True | StatusLine c r \<Rightarrow> False)"

definition tsx_send_msg :: "fsm_env \<Rightarrow> tdata \<Rightarrow> transaction \<Rightarrow> (int \<times> transaction) res" where
  "tsx_send_msg env td x =
     bind_res (tsx_send_known env td x) (\<lambda>(status, x).
       case status of
         Some s \<Rightarrow> Inr (s, x)
       | None \<Rightarrow>
           let x = logged (TxAddRef (td_at td)) x;
               x = pj_grp_lock_add_ref (x\<lparr>x_attached := td_at td # x_attached x, x_pending_tx := Some td\<rparr>);
               x = x\<lparr>x_pend_transport := True\<rparr>;
               (status, cbs) = fe_route env x td;
               x = logged (RouteMessage td status) x
           in if status = PJ_SUCCESS \<or> status = PJ_EPENDING
              then bind_res (route_callbacks env td cbs x) (\<lambda>x.
                     Inr (if x_state x = PJSIP_TSX_STATE_TERMINATED then x_transport_err x else PJ_SUCCESS, x))
              else
                let x = (if is_request td then pj_grp_lock_dec_ref x else x);
                    x = logged (TxDecRef (td_at td)) x
                in Inr (status, (detach td x)\<lparr>x_pending_tx := None\<rparr>))"

text \<open>The report of a transport.\<close>

definition transport_callback :: "int \<Rightarrow> transaction \<Rightarrow> transaction res" where
  "transport_callback sent x =
     bind_res (locked (\<lambda>x. Inr ((), x\<lparr>x_pend_transport := False\<rparr>)) x) (\<lambda>(u, x).
     bind_res (if sent < 0 then post_transport_error (- sent) x else Inr x) (\<lambda>x.
       Inr (pj_grp_lock_dec_ref x)))"

definition tsx_retransmit :: "fsm_env \<Rightarrow> bool \<Rightarrow> transaction \<Rightarrow> (int \<times> transaction) res" where
  "tsx_retransmit env resched x =
     (if resched \<and> running RetransmitTimer x then Inr (PJ_SUCCESS, x)
      else case x_last_tx x of
        None \<Rightarrow> Inl AssertFail
      | Some td \<Rightarrow>
          let x = x\<lparr>x_retransmit_count := x_retransmit_count x + 1\<rparr>
          in bind_res (if resched
                       then if x_state x = PJSIP_TSX_STATE_CONFIRMED then Inl AssertFail
                            else if x_pend_transport x then Inr (x\<lparr>x_pend_resched := True\<rparr>)
                            else tsx_resched_retransmission env x
                       else Inr x) (\<lambda>x. tsx_send_msg env td x))"

end
