(* ===== verification/TsxStates.thy ===== *)
theory TsxStates
  imports TsxFsm
begin

text \<open>
  The handlers of the states of a transaction, its creation, the calls of its user, and its histories
  (\<open>3rd/src/pjsip/sip_transaction.c\<close>, \<open>sip_util_statefull.c\<close>).
\<close>

section \<open>The handlers\<close>

datatype tsx_ev = EvTimer timer_name | EvTx tdata | EvRx rx_data

definition is_invite :: "transaction \<Rightarrow> bool" where
  "is_invite x \<longleftrightarrow> m_id (x_method x) = PJSIP_INVITE_METHOD"

definition done_with :: "transaction res \<Rightarrow> (int \<times> transaction) res" where
  "done_with r = bind_res r (\<lambda>x. Inr (PJ_SUCCESS, x))"

text \<open>\<open>last_tx\<close> is replaced, with the references to both messages.\<close>

definition drop_other :: "tdata \<Rightarrow> transaction \<Rightarrow> transaction" where
  "drop_other td x =
     (case x_last_tx x of
        Some l \<Rightarrow> if td_at l \<noteq> td_at td then logged (TxDecRef (td_at l)) (x\<lparr>x_last_tx := None\<rparr>) else x
      | None \<Rightarrow> x)"

definition keep_last :: "tdata \<Rightarrow> transaction \<Rightarrow> transaction" where
  "keep_last td x =
     (if map_option td_at (x_last_tx x) \<noteq> Some (td_at td) then logged (TxAddRef (td_at td)) (x\<lparr>x_last_tx := Some td\<rparr>) else x)"

definition start_retransmission :: "nat \<Rightarrow> transaction \<Rightarrow> transaction res" where
  "start_retransmission delay x =
     (let x = x\<lparr>x_retransmit_count := 0\<rparr>
      in if x_pend_transport x then Inr (x\<lparr>x_pend_resched := True\<rparr>)
         else tsx_schedule_timer RetransmitTimer delay RETRANSMIT_TIMER x)"

definition tsx_on_state_null :: "fsm_env \<Rightarrow> tsx_ev \<Rightarrow> transaction \<Rightarrow> (int \<times> transaction) res" where
  "tsx_on_state_null env ev x =
     (if x_role x = PJSIP_ROLE_UAS
      then (case ev of
              EvRx rdata \<Rightarrow>
                (case line (rx_msg rdata) of
                   ReqLine m u \<Rightarrow> done_with (tsx_set_state env PJSIP_TSX_STATE_TRYING (SrcRxMsg rdata) False False x)
                 | StatusLine c r \<Rightarrow> Inl AssertFail)
            | _ \<Rightarrow> Inl AssertFail)
      else (case ev of
              EvTx td \<Rightarrow>
                bind_res (tsx_send_msg env td (keep_last td (drop_other td x))) (\<lambda>(status, x).
                  if status \<noteq> PJ_SUCCESS then Inr (status, x)
                  else done_with (bind_res (restart_timer TimeoutTimer (fe_td env) TIMEOUT_TIMER x) (\<lambda>x.
                    bind_res (if x_is_reliable x then Inr x else start_retransmission (fe_t1 env) x)
                      (tsx_set_state env PJSIP_TSX_STATE_CALLING (SrcTxMsg td) False False))))
            | _ \<Rightarrow> Inl AssertFail))"

text \<open>A final response of a client transaction that is not a 2xx; INVITE is acknowledged.\<close>

definition final_delay :: "fsm_env \<Rightarrow> transaction \<Rightarrow> nat" where
  "final_delay env x = (if x_is_reliable x then 0 else if is_invite x then fe_td env else fe_t4 env)"

definition replace_last :: "tdata \<Rightarrow> transaction \<Rightarrow> transaction res" where
  "replace_last ack x =
     (case x_last_tx x of
        None \<Rightarrow> Inl AssertFail
      | Some l \<Rightarrow> Inr (if td_at ack \<noteq> td_at l then logged (TxDecRef (td_at l)) (x\<lparr>x_last_tx := Some ack\<rparr>) else x))"

definition send_ack :: "fsm_env \<Rightarrow> rx_data \<Rightarrow> transaction \<Rightarrow> (int \<times> tdata option \<times> transaction) res" where
  "send_ack env rdata x =
     (case x_last_tx x of
        None \<Rightarrow> Inl AssertFail
      | Some l \<Rightarrow>
          let (alloc, endpt, rport, uniq, rand, addr) = fe_ack env
          in bind_res (pjsip_endpt_create_ack alloc endpt rport uniq rand (t_msg (td_data l)) rdata) (\<lambda>(status, td).
               case td of
                 None \<Rightarrow> Inr (status, None, x)
               | Some m \<Rightarrow>
                   if status \<noteq> PJ_SUCCESS then Inr (status, None, x)
                   else
                     let ack = \<lparr>td_at = addr, td_data = m\<rparr>
                     in bind_res (tsx_send_msg env ack (logged (TxAddRef addr) x)) (\<lambda>(status, x).
                          Inr (status, Some ack, x))))"

definition failure_response :: "fsm_env \<Rightarrow> rx_data \<Rightarrow> transaction \<Rightarrow> (int \<times> transaction) res" where
  "failure_response env rdata x =
     (let x = tsx_cancel_timer TimeoutTimer (tsx_cancel_timer RetransmitTimer x)
      in bind_res (if is_invite x then send_ack env rdata x else Inr (PJ_SUCCESS, None, x)) (\<lambda>(status, ack, x).
           if status \<noteq> PJ_SUCCESS then Inr (status, x)
           else done_with (bind_res (tsx_set_state env PJSIP_TSX_STATE_COMPLETED (SrcRxMsg rdata) False False x) (\<lambda>x.
             bind_res (case ack of None \<Rightarrow> Inr x | Some a \<Rightarrow> replace_last a x) (\<lambda>x.
               restart_timer TimeoutTimer (final_delay env x) TIMEOUT_TIMER x)))))"

definition success_response :: "fsm_env \<Rightarrow> rx_data \<Rightarrow> transaction \<Rightarrow> transaction res" where
  "success_response env rdata x =
     (let x = tsx_cancel_timer TimeoutTimer x
      in if is_invite x then tsx_set_state env PJSIP_TSX_STATE_TERMINATED (SrcRxMsg rdata) False False x
         else bind_res (tsx_schedule_timer TimeoutTimer (final_delay env x) TIMEOUT_TIMER x) (\<lambda>x.
           tsx_set_state env PJSIP_TSX_STATE_COMPLETED (SrcRxMsg rdata) False False (tsx_cancel_timer RetransmitTimer x)))"

definition timed_out :: "fsm_env \<Rightarrow> transaction \<Rightarrow> transaction res" where
  "timed_out env x =
     tsx_set_state env PJSIP_TSX_STATE_TERMINATED (SrcTimer TimeoutTimer) False False
       (tsx_set_status_code PJSIP_SC_TSX_TIMEOUT None x)"

definition tsx_on_state_proceeding_uac :: "fsm_env \<Rightarrow> tsx_ev \<Rightarrow> transaction \<Rightarrow> (int \<times> transaction) res" where
  "tsx_on_state_proceeding_uac env ev x =
     (case ev of
        EvTimer RetransmitTimer \<Rightarrow> tsx_retransmit env True x
      | EvTimer TimeoutTimer \<Rightarrow> done_with (timed_out env x)
      | EvTx td \<Rightarrow> Inl AssertFail
      | EvRx rdata \<Rightarrow>
          (case line (rx_msg rdata) of
             ReqLine m u \<Rightarrow> Inl AssertFail
           | StatusLine code reason \<Rightarrow>
               let x = tsx_set_status_code code (Some reason) x
               in if status_in_class code 100
                  then done_with (tsx_set_state env PJSIP_TSX_STATE_PROCEEDING (SrcRxMsg rdata) False False x)
                  else if status_in_class code 200 then done_with (success_response env rdata x)
                  else if 300 \<le> code \<and> code \<le> 699 then failure_response env rdata x
                  else Inl AssertFail))"

text \<open>The timers a response stops before it is treated as in state Proceeding.\<close>

definition response_timers :: "fsm_env \<Rightarrow> int \<Rightarrow> transaction \<Rightarrow> transaction res" where
  "response_timers env code x =
     (let x = tsx_cancel_timer RetransmitTimer x
      in if code \<ge> 200
         then Inr (if tm_id (x_timeout x) \<noteq> TIMER_INACTIVE then tsx_cancel_timer TimeoutTimer x else x)
         else if is_invite x then Inr (tsx_cancel_timer TimeoutTimer x)
         else if \<not> x_is_reliable x then tsx_schedule_timer RetransmitTimer (fe_t2 env) RETRANSMIT_TIMER x
         else Inr x)"

definition tsx_on_state_calling :: "fsm_env \<Rightarrow> tsx_ev \<Rightarrow> transaction \<Rightarrow> (int \<times> transaction) res" where
  "tsx_on_state_calling env ev x =
     (if x_role x \<noteq> PJSIP_ROLE_UAC then Inl AssertFail
      else case ev of
        EvTimer RetransmitTimer \<Rightarrow> tsx_retransmit env True x
      | EvTimer TimeoutTimer \<Rightarrow>
          done_with (timed_out env ((tsx_cancel_timer RetransmitTimer x)\<lparr>x_pend_resched := False\<rparr>))
      | EvRx rdata \<Rightarrow>
          (case line (rx_msg rdata) of
             ReqLine m u \<Rightarrow> Inr (PJSIP_ENOTRESPONSEMSG, x)
           | StatusLine code reason \<Rightarrow>
               bind_res (response_timers env code x) (\<lambda>x.
               bind_res (tsx_on_state_proceeding_uac env ev (x\<lparr>x_pend_resched := False\<rparr>)) (\<lambda>(status, x).
                 Inr (PJ_SUCCESS, x))))
      | EvTx td \<Rightarrow> Inl AssertFail)"

text \<open>The responses a server transaction sends, by their class.\<close>

definition provisional_sent :: "fsm_env \<Rightarrow> tdata \<Rightarrow> transaction \<Rightarrow> transaction res" where
  "provisional_sent env td x =
     bind_res (tsx_set_state env PJSIP_TSX_STATE_PROCEEDING (SrcTxMsg td) False False (keep_last td x)) (\<lambda>x.
       if is_invite x \<and> x_status_code x > 100 then start_retransmission 60000 (tsx_cancel_timer RetransmitTimer x)
       else Inr x)"

definition server_timeout :: "fsm_env \<Rightarrow> transaction \<Rightarrow> nat" where
  "server_timeout env x = (if is_invite x \<or> \<not> x_is_reliable x then fe_td env else 0)"

definition success_sent :: "fsm_env \<Rightarrow> tdata \<Rightarrow> transaction \<Rightarrow> transaction res" where
  "success_sent env td x =
     (let x = tsx_cancel_timer RetransmitTimer x
      in if is_invite x \<and> \<not> x_handle_200resp x
         then tsx_set_state env PJSIP_TSX_STATE_TERMINATED (SrcTxMsg td) False False x
         else bind_res (if is_invite x then start_retransmission (fe_t1 env) x else Inr x) (\<lambda>x.
           bind_res (restart_timer TimeoutTimer (server_timeout env x) TIMEOUT_TIMER (keep_last td x))
             (tsx_set_state env PJSIP_TSX_STATE_COMPLETED (SrcTxMsg td) False False)))"

definition cseq_method :: "pjsip_msg \<Rightarrow> pjsip_method res" where
  "cseq_method msg =
     (case find_named msg PJSIP_H_CSEQ of
        None \<Rightarrow> Inl NullDeref
      | Some h \<Rightarrow> (case h_val h of HCseq n m \<Rightarrow> Inr m | _ \<Rightarrow> Inl OutOfBounds))"

definition failure_sent :: "fsm_env \<Rightarrow> tdata \<Rightarrow> transaction \<Rightarrow> transaction res" where
  "failure_sent env td x =
     bind_res (restart_timer TimeoutTimer (server_timeout env x) TIMEOUT_TIMER
                 (keep_last td (tsx_cancel_timer RetransmitTimer x))) (\<lambda>x.
     bind_res (if x_is_reliable x then Inr x
               else bind_res (cseq_method (t_msg (td_data td))) (\<lambda>m.
                 if m_id m = PJSIP_INVITE_METHOD then start_retransmission (fe_t1 env) x else Inr x))
       (tsx_set_state env PJSIP_TSX_STATE_COMPLETED (SrcTxMsg td) False False))"

definition tsx_on_state_proceeding_uas :: "fsm_env \<Rightarrow> tsx_ev \<Rightarrow> transaction \<Rightarrow> (int \<times> transaction) res" where
  "tsx_on_state_proceeding_uas env ev x =
     (if x_role x \<noteq> PJSIP_ROLE_UAS then Inl AssertFail
      else case ev of
        EvRx rdata \<Rightarrow>
          (case x_last_tx x of
             None \<Rightarrow> Inl AssertFail
           | Some td \<Rightarrow>
               if x_pend_transport x then Inr (PJ_SUCCESS, x\<lparr>x_pend_send := True\<rparr>) else tsx_send_msg env td x)
      | EvTx td \<Rightarrow>
          (case line (t_msg (td_data td)) of
             ReqLine m u \<Rightarrow> Inl AssertFail
           | StatusLine code reason \<Rightarrow>
               bind_res (tsx_send_msg env td (drop_other td (tsx_set_status_code code (Some reason) x))) (\<lambda>(status, x).
                 if status \<noteq> PJ_SUCCESS then Inr (status, x)
                 else if status_in_class (x_status_code x) 100 then done_with (provisional_sent env td x)
                 else if status_in_class (x_status_code x) 200 then done_with (success_sent env td x)
                 else if x_status_code x \<ge> 300 then done_with (failure_sent env td x)
                 else Inl AssertFail))
      | EvTimer RetransmitTimer \<Rightarrow>
          if x_pend_transport x \<or> x_last_tx x = None then Inl AssertFail else tsx_retransmit env True x
      | EvTimer TimeoutTimer \<Rightarrow> Inl AssertFail)"

definition tsx_on_state_trying :: "fsm_env \<Rightarrow> tsx_ev \<Rightarrow> transaction \<Rightarrow> (int \<times> transaction) res" where
  "tsx_on_state_trying env ev x =
     (if x_role x \<noteq> PJSIP_ROLE_UAS then Inl AssertFail
      else case ev of
        EvTx td \<Rightarrow>
          bind_res (tsx_on_state_proceeding_uas env ev x) (\<lambda>(status, x).
            if status = PJ_SUCCESS \<and> x_state x = PJSIP_TSX_STATE_TRYING
            then bind_res (tsx_set_state env PJSIP_TSX_STATE_PROCEEDING (SrcTxMsg td) False False x) (\<lambda>x. Inr (status, x))
            else Inr (status, x))
      | _ \<Rightarrow> Inr (PJ_SUCCESS, x))"

definition tsx_on_state_completed_uas :: "fsm_env \<Rightarrow> tsx_ev \<Rightarrow> transaction \<Rightarrow> (int \<times> transaction) res" where
  "tsx_on_state_completed_uas env ev x =
     (case ev of
        EvRx rdata \<Rightarrow>
          (case line (rx_msg rdata) of
             StatusLine c r \<Rightarrow> Inr (PJSIP_ENOTREQUESTMSG, x)
           | ReqLine m u \<Rightarrow>
               if m_id m \<noteq> PJSIP_ACK_METHOD then tsx_retransmit env False x
               else if \<not> is_invite x then Inr (PJSIP_EINVALIDMETHOD, x)
               else
                 let x = (tsx_cancel_timer RetransmitTimer x)\<lparr>x_pend_resched := False\<rparr>
                 in done_with (bind_res (restart_timer TimeoutTimer (if x_is_reliable x then 0 else fe_t4 env) TIMEOUT_TIMER x)
                          (tsx_set_state env PJSIP_TSX_STATE_CONFIRMED (SrcRxMsg rdata) False False)))
      | EvTimer RetransmitTimer \<Rightarrow> tsx_retransmit env True x
      | EvTimer TimeoutTimer \<Rightarrow>
          if is_invite x then done_with (timed_out env x)
          else done_with (tsx_set_state env PJSIP_TSX_STATE_TERMINATED (SrcTimer TimeoutTimer) False False x)
      | EvTx td \<Rightarrow> if map_option td_at (x_last_tx x) = Some (td_at td) then Inr (PJ_SUCCESS, x) else Inl AssertFail)"

definition tsx_on_state_completed_uac :: "fsm_env \<Rightarrow> tsx_ev \<Rightarrow> transaction \<Rightarrow> (int \<times> transaction) res" where
  "tsx_on_state_completed_uac env ev x =
     (case ev of
        EvTimer RetransmitTimer \<Rightarrow> Inr (PJ_SUCCESS, x)
      | EvTimer TimeoutTimer \<Rightarrow>
          done_with (tsx_set_state env PJSIP_TSX_STATE_TERMINATED (SrcTimer TimeoutTimer) False False x)
      | EvRx rdata \<Rightarrow>
          if \<not> is_invite x then Inr (PJ_SUCCESS, x)
          else (case line (rx_msg rdata) of
                  ReqLine m u \<Rightarrow> Inl AssertFail
                | StatusLine code reason \<Rightarrow> if code \<ge> 200 then tsx_retransmit env False x else Inr (PJ_SUCCESS, x))
      | EvTx td \<Rightarrow> Inl AssertFail)"

definition tsx_on_state_confirmed :: "fsm_env \<Rightarrow> tsx_ev \<Rightarrow> transaction \<Rightarrow> (int \<times> transaction) res" where
  "tsx_on_state_confirmed env ev x =
     (if x_role x \<noteq> PJSIP_ROLE_UAS \<or> \<not> is_invite x then Inl AssertFail
      else case ev of
        EvRx rdata \<Rightarrow>
          (case line (rx_msg rdata) of
             StatusLine c r \<Rightarrow> Inr (PJSIP_ENOTREQUESTMSG, x)
           | ReqLine m u \<Rightarrow>
               if m_id m = PJSIP_ACK_METHOD \<or> m_id m = PJSIP_INVITE_METHOD then Inr (PJ_SUCCESS, x) else Inl AssertFail)
      | EvTimer RetransmitTimer \<Rightarrow> Inr (PJ_SUCCESS, x)
      | EvTimer TimeoutTimer \<Rightarrow>
          done_with (tsx_set_state env PJSIP_TSX_STATE_TERMINATED (SrcTimer TimeoutTimer) False False x)
      | EvTx td \<Rightarrow> Inl AssertFail)"

definition tsx_on_state_terminated :: "fsm_env \<Rightarrow> tsx_ev \<Rightarrow> transaction \<Rightarrow> (int \<times> transaction) res" where
  "tsx_on_state_terminated env ev x =
     (case ev of
        EvTimer n \<Rightarrow> done_with (tsx_set_state env PJSIP_TSX_STATE_DESTROYED (SrcTimer n) False False x)
      | _ \<Rightarrow> Inr (PJ_EIGNORED, x))"

definition tsx_on_state_destroyed :: "fsm_env \<Rightarrow> tsx_ev \<Rightarrow> transaction \<Rightarrow> (int \<times> transaction) res" where
  "tsx_on_state_destroyed env ev x = Inr (PJ_EIGNORED, x)"

text \<open>The two tables of handlers; both have an empty entry.\<close>

definition state_handler :: "fsm_env \<Rightarrow> tsx_ev \<Rightarrow> transaction \<Rightarrow> (int \<times> transaction) res" where
  "state_handler env ev x =
     (case x_state x of
        PJSIP_TSX_STATE_NULL \<Rightarrow> tsx_on_state_null env ev x
      | PJSIP_TSX_STATE_CALLING \<Rightarrow>
          if x_role x = PJSIP_ROLE_UAC then tsx_on_state_calling env ev x else Inl NullDeref
      | PJSIP_TSX_STATE_TRYING \<Rightarrow>
          if x_role x = PJSIP_ROLE_UAC then Inl NullDeref else tsx_on_state_trying env ev x
      | PJSIP_TSX_STATE_PROCEEDING \<Rightarrow>
          if x_role x = PJSIP_ROLE_UAC then tsx_on_state_proceeding_uac env ev x
          else tsx_on_state_proceeding_uas env ev x
      | PJSIP_TSX_STATE_COMPLETED \<Rightarrow>
          if x_role x = PJSIP_ROLE_UAC then tsx_on_state_completed_uac env ev x
          else tsx_on_state_completed_uas env ev x
      | PJSIP_TSX_STATE_CONFIRMED \<Rightarrow> tsx_on_state_confirmed env ev x
      | PJSIP_TSX_STATE_TERMINATED \<Rightarrow> tsx_on_state_terminated env ev x
      | PJSIP_TSX_STATE_DESTROYED \<Rightarrow> tsx_on_state_destroyed env ev x)"

section \<open>Timers, messages and the calls of the user\<close>

definition transport_error_event :: "fsm_env \<Rightarrow> transaction \<Rightarrow> transaction res" where
  "transport_error_event env x =
     (if \<not> x_state x < PJSIP_TSX_STATE_TERMINATED then Inr x
      else
        let prev = x_state x
        in bind_res (locked (\<lambda>x.
             bind_res (tsx_update_transport None x) (\<lambda>x.
             let x = (if x_status_code x < 200
                      then tsx_set_status_code PJSIP_SC_TSX_TRANSPORT_ERROR (Some (fe_strerror env (x_transport_err x))) x
                      else x)
             in bind_res (tsx_set_state env PJSIP_TSX_STATE_TERMINATED SrcTransportError True True x) (\<lambda>x. Inr ((), x)))) x) (\<lambda>(u, x).
           tsx_schedule_timer TimeoutTimer 0 TIMEOUT_TIMER (notify_state env prev SrcTransportError x)))"

definition tsx_timer_callback :: "fsm_env \<Rightarrow> timer_name \<Rightarrow> transaction \<Rightarrow> transaction res" where
  "tsx_timer_callback env n x =
     (if x_freed x then Inl UseAfterFree
      else
        let entry = timer_of n x;
            x = set_timer n (entry\<lparr>tm_id := 0\<rparr>) x
        in if tm_id entry = TRANSPORT_ERR_TIMER then transport_error_event env x
           else bind_res (locked (state_handler env (EvTimer n)) x) (\<lambda>(status, x). Inr x))"

definition pjsip_tsx_send_msg :: "fsm_env \<Rightarrow> tdata option \<Rightarrow> transaction \<Rightarrow> (int \<times> transaction) res" where
  "pjsip_tsx_send_msg env td x =
     (case (case td of None \<Rightarrow> x_last_tx x | Some t \<Rightarrow> Some t) of
        None \<Rightarrow> Inl AssertFail
      | Some td \<Rightarrow>
          bind_res (locked (\<lambda>x. state_handler env (EvTx td) (logged (TxSetTransport (td_at td) (x_tp_sel x)) x)) x) (\<lambda>(status, x).
            Inr (status, if status = PJ_SUCCESS then logged (TxDecRef (td_at td)) x else x)))"

definition pjsip_tsx_recv_msg :: "fsm_env \<Rightarrow> rx_data \<Rightarrow> transaction \<Rightarrow> transaction res" where
  "pjsip_tsx_recv_msg env rdata x =
     bind_res (locked (state_handler env (EvRx rdata)) x) (\<lambda>(status, x). Inr x)"

definition pjsip_tsx_terminate :: "fsm_env \<Rightarrow> int \<Rightarrow> transaction \<Rightarrow> transaction res" where
  "pjsip_tsx_terminate env code x =
     (if \<not> 200 \<le> code then Inl AssertFail
      else bind_res (locked (\<lambda>x.
        if x_state x < PJSIP_TSX_STATE_TERMINATED
        then done_with (tsx_set_state env PJSIP_TSX_STATE_TERMINATED SrcUser False False (tsx_set_status_code code None x))
        else Inr (PJ_SUCCESS, x)) x) (\<lambda>(status, x). Inr x))"

definition pjsip_tsx_set_transport :: "nat option \<Rightarrow> transaction \<Rightarrow> transaction res" where
  "pjsip_tsx_set_transport sel x =
     bind_res (locked (\<lambda>x.
       Inr (PJ_SUCCESS, logged (SelectorAddRef sel) ((logged (SelectorDecRef (x_tp_sel x)) x)\<lparr>x_tp_sel := sel\<rparr>))) x)
       (\<lambda>(status, x). Inr x)"

definition pjsip_tsx_stop_retransmit :: "transaction \<Rightarrow> transaction res" where
  "pjsip_tsx_stop_retransmit x =
     (if x_role x \<noteq> PJSIP_ROLE_UAC \<or> \<not> is_invite x then Inl AssertFail
      else bind_res (locked (\<lambda>x. Inr (PJ_SUCCESS, tsx_cancel_timer RetransmitTimer x)) x) (\<lambda>(status, x). Inr x))"

definition pjsip_tsx_set_timeout :: "nat \<Rightarrow> transaction \<Rightarrow> (int \<times> transaction) res" where
  "pjsip_tsx_set_timeout millisec x =
     (if x_role x \<noteq> PJSIP_ROLE_UAC \<or> \<not> is_invite x then Inl AssertFail
      else if x_freed x then Inl UseAfterFree
      else if x_status_code x \<ge> 200 \<and> tm_id (x_timeout x) \<noteq> TIMER_INACTIVE then Inr (PJ_EEXISTS, x)
      else done_with (restart_timer TimeoutTimer millisec TIMEOUT_TIMER x))"

definition pjsip_tsx_retransmit_no_state :: "fsm_env \<Rightarrow> tdata option \<Rightarrow> transaction \<Rightarrow> (int \<times> transaction) res" where
  "pjsip_tsx_retransmit_no_state env td x =
     bind_res (locked (\<lambda>x.
       case td of
         Some t \<Rightarrow> bind_res (tsx_send_msg env t x) (\<lambda>(status, x). Inr ((status, t), x))
       | None \<Rightarrow>
           (case x_last_tx x of
              None \<Rightarrow> Inl NullDeref
            | Some t \<Rightarrow> bind_res (tsx_send_msg env t (logged (TxAddRef (td_at t)) x)) (\<lambda>(status, x). Inr ((status, t), x)))) x)
       (\<lambda>((status, t), x). Inr (status, if status = PJ_SUCCESS then logged (TxDecRef (td_at t)) x else x))"

text \<open>
  The transaction layer hands a response to the transaction of its key; the result tells whether that is
  this one and has not terminated.
\<close>

definition key_of_response :: "rx_data \<Rightarrow> string res" where
  "key_of_response rdata =
     bind_res (method_of rdata) (\<lambda>m. pjsip_tsx_create_key PJSIP_ROLE_UAC m rdata)"

definition mod_tsx_layer_on_rx_response :: "fsm_env \<Rightarrow> rx_data \<Rightarrow> transaction \<Rightarrow> (int \<times> transaction) res" where
  "mod_tsx_layer_on_rx_response env rdata x =
     bind_res (key_of_response rdata) (\<lambda>key.
     bind_res (pj_hash_get_lower (x_layer x) key 0) (\<lambda>(found, hval).
       if found \<noteq> Some (tsx_addr (x_ref x)) \<or> x_state x = PJSIP_TSX_STATE_TERMINATED then Inr (0, x)
       else bind_res (pjsip_tsx_recv_msg env rdata (pj_grp_lock_add_ref x)) (\<lambda>x. Inr (1, pj_grp_lock_dec_ref x))))"

end
