(* ===== verification/TsxRun.thy ===== *)
theory TsxRun
  imports TsxStates
begin

text \<open>
  The creation of transactions, \<open>pjsip_endpt_send_request\<close>, and the histories of a transaction: what its
  user, the network, the transports and the clock may do to it, one after the other.
\<close>

section \<open>Creation\<close>

text \<open>
  What creation finds: whether the pool is there, the statuses of the creation of the lock and of the
  mutex, a unique string, the switch for \<open>sips\<close> destinations, the address of the new transaction, the
  clock and the table of the layer.
\<close>

record create_env =
  ce_pool :: bool
  ce_lock :: int
  ce_mutex :: int
  ce_unique :: string
  ce_tls :: bool
  ce_addr :: nat
  ce_now :: nat
  ce_layer :: "nat hash_table"

definition timer0 :: pj_timer where
  "timer0 = \<lparr>tm_id = TIMER_INACTIVE, tm_expiry = None\<rparr>"

definition tsx_zero :: "create_env \<Rightarrow> tsx_user \<Rightarrow> transaction" where
  "tsx_zero ce tu =
     \<lparr>x_ref = \<lparr>tsx_addr = ce_addr ce, transaction_key = [], hashed_key = 0\<rparr>, x_role = PJSIP_ROLE_UAC,
      x_method = \<lparr>m_id = PJSIP_INVITE_METHOD, m_name = []\<rparr>, x_cseq = 0, x_branch = [], x_user = Some tu,
      x_terminating = False, x_refs = 0, x_freed = False, x_state = PJSIP_TSX_STATE_NULL, x_status_code = 0,
      x_status_text = [], x_handle_200resp = True, x_transport = None, x_is_reliable = False, x_addr = [],
      x_res_tp = None, x_pend_transport = False, x_pend_resched = False, x_pend_send = False,
      x_pend_destroy = False, x_resolved = False, x_transport_err = 0, x_tp_sel = None, x_last_tx = None,
      x_pending_tx = None, x_attached = [], x_retransmit_count = 0, x_retransmit = timer0, x_timeout = timer0,
      x_mod_data = False, x_waiting = [], x_routing = [], x_fired = [], x_now = ce_now ce,
      x_layer = ce_layer ce, x_log = []\<rparr>"

text \<open>\<open>None\<close>: no transaction was made. One that is made and then shut down is returned with the failure.\<close>

definition tsx_create :: "create_env \<Rightarrow> tsx_user \<Rightarrow> (int \<times> transaction option) res" where
  "tsx_create ce tu =
     (if \<not> ce_pool ce then Inr (PJ_ENOMEM, None)
      else if ce_lock ce \<noteq> PJ_SUCCESS then Inr (ce_lock ce, None)
      else
        let x = pj_grp_lock_add_ref (tsx_zero ce tu)
        in if ce_mutex ce \<noteq> PJ_SUCCESS then bind_res (tsx_shutdown x) (\<lambda>x. Inr (ce_mutex ce, None))
           else Inr (PJ_SUCCESS, Some x))"

definition key_ref :: "nat \<Rightarrow> string \<Rightarrow> tsx_ref" where
  "key_ref addr key = \<lparr>tsx_addr = addr, transaction_key = key, hashed_key = fst (pj_hash_calc_tolower 0 [] key)\<rparr>"

text \<open>The request with a Via that has a branch, and the branch.\<close>

definition with_via :: "pjsip_msg \<Rightarrow> pjsip_msg \<times> nat" where
  "with_via msg =
     (case pjsip_msg_find_hdr msg PJSIP_H_VIA None of
        Some i \<Rightarrow> (msg, i)
      | None \<Rightarrow> (pjsip_msg_insert_first_hdr msg pjsip_via_hdr_create, 0))"

definition with_branch :: "string \<Rightarrow> pjsip_msg \<Rightarrow> (pjsip_msg \<times> string) res" where
  "with_branch unique msg =
     (let (msg, i) = with_via msg in
      bind_res (via_of (hdrs msg ! i)) (\<lambda>via.
        if v_branch_param via \<noteq> [] then Inr (msg, v_branch_param via)
        else
          let branch = PJSIP_RFC3261_BRANCH_ID @ ''Pj'' @ unique
          in Inr (msg\<lparr>hdrs := (hdrs msg)[i := (hdrs msg ! i)\<lparr>h_val := HVia (via\<lparr>v_branch_param := branch\<rparr>)\<rparr>]\<rparr>, branch)))"

definition fail_created :: "int \<Rightarrow> tdata \<Rightarrow> transaction \<Rightarrow> (int \<times> tdata \<times> transaction option) res" where
  "fail_created status td x = bind_res (tsx_shutdown x) (\<lambda>x. Inr (status, td, Some x))"

text \<open>A status of \<open>mod_tsx_layer_register_tsx\<close>, with the table in the transaction.\<close>

definition register_tsx :: "transaction \<Rightarrow> (int \<times> transaction) res" where
  "register_tsx x =
     bind_res (mod_tsx_layer_register_tsx (x_layer x) (x_ref x)) (\<lambda>(status, ht). Inr (status, x\<lparr>x_layer := ht\<rparr>))"

definition pjsip_tsx_create_uac :: "create_env \<Rightarrow> tsx_user \<Rightarrow> tdata \<Rightarrow> (int \<times> tdata \<times> transaction option) res" where
  "pjsip_tsx_create_uac ce tu td =
     (let msg = t_msg (td_data td) in
      case line msg of
        StatusLine c r \<Rightarrow> Inl AssertFail
      | ReqLine m u \<Rightarrow>
          if m_id m = PJSIP_ACK_METHOD then Inl AssertFail
          else if find_named msg PJSIP_H_CSEQ = None then Inl AssertFail
          else bind_res (cseq_of (find_named msg PJSIP_H_CSEQ)) (\<lambda>cseq.
               bind_res (tsx_create ce tu) (\<lambda>(status, made).
               case made of
                 None \<Rightarrow> Inr (status, td, None)
               | Some x \<Rightarrow>
                   bind_res (with_branch (ce_unique ce) msg) (\<lambda>(msg, branch).
                   bind_res (create_tsx_key_3261 PJSIP_ROLE_UAC m branch) (\<lambda>key.
                   let td = td\<lparr>td_data := (td_data td)\<lparr>t_msg := msg\<rparr>\<rparr>;
                       x = x\<lparr>x_role := PJSIP_ROLE_UAC, x_method := pjsip_method_copy m, x_cseq := cseq, x_branch := branch,
                             x_ref := key_ref (ce_addr ce) key, x_last_tx := Some td\<rparr>;
                       x = logged (TxAddRef (td_at td)) x
                   in bind_res (pjsip_get_request_dest (ce_tls ce) (td_data td)) (\<lambda>(status, dst).
                      if status \<noteq> PJ_SUCCESS then fail_created status td x
                      else bind_res (register_tsx (x\<lparr>x_is_reliable := (d_flag dst AND 1 \<noteq> 0)\<rparr>)) (\<lambda>(status, x).
                        if status \<noteq> PJ_SUCCESS then fail_created status td x
                        else Inr (PJ_SUCCESS, td, Some x))))))))"

text \<open>\<open>tp\<close> is the transport the request came by.\<close>

definition pjsip_tsx_create_uas ::
    "create_env \<Rightarrow> tsx_user \<Rightarrow> tsx_transport \<Rightarrow> rx_data \<Rightarrow> (int \<times> transaction option) res" where
  "pjsip_tsx_create_uas ce tu tp rdata =
     (case line (rx_msg rdata) of
        StatusLine c r \<Rightarrow> Inl AssertFail
      | ReqLine m u \<Rightarrow>
          if m_id m = PJSIP_ACK_METHOD then Inl AssertFail
          else if rx_cseq rdata = None \<or> rx_via rdata = None then Inr (PJSIP_EMISSINGHDR, None)
          else bind_res (method_of rdata) (\<lambda>cm.
               bind_res (hdr_at (rx_msg rdata) (rx_cseq rdata)) (\<lambda>ch. bind_res (cseq_of (Some ch)) (\<lambda>cseq.
               if pjsip_method_cmp m cm \<noteq> 0 then Inr (PJSIP_EINVALIDHDR, None)
               else bind_res (tsx_create ce tu) (\<lambda>(status, made).
               case made of
                 None \<Rightarrow> Inr (status, None)
               | Some x \<Rightarrow>
                   bind_res (pjsip_tsx_create_key PJSIP_ROLE_UAS m rdata) (\<lambda>key.
                   bind_res (hdr_at (rx_msg rdata) (rx_via rdata)) (\<lambda>vh. bind_res (via_of vh) (\<lambda>via.
                   bind_res (pjsip_get_response_addr rdata) (\<lambda>(status, ra).
                   let fail = (\<lambda>status x. bind_res (tsx_shutdown x) (\<lambda>x. Inr (status, Some x)));
                       x = x\<lparr>x_role := PJSIP_ROLE_UAS, x_method := pjsip_method_copy m, x_cseq := cseq,
                             x_branch := v_branch_param via, x_ref := key_ref (ce_addr ce) key\<rparr>
                   in if status \<noteq> PJ_SUCCESS then fail status x
                      else bind_res (if ra_transport ra
                                     then bind_res (tsx_update_transport (Some tp) (x\<lparr>x_res_tp := Some (tp_at tp)\<rparr>)) (\<lambda>x.
                                            Inr (x\<lparr>x_addr := ra_addr ra, x_is_reliable := tp_reliable tp\<rparr>))
                                     else Inr (x\<lparr>x_is_reliable := (ra_flag ra AND 1 \<noteq> 0)\<rparr>)) (\<lambda>x.
                        bind_res (register_tsx x) (\<lambda>(status, x).
                          if status \<noteq> PJ_SUCCESS then fail status x else Inr (PJ_SUCCESS, Some x))))))))))))"

text \<open>\<open>sel\<close> is the transport selector of the message.\<close>

definition pjsip_endpt_send_request ::
    "create_env \<Rightarrow> fsm_env \<Rightarrow> nat option \<Rightarrow> tdata \<Rightarrow> (int \<times> tdata \<times> transaction option) res" where
  "pjsip_endpt_send_request ce env sel td =
     (if fe_util_id env = -1 then Inl AssertFail
      else bind_res (pjsip_tsx_create_uac ce ModStatefulUtil td) (\<lambda>(status, td, made).
        let drop_td = map_option (logged (TxDecRef (td_at td))) in
        if status \<noteq> PJ_SUCCESS then Inr (status, td, drop_td made)
        else (case made of
                None \<Rightarrow> Inl NullDeref
              | Some x \<Rightarrow>
                  bind_res (pjsip_tsx_set_transport sel x) (\<lambda>x.
                  bind_res (pjsip_tsx_send_msg env None (x\<lparr>x_mod_data := True\<rparr>)) (\<lambda>(status, x).
                    Inr (status, td, if status \<noteq> PJ_SUCCESS then drop_td (Some x) else Some x))))))"

text \<open>
  A response within a new server transaction: \<open>alloc\<close> is the status of the creation of the message and
  \<open>addr\<close> its address, \<open>tp\<close> the transport of the request.
\<close>

definition pjsip_endpt_respond ::
    "create_env \<Rightarrow> fsm_env \<Rightarrow> tsx_user \<Rightarrow> tsx_transport \<Rightarrow> int \<Rightarrow> nat \<Rightarrow> rx_data \<Rightarrow> int \<Rightarrow> string option \<Rightarrow> pjsip_hdr list \<Rightarrow>
       msg_body option \<Rightarrow> (int \<times> transaction option) res" where
  "pjsip_endpt_respond ce env tu tp alloc addr rdata st_code st_text hdr_list content =
     bind_res (pjsip_endpt_create_response alloc rdata st_code st_text) (\<lambda>(status, tdata).
       if status \<noteq> PJ_SUCCESS then Inr (status, None)
       else (case tdata of
               None \<Rightarrow> Inl NullDeref
             | Some t \<Rightarrow>
                 bind_res (clone_hdrs (t_msg t) hdr_list) (\<lambda>msg.
                 bind_res (case content of
                             None \<Rightarrow> Inr msg
                           | Some b \<Rightarrow> bind_res (pjsip_msg_body_clone b) (\<lambda>b. Inr (msg\<lparr>body := Some b\<rparr>))) (\<lambda>msg.
                 bind_res (pjsip_tsx_create_uas ce tu tp rdata) (\<lambda>(status, made).
                   if status \<noteq> PJ_SUCCESS then Inr (status, map_option (logged (TxDecRef addr)) made)
                   else (case made of
                           None \<Rightarrow> Inl NullDeref
                         | Some x \<Rightarrow>
                             bind_res (pjsip_tsx_recv_msg env rdata x) (\<lambda>x.
                             bind_res (pjsip_tsx_send_msg env (Some \<lparr>td_at = addr, td_data = t\<lparr>t_msg := msg\<rparr>\<rparr>) x) (\<lambda>(status, x).
                               Inr (status, Some (if status \<noteq> PJ_SUCCESS then logged (TxDecRef addr) x else x))))))))))"

section \<open>Histories\<close>

text \<open>
  \<open>Expire\<close> takes a timer out of the heap, \<open>Fire\<close> calls its callback; several may be on their way at
  once. \<open>SentBack\<close> is a report of the routing, \<open>TransportBack\<close> one of a transport, \<open>TransportState\<close> the
  end of the transport; other transactions come to the table of the layer and leave it.
\<close>

datatype happening =
    Response fsm_env rx_data
  | Terminate fsm_env int
  | Advance nat
  | Expire timer_name
  | FireTimer fsm_env timer_name
  | SentBack fsm_env tdata sent_cb
  | TransportBack tdata int
  | TransportState nat bool int
  | OtherRegisters tsx_ref
  | OtherUnregisters tsx_ref

definition expire :: "timer_name \<Rightarrow> transaction \<Rightarrow> transaction" where
  "expire n x = (set_timer n ((timer_of n x)\<lparr>tm_expiry := None\<rparr>) x)\<lparr>x_fired := x_fired x @ [n]\<rparr>"

text \<open>The heap gives its reference to the lock back after the callback.\<close>

definition fire :: "fsm_env \<Rightarrow> timer_name \<Rightarrow> transaction \<Rightarrow> transaction res" where
  "fire env n x =
     bind_res (tsx_timer_callback env n (x\<lparr>x_fired := remove1 n (x_fired x)\<rparr>)) (\<lambda>x. Inr (pj_grp_lock_dec_ref x))"

definition sent_back :: "fsm_env \<Rightarrow> tdata \<Rightarrow> sent_cb \<Rightarrow> transaction \<Rightarrow> transaction res" where
  "sent_back env td cb x =
     bind_res (send_msg_callback env td cb (x\<lparr>x_routing := remove1 td (x_routing x)\<rparr>)) (\<lambda>(cont, x).
       if sc_sent cb > 0 \<or> \<not> cont then Inr (logged (TxDecRef (td_at td)) x)
       else Inr (x\<lparr>x_routing := x_routing x @ [td]\<rparr>))"

fun tsx_step :: "happening \<Rightarrow> transaction \<Rightarrow> transaction res" where
  "tsx_step (Response env rdata) x = bind_res (mod_tsx_layer_on_rx_response env rdata x) (\<lambda>(taken, x). Inr x)"
| "tsx_step (Terminate env code) x = pjsip_tsx_terminate env code x"
| "tsx_step (Advance ms) x = Inr (x\<lparr>x_now := x_now x + ms\<rparr>)"
| "tsx_step (Expire n) x = Inr (expire n x)"
| "tsx_step (FireTimer env n) x = fire env n x"
| "tsx_step (SentBack env td cb) x = sent_back env td cb x"
| "tsx_step (TransportBack td sent) x = transport_callback sent (x\<lparr>x_waiting := remove1 td (x_waiting x)\<rparr>)"
| "tsx_step (TransportState tp disconnected status) x = tsx_tp_state_callback disconnected status x"
| "tsx_step (OtherRegisters ref) x =
     bind_res (mod_tsx_layer_register_tsx (x_layer x) ref) (\<lambda>(status, ht). Inr (x\<lparr>x_layer := ht\<rparr>))"
| "tsx_step (OtherUnregisters ref) x =
     bind_res (mod_tsx_layer_unregister_tsx 0 (x_layer x) ref) (\<lambda>ht. Inr (x\<lparr>x_layer := ht\<rparr>))"

text \<open>
  A response comes when the request has gone out, its user acts on a transaction that is still in the
  table, a timer expires at its time, and only what is under way is reported. Another transaction has
  another address, and a key of its own while this one is in the table.
\<close>

fun tsx_can :: "happening \<Rightarrow> transaction \<Rightarrow> bool" where
  "tsx_can (Response env rdata) x \<longleftrightarrow> x_state x \<noteq> PJSIP_TSX_STATE_NULL \<and> x_routing x = []"
| "tsx_can (Terminate env code) x \<longleftrightarrow> x_state x \<noteq> PJSIP_TSX_STATE_DESTROYED"
| "tsx_can (Advance ms) x \<longleftrightarrow> True"
| "tsx_can (Expire n) x \<longleftrightarrow> (case tm_expiry (timer_of n x) of None \<Rightarrow> False | Some t \<Rightarrow> t \<le> x_now x)"
| "tsx_can (FireTimer env n) x \<longleftrightarrow> n \<in> set (x_fired x)"
| "tsx_can (SentBack env td cb) x \<longleftrightarrow> td \<in> set (x_routing x)"
| "tsx_can (TransportBack td sent) x \<longleftrightarrow> td \<in> set (x_waiting x)"
| "tsx_can (TransportState tp disconnected status) x \<longleftrightarrow> x_transport x = Some tp"
| "tsx_can (OtherRegisters ref) x \<longleftrightarrow> tsx_ref_ok ref \<and> tsx_addr ref \<noteq> tsx_addr (x_ref x)"
| "tsx_can (OtherUnregisters ref) x \<longleftrightarrow>
     tsx_ref_ok ref \<and> tsx_addr ref \<noteq> tsx_addr (x_ref x) \<and>
     (lower_c (transaction_key ref) \<noteq> lower_c (transaction_key (x_ref x)) \<or> x_state x = PJSIP_TSX_STATE_DESTROYED)"

fun tsx_run :: "happening list \<Rightarrow> transaction \<Rightarrow> transaction res" where
  "tsx_run [] x = Inr x"
| "tsx_run (e # es) x = (if tsx_can e x then bind_res (tsx_step e x) (tsx_run es) else tsx_run es x)"

end
