(* ===== verification/TsxSafe.thy ===== *)
theory TsxSafe
  imports TsxRun
begin

text \<open>
  The client transaction of a request that is not an INVITE, made by \<open>pjsip_endpt_send_request\<close>, over any
  history: no operation faults, the references to the lock, to transports and to the message balance, and
  the callback given to it is called exactly once, when the request has come to its end.
\<close>

section \<open>What the log says\<close>

definition tp_change :: "nat \<Rightarrow> tsx_out \<Rightarrow> int" where
  "tp_change t e = (case e of TsxTpAddRef s \<Rightarrow> of_bool (s = t) | TsxTpDecRef s \<Rightarrow> - of_bool (s = t) | _ \<Rightarrow> 0)"

definition sel_change :: "nat \<Rightarrow> tsx_out \<Rightarrow> int" where
  "sel_change t e =
     (case e of SelectorAddRef s \<Rightarrow> of_bool (s = Some t) | SelectorDecRef s \<Rightarrow> - of_bool (s = Some t) | _ \<Rightarrow> 0)"

definition tx_change :: "nat \<Rightarrow> tsx_out \<Rightarrow> int" where
  "tx_change m e = (case e of TxAddRef a \<Rightarrow> of_bool (a = m) | TxDecRef a \<Rightarrow> - of_bool (a = m) | _ \<Rightarrow> 0)"

definition call_of :: "tsx_out \<Rightarrow> (int \<times> event_src) list" where
  "call_of e = (case e of UtilCallback code src \<Rightarrow> [(code, src)] | _ \<Rightarrow> [])"

text \<open>References held to transports, to selectors and to messages, and the calls of the callback.\<close>

definition tp_held :: "tsx_out list \<Rightarrow> nat \<Rightarrow> int" where
  "tp_held es t = sum_list (map (tp_change t) es)"

definition sel_held :: "tsx_out list \<Rightarrow> nat \<Rightarrow> int" where
  "sel_held es t = sum_list (map (sel_change t) es)"

definition tx_held :: "tsx_out list \<Rightarrow> nat \<Rightarrow> int" where
  "tx_held es m = sum_list (map (tx_change m) es)"

definition util_calls :: "tsx_out list \<Rightarrow> (int \<times> event_src) list" where
  "util_calls es = concat (map call_of es)"

lemmas held_defs = tp_held_def sel_held_def tx_held_def util_calls_def
lemma held_append [simp]:
  "tp_held (es @ fs) t = tp_held es t + tp_held fs t" "sel_held (es @ fs) t = sel_held es t + sel_held fs t"
  "tx_held (es @ fs) m = tx_held es m + tx_held fs m" "util_calls (es @ fs) = util_calls es @ util_calls fs"
  "tp_held [] t = 0" "sel_held [] t = 0" "tx_held [] m = 0" "util_calls [] = []"
  "tp_held (e # es) t = tp_change t e + tp_held es t" "sel_held (e # es) t = sel_change t e + sel_held es t"
  "tx_held (e # es) m = tx_change m e + tx_held es m" "util_calls (e # es) = call_of e @ util_calls es"
  by (simp_all add: held_defs)

lemmas change_defs = tp_change_def sel_change_def tx_change_def call_of_def

text \<open>The references to the lock that are accounted for, and those that are not.\<close>

definition counted :: "transaction \<Rightarrow> int" where
  "counted x =
     of_bool (\<not> x_terminating x) + of_bool (running TimeoutTimer x) + of_bool (running RetransmitTimer x) +
     int (length (x_fired x)) + int (length (x_routing x)) + int (length (x_waiting x))"

definition extra :: "transaction \<Rightarrow> int" where
  "extra x = x_refs x - counted x"

text \<open>The references to the message beyond those of \<open>last_tx\<close> and of the routing.\<close>

definition tx_extra :: "nat \<Rightarrow> transaction \<Rightarrow> int" where
  "tx_extra m x = tx_held (x_log x) m - of_bool (x_last_tx x \<noteq> None) - int (length (x_routing x))"

definition secure :: "transaction \<Rightarrow> bool" where
  "secure x \<longleftrightarrow> \<not> x_freed x \<and> 1 \<le> extra x"

lemma counted_ge: "0 \<le> counted x"
  by (simp add: counted_def)

lemma secure_refs: "secure x \<Longrightarrow> 1 \<le> x_refs x"
  using counted_ge [of x] by (simp add: secure_def extra_def)

lemma running_defs: "running TimeoutTimer x \<longleftrightarrow> tm_expiry (x_timeout x) \<noteq> None"
  "running RetransmitTimer x \<longleftrightarrow> tm_expiry (x_retransmit x) \<noteq> None"
  by (simp_all add: running_def timer_of_def)

section \<open>The facts every operation keeps\<close>

lemma cancel_simps [simp]:
  "x_ref (tsx_cancel_timer n x) = x_ref x" "x_role (tsx_cancel_timer n x) = x_role x"
  "x_method (tsx_cancel_timer n x) = x_method x" "x_cseq (tsx_cancel_timer n x) = x_cseq x"
  "x_branch (tsx_cancel_timer n x) = x_branch x" "x_user (tsx_cancel_timer n x) = x_user x"
  "x_terminating (tsx_cancel_timer n x) = x_terminating x" "x_state (tsx_cancel_timer n x) = x_state x"
  "x_status_code (tsx_cancel_timer n x) = x_status_code x" "x_status_text (tsx_cancel_timer n x) = x_status_text x"
  "x_handle_200resp (tsx_cancel_timer n x) = x_handle_200resp x" "x_transport (tsx_cancel_timer n x) = x_transport x"
  "x_is_reliable (tsx_cancel_timer n x) = x_is_reliable x" "x_addr (tsx_cancel_timer n x) = x_addr x"
  "x_res_tp (tsx_cancel_timer n x) = x_res_tp x" "x_pend_transport (tsx_cancel_timer n x) = x_pend_transport x"
  "x_pend_resched (tsx_cancel_timer n x) = x_pend_resched x" "x_pend_send (tsx_cancel_timer n x) = x_pend_send x"
  "x_pend_destroy (tsx_cancel_timer n x) = x_pend_destroy x" "x_resolved (tsx_cancel_timer n x) = x_resolved x"
  "x_transport_err (tsx_cancel_timer n x) = x_transport_err x" "x_tp_sel (tsx_cancel_timer n x) = x_tp_sel x"
  "x_last_tx (tsx_cancel_timer n x) = x_last_tx x" "x_pending_tx (tsx_cancel_timer n x) = x_pending_tx x"
  "x_attached (tsx_cancel_timer n x) = x_attached x"
  "x_retransmit_count (tsx_cancel_timer n x) = x_retransmit_count x"
  "x_mod_data (tsx_cancel_timer n x) = x_mod_data x" "x_waiting (tsx_cancel_timer n x) = x_waiting x"
  "x_routing (tsx_cancel_timer n x) = x_routing x" "x_fired (tsx_cancel_timer n x) = x_fired x"
  "x_now (tsx_cancel_timer n x) = x_now x" "x_layer (tsx_cancel_timer n x) = x_layer x"
  "x_log (tsx_cancel_timer n x) = x_log x"
  by (auto simp: tsx_cancel_timer_def pj_grp_lock_dec_ref_def set_timer_def Let_def split: timer_name.splits)

text \<open>A timer that was not running, started.\<close>

definition started :: "timer_name \<Rightarrow> nat \<Rightarrow> nat \<Rightarrow> transaction \<Rightarrow> transaction" where
  "started n delay i x = pj_grp_lock_add_ref (set_timer n \<lparr>tm_id = i, tm_expiry = Some (x_now x + delay)\<rparr> x)"

lemma started_simps [simp]:
  "x_ref (started n d i x) = x_ref x" "x_role (started n d i x) = x_role x" "x_method (started n d i x) = x_method x"
  "x_cseq (started n d i x) = x_cseq x" "x_branch (started n d i x) = x_branch x"
  "x_user (started n d i x) = x_user x" "x_terminating (started n d i x) = x_terminating x"
  "x_freed (started n d i x) = x_freed x" "x_state (started n d i x) = x_state x"
  "x_status_code (started n d i x) = x_status_code x" "x_status_text (started n d i x) = x_status_text x"
  "x_handle_200resp (started n d i x) = x_handle_200resp x" "x_transport (started n d i x) = x_transport x"
  "x_is_reliable (started n d i x) = x_is_reliable x" "x_addr (started n d i x) = x_addr x"
  "x_res_tp (started n d i x) = x_res_tp x" "x_pend_transport (started n d i x) = x_pend_transport x"
  "x_pend_resched (started n d i x) = x_pend_resched x" "x_pend_send (started n d i x) = x_pend_send x"
  "x_pend_destroy (started n d i x) = x_pend_destroy x" "x_resolved (started n d i x) = x_resolved x"
  "x_transport_err (started n d i x) = x_transport_err x" "x_tp_sel (started n d i x) = x_tp_sel x"
  "x_last_tx (started n d i x) = x_last_tx x" "x_pending_tx (started n d i x) = x_pending_tx x"
  "x_attached (started n d i x) = x_attached x" "x_retransmit_count (started n d i x) = x_retransmit_count x"
  "x_mod_data (started n d i x) = x_mod_data x" "x_waiting (started n d i x) = x_waiting x"
  "x_routing (started n d i x) = x_routing x" "x_fired (started n d i x) = x_fired x"
  "x_now (started n d i x) = x_now x" "x_layer (started n d i x) = x_layer x" "x_log (started n d i x) = x_log x"
  by (auto simp: started_def pj_grp_lock_add_ref_def set_timer_def split: timer_name.splits)

lemma running_simps [simp]:
  "running n (tsx_cancel_timer n x) \<longleftrightarrow> False" "running n (started n d i x)"
  "m \<noteq> n \<Longrightarrow> running m (tsx_cancel_timer n x) = running m x" "m \<noteq> n \<Longrightarrow> running m (started n d i x) = running m x"
  by (auto simp: running_def timer_of_def started_def tsx_cancel_timer_def pj_grp_lock_add_ref_def pj_grp_lock_dec_ref_def
      set_timer_def Let_def split: timer_name.splits)

lemma running_upd [simp]:
  "running n (x\<lparr>x_refs := refs_v\<rparr>) = running n x"
  "running n (x\<lparr>x_freed := freed_v\<rparr>) = running n x"
  "running n (x\<lparr>x_state := state_v\<rparr>) = running n x"
  "running n (x\<lparr>x_status_code := status_code_v\<rparr>) = running n x"
  "running n (x\<lparr>x_status_text := status_text_v\<rparr>) = running n x"
  "running n (x\<lparr>x_transport := transport_v\<rparr>) = running n x"
  "running n (x\<lparr>x_is_reliable := is_reliable_v\<rparr>) = running n x"
  "running n (x\<lparr>x_addr := addr_v\<rparr>) = running n x"
  "running n (x\<lparr>x_res_tp := res_tp_v\<rparr>) = running n x"
  "running n (x\<lparr>x_pend_transport := pend_transport_v\<rparr>) = running n x"
  "running n (x\<lparr>x_pend_resched := pend_resched_v\<rparr>) = running n x"
  "running n (x\<lparr>x_pend_send := pend_send_v\<rparr>) = running n x"
  "running n (x\<lparr>x_resolved := resolved_v\<rparr>) = running n x"
  "running n (x\<lparr>x_transport_err := transport_err_v\<rparr>) = running n x"
  "running n (x\<lparr>x_tp_sel := tp_sel_v\<rparr>) = running n x"
  "running n (x\<lparr>x_last_tx := last_tx_v\<rparr>) = running n x"
  "running n (x\<lparr>x_pending_tx := pending_tx_v\<rparr>) = running n x"
  "running n (x\<lparr>x_attached := attached_v\<rparr>) = running n x"
  "running n (x\<lparr>x_retransmit_count := retransmit_count_v\<rparr>) = running n x"
  "running n (x\<lparr>x_mod_data := mod_data_v\<rparr>) = running n x"
  "running n (x\<lparr>x_waiting := waiting_v\<rparr>) = running n x"
  "running n (x\<lparr>x_routing := routing_v\<rparr>) = running n x"
  "running n (x\<lparr>x_fired := fired_v\<rparr>) = running n x"
  "running n (x\<lparr>x_now := now_v\<rparr>) = running n x"
  "running n (x\<lparr>x_layer := layer_v\<rparr>) = running n x"
  "running n (x\<lparr>x_log := log_v\<rparr>) = running n x"
  by (simp_all add: running_def timer_of_def split: timer_name.splits)

lemma extra_upd [simp]:
  "extra (x\<lparr>x_state := state_v\<rparr>) = extra x"
  "extra (x\<lparr>x_status_code := status_code_v\<rparr>) = extra x"
  "extra (x\<lparr>x_status_text := status_text_v\<rparr>) = extra x"
  "extra (x\<lparr>x_transport := transport_v\<rparr>) = extra x"
  "extra (x\<lparr>x_is_reliable := is_reliable_v\<rparr>) = extra x"
  "extra (x\<lparr>x_addr := addr_v\<rparr>) = extra x" "extra (x\<lparr>x_res_tp := res_tp_v\<rparr>) = extra x"
  "extra (x\<lparr>x_pend_transport := pend_transport_v\<rparr>) = extra x"
  "extra (x\<lparr>x_pend_resched := pend_resched_v\<rparr>) = extra x"
  "extra (x\<lparr>x_pend_send := pend_send_v\<rparr>) = extra x"
  "extra (x\<lparr>x_resolved := resolved_v\<rparr>) = extra x"
  "extra (x\<lparr>x_transport_err := transport_err_v\<rparr>) = extra x"
  "extra (x\<lparr>x_tp_sel := tp_sel_v\<rparr>) = extra x"
  "extra (x\<lparr>x_last_tx := last_tx_v\<rparr>) = extra x"
  "extra (x\<lparr>x_pending_tx := pending_tx_v\<rparr>) = extra x"
  "extra (x\<lparr>x_attached := attached_v\<rparr>) = extra x"
  "extra (x\<lparr>x_retransmit_count := retransmit_count_v\<rparr>) = extra x"
  "extra (x\<lparr>x_mod_data := mod_data_v\<rparr>) = extra x" "extra (x\<lparr>x_now := now_v\<rparr>) = extra x"
  "extra (x\<lparr>x_layer := layer_v\<rparr>) = extra x" "extra (x\<lparr>x_log := log_v\<rparr>) = extra x"
  by (simp_all add: extra_def counted_def)

lemma secure_upd [simp]:
  "secure (x\<lparr>x_state := state_v\<rparr>) = secure x"
  "secure (x\<lparr>x_status_code := status_code_v\<rparr>) = secure x"
  "secure (x\<lparr>x_status_text := status_text_v\<rparr>) = secure x"
  "secure (x\<lparr>x_transport := transport_v\<rparr>) = secure x"
  "secure (x\<lparr>x_is_reliable := is_reliable_v\<rparr>) = secure x"
  "secure (x\<lparr>x_addr := addr_v\<rparr>) = secure x" "secure (x\<lparr>x_res_tp := res_tp_v\<rparr>) = secure x"
  "secure (x\<lparr>x_pend_transport := pend_transport_v\<rparr>) = secure x"
  "secure (x\<lparr>x_pend_resched := pend_resched_v\<rparr>) = secure x"
  "secure (x\<lparr>x_pend_send := pend_send_v\<rparr>) = secure x"
  "secure (x\<lparr>x_resolved := resolved_v\<rparr>) = secure x"
  "secure (x\<lparr>x_transport_err := transport_err_v\<rparr>) = secure x"
  "secure (x\<lparr>x_tp_sel := tp_sel_v\<rparr>) = secure x"
  "secure (x\<lparr>x_last_tx := last_tx_v\<rparr>) = secure x"
  "secure (x\<lparr>x_pending_tx := pending_tx_v\<rparr>) = secure x"
  "secure (x\<lparr>x_attached := attached_v\<rparr>) = secure x"
  "secure (x\<lparr>x_retransmit_count := retransmit_count_v\<rparr>) = secure x"
  "secure (x\<lparr>x_mod_data := mod_data_v\<rparr>) = secure x"
  "secure (x\<lparr>x_now := now_v\<rparr>) = secure x" "secure (x\<lparr>x_layer := layer_v\<rparr>) = secure x"
  "secure (x\<lparr>x_log := log_v\<rparr>) = secure x"
  by (simp_all add: secure_def)

lemma tx_extra_upd [simp]:
  "tx_extra m (x\<lparr>x_refs := refs_v\<rparr>) = tx_extra m x"
  "tx_extra m (x\<lparr>x_freed := freed_v\<rparr>) = tx_extra m x"
  "tx_extra m (x\<lparr>x_state := state_v\<rparr>) = tx_extra m x"
  "tx_extra m (x\<lparr>x_status_code := status_code_v\<rparr>) = tx_extra m x"
  "tx_extra m (x\<lparr>x_status_text := status_text_v\<rparr>) = tx_extra m x"
  "tx_extra m (x\<lparr>x_transport := transport_v\<rparr>) = tx_extra m x"
  "tx_extra m (x\<lparr>x_is_reliable := is_reliable_v\<rparr>) = tx_extra m x"
  "tx_extra m (x\<lparr>x_addr := addr_v\<rparr>) = tx_extra m x"
  "tx_extra m (x\<lparr>x_res_tp := res_tp_v\<rparr>) = tx_extra m x"
  "tx_extra m (x\<lparr>x_pend_transport := pend_transport_v\<rparr>) = tx_extra m x"
  "tx_extra m (x\<lparr>x_pend_resched := pend_resched_v\<rparr>) = tx_extra m x"
  "tx_extra m (x\<lparr>x_pend_send := pend_send_v\<rparr>) = tx_extra m x"
  "tx_extra m (x\<lparr>x_resolved := resolved_v\<rparr>) = tx_extra m x"
  "tx_extra m (x\<lparr>x_transport_err := transport_err_v\<rparr>) = tx_extra m x"
  "tx_extra m (x\<lparr>x_tp_sel := tp_sel_v\<rparr>) = tx_extra m x"
  "tx_extra m (x\<lparr>x_pending_tx := pending_tx_v\<rparr>) = tx_extra m x"
  "tx_extra m (x\<lparr>x_attached := attached_v\<rparr>) = tx_extra m x"
  "tx_extra m (x\<lparr>x_retransmit_count := retransmit_count_v\<rparr>) = tx_extra m x"
  "tx_extra m (x\<lparr>x_retransmit := retransmit_v\<rparr>) = tx_extra m x"
  "tx_extra m (x\<lparr>x_timeout := timeout_v\<rparr>) = tx_extra m x"
  "tx_extra m (x\<lparr>x_mod_data := mod_data_v\<rparr>) = tx_extra m x"
  "tx_extra m (x\<lparr>x_waiting := waiting_v\<rparr>) = tx_extra m x"
  "tx_extra m (x\<lparr>x_fired := fired_v\<rparr>) = tx_extra m x"
  "tx_extra m (x\<lparr>x_now := now_v\<rparr>) = tx_extra m x"
  "tx_extra m (x\<lparr>x_layer := layer_v\<rparr>) = tx_extra m x"
  by (simp_all add: tx_extra_def tx_held_def)


lemma extra_simps [simp]:
  "extra (tsx_cancel_timer n x) = extra x" "\<not> running n x \<Longrightarrow> extra (started n d i x) = extra x"
  "extra (pj_grp_lock_add_ref x) = extra x + 1" "extra (pj_grp_lock_dec_ref x) = extra x - 1"
  "extra (logged e x) = extra x"
  by (cases n; auto simp: extra_def counted_def running_defs tsx_cancel_timer_def started_def pj_grp_lock_add_ref_def
      pj_grp_lock_dec_ref_def set_timer_def logged_def Let_def)+

lemma tx_extra_simps [simp]:
  "tx_extra m (tsx_cancel_timer n x) = tx_extra m x" "tx_extra m (started n d i x) = tx_extra m x"
  "tx_extra m (pj_grp_lock_add_ref x) = tx_extra m x" "tx_extra m (pj_grp_lock_dec_ref x) = tx_extra m x"
  "tx_extra m (logged e x) = tx_extra m x + tx_change m e"
  by (simp_all add: tx_extra_def tx_held_def pj_grp_lock_add_ref_def pj_grp_lock_dec_ref_def logged_def)

lemma secure_simps [simp]:
  "secure x \<Longrightarrow> secure (tsx_cancel_timer n x)" "secure x \<Longrightarrow> \<not> running n x \<Longrightarrow> secure (started n d i x)"
  "secure x \<Longrightarrow> secure (pj_grp_lock_add_ref x)" "secure (logged e x) = secure x"
  "\<not> x_freed x \<Longrightarrow> 2 \<le> extra x \<Longrightarrow> secure (pj_grp_lock_dec_ref x)"
proof -
  assume "secure x"
  moreover have "of_bool (running n x) \<le> counted x" by (cases n) (simp_all add: counted_def)
  ultimately have "\<not> x_freed x" "1 + of_bool (running n x) \<le> x_refs x" by (simp_all add: secure_def extra_def)
  then have "\<not> x_freed (tsx_cancel_timer n x)"
    by (cases n) (auto simp: tsx_cancel_timer_def pj_grp_lock_dec_ref_def set_timer_def Let_def)
  then show "secure (tsx_cancel_timer n x)" using \<open>secure x\<close> by (simp add: secure_def)
next
  assume "secure x"
  then show "secure (pj_grp_lock_add_ref x)"
    using extra_simps(3) [of x] by (simp add: secure_def del: extra_simps) (simp add: pj_grp_lock_add_ref_def)
next
  assume "\<not> x_freed x" "2 \<le> extra x"
  moreover from this have "x_refs x - 1 \<noteq> 0" using counted_ge [of x] by (simp add: extra_def)
  ultimately show "secure (pj_grp_lock_dec_ref x)"
    using extra_simps(4) [of x] by (simp add: secure_def del: extra_simps) (simp add: pj_grp_lock_dec_ref_def)
next
  show "secure (logged e x) = secure x" by (simp add: secure_def) (simp add: logged_def)
qed (simp add: secure_def)

lemma schedule_eq: "i \<noteq> 0 \<Longrightarrow> \<not> running n x \<Longrightarrow> tsx_schedule_timer n d i x = Inr (started n d i x)"
  by (simp add: tsx_schedule_timer_def started_def timer_ids)

lemma restart_eq: "i \<noteq> 0 \<Longrightarrow> restart_timer n d i x = Inr (started n d i (tsx_cancel_timer n x))"
  by (simp add: restart_timer_def schedule_eq)

lemma post_error_eq:
  "post_transport_error err x = Inr (started TimeoutTimer 0 3 (tsx_cancel_timer TimeoutTimer (x\<lparr>x_transport_err := err\<rparr>)))"
  by (simp add: post_transport_error_def restart_eq timer_ids)

lemma no_transport_eq: "tsx_update_transport None x = Inr (drop_tsx_transport x)"
  by (simp add: tsx_update_transport_def)

section \<open>The invariant\<close>

text \<open>What the callback is told: the final response, the timeout, a transport error, or the user's end.\<close>

definition true_outcome :: "int \<times> event_src \<Rightarrow> bool" where
  "true_outcome c \<longleftrightarrow>
     (case snd c of
        SrcRxMsg rdata \<Rightarrow> (\<exists>r. line (rx_msg rdata) = StatusLine (fst c) r) \<and> 200 \<le> fst c \<and> fst c \<le> 699
      | SrcTimer n \<Rightarrow> fst c = 408
      | SrcTransportError \<Rightarrow> fst c = 502 \<or> fst c = 503
      | SrcUser \<Rightarrow> 200 \<le> fst c
      | _ \<Rightarrow> False)"

definition base :: "tdata \<Rightarrow> transaction \<Rightarrow> bool" where
  "base td x \<longleftrightarrow>
     x_role x = PJSIP_ROLE_UAC \<and> \<not> is_invite x \<and> x_user x = Some ModStatefulUtil \<and> \<not> x_pend_destroy x \<and>
     tsx_ref_ok (x_ref x) \<and> hash_inv True (x_layer x) \<and>
     (\<forall>key. tsx_at (x_layer x) key = Some (tsx_addr (x_ref x)) \<longleftrightarrow>
        lower_c key = lower_c (transaction_key (x_ref x)) \<and> x_state x \<noteq> PJSIP_TSX_STATE_DESTROYED) \<and>
     x_terminating x = (x_state x = PJSIP_TSX_STATE_DESTROYED) \<and>
     (\<forall>t. tp_held (x_log x) t = of_bool (x_transport x = Some t)) \<and>
     (\<forall>t. sel_held (x_log x) t = of_bool (x_tp_sel x = Some t \<and> \<not> x_terminating x)) \<and>
     x_last_tx x = (if x_state x = PJSIP_TSX_STATE_DESTROYED then None else Some td) \<and>
     (x_state x = PJSIP_TSX_STATE_DESTROYED \<longrightarrow> x_transport x = None) \<and>
     x_routing x \<in> {[], [td]} \<and> 0 \<le> x_retransmit_count x"

definition young :: "transaction \<Rightarrow> bool" where
  "young x \<longleftrightarrow> x_status_code x < 200 \<and> x_mod_data x \<and> util_calls (x_log x) = []"

definition told :: "transaction \<Rightarrow> bool" where
  "told x \<longleftrightarrow> \<not> x_mod_data x \<and> (\<exists>c. util_calls (x_log x) = [c] \<and> true_outcome c)"

text \<open>A message is being routed, or the server is resolved and there is a transport to it.\<close>

definition being_routed :: "tdata \<Rightarrow> transaction \<Rightarrow> bool" where
  "being_routed td x \<longleftrightarrow>
     x_routing x = [td] \<and> x_attached x = [td_at td] \<and> x_pending_tx x = Some td \<and> x_pend_transport x \<and>
     \<not> x_pend_send x \<and> \<not> x_resolved x \<and> x_transport x = None \<and> \<not> running RetransmitTimer x \<and>
     RetransmitTimer \<notin> set (x_fired x) \<and> x_waiting x = []"

definition connected :: "transaction \<Rightarrow> bool" where
  "connected x \<longleftrightarrow> x_routing x = [] \<and> x_attached x = [] \<and> x_resolved x \<and> x_transport x \<noteq> None"

definition timed :: "transaction \<Rightarrow> bool" where
  "timed x \<longleftrightarrow> running TimeoutTimer x \<or> TimeoutTimer \<in> set (x_fired x)"

definition idle :: "transaction \<Rightarrow> bool" where
  "idle x \<longleftrightarrow> x_routing x = [] \<and> x_attached x = [] \<and> x_waiting x = [] \<and> x_fired x = [] \<and>
     \<not> running TimeoutTimer x \<and> \<not> running RetransmitTimer x \<and> x_transport x = None"

definition phase :: "tdata \<Rightarrow> transaction \<Rightarrow> bool" where
  "phase td x \<longleftrightarrow>
     (case x_state x of
        PJSIP_TSX_STATE_NULL \<Rightarrow> young x \<and> idle x
      | PJSIP_TSX_STATE_CALLING \<Rightarrow> young x \<and> timed x \<and> (being_routed td x \<or> connected x)
      | PJSIP_TSX_STATE_PROCEEDING \<Rightarrow> young x \<and> timed x \<and> connected x
      | PJSIP_TSX_STATE_COMPLETED \<Rightarrow> told x \<and> timed x \<and> x_routing x = [] \<and> x_attached x = []
      | PJSIP_TSX_STATE_TERMINATED \<Rightarrow> told x \<and> x_attached x = [] \<and> \<not> x_pend_transport x
      | PJSIP_TSX_STATE_DESTROYED \<Rightarrow> told x \<and> x_attached x = [] \<and> \<not> x_pend_transport x
      | _ \<Rightarrow> False)"

text \<open>The same without the timer that ends it, while its callback runs.\<close>

definition phase_untimed :: "tdata \<Rightarrow> transaction \<Rightarrow> bool" where
  "phase_untimed td x \<longleftrightarrow>
     (case x_state x of
        PJSIP_TSX_STATE_CALLING \<Rightarrow> young x \<and> (being_routed td x \<or> connected x)
      | PJSIP_TSX_STATE_PROCEEDING \<Rightarrow> young x \<and> connected x
      | PJSIP_TSX_STATE_COMPLETED \<Rightarrow> told x \<and> x_routing x = [] \<and> x_attached x = []
      | _ \<Rightarrow> phase td x)"

lemma phase_to_untimed: "phase td x \<Longrightarrow> phase_untimed td x"
  by (auto simp: phase_def phase_untimed_def split: tsx_state.splits)

text \<open>Between the events every reference is accounted for; the caller's reference to the message is used up.\<close>

definition tsx_inv :: "int \<Rightarrow> tdata \<Rightarrow> transaction \<Rightarrow> bool" where
  "tsx_inv k td x \<longleftrightarrow>
     base td x \<and> phase td x \<and> x_retransmit_count x \<le> k \<and> extra x = 0 \<and> tx_extra (td_at td) x = -1 \<and>
     (x_freed x \<longleftrightarrow> x_refs x = 0)"

text \<open>The surroundings: both modules are registered, the routing reports what its code can report.\<close>

definition cb_ok :: "sent_cb \<Rightarrow> bool" where
  "cb_ok cb \<longleftrightarrow> sc_sent cb \<noteq> 0 \<and> (0 < sc_sent cb \<longrightarrow> sc_tp cb \<noteq> None \<and> \<not> sc_cont cb)"

definition fsm_ok :: "fsm_env \<Rightarrow> bool" where
  "fsm_ok env \<longleftrightarrow> 0 \<le> fe_mod_id env \<and> 0 \<le> fe_util_id env \<and> (\<forall>x td. list_all cb_ok (snd (fe_route env x td)))"

section \<open>Changing the state\<close>

lemma notify_response_util: "x_user x = Some ModStatefulUtil \<Longrightarrow> notify_response src x = x"
  by (auto simp: notify_response_def split: event_src.splits)

text \<open>The user is told; the callback is called the first time the status is final.\<close>

definition tell :: "tsx_state \<Rightarrow> event_src \<Rightarrow> transaction \<Rightarrow> transaction" where
  "tell prev src x =
     (let x' = logged (OnTsxState prev (x_state x) (x_status_code x) src) x
      in if x_mod_data x \<and> 200 \<le> x_status_code x then logged (UtilCallback (x_status_code x) src) (x'\<lparr>x_mod_data := False\<rparr>)
         else x')"

lemma notify_util:
  "x_user x = Some ModStatefulUtil \<Longrightarrow> 0 \<le> fe_util_id env \<Longrightarrow> notify_state env prev src x = tell prev src x"
  by (auto simp: notify_state_def mod_util_on_tsx_state_def tell_def logged_def Let_def)

lemma tell_simps [simp]:
  "x_ref (tell p src x) = x_ref x" "x_role (tell p src x) = x_role x" "x_method (tell p src x) = x_method x"
  "x_cseq (tell p src x) = x_cseq x" "x_branch (tell p src x) = x_branch x" "x_user (tell p src x) = x_user x"
  "x_terminating (tell p src x) = x_terminating x" "x_refs (tell p src x) = x_refs x"
  "x_freed (tell p src x) = x_freed x" "x_state (tell p src x) = x_state x"
  "x_status_code (tell p src x) = x_status_code x" "x_status_text (tell p src x) = x_status_text x"
  "x_handle_200resp (tell p src x) = x_handle_200resp x" "x_transport (tell p src x) = x_transport x"
  "x_is_reliable (tell p src x) = x_is_reliable x" "x_addr (tell p src x) = x_addr x"
  "x_res_tp (tell p src x) = x_res_tp x" "x_pend_transport (tell p src x) = x_pend_transport x"
  "x_pend_resched (tell p src x) = x_pend_resched x" "x_pend_send (tell p src x) = x_pend_send x"
  "x_pend_destroy (tell p src x) = x_pend_destroy x" "x_resolved (tell p src x) = x_resolved x"
  "x_transport_err (tell p src x) = x_transport_err x" "x_tp_sel (tell p src x) = x_tp_sel x"
  "x_last_tx (tell p src x) = x_last_tx x" "x_pending_tx (tell p src x) = x_pending_tx x"
  "x_attached (tell p src x) = x_attached x" "x_retransmit_count (tell p src x) = x_retransmit_count x"
  "x_retransmit (tell p src x) = x_retransmit x" "x_timeout (tell p src x) = x_timeout x"
  "x_waiting (tell p src x) = x_waiting x" "x_routing (tell p src x) = x_routing x"
  "x_fired (tell p src x) = x_fired x" "x_now (tell p src x) = x_now x" "x_layer (tell p src x) = x_layer x"
  by (simp_all add: tell_def logged_def Let_def)

lemma held_upd [simp]:
  "tp_held (x_log (logged e x)) t = tp_held (x_log x) t + tp_change t e" "sel_held (x_log (logged e x)) t = sel_held (x_log x) t + sel_change t e"
  "util_calls (x_log (logged e x)) = util_calls (x_log x) @ call_of e"
  by (simp_all add: held_defs logged_def)

lemma tell_more [simp]:
  "extra (tell p src x) = extra x" "tx_extra m (tell p src x) = tx_extra m x" "secure (tell p src x) = secure x"
  "tp_held (x_log (tell p src x)) t = tp_held (x_log x) t" "sel_held (x_log (tell p src x)) t = sel_held (x_log x) t" "running n (tell p src x) = running n x"
  by (auto simp: tell_def held_defs change_defs running_def timer_of_def logged_def Let_def extra_def counted_def tx_extra_def
      secure_def split: timer_name.splits)

lemma tell_tx [simp]: "tx_held (x_log (tell p src x)) m = tx_held (x_log x) m"
  by (auto simp: tell_def held_defs change_defs logged_def Let_def)

lemma tell_calls:
  "util_calls (x_log (tell p src x)) = util_calls (x_log x) @ (if x_mod_data x \<and> 200 \<le> x_status_code x then [(x_status_code x, src)] else [])"
  "x_mod_data (tell p src x) = (x_mod_data x \<and> \<not> 200 \<le> x_status_code x)"
  by (auto simp: tell_def held_defs logged_def change_defs Let_def)

lemma forget_simps [simp]:
  "x_ref (forget_pending x) = x_ref x" "x_role (forget_pending x) = x_role x"
  "x_method (forget_pending x) = x_method x" "x_cseq (forget_pending x) = x_cseq x"
  "x_branch (forget_pending x) = x_branch x" "x_user (forget_pending x) = x_user x"
  "x_terminating (forget_pending x) = x_terminating x" "x_refs (forget_pending x) = x_refs x"
  "x_freed (forget_pending x) = x_freed x" "x_state (forget_pending x) = x_state x"
  "x_status_code (forget_pending x) = x_status_code x" "x_status_text (forget_pending x) = x_status_text x"
  "x_handle_200resp (forget_pending x) = x_handle_200resp x" "x_transport (forget_pending x) = x_transport x"
  "x_is_reliable (forget_pending x) = x_is_reliable x" "x_addr (forget_pending x) = x_addr x"
  "x_res_tp (forget_pending x) = x_res_tp x" "x_pend_resched (forget_pending x) = x_pend_resched x"
  "x_pend_send (forget_pending x) = x_pend_send x" "x_pend_destroy (forget_pending x) = x_pend_destroy x"
  "x_resolved (forget_pending x) = x_resolved x" "x_transport_err (forget_pending x) = x_transport_err x"
  "x_tp_sel (forget_pending x) = x_tp_sel x" "x_last_tx (forget_pending x) = x_last_tx x"
  "x_retransmit_count (forget_pending x) = x_retransmit_count x" "x_retransmit (forget_pending x) = x_retransmit x"
  "x_timeout (forget_pending x) = x_timeout x" "x_mod_data (forget_pending x) = x_mod_data x"
  "x_waiting (forget_pending x) = x_waiting x" "x_routing (forget_pending x) = x_routing x"
  "x_fired (forget_pending x) = x_fired x" "x_now (forget_pending x) = x_now x"
  "x_layer (forget_pending x) = x_layer x" "x_log (forget_pending x) = x_log x"
  by (auto simp: forget_pending_def detach_def split: option.splits)

lemma forget_more [simp]:
  "extra (forget_pending x) = extra x" "tx_extra m (forget_pending x) = tx_extra m x"
  "secure (forget_pending x) = secure x" "running n (forget_pending x) = running n x"
  by (auto simp: forget_pending_def detach_def split: option.splits)

lemma drop_simps [simp]:
  "x_ref (drop_tsx_transport x) = x_ref x" "x_role (drop_tsx_transport x) = x_role x"
  "x_method (drop_tsx_transport x) = x_method x" "x_cseq (drop_tsx_transport x) = x_cseq x"
  "x_branch (drop_tsx_transport x) = x_branch x" "x_user (drop_tsx_transport x) = x_user x"
  "x_terminating (drop_tsx_transport x) = x_terminating x" "x_refs (drop_tsx_transport x) = x_refs x"
  "x_freed (drop_tsx_transport x) = x_freed x" "x_state (drop_tsx_transport x) = x_state x"
  "x_status_code (drop_tsx_transport x) = x_status_code x" "x_status_text (drop_tsx_transport x) = x_status_text x"
  "x_handle_200resp (drop_tsx_transport x) = x_handle_200resp x"
  "x_is_reliable (drop_tsx_transport x) = x_is_reliable x" "x_addr (drop_tsx_transport x) = x_addr x"
  "x_res_tp (drop_tsx_transport x) = x_res_tp x" "x_pend_transport (drop_tsx_transport x) = x_pend_transport x"
  "x_pend_resched (drop_tsx_transport x) = x_pend_resched x" "x_pend_send (drop_tsx_transport x) = x_pend_send x"
  "x_pend_destroy (drop_tsx_transport x) = x_pend_destroy x" "x_resolved (drop_tsx_transport x) = x_resolved x"
  "x_transport_err (drop_tsx_transport x) = x_transport_err x" "x_tp_sel (drop_tsx_transport x) = x_tp_sel x"
  "x_last_tx (drop_tsx_transport x) = x_last_tx x" "x_pending_tx (drop_tsx_transport x) = x_pending_tx x"
  "x_attached (drop_tsx_transport x) = x_attached x"
  "x_retransmit_count (drop_tsx_transport x) = x_retransmit_count x"
  "x_retransmit (drop_tsx_transport x) = x_retransmit x" "x_timeout (drop_tsx_transport x) = x_timeout x"
  "x_mod_data (drop_tsx_transport x) = x_mod_data x" "x_waiting (drop_tsx_transport x) = x_waiting x"
  "x_routing (drop_tsx_transport x) = x_routing x" "x_fired (drop_tsx_transport x) = x_fired x"
  "x_now (drop_tsx_transport x) = x_now x" "x_layer (drop_tsx_transport x) = x_layer x"
  by (auto simp: drop_tsx_transport_def logged_def split: option.splits)

lemma drop_more [simp]:
  "extra (drop_tsx_transport x) = extra x" "tx_extra m (drop_tsx_transport x) = tx_extra m x"
  "secure (drop_tsx_transport x) = secure x" "running n (drop_tsx_transport x) = running n x"
  "x_transport (drop_tsx_transport x) = None"
  by (auto simp: drop_tsx_transport_def change_defs logged_def running_def timer_of_def extra_def counted_def tx_extra_def
      secure_def held_defs split: option.splits timer_name.splits)

text \<open>The user may be told, if it was not yet.\<close>

definition tellable :: "event_src \<Rightarrow> transaction \<Rightarrow> bool" where
  "tellable src x \<longleftrightarrow>
     x_mod_data x \<and> 200 \<le> x_status_code x \<and> util_calls (x_log x) = [] \<and> true_outcome (x_status_code x, src) \<or> told x"

lemma tell_told: "tellable src x \<Longrightarrow> told (tell p src x)"
  by (auto simp: tellable_def told_def tell_calls)

definition detachable :: "transaction \<Rightarrow> bool" where
  "detachable x \<longleftrightarrow> x_attached x = [] \<or> x_pend_transport x \<and> (\<exists>p. x_pending_tx x = Some p \<and> x_attached x = [td_at p])"

lemma forget_detached: "detachable x \<Longrightarrow> x_attached (forget_pending x) = [] \<and> \<not> x_pend_transport (forget_pending x)"
  by (auto simp: detachable_def forget_pending_def detach_def split: option.splits)


lemma drop_held [simp]:
  "tp_held (x_log (drop_tsx_transport x)) t = tp_held (x_log x) t - of_bool (x_transport x = Some t)"
  "sel_held (x_log (drop_tsx_transport x)) t = sel_held (x_log x) t"
  "util_calls (x_log (drop_tsx_transport x)) = util_calls (x_log x)"
  "tx_held (x_log (drop_tsx_transport x)) m = tx_held (x_log x) m"
  by (auto simp: drop_tsx_transport_def logged_def held_defs change_defs split: option.splits)

lemma tellable_cong:
  "x_mod_data y = x_mod_data x \<Longrightarrow> x_status_code y = x_status_code x \<Longrightarrow> x_log y = x_log x \<Longrightarrow> tellable src y = tellable src x"
  by (simp add: tellable_def told_def)

text \<open>The timer that destroys a terminated transaction.\<close>

definition ending :: "transaction \<Rightarrow> bool" where
  "ending x \<longleftrightarrow> x_timeout x = \<lparr>tm_id = 2, tm_expiry = Some (x_now x)\<rparr>"

lemma ending_started: "ending (started TimeoutTimer 0 2 x)"
  by (simp add: ending_def started_def pj_grp_lock_add_ref_def set_timer_def)

lemma terminate_ok:
  assumes b: "base td x" and s: "x_state x < PJSIP_TSX_STATE_TERMINATED" and sec: "secure x"
    and t: "tellable src x" and d: "detachable x" and env: "fsm_ok env"
  shows "\<exists>y. tsx_set_state env PJSIP_TSX_STATE_TERMINATED src False False x = Inr y \<and>
     base td y \<and> phase td y \<and> x_state y = PJSIP_TSX_STATE_TERMINATED \<and> ending y \<and> secure y \<and>
     extra y = extra x \<and> tx_extra m y = tx_extra m x \<and> x_retransmit_count y = x_retransmit_count x \<and>
     x_transport_err y = x_transport_err x \<and> x_routing y = x_routing x \<and> x_status_code y = x_status_code x"
proof -
  define x1 where "x1 = tell (x_state x) src (x\<lparr>x_state := PJSIP_TSX_STATE_TERMINATED\<rparr>)"
  define y where "y = started TimeoutTimer 0 2 (tsx_cancel_timer TimeoutTimer (forget_pending x1))"
  have u: "x_user x = Some ModStatefulUtil" using b by (simp add: base_def)
  have le: "x_state x \<le> PJSIP_TSX_STATE_TERMINATED" "x_state x \<noteq> PJSIP_TSX_STATE_DESTROYED"
    using s by (auto simp: state_order)
  have "tsx_set_state env PJSIP_TSX_STATE_TERMINATED src False False x = Inr y"
    using le env by (simp add: tsx_set_state_def notify_response_util u notify_util fsm_ok_def x1_def y_def schedule_eq timer_ids)
  moreover have "tellable src (x\<lparr>x_state := PJSIP_TSX_STATE_TERMINATED\<rparr>)" using t by (simp add: tellable_def told_def)
  then have "told x1" unfolding x1_def by (rule tell_told)
  moreover have "detachable x1" using d by (simp add: x1_def detachable_def)
  then have "x_attached (forget_pending x1) = [] \<and> \<not> x_pend_transport (forget_pending x1)" by (rule forget_detached)
  moreover have "base td y" using b le by (auto simp: base_def y_def x1_def is_invite_def)
  moreover have "secure x1" using sec by (simp add: x1_def)
  moreover have "told y" using \<open>told x1\<close> by (simp add: told_def y_def)
  ultimately show ?thesis
    by (intro exI [of _ y]) (simp add: phase_def, simp add: y_def x1_def ending_started)
qed


lemma advance_eq:
  assumes "x_user x = Some ModStatefulUtil" and "fsm_ok env" and "x_state x \<le> s" and "s < PJSIP_TSX_STATE_TERMINATED"
  shows "tsx_set_state env s src False False x = Inr (tell (x_state x) src (x\<lparr>x_state := s\<rparr>))"
proof -
  have "s \<noteq> PJSIP_TSX_STATE_TERMINATED" "s \<noteq> PJSIP_TSX_STATE_DESTROYED" using assms(4) by (auto simp: state_order)
  then show ?thesis using assms(1-3) by (simp add: tsx_set_state_def notify_response_util notify_util fsm_ok_def)
qed

lemma logged_simps [simp]:
  "x_log (logged e x) = x_log x @ [e]" "x_last_tx (logged e x) = x_last_tx x" "x_terminating (logged e x) = x_terminating x"
  "x_pend_transport (logged e x) = x_pend_transport x" "x_tp_sel (logged e x) = x_tp_sel x"
  "running n (logged e x) = running n x"
  by (simp_all add: logged_def)

lemma destroy_ok:
  assumes b: "base td x" and p: "phase td x" and s: "x_state x = PJSIP_TSX_STATE_TERMINATED" and sec: "secure x"
    and env: "fsm_ok env"
  shows "\<exists>y. tsx_set_state env PJSIP_TSX_STATE_DESTROYED src False False x = Inr y \<and>
     base td y \<and> phase td y \<and> x_state y = PJSIP_TSX_STATE_DESTROYED \<and> secure y \<and>
     extra y = extra x \<and> tx_extra (td_at td) y = tx_extra (td_at td) x \<and> x_retransmit_count y = x_retransmit_count x"
proof -
  have u: "x_user x = Some ModStatefulUtil" and l: "x_last_tx x = Some td" and n: "\<not> x_terminating x" using b s by (simp_all add: base_def)
  have t: "told x" "x_attached x = []" "\<not> x_pend_transport x" using p s by (simp_all add: phase_def)
  obtain ht where ht: "mod_tsx_layer_unregister_tsx (fe_mod_id env) (x_layer x) (x_ref x) = Inr ht" "hash_inv True ht"
    "hash_map True ht = (hash_map True (x_layer x))(lower_c (transaction_key (x_ref x)) := None)"
    using unregister_tsx_eq [of "x_layer x" "x_ref x" "fe_mod_id env"] b env by (auto simp: base_def fsm_ok_def)
  define x1 where "x1 = drop_tsx_transport ((tell (x_state x) src (x\<lparr>x_state := PJSIP_TSX_STATE_DESTROYED\<rparr>))\<lparr>x_layer := ht\<rparr>)"
  define x2 where "x2 = logged (TxDecRef (td_at td)) ((logged (SelectorDecRef (x_tp_sel x)) x1)\<lparr>x_last_tx := None\<rparr>)"
  define x3 where "x3 = (tsx_cancel_timer RetransmitTimer (tsx_cancel_timer TimeoutTimer x2))\<lparr>x_pend_resched := False, x_pend_send := False\<rparr>"
  define y where "y = pj_grp_lock_dec_ref (x3\<lparr>x_terminating := True\<rparr>)"
  have y: "tsx_set_state env PJSIP_TSX_STATE_DESTROYED src False False x = Inr y"
    using env s t(3) l n ht(1)
    by (simp add: tsx_set_state_def notify_response_util u notify_util fsm_ok_def tsx_shutdown_def no_transport_eq state_order
        x1_def x2_def x3_def y_def Let_def)
  have e3: "extra x3 = extra x" "secure x3" "\<not> x_terminating x3" using sec n by (simp_all add: x3_def x2_def x1_def)
  then have e4: "extra (x3\<lparr>x_terminating := True\<rparr>) = extra x + 1" by (simp add: extra_def counted_def running_def timer_of_def)
  have sy: "secure y" unfolding y_def using e3 e4 sec by (intro secure_simps(5)) (simp_all add: secure_def)
  have bd: "base td y"
    using b s ht(2,3) by (auto simp: base_def y_def x3_def x2_def x1_def pj_grp_lock_dec_ref_def is_invite_def logged_def
        change_defs tsx_at_def)
  have "tx_extra (td_at td) y = tx_extra (td_at td) x"
    using l by (simp add: y_def x3_def tx_extra_def pj_grp_lock_dec_ref_def x2_def logged_def change_defs x1_def)
  moreover have "told y" using t(1) by (simp add: told_def y_def pj_grp_lock_dec_ref_def x3_def x2_def x1_def logged_def change_defs tell_calls)
  moreover have "x_attached y = []" "\<not> x_pend_transport y" "x_state y = PJSIP_TSX_STATE_DESTROYED"
    "x_retransmit_count y = x_retransmit_count x"
    using t by (simp_all add: y_def pj_grp_lock_dec_ref_def x3_def x2_def x1_def logged_def)
  ultimately show ?thesis using y sy bd e4 by (intro exI [of _ y]) (simp add: phase_def y_def)
qed


section \<open>Sending again\<close>

text \<open>The invariant inside an operation, which holds the lock.\<close>

definition fine :: "int \<Rightarrow> tdata \<Rightarrow> int \<Rightarrow> int \<Rightarrow> transaction \<Rightarrow> bool" where
  "fine k td b e x \<longleftrightarrow>
     base td x \<and> phase td x \<and> secure x \<and> extra x = b \<and> tx_extra (td_at td) x = e \<and> x_retransmit_count x \<le> k"

lemma fine_terminate:
  assumes "base td x" and "x_state x < PJSIP_TSX_STATE_TERMINATED" and "secure x" and "tellable src x" and "detachable x"
    and "fsm_ok env" and "x_retransmit_count x \<le> k" and "extra x = b" and "tx_extra (td_at td) x = e"
  shows "\<exists>y. tsx_set_state env PJSIP_TSX_STATE_TERMINATED src False False x = Inr y \<and> fine k td b e y \<and>
     x_state y = PJSIP_TSX_STATE_TERMINATED \<and> ending y \<and> x_transport_err y = x_transport_err x \<and>
     x_routing y = x_routing x"
  using terminate_ok [OF assms(1-6), of "td_at td"] assms(7-9) by (auto simp: fine_def)

lemma young_tellable:
  "young x \<Longrightarrow> 200 \<le> c \<Longrightarrow> true_outcome (c, src) \<Longrightarrow> tellable src (tsx_set_status_code c r x)"
  by (simp add: young_def tellable_def tsx_set_status_code_def)

lemma status_code_simps [simp]:
  "x_ref (tsx_set_status_code c r x) = x_ref x" "x_role (tsx_set_status_code c r x) = x_role x"
  "x_method (tsx_set_status_code c r x) = x_method x" "x_cseq (tsx_set_status_code c r x) = x_cseq x"
  "x_branch (tsx_set_status_code c r x) = x_branch x" "x_user (tsx_set_status_code c r x) = x_user x"
  "x_terminating (tsx_set_status_code c r x) = x_terminating x" "x_refs (tsx_set_status_code c r x) = x_refs x"
  "x_freed (tsx_set_status_code c r x) = x_freed x" "x_state (tsx_set_status_code c r x) = x_state x"
  "x_handle_200resp (tsx_set_status_code c r x) = x_handle_200resp x"
  "x_transport (tsx_set_status_code c r x) = x_transport x"
  "x_is_reliable (tsx_set_status_code c r x) = x_is_reliable x" "x_addr (tsx_set_status_code c r x) = x_addr x"
  "x_res_tp (tsx_set_status_code c r x) = x_res_tp x"
  "x_pend_transport (tsx_set_status_code c r x) = x_pend_transport x"
  "x_pend_resched (tsx_set_status_code c r x) = x_pend_resched x"
  "x_pend_send (tsx_set_status_code c r x) = x_pend_send x"
  "x_pend_destroy (tsx_set_status_code c r x) = x_pend_destroy x"
  "x_resolved (tsx_set_status_code c r x) = x_resolved x"
  "x_transport_err (tsx_set_status_code c r x) = x_transport_err x"
  "x_tp_sel (tsx_set_status_code c r x) = x_tp_sel x" "x_last_tx (tsx_set_status_code c r x) = x_last_tx x"
  "x_pending_tx (tsx_set_status_code c r x) = x_pending_tx x" "x_attached (tsx_set_status_code c r x) = x_attached x"
  "x_retransmit_count (tsx_set_status_code c r x) = x_retransmit_count x"
  "x_retransmit (tsx_set_status_code c r x) = x_retransmit x" "x_timeout (tsx_set_status_code c r x) = x_timeout x"
  "x_mod_data (tsx_set_status_code c r x) = x_mod_data x" "x_waiting (tsx_set_status_code c r x) = x_waiting x"
  "x_routing (tsx_set_status_code c r x) = x_routing x" "x_fired (tsx_set_status_code c r x) = x_fired x"
  "x_now (tsx_set_status_code c r x) = x_now x" "x_layer (tsx_set_status_code c r x) = x_layer x"
  "x_log (tsx_set_status_code c r x) = x_log x"
  "x_status_code (tsx_set_status_code c r x) = c" "running n (tsx_set_status_code c r x) = running n x"
  by (simp_all add: tsx_set_status_code_def)

lemma status_code_neutral [simp]:
  "base td (tsx_set_status_code c r x) = base td x" "is_invite (tsx_set_status_code c r x) = is_invite x"
  "secure (tsx_set_status_code c r x) = secure x" "extra (tsx_set_status_code c r x) = extra x"
  "tx_extra m (tsx_set_status_code c r x) = tx_extra m x" "detachable (tsx_set_status_code c r x) = detachable x"
  by (auto simp: base_def detachable_def is_invite_def tx_extra_def) (auto simp: tsx_set_status_code_def)

lemma client_state:
  "phase td x \<Longrightarrow> young x \<Longrightarrow> x_state x \<noteq> PJSIP_TSX_STATE_NULL \<Longrightarrow>
     x_state x = PJSIP_TSX_STATE_CALLING \<or> x_state x = PJSIP_TSX_STATE_PROCEEDING"
  by (auto simp: phase_def young_def told_def split: tsx_state.splits)

lemma timer_neutral [simp]:
  "base td (tsx_cancel_timer n x) = base td x" "base td (started n d i x) = base td x"
  "connected (tsx_cancel_timer n x) = connected x" "connected (started n d i x) = connected x"
  "young (tsx_cancel_timer n x) = young x" "young (started n d i x) = young x"
  "told (tsx_cancel_timer n x) = told x" "told (started n d i x) = told x"
  "tellable src (tsx_cancel_timer n x) = tellable src x" "tellable src (started n d i x) = tellable src x"
  "detachable (tsx_cancel_timer n x) = detachable x" "detachable (started n d i x) = detachable x"
  by (simp_all add: base_def connected_def young_def told_def tellable_def detachable_def is_invite_def)

lemma status_neutral [simp]: "connected (tsx_set_status_code c r x) = connected x"
  by (simp add: connected_def)

text \<open>A phase with a transport: the state is Calling or Proceeding.\<close>

definition active :: "transaction \<Rightarrow> bool" where
  "active x \<longleftrightarrow> x_state x \<in> {PJSIP_TSX_STATE_CALLING, PJSIP_TSX_STATE_PROCEEDING} \<and> young x \<and> timed x"

lemma active_phase: "active x \<Longrightarrow> connected x \<Longrightarrow> phase td x"
  by (auto simp: active_def phase_def)

lemma active_below: "active x \<Longrightarrow> x_state x < PJSIP_TSX_STATE_TERMINATED"
  by (auto simp: active_def state_order)

lemma transport_error_ok:
  assumes b: "base td x" and a: "active x" and r: "x_attached x = []" and sec: "secure x" and env: "fsm_ok env"
    and k: "x_retransmit_count x \<le> k" "extra x = b" "tx_extra (td_at td) x = e"
  shows "\<exists>y. tsx_set_state env PJSIP_TSX_STATE_TERMINATED SrcTransportError False False
       (tsx_set_status_code PJSIP_SC_TSX_TRANSPORT_ERROR t x) = Inr y \<and> fine k td b e y \<and> x_state y = PJSIP_TSX_STATE_TERMINATED"
proof -
  have "tellable SrcTransportError (tsx_set_status_code PJSIP_SC_TSX_TRANSPORT_ERROR t x)"
    using a by (intro young_tellable) (simp_all add: active_def PJSIP_SC_TSX_TRANSPORT_ERROR_def true_outcome_def)
  with fine_terminate [of td "tsx_set_status_code PJSIP_SC_TSX_TRANSPORT_ERROR t x" SrcTransportError env k b e]
  show ?thesis using b active_below [OF a] sec r env k by (auto simp: detachable_def)
qed

lemma send_connected:
  assumes b: "base td x" and a: "active x" and c: "connected x" and sec: "secure x" and env: "fsm_ok env"
    and k: "x_retransmit_count x \<le> k" "extra x = b" "tx_extra (td_at td) x = e"
  shows "\<exists>st y. tsx_send_msg env td x = Inr (st, y) \<and> fine k td b e y"
proof -
  have same: "fine k td b e y"
    if "base td y" "active y" "connected y" "secure y" "x_retransmit_count y = x_retransmit_count x" "extra y = extra x"
      "tx_extra (td_at td) y = tx_extra (td_at td) x" for y
    using that k active_phase [of y td] by (simp add: fine_def)
  obtain tp where tp: "x_transport x = Some tp" using c by (auto simp: connected_def)
  define x1 where "x1 = (pj_grp_lock_add_ref x)\<lparr>x_pend_transport := True\<rparr>"
  define st where "st = fe_send env x1 td"
  define x2 where "x2 = logged (TransportSend tp td st) x1"
  define x3 where "x3 = pj_grp_lock_dec_ref (x2\<lparr>x_pend_transport := False\<rparr>)"
  note xs = x1_def x2_def x3_def pj_grp_lock_add_ref_def pj_grp_lock_dec_ref_def logged_def
  consider "x_pend_transport x" | "\<not> x_pend_transport x" "fe_is_pending env td" | "\<not> x_pend_transport x" "\<not> fe_is_pending env td" by blast
  then show ?thesis
  proof cases
    case 1
    have "fine k td b e (x\<lparr>x_pend_send := True\<rparr>)"
      using b a c sec by (intro same) (auto simp: base_def active_def connected_def young_def timed_def is_invite_def)
    then show ?thesis using 1 by (simp add: tsx_send_msg_def tsx_send_known_def)
  next
    case 2
    have "fine k td b e x" using b a c sec by (intro same) simp_all
    then show ?thesis using 2 by (simp add: tsx_send_msg_def tsx_send_known_def)
  next
    case 3
    have e1: "extra x2 = extra x + 1" "secure x2" using sec by (simp_all add: x2_def x1_def)
    have s3: "secure x3" unfolding x3_def by (rule secure_simps(5)) (use e1 sec in \<open>simp_all add: secure_def\<close>)
    have "extra x3 = extra x" using e1 by (simp add: x3_def)
    note s3 = s3 this
    have same3: "base td x3" "active x3" "connected x3" "x_retransmit_count x3 = x_retransmit_count x"
      "tx_extra (td_at td) x3 = tx_extra (td_at td) x"
      using b a c tp by (auto simp: xs base_def active_def connected_def young_def timed_def is_invite_def change_defs
          tx_extra_def running_def timer_of_def)
    show ?thesis
    proof (cases "st = PJ_EPENDING")
      case True
      have "extra (x2\<lparr>x_waiting := x_waiting x2 @ [td]\<rparr>) = extra x2 - 1" by (simp add: extra_def counted_def)
      then have "fine k td b e (x2\<lparr>x_waiting := x_waiting x2 @ [td]\<rparr>)"
        using b a c sec e1 by (intro same) (auto simp: xs base_def active_def connected_def young_def timed_def is_invite_def change_defs
          tx_extra_def running_def timer_of_def secure_def)
      then show ?thesis
        using 3 True tp by (simp add: tsx_send_msg_def tsx_send_known_def send_by_transport_def x2_def x1_def st_def Let_def)
    next
      case False
      show ?thesis
      proof (cases "st = PJ_SUCCESS")
        case True
        have "fine k td b e x3" using same3 s3 by (intro same) simp_all
        then show ?thesis using 3 False True tp
          by (simp add: tsx_send_msg_def tsx_send_known_def send_by_transport_def x3_def x2_def x1_def st_def Let_def)
      next
        case err: False
        define x4 where "x4 = (drop_tsx_transport x3)\<lparr>x_addr := [], x_res_tp := None\<rparr>"
        have "base td x4" "active x4" "x_attached x4 = []" "x_resolved x4"
          using same3 tp by (auto simp: x4_def base_def active_def connected_def young_def timed_def is_invite_def)
        moreover have "secure x4" "extra x4 = extra x" "tx_extra (td_at td) x4 = tx_extra (td_at td) x"
          "x_retransmit_count x4 = x_retransmit_count x" using s3 same3 by (simp_all add: x4_def)
        ultimately obtain y where "tsx_set_state env PJSIP_TSX_STATE_TERMINATED SrcTransportError False False
            (tsx_set_status_code PJSIP_SC_TSX_TRANSPORT_ERROR (Some (fe_strerror env st)) x4) = Inr y" "fine k td b e y"
          using transport_error_ok [of td x4 env k b e "Some (fe_strerror env st)"] env k by auto
        then show ?thesis using 3 False err tp \<open>x_resolved x4\<close>
          by (simp add: tsx_send_msg_def tsx_send_known_def send_by_transport_def transport_failed_def no_transport_eq x4_def
              x3_def x2_def x1_def st_def Let_def)
      qed
    qed
  qed
qed


lemma resched_ok:
  assumes "x_role x = PJSIP_ROLE_UAC" and "\<not> x_pend_transport x" and "x_status_code x < 200"
    and "0 \<le> x_retransmit_count x" and "x_retransmit_count x < 31" and "\<not> running RetransmitTimer x"
  shows "\<exists>y. tsx_resched_retransmission env x = Inr y \<and> (y = x \<or> (\<exists>d. y = started RetransmitTimer d 1 x))"
  using assms by (auto simp: tsx_resched_retransmission_def Let_def schedule_eq timer_ids)

lemma started_retransmit:
  assumes "base td x" and "active x" and "connected x" and "secure x" and "\<not> running RetransmitTimer x"
  shows "base td (started RetransmitTimer d i x)" and "active (started RetransmitTimer d i x)"
    and "connected (started RetransmitTimer d i x)" and "secure (started RetransmitTimer d i x)"
  using assms by (auto simp: base_def active_def connected_def young_def timed_def is_invite_def)

lemma retransmit_ok:
  assumes b: "base td x" and a: "active x" and c: "connected x" and sec: "secure x" and env: "fsm_ok env"
    and k: "x_retransmit_count x < k" "k < 31" "extra x = b" "tx_extra (td_at td) x = e"
  shows "\<exists>st y. tsx_retransmit env True x = Inr (st, y) \<and> fine k td b e y"
proof (cases "running RetransmitTimer x")
  case True
  have "fine k td b e x" using b a c sec k active_phase [OF a c] by (simp add: fine_def)
  then show ?thesis using True by (simp add: tsx_retransmit_def)
next
  case False
  define x1 where "x1 = x\<lparr>x_retransmit_count := x_retransmit_count x + 1\<rparr>"
  have l: "x_last_tx x = Some td" "x_state x \<noteq> PJSIP_TSX_STATE_CONFIRMED" using b a by (auto simp: base_def active_def)
  have x1: "base td x1" "active x1" "connected x1" "secure x1" "\<not> running RetransmitTimer x1" "extra x1 = b"
    "tx_extra (td_at td) x1 = e" "x_retransmit_count x1 \<le> k"
    using b a c sec False k by (auto simp: x1_def base_def active_def connected_def young_def timed_def is_invite_def)
  have "\<exists>y. (if x_pend_transport x1 then Inr (x1\<lparr>x_pend_resched := True\<rparr>) else tsx_resched_retransmission env x1) = Inr y \<and>
      base td y \<and> active y \<and> connected y \<and> secure y \<and> extra y = b \<and> tx_extra (td_at td) y = e \<and> x_retransmit_count y \<le> k"
  proof (cases "x_pend_transport x1")
    case True
    then show ?thesis using x1 by (auto simp: base_def active_def connected_def young_def timed_def is_invite_def)
  next
    case np: False
    have "x_role x1 = PJSIP_ROLE_UAC" "x_status_code x1 < 200" "0 \<le> x_retransmit_count x1"
      using x1 by (auto simp: base_def active_def young_def)
    from resched_ok [OF this(1) np this(2,3) _ x1(5), of env] obtain y where
      y: "tsx_resched_retransmission env x1 = Inr y" "y = x1 \<or> (\<exists>d. y = started RetransmitTimer d 1 x1)" using k x1(8) by auto
    from y(2) show ?thesis
    proof
      assume "y = x1"
      then show ?thesis using y(1) np x1 by auto
    next
      assume "\<exists>d. y = started RetransmitTimer d 1 x1"
      then obtain d where "y = started RetransmitTimer d 1 x1" ..
      then show ?thesis using y(1) np started_retransmit [OF x1(1-5), of d 1] x1(5-8) by simp
    qed
  qed
  then obtain y where y: "(if x_pend_transport x1 then Inr (x1\<lparr>x_pend_resched := True\<rparr>) else tsx_resched_retransmission env x1) = Inr y"
    "base td y" "active y" "connected y" "secure y" "extra y = b" "tx_extra (td_at td) y = e" "x_retransmit_count y \<le> k" by blast
  have st: "x_state x1 \<noteq> PJSIP_TSX_STATE_CONFIRMED" using l by (simp add: x1_def)
  from send_connected [OF y(2-5) env y(8,6,7)] show ?thesis
    using False l st y(1) by (simp add: tsx_retransmit_def x1_def [symmetric] Let_def)
qed

lemma timed_out_ok:
  assumes b: "base td x" and y: "young x" and s: "x_state x < PJSIP_TSX_STATE_TERMINATED" and d: "detachable x"
    and sec: "secure x" and env: "fsm_ok env" and k: "x_retransmit_count x \<le> k" "extra x = b" "tx_extra (td_at td) x = e"
  shows "\<exists>y. timed_out env x = Inr y \<and> fine k td b e y \<and> x_state y = PJSIP_TSX_STATE_TERMINATED \<and> ending y"
proof -
  have "tellable (SrcTimer TimeoutTimer) (tsx_set_status_code PJSIP_SC_TSX_TIMEOUT None x)"
    using y by (intro young_tellable) (simp_all add: PJSIP_SC_TSX_TIMEOUT_def true_outcome_def)
  with fine_terminate [of td "tsx_set_status_code PJSIP_SC_TSX_TIMEOUT None x" "SrcTimer TimeoutTimer" env k b e]
  show ?thesis using b s d sec env k by (auto simp: timed_out_def)
qed

lemma routed_detachable: "being_routed td x \<or> connected x \<Longrightarrow> detachable x"
  by (auto simp: being_routed_def connected_def detachable_def)

section \<open>Responses\<close>

definition is_answer :: "rx_data \<Rightarrow> bool" where
  "is_answer rdata \<longleftrightarrow> (\<exists>code reason. line (rx_msg rdata) = StatusLine code reason \<and> 100 \<le> code \<and> code \<le> 699)"

lemma in_class_iff: "100 \<le> c \<Longrightarrow> c \<le> 699 \<Longrightarrow> status_in_class c 100 \<longleftrightarrow> c < 200"
  "100 \<le> c \<Longrightarrow> c \<le> 699 \<Longrightarrow> status_in_class c 200 \<longleftrightarrow> 200 \<le> c \<and> c < 300"
  by (auto simp: status_in_class_def signed_divide_int_def)

text \<open>A final response: the transaction is completed, its user told and the timer for what may still come set.\<close>

lemma complete_fine:
  assumes b: "base td x" and s: "x_state x < PJSIP_TSX_STATE_COMPLETED" and t: "tellable src x" and c: "connected x"
    and sec: "secure x" and k: "x_retransmit_count x \<le> k" "extra x = b" "tx_extra (td_at td) x = e"
    and y: "y = tell (x_state x) src (x\<lparr>x_state := PJSIP_TSX_STATE_COMPLETED\<rparr>)"
  shows "running TimeoutTimer x \<Longrightarrow> fine k td b e y" and "fine k td b e (started TimeoutTimer d i (tsx_cancel_timer TimeoutTimer y))"
proof -
  have "tellable src (x\<lparr>x_state := PJSIP_TSX_STATE_COMPLETED\<rparr>)" using t by (simp add: tellable_def told_def)
  then have "told y" unfolding y by (rule tell_told)
  then have t: "\<not> x_mod_data y" "\<exists>c. util_calls (x_log y) = [c] \<and> true_outcome c" by (simp_all add: told_def)
  have b: "base td y" using b s by (auto simp: y base_def is_invite_def state_order)
  have f: "x_routing y = []" "x_attached y = []" "x_state y = PJSIP_TSX_STATE_COMPLETED" "secure y" "extra y = b"
    "tx_extra (td_at td) y = e" "x_retransmit_count y \<le> k" "running TimeoutTimer y = running TimeoutTimer x"
    using c sec k by (simp_all add: y connected_def)
  show "running TimeoutTimer x \<Longrightarrow> fine k td b e y" using b f t by (simp add: fine_def phase_def timed_def told_def)
  show "fine k td b e (started TimeoutTimer d i (tsx_cancel_timer TimeoutTimer y))"
    using b f t by (simp add: fine_def phase_def timed_def told_def)
qed

lemma set_completed:
  assumes "x_user x = Some ModStatefulUtil" and "fsm_ok env" and "x_state x < PJSIP_TSX_STATE_COMPLETED"
  shows "tsx_set_state env PJSIP_TSX_STATE_COMPLETED src False False x =
    Inr (tell (x_state x) src (x\<lparr>x_state := PJSIP_TSX_STATE_COMPLETED\<rparr>))"
  by (rule advance_eq) (use assms in \<open>auto simp: state_order\<close>)

lemma final_ok:
  assumes b: "base td x" and s: "x_state x < PJSIP_TSX_STATE_COMPLETED" and y: "young x" and c: "connected x"
    and sec: "secure x" and env: "fsm_ok env" and k: "x_retransmit_count x \<le> k" "extra x = b" "tx_extra (td_at td) x = e"
    and r: "line (rx_msg rdata) = StatusLine code reason" "200 \<le> code" "code \<le> 699"
  shows "\<exists>st y. tsx_on_state_proceeding_uac env (EvRx rdata) x = Inr (st, y) \<and> fine k td b e y"
proof -
  let ?src = "SrcRxMsg rdata" and ?x = "tsx_set_status_code code (Some reason) x"
  have inv: "\<not> is_invite ?x" "x_user x = Some ModStatefulUtil" using b by (simp_all add: base_def)
  have t: "tellable ?src z" if "x_log z = x_log x" "x_mod_data z = x_mod_data x" "x_status_code z = code" for z
    using y r that by (auto simp: tellable_def young_def true_outcome_def)
  have keep: "base td ?x" "connected ?x" using b c by simp_all
  show ?thesis
  proof (cases "code < 300")
    case True
    define x1 where "x1 = tsx_cancel_timer TimeoutTimer ?x"
    define x2 where "x2 = tsx_cancel_timer RetransmitTimer (started TimeoutTimer (final_delay env x1) 2 x1)"
    have x2: "x_user x2 = Some ModStatefulUtil" "x_state x2 = x_state x" "\<not> is_invite x1"
      using inv by (simp_all add: x2_def x1_def is_invite_def)
    have "success_response env rdata ?x = Inr (tell (x_state x2) ?src (x2\<lparr>x_state := PJSIP_TSX_STATE_COMPLETED\<rparr>))"
      using set_completed [OF x2(1) env, of ?src] s x2
      by (simp add: success_response_def x1_def [symmetric]) (simp add: schedule_eq timer_ids x1_def x2_def)
    moreover have "running TimeoutTimer x2" by (simp add: x2_def)
    ultimately show ?thesis
      using True r k sec s complete_fine(1) [of td x2 ?src k b e] keep t [of x2]
      by (simp add: tsx_on_state_proceeding_uac_def in_class_iff done_with_def) (simp add: x2_def x1_def)
  next
    case False
    define x1 where "x1 = tsx_cancel_timer TimeoutTimer (tsx_cancel_timer RetransmitTimer ?x)"
    define x2 where "x2 = tell (x_state x1) ?src (x1\<lparr>x_state := PJSIP_TSX_STATE_COMPLETED\<rparr>)"
    have x1: "x_user x1 = Some ModStatefulUtil" "x_state x1 = x_state x" "\<not> is_invite x1"
      using inv by (simp_all add: x1_def is_invite_def)
    have "failure_response env rdata ?x = Inr (PJ_SUCCESS, started TimeoutTimer (final_delay env x2) 2 (tsx_cancel_timer TimeoutTimer x2))"
      using set_completed [OF x1(1) env, of ?src] s x1
      by (simp add: failure_response_def x1_def [symmetric] Let_def done_with_def x2_def restart_eq timer_ids)
    then show ?thesis
      using False r k sec s complete_fine(2) [of td x1 ?src k b e x2] keep t [of x1]
      by (simp add: tsx_on_state_proceeding_uac_def in_class_iff) (simp add: x2_def x1_def)
  qed
qed


lemma provisional_ok:
  assumes b: "base td x" and a: "active x" and c: "connected x" and sec: "secure x" and env: "fsm_ok env"
    and k: "x_retransmit_count x \<le> k" "extra x = b" "tx_extra (td_at td) x = e"
    and r: "line (rx_msg rdata) = StatusLine code reason" "100 \<le> code" "code < 200"
  shows "\<exists>st y. tsx_on_state_proceeding_uac env (EvRx rdata) x = Inr (st, y) \<and> fine k td b e y"
proof -
  let ?x = "tsx_set_status_code code (Some reason) x"
  define y where "y = tell (x_state x) (SrcRxMsg rdata) (?x\<lparr>x_state := PJSIP_TSX_STATE_PROCEEDING\<rparr>)"
  have "tsx_set_state env PJSIP_TSX_STATE_PROCEEDING (SrcRxMsg rdata) False False ?x = Inr y"
    using advance_eq [of ?x env PJSIP_TSX_STATE_PROCEEDING "SrcRxMsg rdata"] b a env
    by (auto simp: base_def active_def state_order y_def)
  moreover have "base td y" using b a by (auto simp: base_def y_def is_invite_def active_def)
  moreover have "young y" "timed y" "connected y" "secure y"
    using a c sec r(3) by (simp_all add: y_def active_def young_def timed_def connected_def tell_calls)
  then have "phase td y" by (simp add: phase_def) (simp add: y_def)
  with \<open>base td y\<close> \<open>secure y\<close> have "fine k td b e y" using k by (simp add: fine_def) (simp add: y_def)
  ultimately show ?thesis using r by (simp add: tsx_on_state_proceeding_uac_def in_class_iff done_with_def)
qed

lemma response_ok:
  assumes b: "base td x" and p: "phase td x" and n: "x_state x \<noteq> PJSIP_TSX_STATE_NULL" "x_routing x = []"
    and sec: "secure x" and env: "fsm_ok env" and k: "x_retransmit_count x \<le> k" "extra x = b" "tx_extra (td_at td) x = e"
    and r: "is_answer rdata"
  shows "\<exists>st y. state_handler env (EvRx rdata) x = Inr (st, y) \<and> fine k td b e y"
proof -
  have f: "fine k td b e x" using b p sec k by (simp add: fine_def)
  obtain code reason where l: "line (rx_msg rdata) = StatusLine code reason" "100 \<le> code" "code \<le> 699"
    using r by (auto simp: is_answer_def)
  have role: "x_role x = PJSIP_ROLE_UAC" "\<not> is_invite x" using b by (simp_all add: base_def)
  consider (calling) "x_state x = PJSIP_TSX_STATE_CALLING" | (proceeding) "x_state x = PJSIP_TSX_STATE_PROCEEDING"
    | (completed) "x_state x = PJSIP_TSX_STATE_COMPLETED" | (terminated) "x_state x = PJSIP_TSX_STATE_TERMINATED"
    | (destroyed) "x_state x = PJSIP_TSX_STATE_DESTROYED"
    using p n(1) by (auto simp: phase_def split: tsx_state.splits)
  then show ?thesis
  proof cases
    case calling
    then have a: "active x" "connected x" using p n(2) by (auto simp: phase_def active_def being_routed_def)
    define x1 where "x1 = tsx_cancel_timer RetransmitTimer x"
    have x1: "base td x1" "connected x1" "young x1" "secure x1" "extra x1 = b" "tx_extra (td_at td) x1 = e"
      "x_retransmit_count x1 \<le> k" "x_state x1 = x_state x" "timed x1"
      using b a sec k by (simp_all add: x1_def active_def timed_def)
    have "\<exists>y. response_timers env code x = Inr y \<and>
        (y = x1 \<or> y = started RetransmitTimer (fe_t2 env) 1 x1 \<or> 200 \<le> code \<and> y = tsx_cancel_timer TimeoutTimer x1)"
      using role by (simp add: response_timers_def x1_def Let_def schedule_eq timer_ids is_invite_def)
    then obtain y where r1: "response_timers env code x = Inr y"
      and "y = x1 \<or> y = started RetransmitTimer (fe_t2 env) 1 x1 \<or> 200 \<le> code \<and> y = tsx_cancel_timer TimeoutTimer x1" by blast
    then have "base td y \<and> connected y \<and> young y \<and> secure y \<and> extra y = b \<and> tx_extra (td_at td) y = e \<and>
        x_retransmit_count y \<le> k \<and> x_state y = x_state x \<and> (code < 200 \<longrightarrow> timed y)"
      using x1 by (elim disjE conjE) (simp_all add: timed_def, simp_all add: x1_def)
    then have y: "response_timers env code x = Inr y" "base td y" "connected y" "young y" "secure y" "extra y = b"
      "tx_extra (td_at td) y = e" "x_retransmit_count y \<le> k" "x_state y = x_state x" "code < 200 \<Longrightarrow> timed y"
      using r1 by blast+
    let ?y = "y\<lparr>x_pend_resched := False\<rparr>"
    have y': "base td ?y" "connected ?y" "young ?y" "secure ?y" "extra ?y = b" "tx_extra (td_at td) ?y = e"
      "x_retransmit_count ?y \<le> k" "x_state ?y = PJSIP_TSX_STATE_CALLING" "code < 200 \<Longrightarrow> active ?y"
      using y calling by (auto simp: base_def connected_def young_def is_invite_def active_def timed_def)
    have "\<exists>st z. tsx_on_state_proceeding_uac env (EvRx rdata) ?y = Inr (st, z) \<and> fine k td b e z"
    proof (cases "code < 200")
      case True
      then show ?thesis using provisional_ok [OF y'(1,9,2,4) env y'(7,5,6) l(1,2)] by simp
    next
      case False
      then show ?thesis using final_ok [OF y'(1) _ y'(3,2,4) env y'(7,5,6) l(1) _ l(3)] y'(8) by (simp add: state_order)
    qed
    then show ?thesis using calling role l(1) y(1) by (auto simp: state_handler_def tsx_on_state_calling_def)
  next
    case proceeding
    then have a: "active x" "connected x" "young x" using p by (simp_all add: phase_def active_def)
    have "\<exists>st z. tsx_on_state_proceeding_uac env (EvRx rdata) x = Inr (st, z) \<and> fine k td b e z"
    proof (cases "code < 200")
      case True
      then show ?thesis using provisional_ok [OF b a(1,2) sec env k l(1,2)] by simp
    next
      case False
      then show ?thesis using final_ok [OF b _ a(3,2) sec env k l(1) _ l(3)] proceeding by (simp add: state_order)
    qed
    then show ?thesis using proceeding role by (simp add: state_handler_def)
  next
    case completed
    then show ?thesis using f role by (simp add: state_handler_def tsx_on_state_completed_uac_def)
  qed (use f in \<open>simp_all add: state_handler_def tsx_on_state_terminated_def tsx_on_state_destroyed_def\<close>)
qed

section \<open>Timers\<close>

lemma timer_ok:
  assumes b: "base td x" and q: "phase_untimed td x" and n: "x_state x \<noteq> PJSIP_TSX_STATE_NULL"
    and m: "m = RetransmitTimer \<Longrightarrow> phase td x \<and> \<not> being_routed td x"
    and sec: "secure x" and env: "fsm_ok env" and k: "x_retransmit_count x \<le> k" "m = RetransmitTimer \<Longrightarrow> x_retransmit_count x < k"
      "k < 31" "extra x = b" "tx_extra (td_at td) x = e"
  shows "\<exists>st y. state_handler env (EvTimer m) x = Inr (st, y) \<and> fine k td b e y \<and>
     (m = TimeoutTimer \<longrightarrow> x_state x < PJSIP_TSX_STATE_TERMINATED \<longrightarrow> x_state y = PJSIP_TSX_STATE_TERMINATED \<and> ending y) \<and>
     (x_state x = PJSIP_TSX_STATE_TERMINATED \<longrightarrow> x_state y = PJSIP_TSX_STATE_DESTROYED)"
proof -
  have f: "fine k td b e x" if "phase td x" using b that sec k by (simp add: fine_def)
  have role: "x_role x = PJSIP_ROLE_UAC" "\<not> is_invite x" using b by (simp_all add: base_def)
  consider (calling) "x_state x = PJSIP_TSX_STATE_CALLING" | (proceeding) "x_state x = PJSIP_TSX_STATE_PROCEEDING"
    | (completed) "x_state x = PJSIP_TSX_STATE_COMPLETED" | (terminated) "x_state x = PJSIP_TSX_STATE_TERMINATED"
    | (destroyed) "x_state x = PJSIP_TSX_STATE_DESTROYED"
    using q n by (auto simp: phase_untimed_def phase_def split: tsx_state.splits)
  then show ?thesis
  proof cases
    case calling
    then have a: "young x" "being_routed td x \<or> connected x" using q by (auto simp: phase_untimed_def)
    show ?thesis
    proof (cases m)
      case RetransmitTimer
      then have c: "connected x" "active x" using a m calling by (auto simp: phase_def active_def)
      from retransmit_ok [OF b c(2,1) sec env k(2) k(3-5)] RetransmitTimer show ?thesis
        using calling role by (simp add: state_handler_def tsx_on_state_calling_def)
    next
      case TimeoutTimer
      let ?x = "(tsx_cancel_timer RetransmitTimer x)\<lparr>x_pend_resched := False\<rparr>"
      have "base td ?x" "young ?x" "detachable ?x" "secure ?x"
        using b a sec routed_detachable [OF a(2)] by (auto simp: base_def young_def detachable_def is_invite_def)
      from timed_out_ok [OF this(1,2) _ this(3,4) env, of k b e] TimeoutTimer show ?thesis
        using calling role k by (auto simp: state_handler_def tsx_on_state_calling_def done_with_def state_order)
    qed
  next
    case proceeding
    then have a: "young x" "connected x" using q by (auto simp: phase_untimed_def)
    show ?thesis
    proof (cases m)
      case RetransmitTimer
      then have "active x" using m proceeding by (auto simp: phase_def active_def)
      from retransmit_ok [OF b this a(2) sec env k(2) k(3-5)] RetransmitTimer show ?thesis
        using proceeding role by (simp add: state_handler_def tsx_on_state_proceeding_uac_def)
    next
      case TimeoutTimer
      from timed_out_ok [OF b a(1) _ _ sec env, of k b e] routed_detachable [of td x] TimeoutTimer show ?thesis
        using proceeding role k a(2) by (auto simp: state_handler_def tsx_on_state_proceeding_uac_def done_with_def state_order)
    qed
  next
    case completed
    then have t: "told x" "x_attached x = []" using q by (simp_all add: phase_untimed_def)
    show ?thesis
    proof (cases m)
      case RetransmitTimer
      then show ?thesis using f m completed role by (simp add: state_handler_def tsx_on_state_completed_uac_def)
    next
      case TimeoutTimer
      from fine_terminate [OF b _ sec _ _ env k(1,4,5), of "SrcTimer TimeoutTimer"] TimeoutTimer show ?thesis
        using completed role t by (auto simp: state_handler_def tsx_on_state_completed_uac_def done_with_def state_order
            tellable_def detachable_def)
    qed
  next
    case terminated
    then have p: "phase td x" using q by (simp add: phase_untimed_def)
    from destroy_ok [OF b p terminated sec env, of "SrcTimer m"] show ?thesis
      using terminated k by (auto simp: state_handler_def tsx_on_state_terminated_def done_with_def fine_def)
  next
    case destroyed
    then show ?thesis using f q by (simp add: phase_untimed_def state_handler_def tsx_on_state_destroyed_def state_order)
  qed
qed

end
