(* ===== verification/TsxHistory.thy ===== *)
theory TsxHistory
  imports TsxSafe
begin

text \<open>
  The histories of the client transaction of a request that is not an INVITE: every happening keeps the
  invariant of \<open>TsxSafe\<close>, and \<open>pjsip_endpt_send_request\<close> sets it up.
\<close>

section \<open>Fields that do not matter\<close>

text \<open>What the parts of the invariant do not depend on.\<close>

lemma base_upd [simp]:
  "base td (x\<lparr>x_refs := refs_v\<rparr>) = base td x" "base td (x\<lparr>x_freed := freed_v\<rparr>) = base td x"
  "base td (x\<lparr>x_status_code := status_code_v\<rparr>) = base td x"
  "base td (x\<lparr>x_status_text := status_text_v\<rparr>) = base td x"
  "base td (x\<lparr>x_is_reliable := is_reliable_v\<rparr>) = base td x" "base td (x\<lparr>x_addr := addr_v\<rparr>) = base td x"
  "base td (x\<lparr>x_res_tp := res_tp_v\<rparr>) = base td x"
  "base td (x\<lparr>x_pend_transport := pend_transport_v\<rparr>) = base td x"
  "base td (x\<lparr>x_pend_resched := pend_resched_v\<rparr>) = base td x"
  "base td (x\<lparr>x_pend_send := pend_send_v\<rparr>) = base td x" "base td (x\<lparr>x_resolved := resolved_v\<rparr>) = base td x"
  "base td (x\<lparr>x_transport_err := transport_err_v\<rparr>) = base td x"
  "base td (x\<lparr>x_pending_tx := pending_tx_v\<rparr>) = base td x" "base td (x\<lparr>x_attached := attached_v\<rparr>) = base td x"
  "base td (x\<lparr>x_retransmit := retransmit_v\<rparr>) = base td x" "base td (x\<lparr>x_mod_data := mod_data_v\<rparr>) = base td x"
  "base td (x\<lparr>x_waiting := waiting_v\<rparr>) = base td x" "base td (x\<lparr>x_fired := fired_v\<rparr>) = base td x"
  "base td (x\<lparr>x_now := now_v\<rparr>) = base td x"
  by (simp_all add: base_def is_invite_def)

lemma young_upd [simp]:
  "young (x\<lparr>x_refs := refs_v\<rparr>) = young x" "young (x\<lparr>x_freed := freed_v\<rparr>) = young x"
  "young (x\<lparr>x_state := state_v\<rparr>) = young x" "young (x\<lparr>x_status_text := status_text_v\<rparr>) = young x"
  "young (x\<lparr>x_transport := transport_v\<rparr>) = young x" "young (x\<lparr>x_is_reliable := is_reliable_v\<rparr>) = young x"
  "young (x\<lparr>x_addr := addr_v\<rparr>) = young x" "young (x\<lparr>x_res_tp := res_tp_v\<rparr>) = young x"
  "young (x\<lparr>x_pend_transport := pend_transport_v\<rparr>) = young x" "young (x\<lparr>x_pend_resched := pend_resched_v\<rparr>) = young x"
  "young (x\<lparr>x_pend_send := pend_send_v\<rparr>) = young x" "young (x\<lparr>x_resolved := resolved_v\<rparr>) = young x"
  "young (x\<lparr>x_transport_err := transport_err_v\<rparr>) = young x" "young (x\<lparr>x_pending_tx := pending_tx_v\<rparr>) = young x"
  "young (x\<lparr>x_attached := attached_v\<rparr>) = young x" "young (x\<lparr>x_retransmit_count := retransmit_count_v\<rparr>) = young x"
  "young (x\<lparr>x_retransmit := retransmit_v\<rparr>) = young x" "young (x\<lparr>x_waiting := waiting_v\<rparr>) = young x"
  "young (x\<lparr>x_routing := routing_v\<rparr>) = young x" "young (x\<lparr>x_fired := fired_v\<rparr>) = young x"
  "young (x\<lparr>x_now := now_v\<rparr>) = young x" "young (x\<lparr>x_layer := layer_v\<rparr>) = young x"
  by (simp_all add: young_def is_invite_def)

lemma timed_upd [simp]:
  "timed (x\<lparr>x_refs := refs_v\<rparr>) = timed x" "timed (x\<lparr>x_freed := freed_v\<rparr>) = timed x"
  "timed (x\<lparr>x_state := state_v\<rparr>) = timed x" "timed (x\<lparr>x_status_code := status_code_v\<rparr>) = timed x"
  "timed (x\<lparr>x_status_text := status_text_v\<rparr>) = timed x" "timed (x\<lparr>x_transport := transport_v\<rparr>) = timed x"
  "timed (x\<lparr>x_is_reliable := is_reliable_v\<rparr>) = timed x" "timed (x\<lparr>x_addr := addr_v\<rparr>) = timed x"
  "timed (x\<lparr>x_res_tp := res_tp_v\<rparr>) = timed x" "timed (x\<lparr>x_pend_transport := pend_transport_v\<rparr>) = timed x"
  "timed (x\<lparr>x_pend_resched := pend_resched_v\<rparr>) = timed x" "timed (x\<lparr>x_pend_send := pend_send_v\<rparr>) = timed x"
  "timed (x\<lparr>x_resolved := resolved_v\<rparr>) = timed x" "timed (x\<lparr>x_transport_err := transport_err_v\<rparr>) = timed x"
  "timed (x\<lparr>x_pending_tx := pending_tx_v\<rparr>) = timed x" "timed (x\<lparr>x_attached := attached_v\<rparr>) = timed x"
  "timed (x\<lparr>x_retransmit_count := retransmit_count_v\<rparr>) = timed x" "timed (x\<lparr>x_retransmit := retransmit_v\<rparr>) = timed x"
  "timed (x\<lparr>x_mod_data := mod_data_v\<rparr>) = timed x" "timed (x\<lparr>x_waiting := waiting_v\<rparr>) = timed x"
  "timed (x\<lparr>x_routing := routing_v\<rparr>) = timed x" "timed (x\<lparr>x_now := now_v\<rparr>) = timed x"
  "timed (x\<lparr>x_layer := layer_v\<rparr>) = timed x"
  by (simp_all add: timed_def running_def timer_of_def)

lemma connected_upd [simp]:
  "connected (x\<lparr>x_refs := refs_v\<rparr>) = connected x" "connected (x\<lparr>x_freed := freed_v\<rparr>) = connected x"
  "connected (x\<lparr>x_state := state_v\<rparr>) = connected x"
  "connected (x\<lparr>x_status_code := status_code_v\<rparr>) = connected x"
  "connected (x\<lparr>x_status_text := status_text_v\<rparr>) = connected x"
  "connected (x\<lparr>x_is_reliable := is_reliable_v\<rparr>) = connected x"
  "connected (x\<lparr>x_addr := addr_v\<rparr>) = connected x" "connected (x\<lparr>x_res_tp := res_tp_v\<rparr>) = connected x"
  "connected (x\<lparr>x_pend_transport := pend_transport_v\<rparr>) = connected x"
  "connected (x\<lparr>x_pend_resched := pend_resched_v\<rparr>) = connected x"
  "connected (x\<lparr>x_pend_send := pend_send_v\<rparr>) = connected x"
  "connected (x\<lparr>x_transport_err := transport_err_v\<rparr>) = connected x"
  "connected (x\<lparr>x_pending_tx := pending_tx_v\<rparr>) = connected x"
  "connected (x\<lparr>x_retransmit_count := retransmit_count_v\<rparr>) = connected x"
  "connected (x\<lparr>x_retransmit := retransmit_v\<rparr>) = connected x"
  "connected (x\<lparr>x_mod_data := mod_data_v\<rparr>) = connected x"
  "connected (x\<lparr>x_waiting := waiting_v\<rparr>) = connected x"
  "connected (x\<lparr>x_fired := fired_v\<rparr>) = connected x" "connected (x\<lparr>x_now := now_v\<rparr>) = connected x"
  "connected (x\<lparr>x_layer := layer_v\<rparr>) = connected x"
  by (simp_all add: connected_def is_invite_def)

lemma base_count: "base td x \<Longrightarrow> 0 \<le> c \<Longrightarrow> base td (x\<lparr>x_retransmit_count := c\<rparr>)"
  by (simp add: base_def is_invite_def)

section \<open>The lock around an operation\<close>

lemma ref_simps [simp]:
  "x_ref (pj_grp_lock_add_ref x) = x_ref x" "x_role (pj_grp_lock_add_ref x) = x_role x"
  "x_method (pj_grp_lock_add_ref x) = x_method x" "x_cseq (pj_grp_lock_add_ref x) = x_cseq x"
  "x_branch (pj_grp_lock_add_ref x) = x_branch x" "x_user (pj_grp_lock_add_ref x) = x_user x"
  "x_terminating (pj_grp_lock_add_ref x) = x_terminating x" "x_state (pj_grp_lock_add_ref x) = x_state x"
  "x_status_code (pj_grp_lock_add_ref x) = x_status_code x" "x_status_text (pj_grp_lock_add_ref x) = x_status_text x"
  "x_handle_200resp (pj_grp_lock_add_ref x) = x_handle_200resp x"
  "x_transport (pj_grp_lock_add_ref x) = x_transport x" "x_is_reliable (pj_grp_lock_add_ref x) = x_is_reliable x"
  "x_addr (pj_grp_lock_add_ref x) = x_addr x" "x_res_tp (pj_grp_lock_add_ref x) = x_res_tp x"
  "x_pend_transport (pj_grp_lock_add_ref x) = x_pend_transport x"
  "x_pend_resched (pj_grp_lock_add_ref x) = x_pend_resched x" "x_pend_send (pj_grp_lock_add_ref x) = x_pend_send x"
  "x_pend_destroy (pj_grp_lock_add_ref x) = x_pend_destroy x" "x_resolved (pj_grp_lock_add_ref x) = x_resolved x"
  "x_transport_err (pj_grp_lock_add_ref x) = x_transport_err x" "x_tp_sel (pj_grp_lock_add_ref x) = x_tp_sel x"
  "x_last_tx (pj_grp_lock_add_ref x) = x_last_tx x" "x_pending_tx (pj_grp_lock_add_ref x) = x_pending_tx x"
  "x_attached (pj_grp_lock_add_ref x) = x_attached x"
  "x_retransmit_count (pj_grp_lock_add_ref x) = x_retransmit_count x"
  "x_retransmit (pj_grp_lock_add_ref x) = x_retransmit x" "x_timeout (pj_grp_lock_add_ref x) = x_timeout x"
  "x_mod_data (pj_grp_lock_add_ref x) = x_mod_data x" "x_waiting (pj_grp_lock_add_ref x) = x_waiting x"
  "x_routing (pj_grp_lock_add_ref x) = x_routing x" "x_fired (pj_grp_lock_add_ref x) = x_fired x"
  "x_now (pj_grp_lock_add_ref x) = x_now x" "x_layer (pj_grp_lock_add_ref x) = x_layer x"
  "x_log (pj_grp_lock_add_ref x) = x_log x" "x_ref (pj_grp_lock_dec_ref x) = x_ref x"
  "x_role (pj_grp_lock_dec_ref x) = x_role x" "x_method (pj_grp_lock_dec_ref x) = x_method x"
  "x_cseq (pj_grp_lock_dec_ref x) = x_cseq x" "x_branch (pj_grp_lock_dec_ref x) = x_branch x"
  "x_user (pj_grp_lock_dec_ref x) = x_user x" "x_terminating (pj_grp_lock_dec_ref x) = x_terminating x"
  "x_state (pj_grp_lock_dec_ref x) = x_state x" "x_status_code (pj_grp_lock_dec_ref x) = x_status_code x"
  "x_status_text (pj_grp_lock_dec_ref x) = x_status_text x"
  "x_handle_200resp (pj_grp_lock_dec_ref x) = x_handle_200resp x"
  "x_transport (pj_grp_lock_dec_ref x) = x_transport x" "x_is_reliable (pj_grp_lock_dec_ref x) = x_is_reliable x"
  "x_addr (pj_grp_lock_dec_ref x) = x_addr x" "x_res_tp (pj_grp_lock_dec_ref x) = x_res_tp x"
  "x_pend_transport (pj_grp_lock_dec_ref x) = x_pend_transport x"
  "x_pend_resched (pj_grp_lock_dec_ref x) = x_pend_resched x" "x_pend_send (pj_grp_lock_dec_ref x) = x_pend_send x"
  "x_pend_destroy (pj_grp_lock_dec_ref x) = x_pend_destroy x" "x_resolved (pj_grp_lock_dec_ref x) = x_resolved x"
  "x_transport_err (pj_grp_lock_dec_ref x) = x_transport_err x" "x_tp_sel (pj_grp_lock_dec_ref x) = x_tp_sel x"
  "x_last_tx (pj_grp_lock_dec_ref x) = x_last_tx x" "x_pending_tx (pj_grp_lock_dec_ref x) = x_pending_tx x"
  "x_attached (pj_grp_lock_dec_ref x) = x_attached x"
  "x_retransmit_count (pj_grp_lock_dec_ref x) = x_retransmit_count x"
  "x_retransmit (pj_grp_lock_dec_ref x) = x_retransmit x" "x_timeout (pj_grp_lock_dec_ref x) = x_timeout x"
  "x_mod_data (pj_grp_lock_dec_ref x) = x_mod_data x" "x_waiting (pj_grp_lock_dec_ref x) = x_waiting x"
  "x_routing (pj_grp_lock_dec_ref x) = x_routing x" "x_fired (pj_grp_lock_dec_ref x) = x_fired x"
  "x_now (pj_grp_lock_dec_ref x) = x_now x" "x_layer (pj_grp_lock_dec_ref x) = x_layer x"
  "x_log (pj_grp_lock_dec_ref x) = x_log x" "x_freed (pj_grp_lock_add_ref x) = x_freed x"
  "detachable (pj_grp_lock_add_ref x) = detachable x" "is_invite (pj_grp_lock_add_ref x) = is_invite x"
  "running n (pj_grp_lock_add_ref x) = running n x" "tellable src (pj_grp_lock_add_ref x) = tellable src x"
  "detachable (pj_grp_lock_dec_ref x) = detachable x" "is_invite (pj_grp_lock_dec_ref x) = is_invite x"
  "running n (pj_grp_lock_dec_ref x) = running n x" "tellable src (pj_grp_lock_dec_ref x) = tellable src x" "ending (pj_grp_lock_dec_ref x) = ending x"
  by (simp_all add: pj_grp_lock_add_ref_def pj_grp_lock_dec_ref_def detachable_def is_invite_def running_def timer_of_def
      tellable_def told_def ending_def cong: timer_name.case_cong)

lemma ref_neutral [simp]:
  "base td (pj_grp_lock_add_ref x) = base td x" "base td (pj_grp_lock_dec_ref x) = base td x"
  "phase td (pj_grp_lock_add_ref x) = phase td x" "phase td (pj_grp_lock_dec_ref x) = phase td x"
  "phase_untimed td (pj_grp_lock_add_ref x) = phase_untimed td x" "phase_untimed td (pj_grp_lock_dec_ref x) = phase_untimed td x"
  "being_routed td (pj_grp_lock_add_ref x) = being_routed td x" "being_routed td (pj_grp_lock_dec_ref x) = being_routed td x"
  "connected (pj_grp_lock_add_ref x) = connected x" "connected (pj_grp_lock_dec_ref x) = connected x"
  "young (pj_grp_lock_add_ref x) = young x" "young (pj_grp_lock_dec_ref x) = young x"
  "told (pj_grp_lock_add_ref x) = told x" "told (pj_grp_lock_dec_ref x) = told x"
  by (simp_all add: base_def phase_def phase_untimed_def young_def told_def timed_def connected_def idle_def being_routed_def
      cong: tsx_state.case_cong)

lemma fine_dec: "fine k td (b + 1) e x \<Longrightarrow> 1 \<le> b \<Longrightarrow> fine k td b e (pj_grp_lock_dec_ref x)"
  using secure_simps(5) [of x] by (auto simp: fine_def secure_def)

lemma inv_dec: "fine k td 1 (-1) x \<Longrightarrow> tsx_inv k td (pj_grp_lock_dec_ref x)"
  by (auto simp: fine_def tsx_inv_def secure_def) (simp_all add: pj_grp_lock_dec_ref_def)

lemma locked_fine:
  assumes "\<exists>a y. f (pj_grp_lock_add_ref x) = Inr (a, y) \<and> fine k td (b + 1) e y" and "\<not> x_freed x" and "1 \<le> b"
  shows "\<exists>a y. locked f x = Inr (a, y) \<and> fine k td b e y"
  using assms fine_dec by (fastforce simp: locked_def)

lemma locked_inv:
  assumes "\<exists>a y. f (pj_grp_lock_add_ref x) = Inr (a, y) \<and> fine k td 1 (-1) y" and "\<not> x_freed x"
  shows "\<exists>a y. locked f x = Inr (a, y) \<and> tsx_inv k td y"
  using assms inv_dec by (fastforce simp: locked_def)

lemma inv_alive:
  assumes "tsx_inv k td x" and "x_state x \<noteq> PJSIP_TSX_STATE_DESTROYED \<or> x_fired x \<noteq> [] \<or> x_routing x \<noteq> [] \<or> x_waiting x \<noteq> []"
  shows "\<not> x_freed x" and "1 \<le> x_refs x"
proof -
  have "x_terminating x = (x_state x = PJSIP_TSX_STATE_DESTROYED)" using assms(1) by (simp add: tsx_inv_def base_def)
  then have "0 < of_bool (\<not> x_terminating x) + int (length (x_fired x)) + int (length (x_routing x)) + int (length (x_waiting x))"
    using assms(2) by (elim disjE) (simp_all add: add_pos_nonneg add_nonneg_pos)
  then have "1 \<le> counted x" by (simp add: counted_def)
  then show "1 \<le> x_refs x" using assms(1) by (simp add: tsx_inv_def extra_def)
  then show "\<not> x_freed x" using assms(1) by (simp add: tsx_inv_def)
qed

text \<open>Taking a reference makes the invariant one inside an operation.\<close>

lemma inv_fine: "tsx_inv k td x \<Longrightarrow> \<not> x_freed x \<Longrightarrow> fine k td 1 (-1) (pj_grp_lock_add_ref x)"
  by (simp add: tsx_inv_def fine_def secure_def)

section \<open>Timers\<close>

lemma untimed_end: "base td x \<Longrightarrow> phase_untimed td x \<Longrightarrow> x_state x < PJSIP_TSX_STATE_TERMINATED \<Longrightarrow> x_state x \<noteq> PJSIP_TSX_STATE_NULL \<Longrightarrow>
    detachable x \<and> (young x \<or> told x)"
  by (auto simp: phase_untimed_def phase_def state_order detachable_def being_routed_def connected_def split: tsx_state.splits)

lemma transport_error_event_ok:
  assumes b: "base td x" and q: "phase_untimed td x" and n: "x_state x \<noteq> PJSIP_TSX_STATE_NULL" and sec: "secure x"
    and env: "fsm_ok env" and k: "x_retransmit_count x \<le> k" "extra x = b" "1 \<le> b" "tx_extra (td_at td) x = e"
  shows "\<exists>y. transport_error_event env x = Inr y \<and> fine k td b e y \<and>
     (if x_state x < PJSIP_TSX_STATE_TERMINATED then x_state y = PJSIP_TSX_STATE_TERMINATED \<and> ending y else y = x)"
proof (cases "x_state x < PJSIP_TSX_STATE_TERMINATED")
  case False
  then have "(x_state x < PJSIP_TSX_STATE_TERMINATED) = False" by simp
  then have "phase td x" using q by (auto simp: phase_untimed_def state_order split: tsx_state.splits)
  then show ?thesis using False \<open>(x_state x < PJSIP_TSX_STATE_TERMINATED) = False\<close> b sec k
    by (simp add: transport_error_event_def fine_def)
next
  case True
  define x1 where "x1 = drop_tsx_transport (pj_grp_lock_add_ref x)"
  have x1: "x_status_code x1 = x_status_code x" "x_transport_err x1 = x_transport_err x" by (simp_all add: x1_def)
  define x2 where "x2 = (if x_status_code x < 200
    then tsx_set_status_code PJSIP_SC_TSX_TRANSPORT_ERROR (Some (fe_strerror env (x_transport_err x))) x1 else x1)"
  define x3 where "x3 = tsx_cancel_timer TimeoutTimer (forget_pending (x2\<lparr>x_state := PJSIP_TSX_STATE_TERMINATED\<rparr>))"
  define x4 where "x4 = pj_grp_lock_dec_ref x3"
  define x5 where "x5 = tell (x_state x) SrcTransportError x4"
  define y where "y = started TimeoutTimer 0 2 x5"
  have d: "detachable x" "young x \<or> told x" using untimed_end [OF b q True n] by simp_all
  have s2: "x_state x2 = x_state x" "x_user x2 = Some ModStatefulUtil" "base td x2" "secure x2" "extra x2 = b + 1"
    "tx_extra (td_at td) x2 = e" "x_retransmit_count x2 = x_retransmit_count x" "detachable x2"
    using b sec k d(1) True
    by (simp_all add: x2_def x1_def base_def detachable_def state_order is_invite_def)
  have t2: "tellable SrcTransportError x2"
    using d(2) by (auto simp: x2_def x1_def tellable_def told_def young_def true_outcome_def PJSIP_SC_TSX_TRANSPORT_ERROR_def
        pj_grp_lock_add_ref_def)
  have le: "x_state x2 \<le> PJSIP_TSX_STATE_TERMINATED" "x_state x \<noteq> PJSIP_TSX_STATE_DESTROYED"
    using True s2(1) by (auto simp: state_order)
  have "secure x3" "extra x3 = b + 1" using s2 by (simp_all add: x3_def)
  then have x4: "secure x4" "extra x4 = b" using k(3) secure_simps(5) [of x3] by (simp_all add: x4_def secure_def)
  have "tsx_set_state env PJSIP_TSX_STATE_TERMINATED SrcTransportError True True x2 = Inr x3"
    using le by (simp add: tsx_set_state_def x3_def)
  moreover have "x_user x4 = Some ModStatefulUtil" using s2(2) by (simp add: x4_def x3_def pj_grp_lock_dec_ref_def)
  moreover have "\<not> running TimeoutTimer x5"
    by (simp add: x5_def x4_def x3_def running_def timer_of_def pj_grp_lock_dec_ref_def tsx_cancel_timer_def set_timer_def Let_def)
  ultimately have "transport_error_event env x = Inr y"
    using True sec env x1 by (cases "x_status_code x < 200") (simp_all add: transport_error_event_def locked_def secure_def
        no_transport_eq x1_def [symmetric] x2_def x4_def notify_util fsm_ok_def schedule_eq timer_ids y_def x5_def)
  moreover have "tellable SrcTransportError x4" using t2 by (auto simp: x4_def x3_def tellable_def told_def pj_grp_lock_dec_ref_def)
  then have "told x5" unfolding x5_def by (rule tell_told)
  moreover have "x_attached (forget_pending (x2\<lparr>x_state := PJSIP_TSX_STATE_TERMINATED\<rparr>)) = []
    \<and> \<not> x_pend_transport (forget_pending (x2\<lparr>x_state := PJSIP_TSX_STATE_TERMINATED\<rparr>))"
    by (rule forget_detached) (use s2(8) in \<open>simp add: detachable_def\<close>)
  moreover have "base td y"
    using s2(3) le s2(1) by (auto simp: base_def y_def x5_def x4_def x3_def is_invite_def pj_grp_lock_dec_ref_def)
  ultimately show ?thesis using x4 s2 k True \<open>\<not> running TimeoutTimer x5\<close>
    by (intro exI [of _ y]) (simp add: fine_def phase_def y_def x5_def x4_def x3_def ending_started)
qed

lemma untimed_fired:
  assumes "phase td x"
  shows "phase_untimed td (x\<lparr>x_fired := remove1 n (x_fired x)\<rparr>)"
    and "n = RetransmitTimer \<Longrightarrow> phase td (x\<lparr>x_fired := remove1 n (x_fired x)\<rparr>)"
  using assms set_remove1_subset [of n "x_fired x"]
  by (auto simp: phase_def phase_untimed_def young_def told_def timed_def connected_def idle_def being_routed_def
      in_set_remove1 split: tsx_state.splits)

lemma fired_neutral [simp]:
  "base td (x\<lparr>x_fired := fs\<rparr>) = base td x" "tx_extra m (x\<lparr>x_fired := fs\<rparr>) = tx_extra m x"
  by (simp_all add: base_def is_invite_def)

text \<open>The id of a timer is read when its callback runs.\<close>

definition id_cleared :: "timer_name \<Rightarrow> transaction \<Rightarrow> transaction" where
  "id_cleared n x = set_timer n ((timer_of n x)\<lparr>tm_id := 0\<rparr>) x"

lemma id_cleared_simps [simp]:
  "base td (id_cleared n x) = base td x" "phase td (id_cleared n x) = phase td x"
  "phase_untimed td (id_cleared n x) = phase_untimed td x" "being_routed td (id_cleared n x) = being_routed td x"
  "secure (id_cleared n x) = secure x" "extra (id_cleared n x) = extra x" "tx_extra m (id_cleared n x) = tx_extra m x"
  "x_state (id_cleared n x) = x_state x" "x_retransmit_count (id_cleared n x) = x_retransmit_count x"
  "x_freed (id_cleared n x) = x_freed x"
  by (cases n; simp add: id_cleared_def set_timer_def timer_of_def base_def phase_def phase_untimed_def being_routed_def secure_def
      extra_def tx_extra_def counted_def young_def told_def timed_def connected_def idle_def is_invite_def running_defs
      cong: tsx_state.case_cong)+

lemma fire_ok:
  assumes i: "tsx_inv k td x" and n: "n \<in> set (x_fired x)" and env: "fsm_ok env"
    and k: "k + of_bool (n = RetransmitTimer) \<le> 30"
  shows "\<exists>y. fire env n x = Inr y \<and> tsx_inv (k + of_bool (n = RetransmitTimer)) td y \<and>
     (n = TimeoutTimer \<longrightarrow> x_state x < PJSIP_TSX_STATE_TERMINATED \<longrightarrow> x_state y = PJSIP_TSX_STATE_TERMINATED \<and> ending y) \<and>
     (x_state x = PJSIP_TSX_STATE_TERMINATED \<longrightarrow>
        (if tm_id (timer_of n x) = TRANSPORT_ERR_TIMER then x_state y = PJSIP_TSX_STATE_TERMINATED else x_state y = PJSIP_TSX_STATE_DESTROYED))"
proof -
  let ?k = "k + of_bool (n = RetransmitTimer) :: int"
  define x1 where "x1 = id_cleared n (x\<lparr>x_fired := remove1 n (x_fired x)\<rparr>)"
  have p: "base td x" "phase td x" "x_retransmit_count x \<le> k" "extra x = 0" "tx_extra (td_at td) x = -1"
    using i by (simp_all add: tsx_inv_def)
  have alive: "\<not> x_freed x" using inv_alive(1) [OF i] n by (cases "x_fired x") auto
  have nn: "x_state x \<noteq> PJSIP_TSX_STATE_NULL" using p(2) n by (auto simp: phase_def idle_def)
  have e1: "extra x1 = 1"
    using p(4) n length_pos_if_in_set [OF n] by (simp add: x1_def) (auto simp: extra_def counted_def length_remove1 of_nat_diff Suc_le_eq)
  have x1: "base td x1" "phase_untimed td x1" "x_state x1 \<noteq> PJSIP_TSX_STATE_NULL" "secure x1" "x_retransmit_count x1 \<le> ?k"
    "tx_extra (td_at td) x1 = -1"
    using p nn alive e1 untimed_fired(1) [OF p(2)] by (auto simp: x1_def secure_def)
  have m: "n = RetransmitTimer \<Longrightarrow> phase td x1 \<and> \<not> being_routed td x1"
  proof -
    assume r: "n = RetransmitTimer"
    have "\<not> being_routed td x" using n r by (simp add: being_routed_def)
    have "being_routed td x1 = being_routed td (x\<lparr>x_fired := remove1 n (x_fired x)\<rparr>)" by (simp add: x1_def)
    with \<open>\<not> being_routed td x\<close> have "\<not> being_routed td x1"
      using p(2) nn by (auto simp: phase_def connected_def being_routed_def split: tsx_state.splits)
    then show ?thesis using untimed_fired(2) [OF p(2) r] by (simp add: x1_def)
  qed
  have tid: "timer_of n (x\<lparr>x_fired := remove1 n (x_fired x)\<rparr>) = timer_of n x" by (simp add: timer_of_def split: timer_name.splits)
  have st: "x_state x1 = x_state x" by (simp add: x1_def)
  have "\<exists>y. tsx_timer_callback env n (x\<lparr>x_fired := remove1 n (x_fired x)\<rparr>) = Inr y \<and> fine ?k td 1 (-1) y \<and>
     (n = TimeoutTimer \<longrightarrow> x_state x < PJSIP_TSX_STATE_TERMINATED \<longrightarrow> x_state y = PJSIP_TSX_STATE_TERMINATED \<and> ending y) \<and>
     (x_state x = PJSIP_TSX_STATE_TERMINATED \<longrightarrow>
        (if tm_id (timer_of n x) = TRANSPORT_ERR_TIMER then x_state y = PJSIP_TSX_STATE_TERMINATED else x_state y = PJSIP_TSX_STATE_DESTROYED))"
  proof (cases "tm_id (timer_of n x) = TRANSPORT_ERR_TIMER")
    case True
    from transport_error_event_ok [OF x1(1-4) env x1(5) e1 _ x1(6)] obtain y where y: "transport_error_event env x1 = Inr y"
      "fine ?k td 1 (-1) y"
      "if x_state x < PJSIP_TSX_STATE_TERMINATED then x_state y = PJSIP_TSX_STATE_TERMINATED \<and> ending y else y = x1"
      using st by auto
    have "tsx_timer_callback env n (x\<lparr>x_fired := remove1 n (x_fired x)\<rparr>) = Inr y"
      using True y(1) alive by (simp add: tsx_timer_callback_def x1_def id_cleared_def tid)
    moreover have "x_state x = PJSIP_TSX_STATE_TERMINATED \<longrightarrow> x_state y = PJSIP_TSX_STATE_TERMINATED"
      using y(3) st by (auto split: if_splits)
    ultimately show ?thesis using y(2,3) True by (intro exI [of _ y]) (simp split: if_splits)
  next
    case False
    have f: "\<not> x_freed x1" using x1(4) by (simp add: secure_def)
    obtain a z where z: "state_handler env (EvTimer n) (pj_grp_lock_add_ref x1) = Inr (a, z)" "fine ?k td (1 + 1) (-1) z"
      "n = TimeoutTimer \<longrightarrow> x_state x < PJSIP_TSX_STATE_TERMINATED \<longrightarrow> x_state z = PJSIP_TSX_STATE_TERMINATED \<and> ending z"
      "x_state x = PJSIP_TSX_STATE_TERMINATED \<longrightarrow> x_state z = PJSIP_TSX_STATE_DESTROYED"
      using timer_ok [of td "pj_grp_lock_add_ref x1" n env ?k "1 + 1" "-1"] x1 e1 m env k p(3) st by (auto simp: x1_def)
    then have "tsx_timer_callback env n (x\<lparr>x_fired := remove1 n (x_fired x)\<rparr>) = Inr (pj_grp_lock_dec_ref z)"
      using False f alive by (simp add: tsx_timer_callback_def x1_def id_cleared_def tid locked_def)
    moreover have "fine ?k td 1 (-1) (pj_grp_lock_dec_ref z)" using fine_dec [OF z(2)] by simp
    ultimately show ?thesis using z(3,4) False by simp
  qed
  then obtain y where y: "tsx_timer_callback env n (x\<lparr>x_fired := remove1 n (x_fired x)\<rparr>) = Inr y" "fine ?k td 1 (-1) y"
     "n = TimeoutTimer \<longrightarrow> x_state x < PJSIP_TSX_STATE_TERMINATED \<longrightarrow> x_state y = PJSIP_TSX_STATE_TERMINATED \<and> ending y"
     "x_state x = PJSIP_TSX_STATE_TERMINATED \<longrightarrow>
        (if tm_id (timer_of n x) = TRANSPORT_ERR_TIMER then x_state y = PJSIP_TSX_STATE_TERMINATED else x_state y = PJSIP_TSX_STATE_DESTROYED)"
    by blast
  then show ?thesis using inv_dec [OF y(2)] by (simp add: fire_def)
qed

section \<open>Responses, the user, the transports and the others\<close>

lemma response_step_ok:
  assumes i: "tsx_inv k td x" and n: "x_state x \<noteq> PJSIP_TSX_STATE_NULL" "x_routing x = []" and env: "fsm_ok env"
    and r: "is_answer rdata" "key_of_response rdata = Inr key"
  shows "\<exists>t y. mod_tsx_layer_on_rx_response env rdata x = Inr (t, y) \<and> tsx_inv k td y"
proof -
  have p: "base td x" "phase td x" "x_retransmit_count x \<le> k" "extra x = 0" "tx_extra (td_at td) x = -1"
    using i by (simp_all add: tsx_inv_def)
  obtain hv where g: "pj_hash_get_lower (x_layer x) key 0 = Inr (tsx_at (x_layer x) key, hv)"
    using p(1) by (auto simp: base_def pj_hash_get_lower_eq tsx_at_def)
  show ?thesis
  proof (cases "tsx_at (x_layer x) key = Some (tsx_addr (x_ref x)) \<and> x_state x \<noteq> PJSIP_TSX_STATE_TERMINATED")
    case False
    then show ?thesis using i g r(2) by (auto simp: mod_tsx_layer_on_rx_response_def)
  next
    case True
    then have "x_state x \<noteq> PJSIP_TSX_STATE_DESTROYED" using p(1) by (auto simp: base_def)
    then have alive: "\<not> x_freed x" using inv_alive(1) [OF i] by simp
    let ?x = "pj_grp_lock_add_ref x"
    have "\<exists>a y. locked (state_handler env (EvRx rdata)) ?x = Inr (a, y) \<and> fine k td 1 (-1) y"
    proof (rule locked_fine)
      show "\<exists>st y. state_handler env (EvRx rdata) (pj_grp_lock_add_ref ?x) = Inr (st, y) \<and> fine k td (1 + 1) (-1) y"
        by (rule response_ok) (use p n r env alive in \<open>auto simp: secure_def\<close>)
    qed (use alive in simp_all)
    then show ?thesis using True g r(2) inv_dec by (auto simp: mod_tsx_layer_on_rx_response_def pjsip_tsx_recv_msg_def)
  qed
qed

lemma terminate_step_ok:
  assumes i: "tsx_inv k td x" and n: "x_state x \<noteq> PJSIP_TSX_STATE_DESTROYED" and env: "fsm_ok env" and c: "200 \<le> code"
  shows "\<exists>y. pjsip_tsx_terminate env code x = Inr y \<and> tsx_inv k td y \<and> PJSIP_TSX_STATE_TERMINATED \<le> x_state y"
proof -
  have p: "base td x" "phase td x" "x_retransmit_count x \<le> k" "extra x = 0" "tx_extra (td_at td) x = -1"
    using i by (simp_all add: tsx_inv_def)
  have alive: "\<not> x_freed x" using inv_alive(1) [OF i] n by simp
  let ?x = "pj_grp_lock_add_ref x"
  have f: "fine k td 1 (-1) ?x" using inv_fine [OF i alive] .
  show ?thesis
  proof (cases "x_state x < PJSIP_TSX_STATE_TERMINATED")
    case True
    have t: "tellable SrcUser (tsx_set_status_code code None ?x)"
      using p(2) True c by (auto simp: phase_def tellable_def young_def told_def true_outcome_def state_order split: tsx_state.splits)
    have d: "detachable x" using p(2) True
      by (auto simp: phase_def detachable_def idle_def being_routed_def connected_def state_order split: tsx_state.splits)
    obtain y where y: "tsx_set_state env PJSIP_TSX_STATE_TERMINATED SrcUser False False (tsx_set_status_code code None ?x) = Inr y"
      "fine k td 1 (-1) y" "x_state y = PJSIP_TSX_STATE_TERMINATED"
      using fine_terminate [of td "tsx_set_status_code code None ?x" SrcUser env k 1 "-1"] f t d True env
      by (auto simp: fine_def)
    then show ?thesis using c alive True inv_dec [OF y(2)]
      by (simp add: pjsip_tsx_terminate_def locked_def done_with_def)
  next
    case False
    then have "(x_state x < PJSIP_TSX_STATE_TERMINATED) = False" "PJSIP_TSX_STATE_TERMINATED \<le> x_state x" by simp_all
    then show ?thesis using c alive inv_dec [OF f] by (simp add: pjsip_tsx_terminate_def locked_def)
  qed
qed

lemma phase_restart:
  assumes "phase td x" and "x_state x \<noteq> PJSIP_TSX_STATE_NULL"
  shows "phase td (started TimeoutTimer d i (tsx_cancel_timer TimeoutTimer x))"
  using assms by (auto simp: phase_def timed_def being_routed_def split: tsx_state.splits)

lemma error_neutral [simp]:
  "base td (x\<lparr>x_transport_err := v\<rparr>) = base td x" "phase td (x\<lparr>x_transport_err := v\<rparr>) = phase td x"
  "base td (x\<lparr>x_waiting := w\<rparr>) = base td x" "base td (x\<lparr>x_pend_transport := b\<rparr>) = base td x"
  by (auto simp: base_def phase_def is_invite_def young_def told_def timed_def connected_def being_routed_def idle_def
      split: tsx_state.splits)

lemma post_error_fine:
  assumes "fine k td b e x" and "x_state x \<noteq> PJSIP_TSX_STATE_NULL"
  shows "\<exists>y. post_transport_error err x = Inr y \<and> fine k td b e y"
  using assms by (simp add: post_error_eq fine_def phase_restart)

lemma transport_state_ok:
  assumes i: "tsx_inv k td x" and t: "x_transport x = Some tp"
  shows "\<exists>y. tsx_tp_state_callback disconnected status x = Inr y \<and> tsx_inv k td y"
proof (cases disconnected)
  case False
  then show ?thesis using i by (simp add: tsx_tp_state_callback_def)
next
  case True
  have p: "base td x" "phase td x" using i by (simp_all add: tsx_inv_def)
  have n: "x_state x \<noteq> PJSIP_TSX_STATE_NULL" "\<not> x_terminating x" "x_state x \<noteq> PJSIP_TSX_STATE_DESTROYED"
    using p t by (auto simp: phase_def idle_def base_def)
  let ?y = "started TimeoutTimer 0 3 (tsx_cancel_timer TimeoutTimer (x\<lparr>x_transport_err := status\<rparr>))"
  have "counted ?y = counted x + 1 - of_bool (running TimeoutTimer x)"
    by (simp add: counted_def)
  moreover have "extra ?y = extra x" by simp
  ultimately have r: "1 \<le> x_refs ?y" using i n(2) by (simp add: extra_def tsx_inv_def) (simp add: counted_def)
  have "\<not> x_freed x" "1 + of_bool (running TimeoutTimer x) \<le> x_refs x"
    using inv_alive(1) [OF i] i n by (simp_all add: tsx_inv_def extra_def) (simp add: counted_def)
  then have "\<not> x_freed ?y"
    by (auto simp: tsx_cancel_timer_def pj_grp_lock_dec_ref_def set_timer_def Let_def)
  then have "tsx_inv k td ?y" using i phase_restart [of td "x\<lparr>x_transport_err := status\<rparr>"] n(1) r by (simp add: tsx_inv_def)
  then show ?thesis using True by (simp add: tsx_tp_state_callback_def post_error_eq)
qed

lemma transport_back_ok:
  assumes i: "tsx_inv k td x" and w: "t \<in> set (x_waiting x)"
  shows "\<exists>y. transport_callback sent (x\<lparr>x_waiting := remove1 t (x_waiting x)\<rparr>) = Inr y \<and> tsx_inv k td y"
proof -
  let ?x = "x\<lparr>x_waiting := remove1 t (x_waiting x)\<rparr>"
  have p: "base td x" "phase td x" "x_retransmit_count x \<le> k" "extra x = 0" "tx_extra (td_at td) x = -1"
    using i by (simp_all add: tsx_inv_def)
  have ne: "x_waiting x \<noteq> []" using w by auto
  have alive: "\<not> x_freed x" using inv_alive(1) [OF i] ne by simp
  have n: "x_state x \<noteq> PJSIP_TSX_STATE_NULL" using p(2) ne by (auto simp: phase_def idle_def)
  have e: "extra ?x = 1"
    using p(4) w ne by (auto simp: extra_def counted_def length_remove1 of_nat_diff Suc_le_eq)
  have "phase td (?x\<lparr>x_pend_transport := False\<rparr>)"
    using p(2) ne n by (auto simp: phase_def young_def told_def timed_def connected_def being_routed_def split: tsx_state.splits)
  then have f: "fine k td 1 (-1) (?x\<lparr>x_pend_transport := False\<rparr>)"
    using p e alive by (simp add: fine_def secure_def)
  define y where "y = pj_grp_lock_dec_ref ((pj_grp_lock_add_ref ?x)\<lparr>x_pend_transport := False\<rparr>)"
  have "y = pj_grp_lock_dec_ref (pj_grp_lock_add_ref (?x\<lparr>x_pend_transport := False\<rparr>))"
    by (simp add: y_def pj_grp_lock_add_ref_def pj_grp_lock_dec_ref_def)
  moreover have "fine k td (1 + 1) (-1) (pj_grp_lock_add_ref (?x\<lparr>x_pend_transport := False\<rparr>))"
    using f by (simp add: fine_def)
  ultimately have y: "fine k td 1 (-1) y" using fine_dec [of k td 1] by simp
  have "\<exists>z. (if sent < 0 then post_transport_error (- sent) y else Inr y) = Inr z \<and> fine k td 1 (-1) z"
    using y post_error_fine [OF y] n by (simp add: y_def)
  then show ?thesis using alive inv_dec by (auto simp: transport_callback_def locked_def y_def [symmetric])
qed

lemma other_registers_ok:
  assumes i: "tsx_inv k td x" and r: "tsx_ref_ok ref" "tsx_addr ref \<noteq> tsx_addr (x_ref x)"
  shows "\<exists>st ht. mod_tsx_layer_register_tsx (x_layer x) ref = Inr (st, ht) \<and> tsx_inv k td (x\<lparr>x_layer := ht\<rparr>)"
proof -
  have b: "base td x" using i by (simp add: tsx_inv_def)
  then have h: "hash_inv True (x_layer x)" by (simp add: base_def)
  have keep: "tsx_inv k td (x\<lparr>x_layer := ht\<rparr>)"
    if "hash_inv True ht" "\<And>key. tsx_at ht key = Some (tsx_addr (x_ref x)) \<longleftrightarrow> tsx_at (x_layer x) key = Some (tsx_addr (x_ref x))" for ht
    using i that by (simp add: tsx_inv_def base_def is_invite_def phase_def young_def told_def timed_def connected_def
        being_routed_def idle_def cong: tsx_state.case_cong)
  show ?thesis
  proof (cases "tsx_at (x_layer x) (transaction_key ref)")
    case None
    from register_tsx_eq [OF h r(1) None] obtain ht where ht: "mod_tsx_layer_register_tsx (x_layer x) ref = Inr (PJ_SUCCESS, ht)"
      "hash_inv True ht" "hash_map True ht = (hash_map True (x_layer x))(lower_c (transaction_key ref) \<mapsto> tsx_addr ref)" by blast
    have "tsx_inv k td (x\<lparr>x_layer := ht\<rparr>)"
      by (rule keep) (use ht(2) r(2) None in \<open>auto simp: tsx_at_def ht(3)\<close>)
    with ht(1) show ?thesis by blast
  next
    case (Some a)
    then show ?thesis using keep [OF h] r(1) h
      by (simp add: mod_tsx_layer_register_tsx_def tsx_ref_ok_def pj_hash_get_lower_eq tsx_at_def)
  qed
qed

lemma other_unregisters_ok:
  assumes i: "tsx_inv k td x" and r: "tsx_ref_ok ref"
    "lower_c (transaction_key ref) \<noteq> lower_c (transaction_key (x_ref x)) \<or> x_state x = PJSIP_TSX_STATE_DESTROYED"
  shows "\<exists>ht. mod_tsx_layer_unregister_tsx 0 (x_layer x) ref = Inr ht \<and> tsx_inv k td (x\<lparr>x_layer := ht\<rparr>)"
proof -
  have b: "base td x" using i by (simp add: tsx_inv_def)
  then have h: "hash_inv True (x_layer x)" by (simp add: base_def)
  from unregister_tsx_eq [OF h r(1), of 0] obtain ht where ht: "mod_tsx_layer_unregister_tsx 0 (x_layer x) ref = Inr ht"
    "hash_inv True ht" "hash_map True ht = (hash_map True (x_layer x))(lower_c (transaction_key ref) := None)" by auto
  have "tsx_at ht key = Some (tsx_addr (x_ref x)) \<longleftrightarrow> tsx_at (x_layer x) key = Some (tsx_addr (x_ref x))" for key
    using b r(2) by (auto simp: tsx_at_def ht(3) base_def)
  then have "tsx_inv k td (x\<lparr>x_layer := ht\<rparr>)"
    using i ht(2) by (simp add: tsx_inv_def base_def is_invite_def phase_def young_def told_def timed_def connected_def
        being_routed_def idle_def cong: tsx_state.case_cong)
  with ht(1) show ?thesis by blast
qed

section \<open>The reports of the routing\<close>

text \<open>
  A message is with the routing, in state Null while the request is being sent and in state Calling later;
  \<open>b\<close> and \<open>e\<close> count the references beside those of the routing.
\<close>

definition with_routing :: "int \<Rightarrow> tdata \<Rightarrow> int \<Rightarrow> int \<Rightarrow> transaction \<Rightarrow> bool" where
  "with_routing k td b e x \<longleftrightarrow>
     base td x \<and> young x \<and> x_state x \<in> {PJSIP_TSX_STATE_NULL, PJSIP_TSX_STATE_CALLING} \<and>
     (x_state x = PJSIP_TSX_STATE_CALLING \<longrightarrow> timed x) \<and> (x_state x = PJSIP_TSX_STATE_NULL \<longrightarrow> \<not> x_pend_resched x) \<and>
     x_routing x = [] \<and> x_waiting x = [] \<and> x_pend_transport x \<and> \<not> x_pend_send x \<and> \<not> x_resolved x \<and> x_transport x = None \<and>
     \<not> running RetransmitTimer x \<and> RetransmitTimer \<notin> set (x_fired x) \<and> \<not> x_freed x \<and>
     x_attached x = [td_at td] \<and> x_pending_tx x = Some td \<and>
     extra x = b + 1 \<and> tx_extra (td_at td) x = e + 1 \<and> x_retransmit_count x \<le> k"

text \<open>The request has gone out through a transport.\<close>

definition sent_out :: "int \<Rightarrow> tdata \<Rightarrow> int \<Rightarrow> int \<Rightarrow> tsx_state \<Rightarrow> transaction \<Rightarrow> bool" where
  "sent_out k td b e s x \<longleftrightarrow>
     base td x \<and> young x \<and> x_state x = s \<and> (s = PJSIP_TSX_STATE_CALLING \<longrightarrow> timed x) \<and>
     (s = PJSIP_TSX_STATE_NULL \<longrightarrow> \<not> running RetransmitTimer x) \<and> connected x \<and> \<not> x_freed x \<and> extra x = b \<and> tx_extra (td_at td) x = e \<and>
     x_retransmit_count x \<le> k"

definition kept :: "int \<Rightarrow> tdata \<Rightarrow> int \<Rightarrow> int \<Rightarrow> transaction \<Rightarrow> bool" where
  "kept k td b e x \<longleftrightarrow>
     base td x \<and> phase td x \<and> \<not> x_freed x \<and> extra x = b \<and> tx_extra (td_at td) x = e \<and> x_retransmit_count x \<le> k"

lemma dec_alive: "\<not> x_freed x \<Longrightarrow> \<not> x_terminating x \<Longrightarrow> 1 \<le> extra x \<Longrightarrow> \<not> x_freed (pj_grp_lock_dec_ref x)"
proof -
  assume "\<not> x_freed x" and "\<not> x_terminating x" and e: "1 \<le> extra x"
  moreover from this have "1 \<le> counted x" by (simp add: counted_def)
  ultimately show ?thesis using e by (simp add: pj_grp_lock_dec_ref_def extra_def)
qed

lemma dec_add: "\<not> x_freed x \<Longrightarrow> x_refs x \<noteq> 0 \<Longrightarrow> pj_grp_lock_dec_ref (pj_grp_lock_add_ref x) = x"
  by (simp add: pj_grp_lock_dec_ref_def pj_grp_lock_add_ref_def)

text \<open>The transaction as the callback finds it, under the lock.\<close>

definition picked :: "tdata \<Rightarrow> transaction \<Rightarrow> transaction" where
  "picked td x = (detach td x)\<lparr>x_pending_tx := None\<rparr>"

lemma no_tp_drop: "x_transport x = None \<Longrightarrow> drop_tsx_transport x = x"
  by (simp add: drop_tsx_transport_def)

lemma picked_simps [simp]:
  "base td (picked d x) = base td x" "young (picked d x) = young x" "x_state (picked d x) = x_state x"
  "timed (picked d x) = timed x" "x_routing (picked d x) = x_routing x" "x_waiting (picked d x) = x_waiting x"
  "x_pend_transport (picked d x) = x_pend_transport x" "x_pend_send (picked d x) = x_pend_send x"
  "x_pend_resched (picked d x) = x_pend_resched x" "x_pend_destroy (picked d x) = x_pend_destroy x"
  "x_resolved (picked d x) = x_resolved x" "x_transport (picked d x) = x_transport x"
  "running n (picked d x) = running n x" "x_fired (picked d x) = x_fired x" "x_freed (picked d x) = x_freed x"
  "extra (picked d x) = extra x" "tx_extra m (picked d x) = tx_extra m x" "secure (picked d x) = secure x"
  "x_retransmit_count (picked d x) = x_retransmit_count x" "x_role (picked d x) = x_role x"
  "x_status_code (picked d x) = x_status_code x" "x_timeout (picked d x) = x_timeout x"
  "x_terminating (picked d x) = x_terminating x" "x_attached (picked d x) = removeAll (td_at d) (x_attached x)"
  by (simp_all add: picked_def detach_def base_def young_def timed_def is_invite_def)

lemma update_tp_ok:
  assumes b: "base td x" and s: "x_state x \<noteq> PJSIP_TSX_STATE_DESTROYED" and t: "x_transport x = None" and sec: "secure x"
  shows "\<exists>y. tsx_update_transport (Some tp) x = Inr y \<and> base td y \<and> secure y \<and> x_transport y = Some (tp_at tp) \<and>
     extra y = extra x \<and> tx_extra m y = tx_extra m x \<and> young y = young x \<and> x_state y = x_state x \<and> (timed x \<longrightarrow> timed y) \<and>
     x_routing y = x_routing x \<and> x_attached y = x_attached x \<and> x_pend_send y = x_pend_send x \<and> x_pend_resched y = x_pend_resched x \<and>
     x_retransmit_count y = x_retransmit_count x \<and> running RetransmitTimer y = running RetransmitTimer x"
proof -
  let ?x = "logged (TsxTpAddRef (tp_at tp)) (x\<lparr>x_transport := Some (tp_at tp)\<rparr>)"
  let ?y = "started TimeoutTimer 0 3 (tsx_cancel_timer TimeoutTimer (?x\<lparr>x_transport_err := PJSIP_SC_TSX_TRANSPORT_ERROR\<rparr>))"
  have bd: "base td ?x" using b t s by (auto simp: base_def logged_def is_invite_def change_defs)
  have o: "young ?x = young x" "x_state ?x = x_state x" "timed ?x = timed x" "x_routing ?x = x_routing x" "x_attached ?x = x_attached x"
    "x_pend_send ?x = x_pend_send x" "x_pend_resched ?x = x_pend_resched x" "x_retransmit_count ?x = x_retransmit_count x"
    "x_transport ?x = Some (tp_at tp)" "extra ?x = extra x" "tx_extra m ?x = tx_extra m x" "secure ?x"
    using sec by (simp_all add: young_def timed_def change_defs) (simp_all add: logged_def)
  let ?e = "?x\<lparr>x_transport_err := PJSIP_SC_TSX_TRANSPORT_ERROR\<rparr>"
  have oe: "young ?e = young ?x" "timed ?e = timed ?x" by (simp_all add: young_def timed_def)
  show ?thesis
  proof (cases "tp_is_shutdown tp")
    case False
    then show ?thesis using bd o by (simp add: tsx_update_transport_def no_tp_drop [OF t] running_upd)
  next
    case True
    then have "tsx_update_transport (Some tp) x = Inr ?y"
      by (simp add: tsx_update_transport_def no_tp_drop [OF t] tsx_tp_state_callback_def post_error_eq)
    then show ?thesis using bd o oe by (simp add: timed_def)
  qed
qed

lemma routing_sent_ok:
  assumes r: "with_routing k td b e x" and c: "cb_ok cb" "0 < sc_sent cb" and k: "k < 31" and b: "0 \<le> b"
  shows "\<exists>y. routing_sent env cb (picked td x) = Inr y \<and> sent_out k td (b + 1) (e + 1) (x_state x) y"
proof -
  let ?x = "picked td x"
  obtain tp where tp: "sc_tp cb = Some tp" using c by (auto simp: cb_ok_def)
  have x: "base td ?x" "young ?x" "x_transport ?x = None" "secure ?x" "x_routing ?x = []" "x_attached ?x = []" "\<not> x_pend_send ?x"
    "\<not> running RetransmitTimer ?x" "extra ?x = b + 1" "tx_extra (td_at td) ?x = e + 1" "x_retransmit_count ?x \<le> k"
    "x_state ?x \<noteq> PJSIP_TSX_STATE_DESTROYED" "x_state x = PJSIP_TSX_STATE_CALLING \<longrightarrow> timed ?x"
    "x_state x = PJSIP_TSX_STATE_NULL \<longrightarrow> \<not> x_pend_resched ?x"
    using r b by (auto simp: with_routing_def secure_def)
  obtain y where y: "tsx_update_transport (Some tp) ?x = Inr y" "base td y" "secure y" "x_transport y = Some (tp_at tp)"
     "extra y = b + 1" "tx_extra (td_at td) y = e + 1" "young y" "x_state y = x_state x" "timed ?x \<longrightarrow> timed y"
     "x_routing y = []" "x_attached y = []" "\<not> x_pend_send y" "x_pend_resched y = x_pend_resched ?x"
     "x_retransmit_count y \<le> k" "\<not> running RetransmitTimer y"
    using update_tp_ok [OF x(1,12,3,4), of tp "td_at td"] x by auto
  let ?y = "y\<lparr>x_addr := sc_addr cb, x_is_reliable := tp_reliable tp, x_pend_transport := False, x_resolved := True\<rparr>"
  have out: "sent_out k td (b + 1) (e + 1) (x_state x) z"
    if "z = ?y \<or> z = ?y\<lparr>x_pend_resched := False\<rparr>" for z
    using that y x by (elim disjE) (auto simp: sent_out_def base_def young_def timed_def connected_def is_invite_def secure_def)
  have nd: "\<not> x_pend_destroy y" using y(2) by (simp add: base_def)
  show ?thesis
  proof (cases "x_pend_resched y \<and> \<not> tp_reliable tp")
    case False
    then show ?thesis using out [OF disjI1 [OF refl]] out [OF disjI2 [OF refl]] y(1,12) nd x(3)
      by (cases "x_pend_resched y") (simp_all add: routing_sent_def tp Let_def)
  next
    case True
    let ?z = "?y\<lparr>x_pend_resched := False\<rparr>"
    have z: "sent_out k td (b + 1) (e + 1) (x_state x) ?z" by (rule out) simp
    have "x_role ?z = PJSIP_ROLE_UAC" "\<not> x_pend_transport ?z" "x_status_code ?z < 200" "0 \<le> x_retransmit_count ?z"
      "x_retransmit_count ?z < 31" "\<not> running RetransmitTimer ?z"
      using y k by (auto simp: base_def young_def)
    from resched_ok [OF this, of env] obtain w where
      w: "tsx_resched_retransmission env ?z = Inr w" "w = ?z \<or> (\<exists>d. w = started RetransmitTimer d 1 ?z)" by blast
    have "x_state x \<noteq> PJSIP_TSX_STATE_NULL" using True y(13) x(14) by auto
    then have "sent_out k td (b + 1) (e + 1) (x_state x) (started RetransmitTimer d 1 ?z)" for d
      using z y(15) by (auto simp: sent_out_def timed_def)
    with w z have "sent_out k td (b + 1) (e + 1) (x_state x) w" by auto
    then show ?thesis using w(1) True y(1,12) nd x(3) by (simp add: routing_sent_def tp Let_def)
  qed
qed

lemma routing_ended_ok:
  assumes r: "with_routing k td b e x" and c: "cb_ok cb" "sc_sent cb < 0" "\<not> sc_cont cb" and env: "fsm_ok env" and b: "0 \<le> b"
  shows "\<exists>y. routing_failed env td cb (picked td x) = Inr y \<and> fine k td (b + 1) (e + 1) y \<and> x_state y = PJSIP_TSX_STATE_TERMINATED \<and>
     0 < x_transport_err y \<and> x_routing y = []"
proof -
  let ?x = "(picked td x)\<lparr>x_transport_err := - sc_sent cb, x_pend_transport := False, x_resolved := True\<rparr>"
  define sc where "sc = (if - sc_sent cb = PJ_ERESOLVE \<or> - sc_sent cb = PJLIB_UTIL_EDNS_NXDOMAIN then PJSIP_SC_BAD_GATEWAY
                   else PJSIP_SC_TSX_TRANSPORT_ERROR)"
  let ?y = "tsx_set_status_code sc (Some (fe_strerror env (- sc_sent cb))) ?x"
  have s: "x_state x \<in> {PJSIP_TSX_STATE_NULL, PJSIP_TSX_STATE_CALLING}" using r by (simp add: with_routing_def)
  have x: "base td ?x" "young ?x" "secure ?x" "x_attached ?x = []" "x_state ?x = x_state x" "extra ?x = b + 1" "tx_extra (td_at td) ?x = e + 1"
    "x_retransmit_count ?x \<le> k" "x_routing ?x = []"
    using r b by (simp_all add: with_routing_def secure_def)
  have d: "detachable ?x" using x(4) by (simp add: detachable_def)
  have "tellable SrcTransportError ?y"
    by (rule young_tellable [OF x(2)])
      (auto simp: sc_def PJSIP_SC_BAD_GATEWAY_def PJSIP_SC_TSX_TRANSPORT_ERROR_def true_outcome_def)
  moreover have "x_state ?y < PJSIP_TSX_STATE_TERMINATED" using s by (auto simp: state_order)
  ultimately obtain y where y: "tsx_set_state env PJSIP_TSX_STATE_TERMINATED SrcTransportError False False ?y = Inr y"
     "fine k td (b + 1) (e + 1) y" "x_state y = PJSIP_TSX_STATE_TERMINATED" "x_transport_err y = - sc_sent cb" "x_routing y = []"
    using fine_terminate [of td ?y SrcTransportError env k "b + 1" "e + 1"] x d env by auto
  have u: "tsx_update_transport None (picked td x) = Inr (picked td x)" using r by (simp add: no_transport_eq no_tp_drop with_routing_def)
  have "routing_failed env td cb (picked td x) = Inr y"
    using c s u y(1) by (auto simp: routing_failed_def sc_def)
  then show ?thesis using y c by simp
qed

lemma routing_again_ok:
  assumes r: "with_routing k td b e x" and c: "cb_ok cb" "sc_sent cb < 0" "sc_cont cb" and env: "fsm_ok env" and b: "0 \<le> b"
  shows "\<exists>y. routing_failed env td cb (picked td x) = Inr y \<and> \<not> x_terminating y \<and> \<not> x_freed y \<and> 1 \<le> extra y \<and>
     with_routing k td b e (pj_grp_lock_dec_ref y) \<and> x_state y = x_state x"
proof -
  let ?x = "(picked td x)\<lparr>x_retransmit_count := 0\<rparr>"
  have k: "0 \<le> k" using r by (simp add: with_routing_def base_def)
  have n: "\<not> x_terminating x" "x_state x \<in> {PJSIP_TSX_STATE_NULL, PJSIP_TSX_STATE_CALLING}" using r by (auto simp: with_routing_def base_def)
  have x: "base td ?x" "young ?x" "secure ?x" "extra ?x = b + 1" "tx_extra (td_at td) ?x = e + 1" "x_attached ?x = []"
    using r b by (simp_all add: with_routing_def secure_def base_count)
  have u: "tsx_update_transport None (picked td x) = Inr (picked td x)" using r by (simp add: no_transport_eq no_tp_drop with_routing_def)
  have "\<exists>z. (if tm_id (x_timeout (picked td x)) \<noteq> TIMER_INACTIVE then restart_timer TimeoutTimer (fe_td env) TIMEOUT_TIMER ?x else Inr ?x) = Inr z \<and>
      (z = ?x \<or> z = started TimeoutTimer (fe_td env) 2 (tsx_cancel_timer TimeoutTimer ?x))"
    by (simp add: restart_eq timer_ids)
  then obtain z where z: "(if tm_id (x_timeout (picked td x)) \<noteq> TIMER_INACTIVE then restart_timer TimeoutTimer (fe_td env) TIMEOUT_TIMER ?x
      else Inr ?x) = Inr z" "z = ?x \<or> z = started TimeoutTimer (fe_td env) 2 (tsx_cancel_timer TimeoutTimer ?x)" by blast
  have zz: "base td z" "young z" "x_state z = x_state x" "x_state x = PJSIP_TSX_STATE_CALLING \<longrightarrow> timed z"
    "x_state x = PJSIP_TSX_STATE_NULL \<longrightarrow> \<not> x_pend_resched z" "x_routing z = []" "x_waiting z = []" "x_pend_transport z" "\<not> x_pend_send z"
    "\<not> x_resolved z" "x_transport z = None" "\<not> running RetransmitTimer z" "RetransmitTimer \<notin> set (x_fired z)" "secure z"
    "x_attached z = []" "extra z = b + 1" "tx_extra (td_at td) z = e + 1" "x_retransmit_count z \<le> k" "\<not> x_terminating z"
    using z(2) x r k n by (auto simp: with_routing_def timed_def)
  let ?z = "z\<lparr>x_attached := [td_at td], x_pending_tx := Some td\<rparr>"
  let ?y = "pj_grp_lock_add_ref ?z"
  have "secure ?z" using zz(14) by simp
  moreover have "extra ?z = b + 1" using zz by simp
  moreover have eq: "pj_grp_lock_dec_ref ?y = ?z"
    using \<open>secure ?z\<close> secure_refs [of ?z] by (intro dec_add) (auto simp: secure_def)
  have "\<not> x_freed z" using zz(14) by (simp add: secure_def)
  then have "with_routing k td b e (pj_grp_lock_dec_ref ?y)"
    unfolding eq with_routing_def using zz n(2) by (intro conjI) simp_all
  moreover have "routing_failed env td cb (picked td x) = Inr ?y"
  proof -
    have "\<not> x_pend_destroy x" using r by (simp add: with_routing_def base_def)
    then show ?thesis using c(3) z(1) u zz(15) by (simp add: routing_failed_def Let_def)
  qed
  ultimately show ?thesis using zz b \<open>secure ?z\<close> by (simp add: secure_def)
qed

text \<open>What becomes of the transaction when the callback was called.\<close>

lemma send_msg_callback_ok:
  assumes r: "with_routing k td b e x" and c: "cb_ok cb" and env: "fsm_ok env" and k: "k < 31" and b: "0 \<le> b"
  shows "\<exists>y. send_msg_callback env td cb x = Inr (sc_cont cb, y) \<and>
     (if 0 < sc_sent cb then sent_out k td b (e + 1) (x_state x) y
      else if sc_cont cb then with_routing k td b e y \<and> x_state y = x_state x
      else kept k td b (e + 1) y \<and> x_state y = PJSIP_TSX_STATE_TERMINATED \<and> 0 < x_transport_err y \<and> x_routing y = [])"
proof -
  let ?x = "picked td x"
  have x: "\<not> x_freed x" "x_attached x = [td_at td]" "extra x = b + 1" "\<not> x_terminating x"
    using r by (auto simp: with_routing_def base_def)
  have "pj_grp_lock_dec_ref (pj_grp_lock_add_ref x) = x"
    using x b secure_refs [of x] by (intro dec_add) (auto simp: secure_def)
  then have f: "send_msg_callback env td cb x =
      bind_res (bind_res (if sc_sent cb > 0 then routing_sent env cb ?x
                     else if sc_sent cb = 0 then Inl AssertFail
                     else routing_failed env td cb ?x) (\<lambda>x. Inr (sc_cont cb, x))) (\<lambda>(a, x). Inr (a, pj_grp_lock_dec_ref x))"
    using env x by (simp add: send_msg_callback_def locked_def fsm_ok_def picked_def)
  consider "0 < sc_sent cb" | "sc_sent cb < 0" "sc_cont cb" | "sc_sent cb < 0" "\<not> sc_cont cb" using c not_less_iff_gr_or_eq [of "sc_sent cb" 0] unfolding cb_ok_def by blast
  then show ?thesis
  proof cases
    case 1
    from routing_sent_ok [OF r c 1 k b, of env] obtain y where
      y: "routing_sent env cb ?x = Inr y" "sent_out k td (b + 1) (e + 1) (x_state x) y" by blast
    have "\<not> x_terminating y" using y(2) r by (auto simp: sent_out_def base_def with_routing_def)
    then have "sent_out k td b (e + 1) (x_state x) (pj_grp_lock_dec_ref y)"
      using y(2) dec_alive [of y] b by (auto simp: sent_out_def timed_def)
    then show ?thesis using 1 y(1) f by simp
  next
    case 2
    from routing_again_ok [OF r c 2 env b] show ?thesis using 2 f by auto
  next
    case 3
    from routing_ended_ok [OF r c 3 env b] obtain y where y: "routing_failed env td cb ?x = Inr y" "fine k td (b + 1) (e + 1) y"
      "x_state y = PJSIP_TSX_STATE_TERMINATED" "0 < x_transport_err y" "x_routing y = []" by blast
    have "\<not> x_terminating y" using y(2,3) by (auto simp: fine_def base_def)
    then have "kept k td b (e + 1) (pj_grp_lock_dec_ref y)"
      using y(2) dec_alive [of y] b by (auto simp: kept_def fine_def secure_def)
    then show ?thesis using 3 y f by simp
  qed
qed

text \<open>Entries of the log that the invariant does not count.\<close>

definition uncounted :: "tsx_out \<Rightarrow> bool" where
  "uncounted e \<longleftrightarrow> (\<forall>t. tp_change t e = 0 \<and> sel_change t e = 0) \<and> call_of e = []"

lemma uncounted_simps [simp]:
  "uncounted (TxDecRef m)" "uncounted (TxAddRef m)" "uncounted (RouteMessage td st)" "uncounted (TxSetTransport m s)"
  by (simp_all add: uncounted_def change_defs)

lemma logged_fields [simp]:
  "x_ref (logged e x) = x_ref x" "x_role (logged e x) = x_role x" "x_method (logged e x) = x_method x"
  "x_user (logged e x) = x_user x" "x_refs (logged e x) = x_refs x" "x_freed (logged e x) = x_freed x"
  "x_state (logged e x) = x_state x" "x_status_code (logged e x) = x_status_code x" "x_transport (logged e x) = x_transport x"
  "x_is_reliable (logged e x) = x_is_reliable x" "x_pend_resched (logged e x) = x_pend_resched x"
  "x_pend_send (logged e x) = x_pend_send x" "x_pend_destroy (logged e x) = x_pend_destroy x"
  "x_resolved (logged e x) = x_resolved x" "x_transport_err (logged e x) = x_transport_err x"
  "x_pending_tx (logged e x) = x_pending_tx x" "x_attached (logged e x) = x_attached x"
  "x_retransmit_count (logged e x) = x_retransmit_count x" "x_mod_data (logged e x) = x_mod_data x"
  "x_waiting (logged e x) = x_waiting x" "x_routing (logged e x) = x_routing x" "x_fired (logged e x) = x_fired x"
  "x_layer (logged e x) = x_layer x" "timed (logged e x) = timed x" "connected (logged e x) = connected x"
  "being_routed td (logged e x) = being_routed td x" "idle (logged e x) = idle x"
  by (simp_all add: timed_def connected_def being_routed_def idle_def) (simp_all add: logged_def)

lemma uncounted_neutral [simp]:
  assumes "uncounted e"
  shows "base td (logged e x) = base td x" and "young (logged e x) = young x" and "told (logged e x) = told x"
    and "phase td (logged e x) = phase td x"
  using assms by (simp_all add: base_def young_def told_def phase_def uncounted_def is_invite_def del: logged_simps(1)
      cong: tsx_state.case_cong)

lemma fine_dec_tx: "fine k td b 0 x \<Longrightarrow> fine k td b (-1) (logged (TxDecRef (td_at td)) x)"
  by (simp add: fine_def change_defs)

lemma inv_dec_tx: "fine k td 1 0 x \<Longrightarrow> tsx_inv k td (logged (TxDecRef (td_at td)) (pj_grp_lock_dec_ref x))"
proof -
  have "logged (TxDecRef (td_at td)) (pj_grp_lock_dec_ref x) = pj_grp_lock_dec_ref (logged (TxDecRef (td_at td)) x)"
    by (simp add: logged_def pj_grp_lock_dec_ref_def)
  moreover assume "fine k td 1 0 x"
  ultimately show ?thesis using inv_dec [OF fine_dec_tx, of k td x] by simp
qed

text \<open>The request waits for the routing.\<close>

definition waits :: "int \<Rightarrow> tdata \<Rightarrow> int \<Rightarrow> int \<Rightarrow> tsx_state \<Rightarrow> transaction \<Rightarrow> bool" where
  "waits k td b e s x \<longleftrightarrow>
     base td x \<and> young x \<and> x_state x = s \<and> (s = PJSIP_TSX_STATE_CALLING \<longrightarrow> timed x) \<and> being_routed td x \<and> \<not> x_freed x \<and>
     extra x = b \<and> tx_extra (td_at td) x = e \<and> x_retransmit_count x \<le> k"

lemma with_routing_waits:
  assumes "with_routing k td b e x"
  shows "waits k td b e (x_state x) (x\<lparr>x_routing := x_routing x @ [td]\<rparr>)"
proof -
  have "base td (x\<lparr>x_routing := [td]\<rparr>)" using assms by (simp add: with_routing_def) (simp add: base_def is_invite_def)
  moreover have "extra (x\<lparr>x_routing := [td]\<rparr>) = extra x - 1" "tx_extra (td_at td) (x\<lparr>x_routing := [td]\<rparr>) = tx_extra (td_at td) x - 1"
    using assms by (simp_all add: extra_def counted_def tx_extra_def with_routing_def)
  ultimately show ?thesis using assms by (simp add: waits_def with_routing_def being_routed_def)
qed

lemma sent_dec: "sent_out k td b (e + 1) s x \<Longrightarrow> sent_out k td b e s (logged (TxDecRef (td_at td)) x)"
  by (simp add: sent_out_def change_defs)

lemma kept_dec: "kept k td b (e + 1) x \<Longrightarrow> kept k td b e (logged (TxDecRef (td_at td)) x)"
  by (simp add: kept_def change_defs)

lemma route_callbacks_ok:
  assumes "with_routing k td b e x" and "list_all cb_ok cbs" and env: "fsm_ok env" and k: "k < 31" and b: "0 \<le> b"
  shows "\<exists>y. route_callbacks env td cbs x = Inr y \<and>
     (waits k td b e (x_state x) y \<or> sent_out k td b e (x_state x) y \<or>
      kept k td b e y \<and> x_state y = PJSIP_TSX_STATE_TERMINATED \<and> 0 < x_transport_err y)"
  using assms(1,2)
proof (induction cbs arbitrary: x)
  case Nil
  then show ?case using with_routing_waits by auto
next
  case (Cons cb cbs)
  then have c: "cb_ok cb" by simp
  from send_msg_callback_ok [OF Cons.prems(1) c env k b] obtain y where y: "send_msg_callback env td cb x = Inr (sc_cont cb, y)"
     "if 0 < sc_sent cb then sent_out k td b (e + 1) (x_state x) y
      else if sc_cont cb then with_routing k td b e y \<and> x_state y = x_state x
      else kept k td b (e + 1) y \<and> x_state y = PJSIP_TSX_STATE_TERMINATED \<and> 0 < x_transport_err y \<and> x_routing y = []" by blast
  show ?case
  proof (cases "0 < sc_sent cb \<or> \<not> sc_cont cb")
    case True
    then show ?thesis using y sent_dec [of k td b e "x_state x" y] kept_dec [of k td b e y]
      by (cases "0 < sc_sent cb") simp_all
  next
    case False
    then have "with_routing k td b e y" "x_state y = x_state x" using y(2) by simp_all
    with Cons.IH [of y] Cons.prems False y(1) show ?thesis by auto
  qed
qed

lemma alive_inv:
  assumes "base td x" and "phase td x" and "\<not> x_freed x" and "extra x = 0" and "tx_extra (td_at td) x = -1"
    and "x_retransmit_count x \<le> k" and "x_state x \<noteq> PJSIP_TSX_STATE_DESTROYED"
  shows "tsx_inv k td x"
proof -
  have "1 \<le> counted x" using assms(1,7) by (simp add: counted_def base_def)
  then show ?thesis using assms by (simp add: tsx_inv_def extra_def)
qed

lemma sent_back_ok:
  assumes i: "tsx_inv k td x" and t: "t \<in> set (x_routing x)" and c: "cb_ok cb" and env: "fsm_ok env" and k: "k < 31"
  shows "\<exists>y. sent_back env t cb x = Inr y \<and> tsx_inv k td y"
proof -
  let ?x = "x\<lparr>x_routing := []\<rparr>"
  have p: "base td x" "phase td x" "x_retransmit_count x \<le> k" "extra x = 0" "tx_extra (td_at td) x = -1"
    using i by (simp_all add: tsx_inv_def)
  have r: "x_routing x = [td]" "t = td" using p(1) t by (auto simp: base_def)
  have alive: "\<not> x_freed x" using inv_alive(1) [OF i] r by simp
  have o: "base td ?x" "extra ?x = 1" "tx_extra (td_at td) ?x = 0"
    using p r by (simp add: base_def is_invite_def, simp_all add: extra_def counted_def tx_extra_def)
  consider (waiting) "x_state x = PJSIP_TSX_STATE_CALLING" "being_routed td x" "young x" "timed x"
    | (ended) "x_attached x = []" "PJSIP_TSX_STATE_TERMINATED \<le> x_state x" "told x" "\<not> x_pend_transport x"
    using p(2) r(1) by (auto simp: phase_def connected_def idle_def state_order split: tsx_state.splits)
  then show ?thesis
  proof cases
    case ended
    have "phase td ?x" using p(2) ended by (auto simp: phase_def state_order told_def split: tsx_state.splits)
    then have "fine k td 1 0 ?x" using o p(3) alive by (simp add: fine_def secure_def)
    from inv_dec_tx [OF this] show ?thesis
      using ended(1) r alive env by (simp add: sent_back_def send_msg_callback_def fsm_ok_def)
  next
    case waiting
    have rt: "with_routing k td 0 (-1) ?x"
      using waiting o p(3) alive by (simp add: with_routing_def being_routed_def)
    from send_msg_callback_ok [OF rt c env k] obtain y where y: "send_msg_callback env td cb ?x = Inr (sc_cont cb, y)"
     "if 0 < sc_sent cb then sent_out k td 0 0 PJSIP_TSX_STATE_CALLING y
      else if sc_cont cb then with_routing k td 0 (-1) y \<and> x_state y = PJSIP_TSX_STATE_CALLING
      else kept k td 0 0 y \<and> x_state y = PJSIP_TSX_STATE_TERMINATED" using waiting(1) by (auto split: if_splits)
    have "tsx_inv k td (logged (TxDecRef (td_at td)) y)" if "sent_out k td 0 0 PJSIP_TSX_STATE_CALLING y"
      using that by (intro alive_inv) (auto simp: sent_out_def phase_def change_defs)
    moreover have "tsx_inv k td (logged (TxDecRef (td_at td)) y)" if "kept k td 0 0 y" "x_state y = PJSIP_TSX_STATE_TERMINATED"
      using that by (intro alive_inv) (simp_all add: kept_def change_defs)
    moreover have "tsx_inv k td (y\<lparr>x_routing := x_routing y @ [td]\<rparr>)" if "with_routing k td 0 (-1) y" "x_state y = PJSIP_TSX_STATE_CALLING"
      using with_routing_waits [OF that(1)] that(2) by (intro alive_inv) (auto simp: waits_def phase_def)
    ultimately show ?thesis using y r c by (auto simp: sent_back_def cb_ok_def split: if_splits)
  qed
qed

section \<open>One happening\<close>

text \<open>What is asked of the surroundings, and how often the retransmission timer fires.\<close>

definition happening_ok :: "happening \<Rightarrow> bool" where
  "happening_ok h \<longleftrightarrow>
     (case h of
        Response env rdata \<Rightarrow> fsm_ok env \<and> is_answer rdata \<and> (\<exists>key. key_of_response rdata = Inr key)
      | Terminate env code \<Rightarrow> fsm_ok env \<and> 200 \<le> code
      | FireTimer env n \<Rightarrow> fsm_ok env
      | SentBack env td cb \<Rightarrow> fsm_ok env \<and> cb_ok cb
      | _ \<Rightarrow> True)"

definition retransmission :: "happening \<Rightarrow> int" where
  "retransmission h = (case h of FireTimer env n \<Rightarrow> of_bool (n = RetransmitTimer) | _ \<Rightarrow> 0)"

lemma inv_mono: "tsx_inv k td x \<Longrightarrow> k \<le> k' \<Longrightarrow> tsx_inv k' td x"
  by (auto simp: tsx_inv_def)

lemma advance_ok: "tsx_inv k td x \<Longrightarrow> tsx_inv k td (x\<lparr>x_now := ms\<rparr>)"
  by (simp add: tsx_inv_def) (simp add: phase_def young_def told_def timed_def connected_def being_routed_def idle_def cong: tsx_state.case_cong)

lemma expire_ok:
  assumes i: "tsx_inv k td x" and r: "running n x"
  shows "tsx_inv k td (expire n x)"
proof -
  have p: "base td x" "phase td x" using i by (simp_all add: tsx_inv_def)
  have n: "x_state x \<noteq> PJSIP_TSX_STATE_NULL" using p(2) r by (cases n) (auto simp: phase_def idle_def)
  have f: "x_freed (expire n x) = x_freed x" "x_refs (expire n x) = x_refs x" "x_retransmit_count (expire n x) = x_retransmit_count x"
    "tx_extra m (expire n x) = tx_extra m x" "base td (expire n x)" for m
    using p(1) by (cases n; simp add: expire_def set_timer_def base_def is_invite_def)+
  have "counted (expire n x) = counted x"
    using r by (cases n) (simp_all add: expire_def set_timer_def timer_of_def counted_def running_def)
  then have e: "extra (expire n x) = extra x" using f(2) by (simp add: extra_def)
  have "phase td (expire n x)"
    using p(2) r n by (cases n) (auto simp: expire_def set_timer_def timer_of_def phase_def young_def told_def timed_def connected_def
        being_routed_def running_def split: tsx_state.splits)
  then show ?thesis using i f e by (simp add: tsx_inv_def)
qed

theorem tsx_step_ok:
  assumes i: "tsx_inv k td x" and c: "tsx_can h x" and h: "happening_ok h" and k: "k + retransmission h \<le> 30"
  shows "\<exists>y. tsx_step h x = Inr y \<and> tsx_inv (k + retransmission h) td y"
proof (cases h)
  case (Response env rdata)
  then obtain key where r: "fsm_ok env" "is_answer rdata" "key_of_response rdata = Inr key" using h by (auto simp: happening_ok_def)
  from response_step_ok [OF i _ _ r] c Response show ?thesis by (auto simp: retransmission_def)
next
  case (Terminate env code)
  with terminate_step_ok [OF i, of env code] c h show ?thesis by (auto simp: happening_ok_def retransmission_def)
next
  case (Advance ms)
  then show ?thesis using advance_ok [OF i] by (simp add: retransmission_def)
next
  case (Expire n)
  then have "running n x" using c by (auto simp: running_def split: option.splits)
  then show ?thesis using expire_ok [OF i] Expire by (simp add: retransmission_def)
next
  case (FireTimer env n)
  then have "n \<in> set (x_fired x)" "fsm_ok env" "k + of_bool (n = RetransmitTimer) \<le> 30"
    using c h k by (simp_all add: happening_ok_def retransmission_def)
  from fire_ok [OF i this] obtain y where "fire env n x = Inr y" "tsx_inv (k + of_bool (n = RetransmitTimer)) td y" by blast
  then show ?thesis using FireTimer by (simp add: retransmission_def)
next
  case (SentBack env t cb)
  with sent_back_ok [OF i, of t cb env] c h k show ?thesis by (simp add: happening_ok_def retransmission_def)
next
  case (TransportBack t sent)
  with transport_back_ok [OF i, of t sent] c show ?thesis by (simp add: retransmission_def)
next
  case (TransportState tp disconnected status)
  with transport_state_ok [OF i, of tp disconnected status] c show ?thesis by (simp add: retransmission_def)
next
  case (OtherRegisters ref)
  with other_registers_ok [OF i, of ref] c show ?thesis by (auto simp: retransmission_def)
next
  case (OtherUnregisters ref)
  with other_unregisters_ok [OF i, of ref] c show ?thesis by (auto simp: retransmission_def)
qed

theorem tsx_run_ok:
  assumes "tsx_inv k td x" and "list_all happening_ok hs" and "k + sum_list (map retransmission hs) \<le> 30"
  shows "\<exists>y. tsx_run hs x = Inr y \<and> tsx_inv 30 td y"
  using assms
proof (induction hs arbitrary: k x)
  case Nil
  then show ?case using inv_mono by auto
next
  case (Cons h hs)
  have r: "0 \<le> retransmission g" for g by (simp add: retransmission_def split: happening.split)
  have nn: "0 \<le> sum_list (map retransmission hs)" using r by (induction hs) (simp_all add: add_nonneg_nonneg)
  show ?case
  proof (cases "tsx_can h x")
    case True
    from tsx_step_ok [OF Cons.prems(1) True, of] Cons.prems nn obtain y where
      y: "tsx_step h x = Inr y" "tsx_inv (k + retransmission h) td y" by auto
    from Cons.IH [OF y(2)] Cons.prems y(1) True show ?thesis by (simp add: add.assoc)
  next
    case False
    then show ?thesis using Cons.IH [OF Cons.prems(1)] Cons.prems r [of h] by simp
  qed
qed

section \<open>Sending the request\<close>

text \<open>A new transaction with nothing under way; \<open>b\<close> and \<open>e\<close> as before.\<close>

definition unsent :: "tdata \<Rightarrow> int \<Rightarrow> int \<Rightarrow> transaction \<Rightarrow> bool" where
  "unsent td b e x \<longleftrightarrow>
     base td x \<and> x_state x = PJSIP_TSX_STATE_NULL \<and> idle x \<and> \<not> x_pend_transport x \<and> \<not> x_pend_resched x \<and> \<not> x_pend_send x \<and>
     \<not> x_resolved x \<and> \<not> x_freed x \<and> x_retransmit_count x = 0 \<and> extra x = b \<and> tx_extra (td_at td) x = e"

lemma send_routed_ok:
  assumes u: "unsent td b e x" and y: "young x" and q: "is_request td" "\<not> fe_is_pending env td" and env: "fsm_ok env"
    and b: "1 \<le> b" and k: "0 \<le> k" "k < 31"
  shows "\<exists>st z. tsx_send_msg env td x = Inr (st, z) \<and>
     (if st = PJ_SUCCESS then waits k td b e PJSIP_TSX_STATE_NULL z \<or> sent_out k td b e PJSIP_TSX_STATE_NULL z
      else fine k td b e z \<and> (x_state z = PJSIP_TSX_STATE_NULL \<or> x_state z = PJSIP_TSX_STATE_TERMINATED))"
proof -
  define x1 where "x1 = (pj_grp_lock_add_ref ((logged (TxAddRef (td_at td)) x)\<lparr>x_attached := [td_at td], x_pending_tx := Some td\<rparr>))
    \<lparr>x_pend_transport := True\<rparr>"
  obtain st cbs where r: "fe_route env x1 td = (st, cbs)" by (cases "fe_route env x1 td")
  have cbs: "list_all cb_ok cbs" using env r by (metis fsm_ok_def snd_conv)
  define x2 where "x2 = logged (RouteMessage td st) x1"
  have i: "x_routing x = []" "x_attached x = []" "x_waiting x = []" "x_fired x = []" "\<not> running TimeoutTimer x"
    "\<not> running RetransmitTimer x" "x_transport x = None" using u by (simp_all add: unsent_def idle_def)
  have x2: "base td x2" "young x2" "extra x2 = b + 1" "tx_extra (td_at td) x2 = e + 1" "\<not> x_freed x2" "x_retransmit_count x2 \<le> k"
    "x_state x2 = PJSIP_TSX_STATE_NULL" "x_routing x2 = []" "x_waiting x2 = []" "x_fired x2 = []" "x_transport x2 = None"
    "\<not> running RetransmitTimer x2" "x_attached x2 = [td_at td]" "x_pending_tx x2 = Some td" "x_pend_transport x2"
    "\<not> x_pend_resched x2" "\<not> x_pend_send x2" "\<not> x_resolved x2"
    using u y k i by (simp_all add: x2_def x1_def unsent_def change_defs)
  have rt: "with_routing k td b e x2" using x2 by (simp add: with_routing_def)
  have known: "tsx_send_known env td x = Inr (None, x)"
    using u q i by (simp add: tsx_send_known_def send_by_transport_def unsent_def)
  show ?thesis
  proof (cases "st = PJ_SUCCESS \<or> st = PJ_EPENDING")
    case True
    from route_callbacks_ok [OF rt cbs env k(2)] b obtain z where z: "route_callbacks env td cbs x2 = Inr z"
      "waits k td b e PJSIP_TSX_STATE_NULL z \<or> sent_out k td b e PJSIP_TSX_STATE_NULL z \<or>
       kept k td b e z \<and> x_state z = PJSIP_TSX_STATE_TERMINATED \<and> 0 < x_transport_err z" using x2(7) by auto
    have "tsx_send_msg env td x = Inr (if x_state z = PJSIP_TSX_STATE_TERMINATED then x_transport_err z else PJ_SUCCESS, z)"
      using True z(1) r i(2) by (auto simp: tsx_send_msg_def known x1_def [symmetric] x2_def Let_def)
    moreover have "x_state z \<noteq> PJSIP_TSX_STATE_TERMINATED"
      if "waits k td b e PJSIP_TSX_STATE_NULL z \<or> sent_out k td b e PJSIP_TSX_STATE_NULL z"
      using that by (auto simp: waits_def sent_out_def)
    moreover have "kept k td b e z \<Longrightarrow> fine k td b e z" using b by (simp add: kept_def fine_def secure_def)
    ultimately show ?thesis using z(2) by auto
  next
    case False
    define z where "z = (detach td (logged (TxDecRef (td_at td)) (pj_grp_lock_dec_ref x2)))\<lparr>x_pending_tx := None\<rparr>"
    have s: "secure (pj_grp_lock_dec_ref x2)" using x2 b by (intro secure_simps(5)) simp_all
    have "base td z" "young z" "extra z = b" "tx_extra (td_at td) z = e" "secure z" "x_state z = PJSIP_TSX_STATE_NULL"
      "x_retransmit_count z \<le> k" "x_attached z = []" "idle z"
      using x2 s i by (simp_all add: z_def detach_def change_defs idle_def) (simp add: x2_def x1_def)
    then have "fine k td b e z" "x_state z = PJSIP_TSX_STATE_NULL" by (simp_all add: fine_def phase_def)
    moreover have "tsx_send_msg env td x = Inr (st, z)"
      using False r i(2) q(1) by (simp add: tsx_send_msg_def known x1_def [symmetric] x2_def z_def Let_def)
    ultimately show ?thesis using False by auto
  qed
qed

lemma keep_same: "x_last_tx x = Some td \<Longrightarrow> keep_last td (drop_other td x) = x"
  by (simp add: keep_last_def drop_other_def)

lemma null_send_ok:
  assumes u: "unsent td b e x" and y: "young x" and q: "is_request td" "\<not> fe_is_pending env td" and env: "fsm_ok env"
    and b: "1 \<le> b" and k: "0 \<le> k" "k < 31"
  shows "\<exists>st z. tsx_on_state_null env (EvTx td) x = Inr (st, z) \<and> fine k td b e z \<and>
     (if st = PJ_SUCCESS then x_state z = PJSIP_TSX_STATE_CALLING
      else x_state z = PJSIP_TSX_STATE_NULL \<or> x_state z = PJSIP_TSX_STATE_TERMINATED)"
proof -
  have x: "x_role x = PJSIP_ROLE_UAC" "x_last_tx x = Some td" using u by (auto simp: unsent_def base_def)
  obtain st z where z: "tsx_send_msg env td x = Inr (st, z)"
     "if st = PJ_SUCCESS then waits k td b e PJSIP_TSX_STATE_NULL z \<or> sent_out k td b e PJSIP_TSX_STATE_NULL z
      else fine k td b e z \<and> (x_state z = PJSIP_TSX_STATE_NULL \<or> x_state z = PJSIP_TSX_STATE_TERMINATED)" using send_routed_ok [OF assms] by blast
  show ?thesis
  proof (cases "st = PJ_SUCCESS")
    case False
    then show ?thesis using z x by (simp add: tsx_on_state_null_def keep_same)
  next
    case True
    define z1 where "z1 = started TimeoutTimer (fe_td env) 2 (tsx_cancel_timer TimeoutTimer z)"
    have w: "waits k td b e PJSIP_TSX_STATE_NULL z \<or> sent_out k td b e PJSIP_TSX_STATE_NULL z" using z(2) True by simp
    have "secure z" using w b by (auto simp: waits_def sent_out_def secure_def)
    then have "secure z1" by (simp add: z1_def)
    have z1: "base td z1" "young z1" "timed z1" "x_state z1 = PJSIP_TSX_STATE_NULL" "being_routed td z1 \<or> connected z1"
      "extra z1 = b" "tx_extra (td_at td) z1 = e" "x_retransmit_count z1 \<le> k" "\<not> running RetransmitTimer z1"
      "being_routed td z1 \<Longrightarrow> x_pend_transport z1"
      using w by (auto simp: waits_def sent_out_def z1_def timed_def being_routed_def)
    have "\<exists>z2. (if x_is_reliable z1 then Inr z1 else start_retransmission (fe_t1 env) z1) = Inr z2 \<and>
        base td z2 \<and> young z2 \<and> timed z2 \<and> x_state z2 = PJSIP_TSX_STATE_NULL \<and> (being_routed td z2 \<or> connected z2) \<and> secure z2 \<and>
        extra z2 = b \<and> tx_extra (td_at td) z2 = e \<and> x_retransmit_count z2 \<le> k"
    proof -
      let ?r = "z1\<lparr>x_retransmit_count := 0\<rparr>"
      have r: "base td ?r" using z1(1) by (simp add: base_count)
      have br: "being_routed td (?r\<lparr>x_pend_resched := True\<rparr>) = being_routed td z1" by (simp add: being_routed_def)
      show ?thesis
      proof (cases "x_is_reliable z1")
        case True
        then show ?thesis using z1 \<open>secure z1\<close> by simp
      next
        case nr: False
        show ?thesis
        proof (cases "x_pend_transport z1")
          case True
          then show ?thesis using nr z1 \<open>secure z1\<close> r br k by (auto simp: start_retransmission_def Let_def)
        next
          case False
          then have "connected z1" using z1(5,10) by auto
          then have "connected ?r" "timed ?r" "\<not> running RetransmitTimer ?r" using z1 by simp_all
          then show ?thesis using nr False z1 \<open>secure z1\<close> r k by (simp add: start_retransmission_def Let_def schedule_eq timer_ids) (simp add: timed_def)
        qed
      qed
    qed
    then obtain z2 where z2: "(if x_is_reliable z1 then Inr z1 else start_retransmission (fe_t1 env) z1) = Inr z2"
        "base td z2" "young z2" "timed z2" "x_state z2 = PJSIP_TSX_STATE_NULL" "being_routed td z2 \<or> connected z2" "secure z2"
        "extra z2 = b" "tx_extra (td_at td) z2 = e" "x_retransmit_count z2 \<le> k" by blast
    define z3 where "z3 = tell PJSIP_TSX_STATE_NULL (SrcTxMsg td) (z2\<lparr>x_state := PJSIP_TSX_STATE_CALLING\<rparr>)"
    have "tsx_set_state env PJSIP_TSX_STATE_CALLING (SrcTxMsg td) False False z2 = Inr z3"
      using advance_eq [of z2 env PJSIP_TSX_STATE_CALLING "SrcTxMsg td"] z2(2,5) env by (simp add: z3_def base_def state_order)
    moreover have "base td z3" using z2(2,5) by (auto simp: base_def z3_def is_invite_def)
    moreover have "young z3" "timed z3" "being_routed td z3 \<or> connected z3"
      using z2(3,4,6) by (auto simp: z3_def young_def timed_def tell_calls being_routed_def connected_def)
    moreover have rel: "x_is_reliable z = x_is_reliable z1" by (simp add: z1_def)
    ultimately have "tsx_on_state_null env (EvTx td) x = Inr (PJ_SUCCESS, z3)"
      using z2(1) True z(1) x
      by (cases "x_is_reliable z1")
        (simp_all add: tsx_on_state_null_def keep_same done_with_def restart_eq timer_ids z1_def [symmetric])
    moreover have "x_state z3 = PJSIP_TSX_STATE_CALLING" "secure z3" "extra z3 = b" "tx_extra (td_at td) z3 = e"
      "x_retransmit_count z3 \<le> k" using z2 by (simp_all add: z3_def)
    ultimately show ?thesis
      using \<open>base td z3\<close> \<open>young z3\<close> \<open>timed z3\<close> \<open>being_routed td z3 \<or> connected z3\<close> by (simp add: fine_def phase_def)
  qed
qed

lemma first_send_ok:
  assumes u: "unsent td 0 0 x" and y: "young x" and q: "is_request td" "\<not> fe_is_pending env td" and env: "fsm_ok env"
  shows "\<exists>st z. pjsip_tsx_send_msg env None x = Inr (st, z) \<and>
     (if st = PJ_SUCCESS then tsx_inv 0 td z \<and> x_state z = PJSIP_TSX_STATE_CALLING
      else tsx_inv 0 td (logged (TxDecRef (td_at td)) z) \<and> (x_state z = PJSIP_TSX_STATE_NULL \<or> x_state z = PJSIP_TSX_STATE_TERMINATED))"
proof -
  have x: "x_last_tx x = Some td" "\<not> x_freed x" "x_state x = PJSIP_TSX_STATE_NULL" using u by (auto simp: unsent_def base_def)
  let ?x = "logged (TxSetTransport (td_at td) (x_tp_sel x)) (pj_grp_lock_add_ref x)"
  have i: "idle (pj_grp_lock_add_ref x) = idle x" by (simp add: idle_def)
  have "unsent td 1 0 ?x" using u by (simp add: unsent_def i change_defs)
  moreover have "young ?x" using y by simp
  ultimately obtain st z where z: "tsx_on_state_null env (EvTx td) ?x = Inr (st, z)" "fine 0 td 1 0 z"
     "if st = PJ_SUCCESS then x_state z = PJSIP_TSX_STATE_CALLING
      else x_state z = PJSIP_TSX_STATE_NULL \<or> x_state z = PJSIP_TSX_STATE_TERMINATED"
    using null_send_ok [of td 1 0 ?x env 0] q env by auto
  have "locked (\<lambda>x. state_handler env (EvTx td) (logged (TxSetTransport (td_at td) (x_tp_sel x)) x)) x =
      Inr (st, pj_grp_lock_dec_ref z)" using x z(1) by (simp add: locked_def state_handler_def)
  then show ?thesis using x z(3) inv_dec_tx [OF z(2)] by (simp add: pjsip_tsx_send_msg_def)
qed

text \<open>What \<open>pjsip_tsx_create_uac\<close> makes when it succeeds.\<close>

lemma with_branch_line:
  assumes "with_branch u msg = Inr (msg', br)"
  shows "line msg' = line msg"
proof -
  obtain m i where v: "with_via msg = (m, i)" by (cases "with_via msg")
  have "line m = line msg" using v by (auto simp: with_via_def pjsip_msg_insert_first_hdr_def split: option.splits)
  then show ?thesis using assms v by (auto simp: with_branch_def bind_res_def Let_def split: sum.splits if_splits)
qed

lemma uac_shape:
  assumes c: "pjsip_tsx_create_uac ce ModStatefulUtil td = Inr (PJ_SUCCESS, td', Some x)"
  shows "\<exists>m u n msg br rel ht key. line (t_msg (td_data td)) = ReqLine m u \<and>
    with_branch (ce_unique ce) (t_msg (td_data td)) = Inr (msg, br) \<and>
    td' = td\<lparr>td_data := (td_data td)\<lparr>t_msg := msg\<rparr>\<rparr> \<and>
    mod_tsx_layer_register_tsx (ce_layer ce) (key_ref (ce_addr ce) key) = Inr (PJ_SUCCESS, ht) \<and>
    x = (logged (TxAddRef (td_at td)) ((pj_grp_lock_add_ref (tsx_zero ce ModStatefulUtil))\<lparr>x_role := PJSIP_ROLE_UAC, x_method := pjsip_method_copy m,
           x_cseq := n, x_branch := br, x_ref := key_ref (ce_addr ce) key, x_last_tx := Some td'\<rparr>))\<lparr>x_is_reliable := rel, x_layer := ht\<rparr>"
proof -
  have l: "x_layer (tsx_zero ce ModStatefulUtil) = ce_layer ce" by (simp add: tsx_zero_def)
  show ?thesis
    using c
    by (clarsimp simp: pjsip_tsx_create_uac_def Let_def bind_res_Inr_iff tsx_create_def register_tsx_def fail_created_def l
        split: msg_line.splits if_splits option.splits) blast
qed

lemma uac_created:
  assumes c: "pjsip_tsx_create_uac ce ModStatefulUtil td = Inr (PJ_SUCCESS, td', Some x)"
    and h: "hash_inv True (ce_layer ce)" "\<forall>key. tsx_at (ce_layer ce) key \<noteq> Some (ce_addr ce)"
    and k: "key_ok True (transaction_key (x_ref x))" and m: "\<not> is_invite x"
  shows "unsent td' 0 0 x" and "is_request td'" and "x_status_code x = 0" and "util_calls (x_log x) = []" and "x_tp_sel x = None"
    and "td_at td' = td_at td"
proof -
  from uac_shape [OF c] obtain mt u n msg br rel ht key where s: "line (t_msg (td_data td)) = ReqLine mt u"
    "with_branch (ce_unique ce) (t_msg (td_data td)) = Inr (msg, br)" "td' = td\<lparr>td_data := (td_data td)\<lparr>t_msg := msg\<rparr>\<rparr>"
    "mod_tsx_layer_register_tsx (ce_layer ce) (key_ref (ce_addr ce) key) = Inr (PJ_SUCCESS, ht)"
    and x: "x = (logged (TxAddRef (td_at td)) ((pj_grp_lock_add_ref (tsx_zero ce ModStatefulUtil))\<lparr>x_role := PJSIP_ROLE_UAC, x_method := pjsip_method_copy mt,
           x_cseq := n, x_branch := br, x_ref := key_ref (ce_addr ce) key, x_last_tx := Some td'\<rparr>))\<lparr>x_is_reliable := rel, x_layer := ht\<rparr>"
    by blast
  note xs = x tsx_zero_def pj_grp_lock_add_ref_def logged_def timer0_def timer_ids
  show at: "td_at td' = td_at td" using s(3) by simp
  show "is_request td'" using s(1,3) with_branch_line [OF s(2)] by (simp add: is_request_def)
  show "x_status_code x = 0" "util_calls (x_log x) = []" "x_tp_sel x = None" by (simp_all add: xs change_defs)
  have ref: "x_ref x = key_ref (ce_addr ce) key" by (simp add: xs)
  have ne: "key \<noteq> []" using s(4) by (auto simp: mod_tsx_layer_register_tsx_def key_ref_def)
  have ok: "tsx_ref_ok (key_ref (ce_addr ce) key)" using k ne by (simp add: ref tsx_ref_ok_def key_ref_def)
  have free: "tsx_at (ce_layer ce) key = None"
    using s(4) ne h(1) by (auto simp: mod_tsx_layer_register_tsx_def key_ref_def pj_hash_get_lower_eq tsx_at_def PJ_EEXISTS_def split: if_splits)
  from register_tsx_eq [OF h(1) ok] free s(4) have ht: "hash_inv True ht"
    "hash_map True ht = (hash_map True (ce_layer ce))(lower_c key \<mapsto> ce_addr ce)" by (simp_all add: key_ref_def)
  have at_ht: "tsx_at ht k = Some (ce_addr ce) \<longleftrightarrow> lower_c k = lower_c key" for k
    using h(2) by (simp add: tsx_at_def ht(2))
  have "base td' x"
    using ok ht(1) at_ht m by (simp add: base_def) (simp add: xs key_ref_def change_defs is_invite_def)
  moreover have "idle x" "x_state x = PJSIP_TSX_STATE_NULL" "\<not> x_freed x" "x_retransmit_count x = 0" "\<not> x_pend_transport x"
    "\<not> x_pend_resched x" "\<not> x_pend_send x" "\<not> x_resolved x"
    by (simp_all add: idle_def running_def timer_of_def) (simp_all add: xs)
  moreover have "extra x = 0" "tx_extra (td_at td') x = 0"
    by (simp_all add: extra_def counted_def running_def timer_of_def tx_extra_def at) (simp_all add: xs change_defs)
  ultimately show "unsent td' 0 0 x" by (simp add: unsent_def)
qed

lemma set_transport_ok:
  assumes u: "unsent td 0 0 x" and s: "x_tp_sel x = None"
  shows "\<exists>y. pjsip_tsx_set_transport sel x = Inr y \<and> unsent td 0 0 y \<and> x_status_code y = x_status_code x \<and>
     util_calls (x_log y) = util_calls (x_log x)"
proof -
  have f: "\<not> x_freed x" "x_refs x \<noteq> 0" using u by (auto simp: unsent_def extra_def counted_def base_def)
  define y where "y = logged (SelectorAddRef sel) ((logged (SelectorDecRef None) x)\<lparr>x_tp_sel := sel\<rparr>)"
  have "pj_grp_lock_dec_ref (logged (SelectorAddRef sel) ((logged (SelectorDecRef None) (pj_grp_lock_add_ref x))\<lparr>x_tp_sel := sel\<rparr>)) = y"
    using f by (simp add: y_def pj_grp_lock_dec_ref_def pj_grp_lock_add_ref_def logged_def)
  then have "pjsip_tsx_set_transport sel x = Inr y"
    using f s by (simp add: pjsip_tsx_set_transport_def locked_def)
  moreover have "base td y"
    using u s by (auto simp: unsent_def base_def y_def is_invite_def change_defs)
  moreover have "idle y" "extra y = 0" "tx_extra (td_at td) y = 0"
    using u by (simp_all add: unsent_def y_def idle_def change_defs)
  ultimately show ?thesis using u by (auto simp: unsent_def) (simp_all add: y_def change_defs)
qed

theorem send_request_ok:
  assumes c: "pjsip_tsx_create_uac ce ModStatefulUtil td = Inr (PJ_SUCCESS, td', Some x0)"
    and h: "hash_inv True (ce_layer ce)" "\<forall>key. tsx_at (ce_layer ce) key \<noteq> Some (ce_addr ce)"
    and k: "key_ok True (transaction_key (x_ref x0))" and m: "\<not> is_invite x0"
    and env: "fsm_ok env" and p: "\<not> fe_is_pending env td'"
  shows "\<exists>st x. pjsip_endpt_send_request ce env sel td = Inr (st, td', Some x) \<and> tsx_inv 0 td' x \<and>
     (if st = PJ_SUCCESS then x_state x = PJSIP_TSX_STATE_CALLING
      else x_state x = PJSIP_TSX_STATE_NULL \<or> x_state x = PJSIP_TSX_STATE_TERMINATED)"
proof -
  note u = uac_created [OF c h k m]
  from set_transport_ok [OF u(1,5), of sel] obtain y where y: "pjsip_tsx_set_transport sel x0 = Inr y" "unsent td' 0 0 y"
    "x_status_code y = 0" "util_calls (x_log y) = []" using u(3,4) by auto
  let ?y = "y\<lparr>x_mod_data := True\<rparr>"
  have "unsent td' 0 0 ?y" using y(2) by (simp add: unsent_def idle_def)
  moreover have "young ?y" using y by (simp add: young_def)
  ultimately obtain st z where z: "pjsip_tsx_send_msg env None ?y = Inr (st, z)"
     "if st = PJ_SUCCESS then tsx_inv 0 td' z \<and> x_state z = PJSIP_TSX_STATE_CALLING else tsx_inv 0 td' (logged (TxDecRef (td_at td')) z) \<and>
       (x_state z = PJSIP_TSX_STATE_NULL \<or> x_state z = PJSIP_TSX_STATE_TERMINATED)"
    using first_send_ok u(2) p env by blast
  have "fe_util_id env \<noteq> -1" using env by (simp add: fsm_ok_def)
  then show ?thesis using c y(1) z by (cases "st = PJ_SUCCESS") (simp_all add: pjsip_endpt_send_request_def Let_def)
qed

end
