(* ===== verification/TsxLaws.thy ===== *)
theory TsxLaws
  imports TsxHistory
begin

text \<open>
  What a client transaction promises the one that sent the request: over any history nothing faults and
  all references balance, the callback is called exactly once with a true true_outcome, and the transaction
  can always be brought to its end. Also where it does not: a transport that goes away at the wrong
  moment, a request that cannot be sent, a message queued behind another, and the retransmission of
  provisional responses.
\<close>

section \<open>Requests\<close>

text \<open>
  A request that a transaction is made for: not an INVITE, with a key that has no null character and an
  address that is not in the table, and it is not on its way yet.
\<close>

definition can_send :: "create_env \<Rightarrow> fsm_env \<Rightarrow> tdata \<Rightarrow> tdata \<Rightarrow> bool" where
  "can_send ce env td td' \<longleftrightarrow>
     (\<exists>x. pjsip_tsx_create_uac ce ModStatefulUtil td = Inr (PJ_SUCCESS, td', Some x) \<and>
        key_ok True (transaction_key (x_ref x)) \<and> \<not> is_invite x) \<and>
     hash_inv True (ce_layer ce) \<and> (\<forall>key. tsx_at (ce_layer ce) key \<noteq> Some (ce_addr ce)) \<and>
     fsm_ok env \<and> \<not> fe_is_pending env td'"

lemma send_inv:
  assumes "can_send ce env td td'"
  shows "\<exists>st x. pjsip_endpt_send_request ce env sel td = Inr (st, td', Some x) \<and> tsx_inv 0 td' x \<and>
     (if st = PJ_SUCCESS then x_state x = PJSIP_TSX_STATE_CALLING
      else x_state x = PJSIP_TSX_STATE_NULL \<or> x_state x = PJSIP_TSX_STATE_TERMINATED)"
proof -
  from assms obtain x0 where c: "pjsip_tsx_create_uac ce ModStatefulUtil td = Inr (PJ_SUCCESS, td', Some x0)"
    "key_ok True (transaction_key (x_ref x0))" "\<not> is_invite x0" and h: "hash_inv True (ce_layer ce)"
    "\<forall>key. tsx_at (ce_layer ce) key \<noteq> Some (ce_addr ce)" "fsm_ok env" "\<not> fe_is_pending env td'"
    by (auto simp: can_send_def)
  show ?thesis by (rule send_request_ok [OF c(1) h(1,2) c(2,3) h(3,4)])
qed

text \<open>A history as it can be: the surroundings behave, and the retransmission timer fires at most 30 times.\<close>

definition history_ok :: "happening list \<Rightarrow> bool" where
  "history_ok hs \<longleftrightarrow> list_all happening_ok hs \<and> sum_list (map retransmission hs) \<le> 30"

lemma history_inv:
  assumes "can_send ce env td td'" and "pjsip_endpt_send_request ce env sel td = Inr (st, td', Some x)" and "history_ok hs"
  shows "\<exists>y. tsx_run hs x = Inr y \<and> tsx_inv 30 td' y"
  using send_inv [OF assms(1), of sel] assms(2,3) tsx_run_ok [of 0 td' x hs] by (auto simp: history_ok_def)

lemma all_back: "counted x = 0 \<longleftrightarrow> x_terminating x \<and> \<not> running TimeoutTimer x \<and> \<not> running RetransmitTimer x \<and>
    x_fired x = [] \<and> x_routing x = [] \<and> x_waiting x = []"
proof -
  have "counted x = int (of_bool (\<not> x_terminating x) + of_bool (running TimeoutTimer x) + of_bool (running RetransmitTimer x) +
     length (x_fired x) + length (x_routing x) + length (x_waiting x))" by (simp add: counted_def)
  then have "counted x = 0 \<longleftrightarrow> of_bool (\<not> x_terminating x) + of_bool (running TimeoutTimer x) + of_bool (running RetransmitTimer x) +
     length (x_fired x) + length (x_routing x) + length (x_waiting x) = (0 :: nat)" by linarith
  then show ?thesis by auto
qed

text \<open>
  C13: Whatever happens to a transaction that was made for a request, nothing faults: no assertion fails,
  nothing is used after it was freed. Every reference to its lock is accounted for by its being alive,
  a running or fired timer, a message being routed or one a transport has yet to report, and it is
  freed exactly when all of these are gone. It holds one reference to its transport, and once it is
  freed every reference to transports and selectors has been given back, and the caller's reference to
  the message is used up.
\<close>

theorem request_history_safe:
  assumes "can_send ce env td td'" and "pjsip_endpt_send_request ce env sel td = Inr (st, td', Some x)" and "history_ok hs"
  shows "\<exists>y. tsx_run hs x = Inr y \<and> x_refs y = counted y \<and>
     (x_freed y \<longleftrightarrow> x_state y = PJSIP_TSX_STATE_DESTROYED \<and> \<not> running TimeoutTimer y \<and> \<not> running RetransmitTimer y \<and>
        x_fired y = [] \<and> x_routing y = [] \<and> x_waiting y = []) \<and>
     (\<forall>t. tp_held (x_log y) t = of_bool (x_transport y = Some t)) \<and>
     (x_freed y \<longrightarrow> (\<forall>t. tp_held (x_log y) t = 0 \<and> sel_held (x_log y) t = 0) \<and> tx_held (x_log y) (td_at td') = -1)"
proof -
  from history_inv [OF assms] obtain y where y: "tsx_run hs x = Inr y" "tsx_inv 30 td' y" by blast
  then have b: "base td' y" and e: "x_refs y = counted y" and f: "x_freed y \<longleftrightarrow> x_refs y = 0"
    and t: "tx_extra (td_at td') y = -1" by (auto simp: tsx_inv_def extra_def)
  have g: "x_freed y \<longleftrightarrow> x_state y = PJSIP_TSX_STATE_DESTROYED \<and> \<not> running TimeoutTimer y \<and> \<not> running RetransmitTimer y \<and>
        x_fired y = [] \<and> x_routing y = [] \<and> x_waiting y = []"
    using b by (simp add: f e all_back base_def)
  have "x_freed y \<Longrightarrow> (\<forall>t. tp_held (x_log y) t = 0 \<and> sel_held (x_log y) t = 0) \<and> tx_held (x_log y) (td_at td') = -1"
    using g b t by (simp add: base_def tx_extra_def)
  moreover have "\<forall>t. tp_held (x_log y) t = of_bool (x_transport y = Some t)" using b by (simp add: base_def)
  ultimately show ?thesis using y(1) e g by blast
qed

text \<open>
  C14: The callback given to \<open>pjsip_endpt_send_request\<close> is called once and only once: not before the
  transaction has completed or terminated, and then with the status of a final response that came, with
  408 on the timeout, with 502 or 503 when the request could not be sent or the transport failed, or
  with the status the user ended it with. Until it is destroyed, and only until then, the transaction is
  the one found under its key.
\<close>

theorem request_answered_once:
  assumes "can_send ce env td td'" and "pjsip_endpt_send_request ce env sel td = Inr (st, td', Some x)" and "history_ok hs"
  shows "\<exists>y. tsx_run hs x = Inr y \<and>
     (if x_state y < PJSIP_TSX_STATE_COMPLETED then util_calls (x_log y) = []
      else \<exists>c. util_calls (x_log y) = [c] \<and> true_outcome c) \<and>
     (tsx_at (x_layer y) (transaction_key (x_ref y)) = Some (tsx_addr (x_ref y)) \<longleftrightarrow> x_state y \<noteq> PJSIP_TSX_STATE_DESTROYED)"
proof -
  from history_inv [OF assms] obtain y where y: "tsx_run hs x = Inr y" "tsx_inv 30 td' y" by blast
  then have b: "base td' y" and p: "phase td' y" by (auto simp: tsx_inv_def)
  have "if x_state y < PJSIP_TSX_STATE_COMPLETED then util_calls (x_log y) = [] else \<exists>c. util_calls (x_log y) = [c] \<and> true_outcome c"
    using p by (auto simp: phase_def young_def told_def state_order split: tsx_state.splits)
  then show ?thesis using y(1) b by (auto simp: base_def)
qed

section \<open>The end\<close>

lemma fire_ends:
  assumes "tsx_inv k td y" and "TimeoutTimer \<in> set (x_fired y)" and "fsm_ok env" and "k \<le> 30"
    and "x_state y < PJSIP_TSX_STATE_TERMINATED"
  shows "\<exists>z. tsx_run [FireTimer env TimeoutTimer, Expire TimeoutTimer, FireTimer env TimeoutTimer] y = Inr z \<and>
     tsx_inv k td z \<and> x_state z = PJSIP_TSX_STATE_DESTROYED"
proof -
  from fire_ok [OF assms(1-3)] assms(4,5) obtain z where
    z: "fire env TimeoutTimer y = Inr z" "tsx_inv k td z" "x_state z = PJSIP_TSX_STATE_TERMINATED" "ending z" by auto
  let ?w = "expire TimeoutTimer z"
  have r: "running TimeoutTimer z" using z(4) by (simp add: ending_def running_defs)
  have w: "tsx_inv k td ?w" "TimeoutTimer \<in> set (x_fired ?w)" "x_state ?w = PJSIP_TSX_STATE_TERMINATED"
    "tm_id (timer_of TimeoutTimer ?w) \<noteq> TRANSPORT_ERR_TIMER"
    using expire_ok [OF z(2) r] z(3,4) by (simp_all add: expire_def set_timer_def timer_of_def ending_def timer_ids)
  from fire_ok [OF w(1,2) assms(3)] assms(4) w(3,4) obtain v where
    "fire env TimeoutTimer ?w = Inr v" "tsx_inv k td v" "x_state v = PJSIP_TSX_STATE_DESTROYED" by auto
  moreover have "tsx_can (Expire TimeoutTimer) z" using z(4) by (simp add: timer_of_def ending_def)
  ultimately show ?thesis using z(1) w(2) assms(2) by simp
qed

text \<open>
  C15: A request always comes to its end by the clock alone: whatever has happened, while the request is
  under way or answered, once the time of the timeout timer has come, the timer and the one of the end
  destroy the transaction, with the callback called, and take it out of the table.
\<close>

theorem request_ends:
  assumes "can_send ce env td td'" and "pjsip_endpt_send_request ce env sel td = Inr (st, td', Some x)" and "history_ok hs"
    and "tsx_run hs x = Inr y" and "x_state y \<noteq> PJSIP_TSX_STATE_NULL" and "x_state y < PJSIP_TSX_STATE_TERMINATED"
    and "\<forall>t. tm_expiry (x_timeout y) = Some t \<longrightarrow> t \<le> x_now y + ms"
  shows "\<exists>z. tsx_run [Advance ms, Expire TimeoutTimer, FireTimer env TimeoutTimer, Expire TimeoutTimer, FireTimer env TimeoutTimer] y = Inr z \<and>
     x_state z = PJSIP_TSX_STATE_DESTROYED \<and> (\<exists>c. util_calls (x_log z) = [c] \<and> true_outcome c) \<and>
     tsx_at (x_layer z) (transaction_key (x_ref z)) \<noteq> Some (tsx_addr (x_ref z))"
proof -
  have i: "tsx_inv 30 td' y" using history_inv [OF assms(1-3)] assms(4) by auto
  have env: "fsm_ok env" using assms(1) by (simp add: can_send_def)
  let ?a = "y\<lparr>x_now := x_now y + ms\<rparr>"
  have a: "tsx_inv 30 td' ?a" by (rule advance_ok [OF i])
  define b where "b = (if running TimeoutTimer y then expire TimeoutTimer ?a else ?a)"
  have tm: "timed y" using i assms(5,6) by (auto simp: tsx_inv_def phase_def state_order split: tsx_state.splits)
  have b: "tsx_inv 30 td' b" "TimeoutTimer \<in> set (x_fired b)" "x_state b = x_state y"
    using expire_ok [OF a, of TimeoutTimer] a tm by (auto simp: b_def expire_def set_timer_def timed_def)
  have "tsx_run [Advance ms, Expire TimeoutTimer, FireTimer env TimeoutTimer, Expire TimeoutTimer, FireTimer env TimeoutTimer] y =
      tsx_run [FireTimer env TimeoutTimer, Expire TimeoutTimer, FireTimer env TimeoutTimer] b"
    using assms(7) by (auto simp: b_def running_defs timer_of_def)
  moreover from fire_ends [OF b(1,2) env] b(3) assms(6) obtain z where
    "tsx_run [FireTimer env TimeoutTimer, Expire TimeoutTimer, FireTimer env TimeoutTimer] b = Inr z"
    "tsx_inv 30 td' z" "x_state z = PJSIP_TSX_STATE_DESTROYED" by auto
  moreover from this have "(\<exists>c. util_calls (x_log z) = [c] \<and> true_outcome c) \<and>
     tsx_at (x_layer z) (transaction_key (x_ref z)) \<noteq> Some (tsx_addr (x_ref z))"
    by (auto simp: tsx_inv_def phase_def base_def told_def)
  ultimately show ?thesis by auto
qed

section \<open>A transaction that nothing ends\<close>

definition still :: "transaction \<Rightarrow> bool" where
  "still x \<longleftrightarrow> \<not> running TimeoutTimer x \<and> \<not> running RetransmitTimer x \<and> x_fired x = [] \<and> x_routing x = [] \<and> x_waiting x = []"

lemma still_step:
  assumes i: "tsx_inv k td x" and q: "still x" and s: "x_state x = PJSIP_TSX_STATE_TERMINATED \<or> x_state x = PJSIP_TSX_STATE_NULL"
    and c: "tsx_can h x" "happening_ok h" and t: "\<nexists>tp d st. h = TransportState tp d st"
    and n: "x_state x = PJSIP_TSX_STATE_NULL \<Longrightarrow> \<nexists>env code. h = Terminate env code"
  shows "\<exists>ht ms. tsx_step h x = Inr (x\<lparr>x_layer := ht, x_now := ms\<rparr>) \<and> tsx_inv k td (x\<lparr>x_layer := ht, x_now := ms\<rparr>)"
proof -
  have nt: "running m x = False" for m using q by (cases m) (simp_all add: still_def)
  have alive: "\<not> x_freed x" "1 \<le> x_refs x" using inv_alive [OF i] s by auto
  have same: "\<exists>ht ms. Inr x = Inr (x\<lparr>x_layer := ht, x_now := ms\<rparr>) \<and> tsx_inv k td (x\<lparr>x_layer := ht, x_now := ms\<rparr>)"
    by (rule exI [of _ "x_layer x"], rule exI [of _ "x_now x"]) (use i in simp)
  show ?thesis
  proof (cases h)
    case (Response env rdata)
    then obtain key where k: "key_of_response rdata = Inr key" using c(2) by (auto simp: happening_ok_def)
    have st: "x_state x = PJSIP_TSX_STATE_TERMINATED" using s c(1) Response by auto
    obtain hv where "pj_hash_get_lower (x_layer x) key 0 = Inr (tsx_at (x_layer x) key, hv)"
      using i by (auto simp: tsx_inv_def base_def pj_hash_get_lower_eq tsx_at_def)
    then show ?thesis using same Response k st by (simp add: mod_tsx_layer_on_rx_response_def)
  next
    case (Terminate env code)
    then have "x_state x = PJSIP_TSX_STATE_TERMINATED" "200 \<le> code" using s n c(2) by (auto simp: happening_ok_def)
    moreover have "pj_grp_lock_dec_ref (pj_grp_lock_add_ref x) = x" using alive by (intro dec_add) auto
    ultimately show ?thesis using same Terminate alive by (simp add: pjsip_tsx_terminate_def locked_def)
  next
    case (Advance ms)
    then show ?thesis using advance_ok [OF i, of "x_now x + ms"] by (intro exI [of _ "x_layer x"] exI [of _ "x_now x + ms"]) simp
  next
    case (OtherRegisters ref)
    from other_registers_ok [OF i, of ref] c(1) OtherRegisters obtain st ht where
      "mod_tsx_layer_register_tsx (x_layer x) ref = Inr (st, ht)" "tsx_inv k td (x\<lparr>x_layer := ht\<rparr>)" by auto
    then show ?thesis using OtherRegisters by (intro exI [of _ ht] exI [of _ "x_now x"]) simp
  next
    case (OtherUnregisters ref)
    from other_unregisters_ok [OF i, of ref] c(1) OtherUnregisters obtain ht where
      "mod_tsx_layer_unregister_tsx 0 (x_layer x) ref = Inr ht" "tsx_inv k td (x\<lparr>x_layer := ht\<rparr>)" by auto
    then show ?thesis using OtherUnregisters by (intro exI [of _ ht] exI [of _ "x_now x"]) simp
  qed (use c q nt t in \<open>auto simp: still_def running_def split: option.splits\<close>)
qed

lemma still_run:
  assumes "tsx_inv k td x" and "still x" and "x_state x = PJSIP_TSX_STATE_TERMINATED \<or> x_state x = PJSIP_TSX_STATE_NULL"
    and "list_all happening_ok hs" and "\<forall>h \<in> set hs. \<nexists>tp d st. h = TransportState tp d st"
    and "x_state x = PJSIP_TSX_STATE_NULL \<Longrightarrow> \<forall>h \<in> set hs. \<nexists>env code. h = Terminate env code"
  shows "\<exists>ht ms. tsx_run hs x = Inr (x\<lparr>x_layer := ht, x_now := ms\<rparr>) \<and> tsx_inv k td (x\<lparr>x_layer := ht, x_now := ms\<rparr>)"
  using assms
proof (induction hs arbitrary: x)
  case Nil
  then show ?case by (intro exI [of _ "x_layer x"] exI [of _ "x_now x"]) simp
next
  case (Cons h hs)
  show ?case
  proof (cases "tsx_can h x")
    case False
    then show ?thesis using Cons.IH [OF Cons.prems(1-3)] Cons.prems(4-6) by simp
  next
    case True
    from still_step [OF Cons.prems(1-3) True] Cons.prems(4-6) obtain ht ms where
      y: "tsx_step h x = Inr (x\<lparr>x_layer := ht, x_now := ms\<rparr>)" "tsx_inv k td (x\<lparr>x_layer := ht, x_now := ms\<rparr>)" by auto
    have "still (x\<lparr>x_layer := ht, x_now := ms\<rparr>)" using Cons.prems(2) by (simp add: still_def)
    from Cons.IH [OF y(2) this] Cons.prems(3-6) y(1) True show ?thesis by auto
  qed
qed

text \<open>
  C16: A transport that reports its end to a transaction that has terminated, in the moment before the
  timer of the end fires, leaves the transaction in the table for ever: its callback cancels that timer
  and posts a transport error instead, which a terminated transaction ignores. Nothing that happens
  then, short of a second report of that transport, destroys it or makes it give the transport back.
\<close>

theorem late_disconnect_strands:
  assumes "can_send ce env td td'" and "pjsip_endpt_send_request ce env sel td = Inr (st, td', Some x)" and "history_ok hs"
    and "tsx_run hs x = Inr y" and "x_state y = PJSIP_TSX_STATE_TERMINATED" and "x_transport y = Some tp"
    and "\<not> running RetransmitTimer y" and "x_fired y = []" and "x_routing y = []" and "x_waiting y = []"
    and "list_all happening_ok gs" and "\<forall>h \<in> set gs. \<nexists>tp d st. h = TransportState tp d st"
  shows "\<exists>z. tsx_run (TransportState tp True err # Expire TimeoutTimer # FireTimer env TimeoutTimer # gs) y = Inr z \<and>
     x_state z = PJSIP_TSX_STATE_TERMINATED \<and> \<not> x_freed z \<and> tp_held (x_log z) tp = 1 \<and>
     tsx_at (x_layer z) (transaction_key (x_ref z)) = Some (tsx_addr (x_ref z))"
proof -
  have i: "tsx_inv 30 td' y" using history_inv [OF assms(1-3)] assms(4) by auto
  have env: "fsm_ok env" using assms(1) by (simp add: can_send_def)
  define y1 where "y1 = started TimeoutTimer 0 3 (tsx_cancel_timer TimeoutTimer (y\<lparr>x_transport_err := err\<rparr>))"
  have s1: "tsx_step (TransportState tp True err) y = Inr y1" by (simp add: tsx_tp_state_callback_def post_error_eq y1_def)
  have i1: "tsx_inv 30 td' y1" using transport_state_ok [OF i assms(6), of True err] s1 by auto
  have t1: "x_timeout y1 = \<lparr>tm_id = 3, tm_expiry = Some (x_now y1)\<rparr>"
    by (simp add: y1_def started_def pj_grp_lock_add_ref_def set_timer_def)
  define y2 where "y2 = expire TimeoutTimer y1"
  have i2: "tsx_inv 30 td' y2" unfolding y2_def by (rule expire_ok [OF i1]) (simp add: running_defs t1)
  have y2: "x_fired y2 = [TimeoutTimer]" "tm_id (timer_of TimeoutTimer y2) = TRANSPORT_ERR_TIMER" "x_state y2 = PJSIP_TSX_STATE_TERMINATED"
    "\<not> x_freed y2" "\<not> running TimeoutTimer y2" "x_routing y2 = []" "x_waiting y2 = []" "x_transport y2 = Some tp"
    using inv_alive(1) [OF i2] t1 assms(5,6,8-10)
    by (simp_all add: y2_def expire_def set_timer_def timer_of_def timer_ids running_defs) (simp_all add: y1_def)
  have "running RetransmitTimer y2 = running RetransmitTimer y1" by (simp add: y2_def expire_def set_timer_def running_defs)
  then have r2: "\<not> running RetransmitTimer y2" using assms(7) by (simp add: y1_def)
  define z where "z = pj_grp_lock_dec_ref (id_cleared TimeoutTimer (y2\<lparr>x_fired := []\<rparr>))"
  have tid: "timer_of TimeoutTimer (y2\<lparr>x_fired := []\<rparr>) = timer_of TimeoutTimer y2" by (simp add: timer_of_def)
  have f: "fire env TimeoutTimer y2 = Inr z"
    using y2 tid by (simp add: fire_def tsx_timer_callback_def transport_error_event_def z_def id_cleared_def state_order
        set_timer_def)
  have iz: "tsx_inv 30 td' z" using fire_ok [OF i2 _ env] y2(1) f by auto
  have z: "still z" "x_state z = PJSIP_TSX_STATE_TERMINATED" "x_transport z = Some tp"
    using y2 r2 by (simp_all add: z_def still_def id_cleared_def set_timer_def timer_of_def running_defs)
  from still_run [OF iz z(1) _ assms(11,12)] z(2) obtain ht ms where
    w: "tsx_run gs z = Inr (z\<lparr>x_layer := ht, x_now := ms\<rparr>)" "tsx_inv 30 td' (z\<lparr>x_layer := ht, x_now := ms\<rparr>)" by auto
  let ?w = "z\<lparr>x_layer := ht, x_now := ms\<rparr>"
  have "tsx_run (TransportState tp True err # Expire TimeoutTimer # FireTimer env TimeoutTimer # gs) y = Inr ?w"
    using s1 assms(6) t1 y2(1) f w(1) by (simp add: timer_of_def y2_def [symmetric] del: tsx_step.simps(8))
  moreover have "base td' ?w" "\<not> x_freed ?w" using w(2) inv_alive(1) [OF w(2)] z(2) by (simp_all add: tsx_inv_def)
  ultimately show ?thesis using z(2,3) by (intro exI [of _ ?w]) (simp add: base_def)
qed

text \<open>The routing answers a request at once with a failure, whatever the transaction.\<close>

definition refuses :: "fsm_env \<Rightarrow> tdata \<Rightarrow> bool" where
  "refuses env td \<longleftrightarrow> (\<forall>z. fst (fe_route env z td) \<noteq> PJ_SUCCESS \<and> fst (fe_route env z td) \<noteq> PJ_EPENDING)"

lemma send_refused:
  assumes u: "unsent td b e x" and q: "is_request td" "\<not> fe_is_pending env td" and r: "refuses env td"
  shows "\<exists>w z. tsx_send_msg env td x = Inr (fst (fe_route env w td), z) \<and> x_state z = PJSIP_TSX_STATE_NULL"
proof -
  define x1 where "x1 = (pj_grp_lock_add_ref ((logged (TxAddRef (td_at td)) x)\<lparr>x_attached := [td_at td], x_pending_tx := Some td\<rparr>))
    \<lparr>x_pend_transport := True\<rparr>"
  have i: "x_attached x = []" "x_transport x = None" "x_state x = PJSIP_TSX_STATE_NULL" using u by (simp_all add: unsent_def idle_def)
  have known: "tsx_send_known env td x = Inr (None, x)"
    using u q i by (simp add: tsx_send_known_def send_by_transport_def unsent_def)
  obtain st cbs where e: "fe_route env x1 td = (st, cbs)" by (cases "fe_route env x1 td")
  with r have st: "st \<noteq> PJ_SUCCESS" "st \<noteq> PJ_EPENDING" by (metis refuses_def fst_conv)+
  define z where "z = (detach td (logged (TxDecRef (td_at td)) (pj_grp_lock_dec_ref (logged (RouteMessage td st) x1))))\<lparr>x_pending_tx := None\<rparr>"
  have "tsx_send_msg env td x = Inr (st, z)"
    using st e i(1) q(1) by (simp add: tsx_send_msg_def known x1_def [symmetric] z_def Let_def)
  moreover have "x_state z = PJSIP_TSX_STATE_NULL"
    using i(3) by (simp add: z_def x1_def detach_def pj_grp_lock_dec_ref_def pj_grp_lock_add_ref_def logged_def)
  ultimately show ?thesis using e by (metis fst_conv)
qed

lemma first_send_refused:
  assumes u: "unsent td 0 0 x" and q: "is_request td" "\<not> fe_is_pending env td" and r: "refuses env td"
  shows "\<exists>w z. pjsip_tsx_send_msg env None x = Inr (fst (fe_route env w td), z) \<and> x_state z = PJSIP_TSX_STATE_NULL"
proof -
  have x: "x_last_tx x = Some td" "\<not> x_freed x" "x_state x = PJSIP_TSX_STATE_NULL" "x_role x = PJSIP_ROLE_UAC"
    using u by (auto simp: unsent_def base_def)
  let ?x = "logged (TxSetTransport (td_at td) (x_tp_sel x)) (pj_grp_lock_add_ref x)"
  have i: "idle (pj_grp_lock_add_ref x) = idle x" by (simp add: idle_def)
  have "unsent td 1 0 ?x" using u by (simp add: unsent_def i change_defs)
  from send_refused [OF this q r] obtain w z where
    z: "tsx_send_msg env td ?x = Inr (fst (fe_route env w td), z)" "x_state z = PJSIP_TSX_STATE_NULL" by blast
  have "fst (fe_route env w td) \<noteq> PJ_SUCCESS" using r by (simp add: refuses_def)
  then have "tsx_on_state_null env (EvTx td) ?x = Inr (fst (fe_route env w td), z)"
    using z(1) x by (simp add: tsx_on_state_null_def keep_same)
  then have "locked (\<lambda>x. state_handler env (EvTx td) (logged (TxSetTransport (td_at td) (x_tp_sel x)) x)) x =
      Inr (fst (fe_route env w td), pj_grp_lock_dec_ref z)" using x by (simp add: locked_def state_handler_def)
  then show ?thesis using x z(2) by (auto simp: pjsip_tsx_send_msg_def)
qed

lemma request_refused:
  assumes "can_send ce env td td'" and r: "refuses env td'"
    and s: "pjsip_endpt_send_request ce env sel td = Inr (st, td', Some x)"
  shows "st \<noteq> PJ_SUCCESS \<and> (\<exists>w. st = fst (fe_route env w td')) \<and> x_state x = PJSIP_TSX_STATE_NULL"
proof -
  from assms(1) obtain x0 where c: "pjsip_tsx_create_uac ce ModStatefulUtil td = Inr (PJ_SUCCESS, td', Some x0)"
    and k: "key_ok True (transaction_key (x_ref x0))" "\<not> is_invite x0"
    and h: "hash_inv True (ce_layer ce)" "\<forall>key. tsx_at (ce_layer ce) key \<noteq> Some (ce_addr ce)"
    and env: "fsm_ok env" "\<not> fe_is_pending env td'" by (auto simp: can_send_def)
  note u = uac_created [OF c h k]
  from set_transport_ok [OF u(1,5), of sel] obtain y where y: "pjsip_tsx_set_transport sel x0 = Inr y" "unsent td' 0 0 y" by blast
  have "unsent td' 0 0 (y\<lparr>x_mod_data := True\<rparr>)" using y(2) by (simp add: unsent_def idle_def)
  from first_send_refused [OF this u(2) env(2) r] obtain w z where
    z: "pjsip_tsx_send_msg env None (y\<lparr>x_mod_data := True\<rparr>) = Inr (fst (fe_route env w td'), z)" "x_state z = PJSIP_TSX_STATE_NULL" by blast
  have ne: "fst (fe_route env w td') \<noteq> PJ_SUCCESS" using r by (simp add: refuses_def)
  have "fe_util_id env \<noteq> -1" using env by (simp add: fsm_ok_def)
  then have "pjsip_endpt_send_request ce env sel td = Inr (fst (fe_route env w td'), td', Some (logged (TxDecRef (td_at td')) z))"
    using c y(1) z(1) ne by (simp add: pjsip_endpt_send_request_def Let_def)
  with s z(2) ne show ?thesis by auto
qed

text \<open>
  C17: A request that the routing refuses at once leaves its transaction behind: the sender gets the
  error of the routing, the callback is not called, and the transaction stays in the table in state
  Null, with no timer that would end it, whatever happens unless its user terminates it.
\<close>

theorem refused_request_stays:
  assumes "can_send ce env td td'" and "refuses env td'" and "pjsip_endpt_send_request ce env sel td = Inr (st, td', Some x)"
    and "list_all happening_ok hs" and "\<forall>h \<in> set hs. \<nexists>env code. h = Terminate env code"
  shows "st \<noteq> PJ_SUCCESS \<and> (\<exists>w. st = fst (fe_route env w td')) \<and> (\<exists>y. tsx_run hs x = Inr y \<and> x_state y = PJSIP_TSX_STATE_NULL \<and> \<not> x_freed y \<and>
     util_calls (x_log y) = [] \<and> tsx_at (x_layer y) (transaction_key (x_ref y)) = Some (tsx_addr (x_ref y)))"
proof -
  from request_refused [OF assms(1-3)] have st: "st \<noteq> PJ_SUCCESS" "\<exists>w. st = fst (fe_route env w td')"
    and null: "x_state x = PJSIP_TSX_STATE_NULL" by blast+
  from send_inv [OF assms(1), of sel] assms(3) have i: "tsx_inv 0 td' x" by auto
  have idle: "idle x" using i null by (simp add: tsx_inv_def phase_def)
  then have q: "still x" by (simp add: idle_def still_def)
  define gs where "gs = filter (\<lambda>h. \<not> (\<exists>tp d st. h = TransportState tp d st)) hs"
  have skip: "tsx_run hs y = tsx_run (filter (\<lambda>h. \<not> (\<exists>tp d st. h = TransportState tp d st)) hs) y"
    if "list_all happening_ok hs" "tsx_inv 0 td' y" "x_state y = PJSIP_TSX_STATE_NULL"
      "\<forall>h \<in> set hs. \<nexists>env code. h = Terminate env code" for hs y
    using that
  proof (induction hs arbitrary: y)
    case (Cons h hs)
    have q: "still y" and nt: "x_transport y = None" using Cons.prems(2,3) by (simp_all add: tsx_inv_def phase_def idle_def still_def)
    show ?case
    proof (cases "(\<exists>tp d st. h = TransportState tp d st) \<or> \<not> tsx_can h y")
      case True
      then show ?thesis using Cons nt by auto
    next
      case False
      from still_step [OF Cons.prems(2) q, of h] Cons.prems False obtain ht ms where
        "tsx_step h y = Inr (y\<lparr>x_layer := ht, x_now := ms\<rparr>)" "tsx_inv 0 td' (y\<lparr>x_layer := ht, x_now := ms\<rparr>)" by auto
      then show ?thesis using Cons.IH [of "y\<lparr>x_layer := ht, x_now := ms\<rparr>"] Cons.prems False by simp
    qed
  qed simp
  have "list_all happening_ok gs" "\<forall>h \<in> set gs. \<nexists>tp d st. h = TransportState tp d st" "\<forall>h \<in> set gs. \<nexists>env code. h = Terminate env code"
    using assms(4,5) by (auto simp: gs_def list_all_iff)
  from still_run [OF i q _ this(1,2)] this(3) null obtain ht ms where
    w: "tsx_run gs x = Inr (x\<lparr>x_layer := ht, x_now := ms\<rparr>)" "tsx_inv 0 td' (x\<lparr>x_layer := ht, x_now := ms\<rparr>)" by auto
  let ?w = "x\<lparr>x_layer := ht, x_now := ms\<rparr>"
  have "tsx_run hs x = Inr ?w" using skip [OF assms(4) i null assms(5)] w(1) by (simp add: gs_def)
  moreover have "base td' ?w" "phase td' ?w" "\<not> x_freed ?w" using w(2) inv_alive(1) [OF w(2)] null by (simp_all add: tsx_inv_def)
  ultimately show ?thesis using st null by (auto simp: base_def phase_def young_def)
qed

section \<open>Sending while a message is on its way, and provisional responses\<close>

text \<open>
  A message sent while the transport has yet to report the one before is queued and the sender told that
  it was sent; when the transport then reports success nothing is sent, though the transaction no longer
  waits for anything. Only the callback of the routing looks at the queue.
\<close>

lemma queued_message_not_sent:
  assumes "x_pend_transport x" and "\<not> x_freed x" and "0 < x_refs x" and "0 \<le> sent"
  shows "\<exists>y z. tsx_send_msg env td x = Inr (PJ_SUCCESS, y) \<and> x_pend_send y \<and> transport_callback sent y = Inr z \<and>
     x_log z = x_log x \<and> x_pend_send z \<and> \<not> x_pend_transport z"
  using assms by (simp add: tsx_send_msg_def tsx_send_known_def transport_callback_def locked_def pj_grp_lock_add_ref_def
      pj_grp_lock_dec_ref_def)

text \<open>
  A server transaction of an INVITE retransmits its provisional response every minute; at the 31st time
  the shift by the count, whose result is not used for such a response, overflows.
\<close>

lemma provisional_retransmission_overflows:
  assumes "x_state x = PJSIP_TSX_STATE_PROCEEDING" and "x_role x = PJSIP_ROLE_UAS" and "x_last_tx x \<noteq> None"
    and "x_status_code x < 200" and "\<not> running RetransmitTimer x" and "\<not> x_pend_transport x" and "30 \<le> x_retransmit_count x"
  shows "state_handler env (EvTimer RetransmitTimer) x = Inl IntOverflow"
  using assms by (auto simp: state_handler_def tsx_on_state_proceeding_uas_def tsx_retransmit_def tsx_resched_retransmission_def)

section \<open>A request for the witnesses\<close>

definition sample_create :: "nat hash_table \<Rightarrow> create_env" where
  "sample_create ht = \<lparr>ce_pool = True, ce_lock = 0, ce_mutex = 0, ce_unique = ''u'', ce_tls = True, ce_addr = 7, ce_now = 0, ce_layer = ht\<rparr>"

definition sample_td :: tdata where
  "sample_td = \<lparr>td_at = 3, td_data = \<lparr>t_msg = rx_msg sample_register, saved_strict_route = None\<rparr>\<rparr>"

text \<open>The routing sends at once over a reliable transport, or refuses the message.\<close>

definition sample_fsm :: "bool \<Rightarrow> fsm_env" where
  "sample_fsm sends =
     \<lparr>fe_mod_id = 0, fe_util_id = 1, fe_t1 = 500, fe_t2 = 4000, fe_t4 = 5000, fe_td = 32000, fe_send = \<lambda>x td. PJ_SUCCESS,
      fe_route = \<lambda>x td. if sends
        then (PJ_SUCCESS, [\<lparr>sc_sent = 400, sc_tp = Some \<lparr>tp_at = 5, tp_reliable = True, tp_is_shutdown = False\<rparr>, sc_addr = ''a'', sc_cont = False\<rparr>])
        else (PJ_ENOMEM, []),
      fe_is_pending = \<lambda>td. False, fe_strerror = \<lambda>s. [], fe_ack = (0, [], False, ([], []), 0, 0)\<rparr>"

lemma sample_fsm_ok: "fsm_ok (sample_fsm b)"
  by (simp add: fsm_ok_def sample_fsm_def cb_ok_def)

definition sample_key :: string where
  "sample_key = ''c$REGISTER$z9hG4bK1''"

definition sample_made :: "nat hash_table \<Rightarrow> transaction" where
  "sample_made ht =
     (logged (TxAddRef 3) ((pj_grp_lock_add_ref (tsx_zero (sample_create ht) ModStatefulUtil))
        \<lparr>x_method := \<lparr>m_id = PJSIP_REGISTER_METHOD, m_name = ''REGISTER''\<rparr>, x_cseq := 1, x_branch := ''z9hG4bK1'',
         x_ref := key_ref 7 sample_key, x_last_tx := Some sample_td, x_is_reliable := True\<rparr>))"

lemma sample_request:
  "line (t_msg (td_data sample_td)) = ReqLine \<lparr>m_id = PJSIP_REGISTER_METHOD, m_name = ''REGISTER''\<rparr> (UriSip sample_url)"
  "find_named (t_msg (td_data sample_td)) PJSIP_H_CSEQ = Some sample_cseq" "cseq_of (Some sample_cseq) = Inr 1"
  "find_named (t_msg (td_data sample_td)) PJSIP_H_ROUTE = None"
  "with_branch u (t_msg (td_data sample_td)) = Inr (t_msg (td_data sample_td), ''z9hG4bK1'')"
  "create_tsx_key_3261 PJSIP_ROLE_UAC \<lparr>m_id = PJSIP_REGISTER_METHOD, m_name = ''REGISTER''\<rparr> ''z9hG4bK1'' = Inr sample_key"
  by (simp_all add: sample_td_def sample_defs find_named_def pjsip_msg_find_hdr_def find_start_def cseq_of_def with_branch_def
      with_via_def via_of_def via0_def key_3261_eq sample_key_def role_char_def key_method_def)

lemma sample_dest: "\<exists>dst. pjsip_get_request_dest True (td_data sample_td) = Inr (PJ_SUCCESS, dst) \<and> d_flag dst mod 2 = 1"
proof -
  have d: "pjsip_get_request_dest True (td_data sample_td) = pjsip_get_dest_info True (UriSip sample_url) (Some (UriSip sample_url))"
    using sample_request(1,4) by (simp add: pjsip_get_request_dest_def request_uri_def)
  have "case pjsip_get_dest_info True (UriSip sample_url) (Some (UriSip sample_url)) of
      Inr (st, dst) \<Rightarrow> st = PJ_SUCCESS \<and> d_flag dst mod 2 = 1 | Inl f \<Rightarrow> False" by code_simp
  then show ?thesis by (auto simp: d split: sum.splits)
qed

lemma sample_created:
  assumes "hash_inv True ht" and "hash_map True ht = (\<lambda>k. None)"
  shows "\<exists>ht'. pjsip_tsx_create_uac (sample_create ht) ModStatefulUtil sample_td = Inr (PJ_SUCCESS, sample_td, Some ((sample_made ht)\<lparr>x_layer := ht'\<rparr>))"
proof -
  obtain dst where d: "pjsip_get_request_dest True (td_data sample_td) = Inr (PJ_SUCCESS, dst)" "d_flag dst mod 2 = 1" using sample_dest by blast
  have ok: "tsx_ref_ok (key_ref 7 sample_key)" by (simp add: tsx_ref_ok_def key_ref_def sample_key_def key_ok_def del: pj_hash_calc_tolower.simps)
  have "tsx_at ht (transaction_key (key_ref 7 sample_key)) = None" using assms(2) by (simp add: tsx_at_def)
  from register_tsx_eq [OF assms(1) ok this] obtain ht' where
    "mod_tsx_layer_register_tsx ht (key_ref 7 sample_key) = Inr (PJ_SUCCESS, ht')" by blast
  then show ?thesis using d sample_request
    by (simp add: pjsip_tsx_create_uac_def tsx_create_def register_tsx_def sample_create_def sample_made_def tsx_zero_def
        pj_grp_lock_add_ref_def logged_def pjsip_method_copy_def) (simp add: sample_td_def)
qed

lemma sample_can_send:
  assumes "hash_inv True ht" and "hash_map True ht = (\<lambda>k. None)"
  shows "can_send (sample_create ht) (sample_fsm b) sample_td sample_td"
proof -
  obtain ht' where c: "pjsip_tsx_create_uac (sample_create ht) ModStatefulUtil sample_td =
      Inr (PJ_SUCCESS, sample_td, Some ((sample_made ht)\<lparr>x_layer := ht'\<rparr>))" using sample_created [OF assms] by blast
  have "key_ok True sample_key" by (simp add: key_ok_def sample_key_def)
  moreover have "x_ref ((sample_made ht)\<lparr>x_layer := ht'\<rparr>) = key_ref 7 sample_key" "\<not> is_invite ((sample_made ht)\<lparr>x_layer := ht'\<rparr>)"
    by (simp_all add: sample_made_def is_invite_def)
  moreover have "\<forall>key. tsx_at ht key \<noteq> Some a" for a using assms(2) by (simp add: tsx_at_def)
  ultimately show ?thesis using c assms(1) sample_fsm_ok [of b]
    by (auto simp: can_send_def sample_create_def key_ref_def sample_fsm_def)
qed

text \<open>What comes of sending it.\<close>

lemmas sample_steps = pjsip_endpt_send_request_def pjsip_tsx_set_transport_def pjsip_tsx_send_msg_def locked_def state_handler_def
  tsx_on_state_null_def keep_last_def drop_other_def tsx_send_msg_def tsx_send_known_def send_by_transport_def send_msg_callback_def
  routing_sent_def tsx_update_transport_def drop_tsx_transport_def restart_timer_def tsx_cancel_timer_def tsx_schedule_timer_def
  set_timer_def timer_of_def running_def tsx_set_state_def notify_state_def notify_response_def mod_util_on_tsx_state_def done_with_def
  detach_def pj_grp_lock_add_ref_def pj_grp_lock_dec_ref_def logged_def timer_ids state_order timer0_def is_request_def

lemma sample_sent:
  assumes "hash_inv True ht" and "hash_map True ht = (\<lambda>k. None)"
  shows "\<exists>x. pjsip_endpt_send_request (sample_create ht) (sample_fsm True) None sample_td = Inr (PJ_SUCCESS, sample_td, Some x) \<and>
     x_state x = PJSIP_TSX_STATE_CALLING \<and> x_transport x = Some 5 \<and> x_timeout x = \<lparr>tm_id = 2, tm_expiry = Some 32000\<rparr> \<and>
     x_retransmit x = timer0 \<and> x_fired x = [] \<and> x_routing x = [] \<and> x_waiting x = [] \<and> x_now x = 0 \<and>
     x_user x = Some ModStatefulUtil \<and> \<not> x_freed x \<and> \<not> x_pend_transport x \<and> x_refs x = 2 \<and> x_mod_data x"
proof -
  obtain ht' where c: "pjsip_tsx_create_uac (sample_create ht) ModStatefulUtil sample_td =
      Inr (PJ_SUCCESS, sample_td, Some ((sample_made ht)\<lparr>x_layer := ht'\<rparr>))" using sample_created [OF assms] by blast
  have t: "td_at sample_td = 3" by (simp add: sample_td_def)
  show ?thesis
    by (simp add: sample_steps c) (simp add: sample_steps sample_made_def tsx_zero_def sample_fsm_def sample_create_def t)
qed

lemma sample_refused:
  assumes "hash_inv True ht" and "hash_map True ht = (\<lambda>k. None)"
  shows "\<exists>x. pjsip_endpt_send_request (sample_create ht) (sample_fsm False) None sample_td = Inr (PJ_ENOMEM, sample_td, Some x) \<and>
     x_state x = PJSIP_TSX_STATE_NULL"
proof -
  obtain ht' where c: "pjsip_tsx_create_uac (sample_create ht) ModStatefulUtil sample_td =
      Inr (PJ_SUCCESS, sample_td, Some ((sample_made ht)\<lparr>x_layer := ht'\<rparr>))" using sample_created [OF assms] by blast
  have t: "td_at sample_td = 3" by (simp add: sample_td_def)
  show ?thesis
    by (simp add: sample_steps c) (simp add: sample_steps sample_made_def tsx_zero_def sample_fsm_def sample_create_def t
        PJ_ENOMEM_def PJ_EPENDING_def sample_request(1) Let_def)
qed

lemma sample_table: "\<exists>ht :: nat hash_table. pj_hash_create 1023 = Some ht \<and> hash_inv True ht \<and> hash_map True ht = (\<lambda>k. None)"
proof -
  obtain ht where c: "pj_hash_create 1023 = Some (ht :: nat hash_table)" using create_some [of 1023] by auto
  then show ?thesis using create_inv [OF c, of True] by blast
qed

text \<open>The request times out.\<close>

definition sample_timeout :: "happening list" where
  "sample_timeout = [Advance 32000, Expire TimeoutTimer, FireTimer (sample_fsm True) TimeoutTimer]"

lemma sample_timeout_ok: "history_ok sample_timeout"
  by (simp add: history_ok_def sample_timeout_def happening_ok_def retransmission_def sample_fsm_ok)

theorem request_history_safe_witness:
  "\<exists>ht st x y. pj_hash_create 1023 = Some ht \<and>
     pjsip_endpt_send_request (sample_create ht) (sample_fsm True) None sample_td = Inr (st, sample_td, Some x) \<and>
     tsx_run sample_timeout x = Inr y \<and> x_refs y = counted y"
proof -
  obtain ht :: "nat hash_table" where h: "pj_hash_create 1023 = Some ht" "hash_inv True ht" "hash_map True ht = (\<lambda>k. None)"
    using sample_table by blast
  from sample_sent [OF h(2,3)] obtain x where
    s: "pjsip_endpt_send_request (sample_create ht) (sample_fsm True) None sample_td = Inr (PJ_SUCCESS, sample_td, Some x)" by blast
  from request_history_safe [OF sample_can_send [OF h(2,3)] s sample_timeout_ok] s h(1) show ?thesis by blast
qed

theorem request_answered_once_witness:
  "\<exists>ht st x y. pj_hash_create 1023 = Some ht \<and>
     pjsip_endpt_send_request (sample_create ht) (sample_fsm True) None sample_td = Inr (st, sample_td, Some x) \<and>
     tsx_run sample_timeout x = Inr y \<and> (if x_state y < PJSIP_TSX_STATE_COMPLETED then util_calls (x_log y) = []
      else \<exists>c. util_calls (x_log y) = [c] \<and> true_outcome c)"
proof -
  obtain ht :: "nat hash_table" where h: "pj_hash_create 1023 = Some ht" "hash_inv True ht" "hash_map True ht = (\<lambda>k. None)"
    using sample_table by blast
  from sample_sent [OF h(2,3)] obtain x where
    s: "pjsip_endpt_send_request (sample_create ht) (sample_fsm True) None sample_td = Inr (PJ_SUCCESS, sample_td, Some x)" by blast
  from request_answered_once [OF sample_can_send [OF h(2,3)] s sample_timeout_ok] s h(1) show ?thesis by blast
qed

lemma no_history: "history_ok []"
  by (simp add: history_ok_def)

theorem request_ends_witness:
  "\<exists>ht x z. pj_hash_create 1023 = Some ht \<and>
     pjsip_endpt_send_request (sample_create ht) (sample_fsm True) None sample_td = Inr (PJ_SUCCESS, sample_td, Some x) \<and>
     tsx_run [Advance 32000, Expire TimeoutTimer, FireTimer (sample_fsm True) TimeoutTimer, Expire TimeoutTimer,
       FireTimer (sample_fsm True) TimeoutTimer] x = Inr z \<and> x_state z = PJSIP_TSX_STATE_DESTROYED"
proof -
  obtain ht :: "nat hash_table" where h: "pj_hash_create 1023 = Some ht" "hash_inv True ht" "hash_map True ht = (\<lambda>k. None)"
    using sample_table by blast
  from sample_sent [OF h(2,3)] obtain x where
    s: "pjsip_endpt_send_request (sample_create ht) (sample_fsm True) None sample_td = Inr (PJ_SUCCESS, sample_td, Some x)"
    and x: "x_state x = PJSIP_TSX_STATE_CALLING" "x_timeout x = \<lparr>tm_id = 2, tm_expiry = Some 32000\<rparr>" by blast
  have "tsx_run [] x = Inr x" "x_state x \<noteq> PJSIP_TSX_STATE_NULL" "x_state x < PJSIP_TSX_STATE_TERMINATED"
    "\<forall>t. tm_expiry (x_timeout x) = Some t \<longrightarrow> t \<le> x_now x + 32000" using x by (simp_all add: state_order)
  from request_ends [OF sample_can_send [OF h(2,3)] s no_history this] s h(1) show ?thesis by blast
qed

lemma sample_terminated:
  assumes "x_state x = PJSIP_TSX_STATE_CALLING" and "x_transport x = Some 5" and "x_timeout x = \<lparr>tm_id = 2, tm_expiry = Some 32000\<rparr>"
    and "x_retransmit x = timer0" and "x_fired x = []" and "x_routing x = []" and "x_waiting x = []" and "x_user x = Some ModStatefulUtil"
    and "\<not> x_freed x" and "\<not> x_pend_transport x" and "x_refs x = 2" and "x_mod_data x"
  shows "\<exists>y. tsx_run [Terminate (sample_fsm True) 487] x = Inr y \<and> x_state y = PJSIP_TSX_STATE_TERMINATED \<and> x_transport y = Some 5 \<and>
        \<not> running RetransmitTimer y \<and> x_fired y = [] \<and> x_routing y = [] \<and> x_waiting y = []"
  using assms by (simp add: sample_steps sample_fsm_def pjsip_tsx_terminate_def tsx_set_status_code_def forget_pending_def Let_def)

theorem late_disconnect_strands_witness:
  "\<exists>ht x y z. pj_hash_create 1023 = Some ht \<and>
     pjsip_endpt_send_request (sample_create ht) (sample_fsm True) None sample_td = Inr (PJ_SUCCESS, sample_td, Some x) \<and>
     tsx_run [Terminate (sample_fsm True) 487] x = Inr y \<and>
     tsx_run [TransportState 5 True 70020, Expire TimeoutTimer, FireTimer (sample_fsm True) TimeoutTimer, Advance 1000000] y = Inr z \<and>
     x_state z = PJSIP_TSX_STATE_TERMINATED \<and> tp_held (x_log z) 5 = 1"
proof -
  obtain ht :: "nat hash_table" where h: "pj_hash_create 1023 = Some ht" "hash_inv True ht" "hash_map True ht = (\<lambda>k. None)"
    using sample_table by blast
  from sample_sent [OF h(2,3)] obtain x where
    s: "pjsip_endpt_send_request (sample_create ht) (sample_fsm True) None sample_td = Inr (PJ_SUCCESS, sample_td, Some x)"
    and x: "\<exists>y. tsx_run [Terminate (sample_fsm True) 487] x = Inr y \<and> x_state y = PJSIP_TSX_STATE_TERMINATED \<and> x_transport y = Some 5 \<and>
        \<not> running RetransmitTimer y \<and> x_fired y = [] \<and> x_routing y = [] \<and> x_waiting y = []" using sample_terminated by blast
  have ok: "history_ok [Terminate (sample_fsm True) 487]"
    by (simp add: history_ok_def happening_ok_def retransmission_def sample_fsm_ok)
  from x obtain y where y:
    "tsx_run [Terminate (sample_fsm True) 487] x = Inr y" "x_state y = PJSIP_TSX_STATE_TERMINATED" "x_transport y = Some 5"
    "\<not> running RetransmitTimer y" "x_fired y = []" "x_routing y = []" "x_waiting y = []" by blast
  have g: "list_all happening_ok [Advance 1000000]" "\<forall>h \<in> set [Advance 1000000]. \<nexists>tp d st. h = TransportState tp d st"
    by (simp_all add: happening_ok_def)
  from late_disconnect_strands [OF sample_can_send [OF h(2,3)] s ok y g, of 70020] s h(1) y(1) show ?thesis by blast
qed

theorem refused_request_stays_witness:
  "\<exists>ht x y. pj_hash_create 1023 = Some ht \<and>
     pjsip_endpt_send_request (sample_create ht) (sample_fsm False) None sample_td = Inr (PJ_ENOMEM, sample_td, Some x) \<and>
     tsx_run [Advance 1000000] x = Inr y \<and> x_state y = PJSIP_TSX_STATE_NULL \<and> util_calls (x_log y) = []"
proof -
  obtain ht :: "nat hash_table" where h: "pj_hash_create 1023 = Some ht" "hash_inv True ht" "hash_map True ht = (\<lambda>k. None)"
    using sample_table by blast
  from sample_refused [OF h(2,3)] obtain x where
    s: "pjsip_endpt_send_request (sample_create ht) (sample_fsm False) None sample_td = Inr (PJ_ENOMEM, sample_td, Some x)"
    by blast
  have r: "refuses (sample_fsm False) sample_td"
    by (simp add: refuses_def sample_fsm_def PJ_ENOMEM_def PJ_EPENDING_def)
  have g: "list_all happening_ok [Advance 1000000]" "\<forall>h \<in> set [Advance 1000000]. \<nexists>env code. h = Terminate env code"
    by (simp_all add: happening_ok_def)
  from refused_request_stays [OF sample_can_send [OF h(2,3)] r s g] s h(1) show ?thesis by blast
qed

end
